(* ===== verification/Prelude.thy ===== *)
theory Prelude
  imports Main "HOL-Library.Multiset" "HOL-Library.List_Lexorder" "HOL-Library.Product_Lexorder"
begin

text \<open>
  What every component shares: Python strings as lists of code points, the exceptions
  of the library as values of a sum type, the result combinators that the models are
  written with, and general lemmas on lists and association lists (the model of an
  insertion-ordered Python dict).
\<close>

section \<open>Strings\<close>

text \<open>
  A Python string is a sequence of code points (lone surrogates included), compared
  lexicographically by code point. \<open>lit ''abc''\<close> is the string literal.
\<close>

type_synonym pystr = "nat list"

definition lit :: "string \<Rightarrow> pystr" where
  "lit s = map of_char s"

section \<open>Exceptions and results\<close>

text \<open>
  The exceptions of \<open>errors.py\<close> and the two execution errors of \<open>dataflow.py\<close> and
  \<open>window_fold.py\<close>. Their message texts are not modelled. \<open>CallbackError\<close> stands for
  whatever exception a user callback raises, \<open>ValueError\<close> for the errors of the JSON
  decoder, \<open>KeyError\<close> for a failed dict lookup.
\<close>

datatype pyexc =
    ValidationError
  | LateEventError
  | FlowExecutionError pystr
  | WindowFoldExecutionError pystr pystr int
  | ValueError
  | KeyError
  | CallbackError nat

type_synonym 'a res = "pyexc + 'a"

named_theorems res_simps \<open>equations of the result combinators\<close>

fun rbind :: "'a res \<Rightarrow> ('a \<Rightarrow> 'b res) \<Rightarrow> 'b res" where
  "rbind (Inl e) f = Inl e"
| "rbind (Inr x) f = f x"

definition check :: "bool \<Rightarrow> unit res" where
  "check b = (if b then Inr () else Inl ValidationError)"

text \<open>Sequential evaluation of a loop body over a list: it stops at the first exception.\<close>

fun fold_res :: "('a \<Rightarrow> 's \<Rightarrow> 's res) \<Rightarrow> 'a list \<Rightarrow> 's \<Rightarrow> 's res" where
  "fold_res f [] s = Inr s"
| "fold_res f (x # xs) s = rbind (f x s) (fold_res f xs)"

fun map_res :: "('a \<Rightarrow> 'b res) \<Rightarrow> 'a list \<Rightarrow> 'b list res" where
  "map_res f [] = Inr []"
| "map_res f (x # xs) = rbind (f x) (\<lambda>y. rbind (map_res f xs) (\<lambda>ys. Inr (y # ys)))"

lemma rbind_eq_Inr [simp, res_simps]: "rbind m f = Inr y \<longleftrightarrow> (\<exists>x. m = Inr x \<and> f x = Inr y)"
  by (cases m) auto

lemma check_eq_Inr [simp, res_simps]: "check b = Inr u \<longleftrightarrow> b"
  by (simp add: check_def)

lemma check_True [simp]: "check True = Inr ()"
  by (simp add: check_def)

lemma check_False [simp]: "check False = Inl ValidationError"
  by (simp add: check_def)

lemma rbind_check [simp]: "rbind (check b) f = (if b then f () else Inl ValidationError)"
  by (simp add: check_def)

lemma rbind_assoc: "rbind (rbind m f) g = rbind m (\<lambda>x. rbind (f x) g)"
  by (cases m) auto

lemma if_error_eq_Inr [simp, res_simps]:
  "(if b then Inl e else m) = Inr y \<longleftrightarrow> \<not> b \<and> m = Inr y"
  by simp

lemma fold_res_append:
  "fold_res f (xs @ ys) s = rbind (fold_res f xs s) (fold_res f ys)"
proof (induction xs arbitrary: s)
  case (Cons x xs)
  then show ?case by (cases "f x s") simp_all
qed simp

text \<open>The invariant rule of a loop: what every iteration keeps holds after the loop.\<close>

lemma fold_res_invariant:
  assumes "fold_res f xs s = Inr t" and "P s"
    and "\<And>x s t. x \<in> set xs \<Longrightarrow> P s \<Longrightarrow> f x s = Inr t \<Longrightarrow> P t"
  shows "P t"
  using assms by (induction xs arbitrary: s) auto

text \<open>The same with an invariant that mentions the part of the list already done.\<close>

lemma fold_res_prefix:
  assumes "fold_res f xs s = Inr t" and "P [] s"
    and "\<And>ys x zs s t. xs = ys @ x # zs \<Longrightarrow> P ys s \<Longrightarrow> f x s = Inr t \<Longrightarrow> P (ys @ [x]) t"
  shows "P xs t"
  using assms
proof (induction xs arbitrary: t rule: rev_induct)
  case (snoc x xs)
  obtain u where u: "fold_res f xs s = Inr u" "f x u = Inr t"
    using snoc.prems(1) by (auto simp: fold_res_append)
  have "P xs u"
    by (rule snoc.IH [OF u(1) snoc.prems(2)]) (rule snoc.prems(3), simp_all)
  then show ?case using u(2) snoc.prems(3) [of xs x "[]"] by simp
qed simp

lemma map_res_eq_Inr:
  "map_res f xs = Inr ys \<longleftrightarrow> list_all2 (\<lambda>x y. f x = Inr y) xs ys"
  by (induction xs arbitrary: ys) (auto simp: list_all2_Cons1)

lemma map_res_all_Inr:
  "(\<And>x. x \<in> set xs \<Longrightarrow> f x = Inr (g x)) \<Longrightarrow> map_res f xs = Inr (map g xs)"
  by (induction xs) auto

section \<open>Insertion-ordered dicts\<close>

text \<open>
  A Python dict as an association list with distinct keys: an assignment to a present
  key keeps its place, a new key goes to the end.
\<close>

type_synonym ('k, 'v) dict = "('k \<times> 'v) list"

fun dput :: "'k \<Rightarrow> 'v \<Rightarrow> ('k, 'v) dict \<Rightarrow> ('k, 'v) dict" where
  "dput k v [] = [(k, v)]"
| "dput k v ((k', v') # d) = (if k' = k then (k, v) # d else (k', v') # dput k v d)"

definition ddel :: "'k \<Rightarrow> ('k, 'v) dict \<Rightarrow> ('k, 'v) dict" where
  "ddel k d = filter (\<lambda>kv. fst kv \<noteq> k) d"

abbreviation dget :: "('k, 'v) dict \<Rightarrow> 'k \<Rightarrow> 'v option" where
  "dget \<equiv> map_of"

abbreviation dkeys :: "('k, 'v) dict \<Rightarrow> 'k list" where
  "dkeys d \<equiv> map fst d"

definition dict_ok :: "('k, 'v) dict \<Rightarrow> bool" where
  "dict_ok d \<longleftrightarrow> distinct (dkeys d)"

lemma dget_dput [simp]: "dget (dput k v d) = (dget d)(k \<mapsto> v)"
  by (induction d) auto

lemma dget_ddel [simp]: "dget (ddel k d) = (dget d)(k := None)"
  by (induction d) (auto simp: ddel_def)

lemma dkeys_dput: "dkeys (dput k v d) = (if k \<in> set (dkeys d) then dkeys d else dkeys d @ [k])"
proof (induction d)
  case (Cons e d)
  then show ?case by (cases e) simp
qed simp

lemma dict_ok_Nil [simp, intro!]: "dict_ok []"
  by (simp add: dict_ok_def)

lemma dict_ok_dput [simp]: "dict_ok d \<Longrightarrow> dict_ok (dput k v d)"
  by (simp add: dict_ok_def dkeys_dput)

lemma dict_ok_ddel [simp]: "dict_ok d \<Longrightarrow> dict_ok (ddel k d)"
  by (induction d) (auto simp: dict_ok_def ddel_def)

lemma dict_ok_filter [simp]: "dict_ok d \<Longrightarrow> dict_ok (filter P d)"
  by (induction d) (auto simp: dict_ok_def)

lemma dget_None_iff: "dget d k = None \<longleftrightarrow> k \<notin> set (dkeys d)"
  by (simp add: map_of_eq_None_iff)

lemma ddel_not_in: "k \<notin> set (dkeys d) \<Longrightarrow> ddel k d = d"
  by (induction d) (auto simp: ddel_def)

text \<open>Sums over the entries of a dict, as the accounting of the components uses them.\<close>

lemma sum_list_dput:
  fixes f :: "'k \<times> 'v \<Rightarrow> int"
  assumes "dict_ok d"
  shows "(\<Sum>e\<leftarrow>dput k v d. f e)
       = (\<Sum>e\<leftarrow>d. f e) + f (k, v) - (case dget d k of None \<Rightarrow> 0 | Some w \<Rightarrow> f (k, w))"
  using assms
proof (induction d)
  case (Cons e d)
  then show ?case by (cases e) (simp add: dict_ok_def)
qed simp

lemma sum_list_ddel:
  fixes f :: "'k \<times> 'v \<Rightarrow> int"
  assumes "dict_ok d"
  shows "(\<Sum>e\<leftarrow>ddel k d. f e)
       = (\<Sum>e\<leftarrow>d. f e) - (case dget d k of None \<Rightarrow> 0 | Some w \<Rightarrow> f (k, w))"
  using assms
proof (induction d)
  case Nil
  then show ?case by (simp add: ddel_def)
next
  case (Cons e d)
  obtain k' v' where e: "e = (k', v')" by (cases e)
  show ?case
  proof (cases "k' = k")
    case True
    with Cons.prems e have "ddel k d = d" by (auto simp: dict_ok_def intro: ddel_not_in)
    with True e show ?thesis by (simp add: ddel_def)
  next
    case False
    with Cons e show ?thesis by (auto simp: ddel_def dict_ok_def)
  qed
qed

lemma length_dput:
  "length (dput k v d) = (case dget d k of None \<Rightarrow> Suc (length d) | Some _ \<Rightarrow> length d)"
  by (induction d) (auto split: option.splits)

lemma length_ddel:
  assumes "dict_ok d"
  shows "int (length (ddel k d)) = int (length d) - (case dget d k of None \<Rightarrow> 0 | Some _ \<Rightarrow> 1)"
  using sum_list_ddel [OF assms, of "\<lambda>_. 1" k]
  by (simp add: sum_list_triv split: option.splits)

lemma set_dput:
  "dict_ok d \<Longrightarrow> set (dput k v d) = insert (k, v) {e \<in> set d. fst e \<noteq> k}"
proof (induction d)
  case (Cons e d)
  then show ?case by (cases e) (auto simp: dict_ok_def)
qed simp

lemma dict_ok_map_of_iff: "dict_ok d \<Longrightarrow> dget d k = Some v \<longleftrightarrow> (k, v) \<in> set d"
  by (simp add: dict_ok_def)

lemma sort_key_fst_perm:
  "set (sort_key fst d) = set d" "length (sort_key fst d) = length d"
  "dict_ok d \<Longrightarrow> dict_ok (sort_key fst d)"
  by (simp_all add: dict_ok_def) (metis mset_map mset_sort mset_eq_imp_distinct_iff)

lemma dget_sort_key: "dict_ok d \<Longrightarrow> dget (sort_key fst d) = dget d"
  using sort_key_fst_perm(3) [of d] by (auto simp: dict_ok_def intro!: map_of_eqI)

lemma sum_list_sort_int: "(\<Sum>e\<leftarrow>sort_key f d. g e :: int) = (\<Sum>e\<leftarrow>d. g e)"
  by (metis mset_map mset_sort sum_mset_sum_list)

lemma dput_new: "k \<notin> set (dkeys d) \<Longrightarrow> dput k v d = d @ [(k, v)]"
  by (induction d) auto

text \<open>Removing selected entries, as the drains do.\<close>

lemma fold_ddel: "fold ddel ks d = filter (\<lambda>e. fst e \<notin> set ks) d"
proof (induction ks arbitrary: d)
  case (Cons k ks)
  then show ?case by (simp add: ddel_def conj_commute)
qed simp

lemma sum_ddel_selected:
  fixes f :: "'k \<times> 'v \<Rightarrow> int"
  assumes "dict_ok d" "distinct (map fst sel)" "set sel \<subseteq> set d"
  shows "(\<Sum>e\<leftarrow>fold ddel (map fst sel) d. f e) = (\<Sum>e\<leftarrow>d. f e) - (\<Sum>e\<leftarrow>sel. f e)"
  using assms
proof (induction sel arbitrary: d)
  case (Cons e sel)
  have g: "dget d (fst e) = Some (snd e)" using Cons.prems by (simp add: dict_ok_map_of_iff)
  have "e' \<in> set (ddel (fst e) d)" if e': "e' \<in> set sel" for e'
  proof -
    have "e' \<in> set d" using e' Cons.prems(3) by auto
    moreover have "fst e' \<noteq> fst e" using e' Cons.prems(2) by (auto simp: image_iff)
    ultimately show ?thesis by (simp add: ddel_def)
  qed
  moreover have "dict_ok (ddel (fst e) d)" using Cons.prems(1) by simp
  ultimately have "(\<Sum>x\<leftarrow>fold ddel (map fst sel) (ddel (fst e) d). f x) = (\<Sum>x\<leftarrow>ddel (fst e) d. f x) - (\<Sum>x\<leftarrow>sel. f x)"
    using Cons.IH [of "ddel (fst e) d"] Cons.prems(2) by (auto simp: subset_iff)
  then show ?case using sum_list_ddel [OF Cons.prems(1), of f "fst e"] g by simp
qed simp

lemma sum_fold_ddel:
  fixes f :: "'k::linorder \<times> 'v \<Rightarrow> int"
  assumes d: "dict_ok d" and sel: "sort_key fst d = sel @ rest"
  shows "(\<Sum>e\<leftarrow>fold ddel (map fst sel) d. f e) = (\<Sum>e\<leftarrow>d. f e) - (\<Sum>e\<leftarrow>sel. f e)"
    and "int (length (fold ddel (map fst sel) d)) = int (length d) - int (length sel)"
    and "sort_key fst (fold ddel (map fst sel) d) = rest"
proof -
  have dist: "distinct (map fst (sel @ rest))"
    using sort_key_fst_perm(3) [OF d] sel by (simp add: dict_ok_def)
  have "sort_key fst (fold ddel (map fst sel) d) = filter (\<lambda>e. fst e \<notin> set (map fst sel)) (sort_key fst d)"
    by (simp add: fold_ddel filter_sort)
  also have "\<dots> = rest"
    using dist by (auto simp: sel filter_empty_conv filter_id_conv)
  finally show s: "sort_key fst (fold ddel (map fst sel) d) = rest" .
  have "(\<Sum>e\<leftarrow>fold ddel (map fst sel) d. f e) = (\<Sum>e\<leftarrow>rest. f e)"
    using s sum_list_sort_int [of f fst "fold ddel (map fst sel) d"] by simp
  moreover have "(\<Sum>e\<leftarrow>d. f e) = (\<Sum>e\<leftarrow>sel. f e) + (\<Sum>e\<leftarrow>rest. f e)"
    using sum_list_sort_int [of f fst d] sel by simp
  ultimately show "(\<Sum>e\<leftarrow>fold ddel (map fst sel) d. f e) = (\<Sum>e\<leftarrow>d. f e) - (\<Sum>e\<leftarrow>sel. f e)" by simp
  have "length (fold ddel (map fst sel) d) = length rest" using s by (metis length_sort)
  moreover have "length d = length sel + length rest" using sel by (metis length_append length_sort)
  ultimately show "int (length (fold ddel (map fst sel) d)) = int (length d) - int (length sel)" by simp
qed

section \<open>Binary search\<close>

text \<open>
  The least index in \<open>[low, high)\<close> at which a monotone predicate holds, else \<open>high\<close>.
\<close>

function bisect :: "(nat \<Rightarrow> bool) \<Rightarrow> nat \<Rightarrow> nat \<Rightarrow> nat" where
  "bisect p low high =
     (if low < high
      then (let middle = (low + high) div 2
            in if p middle then bisect p low middle else bisect p (middle + 1) high)
      else low)"
  by pat_completeness auto
termination
  by (relation "measure (\<lambda>(p, low, high). high - low)") auto

declare bisect.simps [simp del]

lemma bisect_correct:
  assumes "low \<le> high"
    and "\<And>i j. low \<le> i \<Longrightarrow> i \<le> j \<Longrightarrow> j < high \<Longrightarrow> p i \<Longrightarrow> p j"
  shows "low \<le> bisect p low high \<and> bisect p low high \<le> high
    \<and> (\<forall>i. low \<le> i \<and> i < high \<longrightarrow> (p i \<longleftrightarrow> bisect p low high \<le> i))"
  using assms
proof (induction p low high rule: bisect.induct)
  case (1 p low high)
  show ?case
  proof (cases "low < high")
    case False
    with "1.prems"(1) have "low = high" by simp
    then show ?thesis by (auto simp: bisect.simps [of p high high])
  next
    case True
    define m where "m = (low + high) div 2"
    from True have m: "low \<le> m" "m < high" by (auto simp: m_def)
    show ?thesis
    proof (cases "p m")
      case True
      have mono: "p j" if "low \<le> i" "i \<le> j" "j < m" "p i" for i j
        using "1.prems"(2) [of i j] m that by simp
      have IH: "low \<le> bisect p low m \<and> bisect p low m \<le> m
          \<and> (\<forall>i. low \<le> i \<and> i < m \<longrightarrow> (p i \<longleftrightarrow> bisect p low m \<le> i))"
        by (rule "1.IH"(1) [OF \<open>low < high\<close> m_def True m(1)]) (rule mono)
      have "p i" if "m \<le> i" "i < high" for i
        using "1.prems"(2) [of m i] m True that by simp
      moreover have "bisect p low high = bisect p low m"
        using \<open>low < high\<close> True by (simp add: bisect.simps [of p low high] m_def)
      ultimately show ?thesis using IH m by (metis le_trans less_imp_le not_le)
    next
      case False
      have mono: "p j" if "m + 1 \<le> i" "i \<le> j" "j < high" "p i" for i j
        using "1.prems"(2) [of i j] m that by simp
      have IH: "m + 1 \<le> bisect p (m + 1) high \<and> bisect p (m + 1) high \<le> high
          \<and> (\<forall>i. m + 1 \<le> i \<and> i < high \<longrightarrow> (p i \<longleftrightarrow> bisect p (m + 1) high \<le> i))"
        by (rule "1.IH"(2) [OF \<open>low < high\<close> m_def False])
          (use m in linarith, rule mono)
      have "\<not> p i" if "low \<le> i" "i \<le> m" for i
        using "1.prems"(2) [of i m] m False that by auto
      moreover have "bisect p low high = bisect p (m + 1) high"
        using \<open>low < high\<close> False by (simp add: bisect.simps [of p low high] m_def)
      moreover have "p i \<longleftrightarrow> bisect p (m + 1) high \<le> i" if "low \<le> i" "i < high" for i
        using IH calculation(1) [of i] that by (cases "i \<le> m") auto
      ultimately show ?thesis using IH m by auto
    qed
  qed
qed

end
