(* ===== verification/Py_Float.thy ===== *)
theory Py_Float
  imports Prelude
begin

text \<open>
  Python's \<open>float\<close>: IEEE 754 binary64 with rounding to nearest, ties to even. A finite
  value is \<open>Fin n\<close> for the real number \<open>n * 2^-1074\<close> (\<open>2^-1074\<close> is the least positive
  double, so every finite double is such an integer multiple); the negative zero, the
  infinities and NaN are constructors of their own. All operations compute on integers.
  The lemmas give what the window arithmetic needs: rounding is monotone and exact on
  doubles, and \<open>nextafter\<close> leaves no double out.
\<close>

datatype pyfloat = Fin int | NegZero | PosInf | NegInf | NaN

definition fscale :: int where "fscale = 2 ^ 1074"
definition fbound :: int where "fbound = 2 ^ 2098"

lemma fscale_pos [simp]: "0 < fscale" by (simp add: fscale_def)
lemma fbound_pos [simp]: "0 < fbound" by (simp add: fbound_def)
lemma fscale_nonneg [simp]: "0 \<le> fscale" by (simp add: fscale_def)
lemma not_fbound_le_0 [simp]: "\<not> fbound \<le> 0" by (simp add: fbound_def)

section \<open>Rounding\<close>

fun blen :: "nat \<Rightarrow> nat" where
  "blen n = (if n = 0 then 0 else Suc (blen (n div 2)))"

declare blen.simps [simp del]

text \<open>\<open>excess n\<close>: how many low bits of an integer lie below the 53-bit significand.\<close>

definition excess :: "nat \<Rightarrow> nat" where
  "excess n = blen n - 53"

text \<open>The quotient \<open>p / d\<close> rounded half to even.\<close>

definition rhe :: "nat \<Rightarrow> nat \<Rightarrow> nat" where
  "rhe p d = (let q = p div d; r = p mod d
              in if 2 * r < d then q
                 else if d < 2 * r then q + 1
                 else if even q then q else q + 1)"

text \<open>The ratio \<open>p / q\<close> rounded to 53 significant bits (never below one unit).\<close>

definition round_ratio :: "nat \<Rightarrow> nat \<Rightarrow> nat" where
  "round_ratio p q = (let k = excess (p div q) in rhe p (q * 2 ^ k) * 2 ^ k)"

definition rnd :: "int \<Rightarrow> int" where
  "rnd n = sgn n * int (round_ratio (nat \<bar>n\<bar>) 1)"

text \<open>An integer number of units is a double.\<close>

definition is_double :: "int \<Rightarrow> bool" where
  "is_double n \<longleftrightarrow> 2 ^ excess (nat \<bar>n\<bar>) dvd n"

subsection \<open>Bit lengths\<close>

lemma blen_0 [simp]: "blen 0 = 0"
  by (simp add: blen.simps)

lemma blen_upper: "n < 2 ^ blen n"
proof (induction n rule: blen.induct)
  case (1 n)
  show ?case
  proof (cases "n = 0")
    case False
    with "1.IH" have "n div 2 < 2 ^ blen (n div 2)" by simp
    then have "n < 2 * 2 ^ blen (n div 2)" by linarith
    with False show ?thesis by (simp add: blen.simps [of n])
  qed simp
qed

lemma blen_lower: "0 < n \<Longrightarrow> 2 ^ (blen n - 1) \<le> n"
proof (induction n rule: blen.induct)
  case (1 n)
  show ?case
  proof (cases "n div 2 = 0")
    case True
    with "1.prems" show ?thesis by (simp add: blen.simps [of n])
  next
    case False
    with "1.IH" "1.prems" have IH: "2 ^ (blen (n div 2) - 1) \<le> n div 2" by simp
    have "0 < blen (n div 2)" using False by (simp add: blen.simps [of "n div 2"])
    then have "2 ^ blen (n div 2) = 2 * (2::nat) ^ (blen (n div 2) - 1)"
      by (cases "blen (n div 2)") simp_all
    with IH "1.prems" show ?thesis by (simp add: blen.simps [of n])
  qed
qed

lemma blen_le_iff: "blen n \<le> k \<longleftrightarrow> n < 2 ^ k"
proof
  assume "blen n \<le> k"
  then have "(2::nat) ^ blen n \<le> 2 ^ k" by simp
  with blen_upper [of n] show "n < 2 ^ k" by linarith
next
  assume less: "n < 2 ^ k"
  show "blen n \<le> k"
  proof (rule ccontr)
    assume "\<not> blen n \<le> k"
    then have k: "k \<le> blen n - 1" and "0 < n" by (auto intro: Nat.gr0I)
    from k have "(2::nat) ^ k \<le> 2 ^ (blen n - 1)" by simp
    with blen_lower [OF \<open>0 < n\<close>] less show False by linarith
  qed
qed

lemma blen_mono: "m \<le> n \<Longrightarrow> blen m \<le> blen n"
  by (meson blen_le_iff blen_upper le_less_trans)

lemma excess_mono: "m \<le> n \<Longrightarrow> excess m \<le> excess n"
  by (simp add: excess_def blen_mono diff_le_mono)

lemma excess_upper: "n < 2 ^ (53 + excess n)"
  by (simp add: excess_def flip: blen_le_iff)

lemma excess_lower: "0 < excess n \<Longrightarrow> 2 ^ (52 + excess n) \<le> n"
proof -
  assume "0 < excess n"
  then have "52 + excess n = blen n - 1" and "0 < n"
    by (auto simp: excess_def intro: Nat.gr0I)
  then show ?thesis using blen_lower by simp
qed

lemma excess_le_iff: "excess n \<le> k \<longleftrightarrow> n < 2 ^ (53 + k)"
  by (auto simp: excess_def simp flip: blen_le_iff)

lemma excess_le: "m \<le> 2 ^ 53 \<Longrightarrow> 2 ^ excess (m * 2 ^ k) dvd m * (2::nat) ^ k"
proof (cases "m = 2 ^ 53")
  case True
  then have "excess (m * 2 ^ k) \<le> Suc k"
    by (simp add: excess_le_iff power_add)
  then have "(2::nat) ^ excess (m * 2 ^ k) dvd 2 ^ Suc k" by (rule le_imp_power_dvd)
  also have "2 ^ Suc k dvd m * 2 ^ k" using True by (auto intro!: mult_dvd_mono)
  finally show ?thesis .
next
  case False
  assume "m \<le> 2 ^ 53"
  with False have "m * 2 ^ k < 2 ^ (53 + k)" by (simp add: power_add)
  then have "excess (m * 2 ^ k) \<le> k" by (simp add: excess_le_iff)
  then have "(2::nat) ^ excess (m * 2 ^ k) dvd 2 ^ k" by (rule le_imp_power_dvd)
  then show ?thesis by (rule dvd_mult)
qed

subsection \<open>Rounding half to even\<close>

lemma rhe_bounds: "p div d \<le> rhe p d" "rhe p d \<le> p div d + 1"
  by (simp_all add: rhe_def Let_def)

lemma rhe_exact: "0 < d \<Longrightarrow> rhe (c * d) d = c"
  by (simp add: rhe_def)

lemma rhe_mono:
  assumes "p \<le> p'"
  shows "rhe p d \<le> rhe p' d"
proof (cases "p div d = p' div d")
  case True
  have "p = p div d * d + p mod d" and "p' = p' div d * d + p' mod d" by simp_all
  with True assms have "p mod d \<le> p' mod d" by (metis nat_add_left_cancel_le)
  with True show ?thesis by (simp add: rhe_def Let_def)
next
  case False
  with assms have "p div d + 1 \<le> p' div d"
    using div_le_mono [of p p' d] by simp
  then show ?thesis
    using rhe_bounds(2) [of p d] rhe_bounds(1) [of p' d] by linarith
qed

lemma rhe_scale: "0 < c \<Longrightarrow> rhe (p * c) (d * c) = rhe p d"
proof -
  assume c: "0 < c"
  have "(p * c) mod (d * c) = (p mod d) * c" by (simp add: mod_mult_mult2)
  moreover have "2 * (r * c) < d * c \<longleftrightarrow> 2 * r < d" for r
    using c by (metis mult.assoc mult_less_cancel2)
  moreover have "d * c < 2 * (r * c) \<longleftrightarrow> d < 2 * r" for r
    using c by (metis mult.assoc mult_less_cancel2)
  ultimately show ?thesis using c by (simp add: rhe_def Let_def)
qed

lemma round_ratio_scale: "0 < c \<Longrightarrow> round_ratio (p * c) (q * c) = round_ratio p q"
proof -
  assume c: "0 < c"
  then have "rhe (p * c) (q * c * 2 ^ k) = rhe p (q * 2 ^ k)" for k
    using rhe_scale [OF c, of p "q * 2 ^ k"] by (simp add: ac_simps)
  with c show ?thesis by (simp add: round_ratio_def Let_def)
qed

lemma round_ratio_upper:
  assumes "0 < q"
  shows "round_ratio p q \<le> 2 ^ (53 + excess (p div q))"
proof -
  define k where "k = excess (p div q)"
  have "p div q < 2 ^ (53 + k)" unfolding k_def by (rule excess_upper)
  then have "p < 2 ^ (53 + k) * q"
    using assms by (simp add: div_less_iff_less_mult)
  then have "p \<le> 2 ^ 53 * (q * 2 ^ k)" by (simp add: power_add ac_simps)
  then have "rhe p (q * 2 ^ k) \<le> rhe (2 ^ 53 * (q * 2 ^ k)) (q * 2 ^ k)" by (rule rhe_mono)
  also have "\<dots> = 2 ^ 53" using assms by (intro rhe_exact) simp
  finally have "rhe p (q * 2 ^ k) * 2 ^ k \<le> 2 ^ 53 * 2 ^ k" by (rule mult_le_mono1)
  then show ?thesis by (simp add: round_ratio_def Let_def k_def power_add)
qed

lemma round_ratio_lower:
  assumes "0 < q" and "0 < excess (p div q)"
  shows "2 ^ (52 + excess (p div q)) \<le> round_ratio p q"
proof -
  define k where "k = excess (p div q)"
  have "2 ^ (52 + k) \<le> p div q" unfolding k_def using assms(2) by (rule excess_lower)
  then have "2 ^ (52 + k) * q \<le> p" using assms(1) by (simp add: less_eq_div_iff_mult_less_eq)
  then have "2 ^ 52 * (q * 2 ^ k) \<le> p" by (simp add: power_add ac_simps)
  then have "rhe (2 ^ 52 * (q * 2 ^ k)) (q * 2 ^ k) \<le> rhe p (q * 2 ^ k)" by (rule rhe_mono)
  moreover have "rhe (2 ^ 52 * (q * 2 ^ k)) (q * 2 ^ k) = 2 ^ 52"
    using assms(1) by (intro rhe_exact) simp
  ultimately have "2 ^ 52 * 2 ^ k \<le> rhe p (q * 2 ^ k) * 2 ^ k" by simp
  then show ?thesis by (simp add: round_ratio_def Let_def k_def power_add)
qed

lemma round_ratio_mono:
  assumes "0 < q" and "p \<le> p'"
  shows "round_ratio p q \<le> round_ratio p' q"
proof -
  have le: "excess (p div q) \<le> excess (p' div q)"
    using assms(2) by (intro excess_mono div_le_mono)
  show ?thesis
  proof (cases "excess (p div q) = excess (p' div q)")
    case True
    then show ?thesis using rhe_mono [OF assms(2)] by (simp add: round_ratio_def Let_def)
  next
    case False
    with le have less: "excess (p div q) < excess (p' div q)" by simp
    then have "(2::nat) ^ (53 + excess (p div q)) \<le> 2 ^ (52 + excess (p' div q))"
      by (intro power_increasing) simp_all
    then show ?thesis
      using round_ratio_upper [OF assms(1), of p] round_ratio_lower [OF assms(1), of p'] less
      by linarith
  qed
qed

lemma round_ratio_double: "0 < q \<Longrightarrow> 2 ^ excess (round_ratio p q) dvd round_ratio p q"
proof -
  assume q: "0 < q"
  have "rhe p (q * 2 ^ excess (p div q)) \<le> 2 ^ 53"
  proof -
    have "rhe p (q * 2 ^ excess (p div q)) * 2 ^ excess (p div q) \<le> 2 ^ 53 * 2 ^ excess (p div q)"
      using round_ratio_upper [OF q, of p] by (simp add: round_ratio_def Let_def power_add)
    then show ?thesis by (simp only: mult_le_cancel2) simp
  qed
  then show ?thesis unfolding round_ratio_def Let_def by (rule excess_le)
qed

lemma round_ratio_exact: "2 ^ excess n dvd n \<Longrightarrow> round_ratio n 1 = n"
proof -
  assume "2 ^ excess n dvd n"
  then obtain c where "n = c * 2 ^ excess n" by (auto simp: mult.commute elim: dvdE)
  then have "rhe n (2 ^ excess n) = c" using rhe_exact [of "2 ^ excess n" c] by simp
  with \<open>n = c * 2 ^ excess n\<close> show ?thesis by (simp add: round_ratio_def)
qed

subsection \<open>Rounding of integers\<close>

lemma rnd_0 [simp]: "rnd 0 = 0"
  by (simp add: rnd_def)

lemma rnd_minus: "rnd (- n) = - rnd n"
  by (simp add: rnd_def)

lemma rnd_eq: "0 \<le> n \<Longrightarrow> rnd n = int (round_ratio (nat n) 1)"
  by (cases "n = 0") (simp_all add: rnd_def round_ratio_def rhe_def)

lemma rnd_nonneg: "0 \<le> n \<Longrightarrow> 0 \<le> rnd n"
  by (simp add: rnd_eq)

lemma rnd_mono_nonneg: "0 \<le> m \<Longrightarrow> m \<le> n \<Longrightarrow> rnd m \<le> rnd n"
  by (simp add: rnd_eq round_ratio_mono)

lemma rnd_mono: "m \<le> n \<Longrightarrow> rnd m \<le> rnd n"
proof -
  assume le: "m \<le> n"
  consider "0 \<le> m" | "m < 0" "0 \<le> n" | "n < 0" by linarith
  then show ?thesis
  proof cases
    case 1
    with le show ?thesis by (intro rnd_mono_nonneg)
  next
    case 2
    then show ?thesis using rnd_nonneg [of "- m"] rnd_nonneg [of n] by (simp add: rnd_minus)
  next
    case 3
    with le have "rnd (- n) \<le> rnd (- m)" by (intro rnd_mono_nonneg) simp_all
    then show ?thesis by (simp add: rnd_minus)
  qed
qed

lemma is_double_nat: "is_double n \<longleftrightarrow> 2 ^ excess (nat \<bar>n\<bar>) dvd nat \<bar>n\<bar>"
proof -
  have "is_double n \<longleftrightarrow> 2 ^ excess (nat \<bar>n\<bar>) dvd \<bar>n\<bar>" by (simp add: is_double_def)
  also have "\<dots> \<longleftrightarrow> int (2 ^ excess (nat \<bar>n\<bar>)) dvd int (nat \<bar>n\<bar>)" by simp
  finally show ?thesis by (simp only: int_dvd_int_iff)
qed

lemma is_double_0 [simp]: "is_double 0"
  by (simp add: is_double_def)

lemma is_double_minus [simp]: "is_double (- n) \<longleftrightarrow> is_double n"
  by (simp add: is_double_def)

lemma rnd_is_double [simp]: "is_double (rnd n)"
proof (cases "0 \<le> n")
  case True
  then show ?thesis by (simp add: rnd_eq is_double_nat round_ratio_double)
next
  case False
  then have "is_double (rnd (- n))" by (simp add: rnd_eq is_double_nat round_ratio_double)
  then show ?thesis by (simp add: rnd_minus)
qed

lemma rnd_exact: "is_double n \<Longrightarrow> rnd n = n"
proof -
  assume "is_double n"
  then have "round_ratio (nat \<bar>n\<bar>) 1 = nat \<bar>n\<bar>"
    by (simp only: is_double_nat round_ratio_exact)
  then have "rnd n = sgn n * \<bar>n\<bar>" by (simp only: rnd_def) simp
  then show ?thesis by (simp add: sgn_mult_abs)
qed

lemma is_double_scaled:
  assumes "\<bar>m\<bar> \<le> 2 ^ 53"
  shows "is_double (m * 2 ^ k)"
proof -
  have "nat \<bar>m * 2 ^ k\<bar> = nat \<bar>m\<bar> * 2 ^ k"
    by (simp add: abs_mult nat_mult_distrib nat_power_eq)
  moreover have "nat \<bar>m\<bar> \<le> 2 ^ 53" using assms by simp
  ultimately show ?thesis by (simp add: is_double_nat excess_le)
qed

subsection \<open>The next double\<close>

definition next_up :: "int \<Rightarrow> int" where
  "next_up n = (if 0 \<le> n then n + 2 ^ excess (nat n)
                else n + 2 ^ excess (nat (- n - 1)))"

lemma next_up_greater: "n < next_up n"
  by (simp add: next_up_def)

lemma dvd_gap: "(d::int) dvd a \<Longrightarrow> d dvd b \<Longrightarrow> a < b \<Longrightarrow> a + d \<le> b"
  using zdvd_imp_le [of d "b - a"] by (simp add: dvd_diff)

lemma double_dvd_mono:
  assumes "is_double s" and "k \<le> excess (nat \<bar>s\<bar>)"
  shows "2 ^ k dvd s"
  using assms le_imp_power_dvd [of k "excess (nat \<bar>s\<bar>)" "2::int"]
  unfolding is_double_def by (rule_tac dvd_trans)

lemma next_up_least_neg:
  assumes "is_double n" "is_double s" "n < s" "s < 0"
  shows "next_up n \<le> s"
proof -
  define k where "k = excess (nat (- n - 1))"
  have next_up: "next_up n = n + 2 ^ k" using assms by (simp add: next_up_def k_def)
  show ?thesis
  proof (cases "k = 0")
    case True
    with assms(3) next_up show ?thesis by simp
  next
    case False
    have kn: "2 ^ k dvd n"
      using assms by (intro double_dvd_mono) (auto simp: k_def intro!: excess_mono)
    have "2 ^ (52 + k) \<le> nat (- n - 1)"
      unfolding k_def by (rule excess_lower) (use False k_def in simp)
    then have "int (2 ^ (52 + k)) \<le> int (nat (- n - 1))" by (simp only: zle_int)
    then have low: "2 ^ (52 + k) < - n" using assms by simp
    have pk: "(2::int) ^ k dvd 2 ^ (52 + k)" by (simp add: le_imp_power_dvd)
    have "2 ^ k dvd - n" using kn by simp
    from dvd_gap [OF pk this low] have gap: "2 ^ (52 + k) \<le> - n - 2 ^ k" by linarith
    show ?thesis
    proof (rule ccontr)
      assume "\<not> next_up n \<le> s"
      then have s: "- n - 2 ^ k < - s" using next_up by simp
      then have "2 ^ (52 + k) < - s" using gap by linarith
      then have "\<not> nat \<bar>s\<bar> < 2 ^ (52 + k)" using assms(4)
        by (simp add: nat_less_iff)
      moreover have k: "53 + (k - 1) = 52 + k" using False by simp
      ultimately have "\<not> excess (nat \<bar>s\<bar>) \<le> k - 1" by (simp only: excess_le_iff k not_False_eq_True)
      then have "k \<le> excess (nat \<bar>s\<bar>)" by linarith
      with assms(2) have "2 ^ k dvd s" by (rule double_dvd_mono)
      from dvd_gap [OF kn this assms(3)] s show False by simp
    qed
  qed
qed

lemma next_up_nonpos:
  assumes "n < 0"
  shows "next_up n \<le> 0"
proof -
  define k where "k = excess (nat (- n - 1))"
  have "(2::int) ^ k \<le> - n"
  proof (cases "k = 0")
    case True
    with assms show ?thesis by simp
  next
    case False
    then have "2 ^ (52 + k) \<le> nat (- n - 1)" unfolding k_def by (intro excess_lower) simp
    then have "int (2 ^ (52 + k)) \<le> int (nat (- n - 1))" by (simp only: zle_int)
    then have "2 ^ (52 + k) \<le> - n - 1" using assms by simp
    moreover have "(2::int) ^ k \<le> 2 ^ (52 + k)" by (simp add: power_increasing)
    ultimately show ?thesis by linarith
  qed
  with assms show ?thesis by (simp add: next_up_def k_def)
qed

text \<open>No double lies strictly between a double and its successor.\<close>

lemma next_up_least:
  assumes "is_double n" "is_double s" "n < s"
  shows "next_up n \<le> s"
proof -
  consider "0 \<le> n" | "n < 0" "0 \<le> s" | "s < 0" by linarith
  then show ?thesis
  proof cases
    case 1
    have "2 ^ excess (nat n) dvd s"
      using assms 1 by (intro double_dvd_mono) (auto intro!: excess_mono)
    moreover have "2 ^ excess (nat n) dvd n" using assms(1) 1 by (simp add: is_double_def)
    ultimately show ?thesis using assms(3) 1 by (simp add: next_up_def dvd_gap)
  next
    case 2
    then show ?thesis using next_up_nonpos [of n] by simp
  next
    case 3
    with assms show ?thesis by (intro next_up_least_neg)
  qed
qed

lemma less_next_up_iff: "is_double n \<Longrightarrow> is_double s \<Longrightarrow> s < next_up n \<longleftrightarrow> s \<le> n"
  using next_up_least [of n s] next_up_greater [of n] by linarith

section \<open>Arithmetic and comparison\<close>

fun is_finite :: "pyfloat \<Rightarrow> bool" where
  "is_finite (Fin n) = True"
| "is_finite NegZero = True"
| "is_finite x = False"

text \<open>The number of units of a finite value (both zeros have none).\<close>

fun fint :: "pyfloat \<Rightarrow> int" where
  "fint (Fin n) = n"
| "fint x = 0"

fun fvalid :: "pyfloat \<Rightarrow> bool" where
  "fvalid (Fin n) = (is_double n \<and> \<bar>n\<bar> < fbound)"
| "fvalid x = True"

fun fnegative :: "pyfloat \<Rightarrow> bool" where
  "fnegative (Fin n) = (n < 0)"
| "fnegative NegZero = True"
| "fnegative NegInf = True"
| "fnegative x = False"

definition of_rounded :: "int \<Rightarrow> pyfloat" where
  "of_rounded m = (if fbound \<le> m then PosInf else if m \<le> - fbound then NegInf else Fin m)"

definition of_units :: "int \<Rightarrow> pyfloat" where
  "of_units n = of_rounded (rnd n)"

text \<open>\<open>float(i)\<close>; the OverflowError of an integer beyond the range is an infinity here.\<close>

definition float_of_int :: "int \<Rightarrow> pyfloat" where
  "float_of_int i = of_units (i * fscale)"

fun fneg :: "pyfloat \<Rightarrow> pyfloat" where
  "fneg (Fin n) = (if n = 0 then NegZero else Fin (- n))"
| "fneg NegZero = Fin 0"
| "fneg PosInf = NegInf"
| "fneg NegInf = PosInf"
| "fneg NaN = NaN"

definition fadd :: "pyfloat \<Rightarrow> pyfloat \<Rightarrow> pyfloat" where
  "fadd a b =
     (if a = NaN \<or> b = NaN then NaN
      else if a = PosInf then (if b = NegInf then NaN else PosInf)
      else if a = NegInf then (if b = PosInf then NaN else NegInf)
      else if b = PosInf then PosInf
      else if b = NegInf then NegInf
      else if a = NegZero \<and> b = NegZero then NegZero
      else of_units (fint a + fint b))"

definition fsub :: "pyfloat \<Rightarrow> pyfloat \<Rightarrow> pyfloat" where
  "fsub a b = fadd a (fneg b)"

definition fmul :: "pyfloat \<Rightarrow> pyfloat \<Rightarrow> pyfloat" where
  "fmul a b =
     (if a = NaN \<or> b = NaN then NaN
      else if \<not> is_finite a \<or> \<not> is_finite b
      then (if is_finite a \<and> fint a = 0 \<or> is_finite b \<and> fint b = 0 then NaN
            else if fnegative a = fnegative b then PosInf else NegInf)
      else (let m = int (round_ratio (nat \<bar>fint a * fint b\<bar>) (nat fscale))
            in if fnegative a = fnegative b then of_rounded m
               else if m = 0 then NegZero else of_rounded (- m)))"

fun fabs :: "pyfloat \<Rightarrow> pyfloat" where
  "fabs (Fin n) = Fin \<bar>n\<bar>"
| "fabs NegZero = Fin 0"
| "fabs NegInf = PosInf"
| "fabs x = x"

fun frank :: "pyfloat \<Rightarrow> int" where
  "frank PosInf = 1"
| "frank NegInf = -1"
| "frank x = 0"

definition flt :: "pyfloat \<Rightarrow> pyfloat \<Rightarrow> bool" where
  "flt a b \<longleftrightarrow> a \<noteq> NaN \<and> b \<noteq> NaN
     \<and> (frank a < frank b \<or> frank a = frank b \<and> fint a < fint b)"

definition feq :: "pyfloat \<Rightarrow> pyfloat \<Rightarrow> bool" where
  "feq a b \<longleftrightarrow> a \<noteq> NaN \<and> b \<noteq> NaN \<and> frank a = frank b \<and> fint a = fint b"

definition fle :: "pyfloat \<Rightarrow> pyfloat \<Rightarrow> bool" where
  "fle a b \<longleftrightarrow> flt a b \<or> feq a b"

text \<open>\<open>max(a, b)\<close> keeps the first of equal arguments.\<close>

definition fmax :: "pyfloat \<Rightarrow> pyfloat \<Rightarrow> pyfloat" where
  "fmax a b = (if flt a b then b else a)"

definition fmin :: "pyfloat \<Rightarrow> pyfloat \<Rightarrow> pyfloat" where
  "fmin a b = (if flt b a then b else a)"

text \<open>\<open>math.nextafter(x, math.inf)\<close>\<close>

fun nextafter_inf :: "pyfloat \<Rightarrow> pyfloat" where
  "nextafter_inf (Fin n) = (if n < 0 \<and> next_up n = 0 then NegZero else of_rounded (next_up n))"
| "nextafter_inf NegZero = Fin 1"
| "nextafter_inf PosInf = PosInf"
| "nextafter_inf NegInf = Fin (2 ^ 2045 - fbound)"
| "nextafter_inf NaN = NaN"

text \<open>The gap of the double at \<open>x\<close>: \<open>math.ulp\<close>.\<close>

fun f_ulp :: "pyfloat \<Rightarrow> pyfloat" where
  "f_ulp (Fin n) = Fin (2 ^ excess (nat \<bar>n\<bar>))"
| "f_ulp NegZero = Fin 1"
| "f_ulp NaN = NaN"
| "f_ulp x = PosInf"

subsection \<open>Laws of the finite values\<close>

lemma finite_cases: "is_finite a \<Longrightarrow> frank a = 0 \<and> a \<noteq> NaN \<and> a \<noteq> PosInf \<and> a \<noteq> NegInf"
  by (cases a) simp_all

lemma flt_finite: "is_finite a \<Longrightarrow> is_finite b \<Longrightarrow> flt a b \<longleftrightarrow> fint a < fint b"
  by (simp add: flt_def finite_cases)

lemma feq_finite: "is_finite a \<Longrightarrow> is_finite b \<Longrightarrow> feq a b \<longleftrightarrow> fint a = fint b"
  by (simp add: feq_def finite_cases)

lemma fle_finite: "is_finite a \<Longrightarrow> is_finite b \<Longrightarrow> fle a b \<longleftrightarrow> fint a \<le> fint b"
  by (auto simp: fle_def flt_finite feq_finite)

lemma flt_PosInf: "is_finite a \<Longrightarrow> flt a PosInf"
  by (simp add: flt_def finite_cases)

lemma flt_irrefl [simp]: "\<not> flt a a"
  by (simp add: flt_def)

lemma flt_trans: "flt a b \<Longrightarrow> flt b c \<Longrightarrow> flt a c"
  by (auto simp: flt_def)

lemma fle_trans: "fle a b \<Longrightarrow> fle b c \<Longrightarrow> fle a c"
  by (auto simp: fle_def flt_def feq_def)

lemma flt_fle_trans: "flt a b \<Longrightarrow> fle b c \<Longrightarrow> flt a c"
  by (auto simp: fle_def flt_def feq_def)

lemma fle_flt_trans: "fle a b \<Longrightarrow> flt b c \<Longrightarrow> flt a c"
  by (auto simp: fle_def flt_def feq_def)

lemma not_flt_iff: "a \<noteq> NaN \<Longrightarrow> b \<noteq> NaN \<Longrightarrow> \<not> flt a b \<longleftrightarrow> fle b a"
  by (auto simp: fle_def flt_def feq_def)

lemma fle_refl: "a \<noteq> NaN \<Longrightarrow> fle a a"
  by (simp add: fle_def feq_def)

lemma is_finite_of_rounded: "is_finite (of_rounded m) \<longleftrightarrow> \<bar>m\<bar> < fbound"
  by (auto simp: of_rounded_def)

lemma fint_of_rounded: "is_finite (of_rounded m) \<Longrightarrow> fint (of_rounded m) = m"
  by (auto simp: of_rounded_def split: if_splits)

lemma of_rounded_not_NaN [simp]: "of_rounded m \<noteq> NaN"
  by (simp add: of_rounded_def)

lemma fvalid_of_rounded: "is_double m \<Longrightarrow> fvalid (of_rounded m)"
  by (auto simp: of_rounded_def)

lemma of_rounded_mono: "m \<le> n \<Longrightarrow> fle (of_rounded m) (of_rounded n)"
  using fbound_pos by (auto simp: of_rounded_def fle_def flt_def feq_def)

lemma is_finite_of_units: "is_finite (of_units n) \<longleftrightarrow> \<bar>rnd n\<bar> < fbound"
  by (simp add: of_units_def is_finite_of_rounded)

lemma fint_of_units: "is_finite (of_units n) \<Longrightarrow> fint (of_units n) = rnd n"
  by (simp add: of_units_def fint_of_rounded)

lemma fvalid_of_units [simp]: "fvalid (of_units n)"
  by (simp add: of_units_def fvalid_of_rounded)

lemma is_double_fint: "fvalid a \<Longrightarrow> is_double (fint a)"
  by (cases a) simp_all

lemma fint_bound: "fvalid a \<Longrightarrow> \<bar>fint a\<bar> < fbound"
  by (cases a) simp_all

lemma fadd_finite:
  "is_finite a \<Longrightarrow> is_finite b \<Longrightarrow>
     fadd a b = (if a = NegZero \<and> b = NegZero then NegZero else of_units (fint a + fint b))"
  by (simp add: fadd_def finite_cases)

lemma is_finite_fadd:
  "is_finite a \<Longrightarrow> is_finite b \<Longrightarrow> is_finite (fadd a b) \<longleftrightarrow> \<bar>rnd (fint a + fint b)\<bar> < fbound"
  by (auto simp: fadd_finite is_finite_of_units)

lemma fint_fadd:
  "is_finite a \<Longrightarrow> is_finite b \<Longrightarrow> is_finite (fadd a b) \<Longrightarrow> fint (fadd a b) = rnd (fint a + fint b)"
  by (auto simp: fadd_finite fint_of_units split: if_splits)

lemma fvalid_fadd: "is_finite a \<Longrightarrow> is_finite b \<Longrightarrow> fvalid (fadd a b)"
  by (simp add: fadd_finite)

lemma fadd_finite_args: "is_finite (fadd a b) \<Longrightarrow> is_finite a \<and> is_finite b"
  by (cases a; cases b) (simp_all add: fadd_def)

lemma fadd_mono:
  assumes "is_finite a" "is_finite b" "is_finite c" "fint b \<le> fint c"
  shows "fle (fadd a b) (fadd a c)"
proof -
  have "fle (of_units (fint a + fint b)) (of_units (fint a + fint c))"
    using assms(4) by (simp add: of_units_def of_rounded_mono rnd_mono)
  moreover have "fle NegZero (of_units n) \<longleftrightarrow> fle (of_units 0) (of_units n)"
    and "fle (of_units n) NegZero \<longleftrightarrow> fle (of_units n) (of_units 0)" for n
    using fbound_pos by (auto simp: of_units_def of_rounded_def fle_def flt_def feq_def)
  ultimately show ?thesis using assms
    by (auto simp: fadd_finite fle_finite)
qed

lemma fneg_finite [simp]: "is_finite (fneg a) = is_finite a"
  by (cases a) simp_all

lemma fint_fneg [simp]: "fint (fneg a) = - fint a"
  by (cases a) simp_all

lemma nat_fscale: "nat fscale = 2 ^ 1074"
  by (simp only: fscale_def nat_power_eq) (simp add: nat_power_eq)

lemma float_of_int_exact:
  assumes "\<bar>i\<bar> \<le> 2 ^ 53"
  shows "float_of_int i = Fin (i * fscale)"
proof -
  have "rnd (i * fscale) = i * fscale"
    unfolding fscale_def using assms by (intro rnd_exact is_double_scaled)
  moreover have "\<bar>i * fscale\<bar> < fbound"
  proof -
    have "\<bar>i\<bar> * fscale \<le> 2 ^ 53 * fscale" using assms by (intro mult_right_mono) simp_all
    moreover have "(2::int) ^ 53 * 2 ^ 1074 < 2 ^ 2098"
      unfolding power_add [symmetric] by (rule power_strict_increasing) simp_all
    ultimately show ?thesis by (simp only: abs_mult fscale_def fbound_def) simp
  qed
  ultimately show ?thesis by (auto simp: float_of_int_def of_units_def of_rounded_def)
qed

text \<open>The product of a small integer and a double is the rounded exact product.\<close>

lemma fmul_int:
  assumes "0 \<le> i" "i \<le> 2 ^ 53" "is_finite h" "0 < fint h"
  shows "fmul (float_of_int i) h = of_units (i * fint h)"
proof -
  have h: "\<not> fnegative h" using assms(3,4) by (cases h) auto
  have i: "float_of_int i = Fin (i * fscale)" using assms(1,2) by (intro float_of_int_exact) simp
  have "nat \<bar>(i * fscale) * fint h\<bar> = nat (i * fint h) * nat fscale"
  proof -
    have h0: "0 \<le> i * fint h" using assms(1,4) by simp
    then have "0 \<le> (i * fint h) * fscale" by (rule mult_nonneg_nonneg) simp
    then have "nat \<bar>(i * fint h) * fscale\<bar> = nat ((i * fint h) * fscale)" by simp
    also have "\<dots> = nat (i * fint h) * nat fscale" using h0 by (rule nat_mult_distrib)
    finally show ?thesis by (simp only: mult.assoc mult.commute [of fscale])
  qed
  moreover have "round_ratio (nat (i * fint h) * nat fscale) (1 * nat fscale)
      = round_ratio (nat (i * fint h)) 1"
    by (rule round_ratio_scale) (simp add: fscale_def)
  ultimately have "int (round_ratio (nat \<bar>(i * fscale) * fint h\<bar>) (nat fscale)) = rnd (i * fint h)"
    using assms(1,4) by (simp add: rnd_eq)
  then show ?thesis using assms h i
    by (simp add: fmul_def finite_cases of_units_def mult_less_0_iff order.strict_iff_not)
qed

lemma nextafter_cases:
  assumes "fvalid a" "is_finite a"
  shows "nextafter_inf a = PosInf \<and> fbound \<le> next_up (fint a)
    \<or> is_finite (nextafter_inf a) \<and> fint (nextafter_inf a) = next_up (fint a)"
proof (cases a)
  case (Fin n)
  with assms have "- fbound < n" by auto
  then have "- fbound < next_up n" using next_up_greater [of n] by linarith
  with Fin show ?thesis by (auto simp: of_rounded_def)
next
  case NegZero
  then show ?thesis by (simp add: next_up_def excess_def)
qed (use assms in simp_all)

text \<open>
  A double lies below the successor of a double exactly when it does not exceed it: the
  step that turns the closed comparison of an instant into a half-open one is exact.
\<close>

lemma flt_nextafter_iff:
  assumes "fvalid a" "is_finite a" "fvalid s" "is_finite s"
  shows "flt s (nextafter_inf a) \<longleftrightarrow> fle s a"
proof -
  have iff: "fint s < next_up (fint a) \<longleftrightarrow> fint s \<le> fint a"
    using assms by (intro less_next_up_iff is_double_fint)
  have "\<bar>fint s\<bar> < fbound" using assms(3) by (rule fint_bound)
  with nextafter_cases [OF assms(1,2)] iff assms show ?thesis
    by (auto simp: flt_PosInf fle_finite flt_finite)
qed

end
