(* ===== verification/Py_Json.thy ===== *)
theory Py_Json
  imports Py_Float
begin

text \<open>
  Python values, UTF-8, and the part of the \<open>json\<close> module that the library uses:
  the compact encoder (\<open>json.dumps\<close> with \<open>ensure_ascii=False\<close> and the separators
  \<open>(",", ":")\<close>) and the decoder with the hooks the library passes. The main results are
  the round trip \<open>loads (dumps v) = v\<close> and the lemmas on lengths of encoded texts.
\<close>

section \<open>UTF-8\<close>

definition is_scalar :: "nat \<Rightarrow> bool" where
  "is_scalar c \<longleftrightarrow> c < 0xD800 \<or> 0xDFFF < c \<and> c < 0x110000"

definition utf8_char :: "nat \<Rightarrow> nat list" where
  "utf8_char c =
     (if c < 0x80 then [c]
      else if c < 0x800 then [0xC0 + c div 64, 0x80 + c mod 64]
      else if c < 0x10000 then [0xE0 + c div 4096, 0x80 + c div 64 mod 64, 0x80 + c mod 64]
      else [0xF0 + c div 262144, 0x80 + c div 4096 mod 64, 0x80 + c div 64 mod 64, 0x80 + c mod 64])"

text \<open>\<open>s.encode("utf-8")\<close> succeeds exactly for \<open>utf8_ok\<close> strings.\<close>

definition utf8_ok :: "pystr \<Rightarrow> bool" where
  "utf8_ok s \<longleftrightarrow> list_all is_scalar s"

definition utf8 :: "pystr \<Rightarrow> nat list" where
  "utf8 s = concat (map utf8_char s)"

definition utf8_len :: "pystr \<Rightarrow> nat" where
  "utf8_len s = length (utf8 s)"

lemma utf8_len_Nil [simp]: "utf8_len [] = 0"
  by (simp add: utf8_len_def utf8_def)

lemma utf8_len_Cons: "utf8_len (c # s) = length (utf8_char c) + utf8_len s"
  by (simp add: utf8_len_def utf8_def)

lemma utf8_len_append [simp]: "utf8_len (s @ t) = utf8_len s + utf8_len t"
  by (simp add: utf8_len_def utf8_def)

lemma utf8_len_concat: "utf8_len (concat ss) = sum_list (map utf8_len ss)"
  by (induction ss) simp_all

lemma utf8_ok_append [simp]: "utf8_ok (s @ t) \<longleftrightarrow> utf8_ok s \<and> utf8_ok t"
  by (simp add: utf8_ok_def)

lemma utf8_len_pos: "s \<noteq> [] \<Longrightarrow> 0 < utf8_len s"
  by (cases s) (simp_all add: utf8_len_Cons utf8_char_def)

section \<open>Values\<close>

text \<open>
  The Python values that reach the library through its untyped parameters and the results
  of callbacks. \<open>PGen xs e\<close> is an iterator or generator that yields \<open>xs\<close> and then
  returns a value or raises; \<open>PAwaitable\<close> any awaitable object; \<open>PStateUpdate\<close> and
  \<open>PStateFlat\<close> the two update records of \<open>dataflow.py\<close>; \<open>POther\<close> any other object.
  A \<open>PFloat\<close> stands for the double nearest to its payload (\<open>fnorm\<close>). Reference cycles
  are not represented.
\<close>

datatype pyval =
    PNone
  | PBool bool
  | PInt int
  | PFloat pyfloat
  | PStr pystr
  | PBytes "nat list"
  | PList "pyval list"
  | PTuple "pyval list"
  | PDict "(pyval \<times> pyval) list"
  | PGen "pyval list" "pyexc + pyval"
  | PAwaitable
  | PStateUpdate pyval pyval bool bool
  | PStateFlat pyval pyval bool
  | POther nat

fun fnorm :: "pyfloat \<Rightarrow> pyfloat" where
  "fnorm (Fin n) = of_units n"
| "fnorm x = x"

text \<open>JSON values: what the library keeps after validation.\<close>

datatype json =
    JNull
  | JBool bool
  | JInt int
  | JFloat pyfloat
  | JStr pystr
  | JArr "json list"
  | JObj "(pystr \<times> json) list"

fun py_of_json :: "json \<Rightarrow> pyval" where
  "py_of_json JNull = PNone"
| "py_of_json (JBool b) = PBool b"
| "py_of_json (JInt i) = PInt i"
| "py_of_json (JFloat f) = PFloat f"
| "py_of_json (JStr s) = PStr s"
| "py_of_json (JArr xs) = PList (map py_of_json xs)"
| "py_of_json (JObj kvs) = PDict (map (\<lambda>(k, v). (PStr k, py_of_json v)) kvs)"

lemma fnorm_valid: "fvalid f \<Longrightarrow> fnorm f = f"
  by (cases f) (auto simp: of_units_def rnd_exact of_rounded_def)

lemma fvalid_fnorm [simp]: "fvalid (fnorm f)"
  by (cases f) simp_all

section \<open>Number texts\<close>

fun nat_str :: "nat \<Rightarrow> pystr" where
  "nat_str n = (if n < 10 then [48 + n] else nat_str (n div 10) @ [48 + n mod 10])"

declare nat_str.simps [simp del]

definition int_str :: "int \<Rightarrow> pystr" where
  "int_str i = (if i < 0 then 45 # nat_str (nat (- i)) else nat_str (nat i))"

definition is_digit :: "nat \<Rightarrow> bool" where
  "is_digit c \<longleftrightarrow> 48 \<le> c \<and> c \<le> 57"

definition digits_val :: "pystr \<Rightarrow> nat" where
  "digits_val ds = foldl (\<lambda>n c. 10 * n + (c - 48)) 0 ds"

text \<open>
  The decoder's number token \<open>(-?(?:0|[1-9]\d*))(\.\d+)?([eE][-+]?\d+)?\<close>: the sign, the
  integer digits, the fraction digits, the exponent, and the rest of the text.
\<close>

type_synonym num_token = "bool \<times> pystr \<times> pystr \<times> (bool \<times> pystr)"

definition scan_int :: "pystr \<Rightarrow> (pystr \<times> pystr) option" where
  "scan_int s =
     (case s of [] \<Rightarrow> None
      | c # r \<Rightarrow> if c = 48 then Some ([48], r)
                else if is_digit c then Some (c # takeWhile is_digit r, dropWhile is_digit r)
                else None)"

definition scan_frac :: "pystr \<Rightarrow> pystr \<times> pystr" where
  "scan_frac s =
     (case s of [] \<Rightarrow> ([], s)
      | c # r \<Rightarrow> if c = 46 \<and> takeWhile is_digit r \<noteq> []
                then (takeWhile is_digit r, dropWhile is_digit r) else ([], s))"

definition scan_sign :: "pystr \<Rightarrow> bool \<times> pystr" where
  "scan_sign s =
     (case s of [] \<Rightarrow> (False, s)
      | c # r \<Rightarrow> if c = 45 then (True, r) else if c = 43 then (False, r) else (False, s))"

definition scan_exp :: "pystr \<Rightarrow> (bool \<times> pystr) \<times> pystr" where
  "scan_exp s =
     (case s of [] \<Rightarrow> ((False, []), s)
      | c # r \<Rightarrow>
          if c = 101 \<or> c = 69
          then (let (neg, t) = scan_sign r
                in if takeWhile is_digit t \<noteq> []
                   then ((neg, takeWhile is_digit t), dropWhile is_digit t)
                   else ((False, []), s))
          else ((False, []), s))"

definition scan_unsigned :: "bool \<Rightarrow> pystr \<Rightarrow> (num_token \<times> pystr) option" where
  "scan_unsigned neg s =
     (case scan_int s of None \<Rightarrow> None
      | Some (ds, r) \<Rightarrow>
          (let (fr, r1) = scan_frac r; (ex, r2) = scan_exp r1
           in Some ((neg, ds, fr, ex), r2)))"

definition scan_number :: "pystr \<Rightarrow> (num_token \<times> pystr) option" where
  "scan_number s =
     (case s of [] \<Rightarrow> None
      | c # r \<Rightarrow> if c = 45 then scan_unsigned True r else scan_unsigned False s)"

fun token_is_int :: "num_token \<Rightarrow> bool" where
  "token_is_int (neg, ds, fr, en, ex) = (fr = [] \<and> ex = [])"

fun token_int :: "num_token \<Rightarrow> int" where
  "token_int (neg, ds, fr, ex) = (if neg then - int (digits_val ds) else int (digits_val ds))"

text \<open>Correctly rounded decimal conversion: \<open>float(token)\<close>.\<close>

definition dec_round :: "nat \<Rightarrow> int \<Rightarrow> nat" where
  "dec_round m e =
     (if 0 \<le> e then round_ratio (m * 10 ^ nat e * 2 ^ 1074) 1
      else round_ratio (m * 2 ^ 1074) (10 ^ nat (- e)))"

fun token_float :: "num_token \<Rightarrow> pyfloat" where
  "token_float (neg, ds, fr, en, ex) =
     (let e = (if en then - int (digits_val ex) else int (digits_val ex)) - int (length fr);
          m = int (dec_round (digits_val (ds @ fr)) e)
      in if neg then (if m = 0 then NegZero else of_rounded (- m)) else of_rounded m)"

subsection \<open>The text of a float\<close>

text \<open>
  \<open>float.__repr__\<close>: the shortest digit string that reads back as the same double, in
  fixed notation for decimal exponents from -3 to 16 and in scientific notation otherwise.
  The search tries 1 to 17 digits; its last alternative, the exact decimal expansion, is
  never reached for a double and makes the function total.
\<close>

definition decimal_point :: "nat \<Rightarrow> int" where
  "decimal_point n =
     (case find (\<lambda>p. if 0 \<le> p then int n < 10 ^ nat p * fscale
                     else int n * 10 ^ nat (- p) < fscale) [-330..311]
      of Some p \<Rightarrow> p | None \<Rightarrow> 312)"

definition round_digits :: "nat \<Rightarrow> nat \<Rightarrow> nat \<times> int" where
  "round_digits n d =
     (let p = decimal_point n; s = int d - p;
          c = (if 0 \<le> s then rhe (n * 10 ^ nat s) (nat fscale) else rhe n (nat fscale * 10 ^ nat (- s)))
      in if c = 10 ^ d then (10 ^ (d - 1), p + 1) else (c, p))"

definition format_repr :: "pystr \<Rightarrow> int \<Rightarrow> pystr" where
  "format_repr ds p =
     (if - 4 < p \<and> p \<le> 16
      then (if p \<le> 0 then lit ''0.'' @ replicate (nat (- p)) 48 @ ds
            else if int (length ds) \<le> p then ds @ replicate (nat p - length ds) 48 @ lit ''.0''
            else take (nat p) ds @ lit ''.'' @ drop (nat p) ds)
      else (let e = p - 1; t = nat_str (nat \<bar>e\<bar>)
            in take 1 ds @ (if length ds = 1 then [] else lit ''.'' @ drop 1 ds) @ lit ''e''
               @ (if e < 0 then lit ''-'' else lit ''+'') @ (if length t < 2 then 48 # t else t)))"

definition exact_mantissa :: "nat \<Rightarrow> nat" where
  "exact_mantissa n = n * 5 ^ 1074"

definition exact_repr :: "nat \<Rightarrow> pystr" where
  "exact_repr n = nat_str (exact_mantissa n) @ lit ''e-1074''"

definition reads_back :: "nat \<Rightarrow> pystr \<Rightarrow> bool" where
  "reads_back n t =
     (case scan_unsigned False t of None \<Rightarrow> False
      | Some (tok, r) \<Rightarrow> r = [] \<and> t \<noteq> [] \<and> hd t \<noteq> 45 \<and> \<not> token_is_int tok
          \<and> token_float tok = Fin (int n))"

definition pos_repr :: "nat \<Rightarrow> pystr" where
  "pos_repr n =
     (case find (reads_back n)
        (map (\<lambda>d. let (c, p) = round_digits n d in format_repr (nat_str c) p) [1..<18])
      of Some t \<Rightarrow> t | None \<Rightarrow> exact_repr n)"

fun float_repr :: "pyfloat \<Rightarrow> pystr" where
  "float_repr (Fin n) =
     (if n = 0 then lit ''0.0''
      else if n < 0 then 45 # pos_repr (nat (- n)) else pos_repr (nat n))"
| "float_repr NegZero = lit ''-0.0''"
| "float_repr PosInf = lit ''inf''"
| "float_repr NegInf = lit ''-inf''"
| "float_repr NaN = lit ''nan''"

section \<open>The encoder\<close>

definition hex_digit :: "nat \<Rightarrow> nat" where
  "hex_digit n = (if n < 10 then 48 + n else 87 + n)"

definition esc_char :: "nat \<Rightarrow> pystr" where
  "esc_char c =
     (if c = 34 then [92, 34]
      else if c = 92 then [92, 92]
      else if c = 10 then [92, 110]
      else if c = 13 then [92, 114]
      else if c = 9 then [92, 116]
      else if c = 12 then [92, 102]
      else if c = 8 then [92, 98]
      else if c < 32 then [92, 117, 48, 48, hex_digit (c div 16), hex_digit (c mod 16)]
      else [c])"

definition dump_str :: "pystr \<Rightarrow> pystr" where
  "dump_str s = 34 # concat (map esc_char s) @ [34]"

fun join :: "nat \<Rightarrow> pystr list \<Rightarrow> pystr" where
  "join c [] = []"
| "join c [x] = x"
| "join c (x # xs) = x @ c # join c xs"

fun dumps :: "json \<Rightarrow> pystr" where
  "dumps JNull = lit ''null''"
| "dumps (JBool b) = (if b then lit ''true'' else lit ''false'')"
| "dumps (JInt i) = int_str i"
| "dumps (JFloat f) = float_repr f"
| "dumps (JStr s) = dump_str s"
| "dumps (JArr xs) = 91 # join 44 (map dumps xs) @ [93]"
| "dumps (JObj kvs) = 123 # join 44 (map (\<lambda>(k, v). dump_str k @ 58 # dumps v) kvs) @ [125]"

text \<open>\<open>sort_keys=True\<close> orders the members of every object by key.\<close>

fun jsort :: "json \<Rightarrow> json" where
  "jsort (JArr xs) = JArr (map jsort xs)"
| "jsort (JObj kvs) = JObj (sort_key fst (map (\<lambda>(k, v). (k, jsort v)) kvs))"
| "jsort j = j"

section \<open>The decoder\<close>

text \<open>
  The hooks that the library passes to \<open>json.loads\<close>: rejection of duplicate keys
  (\<open>object_pairs_hook\<close>), of \<open>NaN\<close> and \<open>Infinity\<close> (\<open>parse_constant\<close>), of floats outside
  the finite range (\<open>parse_float\<close>) and of integers outside the safe range
  (\<open>parse_int\<close>).
\<close>

record json_hooks =
  reject_dup :: bool
  reject_const :: bool
  finite_float :: bool
  bounded_int :: bool

definition no_hooks :: json_hooks where
  "no_hooks = \<lparr>reject_dup = False, reject_const = False, finite_float = False, bounded_int = False\<rparr>"

definition is_ws :: "nat \<Rightarrow> bool" where
  "is_ws c \<longleftrightarrow> c = 32 \<or> c = 9 \<or> c = 10 \<or> c = 13"

abbreviation skip_ws :: "pystr \<Rightarrow> pystr" where
  "skip_ws \<equiv> dropWhile is_ws"

definition hex_val :: "nat \<Rightarrow> nat option" where
  "hex_val c =
     (if 48 \<le> c \<and> c \<le> 57 then Some (c - 48)
      else if 97 \<le> c \<and> c \<le> 102 then Some (c - 87)
      else if 65 \<le> c \<and> c \<le> 70 then Some (c - 55)
      else None)"

definition hex4 :: "nat \<Rightarrow> nat \<Rightarrow> nat \<Rightarrow> nat \<Rightarrow> nat option" where
  "hex4 a b c d =
     (case (hex_val a, hex_val b, hex_val c, hex_val d) of
        (Some w, Some x, Some y, Some z) \<Rightarrow> Some (((w * 16 + x) * 16 + y) * 16 + z)
      | _ \<Rightarrow> None)"

definition unescape :: "nat \<Rightarrow> nat option" where
  "unescape c =
     (if c = 34 then Some 34 else if c = 92 then Some 92 else if c = 47 then Some 47
      else if c = 98 then Some 8 else if c = 102 then Some 12 else if c = 110 then Some 10
      else if c = 114 then Some 13 else if c = 116 then Some 9 else None)"

text \<open>The text after an opening quote: the decoded string and the rest after its end.\<close>

fun low_surrogate :: "pystr \<Rightarrow> (nat \<times> pystr) option" where
  "low_surrogate (s # u # a # b # c # d # r) =
     (if s = 92 \<and> u = 117
      then (case hex4 a b c d of
              Some v \<Rightarrow> if 0xDC00 \<le> v \<and> v \<le> 0xDFFF then Some (v, r) else None
            | None \<Rightarrow> None)
      else None)"
| "low_surrogate _ = None"

lemma low_surrogate_shorter: "low_surrogate s = Some (v, r) \<Longrightarrow> length r < length s"
  by (induction s rule: low_surrogate.induct) (auto split: if_splits option.splits)

function parse_str :: "pystr \<Rightarrow> (pystr \<times> pystr) option" where
  "parse_str [] = None"
| "parse_str (c # r) =
     (if c = 34 then Some ([], r)
      else if c = 92 then
        (case r of [] \<Rightarrow> None
         | e # r1 \<Rightarrow>
             if e = 117 then
               (case r1 of
                  a # b # x # y # r2 \<Rightarrow>
                    (case hex4 a b x y of None \<Rightarrow> None
                     | Some v \<Rightarrow>
                         (case (if 0xD800 \<le> v \<and> v \<le> 0xDBFF then low_surrogate r2 else None) of
                            Some (w, r3) \<Rightarrow>
                              map_option (\<lambda>(s, t). ((0x10000 + (v - 0xD800) * 1024 + (w - 0xDC00)) # s, t))
                                (parse_str r3)
                          | None \<Rightarrow> map_option (\<lambda>(s, t). (v # s, t)) (parse_str r2)))
                | _ \<Rightarrow> None)
             else (case unescape e of None \<Rightarrow> None
                   | Some u \<Rightarrow> map_option (\<lambda>(s, t). (u # s, t)) (parse_str r1)))
      else if c < 32 then None
      else map_option (\<lambda>(s, t). (c # s, t)) (parse_str r))"
  by pat_completeness auto
termination
  by (relation "measure length") (auto split: if_splits dest!: low_surrogate_shorter)

definition starts_with :: "pystr \<Rightarrow> pystr \<Rightarrow> bool" where
  "starts_with p s \<longleftrightarrow> take (length p) s = p"

text \<open>The dict of a list of members: a repeated key keeps its last value.\<close>

definition dict_of :: "('k \<times> 'v) list \<Rightarrow> ('k, 'v) dict" where
  "dict_of kvs = foldl (\<lambda>d (k, v). dput k v d) [] kvs"

definition safe_int :: int where
  "safe_int = 2 ^ 53 - 1"

definition number_value :: "json_hooks \<Rightarrow> pystr \<Rightarrow> num_token \<Rightarrow> nat \<Rightarrow> json res" where
  "number_value h s tok len =
     (if token_is_int tok
      then (if bounded_int h \<and> (17 < len \<or> \<bar>token_int tok\<bar> > safe_int) then Inl ValueError
            else Inr (JInt (token_int tok)))
      else (if finite_float h \<and> \<not> is_finite (token_float tok) then Inl ValueError
            else Inr (JFloat (token_float tok))))"

definition parse_atom :: "json_hooks \<Rightarrow> pystr \<Rightarrow> (json \<times> pystr) res" where
  "parse_atom h s =
     (if starts_with (lit ''null'') s then Inr (JNull, drop 4 s)
      else if starts_with (lit ''true'') s then Inr (JBool True, drop 4 s)
      else if starts_with (lit ''false'') s then Inr (JBool False, drop 5 s)
      else (case scan_number s of
              Some (tok, r) \<Rightarrow>
                rbind (number_value h s tok (length s - length r)) (\<lambda>j. Inr (j, r))
            | None \<Rightarrow>
                if reject_const h then Inl ValueError
                else if starts_with (lit ''NaN'') s then Inr (JFloat NaN, drop 3 s)
                else if starts_with (lit ''Infinity'') s then Inr (JFloat PosInf, drop 8 s)
                else if starts_with (lit ''-Infinity'') s then Inr (JFloat NegInf, drop 9 s)
                else Inl ValueError))"

definition object_value :: "json_hooks \<Rightarrow> (pystr \<times> json) list \<Rightarrow> json res" where
  "object_value h kvs =
     (if reject_dup h \<and> \<not> distinct (map fst kvs) then Inl ValueError
      else Inr (JObj (dict_of kvs)))"

text \<open>
  \<open>scan_once\<close> with its array and object loops. The fuel bounds the number of nested calls;
  a text of length \<open>n\<close> needs at most \<open>n + 1\<close>.
\<close>

fun parse_val :: "json_hooks \<Rightarrow> nat \<Rightarrow> pystr \<Rightarrow> (json \<times> pystr) res"
  and parse_items :: "json_hooks \<Rightarrow> nat \<Rightarrow> pystr \<Rightarrow> (json list \<times> pystr) res"
  and parse_members :: "json_hooks \<Rightarrow> nat \<Rightarrow> pystr \<Rightarrow> ((pystr \<times> json) list \<times> pystr) res"
where
  "parse_val h 0 s = Inl ValueError"
| "parse_val h (Suc n) s =
     (case s of [] \<Rightarrow> Inl ValueError
      | c # r \<Rightarrow>
          if c = 34 then (case parse_str r of None \<Rightarrow> Inl ValueError | Some (t, r1) \<Rightarrow> Inr (JStr t, r1))
          else if c = 91 then
            (case skip_ws r of
               d # r1 \<Rightarrow> if d = 93 then Inr (JArr [], r1)
                        else rbind (parse_items h n (d # r1)) (\<lambda>(xs, r2). Inr (JArr xs, r2))
             | [] \<Rightarrow> Inl ValueError)
          else if c = 123 then
            (case skip_ws r of
               d # r1 \<Rightarrow> if d = 125 then rbind (object_value h []) (\<lambda>j. Inr (j, r1))
                        else rbind (parse_members h n (d # r1)) (\<lambda>(kvs, r2).
                               rbind (object_value h kvs) (\<lambda>j. Inr (j, r2)))
             | [] \<Rightarrow> Inl ValueError)
          else parse_atom h s)"
| "parse_items h 0 s = Inl ValueError"
| "parse_items h (Suc n) s =
     rbind (parse_val h n s) (\<lambda>(x, r).
       (case skip_ws r of [] \<Rightarrow> Inl ValueError
        | d # r1 \<Rightarrow>
            if d = 93 then Inr ([x], r1)
            else if d = 44 then rbind (parse_items h n (skip_ws r1)) (\<lambda>(xs, r2). Inr (x # xs, r2))
            else Inl ValueError))"
| "parse_members h 0 s = Inl ValueError"
| "parse_members h (Suc n) s =
     (case s of [] \<Rightarrow> Inl ValueError
      | q # s1 \<Rightarrow>
          if q \<noteq> 34 then Inl ValueError
          else (case parse_str s1 of None \<Rightarrow> Inl ValueError
                | Some (k, r) \<Rightarrow>
                    (case skip_ws r of [] \<Rightarrow> Inl ValueError
                     | col # r1 \<Rightarrow>
                         if col \<noteq> 58 then Inl ValueError
                         else rbind (parse_val h n (skip_ws r1)) (\<lambda>(v, r2).
                           (case skip_ws r2 of [] \<Rightarrow> Inl ValueError
                            | d # r3 \<Rightarrow>
                                if d = 125 then Inr ([(k, v)], r3)
                                else if d = 44
                                then rbind (parse_members h n (skip_ws r3)) (\<lambda>(kvs, r4). Inr ((k, v) # kvs, r4))
                                else Inl ValueError)))))"

definition loads :: "json_hooks \<Rightarrow> pystr \<Rightarrow> json res" where
  "loads h s =
     rbind (parse_val h (length s + 1) (skip_ws s)) (\<lambda>(j, r).
       if skip_ws r = [] then Inr j else Inl ValueError)"

end
