(* ===== verification/Py_Json_Laws.thy ===== *)
theory Py_Json_Laws
  imports Py_Json "HOL-Library.Multiset"
begin

text \<open>
  The decoder inverts the encoder on every well-formed JSON value (distinct keys, finite
  doubles, integers in the safe range), whatever hooks are installed: \<open>loads_dumps\<close>.
\<close>

section \<open>Digits\<close>

lemma nat_str_digits: "list_all is_digit (nat_str n)"
proof (induction n rule: nat_str.induct)
  case (1 n)
  have "n mod 10 \<le> 9" using mod_less_divisor [of 10 n] by linarith
  with "1" show ?case by (simp add: nat_str.simps [of n] is_digit_def)
qed

lemma nat_str_not_Nil [simp]: "nat_str n \<noteq> []"
  by (simp add: nat_str.simps [of n])

lemma digits_val_snoc: "digits_val (ds @ [c]) = 10 * digits_val ds + (c - 48)"
  by (simp add: digits_val_def)

lemma digits_val_nat_str [simp]: "digits_val (nat_str n) = n"
proof (induction n rule: nat_str.induct)
  case (1 n)
  show ?case
  proof (cases "n < 10")
    case True
    then show ?thesis by (simp add: nat_str.simps [of n] digits_val_def)
  next
    case False
    with "1" show ?thesis by (simp add: nat_str.simps [of n] digits_val_snoc)
  qed
qed

lemma hd_nat_str: "0 < n \<Longrightarrow> hd (nat_str n) \<noteq> 48"
proof (induction n rule: nat_str.induct)
  case (1 n)
  show ?case
  proof (cases "n < 10")
    case True
    with "1.prems" show ?thesis by (simp add: nat_str.simps [of n])
  next
    case False
    then have "0 < n div 10" by simp
    with "1.IH" False show ?thesis by (simp add: nat_str.simps [of n])
  qed
qed

lemma nat_str_length: "n < 10 ^ k \<Longrightarrow> 0 < k \<Longrightarrow> length (nat_str n) \<le> k"
proof (induction k arbitrary: n)
  case (Suc k)
  show ?case
  proof (cases "n < 10")
    case True
    then show ?thesis by (simp add: nat_str.simps [of n])
  next
    case False
    with Suc.prems have "0 < k" by (cases k) simp_all
    moreover have "n div 10 < 10 ^ k" using Suc.prems(1) by (simp add: div_less_iff_less_mult)
    ultimately have "length (nat_str (n div 10)) \<le> k" by (intro Suc.IH)
    with False show ?thesis by (simp add: nat_str.simps [of n])
  qed
qed simp

section \<open>Number tokens in context\<close>

text \<open>What may follow a value inside a text: its end, a comma or a closing bracket.\<close>

definition delim :: "pystr \<Rightarrow> bool" where
  "delim r \<longleftrightarrow> r = [] \<or> hd r = 44 \<or> hd r = 93 \<or> hd r = 125"

lemma delim_simps [simp]: "delim []" "delim (c # r) \<longleftrightarrow> c = 44 \<or> c = 93 \<or> c = 125"
  by (simp_all add: delim_def)

lemma digits_delim:
  assumes "delim rest"
  shows "takeWhile is_digit (s @ rest) = takeWhile is_digit s"
    and "dropWhile is_digit (s @ rest) = dropWhile is_digit s @ rest"
proof -
  have t: "takeWhile is_digit rest = []" and d: "dropWhile is_digit rest = rest"
    using assms by (cases rest; auto simp: is_digit_def)+
  show "takeWhile is_digit (s @ rest) = takeWhile is_digit s" by (induction s) (simp_all add: t)
  show "dropWhile is_digit (s @ rest) = dropWhile is_digit s @ rest" by (induction s) (simp_all add: d)
qed

lemma scan_int_append:
  assumes "delim rest" "scan_int s = Some (ds, r)"
  shows "scan_int (s @ rest) = Some (ds, r @ rest)"
  using assms by (cases s) (auto simp: scan_int_def digits_delim split: if_splits)

lemma scan_frac_append:
  "delim rest \<Longrightarrow> scan_frac (s @ rest) = (fst (scan_frac s), snd (scan_frac s) @ rest)"
  by (cases s; cases rest) (auto simp: scan_frac_def digits_delim)

lemma scan_sign_append:
  "delim rest \<Longrightarrow> scan_sign (s @ rest) = (fst (scan_sign s), snd (scan_sign s) @ rest)"
  by (cases s; cases rest) (auto simp: scan_sign_def)

lemma scan_exp_append:
  "delim rest \<Longrightarrow> scan_exp (s @ rest) = (fst (scan_exp s), snd (scan_exp s) @ rest)"
proof (cases s)
  case Nil
  assume "delim rest"
  with Nil show ?thesis by (cases rest) (auto simp: scan_exp_def)
next
  case (Cons c r)
  assume "delim rest"
  with Cons show ?thesis
    by (auto simp: scan_exp_def scan_sign_append digits_delim split: prod.splits)
qed

lemma scan_unsigned_append:
  assumes "delim rest" "scan_unsigned neg s = Some (tok, r)"
  shows "scan_unsigned neg (s @ rest) = Some (tok, r @ rest)"
  using assms
  by (auto simp: scan_unsigned_def scan_int_append scan_frac_append scan_exp_append
      split: option.splits prod.splits)

lemma scan_unsigned_neg:
  "scan_unsigned False s = Some ((neg, ds, fr, ex), r) \<Longrightarrow>
     neg = False \<and> scan_unsigned True s = Some ((True, ds, fr, ex), r)"
  by (auto simp: scan_unsigned_def split: option.splits prod.splits)

section \<open>Integers\<close>

lemma scan_int_nat_str: "scan_int (nat_str n) = Some (nat_str n, [])"
proof (cases "n = 0")
  case True
  then show ?thesis by (simp add: scan_int_def nat_str.simps)
next
  case False
  obtain c r where s: "nat_str n = c # r" by (cases "nat_str n") simp_all
  have all: "is_digit c" "\<forall>x\<in>set r. is_digit x"
    using nat_str_digits [of n] by (simp_all add: s list_all_iff)
  have "c \<noteq> 48" using hd_nat_str [of n] False by (simp add: s)
  with all show ?thesis by (simp add: scan_int_def s)
qed

lemma scan_unsigned_nat_str:
  "scan_unsigned neg (nat_str n) = Some ((neg, nat_str n, [], False, []), [])"
  by (simp add: scan_unsigned_def scan_int_nat_str scan_frac_def scan_exp_def)

lemma hd_nat_str_digit: "nat_str n = c # r \<Longrightarrow> is_digit c"
  using nat_str_digits [of n] by simp

lemma scan_number_int:
  assumes "delim rest"
  shows "scan_number (int_str i @ rest) = Some ((i < 0, nat_str (nat \<bar>i\<bar>), [], False, []), rest)"
proof (cases "i < 0")
  case True
  then show ?thesis
    using scan_unsigned_append [OF assms scan_unsigned_nat_str]
    by (simp add: scan_number_def int_str_def)
next
  case False
  obtain c r where s: "nat_str (nat i) = c # r" by (cases "nat_str (nat i)") simp_all
  have "c \<noteq> 45" using hd_nat_str_digit [OF s] by (simp add: is_digit_def)
  with False show ?thesis
    using scan_unsigned_append [OF assms scan_unsigned_nat_str, of False "nat i"]
    by (simp add: scan_number_def int_str_def s)
qed

section \<open>Floats\<close>

lemma dec_round_neg: "dec_round m (- numeral k) = round_ratio (m * 2 ^ 1074) (10 ^ numeral k)"
proof -
  have "\<not> 0 \<le> (- numeral k :: int)" by simp
  then show ?thesis by (simp only: dec_round_def if_False nat_numeral minus_minus)
qed

lemma round_ratio_5_2:
  assumes "2 ^ excess n dvd n"
  shows "round_ratio (n * 5 ^ k * 2 ^ k) (10 ^ k) = n"
proof -
  have "(5::nat) ^ k * 2 ^ k = 10 ^ k" by (simp flip: power_mult_distrib)
  then have "round_ratio (n * 5 ^ k * 2 ^ k) (10 ^ k) = round_ratio (n * 10 ^ k) (1 * 10 ^ k)"
    by (simp only: mult.assoc mult_1)
  also have "\<dots> = round_ratio n 1" by (rule round_ratio_scale) simp
  also have "\<dots> = n" using assms by (rule round_ratio_exact)
  finally show ?thesis .
qed

lemma reads_back_exact:
  assumes "0 < n" "is_double (int n)" "int n < fbound"
  shows "reads_back n (exact_repr n)"
proof -
  define m where "m = exact_mantissa n"
  have m0: "0 < m" using assms(1) unfolding m_def exact_mantissa_def
    by (intro mult_pos_pos zero_less_power) simp_all
  have e: "lit ''e-1074'' = [101, 45, 49, 48, 55, 52]" by (simp add: lit_def)
  have "takeWhile is_digit (nat_str m @ 101 # r) = nat_str m" for r
    using nat_str_digits [of m] by (simp add: takeWhile_append list_all_iff is_digit_def)
  moreover have "dropWhile is_digit (nat_str m @ 101 # r) = 101 # r" for r
    using nat_str_digits [of m] by (simp add: dropWhile_append list_all_iff is_digit_def)
  moreover obtain c r where s: "nat_str m = c # r" by (cases "nat_str m") simp_all
  moreover have "is_digit c" using s by (rule hd_nat_str_digit)
  moreover have "c \<noteq> 48" using hd_nat_str [OF m0] s by simp
  ultimately have "scan_int (exact_repr n) = Some (nat_str m, [101, 45, 49, 48, 55, 52])"
    by (simp add: scan_int_def exact_repr_def e flip: m_def)
  then have scan: "scan_unsigned False (exact_repr n)
      = Some ((False, nat_str m, [], True, [49, 48, 55, 52]), [])"
    by (simp add: scan_unsigned_def scan_frac_def scan_exp_def scan_sign_def is_digit_def)
  have "dec_round m (- 1074) = round_ratio (n * 5 ^ 1074 * 2 ^ 1074) (10 ^ 1074)"
    unfolding m_def exact_mantissa_def by (rule dec_round_neg)
  also have "\<dots> = n" using assms(2) by (intro round_ratio_5_2) (simp add: is_double_nat)
  finally have "token_float (False, nat_str m, [], True, [49, 48, 55, 52]) = of_rounded (int n)"
    by (simp add: digits_val_def [of "[49, 48, 55, 52]"])
  then have "token_float (False, nat_str m, [], True, [49, 48, 55, 52]) = Fin (int n)"
    using assms(3) by (simp add: of_rounded_def)
  moreover have "exact_repr n \<noteq> [] \<and> hd (exact_repr n) \<noteq> 45"
    using s hd_nat_str_digit [OF s] by (simp add: exact_repr_def is_digit_def flip: m_def)
  ultimately show ?thesis by (simp add: reads_back_def scan del: token_float.simps)
qed

lemma reads_back_pos_repr:
  assumes "0 < n" "is_double (int n)" "int n < fbound"
  shows "reads_back n (pos_repr n)"
proof (cases "find (reads_back n) (map (\<lambda>d. let (c, p) = round_digits n d
    in format_repr (nat_str c) p) [1..<18])")
  case None
  then have "pos_repr n = exact_repr n" by (simp only: pos_repr_def option.case)
  then show ?thesis using reads_back_exact [OF assms] by simp
next
  case (Some t)
  then have "pos_repr n = t" by (simp only: pos_repr_def option.case)
  moreover have "reads_back n t" using Some unfolding find_Some_iff by blast
  ultimately show ?thesis by simp
qed

text \<open>The token of a float's text reads as the float and is not an integer token.\<close>

lemma scan_number_float:
  assumes "fvalid f" "is_finite f" "delim rest"
  shows "\<exists>tok. scan_number (float_repr f @ rest) = Some (tok, rest)
    \<and> \<not> token_is_int tok \<and> token_float tok = f"
proof (cases "fint f = 0")
  case True
  have Z: "scan_unsigned neg [48, 46, 48] = Some ((neg, [48], [48], False, []), [])" for neg
    by (simp add: scan_unsigned_def scan_int_def scan_frac_def scan_exp_def is_digit_def)
  have z: "dec_round 0 (- 1) = 0" by (simp add: dec_round_def round_ratio_def rhe_def)
  have "\<exists>neg. f = (if neg then NegZero else Fin 0)
      \<and> float_repr f = (if neg then 45 # [48, 46, 48] else [48, 46, 48])"
    using True assms(2) by (cases f) (auto simp: lit_def)
  then obtain neg where neg: "f = (if neg then NegZero else Fin 0)"
      "float_repr f = (if neg then 45 # [48, 46, 48] else [48, 46, 48])" by blast
  have "scan_number (float_repr f @ rest) = Some ((neg, [48], [48], False, []), rest)"
    using scan_unsigned_append [OF assms(3) Z, of neg] neg(2)
    by (auto simp: scan_number_def split: if_splits)
  moreover have "token_float (neg, [48], [48], False, []) = f"
    using neg(1) z by (simp add: digits_val_def of_rounded_def)
  ultimately show ?thesis by fastforce
next
  case False
  then obtain n where f: "f = Fin n" "n \<noteq> 0" using assms(2) by (cases f) auto
  define m where "m = nat \<bar>n\<bar>"
  have m: "0 < m" "is_double (int m)" "int m < fbound"
    using f assms(1) by (auto simp: m_def abs_if)
  obtain tok0 r where scan: "scan_unsigned False (pos_repr m) = Some (tok0, r)"
    using reads_back_pos_repr [OF m]
    by (cases "scan_unsigned False (pos_repr m)") (auto simp: reads_back_def)
  obtain neg ds fr ex where t0: "tok0 = (neg, ds, fr, ex)" by (cases tok0)
  from scan t0 have "neg = False" using scan_unsigned_neg by blast
  then have tok: "scan_unsigned False (pos_repr m) = Some ((False, ds, fr, ex), [])"
      "\<not> token_is_int (False, ds, fr, ex)" "token_float (False, ds, fr, ex) = Fin (int m)"
      "pos_repr m \<noteq> []" "hd (pos_repr m) \<noteq> 45"
    using reads_back_pos_repr [OF m] scan t0
    by (simp_all add: reads_back_def del: token_float.simps token_is_int.simps)
  obtain en xs where ex: "ex = (en, xs)" by (cases ex)
  show ?thesis
  proof (cases "n < 0")
    case True
    have "scan_number (float_repr f @ rest) = Some ((True, ds, fr, ex), rest)"
      using scan_unsigned_append [OF assms(3)] scan_unsigned_neg [OF tok(1)] True f
      by (simp add: scan_number_def m_def)
    moreover have "token_float (True, ds, fr, ex) = f"
      using tok(3) True f m(1,3) by (auto simp: ex Let_def of_rounded_def m_def split: if_splits)
    moreover have "\<not> token_is_int (True, ds, fr, ex)" using tok(2) by (simp add: ex)
    ultimately show ?thesis by blast
  next
    case False
    obtain c r where "pos_repr m = c # r" using tok(4) by (cases "pos_repr m") simp_all
    then have "scan_number (float_repr f @ rest) = Some ((False, ds, fr, ex), rest)"
      using scan_unsigned_append [OF assms(3) tok(1)] tok(5) False f
      by (simp add: scan_number_def m_def)
    with tok(2,3) False f show ?thesis by (auto simp: m_def)
  qed
qed

section \<open>Strings\<close>

lemma hex_val_hex_digit: "n < 16 \<Longrightarrow> hex_val (hex_digit n) = Some n"
  by (auto simp: hex_val_def hex_digit_def)

lemma hex4_control: "c < 32 \<Longrightarrow> hex4 48 48 (hex_digit (c div 16)) (hex_digit (c mod 16)) = Some c"
proof -
  assume "c < 32"
  then have "c div 16 < 16" by (simp add: div_less_iff_less_mult)
  moreover have "hex_val 48 = Some 0" by (simp add: hex_val_def)
  ultimately show ?thesis by (simp add: hex4_def hex_val_hex_digit)
qed

lemma parse_str_esc: "parse_str (esc_char c @ r) = map_option (\<lambda>(s, t). (c # s, t)) (parse_str r)"
proof (cases "c < 32 \<or> c = 34 \<or> c = 92")
  case False
  then show ?thesis by (simp add: esc_char_def)
next
  case True
  show ?thesis
  proof (cases "c \<in> {34, 92, 10, 13, 9, 12, 8}")
    case True
    then show ?thesis by (auto simp: esc_char_def unescape_def)
  next
    case False
    with True show ?thesis by (simp add: esc_char_def hex4_control)
  qed
qed

lemma parse_str_escaped: "parse_str (concat (map esc_char s) @ 34 # r) = Some (s, r)"
proof (induction s)
  case Nil
  then show ?case by simp
next
  case (Cons c s)
  then show ?case
    using parse_str_esc [of c "concat (map esc_char s) @ 34 # r"] by simp
qed

section \<open>Values\<close>

text \<open>Distinct keys, finite doubles, safe integers: what validation guarantees.\<close>

fun json_wf :: "json \<Rightarrow> bool" where
  "json_wf (JInt i) = (\<bar>i\<bar> \<le> safe_int)"
| "json_wf (JFloat f) = (fvalid f \<and> is_finite f)"
| "json_wf (JArr xs) = list_all json_wf xs"
| "json_wf (JObj kvs) = (distinct (map fst kvs) \<and> list_all (\<lambda>(k, v). json_wf v) kvs)"
| "json_wf _ = True"

lemma scan_number_first:
  assumes "scan_number (c # s) = Some (tok, r)"
  shows "c = 45 \<or> is_digit c"
  using assms
  by (auto simp: scan_number_def scan_unsigned_def scan_int_def is_digit_def split: if_splits option.splits)

lemma scan_int_shorter: "scan_int s = Some (ds, r) \<Longrightarrow> length r < length s"
  using length_dropWhile_le [of is_digit "tl s"]
  by (cases s) (auto simp: scan_int_def less_Suc_eq_le split: if_splits)

lemma scan_frac_le: "length (snd (scan_frac s)) \<le> length s"
  using length_dropWhile_le [of is_digit "tl s"]
  by (cases s) (auto simp: scan_frac_def)

lemma scan_sign_le: "length (snd (scan_sign s)) \<le> length s"
  by (cases s) (auto simp: scan_sign_def)

lemma scan_exp_le: "length (snd (scan_exp s)) \<le> length s"
proof (cases s)
  case (Cons c y)
  obtain neg t where t: "scan_sign y = (neg, t)" by (cases "scan_sign y")
  with scan_sign_le [of y] length_dropWhile_le [of is_digit t]
  have "length (dropWhile is_digit t) \<le> length y" by simp
  with Cons t show ?thesis by (simp add: scan_exp_def)
qed (simp add: scan_exp_def)

lemma scan_unsigned_shorter:
  assumes "scan_unsigned neg s = Some (tok, r)"
  shows "length r < length s"
proof -
  obtain ds z where z: "scan_int s = Some (ds, z)" and r: "r = snd (scan_exp (snd (scan_frac z)))"
    using assms by (auto simp: scan_unsigned_def split: option.splits prod.splits)
  show ?thesis unfolding r
    using scan_exp_le [of "snd (scan_frac z)"] scan_frac_le [of z] scan_int_shorter [OF z] by linarith
qed

lemma scan_number_shorter: "scan_number s = Some (tok, r) \<Longrightarrow> length r < length s"
  by (cases s) (auto simp: scan_number_def split: if_splits dest: scan_unsigned_shorter)

lemma starts_with_Cons [simp]:
  "starts_with [] s" "starts_with (p # ps) (c # s) \<longleftrightarrow> p = c \<and> starts_with ps s" "\<not> starts_with (p # ps) []"
  by (auto simp: starts_with_def)

lemma parse_number:
  assumes "scan_number (s @ rest) = Some (tok, rest)" "number_value h (s @ rest) tok (length s) = Inr j"
  shows "parse_atom h (s @ rest) = Inr (j, rest) \<and> s \<noteq> []
    \<and> hd s \<notin> {32, 9, 10, 13, 34, 44, 58, 91, 93, 123, 125}"
proof -
  have "s \<noteq> []" using scan_number_shorter [OF assms(1)] by auto
  then obtain c r where c: "s = c # r" by (cases s) simp_all
  with assms(1) have first: "c = 45 \<or> is_digit c"
    using scan_number_first [of c "r @ rest" tok rest] by simp
  then have "c \<notin> {32, 9, 10, 13, 34, 44, 58, 91, 93, 123, 125, 110, 116, 102}" by (auto simp: is_digit_def)
  with c assms show ?thesis by (auto simp: parse_atom_def lit_def)
qed

text \<open>
  What the induction over values proves of one value: it is read back in any context, with
  fuel for its length, and its text starts with none of the decoder's separators.
\<close>

definition reads :: "json_hooks \<Rightarrow> json \<Rightarrow> bool" where
  "reads h v \<longleftrightarrow>
     (\<forall>n rest. length (dumps v) \<le> n \<longrightarrow> delim rest \<longrightarrow> parse_val h n (dumps v @ rest) = Inr (v, rest))
     \<and> (\<exists>c r. dumps v = c # r \<and> c \<notin> {32, 9, 10, 13, 44, 58, 93, 125})"

lemma readsD: "reads h v \<Longrightarrow> length (dumps v) \<le> n \<Longrightarrow> delim rest \<Longrightarrow>
    parse_val h n (dumps v @ rest) = Inr (v, rest)"
  by (simp add: reads_def)

lemma reads_skip: "reads h v \<Longrightarrow> skip_ws (dumps v @ rest) = dumps v @ rest"
  by (auto simp: reads_def is_ws_def)

lemma reads_hd: "reads h v \<Longrightarrow> \<exists>c r. dumps v = c # r \<and> c \<notin> {32, 9, 10, 13, 44, 58, 93, 125}"
  by (simp add: reads_def)

lemma reads_number:
  assumes "\<And>rest. delim rest \<Longrightarrow> \<exists>tok. scan_number (dumps v @ rest) = Some (tok, rest)
      \<and> number_value h (dumps v @ rest) tok (length (dumps v)) = Inr v"
  shows "reads h v"
proof -
  have p: "parse_atom h (dumps v @ rest) = Inr (v, rest) \<and> dumps v \<noteq> []
      \<and> hd (dumps v) \<notin> {32, 9, 10, 13, 34, 44, 58, 91, 93, 123, 125}" if "delim rest" for rest
    using assms [OF that] parse_number by blast
  then obtain c r where c: "dumps v = c # r" by (cases "dumps v") (use p [of "[]"] in auto)
  with p have "parse_atom h (c # r @ rest) = Inr (v, rest)" if "delim rest" for rest
    using that by fastforce
  moreover have "c \<notin> {32, 9, 10, 13, 34, 44, 58, 91, 93, 123, 125}" using p [of "[]"] c by simp
  moreover have "\<exists>m. n = Suc m" if "length (dumps v) \<le> n" for n
    using that c by (cases n) simp_all
  ultimately show ?thesis using c by (fastforce simp: reads_def)
qed

lemma reads_string: "reads h (JStr s)"
proof -
  have "parse_val h n (dumps (JStr s) @ rest) = Inr (JStr s, rest)"
    if "length (dumps (JStr s)) \<le> n" for n rest
    using that by (cases n) (simp_all add: dump_str_def parse_str_escaped)
  then show ?thesis by (simp add: reads_def dump_str_def)
qed

lemma reads_int: "\<bar>i\<bar> \<le> safe_int \<Longrightarrow> reads h (JInt i)"
proof (rule reads_number)
  fix rest
  assume i: "\<bar>i\<bar> \<le> safe_int" and "delim rest"
  then have "scan_number (dumps (JInt i) @ rest) = Some ((i < 0, nat_str (nat \<bar>i\<bar>), [], False, []), rest)"
    by (simp add: scan_number_int)
  moreover have "length (dumps (JInt i)) \<le> 17"
  proof -
    have "nat \<bar>i\<bar> < 10 ^ 16" using i by (simp add: safe_int_def)
    then have "length (nat_str (nat \<bar>i\<bar>)) \<le> 16" by (rule nat_str_length) simp
    then show ?thesis by (cases "i < 0") (simp_all add: int_str_def)
  qed
  ultimately show "\<exists>tok. scan_number (dumps (JInt i) @ rest) = Some (tok, rest)
      \<and> number_value h (dumps (JInt i) @ rest) tok (length (dumps (JInt i))) = Inr (JInt i)"
    using i by (auto simp: number_value_def)
qed

lemma reads_float: "fvalid f \<Longrightarrow> is_finite f \<Longrightarrow> reads h (JFloat f)"
proof (rule reads_number)
  fix rest
  assume f: "fvalid f" "is_finite f" and "delim rest"
  from scan_number_float [OF this] obtain tok where
    "scan_number (float_repr f @ rest) = Some (tok, rest)" "\<not> token_is_int tok" "token_float tok = f"
    by blast
  with f(2) show "\<exists>tok. scan_number (dumps (JFloat f) @ rest) = Some (tok, rest)
      \<and> number_value h (dumps (JFloat f) @ rest) tok (length (dumps (JFloat f))) = Inr (JFloat f)"
    by (intro exI [of _ tok])
      (simp add: number_value_def del: token_float.simps token_is_int.simps)
qed

lemma reads_literal:
  "reads h JNull" "reads h (JBool b)"
proof -
  have "parse_val h n (dumps JNull @ rest) = Inr (JNull, rest)" if "length (dumps JNull) \<le> n" for n rest
    using that by (cases n) (simp_all add: lit_def parse_atom_def)
  then show "reads h JNull" by (simp add: reads_def lit_def)
  have "parse_val h n (dumps (JBool b) @ rest) = Inr (JBool b, rest)"
    if "length (dumps (JBool b)) \<le> n" for n rest
    using that by (cases n; cases b) (simp_all add: lit_def parse_atom_def)
  then show "reads h (JBool b)" by (simp add: reads_def lit_def)
qed

lemma join_Cons: "xs \<noteq> [] \<Longrightarrow> join c (x # xs) = x @ c # join c xs"
  by (cases xs) simp_all

lemma parse_items_join:
  assumes "xs \<noteq> []" "\<And>x. x \<in> set xs \<Longrightarrow> reads h x" "length (join 44 (map dumps xs)) < n"
  shows "parse_items h n (join 44 (map dumps xs) @ 93 # rest) = Inr (xs, rest)"
  using assms
proof (induction xs arbitrary: n)
  case (Cons x xs)
  obtain m where n: "n = Suc m" using Cons.prems(3) by (cases n) simp_all
  have x: "reads h x" using Cons.prems(2) by simp
  obtain c r where c: "dumps x = c # r" using reads_hd [OF x] by blast
  show ?case
  proof (cases "xs = []")
    case True
    with Cons.prems(3) n have "parse_val h m (dumps x @ 93 # rest) = Inr (x, 93 # rest)"
      by (intro readsD [OF x]) simp_all
    with True n show ?thesis by (simp add: is_ws_def)
  next
    case False
    then have j: "join 44 (map dumps (x # xs)) = dumps x @ 44 # join 44 (map dumps xs)"
      by (simp add: join_Cons)
    have "length (dumps x) \<le> m" and "length (join 44 (map dumps xs)) < m"
      using Cons.prems(3) n by (simp_all only: j) (simp_all add: c)
    then have "parse_val h m (dumps x @ 44 # join 44 (map dumps xs) @ 93 # rest)
        = Inr (x, 44 # join 44 (map dumps xs) @ 93 # rest)"
      and "parse_items h m (join 44 (map dumps xs) @ 93 # rest) = Inr (xs, rest)"
      using Cons.prems(2) False by (intro readsD [OF x] Cons.IH; simp)+
    moreover obtain y ys where "xs = y # ys" using False by (cases xs) simp_all
    moreover have "skip_ws (join 44 (map dumps xs) @ 93 # rest) = join 44 (map dumps xs) @ 93 # rest"
      using reads_skip [of h y] Cons.prems(2) calculation(3) by (cases ys) (simp_all add: join_Cons)
    ultimately show ?thesis unfolding j n by (simp add: is_ws_def)
  qed
qed simp

abbreviation dump_member :: "pystr \<times> json \<Rightarrow> pystr" where
  "dump_member \<equiv> \<lambda>(k, v). dump_str k @ 58 # dumps v"

lemma parse_members_join:
  assumes "kvs \<noteq> []" "\<And>k v. (k, v) \<in> set kvs \<Longrightarrow> reads h v"
    "length (join 44 (map dump_member kvs)) < n"
  shows "parse_members h n (join 44 (map dump_member kvs) @ 125 # rest) = Inr (kvs, rest)"
  using assms
proof (induction kvs arbitrary: n)
  case (Cons kv kvs)
  obtain k v where kv: "kv = (k, v)" by (cases kv)
  obtain m where n: "n = Suc m" using Cons.prems(3) by (cases n) simp_all
  have v: "reads h v" using Cons.prems(2) [of k v] kv by simp
  show ?case
  proof (cases "kvs = []")
    case True
    with Cons.prems(3) n kv have "parse_val h m (dumps v @ 125 # rest) = Inr (v, 125 # rest)"
      by (intro readsD [OF v]) simp_all
    with True n kv reads_skip [OF v] show ?thesis
      by (simp add: dump_str_def [of k] parse_str_escaped is_ws_def)
  next
    case False
    then have j: "join 44 (map dump_member (kv # kvs))
        = dump_str k @ 58 # dumps v @ 44 # join 44 (map dump_member kvs)"
      by (simp add: join_Cons kv)
    have "length (dumps v) \<le> m" and "length (join 44 (map dump_member kvs)) < m"
      using Cons.prems(3) n by (simp_all only: j) simp_all
    then have "parse_val h m (dumps v @ 44 # join 44 (map dump_member kvs) @ 125 # rest)
        = Inr (v, 44 # join 44 (map dump_member kvs) @ 125 # rest)"
      and "parse_members h m (join 44 (map dump_member kvs) @ 125 # rest) = Inr (kvs, rest)"
      using Cons.prems(2) False by (intro readsD [OF v] Cons.IH; force)+
    moreover have "skip_ws (join 44 (map dump_member kvs) @ 125 # rest)
        = join 44 (map dump_member kvs) @ 125 # rest"
    proof -
      obtain k' v' kvs' where "kvs = (k', v') # kvs'" using False by (cases kvs) auto
      then show ?thesis by (cases kvs') (simp_all add: join_Cons dump_str_def is_ws_def)
    qed
    ultimately show ?thesis unfolding j n using reads_skip [OF v]
      by (simp add: kv dump_str_def [of k] parse_str_escaped is_ws_def)
  qed
qed simp

lemma reads_array:
  assumes "\<And>x. x \<in> set xs \<Longrightarrow> reads h x"
  shows "reads h (JArr xs)"
proof -
  have "parse_val h n (dumps (JArr xs) @ rest) = Inr (JArr xs, rest)"
    if len: "length (dumps (JArr xs)) \<le> n" for n rest
  proof -
    obtain m where n: "n = Suc m" "length (join 44 (map dumps xs)) < m"
      using len by (cases n) simp_all
    show ?thesis
    proof (cases xs)
      case Nil
      with n show ?thesis by (simp add: is_ws_def)
    next
      case (Cons x ys)
      obtain c r where c: "dumps x = c # r" "c \<notin> {32, 9, 10, 13, 44, 58, 93, 125}"
        using reads_hd [of h x] assms Cons by auto
      have "join 44 (map dumps xs) = c # tl (join 44 (map dumps xs))"
        using Cons c(1) by (cases ys) (simp_all add: join_Cons)
      then obtain t where t: "join 44 (map dumps xs) = c # t" by blast
      have "parse_items h m (join 44 (map dumps xs) @ 93 # rest) = Inr (xs, rest)"
        using Cons assms n(2) by (intro parse_items_join) simp_all
      with t c(2) n show ?thesis by (simp add: is_ws_def)
    qed
  qed
  then show ?thesis by (simp add: reads_def)
qed

lemma dict_of_distinct: "distinct (map fst kvs) \<Longrightarrow> dict_of kvs = kvs"
proof (induction kvs rule: rev_induct)
  case (snoc kv kvs)
  then have "dict_of kvs = kvs" by simp
  moreover have "dput k v d = d @ [(k, v)]" if "k \<notin> fst ` set d" for k :: 'a and v :: 'b and d
    using that by (induction d) auto
  ultimately show ?case using snoc.prems by (cases kv) (simp add: dict_of_def)
qed (simp add: dict_of_def)

lemma reads_object:
  assumes "\<And>k v. (k, v) \<in> set kvs \<Longrightarrow> reads h v" "distinct (map fst kvs)"
  shows "reads h (JObj kvs)"
proof -
  have o: "object_value h kvs = Inr (JObj kvs)"
    using assms(2) by (simp add: object_value_def dict_of_distinct)
  have "parse_val h n (dumps (JObj kvs) @ rest) = Inr (JObj kvs, rest)"
    if len: "length (dumps (JObj kvs)) \<le> n" for n rest
  proof -
    obtain m where n: "n = Suc m" "length (join 44 (map dump_member kvs)) < m"
      using len by (cases n) simp_all
    show ?thesis
    proof (cases kvs)
      case Nil
      with n o show ?thesis by (simp add: is_ws_def)
    next
      case (Cons kv ys)
      have "parse_members h m (join 44 (map dump_member kvs) @ 125 # rest) = Inr (kvs, rest)"
        using Cons assms n(2) by (intro parse_members_join) auto
      moreover have "\<exists>t. join 44 (map dump_member kvs) = 34 # t"
        using Cons by (cases kv; cases ys) (simp_all add: join_Cons dump_str_def)
      ultimately show ?thesis using n(1) o by (auto simp: is_ws_def)
    qed
  qed
  then show ?thesis by (simp add: reads_def)
qed

lemma reads_json_wf: "json_wf v \<Longrightarrow> reads h v"
proof (induction v)
  case (JArr xs)
  then show ?case by (intro reads_array) (simp add: list_all_iff)
next
  case (JObj kvs)
  then show ?case by (intro reads_object) (force simp: list_all_iff)+
qed (simp_all add: reads_int reads_float reads_string reads_literal del: dumps.simps)

text \<open>The decoder inverts the encoder.\<close>

lemma loads_dumps:
  assumes "json_wf v"
  shows "loads h (dumps v) = Inr v"
proof -
  have r: "reads h v" using assms by (rule reads_json_wf)
  have "parse_val h (length (dumps v) + 1) (dumps v @ []) = Inr (v, [])"
    by (intro readsD [OF r]) simp_all
  with reads_skip [OF r, of "[]"] show ?thesis by (simp add: loads_def)
qed

lemma dumps_inject: "json_wf v \<Longrightarrow> json_wf w \<Longrightarrow> dumps v = dumps w \<longleftrightarrow> v = w"
  by (metis loads_dumps sum.inject(2))

section \<open>Sorted keys\<close>

lemma json_wf_jsort [simp]: "json_wf (jsort v) \<longleftrightarrow> json_wf v"
proof (induction v rule: jsort.induct)
  case (2 kvs)
  have "distinct (map fst (sort_key fst (map (\<lambda>(k, v). (k, jsort v)) kvs))) \<longleftrightarrow> distinct (map fst kvs)"
  proof -
    have "mset (map fst (sort_key fst (map (\<lambda>(k, v). (k, jsort v)) kvs))) = mset (map fst kvs)"
      by (simp add: image_mset.compositionality comp_def case_prod_beta)
    then show ?thesis by (metis mset_eq_imp_distinct_iff)
  qed
  with "2" show ?case by (auto simp: list_all_iff split: prod.splits)
qed (auto simp: list_all_iff)

lemma jsort_jsort [simp]: "jsort (jsort v) = jsort v"
proof (induction v rule: jsort.induct)
  case (2 kvs)
  have "map (\<lambda>(k, v). (k, jsort v)) (sort_key fst (map (\<lambda>(k, v). (k, jsort v)) kvs))
      = sort_key fst (map (\<lambda>(k, v). (k, jsort v)) kvs)"
    by (rule map_idI) (use "2" in \<open>force split: prod.splits\<close>)
  then show ?case by (simp add: sort_key_id_if_sorted)
qed simp_all

end
