(* ===== verification/Model_Values.thy ===== *)
theory Model_Values
  imports Py_Json_Laws
begin

text \<open>
  The value boundary of \<open>models.py\<close>: the resource ceilings of \<open>limits.py\<close>, labels,
  numbers, and the freezing of JSON event data with its depth, node and size budgets.
  Freezing is characterised completely (\<open>freeze_json_sound\<close>, \<open>freeze_json_complete\<close>): it
  accepts exactly the values within the limits, and accepts its own result again.
\<close>

section \<open>Ceilings\<close>

definition MAX_EVENTS :: nat where "MAX_EVENTS = 100000"
definition MAX_TEXT_LENGTH :: nat where "MAX_TEXT_LENGTH = 1024"
definition MAX_STREAMS :: nat where "MAX_STREAMS = 4096"
definition MAX_MAPPING_ENTRIES :: nat where "MAX_MAPPING_ENTRIES = 4096"
definition MAX_EVENTS_PER_WINDOW :: nat where "MAX_EVENTS_PER_WINDOW = 1000000"
definition MAX_OUTPUT_WINDOWS :: nat where "MAX_OUTPUT_WINDOWS = 100000"
definition MAX_RESULT_GAPS :: nat where "MAX_RESULT_GAPS = 1000000"
definition MAX_JOIN_COMPARISONS :: nat where "MAX_JOIN_COMPARISONS = 5000000"
definition MAX_EVENT_DATA_BYTES :: nat where "MAX_EVENT_DATA_BYTES = 24 * 1024 * 1024"
definition MAX_JSON_DEPTH :: nat where "MAX_JSON_DEPTH = 64"
definition MAX_JSON_NODES :: nat where "MAX_JSON_NODES = 100000"
definition MAX_DRIFT_RATE_PPM :: int where "MAX_DRIFT_RATE_PPM = 10000"

lemmas ceilings = MAX_EVENTS_def MAX_TEXT_LENGTH_def MAX_STREAMS_def MAX_MAPPING_ENTRIES_def
  MAX_EVENTS_PER_WINDOW_def MAX_OUTPUT_WINDOWS_def MAX_RESULT_GAPS_def MAX_JOIN_COMPARISONS_def
  MAX_EVENT_DATA_BYTES_def MAX_JSON_DEPTH_def MAX_JSON_NODES_def MAX_DRIFT_RATE_PPM_def

section \<open>Labels\<close>

text \<open>\<open>str.strip()\<close> removes the characters with \<open>str.isspace()\<close> at both ends.\<close>

definition is_space :: "nat \<Rightarrow> bool" where
  "is_space c \<longleftrightarrow> 9 \<le> c \<and> c \<le> 13 \<or> 28 \<le> c \<and> c \<le> 32 \<or> c = 0x85 \<or> c = 0xA0 \<or> c = 0x1680
     \<or> 0x2000 \<le> c \<and> c \<le> 0x200A \<or> c = 0x2028 \<or> c = 0x2029 \<or> c = 0x202F \<or> c = 0x205F \<or> c = 0x3000"

definition strip :: "pystr \<Rightarrow> pystr" where
  "strip s = rev (dropWhile is_space (rev (dropWhile is_space s)))"

definition is_control :: "nat \<Rightarrow> bool" where
  "is_control c \<longleftrightarrow> c < 32 \<or> c = 127"

definition label :: "pyval \<Rightarrow> pystr res" where
  "label v =
     (case v of
        PStr s \<Rightarrow>
          (let text = strip s
           in if text = [] then Inl ValidationError
              else if MAX_TEXT_LENGTH < length text then Inl ValidationError
              else if \<not> utf8_ok text then Inl ValidationError
              else if list_ex is_control text then Inl ValidationError
              else Inr text)
      | _ \<Rightarrow> Inl ValidationError)"

definition is_label :: "pystr \<Rightarrow> bool" where
  "is_label s \<longleftrightarrow> s \<noteq> [] \<and> strip s = s \<and> length s \<le> MAX_TEXT_LENGTH \<and> utf8_ok s \<and> \<not> list_ex is_control s"

lemma dropWhile_strip: "dropWhile is_space s = s \<Longrightarrow> dropWhile is_space (strip s) = strip s"
proof -
  assume s: "dropWhile is_space s = s"
  show ?thesis
  proof (cases "strip s")
    case (Cons c r)
    have "s = strip s @ rev (takeWhile is_space (rev s))"
      using takeWhile_dropWhile_id [of is_space "rev s"] s
      by (metis rev_append rev_rev_ident strip_def)
    with Cons obtain t where "s = c # t" by auto
    with s have "\<not> is_space c" by (metis dropWhile.simps(2) dropWhile_append2 hd_dropWhile list.sel(1) list.distinct(1))
    with Cons show ?thesis by simp
  qed simp
qed

lemma strip_idem_if: "dropWhile is_space s = s \<Longrightarrow> strip (strip s) = strip s"
  using dropWhile_strip [of s] by (simp add: strip_def dropWhile_idem)

lemma strip_strip [simp]: "strip (strip s) = strip s"
proof -
  have "strip s = strip (dropWhile is_space s)" by (simp add: strip_def dropWhile_idem)
  then show ?thesis using strip_idem_if [of "dropWhile is_space s"] by (simp add: dropWhile_idem)
qed

lemma label_Inr: "label v = Inr s \<Longrightarrow> is_label s"
  by (auto simp: label_def is_label_def Let_def split: pyval.splits if_splits)

lemma label_is_label: "is_label s \<Longrightarrow> label (PStr s) = Inr s"
  by (simp add: label_def is_label_def)

section \<open>Numbers\<close>

definition any_finite :: "pyval \<Rightarrow> pyfloat res" where
  "any_finite v =
     (case v of
        PInt i \<Rightarrow> if is_finite (float_of_int i) then Inr (float_of_int i) else Inl ValidationError
      | PFloat f \<Rightarrow> if is_finite (fnorm f) then Inr (fnorm f) else Inl ValidationError
      | _ \<Rightarrow> Inl ValidationError)"

definition finite_number :: "bool \<Rightarrow> pyval \<Rightarrow> pyfloat res" where
  "finite_number positive v =
     rbind (any_finite v) (\<lambda>number.
       if positive \<and> fle number (Fin 0) then Inl ValidationError
       else if \<not> positive \<and> flt number (Fin 0) then Inl ValidationError
       else Inr number)"

definition positive_int :: "pyval \<Rightarrow> nat \<Rightarrow> nat res" where
  "positive_int v maximum =
     (case v of PInt i \<Rightarrow> if 1 \<le> i \<and> i \<le> int maximum then Inr (nat i) else Inl ValidationError
      | _ \<Rightarrow> Inl ValidationError)"

lemma any_finite_Inr: "any_finite v = Inr f \<Longrightarrow> is_finite f \<and> fvalid f"
  by (auto simp: any_finite_def float_of_int_def split: pyval.splits if_splits)

lemma any_finite_PFloat: "is_finite f \<Longrightarrow> fvalid f \<Longrightarrow> any_finite (PFloat f) = Inr f"
  by (simp add: any_finite_def fnorm_valid)

lemma finite_number_Inr:
  "finite_number p v = Inr f \<Longrightarrow> is_finite f \<and> fvalid f \<and> 0 \<le> fint f \<and> (p \<longrightarrow> 0 < fint f)"
  by (cases p) (auto simp: finite_number_def fle_finite flt_finite dest: any_finite_Inr)

section \<open>Freezing JSON data\<close>

text \<open>
  The recursive walk of \<open>_freeze_json\<close>: \<open>d\<close> is the depth, \<open>b\<close> the number of nodes visited
  so far. The result stands for the frozen value and for what \<open>_thaw_json\<close> makes of it: the
  mapping proxies and tuples of the code are \<open>JObj\<close> and \<open>JArr\<close>.
\<close>

definition admit_node :: "nat \<Rightarrow> nat \<Rightarrow> nat res" where
  "admit_node d b =
     (if MAX_JSON_DEPTH < d then Inl ValidationError
      else if MAX_JSON_NODES < b + 1 then Inl ValidationError
      else Inr (b + 1))"

fun freeze_json :: "nat \<Rightarrow> pyval \<Rightarrow> nat \<Rightarrow> (json \<times> nat) res"
  and freeze_members :: "nat \<Rightarrow> nat \<Rightarrow> (pyval \<times> pyval) list \<Rightarrow> (pystr, json) dict \<Rightarrow> nat
      \<Rightarrow> ((pystr, json) dict \<times> nat) res"
  and freeze_items :: "nat \<Rightarrow> pyval list \<Rightarrow> nat \<Rightarrow> (json list \<times> nat) res"
where
  "freeze_json d PNone b = rbind (admit_node d b) (\<lambda>b. Inr (JNull, b))"
| "freeze_json d (PBool x) b = rbind (admit_node d b) (\<lambda>b. Inr (JBool x, b))"
| "freeze_json d (PStr s) b =
     rbind (admit_node d b) (\<lambda>b. if utf8_ok s then Inr (JStr s, b) else Inl ValidationError)"
| "freeze_json d (PInt i) b =
     rbind (admit_node d b) (\<lambda>b. if \<bar>i\<bar> > safe_int then Inl ValidationError else Inr (JInt i, b))"
| "freeze_json d (PFloat f) b =
     rbind (admit_node d b) (\<lambda>b. if is_finite (fnorm f) then Inr (JFloat (fnorm f), b)
                                 else Inl ValidationError)"
| "freeze_json d (PDict kvs) b =
     rbind (admit_node d b) (\<lambda>b.
       rbind (freeze_members d 0 kvs [] b) (\<lambda>(r, b). Inr (JObj r, b)))"
| "freeze_json d (PList xs) b =
     rbind (admit_node d b) (\<lambda>b. rbind (freeze_items d xs b) (\<lambda>(r, b). Inr (JArr r, b)))"
| "freeze_json d (PTuple xs) b =
     rbind (admit_node d b) (\<lambda>b. rbind (freeze_items d xs b) (\<lambda>(r, b). Inr (JArr r, b)))"
| "freeze_json d v b = rbind (admit_node d b) (\<lambda>b. Inl ValidationError)"
| "freeze_members d index [] r b = Inr (r, b)"
| "freeze_members d index ((key, child) # kvs) r b =
     (if index = MAX_MAPPING_ENTRIES then Inl ValidationError
      else (case key of
              PStr k \<Rightarrow>
                if MAX_TEXT_LENGTH < length k then Inl ValidationError
                else if \<not> utf8_ok k then Inl ValidationError
                else rbind (freeze_json (d + 1) child b) (\<lambda>(j, b).
                       freeze_members d (index + 1) kvs (dput k j r) b)
            | _ \<Rightarrow> Inl ValidationError))"
| "freeze_items d [] b = Inr ([], b)"
| "freeze_items d (x # xs) b =
     rbind (freeze_json (d + 1) x b) (\<lambda>(j, b).
       rbind (freeze_items d xs b) (\<lambda>(js, b). Inr (j # js, b)))"

definition freeze_event_data :: "pyval \<Rightarrow> json res" where
  "freeze_event_data v =
     (case v of
        PDict kvs \<Rightarrow>
          if MAX_MAPPING_ENTRIES < length kvs then Inl ValidationError
          else rbind (freeze_json 0 v 0) (\<lambda>(frozen, _).
                 if MAX_EVENT_DATA_BYTES < utf8_len (dumps frozen) then Inl ValidationError
                 else Inr frozen)
      | _ \<Rightarrow> Inl ValidationError)"

subsection \<open>The accepted values\<close>

text \<open>\<open>jfits d j\<close>: \<open>j\<close> is within the limits when it stands at depth \<open>d\<close>.\<close>

fun jfits :: "nat \<Rightarrow> json \<Rightarrow> bool" where
  "jfits d (JStr s) = (d \<le> MAX_JSON_DEPTH \<and> utf8_ok s)"
| "jfits d (JInt i) = (d \<le> MAX_JSON_DEPTH \<and> \<bar>i\<bar> \<le> safe_int)"
| "jfits d (JFloat f) = (d \<le> MAX_JSON_DEPTH \<and> is_finite f \<and> fvalid f)"
| "jfits d (JArr xs) = (d \<le> MAX_JSON_DEPTH \<and> list_all (jfits (d + 1)) xs)"
| "jfits d (JObj kvs) =
     (d \<le> MAX_JSON_DEPTH \<and> length kvs \<le> MAX_MAPPING_ENTRIES \<and> distinct (map fst kvs)
      \<and> list_all (\<lambda>(k, v). length k \<le> MAX_TEXT_LENGTH \<and> utf8_ok k \<and> jfits (d + 1) v) kvs)"
| "jfits d j = (d \<le> MAX_JSON_DEPTH)"

fun jnodes :: "json \<Rightarrow> nat" where
  "jnodes (JArr xs) = 1 + sum_list (map jnodes xs)"
| "jnodes (JObj kvs) = 1 + sum_list (map (\<lambda>(k, v). jnodes v) kvs)"
| "jnodes j = 1"

lemma jfits_json_wf: "jfits d j \<Longrightarrow> json_wf j"
proof (induction d j rule: jfits.induct)
  case (5 d kvs)
  then show ?case by (auto simp: list_all_iff)
qed (auto simp: list_all_iff)

lemma admit_node_Inr:
  "admit_node d b = Inr b' \<longleftrightarrow> d \<le> MAX_JSON_DEPTH \<and> b' = b + 1 \<and> b' \<le> MAX_JSON_NODES"
  by (auto simp: admit_node_def)

lemma sum_dput_le:
  fixes f :: "'v \<Rightarrow> nat"
  shows "sum_list (map (\<lambda>(k, v). f v) (dput k v r)) \<le> sum_list (map (\<lambda>(k, v). f v) r) + f v"
  by (induction r) auto

lemma list_all_dput:
  "list_all (\<lambda>(k, v). P k v) r \<Longrightarrow> P k j \<Longrightarrow> list_all (\<lambda>(k, v). P k v) (dput k j r)"
  by (induction r) auto

lemma freeze_json_sound:
  "freeze_json d v b = Inr (j, b') \<Longrightarrow>
     jfits d j \<and> b + jnodes j \<le> b' \<and> b' \<le> max b MAX_JSON_NODES"
  "freeze_members d i kvs r b = Inr (r', b') \<Longrightarrow>
     length r \<le> i \<Longrightarrow> i \<le> MAX_MAPPING_ENTRIES \<Longrightarrow> distinct (map fst r) \<Longrightarrow>
     list_all (\<lambda>(k, v). length k \<le> MAX_TEXT_LENGTH \<and> utf8_ok k \<and> jfits (d + 1) v) r \<Longrightarrow>
     length r' \<le> MAX_MAPPING_ENTRIES \<and> distinct (map fst r')
     \<and> list_all (\<lambda>(k, v). length k \<le> MAX_TEXT_LENGTH \<and> utf8_ok k \<and> jfits (d + 1) v) r'
     \<and> b + sum_list (map (\<lambda>(k, v). jnodes v) r') \<le> b' + sum_list (map (\<lambda>(k, v). jnodes v) r)
     \<and> b' \<le> max b MAX_JSON_NODES"
  "freeze_items d xs b = Inr (js, b') \<Longrightarrow>
     list_all (jfits (d + 1)) js \<and> b + sum_list (map jnodes js) \<le> b' \<and> b' \<le> max b MAX_JSON_NODES"
proof (induction d v b and d i kvs r b and d xs b arbitrary: j b' and r' b' and js b'
    rule: freeze_json_freeze_members_freeze_items.induct)
  case (6 d kvs b)
  then show ?case by (fastforce simp: admit_node_Inr)
next
  case (7 d xs b)
  then show ?case by (fastforce simp: admit_node_Inr)
next
  case (8 d xs b)
  then show ?case by (fastforce simp: admit_node_Inr)
next
  case (11 d index key child kvs r b)
  then obtain k j b1 where s: "index \<noteq> MAX_MAPPING_ENTRIES" "key = PStr k" "length k \<le> MAX_TEXT_LENGTH"
      "utf8_ok k" "freeze_json (d + 1) child b = Inr (j, b1)"
      "freeze_members d (index + 1) kvs (dput k j r) b1 = Inr (r', b')"
    by (auto split: pyval.splits if_splits)
  have j: "jfits (d + 1) j \<and> b + jnodes j \<le> b1 \<and> b1 \<le> max b MAX_JSON_NODES"
    using "11.IH"(1) s by simp
  have "length (dput k j r) \<le> index + 1"
    using "11.prems"(2) by (simp add: length_dput split: option.splits)
  moreover have "list_all (\<lambda>(k, v). length k \<le> MAX_TEXT_LENGTH \<and> utf8_ok k \<and> jfits (d + 1) v) (dput k j r)"
    using "11.prems"(5) s j by (intro list_all_dput) simp_all
  moreover have "distinct (map fst (dput k j r))"
    using "11.prems"(4) dict_ok_dput [of r k j] by (simp only: dict_ok_def)
  moreover note sum_dput_le [of jnodes k j r]
  ultimately show ?case using "11.IH"(2) [of k j b1 r' b'] "11.prems" s j
    by (simp add: max_def split: if_splits)
next
  case (13 d x xs b)
  then show ?case by fastforce
qed (auto simp: admit_node_Inr split: if_splits)

lemma freeze_json_complete:
  "jfits d j \<Longrightarrow> b + jnodes j \<le> MAX_JSON_NODES \<Longrightarrow>
     freeze_json d (py_of_json j) b = Inr (j, b + jnodes j)"
proof (induction j arbitrary: d b)
  case (JArr xs)
  have "freeze_items d (map py_of_json ys) b = Inr (ys, b + sum_list (map jnodes ys))"
    if "set ys \<subseteq> set xs" "b + sum_list (map jnodes ys) \<le> MAX_JSON_NODES" for ys b
    using that
  proof (induction ys arbitrary: b)
    case (Cons y ys)
    then have y: "y \<in> set xs" "jfits (d + 1) y" using JArr.prems by (auto simp: list_all_iff)
    have "freeze_json (d + 1) (py_of_json y) b = Inr (y, b + jnodes y)"
      using JArr.IH [OF y] Cons.prems(2) by simp
    with Cons show ?case by (simp add: add.assoc)
  qed simp
  from this [of xs "b + 1"] JArr.prems show ?case by (simp add: admit_node_Inr)
next
  case (JObj kvs)
  have put: "dput k v r = r @ [(k, v)]" if "k \<notin> fst ` set r" for k :: pystr and v :: json and r
    using that by (induction r) auto
  have "freeze_members d i (map (\<lambda>(k, v). (PStr k, py_of_json v)) ys) r b
      = Inr (r @ ys, b + sum_list (map (\<lambda>(k, v). jnodes v) ys))"
    if "set ys \<subseteq> set kvs" "b + sum_list (map (\<lambda>(k, v). jnodes v) ys) \<le> MAX_JSON_NODES"
      "i + length ys \<le> MAX_MAPPING_ENTRIES" "distinct (map fst (r @ ys))" for ys b i r
    using that
  proof (induction ys arbitrary: b i r)
    case (Cons kv ys)
    obtain k v where kv: "kv = (k, v)" by (cases kv)
    with Cons.prems(1) have mem: "(k, v) \<in> set kvs" by simp
    with JObj.prems have k: "length k \<le> MAX_TEXT_LENGTH" "utf8_ok k" "jfits (d + 1) v"
      by (auto simp: list_all_iff)
    have "freeze_json (d + 1) (py_of_json v) b = Inr (v, b + jnodes v)"
      using JObj.IH [OF mem] k Cons.prems(2) kv by simp
    moreover have "dput k v r = r @ [(k, v)]" using Cons.prems(4) kv by (intro put) auto
    ultimately show ?case using Cons.IH [of "b + jnodes v" "i + 1" "r @ [(k, v)]"] Cons.prems k kv
      by (simp add: add.assoc)
  qed simp
  from this [of kvs "b + 1" 0 "[]"] JObj.prems show ?case by (simp add: admit_node_Inr)
qed (auto simp: admit_node_Inr fnorm_valid)

end
