(* ===== verification/Py_Hash.thy ===== *)
theory Py_Hash
  imports Py_Json "HOL-Library.Word"
begin

unbundle bit_operations_syntax

text \<open>
  \<open>hashlib.sha256\<close> (FIPS 180-4) on byte lists: the digest as 32 bytes and as 64 lowercase
  hexadecimal characters. Identities, checksums and the partitioner are built on it.
\<close>

definition sha_k :: "32 word list" where
  "sha_k =
    [1116352408, 1899447441, 3049323471, 3921009573, 961987163, 1508970993, 2453635748, 2870763221,
     3624381080, 310598401, 607225278, 1426881987, 1925078388, 2162078206, 2614888103, 3248222580,
     3835390401, 4022224774, 264347078, 604807628, 770255983, 1249150122, 1555081692, 1996064986,
     2554220882, 2821834349, 2952996808, 3210313671, 3336571891, 3584528711, 113926993, 338241895,
     666307205, 773529912, 1294757372, 1396182291, 1695183700, 1986661051, 2177026350, 2456956037,
     2730485921, 2820302411, 3259730800, 3345764771, 3516065817, 3600352804, 4094571909, 275423344,
     430227734, 506948616, 659060556, 883997877, 958139571, 1322822218, 1537002063, 1747873779,
     1955562222, 2024104815, 2227730452, 2361852424, 2428436474, 2756734187, 3204031479, 3329325298]"

definition sha_init :: "32 word list" where
  "sha_init = [1779033703,3144134277,1013904242,2773480762,1359893119,2600822924,528734635,1541459225]"

definition rotr :: "nat \<Rightarrow> 32 word \<Rightarrow> 32 word" where
  "rotr n x = word_rotr n x"

definition shr :: "nat \<Rightarrow> 32 word \<Rightarrow> 32 word" where
  "shr n x = drop_bit n x"

text \<open>The message schedule, newest word first.\<close>

definition sha_next :: "32 word list \<Rightarrow> 32 word" where
  "sha_next ws =
     (let w2 = ws ! 1; w7 = ws ! 6; w15 = ws ! 14; w16 = ws ! 15;
          s0 = rotr 7 w15 XOR rotr 18 w15 XOR shr 3 w15;
          s1 = rotr 17 w2 XOR rotr 19 w2 XOR shr 10 w2
      in w16 + s0 + w7 + s1)"

definition sha_schedule :: "32 word list \<Rightarrow> 32 word list" where
  "sha_schedule block = rev (((\<lambda>ws. sha_next ws # ws) ^^ 48) (rev block))"

fun sha_round :: "32 word list \<Rightarrow> 32 word \<times> 32 word \<Rightarrow> 32 word list" where
  "sha_round [a, b, c, d, e, f, g, h] (k, w) =
     (let s1 = rotr 6 e XOR rotr 11 e XOR rotr 25 e;
          ch = (e AND f) XOR (NOT e AND g);
          t1 = h + s1 + ch + k + w;
          s0 = rotr 2 a XOR rotr 13 a XOR rotr 22 a;
          maj = (a AND b) XOR (a AND c) XOR (b AND c);
          t2 = s0 + maj
      in [t1 + t2, a, b, c, d + t1, e, f, g])"
| "sha_round s _ = s"

definition sha_block :: "32 word list \<Rightarrow> 32 word list \<Rightarrow> 32 word list" where
  "sha_block hs block =
     map2 (+) hs (foldl sha_round hs (zip sha_k (sha_schedule block)))"

fun chunks :: "nat \<Rightarrow> 'a list \<Rightarrow> 'a list list" where
  "chunks n xs = (if n = 0 \<or> xs = [] then [] else take n xs # chunks n (drop n xs))"

definition be_bytes :: "nat \<Rightarrow> nat \<Rightarrow> nat list" where
  "be_bytes k n = map (\<lambda>i. n div 256 ^ i mod 256) (rev [0..<k])"

definition be_value :: "nat list \<Rightarrow> nat" where
  "be_value bs = foldl (\<lambda>n b. 256 * n + b) 0 bs"

definition sha_pad :: "nat list \<Rightarrow> nat list" where
  "sha_pad m = m @ [0x80] @ replicate ((119 - length m mod 64) mod 64) 0 @ be_bytes 8 (8 * length m)"

definition sha256 :: "nat list \<Rightarrow> nat list" where
  "sha256 m =
     concat (map (\<lambda>w. be_bytes 4 (unat w))
       (foldl sha_block sha_init
         (map (\<lambda>b. map (\<lambda>c. of_nat (be_value c)) (chunks 4 b)) (chunks 64 (sha_pad m)))))"

definition hex_bytes :: "nat list \<Rightarrow> pystr" where
  "hex_bytes bs = concat (map (\<lambda>b. [hex_digit (b div 16), hex_digit (b mod 16)]) bs)"

definition sha256_hex :: "pystr \<Rightarrow> pystr" where
  "sha256_hex s = hex_bytes (sha256 (utf8 s))"

text \<open>
  \<open>len(h) == 64 and all(c in "0123456789abcdef" for c in h)\<close>: the shape of a digest.
\<close>

definition is_hex64 :: "pystr \<Rightarrow> bool" where
  "is_hex64 s \<longleftrightarrow> length s = 64 \<and> list_all (\<lambda>c. c \<in> set (lit ''0123456789abcdef'')) s"

lemma length_sha_round: "length s = 8 \<Longrightarrow> length (sha_round s kw) = 8"
  by (induction s kw rule: sha_round.induct) (simp_all add: Let_def)

lemma length_sha_rounds: "length s = 8 \<Longrightarrow> length (foldl sha_round s kws) = 8"
  by (induction kws arbitrary: s) (simp_all add: length_sha_round)

lemma length_sha_blocks: "length s = 8 \<Longrightarrow> length (foldl sha_block s bs) = 8"
  by (induction bs arbitrary: s) (simp_all add: sha_block_def length_sha_rounds)

lemma length_sha256: "length (sha256 m) = 32"
proof -
  have "length (concat (map (\<lambda>w. be_bytes 4 (unat w)) ws)) = 4 * length ws" for ws :: "32 word list"
    by (induction ws) (simp_all add: be_bytes_def)
  then show ?thesis by (simp add: sha256_def length_sha_blocks sha_init_def)
qed

lemma sha256_bytes: "b \<in> set (sha256 m) \<Longrightarrow> b < 256"
  by (auto simp: sha256_def be_bytes_def)

lemma hex_digit_in: "n < 16 \<Longrightarrow> hex_digit n \<in> set (lit ''0123456789abcdef'')"
proof -
  have "\<forall>n\<in>set [0..<16]. hex_digit n \<in> set (lit ''0123456789abcdef'')" by code_simp
  then show "n < 16 \<Longrightarrow> ?thesis" by simp
qed

lemma sha256_hex_is_hex64 [simp]: "is_hex64 (sha256_hex s)"
proof -
  have "length (hex_bytes bs) = 2 * length bs" for bs
    by (induction bs) (simp_all add: hex_bytes_def)
  moreover have "hex_digit (b div 16) \<in> set (lit ''0123456789abcdef'')
      \<and> hex_digit (b mod 16) \<in> set (lit ''0123456789abcdef'')" if "b < 256" for b
    using that by (auto intro!: hex_digit_in simp: div_less_iff_less_mult)
  ultimately show ?thesis
    using sha256_bytes
    by (auto simp: is_hex64_def sha256_hex_def length_sha256 list_all_iff hex_bytes_def)
qed

end
