(* ===== verification/Flow_Values.thy ===== *)
theory Flow_Values
  imports Model_Values Py_Hash
begin

text \<open>
  The value layer of \<open>dataflow.py\<close>: bounded counts, canonical keys, snapshots of JSON
  values as canonical text, and \<open>FlowRecord\<close>. The central fact is that a snapshot is a
  fixed point of decoding and snapshotting again (\<open>canonical\<close>), which every checkpoint
  and every keyed state cell relies on.
\<close>

definition MAX_COUNT :: int where "MAX_COUNT = 2 ^ 53 - 1"

definition byte_len :: "pystr \<Rightarrow> int" where
  "byte_len s = int (utf8_len s)"

lemma byte_len_nonneg [simp]: "0 \<le> byte_len s"
  by (simp add: byte_len_def)

definition count :: "int \<Rightarrow> int \<Rightarrow> int \<Rightarrow> int res" where
  "count v minimum maximum =
     (if minimum \<le> v \<and> v \<le> maximum then Inr v else Inl ValidationError)"

text \<open>The same check on an untyped document value: \<open>type(value) is not int\<close> is refused.\<close>

definition count_json :: "json \<Rightarrow> int \<Rightarrow> int \<Rightarrow> int res" where
  "count_json v minimum maximum =
     (case v of JInt i \<Rightarrow> count i minimum maximum | _ \<Rightarrow> Inl ValidationError)"

lemma count_Inr [simp]: "count v lo hi = Inr w \<longleftrightarrow> w = v \<and> lo \<le> v \<and> v \<le> hi"
  by (auto simp: count_def)

lemma count_json_Inr [simp]: "count_json v lo hi = Inr w \<longleftrightarrow> v = JInt w \<and> lo \<le> w \<and> w \<le> hi"
  by (cases v) (auto simp: count_json_def)

definition key :: "pyval \<Rightarrow> pystr res" where
  "key v = rbind (label v) (\<lambda>r. if v = PStr r then Inr r else Inl ValidationError)"

text \<open>The canonical keys: non-empty trimmed labels.\<close>

lemma key_PStr [simp]: "key (PStr s) = Inr k \<longleftrightarrow> k = s \<and> is_label s"
  by (auto simp: key_def label_is_label dest: label_Inr)

lemma key_Inr: "key v = Inr k \<Longrightarrow> v = PStr k \<and> is_label k"
  by (auto simp: key_def dest: label_Inr split: if_splits)

section \<open>Snapshots\<close>

definition value_name :: pystr where
  "value_name = lit ''value''"

definition snapshot :: "pyval \<Rightarrow> int \<Rightarrow> pystr res" where
  "snapshot v maximum =
     rbind (freeze_event_data (PDict [(PStr value_name, v)])) (\<lambda>frozen.
       case frozen of
         JObj kvs \<Rightarrow>
           (case dget kvs value_name of
              None \<Rightarrow> Inl KeyError
            | Some j \<Rightarrow>
                let encoded = dumps (jsort j)
                in if maximum < byte_len encoded then Inl ValidationError else Inr encoded)
       | _ \<Rightarrow> Inl KeyError)"

lemma value_name_simps [simp]:
  "length value_name = 5" "utf8_ok value_name"
  by (simp_all add: value_name_def lit_def utf8_ok_def is_scalar_def)

lemma jfits_jsort [simp]: "jfits d (jsort j) \<longleftrightarrow> jfits d j"
proof (induction d j rule: jfits.induct)
  case (5 d kvs)
  have "distinct (map fst (sort_key fst (map (\<lambda>(k, v). (k, jsort v)) kvs))) \<longleftrightarrow> distinct (map fst kvs)"
    using json_wf_jsort [of "JObj (map (\<lambda>(k, v). (k, JNull)) kvs)"]
    by (rule_tac mset_eq_imp_distinct_iff)
      (simp add: image_mset.compositionality comp_def case_prod_beta)
  with "5" show ?case by (auto simp: list_all_iff split: prod.splits)
qed (auto simp: list_all_iff)

lemma sum_list_sort_key:
  fixes f :: "'a \<Rightarrow> nat"
  shows "sum_list (map f (sort_key g xs)) = sum_list (map f xs)"
  by (metis mset_map mset_sort sum_mset_sum_list)

lemma jnodes_jsort [simp]: "jnodes (jsort j) = jnodes j"
proof (induction j rule: jsort.induct)
  case (1 xs)
  then show ?case by (simp add: comp_def cong: map_cong)
next
  case (2 kvs)
  have "map ((\<lambda>(k, v). jnodes v) \<circ> (\<lambda>(k, v). (k, jsort v))) kvs = map (\<lambda>(k, v). jnodes v) kvs"
    by (rule map_cong) (use "2" in \<open>auto simp: comp_def\<close>)
  then show ?case by (simp only: jsort.simps jnodes.simps sum_list_sort_key map_map)
qed simp_all

lemma utf8_len_join:
  "c < 128 \<Longrightarrow> utf8_len (join c xs) = sum_list (map utf8_len xs) + (length xs - 1)"
proof (induction c xs rule: join.induct)
  case (3 c x y xs)
  then show ?case by (simp add: utf8_len_Cons utf8_char_def)
qed simp_all

lemma utf8_len_dumps_jsort [simp]: "utf8_len (dumps (jsort j)) = utf8_len (dumps j)"
proof (induction j rule: jsort.induct)
  case (1 xs)
  then show ?case by (simp add: utf8_len_join utf8_len_Cons comp_def cong: map_cong)
next
  case (2 kvs)
  have "(\<lambda>x. utf8_len (dump_member x)) \<circ> (\<lambda>(k, v). (k, jsort v))
      = (\<lambda>kv. utf8_len (dump_member (fst kv, jsort (snd kv))))"
    by (auto simp: fun_eq_iff)
  moreover have "map (\<lambda>kv. utf8_len (dump_member (fst kv, jsort (snd kv)))) kvs
      = map (\<lambda>kv. utf8_len (dump_member kv)) kvs"
    using "2" by (auto intro!: map_cong simp: utf8_len_Cons)
  ultimately have "sum_list (map (\<lambda>x. utf8_len (dump_member x))
        (sort_key fst (map (\<lambda>(k, v). (k, jsort v)) kvs)))
      = sum_list (map (\<lambda>kv. utf8_len (dump_member kv)) kvs)"
    by (simp only: sum_list_sort_key map_map)
  then show ?case by (simp add: utf8_len_join utf8_len_Cons comp_def)
qed simp_all

text \<open>What a successful snapshot is, in terms of a JSON value within the limits.\<close>

definition snapshot_json :: "json \<Rightarrow> bool" where
  "snapshot_json j \<longleftrightarrow> jfits 1 j \<and> 1 + jnodes j \<le> MAX_JSON_NODES \<and> jsort j = j
     \<and> utf8_len (dumps (JObj [(value_name, j)])) \<le> MAX_EVENT_DATA_BYTES"

lemma snapshot_sound:
  assumes "snapshot v m = Inr t"
  shows "\<exists>j. t = dumps j \<and> snapshot_json j \<and> byte_len t \<le> m"
proof -
  obtain j b where j: "freeze_json 1 v 1 = Inr (j, b)" and t: "t = dumps (jsort j)"
    and m: "byte_len t \<le> m"
    and size: "utf8_len (dumps (JObj [(value_name, j)])) \<le> MAX_EVENT_DATA_BYTES"
    using assms
    by (auto simp: snapshot_def freeze_event_data_def admit_node_Inr Let_def split: if_splits)
  from freeze_json_sound(1) [OF j] have f: "jfits 1 j" "1 + jnodes j \<le> MAX_JSON_NODES"
    by (auto simp: MAX_JSON_NODES_def)
  have "utf8_len (dumps (JObj [(value_name, jsort j)])) = utf8_len (dumps (JObj [(value_name, j)]))"
    by (simp add: utf8_len_Cons)
  with f t m size show ?thesis
    by (intro exI [of _ "jsort j"]) (simp add: snapshot_json_def del: dumps.simps)
qed

lemma snapshot_complete:
  assumes "snapshot_json j"
  shows "snapshot (py_of_json j) m = (if m < byte_len (dumps j) then Inl ValidationError else Inr (dumps j))"
proof -
  have "freeze_json 1 (py_of_json j) 1 = Inr (j, 1 + jnodes j)"
    using assms by (intro freeze_json_complete) (simp_all add: snapshot_json_def)
  moreover have "admit_node 0 0 = Inr 1" by (simp add: admit_node_Inr ceilings)
  ultimately show ?thesis using assms
    by (simp add: snapshot_def freeze_event_data_def snapshot_json_def Let_def ceilings
        del: dumps.simps(7))
qed

lemma snapshot_json_wf: "snapshot_json j \<Longrightarrow> json_wf j"
  by (auto simp: snapshot_json_def dest: jfits_json_wf)

lemma loads_snapshot_json: "snapshot_json j \<Longrightarrow> loads h (dumps j) = Inr j"
  by (intro loads_dumps snapshot_json_wf)

text \<open>A text that decodes to a value whose snapshot is the text again.\<close>

definition canonical :: "pystr \<Rightarrow> bool" where
  "canonical t \<longleftrightarrow>
     (case loads no_hooks t of
        Inl e \<Rightarrow> False
      | Inr j \<Rightarrow> snapshot (py_of_json j) (byte_len t) = Inr t)"

lemma canonical_iff: "canonical t \<longleftrightarrow> (\<exists>j. t = dumps j \<and> snapshot_json j)"
proof
  assume "canonical t"
  then obtain j where "snapshot (py_of_json j) (byte_len t) = Inr t"
    by (auto simp: canonical_def split: sum.splits)
  then show "\<exists>j. t = dumps j \<and> snapshot_json j" using snapshot_sound by blast
next
  assume "\<exists>j. t = dumps j \<and> snapshot_json j"
  then show "canonical t"
    by (auto simp: canonical_def loads_snapshot_json snapshot_complete)
qed

lemma snapshot_canonical: "snapshot v m = Inr t \<Longrightarrow> canonical t \<and> byte_len t \<le> m"
  by (metis canonical_iff snapshot_sound)

lemma canonical_loads:
  assumes "canonical t"
  obtains j where "\<And>h. loads h t = Inr j" "dumps j = t" "snapshot_json j"
    "\<And>m. byte_len t \<le> m \<Longrightarrow> snapshot (py_of_json j) m = Inr t"
  using assms by (auto simp: canonical_iff loads_snapshot_json snapshot_complete)

section \<open>Flow records\<close>

definition MAX_RECORD :: int where "MAX_RECORD = 8 * 1024 * 1024"

record flow_record =
  rec_key :: "pystr option"
  rec_json :: pystr

definition make_record :: "pyval \<Rightarrow> pystr option \<Rightarrow> flow_record res" where
  "make_record v k =
     rbind (case k of None \<Rightarrow> Inr None | Some s \<Rightarrow> rbind (key (PStr s)) (\<lambda>s. Inr (Some s))) (\<lambda>k.
     rbind (snapshot v MAX_RECORD) (\<lambda>t. Inr \<lparr>rec_key = k, rec_json = t\<rparr>))"

definition rec_value :: "flow_record \<Rightarrow> pyval res" where
  "rec_value r = rbind (loads no_hooks (rec_json r)) (\<lambda>j. Inr (py_of_json j))"

definition rec_size :: "flow_record \<Rightarrow> int" where
  "rec_size r = byte_len (rec_json r)"

definition record_ok :: "flow_record \<Rightarrow> bool" where
  "record_ok r \<longleftrightarrow> canonical (rec_json r) \<and> rec_size r \<le> MAX_RECORD
     \<and> (case rec_key r of None \<Rightarrow> True | Some k \<Rightarrow> is_label k)"

lemma make_record_ok: "make_record v k = Inr r \<Longrightarrow> record_ok r \<and> rec_key r = k"
  by (auto simp: make_record_def record_ok_def rec_size_def dest: snapshot_canonical
      split: option.splits)

text \<open>Rebuilding a record from its own value and key gives the same record.\<close>

lemma make_record_value:
  assumes "record_ok r" "rec_value r = Inr v"
  shows "make_record v (rec_key r) = Inr r"
proof -
  have c: "canonical (rec_json r)" using assms(1) by (simp add: record_ok_def)
  then show ?thesis
  proof (rule canonical_loads)
    fix j
    assume l: "\<And>h. loads h (rec_json r) = Inr j"
      and s: "\<And>m. byte_len (rec_json r) \<le> m \<Longrightarrow> snapshot (py_of_json j) m = Inr (rec_json r)"
    from l assms(2) have "v = py_of_json j" by (simp add: rec_value_def)
    with s assms(1) show ?thesis
      by (cases "rec_key r") (simp_all add: make_record_def record_ok_def rec_size_def key_def label_is_label)
  qed
qed

lemma rec_value_total: "record_ok r \<Longrightarrow> \<exists>v. rec_value r = Inr v"
  by (auto simp: record_ok_def rec_value_def elim: canonical_loads)

section \<open>Identities\<close>

text \<open>
  \<open>json.dumps\<close> with its default \<open>ensure_ascii=True\<close>: everything outside printable ASCII is
  escaped, beyond the basic plane as a surrogate pair.
\<close>

definition hex4_text :: "nat \<Rightarrow> pystr" where
  "hex4_text n = [92, 117, hex_digit (n div 4096 mod 16), hex_digit (n div 256 mod 16),
     hex_digit (n div 16 mod 16), hex_digit (n mod 16)]"

definition esc_ascii :: "nat \<Rightarrow> pystr" where
  "esc_ascii c =
     (if c < 127 then esc_char c
      else if c < 0x10000 then hex4_text c
      else hex4_text (0xD800 + (c - 0x10000) div 1024) @ hex4_text (0xDC00 + (c - 0x10000) mod 1024))"

fun dumps_ascii :: "json \<Rightarrow> pystr" where
  "dumps_ascii (JStr s) = 34 # concat (map esc_ascii s) @ [34]"
| "dumps_ascii (JArr xs) = 91 # join 44 (map dumps_ascii xs) @ [93]"
| "dumps_ascii (JObj kvs) =
     123 # join 44 (map (\<lambda>(k, v). (34 # concat (map esc_ascii k) @ [34]) @ 58 # dumps_ascii v) kvs) @ [125]"
| "dumps_ascii j = dumps j"

abbreviation jfield :: "string \<Rightarrow> json \<Rightarrow> pystr \<times> json" where
  "jfield name v \<equiv> (lit name, v)"

definition ascii_digest :: "json \<Rightarrow> pystr" where
  "ascii_digest j = sha256_hex (dumps_ascii (jsort j))"

text \<open>\<open>type(document) is dict and set(document) == fields\<close>, as the lookup of every field.\<close>

definition doc_fields :: "string list \<Rightarrow> json \<Rightarrow> (pystr, json) dict res" where
  "doc_fields names doc =
     (case doc of
        JObj kvs \<Rightarrow> if set (map fst kvs) = set (map lit names) then Inr kvs else Inl ValidationError
      | _ \<Rightarrow> Inl ValidationError)"

definition doc_get :: "(pystr, json) dict \<Rightarrow> string \<Rightarrow> json res" where
  "doc_get kvs name = (case dget kvs (lit name) of None \<Rightarrow> Inl KeyError | Some v \<Rightarrow> Inr v)"

definition key_json :: "json \<Rightarrow> pystr res" where
  "key_json v = key (py_of_json v)"

lemma key_json_JStr [simp]: "key_json (JStr s) = Inr k \<longleftrightarrow> k = s \<and> is_label s"
  by (simp add: key_json_def)

end
