(* ===== verification/Runtime.thy ===== *)
theory Runtime
  imports Prelude
begin

text \<open>
  The contract shared by the runtimes of the library (linear flow, graph, keyed join,
  window fold, ordered window fold, window graph): an operation either returns and
  moves to a state that keeps the invariant, or raises and leaves the state as it was.
  The locale proves once what follows for sequences of operations: the invariant holds
  throughout, and failed operations can be erased without a trace. Also here: weights of
  finite maps, with which the byte and key accounting of the runtimes is stated.
\<close>

section \<open>Sequences of operations\<close>

fun run_ops :: "('op \<Rightarrow> 's \<Rightarrow> 'r res \<times> 's) \<Rightarrow> 'op list \<Rightarrow> 's \<Rightarrow> 'r res list \<times> 's" where
  "run_ops step [] s = ([], s)"
| "run_ops step (p # ps) s =
     (let (r, s1) = step p s; (rs, s2) = run_ops step ps s1 in (r # rs, s2))"

lemma run_ops_Cons:
  "run_ops step (p # ps) s =
     (fst (step p s) # fst (run_ops step ps (snd (step p s))), snd (run_ops step ps (snd (step p s))))"
  by (simp split: prod.split)

declare run_ops.simps(2) [simp del]

lemma run_ops_append:
  "run_ops step (ps @ qs) s =
     (fst (run_ops step ps s) @ fst (run_ops step qs (snd (run_ops step ps s))),
      snd (run_ops step qs (snd (run_ops step ps s))))"
  by (induction ps arbitrary: s) (simp_all add: run_ops_Cons)

definition succeeded :: "'r res \<Rightarrow> bool" where
  "succeeded r \<longleftrightarrow> (case r of Inl _ \<Rightarrow> False | Inr _ \<Rightarrow> True)"

text \<open>The operations of a run that returned.\<close>

fun committed :: "('op \<Rightarrow> 's \<Rightarrow> 'r res \<times> 's) \<Rightarrow> 'op list \<Rightarrow> 's \<Rightarrow> 'op list" where
  "committed step [] s = []"
| "committed step (p # ps) s =
     (if succeeded (fst (step p s)) then p # committed step ps (snd (step p s))
      else committed step ps (snd (step p s)))"

lemma succeeded_simps [simp]: "succeeded (Inr r)" "\<not> succeeded (Inl e)"
  by (simp_all add: succeeded_def)

locale atomic_runtime =
  fixes step :: "'op \<Rightarrow> 's \<Rightarrow> 'r res \<times> 's"
    and inv :: "'s \<Rightarrow> bool"
    and admissible :: "'op \<Rightarrow> bool"
  assumes failed: "inv s \<Longrightarrow> admissible p \<Longrightarrow> step p s = (Inl e, s') \<Longrightarrow> s' = s"
    and kept: "inv s \<Longrightarrow> admissible p \<Longrightarrow> step p s = (Inr r, s') \<Longrightarrow> inv s'"
begin

lemma step_inv:
  assumes "inv s" "admissible p"
  shows "inv (snd (step p s))"
proof -
  obtain r s' where s': "step p s = (r, s')" by (cases "step p s")
  show ?thesis
  proof (cases r)
    case (Inl e)
    with s' have "s' = s" using failed [OF assms] by simp
    with s' assms(1) show ?thesis by simp
  next
    case (Inr x)
    with s' show ?thesis using kept [OF assms] by simp
  qed
qed

lemma run_inv: "inv s \<Longrightarrow> list_all admissible ps \<Longrightarrow> inv (snd (run_ops step ps s))"
proof (induction ps arbitrary: s)
  case (Cons p ps)
  then show ?case using step_inv [of s p] by (simp add: run_ops_Cons)
qed simp

lemma run_committed:
  assumes "inv s" "list_all admissible ps"
  shows "run_ops step (committed step ps s) s
       = (filter succeeded (fst (run_ops step ps s)), snd (run_ops step ps s))"
  using assms
proof (induction ps arbitrary: s)
  case (Cons p ps)
  obtain r s1 where s1: "step p s = (r, s1)" by (cases "step p s")
  have IH: "run_ops step (committed step ps s1) s1
      = (filter succeeded (fst (run_ops step ps s1)), snd (run_ops step ps s1))"
    using Cons.prems step_inv [of s p] s1 by (intro Cons.IH) simp_all
  show ?case
  proof (cases r)
    case (Inl e)
    with s1 Cons.prems have "s1 = s" using failed by auto
    with IH s1 Inl show ?thesis by (simp add: run_ops_Cons)
  next
    case (Inr x)
    with IH s1 show ?thesis by (simp add: run_ops_Cons)
  qed
qed simp

end

text \<open>Runtimes whose related states answer alike and stay related, answer alike throughout.\<close>

lemma run_ops_sim:
  assumes "R s t"
    and "\<And>p s t. R s t \<Longrightarrow> fst (step p s) = fst (step p t) \<and> R (snd (step p s)) (snd (step p t))"
  shows "fst (run_ops step ps s) = fst (run_ops step ps t) \<and> R (snd (run_ops step ps s)) (snd (run_ops step ps t))"
  using assms(1) by (induction ps arbitrary: s t) (auto simp: run_ops_Cons dest: assms(2))

section \<open>Weights of finite maps\<close>

definition weight :: "('k \<Rightarrow> 'v \<Rightarrow> int) \<Rightarrow> ('k \<rightharpoonup> 'v) \<Rightarrow> int" where
  "weight f m = (\<Sum>k\<in>dom m. f k (the (m k)))"

definition opt_weight :: "('k \<Rightarrow> 'v \<Rightarrow> int) \<Rightarrow> 'k \<Rightarrow> 'v option \<Rightarrow> int" where
  "opt_weight f k x = (case x of None \<Rightarrow> 0 | Some v \<Rightarrow> f k v)"

lemma opt_weight_simps [simp]: "opt_weight f k None = 0" "opt_weight f k (Some v) = f k v"
  by (simp_all add: opt_weight_def)

lemma weight_upd:
  assumes "finite (dom m)"
  shows "weight f (m(k := x)) = weight f m - opt_weight f k (m k) + opt_weight f k x"
proof -
  have rest: "(\<Sum>j\<in>dom m - {k}. f j (the ((m(k := x)) j))) = (\<Sum>j\<in>dom m - {k}. f j (the (m j)))"
    by (rule sum.cong) auto
  have old: "weight f m = (\<Sum>j\<in>dom m - {k}. f j (the (m j))) + opt_weight f k (m k)"
  proof (cases "m k")
    case None
    then have "dom m - {k} = dom m" by auto
    with None show ?thesis by (simp add: weight_def)
  next
    case (Some v)
    then have "k \<in> dom m" by auto
    with Some assms show ?thesis by (simp add: weight_def sum.remove)
  qed
  show ?thesis
  proof (cases x)
    case None
    then have "dom (m(k := x)) = dom m - {k}" by auto
    with None old rest show ?thesis by (simp add: weight_def)
  next
    case (Some v)
    then have D: "dom (m(k := x)) = insert k (dom m - {k})" by auto
    have "weight f (m(k := x)) = f k (the ((m(k := x)) k)) + (\<Sum>j\<in>dom m - {k}. f j (the ((m(k := x)) j)))"
      unfolding weight_def D using assms by (subst sum.insert) auto
    with old show ?thesis unfolding rest using Some by simp
  qed
qed

lemma weight_nonneg: "(\<And>k v. 0 \<le> f k v) \<Longrightarrow> 0 \<le> weight f m"
  by (simp add: weight_def sum_nonneg)

text \<open>The weight of a dict is the sum over its entries.\<close>

lemma weight_dget:
  assumes "dict_ok d"
  shows "weight f (dget d) = (\<Sum>(k, v)\<leftarrow>d. f k v)"
  using assms
proof (induction d)
  case (Cons e d)
  obtain k v where e: "e = (k, v)" by (cases e)
  with Cons.prems have "dget d k = None" and d: "dict_ok d"
    by (auto simp: dict_ok_def map_of_eq_None_iff)
  moreover have "dget (e # d) = (dget d)(k := Some v)" using e by auto
  ultimately have "weight f (dget (e # d)) = weight f (dget d) + f k v"
    using weight_upd [of "dget d" f k "Some v"] by (simp only: finite_dom_map_of opt_weight_simps)
  with Cons.IH [OF d] e \<open>dget (e # d) = (dget d)(k := Some v)\<close> show ?case
    by (simp del: map_of.simps fun_upd_apply)
qed (simp add: weight_def)

end
