(* ===== verification/Dataflow.thy ===== *)
theory Dataflow
  imports Flow_Values Runtime
begin

text \<open>
  \<open>dataflow.py\<close>: the bounded linear operator graph, the staged transaction over isolated
  keyed state that linear flows and graphs share, and \<open>FlowRuntime\<close> with its checkpoints.

  Callbacks are pure functions from argument lists to a value or an exception. The two
  hooks of \<open>_FlowTransaction\<close> (\<open>on_propose\<close> and \<open>on_emit\<close>) thread a state of the caller,
  which the graph runtimes use for their work budgets.
\<close>

section \<open>Declarations\<close>

datatype operator = OMap | OFilter | OFlatMap | OKeyBy | ODropKey | OStatefulMap | OStatefulFlatMap

type_synonym callback = "pyval list \<Rightarrow> pyval res"

definition is_stateful :: "operator \<Rightarrow> bool" where
  "is_stateful op \<longleftrightarrow> op = OStatefulMap \<or> op = OStatefulFlatMap"

fun operator_name :: "operator \<Rightarrow> string" where
  "operator_name OMap = ''map''"
| "operator_name OFilter = ''filter''"
| "operator_name OFlatMap = ''flat_map''"
| "operator_name OKeyBy = ''key_by''"
| "operator_name ODropKey = ''drop_key''"
| "operator_name OStatefulMap = ''stateful_map''"
| "operator_name OStatefulFlatMap = ''stateful_flat_map''"

record flow_step =
  step_id :: pystr
  step_op :: operator
  step_function :: "callback option"
  step_initial :: "callback option"

definition flow_step_ok :: "flow_step \<Rightarrow> bool" where
  "flow_step_ok s \<longleftrightarrow>
     is_label (step_id s)
     \<and> (if step_op s = ODropKey then step_function s = None else step_function s \<noteq> None)
     \<and> (if is_stateful (step_op s) then step_initial s \<noteq> None else step_initial s = None)"

record flow_limits =
  max_records_per_input :: int
  max_calls_per_input :: int
  max_record_bytes :: int
  max_batch_bytes :: int
  max_state_value_bytes :: int
  max_state_keys :: int
  max_state_bytes :: int

definition default_flow_limits :: flow_limits where
  "default_flow_limits =
     \<lparr>max_records_per_input = 1000, max_calls_per_input = 10000,
      max_record_bytes = 1 * 1024 * 1024, max_batch_bytes = 16 * 1024 * 1024,
      max_state_value_bytes = 1 * 1024 * 1024, max_state_keys = 10000,
      max_state_bytes = 64 * 1024 * 1024\<rparr>"

definition flow_limits_ok :: "flow_limits \<Rightarrow> bool" where
  "flow_limits_ok l \<longleftrightarrow>
     1 \<le> max_records_per_input l \<and> max_records_per_input l \<le> 100000
     \<and> 1 \<le> max_calls_per_input l \<and> max_calls_per_input l \<le> 1000000
     \<and> 1 \<le> max_record_bytes l \<and> max_record_bytes l \<le> 8 * 1024 * 1024
     \<and> 1 \<le> max_batch_bytes l \<and> max_batch_bytes l \<le> 64 * 1024 * 1024
     \<and> 1 \<le> max_state_value_bytes l \<and> max_state_value_bytes l \<le> 8 * 1024 * 1024
     \<and> 1 \<le> max_state_keys l \<and> max_state_keys l \<le> 100000
     \<and> 1 \<le> max_state_bytes l \<and> max_state_bytes l \<le> 256 * 1024 * 1024"

definition flow_limits_doc :: "flow_limits \<Rightarrow> json" where
  "flow_limits_doc l = JObj
     [jfield ''max_records_per_input'' (JInt (max_records_per_input l)),
      jfield ''max_calls_per_input'' (JInt (max_calls_per_input l)),
      jfield ''max_record_bytes'' (JInt (max_record_bytes l)),
      jfield ''max_batch_bytes'' (JInt (max_batch_bytes l)),
      jfield ''max_state_value_bytes'' (JInt (max_state_value_bytes l)),
      jfield ''max_state_keys'' (JInt (max_state_keys l)),
      jfield ''max_state_bytes'' (JInt (max_state_bytes l))]"

record dataflow =
  df_flow_id :: pystr
  df_revision :: pystr
  df_steps :: "flow_step list"
  df_limits :: flow_limits

definition dataflow_ok :: "dataflow \<Rightarrow> bool" where
  "dataflow_ok f \<longleftrightarrow>
     is_label (df_flow_id f) \<and> is_label (df_revision f)
     \<and> 1 \<le> length (df_steps f) \<and> length (df_steps f) \<le> 64
     \<and> list_all flow_step_ok (df_steps f)
     \<and> distinct (map step_id (df_steps f))
     \<and> flow_limits_ok (df_limits f)"

definition dataflow_identity :: "dataflow \<Rightarrow> pystr" where
  "dataflow_identity f = ascii_digest (JObj
     [jfield ''flow_id'' (JStr (df_flow_id f)),
      jfield ''revision'' (JStr (df_revision f)),
      jfield ''steps'' (JArr (map (\<lambda>s. JArr [JStr (step_id s), JStr (lit (operator_name (step_op s)))])
         (df_steps f))),
      jfield ''limits'' (flow_limits_doc (df_limits f))])"

section \<open>Checkpoints\<close>

type_synonym state_key = "pystr \<times> pystr"

record flow_checkpoint =
  cp_identity :: pystr
  cp_processed :: int
  cp_emitted :: int
  cp_cells :: "(pystr \<times> pystr \<times> pystr) list"

definition strict_hooks :: json_hooks where
  "strict_hooks = \<lparr>reject_dup = True, reject_const = True, finite_float = True, bounded_int = False\<rparr>"

text \<open>\<open>recovery._decode\<close>: a checksummed text back to its value.\<close>

definition MAX_EVENT_FILE_BYTES :: int where "MAX_EVENT_FILE_BYTES = 64 * 1024 * 1024"

definition recovery_decode :: "pystr \<Rightarrow> pystr \<Rightarrow> json res" where
  "recovery_decode payload digest =
     (if MAX_EVENT_FILE_BYTES < byte_len payload then Inl ValidationError
      else if sha256_hex payload \<noteq> digest then Inl ValidationError
      else (case loads strict_hooks payload of
              Inl _ \<Rightarrow> Inl ValidationError | Inr j \<Rightarrow> Inr j))"

text \<open>One turn of the loop over the cells; the state is the keys seen and the byte total.\<close>

definition check_cell :: "pystr \<times> pystr \<times> pystr \<Rightarrow> state_key list \<times> int \<Rightarrow> (state_key list \<times> int) res" where
  "check_cell cell s =
     (let (step, k, encoded) = cell; (keys, total) = s
      in rbind (key (PStr step)) (\<lambda>_.
         rbind (key (PStr k)) (\<lambda>_.
           if (step, k) \<in> set keys then Inl ValidationError
           else if MAX_RECORD < int (length encoded) then Inl ValidationError
           else if \<not> utf8_ok encoded then Inl ValidationError
           else if MAX_RECORD < byte_len encoded then Inl ValidationError
           else rbind (recovery_decode encoded (sha256_hex encoded)) (\<lambda>j.
                rbind (snapshot (py_of_json j) MAX_RECORD) (\<lambda>t.
                  if t \<noteq> encoded then Inl ValidationError
                  else if 256 * 1024 * 1024 < total + byte_len encoded then Inl ValidationError
                  else Inr ((step, k) # keys, total + byte_len encoded))))))"

definition flow_checkpoint_check :: "flow_checkpoint \<Rightarrow> flow_checkpoint res" where
  "flow_checkpoint_check c =
     (if \<not> is_hex64 (cp_identity c) then Inl ValidationError
      else rbind (count (cp_processed c) 0 MAX_COUNT) (\<lambda>_.
           rbind (count (cp_emitted c) 0 MAX_COUNT) (\<lambda>_.
             if 100000 < length (cp_cells c) then Inl ValidationError
             else rbind (fold_res check_cell (cp_cells c) ([], 0)) (\<lambda>_. Inr c))))"

definition cell_doc :: "pystr \<times> pystr \<times> pystr \<Rightarrow> json res" where
  "cell_doc cell =
     (let (step, k, encoded) = cell
      in rbind (loads no_hooks encoded) (\<lambda>v.
           Inr (JObj [jfield ''step'' (JStr step), jfield ''key'' (JStr k), jfield ''value'' v])))"

definition flow_checkpoint_to_dict :: "string \<Rightarrow> flow_checkpoint \<Rightarrow> json res" where
  "flow_checkpoint_to_dict kind c =
     rbind (map_res cell_doc (cp_cells c)) (\<lambda>cells.
       Inr (JObj
         [jfield ''kind'' (JStr (lit kind)),
          jfield ''schema_version'' (JStr (lit ''1.0'')),
          jfield ''identity'' (JStr (cp_identity c)),
          jfield ''processed_inputs'' (JInt (cp_processed c)),
          jfield ''emitted_records'' (JInt (cp_emitted c)),
          jfield ''cells'' (JArr cells)]))"

definition read_cell :: "json \<Rightarrow> (pystr \<times> pystr \<times> pystr) list \<times> int
    \<Rightarrow> ((pystr \<times> pystr \<times> pystr) list \<times> int) res" where
  "read_cell doc s =
     (let (cells, total) = s
      in rbind (doc_fields [''step'', ''key'', ''value''] doc) (\<lambda>kvs.
         rbind (doc_get kvs ''step'') (\<lambda>step. rbind (key_json step) (\<lambda>step.
         rbind (doc_get kvs ''key'') (\<lambda>k. rbind (key_json k) (\<lambda>k.
         rbind (doc_get kvs ''value'') (\<lambda>v.
         rbind (snapshot (py_of_json v) (min MAX_RECORD (256 * 1024 * 1024 - total))) (\<lambda>encoded.
           Inr (cells @ [(step, k, encoded)], total + byte_len encoded)))))))))"

definition flow_checkpoint_from_dict :: "string \<Rightarrow> json \<Rightarrow> flow_checkpoint res" where
  "flow_checkpoint_from_dict kind doc =
     rbind (doc_fields [''kind'', ''schema_version'', ''identity'', ''processed_inputs'',
                        ''emitted_records'', ''cells''] doc) (\<lambda>kvs.
     rbind (doc_get kvs ''kind'') (\<lambda>k. rbind (doc_get kvs ''schema_version'') (\<lambda>version.
       if k \<noteq> JStr (lit kind) \<or> version \<noteq> JStr (lit ''1.0'') then Inl ValidationError
       else rbind (doc_get kvs ''cells'') (\<lambda>cells.
         (case cells of
            JArr docs \<Rightarrow>
              if 100000 < length docs then Inl ValidationError
              else rbind (fold_res read_cell docs ([], 0)) (\<lambda>(cells, _).
                   rbind (doc_get kvs ''identity'') (\<lambda>identity.
                   rbind (doc_get kvs ''processed_inputs'') (\<lambda>p.
                   rbind (count_json p 0 MAX_COUNT) (\<lambda>p.
                   rbind (doc_get kvs ''emitted_records'') (\<lambda>e.
                   rbind (count_json e 0 MAX_COUNT) (\<lambda>e.
                     (case identity of
                        JStr i \<Rightarrow> flow_checkpoint_check
                            \<lparr>cp_identity = i, cp_processed = p, cp_emitted = e, cp_cells = cells\<rparr>
                      | _ \<Rightarrow> Inl ValidationError)))))))
          | _ \<Rightarrow> Inl ValidationError)))))"

section \<open>Iterables\<close>

definition no_awaitable :: "pyval \<Rightarrow> unit res" where
  "no_awaitable v = check (v \<noteq> PAwaitable)"

text \<open>
  \<open>_flat_values\<close>: the elements an iterable yields and how it ends. Strings, bytes and
  mappings are refused, and so is everything that is not iterable. Closing a generator after
  a failure only decides notes of the exception, which is a failure either way.
\<close>

definition flat_values :: "pyval \<Rightarrow> (pyval list \<times> pyval res) res" where
  "flat_values v =
     (case v of
        PList xs \<Rightarrow> Inr (xs, Inr PNone)
      | PTuple xs \<Rightarrow> Inr (xs, Inr PNone)
      | PGen xs e \<Rightarrow> Inr (xs, e)
      | _ \<Rightarrow> Inl ValidationError)"

section \<open>The transaction\<close>

record flow_tx =
  tx_pending :: "(state_key, pystr option) dict"
  tx_keys :: int
  tx_bytes :: int
  tx_calls :: int

definition begin_tx :: "(state_key, pystr) dict \<Rightarrow> int \<Rightarrow> flow_tx" where
  "begin_tx state bytes =
     \<lparr>tx_pending = [], tx_keys = int (length state), tx_bytes = bytes, tx_calls = 0\<rparr>"

record 'h hooks =
  on_propose :: "state_key \<Rightarrow> pystr option \<Rightarrow> pystr option \<Rightarrow> 'h \<Rightarrow> 'h res"
  on_emit :: "flow_record \<Rightarrow> 'h \<Rightarrow> 'h res"

definition no_tx_hooks :: "'h hooks" where
  "no_tx_hooks = \<lparr>on_propose = (\<lambda>_ _ _ h. Inr h), on_emit = (\<lambda>_ h. Inr h)\<rparr>"

definition invoke :: "flow_limits \<Rightarrow> callback option \<Rightarrow> pyval list \<Rightarrow> flow_tx \<Rightarrow> (pyval \<times> flow_tx) res" where
  "invoke lim f args tx =
     (let calls = tx_calls tx + 1
      in if max_calls_per_input lim < calls then Inl ValidationError
         else (case f of
                 None \<Rightarrow> Inl ValidationError
               | Some f \<Rightarrow> rbind (f args) (\<lambda>v.
                   rbind (no_awaitable v) (\<lambda>_. Inr (v, tx\<lparr>tx_calls := calls\<rparr>)))))"

definition opt_one :: "pystr option \<Rightarrow> int" where
  "opt_one x = (case x of None \<Rightarrow> 0 | Some _ \<Rightarrow> 1)"

definition opt_bytes :: "pystr option \<Rightarrow> int" where
  "opt_bytes x = (case x of None \<Rightarrow> 0 | Some s \<Rightarrow> byte_len s)"

definition propose :: "flow_limits \<Rightarrow> 'h hooks \<Rightarrow> state_key \<Rightarrow> pystr option \<Rightarrow> pyval \<Rightarrow> bool
    \<Rightarrow> flow_tx \<times> 'h \<Rightarrow> (flow_tx \<times> 'h) res" where
  "propose lim hk k previous state retain s =
     (let (tx, h) = s
      in rbind (if retain then rbind (snapshot state (max_state_value_bytes lim)) (\<lambda>t. Inr (Some t))
                else Inr None) (\<lambda>replacement.
         let keys = tx_keys tx + (opt_one replacement - opt_one previous);
             bytes = tx_bytes tx + opt_bytes replacement - opt_bytes previous
         in if max_state_keys lim < keys \<or> max_state_bytes lim < bytes then Inl ValidationError
            else rbind (on_propose hk k previous replacement h) (\<lambda>h.
              Inr (tx\<lparr>tx_pending := dput k replacement (tx_pending tx), tx_keys := keys,
                      tx_bytes := bytes\<rparr>, h))))"

record 'h apply_state =
  as_tx :: flow_tx
  as_output :: "flow_record list"
  as_bytes :: int
  as_hook :: 'h

definition emit :: "flow_limits \<Rightarrow> 'h hooks \<Rightarrow> pyval \<Rightarrow> pystr option \<Rightarrow> 'h apply_state
    \<Rightarrow> 'h apply_state res" where
  "emit lim hk v k s =
     (if max_records_per_input lim \<le> int (length (as_output s)) then Inl ValidationError
      else rbind (make_record v k) (\<lambda>item.
        if max_record_bytes lim < rec_size item then Inl ValidationError
        else let bytes = as_bytes s + rec_size item
             in if max_batch_bytes lim < bytes then Inl ValidationError
                else rbind (on_emit hk item (as_hook s)) (\<lambda>h.
                  Inr (s\<lparr>as_output := as_output s @ [item], as_bytes := bytes, as_hook := h\<rparr>))))"

definition emit_values :: "flow_limits \<Rightarrow> 'h hooks \<Rightarrow> pyval list \<times> pyval res \<Rightarrow> pystr option
    \<Rightarrow> 'h apply_state \<Rightarrow> 'h apply_state res" where
  "emit_values lim hk it k s =
     rbind (fold_res (\<lambda>v s. rbind (no_awaitable v) (\<lambda>_. emit lim hk v k s)) (fst it) s) (\<lambda>s.
     rbind (snd it) (\<lambda>v. rbind (no_awaitable v) (\<lambda>_. Inr s)))"

definition previous_state :: "(state_key, pystr) dict \<Rightarrow> flow_tx \<Rightarrow> state_key \<Rightarrow> pystr option" where
  "previous_state state tx k =
     (case dget (tx_pending tx) k of Some p \<Rightarrow> p | None \<Rightarrow> dget state k)"

definition lift_invoke :: "flow_limits \<Rightarrow> callback option \<Rightarrow> pyval list \<Rightarrow> 'h apply_state
    \<Rightarrow> (pyval \<times> 'h apply_state) res" where
  "lift_invoke lim f args s =
     rbind (invoke lim f args (as_tx s)) (\<lambda>(v, tx). Inr (v, s\<lparr>as_tx := tx\<rparr>))"

definition lift_propose :: "flow_limits \<Rightarrow> 'h hooks \<Rightarrow> state_key \<Rightarrow> pystr option \<Rightarrow> pyval \<Rightarrow> bool
    \<Rightarrow> 'h apply_state \<Rightarrow> 'h apply_state res" where
  "lift_propose lim hk k previous state retain s =
     rbind (propose lim hk k previous state retain (as_tx s, as_hook s)) (\<lambda>(tx, h).
       Inr (s\<lparr>as_tx := tx, as_hook := h\<rparr>))"

definition apply_stateful :: "flow_limits \<Rightarrow> 'h hooks \<Rightarrow> (state_key, pystr) dict \<Rightarrow> flow_step
    \<Rightarrow> flow_record \<Rightarrow> 'h apply_state \<Rightarrow> 'h apply_state res" where
  "apply_stateful lim hk state step item s =
     (case rec_key item of
        None \<Rightarrow> Inl ValidationError
      | Some k \<Rightarrow>
          let state_key = (step_id step, k);
              previous = previous_state state (as_tx s) state_key
          in rbind (case previous of
                      None \<Rightarrow> lift_invoke lim (step_initial step) [] s
                    | Some t \<Rightarrow> rbind (loads no_hooks t) (\<lambda>j. Inr (py_of_json j, s))) (\<lambda>(current, s).
             rbind (snapshot current (max_state_value_bytes lim)) (\<lambda>t.
             rbind (loads no_hooks t) (\<lambda>j.
             rbind (rec_value item) (\<lambda>v.
             rbind (lift_invoke lim (step_function step) [v, py_of_json j] s) (\<lambda>(update, s).
               if step_op step = OStatefulFlatMap
               then (case update of
                       PStateFlat new outputs retain \<Rightarrow>
                         rbind (flat_values outputs) (\<lambda>it.
                         rbind (lift_propose lim hk state_key previous new retain s) (\<lambda>s.
                           emit_values lim hk it (rec_key item) s))
                     | _ \<Rightarrow> Inl ValidationError)
               else (case update of
                       PStateUpdate new output emits retain \<Rightarrow>
                         rbind (lift_propose lim hk state_key previous new retain s) (\<lambda>s.
                           if emits then emit lim hk output (rec_key item) s else Inr s)
                     | _ \<Rightarrow> Inl ValidationError)))))))"

definition apply_item :: "flow_limits \<Rightarrow> 'h hooks \<Rightarrow> (state_key, pystr) dict \<Rightarrow> flow_step
    \<Rightarrow> flow_record \<Rightarrow> 'h apply_state \<Rightarrow> 'h apply_state res" where
  "apply_item lim hk state step item s =
     (if step_op step = ODropKey then rbind (rec_value item) (\<lambda>v. emit lim hk v None s)
      else if is_stateful (step_op step) then apply_stateful lim hk state step item s
      else rbind (rec_value item) (\<lambda>v.
           rbind (lift_invoke lim (step_function step) [v] s) (\<lambda>(result, s).
             (case step_op step of
                OMap \<Rightarrow> emit lim hk result (rec_key item) s
              | OKeyBy \<Rightarrow> rbind (key result) (\<lambda>k. rbind (rec_value item) (\<lambda>v. emit lim hk v (Some k) s))
              | OFilter \<Rightarrow>
                  (case result of
                     PBool b \<Rightarrow> if b then rbind (rec_value item) (\<lambda>v. emit lim hk v (rec_key item) s) else Inr s
                   | _ \<Rightarrow> Inl ValidationError)
              | _ \<Rightarrow> rbind (flat_values result) (\<lambda>it. emit_values lim hk it (rec_key item) s)))))"

text \<open>
  \<open>_FlowTransaction.apply\<close>: every exception inside becomes the execution error of the step.
\<close>

definition apply_step :: "flow_limits \<Rightarrow> 'h hooks \<Rightarrow> (state_key, pystr) dict \<Rightarrow> flow_step
    \<Rightarrow> flow_record list \<Rightarrow> flow_tx \<times> 'h \<Rightarrow> (flow_record list \<times> flow_tx \<times> 'h) res" where
  "apply_step lim hk state step current s =
     (case fold_res (apply_item lim hk state step) current
             \<lparr>as_tx = fst s, as_output = [], as_bytes = 0, as_hook = snd s\<rparr> of
        Inl _ \<Rightarrow> Inl (FlowExecutionError (step_id step))
      | Inr s \<Rightarrow> Inr (as_output s, as_tx s, as_hook s))"

fun commit_cells :: "(state_key, pystr option) dict \<Rightarrow> (state_key, pystr) dict \<Rightarrow> (state_key, pystr) dict" where
  "commit_cells [] state = state"
| "commit_cells ((k, None) # p) state = commit_cells p (ddel k state)"
| "commit_cells ((k, Some t) # p) state = commit_cells p (dput k t state)"

definition commit_tx :: "(state_key, pystr) dict \<Rightarrow> flow_tx \<Rightarrow> (state_key, pystr) dict \<times> int" where
  "commit_tx state tx = (commit_cells (tx_pending tx) state, tx_bytes tx)"

section \<open>The linear runtime\<close>

record flow_runtime =
  fr_flow :: dataflow
  fr_state :: "(state_key, pystr) dict"
  fr_bytes :: int
  fr_processed :: int
  fr_emitted :: int
  fr_busy :: bool

definition make_flow_runtime :: "dataflow \<Rightarrow> flow_runtime res" where
  "make_flow_runtime f =
     (if dataflow_ok f
      then Inr \<lparr>fr_flow = f, fr_state = [], fr_bytes = 0, fr_processed = 0, fr_emitted = 0, fr_busy = False\<rparr>
      else Inl ValidationError)"

definition flow_checkpoint_of :: "flow_runtime \<Rightarrow> flow_checkpoint res" where
  "flow_checkpoint_of rt =
     (if fr_busy rt then Inl ValidationError
      else flow_checkpoint_check
        \<lparr>cp_identity = dataflow_identity (fr_flow rt), cp_processed = fr_processed rt,
         cp_emitted = fr_emitted rt,
         cp_cells = map (\<lambda>((step, k), v). (step, k, v)) (sort_key fst (fr_state rt))\<rparr>)"

definition restore_cell :: "pystr list \<Rightarrow> int \<Rightarrow> pystr \<times> pystr \<times> pystr \<Rightarrow> (state_key, pystr) dict \<times> int
    \<Rightarrow> ((state_key, pystr) dict \<times> int) res" where
  "restore_cell stateful max_value cell s =
     (let (step, k, v) = cell; (state, bytes) = s
      in if step \<notin> set stateful \<or> max_value < byte_len v then Inl ValidationError
         else Inr (dput (step, k) v state, bytes + byte_len v))"

definition flow_kind :: string where "flow_kind = ''stream-quilt-dataflow-checkpoint''"

definition flow_from_checkpoint :: "dataflow \<Rightarrow> flow_checkpoint \<Rightarrow> flow_runtime res" where
  "flow_from_checkpoint f c =
     rbind (make_flow_runtime f) (\<lambda>rt.
     rbind (flow_checkpoint_to_dict flow_kind c) (\<lambda>doc.
     rbind (flow_checkpoint_from_dict flow_kind doc) (\<lambda>checked.
       if cp_identity checked \<noteq> dataflow_identity f then Inl ValidationError
       else rbind (fold_res (restore_cell
                      (map step_id (filter (\<lambda>s. is_stateful (step_op s)) (df_steps f)))
                      (max_state_value_bytes (df_limits f))) (cp_cells checked) ([], 0)) (\<lambda>(state, bytes).
         if max_state_keys (df_limits f) < int (length state) \<or> max_state_bytes (df_limits f) < bytes
         then Inl ValidationError
         else Inr (rt\<lparr>fr_state := state, fr_bytes := bytes, fr_processed := cp_processed checked,
                      fr_emitted := cp_emitted checked\<rparr>)))))"

text \<open>\<open>_process\<close>: the operators in order over one staged transaction, then one commit.\<close>

definition flow_step_fold :: "flow_limits \<Rightarrow> (state_key, pystr) dict \<Rightarrow> flow_step
    \<Rightarrow> flow_record list \<times> flow_tx \<Rightarrow> (flow_record list \<times> flow_tx) res" where
  "flow_step_fold lim state step s =
     rbind (apply_step lim no_tx_hooks state step (fst s) (snd s, ())) (\<lambda>(out, tx, _). Inr (out, tx))"

definition flow_process_body :: "flow_record \<Rightarrow> flow_runtime \<Rightarrow> flow_record list res \<times> flow_runtime" where
  "flow_process_body r rt =
     (case fold_res (flow_step_fold (df_limits (fr_flow rt)) (fr_state rt)) (df_steps (fr_flow rt))
             ([r], begin_tx (fr_state rt) (fr_bytes rt)) of
        Inl e \<Rightarrow> (Inl e, rt)
      | Inr (current, tx) \<Rightarrow>
          (case count (fr_emitted rt + int (length current)) 0 MAX_COUNT of
             Inl e \<Rightarrow> (Inl e, rt)
           | Inr emitted \<Rightarrow>
               (let (state, bytes) = commit_tx (fr_state rt) tx
                in (Inr current,
                    rt\<lparr>fr_state := state, fr_bytes := bytes,
                       fr_processed := fr_processed rt + 1, fr_emitted := emitted\<rparr>))))"

definition flow_process :: "flow_record \<Rightarrow> flow_runtime \<Rightarrow> flow_record list res \<times> flow_runtime" where
  "flow_process r rt =
     (if fr_busy rt then (Inl ValidationError, rt)
      else if max_record_bytes (df_limits (fr_flow rt)) < rec_size r then (Inl ValidationError, rt)
      else (case count (fr_processed rt + 1) 0 MAX_COUNT of
              Inl e \<Rightarrow> (Inl e, rt)
            | Inr _ \<Rightarrow>
                (let (res, rt1) = flow_process_body r (rt\<lparr>fr_busy := True\<rparr>)
                 in (res, rt1\<lparr>fr_busy := False\<rparr>))))"

text \<open>
  \<open>run\<close>: pull at most \<open>max_inputs\<close> records, each processed before the next is pulled. The
  result is what was yielded, how the iteration ended, and the records not pulled. The bound is
  checked when the iteration starts; \<open>flow_pulls\<close> is the loop behind it.
\<close>

fun flow_pulls :: "nat \<Rightarrow> flow_record list \<Rightarrow> flow_runtime
    \<Rightarrow> (flow_record list \<times> unit res \<times> flow_record list) \<times> flow_runtime" where
  "flow_pulls 0 rs rt = (([], Inr (), rs), rt)"
| "flow_pulls (Suc n) [] rt = (([], Inr (), []), rt)"
| "flow_pulls (Suc n) (r # rs) rt =
     (case flow_process r rt of
        (Inl e, rt1) \<Rightarrow> (([], Inl e, rs), rt1)
      | (Inr out, rt1) \<Rightarrow>
          (let ((outs, e, rest), rt2) = flow_pulls n rs rt1 in ((out @ outs, e, rest), rt2)))"

definition flow_run :: "int \<Rightarrow> flow_record list \<Rightarrow> flow_runtime
    \<Rightarrow> (flow_record list \<times> unit res \<times> flow_record list) \<times> flow_runtime" where
  "flow_run max_inputs rs rt =
     (if count max_inputs 1 1000000 \<noteq> Inr max_inputs then (([], Inl ValidationError, rs), rt)
      else flow_pulls (nat max_inputs) rs rt)"

end
