(* ===== verification/Dataflow_Laws.thy ===== *)
theory Dataflow_Laws
  imports Dataflow
begin

text \<open>
  What the staged transaction and the linear runtime of \<open>dataflow.py\<close> guarantee: the key
  and byte accounting of a transaction is exact for the state it will commit, a failed
  input leaves the runtime as it was, outputs respect the limits, and a checkpoint restores.
\<close>

section \<open>The view of a transaction\<close>

text \<open>
  \<open>previous_state state tx\<close>, as a map, is the keyed state as the operators of the current
  input see it: the committed state overridden by what the input has proposed.
\<close>

lemma view_begin [simp]: "previous_state state (begin_tx state b) = dget state"
  by (simp add: previous_state_def begin_tx_def fun_eq_iff)

lemma view_cong:
  "tx_pending tx = tx_pending tx' \<Longrightarrow> previous_state state tx = previous_state state tx'"
  by (simp add: previous_state_def fun_eq_iff)

lemma view_put:
  "tx_pending tx' = dput k x (tx_pending tx) \<Longrightarrow>
   previous_state state tx' = (previous_state state tx)(k := x)"
  by (simp add: previous_state_def fun_eq_iff)

lemma finite_view: "finite (dom (previous_state state tx))"
proof (rule finite_subset)
  show "dom (previous_state state tx) \<subseteq> dom (dget (tx_pending tx)) \<union> dom (dget state)"
    by (auto simp: previous_state_def split: option.splits)
qed (simp add: finite_dom_map_of)

lemma dget_commit_cells:
  "dict_ok p \<Longrightarrow>
   dget (commit_cells p state) k = (case dget p k of Some x \<Rightarrow> x | None \<Rightarrow> dget state k)"
proof (induction p state rule: commit_cells.induct)
  case (2 k' p state)
  then have "k' = k \<Longrightarrow> dget p k = None" by (auto simp: dict_ok_def map_of_eq_None_iff)
  with 2 show ?case by (auto simp: dict_ok_def split: option.splits)
next
  case (3 k' t p state)
  then have "k' = k \<Longrightarrow> dget p k = None" by (auto simp: dict_ok_def map_of_eq_None_iff)
  with 3 show ?case by (auto simp: dict_ok_def split: option.splits)
qed simp

lemma dget_commit_tx:
  "dict_ok (tx_pending tx) \<Longrightarrow> dget (fst (commit_tx state tx)) = previous_state state tx"
  by (simp add: commit_tx_def dget_commit_cells previous_state_def fun_eq_iff)

lemma dict_ok_commit_cells: "dict_ok state \<Longrightarrow> dict_ok (commit_cells p state)"
  by (induction p state rule: commit_cells.induct) simp_all

section \<open>Accounting\<close>

text \<open>The state cells that a runtime may hold, for the steps \<open>S\<close> that keep state.\<close>

definition cell_ok :: "flow_limits \<Rightarrow> pystr set \<Rightarrow> state_key \<Rightarrow> pystr \<Rightarrow> bool" where
  "cell_ok lim S k t \<longleftrightarrow> fst k \<in> S \<and> is_label (fst k) \<and> is_label (snd k) \<and> canonical t
     \<and> byte_len t \<le> max_state_value_bytes lim"

definition view_ok :: "flow_limits \<Rightarrow> pystr set \<Rightarrow> (state_key \<rightharpoonup> pystr) \<Rightarrow> bool" where
  "view_ok lim S m \<longleftrightarrow> (\<forall>k t. m k = Some t \<longrightarrow> cell_ok lim S k t)"

definition key_total :: "(state_key \<rightharpoonup> pystr) \<Rightarrow> int" where
  "key_total m = weight (\<lambda>_ _. 1) m"

definition byte_total :: "(state_key \<rightharpoonup> pystr) \<Rightarrow> int" where
  "byte_total m = weight (\<lambda>_. byte_len) m"

definition tx_ok :: "flow_limits \<Rightarrow> pystr set \<Rightarrow> (state_key, pystr) dict \<Rightarrow> flow_tx \<Rightarrow> bool" where
  "tx_ok lim S state tx \<longleftrightarrow>
     dict_ok (tx_pending tx)
     \<and> view_ok lim S (previous_state state tx)
     \<and> tx_keys tx = key_total (previous_state state tx)
     \<and> tx_bytes tx = byte_total (previous_state state tx)
     \<and> tx_keys tx \<le> max_state_keys lim \<and> tx_bytes tx \<le> max_state_bytes lim"

lemma key_total_dget: "dict_ok d \<Longrightarrow> key_total (dget d) = int (length d)"
proof -
  have "(\<Sum>(k, v)\<leftarrow>d. 1) = int (length d)" by (induction d) auto
  moreover assume "dict_ok d"
  ultimately show ?thesis by (simp add: key_total_def weight_dget)
qed

lemma byte_total_dget: "dict_ok d \<Longrightarrow> byte_total (dget d) = (\<Sum>e\<leftarrow>d. byte_len (snd e))"
  by (simp add: byte_total_def weight_dget split_def)

lemma opt_one_weight: "opt_one x = opt_weight (\<lambda>_ _. 1) k x"
  by (cases x) (simp_all add: opt_one_def)

lemma opt_bytes_weight: "opt_bytes x = opt_weight (\<lambda>_. byte_len) k x"
  by (cases x) (simp_all add: opt_bytes_def)

lemma key_total_upd:
  "finite (dom m) \<Longrightarrow> key_total (m(k := x)) = key_total m + (opt_one x - opt_one (m k))"
  unfolding key_total_def by (subst weight_upd) (simp_all add: opt_one_weight [where k = k] del: fun_upd_apply)

lemma byte_total_upd:
  "finite (dom m) \<Longrightarrow> byte_total (m(k := x)) = byte_total m + opt_bytes x - opt_bytes (m k)"
  unfolding byte_total_def by (subst weight_upd) (simp_all add: opt_bytes_weight [where k = k] del: fun_upd_apply)

lemma view_ok_upd:
  "view_ok lim S m \<Longrightarrow> (\<And>t. x = Some t \<Longrightarrow> cell_ok lim S k t) \<Longrightarrow> view_ok lim S (m(k := x))"
  by (auto simp: view_ok_def)

lemma propose_effect:
  assumes "propose lim hk k previous state retain (tx, h) = Inr (tx', h')"
  shows "\<exists>x. (if retain then \<exists>t. x = Some t \<and> snapshot state (max_state_value_bytes lim) = Inr t
              else x = None)
    \<and> tx_pending tx' = dput k x (tx_pending tx) \<and> tx_calls tx' = tx_calls tx
    \<and> tx_keys tx' = tx_keys tx + (opt_one x - opt_one previous)
    \<and> tx_bytes tx' = tx_bytes tx + opt_bytes x - opt_bytes previous
    \<and> tx_keys tx' \<le> max_state_keys lim \<and> tx_bytes tx' \<le> max_state_bytes lim
    \<and> on_propose hk k previous x h = Inr h'"
  using assms by (cases retain) (auto simp: propose_def Let_def)

lemma propose_ok:
  assumes tx: "tx_ok lim S base tx" and k: "fst k \<in> S" "is_label (fst k)" "is_label (snd k)"
    and p: "propose lim hk k (previous_state base tx k) state retain (tx, h) = Inr (tx', h')"
  shows "tx_ok lim S base tx'"
proof -
  obtain x where x: "if retain then \<exists>t. x = Some t \<and> snapshot state (max_state_value_bytes lim) = Inr t
              else x = None"
    and pend: "tx_pending tx' = dput k x (tx_pending tx)"
    and tot: "tx_keys tx' = tx_keys tx + (opt_one x - opt_one (previous_state base tx k))"
      "tx_bytes tx' = tx_bytes tx + opt_bytes x - opt_bytes (previous_state base tx k)"
    and lims: "tx_keys tx' \<le> max_state_keys lim" "tx_bytes tx' \<le> max_state_bytes lim"
    using propose_effect [OF p] by blast
  have v: "previous_state base tx' = (previous_state base tx)(k := x)"
    by (rule view_put) (rule pend)
  have cell: "cell_ok lim S k t" if "x = Some t" for t
    using x that k snapshot_canonical by (auto simp: cell_ok_def split: if_splits)
  have "view_ok lim S (previous_state base tx')"
    unfolding v using tx cell by (intro view_ok_upd) (auto simp: tx_ok_def)
  then show ?thesis
    using tx tot lims pend finite_view [of base tx]
    by (simp add: tx_ok_def v key_total_upd byte_total_upd del: fun_upd_apply)
qed

lemma invoke_effect:
  "invoke lim f args tx = Inr (v, tx') \<Longrightarrow>
   tx_pending tx' = tx_pending tx \<and> tx_keys tx' = tx_keys tx \<and> tx_bytes tx' = tx_bytes tx
   \<and> tx_calls tx' = tx_calls tx + 1 \<and> tx_calls tx' \<le> max_calls_per_input lim
   \<and> (\<exists>g. f = Some g \<and> g args = Inr v) \<and> v \<noteq> PAwaitable"
  by (auto simp: invoke_def Let_def no_awaitable_def split: option.splits if_splits)

lemma tx_ok_cong:
  "tx_ok lim S base tx \<Longrightarrow> tx_pending tx' = tx_pending tx \<Longrightarrow> tx_keys tx' = tx_keys tx
   \<Longrightarrow> tx_bytes tx' = tx_bytes tx \<Longrightarrow> tx_ok lim S base tx'"
  using view_cong [of tx' tx base] by (simp add: tx_ok_def)

section \<open>Emission\<close>

definition outputs_ok :: "flow_limits \<Rightarrow> flow_record list \<Rightarrow> bool" where
  "outputs_ok lim out \<longleftrightarrow>
     list_all record_ok out \<and> int (length out) \<le> max_records_per_input lim
     \<and> list_all (\<lambda>r. rec_size r \<le> max_record_bytes lim) out
     \<and> (\<Sum>r\<leftarrow>out. rec_size r) \<le> max_batch_bytes lim"

definition as_ok :: "flow_limits \<Rightarrow> pystr set \<Rightarrow> (state_key, pystr) dict \<Rightarrow> 'h apply_state \<Rightarrow> bool" where
  "as_ok lim S base s \<longleftrightarrow>
     tx_ok lim S base (as_tx s) \<and> outputs_ok lim (as_output s)
     \<and> as_bytes s = (\<Sum>r\<leftarrow>as_output s. rec_size r)"

lemma emit_effect:
  assumes "emit lim hk v k s = Inr s'"
  shows "\<exists>item. make_record v k = Inr item \<and> as_output s' = as_output s @ [item]
    \<and> int (length (as_output s)) < max_records_per_input lim
    \<and> rec_size item \<le> max_record_bytes lim
    \<and> as_bytes s' = as_bytes s + rec_size item \<and> as_bytes s' \<le> max_batch_bytes lim
    \<and> as_tx s' = as_tx s \<and> on_emit hk item (as_hook s) = Inr (as_hook s')"
  using assms by (auto simp: emit_def Let_def)

lemma emit_ok: "as_ok lim S base s \<Longrightarrow> emit lim hk v k s = Inr s' \<Longrightarrow> as_ok lim S base s'"
  using emit_effect [of lim hk v k s s'] make_record_ok
  by (fastforce simp: as_ok_def outputs_ok_def)

text \<open>
  A property of the accumulated state that each \<open>emit\<close> keeps is kept by emitting an
  iterable, however it ends.
\<close>

lemma emit_values_invariant:
  assumes "emit_values lim hk it k s = Inr s'" and "P s"
    and "\<And>v s s'. P s \<Longrightarrow> emit lim hk v k s = Inr s' \<Longrightarrow> P s'"
  shows "P s'"
proof -
  obtain t where t: "fold_res (\<lambda>v s. rbind (no_awaitable v) (\<lambda>_. emit lim hk v k s)) (fst it) s = Inr t"
    and s': "s' = t"
    using assms(1) by (auto simp: emit_values_def)
  from t assms(2) have "P t"
    by (rule fold_res_invariant) (use assms(3) in \<open>auto simp: no_awaitable_def split: if_splits\<close>)
  with s' show ?thesis by simp
qed

text \<open>
  The induction principle of \<open>apply\<close>: what callback calls, proposals on a record's own key
  and emissions under its key (or the key \<open>key_by\<close> gave, or none) each keep, the whole
  operator keeps.
\<close>

definition stable_call :: "flow_limits \<Rightarrow> ('h apply_state \<Rightarrow> bool) \<Rightarrow> bool" where
  "stable_call lim P \<longleftrightarrow>
     (\<forall>f args s v s'. P s \<longrightarrow> lift_invoke lim f args s = Inr (v, s') \<longrightarrow> P s')"

definition stable_emit :: "flow_limits \<Rightarrow> 'h hooks \<Rightarrow> ('h apply_state \<Rightarrow> bool) \<Rightarrow> bool" where
  "stable_emit lim hk P \<longleftrightarrow> (\<forall>v k s s'. P s \<longrightarrow> emit lim hk v k s = Inr s' \<longrightarrow> P s')"

definition stable_propose :: "flow_limits \<Rightarrow> 'h hooks \<Rightarrow> (state_key, pystr) dict \<Rightarrow> state_key set
    \<Rightarrow> ('h apply_state \<Rightarrow> bool) \<Rightarrow> bool" where
  "stable_propose lim hk base K P \<longleftrightarrow>
     (\<forall>k st retain s s'. k \<in> K \<longrightarrow> P s \<longrightarrow>
        lift_propose lim hk k (previous_state base (as_tx s) k) st retain s = Inr s' \<longrightarrow> P s')"

lemma lift_invoke_view:
  "lift_invoke lim f args s = Inr (v, s') \<Longrightarrow>
   previous_state base (as_tx s') = previous_state base (as_tx s)
   \<and> as_output s' = as_output s \<and> as_bytes s' = as_bytes s \<and> as_hook s' = as_hook s"
  by (auto simp: lift_invoke_def intro!: view_cong dest!: invoke_effect)

lemma apply_stateful_invariant:
  assumes a: "apply_stateful lim hk base step item s = Inr s'" and P: "P s"
    and call: "stable_call lim P" and em: "stable_emit lim hk P"
    and pp: "stable_propose lim hk base K P"
    and K: "\<And>k. rec_key item = Some k \<Longrightarrow> (step_id step, k) \<in> K"
  shows "P s'"
proof -
  obtain k where k: "rec_key item = Some k" using a by (auto simp: apply_stateful_def split: option.splits)
  define sk where "sk = (step_id step, k)"
  define prev where "prev = previous_state base (as_tx s) sk"
  obtain current s1 where s1: "(case prev of None \<Rightarrow> lift_invoke lim (step_initial step) [] s
      | Some t \<Rightarrow> rbind (loads no_hooks t) (\<lambda>j. Inr (py_of_json j, s))) = Inr (current, s1)"
    and r1: "rbind (snapshot current (max_state_value_bytes lim)) (\<lambda>t.
             rbind (loads no_hooks t) (\<lambda>j.
             rbind (rec_value item) (\<lambda>v.
             rbind (lift_invoke lim (step_function step) [v, py_of_json j] s1) (\<lambda>(update, s).
               if step_op step = OStatefulFlatMap
               then (case update of
                       PStateFlat new outputs retain \<Rightarrow>
                         rbind (flat_values outputs) (\<lambda>it.
                         rbind (lift_propose lim hk sk prev new retain s) (\<lambda>s.
                           emit_values lim hk it (rec_key item) s))
                     | _ \<Rightarrow> Inl ValidationError)
               else (case update of
                       PStateUpdate new output emits retain \<Rightarrow>
                         rbind (lift_propose lim hk sk prev new retain s) (\<lambda>s.
                           if emits then emit lim hk output (rec_key item) s else Inr s)
                     | _ \<Rightarrow> Inl ValidationError))))) = Inr s'"
    using a k unfolding apply_stateful_def Let_def sk_def prev_def by auto
  have p1: "P s1" and v1: "prev = previous_state base (as_tx s1) sk"
    using s1 P call lift_invoke_view [of lim _ _ s current s1 base]
    by (auto simp: prev_def stable_call_def split: option.splits)
  obtain v j y where y: "lift_invoke lim (step_function step) [v, py_of_json j] s1 = Inr y"
    and ry: "(case y of (update, s) \<Rightarrow>
               if step_op step = OStatefulFlatMap
               then (case update of
                       PStateFlat new outputs retain \<Rightarrow>
                         rbind (flat_values outputs) (\<lambda>it.
                         rbind (lift_propose lim hk sk prev new retain s) (\<lambda>s.
                           emit_values lim hk it (rec_key item) s))
                     | _ \<Rightarrow> Inl ValidationError)
               else (case update of
                       PStateUpdate new output emits retain \<Rightarrow>
                         rbind (lift_propose lim hk sk prev new retain s) (\<lambda>s.
                           if emits then emit lim hk output (rec_key item) s else Inr s)
                     | _ \<Rightarrow> Inl ValidationError)) = Inr s'"
    using r1 unfolding rbind_eq_Inr by blast
  obtain update s2 where y2: "y = (update, s2)" by (cases y)
  note s2 = y [unfolded y2] and r2 = ry [unfolded y2 prod.case]
  have p2: "P s2" and v2: "prev = previous_state base (as_tx s2) sk"
    using s2 p1 call v1 lift_invoke_view [OF s2, of base] by (auto simp: stable_call_def)
  have sk: "sk \<in> K" using K [OF k] by (simp add: sk_def)
  have p3: "P s3" if "lift_propose lim hk sk prev new retain s2 = Inr s3" for new retain s3
    using that p2 sk pp unfolding v2 stable_propose_def by blast
  have fin: "P s'" if "emit_values lim hk it k' s3 = Inr s'" "P s3" for it k' s3
    using that em by (auto elim!: emit_values_invariant simp: stable_emit_def)
  show ?thesis
  proof (cases "step_op step = OStatefulFlatMap")
    case True
    with r2 p3 fin show ?thesis by (cases update) auto
  next
    case False
    have e: "P s'" if "emit lim hk v k' s3 = Inr s'" "P s3" for v k' s3
      using that em unfolding stable_emit_def by blast
    from False r2 p3 show ?thesis by (cases update) (auto split: if_splits intro: e)
  qed
qed

lemma apply_item_invariant:
  assumes a: "apply_item lim hk base step item s = Inr s'" and P: "P s"
    and call: "stable_call lim P" and em: "stable_emit lim hk P"
    and pp: "is_stateful (step_op step) \<Longrightarrow> stable_propose lim hk base K P"
    and K: "\<And>k. is_stateful (step_op step) \<Longrightarrow> rec_key item = Some k \<Longrightarrow> (step_id step, k) \<in> K"
  shows "P s'"
proof (cases "is_stateful (step_op step)")
  case True
  then have "apply_stateful lim hk base step item s = Inr s'"
    using a by (auto simp: apply_item_def is_stateful_def)
  then show ?thesis using P call em pp [OF True] K [OF True] by (rule apply_stateful_invariant)
next
  case False
  have e: "P t" if "emit lim hk v k s1 = Inr t" "P s1" for v k s1 t
    using that em by (auto simp: stable_emit_def)
  have ev: "P t" if "emit_values lim hk it k s1 = Inr t" "P s1" for it k s1 t
    using that em by (auto elim!: emit_values_invariant simp: stable_emit_def)
  have c: "P s1" if "lift_invoke lim f args s = Inr (v, s1)" for f args v s1
    using that call P by (auto simp: stable_call_def)
  show ?thesis
  proof (cases "step_op step")
    case OFilter
    with a obtain v y where v: "lift_invoke lim (step_function step) [v] s = Inr y"
      and r: "(case fst y of
               PBool b \<Rightarrow> if b then rbind (rec_value item) (\<lambda>v. emit lim hk v (rec_key item) (snd y)) else Inr (snd y)
             | _ \<Rightarrow> Inl ValidationError) = Inr s'"
      by (auto simp: apply_item_def is_stateful_def split_def)
    from v have "P (snd y)" by (cases y) (auto dest: c)
    with r e show ?thesis by (cases "fst y") (auto split: if_splits)
  next
    case ODropKey
    with a e P show ?thesis by (auto simp: apply_item_def)
  qed (use False a e ev c in \<open>auto simp: apply_item_def is_stateful_def\<close>)
qed

text \<open>The instance for the accounting: \<open>as_ok\<close> is kept by every operator.\<close>

lemma as_ok_call: "stable_call lim (as_ok lim S base)"
proof -
  have "as_ok lim S base s'"
    if o: "as_ok lim S base s" and l: "lift_invoke lim f args s = Inr (v, s')"
    for f args and s s' :: "'a apply_state" and v
  proof -
    obtain tx where tx: "invoke lim f args (as_tx s) = Inr (v, tx)" and s': "s' = s\<lparr>as_tx := tx\<rparr>"
      using l by (auto simp: lift_invoke_def)
    from tx have "tx_ok lim S base tx"
      using o invoke_effect [OF tx] by (auto simp: as_ok_def intro: tx_ok_cong)
    with o s' show ?thesis by (simp add: as_ok_def)
  qed
  then show ?thesis by (auto simp: stable_call_def)
qed

lemma as_ok_emit: "stable_emit lim hk (as_ok lim S base)"
  by (auto simp: stable_emit_def intro: emit_ok)

lemma as_ok_propose:
  assumes "\<And>k. k \<in> K \<Longrightarrow> fst k \<in> S \<and> is_label (fst k) \<and> is_label (snd k)"
  shows "stable_propose lim hk base K (as_ok lim S base)"
proof -
  have "as_ok lim S base s'"
    if k: "k \<in> K" and s: "as_ok lim S base s"
      and p: "lift_propose lim hk k (previous_state base (as_tx s) k) st retain s = Inr s'"
    for k st retain and s s' :: "'a apply_state"
  proof -
    obtain tx h where e: "propose lim hk k (previous_state base (as_tx s) k) st retain (as_tx s, as_hook s) = Inr (tx, h)"
      and s': "s' = s\<lparr>as_tx := tx, as_hook := h\<rparr>"
      using p by (auto simp: lift_propose_def)
    have "tx_ok lim S base tx"
      using propose_ok [OF _ _ _ _ e] assms [OF k] s by (simp add: as_ok_def)
    with s s' show ?thesis by (simp add: as_ok_def)
  qed
  then show ?thesis by (auto simp: stable_propose_def)
qed

definition apply_start :: "flow_tx \<Rightarrow> 'h \<Rightarrow> 'h apply_state" where
  "apply_start tx h = \<lparr>as_tx = tx, as_output = [], as_bytes = 0, as_hook = h\<rparr>"

lemma apply_step_effect:
  "apply_step lim hk base step current (tx, h) = Inr (out, tx', h') \<longleftrightarrow>
   (\<exists>s. fold_res (apply_item lim hk base step) current (apply_start tx h) = Inr s
      \<and> out = as_output s \<and> tx' = as_tx s \<and> h' = as_hook s)"
  by (auto simp: apply_step_def apply_start_def split: sum.splits)

lemma apply_step_error:
  "apply_step lim hk base step current s = Inl e \<Longrightarrow> e = FlowExecutionError (step_id step)"
  by (auto simp: apply_step_def split: sum.splits)

definition step_keys :: "flow_step \<Rightarrow> flow_record list \<Rightarrow> state_key set" where
  "step_keys step current = {(step_id step, k) | k item. item \<in> set current \<and> rec_key item = Some k}"

lemma apply_step_invariant:
  assumes a: "apply_step lim hk base step current (tx, h) = Inr (out, tx', h')"
    and P: "P (apply_start tx h)"
    and stable: "stable_call lim P" "stable_emit lim hk P"
      "is_stateful (step_op step) \<Longrightarrow> stable_propose lim hk base (step_keys step current) P"
  shows "\<exists>s. P s \<and> out = as_output s \<and> tx' = as_tx s \<and> h' = as_hook s"
proof -
  obtain s where f: "fold_res (apply_item lim hk base step) current (apply_start tx h) = Inr s"
    and s: "out = as_output s" "tx' = as_tx s" "h' = as_hook s"
    using a by (auto simp: apply_step_effect)
  from f P have "P s"
  proof (rule fold_res_invariant)
    fix item t t' assume i: "item \<in> set current" and t: "P t" "apply_item lim hk base step item t = Inr t'"
    show "P t'"
      by (rule apply_item_invariant [OF t(2) t(1) stable])
        (use i in \<open>auto simp: step_keys_def\<close>)
  qed
  with s show ?thesis by blast
qed

lemma apply_step_ok:
  assumes a: "apply_step lim hk base step current (tx, h) = Inr (out, tx', h')"
    and tx: "tx_ok lim S base tx" and cur: "list_all record_ok current"
    and step: "flow_step_ok step" "is_stateful (step_op step) \<Longrightarrow> step_id step \<in> S"
    and lim: "flow_limits_ok lim"
  shows "tx_ok lim S base tx' \<and> outputs_ok lim out"
proof -
  have "as_ok lim S base (apply_start tx h)"
    using tx lim by (simp add: as_ok_def apply_start_def outputs_ok_def flow_limits_ok_def)
  moreover have "stable_propose lim hk base (step_keys step current) (as_ok lim S base)"
    if "is_stateful (step_op step)"
    using that step cur
    by (intro as_ok_propose) (force simp: step_keys_def flow_step_ok_def record_ok_def list_all_iff)
  ultimately have "\<exists>s. as_ok lim S base s \<and> out = as_output s \<and> tx' = as_tx s \<and> h' = as_hook s"
    by (intro apply_step_invariant [OF a _ as_ok_call as_ok_emit])
  then show ?thesis by (auto simp: as_ok_def)
qed

text \<open>State is written only under the step's own id and the keys of the records it saw.\<close>

lemma apply_step_frame:
  assumes a: "apply_step lim hk base step current (tx, h) = Inr (out, tx', h')"
    and k: "is_stateful (step_op step) \<Longrightarrow> k \<notin> step_keys step current"
  shows "previous_state base tx' k = previous_state base tx k"
proof -
  define P :: "'a apply_state \<Rightarrow> bool" where "P = (\<lambda>s. previous_state base (as_tx s) k = previous_state base tx k)"
  have "P (apply_start tx h)" by (simp add: P_def apply_start_def)
  moreover have "stable_call lim P"
    by (auto simp: stable_call_def P_def dest: lift_invoke_view [of _ _ _ _ _ _ base])
  moreover have "stable_emit lim hk P"
    by (auto simp: stable_emit_def P_def dest: emit_effect)
  moreover have "stable_propose lim hk base (step_keys step current) P" if "is_stateful (step_op step)"
    using k [OF that] by (fastforce simp: stable_propose_def P_def lift_propose_def
        dest!: propose_effect view_put [of _ _ _ _ base])
  ultimately obtain s where "P s" "tx' = as_tx s"
    using apply_step_invariant [OF a, of P] by blast
  then show ?thesis by (simp add: P_def)
qed

end
