(* ===== verification/Flow_Checkpoint_Laws.thy ===== *)
theory Flow_Checkpoint_Laws
  imports Dataflow_Laws
begin

text \<open>
  The checkpoints of \<open>dataflow.py\<close>, which the graph checkpoints reuse: exactly which
  checkpoints the validator accepts, and that the portable document of an accepted
  checkpoint reads back as the checkpoint.
\<close>

section \<open>Canonical text can be encoded\<close>

lemma utf8_ok_simps [simp]:
  "utf8_ok []" "utf8_ok (c # s) \<longleftrightarrow> is_scalar c \<and> utf8_ok s"
  by (simp_all add: utf8_ok_def)

lemma utf8_ok_list: "(\<And>c. c \<in> set s \<Longrightarrow> c < 128) \<Longrightarrow> utf8_ok s"
  by (fastforce simp: utf8_ok_def list_all_iff is_scalar_def)

lemma is_scalar_ascii [simp]: "c < 128 \<Longrightarrow> is_scalar c"
  by (simp add: is_scalar_def)

lemma utf8_ok_nat_str [simp]: "utf8_ok (nat_str n)"
  using nat_str_digits [of n] by (intro utf8_ok_list) (auto simp: list_all_iff is_digit_def)

lemma utf8_ok_replicate [simp]: "utf8_ok (replicate n c) \<longleftrightarrow> n = 0 \<or> is_scalar c"
  by (auto simp: utf8_ok_def list_all_iff)

lemma utf8_ok_take [simp]: "utf8_ok s \<Longrightarrow> utf8_ok (take n s)"
  and utf8_ok_drop [simp]: "utf8_ok s \<Longrightarrow> utf8_ok (drop n s)"
  by (auto simp: utf8_ok_def list_all_iff dest: in_set_takeD in_set_dropD)

lemma utf8_ok_format_repr: "utf8_ok ds \<Longrightarrow> utf8_ok (format_repr ds p)"
  by (auto simp: format_repr_def lit_def Let_def)

lemma utf8_ok_find:
  assumes "find P (map f xs) = Some t" "\<And>x. utf8_ok (f x)"
  shows "utf8_ok t"
proof -
  have "t \<in> set (map f xs)" using assms(1) by (metis find_Some_iff nth_mem)
  with assms(2) show ?thesis by auto
qed

lemma utf8_ok_pos_repr: "utf8_ok (pos_repr n)"
proof -
  define f where "f = (\<lambda>d. let (c, p) = round_digits n d in format_repr (nat_str c) p)"
  have f: "utf8_ok (f d)" for d
    by (simp add: f_def split_def Let_def utf8_ok_format_repr)
  have "pos_repr n = (case find (reads_back n) (map f [1..<18]) of Some t \<Rightarrow> t | None \<Rightarrow> exact_repr n)"
    by (simp only: pos_repr_def f_def)
  moreover have "utf8_ok (exact_repr n)" by (simp add: exact_repr_def lit_def)
  ultimately show ?thesis
    using f by (cases "find (reads_back n) (map f [1..<18])") (simp_all only: option.case utf8_ok_find)
qed

lemma utf8_ok_float_repr: "utf8_ok (float_repr f)"
  by (cases f) (auto simp: utf8_ok_pos_repr lit_def)

lemma utf8_ok_esc: "is_scalar c \<Longrightarrow> utf8_ok (esc_char c)"
  by (auto simp: esc_char_def hex_digit_def intro!: is_scalar_ascii)

lemma utf8_ok_concat: "utf8_ok (concat xs) \<longleftrightarrow> (\<forall>x\<in>set xs. utf8_ok x)"
  by (induction xs) auto

lemma utf8_ok_dump_str: "utf8_ok s \<Longrightarrow> utf8_ok (dump_str s)"
proof -
  assume "utf8_ok s"
  then have "\<forall>x\<in>set (map esc_char s). utf8_ok x"
    by (auto simp: utf8_ok_def [of s] list_all_iff intro: utf8_ok_esc)
  then show ?thesis by (simp add: dump_str_def utf8_ok_concat)
qed

lemma utf8_ok_join: "is_scalar c \<Longrightarrow> (\<And>x. x \<in> set xs \<Longrightarrow> utf8_ok x) \<Longrightarrow> utf8_ok (join c xs)"
  by (induction c xs rule: join.induct) auto

lemma utf8_ok_int_str: "utf8_ok (int_str i)"
  by (auto simp: int_str_def)

lemma utf8_ok_dumps: "jfits d j \<Longrightarrow> utf8_ok (dumps j)"
proof (induction d j rule: jfits.induct)
  case (4 d xs)
  then show ?case by (auto simp: list_all_iff intro!: utf8_ok_join)
next
  case (5 d kvs)
  then have "utf8_ok (dump_member kv)" if "kv \<in> set kvs" for kv
    using that by (cases kv) (fastforce simp: list_all_iff intro: utf8_ok_dump_str)
  then show ?case by (auto intro!: utf8_ok_join)
qed (auto simp: utf8_ok_dump_str utf8_ok_float_repr utf8_ok_int_str lit_def)

lemma utf8_char_pos: "0 < length (utf8_char c)"
  by (simp add: utf8_char_def)

lemma length_le_utf8_len: "length s \<le> utf8_len s"
proof (induction s)
  case (Cons c s)
  then show ?case using utf8_char_pos [of c] by (simp add: utf8_len_Cons del: length_greater_0_conv)
qed simp

lemma length_le_byte_len: "int (length s) \<le> byte_len s"
  using length_le_utf8_len [of s] by (simp add: byte_len_def)

lemma canonical_utf8_ok: "canonical t \<Longrightarrow> utf8_ok t"
  by (auto simp: canonical_iff snapshot_json_def intro: utf8_ok_dumps)

lemma canonical_reads:
  "canonical t \<Longrightarrow> \<exists>j. (\<forall>h. loads h t = Inr j)
     \<and> (\<forall>m. byte_len t \<le> m \<longrightarrow> snapshot (py_of_json j) m = Inr t)"
  by (erule canonical_loads) blast

section \<open>The checkpoints the validator accepts\<close>

type_synonym flow_cell = "pystr \<times> pystr \<times> pystr"

fun cell_valid :: "flow_cell \<Rightarrow> bool" where
  "cell_valid (step, k, t) = (is_label step \<and> is_label k \<and> canonical t \<and> byte_len t \<le> MAX_RECORD)"

fun cell_key :: "flow_cell \<Rightarrow> state_key" where
  "cell_key (step, k, t) = (step, k)"

fun cell_text :: "flow_cell \<Rightarrow> pystr" where
  "cell_text (step, k, t) = t"

definition MAX_CHECKPOINT_BYTES :: int where
  "MAX_CHECKPOINT_BYTES = 256 * 1024 * 1024"

lemma check_cell_iff:
  "check_cell c (keys, bt) = Inr s \<longleftrightarrow>
     cell_valid c \<and> cell_key c \<notin> set keys \<and> bt + byte_len (cell_text c) \<le> MAX_CHECKPOINT_BYTES
     \<and> s = (cell_key c # keys, bt + byte_len (cell_text c))" (is "?L \<longleftrightarrow> ?R")
proof -
  obtain step k t where c: "c = (step, k, t)" by (metis prod_cases3)
  show ?thesis
  proof
    assume ?L
    then show ?R
      by (auto simp: c check_cell_def MAX_CHECKPOINT_BYTES_def not_less split: if_splits dest: snapshot_canonical)
  next
    assume r: ?R
    then have "canonical t" by (simp add: c)
    then obtain j where j: "\<And>h. loads h t = Inr j"
      and s: "\<And>m. byte_len t \<le> m \<Longrightarrow> snapshot (py_of_json j) m = Inr t"
      using canonical_reads by blast
    have "recovery_decode t (sha256_hex t) = Inr j"
      using r j by (simp add: c recovery_decode_def MAX_RECORD_def MAX_EVENT_FILE_BYTES_def)
    moreover have "int (length t) \<le> MAX_RECORD"
      using r length_le_byte_len [of t] by (simp add: c)
    ultimately show ?L
      using r s [of MAX_RECORD] canonical_utf8_ok [OF \<open>canonical t\<close>]
      by (simp add: c check_cell_def MAX_CHECKPOINT_BYTES_def)
  qed
qed

lemma cell_bytes_nonneg: "0 \<le> (\<Sum>c\<leftarrow>cells. byte_len (cell_text c))"
  by (rule sum_list_nonneg) auto

lemma fold_check_cell:
  assumes "bt \<le> MAX_CHECKPOINT_BYTES"
  shows "fold_res check_cell cells (keys, bt) = Inr s \<longleftrightarrow>
     list_all cell_valid cells \<and> distinct (map cell_key cells) \<and> set (map cell_key cells) \<inter> set keys = {}
     \<and> bt + (\<Sum>c\<leftarrow>cells. byte_len (cell_text c)) \<le> MAX_CHECKPOINT_BYTES
     \<and> s = (rev (map cell_key cells) @ keys, bt + (\<Sum>c\<leftarrow>cells. byte_len (cell_text c)))"
  using assms
proof (induction cells arbitrary: keys bt)
  case (Cons c cells)
  show ?case
  proof (cases "bt + byte_len (cell_text c) \<le> MAX_CHECKPOINT_BYTES")
    case True
    show ?thesis
      using cell_bytes_nonneg [of cells] True
      by (auto simp: check_cell_iff Cons.IH [OF True] add.assoc)
  next
    case False
    with cell_bytes_nonneg [of cells] show ?thesis by (auto simp: check_cell_iff)
  qed
qed auto

definition checkpoint_ok :: "flow_checkpoint \<Rightarrow> bool" where
  "checkpoint_ok c \<longleftrightarrow>
     is_hex64 (cp_identity c)
     \<and> 0 \<le> cp_processed c \<and> cp_processed c \<le> MAX_COUNT
     \<and> 0 \<le> cp_emitted c \<and> cp_emitted c \<le> MAX_COUNT
     \<and> length (cp_cells c) \<le> 100000
     \<and> list_all cell_valid (cp_cells c) \<and> distinct (map cell_key (cp_cells c))
     \<and> (\<Sum>c\<leftarrow>cp_cells c. byte_len (cell_text c)) \<le> MAX_CHECKPOINT_BYTES"

lemma flow_checkpoint_check_iff:
  "flow_checkpoint_check c = Inr c' \<longleftrightarrow> checkpoint_ok c \<and> c' = c"
proof -
  have "0 \<le> MAX_CHECKPOINT_BYTES" by (simp add: MAX_CHECKPOINT_BYTES_def)
  then show ?thesis
    by (auto simp: flow_checkpoint_check_def checkpoint_ok_def fold_check_cell)
qed

section \<open>The portable document\<close>

fun cell_json :: "flow_cell \<Rightarrow> json" where
  "cell_json (step, k, t) =
     JObj [jfield ''step'' (JStr step), jfield ''key'' (JStr k),
           jfield ''value'' (case loads no_hooks t of Inr v \<Rightarrow> v | Inl e \<Rightarrow> JNull)]"

lemma cell_doc_valid: "cell_valid c \<Longrightarrow> cell_doc c = Inr (cell_json c)"
  by (cases c) (auto simp: cell_doc_def elim!: canonical_loads)

lemma read_cell_valid:
  assumes "cell_valid c" "bt + byte_len (cell_text c) \<le> MAX_CHECKPOINT_BYTES"
  shows "read_cell (cell_json c) (cells, bt) = Inr (cells @ [c], bt + byte_len (cell_text c))"
proof -
  obtain step k t where c: "c = (step, k, t)" by (metis prod_cases3)
  from assms(1) have "canonical t" by (simp add: c)
  then obtain j where j: "\<And>h. loads h t = Inr j"
    and s: "\<And>m. byte_len t \<le> m \<Longrightarrow> snapshot (py_of_json j) m = Inr t"
    using canonical_reads by blast
  from assms c have "byte_len t \<le> min MAX_RECORD (256 * 1024 * 1024 - bt)"
    by (simp add: MAX_CHECKPOINT_BYTES_def)
  moreover have "key_json (JStr step) = Inr step" "key_json (JStr k) = Inr k"
    using assms(1) by (simp_all add: c)
  ultimately show ?thesis
    by (simp add: c read_cell_def doc_fields_def doc_get_def lit_def j s)
qed

lemma fold_read_cell:
  assumes "list_all cell_valid cells"
    and "bt + (\<Sum>c\<leftarrow>cells. byte_len (cell_text c)) \<le> MAX_CHECKPOINT_BYTES"
  shows "fold_res read_cell (map cell_json cells) (done, bt)
       = Inr (done @ cells, bt + (\<Sum>c\<leftarrow>cells. byte_len (cell_text c)))"
  using assms
proof (induction cells arbitrary: "done" bt)
  case (Cons c cells)
  have "bt + byte_len (cell_text c) \<le> MAX_CHECKPOINT_BYTES"
    using Cons.prems(2) cell_bytes_nonneg [of cells] by simp
  with Cons show ?case by (simp add: read_cell_valid add.assoc)
qed simp

definition checkpoint_json :: "string \<Rightarrow> flow_checkpoint \<Rightarrow> json" where
  "checkpoint_json kind c = JObj
     [jfield ''kind'' (JStr (lit kind)), jfield ''schema_version'' (JStr (lit ''1.0'')),
      jfield ''identity'' (JStr (cp_identity c)),
      jfield ''processed_inputs'' (JInt (cp_processed c)),
      jfield ''emitted_records'' (JInt (cp_emitted c)),
      jfield ''cells'' (JArr (map cell_json (cp_cells c)))]"

lemma checkpoint_to_dict_ok:
  "checkpoint_ok c \<Longrightarrow> flow_checkpoint_to_dict kind c = Inr (checkpoint_json kind c)"
  by (simp add: flow_checkpoint_to_dict_def checkpoint_json_def checkpoint_ok_def list_all_iff
      map_res_all_Inr cell_doc_valid)

lemma checkpoint_from_dict_ok:
  assumes "checkpoint_ok c"
  shows "flow_checkpoint_from_dict kind (checkpoint_json kind c) = Inr c"
proof -
  have "fold_res read_cell (map cell_json (cp_cells c)) ([], 0)
      = Inr (cp_cells c, \<Sum>c\<leftarrow>cp_cells c. byte_len (cell_text c))"
    using assms fold_read_cell [of "cp_cells c" 0 "[]"] by (simp add: checkpoint_ok_def)
  moreover have "count_json (JInt (cp_processed c)) 0 MAX_COUNT = Inr (cp_processed c)"
      "count_json (JInt (cp_emitted c)) 0 MAX_COUNT = Inr (cp_emitted c)"
    using assms by (simp_all add: checkpoint_ok_def)
  moreover have "length (cp_cells c) \<le> 100000" using assms by (simp add: checkpoint_ok_def)
  moreover have "flow_checkpoint_check \<lparr>cp_identity = cp_identity c, cp_processed = cp_processed c,
      cp_emitted = cp_emitted c, cp_cells = cp_cells c\<rparr> = Inr c"
    using assms by (subst flow_checkpoint_check_iff) (simp add: checkpoint_ok_def)
  ultimately show ?thesis
    by (simp add: flow_checkpoint_from_dict_def checkpoint_json_def doc_fields_def doc_get_def lit_def)
qed

text \<open>The document is well-formed JSON, so its text is read back to it.\<close>

lemma json_wf_checkpoint:
  assumes "checkpoint_ok c"
  shows "json_wf (checkpoint_json kind c)"
proof -
  have "json_wf (cell_json d)" if "cell_valid d" for d
    using that by (cases d) (auto simp: lit_def dest: snapshot_json_wf elim!: canonical_loads)
  then show ?thesis using assms
    by (auto simp: checkpoint_json_def checkpoint_ok_def list_all_iff lit_def MAX_COUNT_def safe_int_def)
qed

end
