(* ===== verification/Sample_Flow.thy ===== *)
theory Sample_Flow
  imports Flow_Checkpoint_Laws
begin

text \<open>
  Small concrete values (one-character labels, small integers) with the equations that
  evaluate labels, snapshots and records on them, and a sample flow: one stateful step
  that counts the records of each key.
\<close>

section \<open>Small values\<close>

lemma lit_simps: "lit (c # s) = of_char c # lit s" "lit [] = []"
  by (simp_all add: lit_def)

lemma is_label_char: "32 < c \<Longrightarrow> c < 127 \<Longrightarrow> is_label [c]"
  by (simp add: is_label_def is_space_def strip_def is_control_def ceilings utf8_ok_def is_scalar_def)

lemma snapshot_json_int:
  assumes "\<bar>i\<bar> \<le> safe_int" "length (int_str i) \<le> 100"
  shows "snapshot_json (JInt i)"
proof -
  have "utf8_len s = length s" if "\<And>c. c \<in> set s \<Longrightarrow> c < 128" for s
    using that by (induction s) (simp_all add: utf8_len_Cons utf8_char_def)
  moreover have "c < 128" if "c \<in> set (nat_str n)" for c n
    using nat_str_digits [of n] that by (fastforce simp: list_all_iff is_digit_def)
  then have "c < 128" if "c \<in> set (int_str i)" for c
    using that by (auto simp: int_str_def split: if_splits)
  ultimately have "utf8_len (int_str i) \<le> 100" using assms(2) by auto
  moreover have "utf8_len (dump_str value_name) = 7"
    by (simp add: value_name_def lit_simps dump_str_def esc_char_def utf8_len_Cons utf8_char_def)
  ultimately show ?thesis using assms(1)
    by (simp add: snapshot_json_def ceilings utf8_len_Cons utf8_char_def)
qed

lemmas snapshot_int = snapshot_complete [OF snapshot_json_int, simplified]
lemmas loads_int = loads_snapshot_json [OF snapshot_json_int, simplified]

lemma int_digits: "int_str 0 = [48]" "int_str 1 = [49]" "int_str 2 = [50]"
  by (simp_all add: int_str_def nat_str.simps)

lemma loads_digits: "loads h [48] = Inr (JInt 0)" "loads h [49] = Inr (JInt 1)" "loads h [50] = Inr (JInt 2)"
  using loads_int [of 0 h] loads_int [of 1 h] loads_int [of 2 h]
  by (simp_all add: int_digits safe_int_def)

lemma canonical_digits: "canonical [48]" "canonical [49]" "canonical [50]"
  using snapshot_json_int [of 0] snapshot_json_int [of 1] snapshot_json_int [of 2]
  by (auto simp: canonical_iff safe_int_def int_digits
      intro: exI [of _ "JInt 0"] exI [of _ "JInt 1"] exI [of _ "JInt 2"])

lemma snapshot_digits:
  "snapshot (PInt 0) m = (if m < 1 then Inl ValidationError else Inr [48])"
  "snapshot (PInt 1) m = (if m < 1 then Inl ValidationError else Inr [49])"
  "snapshot (PInt 2) m = (if m < 1 then Inl ValidationError else Inr [50])"
  by (simp_all add: snapshot_int int_digits safe_int_def byte_len_def utf8_len_Cons utf8_char_def)

section \<open>A counting flow\<close>

fun count_fun :: callback where
  "count_fun [v, PInt n] = Inr (PStateUpdate (PInt (n + 1)) (PInt (n + 1)) True True)"
| "count_fun _ = Inl (CallbackError 1)"

fun zero_fun :: callback where
  "zero_fun [] = Inr (PInt 0)"
| "zero_fun _ = Inl (CallbackError 2)"

definition count_step :: flow_step where
  "count_step = \<lparr>step_id = lit ''n'', step_op = OStatefulMap,
     step_function = Some count_fun, step_initial = Some zero_fun\<rparr>"

definition count_flow :: dataflow where
  "count_flow = \<lparr>df_flow_id = lit ''f'', df_revision = lit ''1'', df_steps = [count_step],
     df_limits = default_flow_limits\<rparr>"

definition sample_record :: "nat \<Rightarrow> flow_record" where
  "sample_record k = \<lparr>rec_key = Some [k], rec_json = [49]\<rparr>"

definition keyless_record :: flow_record where
  "keyless_record = \<lparr>rec_key = None, rec_json = [49]\<rparr>"

definition count_rt :: flow_runtime where
  "count_rt = \<lparr>fr_flow = count_flow, fr_state = [], fr_bytes = 0, fr_processed = 0,
     fr_emitted = 0, fr_busy = False\<rparr>"

lemma default_limits_ok: "flow_limits_ok default_flow_limits"
  by (simp add: flow_limits_ok_def default_flow_limits_def)

lemma count_step_ok: "flow_step_ok count_step"
  by (simp add: count_step_def flow_step_ok_def is_stateful_def is_label_char lit_simps)

lemma count_flow_ok: "dataflow_ok count_flow"
  by (simp add: dataflow_ok_def count_flow_def count_step_ok default_limits_ok is_label_char lit_simps)

lemma make_count_rt: "make_flow_runtime count_flow = Inr count_rt"
  by (simp add: make_flow_runtime_def count_rt_def count_flow_ok)

lemma sample_record_ok: "32 < k \<Longrightarrow> k < 127 \<Longrightarrow> record_ok (sample_record k)"
  "record_ok keyless_record"
  by (simp_all add: record_ok_def sample_record_def keyless_record_def is_label_char rec_size_def
      byte_len_def MAX_RECORD_def utf8_len_Cons utf8_char_def canonical_digits)

text \<open>The equations that evaluate one step of a flow over these values.\<close>

lemmas eval_step =
  apply_step_def apply_item_def apply_stateful_def is_stateful_def rec_value_def loads_digits
  begin_tx_def previous_state_def lift_invoke_def invoke_def no_awaitable_def
  snapshot_digits lift_propose_def propose_def Let_def no_tx_hooks_def emit_def make_record_def
  MAX_RECORD_def key_def label_is_label is_label_char opt_one_def opt_bytes_def
  rec_size_def byte_len_def utf8_len_Cons utf8_char_def default_flow_limits_def

lemmas eval_flow =
  eval_step flow_process_def flow_process_body_def flow_step_fold_def commit_tx_def count_def
  MAX_COUNT_def count_rt_def count_flow_def count_step_def sample_record_def keyless_record_def lit_simps

lemma count_process:
  "flow_process (sample_record 107) count_rt =
     (Inr [sample_record 107],
      count_rt\<lparr>fr_state := [(([110], [107]), [49])], fr_bytes := 1, fr_processed := 1, fr_emitted := 1\<rparr>)"
  by (simp add: eval_flow)

lemma count_process_keyless:
  "flow_process keyless_record count_rt = (Inl (FlowExecutionError [110]), count_rt)"
  by (simp add: eval_flow)

end
