(* ===== verification/Flow_Runtime_Laws.thy ===== *)
theory Flow_Runtime_Laws
  imports Sample_Flow
begin

text \<open>
  \<open>FlowRuntime\<close>: its invariant, the atomicity of \<open>process\<close>, the bounds on what it emits,
  and recovery: a runtime restored from a checkpoint answers every later input exactly as
  the runtime the checkpoint was taken from.
\<close>

section \<open>The keyed state\<close>

definition state_ok :: "flow_limits \<Rightarrow> pystr set \<Rightarrow> (state_key, pystr) dict \<Rightarrow> int \<Rightarrow> bool" where
  "state_ok lim S state bytes \<longleftrightarrow>
     dict_ok state \<and> view_ok lim S (dget state)
     \<and> bytes = (\<Sum>e\<leftarrow>state. byte_len (snd e))
     \<and> int (length state) \<le> max_state_keys lim \<and> bytes \<le> max_state_bytes lim"

lemma state_ok_Nil: "flow_limits_ok lim \<Longrightarrow> state_ok lim S [] 0"
  by (simp add: state_ok_def view_ok_def flow_limits_ok_def)

lemma tx_ok_begin: "state_ok lim S state bytes \<Longrightarrow> tx_ok lim S state (begin_tx state bytes)"
  by (simp add: tx_ok_def state_ok_def key_total_dget byte_total_dget)
    (simp add: begin_tx_def)

lemma state_ok_commit:
  assumes "tx_ok lim S state tx" "dict_ok state" "commit_tx state tx = (state', bytes)"
  shows "state_ok lim S state' bytes \<and> dget state' = previous_state state tx"
proof -
  have d: "dict_ok state'" and b: "bytes = tx_bytes tx"
    using assms dict_ok_commit_cells by (auto simp: commit_tx_def)
  have v: "dget state' = previous_state state tx"
    using assms dget_commit_tx [of tx state] by (simp add: tx_ok_def)
  show ?thesis
    using assms(1) d b by (simp add: tx_ok_def state_ok_def v [symmetric] key_total_dget byte_total_dget)
qed

definition stateful_ids :: "flow_step list \<Rightarrow> pystr set" where
  "stateful_ids steps = step_id ` {s \<in> set steps. is_stateful (step_op s)}"

section \<open>The invariant of the runtime\<close>

definition flow_rt_inv :: "flow_runtime \<Rightarrow> bool" where
  "flow_rt_inv rt \<longleftrightarrow>
     dataflow_ok (fr_flow rt)
     \<and> state_ok (df_limits (fr_flow rt)) (stateful_ids (df_steps (fr_flow rt))) (fr_state rt) (fr_bytes rt)
     \<and> 0 \<le> fr_processed rt \<and> fr_processed rt \<le> MAX_COUNT
     \<and> 0 \<le> fr_emitted rt \<and> fr_emitted rt \<le> MAX_COUNT
     \<and> \<not> fr_busy rt"

lemma make_flow_runtime_inv: "make_flow_runtime f = Inr rt \<Longrightarrow> flow_rt_inv rt \<and> fr_flow rt = f"
  by (auto simp: make_flow_runtime_def flow_rt_inv_def MAX_COUNT_def dataflow_ok_def
      intro: state_ok_Nil split: if_splits)

lemma flow_step_fold_ok:
  assumes f: "flow_step_fold lim state step (cur, tx) = Inr (out, tx')"
    and tx: "tx_ok lim S state tx" and cur: "list_all record_ok cur"
    and step: "flow_step_ok step" "is_stateful (step_op step) \<Longrightarrow> step_id step \<in> S"
    and lim: "flow_limits_ok lim"
  shows "tx_ok lim S state tx' \<and> outputs_ok lim out"
proof -
  obtain h where "apply_step lim no_tx_hooks state step cur (tx, ()) = Inr (out, tx', h)"
    using f by (auto simp: flow_step_fold_def)
  from apply_step_ok [OF this tx cur step lim] show ?thesis .
qed

text \<open>After at least one step, the batch respects the limits.\<close>

lemma flow_steps_ok:
  assumes f: "fold_res (flow_step_fold lim state) steps (cur, tx) = Inr (out, tx')"
    and tx: "tx_ok lim S state tx" and cur: "list_all record_ok cur"
    and steps: "list_all flow_step_ok steps" "stateful_ids steps \<subseteq> S" "steps \<noteq> []"
    and lim: "flow_limits_ok lim"
  shows "tx_ok lim S state tx' \<and> outputs_ok lim out"
  using assms
proof (induction steps arbitrary: cur tx)
  case (Cons step steps)
  obtain y where y: "flow_step_fold lim state step (cur, tx) = Inr y"
    and r: "fold_res (flow_step_fold lim state) steps y = Inr (out, tx')"
    using Cons.prems(1) by auto
  obtain cur1 tx1 where y1: "y = (cur1, tx1)" by (cases y)
  have ok: "tx_ok lim S state tx1 \<and> outputs_ok lim cur1"
    using Cons.prems by (intro flow_step_fold_ok [OF y [unfolded y1]]) (auto simp: stateful_ids_def)
  show ?case
  proof (cases "steps = []")
    case True
    with r y1 ok show ?thesis by simp
  next
    case False
    with Cons.prems ok r y1 show ?thesis
      by (intro Cons.IH [of cur1 tx1]) (auto simp: outputs_ok_def stateful_ids_def)
  qed
qed simp

text \<open>What a successful body of \<open>process\<close> did.\<close>

lemma flow_process_body_Inr:
  assumes "flow_process_body r rt = (Inr out, rt')"
  shows "\<exists>tx state bytes.
     fold_res (flow_step_fold (df_limits (fr_flow rt)) (fr_state rt)) (df_steps (fr_flow rt))
       ([r], begin_tx (fr_state rt) (fr_bytes rt)) = Inr (out, tx)
     \<and> commit_tx (fr_state rt) tx = (state, bytes)
     \<and> 0 \<le> fr_emitted rt + int (length out) \<and> fr_emitted rt + int (length out) \<le> MAX_COUNT
     \<and> rt' = rt\<lparr>fr_state := state, fr_bytes := bytes, fr_processed := fr_processed rt + 1,
               fr_emitted := fr_emitted rt + int (length out)\<rparr>"
proof -
  define F where "F = fold_res (flow_step_fold (df_limits (fr_flow rt)) (fr_state rt)) (df_steps (fr_flow rt))
       ([r], begin_tx (fr_state rt) (fr_bytes rt))"
  show ?thesis
  proof (cases F)
    case (Inl e)
    with assms show ?thesis by (simp add: flow_process_body_def F_def)
  next
    case (Inr y)
    obtain cur tx where y: "y = (cur, tx)" by (cases y)
    obtain state bytes where c: "commit_tx (fr_state rt) tx = (state, bytes)"
      by (cases "commit_tx (fr_state rt) tx")
    show ?thesis
      using assms Inr y c unfolding F_def flow_process_body_def
      by (auto simp: count_def split: if_splits)
  qed
qed

lemma flow_process_body_Inl: "flow_process_body r rt = (Inl e, rt') \<Longrightarrow> rt' = rt"
  by (auto simp: flow_process_body_def Let_def split: sum.splits prod.splits)

lemma flow_process_Inl: "flow_process r rt = (Inl e, rt') \<Longrightarrow> rt' = rt"
  by (cases "flow_process_body r (rt\<lparr>fr_busy := True\<rparr>)")
    (auto simp: flow_process_def split: if_splits sum.splits dest: flow_process_body_Inl)

lemma flow_process_Inr:
  assumes "flow_process r rt = (Inr out, rt')"
  shows "\<exists>tx state bytes.
     \<not> fr_busy rt \<and> rec_size r \<le> max_record_bytes (df_limits (fr_flow rt))
     \<and> fold_res (flow_step_fold (df_limits (fr_flow rt)) (fr_state rt)) (df_steps (fr_flow rt))
         ([r], begin_tx (fr_state rt) (fr_bytes rt)) = Inr (out, tx)
     \<and> commit_tx (fr_state rt) tx = (state, bytes)
     \<and> 0 \<le> fr_processed rt + 1 \<and> fr_processed rt + 1 \<le> MAX_COUNT
     \<and> 0 \<le> fr_emitted rt + int (length out) \<and> fr_emitted rt + int (length out) \<le> MAX_COUNT
     \<and> rt' = rt\<lparr>fr_state := state, fr_bytes := bytes, fr_processed := fr_processed rt + 1,
               fr_emitted := fr_emitted rt + int (length out)\<rparr>"
proof -
  obtain rt1 where nb: "\<not> fr_busy rt" and rec: "rec_size r \<le> max_record_bytes (df_limits (fr_flow rt))"
    and cnt: "0 \<le> fr_processed rt + 1" "fr_processed rt + 1 \<le> MAX_COUNT"
    and b: "flow_process_body r (rt\<lparr>fr_busy := True\<rparr>) = (Inr out, rt1)"
    and rt': "rt' = rt1\<lparr>fr_busy := False\<rparr>"
    using assms by (cases "flow_process_body r (rt\<lparr>fr_busy := True\<rparr>)")
      (auto simp: flow_process_def count_def split: if_splits)
  from flow_process_body_Inr [OF b] nb rec cnt rt' show ?thesis
    by auto
qed

lemma flow_process_ok:
  assumes inv: "flow_rt_inv rt" and r: "record_ok r" and p: "flow_process r rt = (Inr out, rt')"
  shows "flow_rt_inv rt' \<and> outputs_ok (df_limits (fr_flow rt)) out"
proof -
  define lim where "lim = df_limits (fr_flow rt)"
  define S where "S = stateful_ids (df_steps (fr_flow rt))"
  obtain tx state bytes where
    f: "fold_res (flow_step_fold lim (fr_state rt)) (df_steps (fr_flow rt))
         ([r], begin_tx (fr_state rt) (fr_bytes rt)) = Inr (out, tx)"
    and c: "commit_tx (fr_state rt) tx = (state, bytes)"
    and cnt: "0 \<le> fr_processed rt + 1" "fr_processed rt + 1 \<le> MAX_COUNT"
      "0 \<le> fr_emitted rt + int (length out)" "fr_emitted rt + int (length out) \<le> MAX_COUNT"
    and rt': "rt' = rt\<lparr>fr_state := state, fr_bytes := bytes, fr_processed := fr_processed rt + 1,
               fr_emitted := fr_emitted rt + int (length out)\<rparr>"
    using flow_process_Inr [OF p] by (auto simp: lim_def)
  have st: "state_ok lim S (fr_state rt) (fr_bytes rt)" and flow: "dataflow_ok (fr_flow rt)"
    using inv by (simp_all add: flow_rt_inv_def lim_def S_def)
  have o: "tx_ok lim S (fr_state rt) tx \<and> outputs_ok lim out"
    by (rule flow_steps_ok [OF f tx_ok_begin [OF st]])
      (use r flow in \<open>auto simp: S_def dataflow_ok_def lim_def\<close>)
  then have "state_ok lim S state bytes"
    using state_ok_commit [OF _ _ c] st by (auto simp: state_ok_def)
  with o inv cnt rt' show ?thesis by (simp add: flow_rt_inv_def lim_def S_def)
qed

text \<open>The runtime as an instance of the contract of \<open>Runtime\<close>.\<close>

interpretation flow: atomic_runtime flow_process flow_rt_inv record_ok
proof unfold_locales
  show "s' = s" if "flow_process p s = (Inl e, s')" for s p e s'
    using that by (rule flow_process_Inl)
  show "flow_rt_inv s'" if "flow_rt_inv s" "record_ok p" "flow_process p s = (Inr r, s')" for s p r s'
    using flow_process_ok [OF that] by simp
qed

section \<open>Checkpoint and restore\<close>

lemma flow_limits_bounds:
  "flow_limits_ok lim \<Longrightarrow> max_state_value_bytes lim \<le> MAX_RECORD"
  "flow_limits_ok lim \<Longrightarrow> max_state_keys lim \<le> 100000"
  "flow_limits_ok lim \<Longrightarrow> max_state_bytes lim \<le> MAX_CHECKPOINT_BYTES"
  by (simp_all add: flow_limits_ok_def MAX_RECORD_def MAX_CHECKPOINT_BYTES_def)

definition to_cell :: "state_key \<times> pystr \<Rightarrow> flow_cell" where
  "to_cell e = (case e of ((step, k), v) \<Rightarrow> (step, k, v))"

lemma to_cell_eq: "(\<lambda>((step, k), v). (step, k, v)) = to_cell"
  by (auto simp: to_cell_def fun_eq_iff)

lemma to_cell_simps [simp]:
  "cell_key (to_cell e) = fst e" "cell_text (to_cell e) = snd e"
  by (auto simp: to_cell_def split: prod.splits)

lemma state_cells_ok:
  assumes "state_ok lim S state bytes" "flow_limits_ok lim"
  defines "cells \<equiv> map to_cell (sort_key fst state)"
  shows "list_all cell_valid cells \<and> distinct (map cell_key cells) \<and> length cells \<le> 100000
    \<and> (\<Sum>c\<leftarrow>cells. byte_len (cell_text c)) = bytes \<and> bytes \<le> MAX_CHECKPOINT_BYTES"
proof -
  have d: "dict_ok state" using assms by (simp add: state_ok_def)
  have "cell_valid (to_cell e)" if "e \<in> set state" for e
  proof -
    obtain k t where e: "e = (k, t)" by (cases e)
    with that d have "dget state k = Some t" by (simp add: dict_ok_map_of_iff)
    with assms(1) have "cell_ok lim S k t" unfolding state_ok_def view_ok_def by blast
    with e assms flow_limits_bounds(1) [of lim] show ?thesis
      by (auto simp: cell_ok_def to_cell_def split: prod.splits)
  qed
  moreover have "distinct (map fst (sort_key fst state))"
    using sort_key_fst_perm(3) [OF d] by (simp add: dict_ok_def)
  ultimately show ?thesis
    using assms flow_limits_bounds(2,3) [of lim]
    by (auto simp: cells_def list_all_iff comp_def sort_key_fst_perm sum_list_sort_int state_ok_def)
qed

lemma fold_restore_cell:
  assumes "\<And>e. e \<in> set d \<Longrightarrow> fst (fst e) \<in> set ids \<and> byte_len (snd e) \<le> m"
    and "distinct (dkeys (st @ d))"
  shows "fold_res (restore_cell ids m) (map to_cell d) (st, b)
       = Inr (st @ d, b + (\<Sum>e\<leftarrow>d. byte_len (snd e)))"
  using assms
proof (induction d arbitrary: st b)
  case (Cons e d)
  obtain step k t where e: "e = ((step, k), t)" by (metis prod.collapse)
  have "restore_cell ids m (to_cell e) (st, b) = Inr (dput (step, k) t st, b + byte_len t)"
    using Cons.prems(1) [of e] by (simp add: e to_cell_def restore_cell_def)
  moreover have "dput (step, k) t st = st @ [e]"
    using Cons.prems(2) by (simp add: e dput_new)
  ultimately show ?case
    using Cons.IH [of "st @ [e]" "b + byte_len t"] Cons.prems by (simp add: e add.assoc)
qed simp

definition flow_restored :: "flow_runtime \<Rightarrow> flow_runtime" where
  "flow_restored rt = rt\<lparr>fr_state := sort_key fst (fr_state rt)\<rparr>"

definition flow_saved :: "flow_runtime \<Rightarrow> flow_checkpoint" where
  "flow_saved rt =
     \<lparr>cp_identity = dataflow_identity (fr_flow rt), cp_processed = fr_processed rt,
      cp_emitted = fr_emitted rt, cp_cells = map to_cell (sort_key fst (fr_state rt))\<rparr>"

lemma flow_saved_ok:
  assumes "flow_rt_inv rt"
  shows "checkpoint_ok (flow_saved rt)"
proof -
  have "state_ok (df_limits (fr_flow rt)) (stateful_ids (df_steps (fr_flow rt))) (fr_state rt) (fr_bytes rt)"
    and "flow_limits_ok (df_limits (fr_flow rt))"
    using assms by (simp_all add: flow_rt_inv_def dataflow_ok_def)
  from state_cells_ok [OF this] show ?thesis
    using assms by (simp add: checkpoint_ok_def flow_saved_def flow_rt_inv_def dataflow_identity_def
        ascii_digest_def sha256_hex_is_hex64)
qed

lemma flow_checkpoint_of_eq:
  "flow_rt_inv rt \<Longrightarrow> flow_checkpoint_of rt = Inr (flow_saved rt)"
  using flow_saved_ok [of rt]
  by (simp add: flow_checkpoint_of_def flow_rt_inv_def flow_checkpoint_check_iff flow_saved_def
      to_cell_eq)

lemma fold_restore_sorted:
  assumes st: "state_ok lim (stateful_ids steps) state bytes"
  shows "fold_res (restore_cell (map step_id (filter (\<lambda>s. is_stateful (step_op s)) steps))
           (max_state_value_bytes lim)) (map to_cell (sort_key fst state)) ([], 0)
       = Inr (sort_key fst state, bytes)"
proof -
  define d where "d = sort_key fst state"
  have dd: "dict_ok d" and bytes: "(\<Sum>e\<leftarrow>d. byte_len (snd e)) = bytes"
    using st by (simp_all add: d_def state_ok_def sort_key_fst_perm sum_list_sort_int)
  have mem: "fst (fst e) \<in> set (map step_id (filter (\<lambda>s. is_stateful (step_op s)) steps))
      \<and> byte_len (snd e) \<le> max_state_value_bytes lim" if "e \<in> set d" for e
  proof -
    have "dget state (fst e) = Some (snd e)"
      using that st by (simp add: d_def sort_key_fst_perm state_ok_def dict_ok_map_of_iff)
    then have "cell_ok lim (stateful_ids steps) (fst e) (snd e)"
      using st unfolding state_ok_def view_ok_def by blast
    then show ?thesis by (auto simp: cell_ok_def stateful_ids_def)
  qed
  show ?thesis
    using fold_restore_cell [of d _ _ "[]" 0, OF mem] dd bytes by (simp add: dict_ok_def d_def)
qed

lemma flow_from_checkpoint_saved:
  assumes inv: "flow_rt_inv rt"
  shows "flow_from_checkpoint (fr_flow rt) (flow_saved rt) = Inr (flow_restored rt)"
proof -
  have st: "state_ok (df_limits (fr_flow rt)) (stateful_ids (df_steps (fr_flow rt))) (fr_state rt) (fr_bytes rt)"
    and ok: "dataflow_ok (fr_flow rt)" and nb: "\<not> fr_busy rt"
    using inv by (simp_all add: flow_rt_inv_def)
  have "int (length (sort_key fst (fr_state rt))) \<le> max_state_keys (df_limits (fr_flow rt))"
    "fr_bytes rt \<le> max_state_bytes (df_limits (fr_flow rt))"
    using st by (simp_all add: sort_key_fst_perm state_ok_def)
  then show ?thesis
    using flow_saved_ok [OF inv] ok nb fold_restore_sorted [OF st]
    by (simp add: flow_from_checkpoint_def make_flow_runtime_def checkpoint_to_dict_ok
        checkpoint_from_dict_ok)
      (simp add: flow_saved_def flow_restored_def)
qed

section \<open>Runtimes that answer alike\<close>

text \<open>The order of the state dict is not observable.\<close>

definition flow_alike :: "flow_runtime \<Rightarrow> flow_runtime \<Rightarrow> bool" where
  "flow_alike rt rt' \<longleftrightarrow>
     rt' = rt\<lparr>fr_state := fr_state rt'\<rparr> \<and> dict_ok (fr_state rt) \<and> dict_ok (fr_state rt')
     \<and> dget (fr_state rt') = dget (fr_state rt)"

lemma previous_state_base: "dget base = dget base' \<Longrightarrow> previous_state base = previous_state base'"
  by (intro ext) (simp only: previous_state_def)

lemma apply_step_base:
  assumes "dget base = dget base'"
  shows "apply_step lim hk base step cur s = apply_step lim hk base' step cur s"
proof -
  have "apply_item lim hk base step = apply_item lim hk base' step"
    by (intro ext) (simp only: apply_item_def apply_stateful_def previous_state_base [OF assms])
  then show ?thesis by (simp add: apply_step_def)
qed

lemma dict_length_eq: "dict_ok d \<Longrightarrow> dict_ok d' \<Longrightarrow> dget d = dget d' \<Longrightarrow> length d = length d'"
  using distinct_card [of "dkeys d"] distinct_card [of "dkeys d'"]
  by (simp add: dict_ok_def flip: dom_map_of_conv_image_fst)

lemma commit_cells_alike:
  "dget st = dget st' \<Longrightarrow> dget (commit_cells p st) = dget (commit_cells p st')"
  by (induction p st arbitrary: st' rule: commit_cells.induct) (simp_all del: fun_upd_apply)

lemma begin_tx_alike:
  "dict_ok st \<Longrightarrow> dict_ok st' \<Longrightarrow> dget st = dget st' \<Longrightarrow> begin_tx st b = begin_tx st' b"
  by (simp add: begin_tx_def dict_length_eq [of st st'])

lemma flow_step_fold_base: "dget st = dget st' \<Longrightarrow> flow_step_fold lim st = flow_step_fold lim st'"
  by (simp add: flow_step_fold_def apply_step_base [of st st'] fun_eq_iff)

lemma flow_process_body_alike:
  assumes "flow_alike rt rt'"
  shows "fst (flow_process_body r rt) = fst (flow_process_body r rt')
    \<and> flow_alike (snd (flow_process_body r rt)) (snd (flow_process_body r rt'))"
proof -
  define st where "st = fr_state rt"
  define st' where "st' = fr_state rt'"
  have rt': "rt' = rt\<lparr>fr_state := st'\<rparr>" and ok: "dict_ok st" "dict_ok st'" and m: "dget st = dget st'"
    using assms by (simp_all add: flow_alike_def st_def st'_def)
  define F where "F = fold_res (flow_step_fold (df_limits (fr_flow rt)) st) (df_steps (fr_flow rt))
       ([r], begin_tx st (fr_bytes rt))"
  have F': "fold_res (flow_step_fold (df_limits (fr_flow rt)) st') (df_steps (fr_flow rt))
       ([r], begin_tx st' (fr_bytes rt)) = F"
    unfolding F_def flow_step_fold_base [OF m] begin_tx_alike [OF ok m] ..
  show ?thesis
  proof (cases F)
    case (Inl e)
    with assms F' show ?thesis
      by (simp add: flow_process_body_def F_def rt' st_def)
  next
    case (Inr y)
    obtain cur tx where y: "y = (cur, tx)" by (cases y)
    have alike: "dget (commit_cells (tx_pending tx) st) = dget (commit_cells (tx_pending tx) st')"
      by (rule commit_cells_alike) (rule m)
    from Inr F' y alike ok assms show ?thesis
      by (simp add: flow_process_body_def F_def rt' st_def commit_tx_def flow_alike_def count_def
          dict_ok_commit_cells del: fun_upd_apply split_paired_All)
  qed
qed

lemma flow_process_alike:
  assumes "flow_alike rt rt'"
  shows "fst (flow_process r rt) = fst (flow_process r rt')
    \<and> flow_alike (snd (flow_process r rt)) (snd (flow_process r rt'))"
proof -
  have rt': "rt' = rt\<lparr>fr_state := fr_state rt'\<rparr>" using assms by (simp add: flow_alike_def)
  have same: "fr_busy rt' = fr_busy rt" "fr_flow rt' = fr_flow rt" "fr_processed rt' = fr_processed rt"
    by (subst rt', simp)+
  have b: "flow_alike (rt\<lparr>fr_busy := True\<rparr>) (rt'\<lparr>fr_busy := True\<rparr>)"
    using assms by (cases rt, cases rt') (simp add: flow_alike_def)
  have unbusy: "flow_alike (x\<lparr>fr_busy := False\<rparr>) (x'\<lparr>fr_busy := False\<rparr>)" if "flow_alike x x'" for x x'
    using that by (cases x, cases x') (simp add: flow_alike_def)
  show ?thesis
    using flow_process_body_alike [OF b, of r] assms
    by (auto simp: flow_process_def same count_def split_def Let_def intro!: unbusy)
qed

lemma flow_alike_restored: "flow_rt_inv rt \<Longrightarrow> flow_alike rt (flow_restored rt)"
  by (simp add: flow_alike_def flow_restored_def flow_rt_inv_def state_ok_def sort_key_fst_perm
      dget_sort_key)

section \<open>Properties\<close>

lemma count_rt_inv: "flow_rt_inv count_rt"
  using make_flow_runtime_inv [OF make_count_rt] by simp

lemma count_apply:
  "apply_step default_flow_limits no_tx_hooks [(([110], [108]), [50])] count_step [sample_record 107]
     (begin_tx [(([110], [108]), [50])] 1, ())
   = Inr ([sample_record 107],
       \<lparr>tx_pending = [(([110], [107]), Some [49])], tx_keys = 2, tx_bytes = 2, tx_calls = 2\<rparr>, ())"
  by (simp add: eval_step count_step_def sample_record_def lit_simps)

definition count_tx :: flow_tx where
  "count_tx = \<lparr>tx_pending = [(([110], [107]), Some [49])], tx_keys = 1, tx_bytes = 1, tx_calls = 2\<rparr>"

lemma count_apply_empty:
  "apply_step default_flow_limits no_tx_hooks [] count_step [sample_record 107] (begin_tx [] 0, ())
   = Inr ([sample_record 107], count_tx, ())"
  by (simp add: eval_step count_step_def sample_record_def lit_simps count_tx_def)

text \<open>C1: a successful \<open>process\<close> keeps the invariant of the runtime (every cell is canonical
  JSON within its limit under a stateful step and a label key, the byte total is exact, the
  totals respect the limits), counts the input and its outputs, and emits only records
  within the output limits.\<close>
theorem flow_process_sound:
  assumes "flow_rt_inv rt" "record_ok r" "flow_process r rt = (Inr out, rt')"
  shows "flow_rt_inv rt' \<and> fr_flow rt' = fr_flow rt \<and> outputs_ok (df_limits (fr_flow rt)) out
    \<and> fr_processed rt' = fr_processed rt + 1 \<and> fr_emitted rt' = fr_emitted rt + int (length out)"
  using flow_process_ok [OF assms] flow_process_Inr [OF assms(3)] by auto

theorem flow_process_sound_witness:
  "flow_rt_inv (snd (flow_process (sample_record 107) count_rt))
   \<and> fr_flow (snd (flow_process (sample_record 107) count_rt)) = fr_flow count_rt
   \<and> outputs_ok (df_limits (fr_flow count_rt)) [sample_record 107]
   \<and> fr_processed (snd (flow_process (sample_record 107) count_rt)) = fr_processed count_rt + 1
   \<and> fr_emitted (snd (flow_process (sample_record 107) count_rt))
       = fr_emitted count_rt + int (length [sample_record 107])"
  by (rule flow_process_sound [of _ "sample_record 107"])
    (simp_all add: count_rt_inv sample_record_ok count_process)

text \<open>C2: failed inputs can be erased from a run: replaying only the inputs that succeeded
  gives the same answers and the same final runtime.\<close>
theorem flow_failures_erased:
  assumes "flow_rt_inv rt" "list_all record_ok rs"
  shows "run_ops flow_process (committed flow_process rs rt) rt
       = (filter succeeded (fst (run_ops flow_process rs rt)), snd (run_ops flow_process rs rt))"
  using assms by (rule flow.run_committed)

theorem flow_failures_erased_witness:
  "run_ops flow_process (committed flow_process [keyless_record, sample_record 107] count_rt) count_rt
   = (filter succeeded (fst (run_ops flow_process [keyless_record, sample_record 107] count_rt)),
      snd (run_ops flow_process [keyless_record, sample_record 107] count_rt))"
  by (rule flow_failures_erased) (simp_all add: count_rt_inv sample_record_ok)

text \<open>C3: a checkpoint of a runtime always succeeds, and its document, written as JSON text
  and read back, restores the runtime with its cells in sorted order.\<close>
theorem flow_checkpoint_roundtrip:
  assumes "flow_rt_inv rt"
  shows "\<exists>c doc. flow_checkpoint_of rt = Inr c \<and> flow_checkpoint_to_dict flow_kind c = Inr doc
    \<and> rbind (loads h (dumps doc)) (\<lambda>d. rbind (flow_checkpoint_from_dict flow_kind d)
        (flow_from_checkpoint (fr_flow rt))) = Inr (rt\<lparr>fr_state := sort_key fst (fr_state rt)\<rparr>)"
  using assms flow_saved_ok [OF assms]
  by (intro exI [of _ "flow_saved rt"] exI [of _ "checkpoint_json flow_kind (flow_saved rt)"])
    (simp add: flow_checkpoint_of_eq checkpoint_to_dict_ok loads_dumps json_wf_checkpoint
      checkpoint_from_dict_ok flow_from_checkpoint_saved flow_restored_def)

theorem flow_checkpoint_roundtrip_witness:
  "\<exists>c doc. flow_checkpoint_of count_rt = Inr c \<and> flow_checkpoint_to_dict flow_kind c = Inr doc
    \<and> rbind (loads strict_hooks (dumps doc)) (\<lambda>d. rbind (flow_checkpoint_from_dict flow_kind d)
        (flow_from_checkpoint (fr_flow count_rt))) = Inr (count_rt\<lparr>fr_state := sort_key fst (fr_state count_rt)\<rparr>)"
  by (rule flow_checkpoint_roundtrip) (rule count_rt_inv)

text \<open>C4: recovery is transparent: the runtime restored from a checkpoint answers every later
  sequence of inputs as the original does, and ends with the same keyed state.\<close>
theorem flow_recovery_transparent:
  assumes "flow_rt_inv rt" "flow_checkpoint_of rt = Inr c"
    and "flow_from_checkpoint (fr_flow rt) c = Inr rt'"
  shows "fst (run_ops flow_process rs rt') = fst (run_ops flow_process rs rt)
    \<and> dget (fr_state (snd (run_ops flow_process rs rt'))) = dget (fr_state (snd (run_ops flow_process rs rt)))
    \<and> fr_bytes (snd (run_ops flow_process rs rt')) = fr_bytes (snd (run_ops flow_process rs rt))
    \<and> fr_emitted (snd (run_ops flow_process rs rt')) = fr_emitted (snd (run_ops flow_process rs rt))"
proof -
  have "c = flow_saved rt" using assms by (simp add: flow_checkpoint_of_eq)
  then have "rt' = flow_restored rt" using assms by (simp add: flow_from_checkpoint_saved)
  then have "flow_alike rt rt'" using assms(1) by (simp add: flow_alike_restored)
  then have "fst (run_ops flow_process rs rt) = fst (run_ops flow_process rs rt')
    \<and> flow_alike (snd (run_ops flow_process rs rt)) (snd (run_ops flow_process rs rt'))"
    by (rule run_ops_sim) (rule flow_process_alike)
  then have 1: "fst (run_ops flow_process rs rt) = fst (run_ops flow_process rs rt')"
    and 2: "flow_alike (snd (run_ops flow_process rs rt)) (snd (run_ops flow_process rs rt'))" by auto
  from 2 have "fr_bytes (snd (run_ops flow_process rs rt')) = fr_bytes (snd (run_ops flow_process rs rt))
     \<and> fr_emitted (snd (run_ops flow_process rs rt')) = fr_emitted (snd (run_ops flow_process rs rt))"
    by (cases "snd (run_ops flow_process rs rt)", cases "snd (run_ops flow_process rs rt')")
      (simp add: flow_alike_def)
  with 1 2 show ?thesis by (simp add: flow_alike_def)
qed

theorem flow_recovery_transparent_witness:
  "fst (run_ops flow_process [sample_record 107] (flow_restored count_rt))
     = fst (run_ops flow_process [sample_record 107] count_rt)
   \<and> dget (fr_state (snd (run_ops flow_process [sample_record 107] (flow_restored count_rt))))
     = dget (fr_state (snd (run_ops flow_process [sample_record 107] count_rt)))
   \<and> fr_bytes (snd (run_ops flow_process [sample_record 107] (flow_restored count_rt)))
     = fr_bytes (snd (run_ops flow_process [sample_record 107] count_rt))
   \<and> fr_emitted (snd (run_ops flow_process [sample_record 107] (flow_restored count_rt)))
     = fr_emitted (snd (run_ops flow_process [sample_record 107] count_rt))"
  by (rule flow_recovery_transparent [OF count_rt_inv flow_checkpoint_of_eq [OF count_rt_inv]
        flow_from_checkpoint_saved [OF count_rt_inv]])

text \<open>C5: operators are isolated: a step writes only cells under its own id and the keys of
  the records it received, and an operator without state writes none.\<close>
theorem flow_step_isolation:
  assumes "apply_step lim hk base step current (tx, h) = Inr (out, tx', h')"
    and "is_stateful (step_op step) \<Longrightarrow> k \<notin> step_keys step current"
  shows "previous_state base tx' k = previous_state base tx k"
  using assms by (rule apply_step_frame)

theorem flow_step_isolation_witness:
  "previous_state [(([110], [108]), [50])]
     \<lparr>tx_pending = [(([110], [107]), Some [49])], tx_keys = 2, tx_bytes = 2, tx_calls = 2\<rparr> ([110], [108])
   = previous_state [(([110], [108]), [50])] (begin_tx [(([110], [108]), [50])] 1) ([110], [108])"
  by (rule flow_step_isolation [OF count_apply]) (simp add: step_keys_def sample_record_def)

text \<open>The accounting of a transaction is exact: after every operator the key and byte
  counters are those of the state that a commit would publish, and within the limits.\<close>
lemma flow_transaction_accounting:
  assumes "apply_step lim hk base step current (tx, h) = Inr (out, tx', h')"
    and "tx_ok lim S base tx" "list_all record_ok current"
    and "flow_step_ok step" "is_stateful (step_op step) \<Longrightarrow> step_id step \<in> S"
    and "flow_limits_ok lim" "dict_ok base"
  shows "tx_keys tx' = int (length (fst (commit_tx base tx')))
    \<and> tx_bytes tx' = (\<Sum>e\<leftarrow>fst (commit_tx base tx'). byte_len (snd e))
    \<and> tx_keys tx' \<le> max_state_keys lim \<and> tx_bytes tx' \<le> max_state_bytes lim"
proof -
  have tx: "tx_ok lim S base tx'" using apply_step_ok [OF assms(1-6)] by simp
  have "dict_ok (fst (commit_tx base tx'))"
    using assms(7) by (simp add: commit_tx_def dict_ok_commit_cells)
  moreover have "dget (fst (commit_tx base tx')) = previous_state base tx'"
    using tx by (simp add: tx_ok_def dget_commit_tx)
  ultimately show ?thesis
    using tx key_total_dget [of "fst (commit_tx base tx')"] byte_total_dget [of "fst (commit_tx base tx')"]
    by (simp add: tx_ok_def)
qed

end
