(* ===== verification/Branching.thy ===== *)
theory Branching
  imports Flow_Runtime_Laws
begin

text \<open>
  \<open>branching.py\<close>: graphs of operators with branches and merges, their validation and
  execution order, the walk that single-entry, multi-entry and window graphs share, and
  \<open>GraphRuntime\<close>.
\<close>

section \<open>Declarations\<close>

text \<open>\<open>GOther\<close> stands for a node of any other type, which the walk hands to its extension.\<close>

datatype 'x graph_node =
    GStep flow_step
  | GBranch pystr callback
  | GMerge pystr
  | GOther pystr 'x

fun node_id :: "'x graph_node \<Rightarrow> pystr" where
  "node_id (GStep s) = step_id s"
| "node_id (GBranch i f) = i"
| "node_id (GMerge i) = i"
| "node_id (GOther i x) = i"

fun graph_node_ok :: "'x graph_node \<Rightarrow> bool" where
  "graph_node_ok (GStep s) = flow_step_ok s"
| "graph_node_ok (GBranch i f) = is_label i"
| "graph_node_ok (GMerge i) = is_label i"
| "graph_node_ok (GOther i x) = False"

fun node_operator :: "'x graph_node \<Rightarrow> string" where
  "node_operator (GStep s) = operator_name (step_op s)"
| "node_operator (GBranch i f) = ''branch''"
| "node_operator _ = ''merge''"

record flow_edge =
  edge_source :: pystr
  edge_target :: pystr
  edge_route :: "bool option"

definition flow_edge_ok :: "flow_edge \<Rightarrow> bool" where
  "flow_edge_ok e \<longleftrightarrow> is_label (edge_source e) \<and> is_label (edge_target e)"

record graph_limits =
  operator_limits :: flow_limits
  max_work_records :: int
  max_work_bytes :: int

definition graph_limits_ok :: "graph_limits \<Rightarrow> bool" where
  "graph_limits_ok l \<longleftrightarrow>
     flow_limits_ok (operator_limits l)
     \<and> 1 \<le> max_work_records l \<and> max_work_records l \<le> 1000000
     \<and> 1 \<le> max_work_bytes l \<and> max_work_bytes l \<le> 256 * 1024 * 1024"

definition graph_limits_doc :: "graph_limits \<Rightarrow> json" where
  "graph_limits_doc l = JObj
     [jfield ''operator_limits'' (flow_limits_doc (operator_limits l)),
      jfield ''max_work_records'' (JInt (max_work_records l)),
      jfield ''max_work_bytes'' (JInt (max_work_bytes l))]"

record graph_dataflow =
  gd_flow_id :: pystr
  gd_revision :: pystr
  gd_nodes :: "unit graph_node list"
  gd_edges :: "flow_edge list"
  gd_entry :: pystr
  gd_limits :: graph_limits

definition edges_into :: "'e flow_edge_scheme list \<Rightarrow> pystr \<Rightarrow> 'e flow_edge_scheme list" where
  "edges_into es k = filter (\<lambda>e. edge_target e = k) es"

definition edges_from :: "'e flow_edge_scheme list \<Rightarrow> pystr \<Rightarrow> 'e flow_edge_scheme list" where
  "edges_from es k = filter (\<lambda>e. edge_source e = k) es"

section \<open>The execution order\<close>

text \<open>\<open>_topological_order\<close>: repeatedly the earliest declared node whose sources are done.\<close>

definition node_ready :: "(pystr \<Rightarrow> 'e flow_edge_scheme list) \<Rightarrow> pystr list \<Rightarrow> pystr \<Rightarrow> bool" where
  "node_ready incoming order k \<longleftrightarrow> list_all (\<lambda>e. edge_source e \<in> set order) (incoming k)"

function topological_loop :: "(pystr \<Rightarrow> 'e flow_edge_scheme list) \<Rightarrow> pystr list \<Rightarrow> pystr list
    \<Rightarrow> pystr list res" where
  "topological_loop incoming order remaining =
     (if remaining = [] then Inr order
      else (case find (node_ready incoming order) remaining of
              None \<Rightarrow> Inl ValidationError
            | Some k \<Rightarrow> topological_loop incoming (order @ [k]) (remove1 k remaining)))"
  by pat_completeness auto
termination
  by (relation "measure (\<lambda>(_, _, remaining). length remaining)")
    (auto simp: find_Some_iff length_remove1 dest: nth_mem)

declare topological_loop.simps [simp del]

definition dict_fromkeys :: "pystr list \<Rightarrow> pystr list" where
  "dict_fromkeys ids = rev (remdups (rev ids))"

definition topological_order :: "pystr list \<Rightarrow> (pystr \<Rightarrow> 'e flow_edge_scheme list) \<Rightarrow> pystr list res" where
  "topological_order ids incoming = topological_loop incoming [] (dict_fromkeys ids)"

text \<open>The nodes reached from the entry, in one pass over the order.\<close>

definition mark_targets :: "(pystr \<Rightarrow> 'e flow_edge_scheme list) \<Rightarrow> pystr \<Rightarrow> pystr list \<Rightarrow> pystr list" where
  "mark_targets outgoing k reachable =
     (if k \<in> set reachable then map edge_target (outgoing k) @ reachable else reachable)"

definition node_arity_ok :: "flow_edge list \<Rightarrow> pystr \<Rightarrow> unit graph_node \<Rightarrow> bool" where
  "node_arity_ok es entry node \<longleftrightarrow>
     (let ins = edges_into es (node_id node); outs = edges_from es (node_id node)
      in (case node of
            GMerge i \<Rightarrow> 2 \<le> length ins
          | _ \<Rightarrow> length ins = (if node_id node = entry then 0 else 1))
         \<and> (case node of
              GBranch i f \<Rightarrow> set (map edge_route outs) = {Some True, Some False}
            | _ \<Rightarrow> list_all (\<lambda>e. edge_route e = None) outs))"

definition graph_check :: "graph_dataflow \<Rightarrow> pystr list res" where
  "graph_check g =
     (let ids = map node_id (gd_nodes g); es = gd_edges g
      in if \<not> (is_label (gd_flow_id g) \<and> is_label (gd_revision g) \<and> is_label (gd_entry g))
         then Inl ValidationError
         else if \<not> (1 \<le> length ids \<and> length ids \<le> 64) then Inl ValidationError
         else if \<not> list_all graph_node_ok (gd_nodes g) then Inl ValidationError
         else if \<not> distinct ids then Inl ValidationError
         else if gd_entry g \<notin> set ids then Inl ValidationError
         else if 256 < length es then Inl ValidationError
         else if \<not> list_all (\<lambda>e. flow_edge_ok e \<and> edge_source e \<in> set ids \<and> edge_target e \<in> set ids) es
         then Inl ValidationError
         else if \<not> distinct es then Inl ValidationError
         else rbind (topological_order ids (edges_into es)) (\<lambda>order.
           if set (fold (mark_targets (edges_from es)) order [gd_entry g]) \<noteq> set ids
           then Inl ValidationError
           else if \<not> list_all (node_arity_ok es (gd_entry g)) (gd_nodes g) then Inl ValidationError
           else if \<not> graph_limits_ok (gd_limits g) then Inl ValidationError
           else Inr order))"

definition node_doc :: "unit graph_node \<Rightarrow> json" where
  "node_doc n = JObj [jfield ''step_id'' (JStr (node_id n)), jfield ''operator'' (JStr (lit (node_operator n)))]"

definition edge_doc :: "flow_edge \<Rightarrow> json" where
  "edge_doc e = JObj
     [jfield ''source'' (JStr (edge_source e)), jfield ''target'' (JStr (edge_target e)),
      jfield ''route'' (case edge_route e of None \<Rightarrow> JNull | Some b \<Rightarrow> JBool b)]"

definition graph_to_dict :: "graph_dataflow \<Rightarrow> json" where
  "graph_to_dict g = JObj
     [jfield ''kind'' (JStr (lit ''stream-quilt-graph'')), jfield ''schema_version'' (JStr (lit ''1.0'')),
      jfield ''flow_id'' (JStr (gd_flow_id g)), jfield ''revision'' (JStr (gd_revision g)),
      jfield ''entry'' (JStr (gd_entry g)),
      jfield ''nodes'' (JArr (map node_doc (gd_nodes g))),
      jfield ''edges'' (JArr (map edge_doc (gd_edges g))),
      jfield ''limits'' (graph_limits_doc (gd_limits g))]"

definition graph_identity :: "graph_dataflow \<Rightarrow> pystr" where
  "graph_identity g = ascii_digest (graph_to_dict g)"

section \<open>The walk\<close>

record graph_output =
  out_step :: pystr
  out_record :: flow_record

text \<open>
  The state of a walk: mailboxes of the edges, published outputs, the transaction, and the
  caller's own state \<open>'h\<close> (work budgets), which \<open>charge\<close>, \<open>delivered\<close> and the extension thread.
\<close>

record ('e, 'h) walk_state =
  ws_mail :: "('e flow_edge_scheme, flow_record list) dict"
  ws_published :: "graph_output list"
  ws_tx :: flow_tx
  ws_hook :: 'h

type_synonym routed = "(bool option, flow_record list) dict"

text \<open>The parameters of \<open>_walk_graph\<close>; the hooks are those of the transaction and \<open>charge\<close>.\<close>

record ('x, 'e, 'h) walk_params =
  wp_limits :: flow_limits
  wp_base :: "(state_key, pystr) dict"
  wp_nodes :: "pystr \<Rightarrow> 'x graph_node"
  wp_incoming :: "pystr \<Rightarrow> 'e flow_edge_scheme list"
  wp_outgoing :: "pystr \<Rightarrow> 'e flow_edge_scheme list"
  wp_seeds :: "(pystr, flow_record list) dict"
  wp_hooks :: "'h hooks"
  wp_extension :: "(pystr \<Rightarrow> ('e flow_edge_scheme \<times> flow_record list) list \<Rightarrow> flow_tx \<times> 'h
     \<Rightarrow> (flow_record list \<times> flow_tx \<times> 'h) res) option"
  wp_seed_outputs :: "(pystr, flow_record list) dict"
  wp_delivered :: "'e flow_edge_scheme \<Rightarrow> nat \<Rightarrow> 'h \<Rightarrow> 'h res"

abbreviation charge :: "('x, 'e, 'h) walk_params \<Rightarrow> flow_record \<Rightarrow> 'h \<Rightarrow> 'h res" where
  "charge w \<equiv> on_emit (wp_hooks w)"

definition branch_item :: "('x, 'e, 'h) walk_params \<Rightarrow> callback \<Rightarrow> flow_record
    \<Rightarrow> (flow_record list \<times> flow_record list) \<times> flow_tx \<times> 'h
    \<Rightarrow> ((flow_record list \<times> flow_record list) \<times> flow_tx \<times> 'h) res" where
  "branch_item w f item s =
     (let ((yes, no), tx, h) = s
      in rbind (rec_value item) (\<lambda>v.
         rbind (invoke (wp_limits w) (Some f) [v] tx) (\<lambda>(route, tx).
           (case route of
              PBool b \<Rightarrow> rbind (charge w item h) (\<lambda>h.
                Inr (if b then (yes @ [item], no) else (yes, no @ [item]), tx, h))
            | _ \<Rightarrow> Inl ValidationError))))"

definition node_input :: "('x, 'e, 'h) walk_params \<Rightarrow> pystr
    \<Rightarrow> ('e flow_edge_scheme \<times> flow_record list) list \<Rightarrow> flow_record list" where
  "node_input w k batches =
     (case dget (wp_seeds w) k of None \<Rightarrow> [] | Some rs \<Rightarrow> rs) @ concat (map snd batches)"

definition run_node :: "('x, 'e, 'h) walk_params \<Rightarrow> pystr
    \<Rightarrow> ('e flow_edge_scheme \<times> flow_record list) list \<Rightarrow> flow_tx \<times> 'h \<Rightarrow> (routed \<times> flow_tx \<times> 'h) res" where
  "run_node w k batches s =
     (case dget (wp_seed_outputs w) k of
        Some batch \<Rightarrow> rbind (fold_res (charge w) batch (snd s)) (\<lambda>h. Inr ([(None, batch)], fst s, h))
      | None \<Rightarrow>
          (case wp_nodes w k of
             GStep step \<Rightarrow>
               rbind (apply_step (wp_limits w) (wp_hooks w) (wp_base w) step (node_input w k batches) s)
                 (\<lambda>(out, tx, h). Inr ([(None, out)], tx, h))
           | GBranch i f \<Rightarrow>
               rbind (fold_res (branch_item w f) (node_input w k batches) (([], []), s))
                 (\<lambda>((yes, no), tx, h). Inr ([(Some True, yes), (Some False, no)], tx, h))
           | GMerge i \<Rightarrow>
               rbind (fold_res (charge w) (node_input w k batches) (snd s))
                 (\<lambda>h. Inr ([(None, node_input w k batches)], fst s, h))
           | GOther i x \<Rightarrow>
               (case wp_extension w of
                  None \<Rightarrow> Inl ValidationError
                | Some f \<Rightarrow> rbind (f k batches s) (\<lambda>(out, tx, h). Inr ([(None, out)], tx, h)))))"

definition deliver :: "('x, 'e, 'h) walk_params \<Rightarrow> routed \<Rightarrow> 'e flow_edge_scheme
    \<Rightarrow> ('e flow_edge_scheme, flow_record list) dict \<times> 'h
    \<Rightarrow> (('e flow_edge_scheme, flow_record list) dict \<times> 'h) res" where
  "deliver w routed e s =
     (case dget routed (edge_route e) of
        None \<Rightarrow> Inl KeyError
      | Some batch \<Rightarrow>
          rbind (wp_delivered w e (length batch) (snd s)) (\<lambda>h.
          rbind (fold_res (charge w) batch h) (\<lambda>h. Inr (dput e batch (fst s), h))))"

definition take_mail :: "'e flow_edge_scheme list \<Rightarrow> ('e flow_edge_scheme, flow_record list) dict
    \<Rightarrow> ('e flow_edge_scheme \<times> flow_record list) list" where
  "take_mail es mail = map (\<lambda>e. (e, case dget mail e of None \<Rightarrow> [] | Some rs \<Rightarrow> rs)) es"

definition walk_node_body :: "('x, 'e, 'h) walk_params \<Rightarrow> pystr \<Rightarrow> ('e, 'h) walk_state
    \<Rightarrow> ('e, 'h) walk_state res" where
  "walk_node_body w k s =
     (let batches = take_mail (wp_incoming w k) (ws_mail s);
          mail = fold ddel (wp_incoming w k) (ws_mail s)
      in rbind (run_node w k batches (ws_tx s, ws_hook s)) (\<lambda>(routed, tx, h).
         rbind (fold_res (deliver w routed) (wp_outgoing w k) (mail, h)) (\<lambda>(mail, h).
           if wp_outgoing w k = []
           then (case dget routed None of
                   None \<Rightarrow> Inl KeyError
                 | Some out \<Rightarrow> Inr \<lparr>ws_mail = mail,
                     ws_published = ws_published s @ map (\<lambda>r. \<lparr>out_step = k, out_record = r\<rparr>) out,
                     ws_tx = tx, ws_hook = h\<rparr>)
           else Inr \<lparr>ws_mail = mail, ws_published = ws_published s, ws_tx = tx, ws_hook = h\<rparr>)))"

definition walk_node :: "('x, 'e, 'h) walk_params \<Rightarrow> pystr \<Rightarrow> ('e, 'h) walk_state
    \<Rightarrow> ('e, 'h) walk_state res" where
  "walk_node w k s =
     (case walk_node_body w k s of
        Inl _ \<Rightarrow> Inl (FlowExecutionError k) | Inr s \<Rightarrow> Inr s)"

definition walk_graph :: "('x, 'e, 'h) walk_params \<Rightarrow> pystr list \<Rightarrow> flow_tx \<times> 'h
    \<Rightarrow> (graph_output list \<times> flow_tx \<times> 'h) res" where
  "walk_graph w order s =
     rbind (fold_res (walk_node w) order
        \<lparr>ws_mail = [], ws_published = [], ws_tx = fst s, ws_hook = snd s\<rparr>) (\<lambda>s.
       Inr (ws_published s, ws_tx s, ws_hook s))"

section \<open>The graph runtime\<close>

definition graph_kind :: string where "graph_kind = ''stream-quilt-graph-checkpoint''"

definition graph_checkpoint_to_dict :: "flow_checkpoint \<Rightarrow> json res" where
  "graph_checkpoint_to_dict c =
     rbind (flow_checkpoint_to_dict flow_kind c) (\<lambda>doc.
       (case doc of JObj kvs \<Rightarrow> Inr (JObj (dput (lit ''kind'') (JStr (lit graph_kind)) kvs))
        | _ \<Rightarrow> Inl ValidationError))"

definition graph_checkpoint_from_dict :: "json \<Rightarrow> flow_checkpoint res" where
  "graph_checkpoint_from_dict doc =
     (case doc of
        JObj kvs \<Rightarrow>
          if dget kvs (lit ''kind'') \<noteq> Some (JStr (lit graph_kind)) then Inl ValidationError
          else rbind (flow_checkpoint_from_dict flow_kind (JObj (dput (lit ''kind'') (JStr (lit flow_kind)) kvs)))
                 flow_checkpoint_check
      | _ \<Rightarrow> Inl ValidationError)"

record graph_runtime =
  gr_flow :: graph_dataflow
  gr_order :: "pystr list"
  gr_state :: "(state_key, pystr) dict"
  gr_bytes :: int
  gr_processed :: int
  gr_emitted :: int
  gr_busy :: bool

definition make_graph_runtime :: "graph_dataflow \<Rightarrow> graph_runtime res" where
  "make_graph_runtime g =
     rbind (graph_check g) (\<lambda>order.
       Inr \<lparr>gr_flow = g, gr_order = order, gr_state = [], gr_bytes = 0, gr_processed = 0,
            gr_emitted = 0, gr_busy = False\<rparr>)"

definition graph_checkpoint_of :: "graph_runtime \<Rightarrow> flow_checkpoint res" where
  "graph_checkpoint_of rt =
     (if gr_busy rt then Inl ValidationError
      else flow_checkpoint_check
        \<lparr>cp_identity = graph_identity (gr_flow rt), cp_processed = gr_processed rt,
         cp_emitted = gr_emitted rt,
         cp_cells = map (\<lambda>((step, k), v). (step, k, v)) (sort_key fst (gr_state rt))\<rparr>)"

definition graph_steps :: "'x graph_node list \<Rightarrow> flow_step list" where
  "graph_steps nodes = concat (map (\<lambda>n. case n of GStep s \<Rightarrow> [s] | _ \<Rightarrow> []) nodes)"

definition graph_from_checkpoint :: "graph_dataflow \<Rightarrow> flow_checkpoint \<Rightarrow> graph_runtime res" where
  "graph_from_checkpoint g c =
     rbind (make_graph_runtime g) (\<lambda>rt.
     rbind (graph_checkpoint_to_dict c) (\<lambda>doc.
     rbind (graph_checkpoint_from_dict doc) (\<lambda>checked.
       let lim = operator_limits (gd_limits g)
       in if cp_identity checked \<noteq> graph_identity g then Inl ValidationError
          else rbind (fold_res (restore_cell
                        (map step_id (filter (\<lambda>s. is_stateful (step_op s)) (graph_steps (gd_nodes g))))
                        (max_state_value_bytes lim)) (cp_cells checked) ([], 0)) (\<lambda>(state, bytes).
            if max_state_keys lim < int (length state) \<or> max_state_bytes lim < bytes
            then Inl ValidationError
            else Inr (rt\<lparr>gr_state := state, gr_bytes := bytes, gr_processed := cp_processed checked,
                         gr_emitted := cp_emitted checked\<rparr>)))))"

text \<open>The aggregate budget of one input: records and bytes charged so far.\<close>

definition charge_work :: "graph_limits \<Rightarrow> flow_record \<Rightarrow> int \<times> int \<Rightarrow> (int \<times> int) res" where
  "charge_work l item s =
     (let records = fst s + 1; bytes = snd s + rec_size item
      in if max_work_records l < records \<or> max_work_bytes l < bytes then Inl ValidationError
         else Inr (records, bytes))"

definition node_of :: "'x graph_node list \<Rightarrow> pystr \<Rightarrow> 'x graph_node" where
  "node_of nodes k = (case find (\<lambda>n. node_id n = k) nodes of Some n \<Rightarrow> n | None \<Rightarrow> GMerge k)"

definition graph_walk :: "graph_dataflow \<Rightarrow> (state_key, pystr) dict \<Rightarrow> flow_record
    \<Rightarrow> (unit, unit, int \<times> int) walk_params" where
  "graph_walk g state r =
     \<lparr>wp_limits = operator_limits (gd_limits g), wp_base = state, wp_nodes = node_of (gd_nodes g),
      wp_incoming = edges_into (gd_edges g), wp_outgoing = edges_from (gd_edges g),
      wp_seeds = [(gd_entry g, [r])],
      wp_hooks = \<lparr>on_propose = (\<lambda>_ _ _ h. Inr h), on_emit = charge_work (gd_limits g)\<rparr>,
      wp_extension = None, wp_seed_outputs = [], wp_delivered = (\<lambda>_ _ h. Inr h)\<rparr>"

definition graph_process_body :: "flow_record \<Rightarrow> graph_runtime \<Rightarrow> graph_output list res \<times> graph_runtime" where
  "graph_process_body r rt =
     (case rbind (charge_work (gd_limits (gr_flow rt)) r (0, 0)) (\<lambda>h.
           rbind (walk_graph (graph_walk (gr_flow rt) (gr_state rt) r) (gr_order rt)
                    (begin_tx (gr_state rt) (gr_bytes rt), h)) (\<lambda>(published, tx, _).
           rbind (count (gr_emitted rt + int (length published)) 0 MAX_COUNT) (\<lambda>emitted.
             Inr (published, tx, emitted)))) of
        Inl e \<Rightarrow> (Inl e, rt)
      | Inr (published, tx, emitted) \<Rightarrow>
          (let (state, bytes) = commit_tx (gr_state rt) tx
           in (Inr published,
               rt\<lparr>gr_state := state, gr_bytes := bytes,
                  gr_processed := gr_processed rt + 1, gr_emitted := emitted\<rparr>)))"

definition graph_process :: "flow_record \<Rightarrow> graph_runtime \<Rightarrow> graph_output list res \<times> graph_runtime" where
  "graph_process r rt =
     (if gr_busy rt then (Inl ValidationError, rt)
      else if max_record_bytes (operator_limits (gd_limits (gr_flow rt))) < rec_size r
      then (Inl ValidationError, rt)
      else (case count (gr_processed rt + 1) 0 MAX_COUNT of
              Inl e \<Rightarrow> (Inl e, rt)
            | Inr _ \<Rightarrow>
                (let (res, rt1) = graph_process_body r (rt\<lparr>gr_busy := True\<rparr>)
                 in (res, rt1\<lparr>gr_busy := False\<rparr>))))"

fun graph_pulls :: "nat \<Rightarrow> flow_record list \<Rightarrow> graph_runtime
    \<Rightarrow> (graph_output list \<times> unit res \<times> flow_record list) \<times> graph_runtime" where
  "graph_pulls 0 rs rt = (([], Inr (), rs), rt)"
| "graph_pulls (Suc n) [] rt = (([], Inr (), []), rt)"
| "graph_pulls (Suc n) (r # rs) rt =
     (case graph_process r rt of
        (Inl e, rt1) \<Rightarrow> (([], Inl e, rs), rt1)
      | (Inr out, rt1) \<Rightarrow>
          (let ((outs, e, rest), rt2) = graph_pulls n rs rt1 in ((out @ outs, e, rest), rt2)))"

definition graph_run :: "int \<Rightarrow> flow_record list \<Rightarrow> graph_runtime
    \<Rightarrow> (graph_output list \<times> unit res \<times> flow_record list) \<times> graph_runtime" where
  "graph_run max_inputs rs rt =
     (if count max_inputs 1 1000000 \<noteq> Inr max_inputs then (([], Inl ValidationError, rs), rt)
      else if gr_busy rt then (([], Inl ValidationError, rs), rt)
      else graph_pulls (nat max_inputs) rs rt)"

end
