(* ===== verification/Documents.thy ===== *)
theory Documents
  imports Flow_Checkpoint_Laws
begin

text \<open>
  Wire documents: readers of typed parts of a decoded JSON value, and the strict canonical
  codec that the window runtimes and the journals share (\<open>flow_journal._encode\<close> with sorted
  keys, and \<open>window_fold._load\<close>).
\<close>

section \<open>Typed parts of a document\<close>

text \<open>A value of another type is refused.\<close>

definition read_str :: "json \<Rightarrow> pystr res" where
  "read_str v = (case v of JStr s \<Rightarrow> Inr s | _ \<Rightarrow> Inl ValidationError)"

definition read_int :: "json \<Rightarrow> int res" where
  "read_int v = (case v of JInt i \<Rightarrow> Inr i | _ \<Rightarrow> Inl ValidationError)"

definition read_bool :: "json \<Rightarrow> bool res" where
  "read_bool v = (case v of JBool b \<Rightarrow> Inr b | _ \<Rightarrow> Inl ValidationError)"

definition read_list :: "(json \<Rightarrow> 'a res) \<Rightarrow> json \<Rightarrow> 'a list res" where
  "read_list f v = (case v of JArr xs \<Rightarrow> map_res f xs | _ \<Rightarrow> Inl ValidationError)"

definition read_field :: "(pystr, json) dict \<Rightarrow> string \<Rightarrow> (json \<Rightarrow> 'a res) \<Rightarrow> 'a res" where
  "read_field kvs name f = rbind (doc_get kvs name) f"

lemma read_str_eq [simp]: "read_str v = Inr s \<longleftrightarrow> v = JStr s"
  by (cases v) (auto simp: read_str_def)

lemma read_int_eq [simp]: "read_int v = Inr i \<longleftrightarrow> v = JInt i"
  by (cases v) (auto simp: read_int_def)

lemma read_bool_eq [simp]: "read_bool v = Inr b \<longleftrightarrow> v = JBool b"
  by (cases v) (auto simp: read_bool_def)

lemma read_list_strings: "read_list read_str (JArr (map JStr xs)) = Inr xs"
  by (induction xs) (simp_all add: read_list_def)

lemma read_list_bools: "read_list read_bool (JArr (map JBool xs)) = Inr xs"
  by (induction xs) (simp_all add: read_list_def)

lemma read_list_ints: "read_list read_int (JArr (map JInt xs)) = Inr xs"
  by (induction xs) (simp_all add: read_list_def)

lemma read_list_sides: "read_list (read_list read_str) (JArr (map (\<lambda>s. JArr (map JStr s)) xss)) = Inr xss"
  by (induction xss) (simp_all add: read_list_def [of "read_list read_str"] read_list_strings)

lemma read_list_id: "read_list Inr (JArr xs) = Inr xs"
  by (induction xs) (simp_all add: read_list_def)

section \<open>The canonical codec\<close>

text \<open>\<open>allow_nan=False\<close>: no infinities and no NaN anywhere in the value.\<close>

fun json_finite :: "json \<Rightarrow> bool" where
  "json_finite (JFloat f) = is_finite f"
| "json_finite (JArr xs) = list_all json_finite xs"
| "json_finite (JObj kvs) = list_all (\<lambda>(k, v). json_finite v) kvs"
| "json_finite _ = True"

definition encode_json :: "json \<Rightarrow> int \<Rightarrow> pystr res" where
  "encode_json v maximum =
     (let t = dumps (jsort v)
      in if \<not> json_finite v \<or> \<not> utf8_ok t \<or> maximum < byte_len t then Inl ValidationError else Inr t)"

definition wire_hooks :: json_hooks where
  "wire_hooks = \<lparr>reject_dup = True, reject_const = True, finite_float = True, bounded_int = True\<rparr>"

definition load_json :: "pystr \<Rightarrow> json res" where
  "load_json t = (case loads wire_hooks t of Inl _ \<Rightarrow> Inl ValidationError | Inr v \<Rightarrow> Inr v)"

definition bounded_text :: "pystr \<Rightarrow> int \<Rightarrow> pystr res" where
  "bounded_text t maximum =
     (if maximum < int (length t) then Inl ValidationError
      else if \<not> utf8_ok t then Inl ValidationError
      else if maximum < byte_len t then Inl ValidationError
      else Inr t)"

text \<open>\<open>_checked_value\<close>: bounded canonical JSON text.\<close>

definition checked_value :: "pystr \<Rightarrow> int \<Rightarrow> pystr res" where
  "checked_value t maximum =
     rbind (bounded_text t maximum) (\<lambda>t.
     rbind (load_json t) (\<lambda>v.
     rbind (snapshot (py_of_json v) maximum) (\<lambda>u.
       if u \<noteq> t then Inl ValidationError else Inr t)))"

lemma encode_json_Inr: "encode_json v m = Inr t \<Longrightarrow> t = dumps (jsort v) \<and> byte_len t \<le> m \<and> utf8_ok t"
  by (auto simp: encode_json_def Let_def split: if_splits)

lemma encode_json_sorted:
  "jsort v = v \<Longrightarrow> encode_json v m = Inr t \<Longrightarrow> t = dumps v"
  by (auto simp: encode_json_def Let_def split: if_splits)

lemma load_encoded: "json_wf v \<Longrightarrow> encode_json v m = Inr t \<Longrightarrow> load_json t = Inr (jsort v)"
  by (auto simp: load_json_def loads_dumps dest!: encode_json_Inr)


lemma checked_value_iff: "checked_value t m = Inr u \<longleftrightarrow> u = t \<and> canonical t \<and> byte_len t \<le> m"
proof
  assume "checked_value t m = Inr u"
  then obtain v where "u = t" "snapshot v m = Inr t"
    unfolding checked_value_def rbind_eq_Inr if_error_eq_Inr by (auto simp: bounded_text_def)
  then show "u = t \<and> canonical t \<and> byte_len t \<le> m" using snapshot_canonical by blast
next
  assume a: "u = t \<and> canonical t \<and> byte_len t \<le> m"
  then obtain j where j: "\<And>h. loads h t = Inr j" "\<And>m. byte_len t \<le> m \<Longrightarrow> snapshot (py_of_json j) m = Inr t"
    using canonical_reads by blast
  with a canonical_utf8_ok [of t] length_le_byte_len [of t] show "checked_value t m = Inr u"
    by (simp add: checked_value_def bounded_text_def load_json_def)
qed


section \<open>Sizes and success of the codec\<close>

lemma utf8_len_esc: "utf8_len (esc_char c) \<le> 6"
  by (auto simp: esc_char_def utf8_len_Cons utf8_char_def hex_digit_def)

lemma byte_len_dump_str: "byte_len (dump_str s) \<le> 2 + 6 * int (length s)"
proof -
  have "utf8_len (concat (map esc_char s)) \<le> 6 * length s"
    using utf8_len_esc by (induction s) (auto intro: add_mono)
  then show ?thesis by (simp add: byte_len_def dump_str_def utf8_len_Cons utf8_char_def)
qed

lemma length_nat_str: "n < 10 ^ Suc k \<Longrightarrow> length (nat_str n) \<le> Suc k"
proof (induction k arbitrary: n)
  case 0
  then show ?case by (simp add: nat_str.simps [of n])
next
  case (Suc k)
  have "n div 10 < 10 ^ Suc k" using Suc.prems by (simp add: less_mult_imp_div_less mult.commute)
  then show ?case using Suc.IH [of "n div 10"] by (simp add: nat_str.simps [of n])
qed

lemma utf8_len_ascii: "list_all (\<lambda>c. c < 128) s \<Longrightarrow> utf8_len s = length s"
  by (induction s) (simp_all add: utf8_len_Cons utf8_char_def)

lemma byte_len_int_str:
  assumes "\<bar>i\<bar> \<le> MAX_COUNT"
  shows "byte_len (int_str i) \<le> 17"
proof -
  have "n < 10 ^ Suc 15" if "int n \<le> MAX_COUNT" for n using that by (simp add: MAX_COUNT_def)
  then have len: "length (nat_str n) \<le> 16" if "int n \<le> MAX_COUNT" for n
    using length_nat_str [of n 15] that by simp
  have "list_all (\<lambda>c. c < 128) (nat_str n)" for n
    using nat_str_digits [of n] by (auto simp: list_all_iff is_digit_def)
  then have "byte_len (nat_str n) \<le> 16" if "int n \<le> MAX_COUNT" for n
    using len [OF that] by (simp add: byte_len_def utf8_len_ascii)
  then have "byte_len (nat_str (nat (- i))) \<le> 16" "byte_len (nat_str (nat i)) \<le> 16"
    using assms by (simp_all add: MAX_COUNT_def)
  then show ?thesis by (simp add: int_str_def byte_len_def utf8_len_Cons utf8_char_def)
qed

lemma byte_len_Cons: "byte_len (c # s) = int (length (utf8_char c)) + byte_len s"
  by (simp add: byte_len_def utf8_len_Cons)

lemma byte_len_append [simp]: "byte_len (s @ t) = byte_len s + byte_len t"
  by (simp add: byte_len_def)

lemma byte_len_Nil [simp]: "byte_len [] = 0"
  by (simp add: byte_len_def)

lemma byte_len_join: "c < 128 \<Longrightarrow> byte_len (join c xs) \<le> (\<Sum>x\<leftarrow>xs. byte_len x + 1)"
  by (induction c xs rule: join.induct) (auto simp: byte_len_Cons utf8_char_def)

lemma byte_len_array: "byte_len (dumps (JArr xs)) \<le> 2 + (\<Sum>x\<leftarrow>xs. byte_len (dumps x) + 1)"
  using byte_len_join [of 44 "map dumps xs"] by (simp add: byte_len_Cons utf8_char_def comp_def)

lemma byte_len_object:
  "byte_len (dumps (JObj kvs)) \<le> 2 + (\<Sum>(k, v)\<leftarrow>kvs. byte_len (dump_str k) + byte_len (dumps v) + 2)"
proof -
  have "byte_len (dumps (JObj kvs)) \<le> 2 + (\<Sum>x\<leftarrow>map (\<lambda>(k, v). dump_str k @ 58 # dumps v) kvs. byte_len x + 1)"
    using byte_len_join [of 44 "map (\<lambda>(k, v). dump_str k @ 58 # dumps v) kvs"] by (simp add: byte_len_Cons utf8_char_def)
  also have "(\<Sum>x\<leftarrow>map (\<lambda>(k, v). dump_str k @ 58 # dumps v) kvs. byte_len x + 1)
      = (\<Sum>(k, v)\<leftarrow>kvs. byte_len (dump_str k) + byte_len (dumps v) + 2)"
    unfolding map_map
    by (intro arg_cong [where f = sum_list] map_cong) (auto simp: byte_len_Cons utf8_char_def split: prod.splits)
  finally show ?thesis .
qed

lemma label_bytes: "is_label s \<Longrightarrow> byte_len (dump_str s) \<le> 6146"
  using byte_len_dump_str [of s] by (simp add: is_label_def MAX_TEXT_LENGTH_def)

lemma jfits_finite: "jfits d j \<Longrightarrow> json_finite j"
  by (induction d j rule: jfits.induct) (auto simp: list_all_iff)

lemma encode_json_ok:
  "jfits d v \<Longrightarrow> jsort v = v \<Longrightarrow> byte_len (dumps v) \<le> m \<Longrightarrow> encode_json v m = Inr (dumps v)"
  by (simp add: encode_json_def Let_def jfits_finite utf8_ok_dumps)

text \<open>Values that the codec carries at any depth: \<open>jfits\<close> without its structural bounds.\<close>

fun jclean :: "json \<Rightarrow> bool" where
  "jclean (JStr s) = utf8_ok s"
| "jclean (JInt i) = (\<bar>i\<bar> \<le> safe_int)"
| "jclean (JFloat f) = (is_finite f \<and> fvalid f)"
| "jclean (JArr xs) = list_all jclean xs"
| "jclean (JObj kvs) = (distinct (map fst kvs) \<and> list_all (\<lambda>(k, v). utf8_ok k \<and> jclean v) kvs)"
| "jclean _ = True"

lemma jfits_jclean: "jfits d j \<Longrightarrow> jclean j"
  by (induction d j rule: jfits.induct) (auto simp: list_all_iff)

lemma jclean_finite: "jclean j \<Longrightarrow> json_finite j"
  by (induction j rule: jclean.induct) (auto simp: list_all_iff)

lemma jclean_json_wf: "jclean j \<Longrightarrow> json_wf j"
  by (induction j rule: jclean.induct) (auto simp: list_all_iff)

lemma jclean_utf8: "jclean j \<Longrightarrow> utf8_ok (dumps j)"
proof (induction j rule: jclean.induct)
  case (4 xs)
  then show ?case by (auto simp: list_all_iff intro!: utf8_ok_join)
next
  case (5 kvs)
  then have "utf8_ok (dump_member kv)" if "kv \<in> set kvs" for kv
    using that by (cases kv) (fastforce simp: list_all_iff intro: utf8_ok_dump_str)
  then show ?case by (auto intro!: utf8_ok_join)
qed (auto simp: utf8_ok_dump_str utf8_ok_float_repr utf8_ok_int_str lit_def)

lemma encode_json_clean:
  "jclean v \<Longrightarrow> jsort v = v \<Longrightarrow> byte_len (dumps v) \<le> m \<Longrightarrow> encode_json v m = Inr (dumps v)"
  by (simp add: encode_json_def Let_def jclean_finite jclean_utf8)

lemma load_json_clean: "jclean v \<Longrightarrow> load_json (dumps v) = Inr v"
  by (simp add: load_json_def loads_dumps jclean_json_wf)

lemma jsort_object:
  "sorted (map fst kvs) \<Longrightarrow> list_all (\<lambda>(k, v). jsort v = v) kvs \<Longrightarrow> jsort (JObj kvs) = JObj kvs"
proof -
  assume a: "sorted (map fst kvs)" "list_all (\<lambda>(k, v). jsort v = v) kvs"
  have "map (\<lambda>(k, v). (k, jsort v)) kvs = kvs" by (rule map_idI) (use a(2) in \<open>auto simp: list_all_iff\<close>)
  with a(1) show ?thesis by (simp add: sort_key_id_if_sorted)
qed

lemma jsort_array: "list_all (\<lambda>v. jsort v = v) xs \<Longrightarrow> jsort (JArr xs) = JArr xs"
  by (auto simp: list_all_iff intro: map_idI)

lemma bounded_text_iff: "bounded_text t m = Inr u \<longleftrightarrow> u = t \<and> utf8_ok t \<and> byte_len t \<le> m"
  using length_le_byte_len [of t] by (auto simp: bounded_text_def split: if_splits)

end
