(* ===== verification/Window_Fold.thy ===== *)
theory Window_Fold
  imports Sample_Flow Documents
begin

text \<open>
  \<open>window_fold.py\<close>: arrival-ordered folds over fixed windows with explicit watermarks. The
  staged transitions are pure; the hooks of \<open>_StageHooks\<close> thread a state of the caller, which
  the window graphs use for their budgets. \<open>WindowFoldRuntime\<close> publishes a staged state once.
\<close>

section \<open>Declarations\<close>

definition MAX_WIRE :: int where "MAX_WIRE = 66 * 1024 * 1024"

definition tick :: "int \<Rightarrow> int res" where
  "tick v = count v (- MAX_COUNT) MAX_COUNT"

definition wname :: "pystr \<Rightarrow> pystr res" where
  "wname s = (if 1024 < length s then Inl ValidationError else key (PStr s))"

lemma tick_Inr [simp]: "tick v = Inr w \<longleftrightarrow> w = v \<and> - MAX_COUNT \<le> v \<and> v \<le> MAX_COUNT"
  by (simp add: tick_def)

lemma wname_Inr [simp]: "wname s = Inr k \<longleftrightarrow> k = s \<and> is_label s"
  by (auto simp: wname_def is_label_def MAX_TEXT_LENGTH_def)

record window_limits =
  wl_windows_per_input :: int
  wl_keys :: int
  wl_windows :: int
  wl_input_bytes :: int
  wl_state_value_bytes :: int
  wl_state_bytes :: int
  wl_row_bytes :: int
  wl_rows_per_batch :: int
  wl_batch_bytes :: int
  wl_inputs :: int

definition window_ceilings :: window_limits where
  "window_ceilings =
     \<lparr>wl_windows_per_input = 1024, wl_keys = 100000, wl_windows = 100000,
      wl_input_bytes = 8 * 1024 * 1024, wl_state_value_bytes = 8 * 1024 * 1024,
      wl_state_bytes = 64 * 1024 * 1024, wl_row_bytes = 8 * 1024 * 1024,
      wl_rows_per_batch = 100000, wl_batch_bytes = 64 * 1024 * 1024, wl_inputs = MAX_COUNT\<rparr>"

definition default_window_limits :: window_limits where
  "default_window_limits =
     \<lparr>wl_windows_per_input = 64, wl_keys = 10000, wl_windows = 10000,
      wl_input_bytes = 1024 * 1024, wl_state_value_bytes = 1024 * 1024,
      wl_state_bytes = 16 * 1024 * 1024, wl_row_bytes = 1024 * 1024,
      wl_rows_per_batch = 1000, wl_batch_bytes = 16 * 1024 * 1024, wl_inputs = 1000000000\<rparr>"

definition window_limits_ok :: "window_limits \<Rightarrow> bool" where
  "window_limits_ok l \<longleftrightarrow>
     1 \<le> wl_windows_per_input l \<and> wl_windows_per_input l \<le> wl_windows_per_input window_ceilings
     \<and> 1 \<le> wl_keys l \<and> wl_keys l \<le> wl_keys window_ceilings
     \<and> 1 \<le> wl_windows l \<and> wl_windows l \<le> wl_windows window_ceilings
     \<and> 1 \<le> wl_input_bytes l \<and> wl_input_bytes l \<le> wl_input_bytes window_ceilings
     \<and> 1 \<le> wl_state_value_bytes l \<and> wl_state_value_bytes l \<le> wl_state_value_bytes window_ceilings
     \<and> 1 \<le> wl_state_bytes l \<and> wl_state_bytes l \<le> wl_state_bytes window_ceilings
     \<and> 1 \<le> wl_row_bytes l \<and> wl_row_bytes l \<le> wl_row_bytes window_ceilings
     \<and> 1 \<le> wl_rows_per_batch l \<and> wl_rows_per_batch l \<le> wl_rows_per_batch window_ceilings
     \<and> 1 \<le> wl_batch_bytes l \<and> wl_batch_bytes l \<le> wl_batch_bytes window_ceilings
     \<and> 1 \<le> wl_inputs l \<and> wl_inputs l \<le> wl_inputs window_ceilings
     \<and> wl_keys l \<le> wl_windows l \<and> wl_row_bytes l \<le> wl_batch_bytes l"

definition window_limits_doc :: "window_limits \<Rightarrow> json" where
  "window_limits_doc l = JObj
     [jfield ''max_batch_bytes'' (JInt (wl_batch_bytes l)),
      jfield ''max_input_bytes'' (JInt (wl_input_bytes l)), jfield ''max_inputs'' (JInt (wl_inputs l)),
      jfield ''max_keys'' (JInt (wl_keys l)), jfield ''max_row_bytes'' (JInt (wl_row_bytes l)),
      jfield ''max_rows_per_batch'' (JInt (wl_rows_per_batch l)),
      jfield ''max_state_bytes'' (JInt (wl_state_bytes l)),
      jfield ''max_state_value_bytes'' (JInt (wl_state_value_bytes l)),
      jfield ''max_windows'' (JInt (wl_windows l)),
      jfield ''max_windows_per_input'' (JInt (wl_windows_per_input l))]"

record window_fold =
  wf_id :: pystr
  wf_revision :: pystr
  wf_width :: int
  wf_initial :: callback
  wf_fold :: callback
  wf_hop :: int
  wf_origin :: int
  wf_tick_unit :: pystr
  wf_finalize :: "callback option"
  wf_drop_late :: bool
  wf_limits :: window_limits

definition window_fold_ok :: "window_fold \<Rightarrow> bool" where
  "window_fold_ok w \<longleftrightarrow>
     is_label (wf_id w) \<and> is_label (wf_revision w) \<and> is_label (wf_tick_unit w)
     \<and> 1 \<le> wf_width w \<and> wf_width w \<le> MAX_COUNT \<and> 1 \<le> wf_hop w \<and> wf_hop w \<le> MAX_COUNT
     \<and> - MAX_COUNT \<le> wf_origin w \<and> wf_origin w \<le> MAX_COUNT \<and> window_limits_ok (wf_limits w)"

text \<open>The constructor: a missing hop is the width.\<close>

definition make_window_fold :: "window_fold \<Rightarrow> int option \<Rightarrow> window_fold res" where
  "make_window_fold w hop =
     (let w = w\<lparr>wf_hop := (case hop of None \<Rightarrow> wf_width w | Some h \<Rightarrow> h)\<rparr>
      in if window_fold_ok w then Inr w else Inl ValidationError)"

definition late_name :: "bool \<Rightarrow> string" where
  "late_name late = (if late then ''drop'' else ''reject'')"

definition window_configuration :: "window_fold \<Rightarrow> json" where
  "window_configuration w = JObj
     [jfield ''finalizer'' (JBool (wf_finalize w \<noteq> None)), jfield ''fold_id'' (JStr (wf_id w)),
      jfield ''hop'' (JInt (wf_hop w)), jfield ''late_policy'' (JStr (lit (late_name (wf_drop_late w)))),
      jfield ''limits'' (window_limits_doc (wf_limits w)), jfield ''order'' (JStr (lit ''arrival'')),
      jfield ''origin'' (JInt (wf_origin w)), jfield ''revision'' (JStr (wf_revision w)),
      jfield ''tick_unit'' (JStr (wf_tick_unit w)), jfield ''width'' (JInt (wf_width w))]"

definition window_identity :: "window_fold \<Rightarrow> pystr res" where
  "window_identity w = rbind (encode_json (window_configuration w) MAX_WIRE) (\<lambda>t. Inr (sha256_hex t))"

section \<open>Status, rows and batches\<close>

datatype window_phase = WOpen | WDraining | WClosed

fun wphase_name :: "window_phase \<Rightarrow> string" where
  "wphase_name WOpen = ''open''" | "wphase_name WDraining = ''draining''" | "wphase_name WClosed = ''closed''"

record window_status =
  ws_phase :: window_phase
  ws_watermark :: "int option"
  ws_finished :: bool
  ws_retained :: int
  ws_pending :: int

definition phase_of :: "int \<Rightarrow> bool \<Rightarrow> window_phase" where
  "phase_of pending finished =
     (if pending \<noteq> 0 then WDraining else if finished then WClosed else WOpen)"

definition window_status_check :: "window_status \<Rightarrow> window_status res" where
  "window_status_check s =
     rbind (case ws_watermark s of None \<Rightarrow> Inr 0 | Some w \<Rightarrow> tick w) (\<lambda>_.
     rbind (count (ws_retained s) 0 (wl_windows window_ceilings)) (\<lambda>_.
     rbind (count (ws_pending s) 0 (ws_retained s)) (\<lambda>_.
       if ws_phase s \<noteq> phase_of (ws_pending s) (ws_finished s)
          \<or> (ws_finished s \<and> ws_pending s \<noteq> ws_retained s)
       then Inl ValidationError else Inr s)))"

datatype window_outcome = WFolded | WLateDropped | WGap

record window_result =
  wr_outcome :: window_outcome
  wr_memberships :: int
  wr_status :: window_status

definition window_result_check :: "window_result \<Rightarrow> window_result res" where
  "window_result_check r =
     rbind (count (wr_memberships r) 0 (wl_windows_per_input window_ceilings)) (\<lambda>_.
       if (wr_outcome r = WFolded) \<noteq> (wr_memberships r \<noteq> 0) then Inl ValidationError
       else rbind (window_status_check (wr_status r)) (\<lambda>_. Inr r))"

definition row_metadata :: "pystr \<Rightarrow> int \<Rightarrow> int \<Rightarrow> int \<Rightarrow> pystr \<Rightarrow> int \<Rightarrow> (pystr, json) dict" where
  "row_metadata k index start stop unit cnt =
     [jfield ''end'' (JInt stop), jfield ''index'' (JInt index), jfield ''input_count'' (JInt cnt),
      jfield ''key'' (JStr k), jfield ''start'' (JInt start), jfield ''tick_unit'' (JStr unit)]"

definition window_row_size :: "(pystr, json) dict \<Rightarrow> pystr \<Rightarrow> int res" where
  "window_row_size metadata encoded =
     rbind (encode_json (JObj (metadata @ [jfield ''value'' JNull])) MAX_WIRE) (\<lambda>t.
       Inr (byte_len t - 4 + byte_len encoded))"

record window_row =
  wo_key :: pystr
  wo_index :: int
  wo_start :: int
  wo_end :: int
  wo_tick_unit :: pystr
  wo_count :: int
  wo_json :: pystr

definition wrow_metadata :: "window_row \<Rightarrow> (pystr, json) dict" where
  "wrow_metadata r = row_metadata (wo_key r) (wo_index r) (wo_start r) (wo_end r) (wo_tick_unit r) (wo_count r)"

definition wrow_bytes :: "window_row \<Rightarrow> int res" where
  "wrow_bytes r = window_row_size (wrow_metadata r) (wo_json r)"

definition make_window_row :: "pystr \<Rightarrow> int \<Rightarrow> int \<Rightarrow> int \<Rightarrow> pystr \<Rightarrow> int \<Rightarrow> pyval \<Rightarrow> window_row res" where
  "make_window_row k index start stop unit cnt v =
     rbind (wname k) (\<lambda>_. rbind (wname unit) (\<lambda>_.
     rbind (tick index) (\<lambda>_. rbind (tick start) (\<lambda>_. rbind (tick stop) (\<lambda>_.
     if stop \<le> start then Inl ValidationError
     else rbind (count cnt 1 MAX_COUNT) (\<lambda>_.
          rbind (snapshot v (wl_row_bytes window_ceilings)) (\<lambda>encoded.
          rbind (window_row_size (row_metadata k index start stop unit cnt) encoded) (\<lambda>sz.
            if wl_row_bytes window_ceilings < sz then Inl ValidationError
            else Inr \<lparr>wo_key = k, wo_index = index, wo_start = start, wo_end = stop,
                      wo_tick_unit = unit, wo_count = cnt, wo_json = encoded\<rparr>))))))))"

definition window_row_to_record :: "window_row \<Rightarrow> flow_record res" where
  "window_row_to_record r =
     rbind (loads no_hooks (wo_json r)) (\<lambda>v.
       make_record (py_of_json (JObj (ddel (lit ''key'') (wrow_metadata r) @ [jfield ''value'' v])))
         (Some (wo_key r)))"

record window_batch =
  wb_rows :: "window_row list"
  wb_status :: window_status

definition rows_bytes :: "window_row list \<Rightarrow> int res" where
  "rows_bytes rows = rbind (map_res wrow_bytes rows) (\<lambda>sizes. Inr (sum_list sizes))"

definition window_batch_check :: "window_batch \<Rightarrow> window_batch res" where
  "window_batch_check b =
     (if wl_rows_per_batch window_ceilings < int (length (wb_rows b)) then Inl ValidationError
      else rbind (window_status_check (wb_status b)) (\<lambda>_.
           rbind (rows_bytes (wb_rows b)) (\<lambda>sz.
             if wl_batch_bytes window_ceilings < sz then Inl ValidationError else Inr b)))"

section \<open>Cells and state\<close>

record wcell =
  wc_key :: pystr
  wc_index :: int
  wc_start :: int
  wc_end :: int
  wc_count :: int
  wc_encoded :: pystr
  wc_bytes :: int

definition wcell_doc :: "wcell \<Rightarrow> json" where
  "wcell_doc c = JObj
     [jfield ''end'' (JInt (wc_end c)), jfield ''index'' (JInt (wc_index c)),
      jfield ''input_count'' (JInt (wc_count c)), jfield ''key'' (JStr (wc_key c)),
      jfield ''start'' (JInt (wc_start c)), jfield ''state'' (JStr (wc_encoded c))]"

type_synonym window_key = "int \<times> pystr"

record wstate =
  w_cells :: "(window_key, wcell) dict"
  w_watermark :: "int option"
  w_finished :: bool
  w_processed :: int
  w_late :: int
  w_gaps :: int
  w_updates :: int
  w_created :: int
  w_emitted :: int
  w_finalized :: int
  w_bytes :: int

definition empty_wstate :: wstate where
  "empty_wstate = \<lparr>w_cells = [], w_watermark = None, w_finished = False, w_processed = 0, w_late = 0,
     w_gaps = 0, w_updates = 0, w_created = 0, w_emitted = 0, w_finalized = 0, w_bytes = 0\<rparr>"

definition eligible :: "wstate \<Rightarrow> wcell \<Rightarrow> bool" where
  "eligible s c \<longleftrightarrow>
     w_finished s \<or> (case w_watermark s of None \<Rightarrow> False | Some w \<Rightarrow> wc_end c \<le> w)"

definition pending_cells :: "wstate \<Rightarrow> (window_key \<times> wcell) list" where
  "pending_cells s = filter (\<lambda>e. eligible s (snd e)) (w_cells s)"

definition status_of :: "wstate \<Rightarrow> window_status res" where
  "status_of s =
     (let pending = int (length (pending_cells s))
      in window_status_check \<lparr>ws_phase = phase_of pending (w_finished s), ws_watermark = w_watermark s,
           ws_finished = w_finished s, ws_retained = int (length (w_cells s)), ws_pending = pending\<rparr>)"

definition geometry :: "window_fold \<Rightarrow> int \<Rightarrow> (int \<times> int) res" where
  "geometry w index =
     rbind (tick index) (\<lambda>_.
       let start = wf_origin w + index * wf_hop w
       in rbind (tick start) (\<lambda>_. rbind (tick (start + wf_width w)) (\<lambda>stop. Inr (start, stop))))"

definition make_wcell :: "window_fold \<Rightarrow> pystr \<Rightarrow> int \<Rightarrow> int \<Rightarrow> pystr \<Rightarrow> wcell res" where
  "make_wcell w k index cnt encoded =
     rbind (geometry w index) (\<lambda>(start, stop).
     rbind (count cnt 1 MAX_COUNT) (\<lambda>_.
       let c = \<lparr>wc_key = k, wc_index = index, wc_start = start, wc_end = stop, wc_count = cnt,
                wc_encoded = encoded, wc_bytes = 0\<rparr>
       in rbind (encode_json (wcell_doc c) (wl_state_bytes (wf_limits w))) (\<lambda>t.
          rbind (if wf_finalize w = None
                 then rbind (window_row_size (row_metadata k index start stop (wf_tick_unit w) cnt) encoded) (\<lambda>sz.
                        check (sz \<le> wl_row_bytes (wf_limits w)))
                 else Inr ()) (\<lambda>_.
            Inr (c\<lparr>wc_bytes := byte_len t\<rparr>)))))"

section \<open>Callbacks and hooks\<close>

definition window_invoke :: "callback \<Rightarrow> string \<Rightarrow> pystr \<Rightarrow> int \<Rightarrow> pyval list \<Rightarrow> pyval res" where
  "window_invoke f phase k index args =
     (case rbind (f args) (\<lambda>v. rbind (no_awaitable v) (\<lambda>_. Inr v)) of
        Inl e \<Rightarrow> Inl (WindowFoldExecutionError (lit phase) k index)
      | Inr v \<Rightarrow> Inr v)"

record 'h window_hooks =
  wh_call :: "'h \<Rightarrow> 'h res"
  wh_reserve :: "wcell list \<Rightarrow> int \<Rightarrow> 'h \<Rightarrow> 'h res"
  wh_admit :: "wcell \<Rightarrow> 'h \<Rightarrow> 'h res"
  wh_row :: "window_row \<Rightarrow> 'h \<Rightarrow> 'h res"

definition no_window_hooks :: "'h window_hooks" where
  "no_window_hooks = \<lparr>wh_call = Inr, wh_reserve = (\<lambda>_ _. Inr), wh_admit = (\<lambda>_. Inr), wh_row = (\<lambda>_. Inr)\<rparr>"

definition stage_call :: "'h window_hooks \<Rightarrow> callback \<Rightarrow> string \<Rightarrow> pystr \<Rightarrow> int \<Rightarrow> pyval list \<Rightarrow> 'h
    \<Rightarrow> (pyval \<times> 'h) res" where
  "stage_call hk f phase k index args h =
     rbind (wh_call hk h) (\<lambda>h. rbind (window_invoke f phase k index args) (\<lambda>v. Inr (v, h)))"

definition decoded :: "pystr \<Rightarrow> pyval res" where
  "decoded t = rbind (loads no_hooks t) (\<lambda>j. Inr (py_of_json j))"

section \<open>Folding one input\<close>

definition first_index :: "window_fold \<Rightarrow> int \<Rightarrow> int" where
  "first_index w timestamp = (timestamp - wf_origin w - wf_width w) div wf_hop w + 1"

definition last_index :: "window_fold \<Rightarrow> int \<Rightarrow> int" where
  "last_index w timestamp = (timestamp - wf_origin w) div wf_hop w"

definition member_indexes :: "window_fold \<Rightarrow> int \<Rightarrow> int list" where
  "member_indexes w timestamp = [first_index w timestamp..last_index w timestamp]"

definition prior_count :: "wcell option \<Rightarrow> int" where
  "prior_count c = (case c of None \<Rightarrow> 0 | Some c \<Rightarrow> wc_count c)"

definition prior_cells :: "(window_key, wcell) dict \<Rightarrow> pystr \<Rightarrow> int list \<Rightarrow> wcell list" where
  "prior_cells cells k indexes = List.map_filter (\<lambda>i. dget cells (i, k)) indexes"

text \<open>One turn of the loop over the windows of an input; \<open>base\<close> is the state before the input.\<close>

definition fold_window :: "window_fold \<Rightarrow> 'h window_hooks \<Rightarrow> (window_key, wcell) dict \<Rightarrow> pystr \<Rightarrow> pystr
    \<Rightarrow> int \<Rightarrow> (window_key, wcell) dict \<times> int \<times> 'h \<Rightarrow> ((window_key, wcell) dict \<times> int \<times> 'h) res" where
  "fold_window w hk base k encoded index s =
     (let (cells, sz, h) = s; previous = dget base (index, k); l = wf_limits w
      in rbind (case previous of
                  None \<Rightarrow>
                    rbind (stage_call hk (wf_initial w) ''initial'' k index [] h) (\<lambda>(v, h).
                    rbind (snapshot v (wl_state_value_bytes l)) (\<lambda>t.
                    rbind (decoded t) (\<lambda>state. Inr (state, h))))
                | Some c \<Rightarrow> rbind (decoded (wc_encoded c)) (\<lambda>state. Inr (state, h)))
         (\<lambda>(state, h).
         rbind (decoded encoded) (\<lambda>input.
         rbind (stage_call hk (wf_fold w) ''fold'' k index [state, input] h) (\<lambda>(v, h).
         rbind (snapshot v (wl_state_value_bytes l)) (\<lambda>saved.
         rbind (make_wcell w k index (prior_count previous + 1) saved) (\<lambda>proposed.
           if wl_state_bytes l < sz + wc_bytes proposed then Inl ValidationError
           else rbind (wh_admit hk proposed h) (\<lambda>h.
                  Inr (dput (index, k) proposed cells, sz + wc_bytes proposed, h))))))))"

definition retained_keys :: "(window_key, wcell) dict \<Rightarrow> pystr list" where
  "retained_keys cells = remdups (map (\<lambda>e. wc_key (snd e)) cells)"

definition stage_fold :: "window_fold \<Rightarrow> 'h window_hooks \<Rightarrow> wstate \<Rightarrow> int \<Rightarrow> pystr \<Rightarrow> pystr \<Rightarrow> int \<Rightarrow> 'h
    \<Rightarrow> (wstate \<times> window_result \<times> 'h) res" where
  "stage_fold w hk before timestamp k encoded processed h =
     (let l = wf_limits w; indexes = member_indexes w timestamp;
          cnt = max 0 (last_index w timestamp - first_index w timestamp + 1)
      in rbind (count cnt 0 (wl_windows_per_input l)) (\<lambda>_.
         if cnt = 0
         then (let after = before\<lparr>w_processed := processed, w_gaps := w_gaps before + 1\<rparr>
               in rbind (status_of after) (\<lambda>st.
                  rbind (window_result_check \<lparr>wr_outcome = WGap, wr_memberships = 0, wr_status = st\<rparr>) (\<lambda>r.
                    Inr (after, r, h))))
         else
           rbind (fold_res (\<lambda>i _. rbind (geometry w i) (\<lambda>_. Inr ())) indexes ()) (\<lambda>_.
           let cells = w_cells before; prior = prior_cells cells k indexes;
               new = int (length (filter (\<lambda>i. dget cells (i, k) = None) indexes));
               keys = retained_keys cells
           in rbind (count (int (length cells) + new) 0 (wl_windows l)) (\<lambda>_.
              rbind (count (int (length keys) + (if k \<in> set keys then 0 else 1)) 0 (wl_keys l)) (\<lambda>_.
              rbind (count (w_updates before + cnt) 0 MAX_COUNT) (\<lambda>updates.
              rbind (count (w_created before + new) 0 MAX_COUNT) (\<lambda>created.
              rbind (fold_res (\<lambda>i _. rbind (count (prior_count (dget cells (i, k)) + 1) 1 MAX_COUNT) (\<lambda>_. Inr ()))
                       indexes ()) (\<lambda>_.
              rbind (wh_reserve hk prior cnt h) (\<lambda>h.
              rbind (fold_res (fold_window w hk cells k encoded) indexes
                       (cells, w_bytes before - (\<Sum>c\<leftarrow>prior. wc_bytes c), h)) (\<lambda>(cells, sz, h).
              let after = before\<lparr>w_cells := cells, w_processed := processed, w_updates := updates,
                            w_created := created, w_bytes := sz\<rparr>
              in rbind (status_of after) (\<lambda>st.
                 rbind (window_result_check \<lparr>wr_outcome = WFolded, wr_memberships = cnt, wr_status = st\<rparr>) (\<lambda>r.
                   Inr (after, r, h)))))))))))))"

definition before_watermark :: "wstate \<Rightarrow> int \<Rightarrow> bool" where
  "before_watermark s timestamp = (case w_watermark s of None \<Rightarrow> False | Some m \<Rightarrow> timestamp < m)"

definition stage_process :: "window_fold \<Rightarrow> 'h window_hooks \<Rightarrow> wstate \<Rightarrow> int \<Rightarrow> flow_record \<Rightarrow> 'h
    \<Rightarrow> (wstate \<times> window_result \<times> 'h) res" where
  "stage_process w hk before timestamp r h =
     rbind (status_of before) (\<lambda>st.
     if ws_phase st \<noteq> WOpen then Inl ValidationError
     else rbind (tick timestamp) (\<lambda>_.
       (case rec_key r of
          None \<Rightarrow> Inl ValidationError
        | Some k0 \<Rightarrow>
            rbind (wname k0) (\<lambda>k.
            rbind (checked_value (rec_json r) (wl_input_bytes (wf_limits w))) (\<lambda>encoded.
            let late = before_watermark before timestamp
            in if late \<and> \<not> wf_drop_late w then Inl ValidationError
               else rbind (count (w_processed before + 1) 0 (wl_inputs (wf_limits w))) (\<lambda>processed.
                 if late
                 then (let after = before\<lparr>w_processed := processed, w_late := w_late before + 1\<rparr>
                       in rbind (status_of after) (\<lambda>st.
                          rbind (window_result_check \<lparr>wr_outcome = WLateDropped, wr_memberships = 0, wr_status = st\<rparr>)
                            (\<lambda>r. Inr (after, r, h))))
                 else stage_fold w hk before timestamp k encoded processed h))))))"

section \<open>Progress and draining\<close>

definition stage_advance :: "wstate \<Rightarrow> int \<Rightarrow> (wstate \<times> window_status) res" where
  "stage_advance before timestamp =
     rbind (tick timestamp) (\<lambda>_.
     rbind (status_of before) (\<lambda>st.
     if ws_phase st \<noteq> WOpen then Inl ValidationError
     else if before_watermark before timestamp then Inl ValidationError
     else let after = before\<lparr>w_watermark := Some timestamp\<rparr>
          in rbind (status_of after) (\<lambda>st. Inr (after, st))))"

definition stage_finish :: "wstate \<Rightarrow> (wstate \<times> window_status) res" where
  "stage_finish before =
     (let after = before\<lparr>w_finished := True\<rparr> in rbind (status_of after) (\<lambda>st. Inr (after, st)))"

definition drain_row :: "window_fold \<Rightarrow> 'h window_hooks \<Rightarrow> wcell \<Rightarrow> window_row list \<times> 'h
    \<Rightarrow> (window_row list \<times> 'h) res" where
  "drain_row w hk c s =
     (let (rows, h) = s
      in rbind (decoded (wc_encoded c)) (\<lambda>v.
         rbind (case wf_finalize w of
                  None \<Rightarrow> Inr (v, h)
                | Some f \<Rightarrow> stage_call hk f ''finalize'' (wc_key c) (wc_index c) [v] h) (\<lambda>(v, h).
         rbind (make_window_row (wc_key c) (wc_index c) (wc_start c) (wc_end c) (wf_tick_unit w) (wc_count c) v) (\<lambda>row.
         rbind (wrow_bytes row) (\<lambda>sz.
           if wl_row_bytes (wf_limits w) < sz then Inl ValidationError
           else rbind (wh_row hk row h) (\<lambda>h. Inr (rows @ [row], h)))))))"

definition drain_cap :: "window_limits \<Rightarrow> int \<Rightarrow> nat" where
  "drain_cap l max_windows =
     nat (min (min max_windows (wl_rows_per_batch l)) (wl_batch_bytes l div wl_row_bytes l))"

definition drain_selection :: "window_fold \<Rightarrow> wstate \<Rightarrow> int \<Rightarrow> (window_key \<times> wcell) list" where
  "drain_selection w before max_windows =
     take (drain_cap (wf_limits w) max_windows) (sort_key fst (pending_cells before))"

definition stage_drain :: "window_fold \<Rightarrow> 'h window_hooks \<Rightarrow> wstate \<Rightarrow> int \<Rightarrow> 'h
    \<Rightarrow> (wstate \<times> window_batch \<times> 'h) res" where
  "stage_drain w hk before max_windows h =
     rbind (count max_windows 1 (wl_windows window_ceilings)) (\<lambda>_.
     let l = wf_limits w; selected = drain_selection w before max_windows
     in rbind (count (w_emitted before + int (length selected)) 0 MAX_COUNT) (\<lambda>emitted.
        rbind (count (w_finalized before + (\<Sum>e\<leftarrow>selected. wc_count (snd e))) 0 MAX_COUNT) (\<lambda>finalized.
        rbind (wh_reserve hk (map snd selected) 0 h) (\<lambda>h.
        rbind (fold_res (drain_row w hk) (map snd selected) ([], h)) (\<lambda>(rows, h).
        rbind (rows_bytes rows) (\<lambda>sz.
        if wl_batch_bytes l < sz then Inl ValidationError
        else let after = before\<lparr>w_cells := fold ddel (map fst selected) (w_cells before),
                       w_bytes := w_bytes before - (\<Sum>e\<leftarrow>selected. wc_bytes (snd e)),
                       w_emitted := emitted, w_finalized := finalized\<rparr>
             in rbind (status_of after) (\<lambda>st.
                rbind (window_batch_check \<lparr>wb_rows = rows, wb_status = st\<rparr>) (\<lambda>b.
                  Inr (after, b, h)))))))))"


section \<open>Checkpoints\<close>

definition counters_doc :: "wstate \<Rightarrow> json" where
  "counters_doc s = JObj
     [jfield ''created_windows'' (JInt (w_created s)), jfield ''emitted_windows'' (JInt (w_emitted s)),
      jfield ''finalized_memberships'' (JInt (w_finalized s)), jfield ''gap_inputs'' (JInt (w_gaps s)),
      jfield ''late_drops'' (JInt (w_late s)), jfield ''membership_updates'' (JInt (w_updates s)),
      jfield ''processed_inputs'' (JInt (w_processed s))]"

definition window_kind :: pystr where "window_kind = lit ''stream-quilt-window-checkpoint''"

text \<open>\<open>_body\<close>, with its fields in the canonical key order.\<close>

definition window_body :: "window_fold \<Rightarrow> wstate \<Rightarrow> json res" where
  "window_body w s =
     rbind (window_identity w) (\<lambda>identity. rbind (status_of s) (\<lambda>st.
       Inr (JObj
         [jfield ''cells'' (JArr (map (\<lambda>e. wcell_doc (snd e)) (sort_key fst (w_cells s)))),
          jfield ''configuration'' (window_configuration w), jfield ''counters'' (counters_doc s),
          jfield ''finished'' (JBool (w_finished s)), jfield ''identity'' (JStr identity),
          jfield ''kind'' (JStr window_kind),
          jfield ''phase'' (JStr (lit (wphase_name (ws_phase st)))),
          jfield ''version'' (JStr (lit ''1.0'')),
          jfield ''watermark'' (case w_watermark s of None \<Rightarrow> JNull | Some m \<Rightarrow> JInt m)])))"

text \<open>The consistency of the counters with the retained cells and the geometry.\<close>

definition check_counters :: "window_fold \<Rightarrow> wstate \<Rightarrow> unit res" where
  "check_counters w s =
     (let p = w_processed s; late = w_late s; gaps = w_gaps s; l = wf_limits w;
          folded = p - late - gaps; quotient = wf_width w div wf_hop w; remainder = wf_width w mod wf_hop w;
          low = max 1 quotient;
          high = min (wl_windows_per_input l) (max 1 (quotient + (if remainder \<noteq> 0 then 1 else 0)));
          retained = (\<Sum>e\<leftarrow>w_cells s. wc_count (snd e))
      in if wl_inputs l < p \<or> p < late + gaps then Inl ValidationError
         else if \<not> wf_drop_late w \<and> late \<noteq> 0 \<or> wf_hop w \<le> wf_width w \<and> gaps \<noteq> 0 then Inl ValidationError
         else if \<not> (folded * low \<le> w_updates s \<and> w_updates s \<le> folded * high) then Inl ValidationError
         else if w_created s \<noteq> int (length (w_cells s)) + w_emitted s \<or> w_updates s < w_created s
                 \<or> (w_created s = 0) \<noteq> (w_updates s = 0) then Inl ValidationError
         else if w_updates s \<noteq> retained + w_finalized s
                 \<or> \<not> (w_emitted s \<le> w_finalized s \<and> w_finalized s \<le> w_emitted s * folded)
                 \<or> list_ex (\<lambda>e. folded < wc_count (snd e)) (w_cells s) then Inl ValidationError
         else Inr ())"

definition unavailable :: callback where
  "unavailable = (\<lambda>_. Inl (CallbackError 0))"

definition read_tick :: "json \<Rightarrow> int res" where
  "read_tick v = rbind (read_int v) tick"

definition read_wname :: "json \<Rightarrow> pystr res" where
  "read_wname v = rbind (read_str v) wname"

definition read_hex :: "json \<Rightarrow> pystr res" where
  "read_hex v = rbind (read_str v) (\<lambda>s. if is_hex64 s then Inr s else Inl ValidationError)"

definition read_const :: "pystr \<Rightarrow> json \<Rightarrow> unit res" where
  "read_const s v = check (v = JStr s)"

definition read_window_limits :: "json \<Rightarrow> window_limits res" where
  "read_window_limits doc =
     rbind (doc_fields [''max_windows_per_input'', ''max_keys'', ''max_windows'', ''max_input_bytes'',
        ''max_state_value_bytes'', ''max_state_bytes'', ''max_row_bytes'', ''max_rows_per_batch'',
        ''max_batch_bytes'', ''max_inputs''] doc) (\<lambda>kvs.
     rbind (read_field kvs ''max_windows_per_input'' read_int) (\<lambda>a.
     rbind (read_field kvs ''max_keys'' read_int) (\<lambda>b. rbind (read_field kvs ''max_windows'' read_int) (\<lambda>c.
     rbind (read_field kvs ''max_input_bytes'' read_int) (\<lambda>d.
     rbind (read_field kvs ''max_state_value_bytes'' read_int) (\<lambda>e.
     rbind (read_field kvs ''max_state_bytes'' read_int) (\<lambda>f.
     rbind (read_field kvs ''max_row_bytes'' read_int) (\<lambda>g.
     rbind (read_field kvs ''max_rows_per_batch'' read_int) (\<lambda>i.
     rbind (read_field kvs ''max_batch_bytes'' read_int) (\<lambda>j.
     rbind (read_field kvs ''max_inputs'' read_int) (\<lambda>k.
     let l = \<lparr>wl_windows_per_input = a, wl_keys = b, wl_windows = c, wl_input_bytes = d,
              wl_state_value_bytes = e, wl_state_bytes = f, wl_row_bytes = g, wl_rows_per_batch = i,
              wl_batch_bytes = j, wl_inputs = k\<rparr>
     in if window_limits_ok l then Inr l else Inl ValidationError)))))))))))"

definition read_late :: "json \<Rightarrow> bool res" where
  "read_late v =
     (if v = JStr (lit ''reject'') then Inr False
      else if v = JStr (lit ''drop'') then Inr True else Inl ValidationError)"

text \<open>\<open>_read_spec\<close>: the configuration back as a declaration whose callbacks must not run.\<close>

definition read_window_fold :: "json \<Rightarrow> window_fold res" where
  "read_window_fold doc =
     rbind (doc_fields [''fold_id'', ''revision'', ''width'', ''hop'', ''origin'', ''tick_unit'', ''order'',
        ''late_policy'', ''finalizer'', ''limits''] doc) (\<lambda>kvs.
     rbind (read_field kvs ''order'' (read_const (lit ''arrival''))) (\<lambda>_.
     rbind (read_field kvs ''finalizer'' read_bool) (\<lambda>finalizer.
     rbind (read_field kvs ''limits'' read_window_limits) (\<lambda>l.
     rbind (read_field kvs ''fold_id'' read_wname) (\<lambda>fold_id.
     rbind (read_field kvs ''revision'' read_wname) (\<lambda>revision.
     rbind (read_field kvs ''tick_unit'' read_wname) (\<lambda>unit.
     rbind (read_field kvs ''width'' read_int) (\<lambda>width.
     rbind (read_field kvs ''hop'' read_int) (\<lambda>hop.
     rbind (read_field kvs ''origin'' read_tick) (\<lambda>origin.
     rbind (read_field kvs ''late_policy'' read_late) (\<lambda>late.
       make_window_fold
         \<lparr>wf_id = fold_id, wf_revision = revision, wf_width = width, wf_initial = unavailable,
          wf_fold = unavailable, wf_hop = hop, wf_origin = origin, wf_tick_unit = unit,
          wf_finalize = (if finalizer then Some unavailable else None), wf_drop_late = late,
          wf_limits = l\<rparr> (Some hop))))))))))))"

text \<open>One turn of the loop over the raw cells: the previous identity, the byte total, the keys
  seen and the cells so far.\<close>

definition read_wcell :: "window_fold \<Rightarrow> json \<Rightarrow> window_key option \<times> int \<times> pystr list \<times> (window_key, wcell) dict
    \<Rightarrow> (window_key option \<times> int \<times> pystr list \<times> (window_key, wcell) dict) res" where
  "read_wcell w raw s =
     (let (previous, total, keys, cells) = s; l = wf_limits w
      in rbind (doc_fields [''key'', ''index'', ''start'', ''end'', ''input_count'', ''state''] raw) (\<lambda>kvs.
         rbind (read_field kvs ''key'' read_wname) (\<lambda>k.
         rbind (read_field kvs ''index'' read_int) (\<lambda>index.
         rbind (geometry w index) (\<lambda>(start, stop).
         rbind (read_field kvs ''start'' read_tick) (\<lambda>start'.
         rbind (read_field kvs ''end'' read_tick) (\<lambda>stop'.
         if (start', stop') \<noteq> (start, stop) then Inl ValidationError
         else if (case previous of None \<Rightarrow> False | Some p \<Rightarrow> (index, k) \<le> p) then Inl ValidationError
         else
           rbind (read_field kvs ''input_count'' read_int) (\<lambda>cnt. rbind (count cnt 1 MAX_COUNT) (\<lambda>_.
           rbind (read_field kvs ''state'' read_str) (\<lambda>state.
           rbind (bounded_text state (wl_state_value_bytes l)) (\<lambda>_.
           rbind (encode_json raw (wl_state_bytes l - total)) (\<lambda>t.
           let keys = (if k \<in> set keys then keys else k # keys)
           in if wl_keys l < int (length keys) then Inl ValidationError
              else Inr (Some (index, k), total + byte_len t, keys,
                     dput (index, k)
                       \<lparr>wc_key = k, wc_index = index, wc_start = start, wc_end = stop, wc_count = cnt,
                        wc_encoded = state, wc_bytes = byte_len t\<rparr> cells)))))))))))))"

definition recheck_wcell :: "window_fold \<Rightarrow> window_key \<times> wcell \<Rightarrow> (window_key, wcell) dict
    \<Rightarrow> (window_key, wcell) dict res" where
  "recheck_wcell w e cells =
     rbind (checked_value (wc_encoded (snd e)) (wl_state_value_bytes (wf_limits w))) (\<lambda>encoded.
     rbind (make_wcell w (wc_key (snd e)) (wc_index (snd e)) (wc_count (snd e)) encoded) (\<lambda>c.
       Inr (dput (fst e) c cells)))"

definition read_counter :: "(pystr, json) dict \<Rightarrow> string \<Rightarrow> int res" where
  "read_counter kvs name = read_field kvs name (\<lambda>v. count_json v 0 MAX_COUNT)"

definition read_watermark :: "json \<Rightarrow> int option res" where
  "read_watermark v = (if v = JNull then Inr None else rbind (read_tick v) (\<lambda>m. Inr (Some m)))"

definition read_window_state :: "window_fold \<Rightarrow> (pystr, json) dict \<Rightarrow> wstate res" where
  "read_window_state w body =
     rbind (read_field body ''watermark'' read_watermark) (\<lambda>watermark.
     rbind (read_field body ''finished'' read_bool) (\<lambda>finished.
     rbind (read_field body ''counters'' (doc_fields [''processed_inputs'', ''late_drops'', ''gap_inputs'',
        ''membership_updates'', ''created_windows'', ''emitted_windows'', ''finalized_memberships''])) (\<lambda>cs.
     rbind (read_counter cs ''processed_inputs'') (\<lambda>processed. rbind (read_counter cs ''late_drops'') (\<lambda>late.
     rbind (read_counter cs ''gap_inputs'') (\<lambda>gaps. rbind (read_counter cs ''membership_updates'') (\<lambda>updates.
     rbind (read_counter cs ''created_windows'') (\<lambda>created. rbind (read_counter cs ''emitted_windows'') (\<lambda>emitted.
     rbind (read_counter cs ''finalized_memberships'') (\<lambda>finalized.
     rbind (read_field body ''cells'' (read_list Inr)) (\<lambda>raws.
     if wl_windows (wf_limits w) < int (length raws) then Inl ValidationError
     else rbind (fold_res (read_wcell w) raws (None, 0, [], [])) (\<lambda>(_, total, _, cells).
          Inr \<lparr>w_cells = cells, w_watermark = watermark, w_finished = finished, w_processed = processed,
               w_late = late, w_gaps = gaps, w_updates = updates, w_created = created,
               w_emitted = emitted, w_finalized = finalized, w_bytes = total\<rparr>))))))))))))"

text \<open>\<open>_validate_document\<close>: the declaration, the state and the canonical text of a document.\<close>

definition validate_window :: "json \<Rightarrow> window_fold option \<Rightarrow> (window_fold \<times> wstate \<times> pystr) res" where
  "validate_window doc supplied =
     rbind (doc_fields [''body'', ''sha256''] doc) (\<lambda>kvs.
     rbind (read_field kvs ''sha256'' read_hex) (\<lambda>digest.
     rbind (doc_get kvs ''body'') (\<lambda>body_doc.
     rbind (doc_fields [''kind'', ''version'', ''configuration'', ''identity'', ''watermark'', ''finished'',
        ''phase'', ''counters'', ''cells''] body_doc) (\<lambda>body.
     rbind (read_field body ''kind'' (read_const window_kind)) (\<lambda>_.
     rbind (read_field body ''version'' (read_const (lit ''1.0''))) (\<lambda>_.
     rbind (read_field body ''configuration'' read_window_fold) (\<lambda>stored.
     rbind (read_field body ''identity'' read_hex) (\<lambda>identity.
     rbind (window_identity stored) (\<lambda>stored_identity.
     if identity \<noteq> stored_identity then Inl ValidationError
     else
       rbind (case supplied of
                None \<Rightarrow> Inr stored
              | Some w \<Rightarrow> rbind (window_identity w) (\<lambda>i.
                  if i \<noteq> stored_identity then Inl ValidationError else Inr w)) (\<lambda>w.
       rbind (read_window_state w body) (\<lambda>s.
       rbind (encode_json body_doc MAX_WIRE) (\<lambda>encoded_body.
       if digest \<noteq> sha256_hex encoded_body then Inl ValidationError
       else
         rbind (check_counters w s) (\<lambda>_.
         rbind (status_of s) (\<lambda>st.
         rbind (read_field body ''phase'' (read_const (lit (wphase_name (ws_phase st))))) (\<lambda>_.
         rbind (fold_res (recheck_wcell w) (w_cells s) (w_cells s)) (\<lambda>cells.
         rbind (encode_json doc MAX_WIRE) (\<lambda>t.
           Inr (w, s\<lparr>w_cells := cells\<rparr>, t))))))))))))))))))"

text \<open>\<open>WindowCheckpoint\<close> holds the canonical text; \<open>to_dict\<close> validates it again.\<close>

definition make_window_checkpoint :: "json \<Rightarrow> pystr res" where
  "make_window_checkpoint doc = rbind (validate_window doc None) (\<lambda>(_, _, t). Inr t)"

definition window_checkpoint_to_dict :: "pystr \<Rightarrow> json res" where
  "window_checkpoint_to_dict t =
     rbind (bounded_text t MAX_WIRE) (\<lambda>_. rbind (load_json t) (\<lambda>doc.
     rbind (validate_window doc None) (\<lambda>(_, _, u). if u \<noteq> t then Inl ValidationError else Inr doc)))"

definition window_checkpoint_to_json :: "pystr \<Rightarrow> pystr res" where
  "window_checkpoint_to_json t = rbind (window_checkpoint_to_dict t) (\<lambda>_. Inr t)"

definition window_checkpoint_from_json :: "pystr \<Rightarrow> pystr res" where
  "window_checkpoint_from_json payload =
     rbind (bounded_text payload MAX_WIRE) (\<lambda>t. rbind (load_json t) (\<lambda>doc.
     rbind (make_window_checkpoint doc) (\<lambda>u. if u \<noteq> t then Inl ValidationError else Inr u)))"

section \<open>The runtime\<close>

record window_runtime =
  wt_spec :: window_fold
  wt_state :: wstate
  wt_busy :: bool

definition make_window_runtime :: "window_fold \<Rightarrow> window_runtime res" where
  "make_window_runtime w =
     (if window_fold_ok w then Inr \<lparr>wt_spec = w, wt_state = empty_wstate, wt_busy = False\<rparr>
      else Inl ValidationError)"

datatype window_op = WProcess int flow_record | WAdvance int | WFinish | WDrain int

datatype window_reply = RProcessed window_result | RStatus window_status | RBatch window_batch

definition window_stage :: "window_fold \<Rightarrow> window_op \<Rightarrow> wstate \<Rightarrow> (wstate \<times> window_reply) res" where
  "window_stage w op s =
     (case op of
        WProcess t r \<Rightarrow> rbind (stage_process w no_window_hooks s t r ()) (\<lambda>(s, r, _). Inr (s, RProcessed r))
      | WAdvance t \<Rightarrow> rbind (stage_advance s t) (\<lambda>(s, st). Inr (s, RStatus st))
      | WFinish \<Rightarrow> rbind (stage_finish s) (\<lambda>(s, st). Inr (s, RStatus st))
      | WDrain n \<Rightarrow> rbind (stage_drain w no_window_hooks s n ()) (\<lambda>(s, b, _). Inr (s, RBatch b)))"

text \<open>The public operations, inside \<open>_operation\<close>.\<close>

definition window_apply :: "window_op \<Rightarrow> window_runtime \<Rightarrow> window_reply res \<times> window_runtime" where
  "window_apply op rt =
     (if wt_busy rt then (Inl ValidationError, rt)
      else let rt1 = rt\<lparr>wt_busy := True\<rparr>
           in (case window_stage (wt_spec rt1) op (wt_state rt1) of
                 Inl e \<Rightarrow> (Inl e, rt1\<lparr>wt_busy := False\<rparr>)
               | Inr (after, reply) \<Rightarrow> (Inr reply, rt1\<lparr>wt_state := after, wt_busy := False\<rparr>)))"

definition window_checkpoint_of :: "window_runtime \<Rightarrow> pystr res" where
  "window_checkpoint_of rt =
     (if wt_busy rt then Inl ValidationError
      else rbind (window_body (wt_spec rt) (wt_state rt)) (\<lambda>body.
           rbind (encode_json body MAX_WIRE) (\<lambda>t.
             make_window_checkpoint (JObj [jfield ''body'' body, jfield ''sha256'' (JStr (sha256_hex t))]))))"

definition window_from_checkpoint :: "window_fold \<Rightarrow> pystr \<Rightarrow> window_runtime res" where
  "window_from_checkpoint w t =
     rbind (make_window_runtime w) (\<lambda>rt.
     rbind (window_checkpoint_to_dict t) (\<lambda>doc.
     rbind (validate_window doc (Some w)) (\<lambda>(_, s, _). Inr (rt\<lparr>wt_state := s\<rparr>))))"

end
