(* ===== verification/Window_Graph.thy ===== *)
theory Window_Graph
  imports Branching Window_Fold
begin

text \<open>
  \<open>window_graph.py\<close>: graphs with exactly one window node, which every path to an output crosses.
  An input walks the part before the window and is folded there; a drain sends each closed window
  as one record through the part behind it. One operation is one transaction over the ordinary
  keyed state, the window state, the delivery counts and the aggregate budgets.
\<close>

section \<open>Declarations\<close>

type_synonym wgraph_node = "window_fold graph_node"

definition flow_window_ok :: "pystr \<Rightarrow> window_fold \<Rightarrow> bool" where
  "flow_window_ok i w \<longleftrightarrow> is_label i \<and> window_fold_ok w \<and> i = wf_id w"

fun window_node_ok :: "wgraph_node \<Rightarrow> bool" where
  "window_node_ok (GOther i w) = flow_window_ok i w"
| "window_node_ok n = graph_node_ok n"

text \<open>The stand-in of the window node for the checks of the ordinary graph; it never runs.\<close>

fun plain_node :: "wgraph_node \<Rightarrow> unit graph_node" where
  "plain_node (GOther i w) =
     GStep \<lparr>step_id = i, step_op = OMap, step_function = Some unavailable, step_initial = None\<rparr>"
| "plain_node (GStep s) = GStep s"
| "plain_node (GBranch i f) = GBranch i f"
| "plain_node (GMerge i) = GMerge i"

definition window_nodes :: "wgraph_node list \<Rightarrow> (pystr \<times> window_fold) list" where
  "window_nodes nodes = concat (map (\<lambda>n. case n of GOther i w \<Rightarrow> [(i, w)] | _ \<Rightarrow> []) nodes)"

definition MAX_GRAPH_CELLS :: int where "MAX_GRAPH_CELLS = 100000"
definition MAX_GRAPH_STATE :: int where "MAX_GRAPH_STATE = 64 * 1024 * 1024"
definition MAX_MANIFEST :: int where "MAX_MANIFEST = 512 * 1024"
definition MAX_HEADER :: int where "MAX_HEADER = 1024 * 1024"

record window_graph_limits =
  wgl_graph :: graph_limits
  wgl_cells :: int
  wgl_bytes :: int
  wgl_inputs :: int

definition window_graph_limits_ok :: "window_graph_limits \<Rightarrow> bool" where
  "window_graph_limits_ok l \<longleftrightarrow>
     graph_limits_ok (wgl_graph l)
     \<and> 1 \<le> wgl_cells l \<and> wgl_cells l \<le> MAX_GRAPH_CELLS
     \<and> 1 \<le> wgl_bytes l \<and> wgl_bytes l \<le> MAX_GRAPH_STATE
     \<and> 1 \<le> wgl_inputs l \<and> wgl_inputs l \<le> MAX_COUNT"

definition window_graph_limits_doc :: "window_graph_limits \<Rightarrow> json" where
  "window_graph_limits_doc l = JObj
     [jfield ''graph'' (graph_limits_doc (wgl_graph l)), jfield ''max_source_inputs'' (JInt (wgl_inputs l)),
      jfield ''max_state_bytes'' (JInt (wgl_bytes l)), jfield ''max_state_cells'' (JInt (wgl_cells l))]"

record window_graph =
  wg_flow_id :: pystr
  wg_revision :: pystr
  wg_nodes :: "wgraph_node list"
  wg_edges :: "flow_edge list"
  wg_entry :: pystr
  wg_limits :: window_graph_limits

definition plain_graph :: "window_graph \<Rightarrow> graph_dataflow" where
  "plain_graph g = \<lparr>gd_flow_id = wg_flow_id g, gd_revision = wg_revision g, gd_nodes = map plain_node (wg_nodes g),
     gd_edges = wg_edges g, gd_entry = wg_entry g, gd_limits = wgl_graph (wg_limits g)\<rparr>"

text \<open>The nodes that are reached without crossing the window, in one pass over the order.\<close>

definition mark_bypass :: "flow_edge list \<Rightarrow> pystr \<Rightarrow> pystr \<Rightarrow> pystr list \<Rightarrow> pystr list" where
  "mark_bypass es window k bypass =
     (if k \<in> set bypass then bypass @ filter (\<lambda>t. t \<noteq> window) (map edge_target (edges_from es k)) else bypass)"

definition row_reservable :: "graph_limits \<Rightarrow> window_fold \<Rightarrow> int \<Rightarrow> bool" where
  "row_reservable gl w copies \<longleftrightarrow>
     (let row = wl_row_bytes (wf_limits w); op = operator_limits gl
      in \<not> (max_record_bytes op < row \<or> max_batch_bytes op < row
            \<or> max_work_records gl < copies \<or> max_work_bytes gl < copies * row))"

definition graph_drain_cap :: "graph_limits \<Rightarrow> window_fold \<Rightarrow> int \<Rightarrow> int" where
  "graph_drain_cap gl w copies =
     (let l = wf_limits w; row = wl_row_bytes l; op = operator_limits gl;
          cap = min (wl_rows_per_batch l) (min (wl_batch_bytes l div row) (min (max_records_per_input op)
                  (min (max_batch_bytes op div row) (min (max_work_records gl div copies)
                    (max_work_bytes gl div (copies * row))))))
      in if wf_finalize w = None then cap else min cap (max_calls_per_input op))"

definition window_node_doc :: "wgraph_node \<Rightarrow> json" where
  "window_node_doc n =
     (case n of
        GOther i w \<Rightarrow> JObj [jfield ''fold'' (window_configuration w), jfield ''operator'' (JStr (lit ''window_fold'')),
                           jfield ''step_id'' (JStr i)]
      | _ \<Rightarrow> JObj [jfield ''operator'' (JStr (lit (node_operator n))), jfield ''step_id'' (JStr (node_id n))])"

definition policies_doc :: json where
  "policies_doc = JObj
     [jfield ''callback_budget'' (JStr (lit ''operation'')), jfield ''drain_order'' (JStr (lit ''window-major'')),
      jfield ''order'' (JStr (lit ''arrival'')), jfield ''timestamp'' (JStr (lit ''source-preserved''))]"

definition window_graph_to_dict :: "window_graph \<Rightarrow> json" where
  "window_graph_to_dict g = JObj
     [jfield ''edges'' (JArr (map edge_doc (wg_edges g))), jfield ''entry'' (JStr (wg_entry g)),
      jfield ''flow_id'' (JStr (wg_flow_id g)), jfield ''kind'' (JStr (lit ''stream-quilt-window-graph'')),
      jfield ''limits'' (window_graph_limits_doc (wg_limits g)),
      jfield ''nodes'' (JArr (map window_node_doc (wg_nodes g))), jfield ''policies'' policies_doc,
      jfield ''revision'' (JStr (wg_revision g)), jfield ''version'' (JStr (lit ''1.0''))]"

definition window_graph_identity :: "window_graph \<Rightarrow> pystr res" where
  "window_graph_identity g = rbind (encode_json (window_graph_to_dict g) MAX_MANIFEST) (\<lambda>t. Inr (sha256_hex t))"

section \<open>State\<close>

record wgraph_state =
  gs_ordinary :: "(state_key, pystr) dict"
  gs_ordinary_bytes :: int
  gs_cell_bytes :: int
  gs_window :: wstate
  gs_next :: int
  gs_operations :: int
  gs_watermarks :: int
  gs_drains :: int
  gs_emitted :: int
  gs_edges :: "int list"

definition ordinary_wire :: "state_key \<Rightarrow> pystr \<Rightarrow> json" where
  "ordinary_wire k encoded = JObj
     [jfield ''key'' (JStr (snd k)), jfield ''state'' (JStr encoded), jfield ''step_id'' (JStr (fst k))]"

definition ordinary_size :: "state_key \<Rightarrow> pystr \<Rightarrow> int res" where
  "ordinary_size k encoded = rbind (encode_json (ordinary_wire k encoded) MAX_GRAPH_STATE) (\<lambda>t. Inr (byte_len t))"

section \<open>The checkpoint document and its reserved header\<close>

definition graph_body :: "window_graph \<Rightarrow> pystr \<Rightarrow> wgraph_state \<Rightarrow> json \<Rightarrow> json" where
  "graph_body g identity s window = JObj
     [jfield ''configuration'' (window_graph_to_dict g),
      jfield ''counters'' (JObj [jfield ''drain_operations'' (JInt (gs_drains s)),
         jfield ''emitted_records'' (JInt (gs_emitted s)), jfield ''watermark_advances'' (JInt (gs_watermarks s))]),
      jfield ''edge_counts'' (JArr (map JInt (gs_edges s))), jfield ''identity'' (JStr identity),
      jfield ''kind'' (JStr (lit ''stream-quilt-window-graph-checkpoint'')),
      jfield ''next_position'' (JInt (gs_next s)), jfield ''operation_sequence'' (JInt (gs_operations s)),
      jfield ''ordinary_cells'' (JArr (map (\<lambda>e. ordinary_wire (fst e) (snd e)) (sort_key fst (gs_ordinary s)))),
      jfield ''source_finished'' (JBool (w_finished (gs_window s))), jfield ''version'' (JStr (lit ''1.0'')),
      jfield ''window'' window]"

definition signed_doc :: "json \<Rightarrow> pystr \<Rightarrow> json" where
  "signed_doc body digest = JObj [jfield ''body'' body, jfield ''sha256'' (JStr digest)]"

definition max_counters :: json where
  "max_counters = counters_doc \<lparr>w_cells = [], w_watermark = None, w_finished = False, w_processed = MAX_COUNT,
     w_late = MAX_COUNT, w_gaps = MAX_COUNT, w_updates = MAX_COUNT, w_created = MAX_COUNT, w_emitted = MAX_COUNT,
     w_finalized = MAX_COUNT, w_bytes = 0\<rparr>"

definition header_reservation :: "window_graph \<Rightarrow> window_fold \<Rightarrow> int res" where
  "header_reservation g w =
     rbind (window_body w empty_wstate) (\<lambda>body.
       (case body of
          JObj kvs \<Rightarrow>
            (let widest = JObj (dput (lit ''watermark'') (JInt (- MAX_COUNT)) (dput (lit ''finished'') (JBool False)
                   (dput (lit ''phase'') (JStr (lit ''draining'')) (dput (lit ''counters'') max_counters kvs))));
                 zeros = replicate 64 (lit ''0'' ! 0);
                 s = \<lparr>gs_ordinary = [], gs_ordinary_bytes = 0, gs_cell_bytes = 0, gs_window = empty_wstate,
                      gs_next = MAX_COUNT, gs_operations = MAX_COUNT, gs_watermarks = MAX_COUNT, gs_drains = MAX_COUNT,
                      gs_emitted = MAX_COUNT, gs_edges = replicate (length (wg_edges g)) MAX_COUNT\<rparr>
             in rbind (window_graph_identity g) (\<lambda>identity.
                rbind (encode_json (signed_doc (graph_body g identity s (signed_doc widest zeros)) zeros) MAX_HEADER) (\<lambda>t.
                  Inr (byte_len t))))
        | _ \<Rightarrow> Inl ValidationError))"

section \<open>The constructor\<close>

record graph_plan =
  pl_order :: "pystr list"
  pl_window :: pystr
  pl_fold :: window_fold
  pl_prefix :: "pystr list"
  pl_cap :: int

definition window_graph_check :: "window_graph \<Rightarrow> graph_plan res" where
  "window_graph_check g =
     (let es = wg_edges g; gl = wgl_graph (wg_limits g)
      in if \<not> (is_label (wg_flow_id g) \<and> is_label (wg_revision g) \<and> is_label (wg_entry g)) then Inl ValidationError
         else if \<not> (2 \<le> length (wg_nodes g) \<and> length (wg_nodes g) \<le> 64) then Inl ValidationError
         else if \<not> (1 \<le> length es \<and> length es \<le> 256) then Inl ValidationError
         else if \<not> window_graph_limits_ok (wg_limits g) then Inl ValidationError
         else if \<not> list_all window_node_ok (wg_nodes g) then Inl ValidationError
         else (case window_nodes (wg_nodes g) of
                 [(i, w)] \<Rightarrow>
                   if i = wg_entry g then Inl ValidationError
                   else
                     rbind (graph_check (plain_graph g)) (\<lambda>order.
                     let prefix = fold (mark_bypass es i) order [wg_entry g];
                         copies = 1 + int (length (edges_from es i))
                     in if list_ex (\<lambda>k. k \<in> set prefix \<and> edges_from es k = []) (map node_id (wg_nodes g))
                        then Inl ValidationError
                        else if \<not> row_reservable gl w copies then Inl ValidationError
                        else
                          rbind (encode_json (window_graph_to_dict g) MAX_MANIFEST) (\<lambda>_.
                          rbind (header_reservation g w) (\<lambda>_.
                            Inr \<lparr>pl_order = order, pl_window = i, pl_fold = w, pl_prefix = prefix,
                                 pl_cap = graph_drain_cap gl w copies\<rparr>)))
               | _ \<Rightarrow> Inl ValidationError))"

section \<open>Inputs and batches\<close>

record wgraph_input =
  gi_position :: int
  gi_timestamp :: int
  gi_record :: flow_record

definition graph_input_check :: "wgraph_input \<Rightarrow> wgraph_input res" where
  "graph_input_check x =
     rbind (count (gi_position x) 0 MAX_COUNT) (\<lambda>_. rbind (tick (gi_timestamp x)) (\<lambda>_.
     rbind (case rec_key (gi_record x) of None \<Rightarrow> Inr [] | Some k \<Rightarrow> wname k) (\<lambda>_.
     rbind (checked_value (rec_json (gi_record x)) (8 * 1024 * 1024)) (\<lambda>_. Inr x))))"

record wgraph_batch =
  gb_outputs :: "graph_output list"
  gb_operations :: int
  gb_next :: int
  gb_status :: window_status
  gb_folded :: int
  gb_late :: int
  gb_gaps :: int
  gb_updates :: int
  gb_drained :: int

definition wgraph_batch_check :: "wgraph_batch \<Rightarrow> wgraph_batch res" where
  "wgraph_batch_check b =
     (if 1000000 < length (gb_outputs b) then Inl ValidationError
      else if \<not> list_all (\<lambda>x. is_label (out_step x)) (gb_outputs b) then Inl ValidationError
      else rbind (window_status_check (gb_status b)) (\<lambda>_.
           rbind (map_res (\<lambda>n. count n 0 MAX_COUNT)
             [gb_operations b, gb_next b, gb_folded b, gb_late b, gb_gaps b, gb_updates b, gb_drained b]) (\<lambda>_.
             if MAX_GRAPH_CELLS < gb_drained b then Inl ValidationError else Inr b)))"

definition graph_batch :: "wgraph_state \<Rightarrow> wgraph_state \<Rightarrow> graph_output list \<Rightarrow> wgraph_batch res" where
  "graph_batch before after outputs =
     (let old = gs_window before; new = gs_window after; drops = w_late new - w_late old; gaps = w_gaps new - w_gaps old
      in rbind (status_of new) (\<lambda>st.
           wgraph_batch_check
             \<lparr>gb_outputs = outputs, gb_operations = gs_operations after, gb_next = gs_next after, gb_status = st,
              gb_folded = w_processed new - w_processed old - drops - gaps, gb_late = drops, gb_gaps = gaps,
              gb_updates = w_updates new - w_updates old, gb_drained = w_emitted new - w_emitted old\<rparr>))"

section \<open>The budgets of one operation\<close>

record graph_hook =
  gh_cells :: int
  gh_bytes :: int
  gh_records :: int
  gh_work :: int
  gh_reserved_records :: int
  gh_reserved_work :: int
  gh_edges :: "int list"
  gh_window :: wstate
  gh_outputs :: "graph_output list"

definition cells_check :: "window_graph_limits \<Rightarrow> graph_hook \<Rightarrow> graph_hook res" where
  "cells_check l h = (if wgl_cells l < gh_cells h \<or> wgl_bytes l < gh_bytes h then Inl ValidationError else Inr h)"

definition opt_size :: "state_key \<Rightarrow> pystr option \<Rightarrow> int res" where
  "opt_size k x = (case x of None \<Rightarrow> Inr 0 | Some t \<Rightarrow> ordinary_size k t)"

definition cells_ordinary :: "window_graph_limits \<Rightarrow> state_key \<Rightarrow> pystr option \<Rightarrow> pystr option \<Rightarrow> graph_hook \<Rightarrow> graph_hook res" where
  "cells_ordinary l k previous v h =
     rbind (opt_size k v) (\<lambda>n. rbind (opt_size k previous) (\<lambda>m.
       cells_check l (h\<lparr>gh_cells := gh_cells h + (opt_one v - opt_one previous), gh_bytes := gh_bytes h + (n - m)\<rparr>)))"

definition cells_reserve :: "window_graph_limits \<Rightarrow> wcell list \<Rightarrow> int \<Rightarrow> graph_hook \<Rightarrow> graph_hook res" where
  "cells_reserve l removed added h =
     cells_check l (h\<lparr>gh_cells := gh_cells h + (added - int (length removed)),
                      gh_bytes := gh_bytes h - (\<Sum>c\<leftarrow>removed. wc_bytes c)\<rparr>)"

definition cells_admit :: "window_graph_limits \<Rightarrow> wcell \<Rightarrow> graph_hook \<Rightarrow> graph_hook res" where
  "cells_admit l c h = cells_check l (h\<lparr>gh_bytes := gh_bytes h + wc_bytes c\<rparr>)"

definition work_ensure :: "graph_limits \<Rightarrow> int \<Rightarrow> int \<Rightarrow> graph_hook \<Rightarrow> unit res" where
  "work_ensure gl records bytes h =
     check (\<not> (max_work_records gl < gh_records h + gh_reserved_records h + records
               \<or> max_work_bytes gl < gh_work h + gh_reserved_work h + bytes))"

definition work_charge :: "graph_limits \<Rightarrow> flow_record \<Rightarrow> graph_hook \<Rightarrow> graph_hook res" where
  "work_charge gl r h =
     (if max_record_bytes (operator_limits gl) < rec_size r then Inl ValidationError
      else rbind (work_ensure gl 1 (rec_size r) h) (\<lambda>_.
             Inr (h\<lparr>gh_records := gh_records h + 1, gh_work := gh_work h + rec_size r\<rparr>)))"

definition edge_index :: "flow_edge \<Rightarrow> flow_edge list \<Rightarrow> nat" where
  "edge_index e es = length (takeWhile (\<lambda>x. x \<noteq> e) es)"

definition count_delivery :: "window_graph \<Rightarrow> flow_edge \<Rightarrow> nat \<Rightarrow> graph_hook \<Rightarrow> graph_hook res" where
  "count_delivery g e n h =
     (let i = edge_index e (wg_edges g)
      in rbind (count (gh_edges h ! i + int n) 0 MAX_COUNT) (\<lambda>m. Inr (h\<lparr>gh_edges := (gh_edges h)[i := m]\<rparr>)))"

text \<open>The hooks of the window stages; the callbacks of the window share the budget of the transaction.\<close>

definition stage_hooks :: "window_graph \<Rightarrow> (window_row \<Rightarrow> flow_tx \<times> graph_hook \<Rightarrow> (flow_tx \<times> graph_hook) res)
    \<Rightarrow> (flow_tx \<times> graph_hook) window_hooks" where
  "stage_hooks g on_row =
     \<lparr>wh_call = (\<lambda>(tx, h).
        if max_calls_per_input (operator_limits (wgl_graph (wg_limits g))) < tx_calls tx + 1 then Inl ValidationError
        else Inr (tx\<lparr>tx_calls := tx_calls tx + 1\<rparr>, h)),
      wh_reserve = (\<lambda>removed added (tx, h). rbind (cells_reserve (wg_limits g) removed added h) (\<lambda>h. Inr (tx, h))),
      wh_admit = (\<lambda>c (tx, h). rbind (cells_admit (wg_limits g) c h) (\<lambda>h. Inr (tx, h))),
      wh_row = on_row\<rparr>"

definition fold_record :: "window_graph \<Rightarrow> window_fold \<Rightarrow> int \<Rightarrow> flow_record \<Rightarrow> flow_tx \<times> graph_hook
    \<Rightarrow> (flow_tx \<times> graph_hook) res" where
  "fold_record g w timestamp r s =
     rbind (stage_process w (stage_hooks g (\<lambda>_. Inr)) (gh_window (snd s)) timestamp r s) (\<lambda>(window, _, tx, h).
       Inr (tx, h\<lparr>gh_window := window\<rparr>))"

definition window_extension :: "window_graph \<Rightarrow> graph_plan \<Rightarrow> int \<Rightarrow> pystr \<Rightarrow> (flow_edge \<times> flow_record list) list
    \<Rightarrow> flow_tx \<times> graph_hook \<Rightarrow> (flow_record list \<times> flow_tx \<times> graph_hook) res" where
  "window_extension g p timestamp k batches s =
     (if k \<noteq> pl_window p then Inl ValidationError
      else rbind (fold_res (fold_record g (pl_fold p) timestamp) (concat (map snd batches)) s) (\<lambda>s. Inr ([], s)))"

definition window_walk :: "window_graph \<Rightarrow> (state_key, pystr) dict \<Rightarrow> (window_fold, unit, graph_hook) walk_params" where
  "window_walk g base =
     \<lparr>wp_limits = operator_limits (wgl_graph (wg_limits g)), wp_base = base, wp_nodes = node_of (wg_nodes g),
      wp_incoming = edges_into (wg_edges g), wp_outgoing = edges_from (wg_edges g), wp_seeds = [],
      wp_hooks = \<lparr>on_propose = cells_ordinary (wg_limits g), on_emit = work_charge (wgl_graph (wg_limits g))\<rparr>,
      wp_extension = None, wp_seed_outputs = [], wp_delivered = count_delivery g\<rparr>"

section \<open>Operations\<close>

definition begin_hook :: "wgraph_state \<Rightarrow> graph_hook" where
  "begin_hook s =
     \<lparr>gh_cells = int (length (gs_ordinary s)) + int (length (w_cells (gs_window s))), gh_bytes = gs_cell_bytes s,
      gh_records = 0, gh_work = 0, gh_reserved_records = 0, gh_reserved_work = 0, gh_edges = gs_edges s,
      gh_window = gs_window s, gh_outputs = []\<rparr>"

definition commit_graph :: "bool \<Rightarrow> wgraph_state \<Rightarrow> flow_tx \<times> graph_hook \<Rightarrow> (wgraph_state \<times> wgraph_batch) res" where
  "commit_graph input before s =
     (let (tx, h) = s; (ordinary, bytes) = commit_tx (gs_ordinary before) tx;
          after = \<lparr>gs_ordinary = ordinary, gs_ordinary_bytes = bytes, gs_cell_bytes = gh_bytes h, gs_window = gh_window h,
             gs_next = gs_next before + (if input then 1 else 0), gs_operations = gs_operations before + 1,
             gs_watermarks = gs_watermarks before, gs_drains = gs_drains before + (if input then 0 else 1),
             gs_emitted = gs_emitted before + int (length (gh_outputs h)), gs_edges = gh_edges h\<rparr>
      in rbind (graph_batch before after (gh_outputs h)) (\<lambda>b. Inr (after, b)))"

definition execute_input :: "window_graph \<Rightarrow> graph_plan \<Rightarrow> wgraph_input \<Rightarrow> wgraph_state \<Rightarrow> (wgraph_state \<times> wgraph_batch) res" where
  "execute_input g p x before =
     rbind (work_charge (wgl_graph (wg_limits g)) (gi_record x) (begin_hook before)) (\<lambda>h.
     rbind (walk_graph ((window_walk g (gs_ordinary before))
              \<lparr>wp_seeds := [(wg_entry g, [gi_record x])], wp_extension := Some (window_extension g p (gi_timestamp x))\<rparr>)
              (pl_order p) (begin_tx (gs_ordinary before) (gs_ordinary_bytes before), h)) (\<lambda>(outputs, tx, h).
       commit_graph True before (tx, h\<lparr>gh_outputs := outputs\<rparr>)))"

text \<open>One closed window: its reservation is released, its record walks the part behind the window.\<close>

definition row_walk :: "window_graph \<Rightarrow> graph_plan \<Rightarrow> wgraph_state \<Rightarrow> window_row \<Rightarrow> flow_tx \<times> graph_hook
    \<Rightarrow> (flow_tx \<times> graph_hook) res" where
  "row_walk g p before row s =
     (let (tx, h) = s; copies = 1 + int (length (edges_from (wg_edges g) (pl_window p)));
          maximum = wl_row_bytes (wf_limits (pl_fold p))
      in rbind (window_row_to_record row) (\<lambda>r.
         let h = h\<lparr>gh_reserved_records := gh_reserved_records h - copies,
                   gh_reserved_work := gh_reserved_work h - copies * maximum\<rparr>
         in rbind (walk_graph ((window_walk g (gs_ordinary before))\<lparr>wp_seed_outputs := [(pl_window p, [r])]\<rparr>)
                     (pl_order p) (tx, h)) (\<lambda>(current, tx, h).
            rbind (count (gs_emitted before + int (length (gh_outputs h)) + int (length current)) 0 MAX_COUNT) (\<lambda>_.
              Inr (tx, h\<lparr>gh_outputs := gh_outputs h @ current\<rparr>)))))"

definition execute_drain :: "window_graph \<Rightarrow> graph_plan \<Rightarrow> int \<Rightarrow> wgraph_state \<Rightarrow> (wgraph_state \<times> wgraph_batch) res" where
  "execute_drain g p n before =
     (let copies = 1 + int (length (edges_from (wg_edges g) (pl_window p)));
          h = (begin_hook before)\<lparr>gh_reserved_records := n * copies,
                 gh_reserved_work := n * copies * wl_row_bytes (wf_limits (pl_fold p))\<rparr>
      in rbind (work_ensure (wgl_graph (wg_limits g)) 0 0 h) (\<lambda>_.
         rbind (stage_drain (pl_fold p) (stage_hooks g (row_walk g p before)) (gs_window before) n
                  (begin_tx (gs_ordinary before) (gs_ordinary_bytes before), h)) (\<lambda>(window, batch, tx, h).
           if int (length (wb_rows batch)) \<noteq> n \<or> gh_reserved_records h \<noteq> 0 \<or> gh_reserved_work h \<noteq> 0
           then Inl ValidationError
           else commit_graph False before (tx, h\<lparr>gh_window := window\<rparr>))))"

datatype wgraph_op = GInput wgraph_input | GAdvance int int | GFinish int | GDrain int

definition at_position :: "int \<Rightarrow> wgraph_state \<Rightarrow> unit res" where
  "at_position n s = rbind (count n 0 MAX_COUNT) (\<lambda>_. check (n = gs_next s))"

definition graph_input_op :: "window_graph \<Rightarrow> graph_plan \<Rightarrow> wgraph_input \<Rightarrow> wgraph_state \<Rightarrow> (wgraph_state \<times> wgraph_batch) res" where
  "graph_input_op g p x before =
     rbind (graph_input_check x) (\<lambda>_. rbind (at_position (gi_position x) before) (\<lambda>_.
     rbind (status_of (gs_window before)) (\<lambda>st.
     if ws_phase st \<noteq> WOpen then Inl ValidationError
     else rbind (count (gs_next before + 1) 0 (wgl_inputs (wg_limits g))) (\<lambda>_.
          rbind (count (gs_operations before + 1) 0 MAX_COUNT) (\<lambda>_. execute_input g p x before)))))"

definition graph_advance_op :: "int \<Rightarrow> int \<Rightarrow> wgraph_state \<Rightarrow> (wgraph_state \<times> wgraph_batch) res" where
  "graph_advance_op timestamp position before =
     rbind (tick timestamp) (\<lambda>_. rbind (at_position position before) (\<lambda>_.
     rbind (status_of (gs_window before)) (\<lambda>st.
     if ws_phase st \<noteq> WOpen then Inl ValidationError
     else if before_watermark (gs_window before) timestamp then Inl ValidationError
     else if w_watermark (gs_window before) = Some timestamp
     then rbind (graph_batch before before []) (\<lambda>b. Inr (before, b))
     else rbind (count (gs_operations before + 1) 0 MAX_COUNT) (\<lambda>operations.
          rbind (count (gs_watermarks before + 1) 0 MAX_COUNT) (\<lambda>watermarks.
          rbind (stage_advance (gs_window before) timestamp) (\<lambda>(window, _).
          let after = before\<lparr>gs_window := window, gs_operations := operations, gs_watermarks := watermarks\<rparr>
          in rbind (graph_batch before after []) (\<lambda>b. Inr (after, b))))))))"

definition graph_finish_op :: "int \<Rightarrow> wgraph_state \<Rightarrow> (wgraph_state \<times> wgraph_batch) res" where
  "graph_finish_op position before =
     rbind (at_position position before) (\<lambda>_.
     if w_finished (gs_window before) then rbind (graph_batch before before []) (\<lambda>b. Inr (before, b))
     else rbind (count (gs_operations before + 1) 0 MAX_COUNT) (\<lambda>operations.
          rbind (stage_finish (gs_window before)) (\<lambda>(window, _).
          let after = before\<lparr>gs_window := window, gs_operations := operations\<rparr>
          in rbind (graph_batch before after []) (\<lambda>b. Inr (after, b)))))"

definition graph_drain_op :: "window_graph \<Rightarrow> graph_plan \<Rightarrow> int \<Rightarrow> wgraph_state \<Rightarrow> (wgraph_state \<times> wgraph_batch) res" where
  "graph_drain_op g p max_windows before =
     rbind (count max_windows 1 MAX_GRAPH_CELLS) (\<lambda>_.
     rbind (status_of (gs_window before)) (\<lambda>st.
     if ws_pending st = 0 then rbind (graph_batch before before []) (\<lambda>b. Inr (before, b))
     else rbind (count (gs_operations before + 1) 0 MAX_COUNT) (\<lambda>_.
          rbind (count (gs_drains before + 1) 0 MAX_COUNT) (\<lambda>_.
            execute_drain g p (min max_windows (min (ws_pending st) (pl_cap p))) before))))"

fun wgraph_stage :: "window_graph \<Rightarrow> graph_plan \<Rightarrow> wgraph_op \<Rightarrow> wgraph_state \<Rightarrow> (wgraph_state \<times> wgraph_batch) res" where
  "wgraph_stage g p (GInput x) s = graph_input_op g p x s"
| "wgraph_stage g p (GAdvance t n) s = graph_advance_op t n s"
| "wgraph_stage g p (GFinish n) s = graph_finish_op n s"
| "wgraph_stage g p (GDrain n) s = graph_drain_op g p n s"

section \<open>The runtime\<close>

record wgraph_runtime =
  gw_flow :: window_graph
  gw_plan :: graph_plan
  gw_state :: wgraph_state
  gw_busy :: bool

definition empty_graph_state :: "window_graph \<Rightarrow> wgraph_state" where
  "empty_graph_state g =
     \<lparr>gs_ordinary = [], gs_ordinary_bytes = 0, gs_cell_bytes = 0, gs_window = empty_wstate, gs_next = 0, gs_operations = 0,
      gs_watermarks = 0, gs_drains = 0, gs_emitted = 0, gs_edges = replicate (length (wg_edges g)) 0\<rparr>"

definition make_wgraph_runtime :: "window_graph \<Rightarrow> wgraph_runtime res" where
  "make_wgraph_runtime g =
     rbind (window_graph_check g) (\<lambda>p.
       Inr \<lparr>gw_flow = g, gw_plan = p, gw_state = empty_graph_state g, gw_busy = False\<rparr>)"

definition wgraph_apply :: "wgraph_op \<Rightarrow> wgraph_runtime \<Rightarrow> wgraph_batch res \<times> wgraph_runtime" where
  "wgraph_apply op rt =
     (if gw_busy rt then (Inl ValidationError, rt)
      else let rt1 = rt\<lparr>gw_busy := True\<rparr>
           in (case wgraph_stage (gw_flow rt1) (gw_plan rt1) op (gw_state rt1) of
                 Inl e \<Rightarrow> (Inl e, rt1\<lparr>gw_busy := False\<rparr>)
               | Inr (after, b) \<Rightarrow> (Inr b, rt1\<lparr>gw_state := after, gw_busy := False\<rparr>)))"

end
