(* ===== verification/Window_Fold_Laws.thy ===== *)
theory Window_Fold_Laws
  imports Window_Fold
begin

text \<open>
  The window fold: the arithmetic of window membership, the invariant of its state (exact byte
  accounting, well-formed cells, and counters that \<open>_check_counters\<close> accepts), and the effect
  of every staged transition on it.
\<close>

section \<open>Membership\<close>

definition window_start :: "window_fold \<Rightarrow> int \<Rightarrow> int" where
  "window_start w i = wf_origin w + i * wf_hop w"

definition window_end :: "window_fold \<Rightarrow> int \<Rightarrow> int" where
  "window_end w i = window_start w i + wf_width w"

lemma div_less_iff:
  assumes "0 < (h::int)"
  shows "x div h < i \<longleftrightarrow> x < i * h"
proof
  assume "x div h < i"
  then have "(x div h + 1) * h \<le> i * h" using assms by (intro mult_right_mono) auto
  moreover have "x = x div h * h + x mod h" "x mod h < h" using assms by simp_all
  moreover have "(x div h + 1) * h = x div h * h + h" by (simp add: algebra_simps)
  ultimately show "x < i * h" by linarith
next
  assume x: "x < i * h"
  show "x div h < i"
  proof (rule ccontr)
    assume "\<not> x div h < i"
    then have "i * h \<le> x div h * h" using assms by (intro mult_right_mono) auto
    moreover have "x = x div h * h + x mod h" "0 \<le> x mod h" using assms by simp_all
    ultimately show False using x by linarith
  qed
qed

lemma le_div_iff: "0 < (h::int) \<Longrightarrow> i \<le> x div h \<longleftrightarrow> i * h \<le> x"
  using div_less_iff [of h x i] by linarith

lemma member_index_iff:
  assumes "1 \<le> wf_hop w"
  shows "i \<in> set (member_indexes w t) \<longleftrightarrow> window_start w i \<le> t \<and> t < window_end w i"
  using assms div_less_iff [of "wf_hop w" "t - wf_origin w - wf_width w" i]
    le_div_iff [of "wf_hop w" i "t - wf_origin w"]
  by (auto simp: member_indexes_def first_index_def last_index_def window_start_def window_end_def)

lemma div_diff_bounds:
  assumes "0 < (h::int)"
  shows "v div h \<le> x div h - (x - v) div h"
    and "x div h - (x - v) div h \<le> v div h + (if v mod h \<noteq> 0 then 1 else 0)"
proof -
  define a b where "a = (x - v) div h" and "b = v div h"
  have m: "0 \<le> (x - v) mod h" "(x - v) mod h < h" "0 \<le> v mod h" "v mod h < h" using assms by simp_all
  have x: "x = (a + b) * h + ((x - v) mod h + v mod h)"
    using div_mult_mod_eq [of "x - v" h] div_mult_mod_eq [of v h] by (simp add: a_def b_def algebra_simps)
  have lo: "a + b \<le> x div h" using le_div_iff [OF assms, of "a + b" x] x m by simp
  have "(x - v) mod h + v mod h < h + h" using m by linarith
  then have "x < (a + b + 2) * h" using x by (simp add: algebra_simps)
  then have hi: "x div h < a + b + 2" using div_less_iff [OF assms] by blast
  have "x div h < a + b + 1" if "v mod h = 0"
  proof -
    have "x < (a + b) * h + h" using x m that by linarith
    then have "x < (a + b + 1) * h" by (simp add: algebra_simps)
    then show ?thesis using div_less_iff [OF assms] by blast
  qed
  with lo hi show "v div h \<le> x div h - (x - v) div h"
    and "x div h - (x - v) div h \<le> v div h + (if v mod h \<noteq> 0 then 1 else 0)"
    by (auto simp: a_def b_def)
qed

definition member_count :: "window_fold \<Rightarrow> int \<Rightarrow> int" where
  "member_count w t = max 0 (last_index w t - first_index w t + 1)"

lemma length_member_indexes: "int (length (member_indexes w t)) = member_count w t"
  by (simp add: member_indexes_def member_count_def)

lemma member_count_bounds:
  assumes "1 \<le> wf_hop w" "1 \<le> wf_width w"
  shows "wf_width w div wf_hop w \<le> member_count w t"
    and "member_count w t \<le> wf_width w div wf_hop w + (if wf_width w mod wf_hop w \<noteq> 0 then 1 else 0)"
proof -
  have h: "0 < wf_hop w" using assms by simp
  have q: "0 \<le> wf_width w div wf_hop w" using assms by (simp add: pos_imp_zdiv_nonneg_iff)
  note b = div_diff_bounds [OF h, where v = "wf_width w" and x = "t - wf_origin w"]
  show "wf_width w div wf_hop w \<le> member_count w t"
    "member_count w t \<le> wf_width w div wf_hop w + (if wf_width w mod wf_hop w \<noteq> 0 then 1 else 0)"
    using b q by (simp_all add: member_count_def first_index_def last_index_def)
qed

section \<open>Cells\<close>

definition wcell_valid :: "window_fold \<Rightarrow> window_key \<Rightarrow> wcell \<Rightarrow> bool" where
  "wcell_valid w ik c \<longleftrightarrow>
     make_wcell w (snd ik) (fst ik) (wc_count c) (wc_encoded c) = Inr c
     \<and> canonical (wc_encoded c) \<and> byte_len (wc_encoded c) \<le> wl_state_value_bytes (wf_limits w)
     \<and> is_label (snd ik)"

lemma geometry_Inr:
  "geometry w i = Inr (a, b) \<longleftrightarrow> \<bar>i\<bar> \<le> MAX_COUNT \<and> \<bar>a\<bar> \<le> MAX_COUNT \<and> \<bar>b\<bar> \<le> MAX_COUNT
     \<and> a = window_start w i \<and> b = window_end w i"
  by (auto simp: geometry_def window_start_def window_end_def Let_def)

lemma make_wcell_Inr:
  assumes "make_wcell w k i n t = Inr c"
  shows "wc_key c = k \<and> wc_index c = i \<and> wc_start c = window_start w i \<and> wc_end c = window_end w i
    \<and> wc_count c = n \<and> wc_encoded c = t \<and> 1 \<le> n \<and> n \<le> MAX_COUNT \<and> 0 \<le> wc_bytes c
    \<and> geometry w i = Inr (wc_start c, wc_end c)"
proof -
  obtain a b where g: "geometry w i = Inr (a, b)" and n: "1 \<le> n" "n \<le> MAX_COUNT"
    and "\<exists>x. c = \<lparr>wc_key = k, wc_index = i, wc_start = a, wc_end = b, wc_count = n, wc_encoded = t,
           wc_bytes = byte_len x\<rparr>"
    using assms by (auto simp: make_wcell_def Let_def split: prod.splits)
  then show ?thesis using geometry_Inr [of w i a b] by auto
qed

lemma wcell_validD:
  assumes "wcell_valid w ik c"
  shows "wc_key c = snd ik" "wc_index c = fst ik" "wc_start c = window_start w (fst ik)"
    "wc_end c = window_end w (fst ik)" "1 \<le> wc_count c" "0 \<le> wc_bytes c"
    "geometry w (fst ik) = Inr (wc_start c, wc_end c)"
  using assms make_wcell_Inr [of w "snd ik" "fst ik" "wc_count c" "wc_encoded c" c]
  by (simp_all add: wcell_valid_def)

section \<open>The invariant\<close>

definition wcounters_ok :: "window_fold \<Rightarrow> wstate \<Rightarrow> bool" where
  "wcounters_ok w s \<longleftrightarrow>
     list_all (\<lambda>n. 0 \<le> n \<and> n \<le> MAX_COUNT)
       [w_processed s, w_late s, w_gaps s, w_updates s, w_created s, w_emitted s, w_finalized s]"

definition wstate_inv :: "window_fold \<Rightarrow> wstate \<Rightarrow> bool" where
  "wstate_inv w s \<longleftrightarrow>
     dict_ok (w_cells s) \<and> (\<forall>e\<in>set (w_cells s). wcell_valid w (fst e) (snd e))
     \<and> w_bytes s = (\<Sum>e\<leftarrow>w_cells s. wc_bytes (snd e)) \<and> w_bytes s \<le> wl_state_bytes (wf_limits w)
     \<and> int (length (w_cells s)) \<le> wl_windows (wf_limits w)
     \<and> int (length (retained_keys (w_cells s))) \<le> wl_keys (wf_limits w)
     \<and> (case w_watermark s of None \<Rightarrow> True | Some m \<Rightarrow> \<bar>m\<bar> \<le> MAX_COUNT)
     \<and> wcounters_ok w s \<and> check_counters w s = Inr ()"

lemma window_limits_hard:
  assumes "window_limits_ok l"
  shows "wl_windows l \<le> wl_windows window_ceilings" "1 \<le> wl_row_bytes l" "wl_row_bytes l \<le> wl_batch_bytes l"
    "1 \<le> wl_rows_per_batch l" "wl_windows_per_input l \<le> wl_windows_per_input window_ceilings"
    "wl_inputs l \<le> MAX_COUNT" "wl_rows_per_batch l \<le> wl_rows_per_batch window_ceilings"
    "wl_batch_bytes l \<le> wl_batch_bytes window_ceilings" "wl_row_bytes l \<le> wl_row_bytes window_ceilings"
  using assms by (simp_all add: window_limits_ok_def window_ceilings_def)

definition the_status :: "wstate \<Rightarrow> window_status" where
  "the_status s =
     (let pending = int (length (pending_cells s))
      in \<lparr>ws_phase = phase_of pending (w_finished s), ws_watermark = w_watermark s,
          ws_finished = w_finished s, ws_retained = int (length (w_cells s)), ws_pending = pending\<rparr>)"

lemma status_of_Inr: "status_of s = Inr st \<Longrightarrow> st = the_status s"
  by (auto simp: status_of_def the_status_def window_status_check_def Let_def split: if_splits option.splits)

lemma status_of_ok:
  assumes "int (length (w_cells s)) \<le> wl_windows window_ceilings"
    and "case w_watermark s of None \<Rightarrow> True | Some m \<Rightarrow> \<bar>m\<bar> \<le> MAX_COUNT"
  shows "status_of s = Inr (the_status s)"
proof -
  have "length (pending_cells s) \<le> length (w_cells s)" by (simp add: pending_cells_def)
  moreover have "length (pending_cells s) = length (w_cells s)" if "w_finished s"
    using that by (simp add: pending_cells_def eligible_def)
  ultimately show ?thesis using assms
    by (auto simp: status_of_def the_status_def window_status_check_def Let_def count_def tick_def
        split: option.splits)
qed

lemma wstate_inv_status: "window_fold_ok w \<Longrightarrow> wstate_inv w s \<Longrightarrow> status_of s = Inr (the_status s)"
  using window_limits_hard(1) [of "wf_limits w"]
  by (intro status_of_ok) (auto simp: wstate_inv_def window_fold_ok_def)

text \<open>\<open>_check_counters\<close> as a predicate.\<close>

definition fanout_high :: "window_fold \<Rightarrow> int" where
  "fanout_high w = min (wl_windows_per_input (wf_limits w))
     (max 1 (wf_width w div wf_hop w + (if wf_width w mod wf_hop w \<noteq> 0 then 1 else 0)))"

definition folded_inputs :: "wstate \<Rightarrow> int" where
  "folded_inputs s = w_processed s - w_late s - w_gaps s"

lemma check_counters_iff:
  "check_counters w s = Inr () \<longleftrightarrow>
     w_processed s \<le> wl_inputs (wf_limits w) \<and> 0 \<le> folded_inputs s
     \<and> (w_late s \<noteq> 0 \<longrightarrow> wf_drop_late w) \<and> (w_gaps s \<noteq> 0 \<longrightarrow> wf_width w < wf_hop w)
     \<and> folded_inputs s * max 1 (wf_width w div wf_hop w) \<le> w_updates s
     \<and> w_updates s \<le> folded_inputs s * fanout_high w
     \<and> w_created s = int (length (w_cells s)) + w_emitted s \<and> w_created s \<le> w_updates s
     \<and> (w_created s = 0 \<longleftrightarrow> w_updates s = 0)
     \<and> w_updates s = (\<Sum>e\<leftarrow>w_cells s. wc_count (snd e)) + w_finalized s
     \<and> w_emitted s \<le> w_finalized s \<and> w_finalized s \<le> w_emitted s * folded_inputs s
     \<and> (\<forall>e\<in>set (w_cells s). wc_count (snd e) \<le> folded_inputs s)"
proof -
  have e: "w_processed s < w_late s + w_gaps s \<longleftrightarrow> \<not> 0 \<le> folded_inputs s" by (auto simp: folded_inputs_def)
  show ?thesis
    unfolding check_counters_def Let_def folded_inputs_def [symmetric] fanout_high_def [symmetric]
      if_error_eq_Inr e list_ex_iff not_less [symmetric]
    by blast
qed

lemma empty_wstate_inv: "window_fold_ok w \<Longrightarrow> wstate_inv w empty_wstate"
  by (auto simp: wstate_inv_def empty_wstate_def wcounters_ok_def MAX_COUNT_def retained_keys_def
      check_counters_iff folded_inputs_def window_fold_ok_def window_limits_ok_def)


section \<open>Folding one input\<close>

definition prior_bytes :: "wcell option \<Rightarrow> int" where
  "prior_bytes c = (case c of None \<Rightarrow> 0 | Some c \<Rightarrow> wc_bytes c)"

lemma fold_window_Inr:
  assumes "fold_window w hk base k encoded i (cells, sz, h) = Inr s'"
  shows "\<exists>c saved h'. s' = (dput (i, k) c cells, sz + wc_bytes c, h')
    \<and> make_wcell w k i (prior_count (dget base (i, k)) + 1) saved = Inr c
    \<and> canonical saved \<and> byte_len saved \<le> wl_state_value_bytes (wf_limits w)
    \<and> sz + wc_bytes c \<le> wl_state_bytes (wf_limits w)"
proof -
  obtain y where "(\<lambda>(state, h). rbind (decoded encoded) (\<lambda>input.
         rbind (stage_call hk (wf_fold w) ''fold'' k i [state, input] h) (\<lambda>(v, h).
         rbind (snapshot v (wl_state_value_bytes (wf_limits w))) (\<lambda>saved.
         rbind (make_wcell w k i (prior_count (dget base (i, k)) + 1) saved) (\<lambda>proposed.
           if wl_state_bytes (wf_limits w) < sz + wc_bytes proposed then Inl ValidationError
           else rbind (wh_admit hk proposed h) (\<lambda>h.
                  Inr (dput (i, k) proposed cells, sz + wc_bytes proposed, h))))))) y = Inr s'"
    using assms unfolding fold_window_def Let_def prod.case rbind_eq_Inr by blast
  then obtain v saved c h1 h2 where sn: "snapshot v (wl_state_value_bytes (wf_limits w)) = Inr saved"
    and mk: "make_wcell w k i (prior_count (dget base (i, k)) + 1) saved = Inr c"
    and r: "(if wl_state_bytes (wf_limits w) < sz + wc_bytes c then Inl ValidationError
           else rbind (wh_admit hk c h1) (\<lambda>h.
                  Inr (dput (i, k) c cells, sz + wc_bytes c, h))) = Inr s'"
    unfolding split_def rbind_eq_Inr by blast
  from r obtain h' where s': "s' = (dput (i, k) c cells, sz + wc_bytes c, h')"
    and "sz + wc_bytes c \<le> wl_state_bytes (wf_limits w)"
    unfolding if_error_eq_Inr rbind_eq_Inr by auto
  with mk snapshot_canonical [OF sn] show ?thesis by blast
qed

definition folded_cells :: "window_fold \<Rightarrow> (window_key, wcell) dict \<Rightarrow> pystr \<Rightarrow> int list
    \<Rightarrow> (window_key, wcell) dict \<Rightarrow> bool" where
  "folded_cells w base k xs cells \<longleftrightarrow>
     dict_ok cells
     \<and> (\<forall>ik. snd ik \<noteq> k \<or> fst ik \<notin> set xs \<longrightarrow> dget cells ik = dget base ik)
     \<and> (\<forall>i\<in>set xs. \<exists>c saved. dget cells (i, k) = Some c
          \<and> make_wcell w k i (prior_count (dget base (i, k)) + 1) saved = Inr c
          \<and> canonical saved \<and> byte_len saved \<le> wl_state_value_bytes (wf_limits w))
     \<and> (\<Sum>e\<leftarrow>cells. wc_count (snd e)) = (\<Sum>e\<leftarrow>base. wc_count (snd e)) + int (length xs)
     \<and> int (length cells) = int (length base) + int (length (filter (\<lambda>i. dget base (i, k) = None) xs))"

lemma folded_cells_frame:
  "folded_cells w base k xs cells \<Longrightarrow> snd ik \<noteq> k \<or> fst ik \<notin> set xs \<Longrightarrow> dget cells ik = dget base ik"
  unfolding folded_cells_def by blast

lemma folded_cells_new:
  "folded_cells w base k xs cells \<Longrightarrow> i \<in> set xs \<Longrightarrow>
     \<exists>c saved. dget cells (i, k) = Some c
          \<and> make_wcell w k i (prior_count (dget base (i, k)) + 1) saved = Inr c
          \<and> canonical saved \<and> byte_len saved \<le> wl_state_value_bytes (wf_limits w)"
  unfolding folded_cells_def by blast

lemma fold_windows:
  assumes "fold_res (fold_window w hk base k encoded) xs (base, sz, h) = Inr s'"
    and "dict_ok base" "distinct xs"
  shows "\<exists>cells sz' h'. s' = (cells, sz', h') \<and> folded_cells w base k xs cells
    \<and> sz' - sz = (\<Sum>e\<leftarrow>cells. wc_bytes (snd e)) - (\<Sum>e\<leftarrow>base. wc_bytes (snd e))
         + (\<Sum>i\<leftarrow>xs. prior_bytes (dget base (i, k)))
    \<and> (xs \<noteq> [] \<longrightarrow> sz' \<le> wl_state_bytes (wf_limits w))"
proof (rule fold_res_prefix [OF assms(1), where P = "\<lambda>xs s'. \<exists>cells sz' h'. s' = (cells, sz', h')
    \<and> folded_cells w base k xs cells
    \<and> sz' - sz = (\<Sum>e\<leftarrow>cells. wc_bytes (snd e)) - (\<Sum>e\<leftarrow>base. wc_bytes (snd e))
         + (\<Sum>i\<leftarrow>xs. prior_bytes (dget base (i, k)))
    \<and> (xs \<noteq> [] \<longrightarrow> sz' \<le> wl_state_bytes (wf_limits w))"])
  show "\<exists>cells sz' h'. (base, sz, h) = (cells, sz', h') \<and> folded_cells w base k [] cells
    \<and> sz' - sz = (\<Sum>e\<leftarrow>cells. wc_bytes (snd e)) - (\<Sum>e\<leftarrow>base. wc_bytes (snd e))
         + (\<Sum>i\<leftarrow>[]. prior_bytes (dget base (i, k)))
    \<and> ([] \<noteq> [] \<longrightarrow> sz' \<le> wl_state_bytes (wf_limits w))"
    using assms(2) by (simp add: folded_cells_def)
next
  fix ys i zs s t
  assume xs: "xs = ys @ i # zs" and step: "fold_window w hk base k encoded i s = Inr t"
    and IH: "\<exists>cells sz' h'. s = (cells, sz', h') \<and> folded_cells w base k ys cells
      \<and> sz' - sz = (\<Sum>e\<leftarrow>cells. wc_bytes (snd e)) - (\<Sum>e\<leftarrow>base. wc_bytes (snd e))
         + (\<Sum>i\<leftarrow>ys. prior_bytes (dget base (i, k)))
      \<and> (ys \<noteq> [] \<longrightarrow> sz' \<le> wl_state_bytes (wf_limits w))"
  obtain cells sz1 h1 where s: "s = (cells, sz1, h1)" and f: "folded_cells w base k ys cells"
    and sz1: "sz1 - sz = (\<Sum>e\<leftarrow>cells. wc_bytes (snd e)) - (\<Sum>e\<leftarrow>base. wc_bytes (snd e))
         + (\<Sum>i\<leftarrow>ys. prior_bytes (dget base (i, k)))"
    using IH by blast
  have i: "i \<notin> set ys" using assms(3) xs by auto
  have old: "dget cells (i, k) = dget base (i, k)" using f i by (simp add: folded_cells_def)
  have d: "dict_ok cells" using f by (simp add: folded_cells_def)
  obtain c saved h' where t: "t = (dput (i, k) c cells, sz1 + wc_bytes c, h')"
    and mk: "make_wcell w k i (prior_count (dget base (i, k)) + 1) saved = Inr c"
    and sv: "canonical saved" "byte_len saved \<le> wl_state_value_bytes (wf_limits w)"
    and le: "sz1 + wc_bytes c \<le> wl_state_bytes (wf_limits w)"
    using fold_window_Inr [OF step [unfolded s]] by blast
  have cnt: "wc_count c = prior_count (dget base (i, k)) + 1" using make_wcell_Inr [OF mk] by simp
  have f': "folded_cells w base k (ys @ [i]) (dput (i, k) c cells)"
    unfolding folded_cells_def
  proof (intro conjI ballI allI impI)
    show "dict_ok (dput (i, k) c cells)" using d by simp
    show "dget (dput (i, k) c cells) ik = dget base ik" if "snd ik \<noteq> k \<or> fst ik \<notin> set (ys @ [i])" for ik
      using that f by (cases ik) (auto simp: folded_cells_def simp del: split_paired_All)
    show "\<exists>c' saved. dget (dput (i, k) c cells) (j, k) = Some c'
          \<and> make_wcell w k j (prior_count (dget base (j, k)) + 1) saved = Inr c'
          \<and> canonical saved \<and> byte_len saved \<le> wl_state_value_bytes (wf_limits w)" if "j \<in> set (ys @ [i])" for j
    proof (cases "j = i")
      case True
      with mk sv show ?thesis by auto
    next
      case False
      with that have "j \<in> set ys" by simp
      with f False show ?thesis by (simp add: folded_cells_def)
    qed
    show "(\<Sum>e\<leftarrow>dput (i, k) c cells. wc_count (snd e)) = (\<Sum>e\<leftarrow>base. wc_count (snd e)) + int (length (ys @ [i]))"
      using f cnt sum_list_dput [OF d, of "\<lambda>e. wc_count (snd e)" "(i, k)" c]
      by (simp add: folded_cells_def old prior_count_def split: option.splits)
    show "int (length (dput (i, k) c cells)) = int (length base)
        + int (length (filter (\<lambda>i. dget base (i, k) = None) (ys @ [i])))"
      using f by (auto simp: folded_cells_def length_dput old split: option.splits)
  qed
  show "\<exists>cells sz' h'. t = (cells, sz', h') \<and> folded_cells w base k (ys @ [i]) cells
    \<and> sz' - sz = (\<Sum>e\<leftarrow>cells. wc_bytes (snd e)) - (\<Sum>e\<leftarrow>base. wc_bytes (snd e))
         + (\<Sum>i\<leftarrow>ys @ [i]. prior_bytes (dget base (i, k)))
    \<and> (ys @ [i] \<noteq> [] \<longrightarrow> sz' \<le> wl_state_bytes (wf_limits w))"
    using f' le sz1 sum_list_dput [OF d, of "\<lambda>e. wc_bytes (snd e)" "(i, k)" c]
    by (intro exI [of _ "dput (i, k) c cells"] exI [of _ "sz1 + wc_bytes c"] exI [of _ h'])
      (simp add: t old prior_bytes_def split: option.splits)
qed

lemma prior_cells_bytes:
  "(\<Sum>c\<leftarrow>prior_cells cells k xs. wc_bytes c) = (\<Sum>i\<leftarrow>xs. prior_bytes (dget cells (i, k)))"
  by (induction xs) (simp_all add: prior_cells_def prior_bytes_def map_filter_simps split: option.splits)

lemma retained_keys_card: "length (retained_keys cells) = card ((\<lambda>e. wc_key (snd e)) ` set cells)"
  by (simp add: retained_keys_def length_remdups_card_conv)

lemma set_retained_keys: "set (retained_keys cells) = (\<lambda>e. wc_key (snd e)) ` set cells"
  by (simp add: retained_keys_def)

lemma folded_cells_valid:
  assumes "folded_cells w base k xs cells" "is_label k" "dict_ok base"
    and "\<And>e. e \<in> set base \<Longrightarrow> wcell_valid w (fst e) (snd e)" and e: "e \<in> set cells"
  shows "wcell_valid w (fst e) (snd e)"
proof -
  have d: "dict_ok cells" using assms(1) by (simp add: folded_cells_def)
  have g: "dget cells (fst e) = Some (snd e)" using dict_ok_map_of_iff [OF d] e by simp
  show ?thesis
  proof (cases "snd (fst e) = k \<and> fst (fst e) \<in> set xs")
    case True
    then obtain c saved where "dget cells (fst (fst e), k) = Some c"
      "make_wcell w k (fst (fst e)) (prior_count (dget base (fst (fst e), k)) + 1) saved = Inr c"
      "canonical saved" "byte_len saved \<le> wl_state_value_bytes (wf_limits w)"
      using assms(1) by (auto simp: folded_cells_def)
    note c = this
    have "fst e = (fst (fst e), k)" using True by (metis prod.collapse)
    then have "snd e = c" using g c(1) by simp
    then show ?thesis using c(2-4) make_wcell_Inr [OF c(2)] True assms(2) by (simp add: wcell_valid_def)
  next
    case False
    then have "dget base (fst e) = Some (snd e)" using folded_cells_frame [OF assms(1), of "fst e"] g by auto
    then show ?thesis using assms(4) [of e] dict_ok_map_of_iff [OF assms(3)] by simp
  qed
qed

lemma folded_cells_keys:
  assumes "folded_cells w base k xs cells" "dict_ok base"
  shows "(\<lambda>e. wc_key (snd e)) ` set cells \<subseteq> insert k ((\<lambda>e. wc_key (snd e)) ` set base)"
proof clarify
  fix ik c assume e: "(ik, c) \<in> set cells" and n: "wc_key (snd (ik, c)) \<notin> (\<lambda>e. wc_key (snd e)) ` set base"
  have d: "dict_ok cells" using assms(1) by (simp add: folded_cells_def)
  have g: "dget cells ik = Some c" using dict_ok_map_of_iff [OF d] e by simp
  have "dget base ik \<noteq> Some c"
  proof
    assume "dget base ik = Some c"
    then have "(ik, c) \<in> set base" using dict_ok_map_of_iff [OF assms(2)] by simp
    then show False using n by (metis image_eqI snd_conv)
  qed
  with g folded_cells_frame [OF assms(1), of ik] have ik: "snd ik = k" "fst ik \<in> set xs" by auto
  then obtain c' saved where "dget cells (fst ik, k) = Some c'"
      "make_wcell w k (fst ik) (prior_count (dget base (fst ik, k)) + 1) saved = Inr c'"
    using folded_cells_new [OF assms(1)] by blast
  with g ik make_wcell_Inr [OF this(2)] show "wc_key (snd (ik, c)) = k" by (cases ik) auto
qed


definition new_members :: "(window_key, wcell) dict \<Rightarrow> pystr \<Rightarrow> int list \<Rightarrow> int" where
  "new_members cells k xs = int (length (filter (\<lambda>i. dget cells (i, k) = None) xs))"

lemma window_result_check_Inr: "window_result_check r = Inr r' \<Longrightarrow> r' = r"
  by (auto simp: window_result_check_def split: if_splits)

lemma stage_fold_Inr:
  assumes p: "stage_fold w hk before t k encoded n h = Inr (s', r, h')" and d: "dict_ok (w_cells before)"
  obtains (gap) "member_count w t = 0" "s' = before\<lparr>w_processed := n, w_gaps := w_gaps before + 1\<rparr>"
      "r = \<lparr>wr_outcome = WGap, wr_memberships = 0, wr_status = the_status s'\<rparr>"
  | (folded) cells sz where "0 < member_count w t" "member_count w t \<le> wl_windows_per_input (wf_limits w)"
      "folded_cells w (w_cells before) k (member_indexes w t) cells"
      "s' = before\<lparr>w_cells := cells, w_processed := n, w_updates := w_updates before + member_count w t,
              w_created := w_created before + new_members (w_cells before) k (member_indexes w t), w_bytes := sz\<rparr>"
      "sz - w_bytes before = (\<Sum>e\<leftarrow>cells. wc_bytes (snd e)) - (\<Sum>e\<leftarrow>w_cells before. wc_bytes (snd e))"
      "sz \<le> wl_state_bytes (wf_limits w)"
      "int (length (w_cells before)) + new_members (w_cells before) k (member_indexes w t) \<le> wl_windows (wf_limits w)"
      "int (length (retained_keys (w_cells before))) + (if k \<in> set (retained_keys (w_cells before)) then 0 else 1)
         \<le> wl_keys (wf_limits w)"
      "w_updates before + member_count w t \<le> MAX_COUNT"
      "w_created before + new_members (w_cells before) k (member_indexes w t) \<le> MAX_COUNT"
      "r = \<lparr>wr_outcome = WFolded, wr_memberships = member_count w t, wr_status = the_status s'\<rparr>"
proof (cases "member_count w t = 0")
  case True
  then have c: "max 0 (last_index w t - first_index w t + 1) = 0" by (simp add: member_count_def)
  from p show ?thesis
    unfolding stage_fold_def Let_def c
    by (intro gap) (auto simp: True dest!: status_of_Inr window_result_check_Inr)
next
  case False
  define xs where "xs = member_indexes w t"
  define cs where "cs = w_cells before"
  have c: "max 0 (last_index w t - first_index w t + 1) = member_count w t" by (simp add: member_count_def)
  obtain updates created h1 y where le: "member_count w t \<le> wl_windows_per_input (wf_limits w)"
    and len: "int (length cs) + int (length (filter (\<lambda>i. dget cs (i, k) = None) xs)) \<le> wl_windows (wf_limits w)"
    and keys: "int (length (retained_keys cs)) + (if k \<in> set (retained_keys cs) then 0 else 1) \<le> wl_keys (wf_limits w)"
    and up: "count (w_updates before + member_count w t) 0 MAX_COUNT = Inr updates"
    and cr: "count (w_created before + int (length (filter (\<lambda>i. dget cs (i, k) = None) xs))) 0 MAX_COUNT = Inr created"
    and y: "fold_res (fold_window w hk cs k encoded) xs
          (cs, w_bytes before - (\<Sum>c\<leftarrow>prior_cells cs k xs. wc_bytes c), h1) = Inr y"
    and rest: "(\<lambda>(cells, sz, h).
              let after = before\<lparr>w_cells := cells, w_processed := n, w_updates := updates,
                            w_created := created, w_bytes := sz\<rparr>
              in rbind (status_of after) (\<lambda>st.
                 rbind (window_result_check \<lparr>wr_outcome = WFolded, wr_memberships = member_count w t, wr_status = st\<rparr>) (\<lambda>r.
                   Inr (after, r, h)))) y = Inr (s', r, h')"
    using p unfolding stage_fold_def Let_def c if_not_P [OF False] xs_def [symmetric] cs_def [symmetric] rbind_eq_Inr
    by (elim exE conjE) (simp only: count_Inr)
  have dist: "distinct xs" by (simp add: xs_def member_indexes_def)
  obtain cells sz h2 where y': "y = (cells, sz, h2)" and f: "folded_cells w cs k xs cells"
    and sz: "sz - (w_bytes before - (\<Sum>c\<leftarrow>prior_cells cs k xs. wc_bytes c))
        = (\<Sum>e\<leftarrow>cells. wc_bytes (snd e)) - (\<Sum>e\<leftarrow>cs. wc_bytes (snd e)) + (\<Sum>i\<leftarrow>xs. prior_bytes (dget cs (i, k)))"
    and szle: "xs \<noteq> [] \<longrightarrow> sz \<le> wl_state_bytes (wf_limits w)"
    using fold_windows [OF y _ dist] d by (auto simp: cs_def)
  have pos: "0 < member_count w t" using False by (simp add: member_count_def)
  then have "xs \<noteq> []" using length_member_indexes [of w t] by (auto simp: xs_def)
  show ?thesis
  proof (rule folded [where cells = cells and sz = sz])
    show "s' = before\<lparr>w_cells := cells, w_processed := n, w_updates := w_updates before + member_count w t,
              w_created := w_created before + new_members (w_cells before) k (member_indexes w t), w_bytes := sz\<rparr>"
      "r = \<lparr>wr_outcome = WFolded, wr_memberships = member_count w t, wr_status = the_status s'\<rparr>"
      using rest up cr by (auto simp: y' Let_def new_members_def cs_def xs_def dest!: status_of_Inr window_result_check_Inr)
  qed (use pos le f sz szle \<open>xs \<noteq> []\<close> len keys up cr in
      \<open>simp_all add: cs_def xs_def new_members_def prior_cells_bytes\<close>)
qed

lemma new_members_bounds: "0 \<le> new_members cells k xs" "new_members cells k xs \<le> int (length xs)"
  by (simp_all add: new_members_def)

lemma stage_fold_inv:
  assumes w: "window_fold_ok w" and inv: "wstate_inv w s" and k: "is_label k"
    and n: "n = w_processed s + 1" "n \<le> wl_inputs (wf_limits w)"
    and p: "stage_fold w hk s t k encoded n h = Inr (s', r, h')"
  shows "wstate_inv w s'"
proof -
  have d: "dict_ok (w_cells s)" using inv by (simp add: wstate_inv_def)
  have cc: "check_counters w s = Inr ()" and cok: "wcounters_ok w s" using inv by (simp_all add: wstate_inv_def)
  note cc' = cc [unfolded check_counters_iff]
  have hw: "1 \<le> wf_hop w" "1 \<le> wf_width w" and l: "window_limits_ok (wf_limits w)"
    using w by (simp_all add: window_fold_ok_def)
  define q where "q = wf_width w div wf_hop w"
  have q0: "0 \<le> q" using hw by (simp add: q_def pos_imp_zdiv_nonneg_iff)
  note mc = member_count_bounds [OF hw, of t, folded q_def]
  have nM: "n \<le> MAX_COUNT" using n(2) window_limits_hard(6) [OF l] by simp
  from p d show ?thesis
  proof (cases rule: stage_fold_Inr)
    case gap
    have "q = 0" using mc(1) gap(1) q0 by simp
    then have "wf_width w < wf_hop w"
      using hw le_div_iff [of "wf_hop w" 1 "wf_width w"] by (simp add: q_def not_le [symmetric])
    moreover have "w_gaps s + 1 \<le> MAX_COUNT"
      using cc' cok nM n by (simp add: folded_inputs_def wcounters_ok_def)
    moreover have "folded_inputs (s\<lparr>w_processed := n, w_gaps := w_gaps s + 1\<rparr>) = folded_inputs s"
      using n(1) by (simp add: folded_inputs_def)
    ultimately show ?thesis using inv nM n cc'
      unfolding gap(2) by (simp add: wstate_inv_def wcounters_ok_def check_counters_iff)
  next
    case (folded cells sz)
    note f = folded(3)
    define xs where "xs = member_indexes w t"
    define m where "m = member_count w t"
    have m: "m = int (length xs)" "0 < m" using folded(1) length_member_indexes [of w t] by (simp_all add: m_def xs_def)
    define new where "new = new_members (w_cells s) k xs"
    have new: "0 \<le> new" "new \<le> m" using new_members_bounds [of "w_cells s" k xs] by (simp_all add: new_def m)
    have s': "s' = s\<lparr>w_cells := cells, w_processed := n, w_updates := w_updates s + m, w_created := w_created s + new,
        w_bytes := sz\<rparr>" using folded(4) by (simp add: m_def xs_def new_def)
    have dc: "dict_ok cells" using f by (simp add: folded_cells_def)
    have cnt: "(\<Sum>e\<leftarrow>cells. wc_count (snd e)) = (\<Sum>e\<leftarrow>w_cells s. wc_count (snd e)) + m"
      "int (length cells) = int (length (w_cells s)) + new"
      using f by (simp_all add: folded_cells_def m new_def new_members_def xs_def [symmetric])
    have valid: "\<forall>e\<in>set cells. wcell_valid w (fst e) (snd e)"
      using folded_cells_valid [OF f k d] inv by (simp add: wstate_inv_def)
    have bytes: "sz = (\<Sum>e\<leftarrow>cells. wc_bytes (snd e))" using folded(5) inv by (simp add: wstate_inv_def)
    have keys: "int (length (retained_keys cells)) \<le> wl_keys (wf_limits w)"
    proof -
      let ?K = "(\<lambda>e. wc_key (snd e)) ` set (w_cells s)"
      have "card ((\<lambda>e. wc_key (snd e)) ` set cells) \<le> card (insert k ?K)"
        by (rule card_mono) (use folded_cells_keys [OF f d] in auto)
      moreover have "int (card (insert k ?K)) = int (length (retained_keys (w_cells s)))
          + (if k \<in> set (retained_keys (w_cells s)) then 0 else 1)"
        by (simp add: retained_keys_card set_retained_keys insert_absorb)
      ultimately show ?thesis using folded(8) by (simp add: retained_keys_card)
    qed
    have fi: "folded_inputs s' = folded_inputs s + 1" using n(1) by (simp add: s' folded_inputs_def)
    have f0: "0 \<le> folded_inputs s" using cc' by simp
    have lo: "max 1 q \<le> m" using mc m(2) by (simp add: m_def)
    have hi: "m \<le> fanout_high w"
      using mc(2) folded(2) by (simp add: m_def fanout_high_def q_def)
    have em: "0 \<le> w_emitted s" using cok by (simp add: wcounters_ok_def)
    have counts: "wc_count (snd e) \<le> folded_inputs s + 1" if e: "e \<in> set cells" for e
    proof (cases "snd (fst e) = k \<and> fst (fst e) \<in> set xs")
      case True
      obtain c saved where c: "dget cells (fst (fst e), k) = Some c"
        "make_wcell w k (fst (fst e)) (prior_count (dget (w_cells s) (fst (fst e), k)) + 1) saved = Inr c"
        using folded_cells_new [OF f [folded xs_def]] True by blast
      have "fst e = (fst (fst e), k)" using True by (metis prod.collapse)
      then have "snd e = c" using c(1) e dict_ok_map_of_iff [OF dc, of "fst e" "snd e"] by simp
      moreover have "prior_count (dget (w_cells s) (fst (fst e), k)) \<le> folded_inputs s"
        using cc' f0 dict_ok_map_of_iff [OF d] by (auto simp: prior_count_def split: option.split)
      ultimately show ?thesis using make_wcell_Inr [OF c(2)] by simp
    next
      case False
      then have "dget (w_cells s) (fst e) = Some (snd e)"
        using folded_cells_frame [OF f [folded xs_def], of "fst e"] e dict_ok_map_of_iff [OF dc, of "fst e" "snd e"] by auto
      then show ?thesis using cc' dict_ok_map_of_iff [OF d, of "fst e" "snd e"] by force
    qed
    have c0: "w_created s + new \<noteq> 0"
    proof
      assume z: "w_created s + new = 0"
      have "0 \<le> w_created s" using cok by (simp add: wcounters_ok_def)
      with z new have z': "w_created s = 0" "new = 0" by auto
      then have "int (length (w_cells s)) + w_emitted s = 0" using cc' by simp
      with em have "length (w_cells s) = 0" by linarith
      then have "w_cells s = []" by simp
      then have "new = m" by (simp add: new_def new_members_def m)
      with z' m show False by simp
    qed
    have mul: "(folded_inputs s + 1) * max 1 q \<le> w_updates s + m" "w_updates s + m \<le> (folded_inputs s + 1) * fanout_high w"
    proof -
      have "folded_inputs s * max 1 q \<le> w_updates s" "w_updates s \<le> folded_inputs s * fanout_high w"
        using cc' unfolding q_def [symmetric] by blast+
      moreover have "(folded_inputs s + 1) * y = folded_inputs s * y + y" for y by (simp add: distrib_right)
      ultimately show "(folded_inputs s + 1) * max 1 q \<le> w_updates s + m"
        "w_updates s + m \<le> (folded_inputs s + 1) * fanout_high w"
        using lo hi by (smt (verit, best))+
    qed
    have fin: "w_finalized s \<le> w_emitted s * (folded_inputs s + 1)"
      using cc' em by (simp add: distrib_left)
    have "check_counters w s' = Inr ()"
    proof -
      have f1: "0 \<le> folded_inputs s + 1" using f0 by simp
      have u0: "w_updates s + m \<noteq> 0" using cok m(2) by (simp add: wcounters_ok_def)
      have s1: "w_processed s' = n" "w_late s' = w_late s" "w_gaps s' = w_gaps s" "w_updates s' = w_updates s + m"
        "w_created s' = w_created s + new" "w_emitted s' = w_emitted s" "w_finalized s' = w_finalized s"
        "w_cells s' = cells" by (simp_all add: s')
      have "w_created s = int (length (w_cells s)) + w_emitted s" "w_created s \<le> w_updates s"
        "w_updates s = (\<Sum>e\<leftarrow>w_cells s. wc_count (snd e)) + w_finalized s"
        using cc' by blast+
      then have "w_created s + new = int (length cells) + w_emitted s" "w_created s + new \<le> w_updates s + m"
        "w_updates s + m = (\<Sum>e\<leftarrow>cells. wc_count (snd e)) + w_finalized s"
        using cnt new by linarith+
      then show ?thesis
        unfolding check_counters_iff fi q_def [symmetric] s1
        using cc' n(2) f1 mul c0 u0 counts fin by blast
    qed
    moreover have "wcounters_ok w s'"
      using cok folded(9,10) new m nM n by (simp add: wcounters_ok_def s' m_def [symmetric] xs_def [symmetric] new_def [symmetric])
    ultimately show ?thesis
      using dc valid bytes folded(6,7) keys inv cnt
      by (simp add: wstate_inv_def s' xs_def [symmetric] new_def [symmetric])
  qed
qed


section \<open>Processing, progress and draining\<close>

lemma phase_open: "ws_phase (the_status s) = WOpen \<longleftrightarrow> pending_cells s = [] \<and> \<not> w_finished s"
  by (simp add: the_status_def phase_of_def Let_def)

lemma window_process_Inr:
  assumes p: "stage_process w hk s t r h = Inr (s', reply, h')"
  obtains k encoded where "rec_key r = Some k" "is_label k" "pending_cells s = []" "\<not> w_finished s"
    "w_processed s + 1 \<le> wl_inputs (wf_limits w)" "0 \<le> w_processed s + 1"
    "before_watermark s t \<Longrightarrow> wf_drop_late w \<and> s' = s\<lparr>w_processed := w_processed s + 1, w_late := w_late s + 1\<rparr>
       \<and> wr_outcome reply = WLateDropped"
    "\<not> before_watermark s t \<Longrightarrow> stage_fold w hk s t k encoded (w_processed s + 1) h = Inr (s', reply, h')"
proof -
  obtain k0 where k0: "rec_key r = Some k0"
    using p unfolding stage_process_def rbind_eq_Inr if_error_eq_Inr by (cases "rec_key r") auto
  obtain st k encoded n where st: "status_of s = Inr st" "ws_phase st = WOpen" and k: "wname k0 = Inr k"
    and late: "\<not> (before_watermark s t \<and> \<not> wf_drop_late w)"
    and n: "count (w_processed s + 1) 0 (wl_inputs (wf_limits w)) = Inr n"
    and rest: "(if before_watermark s t
                 then (let after = s\<lparr>w_processed := n, w_late := w_late s + 1\<rparr>
                       in rbind (status_of after) (\<lambda>st.
                          rbind (window_result_check \<lparr>wr_outcome = WLateDropped, wr_memberships = 0, wr_status = st\<rparr>)
                            (\<lambda>r. Inr (after, r, h))))
                 else stage_fold w hk s t k encoded n h) = Inr (s', reply, h')"
    using p unfolding stage_process_def Let_def rbind_eq_Inr if_error_eq_Inr k0 option.case by blast
  have n': "n = w_processed s + 1" "0 \<le> w_processed s + 1" "w_processed s + 1 \<le> wl_inputs (wf_limits w)"
    using n by simp_all
  have phase: "pending_cells s = []" "\<not> w_finished s"
    using st status_of_Inr [OF st(1)] phase_open [of s] by simp_all
  show ?thesis
    by (rule that [of k encoded])
      (use k0 k phase n' late rest in \<open>auto simp: Let_def dest!: window_result_check_Inr\<close>)
qed

lemma stage_process_inv:
  assumes w: "window_fold_ok w" and inv: "wstate_inv w s"
    and p: "stage_process w hk s t r h = Inr (s', reply, h')"
  shows "wstate_inv w s'"
  using p
proof (cases rule: window_process_Inr)
  case (1 k encoded)
  show ?thesis
  proof (cases "before_watermark s t")
    case False
    show ?thesis
      by (rule stage_fold_inv [OF w inv 1(2) refl 1(5) 1(8) [OF False]])
  next
    case True
    then have s': "s' = s\<lparr>w_processed := w_processed s + 1, w_late := w_late s + 1\<rparr>" and "wf_drop_late w"
      using 1(7) by auto
    have l: "wl_inputs (wf_limits w) \<le> MAX_COUNT" using w window_limits_hard(6) by (simp add: window_fold_ok_def)
    have cc: "check_counters w s = Inr ()" and cok: "wcounters_ok w s" using inv by (simp_all add: wstate_inv_def)
    have "folded_inputs s' = folded_inputs s" by (simp add: s' folded_inputs_def)
    moreover have "w_late s + 1 \<le> MAX_COUNT"
      using cc cok 1(5) l by (simp add: check_counters_iff folded_inputs_def wcounters_ok_def)
    ultimately show ?thesis
      using inv cc cok 1(5,6) l \<open>wf_drop_late w\<close>
      unfolding wstate_inv_def check_counters_iff by (simp add: s' wcounters_ok_def)
  qed
qed

lemma check_counters_progress [simp]:
  "check_counters w (s\<lparr>w_watermark := m\<rparr>) = Inr () \<longleftrightarrow> check_counters w s = Inr ()"
  "check_counters w (s\<lparr>w_finished := b\<rparr>) = Inr () \<longleftrightarrow> check_counters w s = Inr ()"
  unfolding check_counters_iff by (simp_all add: folded_inputs_def)

text \<open>What processing an input leaves alone.\<close>

lemma window_process_frame:
  assumes "stage_process w hk s t r h = Inr (s', reply, h')" "dict_ok (w_cells s)"
  shows "w_watermark s' = w_watermark s" "w_finished s' = w_finished s" "w_processed s' = w_processed s + 1"
    and "w_emitted s' = w_emitted s"
proof -
  have "w_watermark s' = w_watermark s \<and> w_finished s' = w_finished s \<and> w_processed s' = w_processed s + 1
      \<and> w_emitted s' = w_emitted s"
    using assms(1)
  proof (cases rule: window_process_Inr)
    case (1 k encoded)
    show ?thesis
    proof (cases "before_watermark s t")
      case False
      from 1(8) [OF False] assms(2) show ?thesis by (cases rule: stage_fold_Inr) simp_all
    qed (use 1(7) in simp)
  qed
  then show "w_watermark s' = w_watermark s" "w_finished s' = w_finished s" "w_processed s' = w_processed s + 1"
    "w_emitted s' = w_emitted s" by simp_all
qed

lemma stage_advance_Inr:
  assumes "stage_advance s t = Inr (s', st)"
  shows "s' = s\<lparr>w_watermark := Some t\<rparr> \<and> st = the_status s' \<and> \<not> before_watermark s t \<and> \<bar>t\<bar> \<le> MAX_COUNT
    \<and> pending_cells s = [] \<and> \<not> w_finished s"
proof -
  obtain st0 where st0: "status_of s = Inr st0" "ws_phase st0 = WOpen"
    and "\<bar>t\<bar> \<le> MAX_COUNT" "\<not> before_watermark s t"
    and r: "rbind (status_of (s\<lparr>w_watermark := Some t\<rparr>)) (\<lambda>st. Inr (s\<lparr>w_watermark := Some t\<rparr>, st)) = Inr (s', st)"
    using assms unfolding stage_advance_def Let_def by (auto split: if_splits)
  with r phase_open [of s] status_of_Inr [OF st0(1)] show ?thesis by (auto dest: status_of_Inr)
qed

lemma stage_finish_Inr:
  "stage_finish s = Inr (s', st) \<Longrightarrow> s' = s\<lparr>w_finished := True\<rparr> \<and> st = the_status s'"
  by (auto simp: stage_finish_def Let_def dest: status_of_Inr)

lemma stage_advance_inv: "wstate_inv w s \<Longrightarrow> stage_advance s t = Inr (s', st) \<Longrightarrow> wstate_inv w s'"
  using stage_advance_Inr [of s t s' st] by (auto simp: wstate_inv_def wcounters_ok_def)

lemma stage_finish_inv: "wstate_inv w s \<Longrightarrow> stage_finish s = Inr (s', st) \<Longrightarrow> wstate_inv w s'"
  using stage_finish_Inr [of s s' st] by (auto simp: wstate_inv_def wcounters_ok_def)

text \<open>The row of a cell.\<close>

definition row_of_cell :: "window_fold \<Rightarrow> wcell \<Rightarrow> window_row \<Rightarrow> bool" where
  "row_of_cell w c r \<longleftrightarrow>
     wo_key r = wc_key c \<and> wo_index r = wc_index c \<and> wo_start r = wc_start c \<and> wo_end r = wc_end c
     \<and> wo_count r = wc_count c \<and> wo_tick_unit r = wf_tick_unit w \<and> canonical (wo_json r)
     \<and> (\<exists>sz. wrow_bytes r = Inr sz \<and> sz \<le> wl_row_bytes (wf_limits w))"

lemma make_window_row_Inr:
  assumes "make_window_row k i a b u n v = Inr r"
  shows "\<exists>t. r = \<lparr>wo_key = k, wo_index = i, wo_start = a, wo_end = b, wo_tick_unit = u, wo_count = n, wo_json = t\<rparr>
    \<and> snapshot v (wl_row_bytes window_ceilings) = Inr t"
  using assms unfolding make_window_row_def rbind_eq_Inr if_error_eq_Inr by auto

lemma drain_row_Inr:
  assumes "drain_row w hk c (rows, h) = Inr s'"
  shows "\<exists>row h'. s' = (rows @ [row], h') \<and> row_of_cell w c row"
proof -
  obtain v row sz h1 where mk: "make_window_row (wc_key c) (wc_index c) (wc_start c) (wc_end c)
      (wf_tick_unit w) (wc_count c) v = Inr row" and sz: "wrow_bytes row = Inr sz"
    and r: "(if wl_row_bytes (wf_limits w) < sz then Inl ValidationError
           else rbind (wh_row hk row h1) (\<lambda>h. Inr (rows @ [row], h))) = Inr s'"
    using assms unfolding drain_row_def Let_def prod.case split_def rbind_eq_Inr prod.sel by blast
  from r obtain h' where "s' = (rows @ [row], h')" "sz \<le> wl_row_bytes (wf_limits w)"
    unfolding if_error_eq_Inr rbind_eq_Inr by auto
  moreover obtain t where "row = \<lparr>wo_key = wc_key c, wo_index = wc_index c, wo_start = wc_start c, wo_end = wc_end c,
      wo_tick_unit = wf_tick_unit w, wo_count = wc_count c, wo_json = t\<rparr>"
    "snapshot v (wl_row_bytes window_ceilings) = Inr t"
    using make_window_row_Inr [OF mk] by blast
  ultimately show ?thesis using sz snapshot_canonical [of v] by (auto simp: row_of_cell_def)
qed

lemma fold_drain_row:
  "fold_res (drain_row w hk) cs (rows, h) = Inr (rows', h') \<Longrightarrow>
     \<exists>new. rows' = rows @ new \<and> list_all2 (row_of_cell w) cs new"
proof (induction cs arbitrary: rows h)
  case (Cons c cs)
  obtain s1 where s1: "drain_row w hk c (rows, h) = Inr s1" "fold_res (drain_row w hk) cs s1 = Inr (rows', h')"
    using Cons.prems by auto
  obtain row h1 where "s1 = (rows @ [row], h1)" "row_of_cell w c row" using drain_row_Inr [OF s1(1)] by blast
  with Cons.IH [of "rows @ [row]" h1] s1(2) show ?case by auto
qed simp

definition drained_state :: "wstate \<Rightarrow> (window_key \<times> wcell) list \<Rightarrow> wstate" where
  "drained_state s sel = s\<lparr>w_cells := fold ddel (map fst sel) (w_cells s),
     w_bytes := w_bytes s - (\<Sum>e\<leftarrow>sel. wc_bytes (snd e)),
     w_emitted := w_emitted s + int (length sel),
     w_finalized := w_finalized s + (\<Sum>e\<leftarrow>sel. wc_count (snd e))\<rparr>"

lemma window_drain_Inr:
  assumes p: "stage_drain w hk s m h = Inr (s', b, h')"
  shows "s' = drained_state s (drain_selection w s m)
    \<and> list_all2 (row_of_cell w) (map snd (drain_selection w s m)) (wb_rows b)
    \<and> wb_status b = the_status s' \<and> 1 \<le> m
    \<and> w_emitted s' \<le> MAX_COUNT \<and> w_finalized s' \<le> MAX_COUNT
    \<and> (\<exists>sz. rows_bytes (wb_rows b) = Inr sz \<and> sz \<le> wl_batch_bytes (wf_limits w))"
proof -
  define sel where "sel = drain_selection w s m"
  obtain emitted finalized h1 y where m: "1 \<le> m" and em: "count (w_emitted s + int (length sel)) 0 MAX_COUNT = Inr emitted"
    and fin: "count (w_finalized s + (\<Sum>e\<leftarrow>sel. wc_count (snd e))) 0 MAX_COUNT = Inr finalized"
    and y: "fold_res (drain_row w hk) (map snd sel) ([], h1) = Inr y"
    and rest: "(\<lambda>(rows, h). rbind (rows_bytes rows) (\<lambda>sz.
        if wl_batch_bytes (wf_limits w) < sz then Inl ValidationError
        else let after = s\<lparr>w_cells := fold ddel (map fst sel) (w_cells s),
                       w_bytes := w_bytes s - (\<Sum>e\<leftarrow>sel. wc_bytes (snd e)),
                       w_emitted := emitted, w_finalized := finalized\<rparr>
             in rbind (status_of after) (\<lambda>st.
                rbind (window_batch_check \<lparr>wb_rows = rows, wb_status = st\<rparr>) (\<lambda>b.
                  Inr (after, b, h))))) y = Inr (s', b, h')"
    using p unfolding stage_drain_def Let_def sel_def [symmetric] rbind_eq_Inr count_Inr by blast
  obtain rows h2 where y2: "y = (rows, h2)" by (cases y)
  have rows: "list_all2 (row_of_cell w) (map snd sel) rows" using fold_drain_row [OF y [unfolded y2]] by simp
  obtain sz where sz: "rows_bytes rows = Inr sz" "sz \<le> wl_batch_bytes (wf_limits w)"
    and r: "rbind (status_of (drained_state s sel)) (\<lambda>st.
                rbind (window_batch_check \<lparr>wb_rows = rows, wb_status = st\<rparr>) (\<lambda>b.
                  Inr (drained_state s sel, b, h2))) = Inr (s', b, h')"
    using rest em fin unfolding y2 prod.case rbind_eq_Inr Let_def if_error_eq_Inr by (auto simp: drained_state_def)
  have "b' = b0" if "window_batch_check b0 = Inr b'" for b0 b'
    using that by (auto simp: window_batch_check_def split: if_splits)
  with r have "s' = drained_state s sel" "b = \<lparr>wb_rows = rows, wb_status = the_status s'\<rparr>"
    by (auto dest!: status_of_Inr)
  with rows sz m em fin show ?thesis by (simp add: sel_def) (simp add: drained_state_def sel_def)
qed

lemma drain_selection_facts:
  assumes "dict_ok (w_cells s)"
  shows "set (drain_selection w s m) \<subseteq> set (pending_cells s)" "distinct (map fst (drain_selection w s m))"
    "sorted (map fst (drain_selection w s m))"
proof -
  have p: "dict_ok (pending_cells s)" using assms by (simp add: pending_cells_def)
  have d: "distinct (map fst (sort_key fst (pending_cells s)))"
    using sort_key_fst_perm(3) [OF p] by (simp add: dict_ok_def)
  show "set (drain_selection w s m) \<subseteq> set (pending_cells s)"
    by (auto simp: drain_selection_def dest: in_set_takeD)
  show "distinct (map fst (drain_selection w s m))" "sorted (map fst (drain_selection w s m))"
    using d by (simp_all add: drain_selection_def take_map [symmetric] sorted_wrt_take)
qed

lemma stage_drain_inv:
  assumes w: "window_fold_ok w" and inv: "wstate_inv w s"
    and p: "stage_drain w hk s m h = Inr (s', b, h')"
  shows "wstate_inv w s'"
proof -
  define sel where "sel = drain_selection w s m"
  have d: "dict_ok (w_cells s)" and cc: "check_counters w s = Inr ()" and cok: "wcounters_ok w s"
    using inv by (simp_all add: wstate_inv_def)
  have s': "s' = drained_state s sel" and le: "w_emitted s' \<le> MAX_COUNT" "w_finalized s' \<le> MAX_COUNT"
    using window_drain_Inr [OF p] unfolding sel_def by blast+
  have sub: "set sel \<subseteq> set (w_cells s)" and dist: "distinct (map fst sel)"
    using drain_selection_facts [OF d] by (auto simp: sel_def pending_cells_def)
  note sums = sum_ddel_selected [OF d dist sub]
  note cc' = cc [unfolded check_counters_iff]
  have valid: "wcell_valid w (fst e) (snd e)" if "e \<in> set (w_cells s)" for e using inv that by (simp add: wstate_inv_def)
  have left: "set (fold ddel (map fst sel) (w_cells s)) \<subseteq> set (w_cells s)" by (auto simp: fold_ddel)
  have c1: "int (length sel) \<le> (\<Sum>e\<leftarrow>sel. wc_count (snd e))"
  proof -
    have "(\<Sum>e\<leftarrow>sel. 1) \<le> (\<Sum>e\<leftarrow>sel. wc_count (snd e))"
      using sub wcell_validD(5) [OF valid] by (intro sum_list_mono) auto
    then show ?thesis by (simp add: sum_list_triv)
  qed
  have c2: "(\<Sum>e\<leftarrow>sel. wc_count (snd e)) \<le> int (length sel) * folded_inputs s"
  proof -
    have "(\<Sum>e\<leftarrow>sel. wc_count (snd e)) \<le> (\<Sum>e\<leftarrow>sel. folded_inputs s)"
      using sub cc' by (intro sum_list_mono) auto
    then show ?thesis by (simp add: sum_list_triv)
  qed
  have b0: "0 \<le> (\<Sum>e\<leftarrow>sel. wc_bytes (snd e))"
    using sub wcell_validD(6) [OF valid] by (intro sum_list_nonneg) auto
  have len: "int (length (fold ddel (map fst sel) (w_cells s))) = int (length (w_cells s)) - int (length sel)"
    using sums [of "\<lambda>_. 1"] by (simp add: sum_list_triv)
  have fi: "folded_inputs s' = folded_inputs s" by (simp add: s' drained_state_def folded_inputs_def)
  have keys: "length (retained_keys (fold ddel (map fst sel) (w_cells s))) \<le> length (retained_keys (w_cells s))"
    unfolding retained_keys_card by (rule card_mono) (use left in auto)
  have "check_counters w s' = Inr ()"
  proof -
    have s1: "w_processed s' = w_processed s" "w_late s' = w_late s" "w_gaps s' = w_gaps s" "w_updates s' = w_updates s"
      "w_created s' = w_created s" "w_emitted s' = w_emitted s + int (length sel)"
      "w_finalized s' = w_finalized s + (\<Sum>e\<leftarrow>sel. wc_count (snd e))"
      "w_cells s' = fold ddel (map fst sel) (w_cells s)"
      by (simp_all add: s' drained_state_def)
    have "w_created s = int (length (w_cells s)) + w_emitted s"
      "w_updates s = (\<Sum>e\<leftarrow>w_cells s. wc_count (snd e)) + w_finalized s"
      "w_emitted s \<le> w_finalized s" "w_finalized s \<le> w_emitted s * folded_inputs s"
      using cc' by blast+
    then have "w_created s = int (length (fold ddel (map fst sel) (w_cells s))) + (w_emitted s + int (length sel))"
      "w_updates s = (\<Sum>e\<leftarrow>fold ddel (map fst sel) (w_cells s). wc_count (snd e))
         + (w_finalized s + (\<Sum>e\<leftarrow>sel. wc_count (snd e)))"
      "w_emitted s + int (length sel) \<le> w_finalized s + (\<Sum>e\<leftarrow>sel. wc_count (snd e))"
      "w_finalized s + (\<Sum>e\<leftarrow>sel. wc_count (snd e)) \<le> (w_emitted s + int (length sel)) * folded_inputs s"
      using len sums [of "\<lambda>e. wc_count (snd e)"] c1 c2 by (simp_all add: distrib_right)
    then show ?thesis unfolding check_counters_iff fi s1 using cc' left by blast
  qed
  moreover have "wcounters_ok w s'"
    using cok le c1 by (simp add: wcounters_ok_def s' drained_state_def)
  ultimately show ?thesis
    using inv d left b0 len keys sums [of "\<lambda>e. wc_bytes (snd e)"]
    by (auto simp: wstate_inv_def s' drained_state_def fold_ddel)
qed

section \<open>The runtime\<close>

definition window_rt_inv :: "window_runtime \<Rightarrow> bool" where
  "window_rt_inv rt \<longleftrightarrow> window_fold_ok (wt_spec rt) \<and> wstate_inv (wt_spec rt) (wt_state rt) \<and> \<not> wt_busy rt"

lemma make_window_runtime_inv: "make_window_runtime w = Inr rt \<Longrightarrow> window_rt_inv rt"
  by (auto simp: make_window_runtime_def window_rt_inv_def empty_wstate_inv split: if_splits)

lemma window_stage_inv:
  "window_fold_ok w \<Longrightarrow> wstate_inv w s \<Longrightarrow> window_stage w op s = Inr (s', reply) \<Longrightarrow> wstate_inv w s'"
  by (cases op) (auto simp: window_stage_def
      intro: stage_process_inv stage_advance_inv stage_finish_inv stage_drain_inv)

lemma window_apply_Inl: "window_apply op rt = (Inl e, rt') \<Longrightarrow> rt' = rt"
  by (auto simp: window_apply_def Let_def split: if_splits sum.splits prod.splits)

lemma window_apply_Inr:
  assumes "window_apply op rt = (Inr b, rt')"
  shows "\<not> wt_busy rt \<and> (\<exists>s'. window_stage (wt_spec rt) op (wt_state rt) = Inr (s', b) \<and> rt' = rt\<lparr>wt_state := s'\<rparr>)"
  using assms by (cases rt) (auto simp: window_apply_def Let_def split: if_splits sum.splits prod.splits)

interpretation window: atomic_runtime window_apply window_rt_inv "\<lambda>_. True"
proof unfold_locales
  show "s' = s" if "window_apply p s = (Inl e, s')" for s p e s'
    using that by (rule window_apply_Inl)
  show "window_rt_inv s'" if "window_rt_inv s" "window_apply p s = (Inr r, s')" for s p r s'
    using window_apply_Inr [OF that(2)] that(1) window_stage_inv by (auto simp: window_rt_inv_def)
qed

end
