(* ===== verification/Window_Finality.thy ===== *)
theory Window_Finality
  imports Window_Fold_Laws
begin

text \<open>
  Windows are final: a window that was emitted is never emitted again; and draining with the
  identity finalizer always succeeds and ends.
\<close>

section \<open>Windows are final\<close>

definition row_key :: "window_row \<Rightarrow> window_key" where
  "row_key r = (wo_index r, wo_key r)"

definition reply_keys :: "window_reply res \<Rightarrow> window_key list" where
  "reply_keys r = (case r of Inr (RBatch b) \<Rightarrow> map row_key (wb_rows b) | _ \<Rightarrow> [])"

definition emitted_keys :: "window_reply res list \<Rightarrow> window_key list" where
  "emitted_keys rs = concat (map reply_keys rs)"

definition window_closed :: "window_fold \<Rightarrow> wstate \<Rightarrow> window_key \<Rightarrow> bool" where
  "window_closed w s ik \<longleftrightarrow> w_finished s \<or> before_watermark s (window_end w (fst ik) - 1)"

definition window_dead :: "window_fold \<Rightarrow> wstate \<Rightarrow> window_key \<Rightarrow> bool" where
  "window_dead w s ik \<longleftrightarrow> dget (w_cells s) ik = None \<and> window_closed w s ik"

lemma eligible_closed:
  assumes "wcell_valid w ik c"
  shows "eligible s c \<longleftrightarrow> window_closed w s ik"
  using wcell_validD(4) [OF assms]
  by (auto simp: eligible_def window_closed_def before_watermark_def split: option.split)

lemma drained_rows_keys:
  assumes inv: "wstate_inv w s" and p: "stage_drain w hk s m h = Inr (s', b, h')"
  shows "map row_key (wb_rows b) = map fst (drain_selection w s m)"
proof -
  define sel where "sel = drain_selection w s m"
  have d: "dict_ok (w_cells s)" using inv by (simp add: wstate_inv_def)
  have rows: "list_all2 (row_of_cell w) (map snd sel) (wb_rows b)"
    using window_drain_Inr [OF p] by (simp add: sel_def)
  have valid: "wcell_valid w (fst e) (snd e)" if "e \<in> set sel" for e
    using drain_selection_facts(1) [OF d, of w m] inv that by (auto simp: sel_def pending_cells_def wstate_inv_def)
  have "map row_key (wb_rows b) = map (\<lambda>e. (wc_index (snd e), wc_key (snd e))) sel"
  proof (rule nth_equalityI)
    show "length (map row_key (wb_rows b)) = length (map (\<lambda>e. (wc_index (snd e), wc_key (snd e))) sel)"
      using list_all2_lengthD [OF rows] by simp
    fix i assume "i < length (map row_key (wb_rows b))"
    with list_all2_nthD2 [OF rows, of i] list_all2_lengthD [OF rows]
    show "map row_key (wb_rows b) ! i = map (\<lambda>e. (wc_index (snd e), wc_key (snd e))) sel ! i"
      by (simp add: row_of_cell_def row_key_def)
  qed
  also have "\<dots> = map fst sel"
    using wcell_validD(1,2) [OF valid] by (intro map_cong) auto
  finally show ?thesis by (simp add: sel_def)
qed

lemma window_stage_dead:
  assumes w: "window_fold_ok w" and inv: "wstate_inv w s" and p: "window_stage w op s = Inr (s', reply)"
    and dead: "window_dead w s ik"
  shows "window_dead w s' ik"
proof (cases op)
  case (WProcess t r)
  with p obtain res h' where p': "stage_process w no_window_hooks s t r () = Inr (s', res, h')"
    by (auto simp: window_stage_def)
  have d: "dict_ok (w_cells s)" using inv by (simp add: wstate_inv_def)
  have hop: "1 \<le> wf_hop w" using w by (simp add: window_fold_ok_def)
  from p' show ?thesis
  proof (cases rule: window_process_Inr)
    case (1 k encoded)
    show ?thesis
    proof (cases "before_watermark s t")
      case True
      with 1 dead show ?thesis by (auto simp: window_dead_def window_closed_def before_watermark_def)
    next
      case False
      from 1(8) [OF False] d show ?thesis
      proof (cases rule: stage_fold_Inr)
        case gap
        with dead show ?thesis by (auto simp: window_dead_def window_closed_def before_watermark_def)
      next
        case (folded cells sz)
        have "before_watermark s (window_end w (fst ik) - 1)" using dead 1(4) by (auto simp: window_dead_def window_closed_def)
        with False have "window_end w (fst ik) \<le> t" by (auto simp: before_watermark_def split: option.splits)
        then have "fst ik \<notin> set (member_indexes w t)" by (auto simp: member_index_iff [OF hop])
        then have "dget cells ik = dget (w_cells s) ik" using folded_cells_frame [OF folded(3), of ik] by simp
        with dead folded(4) show ?thesis by (auto simp: window_dead_def window_closed_def before_watermark_def)
      qed
    qed
  qed
next
  case (WAdvance t)
  with p obtain st where "stage_advance s t = Inr (s', st)" by (auto simp: window_stage_def)
  with stage_advance_Inr [of s t s' st] dead show ?thesis
    by (auto simp: window_dead_def window_closed_def before_watermark_def split: option.splits)
next
  case WFinish
  with p obtain st where "stage_finish s = Inr (s', st)" by (auto simp: window_stage_def)
  with stage_finish_Inr [of s s' st] dead show ?thesis
    by (auto simp: window_dead_def window_closed_def)
next
  case (WDrain m)
  with p obtain b h' where "stage_drain w no_window_hooks s m () = Inr (s', b, h')" by (auto simp: window_stage_def)
  then have s': "s' = drained_state s (drain_selection w s m)" by (rule window_drain_Inr [THEN conjunct1])
  have "dget (filter P d) ik = None" if "dget d ik = None" for P and d :: "(window_key, wcell) dict"
    using that by (auto simp: dget_None_iff)
  with dead show ?thesis
    by (auto simp: s' window_dead_def window_closed_def before_watermark_def drained_state_def fold_ddel)
qed

lemma window_stage_emits:
  assumes w: "window_fold_ok w" and inv: "wstate_inv w s" and p: "window_stage w op s = Inr (s', reply)"
  shows "distinct (reply_keys (Inr reply))
    \<and> (\<forall>ik\<in>set (reply_keys (Inr reply)). dget (w_cells s) ik \<noteq> None \<and> window_dead w s' ik)"
proof (cases "reply_keys (Inr reply) = []")
  case False
  then obtain b where b: "reply = RBatch b" by (cases reply) (auto simp: reply_keys_def)
  with p obtain m h' where p': "stage_drain w no_window_hooks s m () = Inr (s', b, h')"
    by (cases op) (auto simp: window_stage_def)
  define sel where "sel = drain_selection w s m"
  have d: "dict_ok (w_cells s)" using inv by (simp add: wstate_inv_def)
  have keys: "reply_keys (Inr reply) = map fst sel" using drained_rows_keys [OF inv p'] by (simp add: b reply_keys_def sel_def)
  have s': "s' = drained_state s sel" using window_drain_Inr [OF p'] by (simp add: sel_def)
  have "dget (w_cells s) ik \<noteq> None \<and> window_dead w s' ik" if ik: "ik \<in> set (map fst sel)" for ik
  proof -
    obtain c where c: "(ik, c) \<in> set sel" using ik by auto
    then have pend: "(ik, c) \<in> set (pending_cells s)" using drain_selection_facts(1) [OF d] by (auto simp: sel_def)
    then have "(ik, c) \<in> set (w_cells s)" and e: "eligible s c" by (auto simp: pending_cells_def)
    then have "dget (w_cells s) ik = Some c" "wcell_valid w ik c"
      using d inv by (auto simp: dict_ok_map_of_iff wstate_inv_def)
    moreover have "window_closed w s ik" using eligible_closed [OF calculation(2)] e by simp
    moreover have "dget (w_cells s') ik = None"
      using ik by (auto simp: s' drained_state_def fold_ddel dget_None_iff intro: rev_image_eqI)
    ultimately show ?thesis by (simp add: window_dead_def window_closed_def s' drained_state_def before_watermark_def)
  qed
  then show ?thesis using drain_selection_facts(2) [OF d] by (simp add: keys sel_def)
qed simp

lemma run_emitted_once:
  assumes "window_rt_inv rt"
  shows "distinct (emitted_keys (fst (run_ops window_apply ops rt)))
    \<and> (\<forall>ik\<in>set (emitted_keys (fst (run_ops window_apply ops rt))). \<not> window_dead (wt_spec rt) (wt_state rt) ik)"
  using assms
proof (induction ops arbitrary: rt)
  case (Cons op ops)
  obtain r rt1 where r: "window_apply op rt = (r, rt1)" by (cases "window_apply op rt")
  have w: "window_fold_ok (wt_spec rt)" and inv: "wstate_inv (wt_spec rt) (wt_state rt)"
    using Cons.prems by (simp_all add: window_rt_inv_def)
  have inv1: "window_rt_inv rt1" using window.step_inv [OF Cons.prems, of op] r by simp
  note IH = Cons.IH [OF inv1]
  have keys: "emitted_keys (fst (run_ops window_apply (op # ops) rt))
      = reply_keys r @ emitted_keys (fst (run_ops window_apply ops rt1))"
    by (simp add: run_ops_Cons r emitted_keys_def)
  show ?case
  proof (cases r)
    case (Inl e)
    then have "rt1 = rt" using r window_apply_Inl by blast
    with IH keys Inl show ?thesis by (simp add: reply_keys_def)
  next
    case (Inr reply)
    obtain s' where s': "window_stage (wt_spec rt) op (wt_state rt) = Inr (s', reply)" "rt1 = rt\<lparr>wt_state := s'\<rparr>"
      using window_apply_Inr [OF r [unfolded Inr]] by blast
    note em = window_stage_emits [OF w inv s'(1)]
    have dead: "window_dead (wt_spec rt) (wt_state rt) ik \<Longrightarrow> window_dead (wt_spec rt1) (wt_state rt1) ik" for ik
      using window_stage_dead [OF w inv s'(1)] s'(2) by simp
    have "set (reply_keys r) \<inter> set (emitted_keys (fst (run_ops window_apply ops rt1))) = {}"
      using em IH s'(2) Inr by auto
    moreover have "\<not> window_dead (wt_spec rt) (wt_state rt) ik" if "ik \<in> set (reply_keys r)" for ik
      using em that Inr by (auto simp: window_dead_def)
    ultimately show ?thesis using em IH dead Inr unfolding keys by auto
  qed
qed (simp add: emitted_keys_def)


section \<open>Draining\<close>

lemma decoded_canonical:
  assumes "canonical t"
  shows "\<exists>v. decoded t = Inr v \<and> (\<forall>m. byte_len t \<le> m \<longrightarrow> snapshot v m = Inr t)"
  using canonical_reads [OF assms] by (auto simp: decoded_def)

lemma drain_row_identity:
  assumes w: "window_fold_ok w" and id: "wf_finalize w = None" and v: "wcell_valid w ik c"
  shows "\<exists>row. drain_row w no_window_hooks c (rows, h) = Inr (rows @ [row], h)
    \<and> (\<exists>sz. wrow_bytes row = Inr sz \<and> sz \<le> wl_row_bytes (wf_limits w))"
proof -
  have l: "window_limits_ok (wf_limits w)" using w by (simp add: window_fold_ok_def)
  have can: "canonical (wc_encoded c)" "byte_len (wc_encoded c) \<le> wl_state_value_bytes (wf_limits w)" "is_label (snd ik)"
    and mk: "make_wcell w (snd ik) (fst ik) (wc_count c) (wc_encoded c) = Inr c"
    using v by (simp_all add: wcell_valid_def)
  obtain x where x: "decoded (wc_encoded c) = Inr x" "\<And>m. byte_len (wc_encoded c) \<le> m \<Longrightarrow> snapshot x m = Inr (wc_encoded c)"
    using decoded_canonical [OF can(1)] by blast
  have snap: "snapshot x (wl_row_bytes window_ceilings) = Inr (wc_encoded c)"
    using can(2) l by (intro x(2)) (simp add: window_limits_ok_def window_ceilings_def)
  note c = wcell_validD [OF v]
  have g: "\<bar>wc_index c\<bar> \<le> MAX_COUNT" "\<bar>wc_start c\<bar> \<le> MAX_COUNT" "\<bar>wc_end c\<bar> \<le> MAX_COUNT"
    using c(7) unfolding geometry_Inr c(2) by blast+
  have cnt: "1 \<le> wc_count c" "wc_count c \<le> MAX_COUNT" using make_wcell_Inr [OF mk] by simp_all
  have se: "wc_start c < wc_end c" using c(3,4) w by (simp add: window_end_def window_fold_ok_def)
  obtain sz where sz: "window_row_size (row_metadata (wc_key c) (wc_index c) (wc_start c) (wc_end c) (wf_tick_unit w) (wc_count c))
      (wc_encoded c) = Inr sz" "sz \<le> wl_row_bytes (wf_limits w)"
  proof -
    have "rbind (geometry w (fst ik)) (\<lambda>(start, stop). rbind (window_row_size (row_metadata (snd ik) (fst ik) start stop (wf_tick_unit w) (wc_count c)) (wc_encoded c)) (\<lambda>sz.
                        check (sz \<le> wl_row_bytes (wf_limits w)))) = Inr ()"
      using mk id by (auto simp: make_wcell_def Let_def split: prod.splits)
    then show ?thesis using that by (auto simp: c(7) c(1,2))
  qed
  have szc: "sz \<le> wl_row_bytes window_ceilings" using sz(2) window_limits_hard(9) [OF l] by simp
  define row where "row = \<lparr>wo_key = wc_key c, wo_index = wc_index c, wo_start = wc_start c, wo_end = wc_end c,
      wo_tick_unit = wf_tick_unit w, wo_count = wc_count c, wo_json = wc_encoded c\<rparr>"
  have unit: "is_label (wf_tick_unit w)" using w by (simp add: window_fold_ok_def)
  have names: "wname (wc_key c) = Inr (wc_key c)" "wname (wf_tick_unit w) = Inr (wf_tick_unit w)"
    using can(3) unit by (simp_all add: c(1))
  have ticks: "tick (wc_index c) = Inr (wc_index c)" "tick (wc_start c) = Inr (wc_start c)" "tick (wc_end c) = Inr (wc_end c)"
    "count (wc_count c) 1 MAX_COUNT = Inr (wc_count c)"
    using g cnt by (simp_all add: abs_le_iff)
  have "make_window_row (wc_key c) (wc_index c) (wc_start c) (wc_end c) (wf_tick_unit w) (wc_count c) x = Inr row"
    using se szc by (simp add: make_window_row_def names ticks snap sz(1) row_def not_le)
  moreover have "wrow_bytes row = Inr sz" using sz(1) by (simp add: wrow_bytes_def wrow_metadata_def row_def)
  ultimately show ?thesis
    using sz(2) by (simp add: drain_row_def x(1) id no_window_hooks_def)
qed

lemma fold_drain_identity:
  assumes w: "window_fold_ok w" and id: "wf_finalize w = None"
    and "\<And>e. e \<in> set sel \<Longrightarrow> wcell_valid w (fst e) (snd e)"
  shows "\<exists>new. fold_res (drain_row w no_window_hooks) (map snd sel) (rows, h) = Inr (rows @ new, h)
    \<and> length new = length sel \<and> (\<forall>r\<in>set new. \<exists>sz. wrow_bytes r = Inr sz \<and> sz \<le> wl_row_bytes (wf_limits w))"
  using assms(3)
proof (induction sel arbitrary: rows)
  case (Cons e sel)
  obtain row where row: "drain_row w no_window_hooks (snd e) (rows, h) = Inr (rows @ [row], h)"
    "\<exists>sz. wrow_bytes row = Inr sz \<and> sz \<le> wl_row_bytes (wf_limits w)"
    using drain_row_identity [OF w id, of "fst e" "snd e" rows h] Cons.prems by auto
  obtain new where "fold_res (drain_row w no_window_hooks) (map snd sel) (rows @ [row], h) = Inr ((rows @ [row]) @ new, h)"
    "length new = length sel" "\<forall>r\<in>set new. \<exists>sz. wrow_bytes r = Inr sz \<and> sz \<le> wl_row_bytes (wf_limits w)"
    using Cons.IH [of "rows @ [row]"] Cons.prems by auto
  with row show ?case by (intro exI [of _ "row # new"]) simp
qed simp

lemma rows_bytes_bound:
  "(\<And>r. r \<in> set rows \<Longrightarrow> \<exists>sz. wrow_bytes r = Inr sz \<and> sz \<le> m) \<Longrightarrow>
     \<exists>t. rows_bytes rows = Inr t \<and> t \<le> int (length rows) * m"
proof (induction rows)
  case (Cons r rows)
  obtain sz t where "wrow_bytes r = Inr sz" "sz \<le> m" "rows_bytes rows = Inr t" "t \<le> int (length rows) * m"
    using Cons.IH Cons.prems by fastforce
  then show ?case by (auto simp: rows_bytes_def algebra_simps)
qed (simp add: rows_bytes_def)

lemma drain_selection_length:
  assumes "window_limits_ok l"
  shows "int (drain_cap l m) \<le> max 0 (wl_rows_per_batch l)" "int (drain_cap l m) * wl_row_bytes l \<le> wl_batch_bytes l"
    and "1 \<le> m \<Longrightarrow> 1 \<le> drain_cap l m"
proof -
  have r: "1 \<le> wl_row_bytes l" "wl_row_bytes l \<le> wl_batch_bytes l" "1 \<le> wl_rows_per_batch l"
    using window_limits_hard [OF assms] by simp_all
  have q: "1 \<le> wl_batch_bytes l div wl_row_bytes l" using le_div_iff [of "wl_row_bytes l" 1 "wl_batch_bytes l"] r by simp
  show "int (drain_cap l m) \<le> max 0 (wl_rows_per_batch l)" by (auto simp: drain_cap_def min_def)
  have "int (drain_cap l m) \<le> wl_batch_bytes l div wl_row_bytes l" using q by (simp add: drain_cap_def)
  then show "int (drain_cap l m) * wl_row_bytes l \<le> wl_batch_bytes l"
    using le_div_iff [of "wl_row_bytes l"] r by simp
  show "1 \<le> drain_cap l m" if "1 \<le> m" using that q r by (simp add: drain_cap_def)
qed

lemma window_drain_succeeds:
  assumes w: "window_fold_ok w" and id: "wf_finalize w = None" and inv: "wstate_inv w s"
    and m: "1 \<le> m" "m \<le> wl_windows window_ceilings"
  shows "\<exists>b. stage_drain w no_window_hooks s m h = Inr (drained_state s (drain_selection w s m), b, h)"
proof -
  define sel where "sel = drain_selection w s m"
  have l: "window_limits_ok (wf_limits w)" using w by (simp add: window_fold_ok_def)
  have d: "dict_ok (w_cells s)" and cok: "wcounters_ok w s" and cc: "check_counters w s = Inr ()"
    using inv by (simp_all add: wstate_inv_def)
  note cc' = cc [unfolded check_counters_iff]
  have sub: "set sel \<subseteq> set (w_cells s)" and dist: "distinct (map fst sel)"
    using drain_selection_facts [OF d] by (auto simp: sel_def pending_cells_def)
  have valid: "wcell_valid w (fst e) (snd e)" if "e \<in> set (w_cells s)" for e using inv that by (simp add: wstate_inv_def)
  have c0: "0 \<le> (\<Sum>e\<leftarrow>sel. wc_count (snd e))" "0 \<le> (\<Sum>e\<leftarrow>fold ddel (map fst sel) (w_cells s). wc_count (snd e))"
    using sub wcell_validD(5) [OF valid] by (force intro!: sum_list_nonneg simp: fold_ddel)+
  have len: "int (length (fold ddel (map fst sel) (w_cells s))) = int (length (w_cells s)) - int (length sel)"
    using sum_ddel_selected [OF d dist sub, of "\<lambda>_. 1"] by (simp add: sum_list_triv)
  have em: "count (w_emitted s + int (length sel)) 0 MAX_COUNT = Inr (w_emitted s + int (length sel))"
    using cc' cok len by (simp add: wcounters_ok_def)
  have fin: "count (w_finalized s + (\<Sum>e\<leftarrow>sel. wc_count (snd e))) 0 MAX_COUNT
      = Inr (w_finalized s + (\<Sum>e\<leftarrow>sel. wc_count (snd e)))"
    using cc' cok c0 sum_ddel_selected [OF d dist sub, of "\<lambda>e. wc_count (snd e)"] by (simp add: wcounters_ok_def)
  obtain rows where rows: "fold_res (drain_row w no_window_hooks) (map snd sel) ([], h) = Inr (rows, h)"
    "length rows = length sel" "\<forall>r\<in>set rows. \<exists>sz. wrow_bytes r = Inr sz \<and> sz \<le> wl_row_bytes (wf_limits w)"
  proof -
    have "wcell_valid w (fst e) (snd e)" if "e \<in> set sel" for e using valid that sub by blast
    from fold_drain_identity [OF w id this, of sel "[]" h] that show ?thesis by auto
  qed
  obtain t where t: "rows_bytes rows = Inr t" "t \<le> int (length sel) * wl_row_bytes (wf_limits w)"
    using rows_bytes_bound [of rows "wl_row_bytes (wf_limits w)"] rows(2,3) by auto
  have cap: "int (length sel) \<le> int (drain_cap (wf_limits w) m)" by (simp add: sel_def drain_selection_def)
  then have "int (length sel) * wl_row_bytes (wf_limits w) \<le> int (drain_cap (wf_limits w) m) * wl_row_bytes (wf_limits w)"
    using window_limits_hard(2) [OF l] by (intro mult_right_mono) auto
  then have tb: "t \<le> wl_batch_bytes (wf_limits w)" using drain_selection_length(2) [OF l, of m] t(2) by linarith
  define s' where "s' = drained_state s sel"
  have st: "status_of s' = Inr (the_status s')"
  proof (rule status_of_ok)
    show "int (length (w_cells s')) \<le> wl_windows window_ceilings"
      using inv len window_limits_hard(1) [OF l] by (simp add: s'_def drained_state_def wstate_inv_def)
    show "case w_watermark s' of None \<Rightarrow> True | Some m \<Rightarrow> \<bar>m\<bar> \<le> MAX_COUNT"
      using inv by (simp add: s'_def drained_state_def wstate_inv_def)
  qed
  then have stc: "window_status_check (the_status s') = Inr (the_status s')"
    by (simp add: status_of_def the_status_def Let_def)
  have "int (length rows) \<le> wl_rows_per_batch window_ceilings"
    using cap drain_selection_length(1) [OF l, of m] window_limits_hard(4,7) [OF l] rows(2) by simp
  then have batch: "window_batch_check \<lparr>wb_rows = rows, wb_status = the_status s'\<rparr> = Inr \<lparr>wb_rows = rows, wb_status = the_status s'\<rparr>"
    using stc t tb window_limits_hard(8) [OF l] by (simp add: window_batch_check_def)
  have eq: "s\<lparr>w_cells := fold ddel (map fst sel) (w_cells s), w_bytes := w_bytes s - (\<Sum>e\<leftarrow>sel. wc_bytes (snd e)),
      w_emitted := w_emitted s + int (length sel), w_finalized := w_finalized s + (\<Sum>e\<leftarrow>sel. wc_count (snd e))\<rparr> = s'"
    by (simp add: s'_def drained_state_def)
  have cm: "count m 1 (wl_windows window_ceilings) = Inr m" using m by simp
  have "stage_drain w no_window_hooks s m h = Inr (s', \<lparr>wb_rows = rows, wb_status = the_status s'\<rparr>, h)"
    unfolding stage_drain_def Let_def sel_def [symmetric] cm rbind.simps em fin eq
    using tb by (simp add: no_window_hooks_def rows(1) [unfolded no_window_hooks_def] t(1) eq [unfolded fold_ddel] fold_ddel st batch)
  then show ?thesis by (simp add: s'_def sel_def)
qed

text \<open>Repeating \<open>drain\<close>.\<close>

fun drain_windows :: "nat \<Rightarrow> window_fold \<Rightarrow> int \<Rightarrow> wstate \<Rightarrow> (window_row list \<times> wstate) res" where
  "drain_windows 0 w m s = Inr ([], s)"
| "drain_windows (Suc n) w m s =
     rbind (stage_drain w no_window_hooks s m ()) (\<lambda>(s, b, _).
     rbind (drain_windows n w m s) (\<lambda>(rows, s). Inr (wb_rows b @ rows, s)))"

lemma pending_drained:
  "pending_cells (drained_state s sel) = fold ddel (map fst sel) (pending_cells s)"
  by (simp add: pending_cells_def drained_state_def fold_ddel eligible_def conj_commute)

lemma drain_windows_ends:
  assumes w: "window_fold_ok w" and id: "wf_finalize w = None" and "wstate_inv w s"
    and m: "1 \<le> m" "m \<le> wl_windows window_ceilings" and "length (pending_cells s) \<le> n"
  shows "\<exists>rows t. drain_windows n w m s = Inr (rows, t) \<and> pending_cells t = [] \<and> wstate_inv w t
    \<and> map row_key rows = map fst (sort_key fst (pending_cells s))"
  using assms(3,6)
proof (induction n arbitrary: s)
  case (Suc n)
  define sel where "sel = drain_selection w s m"
  have l: "window_limits_ok (wf_limits w)" using w by (simp add: window_fold_ok_def)
  have d: "dict_ok (w_cells s)" using Suc.prems(1) by (simp add: wstate_inv_def)
  have dp: "dict_ok (pending_cells s)" using d by (simp add: pending_cells_def)
  define rest where "rest = drop (drain_cap (wf_limits w) m) (sort_key fst (pending_cells s))"
  have split: "sort_key fst (pending_cells s) = sel @ rest" by (simp add: sel_def rest_def drain_selection_def)
  obtain b where b: "stage_drain w no_window_hooks s m () = Inr (drained_state s sel, b, ())"
    using window_drain_succeeds [OF w id Suc.prems(1) m, of "()"] by (auto simp: sel_def)
  have inv': "wstate_inv w (drained_state s sel)" by (rule stage_drain_inv [OF w Suc.prems(1) b])
  have sorted': "sort_key fst (pending_cells (drained_state s sel)) = rest"
    unfolding pending_drained by (rule sum_fold_ddel(3) [OF dp split])
  have "length (pending_cells (drained_state s sel)) = length rest" using sorted' by (metis length_sort)
  also have "\<dots> \<le> n"
  proof -
    have "1 \<le> drain_cap (wf_limits w) m" using drain_selection_length(3) [OF l m(1)] .
    then show ?thesis using Suc.prems(2) by (simp add: rest_def)
  qed
  finally obtain rows t where "drain_windows n w m (drained_state s sel) = Inr (rows, t)" "pending_cells t = []"
    "wstate_inv w t" "map row_key rows = map fst rest"
    using Suc.IH [OF inv'] sorted' by auto
  moreover have "map row_key (wb_rows b) = map fst sel" using drained_rows_keys [OF Suc.prems(1) b] by (simp add: sel_def)
  ultimately show ?case using b split by auto
qed simp

end
