(* ===== verification/Window_Hooks.thy ===== *)
theory Window_Hooks
  imports Window_Finality
begin

text \<open>
  The staged window transitions under hooks: hooks can refuse, but never change what a stage
  does to the window state; and hooks that meter reservations and admissions end with the
  number of cells and bytes of the new state.
\<close>

section \<open>Erasure\<close>

text \<open>\<open>erases \<pi> m n\<close>: when \<open>m\<close> returns, \<open>n\<close> returns the same, seen through \<open>\<pi>\<close>.\<close>

definition erases :: "('a \<Rightarrow> 'b) \<Rightarrow> 'a res \<Rightarrow> 'b res \<Rightarrow> bool" where
  "erases f m n \<longleftrightarrow> (\<forall>y. m = Inr y \<longrightarrow> n = Inr (f y))"

lemma erases_bind:
  "erases f m n \<Longrightarrow> (\<And>y. m = Inr y \<Longrightarrow> erases g (p y) (q (f y))) \<Longrightarrow> erases g (rbind m p) (rbind n q)"
  unfolding erases_def by (cases m) auto

lemma erases_same: "(\<And>y. m = Inr y \<Longrightarrow> erases g (p y) (q y)) \<Longrightarrow> erases g (rbind m p) (rbind m q)"
  unfolding erases_def by (cases m) auto

lemma erases_reserve:
  "(\<And>y. erases g (p y) (q ())) \<Longrightarrow> erases g (rbind m p) (rbind (wh_reserve no_window_hooks cs n ()) q)"
  unfolding erases_def no_window_hooks_def by (cases m) auto

lemma erases_hook: "(\<And>y. erases g (p y) n) \<Longrightarrow> erases g (rbind m p) n"
  unfolding erases_def by (cases m) auto

lemma erases_if: "(b \<Longrightarrow> erases g m n) \<Longrightarrow> (\<not> b \<Longrightarrow> erases g m' n') \<Longrightarrow> erases g (if b then m else m') (if b then n else n')"
  by simp

lemma erases_raise: "erases g (Inl e) n"
  by (simp add: erases_def)

lemma erases_return: "f y = z \<Longrightarrow> erases f (Inr y) (Inr z)"
  by (simp add: erases_def)

lemma erases_fold:
  "(\<And>x s. erases f (p x s) (q x (f s))) \<Longrightarrow> erases f (fold_res p xs s) (fold_res q xs (f s))"
proof (induction xs arbitrary: s)
  case (Cons x xs)
  then show ?case unfolding fold_res.simps by (intro erases_bind [of f]) auto
qed (simp add: erases_return)

lemma erased_hooks [simp]:
  "wh_call no_window_hooks = Inr" "wh_reserve no_window_hooks cs n = Inr" "wh_admit no_window_hooks c = Inr"
  "wh_row no_window_hooks r = Inr"
  by (simp_all add: no_window_hooks_def)

abbreviation drop2 :: "'a \<times> 'h \<Rightarrow> 'a \<times> unit" where "drop2 \<equiv> map_prod id (\<lambda>_. ())"
abbreviation drop3 :: "'a \<times> 'b \<times> 'h \<Rightarrow> 'a \<times> 'b \<times> unit" where "drop3 \<equiv> map_prod id drop2"

lemma erases_call: "erases drop2 (stage_call hk f phase k i args h) (stage_call no_window_hooks f phase k i args ())"
  unfolding stage_call_def by (auto simp: erases_def)

lemma erases_fold_window:
  "erases drop3 (fold_window w hk base k encoded i s) (fold_window w no_window_hooks base k encoded i (drop3 s))"
proof -
  obtain cells sz h where s: "s = (cells, sz, h)" by (metis prod_cases3)
  have first: "erases drop2
      (case dget base (i, k) of
         None \<Rightarrow> rbind (stage_call hk (wf_initial w) ''initial'' k i [] h) (\<lambda>(v, h).
                 rbind (snapshot v (wl_state_value_bytes (wf_limits w))) (\<lambda>t. rbind (decoded t) (\<lambda>state. Inr (state, h))))
       | Some c \<Rightarrow> rbind (decoded (wc_encoded c)) (\<lambda>state. Inr (state, h)))
      (case dget base (i, k) of
         None \<Rightarrow> rbind (stage_call no_window_hooks (wf_initial w) ''initial'' k i [] ()) (\<lambda>(v, h).
                 rbind (snapshot v (wl_state_value_bytes (wf_limits w))) (\<lambda>t. rbind (decoded t) (\<lambda>state. Inr (state, h))))
       | Some c \<Rightarrow> rbind (decoded (wc_encoded c)) (\<lambda>state. Inr (state, ())))"
  proof (cases "dget base (i, k)")
    case None
    then show ?thesis unfolding None option.case
      by (intro erases_bind [OF erases_call]) (auto intro!: erases_same erases_return split: prod.split)
  next
    case (Some c)
    then show ?thesis by (auto intro!: erases_same erases_return)
  qed
  show ?thesis
    unfolding s fold_window_def Let_def map_prod_simp prod.case id_apply
    apply (rule erases_bind [OF first])
    subgoal for y
      apply (cases y; simp only: map_prod_simp prod.case id_apply)
      apply (rule erases_same, rule erases_bind [OF erases_call])
      subgoal for _ _ _ call
        apply (cases call; simp only: map_prod_simp prod.case id_apply)
        apply (intro erases_same erases_if erases_raise)
        apply (simp only: erased_hooks rbind.simps)
        apply (intro erases_hook erases_return)
        by simp
      done
    done
qed

lemma erases_fold_windows:
  "erases drop3 (fold_res (fold_window w hk base k encoded) xs (cells, sz, h))
     (fold_res (fold_window w no_window_hooks base k encoded) xs (cells, sz, ()))"
proof -
  have "erases drop3 (fold_res (fold_window w hk base k encoded) xs (cells, sz, h))
      (fold_res (fold_window w no_window_hooks base k encoded) xs (drop3 (cells, sz, h)))"
    by (rule erases_fold) (rule erases_fold_window)
  then show ?thesis by simp
qed

lemma erases_stage_fold:
  "erases drop3 (stage_fold w hk s t k encoded n h) (stage_fold w no_window_hooks s t k encoded n ())"
  unfolding stage_fold_def Let_def
  apply (intro erases_same erases_if)
   apply (simp add: erases_return)
  apply (rule erases_reserve)
  apply (rule erases_bind [OF erases_fold_windows])
  subgoal for _ _ _ _ _ _ _ _ y
    apply (cases y; simp only: map_prod_simp prod.case id_apply)
    apply (intro erases_same)
    by (simp add: erases_return)
  done

lemma stage_process_erase:
  "stage_process w hk s t r h = Inr (s', reply, h') \<Longrightarrow> stage_process w no_window_hooks s t r () = Inr (s', reply, ())"
proof -
  have "erases drop3 (stage_process w hk s t r h) (stage_process w no_window_hooks s t r ())"
    unfolding stage_process_def Let_def
    apply (intro erases_same erases_if erases_raise)
    apply (cases "rec_key r"; simp only: option.case erases_raise)
    apply (intro erases_same erases_if erases_raise erases_stage_fold)
    by (simp add: erases_return)
  then show "stage_process w hk s t r h = Inr (s', reply, h') \<Longrightarrow> ?thesis" by (simp add: erases_def)
qed

lemma erases_drain_row: "erases drop2 (drain_row w hk c s) (drain_row w no_window_hooks c (drop2 s))"
proof -
  obtain rows h where s: "s = (rows, h)" by (cases s)
  have first: "erases drop2 (case wf_finalize w of None \<Rightarrow> Inr (v, h)
        | Some f \<Rightarrow> stage_call hk f ''finalize'' (wc_key c) (wc_index c) [v] h)
      (case wf_finalize w of None \<Rightarrow> Inr (v, ())
        | Some f \<Rightarrow> stage_call no_window_hooks f ''finalize'' (wc_key c) (wc_index c) [v] ())" for v
    by (cases "wf_finalize w") (simp_all add: erases_call erases_return)
  show ?thesis
    unfolding s drain_row_def Let_def map_prod_simp prod.case id_apply
    apply (rule erases_same)
    apply (rule erases_bind [OF first])
    subgoal for _ y
      apply (cases y; simp only: map_prod_simp prod.case id_apply)
      apply (intro erases_same erases_if erases_raise)
      apply (simp only: erased_hooks rbind.simps)
      apply (intro erases_hook erases_return)
      by simp
    done
qed

lemma stage_drain_erase:
  "stage_drain w hk s m h = Inr (s', b, h') \<Longrightarrow> stage_drain w no_window_hooks s m () = Inr (s', b, ())"
proof -
  have rows: "erases drop2 (fold_res (drain_row w hk) cs ([], h)) (fold_res (drain_row w no_window_hooks) cs ([], ()))" for cs h
  proof -
    have "erases drop2 (fold_res (drain_row w hk) cs ([], h)) (fold_res (drain_row w no_window_hooks) cs (drop2 ([], h)))"
      by (rule erases_fold) (rule erases_drain_row)
    then show ?thesis by simp
  qed
  have "erases drop3 (stage_drain w hk s m h) (stage_drain w no_window_hooks s m ())"
    unfolding stage_drain_def Let_def
    apply (intro erases_same)
    apply (rule erases_reserve)
    apply (rule erases_bind [OF rows])
    subgoal for _ _ _ _ y
      apply (cases y; simp only: map_prod_simp prod.case id_apply)
      apply (intro erases_same erases_if erases_raise)
      by (simp add: erases_return)
    done
  then show "stage_drain w hk s m h = Inr (s', b, h') \<Longrightarrow> ?thesis" by (simp add: erases_def)
qed

section \<open>Metering\<close>

text \<open>\<open>R c b h\<close>: the hook state \<open>h\<close> accounts for \<open>c\<close> cells of \<open>b\<close> bytes.\<close>

locale window_meter =
  fixes hk :: "'h window_hooks" and R :: "int \<Rightarrow> int \<Rightarrow> 'h \<Rightarrow> bool"
  assumes called: "R c b h \<Longrightarrow> wh_call hk h = Inr h' \<Longrightarrow> R c b h'"
    and reserved: "R c b h \<Longrightarrow> wh_reserve hk cs n h = Inr h' \<Longrightarrow>
      R (c + (n - int (length cs))) (b - (\<Sum>x\<leftarrow>cs. wc_bytes x)) h'"
    and admitted: "R c b h \<Longrightarrow> wh_admit hk x h = Inr h' \<Longrightarrow> R c (b + wc_bytes x) h'"
    and released: "R c b h \<Longrightarrow> wh_row hk row h = Inr h' \<Longrightarrow> R c b h'"
begin

lemma call: "stage_call hk f phase k i args h = Inr (v, h') \<Longrightarrow> R c b h \<Longrightarrow> R c b h'"
  by (auto simp: stage_call_def intro: called)

lemma fold_one:
  assumes "fold_window w hk base k encoded i (cells, sz, h) = Inr (cells', sz', h')" "R c b h"
  shows "R c (b + (sz' - sz)) h'"
proof -
  obtain y where y: "(case dget base (i, k) of
      None \<Rightarrow> rbind (stage_call hk (wf_initial w) ''initial'' k i [] h) (\<lambda>(v, h).
              rbind (snapshot v (wl_state_value_bytes (wf_limits w))) (\<lambda>t. rbind (decoded t) (\<lambda>state. Inr (state, h))))
    | Some c \<Rightarrow> rbind (decoded (wc_encoded c)) (\<lambda>state. Inr (state, h))) = Inr y"
    and rest: "(\<lambda>(state, h). rbind (decoded encoded) (\<lambda>input.
         rbind (stage_call hk (wf_fold w) ''fold'' k i [state, input] h) (\<lambda>(v, h).
         rbind (snapshot v (wl_state_value_bytes (wf_limits w))) (\<lambda>saved.
         rbind (make_wcell w k i (prior_count (dget base (i, k)) + 1) saved) (\<lambda>proposed.
           if wl_state_bytes (wf_limits w) < sz + wc_bytes proposed then Inl ValidationError
           else rbind (wh_admit hk proposed h) (\<lambda>h.
                  Inr (dput (i, k) proposed cells, sz + wc_bytes proposed, h))))))) y = Inr (cells', sz', h')"
    using assms(1) unfolding fold_window_def Let_def prod.case rbind_eq_Inr by blast
  obtain state h1 where y1: "y = (state, h1)" by (cases y)
  have h1: "R c b h1" using y assms(2) unfolding y1 by (cases "dget base (i, k)") (auto dest: call)
  obtain z where z: "\<exists>input. stage_call hk (wf_fold w) ''fold'' k i [state, input] h1 = Inr z"
    and tail: "(\<lambda>(v, h). rbind (snapshot v (wl_state_value_bytes (wf_limits w))) (\<lambda>saved.
         rbind (make_wcell w k i (prior_count (dget base (i, k)) + 1) saved) (\<lambda>proposed.
           if wl_state_bytes (wf_limits w) < sz + wc_bytes proposed then Inl ValidationError
           else rbind (wh_admit hk proposed h) (\<lambda>h.
                  Inr (dput (i, k) proposed cells, sz + wc_bytes proposed, h))))) z = Inr (cells', sz', h')"
    using rest unfolding y1 prod.case rbind_eq_Inr by blast
  obtain v h2 where z1: "z = (v, h2)" by (cases z)
  have h2: "R c b h2" using z h1 unfolding z1 by (auto dest: call)
  obtain x where "wh_admit hk x h2 = Inr h'" "sz' = sz + wc_bytes x"
    using tail unfolding z1 prod.case rbind_eq_Inr if_error_eq_Inr by auto
  then show ?thesis using admitted [OF h2] by simp
qed

lemma fold_all:
  "fold_res (fold_window w hk base k encoded) xs (cells, sz, h) = Inr (cells', sz', h') \<Longrightarrow> R c b h \<Longrightarrow> R c (b + (sz' - sz)) h'"
proof (induction xs arbitrary: cells sz h b)
  case (Cons i xs)
  then obtain c1 s1 h1 where "fold_window w hk base k encoded i (cells, sz, h) = Inr (c1, s1, h1)"
      and r: "fold_res (fold_window w hk base k encoded) xs (c1, s1, h1) = Inr (cells', sz', h')" by auto
  from fold_one [OF this(1) Cons.prems(2)] show ?case using Cons.IH [OF r] by fastforce
qed simp

lemma stage_fold:
  assumes p: "stage_fold w hk s t k encoded n h = Inr (s', r, h')" and d: "dict_ok (w_cells s)" and R: "R c b h"
  shows "R (c + (int (length (w_cells s')) - int (length (w_cells s)))) (b + (w_bytes s' - w_bytes s)) h'"
proof (cases "max 0 (last_index w t - first_index w t + 1) = 0")
  case True
  from p have "h' = h \<and> w_cells s' = w_cells s \<and> w_bytes s' = w_bytes s"
    unfolding stage_fold_def Let_def True by auto
  then show ?thesis using R by simp
next
  case False
  define xs where "xs = member_indexes w t"
  define cs where "cs = w_cells s"
  define prior where "prior = prior_cells cs k xs"
  obtain h1 y where res: "wh_reserve hk prior (max 0 (last_index w t - first_index w t + 1)) h = Inr h1"
    and y: "fold_res (fold_window w hk cs k encoded) xs (cs, w_bytes s - (\<Sum>c\<leftarrow>prior. wc_bytes c), h1) = Inr y"
    and rest: "\<exists>u v. (\<lambda>(cells, sz, h).
              let after = s\<lparr>w_cells := cells, w_processed := n, w_updates := u, w_created := v, w_bytes := sz\<rparr>
              in rbind (status_of after) (\<lambda>st.
                 rbind (window_result_check \<lparr>wr_outcome = WFolded,
                      wr_memberships = max 0 (last_index w t - first_index w t + 1), wr_status = st\<rparr>) (\<lambda>r.
                   Inr (after, r, h)))) y = Inr (s', r, h')"
    using p [unfolded stage_fold_def Let_def if_not_P [OF False] xs_def [symmetric] cs_def [symmetric] prior_def [symmetric] rbind_eq_Inr]
    by (elim exE conjE) (rule that [unfolded Let_def], assumption, assumption, intro exI, assumption)
  obtain cells sz h2 where y1: "y = (cells, sz, h2)" by (metis prod_cases3)
  have s': "w_cells s' = cells" "w_bytes s' = sz" "h' = h2" using rest unfolding y1 by (auto simp: Let_def)
  have cnt: "max 0 (last_index w t - first_index w t + 1) = int (length xs)"
    using length_member_indexes [of w t] by (simp add: xs_def member_count_def)
  have "distinct xs" by (simp add: xs_def member_indexes_def)
  then have "int (length cells) = int (length cs) + int (length (filter (\<lambda>i. dget cs (i, k) = None) xs))"
    using fold_windows [OF y [unfolded y1]] d unfolding folded_cells_def cs_def by blast
  moreover have "length prior + length (filter (\<lambda>i. dget cs (i, k) = None) xs) = length xs"
    unfolding prior_def prior_cells_def by (induction xs) (auto simp: List.map_filter_def)
  ultimately have c: "int (length xs) - int (length prior) = int (length cells) - int (length cs)" by linarith
  have "R (c + (int (length xs) - int (length prior))) (b - (\<Sum>c\<leftarrow>prior. wc_bytes c)) h1"
    using reserved [OF R res] unfolding cnt .
  from fold_all [OF y [unfolded y1] this] show ?thesis
    unfolding s' c by (simp add: cs_def)
qed

lemma stage_process:
  assumes p: "stage_process w hk s t r h = Inr (s', reply, h')" and d: "dict_ok (w_cells s)" and R: "R c b h"
  shows "R (c + (int (length (w_cells s')) - int (length (w_cells s)))) (b + (w_bytes s' - w_bytes s)) h'"
proof -
  obtain k encoded n where "(before_watermark s t \<and> (\<exists>x. h' = h \<and> s' = s\<lparr>w_processed := n, w_late := x\<rparr>))
      \<or> stage_fold w hk s t k encoded n h = Inr (s', reply, h')"
    using p unfolding stage_process_def Let_def
    by (auto split: if_splits option.splits)
  then show ?thesis using stage_fold [OF _ d R] R by auto
qed

lemma drain_one: "drain_row w hk x (rows, h) = Inr (rows', h') \<Longrightarrow> R c b h \<Longrightarrow> R c b h'"
  unfolding drain_row_def Let_def prod.case rbind_eq_Inr
  by (cases "wf_finalize w") (auto split: if_splits dest: call released)

lemma drain_all: "fold_res (drain_row w hk) xs (rows, h) = Inr (rows', h') \<Longrightarrow> R c b h \<Longrightarrow> R c b h'"
proof (induction xs arbitrary: rows h)
  case (Cons x xs)
  then obtain r1 h1 where "drain_row w hk x (rows, h) = Inr (r1, h1)" "fold_res (drain_row w hk) xs (r1, h1) = Inr (rows', h')" by auto
  then show ?case using drain_one Cons by blast
qed simp

lemma stage_drain:
  assumes p: "stage_drain w hk s m h = Inr (s', b', h')" and d: "dict_ok (w_cells s)" and R: "R c b h"
  shows "R (c + (int (length (w_cells s')) - int (length (w_cells s)))) (b + (w_bytes s' - w_bytes s)) h'"
proof -
  define sel where "sel = drain_selection w s m"
  have s': "s' = drained_state s sel" using window_drain_Inr [OF p] by (simp add: sel_def)
  have sub: "set sel \<subseteq> set (w_cells s)" and dist: "distinct (map fst sel)"
    using drain_selection_facts [OF d] by (auto simp: sel_def pending_cells_def)
  note sums = sum_ddel_selected [OF d dist sub]
  have len: "int (length (w_cells s')) - int (length (w_cells s)) = - int (length sel)"
    using sums [of "\<lambda>_. 1"] by (simp add: s' drained_state_def sum_list_triv)
  have bytes: "w_bytes s' - w_bytes s = - (\<Sum>e\<leftarrow>sel. wc_bytes (snd e))" by (simp add: s' drained_state_def)
  obtain h1 y where res: "wh_reserve hk (map snd sel) 0 h = Inr h1"
    and y: "fold_res (drain_row w hk) (map snd sel) ([], h1) = Inr y"
    and rest: "\<exists>u v. (\<lambda>(rows, h). rbind (rows_bytes rows) (\<lambda>sz.
        if wl_batch_bytes (wf_limits w) < sz then Inl ValidationError
        else let after = s\<lparr>w_cells := fold ddel (map fst sel) (w_cells s),
                       w_bytes := w_bytes s - (\<Sum>e\<leftarrow>sel. wc_bytes (snd e)), w_emitted := u, w_finalized := v\<rparr>
             in rbind (status_of after) (\<lambda>st.
                rbind (window_batch_check \<lparr>wb_rows = rows, wb_status = st\<rparr>) (\<lambda>b.
                  Inr (after, b, h))))) y = Inr (s', b', h')"
    using p unfolding stage_drain_def Let_def sel_def [symmetric] rbind_eq_Inr by blast
  obtain rows h2 where y1: "y = (rows, h2)" by (cases y)
  have h': "h' = h2" using rest unfolding y1 by (auto simp: Let_def split: if_splits)
  have "R (c + (0 - int (length sel))) (b - (\<Sum>e\<leftarrow>sel. wc_bytes (snd e))) h1"
    using reserved [OF R res] by (simp add: comp_def)
  from drain_all [OF y [unfolded y1] this] show ?thesis unfolding len bytes h' by simp
qed

end

end
