(* ===== verification/Branching_Laws.thy ===== *)
theory Branching_Laws
  imports Branching
begin

text \<open>
  What \<open>branching.py\<close> guarantees: the execution order is a topological order and exists
  exactly for acyclic graphs; a walk consumes every delivered batch, stays within the work
  budget and keeps the accounting of the transaction; \<open>GraphRuntime\<close> is atomic, keeps its
  invariant, and a restored runtime answers as the original.
\<close>

section \<open>The execution order\<close>

definition sources_first :: "(pystr \<Rightarrow> 'e flow_edge_scheme list) \<Rightarrow> pystr list \<Rightarrow> bool" where
  "sources_first incoming order \<longleftrightarrow>
     (\<forall>xs k ys. order = xs @ k # ys \<longrightarrow> (\<forall>e \<in> set (incoming k). edge_source e \<in> set xs))"

lemma sources_first_snoc:
  "sources_first incoming (order @ [k]) \<longleftrightarrow> sources_first incoming order \<and> node_ready incoming order k"
  (is "?L \<longleftrightarrow> ?R")
proof
  assume L: ?L
  have "sources_first incoming order"
    unfolding sources_first_def
  proof (intro allI impI)
    fix xs j ys assume "order = xs @ j # ys"
    then have "order @ [k] = xs @ j # (ys @ [k])" by simp
    with L show "\<forall>e\<in>set (incoming j). edge_source e \<in> set xs"
      unfolding sources_first_def by blast
  qed
  moreover have "node_ready incoming order k"
    using L by (auto simp: sources_first_def node_ready_def list_all_iff)
  ultimately show ?R by simp
next
  assume R: ?R
  show ?L
    unfolding sources_first_def
  proof (intro allI impI)
    fix xs j ys assume s: "order @ [k] = xs @ j # ys"
    show "\<forall>e\<in>set (incoming j). edge_source e \<in> set xs"
    proof (cases ys rule: rev_cases)
      case Nil
      with s R show ?thesis by (auto simp: node_ready_def list_all_iff)
    next
      case (snoc zs z)
      with s have "order = xs @ j # zs" by simp
      with R show ?thesis by (auto simp: sources_first_def)
    qed
  qed
qed

lemma find_ready_None:
  assumes "find (node_ready incoming order) remaining = None"
    and ord: "sources_first incoming o1" "set o1 = set order \<union> set remaining"
  shows "remaining = []"
proof (rule ccontr)
  assume "remaining \<noteq> []"
  then have "\<exists>k\<in>set o1. k \<in> set remaining" using ord by (cases remaining) auto
  then obtain xs k ys where o1: "o1 = xs @ k # ys" and k: "k \<in> set remaining"
    and xs: "\<forall>x\<in>set xs. x \<notin> set remaining"
    using split_list_first_prop [of o1 "\<lambda>k. k \<in> set remaining"] by auto
  have "set xs \<subseteq> set order" using xs ord(2) o1 by auto
  moreover have "\<forall>e\<in>set (incoming k). edge_source e \<in> set xs"
    using ord(1) o1 by (auto simp: sources_first_def)
  ultimately have "node_ready incoming order k" by (auto simp: node_ready_def list_all_iff)
  with assms(1) k show False by (auto simp: find_None_iff)
qed

lemma topological_loop_correct:
  assumes "sources_first incoming order" "distinct (order @ remaining)"
  shows "(\<forall>o1. topological_loop incoming order remaining = Inr o1 \<longrightarrow>
            sources_first incoming o1 \<and> distinct o1 \<and> set o1 = set order \<union> set remaining)
       \<and> (\<forall>o1. sources_first incoming o1 \<and> set o1 = set order \<union> set remaining \<longrightarrow>
            (\<exists>o2. topological_loop incoming order remaining = Inr o2))"
  using assms
proof (induction incoming order remaining rule: topological_loop.induct)
  case (1 incoming order remaining)
  show ?case
  proof (cases "remaining = []")
    case True
    with "1.prems" show ?thesis by (simp add: topological_loop.simps)
  next
    case False
    show ?thesis
    proof (cases "find (node_ready incoming order) remaining")
      case None
      with False show ?thesis
        using find_ready_None [OF None] by (auto simp: topological_loop.simps [of incoming order])
    next
      case (Some k)
      then have k: "k \<in> set remaining" "node_ready incoming order k"
        by (auto simp: find_Some_iff)
      have "sources_first incoming (order @ [k])" using "1.prems"(1) k(2) by (simp add: sources_first_snoc)
      moreover have "distinct ((order @ [k]) @ remove1 k remaining)"
        using "1.prems"(2) k(1) by auto
      ultimately have IH: "(\<forall>o1. topological_loop incoming (order @ [k]) (remove1 k remaining) = Inr o1 \<longrightarrow>
            sources_first incoming o1 \<and> distinct o1 \<and> set o1 = set (order @ [k]) \<union> set (remove1 k remaining))
       \<and> (\<forall>o1. sources_first incoming o1 \<and> set o1 = set (order @ [k]) \<union> set (remove1 k remaining) \<longrightarrow>
            (\<exists>o2. topological_loop incoming (order @ [k]) (remove1 k remaining) = Inr o2))"
        by (rule "1.IH" [OF False Some])
      moreover have "set (order @ [k]) \<union> set (remove1 k remaining) = set order \<union> set remaining"
        using "1.prems"(2) k(1) by auto
      moreover have "topological_loop incoming order remaining
          = topological_loop incoming (order @ [k]) (remove1 k remaining)"
        using False Some by (simp add: topological_loop.simps [of incoming order])
      ultimately show ?thesis by simp
    qed
  qed
qed

lemma dict_fromkeys_set [simp]: "set (dict_fromkeys ids) = set ids" "distinct (dict_fromkeys ids)"
  by (simp_all add: dict_fromkeys_def)

lemma sources_first_Nil [simp]: "sources_first incoming []"
  by (simp add: sources_first_def)

lemma topological_order_Inr:
  "topological_order ids incoming = Inr order \<Longrightarrow>
   sources_first incoming order \<and> distinct order \<and> set order = set ids"
  using topological_loop_correct [of incoming "[]" "dict_fromkeys ids"]
  by (simp add: topological_order_def)

lemma topological_order_complete:
  "sources_first incoming o1 \<Longrightarrow> set o1 = set ids \<Longrightarrow> \<exists>order. topological_order ids incoming = Inr order"
  using topological_loop_correct [of incoming "[]" "dict_fromkeys ids"]
  unfolding topological_order_def by auto

text \<open>No order puts the sources of a cycle first: following sources backwards never leaves it.\<close>

lemma sources_first_acyclic:
  assumes r: "sources_first incoming order" and C: "C \<subseteq> set order" "C \<noteq> {}"
  shows "\<exists>k\<in>C. \<forall>e\<in>set (incoming k). edge_source e \<notin> C"
proof -
  have "\<exists>k\<in>set order. k \<in> C" using C by auto
  then obtain xs k ys where o1: "order = xs @ k # ys" and k: "k \<in> C" and xs: "\<forall>x\<in>set xs. x \<notin> C"
    using split_list_first_prop [of order "\<lambda>k. k \<in> C"] by auto
  with r have "\<forall>e\<in>set (incoming k). edge_source e \<in> set xs" by (auto simp: sources_first_def)
  with xs k show ?thesis by auto
qed

text \<open>A set of nodes that each depend on another of the set; the loop fails on one.\<close>

definition has_cycle :: "(pystr \<Rightarrow> 'e flow_edge_scheme list) \<Rightarrow> pystr set \<Rightarrow> bool" where
  "has_cycle incoming ids \<longleftrightarrow>
     (\<exists>C. C \<noteq> {} \<and> C \<subseteq> ids \<and> (\<forall>k\<in>C. \<exists>e\<in>set (incoming k). edge_source e \<in> C))"

lemma topological_loop_Inl:
  assumes "topological_loop incoming order remaining = Inl e"
    and "\<forall>k\<in>set remaining. \<forall>e\<in>set (incoming k). edge_source e \<in> set order \<union> set remaining"
  shows "has_cycle incoming (set remaining)"
  using assms
proof (induction incoming order remaining rule: topological_loop.induct)
  case (1 incoming order remaining)
  show ?case
  proof (cases "find (node_ready incoming order) remaining")
    case None
    with "1.prems" have "remaining \<noteq> []" by (auto simp: topological_loop.simps [of incoming order])
    moreover have "\<exists>e\<in>set (incoming k). edge_source e \<in> set remaining" if "k \<in> set remaining" for k
      using None that "1.prems"(2) by (fastforce simp: find_None_iff node_ready_def list_all_iff)
    ultimately show ?thesis by (auto simp: has_cycle_def intro!: exI [of _ "set remaining"])
  next
    case (Some k)
    then have k: "k \<in> set remaining" and ne: "remaining \<noteq> []" by (auto simp: find_Some_iff)
    have "topological_loop incoming (order @ [k]) (remove1 k remaining) = Inl e"
      using "1.prems"(1) ne Some by (simp add: topological_loop.simps [of incoming order])
    moreover have "\<forall>j\<in>set (remove1 k remaining). \<forall>e\<in>set (incoming j).
        edge_source e \<in> set (order @ [k]) \<union> set (remove1 k remaining)"
    proof (intro ballI)
      fix j e assume "j \<in> set (remove1 k remaining)" "e \<in> set (incoming j)"
      then have "edge_source e \<in> set order \<union> set remaining"
        using "1.prems"(2) set_remove1_subset [of k remaining] by blast
      then show "edge_source e \<in> set (order @ [k]) \<union> set (remove1 k remaining)"
        by (auto simp: in_set_remove1)
    qed
    ultimately have "has_cycle incoming (set (remove1 k remaining))"
      by (rule "1.IH" [OF ne Some])
    then obtain C where "C \<noteq> {}" "C \<subseteq> set (remove1 k remaining)"
      and "\<forall>k\<in>C. \<exists>e\<in>set (incoming k). edge_source e \<in> C"
      unfolding has_cycle_def by blast
    moreover have "set (remove1 k remaining) \<subseteq> set remaining" by (rule set_remove1_subset)
    ultimately show ?thesis unfolding has_cycle_def by (intro exI [of _ C]) auto
  qed
qed

section \<open>One node\<close>

text \<open>
  What holds of the graph runtimes' walks, which have no extension: the nodes are valid
  steps, and state is kept only under the step ids \<open>S\<close>.
\<close>

definition walk_ok :: "('x, 'e, 'h) walk_params \<Rightarrow> pystr set \<Rightarrow> bool" where
  "walk_ok w S \<longleftrightarrow>
     flow_limits_ok (wp_limits w) \<and> wp_extension w = None
     \<and> (\<forall>k step. wp_nodes w k = GStep step \<longrightarrow>
          flow_step_ok step \<and> (is_stateful (step_op step) \<longrightarrow> step_id step \<in> S))
     \<and> (\<forall>k rs. dget (wp_seeds w) k = Some rs \<longrightarrow> list_all record_ok rs)
     \<and> (\<forall>k rs. dget (wp_seed_outputs w) k = Some rs \<longrightarrow> list_all record_ok rs)"

definition routed_ok :: "routed \<Rightarrow> bool" where
  "routed_ok routed \<longleftrightarrow> list_all (\<lambda>(r, rs). list_all record_ok rs) routed"

lemma branch_item_effect:
  assumes "branch_item w f item ((yes, no), tx, h) = Inr y"
  shows "\<exists>v b tx1 h1. invoke (wp_limits w) (Some f) [v] tx = Inr (PBool b, tx1) \<and> charge w item h = Inr h1
    \<and> y = (if b then (yes @ [item], no) else (yes, no @ [item]), tx1, h1)"
proof -
  obtain v z where z: "invoke (wp_limits w) (Some f) [v] tx = Inr z"
    and y: "(case z of (route, tx) \<Rightarrow> case route of
              PBool b \<Rightarrow> rbind (charge w item h) (\<lambda>h.
                Inr (if b then (yes @ [item], no) else (yes, no @ [item]), tx, h))
            | _ \<Rightarrow> Inl ValidationError) = Inr y"
    using assms unfolding branch_item_def Let_def prod.case rbind_eq_Inr by blast
  obtain route tx1 where z1: "z = (route, tx1)" by (cases z)
  obtain b where b: "route = PBool b" using y z1 by (cases route) simp_all
  from y z1 b obtain h1 where "charge w item h = Inr h1"
    "y = (if b then (yes @ [item], no) else (yes, no @ [item]), tx1, h1)" by auto
  with z z1 b show ?thesis by blast
qed

lemma branch_items_ok:
  assumes f: "fold_res (branch_item w f) items ((yes, no), tx, h) = Inr ((yes', no'), tx', h')"
    and ok: "list_all record_ok items" "list_all record_ok yes" "list_all record_ok no"
    and tx: "tx_ok lim S base tx"
  shows "list_all record_ok yes' \<and> list_all record_ok no' \<and> tx_ok lim S base tx'"
  using assms
proof (induction items arbitrary: yes no tx h)
  case (Cons item items)
  obtain z where z: "branch_item w f item ((yes, no), tx, h) = Inr z"
    and rest: "fold_res (branch_item w f) items z = Inr ((yes', no'), tx', h')"
    using Cons.prems(1) unfolding fold_res.simps rbind_eq_Inr by blast
  obtain v b tx1 h1 where r: "invoke (wp_limits w) (Some f) [v] tx = Inr (PBool b, tx1)"
    and z1: "z = (if b then (yes @ [item], no) else (yes, no @ [item]), tx1, h1)"
    using branch_item_effect [OF z] by blast
  have "tx_ok lim S base tx1" using Cons.prems(5) invoke_effect [OF r] by (auto intro: tx_ok_cong)
  then show ?case
    using Cons.prems rest [unfolded z1] by (cases b) (simp_all add: Cons.IH)
qed simp

lemma run_node_ok:
  assumes w: "walk_ok w S" and tx: "tx_ok (wp_limits w) S (wp_base w) tx"
    and batches: "list_all (\<lambda>(e, rs). list_all record_ok rs) batches"
    and r: "run_node w k batches (tx, h) = Inr (routed, tx', h')"
  shows "tx_ok (wp_limits w) S (wp_base w) tx' \<and> routed_ok routed"
proof -
  define current where "current = node_input w k batches"
  have cur: "list_all record_ok current"
  proof -
    have "list_all record_ok (concat (map snd batches))"
      using batches by (force simp: list_all_iff)
    then show ?thesis
      using w by (cases "dget (wp_seeds w) k") (auto simp: current_def node_input_def walk_ok_def)
  qed
  show ?thesis
  proof (cases "dget (wp_seed_outputs w) k")
    case (Some batch)
    then have "list_all record_ok batch" using w by (auto simp: walk_ok_def)
    with r Some tx show ?thesis by (auto simp: run_node_def routed_ok_def Let_def)
  next
    case None
    show ?thesis
    proof (cases "wp_nodes w k")
      case (GStep step)
      have s: "flow_step_ok step" "is_stateful (step_op step) \<Longrightarrow> step_id step \<in> S" "flow_limits_ok (wp_limits w)"
        using w GStep by (auto simp: walk_ok_def)
      obtain out where a: "apply_step (wp_limits w) (wp_hooks w) (wp_base w) step current (tx, h) = Inr (out, tx', h')"
        and "routed = [(None, out)]"
        using r None GStep by (auto simp: run_node_def current_def)
      with apply_step_ok [OF a tx cur s] show ?thesis by (simp add: routed_ok_def outputs_ok_def)
    next
      case (GBranch i f)
      obtain yes no where b: "fold_res (branch_item w f) current (([], []), tx, h) = Inr ((yes, no), tx', h')"
        and "routed = [(Some True, yes), (Some False, no)]"
        using r None GBranch by (auto simp: run_node_def current_def)
      with branch_items_ok [OF b cur _ _ tx] show ?thesis by (simp add: routed_ok_def)
    next
      case (GMerge i)
      with r None cur tx show ?thesis by (auto simp: run_node_def routed_ok_def current_def)
    next
      case (GOther i x)
      with r None w show ?thesis by (simp add: run_node_def walk_ok_def)
    qed
  qed
qed

section \<open>The walk keeps the accounting\<close>

definition ws_ok :: "('x, 'e, 'h) walk_params \<Rightarrow> pystr set \<Rightarrow> ('e, 'h) walk_state \<Rightarrow> bool" where
  "ws_ok w S s \<longleftrightarrow>
     tx_ok (wp_limits w) S (wp_base w) (ws_tx s)
     \<and> (\<forall>e rs. dget (ws_mail s) e = Some rs \<longrightarrow> list_all record_ok rs)
     \<and> list_all (\<lambda>o1. record_ok (out_record o1)) (ws_published s)"

lemma deliver_effect:
  assumes "deliver w routed e (mail, h) = Inr (mail', h')"
  shows "\<exists>batch h1. dget routed (edge_route e) = Some batch \<and> mail' = dput e batch mail
    \<and> wp_delivered w e (length batch) h = Inr h1 \<and> fold_res (charge w) batch h1 = Inr h'"
  using assms by (auto simp: deliver_def split: option.splits)

lemma dget_fold_ddel: "dget (fold ddel es mail) e = (if e \<in> set es then None else dget mail e)"
  by (induction es arbitrary: mail) auto

lemma take_mail_ok:
  "(\<And>e rs. dget mail e = Some rs \<Longrightarrow> list_all record_ok rs) \<Longrightarrow>
   list_all (\<lambda>(e, rs). list_all record_ok rs) (take_mail es mail)"
proof -
  assume m: "\<And>e rs. dget mail e = Some rs \<Longrightarrow> list_all record_ok rs"
  have "list_all record_ok (case dget mail e of None \<Rightarrow> [] | Some rs \<Rightarrow> rs)" for e
    by (cases "dget mail e") (auto dest: m)
  then show ?thesis unfolding take_mail_def list_all_iff [where xs = "map _ _"] by auto
qed

text \<open>A turn of the walk, step by step.\<close>

lemma walk_node_effect:
  assumes "walk_node w k s = Inr s'"
  shows "\<exists>routed tx h mail h'.
     run_node w k (take_mail (wp_incoming w k) (ws_mail s)) (ws_tx s, ws_hook s) = Inr (routed, tx, h)
     \<and> fold_res (deliver w routed) (wp_outgoing w k) (fold ddel (wp_incoming w k) (ws_mail s), h) = Inr (mail, h')
     \<and> ws_mail s' = mail \<and> ws_tx s' = tx \<and> ws_hook s' = h'
     \<and> (if wp_outgoing w k = []
        then \<exists>out. dget routed None = Some out
           \<and> ws_published s' = ws_published s @ map (\<lambda>r. \<lparr>out_step = k, out_record = r\<rparr>) out
        else ws_published s' = ws_published s)"
  using assms
  by (cases "wp_outgoing w k = []")
    (auto simp: walk_node_def walk_node_body_def Let_def split: sum.splits option.splits)

lemma walk_node_ok:
  assumes w: "walk_ok w S" and s: "ws_ok w S s" and n: "walk_node w k s = Inr s'"
  shows "ws_ok w S s'"
proof -
  obtain routed tx h mail h' where
    r: "run_node w k (take_mail (wp_incoming w k) (ws_mail s)) (ws_tx s, ws_hook s) = Inr (routed, tx, h)"
    and d: "fold_res (deliver w routed) (wp_outgoing w k) (fold ddel (wp_incoming w k) (ws_mail s), h) = Inr (mail, h')"
    and s': "ws_mail s' = mail" "ws_tx s' = tx"
    and p: "if wp_outgoing w k = []
        then \<exists>out. dget routed None = Some out
           \<and> ws_published s' = ws_published s @ map (\<lambda>r. \<lparr>out_step = k, out_record = r\<rparr>) out
        else ws_published s' = ws_published s"
    using walk_node_effect [OF n] by blast
  have "list_all (\<lambda>(e, rs). list_all record_ok rs) (take_mail (wp_incoming w k) (ws_mail s))"
    using s by (intro take_mail_ok) (auto simp: ws_ok_def)
  then have ok: "tx_ok (wp_limits w) S (wp_base w) tx" "routed_ok routed"
    using run_node_ok [OF w _ _ r] s by (auto simp: ws_ok_def)
  have batch: "list_all record_ok rs" if "dget routed x = Some rs" for x rs
    using ok(2) map_of_SomeD [OF that] by (auto simp: routed_ok_def list_all_iff)
  define Q where "Q = (\<lambda>m :: (('b flow_edge_scheme, flow_record list) dict \<times> 'c).
      \<forall>e rs. dget (fst m) e = Some rs \<longrightarrow> list_all record_ok rs)"
  have "Q (mail, h')"
    using d
  proof (rule fold_res_invariant)
    show "Q (fold ddel (wp_incoming w k) (ws_mail s), h)"
      using s by (auto simp: Q_def ws_ok_def dget_fold_ddel)
    show "Q t'" if "Q t" "deliver w routed e t = Inr t'" for e t t'
      using that batch by (cases t, cases t') (auto simp: Q_def dest!: deliver_effect split: if_splits)
  qed
  then show ?thesis
    using ok(1) s s' p batch by (auto simp: ws_ok_def Q_def list_all_iff split: if_splits)
qed

lemma walk_graph_ok:
  assumes "walk_ok w S" "tx_ok (wp_limits w) S (wp_base w) tx"
    and g: "walk_graph w order (tx, h) = Inr (out, tx', h')"
  shows "tx_ok (wp_limits w) S (wp_base w) tx' \<and> list_all (\<lambda>o1. record_ok (out_record o1)) out"
proof -
  obtain s where f: "fold_res (walk_node w) order
      \<lparr>ws_mail = [], ws_published = [], ws_tx = tx, ws_hook = h\<rparr> = Inr s"
    and s: "out = ws_published s" "tx' = ws_tx s"
    using g by (auto simp: walk_graph_def)
  from f have "ws_ok w S s"
  proof (rule fold_res_invariant)
    show "ws_ok w S \<lparr>ws_mail = [], ws_published = [], ws_tx = tx, ws_hook = h\<rparr>"
      using assms(2) by (simp add: ws_ok_def)
  qed (rule walk_node_ok [OF assms(1)])
  with s show ?thesis by (simp add: ws_ok_def)
qed

section \<open>The work budget\<close>

definition spent :: "flow_record list \<Rightarrow> int \<times> int \<Rightarrow> int \<times> int" where
  "spent rs h = (fst h + int (length rs), snd h + (\<Sum>r\<leftarrow>rs. rec_size r))"

definition within_work :: "graph_limits \<Rightarrow> int \<times> int \<Rightarrow> bool" where
  "within_work l h \<longleftrightarrow> fst h \<le> max_work_records l \<and> snd h \<le> max_work_bytes l"

lemma spent_simps [simp]:
  "spent [] h = h" "spent (rs @ rs') h = spent rs' (spent rs h)"
  "spent [r] h = (fst h + 1, snd h + rec_size r)"
  by (simp_all add: spent_def)

lemma rec_size_nonneg [simp]: "0 \<le> rec_size r"
  by (simp add: rec_size_def)

lemma spent_mono: "fst h \<le> fst (spent rs h)" "snd h \<le> snd (spent rs h)"
  by (auto simp: spent_def intro!: sum_list_nonneg)

lemma charge_work_effect:
  "charge_work l r h = Inr h' \<Longrightarrow> h' = spent [r] h \<and> within_work l h'"
  by (auto simp: charge_work_def within_work_def Let_def split: if_splits)

lemma fold_charge_work:
  assumes "fold_res (charge_work l) rs h = Inr h'" "within_work l h"
  shows "h' = spent rs h \<and> within_work l h'"
  using assms
proof (induction rs arbitrary: h)
  case (Cons r rs)
  obtain h1 where h1: "charge_work l r h = Inr h1" and r: "fold_res (charge_work l) rs h1 = Inr h'"
    using Cons.prems(1) by auto
  from charge_work_effect [OF h1] Cons.IH [OF r] show ?case
    by (auto simp: spent_def)
qed simp

text \<open>The hooks of a graph transaction: charge every emission, never refuse a proposal.\<close>

definition work_hooks :: "graph_limits \<Rightarrow> (int \<times> int) hooks" where
  "work_hooks l = \<lparr>on_propose = (\<lambda>_ _ _ h. Inr h), on_emit = charge_work l\<rparr>"

lemma apply_step_work:
  assumes a: "apply_step lim (work_hooks l) base step cur (tx, h) = Inr (out, tx', h')"
    and "within_work l h"
  shows "h' = spent out h \<and> within_work l h'"
proof -
  define P :: "(int \<times> int) apply_state \<Rightarrow> bool" where
    "P = (\<lambda>s. as_hook s = spent (as_output s) h \<and> within_work l (as_hook s))"
  have "P (apply_start tx h)" using assms(2) by (simp add: P_def apply_start_def)
  moreover have "stable_call lim P"
    by (auto simp: stable_call_def P_def lift_invoke_def)
  moreover have "stable_emit lim (work_hooks l) P"
    unfolding stable_emit_def
  proof (intro allI impI)
    fix v k and s s' :: "(int \<times> int) apply_state"
    assume s: "P s" and e: "emit lim (work_hooks l) v k s = Inr s'"
    obtain item where "as_output s' = as_output s @ [item]"
      and c: "charge_work l item (as_hook s) = Inr (as_hook s')"
      using emit_effect [OF e] by (auto simp: work_hooks_def)
    with charge_work_effect [OF c] s show "P s'" unfolding P_def by force
  qed
  moreover have "stable_propose lim (work_hooks l) base (step_keys step cur) P"
    by (auto simp: stable_propose_def P_def lift_propose_def work_hooks_def dest!: propose_effect)
  ultimately obtain s where "P s" "out = as_output s" "h' = as_hook s"
    using apply_step_invariant [OF a, of P] by blast
  then show ?thesis by (auto simp: P_def)
qed

lemma branch_items_work:
  assumes hk: "wp_hooks w = work_hooks l"
    and f: "fold_res (branch_item w f) items ((yes, no), tx, h) = Inr ((yes', no'), tx', h')"
    and "within_work l h"
  shows "h' = spent items h \<and> within_work l h'
    \<and> (\<exists>ys ns. yes' = yes @ ys \<and> no' = no @ ns \<and> spent (ys @ ns) h = spent items h)"
  using f assms(3)
proof (induction items arbitrary: yes no tx h)
  case (Cons item items)
  obtain z where z: "branch_item w f item ((yes, no), tx, h) = Inr z"
    and rest: "fold_res (branch_item w f) items z = Inr ((yes', no'), tx', h')"
    using Cons.prems(1) unfolding fold_res.simps rbind_eq_Inr by blast
  obtain v b tx1 h1 where c: "charge w item h = Inr h1"
    and z1: "z = (if b then (yes @ [item], no) else (yes, no @ [item]), tx1, h1)"
    using branch_item_effect [OF z] by blast
  from c hk have h1: "h1 = spent [item] h" "within_work l h1"
    using charge_work_effect [of l item h h1] by (auto simp: work_hooks_def)
  show ?case
  proof (cases b)
    case True
    obtain ys ns where r: "h' = spent items h1" "within_work l h'"
      "yes' = (yes @ [item]) @ ys" "no' = no @ ns" "spent (ys @ ns) h1 = spent items h1"
      using Cons.IH [of "yes @ [item]" no tx1 h1] rest z1 True h1(2) by (auto simp del: spent_simps)
    have "yes' = yes @ (item # ys)" using r by simp
    moreover have "spent ((item # ys) @ ns) h = spent (item # items) h"
      using r(5) h1(1) by (simp add: spent_def)
    ultimately show ?thesis using r h1(1) by (intro conjI exI) (auto simp: spent_def)
  next
    case False
    obtain ys ns where r: "h' = spent items h1" "within_work l h'"
      "yes' = yes @ ys" "no' = (no @ [item]) @ ns" "spent (ys @ ns) h1 = spent items h1"
      using Cons.IH [of yes "no @ [item]" tx1 h1] rest z1 False h1(2) by (auto simp del: spent_simps)
    have "no' = no @ (item # ns)" using r by simp
    moreover have "spent (ys @ (item # ns)) h = spent (item # items) h"
      using r(5) h1(1) by (simp add: spent_def)
    ultimately show ?thesis using r h1(1) by (intro conjI exI) (auto simp: spent_def)
  qed
qed auto

definition work_walk :: "('x, 'e, int \<times> int) walk_params \<Rightarrow> graph_limits \<Rightarrow> bool" where
  "work_walk w l \<longleftrightarrow>
     wp_hooks w = work_hooks l \<and> wp_extension w = None \<and> wp_delivered w = (\<lambda>_ _ h. Inr h)"

text \<open>Every record a node emits is charged once.\<close>

lemma run_node_work:
  assumes w: "work_walk w l" and r: "run_node w k batches (tx, h) = Inr (routed, tx', h')"
    and h: "within_work l h"
  shows "h' = spent (concat (map snd routed)) h \<and> within_work l h'"
proof (cases "dget (wp_seed_outputs w) k")
  case (Some batch)
  with r w h show ?thesis
    by (auto simp: run_node_def work_walk_def work_hooks_def dest!: fold_charge_work)
next
  case None
  show ?thesis
  proof (cases "wp_nodes w k")
    case (GStep step)
    with None r w h show ?thesis
      by (auto simp: run_node_def work_walk_def dest!: apply_step_work)
  next
    case (GBranch i f)
    obtain yes no where b: "fold_res (branch_item w f) (node_input w k batches) (([], []), tx, h)
        = Inr ((yes, no), tx', h')" and "routed = [(Some True, yes), (Some False, no)]"
      using r None GBranch by (auto simp: run_node_def)
    with branch_items_work [OF _ b h] w show ?thesis by (auto simp: work_walk_def)
  next
    case (GMerge i)
    with None r w h show ?thesis
      by (auto simp: run_node_def work_walk_def work_hooks_def dest!: fold_charge_work)
  next
    case (GOther i x)
    with None r w show ?thesis by (simp add: run_node_def work_walk_def)
  qed
qed

text \<open>Every delivery is charged again, and the published records are among the emissions.\<close>

lemma deliveries_work:
  assumes w: "work_walk w l" and d: "fold_res (deliver w routed) es (mail, h) = Inr (mail', h')"
    and h: "within_work l h"
  shows "fst h \<le> fst h' \<and> snd h \<le> snd h' \<and> within_work l h'"
proof -
  define P where "P = (\<lambda>m :: ('b flow_edge_scheme, flow_record list) dict \<times> int \<times> int.
      fst h \<le> fst (snd m) \<and> snd h \<le> snd (snd m) \<and> within_work l (snd m))"
  have "P (mail', h')"
    using d
  proof (rule fold_res_invariant)
    show "P (mail, h)" using h by (simp add: P_def)
    fix e t t' assume t: "P t" "deliver w routed e t = Inr t'"
    obtain m g where tm: "t = (m, g)" by (cases t)
    obtain m' g' where tm': "t' = (m', g')" by (cases t')
    obtain batch where "fold_res (charge_work l) batch g = Inr g'"
      using deliver_effect [OF t(2) [unfolded tm tm']] w by (auto simp: work_walk_def work_hooks_def)
    with t(1) tm have "g' = spent batch g \<and> within_work l g'"
      by (intro fold_charge_work) (auto simp: P_def)
    with t(1) tm tm' spent_mono [of g batch] show "P t'" by (auto simp: P_def)
  qed
  then show ?thesis by (simp add: P_def)
qed

lemma dget_concat:
  "dget routed k = Some out \<Longrightarrow>
   int (length out) \<le> int (length (concat (map snd routed)))
   \<and> (\<Sum>r\<leftarrow>out. rec_size r) \<le> (\<Sum>r\<leftarrow>concat (map snd routed). rec_size r)"
proof (induction routed)
  case (Cons x routed)
  have "0 \<le> (\<Sum>r\<leftarrow>concat (map snd routed). rec_size r)" "0 \<le> (\<Sum>r\<leftarrow>snd x. rec_size r)"
    by (auto intro!: sum_list_nonneg)
  with Cons show ?case by (cases x) (auto split: if_splits)
qed simp

lemma walk_graph_work:
  assumes w: "work_walk w l" and g: "walk_graph w order (tx, h) = Inr (out, tx', h')"
    and h: "within_work l h"
  shows "fst h + int (length out) \<le> fst h'
    \<and> snd h + (\<Sum>o1\<leftarrow>out. rec_size (out_record o1)) \<le> snd h' \<and> within_work l h'"
proof -
  define P where "P = (\<lambda>s :: ('b, int \<times> int) walk_state.
      fst h + int (length (ws_published s)) \<le> fst (ws_hook s)
      \<and> snd h + (\<Sum>o1\<leftarrow>ws_published s. rec_size (out_record o1)) \<le> snd (ws_hook s)
      \<and> within_work l (ws_hook s))"
  obtain s where f: "fold_res (walk_node w) order
      \<lparr>ws_mail = [], ws_published = [], ws_tx = tx, ws_hook = h\<rparr> = Inr s"
    and s: "out = ws_published s" "h' = ws_hook s"
    using g by (auto simp: walk_graph_def)
  from f have "P s"
  proof (rule fold_res_invariant)
    show "P \<lparr>ws_mail = [], ws_published = [], ws_tx = tx, ws_hook = h\<rparr>" using h by (simp add: P_def)
    fix k t t' assume t: "P t" and n: "walk_node w k t = Inr t'"
    obtain routed tx1 h1 mail h2 where
      r: "run_node w k (take_mail (wp_incoming w k) (ws_mail t)) (ws_tx t, ws_hook t) = Inr (routed, tx1, h1)"
      and d: "fold_res (deliver w routed) (wp_outgoing w k) (fold ddel (wp_incoming w k) (ws_mail t), h1) = Inr (mail, h2)"
      and t': "ws_hook t' = h2"
      and p: "if wp_outgoing w k = []
        then \<exists>out. dget routed None = Some out
           \<and> ws_published t' = ws_published t @ map (\<lambda>r. \<lparr>out_step = k, out_record = r\<rparr>) out
        else ws_published t' = ws_published t"
      using walk_node_effect [OF n] by blast
    have 1: "h1 = spent (concat (map snd routed)) (ws_hook t)" "within_work l h1"
      using run_node_work [OF w r] t by (auto simp: P_def)
    have 2: "fst h1 \<le> fst h2 \<and> snd h1 \<le> snd h2 \<and> within_work l h2"
      by (rule deliveries_work [OF w d 1(2)])
    show "P t'"
    proof (cases "wp_outgoing w k = []")
      case True
      then obtain out where o1: "dget routed None = Some out"
        and pub: "ws_published t' = ws_published t @ map (\<lambda>r. \<lparr>out_step = k, out_record = r\<rparr>) out"
        using p by auto
      have "fst (ws_hook t) + int (length out) \<le> fst h1"
        "snd (ws_hook t) + (\<Sum>r\<leftarrow>out. rec_size r) \<le> snd h1"
        using dget_concat [OF o1] by (simp_all add: 1(1) spent_def)
      with t t' 2 show ?thesis by (simp add: P_def pub comp_def)
    next
      case False
      with p t t' 1(1) 2 spent_mono [of "ws_hook t" "concat (map snd routed)"] show ?thesis
        by (simp add: P_def)
    qed
  qed
  with s show ?thesis by (simp add: P_def)
qed

section \<open>Mailboxes\<close>

text \<open>
  Before a node runs, the mailboxes are those of the edges from done to waiting nodes: every
  incoming edge of the node has its batch, and after the last node none is left.
\<close>

definition open_edges :: "'e flow_edge_scheme list \<Rightarrow> pystr list \<Rightarrow> 'e flow_edge_scheme set" where
  "open_edges es done1 = {e \<in> set es. edge_source e \<in> set done1 \<and> edge_target e \<notin> set done1}"

lemma dom_deliveries:
  "fold_res (deliver w routed) es (mail, h) = Inr (mail', h') \<Longrightarrow>
   dom (dget mail') = dom (dget mail) \<union> set es"
proof (induction es arbitrary: mail h)
  case (Cons e es)
  obtain z where z: "deliver w routed e (mail, h) = Inr z"
    and rest: "fold_res (deliver w routed) es z = Inr (mail', h')"
    using Cons.prems by auto
  obtain m1 h1 where z1: "z = (m1, h1)" by (cases z)
  obtain batch where "m1 = dput e batch mail" using deliver_effect [OF z [unfolded z1]] by blast
  with Cons.IH [OF rest [unfolded z1]] show ?case by auto
qed simp

lemma walk_node_mail:
  assumes w: "wp_incoming w = edges_into es" "wp_outgoing w = edges_from es"
    and order: "sources_first (edges_into es) order" "distinct order" "order = xs @ k # ys"
    and s: "dom (dget (ws_mail s)) = open_edges es xs" and n: "walk_node w k s = Inr s'"
  shows "dom (dget (ws_mail s')) = open_edges es (xs @ [k])"
proof -
  obtain routed h mail h' where
    d: "fold_res (deliver w routed) (wp_outgoing w k) (fold ddel (wp_incoming w k) (ws_mail s), h) = Inr (mail, h')"
    and s': "ws_mail s' = mail"
    using walk_node_effect [OF n] by blast
  have "dom (dget mail) = (open_edges es xs - set (edges_into es k)) \<union> set (edges_from es k)"
    using dom_deliveries [OF d] s w by (auto simp: dget_fold_ddel dom_def)
  moreover have "edge_target e \<notin> set (xs @ [k])" if "e \<in> set (edges_from es k)" for e
  proof
    assume t: "edge_target e \<in> set (xs @ [k])"
    then obtain as bs where ab: "xs @ [k] = as @ edge_target e # bs" by (meson split_list)
    then have "order = as @ edge_target e # (bs @ ys)" using order(3) by simp
    moreover have "e \<in> set (edges_into es (edge_target e))" "edge_source e = k"
      using that by (auto simp: edges_into_def edges_from_def)
    ultimately have "k \<in> set as" using order(1) unfolding sources_first_def by metis
    moreover have "distinct (as @ edge_target e # bs)" using order(2,3) ab [symmetric] by simp
    moreover have "k \<in> set (edge_target e # bs)"
      using ab by (cases bs rule: rev_cases) (auto simp: append_eq_append_conv2)
    ultimately show False by auto
  qed
  ultimately show ?thesis
    using s' by (auto simp: open_edges_def edges_into_def edges_from_def)
qed

lemma walk_mail_empty:
  assumes w: "wp_incoming w = edges_into es" "wp_outgoing w = edges_from es"
    and order: "sources_first (edges_into es) order" "distinct order"
    and targets: "\<forall>e\<in>set es. edge_target e \<in> set order"
    and f: "fold_res (walk_node w) order s = Inr s'" "ws_mail s = []"
  shows "ws_mail s' = []"
proof -
  have "dom (dget (ws_mail s')) = open_edges es order"
    using f(1)
  proof (rule fold_res_prefix)
    show "dom (dget (ws_mail s)) = open_edges es []" using f(2) by (simp add: open_edges_def)
  qed (rule walk_node_mail [OF w order])
  also have "\<dots> = {}" using targets by (auto simp: open_edges_def)
  finally show ?thesis by (cases "ws_mail s'") auto
qed

end
