(* ===== verification/Walk_Rules.thy ===== *)
theory Walk_Rules
  imports Branching_Laws
begin

text \<open>
  The induction principle of the shared walk, for walks with an extension and a state of the
  caller: what every callback call, emission, proposal, delivery and extension call keeps,
  the whole walk keeps, and it publishes valid records.
\<close>

text \<open>The nodes and the seeds of a walk: steps keep state under the ids \<open>S\<close>.\<close>

definition walk_nodes_ok :: "('x, 'e, 'h) walk_params \<Rightarrow> pystr set \<Rightarrow> bool" where
  "walk_nodes_ok w S \<longleftrightarrow>
     flow_limits_ok (wp_limits w)
     \<and> (\<forall>k step. wp_nodes w k = GStep step \<longrightarrow> flow_step_ok step \<and> (is_stateful (step_op step) \<longrightarrow> step_id step \<in> S))
     \<and> (\<forall>k rs. dget (wp_seeds w) k = Some rs \<longrightarrow> list_all record_ok rs)
     \<and> (\<forall>k rs. dget (wp_seed_outputs w) k = Some rs \<longrightarrow> list_all record_ok rs)"

definition mail_ok :: "('e flow_edge_scheme \<times> flow_record list) list \<Rightarrow> bool" where
  "mail_ok batches \<longleftrightarrow> list_all (\<lambda>(e, rs). list_all record_ok rs) batches"

locale walk_invariant =
  fixes w :: "('x, 'e, 'h) walk_params" and S :: "pystr set" and Q :: "flow_tx \<Rightarrow> 'h \<Rightarrow> bool"
  assumes nodes: "Q tx h \<Longrightarrow> walk_nodes_ok w S"
    and call: "Q tx h \<Longrightarrow> invoke (wp_limits w) f args tx = Inr (v, tx') \<Longrightarrow> Q tx' h"
    and emitted: "Q tx h \<Longrightarrow> charge w r h = Inr h' \<Longrightarrow> Q tx h'"
    and proposed: "Q tx h \<Longrightarrow> fst c \<in> S \<Longrightarrow> is_label (fst c) \<Longrightarrow> is_label (snd c)
      \<Longrightarrow> propose (wp_limits w) (wp_hooks w) c (previous_state (wp_base w) tx c) st retain (tx, h) = Inr (tx', h')
      \<Longrightarrow> Q tx' h'"
    and delivered: "Q tx h \<Longrightarrow> wp_delivered w e n h = Inr h' \<Longrightarrow> Q tx h'"
    and extended: "wp_extension w = Some ext \<Longrightarrow> Q tx h \<Longrightarrow> mail_ok batches
      \<Longrightarrow> ext i batches (tx, h) = Inr (out, tx', h') \<Longrightarrow> Q tx' h' \<and> list_all record_ok out"
begin

lemma charges: "fold_res (charge w) rs h = Inr h' \<Longrightarrow> Q tx h \<Longrightarrow> Q tx h'"
  by (induction rs arbitrary: h) (auto intro: emitted)

lemma branches:
  "fold_res (branch_item w f) items ((yes, no), tx, h) = Inr ((yes', no'), tx', h') \<Longrightarrow> Q tx h \<Longrightarrow>
     list_all record_ok items \<Longrightarrow> list_all record_ok yes \<Longrightarrow> list_all record_ok no \<Longrightarrow>
     Q tx' h' \<and> list_all record_ok yes' \<and> list_all record_ok no'"
proof (induction items arbitrary: yes no tx h)
  case (Cons item items)
  then obtain z where z: "branch_item w f item ((yes, no), tx, h) = Inr z"
      "fold_res (branch_item w f) items z = Inr ((yes', no'), tx', h')" by auto
  obtain v b tx1 h1 where r: "invoke (wp_limits w) (Some f) [v] tx = Inr (PBool b, tx1)" "charge w item h = Inr h1"
      "z = (if b then (yes @ [item], no) else (yes, no @ [item]), tx1, h1)"
    using branch_item_effect [OF z(1)] by blast
  have "Q tx1 h1" using emitted [OF call [OF Cons.prems(2) r(1)] r(2)] .
  then show ?case
    using Cons.IH [of "if b then yes @ [item] else yes" "if b then no else no @ [item]" tx1 h1] z(2) r(3) Cons.prems(3-5)
    by (cases b) simp_all
qed simp

lemma steps:
  assumes a: "apply_step (wp_limits w) (wp_hooks w) (wp_base w) step current (tx, h) = Inr (out, tx', h')"
    and q: "Q tx h" and cur: "list_all record_ok current" and k: "wp_nodes w k = GStep step"
  shows "Q tx' h' \<and> list_all record_ok out"
proof -
  define P where "P = (\<lambda>s :: 'h apply_state. Q (as_tx s) (as_hook s) \<and> list_all record_ok (as_output s))"
  have step: "flow_step_ok step" "is_stateful (step_op step) \<Longrightarrow> step_id step \<in> S" using nodes [OF q] k by (auto simp: walk_nodes_ok_def)
  have "P (apply_start tx h)" using q by (simp add: P_def apply_start_def)
  moreover have "stable_call (wp_limits w) P"
    by (auto simp: stable_call_def P_def lift_invoke_def intro: call)
  moreover have "stable_emit (wp_limits w) (wp_hooks w) P"
    unfolding stable_emit_def P_def using make_record_ok emitted by (fastforce dest!: emit_effect)
  moreover have "stable_propose (wp_limits w) (wp_hooks w) (wp_base w) (step_keys step current) P" if st: "is_stateful (step_op step)"
  proof -
    have "fst c \<in> S \<and> is_label (fst c) \<and> is_label (snd c)" if "c \<in> step_keys step current" for c
      using that step st cur by (force simp: step_keys_def flow_step_ok_def record_ok_def list_all_iff)
    note K = this
    have "P s'" if c: "c \<in> step_keys step current" and s: "P s"
        and p: "lift_propose (wp_limits w) (wp_hooks w) c (previous_state (wp_base w) (as_tx s) c) new retain s = Inr s'"
      for c new retain s s'
    proof -
      obtain tx1 h1 where e: "propose (wp_limits w) (wp_hooks w) c (previous_state (wp_base w) (as_tx s) c) new retain
          (as_tx s, as_hook s) = Inr (tx1, h1)" and s': "s' = s\<lparr>as_tx := tx1, as_hook := h1\<rparr>"
        using p by (auto simp: lift_propose_def)
      then show ?thesis using proposed [OF _ _ _ _ e] K [OF c] s by (simp add: P_def)
    qed
    then show ?thesis unfolding stable_propose_def by blast
  qed
  ultimately obtain s where "P s" "out = as_output s" "tx' = as_tx s" "h' = as_hook s"
    using apply_step_invariant [OF a, of P] by blast
  then show ?thesis by (simp add: P_def)
qed

lemma node:
  assumes r: "run_node w k batches (tx, h) = Inr (routed, tx', h')" and q: "Q tx h" and m: "mail_ok batches"
  shows "Q tx' h' \<and> routed_ok routed"
proof -
  define current where "current = node_input w k batches"
  have cur: "list_all record_ok current"
  proof -
    have "list_all record_ok (concat (map snd batches))" using m by (force simp: mail_ok_def list_all_iff)
    then show ?thesis
      using nodes [OF q] by (cases "dget (wp_seeds w) k") (auto simp: current_def node_input_def walk_nodes_ok_def)
  qed
  show ?thesis
  proof (cases "dget (wp_seed_outputs w) k")
    case (Some batch)
    then have "list_all record_ok batch" using nodes [OF q] by (auto simp: walk_nodes_ok_def)
    with r Some q show ?thesis by (auto simp: run_node_def routed_ok_def intro: charges)
  next
    case None
    show ?thesis
    proof (cases "wp_nodes w k")
      case (GStep step)
      obtain out where a: "apply_step (wp_limits w) (wp_hooks w) (wp_base w) step current (tx, h) = Inr (out, tx', h')"
        and "routed = [(None, out)]"
        using r None GStep by (auto simp: run_node_def current_def)
      with steps [OF a q cur GStep] show ?thesis by (simp add: routed_ok_def)
    next
      case (GBranch i f)
      obtain yes no where b: "fold_res (branch_item w f) current (([], []), tx, h) = Inr ((yes, no), tx', h')"
        and "routed = [(Some True, yes), (Some False, no)]"
        using r None GBranch by (auto simp: run_node_def current_def)
      with branches [OF b q cur] show ?thesis by (simp add: routed_ok_def)
    next
      case (GMerge i)
      with r None cur q show ?thesis by (auto simp: run_node_def routed_ok_def current_def intro: charges)
    next
      case (GOther i x)
      with r None q m show ?thesis by (auto simp: run_node_def routed_ok_def split: option.splits dest: extended)
    qed
  qed
qed

definition kept :: "('e, 'h) walk_state \<Rightarrow> bool" where
  "kept s \<longleftrightarrow> Q (ws_tx s) (ws_hook s) \<and> (\<forall>e rs. dget (ws_mail s) e = Some rs \<longrightarrow> list_all record_ok rs)
     \<and> list_all (\<lambda>x. record_ok (out_record x)) (ws_published s)"

lemma turn:
  assumes s: "kept s" and n: "walk_node w k s = Inr s'"
  shows "kept s'"
proof -
  obtain routed tx h mail h' where
    r: "run_node w k (take_mail (wp_incoming w k) (ws_mail s)) (ws_tx s, ws_hook s) = Inr (routed, tx, h)"
    and d: "fold_res (deliver w routed) (wp_outgoing w k) (fold ddel (wp_incoming w k) (ws_mail s), h) = Inr (mail, h')"
    and s': "ws_mail s' = mail" "ws_tx s' = tx" "ws_hook s' = h'"
    and p: "if wp_outgoing w k = []
        then \<exists>out. dget routed None = Some out
           \<and> ws_published s' = ws_published s @ map (\<lambda>r. \<lparr>out_step = k, out_record = r\<rparr>) out
        else ws_published s' = ws_published s"
    using walk_node_effect [OF n] by blast
  have "mail_ok (take_mail (wp_incoming w k) (ws_mail s))"
    unfolding mail_ok_def using s by (intro take_mail_ok) (auto simp: kept_def)
  then have ok: "Q tx h" "routed_ok routed" using node [OF r] s by (auto simp: kept_def)
  have batch: "list_all record_ok rs" if "dget routed x = Some rs" for x rs
    using ok(2) map_of_SomeD [OF that] by (auto simp: routed_ok_def list_all_iff)
  define R where "R = (\<lambda>m :: (('e flow_edge_scheme, flow_record list) dict \<times> 'h).
      Q tx (snd m) \<and> (\<forall>e rs. dget (fst m) e = Some rs \<longrightarrow> list_all record_ok rs))"
  have "R (mail, h')"
    using d
  proof (rule fold_res_invariant)
    show "R (fold ddel (wp_incoming w k) (ws_mail s), h)"
      using s ok(1) by (auto simp: R_def kept_def dget_fold_ddel)
    fix e t t' assume t: "R t" "deliver w routed e t = Inr t'"
    obtain m g where tm: "t = (m, g)" by (cases t)
    obtain m' g' where tm': "t' = (m', g')" by (cases t')
    obtain b g1 where b: "dget routed (edge_route e) = Some b" "m' = dput e b m"
        "wp_delivered w e (length b) g = Inr g1" "fold_res (charge w) b g1 = Inr g'"
      using deliver_effect [OF t(2) [unfolded tm tm']] by blast
    have "Q tx g'" using charges [OF b(4)] delivered [OF _ b(3)] t(1) tm by (simp add: R_def)
    then show "R t'" using t(1) b(1,2) batch by (auto simp: R_def tm tm' split: if_splits)
  qed
  then show ?thesis
    using s s' p batch by (auto simp: kept_def R_def list_all_iff split: if_splits)
qed

lemma walk:
  assumes "walk_graph w order (tx, h) = Inr (out, tx', h')" "Q tx h"
  shows "Q tx' h' \<and> list_all (\<lambda>x. record_ok (out_record x)) out"
proof -
  obtain s where f: "fold_res (walk_node w) order \<lparr>ws_mail = [], ws_published = [], ws_tx = tx, ws_hook = h\<rparr> = Inr s"
    and s: "out = ws_published s" "tx' = ws_tx s" "h' = ws_hook s"
    using assms(1) by (auto simp: walk_graph_def)
  have "kept \<lparr>ws_mail = [], ws_published = [], ws_tx = tx, ws_hook = h\<rparr>" using assms(2) by (simp add: kept_def)
  with f have "kept s" by (rule fold_res_invariant) (rule turn)
  with s show ?thesis by (simp add: kept_def)
qed

end

end
