(* ===== verification/Graph_Runtime_Laws.thy ===== *)
theory Graph_Runtime_Laws
  imports Branching_Laws
begin

text \<open>
  \<open>GraphRuntime\<close>: invariant, atomicity, work budget, checkpoints and recovery, over the
  laws of the walk.
\<close>

section \<open>The invariant\<close>

definition graph_rt_inv :: "graph_runtime \<Rightarrow> bool" where
  "graph_rt_inv rt \<longleftrightarrow>
     graph_check (gr_flow rt) = Inr (gr_order rt)
     \<and> state_ok (operator_limits (gd_limits (gr_flow rt)))
         (stateful_ids (graph_steps (gd_nodes (gr_flow rt)))) (gr_state rt) (gr_bytes rt)
     \<and> 0 \<le> gr_processed rt \<and> gr_processed rt \<le> MAX_COUNT
     \<and> 0 \<le> gr_emitted rt \<and> gr_emitted rt \<le> MAX_COUNT
     \<and> \<not> gr_busy rt"

lemma graph_check_Inr:
  assumes "graph_check g = Inr order"
  shows "graph_limits_ok (gd_limits g)" "list_all graph_node_ok (gd_nodes g)"
    and "distinct (map node_id (gd_nodes g))"
    and "topological_order (map node_id (gd_nodes g)) (edges_into (gd_edges g)) = Inr order"
    and "\<forall>e\<in>set (gd_edges g). edge_source e \<in> set (map node_id (gd_nodes g))
           \<and> edge_target e \<in> set (map node_id (gd_nodes g))"
  using assms by (auto simp: graph_check_def Let_def list_all_iff split: if_splits)

lemma graph_limits_flow: "graph_limits_ok l \<Longrightarrow> flow_limits_ok (operator_limits l)"
  by (simp add: graph_limits_ok_def)

lemma make_graph_runtime_inv: "make_graph_runtime g = Inr rt \<Longrightarrow> graph_rt_inv rt \<and> gr_flow rt = g"
  using graph_check_Inr(1) [of g]
  by (auto simp: make_graph_runtime_def graph_rt_inv_def MAX_COUNT_def
      intro!: state_ok_Nil graph_limits_flow)

lemma node_of_in: "node_of nodes k = GStep s \<Longrightarrow> GStep s \<in> set nodes"
  by (auto simp: node_of_def find_Some_iff split: option.splits)

lemma graph_walk_ok:
  assumes "graph_check g = Inr order" "record_ok r"
  shows "walk_ok (graph_walk g state r) (stateful_ids (graph_steps (gd_nodes g)))"
proof -
  have "flow_step_ok s \<and> (is_stateful (step_op s) \<longrightarrow> step_id s \<in> stateful_ids (graph_steps (gd_nodes g)))"
    if "node_of (gd_nodes g) k = GStep s" for k s
  proof -
    have "GStep s \<in> set (gd_nodes g)" using that by (rule node_of_in)
    moreover from this have "graph_node_ok (GStep s :: unit graph_node)"
      using graph_check_Inr(2) [OF assms(1)] unfolding list_all_iff by blast
    ultimately show ?thesis by (force simp: stateful_ids_def graph_steps_def)
  qed
  then show ?thesis
    using assms graph_check_Inr(1) [OF assms(1)]
    by (simp add: walk_ok_def graph_walk_def graph_limits_flow)
qed

lemma graph_walk_work: "work_walk (graph_walk g state r) (gd_limits g)"
  by (simp add: work_walk_def graph_walk_def work_hooks_def)

section \<open>Processing\<close>

lemma graph_process_body_Inl: "graph_process_body r rt = (Inl e, rt') \<Longrightarrow> rt' = rt"
  by (auto simp: graph_process_body_def Let_def split: sum.splits prod.splits)

lemma graph_process_Inl: "graph_process r rt = (Inl e, rt') \<Longrightarrow> rt' = rt"
  by (cases "graph_process_body r (rt\<lparr>gr_busy := True\<rparr>)")
    (auto simp: graph_process_def split: if_splits sum.splits dest: graph_process_body_Inl)

lemma graph_process_body_Inr:
  assumes "graph_process_body r rt = (Inr out, rt')"
  shows "\<exists>h tx h' state bytes.
     charge_work (gd_limits (gr_flow rt)) r (0, 0) = Inr h
     \<and> walk_graph (graph_walk (gr_flow rt) (gr_state rt) r) (gr_order rt)
         (begin_tx (gr_state rt) (gr_bytes rt), h) = Inr (out, tx, h')
     \<and> commit_tx (gr_state rt) tx = (state, bytes)
     \<and> 0 \<le> gr_emitted rt + int (length out) \<and> gr_emitted rt + int (length out) \<le> MAX_COUNT
     \<and> rt' = rt\<lparr>gr_state := state, gr_bytes := bytes, gr_processed := gr_processed rt + 1,
               gr_emitted := gr_emitted rt + int (length out)\<rparr>"
proof (cases "charge_work (gd_limits (gr_flow rt)) r (0, 0)")
  case (Inl e)
  with assms show ?thesis by (simp add: graph_process_body_def)
next
  case (Inr h)
  note c = Inr
  show ?thesis
  proof (cases "walk_graph (graph_walk (gr_flow rt) (gr_state rt) r) (gr_order rt)
         (begin_tx (gr_state rt) (gr_bytes rt), h)")
    case (Inl e)
    with c assms show ?thesis by (simp add: graph_process_body_def)
  next
    case (Inr y)
    obtain out1 tx h' where y: "y = (out1, tx, h')" by (metis prod_cases3)
    obtain state bytes where m: "commit_tx (gr_state rt) tx = (state, bytes)"
      by (cases "commit_tx (gr_state rt) tx")
    from assms c Inr y m show ?thesis
      by (auto simp: graph_process_body_def count_def split: if_splits)
  qed
qed

lemma graph_process_Inr:
  assumes "graph_process r rt = (Inr out, rt')"
  shows "\<exists>h tx h' state bytes.
     charge_work (gd_limits (gr_flow rt)) r (0, 0) = Inr h
     \<and> walk_graph (graph_walk (gr_flow rt) (gr_state rt) r) (gr_order rt)
         (begin_tx (gr_state rt) (gr_bytes rt), h) = Inr (out, tx, h')
     \<and> commit_tx (gr_state rt) tx = (state, bytes)
     \<and> \<not> gr_busy rt \<and> 0 \<le> gr_processed rt + 1 \<and> gr_processed rt + 1 \<le> MAX_COUNT
     \<and> 0 \<le> gr_emitted rt + int (length out) \<and> gr_emitted rt + int (length out) \<le> MAX_COUNT
     \<and> rt' = rt\<lparr>gr_state := state, gr_bytes := bytes, gr_processed := gr_processed rt + 1,
               gr_emitted := gr_emitted rt + int (length out)\<rparr>"
proof -
  obtain rt1 where nb: "\<not> gr_busy rt"
    and cnt: "0 \<le> gr_processed rt + 1" "gr_processed rt + 1 \<le> MAX_COUNT"
    and b: "graph_process_body r (rt\<lparr>gr_busy := True\<rparr>) = (Inr out, rt1)"
    and rt': "rt' = rt1\<lparr>gr_busy := False\<rparr>"
    using assms by (cases "graph_process_body r (rt\<lparr>gr_busy := True\<rparr>)")
      (auto simp: graph_process_def count_def split: if_splits)
  from graph_process_body_Inr [OF b] nb cnt rt' show ?thesis by auto
qed

lemma graph_process_ok:
  assumes inv: "graph_rt_inv rt" and r: "record_ok r" and p: "graph_process r rt = (Inr out, rt')"
  shows "graph_rt_inv rt' \<and> list_all (\<lambda>o1. record_ok (out_record o1)) out
    \<and> 1 + int (length out) \<le> max_work_records (gd_limits (gr_flow rt))
    \<and> rec_size r + (\<Sum>o1\<leftarrow>out. rec_size (out_record o1)) \<le> max_work_bytes (gd_limits (gr_flow rt))"
proof -
  define g where "g = gr_flow rt"
  define lim where "lim = operator_limits (gd_limits g)"
  define S where "S = stateful_ids (graph_steps (gd_nodes g))"
  define w where "w = graph_walk g (gr_state rt) r"
  obtain h tx h' state bytes where c: "charge_work (gd_limits g) r (0, 0) = Inr h"
    and f: "walk_graph w (gr_order rt) (begin_tx (gr_state rt) (gr_bytes rt), h) = Inr (out, tx, h')"
    and m: "commit_tx (gr_state rt) tx = (state, bytes)"
    and cnt: "0 \<le> gr_processed rt + 1" "gr_processed rt + 1 \<le> MAX_COUNT"
      "0 \<le> gr_emitted rt + int (length out)" "gr_emitted rt + int (length out) \<le> MAX_COUNT"
    and rt': "rt' = rt\<lparr>gr_state := state, gr_bytes := bytes, gr_processed := gr_processed rt + 1,
               gr_emitted := gr_emitted rt + int (length out)\<rparr>"
    using graph_process_Inr [OF p] by (auto simp: g_def w_def)
  have st: "state_ok lim S (gr_state rt) (gr_bytes rt)" and g: "graph_check g = Inr (gr_order rt)"
    using inv by (simp_all add: graph_rt_inv_def lim_def S_def g_def)
  have wp: "wp_limits w = lim" "wp_base w = gr_state rt" by (simp_all add: w_def graph_walk_def lim_def)
  have o: "tx_ok lim S (gr_state rt) tx \<and> list_all (\<lambda>o1. record_ok (out_record o1)) out"
    using walk_graph_ok [OF graph_walk_ok [OF g r, of "gr_state rt"] _ f [unfolded w_def]] tx_ok_begin [OF st]
    by (simp add: wp [unfolded w_def] S_def)
  then have "state_ok lim S state bytes"
    using state_ok_commit [OF _ _ m] st by (auto simp: state_ok_def)
  then have "graph_rt_inv rt'"
    using inv cnt rt' by (simp add: graph_rt_inv_def lim_def S_def g_def)
  moreover have "h = (1, rec_size r)" "within_work (gd_limits g) h"
    using charge_work_effect [OF c] by auto
  moreover from walk_graph_work [OF graph_walk_work f [unfolded w_def] this(2)]
  have "fst h + int (length out) \<le> fst h'" "snd h + (\<Sum>o1\<leftarrow>out. rec_size (out_record o1)) \<le> snd h'"
    "within_work (gd_limits g) h'" by auto
  ultimately show ?thesis using o by (simp add: g_def within_work_def)
qed

interpretation graph: atomic_runtime graph_process graph_rt_inv record_ok
proof unfold_locales
  show "s' = s" if "graph_process p s = (Inl e, s')" for s p e s'
    using that by (rule graph_process_Inl)
  show "graph_rt_inv s'" if "graph_rt_inv s" "record_ok p" "graph_process p s = (Inr r, s')" for s p r s'
    using graph_process_ok [OF that] by simp
qed

section \<open>Checkpoint and restore\<close>

lemma graph_to_dict_ok:
  "checkpoint_ok c \<Longrightarrow> graph_checkpoint_to_dict c = Inr (checkpoint_json graph_kind c)"
  by (simp add: graph_checkpoint_to_dict_def checkpoint_to_dict_ok) (simp add: checkpoint_json_def)

lemma graph_from_dict_ok:
  assumes "checkpoint_ok c"
  shows "graph_checkpoint_from_dict (checkpoint_json graph_kind c) = Inr c"
proof -
  have "JObj (dput (lit ''kind'') (JStr (lit flow_kind)) kvs) = checkpoint_json flow_kind c"
    if "JObj kvs = checkpoint_json graph_kind c" for kvs
    using that by (auto simp: checkpoint_json_def)
  moreover obtain kvs where k: "checkpoint_json graph_kind c = JObj kvs"
    by (simp add: checkpoint_json_def)
  moreover have "dget kvs (lit ''kind'') = Some (JStr (lit graph_kind))"
    using k by (auto simp: checkpoint_json_def)
  ultimately show ?thesis
    using checkpoint_from_dict_ok [OF assms, of flow_kind] assms
    by (simp add: graph_checkpoint_from_dict_def flow_checkpoint_check_iff)
qed

definition graph_saved :: "graph_runtime \<Rightarrow> flow_checkpoint" where
  "graph_saved rt =
     \<lparr>cp_identity = graph_identity (gr_flow rt), cp_processed = gr_processed rt,
      cp_emitted = gr_emitted rt, cp_cells = map to_cell (sort_key fst (gr_state rt))\<rparr>"

definition graph_restored :: "graph_runtime \<Rightarrow> graph_runtime" where
  "graph_restored rt = rt\<lparr>gr_state := sort_key fst (gr_state rt)\<rparr>"

lemma graph_saved_ok:
  assumes "graph_rt_inv rt"
  shows "checkpoint_ok (graph_saved rt)"
proof -
  have "state_ok (operator_limits (gd_limits (gr_flow rt)))
      (stateful_ids (graph_steps (gd_nodes (gr_flow rt)))) (gr_state rt) (gr_bytes rt)"
    and "flow_limits_ok (operator_limits (gd_limits (gr_flow rt)))"
    using assms graph_check_Inr(1) graph_limits_flow by (auto simp: graph_rt_inv_def)
  from state_cells_ok [OF this] show ?thesis
    using assms by (simp add: checkpoint_ok_def graph_saved_def graph_rt_inv_def graph_identity_def
        ascii_digest_def sha256_hex_is_hex64)
qed

lemma graph_checkpoint_of_eq:
  "graph_rt_inv rt \<Longrightarrow> graph_checkpoint_of rt = Inr (graph_saved rt)"
  using graph_saved_ok [of rt]
  by (simp add: graph_checkpoint_of_def graph_rt_inv_def flow_checkpoint_check_iff graph_saved_def
      to_cell_eq)

lemma graph_from_checkpoint_saved:
  assumes inv: "graph_rt_inv rt"
  shows "graph_from_checkpoint (gr_flow rt) (graph_saved rt) = Inr (graph_restored rt)"
proof -
  define lim where "lim = operator_limits (gd_limits (gr_flow rt))"
  have st: "state_ok lim (stateful_ids (graph_steps (gd_nodes (gr_flow rt)))) (gr_state rt) (gr_bytes rt)"
    and ok: "graph_check (gr_flow rt) = Inr (gr_order rt)" and nb: "\<not> gr_busy rt"
    using inv by (simp_all add: graph_rt_inv_def lim_def)
  have "int (length (sort_key fst (gr_state rt))) \<le> max_state_keys lim" "gr_bytes rt \<le> max_state_bytes lim"
    using st by (simp_all add: sort_key_fst_perm state_ok_def)
  then show ?thesis
    using graph_saved_ok [OF inv] ok nb fold_restore_sorted [OF st]
    by (simp add: graph_from_checkpoint_def make_graph_runtime_def graph_to_dict_ok
        graph_from_dict_ok lim_def)
      (simp add: graph_saved_def graph_restored_def lim_def)
qed

section \<open>Runtimes that answer alike\<close>

definition graph_alike :: "graph_runtime \<Rightarrow> graph_runtime \<Rightarrow> bool" where
  "graph_alike rt rt' \<longleftrightarrow>
     rt' = rt\<lparr>gr_state := gr_state rt'\<rparr> \<and> dict_ok (gr_state rt) \<and> dict_ok (gr_state rt')
     \<and> dget (gr_state rt') = dget (gr_state rt)"

lemma graph_walk_base:
  assumes "dget st = dget st'"
  shows "walk_graph (graph_walk g st r) = walk_graph (graph_walk g st' r)"
proof -
  define w where "w = graph_walk g st r"
  define w' where "w' = graph_walk g st' r"
  have sel: "wp_limits w' = wp_limits w" "wp_nodes w' = wp_nodes w" "wp_incoming w' = wp_incoming w"
    "wp_outgoing w' = wp_outgoing w" "wp_seeds w' = wp_seeds w" "wp_hooks w' = wp_hooks w"
    "wp_extension w' = wp_extension w" "wp_seed_outputs w' = wp_seed_outputs w"
    "wp_delivered w' = wp_delivered w"
    by (simp_all add: w_def w'_def graph_walk_def)
  have base: "apply_step lim hk (wp_base w') step cur s = apply_step lim hk (wp_base w) step cur s"
    for lim and hk :: "(int \<times> int) hooks" and step cur s
    by (simp add: w_def w'_def graph_walk_def apply_step_base [OF assms])
  have "branch_item w' = branch_item w"
    by (intro ext) (simp only: branch_item_def sel)
  then have "run_node w' = run_node w"
    by (intro ext) (simp only: run_node_def node_input_def sel base)
  moreover have "deliver w' = deliver w"
    by (intro ext) (simp only: deliver_def sel)
  ultimately have "walk_node w' = walk_node w"
    by (intro ext) (simp only: walk_node_def walk_node_body_def sel)
  then have "walk_graph w' = walk_graph w" by (intro ext) (simp only: walk_graph_def)
  then show ?thesis by (simp add: w_def w'_def)
qed

lemma graph_process_body_alike:
  assumes "graph_alike rt rt'"
  shows "fst (graph_process_body r rt) = fst (graph_process_body r rt')
    \<and> graph_alike (snd (graph_process_body r rt)) (snd (graph_process_body r rt'))"
proof -
  define st where "st = gr_state rt"
  define st' where "st' = gr_state rt'"
  have rt': "rt' = rt\<lparr>gr_state := st'\<rparr>" and ok: "dict_ok st" "dict_ok st'" and m: "dget st = dget st'"
    using assms by (simp_all add: graph_alike_def st_def st'_def)
  define F where "F = rbind (charge_work (gd_limits (gr_flow rt)) r (0, 0)) (\<lambda>h.
           rbind (walk_graph (graph_walk (gr_flow rt) st r) (gr_order rt) (begin_tx st (gr_bytes rt), h))
             (\<lambda>(published, tx, _).
           rbind (count (gr_emitted rt + int (length published)) 0 MAX_COUNT) (\<lambda>emitted.
             Inr (published, tx, emitted))))"
  have F': "rbind (charge_work (gd_limits (gr_flow rt)) r (0, 0)) (\<lambda>h.
           rbind (walk_graph (graph_walk (gr_flow rt) st' r) (gr_order rt) (begin_tx st' (gr_bytes rt), h))
             (\<lambda>(published, tx, _).
           rbind (count (gr_emitted rt + int (length published)) 0 MAX_COUNT) (\<lambda>emitted.
             Inr (published, tx, emitted)))) = F"
    unfolding F_def graph_walk_base [OF m] begin_tx_alike [OF ok m] ..
  show ?thesis
  proof (cases F)
    case (Inl e)
    with assms F' show ?thesis by (simp add: graph_process_body_def F_def rt' st_def)
  next
    case (Inr y)
    obtain out tx n where y: "y = (out, tx, n)" by (metis prod_cases3)
    have "dget (commit_cells (tx_pending tx) st) = dget (commit_cells (tx_pending tx) st')"
      by (rule commit_cells_alike) (rule m)
    with Inr F' y ok assms show ?thesis
      by (simp add: graph_process_body_def F_def [unfolded st_def] rt' st_def commit_tx_def graph_alike_def
          dict_ok_commit_cells del: fun_upd_apply split_paired_All rbind_eq_Inr)
  qed
qed

lemma graph_process_alike:
  assumes "graph_alike rt rt'"
  shows "fst (graph_process r rt) = fst (graph_process r rt')
    \<and> graph_alike (snd (graph_process r rt)) (snd (graph_process r rt'))"
proof -
  have rt': "rt' = rt\<lparr>gr_state := gr_state rt'\<rparr>" using assms by (simp add: graph_alike_def)
  have same: "gr_busy rt' = gr_busy rt" "gr_flow rt' = gr_flow rt" "gr_processed rt' = gr_processed rt"
    by (subst rt', simp)+
  have b: "graph_alike (rt\<lparr>gr_busy := True\<rparr>) (rt'\<lparr>gr_busy := True\<rparr>)"
    using assms by (cases rt, cases rt') (simp add: graph_alike_def)
  have unbusy: "graph_alike (x\<lparr>gr_busy := False\<rparr>) (x'\<lparr>gr_busy := False\<rparr>)" if "graph_alike x x'" for x x'
    using that by (cases x, cases x') (simp add: graph_alike_def)
  show ?thesis
    using graph_process_body_alike [OF b, of r] assms
    by (auto simp: graph_process_def same count_def split_def Let_def intro!: unbusy)
qed

lemma graph_alike_restored: "graph_rt_inv rt \<Longrightarrow> graph_alike rt (graph_restored rt)"
  by (simp add: graph_alike_def graph_restored_def graph_rt_inv_def state_ok_def sort_key_fst_perm
      dget_sort_key)

section \<open>A sample graph\<close>

text \<open>The counting step, a branch on the count, and two terminal steps that drop the key.\<close>

fun is_one :: callback where
  "is_one [PInt n] = Inr (PBool (n = 1))"
| "is_one _ = Inl (CallbackError 3)"

definition drop_step :: "nat \<Rightarrow> flow_step" where
  "drop_step c = \<lparr>step_id = [c], step_op = ODropKey, step_function = None, step_initial = None\<rparr>"

definition sample_graph :: graph_dataflow where
  "sample_graph =
     \<lparr>gd_flow_id = lit ''g'', gd_revision = lit ''1'',
      gd_nodes = [GStep (drop_step 116), GStep (drop_step 117), GBranch [98] is_one, GStep count_step],
      gd_edges = [\<lparr>edge_source = [110], edge_target = [98], edge_route = None\<rparr>,
                  \<lparr>edge_source = [98], edge_target = [116], edge_route = Some True\<rparr>,
                  \<lparr>edge_source = [98], edge_target = [117], edge_route = Some False\<rparr>],
      gd_entry = [110],
      gd_limits = \<lparr>operator_limits = default_flow_limits, max_work_records = 10000,
                   max_work_bytes = 64 * 1024 * 1024\<rparr>\<rparr>"

lemma drop_step_ok: "32 < c \<Longrightarrow> c < 127 \<Longrightarrow> flow_step_ok (drop_step c)"
  by (simp add: drop_step_def flow_step_ok_def is_stateful_def is_label_char)

lemma sample_order:
  "topological_order [[116], [117], [98], [110]] (edges_into (gd_edges sample_graph))
     = Inr [[110], [98], [116], [117]]"
  by (simp add: topological_order_def topological_loop.simps dict_fromkeys_def sample_graph_def
      edges_into_def node_ready_def)

lemma sample_ids: "map node_id (gd_nodes sample_graph) = [[116], [117], [98], [110]]"
  by (simp add: sample_graph_def drop_step_def count_step_def lit_simps)

lemma sample_reach:
  "set (fold (mark_targets (edges_from (gd_edges sample_graph))) [[110], [98], [116], [117]] [gd_entry sample_graph])
     = set [[116], [117], [98], [110]]"
  by (auto simp: sample_graph_def mark_targets_def edges_from_def)

lemma sample_arity: "list_all (node_arity_ok (gd_edges sample_graph) (gd_entry sample_graph)) (gd_nodes sample_graph)"
  by (auto simp: sample_graph_def node_arity_ok_def edges_from_def edges_into_def drop_step_def
      count_step_def lit_simps)

lemma sample_graph_check: "graph_check sample_graph = Inr [[110], [98], [116], [117]]"
proof -
  have "graph_limits_ok (gd_limits sample_graph)"
    by (simp add: sample_graph_def graph_limits_ok_def default_limits_ok)
  moreover have "list_all graph_node_ok (gd_nodes sample_graph)"
    by (simp add: sample_graph_def drop_step_ok count_step_ok is_label_char)
  moreover have "list_all (\<lambda>e. flow_edge_ok e \<and> edge_source e \<in> set [[116], [117], [98], [110]]
      \<and> edge_target e \<in> set [[116], [117], [98], [110]]) (gd_edges sample_graph)"
    "distinct (gd_edges sample_graph)" "length (gd_edges sample_graph) = 3"
    by (simp_all add: sample_graph_def flow_edge_ok_def is_label_char)
  moreover have "is_label (gd_flow_id sample_graph)" "is_label (gd_revision sample_graph)"
    "is_label (gd_entry sample_graph)" "gd_entry sample_graph \<in> set [[116], [117], [98], [110]]"
    by (simp_all add: sample_graph_def is_label_char lit_simps)
  ultimately show ?thesis
    unfolding graph_check_def sample_ids Let_def
    by (simp only: sample_order sample_arity sample_reach rbind.simps) (simp add: sample_arity)
qed

definition sample_graph_rt :: graph_runtime where
  "sample_graph_rt = \<lparr>gr_flow = sample_graph, gr_order = [[110], [98], [116], [117]], gr_state = [],
     gr_bytes = 0, gr_processed = 0, gr_emitted = 0, gr_busy = False\<rparr>"

lemma sample_graph_rt_inv: "graph_rt_inv sample_graph_rt"
  using make_graph_runtime_inv [of sample_graph sample_graph_rt]
  by (simp add: make_graph_runtime_def sample_graph_check sample_graph_rt_def)

lemmas eval_walk =
  walk_graph_def walk_node_def walk_node_body_def run_node_def node_input_def deliver_def take_mail_def
  branch_item_def charge_work_def graph_walk_def node_of_def edges_into_def edges_from_def
  sample_graph_def drop_step_def count_step_def sample_record_def lit_simps ddel_def

lemma sample_graph_process:
  "fst (graph_process (sample_record 107) sample_graph_rt)
     = Inr [\<lparr>out_step = [116], out_record = keyless_record\<rparr>]"
  by (simp add: graph_process_def graph_process_body_def sample_graph_rt_def eval_walk eval_step count_def
      MAX_COUNT_def keyless_record_def commit_tx_def)

section \<open>Properties\<close>

text \<open>C6: the execution order is correct and complete: when the sources of all edges are
  declared, it is a permutation of the nodes with every source before its target, or the
  graph has a cycle and is refused.\<close>
theorem topological_order_correct:
  assumes "\<forall>k\<in>set ids. \<forall>e\<in>set (incoming k). edge_source e \<in> set ids"
  shows "case topological_order ids incoming of
      Inr order \<Rightarrow> sources_first incoming order \<and> distinct order \<and> set order = set ids
        \<and> \<not> has_cycle incoming (set ids)
    | Inl e \<Rightarrow> has_cycle incoming (set ids)"
proof (cases "topological_order ids incoming")
  case (Inl e)
  then show ?thesis
    using topological_loop_Inl [of incoming "[]" "dict_fromkeys ids" e] assms
    by (simp add: topological_order_def)
next
  case (Inr order)
  from topological_order_Inr [OF this] have o1: "sources_first incoming order" "set order = set ids" by auto
  have "\<not> has_cycle incoming (set ids)"
  proof
    assume "has_cycle incoming (set ids)"
    then obtain C where C: "C \<noteq> {}" "C \<subseteq> set order"
      and dep: "\<forall>k\<in>C. \<exists>e\<in>set (incoming k). edge_source e \<in> C"
      unfolding has_cycle_def o1(2) by blast
    from sources_first_acyclic [OF o1(1) C(2,1)] dep show False by blast
  qed
  with Inr topological_order_Inr [OF Inr] show ?thesis by simp
qed

theorem topological_order_correct_witness:
  "case topological_order [[116], [117], [98], [110]] (edges_into (gd_edges sample_graph)) of
      Inr order \<Rightarrow> sources_first (edges_into (gd_edges sample_graph)) order \<and> distinct order
        \<and> set order = set [[116], [117], [98], [110]]
        \<and> \<not> has_cycle (edges_into (gd_edges sample_graph)) (set [[116], [117], [98], [110]])
    | Inl e \<Rightarrow> has_cycle (edges_into (gd_edges sample_graph)) (set [[116], [117], [98], [110]])"
  by (rule topological_order_correct) (simp add: sample_graph_def edges_into_def)

text \<open>A walk in execution order loses no record: when it ends, every batch that was
  delivered on an edge has been consumed by the target of the edge.\<close>

lemma walk_consumes_mail:
  assumes "graph_check g = Inr order"
    and "fold_res (walk_node (graph_walk g state r)) order
           \<lparr>ws_mail = [], ws_published = [], ws_tx = tx, ws_hook = h\<rparr> = Inr s"
  shows "ws_mail s = []"
proof -
  have o1: "sources_first (edges_into (gd_edges g)) order" "distinct order"
    "set order = set (map node_id (gd_nodes g))"
    using topological_order_Inr [OF graph_check_Inr(4) [OF assms(1)]] by auto
  show ?thesis
    by (rule walk_mail_empty [OF _ _ o1(1,2) _ assms(2)])
      (use graph_check_Inr(5) [OF assms(1)] o1(3) in \<open>simp_all add: graph_walk_def\<close>)
qed

text \<open>C7: a successful \<open>process\<close> keeps the invariant of the graph runtime, publishes valid
  records, and its input and outputs fit the aggregate work budget.\<close>
theorem graph_process_sound:
  assumes "graph_rt_inv rt" "record_ok r" "graph_process r rt = (Inr out, rt')"
  shows "graph_rt_inv rt' \<and> gr_flow rt' = gr_flow rt \<and> gr_emitted rt' = gr_emitted rt + int (length out)
    \<and> list_all (\<lambda>o1. record_ok (out_record o1)) out
    \<and> 1 + int (length out) \<le> max_work_records (gd_limits (gr_flow rt))
    \<and> rec_size r + (\<Sum>o1\<leftarrow>out. rec_size (out_record o1)) \<le> max_work_bytes (gd_limits (gr_flow rt))"
  using graph_process_ok [OF assms] graph_process_Inr [OF assms(3)] by auto

theorem graph_process_sound_witness:
  "graph_rt_inv (snd (graph_process (sample_record 107) sample_graph_rt))
    \<and> gr_flow (snd (graph_process (sample_record 107) sample_graph_rt)) = gr_flow sample_graph_rt
    \<and> gr_emitted (snd (graph_process (sample_record 107) sample_graph_rt))
        = gr_emitted sample_graph_rt + int (length [\<lparr>out_step = [116], out_record = keyless_record\<rparr>])
    \<and> list_all (\<lambda>o1. record_ok (out_record o1)) [\<lparr>out_step = [116], out_record = keyless_record\<rparr>]
    \<and> 1 + int (length [\<lparr>out_step = [116], out_record = keyless_record\<rparr>])
        \<le> max_work_records (gd_limits (gr_flow sample_graph_rt))
    \<and> rec_size (sample_record 107)
        + (\<Sum>o1\<leftarrow>[\<lparr>out_step = [116], out_record = keyless_record\<rparr>]. rec_size (out_record o1))
        \<le> max_work_bytes (gd_limits (gr_flow sample_graph_rt))"
  by (rule graph_process_sound [OF sample_graph_rt_inv sample_record_ok(1)])
    (simp_all add: prod_eq_iff sample_graph_process)

text \<open>A checkpoint of a graph runtime, written as JSON text and read back, restores the
  runtime with its cells in sorted order.\<close>
lemma graph_checkpoint_roundtrip:
  assumes "graph_rt_inv rt"
  shows "\<exists>c doc. graph_checkpoint_of rt = Inr c \<and> graph_checkpoint_to_dict c = Inr doc
    \<and> rbind (loads h (dumps doc)) (\<lambda>d. rbind (graph_checkpoint_from_dict d)
        (graph_from_checkpoint (gr_flow rt))) = Inr (rt\<lparr>gr_state := sort_key fst (gr_state rt)\<rparr>)"
  using assms graph_saved_ok [OF assms]
  by (intro exI [of _ "graph_saved rt"] exI [of _ "checkpoint_json graph_kind (graph_saved rt)"])
    (simp add: graph_checkpoint_of_eq graph_to_dict_ok loads_dumps json_wf_checkpoint
      graph_from_dict_ok graph_from_checkpoint_saved graph_restored_def)

text \<open>Recovery of a graph is transparent, and failed inputs leave no trace: the restored
  runtime, fed only the inputs that succeed, gives the answers and the state of the original.\<close>
lemma graph_recovery_transparent:
  assumes "graph_rt_inv rt" "list_all record_ok rs"
    and "rbind (graph_checkpoint_of rt) (graph_from_checkpoint (gr_flow rt)) = Inr rt'"
  shows "fst (run_ops graph_process (committed graph_process rs rt) rt')
       = filter succeeded (fst (run_ops graph_process rs rt))
    \<and> dget (gr_state (snd (run_ops graph_process (committed graph_process rs rt) rt')))
       = dget (gr_state (snd (run_ops graph_process rs rt)))"
proof -
  have "rt' = graph_restored rt"
    using assms by (auto simp: graph_checkpoint_of_eq graph_from_checkpoint_saved)
  then have "graph_alike rt rt'" using assms(1) by (simp add: graph_alike_restored)
  then have "fst (run_ops graph_process ps rt) = fst (run_ops graph_process ps rt')
    \<and> graph_alike (snd (run_ops graph_process ps rt)) (snd (run_ops graph_process ps rt'))" for ps
    by (rule run_ops_sim) (rule graph_process_alike)
  with graph.run_committed [OF assms(1,2)] show ?thesis
    by (metis fst_conv snd_conv graph_alike_def)
qed

end
