(* ===== verification/Window_Graph_Laws.thy ===== *)
theory Window_Graph_Laws
  imports Window_Graph Window_Hooks Walk_Rules Graph_Runtime_Laws
begin

text \<open>
  What holds of a window graph: the aggregate accounting of ordinary and window cells is exact
  through every walk, fold and drain; the operation counters agree with their causes; and the
  window inside behaves as a \<open>WindowFoldRuntime\<close> of its own.
\<close>

section \<open>Sizes of ordinary cells\<close>

definition wire_len :: "state_key \<Rightarrow> pystr \<Rightarrow> int" where
  "wire_len k t = byte_len (dumps (jsort (ordinary_wire k t)))"

definition wire_total :: "(state_key \<rightharpoonup> pystr) \<Rightarrow> int" where
  "wire_total m = weight wire_len m"

lemma ordinary_size_Inr: "ordinary_size k t = Inr n \<Longrightarrow> n = wire_len k t"
  by (auto simp: ordinary_size_def wire_len_def dest: encode_json_Inr)

lemma opt_size_Inr: "opt_size k x = Inr n \<Longrightarrow> n = opt_weight wire_len k x"
  by (cases x) (auto simp: opt_size_def dest: ordinary_size_Inr)

lemma wire_total_upd:
  "finite (dom m) \<Longrightarrow> wire_total (m(k := x)) = wire_total m - opt_weight wire_len k (m k) + opt_weight wire_len k x"
  unfolding wire_total_def by (rule weight_upd)

lemma wire_total_dget: "dict_ok d \<Longrightarrow> wire_total (dget d) = (\<Sum>e\<leftarrow>d. wire_len (fst e) (snd e))"
  by (simp add: wire_total_def weight_dget split_def)

section \<open>A checked graph\<close>

definition graph_lim :: "window_graph \<Rightarrow> flow_limits" where
  "graph_lim g = operator_limits (wgl_graph (wg_limits g))"

definition graph_stateful :: "window_graph \<Rightarrow> pystr set" where
  "graph_stateful g = stateful_ids (graph_steps (wg_nodes g))"

lemma window_nodes_single: "window_nodes nodes = [(i, w)] \<Longrightarrow> GOther i w \<in> set nodes"
proof -
  assume "window_nodes nodes = [(i, w)]"
  then have "(i, w) \<in> set (window_nodes nodes)" by simp
  then show ?thesis unfolding window_nodes_def by (auto split: graph_node.splits)
qed

lemma window_graph_check_Inr:
  assumes "window_graph_check g = Inr p"
  shows "window_graph_limits_ok (wg_limits g)" "list_all window_node_ok (wg_nodes g)"
    and "window_nodes (wg_nodes g) = [(pl_window p, pl_fold p)]" "pl_window p \<noteq> wg_entry g"
    and "graph_check (plain_graph g) = Inr (pl_order p)"
    and "pl_prefix p = fold (mark_bypass (wg_edges g) (pl_window p)) (pl_order p) [wg_entry g]"
    and "\<not> list_ex (\<lambda>k. k \<in> set (pl_prefix p) \<and> edges_from (wg_edges g) k = []) (map node_id (wg_nodes g))"
    and "pl_cap p = graph_drain_cap (wgl_graph (wg_limits g)) (pl_fold p) (1 + int (length (edges_from (wg_edges g) (pl_window p))))"
    and "row_reservable (wgl_graph (wg_limits g)) (pl_fold p) (1 + int (length (edges_from (wg_edges g) (pl_window p))))"
  using assms by (auto simp: window_graph_check_def Let_def split: if_splits list.splits)

lemma checked_fold: "window_graph_check g = Inr p \<Longrightarrow> window_fold_ok (pl_fold p) \<and> flow_limits_ok (graph_lim g)"
proof -
  assume c: "window_graph_check g = Inr p"
  have "GOther (pl_window p) (pl_fold p) \<in> set (wg_nodes g)" by (rule window_nodes_single) (rule window_graph_check_Inr(3) [OF c])
  then have "window_node_ok (GOther (pl_window p) (pl_fold p))" using window_graph_check_Inr(2) [OF c] unfolding list_all_iff by blast
  then show ?thesis
    using window_graph_check_Inr(1) [OF c]
    by (simp add: flow_window_ok_def graph_lim_def window_graph_limits_ok_def graph_limits_ok_def)
qed

lemma checked_step:
  assumes "window_graph_check g = Inr p" "node_of (wg_nodes g) k = GStep s"
  shows "flow_step_ok s \<and> (is_stateful (step_op s) \<longrightarrow> step_id s \<in> graph_stateful g)"
proof -
  have i: "GStep s \<in> set (wg_nodes g)" using assms(2) by (rule node_of_in)
  then have "window_node_ok (GStep s)" using window_graph_check_Inr(2) [OF assms(1)] unfolding list_all_iff by blast
  then show ?thesis using i by (force simp: graph_stateful_def stateful_ids_def graph_steps_def)
qed

section \<open>Metering\<close>

fun metered :: "window_graph \<Rightarrow> graph_plan \<Rightarrow> (state_key, pystr) dict \<Rightarrow> int \<Rightarrow> int \<Rightarrow> flow_tx \<times> graph_hook \<Rightarrow> bool" where
  "metered g p base c b (tx, h) \<longleftrightarrow>
     window_graph_check g = Inr p \<and> tx_ok (graph_lim g) (graph_stateful g) base tx
     \<and> gh_cells h = key_total (previous_state base tx) + c \<and> gh_bytes h = wire_total (previous_state base tx) + b
     \<and> gh_cells h \<le> wgl_cells (wg_limits g) \<and> gh_bytes h \<le> wgl_bytes (wg_limits g)
     \<and> length (gh_edges h) = length (wg_edges g) \<and> (\<forall>n\<in>set (gh_edges h). 0 \<le> n \<and> n \<le> MAX_COUNT)"

lemma cells_check_Inr: "cells_check l h = Inr h' \<longleftrightarrow> h' = h \<and> gh_cells h \<le> wgl_cells l \<and> gh_bytes h \<le> wgl_bytes l"
  by (auto simp: cells_check_def)

lemma metered_call: "metered g p base c b (tx, h) \<Longrightarrow> invoke lim f args tx = Inr (v, tx') \<Longrightarrow> metered g p base c b (tx', h)"
  using invoke_effect [of lim f args tx v tx'] view_cong [of tx' tx base]
  by (auto intro: tx_ok_cong)

lemma metered_charge: "metered g p base c b (tx, h) \<Longrightarrow> work_charge gl r h = Inr h' \<Longrightarrow> metered g p base c b (tx, h')"
  by (auto simp: work_charge_def)

lemma metered_propose:
  assumes m: "metered g p base c b (tx, h)" and k: "fst k \<in> graph_stateful g" "is_label (fst k)" "is_label (snd k)"
    and pr: "propose (graph_lim g) hk k (previous_state base tx k) st retain (tx, h) = Inr (tx', h')"
    and hk: "on_propose hk = cells_ordinary (wg_limits g)"
  shows "metered g p base c b (tx', h')"
proof -
  obtain x where pend: "tx_pending tx' = dput k x (tx_pending tx)"
    and on: "cells_ordinary (wg_limits g) k (previous_state base tx k) x h = Inr h'"
    using propose_effect [OF pr] unfolding hk by blast
  have v: "previous_state base tx' = (previous_state base tx)(k := x)" by (rule view_put) (rule pend)
  have ok: "tx_ok (graph_lim g) (graph_stateful g) base tx'" using propose_ok [OF _ k pr] m by simp
  obtain n n' where n: "opt_size k x = Inr n" "opt_size k (previous_state base tx k) = Inr n'"
      "h' = h\<lparr>gh_cells := gh_cells h + (opt_one x - opt_one (previous_state base tx k)), gh_bytes := gh_bytes h + (n - n')\<rparr>"
      "gh_cells h' \<le> wgl_cells (wg_limits g)" "gh_bytes h' \<le> wgl_bytes (wg_limits g)"
    using on by (auto simp: cells_ordinary_def cells_check_Inr)
  have "key_total (previous_state base tx') = key_total (previous_state base tx) + (opt_one x - opt_one (previous_state base tx k))"
    unfolding v by (rule key_total_upd) (rule finite_view)
  moreover have "wire_total (previous_state base tx') = wire_total (previous_state base tx) + (n - n')"
    unfolding v wire_total_upd [OF finite_view] using opt_size_Inr [OF n(1)] opt_size_Inr [OF n(2)] by simp
  ultimately show ?thesis using m ok n(3-5) by simp
qed

lemma metered_delivery:
  assumes "metered g p base c b (tx, h)" "count_delivery g e n h = Inr h'"
  shows "metered g p base c b (tx, h')"
proof -
  obtain m where m: "0 \<le> m" "m \<le> MAX_COUNT" "h' = h\<lparr>gh_edges := (gh_edges h)[edge_index e (wg_edges g) := m]\<rparr>"
    using assms(2) by (auto simp: count_delivery_def Let_def)
  then have "\<forall>n\<in>set (gh_edges h'). 0 \<le> n \<and> n \<le> MAX_COUNT"
    using assms(1) by (auto dest!: set_update_subset_insert [THEN subsetD])
  then show ?thesis using assms(1) m by simp
qed

lemma metered_walk_nodes:
  assumes "metered g p base c b (tx, h)" "list_all record_ok (concat (map snd seeds))" "list_all record_ok (concat (map snd outs))"
  shows "walk_nodes_ok ((window_walk g base)\<lparr>wp_seeds := seeds, wp_extension := ext, wp_seed_outputs := outs\<rparr>) (graph_stateful g)"
proof -
  have c: "window_graph_check g = Inr p" using assms(1) by simp
  have "list_all record_ok rs" if "dget d k = Some rs" "list_all record_ok (concat (map snd d))" for d k rs
    using map_of_SomeD [OF that(1)] that(2) by (force simp: list_all_iff)
  then show ?thesis
    using checked_step [OF c] checked_fold [OF c] assms(2,3)
    by (auto simp: walk_nodes_ok_def window_walk_def graph_lim_def)
qed

section \<open>The walk behind the window\<close>

interpretation row: walk_invariant "(window_walk g base)\<lparr>wp_seed_outputs := [(i, [r])]\<rparr>" "graph_stateful g"
  "\<lambda>tx h. record_ok r \<and> metered g p base c b (tx, h)" for g base i r p c b
proof
  show "walk_nodes_ok ((window_walk g base)\<lparr>wp_seed_outputs := [(i, [r])]\<rparr>) (graph_stateful g)"
    if "record_ok r \<and> metered g p base c b (tx, h)" for tx h
    using metered_walk_nodes [of g p base c b tx h "[]" "[(i, [r])]" None] that by (simp add: window_walk_def)
qed (auto simp: window_walk_def graph_lim_def [symmetric] simp del: metered.simps
    intro: metered_call metered_charge metered_propose metered_delivery)

lemma metered_row:
  assumes m: "metered g p (gs_ordinary before) c b s" and r: "row_walk g p before row s = Inr s'"
  shows "metered g p (gs_ordinary before) c b s'"
proof -
  obtain tx h where s: "s = (tx, h)" by (cases s)
  define h1 where "h1 = h\<lparr>gh_reserved_records := gh_reserved_records h - (1 + int (length (edges_from (wg_edges g) (pl_window p)))),
      gh_reserved_work := gh_reserved_work h
        - (1 + int (length (edges_from (wg_edges g) (pl_window p)))) * wl_row_bytes (wf_limits (pl_fold p))\<rparr>"
  obtain rec current tx2 h2 where rec: "window_row_to_record row = Inr rec"
    and wk: "walk_graph ((window_walk g (gs_ordinary before))\<lparr>wp_seed_outputs := [(pl_window p, [rec])]\<rparr>) (pl_order p) (tx, h1)
        = Inr (current, tx2, h2)"
    and s': "s' = (tx2, h2\<lparr>gh_outputs := gh_outputs h2 @ current\<rparr>)"
    using r unfolding s row_walk_def Let_def prod.case rbind_eq_Inr h1_def by auto
  have "record_ok rec" using rec make_record_ok by (auto simp: window_row_to_record_def)
  moreover have "metered g p (gs_ordinary before) c b (tx, h1)" using m by (simp add: h1_def s)
  ultimately have "metered g p (gs_ordinary before) c b (tx2, h2)" using row.walk [OF wk] by blast
  then show ?thesis using s' by auto
qed

lemma stage_hooks_meter:
  assumes "\<And>c b row h h'. metered g p base c b h \<Longrightarrow> on_row row h = Inr h' \<Longrightarrow> metered g p base c b h'"
  shows "window_meter (stage_hooks g on_row) (metered g p base)"
proof
  fix c b h h'
  assume m: "metered g p base c b h"
  obtain tx k where h: "h = (tx, k)" by (cases h)
  show "metered g p base c b h'" if "wh_call (stage_hooks g on_row) h = Inr h'"
  proof -
    have "h' = (tx\<lparr>tx_calls := tx_calls tx + 1\<rparr>, k)" using that by (auto simp: h stage_hooks_def split: if_splits)
    moreover have "previous_state base (tx\<lparr>tx_calls := n\<rparr>) = previous_state base tx" for n by (rule view_cong) simp
    ultimately show ?thesis using m by (auto simp: h intro: tx_ok_cong)
  qed
  show "metered g p base (c + (n - int (length cs))) (b - (\<Sum>x\<leftarrow>cs. wc_bytes x)) h'"
    if "wh_reserve (stage_hooks g on_row) cs n h = Inr h'" for cs n
    using that m by (auto simp: h stage_hooks_def cells_reserve_def cells_check_Inr)
  show "metered g p base c (b + wc_bytes x) h'" if "wh_admit (stage_hooks g on_row) x h = Inr h'" for x
    using that m by (auto simp: h stage_hooks_def cells_admit_def cells_check_Inr)
  show "metered g p base c b h'" if "wh_row (stage_hooks g on_row) row h = Inr h'" for row
    using assms [OF m] that by (simp add: stage_hooks_def)
qed

interpretation drain: window_meter "stage_hooks g (row_walk g p before)" "metered g p (gs_ordinary before)" for g p before
  by (rule stage_hooks_meter) (rule metered_row)

interpretation fold: window_meter "stage_hooks g (\<lambda>_. Inr)" "metered g p base" for g p base
  by (rule stage_hooks_meter) simp

section \<open>The walk of an input\<close>

text \<open>Operations of the window alone, run on its staged state.\<close>

definition window_steps :: "window_fold \<Rightarrow> window_op list \<Rightarrow> wstate \<Rightarrow> wstate res" where
  "window_steps w ops s = fold_res (\<lambda>op s. rbind (window_stage w op s) (\<lambda>(s, _). Inr s)) ops s"

lemma window_steps_simps [simp]: "window_steps w [] s = Inr s"
  by (simp add: window_steps_def)

lemma window_steps_append: "window_steps w (ops @ ops') s = rbind (window_steps w ops s) (window_steps w ops')"
proof (induction ops arbitrary: s)
  case (Cons op ops)
  then show ?case by (cases "window_stage w op s") (auto simp: window_steps_def split: prod.splits)
qed (simp add: window_steps_def)

lemma window_steps_one: "window_stage w op s = Inr (s', reply) \<Longrightarrow> window_steps w [op] s = Inr s'"
  by (simp add: window_steps_def)

definition folding :: "window_graph \<Rightarrow> graph_plan \<Rightarrow> (state_key, pystr) dict \<Rightarrow> wstate \<Rightarrow> int \<Rightarrow> flow_tx \<times> graph_hook \<Rightarrow> bool" where
  "folding g p base before t s \<longleftrightarrow>
     wstate_inv (pl_fold p) (gh_window (snd s))
     \<and> metered g p base (int (length (w_cells (gh_window (snd s))))) (w_bytes (gh_window (snd s))) s
     \<and> (\<exists>rs. window_steps (pl_fold p) (map (WProcess t) rs) before = Inr (gh_window (snd s)))"

lemma fold_record_folding:
  assumes f: "folding g p base before t s" and r: "fold_record g (pl_fold p) t r s = Inr s'"
  shows "folding g p base before t s'"
proof -
  define w where "w = gh_window (snd s)"
  obtain tx h window reply tx2 h2 where s: "s = (tx, h)"
    and pr: "stage_process (pl_fold p) (stage_hooks g (\<lambda>_. Inr)) w t r s = Inr (window, reply, tx2, h2)"
    and s': "s' = (tx2, h2\<lparr>gh_window := window\<rparr>)"
    using r by (cases s) (auto simp: fold_record_def w_def)
  have inv: "wstate_inv (pl_fold p) w" and m: "metered g p base (int (length (w_cells w))) (w_bytes w) s"
    and c: "window_graph_check g = Inr p" and rs: "\<exists>rs. window_steps (pl_fold p) (map (WProcess t) rs) before = Inr w"
    using f unfolding folding_def w_def s by auto
  have d: "dict_ok (w_cells w)" using inv by (simp add: wstate_inv_def)
  have "metered g p base (int (length (w_cells window))) (w_bytes window) (tx2, h2)"
    using fold.stage_process [OF pr d m] by (simp del: metered.simps)
  moreover have "wstate_inv (pl_fold p) window" using stage_process_inv [OF _ inv pr] checked_fold [OF c] by blast
  moreover have "\<exists>rs. window_steps (pl_fold p) (map (WProcess t) rs) before = Inr window"
  proof -
    obtain rs where rs: "window_steps (pl_fold p) (map (WProcess t) rs) before = Inr w" using rs by blast
    have "window_stage (pl_fold p) (WProcess t r) w = Inr (window, RProcessed reply)"
      using stage_process_erase [OF pr] by (simp add: window_stage_def)
    from window_steps_one [OF this] have "window_steps (pl_fold p) (map (WProcess t) (rs @ [r])) before = Inr window"
      using rs by (simp add: window_steps_append)
    then show ?thesis by blast
  qed
  ultimately show ?thesis by (simp add: folding_def s')
qed

lemma fold_records_folding:
  "fold_res (fold_record g (pl_fold p) t) rs s = Inr s' \<Longrightarrow> folding g p base before t s \<Longrightarrow> folding g p base before t s'"
  by (rule fold_res_invariant) (auto intro: fold_record_folding)

lemma folding_metered: "folding g p base before t (tx, h) \<Longrightarrow>
   \<exists>c b. metered g p base c b (tx, h) \<and> (\<forall>tx' h'. gh_window h' = gh_window h \<longrightarrow> metered g p base c b (tx', h') \<longrightarrow> folding g p base before t (tx', h'))"
  unfolding folding_def by auto

interpretation input: walk_invariant
  "(window_walk g base)\<lparr>wp_seeds := [(wg_entry g, [r])], wp_extension := Some (window_extension g p t)\<rparr>" "graph_stateful g"
  "\<lambda>tx h. record_ok r \<and> folding g p base before t (tx, h)" for g base r p t before
proof
  fix tx h tx' h'
  assume q: "record_ok r \<and> folding g p base before t (tx, h)"
  obtain c b where m: "metered g p base c b (tx, h)"
    and keep: "\<And>tx' h'. gh_window h' = gh_window h \<Longrightarrow> metered g p base c b (tx', h') \<Longrightarrow> folding g p base before t (tx', h')"
    using folding_metered q by blast
  define w where "w = (window_walk g base)\<lparr>wp_seeds := [(wg_entry g, [r])], wp_extension := Some (window_extension g p t)\<rparr>"
  have w: "wp_limits w = graph_lim g" "wp_base w = base" "on_propose (wp_hooks w) = cells_ordinary (wg_limits g)"
      "on_emit (wp_hooks w) = work_charge (wgl_graph (wg_limits g))" "wp_delivered w = count_delivery g"
    by (simp_all add: w_def window_walk_def graph_lim_def)
  show "walk_nodes_ok w (graph_stateful g)"
    using metered_walk_nodes [OF m, of "[(wg_entry g, [r])]" "[]" "Some (window_extension g p t)"] q by (simp add: w_def window_walk_def)
  show "record_ok r \<and> folding g p base before t (tx', h)" if "invoke (wp_limits w) f args tx = Inr (v, tx')" for f args v
    using q keep [OF _ metered_call [OF m that]] by simp
  show "record_ok r \<and> folding g p base before t (tx, h')" if "on_emit (wp_hooks w) rc h = Inr h'" for rc
  proof -
    have c: "work_charge (wgl_graph (wg_limits g)) rc h = Inr h'" using that w by simp
    then have "gh_window h' = gh_window h" by (auto simp: work_charge_def)
    from keep [OF this metered_charge [OF m c]] show ?thesis using q by simp
  qed
  show "record_ok r \<and> folding g p base before t (tx', h')"
    if "fst k \<in> graph_stateful g" "is_label (fst k)" "is_label (snd k)"
      and pr: "propose (wp_limits w) (wp_hooks w) k (previous_state (wp_base w) tx k) st retain (tx, h) = Inr (tx', h')" for k st retain
  proof -
    have "gh_window h' = gh_window h"
      using propose_effect [OF pr] unfolding w by (auto simp: cells_ordinary_def cells_check_Inr)
    from keep [OF this metered_propose [OF m that(1-3) pr [unfolded w] w(3)]] show ?thesis using q by simp
  qed
  show "record_ok r \<and> folding g p base before t (tx, h')" if "wp_delivered w e n h = Inr h'" for e n
  proof -
    have c: "count_delivery g e n h = Inr h'" using that w by simp
    then have "gh_window h' = gh_window h" by (auto simp: count_delivery_def Let_def)
    from keep [OF this metered_delivery [OF m c]] show ?thesis using q by simp
  qed
  show "(record_ok r \<and> folding g p base before t (tx', h')) \<and> list_all record_ok out"
    if "wp_extension w = Some ext" "ext i batches (tx, h) = Inr (out, tx', h')" for ext i batches out
    using that q fold_records_folding by (auto simp: w_def window_extension_def split: if_splits)
qed

end
