(* ===== verification/Window_Quiet.thy ===== *)
theory Window_Quiet
  imports Window_Graph_Laws
begin

text \<open>
  Every path of a window graph to an output crosses the window: the part that an input can
  reach without the window has no output, so the walk of an input publishes nothing and
  delivers nothing behind the window.
\<close>

section \<open>Walks that stay in front\<close>

text \<open>\<open>live\<close>: the nodes that may receive records; they have targets, and a node outside that has
  a live source swallows what it is sent.\<close>

definition quiet_walk :: "('x, 'e, 'h) walk_params \<Rightarrow> pystr set \<Rightarrow> bool" where
  "quiet_walk w live \<longleftrightarrow>
     wp_seed_outputs w = [] \<and> (\<forall>k. dget (wp_seeds w) k \<noteq> None \<longrightarrow> k \<in> live)
     \<and> (\<forall>k\<in>live. wp_outgoing w k \<noteq> [])
     \<and> (\<forall>k. \<forall>e\<in>set (wp_outgoing w k). edge_source e = k)
     \<and> (\<forall>k. k \<notin> live \<longrightarrow> (\<exists>e\<in>set (wp_incoming w k). edge_source e \<in> live) \<longrightarrow> (\<exists>i x. wp_nodes w k = GOther i x))
     \<and> (\<forall>f k batches s out s'. wp_extension w = Some f \<longrightarrow> f k batches s = Inr (out, s') \<longrightarrow> out = [])"

definition quiet :: "pystr set \<Rightarrow> ('e, 'h) walk_state \<Rightarrow> bool" where
  "quiet live s \<longleftrightarrow> ws_published s = []
     \<and> (\<forall>e rs. dget (ws_mail s) e = Some rs \<longrightarrow> edge_source e \<notin> live \<longrightarrow> rs = [])"

lemma run_node_silent:
  assumes q: "quiet_walk w live" and k: "k \<notin> live"
    and b: "(\<exists>i x. wp_nodes w k = GOther i x) \<or> (\<forall>b\<in>set batches. snd b = [])"
    and r: "run_node w k batches s = Inr (routed, tx, h)" and g: "dget routed x = Some rs"
  shows "rs = []"
proof -
  have n: "dget (wp_seeds w) k = None" "dget (wp_seed_outputs w) k = None"
    using q k by (auto simp: quiet_walk_def)
  have i: "node_input w k batches = []" if "\<forall>b\<in>set batches. snd b = []"
    using that n(1) by (auto simp: node_input_def)
  show ?thesis
  proof (cases "wp_nodes w k")
    case (GOther i y)
    with r n(2) obtain f out where f: "wp_extension w = Some f" "f k batches s = Inr (out, tx, h)" "routed = [(None, out)]"
      by (auto simp: run_node_def split: option.splits)
    then have "out = []" using q unfolding quiet_walk_def by blast
    with f(3) g show ?thesis by (auto split: if_splits)
  qed (use r n(2) g i b in \<open>auto simp: run_node_def apply_step_def split: if_splits\<close>)
qed

lemma walk_node_quiet:
  assumes q: "quiet_walk w live" and s: "quiet live s" and n: "walk_node w k s = Inr s'"
  shows "quiet live s'"
proof -
  obtain routed tx h mail h' where
    r: "run_node w k (take_mail (wp_incoming w k) (ws_mail s)) (ws_tx s, ws_hook s) = Inr (routed, tx, h)"
    and d: "fold_res (deliver w routed) (wp_outgoing w k) (fold ddel (wp_incoming w k) (ws_mail s), h) = Inr (mail, h')"
    and s': "ws_mail s' = mail"
    and p: "if wp_outgoing w k = []
        then \<exists>out. dget routed None = Some out
           \<and> ws_published s' = ws_published s @ map (\<lambda>r. \<lparr>out_step = k, out_record = r\<rparr>) out
        else ws_published s' = ws_published s"
    using walk_node_effect [OF n] by blast
  have empty: "rs = []" if k: "k \<notin> live" and g: "dget routed x = Some rs" for x rs
  proof (rule run_node_silent [OF q k _ r g])
    have "snd b = []" if "b \<in> set (take_mail (wp_incoming w k) (ws_mail s))" "\<nexists>i x. wp_nodes w k = GOther i x" for b
    proof -
      obtain e where e: "e \<in> set (wp_incoming w k)" "snd b = (case dget (ws_mail s) e of None \<Rightarrow> [] | Some rs \<Rightarrow> rs)"
        using \<open>b \<in> _\<close> by (auto simp: take_mail_def)
      then have "edge_source e \<notin> live" using q k \<open>\<nexists>i x. _\<close> unfolding quiet_walk_def by blast
      with s e(2) show ?thesis by (auto simp: quiet_def split: option.splits)
    qed
    then show "(\<exists>i x. wp_nodes w k = GOther i x) \<or> (\<forall>b\<in>set (take_mail (wp_incoming w k) (ws_mail s)). snd b = [])" by blast
  qed
  have "\<forall>e rs. dget (fst (mail, h')) e = Some rs \<longrightarrow> edge_source e \<notin> live \<longrightarrow> rs = []"
  proof (rule fold_res_invariant [OF d])
    show "\<forall>e rs. dget (fst (fold ddel (wp_incoming w k) (ws_mail s), h)) e = Some rs \<longrightarrow> edge_source e \<notin> live \<longrightarrow> rs = []"
      using s by (auto simp: quiet_def dget_fold_ddel)
    fix e t t' assume e: "e \<in> set (wp_outgoing w k)"
      and t: "\<forall>e rs. dget (fst t) e = Some rs \<longrightarrow> edge_source e \<notin> live \<longrightarrow> rs = []" "deliver w routed e t = Inr t'"
    obtain m g m' g' where tm: "t = (m, g)" "t' = (m', g')" by (cases t, cases t')
    obtain b where b: "dget routed (edge_route e) = Some b" "m' = dput e b m"
      using deliver_effect [OF t(2) [unfolded tm]] by blast
    have "edge_source e = k" using q e by (auto simp: quiet_walk_def)
    then have "edge_source e \<notin> live \<Longrightarrow> b = []" using empty b(1) by blast
    then show "\<forall>e rs. dget (fst t') e = Some rs \<longrightarrow> edge_source e \<notin> live \<longrightarrow> rs = []"
      using t(1) by (auto simp: tm b(2))
  qed
  moreover have "ws_published s' = []"
  proof (cases "wp_outgoing w k = []")
    case True
    then have "k \<notin> live" using q by (auto simp: quiet_walk_def)
    with True p empty s show ?thesis by (auto simp: quiet_def)
  next
    case False
    with p s show ?thesis by (simp add: quiet_def)
  qed
  ultimately show ?thesis by (simp add: quiet_def s')
qed

lemma walk_graph_quiet:
  assumes q: "quiet_walk w live" and g: "walk_graph w order s = Inr (out, tx, h)"
  shows "out = []"
proof -
  obtain s' where f: "fold_res (walk_node w) order \<lparr>ws_mail = [], ws_published = [], ws_tx = fst s, ws_hook = snd s\<rparr> = Inr s'"
    and o1: "out = ws_published s'"
    using g by (auto simp: walk_graph_def)
  have "quiet live s'"
    by (rule fold_res_invariant [OF f]) (simp add: quiet_def, rule walk_node_quiet [OF q])
  then show ?thesis by (simp add: o1 quiet_def)
qed

section \<open>The part in front of the window\<close>

lemma mark_bypass_subset: "set b \<subseteq> set (fold (mark_bypass es k) order b)"
proof (induction order arbitrary: b)
  case (Cons x order)
  have "set b \<subseteq> set (mark_bypass es k x b)" by (auto simp: mark_bypass_def)
  with Cons show ?case by (simp add: subset_trans)
qed simp

lemma mark_bypass_from:
  "t \<in> set (fold (mark_bypass es k) order b) \<Longrightarrow> t \<in> set b \<or> (t \<noteq> k \<and> (\<exists>e\<in>set es. edge_target e = t \<and> edge_source e \<in> set order))"
proof (induction order arbitrary: b)
  case (Cons x order)
  from Cons.IH [of "mark_bypass es k x b"] Cons.prems show ?case
    by (auto simp: mark_bypass_def edges_from_def split: if_splits)
qed simp

lemma mark_bypass_closed:
  assumes "sources_first (edges_into es) order" "distinct order" "order = xs @ ys"
    and e: "e \<in> set es" "edge_source e \<in> set (fold (mark_bypass es k) ys b)" "edge_source e \<in> set ys" "edge_target e \<noteq> k"
  shows "edge_target e \<in> set (fold (mark_bypass es k) ys b)"
  using assms(3) e(2,3)
proof (induction ys arbitrary: xs b)
  case (Cons y ys)
  show ?case
  proof (cases "edge_source e = y")
    case True
    have "y \<in> set (mark_bypass es k y b)"
    proof (rule ccontr)
      assume n: "y \<notin> set (mark_bypass es k y b)"
      obtain e' where e': "e' \<in> set es" "edge_target e' = y" "edge_source e' \<in> set ys"
        using mark_bypass_from [of y es k ys "mark_bypass es k y b"] Cons.prems True n by auto
      have "edge_source e' \<in> set xs"
        using assms(1) e'(1,2) Cons.prems(1) unfolding sources_first_def edges_into_def by auto
      with e'(3) assms(2) Cons.prems(1) show False by auto
    qed
    then have "y \<in> set b" by (auto simp: mark_bypass_def split: if_splits)
    then have "edge_target e \<in> set (mark_bypass es k y b)"
      using True e(1,4) by (auto simp: mark_bypass_def edges_from_def)
    then show ?thesis using mark_bypass_subset by fastforce
  next
    case False
    with Cons.prems Cons.IH [of "xs @ [y]" "mark_bypass es k y b"] show ?thesis by simp
  qed
qed simp

lemma find_node:
  assumes "distinct (map node_id ns)" "n \<in> set ns"
  shows "node_of ns (node_id n) = n"
proof -
  have "find (\<lambda>m. node_id m = node_id n) ns = Some n"
    using assms by (induction ns) (auto simp: rev_image_eqI)
  then show ?thesis by (simp add: node_of_def)
qed

lemma node_id_plain [simp]: "node_id (plain_node n) = node_id n"
  by (cases n) auto

lemma plain_ids [simp]: "map node_id (map plain_node ns) = map node_id ns"
  by (induction ns) auto

text \<open>The facts of a checked graph about the part in front.\<close>

lemma checked_prefix:
  assumes c: "window_graph_check g = Inr p"
  shows "wg_entry g \<in> set (pl_prefix p)" "pl_window p \<notin> set (pl_prefix p)"
    and "set (pl_prefix p) \<subseteq> set (map node_id (wg_nodes g))"
    and "\<And>e. e \<in> set (wg_edges g) \<Longrightarrow> edge_source e \<in> set (pl_prefix p) \<Longrightarrow> edge_target e \<noteq> pl_window p \<Longrightarrow>
      edge_target e \<in> set (pl_prefix p)"
    and "node_of (wg_nodes g) (pl_window p) = GOther (pl_window p) (pl_fold p)"
proof -
  note w = window_graph_check_Inr [OF c]
  have ids: "distinct (map node_id (wg_nodes g))" and ed: "\<forall>e\<in>set (wg_edges g). edge_target e \<in> set (map node_id (wg_nodes g))"
    and en: "wg_entry g \<in> set (map node_id (wg_nodes g))"
    using w(5) by (auto simp: graph_check_def plain_graph_def Let_def list_all_iff comp_def split: if_splits)
  have top: "sources_first (edges_into (wg_edges g)) (pl_order p)" "distinct (pl_order p)"
    "set (pl_order p) = set (map node_id (wg_nodes g))"
    using topological_order_Inr [OF graph_check_Inr(4) [OF w(5)]] by (auto simp: plain_graph_def comp_def)
  show "wg_entry g \<in> set (pl_prefix p)" unfolding w(6) using mark_bypass_subset [of "[wg_entry g]"] by auto
  show "pl_window p \<notin> set (pl_prefix p)" unfolding w(6) using mark_bypass_from w(4) by fastforce
  show sub: "set (pl_prefix p) \<subseteq> set (map node_id (wg_nodes g))"
    unfolding w(6) using mark_bypass_from ed en by fastforce
  show "edge_target e \<in> set (pl_prefix p)"
    if "e \<in> set (wg_edges g)" "edge_source e \<in> set (pl_prefix p)" "edge_target e \<noteq> pl_window p" for e
    using mark_bypass_closed [OF top(1,2), of "[]" "pl_order p" e "pl_window p" "[wg_entry g]"] that sub top(3)
    unfolding w(6) by auto
  show "node_of (wg_nodes g) (pl_window p) = GOther (pl_window p) (pl_fold p)"
    using find_node [OF ids window_nodes_single [OF w(3)]] by simp
qed

lemma input_walk_quiet:
  assumes c: "window_graph_check g = Inr p"
  shows "quiet_walk ((window_walk g base)\<lparr>wp_seeds := [(wg_entry g, rs)], wp_extension := Some (window_extension g p t)\<rparr>)
     (set (pl_prefix p))"
proof -
  note w = window_graph_check_Inr [OF c] and q = checked_prefix [OF c]
  have sinks: "edges_from (wg_edges g) k \<noteq> []" if "k \<in> set (pl_prefix p)" for k
    using w(7) q(3) that by (auto simp: list_ex_iff)
  have "k = pl_window p" if "k \<notin> set (pl_prefix p)" "e \<in> set (edges_into (wg_edges g) k)" "edge_source e \<in> set (pl_prefix p)" for k e
    using q(4) [of e] that by (auto simp: edges_into_def)
  then show ?thesis
    using q(1,5) sinks
    by (auto simp: quiet_walk_def window_walk_def edges_from_def window_extension_def split: if_splits)
qed

text \<open>No input publishes anything.\<close>

lemma input_publishes_nothing:
  assumes c: "window_graph_check g = Inr p"
    and x: "execute_input g p x before = Inr (after, b)"
  shows "gb_outputs b = [] \<and> gs_emitted after = gs_emitted before"
proof -
  obtain h outputs tx h' where
    w: "walk_graph ((window_walk g (gs_ordinary before))
              \<lparr>wp_seeds := [(wg_entry g, [gi_record x])], wp_extension := Some (window_extension g p (gi_timestamp x))\<rparr>)
              (pl_order p) (begin_tx (gs_ordinary before) (gs_ordinary_bytes before), h) = Inr (outputs, tx, h')"
    and m: "commit_graph True before (tx, h'\<lparr>gh_outputs := outputs\<rparr>) = Inr (after, b)"
    using x unfolding execute_input_def rbind_eq_Inr by auto
  have "outputs = []" by (rule walk_graph_quiet [OF input_walk_quiet [OF c] w])
  then show ?thesis
    using m by (auto simp: commit_graph_def graph_batch_def wgraph_batch_check_def Let_def split: prod.splits if_splits)
qed

end
