(* ===== verification/Window_Graph_Runtime.thy ===== *)
theory Window_Graph_Runtime
  imports Window_Quiet
begin

text \<open>
  \<open>WindowGraphRuntime\<close>: its invariant, that every operation keeps it or changes nothing, and
  that the window inside runs as a \<open>WindowFoldRuntime\<close> of its own.
\<close>

section \<open>The invariant\<close>

definition graph_counts_ok :: "window_graph \<Rightarrow> graph_plan \<Rightarrow> wgraph_state \<Rightarrow> bool" where
  "graph_counts_ok g p s \<longleftrightarrow>
     0 \<le> gs_next s \<and> gs_next s \<le> wgl_inputs (wg_limits g) \<and> 0 \<le> gs_watermarks s \<and> 0 \<le> gs_drains s
     \<and> gs_operations s \<le> MAX_COUNT
     \<and> gs_operations s = gs_next s + gs_watermarks s + of_bool (w_finished (gs_window s)) + gs_drains s
     \<and> (w_watermark (gs_window s) = None \<longleftrightarrow> gs_watermarks s = 0)
     \<and> gs_drains s \<le> w_emitted (gs_window s) \<and> w_emitted (gs_window s) \<le> gs_drains s * pl_cap p
     \<and> 0 \<le> gs_emitted s \<and> gs_emitted s \<le> MAX_COUNT
     \<and> length (gs_edges s) = length (wg_edges g) \<and> (\<forall>n\<in>set (gs_edges s). 0 \<le> n \<and> n \<le> MAX_COUNT)"

definition graph_cells_ok :: "window_graph \<Rightarrow> graph_plan \<Rightarrow> wgraph_state \<Rightarrow> bool" where
  "graph_cells_ok g p s \<longleftrightarrow>
     state_ok (graph_lim g) (graph_stateful g) (gs_ordinary s) (gs_ordinary_bytes s)
     \<and> wstate_inv (pl_fold p) (gs_window s)
     \<and> gs_cell_bytes s = (\<Sum>e\<leftarrow>gs_ordinary s. wire_len (fst e) (snd e)) + (\<Sum>e\<leftarrow>w_cells (gs_window s). wc_bytes (snd e))
     \<and> gs_cell_bytes s \<le> wgl_bytes (wg_limits g)
     \<and> int (length (gs_ordinary s)) + int (length (w_cells (gs_window s))) \<le> wgl_cells (wg_limits g)"

definition wgraph_inv :: "window_graph \<Rightarrow> graph_plan \<Rightarrow> wgraph_state \<Rightarrow> bool" where
  "wgraph_inv g p s \<longleftrightarrow> window_graph_check g = Inr p \<and> graph_cells_ok g p s \<and> graph_counts_ok g p s"

definition wgraph_rt_inv :: "wgraph_runtime \<Rightarrow> bool" where
  "wgraph_rt_inv rt \<longleftrightarrow> wgraph_inv (gw_flow rt) (gw_plan rt) (gw_state rt) \<and> \<not> gw_busy rt"

definition wgraph_op_ok :: "wgraph_op \<Rightarrow> bool" where
  "wgraph_op_ok op \<longleftrightarrow> (case op of GInput x \<Rightarrow> record_ok (gi_record x) | _ \<Rightarrow> True)"

lemma empty_graph_inv:
  assumes c: "window_graph_check g = Inr p"
  shows "wgraph_inv g p (empty_graph_state g)"
proof -
  note l = checked_fold [OF c] window_graph_check_Inr(1) [OF c]
  have "state_ok (graph_lim g) (graph_stateful g) [] 0" using l(1) by (simp add: state_ok_Nil)
  moreover have "wstate_inv (pl_fold p) empty_wstate" using l(1) by (simp add: empty_wstate_inv)
  moreover have "w_cells empty_wstate = []" "w_emitted empty_wstate = 0" "w_watermark empty_wstate = None" "\<not> w_finished empty_wstate"
    by (simp_all add: empty_wstate_def)
  ultimately show ?thesis
    using c l(2)
    by (auto simp: wgraph_inv_def graph_cells_ok_def graph_counts_ok_def empty_graph_state_def window_graph_limits_ok_def
        MAX_COUNT_def)
qed

section \<open>Batches\<close>

lemma graph_batch_Inr:
  assumes "graph_batch before after outputs = Inr b"
  shows "gb_outputs b = outputs \<and> gb_next b = gs_next after \<and> gb_operations b = gs_operations after
    \<and> gb_drained b = w_emitted (gs_window after) - w_emitted (gs_window before)
    \<and> gb_folded b = folded_inputs (gs_window after) - folded_inputs (gs_window before)
    \<and> gs_operations after \<le> MAX_COUNT \<and> gb_status b = the_status (gs_window after)"
  using assms
  by (auto simp: graph_batch_def wgraph_batch_check_def Let_def folded_inputs_def dest: status_of_Inr split: if_splits)

section \<open>Where a transaction starts and ends\<close>

lemma begin_metered:
  assumes "wgraph_inv g p s"
  shows "metered g p (gs_ordinary s) (int (length (w_cells (gs_window s)))) (w_bytes (gs_window s))
    (begin_tx (gs_ordinary s) (gs_ordinary_bytes s), begin_hook s)"
proof -
  have st: "state_ok (graph_lim g) (graph_stateful g) (gs_ordinary s) (gs_ordinary_bytes s)"
    using assms by (simp add: wgraph_inv_def graph_cells_ok_def)
  then have d: "dict_ok (gs_ordinary s)" by (simp add: state_ok_def)
  show ?thesis
    using assms tx_ok_begin [OF st] key_total_dget [OF d] wire_total_dget [OF d]
    by (auto simp: wgraph_inv_def graph_cells_ok_def graph_counts_ok_def begin_hook_def view_begin wstate_inv_def)
qed

lemma commit_cells:
  assumes inv: "wgraph_inv g p s" and w: "wstate_inv (pl_fold p) (gh_window h)"
    and m: "metered g p (gs_ordinary s) (int (length (w_cells (gh_window h)))) (w_bytes (gh_window h)) (tx, h)"
    and c: "commit_graph input s (tx, h) = Inr (after, b)"
  shows "graph_cells_ok g p after"
    and "gs_window after = gh_window h" "gs_edges after = gh_edges h"
    and "gs_next after = gs_next s + of_bool input" "gs_operations after = gs_operations s + 1"
    and "gs_watermarks after = gs_watermarks s" "gs_drains after = gs_drains s + of_bool (\<not> input)"
    and "gs_emitted after = gs_emitted s + int (length (gh_outputs h))" "gs_operations after \<le> MAX_COUNT"
    and "gb_outputs b = gh_outputs h"
    and "graph_batch s after (gh_outputs h) = Inr b"
proof -
  obtain ordinary bytes where cm: "commit_tx (gs_ordinary s) tx = (ordinary, bytes)" by (cases "commit_tx (gs_ordinary s) tx")
  have bt: "graph_batch s after (gh_outputs h) = Inr b" and
    after: "after = \<lparr>gs_ordinary = ordinary, gs_ordinary_bytes = bytes, gs_cell_bytes = gh_bytes h, gs_window = gh_window h,
             gs_next = gs_next s + (if input then 1 else 0), gs_operations = gs_operations s + 1,
             gs_watermarks = gs_watermarks s, gs_drains = gs_drains s + (if input then 0 else 1),
             gs_emitted = gs_emitted s + int (length (gh_outputs h)), gs_edges = gh_edges h\<rparr>"
    using c unfolding commit_graph_def Let_def prod.case cm rbind_eq_Inr by auto
  have "state_ok (graph_lim g) (graph_stateful g) (gs_ordinary s) (gs_ordinary_bytes s)"
    using inv by (simp add: wgraph_inv_def graph_cells_ok_def)
  then have "dict_ok (gs_ordinary s)" by (simp add: state_ok_def)
  with m have st: "state_ok (graph_lim g) (graph_stateful g) ordinary bytes \<and> dget ordinary = previous_state (gs_ordinary s) tx"
    by (intro state_ok_commit [OF _ _ cm]) auto
  then have d: "dict_ok ordinary" by (simp add: state_ok_def)
  show "graph_cells_ok g p after"
    using st m w key_total_dget [OF d] wire_total_dget [OF d]
    by (auto simp: graph_cells_ok_def after wstate_inv_def)
  show "graph_batch s after (gh_outputs h) = Inr b" by (rule bt)
qed (use graph_batch_Inr [of s after "gh_outputs h" b] c in
  \<open>auto simp: commit_graph_def Let_def split: prod.splits dest!: graph_batch_Inr\<close>)

section \<open>Inputs\<close>

text \<open>What the processed inputs of a window leave alone.\<close>

lemma window_processed_frame:
  assumes w: "window_fold_ok w" and "wstate_inv w s" "window_steps w (map (WProcess t) rs) s = Inr s'"
  shows "w_watermark s' = w_watermark s \<and> w_finished s' = w_finished s \<and> w_emitted s' = w_emitted s
    \<and> w_processed s' = w_processed s + int (length rs)"
  using assms(2,3)
proof (induction rs arbitrary: s)
  case (Cons r rs)
  obtain s1 reply where p: "stage_process w no_window_hooks s t r () = Inr (s1, reply, ())"
    and rest: "window_steps w (map (WProcess t) rs) s1 = Inr s'"
    using Cons.prems(2) by (auto simp: window_steps_def window_stage_def)
  have "dict_ok (w_cells s)" using Cons.prems(1) by (simp add: wstate_inv_def)
  from Cons.IH [OF stage_process_inv [OF w Cons.prems(1) p] rest] window_process_frame [OF p this] show ?case by simp
qed (simp add: window_steps_def)

lemma execute_input_ok:
  assumes inv: "wgraph_inv g p s" and r: "record_ok (gi_record x)"
    and nx: "gs_next s + 1 \<le> wgl_inputs (wg_limits g)"
    and e: "execute_input g p x s = Inr (after, b)"
  shows "wgraph_inv g p after \<and> gs_next after = gs_next s + 1 \<and> gb_outputs b = []
    \<and> (\<exists>rs. window_steps (pl_fold p) (map (WProcess (gi_timestamp x)) rs) (gs_window s) = Inr (gs_window after))"
proof -
  define base where "base = gs_ordinary s"
  have c: "window_graph_check g = Inr p" using inv by (simp add: wgraph_inv_def)
  obtain h outputs tx h2 where ch: "work_charge (wgl_graph (wg_limits g)) (gi_record x) (begin_hook s) = Inr h"
    and wk: "walk_graph ((window_walk g base)
              \<lparr>wp_seeds := [(wg_entry g, [gi_record x])], wp_extension := Some (window_extension g p (gi_timestamp x))\<rparr>)
              (pl_order p) (begin_tx base (gs_ordinary_bytes s), h) = Inr (outputs, tx, h2)"
    and cm: "commit_graph True s (tx, h2\<lparr>gh_outputs := outputs\<rparr>) = Inr (after, b)"
    using e unfolding execute_input_def rbind_eq_Inr base_def by auto
  have hw: "gh_window h = gs_window s" using ch by (auto simp: work_charge_def begin_hook_def)
  have "folding g p base (gs_window s) (gi_timestamp x) (begin_tx base (gs_ordinary_bytes s), h)"
    using metered_charge [OF begin_metered [OF inv] ch] inv window_steps_simps
    by (auto simp: folding_def hw base_def wgraph_inv_def graph_cells_ok_def simp del: metered.simps intro!: exI [of _ "[]"])
  with r have F: "folding g p base (gs_window s) (gi_timestamp x) (tx, h2)" using input.walk [OF wk] by blast
  define h3 where "h3 = h2\<lparr>gh_outputs := outputs\<rparr>"
  have w: "wstate_inv (pl_fold p) (gh_window h3)"
    and m: "metered g p (gs_ordinary s) (int (length (w_cells (gh_window h3)))) (w_bytes (gh_window h3)) (tx, h3)"
    and rs: "\<exists>rs. window_steps (pl_fold p) (map (WProcess (gi_timestamp x)) rs) (gs_window s) = Inr (gh_window h3)"
    using F by (auto simp: folding_def h3_def base_def)
  note k = commit_cells [OF inv w m cm [folded h3_def]]
  have o1: "gb_outputs b = []" "gs_emitted after = gs_emitted s" using input_publishes_nothing [OF c e] by auto
  have fr: "w_watermark (gh_window h3) = w_watermark (gs_window s) \<and> w_finished (gh_window h3) = w_finished (gs_window s)
      \<and> w_emitted (gh_window h3) = w_emitted (gs_window s)"
    using rs window_processed_frame checked_fold [OF c] inv by (fastforce simp: wgraph_inv_def graph_cells_ok_def)
  have "graph_counts_ok g p after"
    using inv k o1 fr nx m by (simp add: wgraph_inv_def graph_counts_ok_def)
  then show ?thesis using c k(1,2,4) o1(1) rs by (simp add: wgraph_inv_def)
qed

section \<open>Watermarks and the end of the source\<close>

lemma graph_window_only:
  assumes inv: "wgraph_inv g p s" and w: "wstate_inv (pl_fold p) window" "w_cells window = w_cells (gs_window s)"
  shows "graph_cells_ok g p (s\<lparr>gs_window := window, gs_operations := n, gs_watermarks := m\<rparr>)"
  using assms by (simp add: wgraph_inv_def graph_cells_ok_def)

lemma graph_advance_ok:
  assumes inv: "wgraph_inv g p s" and e: "graph_advance_op t n s = Inr (after, b)"
  shows "wgraph_inv g p after \<and> gb_outputs b = []
    \<and> (after = s \<or> (\<exists>st. stage_advance (gs_window s) t = Inr (gs_window after, st)))"
proof (cases "w_watermark (gs_window s) = Some t")
  case True
  with e inv show ?thesis
    by (auto simp: graph_advance_op_def dest!: graph_batch_Inr split: if_splits)
next
  case False
  obtain operations watermarks window st where o1: "operations = gs_operations s + 1" "operations \<le> MAX_COUNT"
    and o2: "watermarks = gs_watermarks s + 1"
    and a: "stage_advance (gs_window s) t = Inr (window, st)"
    and after: "after = s\<lparr>gs_window := window, gs_operations := operations, gs_watermarks := watermarks\<rparr>"
    and b: "graph_batch s after [] = Inr b"
    using e False unfolding graph_advance_op_def Let_def rbind_eq_Inr by (auto split: if_splits)
  have w: "window = (gs_window s)\<lparr>w_watermark := Some t\<rparr>" using stage_advance_Inr [OF a] by simp
  have i: "wstate_inv (pl_fold p) window"
    using stage_advance_inv [OF _ a] inv by (simp add: wgraph_inv_def graph_cells_ok_def)
  have "graph_counts_ok g p after"
    using inv o1 o2 by (simp add: wgraph_inv_def graph_counts_ok_def after w)
  then show ?thesis
    using graph_window_only [OF inv i] graph_batch_Inr [OF b] a inv by (auto simp: after w wgraph_inv_def)
qed

lemma graph_finish_ok:
  assumes inv: "wgraph_inv g p s" and e: "graph_finish_op n s = Inr (after, b)"
  shows "wgraph_inv g p after \<and> gb_outputs b = []
    \<and> (after = s \<or> (\<exists>st. stage_finish (gs_window s) = Inr (gs_window after, st)))"
proof (cases "w_finished (gs_window s)")
  case True
  with e inv show ?thesis by (auto simp: graph_finish_op_def dest!: graph_batch_Inr)
next
  case False
  obtain operations window st where o1: "operations = gs_operations s + 1" "operations \<le> MAX_COUNT"
    and a: "stage_finish (gs_window s) = Inr (window, st)"
    and after: "after = s\<lparr>gs_window := window, gs_operations := operations\<rparr>"
    and b: "graph_batch s after [] = Inr b"
    using e False unfolding graph_finish_op_def Let_def rbind_eq_Inr by auto
  have w: "window = (gs_window s)\<lparr>w_finished := True\<rparr>" using stage_finish_Inr [OF a] by simp
  have i: "wstate_inv (pl_fold p) window"
    using stage_finish_inv [OF _ a] inv by (simp add: wgraph_inv_def graph_cells_ok_def)
  have "graph_counts_ok g p after"
    using inv o1 False by (simp add: wgraph_inv_def graph_counts_ok_def after w)
  then show ?thesis
    using graph_window_only [OF inv i, of "gs_watermarks s" operations] graph_batch_Inr [OF b] a inv
    by (auto simp: after w wgraph_inv_def)
qed

section \<open>Drains\<close>

text \<open>The terminal emissions stay countable at every row.\<close>

interpretation emission: window_meter "stage_hooks g (row_walk g p before)"
  "\<lambda>_ _ (tx, h). gs_emitted before + int (length (gh_outputs h)) \<le> MAX_COUNT" for g p before
proof
  fix c b :: int and h h' :: "flow_tx \<times> graph_hook" and row
  assume b: "case h of (tx, h) \<Rightarrow> gs_emitted before + int (length (gh_outputs h)) \<le> MAX_COUNT"
  show "case h' of (tx, h) \<Rightarrow> gs_emitted before + int (length (gh_outputs h)) \<le> MAX_COUNT"
    if "wh_row (stage_hooks g (row_walk g p before)) row h = Inr h'"
    using that by (cases h) (auto simp: stage_hooks_def row_walk_def Let_def algebra_simps)
qed (auto simp: stage_hooks_def cells_reserve_def cells_admit_def cells_check_Inr split: if_splits)

lemma execute_drain_ok:
  assumes inv: "wgraph_inv g p s" and n: "n \<le> pl_cap p" and e: "execute_drain g p n s = Inr (after, b)"
  shows "wgraph_inv g p after \<and> gb_drained b = n \<and> 1 \<le> n
    \<and> (\<exists>batch. stage_drain (pl_fold p) no_window_hooks (gs_window s) n () = Inr (gs_window after, batch, ()))"
proof -
  define base where "base = gs_ordinary s"
  define h0 where "h0 = (begin_hook s)\<lparr>gh_reserved_records := n * (1 + int (length (edges_from (wg_edges g) (pl_window p)))),
      gh_reserved_work := n * (1 + int (length (edges_from (wg_edges g) (pl_window p)))) * wl_row_bytes (wf_limits (pl_fold p))\<rparr>"
  have c: "window_graph_check g = Inr p" and wi: "wstate_inv (pl_fold p) (gs_window s)" and cnt: "graph_counts_ok g p s"
    using inv by (simp_all add: wgraph_inv_def graph_cells_ok_def)
  have d: "dict_ok (w_cells (gs_window s))" using wi by (simp add: wstate_inv_def)
  obtain window batch tx h where
    dr: "stage_drain (pl_fold p) (stage_hooks g (row_walk g p s)) (gs_window s) n (begin_tx base (gs_ordinary_bytes s), h0)
         = Inr (window, batch, tx, h)"
    and len: "int (length (wb_rows batch)) = n"
    and cm: "commit_graph False s (tx, h\<lparr>gh_window := window\<rparr>) = Inr (after, b)"
    using e unfolding execute_drain_def Let_def rbind_eq_Inr h0_def base_def by (auto split: if_splits)
  define h1 where "h1 = h\<lparr>gh_window := window\<rparr>"
  have "metered g p base (int (length (w_cells (gs_window s)))) (w_bytes (gs_window s)) (begin_tx base (gs_ordinary_bytes s), h0)"
    using begin_metered [OF inv] by (simp add: h0_def base_def)
  from drain.stage_drain [OF dr [unfolded base_def] d this [unfolded base_def]]
  have "metered g p base (int (length (w_cells window))) (w_bytes window) (tx, h)"
    by (simp add: base_def del: metered.simps)
  then have m: "metered g p (gs_ordinary s) (int (length (w_cells (gh_window h1)))) (w_bytes (gh_window h1)) (tx, h1)"
    by (simp add: h1_def base_def)
  have w: "wstate_inv (pl_fold p) (gh_window h1)"
    using stage_drain_inv [OF _ wi dr] checked_fold [OF c] by (simp add: h1_def)
  have out: "gs_emitted s + int (length (gh_outputs h)) \<le> MAX_COUNT"
    using emission.stage_drain [OF dr d] cnt by (simp add: h0_def begin_hook_def graph_counts_ok_def)
  note k = commit_cells [OF inv w m cm [folded h1_def]]
  define sel where "sel = drain_selection (pl_fold p) (gs_window s) n"
  have ds: "window = drained_state (gs_window s) sel" and rows: "length sel = length (wb_rows batch)" and n1: "1 \<le> n"
    using window_drain_Inr [OF dr] by (auto simp: sel_def dest: list_all2_lengthD)
  have em: "w_emitted window = w_emitted (gs_window s) + n" "w_watermark window = w_watermark (gs_window s)"
    "w_finished window = w_finished (gs_window s)"
    using rows len by (simp_all add: ds drained_state_def)
  have "graph_counts_ok g p after"
    using cnt k em n n1 out m by (simp add: graph_counts_ok_def h1_def algebra_simps)
  moreover have "gb_drained b = n" using graph_batch_Inr [OF k(11)] k(2) em(1) by (simp add: h1_def)
  moreover have "stage_drain (pl_fold p) no_window_hooks (gs_window s) n () = Inr (gs_window after, batch, ())"
    using stage_drain_erase [OF dr] k(2) by (simp add: h1_def)
  ultimately show ?thesis using c k(1) n1 by (auto simp: wgraph_inv_def)
qed

lemma graph_drain_ok:
  assumes inv: "wgraph_inv g p s" and e: "graph_drain_op g p m s = Inr (after, b)"
  shows "wgraph_inv g p after
    \<and> (after = s \<or> (\<exists>n batch. stage_drain (pl_fold p) no_window_hooks (gs_window s) n () = Inr (gs_window after, batch, ())))"
proof -
  have "after = s \<or> (\<exists>n\<le>pl_cap p. execute_drain g p n s = Inr (after, b))"
  proof (cases "status_of (gs_window s)")
    case (Inr st)
    have "min m (min (ws_pending st) (pl_cap p)) \<le> pl_cap p" by simp
    with e Inr show ?thesis by (fastforce simp: graph_drain_op_def split: if_splits)
  qed (use e in \<open>simp add: graph_drain_op_def\<close>)
  then show ?thesis using execute_drain_ok [OF inv] inv by blast
qed

section \<open>Every operation\<close>

text \<open>The window operations of a graph operation.\<close>

lemma wgraph_stage_ok:
  assumes inv: "wgraph_inv g p s" and op: "wgraph_op_ok op" and e: "wgraph_stage g p op s = Inr (after, b)"
  shows "wgraph_inv g p after \<and> (\<exists>ops. window_steps (pl_fold p) ops (gs_window s) = Inr (gs_window after))"
proof (cases op)
  case (GInput x)
  have "graph_input_op g p x s = Inr (after, b)" using e GInput by simp
  then have "gs_next s + 1 \<le> wgl_inputs (wg_limits g)" "execute_input g p x s = Inr (after, b)"
    unfolding graph_input_op_def rbind_eq_Inr by (auto split: if_splits)
  from execute_input_ok [OF inv _ this] op GInput show ?thesis by (auto simp: wgraph_op_ok_def)
next
  case (GAdvance t n)
  have "window_steps (pl_fold p) [WAdvance t] (gs_window s) = Inr w" if "stage_advance (gs_window s) t = Inr (w, st)" for w st
    using that by (simp add: window_steps_def window_stage_def)
  with graph_advance_ok [OF inv, of t n] e GAdvance show ?thesis by (metis wgraph_stage.simps(2) window_steps_simps)
next
  case (GFinish n)
  have "window_steps (pl_fold p) [WFinish] (gs_window s) = Inr w" if "stage_finish (gs_window s) = Inr (w, st)" for w st
    using that by (simp add: window_steps_def window_stage_def)
  with graph_finish_ok [OF inv, of n] e GFinish show ?thesis by (metis wgraph_stage.simps(3) window_steps_simps)
next
  case (GDrain m)
  have "window_steps (pl_fold p) [WDrain n] (gs_window s) = Inr w"
    if "stage_drain (pl_fold p) no_window_hooks (gs_window s) n () = Inr (w, batch, ())" for n w batch
    using that by (simp add: window_steps_def window_stage_def)
  with graph_drain_ok [OF inv, of m] e GDrain show ?thesis by (metis wgraph_stage.simps(4) window_steps_simps)
qed

lemma wgraph_apply_Inl: "wgraph_apply op rt = (Inl e, rt') \<Longrightarrow> rt' = rt"
  by (cases rt) (auto simp: wgraph_apply_def Let_def split: sum.splits if_splits)

lemma wgraph_apply_Inr:
  "wgraph_apply op rt = (Inr b, rt') \<Longrightarrow>
     \<not> gw_busy rt \<and> wgraph_stage (gw_flow rt) (gw_plan rt) op (gw_state rt) = Inr (gw_state rt', b)
     \<and> rt' = rt\<lparr>gw_state := gw_state rt'\<rparr>"
  by (cases rt) (auto simp: wgraph_apply_def Let_def split: sum.splits if_splits)

interpretation wgraph: atomic_runtime wgraph_apply wgraph_rt_inv wgraph_op_ok
proof unfold_locales
  show "s' = s" if "wgraph_apply p s = (Inl e, s')" for p s e s'
    using that by (rule wgraph_apply_Inl)
  show "wgraph_rt_inv s'" if "wgraph_rt_inv s" "wgraph_op_ok p" "wgraph_apply p s = (Inr b, s')" for p s b s'
  proof -
    note a = wgraph_apply_Inr [OF that(3)]
    have "wgraph_inv (gw_flow s) (gw_plan s) (gw_state s')"
      using wgraph_stage_ok [OF _ that(2)] that(1) a by (auto simp: wgraph_rt_inv_def)
    moreover have "gw_flow s' = gw_flow s" "gw_plan s' = gw_plan s" "gw_busy s' = gw_busy s"
      using a by (metis wgraph_runtime.select_convs wgraph_runtime.surjective wgraph_runtime.update_convs)+
    ultimately show ?thesis using that(1) by (simp add: wgraph_rt_inv_def)
  qed
qed

text \<open>The window of a run of the graph is the state of a run of the window alone.\<close>

lemma wgraph_run_window:
  "wgraph_rt_inv rt \<Longrightarrow> list_all wgraph_op_ok ops \<Longrightarrow>
   \<exists>ws. window_steps (pl_fold (gw_plan rt)) ws (gs_window (gw_state rt)) = Inr (gs_window (gw_state (snd (run_ops wgraph_apply ops rt))))"
proof (induction ops arbitrary: rt)
  case Nil
  show ?case by (intro exI [of _ "[]"]) simp
next
  case (Cons op ops)
  obtain res rt1 where a: "wgraph_apply op rt = (res, rt1)" by (cases "wgraph_apply op rt")
  have op: "wgraph_op_ok op" and ops: "list_all wgraph_op_ok ops" using Cons.prems(2) by simp_all
  have one: "\<exists>ws. window_steps (pl_fold (gw_plan rt)) ws (gs_window (gw_state rt)) = Inr (gs_window (gw_state rt1)) \<and> gw_plan rt1 = gw_plan rt"
  proof (cases res)
    case (Inl e)
    then have "rt1 = rt" using wgraph_apply_Inl a by blast
    then show ?thesis by (intro exI [of _ "[]"]) simp
  next
    case (Inr b)
    note k = wgraph_apply_Inr [OF a [unfolded Inr]]
    have "\<exists>ws. window_steps (pl_fold (gw_plan rt)) ws (gs_window (gw_state rt)) = Inr (gs_window (gw_state rt1))"
      using wgraph_stage_ok [OF _ op] Cons.prems(1) k by (auto simp: wgraph_rt_inv_def)
    moreover have "gw_plan rt1 = gw_plan rt" using k by (metis wgraph_runtime.select_convs(2) wgraph_runtime.surjective wgraph_runtime.update_convs(3))
    ultimately show ?thesis by blast
  qed
  have "wgraph_rt_inv rt1" using wgraph.step_inv [OF Cons.prems(1) op] a by simp
  then obtain ws' where "window_steps (pl_fold (gw_plan rt1)) ws' (gs_window (gw_state rt1))
      = Inr (gs_window (gw_state (snd (run_ops wgraph_apply ops rt1))))" using Cons.IH ops by blast
  moreover obtain ws where "window_steps (pl_fold (gw_plan rt)) ws (gs_window (gw_state rt)) = Inr (gs_window (gw_state rt1))"
    and "gw_plan rt1 = gw_plan rt" using one by blast
  ultimately have "window_steps (pl_fold (gw_plan rt)) (ws @ ws') (gs_window (gw_state rt))
      = Inr (gs_window (gw_state (snd (run_ops wgraph_apply (op # ops) rt))))"
    by (simp add: window_steps_append run_ops_Cons a)
  then show ?case by blast
qed

end
