(* ===== verification/Walk_Arrivals.thy ===== *)
theory Walk_Arrivals
  imports Branching_Laws
begin

text \<open>
  What one node of the shared walk receives. The walk is cut at a node: the nodes before it fill
  its mailboxes, it runs once on what they hold, and the nodes behind it no longer reach it. A
  part of the caller's hook that only this node writes is read and written by that one run, and
  the delivery counters of its incoming edges grow by the records it was handed.
\<close>

section \<open>The mail of a node\<close>

definition walk_start :: "flow_tx \<times> 'h \<Rightarrow> ('e, 'h) walk_state" where
  "walk_start s = \<lparr>ws_mail = [], ws_published = [], ws_tx = fst s, ws_hook = snd s\<rparr>"

definition arrivals :: "('x, 'e, 'h) walk_params \<Rightarrow> pystr list \<Rightarrow> pystr \<Rightarrow> flow_tx \<times> 'h
    \<Rightarrow> ('e flow_edge_scheme \<times> flow_record list) list" where
  "arrivals w order k s =
     (case fold_res (walk_node w) (takeWhile (\<lambda>n. n \<noteq> k) order) (walk_start s) of
        Inl _ \<Rightarrow> []
      | Inr z \<Rightarrow> take_mail (wp_incoming w k) (ws_mail z))"

definition letters :: "('e flow_edge_scheme, flow_record list) dict \<Rightarrow> 'e flow_edge_scheme \<Rightarrow> flow_record list" where
  "letters mail e = (case dget mail e of None \<Rightarrow> [] | Some rs \<Rightarrow> rs)"

lemma take_mail_letters: "take_mail es mail = map (\<lambda>e. (e, letters mail e)) es"
  by (simp add: take_mail_def letters_def)

lemma letters_cong: "dget mail e = dget mail' e \<Longrightarrow> letters mail e = letters mail' e"
  by (simp add: letters_def)

lemma arrivals_edges: "(e, rs) \<in> set (arrivals w order k s) \<Longrightarrow> e \<in> set (wp_incoming w k)"
  by (auto simp: arrivals_def take_mail_letters split: sum.splits)

section \<open>A watched node\<close>

locale watched_walk =
  fixes w :: "('x, 'e, 'h) walk_params" and es :: "'e flow_edge_scheme list" and k :: pystr
    and fine :: "'h \<Rightarrow> bool" and see :: "'h \<Rightarrow> 'a" and tally :: "'h \<Rightarrow> 'e flow_edge_scheme \<Rightarrow> int"
  assumes incoming: "wp_incoming w = edges_into es" and outgoing: "wp_outgoing w = edges_from es"
    and edges: "fine h \<Longrightarrow> distinct es"
    and emits: "fine h \<Longrightarrow> charge w r h = Inr h' \<Longrightarrow> fine h' \<and> see h' = see h \<and> tally h' = tally h"
    and proposes: "fine h \<Longrightarrow> on_propose (wp_hooks w) c previous x h = Inr h'
      \<Longrightarrow> fine h' \<and> see h' = see h \<and> tally h' = tally h"
    and delivers: "fine h \<Longrightarrow> e \<in> set es \<Longrightarrow> wp_delivered w e n h = Inr h'
      \<Longrightarrow> fine h' \<and> see h' = see h \<and> tally h' = (tally h)(e := tally h e + int n)"
    and extends: "wp_extension w = Some ext \<Longrightarrow> fine h \<Longrightarrow> ext i batches (tx, h) = Inr (out, tx', h')
      \<Longrightarrow> fine h' \<and> tally h' = tally h \<and> (i \<noteq> k \<longrightarrow> see h' = see h)"
begin

definition still :: "'h \<Rightarrow> 'h \<Rightarrow> bool" where
  "still h h' \<longleftrightarrow> fine h' \<and> see h' = see h \<and> tally h' = tally h"

lemma still_refl: "fine h \<Longrightarrow> still h h"
  by (simp add: still_def)

lemma still_trans: "still a b \<Longrightarrow> still b c \<Longrightarrow> still a c"
  by (simp add: still_def)

lemma still_emit: "still h a \<Longrightarrow> charge w r a = Inr b \<Longrightarrow> still h b"
  using emits [of a r b] by (simp add: still_def)

lemma still_emits: "fold_res (charge w) rs a = Inr b \<Longrightarrow> still h a \<Longrightarrow> still h b"
  by (induction rs arbitrary: a) (auto intro: still_emit)

lemma still_branch:
  "fold_res (branch_item w f) items ((yes, no), tx, a) = Inr ((yes', no'), tx', b) \<Longrightarrow> still h a \<Longrightarrow> still h b"
proof (induction items arbitrary: yes no tx a)
  case (Cons item items)
  then obtain z where z: "branch_item w f item ((yes, no), tx, a) = Inr z"
      "fold_res (branch_item w f) items z = Inr ((yes', no'), tx', b)" by auto
  obtain v c tx1 h1 where r: "charge w item a = Inr h1"
      "z = (if c then (yes @ [item], no) else (yes, no @ [item]), tx1, h1)"
    using branch_item_effect [OF z(1)] by blast
  then show ?case
    using Cons.IH [of "if c then yes @ [item] else yes" "if c then no else no @ [item]" tx1 h1] z(2)
      still_emit [OF Cons.prems(2) r(1)] by (cases c) simp_all
qed simp

lemma still_step:
  assumes a: "apply_step (wp_limits w) (wp_hooks w) (wp_base w) step current (tx, h) = Inr (out, tx', h')"
    and f: "fine h"
  shows "still h h'"
proof -
  define P where "P = (\<lambda>s :: 'h apply_state. still h (as_hook s))"
  have "P (apply_start tx h)" using f by (simp add: P_def apply_start_def still_refl)
  moreover have "stable_call (wp_limits w) P"
    by (auto simp: stable_call_def P_def lift_invoke_def)
  moreover have "stable_emit (wp_limits w) (wp_hooks w) P"
    unfolding stable_emit_def P_def by (auto dest!: emit_effect intro: still_emit)
  moreover have "stable_propose (wp_limits w) (wp_hooks w) (wp_base w) (step_keys step current) P"
    using proposes by (fastforce simp: stable_propose_def P_def lift_propose_def still_def dest!: propose_effect)
  ultimately obtain s where "P s" "h' = as_hook s"
    using apply_step_invariant [OF a, of P] by blast
  then show ?thesis by (simp add: P_def)
qed

lemma node_seen:
  assumes r: "run_node w i batches (tx, h) = Inr (routed, tx', h')" and f: "fine h"
  shows "fine h' \<and> tally h' = tally h \<and> (i \<noteq> k \<longrightarrow> see h' = see h)"
proof -
  have same: ?thesis if "still h h'" using that by (simp add: still_def)
  note start = still_refl [OF f]
  show ?thesis
  proof (cases "dget (wp_seed_outputs w) i")
    case (Some batch)
    with r show ?thesis by (intro same still_emits [OF _ start]) (auto simp: run_node_def)
  next
    case None
    show ?thesis
    proof (cases "wp_nodes w i")
      case (GStep step)
      with r None show ?thesis by (intro same) (auto simp: run_node_def intro: still_step [OF _ f])
    next
      case (GBranch j p)
      with r None show ?thesis by (intro same) (auto simp: run_node_def intro: still_branch [OF _ start])
    next
      case (GMerge j)
      with r None show ?thesis by (intro same still_emits [OF _ start]) (auto simp: run_node_def)
    next
      case (GOther j x)
      with r None show ?thesis using extends f by (auto simp: run_node_def split: option.splits)
    qed
  qed
qed

lemma deliveries_seen:
  assumes "fold_res (deliver w routed) ds (mail, h) = Inr (mail', h')" "fine h" "distinct ds" "set ds \<subseteq> set es"
  shows "fine h' \<and> see h' = see h \<and> (\<forall>e. tally h' e = tally h e + (if e \<in> set ds then int (length (letters mail' e)) else 0))
    \<and> (\<forall>e. e \<notin> set ds \<longrightarrow> dget mail' e = dget mail e)"
  using assms
proof (induction ds arbitrary: mail h)
  case (Cons d ds)
  obtain m1 h1 where one: "deliver w routed d (mail, h) = Inr (m1, h1)"
    and rest: "fold_res (deliver w routed) ds (m1, h1) = Inr (mail', h')"
    using Cons.prems(1) by (cases "deliver w routed d (mail, h)") auto
  obtain batch h0 where b: "m1 = dput d batch mail" "wp_delivered w d (length batch) h = Inr h0"
      "fold_res (charge w) batch h0 = Inr h1"
    using deliver_effect [OF one] by blast
  have h0: "fine h0" "see h0 = see h" "tally h0 = (tally h)(d := tally h d + int (length batch))"
    using delivers [OF Cons.prems(2) _ b(2)] Cons.prems(4) by simp_all
  have h1: "fine h1" "see h1 = see h0" "tally h1 = tally h0"
    using still_emits [OF b(3) still_refl [OF h0(1)]] by (simp_all add: still_def)
  note IH = Cons.IH [OF rest h1(1)]
  have d: "d \<notin> set ds" "distinct ds" "set ds \<subseteq> set es" using Cons.prems(3,4) by auto
  then have "dget mail' d = Some batch" using IH b(1) by simp
  then have "letters mail' d = batch" by (simp add: letters_def)
  with IH d h0 h1 b(1) show ?case by simp
qed simp

lemma turn_seen:
  assumes n: "walk_node w i s = Inr s'" and f: "fine (ws_hook s)"
  shows "fine (ws_hook s') \<and> (i \<noteq> k \<longrightarrow> see (ws_hook s') = see (ws_hook s))
    \<and> (\<forall>e\<in>set es. tally (ws_hook s') e = tally (ws_hook s) e
         + (if edge_source e = i then int (length (letters (ws_mail s') e)) else 0))
    \<and> (\<forall>e\<in>set es. edge_source e \<noteq> i \<longrightarrow> edge_target e \<noteq> i \<longrightarrow> letters (ws_mail s') e = letters (ws_mail s) e)"
proof -
  obtain routed tx h mail h' where
    r: "run_node w i (take_mail (wp_incoming w i) (ws_mail s)) (ws_tx s, ws_hook s) = Inr (routed, tx, h)"
    and d: "fold_res (deliver w routed) (wp_outgoing w i) (fold ddel (wp_incoming w i) (ws_mail s), h) = Inr (mail, h')"
    and s': "ws_mail s' = mail" "ws_hook s' = h'"
    using walk_node_effect [OF n] by blast
  note a = node_seen [OF r f]
  have o1: "distinct (wp_outgoing w i)" "set (wp_outgoing w i) = {e \<in> set es. edge_source e = i}"
    using edges [OF f] by (auto simp: outgoing edges_from_def)
  have "fine h' \<and> see h' = see h \<and> (\<forall>e. tally h' e = tally h e + (if e \<in> set (wp_outgoing w i) then int (length (letters mail e)) else 0))
    \<and> (\<forall>e. e \<notin> set (wp_outgoing w i) \<longrightarrow> dget mail e = dget (fold ddel (wp_incoming w i) (ws_mail s)) e)"
    by (rule deliveries_seen [OF d]) (use a o1 in auto)
  then show ?thesis
    using a s' o1(2) by (auto simp: incoming edges_into_def dget_fold_ddel letters_def)
qed

lemma turns_seen:
  assumes "fold_res (walk_node w) ns s = Inr s'" "k \<notin> set ns" "fine (ws_hook s)"
  shows "fine (ws_hook s') \<and> see (ws_hook s') = see (ws_hook s)"
  using assms
proof (induction ns arbitrary: s)
  case (Cons n ns)
  then obtain s1 where one: "walk_node w n s = Inr s1" and rest: "fold_res (walk_node w) ns s1 = Inr s'" by auto
  from turn_seen [OF one] Cons.IH [OF rest] Cons.prems(2,3) show ?case by auto
qed simp

lemma turns_idle:
  assumes "fold_res (walk_node w) ns s = Inr s'" "fine (ws_hook s)" "e \<in> set es" "edge_source e \<notin> set ns"
  shows "tally (ws_hook s') e = tally (ws_hook s) e \<and> (edge_target e \<notin> set ns \<longrightarrow> letters (ws_mail s') e = letters (ws_mail s) e)"
  using assms
proof (induction ns arbitrary: s)
  case (Cons n ns)
  then obtain s1 where one: "walk_node w n s = Inr s1" and rest: "fold_res (walk_node w) ns s1 = Inr s'" by auto
  from turn_seen [OF one Cons.prems(2)] Cons.IH [OF rest] Cons.prems(3,4) show ?case by auto
qed simp

lemma turns_deliver:
  assumes f: "fold_res (walk_node w) ns s = Inr s'" and h: "fine (ws_hook s)"
    and e: "e \<in> set es" "edge_source e \<in> set ns" "edge_target e \<notin> set ns" and d: "distinct ns"
  shows "tally (ws_hook s') e = tally (ws_hook s) e + int (length (letters (ws_mail s') e))"
proof -
  obtain pre post where ns: "ns = pre @ edge_source e # post" using e(2) by (meson split_list)
  obtain s1 s2 where s1: "fold_res (walk_node w) pre s = Inr s1" and s2: "walk_node w (edge_source e) s1 = Inr s2"
    and s3: "fold_res (walk_node w) post s2 = Inr s'"
    using f unfolding ns by (auto simp: fold_res_append)
  have out: "edge_source e \<notin> set pre" "edge_source e \<notin> set post" "edge_target e \<notin> set pre" "edge_target e \<notin> set post"
    using d e(3) unfolding ns by auto
  have k1: "fine (ws_hook s1)"
    using s1 h by (rule fold_res_invariant [where P = "\<lambda>s. fine (ws_hook s)"]) (use turn_seen in blast)
  have a: "tally (ws_hook s1) e = tally (ws_hook s) e" using turns_idle [OF s1 h e(1) out(1)] by simp
  have b: "fine (ws_hook s2)" "tally (ws_hook s2) e = tally (ws_hook s1) e + int (length (letters (ws_mail s2) e))"
    using turn_seen [OF s2 k1] e(1) by auto
  have "tally (ws_hook s') e = tally (ws_hook s2) e" "letters (ws_mail s') e = letters (ws_mail s2) e"
    using turns_idle [OF s3 b(1) e(1) out(2)] out(4) by simp_all
  with a b show ?thesis by simp
qed

lemma walk_seen:
  assumes wk: "walk_graph w order (tx, h) = Inr (out, tx', h')" and h: "fine h"
    and order: "sources_first (edges_into es) order" "distinct order" "k \<in> set order"
  shows "\<exists>tx1 h1 routed tx2 h2. run_node w k (arrivals w order k (tx, h)) (tx1, h1) = Inr (routed, tx2, h2)
    \<and> fine h1 \<and> see h1 = see h \<and> see h' = see h2
    \<and> map fst (arrivals w order k (tx, h)) = edges_into es k
    \<and> (\<forall>(e, rs)\<in>set (arrivals w order k (tx, h)). tally h' e = tally h e + int (length rs))"
proof -
  define s :: "('e, 'h) walk_state" where "s = walk_start (tx, h)"
  have s: "ws_hook s = h" "ws_mail s = []" by (simp_all add: s_def walk_start_def)
  obtain pre post where cut: "order = pre @ k # post" "k \<notin> set pre"
    using split_list_first [OF order(3)] by blast
  have post: "k \<notin> set post" using order(2) cut by simp
  have tw: "takeWhile (\<lambda>n. n \<noteq> k) order = pre" using cut by (subst cut(1), subst takeWhile_append2) auto
  obtain z where "fold_res (walk_node w) order s = Inr z" and z: "h' = ws_hook z"
    using wk by (auto simp: walk_graph_def s_def walk_start_def)
  then obtain s1 s2 where s1: "fold_res (walk_node w) pre s = Inr s1" and s2: "walk_node w k s1 = Inr s2"
    and s3: "fold_res (walk_node w) post s2 = Inr z"
    unfolding cut by (auto simp: fold_res_append)
  have arr: "arrivals w order k (tx, h) = take_mail (wp_incoming w k) (ws_mail s1)"
    using s1 by (simp add: arrivals_def tw s_def)
  obtain routed tx2 h2 mail h3 where
    r: "run_node w k (take_mail (wp_incoming w k) (ws_mail s1)) (ws_tx s1, ws_hook s1) = Inr (routed, tx2, h2)"
    and d: "fold_res (deliver w routed) (wp_outgoing w k) (fold ddel (wp_incoming w k) (ws_mail s1), h2) = Inr (mail, h3)"
    and e: "ws_hook s2 = h3"
    using walk_node_effect [OF s2] by blast
  have f1: "fine (ws_hook s1)" "see (ws_hook s1) = see h" using turns_seen [OF s1 cut(2)] h s by simp_all
  have f2: "fine h2" using node_seen [OF r f1(1)] by simp
  have f3: "fine h3" "see h3 = see h2"
    using deliveries_seen [OF d f2] edges [OF f2] by (auto simp: outgoing edges_from_def)
  have f4: "see h' = see h2" using turns_seen [OF s3 post] f3 z e by simp
  have "tally h' x = tally h x + int (length rs)" if "(x, rs) \<in> set (arrivals w order k (tx, h))" for x rs
  proof -
    have x: "x \<in> set es" "edge_target x = k" "rs = letters (ws_mail s1) x"
      using that by (auto simp: arr take_mail_letters incoming edges_into_def)
    have "edge_source x \<in> set pre"
      using order(1) x(1,2) cut(1) unfolding sources_first_def by (auto simp: edges_into_def)
    moreover from this have "edge_source x \<notin> set (k # post)" using order(2) cut by auto
    ultimately have "tally (ws_hook s1) x = tally h x + int (length rs)" "tally h' x = tally (ws_hook s1) x"
      using turns_deliver [OF s1 _ x(1)] turns_idle [of "k # post" s1 z x] s2 s3 f1(1) x cut order(2) h s z by simp_all
    then show ?thesis by simp
  qed
  then show ?thesis
    using r f1 f4 by (intro exI [of _ "ws_tx s1"] exI [of _ "ws_hook s1"] exI [of _ routed] exI [of _ tx2] exI [of _ h2])
      (auto simp: arr take_mail_letters incoming comp_def)
qed

end

end
