(* ===== verification/Window_Calls.thy ===== *)
theory Window_Calls
  imports Window_Graph_Runtime Walk_Arrivals
begin

text \<open>
  The calls a window graph makes on its window, operation by operation: the records that the
  walk of an input hands to the window node, the watermark, the end, or one bounded drain.
\<close>

section \<open>The calls\<close>

definition input_walk :: "window_graph \<Rightarrow> graph_plan \<Rightarrow> wgraph_input \<Rightarrow> wgraph_state
    \<Rightarrow> (window_fold, unit, graph_hook) walk_params" where
  "input_walk g p x s = (window_walk g (gs_ordinary s))
     \<lparr>wp_seeds := [(wg_entry g, [gi_record x])], wp_extension := Some (window_extension g p (gi_timestamp x))\<rparr>"

definition input_arrivals :: "window_graph \<Rightarrow> graph_plan \<Rightarrow> wgraph_input \<Rightarrow> wgraph_state
    \<Rightarrow> (flow_edge \<times> flow_record list) list" where
  "input_arrivals g p x s =
     (case work_charge (wgl_graph (wg_limits g)) (gi_record x) (begin_hook s) of
        Inl _ \<Rightarrow> []
      | Inr h \<Rightarrow> arrivals (input_walk g p x s) (pl_order p) (pl_window p)
                  (begin_tx (gs_ordinary s) (gs_ordinary_bytes s), h))"

fun window_calls :: "window_graph \<Rightarrow> graph_plan \<Rightarrow> wgraph_op \<Rightarrow> wgraph_state \<Rightarrow> window_op list" where
  "window_calls g p (GInput x) s = map (WProcess (gi_timestamp x)) (concat (map snd (input_arrivals g p x s)))"
| "window_calls g p (GAdvance t _) s = [WAdvance t]"
| "window_calls g p (GFinish _) s = [WFinish]"
| "window_calls g p (GDrain n) s =
     (if pending_cells (gs_window s) = [] then []
      else [WDrain (min n (min (int (length (pending_cells (gs_window s)))) (pl_cap p)))])"

section \<open>The window node of an input\<close>

definition edge_tally :: "window_graph \<Rightarrow> graph_hook \<Rightarrow> flow_edge \<Rightarrow> int" where
  "edge_tally g h e = gh_edges h ! edge_index e (wg_edges g)"

definition window_fine :: "window_graph \<Rightarrow> graph_plan \<Rightarrow> graph_hook \<Rightarrow> bool" where
  "window_fine g p h \<longleftrightarrow> distinct (wg_edges g) \<and> length (gh_edges h) = length (wg_edges g)
     \<and> window_fold_ok (pl_fold p) \<and> wstate_inv (pl_fold p) (gh_window h)"

lemma edge_index_at: "e \<in> set es \<Longrightarrow> edge_index e es < length es \<and> es ! edge_index e es = e"
  by (induction es) (auto simp: edge_index_def)

lemma edge_index_other: "e \<in> set es \<Longrightarrow> x \<noteq> e \<Longrightarrow> edge_index x es \<noteq> edge_index e es"
proof (induction es)
  case (Cons d es)
  then show ?case by (cases "d = e"; cases "d = x") (auto simp: edge_index_def)
qed simp

lemma edges_hook: "window_meter (stage_hooks g (\<lambda>_. Inr)) (\<lambda>c b s. gh_edges (snd s) = E)"
  by unfold_locales
    (auto simp: stage_hooks_def cells_reserve_def cells_admit_def cells_check_Inr split: if_splits)

lemma fold_record_step:
  assumes r: "fold_record g (pl_fold p) t r (tx, h) = Inr (tx', h')" and f: "window_fine g p h"
  shows "window_steps (pl_fold p) [WProcess t r] (gh_window h) = Inr (gh_window h')
    \<and> window_fine g p h' \<and> gh_edges h' = gh_edges h"
proof -
  obtain window reply h2 where
    pr: "stage_process (pl_fold p) (stage_hooks g (\<lambda>_. Inr)) (gh_window h) t r (tx, h) = Inr (window, reply, tx', h2)"
    and h': "h' = h2\<lparr>gh_window := window\<rparr>"
    using r by (auto simp: fold_record_def)
  have i: "window_fold_ok (pl_fold p)" "wstate_inv (pl_fold p) (gh_window h)" using f by (simp_all add: window_fine_def)
  then have d: "dict_ok (w_cells (gh_window h))" by (simp add: wstate_inv_def)
  have "gh_edges h2 = gh_edges h"
    using window_meter.stage_process [OF edges_hook pr d, of "gh_edges h"] by simp
  moreover have "window_steps (pl_fold p) [WProcess t r] (gh_window h) = Inr window"
    using stage_process_erase [OF pr] by (intro window_steps_one [where reply = "RProcessed reply"]) (simp add: window_stage_def)
  ultimately show ?thesis
    using stage_process_inv [OF i pr] f by (simp add: h' window_fine_def)
qed

lemma fold_records_step:
  "fold_res (fold_record g (pl_fold p) t) rs (tx, h) = Inr (tx', h') \<Longrightarrow> window_fine g p h \<Longrightarrow>
   window_steps (pl_fold p) (map (WProcess t) rs) (gh_window h) = Inr (gh_window h')
   \<and> window_fine g p h' \<and> gh_edges h' = gh_edges h"
proof (induction rs arbitrary: tx h)
  case (Cons r rs)
  then obtain tx1 h1 where one: "fold_record g (pl_fold p) t r (tx, h) = Inr (tx1, h1)"
    and rest: "fold_res (fold_record g (pl_fold p) t) rs (tx1, h1) = Inr (tx', h')"
    by (cases "fold_record g (pl_fold p) t r (tx, h)") auto
  from fold_record_step [OF one Cons.prems(2)] Cons.IH [OF rest]
    window_steps_append [of "pl_fold p" "[WProcess t r]" "map (WProcess t) rs"] show ?case by simp
qed simp

interpretation watched_input: watched_walk "input_walk g p x s" "wg_edges g" "pl_window p" "window_fine g p" gh_window "edge_tally g"
  for g p x s
proof
  fix h h' assume f: "window_fine g p h"
  show "distinct (wg_edges g)" using f by (simp add: window_fine_def)
  show "window_fine g p h' \<and> gh_window h' = gh_window h \<and> edge_tally g h' = edge_tally g h"
    if "charge (input_walk g p x s) r h = Inr h'" for r
    using that f by (auto simp: input_walk_def window_walk_def work_charge_def window_fine_def edge_tally_def fun_eq_iff split: if_splits)
  show "window_fine g p h' \<and> gh_window h' = gh_window h \<and> edge_tally g h' = edge_tally g h"
    if "on_propose (wp_hooks (input_walk g p x s)) c previous v h = Inr h'" for c previous v
    using that f
    by (auto simp: input_walk_def window_walk_def cells_ordinary_def cells_check_Inr window_fine_def edge_tally_def fun_eq_iff)
  show "window_fine g p h' \<and> gh_window h' = gh_window h \<and> edge_tally g h' = (edge_tally g h)(e := edge_tally g h e + int n)"
    if "e \<in> set (wg_edges g)" "wp_delivered (input_walk g p x s) e n h = Inr h'" for e n
    using that f edge_index_at [OF that(1)] edge_index_other [OF that(1), symmetric]
    by (auto simp: input_walk_def window_walk_def count_delivery_def Let_def window_fine_def edge_tally_def fun_eq_iff)
  show "window_fine g p h' \<and> edge_tally g h' = edge_tally g h \<and> (i \<noteq> pl_window p \<longrightarrow> gh_window h' = gh_window h)"
    if "wp_extension (input_walk g p x s) = Some ext" "ext i batches (tx, h) = Inr (out, tx', h')" for ext i batches tx out tx'
  proof -
    have "ext = window_extension g p (gi_timestamp x)" using that(1) by (simp add: input_walk_def)
    with that(2) fold_records_step [OF _ f] show ?thesis
      by (auto simp: window_extension_def edge_tally_def fun_eq_iff split: if_splits)
  qed
qed (simp_all add: input_walk_def window_walk_def)

lemma checked_order:
  assumes c: "window_graph_check g = Inr p"
  shows "sources_first (edges_into (wg_edges g)) (pl_order p)" "distinct (pl_order p)" "pl_window p \<in> set (pl_order p)"
    and "distinct (wg_edges g)"
proof -
  note w = window_graph_check_Inr [OF c]
  show o1: "sources_first (edges_into (wg_edges g)) (pl_order p)" "distinct (pl_order p)"
    using topological_order_Inr [OF graph_check_Inr(4) [OF w(5)]] by (auto simp: plain_graph_def comp_def)
  have "set (pl_order p) = node_id ` set (wg_nodes g)"
    using topological_order_Inr [OF graph_check_Inr(4) [OF w(5)]] by (auto simp: plain_graph_def comp_def)
  then show "pl_window p \<in> set (pl_order p)" using window_nodes_single [OF w(3)] by force
  show "distinct (wg_edges g)"
    using w(5) by (auto simp: graph_check_def plain_graph_def Let_def split: if_splits)
qed

section \<open>Every operation\<close>

lemma input_calls:
  assumes inv: "wgraph_inv g p s" and e: "execute_input g p x s = Inr (after, b)"
  shows "window_steps (pl_fold p) (window_calls g p (GInput x) s) (gs_window s) = Inr (gs_window after)
    \<and> map fst (input_arrivals g p x s) = edges_into (wg_edges g) (pl_window p)
    \<and> (\<forall>(e, rs)\<in>set (input_arrivals g p x s).
         gs_edges after ! edge_index e (wg_edges g) = gs_edges s ! edge_index e (wg_edges g) + int (length rs))"
proof -
  define w where "w = input_walk g p x s"
  have c: "window_graph_check g = Inr p" using inv by (simp add: wgraph_inv_def)
  define tx0 where "tx0 = begin_tx (gs_ordinary s) (gs_ordinary_bytes s)"
  obtain h outputs tx h2 where ch: "work_charge (wgl_graph (wg_limits g)) (gi_record x) (begin_hook s) = Inr h"
    and wk: "walk_graph w (pl_order p) (tx0, h) = Inr (outputs, tx, h2)"
    and cm: "commit_graph True s (tx, h2\<lparr>gh_outputs := outputs\<rparr>) = Inr (after, b)"
    using e unfolding execute_input_def rbind_eq_Inr w_def input_walk_def tx0_def by auto
  have h: "gh_window h = gs_window s" "gh_edges h = gs_edges s" using ch by (auto simp: work_charge_def begin_hook_def)
  have after: "gs_window after = gh_window h2" "gs_edges after = gh_edges h2"
    using cm by (auto simp: commit_graph_def Let_def split: prod.splits)
  have f: "window_fine g p h"
    using inv checked_order(4) [OF c] checked_fold [OF c]
    by (simp add: window_fine_def h wgraph_inv_def graph_cells_ok_def graph_counts_ok_def)
  have a: "input_arrivals g p x s = arrivals w (pl_order p) (pl_window p) (tx0, h)"
    by (simp add: input_arrivals_def ch w_def tx0_def)
  obtain tx1 h1 routed tx3 h3 where
    r: "run_node w (pl_window p) (input_arrivals g p x s) (tx1, h1) = Inr (routed, tx3, h3)"
    and seen: "window_fine g p h1" "gh_window h1 = gh_window h" "gh_window h2 = gh_window h3"
    and ar: "map fst (input_arrivals g p x s) = edges_into (wg_edges g) (pl_window p)"
      "\<forall>(e, rs)\<in>set (input_arrivals g p x s). edge_tally g h2 e = edge_tally g h e + int (length rs)"
    using watched_input.walk_seen [OF wk [unfolded w_def] f checked_order(1-3) [OF c]] unfolding a w_def by blast
  have n: "dget (wp_seed_outputs w) (pl_window p) = None" "wp_nodes w (pl_window p) = GOther (pl_window p) (pl_fold p)"
    "wp_extension w = Some (window_extension g p (gi_timestamp x))"
    using checked_prefix(5) [OF c] by (simp_all add: w_def input_walk_def window_walk_def)
  have "fold_res (fold_record g (pl_fold p) (gi_timestamp x)) (concat (map snd (input_arrivals g p x s))) (tx1, h1) = Inr (tx3, h3)"
    using r by (auto simp: run_node_def n window_extension_def)
  from fold_records_step [OF this seen(1)] seen(2,3) ar h after show ?thesis by (simp add: edge_tally_def)
qed

lemma advance_call:
  assumes e: "graph_advance_op t n s = Inr (after, b)"
  shows "window_steps (pl_fold p) [WAdvance t] (gs_window s) = Inr (gs_window after)"
proof (cases "w_watermark (gs_window s) = Some t")
  case True
  obtain st u where st: "tick t = Inr u" "status_of (gs_window s) = Inr st" "ws_phase st = WOpen" "\<not> before_watermark (gs_window s) t"
    and a: "after = s"
    using e True unfolding graph_advance_op_def Let_def rbind_eq_Inr by (auto split: if_splits)
  have "(gs_window s)\<lparr>w_watermark := Some t\<rparr> = gs_window s" using True by simp
  with st have "stage_advance (gs_window s) t = Inr (gs_window s, st)" by (simp add: stage_advance_def)
  then show ?thesis by (simp add: window_steps_def window_stage_def a)
next
  case False
  then obtain window st where "stage_advance (gs_window s) t = Inr (window, st)" "gs_window after = window"
    using e unfolding graph_advance_op_def Let_def rbind_eq_Inr by (auto split: if_splits)
  then show ?thesis by (simp add: window_steps_def window_stage_def)
qed

lemma finish_call:
  assumes e: "graph_finish_op n s = Inr (after, b)"
  shows "window_steps (pl_fold p) [WFinish] (gs_window s) = Inr (gs_window after)"
proof (cases "w_finished (gs_window s)")
  case True
  then have a: "after = s" and b: "graph_batch s s [] = Inr b" using e by (auto simp: graph_finish_op_def)
  obtain st where st: "status_of (gs_window s) = Inr st"
    using b by (cases "status_of (gs_window s)") (simp_all add: graph_batch_def Let_def)
  have same: "(gs_window s)\<lparr>w_finished := True\<rparr> = gs_window s" using True by simp
  have "stage_finish (gs_window s) = Inr (gs_window s, st)" by (simp only: stage_finish_def Let_def same st rbind.simps)
  then show ?thesis by (simp add: window_steps_def window_stage_def a)
next
  case False
  then obtain window st where "stage_finish (gs_window s) = Inr (window, st)" "gs_window after = window"
    using e unfolding graph_finish_op_def Let_def rbind_eq_Inr by auto
  then show ?thesis by (simp add: window_steps_def window_stage_def)
qed

text \<open>A drain that returns emits exactly its bound of the pending windows, or there were none.\<close>

lemma drain_exact:
  assumes inv: "wgraph_inv g p s" and e: "graph_drain_op g p n s = Inr (after, b)"
  shows "if pending_cells (gs_window s) = [] then after = s \<and> gb_outputs b = [] \<and> gb_drained b = 0
    else \<exists>batch. let m = min n (min (int (length (pending_cells (gs_window s)))) (pl_cap p)) in
        1 \<le> m \<and> gb_drained b = m
        \<and> stage_drain (pl_fold p) no_window_hooks (gs_window s) m () = Inr (gs_window after, batch, ())
        \<and> int (length (wb_rows batch)) = m
        \<and> gs_drains after = gs_drains s + 1 \<and> gs_emitted after = gs_emitted s + int (length (gb_outputs b))"
proof -
  obtain st where st: "status_of (gs_window s) = Inr st" using e unfolding graph_drain_op_def rbind_eq_Inr by auto
  have pend: "ws_pending st = int (length (pending_cells (gs_window s)))"
    using status_of_Inr [OF st] by (simp add: the_status_def Let_def)
  show ?thesis
  proof (cases "pending_cells (gs_window s) = []")
    case True
    then have "graph_batch s s [] = Inr b" "after = s" using e st pend by (auto simp: graph_drain_op_def)
    with True graph_batch_Inr [of s s "[]" b] show ?thesis by simp
  next
    case False
    define m where "m = min n (min (int (length (pending_cells (gs_window s)))) (pl_cap p))"
    have x: "execute_drain g p m s = Inr (after, b)" using e st pend False by (auto simp: graph_drain_op_def m_def)
    have "m \<le> pl_cap p" by (simp add: m_def)
    note d = execute_drain_ok [OF inv this x]
    obtain y where "commit_graph False s y = Inr (after, b)"
      using x unfolding execute_drain_def Let_def rbind_eq_Inr by (auto split: if_splits)
    then have c: "gs_drains after = gs_drains s + 1" "gs_emitted after = gs_emitted s + int (length (gb_outputs b))"
        "gb_drained b = w_emitted (gs_window after) - w_emitted (gs_window s)"
      by (cases y; auto simp: commit_graph_def Let_def split: prod.splits dest: graph_batch_Inr)+
    obtain batch where dr: "stage_drain (pl_fold p) no_window_hooks (gs_window s) m () = Inr (gs_window after, batch, ())"
      using d by blast
    define sel where "sel = drain_selection (pl_fold p) (gs_window s) m"
    have "gs_window after = drained_state (gs_window s) sel" "length sel = length (wb_rows batch)"
      using window_drain_Inr [OF dr] by (auto simp: sel_def dest: list_all2_lengthD)
    then have "int (length (wb_rows batch)) = m" using c(3) d by (simp add: drained_state_def)
    with d c(1,2) dr False show ?thesis by (auto simp: m_def [symmetric] Let_def)
  qed
qed

lemma graph_input_executes: "graph_input_op g p x s = Inr (after, b) \<Longrightarrow> execute_input g p x s = Inr (after, b)"
  unfolding graph_input_op_def rbind_eq_Inr by (auto split: if_splits)

lemma stage_calls:
  assumes inv: "wgraph_inv g p s" and e: "wgraph_stage g p op s = Inr (after, b)"
  shows "window_steps (pl_fold p) (window_calls g p op s) (gs_window s) = Inr (gs_window after)"
proof (cases op)
  case (GInput x)
  have "execute_input g p x s = Inr (after, b)" using e GInput by (auto intro: graph_input_executes)
  from input_calls [OF inv this] show ?thesis by (simp add: GInput)
next
  case (GAdvance t n)
  with e advance_call show ?thesis by simp
next
  case (GFinish n)
  with e finish_call show ?thesis by simp
next
  case (GDrain n)
  then have "graph_drain_op g p n s = Inr (after, b)" using e by simp
  from drain_exact [OF inv this] show ?thesis
    by (auto simp: GDrain Let_def window_steps_def window_stage_def split: if_splits)
qed

end
