(* ===== verification/Window_Recovery.thy ===== *)
theory Window_Recovery
  imports Window_Fold_Laws
begin

text \<open>
  Checkpoints of the window fold: the document of a reachable state always fits the wire
  limit, is accepted by the validator, and restores the state with its cells in order.
\<close>

section \<open>The stored declaration\<close>

text \<open>What \<open>_read_spec\<close> makes of a configuration: the same fold with inert callbacks.\<close>

definition inert :: "window_fold \<Rightarrow> window_fold" where
  "inert w = w\<lparr>wf_initial := unavailable, wf_fold := unavailable,
     wf_finalize := map_option (\<lambda>_. unavailable) (wf_finalize w)\<rparr>"

lemma inert_simps [simp]:
  "wf_id (inert w) = wf_id w" "wf_revision (inert w) = wf_revision w" "wf_width (inert w) = wf_width w"
  "wf_hop (inert w) = wf_hop w" "wf_origin (inert w) = wf_origin w" "wf_tick_unit (inert w) = wf_tick_unit w"
  "wf_drop_late (inert w) = wf_drop_late w" "wf_limits (inert w) = wf_limits w"
  "wf_finalize (inert w) = None \<longleftrightarrow> wf_finalize w = None"
  by (simp_all add: inert_def)

lemma inert_geometry [simp]: "geometry (inert w) = geometry w"
  by (intro ext) (simp only: geometry_def inert_simps)

lemma inert_cell [simp]: "make_wcell (inert w) = make_wcell w"
  by (intro ext) (simp only: make_wcell_def inert_simps inert_geometry)

lemma inert_functions [simp]:
  "check_counters (inert w) = check_counters w" "window_configuration (inert w) = window_configuration w"
  "window_fold_ok (inert w) = window_fold_ok w" "read_wcell (inert w) = read_wcell w"
  "recheck_wcell (inert w) = recheck_wcell w"
  by (intro ext, simp only: check_counters_def inert_simps)
    (simp only: window_configuration_def inert_simps, simp only: window_fold_ok_def inert_simps,
     intro ext, simp only: read_wcell_def inert_simps inert_geometry,
     intro ext, simp only: recheck_wcell_def inert_simps inert_cell)

lemma inert_state [simp]: "read_window_state (inert w) = read_window_state w"
  by (intro ext) (simp only: read_window_state_def inert_simps inert_functions)

lemma inert_identity [simp]: "window_identity (inert w) = window_identity w"
  by (simp add: window_identity_def)

lemma read_window_limits_doc:
  "window_limits_ok l \<Longrightarrow> read_window_limits (window_limits_doc l) = Inr l"
  by (cases l) (simp add: read_window_limits_def window_limits_doc_def doc_fields_def read_field_def doc_get_def lit_simps
      read_int_def Let_def insert_commute)

lemma read_configuration:
  assumes "window_fold_ok w"
  shows "read_window_fold (window_configuration w) = Inr (inert w)"
proof -
  have l: "window_limits_ok (wf_limits w)" and n: "is_label (wf_id w)" "is_label (wf_revision w)" "is_label (wf_tick_unit w)"
    and o: "- MAX_COUNT \<le> wf_origin w" "wf_origin w \<le> MAX_COUNT"
    using assms by (simp_all add: window_fold_ok_def)
  have late: "read_late (JStr (lit (late_name b))) = Inr b" for b
    by (cases b) (simp_all add: read_late_def late_name_def lit_simps)
  have names: "read_wname (JStr s) = Inr s" if "is_label s" for s using that by (simp add: read_wname_def read_str_def)
  have org: "read_tick (JInt (wf_origin w)) = Inr (wf_origin w)" using o by (simp add: read_tick_def read_int_def)
  have make: "make_window_fold \<lparr>wf_id = wf_id w, wf_revision = wf_revision w, wf_width = wf_width w,
      wf_initial = unavailable, wf_fold = unavailable, wf_hop = wf_hop w, wf_origin = wf_origin w,
      wf_tick_unit = wf_tick_unit w, wf_finalize = (if wf_finalize w \<noteq> None then Some unavailable else None),
      wf_drop_late = wf_drop_late w, wf_limits = wf_limits w\<rparr> (Some (wf_hop w)) = Inr (inert w)"
    using assms by (cases "wf_finalize w") (simp_all add: make_window_fold_def inert_def window_fold_ok_def)
  show ?thesis
    unfolding read_window_fold_def window_configuration_def
    by (cases "wf_finalize w")
      (use make in \<open>simp_all add: doc_fields_def read_field_def doc_get_def lit_simps insert_commute
        read_const_def read_bool_def read_int_def late names n org read_window_limits_doc [OF l]\<close>)
qed


section \<open>Cells\<close>

lemma wcell_doc_bytes [simp]: "wcell_doc (c\<lparr>wc_bytes := n\<rparr>) = wcell_doc c"
  by (simp add: wcell_doc_def)

lemma make_wcell_encoded:
  assumes "make_wcell w k i n t = Inr c" "wc_bytes c \<le> m"
  shows "\<exists>u. encode_json (wcell_doc c) m = Inr u \<and> byte_len u = wc_bytes c"
proof -
  obtain a b u where c: "c = \<lparr>wc_key = k, wc_index = i, wc_start = a, wc_end = b, wc_count = n, wc_encoded = t,
       wc_bytes = byte_len u\<rparr>"
    and e: "encode_json (wcell_doc \<lparr>wc_key = k, wc_index = i, wc_start = a, wc_end = b, wc_count = n, wc_encoded = t,
       wc_bytes = 0\<rparr>) (wl_state_bytes (wf_limits w)) = Inr u"
    using assms(1) by (auto simp: make_wcell_def Let_def split: prod.splits)
  have "wcell_doc \<lparr>wc_key = k, wc_index = i, wc_start = a, wc_end = b, wc_count = n, wc_encoded = t, wc_bytes = 0\<rparr>
      = wcell_doc c" by (simp add: c wcell_doc_def)
  with e assms(2) show ?thesis by (auto simp: encode_json_def Let_def c split: if_splits)
qed

lemma read_wcell_ok:
  assumes v: "wcell_valid w ik c" and p: "\<And>q. prev = Some q \<Longrightarrow> q < ik"
    and b: "tot + wc_bytes c \<le> wl_state_bytes (wf_limits w)"
    and k: "int (length (if snd ik \<in> set keys then keys else snd ik # keys)) \<le> wl_keys (wf_limits w)"
  shows "read_wcell w (wcell_doc c) (prev, tot, keys, cells)
    = Inr (Some ik, tot + wc_bytes c, (if snd ik \<in> set keys then keys else snd ik # keys), dput ik c cells)"
proof -
  note c = wcell_validD [OF v]
  have mk: "make_wcell w (snd ik) (fst ik) (wc_count c) (wc_encoded c) = Inr c"
    and can: "canonical (wc_encoded c)" "byte_len (wc_encoded c) \<le> wl_state_value_bytes (wf_limits w)" "is_label (snd ik)"
    using v by (simp_all add: wcell_valid_def)
  have cnt: "wc_count c \<le> MAX_COUNT" using make_wcell_Inr [OF mk] by simp
  have g: "\<bar>fst ik\<bar> \<le> MAX_COUNT" "\<bar>wc_start c\<bar> \<le> MAX_COUNT" "\<bar>wc_end c\<bar> \<le> MAX_COUNT"
    using c(7) unfolding geometry_Inr by blast+
  obtain u where u: "encode_json (wcell_doc c) (wl_state_bytes (wf_limits w) - tot) = Inr u" "byte_len u = wc_bytes c"
    using make_wcell_encoded [OF mk, of "wl_state_bytes (wf_limits w) - tot"] b by auto
  have reads: "read_wname (JStr (snd ik)) = Inr (snd ik)" "read_tick (JInt (wc_start c)) = Inr (wc_start c)"
    "read_tick (JInt (wc_end c)) = Inr (wc_end c)" "count (wc_count c) 1 MAX_COUNT = Inr (wc_count c)"
    "bounded_text (wc_encoded c) (wl_state_value_bytes (wf_limits w)) = Inr (wc_encoded c)"
    using can g c(5) cnt canonical_utf8_ok [OF can(1)]
    by (simp_all add: read_wname_def read_str_def read_tick_def read_int_def abs_le_iff bounded_text_iff)
  have prev: "\<not> (case prev of None \<Rightarrow> False | Some p \<Rightarrow> ik \<le> p)"
    using p by (auto simp: not_le split: option.split)
  have ik: "(fst ik, snd ik) = ik" by simp
  have eta: "\<lparr>wc_key = snd ik, wc_index = fst ik, wc_start = wc_start c, wc_end = wc_end c, wc_count = wc_count c,
      wc_encoded = wc_encoded c, wc_bytes = wc_bytes c\<rparr> = c"
    using c(1,2) by (cases c) simp
  have doc: "\<exists>kvs. doc_fields [''key'', ''index'', ''start'', ''end'', ''input_count'', ''state''] (wcell_doc c) = Inr kvs
    \<and> doc_get kvs ''key'' = Inr (JStr (snd ik)) \<and> doc_get kvs ''index'' = Inr (JInt (fst ik))
    \<and> doc_get kvs ''start'' = Inr (JInt (wc_start c)) \<and> doc_get kvs ''end'' = Inr (JInt (wc_end c))
    \<and> doc_get kvs ''input_count'' = Inr (JInt (wc_count c)) \<and> doc_get kvs ''state'' = Inr (JStr (wc_encoded c))"
    using c(1,2) by (simp add: wcell_doc_def doc_fields_def doc_get_def lit_simps insert_commute)
  then obtain kvs where kvs: "doc_fields [''key'', ''index'', ''start'', ''end'', ''input_count'', ''state''] (wcell_doc c) = Inr kvs"
    "doc_get kvs ''key'' = Inr (JStr (snd ik))" "doc_get kvs ''index'' = Inr (JInt (fst ik))"
    "doc_get kvs ''start'' = Inr (JInt (wc_start c))" "doc_get kvs ''end'' = Inr (JInt (wc_end c))"
    "doc_get kvs ''input_count'' = Inr (JInt (wc_count c))" "doc_get kvs ''state'' = Inr (JStr (wc_encoded c))"
    by blast
  show ?thesis
    unfolding read_wcell_def Let_def prod.case kvs(1) read_field_def rbind.simps kvs(2-7) reads
      read_int_def json.case c(7) read_str_def u ik eta
    using prev k by simp
qed

lemma fold_read_wcell:
  assumes "\<And>e. e \<in> set es \<Longrightarrow> wcell_valid w (fst e) (snd e)" "sorted_wrt (<) (map fst es)"
    and "\<And>q e. prev = Some q \<Longrightarrow> e \<in> set es \<Longrightarrow> q < fst e"
    and "tot + (\<Sum>e\<leftarrow>es. wc_bytes (snd e)) \<le> wl_state_bytes (wf_limits w)"
    and "distinct keys" "int (card (set keys \<union> (\<lambda>e. snd (fst e)) ` set es)) \<le> wl_keys (wf_limits w)"
    and "distinct (map fst ds @ map fst es)"
  shows "\<exists>p ks. fold_res (read_wcell w) (map (\<lambda>e. wcell_doc (snd e)) es) (prev, tot, keys, ds)
    = Inr (p, tot + (\<Sum>e\<leftarrow>es. wc_bytes (snd e)), ks, ds @ es)"
  using assms
proof (induction es arbitrary: prev tot keys ds)
  case (Cons e es)
  define ks where "ks = (if snd (fst e) \<in> set keys then keys else snd (fst e) # keys)"
  have v: "wcell_valid w (fst e) (snd e)" using Cons.prems(1) by simp
  have nn: "0 \<le> (\<Sum>e\<leftarrow>es. wc_bytes (snd e))"
    using wcell_validD(6) [OF Cons.prems(1)] by (intro sum_list_nonneg) auto
  have dk: "distinct ks" "set ks = insert (snd (fst e)) (set keys)" using Cons.prems(5) by (auto simp: ks_def)
  have un: "set ks \<union> (\<lambda>e. snd (fst e)) ` set es = set keys \<union> (\<lambda>e. snd (fst e)) ` set (e # es)"
    using dk(2) by auto
  have "card (set ks) \<le> card (set ks \<union> (\<lambda>e. snd (fst e)) ` set es)" by (rule card_mono) auto
  then have lk: "int (length ks) \<le> wl_keys (wf_limits w)"
    using Cons.prems(6) un distinct_card [OF dk(1)] by simp
  have step: "read_wcell w (wcell_doc (snd e)) (prev, tot, keys, ds)
      = Inr (Some (fst e), tot + wc_bytes (snd e), ks, dput (fst e) (snd e) ds)"
    unfolding ks_def by (rule read_wcell_ok [OF v])
      (use Cons.prems(3,4) nn lk in \<open>auto simp: ks_def\<close>)
  have app: "dput (fst e) (snd e) ds = ds @ [e]" using Cons.prems(7) by (subst dput_new) auto
  have "\<exists>p ks'. fold_res (read_wcell w) (map (\<lambda>e. wcell_doc (snd e)) es) (Some (fst e), tot + wc_bytes (snd e), ks, ds @ [e])
    = Inr (p, tot + wc_bytes (snd e) + (\<Sum>e\<leftarrow>es. wc_bytes (snd e)), ks', (ds @ [e]) @ es)"
  proof (rule Cons.IH)
    show "wcell_valid w (fst e') (snd e')" if "e' \<in> set es" for e' using Cons.prems(1) that by simp
    show "sorted_wrt (<) (map fst es)" using Cons.prems(2) by simp
    show "q < fst e'" if "Some (fst e) = Some q" "e' \<in> set es" for q e' using Cons.prems(2) that by auto
    show "tot + wc_bytes (snd e) + (\<Sum>e\<leftarrow>es. wc_bytes (snd e)) \<le> wl_state_bytes (wf_limits w)"
      using Cons.prems(4) by simp
    show "distinct ks" by (rule dk(1))
    show "int (card (set ks \<union> (\<lambda>e. snd (fst e)) ` set es)) \<le> wl_keys (wf_limits w)" using Cons.prems(6) un by simp
    show "distinct (map fst (ds @ [e]) @ map fst es)" using Cons.prems(7) by auto
  qed
  then show ?case using step app by (simp add: add.assoc)
qed simp

lemma dput_same: "dict_ok d \<Longrightarrow> dget d k = Some v \<Longrightarrow> dput k v d = d"
proof (induction d)
  case (Cons e d)
  then show ?case by (cases e) (auto simp: dict_ok_def split: if_splits)
qed simp

lemma fold_recheck:
  assumes "dict_ok d" "\<And>e. e \<in> set es \<Longrightarrow> wcell_valid w (fst e) (snd e)" "set es \<subseteq> set d"
  shows "fold_res (recheck_wcell w) es d = Inr d"
  using assms(2,3)
proof (induction es)
  case (Cons e es)
  have v: "wcell_valid w (fst e) (snd e)" and g: "dget d (fst e) = Some (snd e)"
    using Cons.prems assms(1) by (simp_all add: dict_ok_map_of_iff)
  have "recheck_wcell w e d = Inr d"
  proof -
    have "checked_value (wc_encoded (snd e)) (wl_state_value_bytes (wf_limits w)) = Inr (wc_encoded (snd e))"
      using v by (simp add: checked_value_iff wcell_valid_def)
    moreover have "make_wcell w (wc_key (snd e)) (wc_index (snd e)) (wc_count (snd e)) (wc_encoded (snd e)) = Inr (snd e)"
      using v wcell_validD(1,2) [OF v] by (simp add: wcell_valid_def)
    ultimately show ?thesis by (simp add: recheck_wcell_def dput_same [OF assms(1) g])
  qed
  with Cons show ?case by simp
qed simp


section \<open>The body and the document\<close>

definition body_doc :: "window_fold \<Rightarrow> wstate \<Rightarrow> pystr \<Rightarrow> json" where
  "body_doc w s identity = JObj
     [jfield ''cells'' (JArr (map (\<lambda>e. wcell_doc (snd e)) (sort_key fst (w_cells s)))),
      jfield ''configuration'' (window_configuration w), jfield ''counters'' (counters_doc s),
      jfield ''finished'' (JBool (w_finished s)), jfield ''identity'' (JStr identity),
      jfield ''kind'' (JStr window_kind),
      jfield ''phase'' (JStr (lit (wphase_name (ws_phase (the_status s))))),
      jfield ''version'' (JStr (lit ''1.0'')),
      jfield ''watermark'' (case w_watermark s of None \<Rightarrow> JNull | Some m \<Rightarrow> JInt m)]"

definition sorted_state :: "wstate \<Rightarrow> wstate" where
  "sorted_state s = s\<lparr>w_cells := sort_key fst (w_cells s)\<rparr>"

lemma sorted_keys: "dict_ok d \<Longrightarrow> sorted_wrt (<) (map fst (sort_key fst d))"
  using sort_key_fst_perm(3) [of d] by (simp add: dict_ok_def strict_sorted_iff)

lemma status_sorted: "the_status (sorted_state s) = the_status s"
proof -
  have "length (pending_cells (sorted_state s)) = length (pending_cells s)"
    by (simp add: pending_cells_def sorted_state_def eligible_def filter_sort)
  then show ?thesis by (simp add: the_status_def Let_def) (simp add: sorted_state_def)
qed

lemma wstate_inv_sorted:
  assumes "wstate_inv w s"
  shows "wstate_inv w (sorted_state s)"
proof -
  have d: "dict_ok (w_cells s)" using assms by (simp add: wstate_inv_def)
  have "check_counters w (sorted_state s) = Inr ()"
  proof -
    have s1: "w_processed (sorted_state s) = w_processed s" "w_late (sorted_state s) = w_late s"
      "w_gaps (sorted_state s) = w_gaps s" "w_updates (sorted_state s) = w_updates s"
      "w_created (sorted_state s) = w_created s" "w_emitted (sorted_state s) = w_emitted s"
      "w_finalized (sorted_state s) = w_finalized s" "folded_inputs (sorted_state s) = folded_inputs s"
      "set (w_cells (sorted_state s)) = set (w_cells s)" "length (w_cells (sorted_state s)) = length (w_cells s)"
      "(\<Sum>e\<leftarrow>w_cells (sorted_state s). wc_count (snd e)) = (\<Sum>e\<leftarrow>w_cells s. wc_count (snd e))"
      by (simp_all add: sorted_state_def folded_inputs_def sum_list_sort_int sort_key_fst_perm)
    have "check_counters w s = Inr ()" using assms by (simp add: wstate_inv_def)
    then show ?thesis unfolding check_counters_iff s1 .
  qed
  then show ?thesis
    using assms d
    by (simp add: wstate_inv_def sorted_state_def sort_key_fst_perm sum_list_sort_int retained_keys_card wcounters_ok_def)
qed

lemma read_state_ok:
  assumes w: "window_fold_ok w" and inv: "wstate_inv w s"
    and body: "doc_get body ''watermark'' = Inr (case w_watermark s of None \<Rightarrow> JNull | Some m \<Rightarrow> JInt m)"
      "doc_get body ''finished'' = Inr (JBool (w_finished s))" "doc_get body ''counters'' = Inr (counters_doc s)"
      "doc_get body ''cells'' = Inr (JArr (map (\<lambda>e. wcell_doc (snd e)) (sort_key fst (w_cells s))))"
  shows "read_window_state w body = Inr (sorted_state s)"
proof -
  define es where "es = sort_key fst (w_cells s)"
  have d: "dict_ok (w_cells s)" and cok: "wcounters_ok w s" using inv by (simp_all add: wstate_inv_def)
  have valid: "wcell_valid w (fst e) (snd e)" if "e \<in> set es" for e
    using inv that by (simp add: wstate_inv_def es_def)
  have keys: "(\<lambda>e. snd (fst e)) ` set es = (\<lambda>e. wc_key (snd e)) ` set (w_cells s)"
    using wcell_validD(1) [OF valid] by (auto simp: es_def intro!: image_cong)
  have des: "distinct (map fst es)" using sort_key_fst_perm(3) [OF d] by (simp add: es_def dict_ok_def)
  have "\<exists>p ks. fold_res (read_wcell w) (map (\<lambda>e. wcell_doc (snd e)) es) (None, 0, [], [])
      = Inr (p, 0 + (\<Sum>e\<leftarrow>es. wc_bytes (snd e)), ks, [] @ es)"
    by (rule fold_read_wcell [OF valid])
      (use inv d des in \<open>simp_all add: keys wstate_inv_def retained_keys_card,
        simp_all add: es_def sorted_keys sum_list_sort_int\<close>)
  then obtain p ks where fold: "fold_res (read_wcell w) (map (\<lambda>e. wcell_doc (snd e)) es) (None, 0, [], [])
      = Inr (p, w_bytes s, ks, es)"
    using inv by (auto simp: wstate_inv_def es_def sum_list_sort_int)
  have wm: "read_watermark (case w_watermark s of None \<Rightarrow> JNull | Some m \<Rightarrow> JInt m) = Inr (w_watermark s)"
    using inv by (auto simp: read_watermark_def read_tick_def read_int_def wstate_inv_def abs_le_iff split: option.split)
  have len: "int (length es) \<le> wl_windows (wf_limits w)" using inv by (simp add: es_def wstate_inv_def)
  have cs: "\<exists>cs. doc_fields [''processed_inputs'', ''late_drops'', ''gap_inputs'',
        ''membership_updates'', ''created_windows'', ''emitted_windows'', ''finalized_memberships''] (counters_doc s) = Inr cs
      \<and> read_counter cs ''processed_inputs'' = Inr (w_processed s) \<and> read_counter cs ''late_drops'' = Inr (w_late s)
      \<and> read_counter cs ''gap_inputs'' = Inr (w_gaps s) \<and> read_counter cs ''membership_updates'' = Inr (w_updates s)
      \<and> read_counter cs ''created_windows'' = Inr (w_created s) \<and> read_counter cs ''emitted_windows'' = Inr (w_emitted s)
      \<and> read_counter cs ''finalized_memberships'' = Inr (w_finalized s)"
    using cok by (simp add: counters_doc_def doc_fields_def read_counter_def read_field_def doc_get_def lit_simps insert_commute
        wcounters_ok_def)
  then obtain cs where cs: "doc_fields [''processed_inputs'', ''late_drops'', ''gap_inputs'',
        ''membership_updates'', ''created_windows'', ''emitted_windows'', ''finalized_memberships''] (counters_doc s) = Inr cs"
      "read_counter cs ''processed_inputs'' = Inr (w_processed s)" "read_counter cs ''late_drops'' = Inr (w_late s)"
      "read_counter cs ''gap_inputs'' = Inr (w_gaps s)" "read_counter cs ''membership_updates'' = Inr (w_updates s)"
      "read_counter cs ''created_windows'' = Inr (w_created s)" "read_counter cs ''emitted_windows'' = Inr (w_emitted s)"
      "read_counter cs ''finalized_memberships'' = Inr (w_finalized s)"
    by blast
  have rest: "sorted_state s = \<lparr>w_cells = es, w_watermark = w_watermark s, w_finished = w_finished s, w_processed = w_processed s,
      w_late = w_late s, w_gaps = w_gaps s, w_updates = w_updates s, w_created = w_created s,
      w_emitted = w_emitted s, w_finalized = w_finalized s, w_bytes = w_bytes s\<rparr>"
    by (cases s) (simp add: sorted_state_def es_def)
  show ?thesis
    unfolding read_window_state_def read_field_def body rbind.simps wm cs es_def [symmetric] read_list_id
      read_bool_def json.case
    using len by (simp add: fold rest)
qed

lemma validate_body:
  assumes w: "window_fold_ok w" and inv: "wstate_inv w s" and i: "window_identity w = Inr identity" "is_hex64 identity"
    and body: "encode_json (body_doc w s identity) MAX_WIRE = Inr t"
    and doc: "encode_json (JObj [jfield ''body'' (body_doc w s identity), jfield ''sha256'' (JStr (sha256_hex t))]) MAX_WIRE = Inr u"
    and v: "v = w \<and> supplied = Some w \<or> v = inert w \<and> supplied = None"
  shows "validate_window (JObj [jfield ''body'' (body_doc w s identity), jfield ''sha256'' (JStr (sha256_hex t))]) supplied
    = Inr (v, sorted_state s, u)"
proof -
  obtain bkvs where b: "doc_fields [''kind'', ''version'', ''configuration'', ''identity'', ''watermark'', ''finished'',
        ''phase'', ''counters'', ''cells''] (body_doc w s identity) = Inr bkvs"
    "doc_get bkvs ''kind'' = Inr (JStr window_kind)" "doc_get bkvs ''version'' = Inr (JStr (lit ''1.0''))"
    "doc_get bkvs ''configuration'' = Inr (window_configuration w)" "doc_get bkvs ''identity'' = Inr (JStr identity)"
    "doc_get bkvs ''phase'' = Inr (JStr (lit (wphase_name (ws_phase (the_status s)))))"
    "doc_get bkvs ''watermark'' = Inr (case w_watermark s of None \<Rightarrow> JNull | Some m \<Rightarrow> JInt m)"
      "doc_get bkvs ''finished'' = Inr (JBool (w_finished s))" "doc_get bkvs ''counters'' = Inr (counters_doc s)"
      "doc_get bkvs ''cells'' = Inr (JArr (map (\<lambda>e. wcell_doc (snd e)) (sort_key fst (w_cells s))))"
    by (simp add: body_doc_def doc_fields_def doc_get_def lit_simps insert_commute)
  have st: "read_window_state w bkvs = Inr (sorted_state s)" by (rule read_state_ok [OF w inv b(7-10)])
  have inv': "wstate_inv w (sorted_state s)" by (rule wstate_inv_sorted [OF inv])
  have cc: "check_counters w (sorted_state s) = Inr ()" using inv' by (simp add: wstate_inv_def)
  have status: "status_of (sorted_state s) = Inr (the_status s)"
    using wstate_inv_status [OF w inv'] status_sorted by simp
  have re: "fold_res (recheck_wcell w) (w_cells (sorted_state s)) (w_cells (sorted_state s)) = Inr (w_cells (sorted_state s))"
    using inv' by (intro fold_recheck) (auto simp: wstate_inv_def)
  have hex: "read_hex (JStr (sha256_hex t)) = Inr (sha256_hex t)" "read_hex (JStr identity) = Inr identity"
    using i(2) by (simp_all add: read_hex_def read_str_def sha256_hex_is_hex64)
  have top: "doc_fields [''body'', ''sha256''] (JObj [jfield ''body'' (body_doc w s identity), jfield ''sha256'' (JStr (sha256_hex t))])
      = Inr [jfield ''body'' (body_doc w s identity), jfield ''sha256'' (JStr (sha256_hex t))]"
    "doc_get [jfield ''body'' (body_doc w s identity), jfield ''sha256'' (JStr (sha256_hex t))] ''body'' = Inr (body_doc w s identity)"
    "doc_get [jfield ''body'' (body_doc w s identity), jfield ''sha256'' (JStr (sha256_hex t))] ''sha256'' = Inr (JStr (sha256_hex t))"
    by (simp_all add: doc_fields_def doc_get_def lit_simps insert_commute)
  have sup: "(case supplied of None \<Rightarrow> Inr (inert w)
      | Some w' \<Rightarrow> rbind (window_identity w') (\<lambda>i. if i \<noteq> identity then Inl ValidationError else Inr w')) = Inr v"
    using v i(1) by auto
  have vw: "read_window_state v bkvs = Inr (sorted_state s)" "check_counters v (sorted_state s) = Inr ()"
    "fold_res (recheck_wcell v) (w_cells (sorted_state s)) (w_cells (sorted_state s)) = Inr (w_cells (sorted_state s))"
    using v st cc re by auto
  show ?thesis
    unfolding validate_window_def read_field_def rbind.simps top b hex read_configuration [OF w] inert_identity i(1)
      read_const_def sup vw body doc status
    by (simp add: sup vw body doc status)
qed


section \<open>The document always fits\<close>

lemmas text_simps = lit_simps dump_str_def esc_char_def byte_len_Cons utf8_char_def

lemma utf8_ok_lit: "list_all (\<lambda>c. (of_char c :: nat) < 128) cs \<Longrightarrow> utf8_ok (lit cs)"
  by (intro utf8_ok_list) (auto simp: lit_def list_all_iff)

lemma limits_doc_facts:
  assumes "window_limits_ok l"
  shows "byte_len (dumps (window_limits_doc l)) \<le> 500" "jsort (window_limits_doc l) = window_limits_doc l"
    "d + 1 \<le> MAX_JSON_DEPTH \<Longrightarrow> jfits d (window_limits_doc l)"
proof -
  have b: "\<bar>x\<bar> \<le> MAX_COUNT" if "x \<in> {wl_batch_bytes l, wl_input_bytes l, wl_inputs l, wl_keys l, wl_row_bytes l,
      wl_rows_per_batch l, wl_state_bytes l, wl_state_value_bytes l, wl_windows l, wl_windows_per_input l}" for x
    using assms that by (auto simp: window_limits_ok_def window_ceilings_def MAX_COUNT_def)
  have i: "byte_len (int_str x) \<le> 17" if "x \<in> {wl_batch_bytes l, wl_input_bytes l, wl_inputs l, wl_keys l, wl_row_bytes l,
      wl_rows_per_batch l, wl_state_bytes l, wl_state_value_bytes l, wl_windows l, wl_windows_per_input l}" for x
    using b [OF that] by (rule byte_len_int_str)
  show "byte_len (dumps (window_limits_doc l)) \<le> 500"
    unfolding window_limits_doc_def
    by (rule order_trans [OF byte_len_object])
      (use i [of "wl_batch_bytes l"] i [of "wl_input_bytes l"] i [of "wl_inputs l"] i [of "wl_keys l"]
         i [of "wl_row_bytes l"] i [of "wl_rows_per_batch l"] i [of "wl_state_bytes l"]
         i [of "wl_state_value_bytes l"] i [of "wl_windows l"] i [of "wl_windows_per_input l"]
       in \<open>simp add: text_simps\<close>)
  show "jsort (window_limits_doc l) = window_limits_doc l"
    unfolding window_limits_doc_def by (rule jsort_object) (simp_all add: lit_simps)
  show "jfits d (window_limits_doc l)" if "d + 1 \<le> MAX_JSON_DEPTH"
    using that b by (simp add: window_limits_doc_def lit_simps ceilings MAX_COUNT_def safe_int_def utf8_ok_def is_scalar_def)
qed

lemma configuration_facts:
  assumes "window_fold_ok w"
  shows "byte_len (dumps (window_configuration w)) \<le> 20000" "jsort (window_configuration w) = window_configuration w"
    "d + 2 \<le> MAX_JSON_DEPTH \<Longrightarrow> jfits d (window_configuration w)"
proof -
  have l: "window_limits_ok (wf_limits w)" and n: "is_label (wf_id w)" "is_label (wf_revision w)" "is_label (wf_tick_unit w)"
    and o: "\<bar>wf_origin w\<bar> \<le> MAX_COUNT" "\<bar>wf_hop w\<bar> \<le> MAX_COUNT" "\<bar>wf_width w\<bar> \<le> MAX_COUNT"
    using assms by (simp_all add: window_fold_ok_def abs_le_iff)
  note lf = limits_doc_facts [OF l]
  have late: "byte_len (dump_str (lit (late_name (wf_drop_late w)))) \<le> 8" "utf8_ok (lit (late_name (wf_drop_late w)))"
    by (simp_all add: late_name_def text_simps utf8_ok_def is_scalar_def)
  show "byte_len (dumps (window_configuration w)) \<le> 20000"
    unfolding window_configuration_def
    by (rule order_trans [OF byte_len_object])
      (use label_bytes [OF n(1)] label_bytes [OF n(2)] label_bytes [OF n(3)] lf(1) late(1)
         byte_len_int_str [OF o(1)] byte_len_int_str [OF o(2)] byte_len_int_str [OF o(3)]
       in \<open>simp add: window_limits_doc_def [symmetric] del: dumps.simps(7), simp add: text_simps\<close>)
  show "jsort (window_configuration w) = window_configuration w"
    unfolding window_configuration_def by (rule jsort_object) (simp_all add: lit_simps lf(2))
  have u: "utf8_ok (wf_id w)" "utf8_ok (wf_revision w)" "utf8_ok (wf_tick_unit w)" using n by (simp_all add: is_label_def)
  show "jfits d (window_configuration w)" if "d + 2 \<le> MAX_JSON_DEPTH"
    using that lf(3) [of "d + 1"] u o late(2)
    by (simp add: window_configuration_def lit_simps ceilings MAX_COUNT_def safe_int_def utf8_ok_def [of "_ # _"] is_scalar_def)
qed


lemma wcell_doc_facts:
  assumes "wcell_valid w ik c"
  shows "byte_len (dumps (wcell_doc c)) = wc_bytes c" "jsort (wcell_doc c) = wcell_doc c"
    "d + 1 \<le> MAX_JSON_DEPTH \<Longrightarrow> jfits d (wcell_doc c)"
proof -
  have mk: "make_wcell w (snd ik) (fst ik) (wc_count c) (wc_encoded c) = Inr c"
    and can: "canonical (wc_encoded c)" "is_label (snd ik)"
    using assms by (simp_all add: wcell_valid_def)
  note c = wcell_validD [OF assms]
  have g: "\<bar>fst ik\<bar> \<le> MAX_COUNT" "\<bar>wc_start c\<bar> \<le> MAX_COUNT" "\<bar>wc_end c\<bar> \<le> MAX_COUNT" "\<bar>wc_count c\<bar> \<le> MAX_COUNT"
    using c(7) make_wcell_Inr [OF mk] unfolding geometry_Inr by auto
  show sorted: "jsort (wcell_doc c) = wcell_doc c"
    unfolding wcell_doc_def by (rule jsort_object) (simp_all add: lit_simps)
  obtain u where "encode_json (wcell_doc c) (wc_bytes c) = Inr u" "byte_len u = wc_bytes c"
    using make_wcell_encoded [OF mk order_refl] by blast
  then show "byte_len (dumps (wcell_doc c)) = wc_bytes c" using encode_json_sorted [OF sorted] by blast
  show "jfits d (wcell_doc c)" if "d + 1 \<le> MAX_JSON_DEPTH"
    using that g can canonical_utf8_ok [OF can(1)] c(1,2)
    by (simp add: wcell_doc_def lit_simps ceilings MAX_COUNT_def safe_int_def utf8_ok_def [of "_ # _"] is_scalar_def is_label_def)
qed

lemma is_hex64_text: "is_hex64 s \<Longrightarrow> utf8_ok s \<and> byte_len (dump_str s) \<le> 386"
  using byte_len_dump_str [of s] by (auto simp: is_hex64_def list_all_iff lit_simps intro!: utf8_ok_list)

lemma body_facts:
  assumes w: "window_fold_ok w" and inv: "wstate_inv w s" and h: "is_hex64 identity"
  shows "byte_len (dumps (body_doc w s identity)) \<le> wl_state_bytes (wf_limits w) + wl_windows (wf_limits w) + 22000"
    and "jsort (body_doc w s identity) = body_doc w s identity" and "jfits 1 (body_doc w s identity)"
proof -
  define es where "es = sort_key fst (w_cells s)"
  have cok: "wcounters_ok w s" using inv by (simp add: wstate_inv_def)
  have valid: "wcell_valid w (fst e) (snd e)" if "e \<in> set es" for e
    using inv that by (simp add: wstate_inv_def es_def)
  note cf = configuration_facts [OF w] and wf = wcell_doc_facts [OF valid]
  have cells_sort: "jsort (JArr (map (\<lambda>e. wcell_doc (snd e)) es)) = JArr (map (\<lambda>e. wcell_doc (snd e)) es)"
    by (rule jsort_array) (simp add: list_all_iff wf)
  have "byte_len (dumps (JArr (map (\<lambda>e. wcell_doc (snd e)) es))) \<le> 2 + (\<Sum>e\<leftarrow>es. byte_len (dumps (wcell_doc (snd e))) + 1)"
    using byte_len_array [of "map (\<lambda>e. wcell_doc (snd e)) es"] by (simp add: comp_def)
  also have "(\<Sum>e\<leftarrow>es. byte_len (dumps (wcell_doc (snd e))) + 1) = (\<Sum>e\<leftarrow>es. wc_bytes (snd e) + 1)"
    by (intro arg_cong [where f = sum_list] map_cong) (simp_all add: wf(1))
  also have "\<dots> = w_bytes s + int (length (w_cells s))"
    using inv by (simp add: sum_list_addf sum_list_triv es_def sum_list_sort_int wstate_inv_def)
  finally have cells: "byte_len (dumps (JArr (map (\<lambda>e. wcell_doc (snd e)) es))) \<le> 2 + wl_state_bytes (wf_limits w) + wl_windows (wf_limits w)"
    using inv by (simp add: wstate_inv_def)
  have cn: "\<bar>x\<bar> \<le> MAX_COUNT" if "x \<in> {w_processed s, w_late s, w_gaps s, w_updates s, w_created s, w_emitted s, w_finalized s}" for x
    using cok that by (auto simp: wcounters_ok_def)
  have ci: "byte_len (int_str x) \<le> 17" if "x \<in> {w_processed s, w_late s, w_gaps s, w_updates s, w_created s, w_emitted s, w_finalized s}" for x
    using cn [OF that] by (rule byte_len_int_str)
  have counters: "byte_len (dumps (counters_doc s)) \<le> 400" "jsort (counters_doc s) = counters_doc s" "jfits 2 (counters_doc s)"
  proof -
    show "byte_len (dumps (counters_doc s)) \<le> 400"
      unfolding counters_doc_def
      by (rule order_trans [OF byte_len_object])
        (use ci [of "w_processed s"] ci [of "w_late s"] ci [of "w_gaps s"] ci [of "w_updates s"]
          ci [of "w_created s"] ci [of "w_emitted s"] ci [of "w_finalized s"] in \<open>simp add: text_simps\<close>)
    show "jsort (counters_doc s) = counters_doc s"
      unfolding counters_doc_def by (rule jsort_object) (simp_all add: lit_simps)
    show "jfits 2 (counters_doc s)"
      using cn by (simp add: counters_doc_def lit_simps ceilings MAX_COUNT_def safe_int_def utf8_ok_def [of "_ # _"] is_scalar_def)
  qed
  have phase: "byte_len (dump_str (lit (wphase_name p))) \<le> 10" "utf8_ok (lit (wphase_name p))" for p
    by (cases p; simp add: text_simps utf8_ok_def is_scalar_def)+
  define wm where "wm = (case w_watermark s of None \<Rightarrow> JNull | Some m \<Rightarrow> JInt m)"
  have wm: "byte_len (dumps wm) \<le> 17" "jsort wm = wm" "jfits 2 wm"
    using inv byte_len_int_str
    by (auto simp: wm_def wstate_inv_def text_simps ceilings MAX_COUNT_def safe_int_def split: option.splits)
  define cs where "cs = JArr (map (\<lambda>e. wcell_doc (snd e)) es)"
  have b: "body_doc w s identity = JObj [jfield ''cells'' cs,
      jfield ''configuration'' (window_configuration w), jfield ''counters'' (counters_doc s),
      jfield ''finished'' (JBool (w_finished s)), jfield ''identity'' (JStr identity), jfield ''kind'' (JStr window_kind),
      jfield ''phase'' (JStr (lit (wphase_name (ws_phase (the_status s))))),
      jfield ''version'' (JStr (lit ''1.0'')), jfield ''watermark'' wm]"
    by (simp add: body_doc_def cs_def es_def wm_def)
  have kind: "byte_len (dump_str window_kind) = 32" "utf8_ok window_kind"
    by (simp_all add: window_kind_def text_simps utf8_ok_def is_scalar_def)
  note hx = is_hex64_text [OF h]
  show "byte_len (dumps (body_doc w s identity)) \<le> wl_state_bytes (wf_limits w) + wl_windows (wf_limits w) + 22000"
    unfolding b
    by (rule order_trans [OF byte_len_object])
      (use cells [folded cs_def] cf(1) counters(1) phase(1) [of "ws_phase (the_status s)"] wm(1) kind(1) hx
       in \<open>simp add: text_simps(1,2) del: dumps.simps(6,7), simp add: text_simps\<close>)
  show "jsort (body_doc w s identity) = body_doc w s identity"
    unfolding b by (rule jsort_object) (simp_all add: lit_simps cells_sort [folded cs_def] cf(2) counters(2) wm(2) del: jsort.simps(1,2))
  have "jfits 2 cs"
    using wf(3) by (simp add: cs_def list_all_iff ceilings)
  then show "jfits 1 (body_doc w s identity)"
    unfolding b using cf(3) [of 2] counters(3) phase(2) wm(3) kind(2) hx
    by (simp add: lit_simps ceilings utf8_ok_def [of "_ # _"] is_scalar_def numeral_2_eq_2)
qed


definition window_document :: "window_fold \<Rightarrow> wstate \<Rightarrow> json" where
  "window_document w s =
     (let body = body_doc w s (sha256_hex (dumps (window_configuration w)))
      in JObj [jfield ''body'' body, jfield ''sha256'' (JStr (sha256_hex (dumps body)))])"

lemma identity_ok:
  assumes "window_fold_ok w"
  shows "window_identity w = Inr (sha256_hex (dumps (window_configuration w)))"
  using configuration_facts(1,2) [OF assms] configuration_facts(3) [OF assms, of 0]
    encode_json_ok [of 0 "window_configuration w" MAX_WIRE]
  by (simp add: window_identity_def MAX_WIRE_def ceilings)

lemma window_document_facts:
  assumes w: "window_fold_ok w" and inv: "wstate_inv w s"
  defines "body \<equiv> body_doc w s (sha256_hex (dumps (window_configuration w)))"
  shows "encode_json body MAX_WIRE = Inr (dumps body)"
    and "encode_json (window_document w s) MAX_WIRE = Inr (dumps (window_document w s))"
    and "jfits 0 (window_document w s)" "jsort (window_document w s) = window_document w s"
    and "byte_len (dumps (window_document w s)) \<le> MAX_WIRE"
proof -
  have l: "wl_state_bytes (wf_limits w) \<le> 64 * 1024 * 1024" "wl_windows (wf_limits w) \<le> 100000"
    using w by (simp_all add: window_fold_ok_def window_limits_ok_def window_ceilings_def)
  note b = body_facts [OF w inv sha256_hex_is_hex64, of "dumps (window_configuration w)", folded body_def]
  show eb: "encode_json body MAX_WIRE = Inr (dumps body)"
    using b l by (intro encode_json_ok [OF b(3) b(2)]) (simp add: MAX_WIRE_def)
  have doc: "window_document w s = JObj [jfield ''body'' body, jfield ''sha256'' (JStr (sha256_hex (dumps body)))]"
    by (simp only: window_document_def body_def Let_def)
  note hx = is_hex64_text [OF sha256_hex_is_hex64, of "dumps body"]
  show fits: "jfits 0 (window_document w s)"
    unfolding doc using b(3) hx by (simp add: lit_simps ceilings utf8_ok_def [of "_ # _"] is_scalar_def)
  show sorted: "jsort (window_document w s) = window_document w s"
    unfolding doc by (rule jsort_object) (simp_all add: lit_simps b(2))
  have "byte_len (dumps (window_document w s)) \<le> byte_len (dumps body) + 500"
    unfolding doc by (rule order_trans [OF byte_len_object]) (use hx in \<open>simp add: text_simps\<close>)
  then show le: "byte_len (dumps (window_document w s)) \<le> MAX_WIRE" using b(1) l by (simp add: MAX_WIRE_def)
  show "encode_json (window_document w s) MAX_WIRE = Inr (dumps (window_document w s))"
    by (rule encode_json_ok [OF fits sorted le])
qed

lemma validate_document:
  assumes w: "window_fold_ok w" and inv: "wstate_inv w s"
    and v: "v = w \<and> supplied = Some w \<or> v = inert w \<and> supplied = None"
  shows "validate_window (window_document w s) supplied = Inr (v, sorted_state s, dumps (window_document w s))"
proof -
  note d = window_document_facts [OF w inv]
  show ?thesis
    using validate_body [OF w inv identity_ok [OF w] sha256_hex_is_hex64 d(1) d(2) [unfolded window_document_def Let_def] v]
    by (simp only: window_document_def Let_def)
qed

lemma window_body_eq:
  assumes w: "window_fold_ok w" and inv: "wstate_inv w s"
  shows "window_body w s = Inr (body_doc w s (sha256_hex (dumps (window_configuration w))))"
  unfolding window_body_def identity_ok [OF w] rbind.simps wstate_inv_status [OF w inv] by (simp only: body_doc_def)

lemma make_window_document:
  assumes w: "window_fold_ok w" and inv: "wstate_inv w s"
  shows "make_window_checkpoint (window_document w s) = Inr (dumps (window_document w s))"
  unfolding make_window_checkpoint_def by (subst validate_document [OF w inv, of "inert w" None]) simp_all

lemma window_checkpoint_eq:
  assumes "window_rt_inv rt"
  shows "window_checkpoint_of rt = Inr (dumps (window_document (wt_spec rt) (wt_state rt)))"
proof -
  have w: "window_fold_ok (wt_spec rt)" and inv: "wstate_inv (wt_spec rt) (wt_state rt)" and nb: "\<not> wt_busy rt"
    using assms by (simp_all add: window_rt_inv_def)
  show ?thesis
    unfolding window_checkpoint_of_def window_body_eq [OF w inv] rbind.simps window_document_facts(1) [OF w inv]
    using nb make_window_document [OF w inv] by (simp only: window_document_def Let_def if_False)
qed

lemma window_checkpoint_dict:
  assumes w: "window_fold_ok w" and inv: "wstate_inv w s"
  shows "window_checkpoint_to_dict (dumps (window_document w s)) = Inr (window_document w s)"
proof -
  note d = window_document_facts [OF w inv]
  have load: "load_json (dumps (window_document w s)) = Inr (window_document w s)"
    by (rule load_json_clean [OF jfits_jclean [OF d(3)]])
  have btext: "bounded_text (dumps (window_document w s)) MAX_WIRE = Inr (dumps (window_document w s))"
    using d(5) utf8_ok_dumps [OF d(3)] by (simp add: bounded_text_iff)
  show ?thesis
    unfolding window_checkpoint_to_dict_def btext rbind.simps load
    using validate_document [OF w inv, of "inert w" None] by simp
qed

lemma window_restore_eq:
  assumes "window_rt_inv rt"
  shows "window_from_checkpoint (wt_spec rt) (dumps (window_document (wt_spec rt) (wt_state rt)))
    = Inr (rt\<lparr>wt_state := sorted_state (wt_state rt)\<rparr>)"
proof -
  have w: "window_fold_ok (wt_spec rt)" and inv: "wstate_inv (wt_spec rt) (wt_state rt)" and nb: "\<not> wt_busy rt"
    using assms by (simp_all add: window_rt_inv_def)
  have make: "make_window_runtime (wt_spec rt) = Inr \<lparr>wt_spec = wt_spec rt, wt_state = empty_wstate, wt_busy = False\<rparr>"
    using w by (simp add: make_window_runtime_def)
  show ?thesis
    unfolding window_from_checkpoint_def make rbind.simps window_checkpoint_dict [OF w inv]
    using validate_document [OF w inv, of "wt_spec rt" "Some (wt_spec rt)"] nb
    by (cases rt) simp
qed

end
