(* ===== verification/Window_Properties.thy ===== *)
theory Window_Properties
  imports Window_Finality Window_Recovery
begin

text \<open>
  The properties of the window fold, with a sample fold of overlapping windows on which every
  hypothesis is met.
\<close>

section \<open>A sample fold\<close>

fun add_one :: callback where
  "add_one [PInt n, v] = Inr (PInt (n + 1))"
| "add_one _ = Inl (CallbackError 3)"

definition sample_fold :: window_fold where
  "sample_fold = \<lparr>wf_id = [119], wf_revision = [49], wf_width = 10, wf_initial = zero_fun, wf_fold = add_one,
     wf_hop = 5, wf_origin = 0, wf_tick_unit = [116], wf_finalize = None, wf_drop_late = False,
     wf_limits = default_window_limits\<rparr>"

definition sample_window_rt :: window_runtime where
  "sample_window_rt = \<lparr>wt_spec = sample_fold, wt_state = empty_wstate, wt_busy = False\<rparr>"

lemma sample_fold_ok: "window_fold_ok sample_fold"
  by (simp add: window_fold_ok_def sample_fold_def is_label_char window_limits_ok_def default_window_limits_def
      window_ceilings_def MAX_COUNT_def)

lemma sample_window_rt_inv: "window_rt_inv sample_window_rt"
  by (rule make_window_runtime_inv [of sample_fold]) (simp add: make_window_runtime_def sample_fold_ok sample_window_rt_def)

lemma sample_state_inv: "wstate_inv sample_fold empty_wstate"
  using sample_fold_ok by (rule empty_wstate_inv)

definition sample_wcell :: "int \<Rightarrow> wcell" where
  "sample_wcell i = \<lparr>wc_key = [107], wc_index = i, wc_start = i * 5, wc_end = i * 5 + 10, wc_count = 1,
     wc_encoded = [49], wc_bytes = 68\<rparr>"

lemma more_digits: "int_str 5 = [53]" "int_str 10 = [49, 48]" "int_str 15 = [49, 53]"
  by (simp_all add: int_str_def nat_str.simps)

lemma sample_geometry: "geometry sample_fold 0 = Inr (0, 10)" "geometry sample_fold 1 = Inr (5, 15)"
  by (simp_all add: geometry_def sample_fold_def tick_def count_def MAX_COUNT_def)

lemma sample_row_size:
  "window_row_size (row_metadata [107] 0 0 10 [116] 1) [49] = Inr 82"
  "window_row_size (row_metadata [107] 1 5 15 [116] 1) [49] = Inr 82"
  by (simp_all add: window_row_size_def row_metadata_def encode_json_def Let_def text_simps int_digits more_digits
      MAX_WIRE_def utf8_ok_def is_scalar_def)

lemma sample_encode:
  "i = 0 \<or> i = 1 \<Longrightarrow> \<exists>u. encode_json (wcell_doc (sample_wcell i)) 16777216 = Inr u \<and> byte_len u = 68"
  by (auto simp: sample_wcell_def wcell_doc_def encode_json_def Let_def text_simps int_digits more_digits
      utf8_ok_def is_scalar_def)

lemma sample_make_wcell:
  assumes "i = 0 \<or> i = 1"
  shows "make_wcell sample_fold [107] i 1 [49] = Inr (sample_wcell i)"
proof -
  obtain u where u: "encode_json (wcell_doc (sample_wcell i)) 16777216 = Inr u" "byte_len u = 68"
    using sample_encode [OF assms] by blast
  have g: "geometry sample_fold i = Inr (i * 5, i * 5 + 10)" using assms sample_geometry by auto
  have c: "\<lparr>wc_key = [107], wc_index = i, wc_start = i * 5, wc_end = i * 5 + 10, wc_count = 1, wc_encoded = [49], wc_bytes = 0\<rparr>
      = sample_wcell i\<lparr>wc_bytes := 0\<rparr>" by (simp add: sample_wcell_def)
  have r: "window_row_size (row_metadata [107] i (i * 5) (i * 5 + 10) [116] 1) [49] = Inr 82"
    using assms sample_row_size by auto
  have l: "wl_state_bytes (wf_limits sample_fold) = 16777216" "wf_finalize sample_fold = None"
    "wf_tick_unit sample_fold = [116]" "wl_row_bytes (wf_limits sample_fold) = 1048576"
    by (simp_all add: sample_fold_def default_window_limits_def)
  have n: "count 1 1 MAX_COUNT = Inr 1" by (simp add: count_def MAX_COUNT_def)
  show ?thesis
    unfolding make_wcell_def g rbind.simps prod.case n Let_def c l wcell_doc_bytes u(1) r
    using u(2) by (simp add: check_def) (simp add: sample_wcell_def)
qed

definition sample_folded :: wstate where
  "sample_folded = \<lparr>w_cells = [((0, [107]), sample_wcell 0), ((1, [107]), sample_wcell 1)], w_watermark = None,
     w_finished = False, w_processed = 1, w_late = 0, w_gaps = 0, w_updates = 2, w_created = 2,
     w_emitted = 0, w_finalized = 0, w_bytes = 136\<rparr>"

definition sample_result :: window_result where
  "sample_result = \<lparr>wr_outcome = WFolded, wr_memberships = 2, wr_status = \<lparr>ws_phase = WOpen, ws_watermark = None,
     ws_finished = False, ws_retained = 2, ws_pending = 0\<rparr>\<rparr>"

lemma sample_fold_window:
  assumes "i = 0 \<or> i = 1"
  shows "fold_window sample_fold no_window_hooks [] [107] [49] i (cells, sz, h)
    = (if 16777216 < sz + 68 then Inl ValidationError else Inr (dput (i, [107]) (sample_wcell i) cells, sz + 68, h))"
proof -
  have l: "wl_state_bytes (wf_limits sample_fold) = 16777216" "wl_state_value_bytes (wf_limits sample_fold) = 1048576"
    "wf_initial sample_fold = zero_fun" "wf_fold sample_fold = add_one"
    by (simp_all add: sample_fold_def default_window_limits_def)
  have b: "wc_bytes (sample_wcell i) = 68" by (simp add: sample_wcell_def)
  show ?thesis
    by (simp add: fold_window_def Let_def stage_call_def window_invoke_def no_window_hooks_def l no_awaitable_def
        snapshot_digits decoded_def loads_digits prior_count_def sample_make_wcell [OF assms] b)
qed

lemma sample_fold_stage:
  "stage_process sample_fold no_window_hooks empty_wstate 7 (sample_record 107) ()
   = Inr (sample_folded, sample_result, ())"
proof -
  have idx: "member_indexes sample_fold 7 = [0, 1]"
    by (simp add: member_indexes_def first_index_def last_index_def sample_fold_def upto.simps)
  have fl: "first_index sample_fold 7 = 0" "last_index sample_fold 7 = 1"
    by (simp_all add: first_index_def last_index_def sample_fold_def)
  have l: "wf_limits sample_fold = default_window_limits" "wf_drop_late sample_fold = False"
    by (simp_all add: sample_fold_def)
  have st0: "status_of empty_wstate = Inr (the_status empty_wstate)"
    by (rule wstate_inv_status [OF sample_fold_ok sample_state_inv])
  have st1: "status_of sample_folded = Inr (wr_status sample_result)"
    by (simp add: status_of_def sample_folded_def sample_result_def pending_cells_def eligible_def phase_of_def
        window_status_check_def count_def window_ceilings_def)
  have cv: "checked_value [49] 1048576 = Inr [49]"
    by (simp add: checked_value_iff canonical_digits byte_len_Cons utf8_char_def)
  have res: "wh_reserve no_window_hooks cs n h = Inr h" for cs n and h :: unit by (simp add: no_window_hooks_def)
  have rc: "window_result_check \<lparr>wr_outcome = WFolded, wr_memberships = 2, wr_status = wr_status sample_result\<rparr> = Inr sample_result"
    by (simp add: window_result_check_def sample_result_def window_status_check_def phase_of_def count_def window_ceilings_def)
  have after: "empty_wstate\<lparr>w_cells := [((0, [107]), sample_wcell 0), ((1, [107]), sample_wcell 1)], w_processed := 1,
      w_updates := 2, w_created := 2, w_bytes := 136\<rparr> = sample_folded"
    by (simp add: empty_wstate_def sample_folded_def)
  have "stage_fold sample_fold no_window_hooks empty_wstate 7 [107] [49] 1 () = Inr (sample_folded, sample_result, ())"
    unfolding stage_fold_def fl idx l Let_def
    using st1 rc after
    by (simp add: sample_fold_window res empty_wstate_def sample_geometry count_def default_window_limits_def MAX_COUNT_def prior_count_def
        retained_keys_def prior_cells_def map_filter_simps)
  then show ?thesis
    unfolding stage_process_def st0 l
    by (simp add: phase_open [unfolded pending_cells_def] the_status_def phase_of_def pending_cells_def empty_wstate_def
        tick_def count_def MAX_COUNT_def sample_record_def wname_def key_def label_is_label is_label_char cv
        before_watermark_def default_window_limits_def)
qed


lemma sample_apply:
  "window_apply (WProcess 7 (sample_record 107)) sample_window_rt
   = (Inr (RProcessed sample_result), sample_window_rt\<lparr>wt_state := sample_folded\<rparr>)"
  using sample_fold_stage by (simp add: window_apply_def window_stage_def sample_window_rt_def Let_def)

lemma sample_folded_inv: "wstate_inv sample_fold sample_folded"
  by (rule stage_process_inv [OF sample_fold_ok sample_state_inv sample_fold_stage])

section \<open>Properties\<close>

text \<open>C13: an input is folded into exactly the windows whose half-open interval contains its
  timestamp: their counts grow by one, every other cell of every key is untouched. The number
  of windows is the reported fan-out, between the two quotients of width and hop.\<close>
theorem window_membership_exact:
  assumes "window_fold_ok w" "wstate_inv w s" "rec_key r = Some k"
    and "stage_process w hk s t r h = Inr (s', reply, h')" "wr_outcome reply = WFolded"
  shows "(k' = k \<and> window_start w i \<le> t \<and> t < window_end w i \<longrightarrow>
       (\<exists>c. dget (w_cells s') (i, k') = Some c \<and> wc_count c = prior_count (dget (w_cells s) (i, k')) + 1))
    \<and> (k' = k \<and> window_start w i \<le> t \<and> t < window_end w i
       \<or> dget (w_cells s') (i, k') = dget (w_cells s) (i, k'))
    \<and> wr_memberships reply = int (card {i. window_start w i \<le> t \<and> t < window_end w i})
    \<and> wf_width w div wf_hop w \<le> wr_memberships reply
    \<and> wr_memberships reply \<le> wf_width w div wf_hop w + (if wf_width w mod wf_hop w \<noteq> 0 then 1 else 0)"
proof -
  have hop: "1 \<le> wf_hop w" "1 \<le> wf_width w" using assms(1) by (simp_all add: window_fold_ok_def)
  have d: "dict_ok (w_cells s)" using assms(2) by (simp add: wstate_inv_def)
  have members: "set (member_indexes w t) = {i. window_start w i \<le> t \<and> t < window_end w i}"
    using member_index_iff [OF hop(1)] by blast
  have card: "card (set (member_indexes w t)) = length (member_indexes w t)"
    by (rule distinct_card) (simp add: member_indexes_def)
  from assms(4) show ?thesis
  proof (cases rule: window_process_Inr)
    case (1 k0 encoded)
    have "k0 = k" using 1(1) assms(3) by simp
    have nb: "\<not> before_watermark s t" using 1(7) assms(5) by auto
    from 1(8) [OF nb] d show ?thesis
    proof (cases rule: stage_fold_Inr)
      case gap
      then show ?thesis using assms(5) by simp
    next
      case (folded cells sz)
      note f = folded(3) [unfolded \<open>k0 = k\<close>]
      have s': "w_cells s' = cells" using folded(4) by simp
      have "wr_memberships reply = int (length (member_indexes w t))"
        using folded(11) length_member_indexes [of w t] by simp
      then show ?thesis
        using folded_cells_frame [OF f, of "(i, k')"] folded_cells_new [OF f, of i] make_wcell_Inr
          member_count_bounds [OF hop, of t] card folded(11)
        unfolding s' members by (auto simp: length_member_indexes)
    qed
  qed
qed

theorem window_membership_exact_witness:
  "(\<exists>c. dget (w_cells sample_folded) (1, [107]) = Some c
       \<and> wc_count c = prior_count (dget (w_cells empty_wstate) (1, [107])) + 1)
    \<and> wr_memberships sample_result = int (card {i. window_start sample_fold i \<le> 7 \<and> 7 < window_end sample_fold i})
    \<and> wf_width sample_fold div wf_hop sample_fold \<le> wr_memberships sample_result"
proof -
  have g: "window_start sample_fold 1 \<le> 7" "7 < window_end sample_fold 1"
    by (simp_all add: window_start_def window_end_def sample_fold_def)
  have "rec_key (sample_record 107) = Some [107]" "wr_outcome sample_result = WFolded"
    by (simp_all add: sample_record_def sample_result_def)
  then show ?thesis
    using window_membership_exact [OF sample_fold_ok sample_state_inv _ sample_fold_stage, where i = 1 and k' = "[107]" and k = "[107]"] g
    by blast
qed

text \<open>C14: whatever operations are called, the state stays consistent: every cell is
  well-formed, the byte total is exact and within the limits, and the seven counters satisfy
  every relation that the checkpoint validator demands; among them, the retained and the
  finalized input counts always add up to the membership updates.\<close>
theorem window_state_exact:
  assumes "window_rt_inv rt"
  shows "window_rt_inv (snd (run_ops window_apply ops rt))
    \<and> check_counters (wt_spec (snd (run_ops window_apply ops rt))) (wt_state (snd (run_ops window_apply ops rt))) = Inr ()"
  using window.run_inv [OF assms, of ops] by (simp add: list_all_iff window_rt_inv_def wstate_inv_def)

theorem window_state_exact_witness:
  "window_rt_inv (snd (run_ops window_apply [WProcess 7 (sample_record 107), WFinish] sample_window_rt))
    \<and> check_counters (wt_spec (snd (run_ops window_apply [WProcess 7 (sample_record 107), WFinish] sample_window_rt)))
        (wt_state (snd (run_ops window_apply [WProcess 7 (sample_record 107), WFinish] sample_window_rt))) = Inr ()"
  by (rule window_state_exact) (rule sample_window_rt_inv)

text \<open>Operations that raise (callback failures included) are erased: replaying only the
  operations that returned gives the same replies and the same final runtime.\<close>
lemma window_failures_erased:
  assumes "window_rt_inv rt"
  shows "run_ops window_apply (committed window_apply ops rt) rt
       = (filter succeeded (fst (run_ops window_apply ops rt)), snd (run_ops window_apply ops rt))"
  using assms by (rule window.run_committed) (simp add: list_all_iff)

text \<open>C15: windows are final: in any run, over all drains, no window of a key is emitted twice,
  because a window behind the watermark is never created again.\<close>
theorem windows_emitted_once:
  assumes "window_rt_inv rt"
  shows "distinct (emitted_keys (fst (run_ops window_apply ops rt)))"
  using run_emitted_once [OF assms] by blast

theorem windows_emitted_once_witness:
  "distinct (emitted_keys (fst (run_ops window_apply
     [WProcess 7 (sample_record 107), WFinish, WDrain 1, WDrain 1, WDrain 1] sample_window_rt)))"
  by (rule windows_emitted_once) (rule sample_window_rt_inv)

text \<open>C16: with the identity finalizer draining always succeeds and ends: as many drains as
  there are eligible windows suffice for any batch size, the rows come in (index, key) order,
  one for each eligible window, and none is left.\<close>
theorem window_drain_ends:
  assumes "window_fold_ok w" "wf_finalize w = None" "wstate_inv w s"
    and "1 \<le> m" "m \<le> wl_windows window_ceilings" "length (pending_cells s) \<le> n"
  shows "\<exists>rows t. drain_windows n w m s = Inr (rows, t) \<and> pending_cells t = [] \<and> wstate_inv w t
    \<and> map row_key rows = map fst (sort_key fst (pending_cells s))"
  using assms by (rule drain_windows_ends)

theorem window_drain_ends_witness:
  "\<exists>rows t. drain_windows 2 sample_fold 1 (sample_folded\<lparr>w_finished := True\<rparr>) = Inr (rows, t)
    \<and> pending_cells t = [] \<and> wstate_inv sample_fold t
    \<and> map row_key rows = map fst (sort_key fst (pending_cells (sample_folded\<lparr>w_finished := True\<rparr>)))"
proof (rule window_drain_ends [OF sample_fold_ok])
  show "wstate_inv sample_fold (sample_folded\<lparr>w_finished := True\<rparr>)"
    using sample_folded_inv by (simp add: wstate_inv_def wcounters_ok_def)
qed (simp_all add: sample_fold_def window_ceilings_def sample_folded_def pending_cells_def eligible_def)

text \<open>C17: a checkpoint of a reachable runtime always succeeds: its text is within 66 MiB, and
  restoring it (checksum, configuration digest, every cell and every counter are checked
  again) gives the same runtime with its cells in order.\<close>
theorem window_checkpoint_roundtrip:
  assumes "window_rt_inv rt"
  shows "\<exists>t. window_checkpoint_of rt = Inr t \<and> byte_len t \<le> MAX_WIRE
    \<and> window_from_checkpoint (wt_spec rt) t
        = Inr (rt\<lparr>wt_state := (wt_state rt)\<lparr>w_cells := sort_key fst (w_cells (wt_state rt))\<rparr>\<rparr>)"
  using window_checkpoint_eq [OF assms] window_restore_eq [OF assms] assms
    window_document_facts(5) [of "wt_spec rt" "wt_state rt"]
  by (simp add: sorted_state_def window_rt_inv_def)

theorem window_checkpoint_roundtrip_witness:
  "\<exists>t. window_checkpoint_of sample_window_rt = Inr t \<and> byte_len t \<le> MAX_WIRE
    \<and> window_from_checkpoint (wt_spec sample_window_rt) t
        = Inr (sample_window_rt\<lparr>wt_state := (wt_state sample_window_rt)
            \<lparr>w_cells := sort_key fst (w_cells (wt_state sample_window_rt))\<rparr>\<rparr>)"
  by (rule window_checkpoint_roundtrip) (rule sample_window_rt_inv)

end
