(* ===== verification/Wire_Cost.thy ===== *)
theory Wire_Cost
  imports Documents
begin

text \<open>
  A bound of the encoded size of a document that does not depend on the order of its fields:
  documents under it are always encoded.
\<close>

fun json_cost :: "json \<Rightarrow> int" where
  "json_cost (JStr s) = 2 + 6 * int (length s)"
| "json_cost (JInt i) = 17"
| "json_cost (JFloat f) = byte_len (dumps (JFloat f))"
| "json_cost (JArr xs) = 2 + (\<Sum>x\<leftarrow>xs. json_cost x + 1)"
| "json_cost (JObj kvs) = 2 + (\<Sum>(k, v)\<leftarrow>kvs. 2 + 6 * int (length k) + json_cost v + 2)"
| "json_cost _ = 5"

lemma json_cost_bound: "jclean v \<Longrightarrow> byte_len (dumps v) \<le> json_cost v"
proof (induction v rule: json_cost.induct)
  case (2 i)
  then show ?case using byte_len_int_str [of i] by (simp add: safe_int_def MAX_COUNT_def)
next
  case (4 xs)
  have "(\<Sum>x\<leftarrow>xs. byte_len (dumps x) + 1) \<le> (\<Sum>x\<leftarrow>xs. json_cost x + 1)"
    using 4 by (intro sum_list_mono) (auto simp: list_all_iff)
  with byte_len_array [of xs] show ?case by simp
next
  case (5 kvs)
  have "(\<Sum>(k, v)\<leftarrow>kvs. byte_len (dump_str k) + byte_len (dumps v) + 2)
      \<le> (\<Sum>(k, v)\<leftarrow>kvs. 2 + 6 * int (length k) + json_cost v + 2)"
    using 5 by (intro sum_list_mono) (fastforce simp: list_all_iff intro!: add_mono byte_len_dump_str)
  with byte_len_object [of kvs] show ?case by simp
qed (auto simp: byte_len_dump_str byte_len_Cons utf8_char_def lit_def split: bool.split)

lemma sum_list_sort_pairs: "sum_list (map f (sort_key g xs)) = (sum_list (map f xs) :: int)"
  by (metis mset_map mset_sort sum_mset_sum_list)

lemma json_cost_jsort: "json_cost (jsort v) = json_cost v"
proof (induction v rule: jsort.induct)
  case (1 xs)
  have "map (json_cost \<circ> jsort) xs = map json_cost xs" using 1 by simp
  then show ?case using 1 by (simp add: comp_def cong: map_cong)
next
  case (2 kvs)
  have "map (\<lambda>(k, v). 2 + 6 * int (length k) + json_cost v + 2) (map (\<lambda>(k, v). (k, jsort v)) kvs)
      = map (\<lambda>(k, v). 2 + 6 * int (length k) + json_cost v + 2) kvs"
    using 2 by auto
  then show ?case by (simp only: jsort.simps json_cost.simps sum_list_sort_pairs)
qed simp_all

lemma jclean_jsort: "jclean v \<Longrightarrow> jclean (jsort v)"
proof (induction v rule: jsort.induct)
  case (2 kvs)
  have k: "map fst (map (\<lambda>(k, v). (k, jsort v)) kvs) = map fst kvs" by (induction kvs) auto
  have "distinct (map fst (sort_key fst (map (\<lambda>(k, v). (k, jsort v)) kvs)))"
    using 2(2) by (metis (no_types) k distinct_map distinct_sort jclean.simps(5) mset_eq_imp_distinct_iff mset_map mset_sort)
  with 2 show ?case by (fastforce simp: list_all_iff)
qed (auto simp: list_all_iff)

text \<open>Documents under the bound are encoded.\<close>

lemma encode_json_cost: "jclean v \<Longrightarrow> json_cost v \<le> m \<Longrightarrow> encode_json v m = Inr (dumps (jsort v))"
  using json_cost_bound [OF jclean_jsort, of v]
  by (simp add: encode_json_def Let_def jclean_finite jclean_jsort jclean_utf8 json_cost_jsort)

end
