(* ===== verification/Window_Graph_Sample.thy ===== *)
theory Window_Graph_Sample
  imports Window_Calls Window_Properties Wire_Cost
begin

text \<open>
  A sample window graph, evaluated: a stateful step that counts per key, the sample window, and
  a step behind it that drops the key. An input is counted and folded into two windows, the
  source ends, and a drain sends one window through the part behind.
\<close>

section \<open>A sample graph\<close>

definition sample_wgraph :: window_graph where
  "sample_wgraph =
     \<lparr>wg_flow_id = [103], wg_revision = [49],
      wg_nodes = [GStep count_step, GOther [119] sample_fold, GStep (drop_step 116)],
      wg_edges = [\<lparr>edge_source = [110], edge_target = [119], edge_route = None\<rparr>,
                  \<lparr>edge_source = [119], edge_target = [116], edge_route = None\<rparr>],
      wg_entry = [110],
      wg_limits = \<lparr>wgl_graph = \<lparr>operator_limits = default_flow_limits, max_work_records = 10000,
                      max_work_bytes = 64 * 1024 * 1024\<rparr>,
                   wgl_cells = 1000, wgl_bytes = 1048576, wgl_inputs = 1000\<rparr>\<rparr>"

definition sample_plan :: graph_plan where
  "sample_plan = \<lparr>pl_order = [[110], [119], [116]], pl_window = [119], pl_fold = sample_fold, pl_prefix = [[110]], pl_cap = 16\<rparr>"

lemma utf8_ok_Cons: "utf8_ok (c # s) \<longleftrightarrow> is_scalar c \<and> utf8_ok s"
  by (simp add: utf8_ok_def)

lemmas clean_simps = lit_simps utf8_ok_Cons is_scalar_def safe_int_def

lemma sample_plain_check: "graph_check (plain_graph sample_wgraph) = Inr [[110], [119], [116]]"
proof -
  have ids: "map node_id (gd_nodes (plain_graph sample_wgraph)) = [[110], [119], [116]]"
    by (simp add: plain_graph_def sample_wgraph_def count_step_def drop_step_def lit_simps)
  have "topological_order [[110], [119], [116]] (edges_into (gd_edges (plain_graph sample_wgraph))) = Inr [[110], [119], [116]]"
    by (simp add: topological_order_def topological_loop.simps dict_fromkeys_def sample_wgraph_def plain_graph_def
        edges_into_def node_ready_def)
  moreover have "set (fold (mark_targets (edges_from (gd_edges (plain_graph sample_wgraph)))) [[110], [119], [116]] [gd_entry (plain_graph sample_wgraph)])
      = set [[110], [119], [116]]"
    by (auto simp: sample_wgraph_def plain_graph_def mark_targets_def edges_from_def)
  moreover have "list_all (node_arity_ok (gd_edges (plain_graph sample_wgraph)) (gd_entry (plain_graph sample_wgraph)))
      (gd_nodes (plain_graph sample_wgraph))"
    by (auto simp: sample_wgraph_def plain_graph_def node_arity_ok_def edges_from_def edges_into_def drop_step_def
        count_step_def lit_simps)
  moreover have "graph_limits_ok (gd_limits (plain_graph sample_wgraph))"
    by (simp add: sample_wgraph_def plain_graph_def graph_limits_ok_def default_limits_ok)
  moreover have "flow_step_ok \<lparr>step_id = [119], step_op = OMap, step_function = Some unavailable, step_initial = None\<rparr>"
    by (simp add: flow_step_ok_def is_stateful_def is_label_char)
  then have "list_all graph_node_ok (gd_nodes (plain_graph sample_wgraph))"
    by (simp add: sample_wgraph_def plain_graph_def drop_step_ok count_step_ok)
  moreover have "list_all (\<lambda>e. flow_edge_ok e \<and> edge_source e \<in> set [[110], [119], [116]]
      \<and> edge_target e \<in> set [[110], [119], [116]]) (gd_edges (plain_graph sample_wgraph))"
    "distinct (gd_edges (plain_graph sample_wgraph))" "length (gd_edges (plain_graph sample_wgraph)) = 2"
    by (simp_all add: sample_wgraph_def plain_graph_def flow_edge_ok_def is_label_char)
  moreover have "is_label (gd_flow_id (plain_graph sample_wgraph))" "is_label (gd_revision (plain_graph sample_wgraph))"
    "is_label (gd_entry (plain_graph sample_wgraph))" "gd_entry (plain_graph sample_wgraph) \<in> set [[110], [119], [116]]"
    by (simp_all add: sample_wgraph_def plain_graph_def is_label_char)
  ultimately show ?thesis
    unfolding graph_check_def ids Let_def by (simp only: rbind.simps) simp
qed

lemmas sample_docs =
  window_graph_to_dict_def sample_wgraph_def edge_doc_def window_graph_limits_doc_def graph_limits_doc_def
  flow_limits_doc_def window_node_doc_def window_configuration_def sample_fold_def window_limits_doc_def late_name_def
  default_window_limits_def default_flow_limits_def policies_doc_def count_step_def drop_step_def

lemma sample_manifest:
  "jclean (window_graph_to_dict sample_wgraph)" "json_cost (window_graph_to_dict sample_wgraph) \<le> 20000"
  by (simp_all add: sample_docs clean_simps)

lemma sample_identity:
  "encode_json (window_graph_to_dict sample_wgraph) MAX_MANIFEST = Inr (dumps (jsort (window_graph_to_dict sample_wgraph)))"
  using sample_manifest by (intro encode_json_cost) (simp_all add: MAX_MANIFEST_def)

lemma is_hex64_clean: "is_hex64 s \<Longrightarrow> utf8_ok s \<and> length s = 64"
  using is_hex64_text by (simp add: is_hex64_def)

lemma sample_header: "\<exists>n. header_reservation sample_wgraph sample_fold = Inr n"
proof -
  define hex where "hex = sha256_hex (dumps (window_configuration sample_fold))"
  define identity where "identity = sha256_hex (dumps (jsort (window_graph_to_dict sample_wgraph)))"
  define s where "s = \<lparr>gs_ordinary = [], gs_ordinary_bytes = 0, gs_cell_bytes = 0, gs_window = empty_wstate,
                      gs_next = MAX_COUNT, gs_operations = MAX_COUNT, gs_watermarks = MAX_COUNT, gs_drains = MAX_COUNT,
                      gs_emitted = MAX_COUNT, gs_edges = replicate (length (wg_edges sample_wgraph)) MAX_COUNT\<rparr>"
  have hx: "utf8_ok hex" "length hex = 64" "utf8_ok identity" "length identity = 64"
    using is_hex64_clean [OF sha256_hex_is_hex64] by (simp_all add: hex_def identity_def)
  have ident: "window_graph_identity sample_wgraph = Inr identity"
    by (simp add: window_graph_identity_def sample_identity identity_def)
  have body: "window_body sample_fold empty_wstate = Inr (body_doc sample_fold empty_wstate hex)"
    unfolding hex_def by (rule window_body_eq [OF sample_fold_ok sample_state_inv])
  have zeros: "utf8_ok (replicate 64 (lit ''0'' ! 0))" by (simp add: utf8_ok_def lit_simps is_scalar_def list_all_iff)
  define widest where "widest = (case body_doc sample_fold empty_wstate hex of JObj kvs \<Rightarrow>
      JObj (dput (lit ''watermark'') (JInt (- MAX_COUNT)) (dput (lit ''finished'') (JBool False)
         (dput (lit ''phase'') (JStr (lit ''draining'')) (dput (lit ''counters'') max_counters kvs)))) | j \<Rightarrow> j)"
  have w: "jclean widest" "json_cost widest \<le> 20000"
    using hx(1,2)
    by (simp_all add: widest_def body_doc_def max_counters_def counters_doc_def window_configuration_def sample_fold_def
        window_limits_doc_def late_name_def default_window_limits_def clean_simps window_kind_def MAX_COUNT_def
        empty_wstate_def the_status_def Let_def phase_of_def pending_cells_def)
  define doc where "doc = signed_doc (graph_body sample_wgraph identity s (signed_doc widest (replicate 64 (lit ''0'' ! 0)))) (replicate 64 (lit ''0'' ! 0))"
  have "jclean doc" "json_cost doc \<le> 100000"
    using hx(3,4) w sample_manifest zeros
    by (simp_all add: doc_def signed_doc_def graph_body_def s_def clean_simps MAX_COUNT_def list_all_iff sum_list_replicate
        sample_wgraph_def [THEN arg_cong [where f = wg_edges]] empty_wstate_def)
  then have "\<exists>t. encode_json doc MAX_HEADER = Inr t" using encode_json_cost [of doc MAX_HEADER] by (simp add: MAX_HEADER_def)
  moreover have "header_reservation sample_wgraph sample_fold = rbind (encode_json doc MAX_HEADER) (\<lambda>t. Inr (byte_len t))"
    unfolding header_reservation_def body rbind.simps doc_def widest_def s_def ident Let_def
    by (simp add: body_doc_def)
  ultimately show ?thesis by auto
qed

lemma sample_wgraph_check: "window_graph_check sample_wgraph = Inr sample_plan"
proof -
  obtain n where n: "header_reservation sample_wgraph sample_fold = Inr n" using sample_header by blast
  have nodes: "window_nodes (wg_nodes sample_wgraph) = [([119], sample_fold)]"
    by (simp add: window_nodes_def sample_wgraph_def)
  have ok: "list_all window_node_ok (wg_nodes sample_wgraph)"
    using sample_fold_ok by (simp add: sample_wgraph_def count_step_ok drop_step_ok flow_window_ok_def is_label_char)
      (simp add: sample_fold_def)
  have lim: "window_graph_limits_ok (wg_limits sample_wgraph)"
    by (simp add: sample_wgraph_def window_graph_limits_ok_def graph_limits_ok_def default_limits_ok MAX_GRAPH_CELLS_def
        MAX_GRAPH_STATE_def MAX_COUNT_def)
  have prefix: "fold (mark_bypass (wg_edges sample_wgraph) [119]) [[110], [119], [116]] [wg_entry sample_wgraph] = [[110]]"
    by (simp add: sample_wgraph_def mark_bypass_def edges_from_def)
  have sinks: "\<not> list_ex (\<lambda>k. k \<in> set [[110]] \<and> edges_from (wg_edges sample_wgraph) k = []) (map node_id (wg_nodes sample_wgraph))"
    by (simp add: sample_wgraph_def edges_from_def)
  have copies: "length (edges_from (wg_edges sample_wgraph) [119]) = 1" by (simp add: sample_wgraph_def edges_from_def)
  have row: "row_reservable (wgl_graph (wg_limits sample_wgraph)) sample_fold 2"
    by (simp add: row_reservable_def sample_wgraph_def sample_fold_def default_window_limits_def default_flow_limits_def)
  have cap: "graph_drain_cap (wgl_graph (wg_limits sample_wgraph)) sample_fold 2 = 16"
    by (simp add: graph_drain_cap_def sample_wgraph_def sample_fold_def default_window_limits_def default_flow_limits_def Let_def)
  have ids: "is_label (wg_flow_id sample_wgraph) \<and> is_label (wg_revision sample_wgraph) \<and> is_label (wg_entry sample_wgraph)"
    "length (wg_nodes sample_wgraph) = 3" "length (wg_edges sample_wgraph) = 2" "[119] \<noteq> wg_entry sample_wgraph"
    by (simp_all add: sample_wgraph_def is_label_char)
  show ?thesis
    unfolding window_graph_check_def Let_def nodes sample_plain_check sample_identity list.case prod.case rbind.simps n prefix
    using ids ok lim sinks row cap by (simp add: copies sample_plan_def)
qed

definition sample_wgraph_rt :: wgraph_runtime where
  "sample_wgraph_rt = \<lparr>gw_flow = sample_wgraph, gw_plan = sample_plan, gw_state = empty_graph_state sample_wgraph, gw_busy = False\<rparr>"

lemma sample_make_wgraph: "make_wgraph_runtime sample_wgraph = Inr sample_wgraph_rt"
  by (simp add: make_wgraph_runtime_def sample_wgraph_check sample_wgraph_rt_def)

lemma sample_wgraph_rt_inv: "wgraph_rt_inv sample_wgraph_rt"
  using empty_graph_inv [OF sample_wgraph_check] by (simp add: wgraph_rt_inv_def sample_wgraph_rt_def)

text \<open>The window stage under the hooks of the sample graph.\<close>

lemma hooked_fold_window:
  assumes "i = 0 \<or> i = 1" "tx_calls tx \<le> 100" "gh_cells h \<le> 100" "gh_bytes h \<le> 10000"
  shows "fold_window sample_fold (stage_hooks sample_wgraph f) [] [107] [49] i (cells, sz, tx, h)
    = (if 16777216 < sz + 68 then Inl ValidationError
       else Inr (dput (i, [107]) (sample_wcell i) cells, sz + 68, tx\<lparr>tx_calls := tx_calls tx + 2\<rparr>, h\<lparr>gh_bytes := gh_bytes h + 68\<rparr>))"
proof -
  have l: "wl_state_bytes (wf_limits sample_fold) = 16777216" "wl_state_value_bytes (wf_limits sample_fold) = 1048576"
    "wf_initial sample_fold = zero_fun" "wf_fold sample_fold = add_one"
    by (simp_all add: sample_fold_def default_window_limits_def)
  have b: "wc_bytes (sample_wcell i) = 68" by (simp add: sample_wcell_def)
  have g: "max_calls_per_input (operator_limits (wgl_graph (wg_limits sample_wgraph))) = 10000"
    "wgl_cells (wg_limits sample_wgraph) = 1000" "wgl_bytes (wg_limits sample_wgraph) = 1048576"
    by (simp_all add: sample_wgraph_def default_flow_limits_def)
  show ?thesis using assms
    by (simp add: fold_window_def Let_def stage_call_def window_invoke_def stage_hooks_def l no_awaitable_def g cells_admit_def
        cells_check_def snapshot_digits decoded_def loads_digits prior_count_def sample_make_wcell [OF assms(1)] b)
qed

lemma hooked_stage:
  assumes "tx_calls tx \<le> 10" "gh_cells h \<le> 10" "gh_bytes h \<le> 1000"
  shows "stage_process sample_fold (stage_hooks sample_wgraph f) empty_wstate 7 (sample_record 107) (tx, h)
   = Inr (sample_folded, sample_result, tx\<lparr>tx_calls := tx_calls tx + 4\<rparr>,
       h\<lparr>gh_cells := gh_cells h + 2, gh_bytes := gh_bytes h + 136\<rparr>)"
proof -
  have idx: "member_indexes sample_fold 7 = [0, 1]"
    by (simp add: member_indexes_def first_index_def last_index_def sample_fold_def upto.simps)
  have fl: "first_index sample_fold 7 = 0" "last_index sample_fold 7 = 1"
    by (simp_all add: first_index_def last_index_def sample_fold_def)
  have l: "wf_limits sample_fold = default_window_limits" "wf_drop_late sample_fold = False"
    by (simp_all add: sample_fold_def)
  have st0: "status_of empty_wstate = Inr (the_status empty_wstate)"
    by (rule wstate_inv_status [OF sample_fold_ok sample_state_inv])
  have st1: "status_of sample_folded = Inr (wr_status sample_result)"
    by (simp add: status_of_def sample_folded_def sample_result_def pending_cells_def eligible_def phase_of_def
        window_status_check_def count_def window_ceilings_def)
  have cv: "checked_value [49] 1048576 = Inr [49]"
    by (simp add: checked_value_iff canonical_digits byte_len_Cons utf8_char_def)
  have res: "wh_reserve (stage_hooks sample_wgraph f) [] 2 (tx, h) = Inr (tx, h\<lparr>gh_cells := gh_cells h + 2\<rparr>)"
    using assms by (simp add: stage_hooks_def cells_reserve_def cells_check_def sample_wgraph_def)
  have rc: "window_result_check \<lparr>wr_outcome = WFolded, wr_memberships = 2, wr_status = wr_status sample_result\<rparr> = Inr sample_result"
    by (simp add: window_result_check_def sample_result_def window_status_check_def phase_of_def count_def window_ceilings_def)
  have after: "empty_wstate\<lparr>w_cells := [((0, [107]), sample_wcell 0), ((1, [107]), sample_wcell 1)], w_processed := 1,
      w_updates := 2, w_created := 2, w_bytes := 136\<rparr> = sample_folded"
    by (simp add: empty_wstate_def sample_folded_def)
  have "stage_fold sample_fold (stage_hooks sample_wgraph f) empty_wstate 7 [107] [49] 1 (tx, h)
      = Inr (sample_folded, sample_result, tx\<lparr>tx_calls := tx_calls tx + 4\<rparr>, h\<lparr>gh_cells := gh_cells h + 2, gh_bytes := gh_bytes h + 136\<rparr>)"
    unfolding stage_fold_def fl idx l Let_def
    using st1 rc after assms
    by (simp add: hooked_fold_window res empty_wstate_def sample_geometry count_def default_window_limits_def MAX_COUNT_def prior_count_def
        retained_keys_def prior_cells_def map_filter_simps)
  then show ?thesis
    unfolding stage_process_def st0 l
    by (simp add: phase_open [unfolded pending_cells_def] the_status_def phase_of_def pending_cells_def empty_wstate_def
        tick_def count_def MAX_COUNT_def sample_record_def wname_def key_def label_is_label is_label_char cv
        before_watermark_def default_window_limits_def)
qed

text \<open>An input that counts its key and is folded into two windows.\<close>

definition sample_input :: wgraph_input where
  "sample_input = \<lparr>gi_position = 0, gi_timestamp = 7, gi_record = sample_record 107\<rparr>"

lemma sample_input_ok: "wgraph_op_ok (GInput sample_input)"
  by (simp add: wgraph_op_ok_def sample_input_def sample_record_ok)

lemma ordinary_sample: "ordinary_size ([110], [107]) [49] = Inr 37"
  by (simp add: ordinary_size_def ordinary_wire_def encode_json_def Let_def text_simps MAX_GRAPH_STATE_def utf8_ok_def is_scalar_def)

lemmas eval_wgraph =
  walk_graph_def walk_node_def walk_node_body_def run_node_def node_input_def deliver_def take_mail_def
  window_walk_def node_of_def edges_into_def edges_from_def count_step_def drop_step_def lit_simps ddel_def
  window_extension_def count_delivery_def edge_index_def work_charge_def work_ensure_def cells_ordinary_def opt_size_def cells_check_def

lemma sample_selectors:
  "operator_limits (wgl_graph (wg_limits sample_wgraph)) = default_flow_limits"
  "max_work_records (wgl_graph (wg_limits sample_wgraph)) = 10000"
  "max_work_bytes (wgl_graph (wg_limits sample_wgraph)) = 67108864"
  "wgl_cells (wg_limits sample_wgraph) = 1000" "wgl_bytes (wg_limits sample_wgraph) = 1048576" "wgl_inputs (wg_limits sample_wgraph) = 1000"
  "wg_nodes sample_wgraph = [GStep count_step, GOther [119] sample_fold, GStep (drop_step 116)]"
  "wg_edges sample_wgraph = [\<lparr>edge_source = [110], edge_target = [119], edge_route = None\<rparr>,
                  \<lparr>edge_source = [119], edge_target = [116], edge_route = None\<rparr>]"
  "wg_entry sample_wgraph = [110]"
  "pl_window sample_plan = [119]" "pl_fold sample_plan = sample_fold" "pl_order sample_plan = [[110], [119], [116]]"
  by (simp_all add: sample_wgraph_def sample_plan_def)

lemma sample_begin:
  "begin_hook (empty_graph_state sample_wgraph) =
     \<lparr>gh_cells = 0, gh_bytes = 0, gh_records = 0, gh_work = 0, gh_reserved_records = 0, gh_reserved_work = 0, gh_edges = [0, 0],
      gh_window = empty_wstate, gh_outputs = []\<rparr>"
  by (simp add: begin_hook_def empty_graph_state_def sample_selectors) (simp add: empty_wstate_def)

definition after_input :: wgraph_state where
  "after_input = \<lparr>gs_ordinary = [(([110], [107]), [49])], gs_ordinary_bytes = 1, gs_cell_bytes = 173,
     gs_window = sample_folded, gs_next = 1, gs_operations = 1, gs_watermarks = 0, gs_drains = 0,
     gs_emitted = 0, gs_edges = [1, 0]\<rparr>"

lemma sample_walk:
  "walk_graph ((window_walk sample_wgraph [])\<lparr>wp_seeds := [([110], [sample_record 107])],
         wp_extension := Some (window_extension sample_wgraph sample_plan 7)\<rparr>) [[110], [119], [116]]
         (begin_tx [] 0, (begin_hook (empty_graph_state sample_wgraph))\<lparr>gh_records := 1, gh_work := 1\<rparr>)
   = Inr ([], \<lparr>tx_pending = [(([110], [107]), Some [49])], tx_keys = 1, tx_bytes = 1, tx_calls = 6\<rparr>,
       \<lparr>gh_cells = 3, gh_bytes = 173, gh_records = 3, gh_work = 3, gh_reserved_records = 0, gh_reserved_work = 0,
        gh_edges = [1, 0], gh_window = sample_folded, gh_outputs = []\<rparr>)"
proof -
  have r: "sample_record 107 = \<lparr>rec_key = Some [107], rec_json = [49]\<rparr>" by (simp add: sample_record_def)
  note fold = hooked_stage [unfolded r]
  show ?thesis
    by (simp add: eval_wgraph eval_step sample_selectors sample_begin r ordinary_sample fold_record_def fold count_def MAX_COUNT_def)
qed

lemma sample_execute:
  "\<exists>b. execute_input sample_wgraph sample_plan sample_input (empty_graph_state sample_wgraph) = Inr (after_input, b)"
proof -
  define s0 where "s0 = empty_graph_state sample_wgraph"
  note w = sample_walk [folded s0_def]
  have c: "work_charge (wgl_graph (wg_limits sample_wgraph)) (sample_record 107) (begin_hook s0)
      = Inr ((begin_hook s0)\<lparr>gh_records := 1, gh_work := 1\<rparr>)"
    by (simp add: work_charge_def work_ensure_def sample_selectors s0_def sample_begin sample_record_def rec_size_def
        default_flow_limits_def byte_len_Cons utf8_char_def)
  have st: "status_of sample_folded = Inr (wr_status sample_result)" "window_status_check (wr_status sample_result) = Inr (wr_status sample_result)"
    by (simp_all add: status_of_def sample_folded_def sample_result_def pending_cells_def eligible_def phase_of_def
        window_status_check_def count_def window_ceilings_def)
  have e: "gs_ordinary s0 = []" "gs_ordinary_bytes s0 = 0" "gs_window s0 = empty_wstate" "gs_next s0 = 0" "gs_operations s0 = 0"
     "gs_watermarks s0 = 0" "gs_drains s0 = 0" "gs_emitted s0 = 0"
    by (simp_all add: s0_def empty_graph_state_def)
  have "\<exists>b. graph_batch s0 after_input [] = Inr b"
    by (simp add: graph_batch_def Let_def wgraph_batch_check_def st e after_input_def)
      (simp add: sample_folded_def empty_wstate_def count_def MAX_COUNT_def MAX_GRAPH_CELLS_def)
  then show ?thesis
    unfolding execute_input_def s0_def [symmetric]
    by (auto simp: sample_input_def c sample_selectors e w commit_graph_def Let_def commit_tx_def after_input_def)
qed

section \<open>A closed window of the sample\<close>

definition sample_row :: window_row where
  "sample_row = \<lparr>wo_key = [107], wo_index = 0, wo_start = 0, wo_end = 10, wo_tick_unit = [116], wo_count = 1, wo_json = [49]\<rparr>"

lemma sample_json: "wo_json sample_row = [49]" "wo_key sample_row = [107]" by (simp_all add: sample_row_def)
lemma sample_row_record:
  "\<exists>t. window_row_to_record sample_row = Inr \<lparr>rec_key = Some [107], rec_json = t\<rparr> \<and> canonical t \<and> byte_len t \<le> 1000"
proof -
  define j where "j = JObj (ddel (lit ''key'') (wrow_metadata sample_row) @ [jfield ''value'' (JInt 1)])"
  have l: "loads no_hooks [49] = Inr (JInt 1)" by (simp add: loads_digits)
  have c: "jclean j" "json_cost j \<le> 1000"
    by (simp_all add: j_def wrow_metadata_def row_metadata_def sample_row_def clean_simps ddel_def)
  then have b: "byte_len (dumps j) \<le> 1000" using json_cost_bound [OF c(1)] by simp
  have "jclean (JObj [(value_name, j)])" "json_cost (JObj [(value_name, j)]) \<le> 2000"
    using c by (simp_all add: value_name_def clean_simps)
  then have w: "utf8_len (dumps (JObj [(value_name, j)])) \<le> 2000"
    using json_cost_bound [of "JObj [(value_name, j)]"] by (simp add: byte_len_def del: dumps.simps)
  have f: "jfits 1 j" "jnodes j \<le> 10" "jsort j = j"
    by (simp_all add: j_def wrow_metadata_def row_metadata_def sample_row_def clean_simps ddel_def ceilings)
  have s: "snapshot_json j" using w f by (simp add: snapshot_json_def ceilings del: dumps.simps)
  have "snapshot (py_of_json j) MAX_RECORD = Inr (dumps j)" using snapshot_complete [OF s] b by (simp add: MAX_RECORD_def)
  moreover have "window_row_to_record sample_row = make_record (py_of_json j) (Some [107])"
    by (simp only: window_row_to_record_def sample_json l rbind.simps j_def)
  ultimately have "window_row_to_record sample_row = Inr \<lparr>rec_key = Some [107], rec_json = dumps j\<rparr>"
    by (simp add: make_record_def key_def label_is_label is_label_char)
  then show ?thesis using s b canonical_iff by blast
qed

lemma sample_drain_row: "drain_row sample_fold hk (sample_wcell 0) ([], h) = rbind (wh_row hk sample_row h) (\<lambda>h. Inr ([sample_row], h))"
proof -
  have "make_window_row [107] 0 0 10 [116] 1 (py_of_json (JInt 1)) = Inr sample_row"
    by (simp add: make_window_row_def wname_def key_def label_is_label is_label_char tick_def count_def MAX_COUNT_def
        snapshot_digits window_ceilings_def sample_row_size sample_row_def)
  then show ?thesis
    by (simp add: drain_row_def sample_wcell_def decoded_def loads_digits sample_fold_def wrow_bytes_def wrow_metadata_def
       default_window_limits_def) (simp add: sample_row_def sample_row_size)
qed

lemma drop_one:
  assumes r: "record_ok r" "rec_size r \<le> 1000"
  shows "apply_step default_flow_limits hk base (drop_step 116) [r] (tx, h)
    = (case on_emit hk (r\<lparr>rec_key := None\<rparr>) h of Inl _ \<Rightarrow> Inl (FlowExecutionError [116])
       | Inr h' \<Rightarrow> Inr ([r\<lparr>rec_key := None\<rparr>], tx, h'))"
proof -
  obtain v where v: "rec_value r = Inr v" using rec_value_total r(1) by blast
  then have "make_record v (rec_key r) = Inr r" by (rule make_record_value [OF r(1)])
  then have m: "make_record v None = Inr (r\<lparr>rec_key := None\<rparr>)"
    by (cases r) (auto simp: make_record_def)
  have z: "rec_size (r\<lparr>rec_key := None\<rparr>) = rec_size r" by (simp add: rec_size_def)
  show ?thesis
    using r(2) by (cases "on_emit hk (r\<lparr>rec_key := None\<rparr>) h")
      (simp_all add: apply_step_def drop_step_def apply_item_def v emit_def m z default_flow_limits_def Let_def)
qed

definition sample_folded_state :: wgraph_state where
  "sample_folded_state = \<lparr>gs_ordinary = [(([110], [107]), [49])], gs_ordinary_bytes = 1, gs_cell_bytes = 173,
     gs_window = sample_folded\<lparr>w_finished := True\<rparr>, gs_next = 1, gs_operations = 2, gs_watermarks = 0, gs_drains = 0,
     gs_emitted = 0, gs_edges = [1, 0]\<rparr>"

lemma sample_node_of: "node_of [GStep count_step, GOther [119] sample_fold, GStep (drop_step 116)] [110] = GStep count_step"
   "node_of [GStep count_step, GOther [119] sample_fold, GStep (drop_step 116)] [119] = GOther [119] sample_fold"
   "node_of [GStep count_step, GOther [119] sample_fold, GStep (drop_step 116)] [116] = GStep (drop_step 116)"
  by (simp_all add: node_of_def count_step_def drop_step_def lit_simps)

lemma no_items: "apply_step lim hk base step [] (tx, h) = Inr ([], tx, h)"
  by (simp add: apply_step_def)

lemma sample_row_walk:
  assumes r: "record_ok r" "rec_size r \<le> 1000"
    and h: "gh_edges h = [1, 0]" "gh_records h \<le> 10" "gh_work h \<le> 10" "gh_reserved_records h = 0" "gh_reserved_work h = 0"
  shows "\<exists>h'. walk_graph ((window_walk sample_wgraph base)\<lparr>wp_seed_outputs := [([119], [r])]\<rparr>) [[110], [119], [116]] (tx, h)
     = Inr ([\<lparr>out_step = [116], out_record = r\<lparr>rec_key := None\<rparr>\<rparr>], tx, h')
     \<and> gh_reserved_records h' = 0 \<and> gh_reserved_work h' = 0 \<and> gh_outputs h' = gh_outputs h"
proof -
  have z: "rec_size (r\<lparr>rec_key := None\<rparr>) = rec_size r" "0 \<le> rec_size r" by (simp_all add: rec_size_def)
  have d: "max_record_bytes default_flow_limits = 1048576" "step_id count_step = [110]" by (simp_all add: default_flow_limits_def count_step_def lit_simps)
  show ?thesis
    using r h z
    apply (simp add: walk_graph_def walk_node_def walk_node_body_def run_node_def node_input_def deliver_def take_mail_def
  window_walk_def sample_node_of edges_into_def edges_from_def lit_simps ddel_def drop_one sample_selectors d
  count_delivery_def edge_index_def work_charge_def work_ensure_def count_def MAX_COUNT_def Let_def no_items)
    done
qed

lemma sample_finish:
  "\<exists>b. graph_finish_op 1 after_input = Inr (sample_folded_state, b)"
proof -
  have st: "\<exists>x. status_of (sample_folded\<lparr>w_finished := True\<rparr>) = Inr x \<and> window_status_check x = Inr x"
    by (simp add: status_of_def sample_folded_def pending_cells_def eligible_def phase_of_def
        window_status_check_def count_def window_ceilings_def)
  then obtain x where st: "status_of (sample_folded\<lparr>w_finished := True\<rparr>) = Inr x" "window_status_check x = Inr x" by blast
  have "stage_finish sample_folded = Inr (sample_folded\<lparr>w_finished := True\<rparr>, x)" by (simp add: stage_finish_def st)
  moreover have "\<exists>b. graph_batch after_input sample_folded_state [] = Inr b"
    by (simp add: graph_batch_def Let_def wgraph_batch_check_def st after_input_def sample_folded_state_def)
      (simp add: sample_folded_def count_def MAX_COUNT_def MAX_GRAPH_CELLS_def)
  moreover have "after_input\<lparr>gs_window := sample_folded\<lparr>w_finished := True\<rparr>, gs_operations := 2\<rparr> = sample_folded_state"
    by (simp add: after_input_def sample_folded_state_def)
  ultimately show ?thesis
    by (simp add: graph_finish_op_def at_position_def count_def MAX_COUNT_def)
      (simp add: after_input_def sample_folded_def)
qed

definition one_left :: wstate where
  "one_left = sample_folded\<lparr>w_finished := True, w_cells := [((1, [107]), sample_wcell 1)], w_emitted := 1, w_finalized := 1, w_bytes := 68\<rparr>"

definition drain_status :: window_status where
  "drain_status = \<lparr>ws_phase = WDraining, ws_watermark = None, ws_finished = True, ws_retained = 1, ws_pending = 1\<rparr>"

lemma one_left_status: "status_of one_left = Inr drain_status" "window_status_check drain_status = Inr drain_status"
  by (simp_all add: status_of_def one_left_def sample_folded_def drain_status_def pending_cells_def eligible_def phase_of_def
        window_status_check_def count_def window_ceilings_def)

lemma sample_pending: "pending_cells (sample_folded\<lparr>w_finished := True\<rparr>) = [((0, [107]), sample_wcell 0), ((1, [107]), sample_wcell 1)]"
  by (simp add: pending_cells_def eligible_def sample_folded_def)

lemma sample_stage_drain:
  assumes "wh_reserve hk [sample_wcell 0] 0 h = Inr h1" "wh_row hk sample_row h1 = Inr h2"
  shows "stage_drain sample_fold hk (sample_folded\<lparr>w_finished := True\<rparr>) 1 h
    = Inr (one_left, \<lparr>wb_rows = [sample_row], wb_status = drain_status\<rparr>, h2)"
proof -
  have sel: "drain_selection sample_fold (sample_folded\<lparr>w_finished := True\<rparr>) 1 = [((0, [107]), sample_wcell 0)]"
    by (simp add: drain_selection_def sample_pending drain_cap_def sample_fold_def default_window_limits_def)
  have b: "rows_bytes [sample_row] = Inr 82"
    by (simp add: rows_bytes_def wrow_bytes_def wrow_metadata_def) (simp add: sample_row_def sample_row_size)
  have wb: "window_batch_check \<lparr>wb_rows = [sample_row], wb_status = drain_status\<rparr> = Inr \<lparr>wb_rows = [sample_row], wb_status = drain_status\<rparr>"
    by (simp add: window_batch_check_def one_left_status b window_ceilings_def)
  have after: "(sample_folded\<lparr>w_finished := True\<rparr>)\<lparr>w_cells := [((1, [107]), sample_wcell 1)], w_bytes := 68, w_emitted := 1, w_finalized := 1\<rparr> = one_left"
    by (simp add: one_left_def)
  have c: "wc_count (sample_wcell 0) = 1" "wc_bytes (sample_wcell 0) = 68" by (simp_all add: sample_wcell_def)
  have f: "w_emitted sample_folded = 0" "w_finalized sample_folded = 0" "w_bytes sample_folded = 136"
    "w_cells sample_folded = [((0, [107]), sample_wcell 0), ((1, [107]), sample_wcell 1)]" by (simp_all add: sample_folded_def)
  have l: "wl_batch_bytes (wf_limits sample_fold) = 16777216" by (simp add: sample_fold_def default_window_limits_def)
  show ?thesis
    using assms
    by (simp add: stage_drain_def sel Let_def sample_drain_row b wb c f l count_def MAX_COUNT_def window_ceilings_def ddel_def after one_left_status)
qed


lemma sample_drain:
  "\<exists>after b. graph_drain_op sample_wgraph sample_plan 1 sample_folded_state = Inr (after, b)"
proof -
  obtain t where t: "window_row_to_record sample_row = Inr \<lparr>rec_key = Some [107], rec_json = t\<rparr>" "canonical t" "byte_len t \<le> 1000"
    using sample_row_record by blast
  define r where "r = \<lparr>rec_key = Some [107], rec_json = t\<rparr>"
  have r: "record_ok r" "rec_size r \<le> 1000" using t by (simp_all add: r_def record_ok_def rec_size_def MAX_RECORD_def is_label_char)
  define tx where "tx = begin_tx [(([110], [107]), [49])] 1"
  define h1 where "h1 = (begin_hook sample_folded_state)\<lparr>gh_reserved_records := 2, gh_reserved_work := 2 * 1048576\<rparr>"
  define h2 where "h2 = h1\<lparr>gh_cells := 2, gh_bytes := 105\<rparr>"
  define h3 where "h3 = h2\<lparr>gh_reserved_records := 0, gh_reserved_work := 0\<rparr>"
  have bh: "begin_hook sample_folded_state = \<lparr>gh_cells = 3, gh_bytes = 173, gh_records = 0, gh_work = 0, gh_reserved_records = 0,
     gh_reserved_work = 0, gh_edges = [1, 0], gh_window = sample_folded\<lparr>w_finished := True\<rparr>, gh_outputs = []\<rparr>"
    by (simp add: begin_hook_def sample_folded_state_def) (simp add: sample_folded_def)
  obtain h4 where w: "walk_graph ((window_walk sample_wgraph [(([110], [107]), [49])])\<lparr>wp_seed_outputs := [([119], [r])]\<rparr>) [[110], [119], [116]] (tx, h3)
     = Inr ([\<lparr>out_step = [116], out_record = r\<lparr>rec_key := None\<rparr>\<rparr>], tx, h4)"
    and h4: "gh_reserved_records h4 = 0" "gh_reserved_work h4 = 0" "gh_outputs h4 = []"
    using sample_row_walk [OF r, of h3] by (auto simp: h3_def h2_def h1_def bh)
  have res: "wh_reserve (stage_hooks sample_wgraph f) [sample_wcell 0] 0 (tx, h1) = Inr (tx, h2)" for f
    by (simp add: stage_hooks_def cells_reserve_def cells_check_def sample_selectors h1_def h2_def bh sample_wcell_def)
  have s: "gs_ordinary sample_folded_state = [(([110], [107]), [49])]" "gs_ordinary_bytes sample_folded_state = 1" "gs_emitted sample_folded_state = 0"
    "gs_window sample_folded_state = sample_folded\<lparr>w_finished := True\<rparr>" "gs_operations sample_folded_state = 2" "gs_drains sample_folded_state = 0"
    "gs_next sample_folded_state = 1" "gs_watermarks sample_folded_state = 0"
    by (simp_all add: sample_folded_state_def)
  have cp: "length (edges_from (wg_edges sample_wgraph) [119]) = 1" by (simp add: sample_selectors edges_from_def)
  have rb: "wl_row_bytes (wf_limits sample_fold) = 1048576" by (simp add: sample_fold_def default_window_limits_def)
  define h5 where "h5 = h4\<lparr>gh_outputs := [\<lparr>out_step = [116], out_record = r\<lparr>rec_key := None\<rparr>\<rparr>]\<rparr>"
  have h2r: "gh_reserved_records h2 = 2" "gh_reserved_work h2 = 2097152" by (simp_all add: h2_def h1_def)
  have row: "row_walk sample_wgraph sample_plan sample_folded_state sample_row (tx, h2) = Inr (tx, h5)"
    using w h4 by (simp add: row_walk_def Let_def t r_def [symmetric] sample_selectors s edges_from_def rb h2r h3_def [symmetric]
        count_def MAX_COUNT_def h5_def)
  have dr: "stage_drain sample_fold (stage_hooks sample_wgraph (row_walk sample_wgraph sample_plan sample_folded_state))
      (sample_folded\<lparr>w_finished := True\<rparr>) 1 (tx, h1) = Inr (one_left, \<lparr>wb_rows = [sample_row], wb_status = drain_status\<rparr>, tx, h5)"
    by (rule sample_stage_drain [OF res]) (simp add: stage_hooks_def row)
  have h5: "gh_reserved_records h5 = 0" "gh_reserved_work h5 = 0" by (simp_all add: h5_def h4)
  have cm: "\<exists>after b. commit_graph False sample_folded_state (tx, h5\<lparr>gh_window := one_left\<rparr>) = Inr (after, b)"
    by (simp add: commit_graph_def Let_def tx_def begin_tx_def commit_tx_def graph_batch_def wgraph_batch_check_def s one_left_status h5_def)
      (simp add: one_left_def sample_folded_def count_def MAX_COUNT_def MAX_GRAPH_CELLS_def is_label_char)
  have h1e: "\<lparr>gh_cells = 3, gh_bytes = 173, gh_records = 0, gh_work = 0, gh_reserved_records = 2, gh_reserved_work = 2097152,
      gh_edges = [1, 0], gh_window = sample_folded\<lparr>w_finished := True\<rparr>, gh_outputs = []\<rparr> = h1"
    by (simp add: h1_def bh)
  have x: "execute_drain sample_wgraph sample_plan 1 sample_folded_state = commit_graph False sample_folded_state (tx, h5\<lparr>gh_window := one_left\<rparr>)"
    using dr h5 by (simp add: execute_drain_def Let_def sample_selectors s edges_from_def rb work_ensure_def h1e tx_def [symmetric] bh)
  have st: "status_of (sample_folded\<lparr>w_finished := True\<rparr>) = Inr \<lparr>ws_phase = WDraining, ws_watermark = None, ws_finished = True, ws_retained = 2, ws_pending = 2\<rparr>"
    by (simp add: status_of_def sample_folded_def pending_cells_def eligible_def phase_of_def
        window_status_check_def count_def window_ceilings_def)
  show ?thesis
    using cm x by (simp add: graph_drain_op_def count_def MAX_GRAPH_CELLS_def MAX_COUNT_def s st sample_plan_def)
qed

section \<open>The operations of the sample\<close>

lemma sample_apply_input:
  "\<exists>b. wgraph_apply (GInput sample_input) sample_wgraph_rt = (Inr b, sample_wgraph_rt\<lparr>gw_state := after_input\<rparr>)"
proof -
  obtain b where x: "execute_input sample_wgraph sample_plan sample_input (empty_graph_state sample_wgraph) = Inr (after_input, b)"
    using sample_execute by blast
  have k: "graph_input_check sample_input = Inr sample_input"
    by (simp add: graph_input_check_def sample_input_def sample_record_def count_def tick_def MAX_COUNT_def wname_def key_def
        label_is_label is_label_char checked_value_iff canonical_digits byte_len_Cons utf8_char_def)
  have st: "status_of empty_wstate = Inr (the_status empty_wstate)" "ws_phase (the_status empty_wstate) = WOpen"
    using wstate_inv_status [OF sample_fold_ok sample_state_inv]
    by (simp_all add: the_status_def Let_def phase_of_def pending_cells_def empty_wstate_def)
  have e: "gs_window (empty_graph_state sample_wgraph) = empty_wstate" "gs_next (empty_graph_state sample_wgraph) = 0"
    "gs_operations (empty_graph_state sample_wgraph) = 0" "gi_position sample_input = 0"
    by (simp_all add: empty_graph_state_def sample_input_def)
  have "graph_input_op sample_wgraph sample_plan sample_input (empty_graph_state sample_wgraph) = Inr (after_input, b)"
    by (simp add: graph_input_op_def k at_position_def e st x sample_selectors count_def MAX_COUNT_def)
  then show ?thesis by (simp add: wgraph_apply_def sample_wgraph_rt_def Let_def)
qed

lemma sample_apply_finish:
  "\<exists>b. wgraph_apply (GFinish 1) (sample_wgraph_rt\<lparr>gw_state := after_input\<rparr>)
     = (Inr b, sample_wgraph_rt\<lparr>gw_state := sample_folded_state\<rparr>)"
  using sample_finish by (auto simp: wgraph_apply_def sample_wgraph_rt_def Let_def)

lemma sample_apply_drain:
  "\<exists>b rt'. wgraph_apply (GDrain 1) (sample_wgraph_rt\<lparr>gw_state := sample_folded_state\<rparr>) = (Inr b, rt')"
  using sample_drain by (auto simp: wgraph_apply_def sample_wgraph_rt_def Let_def)

lemma sample_run:
  "snd (run_ops wgraph_apply [GInput sample_input, GFinish 1] sample_wgraph_rt)
     = sample_wgraph_rt\<lparr>gw_state := sample_folded_state\<rparr>"
  using sample_apply_input sample_apply_finish by (auto simp: run_ops_Cons)

lemma sample_arrivals:
  "input_arrivals sample_wgraph sample_plan sample_input (empty_graph_state sample_wgraph)
   = [(\<lparr>edge_source = [110], edge_target = [119], edge_route = None\<rparr>, [\<lparr>rec_key = Some [107], rec_json = [49]\<rparr>])]"
proof -
  have e: "gs_ordinary (empty_graph_state sample_wgraph) = []" "gs_ordinary_bytes (empty_graph_state sample_wgraph) = 0"
    by (simp_all add: empty_graph_state_def)
  have r: "sample_record 107 = \<lparr>rec_key = Some [107], rec_json = [49]\<rparr>" by (simp add: sample_record_def)
  show ?thesis
    by (simp add: input_arrivals_def arrivals_def input_walk_def walk_start_def e sample_input_def eval_wgraph eval_step
        sample_selectors sample_begin r ordinary_sample count_def MAX_COUNT_def)
qed

end
