(* ===== verification/Window_Graph_Properties.thy ===== *)
theory Window_Graph_Properties
  imports Window_Graph_Sample
begin

text \<open>
  The properties of window graphs, with the sample graph as their witness.
\<close>

section \<open>Runs\<close>

lemma wgraph_run_frame: "gw_flow (snd (run_ops wgraph_apply ops rt)) = gw_flow rt \<and> gw_plan (snd (run_ops wgraph_apply ops rt)) = gw_plan rt"
proof (induction ops arbitrary: rt)
  case (Cons op ops)
  have "gw_flow (snd (wgraph_apply op rt)) = gw_flow rt \<and> gw_plan (snd (wgraph_apply op rt)) = gw_plan rt"
    by (simp add: wgraph_apply_def Let_def split: sum.split)
  with Cons.IH show ?case by (simp add: run_ops_Cons)
qed simp

lemma make_wgraph_inv: "make_wgraph_runtime g = Inr rt \<Longrightarrow> wgraph_rt_inv rt"
  using empty_graph_inv by (auto simp: make_wgraph_runtime_def wgraph_rt_inv_def)

lemma window_steps_run:
  "window_steps w ws s = Inr s' \<Longrightarrow>
   \<exists>replies. run_ops window_apply ws \<lparr>wt_spec = w, wt_state = s, wt_busy = False\<rparr>
     = (replies, \<lparr>wt_spec = w, wt_state = s', wt_busy = False\<rparr>) \<and> list_all succeeded replies"
proof (induction ws arbitrary: s)
  case (Cons op ws)
  then obtain s1 r where a: "window_stage w op s = Inr (s1, r)" and rest: "window_steps w ws s1 = Inr s'"
    by (cases "window_stage w op s") (auto simp: window_steps_def)
  have "window_apply op \<lparr>wt_spec = w, wt_state = s, wt_busy = False\<rparr> = (Inr r, \<lparr>wt_spec = w, wt_state = s1, wt_busy = False\<rparr>)"
    using a by (simp add: window_apply_def Let_def)
  with Cons.IH [OF rest] show ?case by (auto simp: run_ops_Cons)
qed (simp add: window_steps_def)

lemma graph_input_quiet:
  assumes "wgraph_inv g p s" "wgraph_stage g p (GInput x) s = Inr (after, b)"
  shows "gb_outputs b = [] \<and> gs_emitted after = gs_emitted s"
proof -
  have "graph_input_op g p x s = Inr (after, b)" using assms(2) by simp
  then have "execute_input g p x s = Inr (after, b)"
    unfolding graph_input_op_def rbind_eq_Inr by (auto split: if_splits)
  then show ?thesis using input_publishes_nothing assms(1) by (auto simp: wgraph_inv_def)
qed

lemma graph_advance_quiet: "graph_advance_op t n s = Inr (after, b) \<Longrightarrow> gs_emitted after = gs_emitted s"
  unfolding graph_advance_op_def Let_def rbind_eq_Inr by (auto split: if_splits)

lemma graph_finish_quiet: "graph_finish_op n s = Inr (after, b) \<Longrightarrow> gs_emitted after = gs_emitted s"
  unfolding graph_finish_op_def Let_def rbind_eq_Inr by (auto split: if_splits)

text \<open>The windows that may be drained, spelled out.\<close>

lemma pending_due:
  "pending_cells w = filter (\<lambda>(k, c). w_finished w \<or> (\<exists>t. w_watermark w = Some t \<and> wc_end c \<le> t)) (w_cells w)"
  by (cases "w_watermark w") (simp_all add: pending_cells_def eligible_def split_def)

lemma drained_keys:
  assumes i: "wstate_inv w s" and d: "stage_drain w hk s m h = Inr (s', b, h')" and n: "int (length (wb_rows b)) = m"
  shows "map row_key (wb_rows b) = map fst (take (nat m) (sort_key fst (pending_cells s)))"
proof -
  define xs where "xs = sort_key fst (pending_cells s)"
  define c where "c = drain_cap (wf_limits w) m"
  have k: "map row_key (wb_rows b) = map fst (take c xs)"
    using drained_rows_keys [OF i d] by (simp add: drain_selection_def xs_def c_def)
  then have "length (take c xs) = nat m" using n by (metis length_map nat_int)
  then have "take c xs = take (nat m) xs" by (auto simp: min_def split: if_splits)
  with k show ?thesis by (simp add: xs_def)
qed

lemma wgraph_run_inv:
  assumes "make_wgraph_runtime g = Inr rt" "list_all wgraph_op_ok ops"
  shows "wgraph_inv g (gw_plan rt) (gw_state (snd (run_ops wgraph_apply ops rt)))"
proof -
  have i: "wgraph_rt_inv rt" and g: "gw_flow rt = g"
    using assms(1) empty_graph_inv by (auto simp: make_wgraph_runtime_def wgraph_rt_inv_def)
  from wgraph.run_inv [OF i assms(2)] wgraph_run_frame [of ops rt] g show ?thesis by (simp add: wgraph_rt_inv_def)
qed

section \<open>Properties\<close>

text \<open>C18: the state of a window graph is exact after any operations: every retained cell is valid,
  the aggregate budgets equal the cells they account for and hold, and the counters add up to
  the operations that caused them.\<close>
theorem wgraph_state_exact:
  assumes "make_wgraph_runtime g = Inr rt" "list_all wgraph_op_ok ops"
    and "s = gw_state (snd (run_ops wgraph_apply ops rt))"
  shows "wstate_inv (pl_fold (gw_plan rt)) (gs_window s)
    \<and> gs_cell_bytes s = (\<Sum>e\<leftarrow>gs_ordinary s. wire_len (fst e) (snd e)) + (\<Sum>e\<leftarrow>w_cells (gs_window s). wc_bytes (snd e))
    \<and> gs_cell_bytes s \<le> wgl_bytes (wg_limits g)
    \<and> int (length (gs_ordinary s)) + int (length (w_cells (gs_window s))) \<le> wgl_cells (wg_limits g)
    \<and> gs_ordinary_bytes s = (\<Sum>e\<leftarrow>gs_ordinary s. byte_len (snd e))
    \<and> gs_operations s = gs_next s + gs_watermarks s + of_bool (w_finished (gs_window s)) + gs_drains s
    \<and> (w_watermark (gs_window s) = None \<longleftrightarrow> gs_watermarks s = 0)
    \<and> gs_next s \<le> wgl_inputs (wg_limits g)
    \<and> gs_drains s \<le> w_emitted (gs_window s) \<and> w_emitted (gs_window s) \<le> gs_drains s * pl_cap (gw_plan rt)"
proof -
  note r = wgraph_run_inv [OF assms(1,2)]
  then show ?thesis
    by (simp add: wgraph_inv_def graph_cells_ok_def graph_counts_ok_def state_ok_def assms(3))
qed

theorem wgraph_state_exact_witness:
  "let s = gw_state (snd (run_ops wgraph_apply [GInput sample_input, GAdvance 20 1] sample_wgraph_rt))
   in wstate_inv (pl_fold (gw_plan sample_wgraph_rt)) (gs_window s)
    \<and> gs_cell_bytes s = (\<Sum>e\<leftarrow>gs_ordinary s. wire_len (fst e) (snd e)) + (\<Sum>e\<leftarrow>w_cells (gs_window s). wc_bytes (snd e))
    \<and> gs_operations s = gs_next s + gs_watermarks s + of_bool (w_finished (gs_window s)) + gs_drains s"
  using wgraph_state_exact [OF sample_make_wgraph _ refl, of "[GInput sample_input, GAdvance 20 1]"]
  by (simp add: Let_def sample_input_ok) (simp add: wgraph_op_ok_def)

text \<open>Failed operations of a window graph leave no trace, whatever part of the graph or of the
  window refused: the run of the operations that returned gives their answers and the same state.\<close>
lemma wgraph_failures_erased:
  assumes "make_wgraph_runtime g = Inr rt" "list_all wgraph_op_ok ops"
  shows "run_ops wgraph_apply (committed wgraph_apply ops rt) rt
    = (filter succeeded (fst (run_ops wgraph_apply ops rt)), snd (run_ops wgraph_apply ops rt))"
  by (rule wgraph.run_committed [OF make_wgraph_inv [OF assms(1)] assms(2)])

text \<open>C19: the window inside a graph is a \<open>WindowFoldRuntime\<close> of the same declaration, operation by
  operation. An operation of the graph that returns moves the window exactly as the public calls
  listed for it move a runtime of its own, all of which return: an input processes, at its
  timestamp and in order, every record that its walk puts on the edges into the window (as many
  on each edge as the delivery counter of the edge grows by); a watermark and the end of the
  source are passed on; a drain drains its bounded number of the windows that are due, and
  nothing when none is. An operation that raises leaves the runtime as it was.\<close>
theorem wgraph_window_refines:
  assumes "make_wgraph_runtime g = Inr rt0" "list_all wgraph_op_ok ops" "rt = snd (run_ops wgraph_apply ops rt0)"
    and "wgraph_op_ok op" "wgraph_apply op rt = (res, rt')" "p = gw_plan rt" "s = gw_state rt" "s' = gw_state rt'"
  shows "case res of
      Inl _ \<Rightarrow> rt' = rt
    | Inr b \<Rightarrow>
        (let calls = (case op of
              GInput x \<Rightarrow> map (WProcess (gi_timestamp x)) (concat (map snd (input_arrivals g p x s)))
            | GAdvance t _ \<Rightarrow> [WAdvance t]
            | GFinish _ \<Rightarrow> [WFinish]
            | GDrain n \<Rightarrow> (let due = pending_cells (gs_window s)
                in if due = [] then [] else [WDrain (min n (min (int (length due)) (pl_cap p)))]))
         in \<exists>replies. run_ops window_apply calls \<lparr>wt_spec = pl_fold p, wt_state = gs_window s, wt_busy = False\<rparr>
              = (replies, \<lparr>wt_spec = pl_fold p, wt_state = gs_window s', wt_busy = False\<rparr>)
            \<and> list_all succeeded replies)
        \<and> (case op of
              GInput x \<Rightarrow> map fst (input_arrivals g p x s) = edges_into (wg_edges g) (pl_window p)
                \<and> (\<forall>(e, rs)\<in>set (input_arrivals g p x s).
                     gs_edges s' ! edge_index e (wg_edges g) = gs_edges s ! edge_index e (wg_edges g) + int (length rs))
            | _ \<Rightarrow> True)"
proof (cases res)
  case (Inl e)
  with assms(5) show ?thesis using wgraph_apply_Inl by simp
next
  case (Inr b)
  have g: "gw_flow rt = g" using assms(1,3) wgraph_run_frame [of ops rt0] by (auto simp: make_wgraph_runtime_def)
  have inv: "wgraph_inv g p s"
    using wgraph.run_inv [OF make_wgraph_inv [OF assms(1)] assms(2)] assms(3,6,7) g by (simp add: wgraph_rt_inv_def)
  have st: "wgraph_stage g p op s = Inr (s', b)"
    using wgraph_apply_Inr [of op rt b rt'] assms(5-8) Inr g by simp
  from window_steps_run [OF stage_calls [OF inv st]] have calls: "\<exists>replies.
      run_ops window_apply (window_calls g p op s) \<lparr>wt_spec = pl_fold p, wt_state = gs_window s, wt_busy = False\<rparr>
        = (replies, \<lparr>wt_spec = pl_fold p, wt_state = gs_window s', wt_busy = False\<rparr>) \<and> list_all succeeded replies" .
  have counts: "map fst (input_arrivals g p x s) = edges_into (wg_edges g) (pl_window p)
      \<and> (\<forall>(e, rs)\<in>set (input_arrivals g p x s).
           gs_edges s' ! edge_index e (wg_edges g) = gs_edges s ! edge_index e (wg_edges g) + int (length rs))"
    if "op = GInput x" for x
    using input_calls [OF inv, of x s' b] st that by (simp add: graph_input_executes)
  show ?thesis using calls counts by (cases op) (simp_all add: Inr Let_def)
qed

theorem wgraph_window_refines_witness:
  "\<exists>b rt' replies. wgraph_apply (GInput sample_input) sample_wgraph_rt = (Inr b, rt')
     \<and> run_ops window_apply [WProcess 7 \<lparr>rec_key = Some [107], rec_json = [49]\<rparr>]
         \<lparr>wt_spec = sample_fold, wt_state = empty_wstate, wt_busy = False\<rparr>
       = (replies, \<lparr>wt_spec = sample_fold, wt_state = gs_window (gw_state rt'), wt_busy = False\<rparr>)
     \<and> list_all succeeded replies \<and> gs_edges (gw_state rt') ! 0 = 1"
proof -
  obtain b where a: "wgraph_apply (GInput sample_input) sample_wgraph_rt = (Inr b, sample_wgraph_rt\<lparr>gw_state := after_input\<rparr>)"
    using sample_apply_input by blast
  note t = wgraph_window_refines [OF sample_make_wgraph _ _ sample_input_ok a refl refl refl, of "[]"]
  have "gw_plan sample_wgraph_rt = sample_plan" "gw_state sample_wgraph_rt = empty_graph_state sample_wgraph"
    "gi_timestamp sample_input = 7" "gs_window (empty_graph_state sample_wgraph) = empty_wstate"
    "gs_edges (empty_graph_state sample_wgraph) = [0, 0]"
    by (simp_all add: sample_wgraph_rt_def sample_input_def empty_graph_state_def sample_selectors)
  with t a show ?thesis
    by (auto simp: sample_arrivals sample_selectors edge_index_def Let_def)
qed

text \<open>C20: an output of a window graph comes from a closed window. Inputs, watermarks and the end of
  the source publish nothing. A drain for which windows are due (all, once the source has ended;
  else those that end at or before the watermark) and that returns has drained exactly the bounded
  number of them, the first in the order of window and key, as the window alone would, and has
  counted its outputs; a drain changes nothing only when no window is due.\<close>
theorem wgraph_outputs_drained:
  assumes "make_wgraph_runtime g = Inr rt0" "list_all wgraph_op_ok ops" "rt = snd (run_ops wgraph_apply ops rt0)"
    and "wgraph_op_ok op" "wgraph_apply op rt = (Inr b, rt')"
    and "w = gs_window (gw_state rt)"
    and "due = filter (\<lambda>(k, c). w_finished w \<or> (\<exists>t. w_watermark w = Some t \<and> wc_end c \<le> t)) (w_cells w)"
  shows "case op of
      GDrain n \<Rightarrow>
        (if due = [] then rt' = rt \<and> gb_outputs b = [] \<and> gb_drained b = 0
         else \<exists>m batch. m = min n (min (int (length due)) (pl_cap (gw_plan rt))) \<and> 1 \<le> m \<and> gb_drained b = m
           \<and> stage_drain (pl_fold (gw_plan rt)) no_window_hooks w m () = Inr (gs_window (gw_state rt'), batch, ())
           \<and> map row_key (wb_rows batch) = map fst (take (nat m) (sort_key fst due))
           \<and> gs_drains (gw_state rt') = gs_drains (gw_state rt) + 1
           \<and> gs_emitted (gw_state rt') = gs_emitted (gw_state rt) + int (length (gb_outputs b)))
    | _ \<Rightarrow> gb_outputs b = [] \<and> gs_emitted (gw_state rt') = gs_emitted (gw_state rt)"
proof -
  have inv: "wgraph_inv (gw_flow rt) (gw_plan rt) (gw_state rt)"
    using wgraph.run_inv [OF make_wgraph_inv [OF assms(1)] assms(2)] assms(3) by (simp add: wgraph_rt_inv_def)
  note k = wgraph_apply_Inr [OF assms(5), THEN conjunct2, THEN conjunct1]
  have same: "rt' = rt" if "gw_state rt' = gw_state rt"
    using wgraph_apply_Inr [OF assms(5)] that by (cases rt; cases rt') simp
  have due: "due = pending_cells w" using assms(7) by (simp add: pending_due)
  show ?thesis
  proof (cases op)
    case (GInput x)
    with graph_input_quiet [OF inv, of x] k show ?thesis by simp
  next
    case (GAdvance t n)
    then have "graph_advance_op t n (gw_state rt) = Inr (gw_state rt', b)" using k by simp
    with graph_advance_ok [OF inv this] graph_advance_quiet [OF this] GAdvance show ?thesis by simp
  next
    case (GFinish n)
    then have "graph_finish_op n (gw_state rt) = Inr (gw_state rt', b)" using k by simp
    with graph_finish_ok [OF inv this] graph_finish_quiet [OF this] GFinish show ?thesis by simp
  next
    case (GDrain n)
    then have d: "graph_drain_op (gw_flow rt) (gw_plan rt) n (gw_state rt) = Inr (gw_state rt', b)" using k by simp
    show ?thesis
    proof (cases "due = []")
      case True
      with drain_exact [OF inv d] same GDrain show ?thesis by (simp add: due assms(6))
    next
      case False
      define m where "m = min n (min (int (length due)) (pl_cap (gw_plan rt)))"
      obtain batch where b: "1 \<le> m" "gb_drained b = m"
          "stage_drain (pl_fold (gw_plan rt)) no_window_hooks w m () = Inr (gs_window (gw_state rt'), batch, ())"
          "gs_drains (gw_state rt') = gs_drains (gw_state rt) + 1"
          "gs_emitted (gw_state rt') = gs_emitted (gw_state rt) + int (length (gb_outputs b))"
          and rows: "int (length (wb_rows batch)) = m"
        using drain_exact [OF inv d] False by (auto simp: due assms(6) m_def Let_def)
      have "wstate_inv (pl_fold (gw_plan rt)) w" using inv assms(6) by (simp add: wgraph_inv_def graph_cells_ok_def)
      note keys = drained_keys [OF this b(3) rows]
      show ?thesis
        unfolding GDrain wgraph_op.case if_not_P [OF False]
        by (rule exI [of _ m], rule exI [of _ batch]) (use b keys m_def in \<open>simp only: due conj_assoc simp_thms\<close>)
    qed
  qed
qed

theorem wgraph_outputs_drained_witness:
  "\<exists>b rt' batch. wgraph_apply (GDrain 1) (sample_wgraph_rt\<lparr>gw_state := sample_folded_state\<rparr>) = (Inr b, rt')
     \<and> gb_drained b = 1 \<and> map row_key (wb_rows batch) = [(0, [107])]
     \<and> stage_drain sample_fold no_window_hooks (sample_folded\<lparr>w_finished := True\<rparr>) 1 () = Inr (gs_window (gw_state rt'), batch, ())
     \<and> gs_emitted (gw_state rt') = int (length (gb_outputs b))"
proof -
  obtain b rt' where a: "wgraph_apply (GDrain 1) (sample_wgraph_rt\<lparr>gw_state := sample_folded_state\<rparr>) = (Inr b, rt')"
    using sample_apply_drain by blast
  have ops: "list_all wgraph_op_ok [GInput sample_input, GFinish 1]" "wgraph_op_ok (GDrain 1)"
    by (simp_all add: sample_input_ok) (simp_all add: wgraph_op_ok_def)
  note t = wgraph_outputs_drained [OF sample_make_wgraph ops(1) sample_run [symmetric] ops(2) a refl refl]
  have s: "gs_window sample_folded_state = sample_folded\<lparr>w_finished := True\<rparr>" "gs_emitted sample_folded_state = 0"
    "gw_plan sample_wgraph_rt = sample_plan" "pl_cap sample_plan = 16"
    by (simp_all add: sample_folded_state_def sample_wgraph_rt_def sample_plan_def)
  have "filter (\<lambda>(k, c). True) (w_cells sample_folded) = [((0, [107]), sample_wcell 0), ((1, [107]), sample_wcell 1)]"
    by (simp add: sample_folded_def)
  with t a show ?thesis by (auto simp: s sample_selectors split_def)
qed

end
