(* ===== verification/Keyed_Join.thy ===== *)
theory Keyed_Join
  imports Sample_Flow Documents
begin

text \<open>
  \<open>keyed_join.py\<close>: incremental joins of two to sixteen tagged sides. The staged transitions
  are pure functions from a state to a new state and a batch, or an exception;
  \<open>JoinRuntime\<close> installs the new state only when they return.
\<close>

section \<open>Declarations\<close>

datatype insert_mode = JFirst | JLast | JProduct
datatype emit_mode = JComplete | JFinal | JRunning
datatype join_phase = JOpen | JDraining | JClosed

definition sides_ok :: "pystr list \<Rightarrow> bool" where
  "sides_ok sides \<longleftrightarrow> 2 \<le> length sides \<and> length sides \<le> 16 \<and> list_all is_label sides \<and> distinct sides"

record join_limits =
  jl_keys :: int
  jl_values_per_side :: int
  jl_values :: int
  jl_value_bytes :: int
  jl_key_bytes :: int
  jl_state_bytes :: int
  jl_rows_per_key :: int
  jl_rows_per_batch :: int
  jl_row_bytes :: int
  jl_batch_bytes :: int

definition hard_limits :: join_limits where
  "hard_limits =
     \<lparr>jl_keys = 100000, jl_values_per_side = 10000, jl_values = 1000000,
      jl_value_bytes = 8 * 1024 * 1024, jl_key_bytes = 16 * 1024 * 1024,
      jl_state_bytes = 64 * 1024 * 1024, jl_rows_per_key = 100000, jl_rows_per_batch = 100000,
      jl_row_bytes = 8 * 1024 * 1024, jl_batch_bytes = 64 * 1024 * 1024\<rparr>"

definition default_join_limits :: join_limits where
  "default_join_limits =
     \<lparr>jl_keys = 10000, jl_values_per_side = 256, jl_values = 100000,
      jl_value_bytes = 1024 * 1024, jl_key_bytes = 4 * 1024 * 1024,
      jl_state_bytes = 16 * 1024 * 1024, jl_rows_per_key = 1000, jl_rows_per_batch = 10000,
      jl_row_bytes = 1024 * 1024, jl_batch_bytes = 16 * 1024 * 1024\<rparr>"

definition join_limits_ok :: "join_limits \<Rightarrow> bool" where
  "join_limits_ok l \<longleftrightarrow>
     1 \<le> jl_keys l \<and> jl_keys l \<le> jl_keys hard_limits
     \<and> 1 \<le> jl_values_per_side l \<and> jl_values_per_side l \<le> jl_values_per_side hard_limits
     \<and> 1 \<le> jl_values l \<and> jl_values l \<le> jl_values hard_limits
     \<and> 1 \<le> jl_value_bytes l \<and> jl_value_bytes l \<le> jl_value_bytes hard_limits
     \<and> 1 \<le> jl_key_bytes l \<and> jl_key_bytes l \<le> jl_key_bytes hard_limits
     \<and> 1 \<le> jl_state_bytes l \<and> jl_state_bytes l \<le> jl_state_bytes hard_limits
     \<and> 1 \<le> jl_rows_per_key l \<and> jl_rows_per_key l \<le> jl_rows_per_key hard_limits
     \<and> 1 \<le> jl_rows_per_batch l \<and> jl_rows_per_batch l \<le> jl_rows_per_batch hard_limits
     \<and> 1 \<le> jl_row_bytes l \<and> jl_row_bytes l \<le> jl_row_bytes hard_limits
     \<and> 1 \<le> jl_batch_bytes l \<and> jl_batch_bytes l \<le> jl_batch_bytes hard_limits
     \<and> jl_rows_per_key l \<le> jl_rows_per_batch l \<and> jl_row_bytes l \<le> jl_batch_bytes l"

definition join_limits_doc :: "join_limits \<Rightarrow> json" where
  "join_limits_doc l = JObj
     [jfield ''max_keys'' (JInt (jl_keys l)), jfield ''max_values_per_side'' (JInt (jl_values_per_side l)),
      jfield ''max_values'' (JInt (jl_values l)), jfield ''max_value_bytes'' (JInt (jl_value_bytes l)),
      jfield ''max_key_bytes'' (JInt (jl_key_bytes l)), jfield ''max_state_bytes'' (JInt (jl_state_bytes l)),
      jfield ''max_rows_per_key'' (JInt (jl_rows_per_key l)),
      jfield ''max_rows_per_batch'' (JInt (jl_rows_per_batch l)),
      jfield ''max_row_bytes'' (JInt (jl_row_bytes l)), jfield ''max_batch_bytes'' (JInt (jl_batch_bytes l))]"

record keyed_join =
  kj_id :: pystr
  kj_revision :: pystr
  kj_sides :: "pystr list"
  kj_insert :: insert_mode
  kj_emit :: emit_mode
  kj_limits :: join_limits

definition keyed_join_ok :: "keyed_join \<Rightarrow> bool" where
  "keyed_join_ok j \<longleftrightarrow>
     is_label (kj_id j) \<and> is_label (kj_revision j) \<and> sides_ok (kj_sides j) \<and> join_limits_ok (kj_limits j)"

fun insert_name :: "insert_mode \<Rightarrow> string" where
  "insert_name JFirst = ''first''" | "insert_name JLast = ''last''" | "insert_name JProduct = ''product''"

fun emit_name :: "emit_mode \<Rightarrow> string" where
  "emit_name JComplete = ''complete''" | "emit_name JFinal = ''final''" | "emit_name JRunning = ''running''"

fun phase_name :: "join_phase \<Rightarrow> string" where
  "phase_name JOpen = ''open''" | "phase_name JDraining = ''draining''" | "phase_name JClosed = ''closed''"

definition join_identity :: "keyed_join \<Rightarrow> pystr" where
  "join_identity j = sha256_hex (dumps (JObj
     [jfield ''kind'' (JStr (lit ''stream-quilt-keyed-join'')), jfield ''version'' (JStr (lit ''1.0'')),
      jfield ''join_id'' (JStr (kj_id j)), jfield ''revision'' (JStr (kj_revision j)),
      jfield ''sides'' (JArr (map JStr (kj_sides j))),
      jfield ''insert_mode'' (JStr (lit (insert_name (kj_insert j)))),
      jfield ''emit_mode'' (JStr (lit (emit_name (kj_emit j)))),
      jfield ''limits'' (join_limits_doc (kj_limits j))]))"

section \<open>Rows and cells\<close>

record join_row =
  jr_key :: pystr
  jr_sides :: "pystr list"
  jr_present :: "bool list"
  jr_values :: "pystr list"

definition row_overhead :: "bool list \<Rightarrow> int" where
  "row_overhead present =
     byte_len (dumps (JObj [jfield ''present'' (JArr (map JBool present)), jfield ''values'' (JArr [])]))
       + int (length present) - 1"

definition row_bytes :: "bool list \<Rightarrow> pystr list \<Rightarrow> int" where
  "row_bytes present values = row_overhead present + (\<Sum>v\<leftarrow>values. byte_len v)"

definition row_size :: "join_row \<Rightarrow> int" where
  "row_size r = row_bytes (jr_present r) (jr_values r)"

definition make_row :: "pystr \<Rightarrow> pystr list \<Rightarrow> bool list \<Rightarrow> pyval list \<Rightarrow> join_row res" where
  "make_row k sides present values =
     (if \<not> is_label k \<or> \<not> sides_ok sides then Inl ValidationError
      else if length present \<noteq> length sides \<or> length values \<noteq> length sides \<or> True \<notin> set present
      then Inl ValidationError
      else if list_ex (\<lambda>(flag, v). \<not> flag \<and> v \<noteq> PNone) (zip present values) then Inl ValidationError
      else rbind (map_res (\<lambda>v. snapshot v (jl_value_bytes hard_limits)) values) (\<lambda>encoded.
        if jl_row_bytes hard_limits < row_bytes present encoded then Inl ValidationError
        else Inr \<lparr>jr_key = k, jr_sides = sides, jr_present = present, jr_values = encoded\<rparr>))"

definition row_to_record :: "join_row \<Rightarrow> flow_record res" where
  "row_to_record r =
     rbind (map_res (\<lambda>t. loads no_hooks t) (jr_values r)) (\<lambda>vs.
       make_record (PDict [(PStr (lit ''present''), PList (map PBool (jr_present r))),
                           (PStr (lit ''values''), PList (map py_of_json vs))]) (Some (jr_key r)))"

record join_batch =
  jb_rows :: "join_row list"
  jb_phase :: join_phase
  jb_pending :: int
  jb_drained :: int

definition batch_bytes_step :: "join_row \<Rightarrow> int \<Rightarrow> int res" where
  "batch_bytes_step r n =
     (if jl_batch_bytes hard_limits < n + row_size r then Inl ValidationError else Inr (n + row_size r))"

definition join_batch_check :: "join_batch \<Rightarrow> join_batch res" where
  "join_batch_check b =
     (if jl_rows_per_batch hard_limits < int (length (jb_rows b)) then Inl ValidationError
      else rbind (count (jb_pending b) 0 (jl_keys hard_limits)) (\<lambda>_.
           rbind (count (jb_drained b) 0 (jl_keys hard_limits)) (\<lambda>_.
             if (jb_phase b = JClosed \<and> jb_pending b \<noteq> 0) \<or> (jb_phase b = JDraining \<and> jb_pending b = 0)
             then Inl ValidationError
             else if list_ex (\<lambda>r. jr_sides r \<noteq> jr_sides (hd (jb_rows b))) (jb_rows b)
             then Inl ValidationError
             else rbind (fold_res batch_bytes_step (jb_rows b) 0) (\<lambda>_. Inr b))))"

record join_cell =
  ce_values :: "pystr list list"
  ce_bytes :: int
  ce_count :: int
  ce_rows :: int
  ce_output :: int

text \<open>\<open>_shape\<close>: validation of a cell with its value count and encoded size.\<close>

definition shape_value :: "join_limits \<Rightarrow> pystr \<Rightarrow> int \<Rightarrow> int res" where
  "shape_value l v sz =
     (if jl_value_bytes l < int (length v) then Inl ValidationError
      else if \<not> utf8_ok v then Inl ValidationError
      else if jl_value_bytes l < byte_len v then Inl ValidationError
      else let sz = sz + byte_len (dumps (JStr v))
           in if jl_key_bytes l < sz then Inl ValidationError else Inr sz)"

definition shape_side :: "join_limits \<Rightarrow> pystr list \<Rightarrow> int \<times> int \<Rightarrow> (int \<times> int) res" where
  "shape_side l side s =
     (if jl_values_per_side l < int (length side) then Inl ValidationError
      else rbind (fold_res (shape_value l) side (snd s + 2 + max 0 (int (length side) - 1))) (\<lambda>size.
        Inr (fst s + int (length side), size)))"

definition shape :: "pystr \<Rightarrow> pystr list list \<Rightarrow> nat \<Rightarrow> join_limits \<Rightarrow> (int \<times> int) res" where
  "shape k values n l =
     rbind (key (PStr k)) (\<lambda>_.
       if length values \<noteq> n then Inl ValidationError
       else rbind (fold_res (shape_side l) values
              (0, byte_len (dumps (JObj [jfield ''key'' (JStr k), jfield ''values'' (JArr [])])) + int n - 1))
            (\<lambda>(cnt, size).
              if cnt = 0 then Inl ValidationError
              else if jl_key_bytes l < size then Inl ValidationError
              else Inr (cnt, size)))"

definition side_length :: "pystr list \<Rightarrow> int" where
  "side_length side = max 1 (int (length side))"

definition multiply_rows :: "join_limits \<Rightarrow> int \<Rightarrow> int \<Rightarrow> int res" where
  "multiply_rows l n rows =
     (if jl_rows_per_key l div n < rows then Inl ValidationError else Inr (rows * n))"

definition side_sizes :: "pystr list \<Rightarrow> int list" where
  "side_sizes side = (if side = [] then [4] else map byte_len side)"

definition make_cell :: "pystr \<Rightarrow> pystr list list \<Rightarrow> join_limits \<Rightarrow> join_cell res" where
  "make_cell k values l =
     rbind (shape k values (length values) l) (\<lambda>(cnt, size).
     rbind (fold_res (multiply_rows l) (map side_length values) 1) (\<lambda>rows.
       let overhead = row_overhead (map (\<lambda>side. side \<noteq> []) values);
           maximum = overhead + (\<Sum>side\<leftarrow>values. Max (set (side_sizes side)));
           output = overhead * rows
                      + (\<Sum>side\<leftarrow>values. (rows div side_length side) * sum_list (side_sizes side))
       in if jl_row_bytes l < maximum \<or> jl_batch_bytes l < output then Inl ValidationError
          else Inr \<lparr>ce_values = values, ce_bytes = size, ce_count = cnt, ce_rows = rows,
                    ce_output = output\<rparr>))"

definition null_text :: pystr where "null_text = lit ''null''"

definition cell_rows :: "pystr \<Rightarrow> join_cell \<Rightarrow> pystr list \<Rightarrow> join_row list" where
  "cell_rows k c sides =
     map (\<lambda>vs. \<lparr>jr_key = k, jr_sides = sides, jr_present = map (\<lambda>side. side \<noteq> []) (ce_values c),
                jr_values = vs\<rparr>)
       (product_lists (map (\<lambda>side. if side = [] then [null_text] else side) (ce_values c)))"

section \<open>Transitions\<close>

record join_state =
  js_cells :: "(pystr, join_cell) dict"
  js_closed :: "bool list"
  js_counts :: "int list"
  js_emitted :: int
  js_bytes :: int
  js_values :: int
  js_phase :: join_phase

text \<open>
  The admission hook of the caller: given the new state, the rows and their bytes, it moves the
  caller's own state \<open>'h\<close> or refuses.
\<close>

type_synonym 'h admit = "join_state \<Rightarrow> int \<Rightarrow> int \<Rightarrow> 'h \<Rightarrow> 'h res"

definition no_admit :: "unit admit" where "no_admit = (\<lambda>_ _ _. Inr)"

definition side_index :: "pystr list \<Rightarrow> pystr \<Rightarrow> nat res" where
  "side_index sides side =
     (if side \<in> set sides then Inr (length (takeWhile (\<lambda>s. s \<noteq> side) sides)) else Inl ValidationError)"

definition insert_value :: "insert_mode \<Rightarrow> join_limits \<Rightarrow> pystr \<Rightarrow> pystr list \<Rightarrow> pystr list res" where
  "insert_value mode l encoded side =
     (if mode = JProduct
      then (if int (length side) = jl_values_per_side l then Inl ValidationError
            else Inr (side @ [encoded]))
      else if mode = JLast \<or> side = [] then Inr [encoded]
      else Inr side)"

definition cell_weight :: "(join_cell \<Rightarrow> int) \<Rightarrow> join_cell option \<Rightarrow> int" where
  "cell_weight f c = (case c of None \<Rightarrow> 0 | Some c \<Rightarrow> f c)"

definition prior_sides :: "keyed_join \<Rightarrow> join_state \<Rightarrow> pystr \<Rightarrow> pystr list list" where
  "prior_sides j before k =
     (case dget (js_cells before) k of
        Some c \<Rightarrow> ce_values c | None \<Rightarrow> replicate (length (kj_sides j)) [])"

text \<open>The first half of \<open>_stage_process\<close>: admission up to the proposed cell of the key.\<close>

definition propose_cell :: "keyed_join \<Rightarrow> join_state \<Rightarrow> pystr \<Rightarrow> flow_record
    \<Rightarrow> (int list \<times> pystr \<times> join_cell) res" where
  "propose_cell j before side r =
     rbind (side_index (kj_sides j) side) (\<lambda>index.
     if js_phase before \<noteq> JOpen \<or> js_closed before ! index then Inl ValidationError
     else (case rec_key r of
       None \<Rightarrow> Inl ValidationError
     | Some k0 \<Rightarrow>
         rbind (key (PStr k0)) (\<lambda>k.
         rbind (rec_value r) (\<lambda>v.
         rbind (snapshot v (jl_value_bytes (kj_limits j))) (\<lambda>encoded.
         let counts = (js_counts before)[index := js_counts before ! index + 1];
             sides = prior_sides j before k
         in rbind (count (sum_list counts) 0 MAX_COUNT) (\<lambda>_.
            rbind (insert_value (kj_insert j) (kj_limits j) encoded (sides ! index)) (\<lambda>new_side.
            rbind (make_cell k (sides[index := new_side]) (kj_limits j)) (\<lambda>proposed.
              Inr (counts, k, proposed)))))))))"

text \<open>The second half: emission, accounting and the new state.\<close>

definition stage_process :: "keyed_join \<Rightarrow> 'h admit \<Rightarrow> join_state \<Rightarrow> pystr \<Rightarrow> flow_record
    \<Rightarrow> 'h \<Rightarrow> (join_state \<times> join_batch \<times> 'h) res" where
  "stage_process j admit before side r h =
     rbind (propose_cell j before side r) (\<lambda>(counts, k, proposed).
     let l = kj_limits j;
         previous = dget (js_cells before) k;
         complete = (kj_emit j = JComplete \<and> list_all (\<lambda>s. s \<noteq> []) (ce_values proposed));
         emits = (complete \<or> kj_emit j = JRunning);
         emitted = js_emitted before + (if emits then ce_rows proposed else 0);
         size = js_bytes before - cell_weight ce_bytes previous
                  + (if complete then 0 else ce_bytes proposed);
         vals = js_values before - cell_weight ce_count previous
                  + (if complete then 0 else ce_count proposed);
         keys = int (length (js_cells before)) + (if previous = None then 1 else 0)
                  - (if complete then 1 else 0);
         cells = (if complete then ddel k (js_cells before)
                  else dput k proposed (js_cells before));
         after = \<lparr>js_cells = cells, js_closed = js_closed before, js_counts = counts,
                  js_emitted = emitted, js_bytes = size, js_values = vals, js_phase = JOpen\<rparr>
     in rbind (count emitted 0 MAX_COUNT) (\<lambda>_.
        if jl_keys l < keys \<or> jl_state_bytes l < size \<or> jl_values l < vals then Inl ValidationError
        else rbind (admit after (if emits then ce_rows proposed else 0)
                      (if emits then ce_output proposed else 0) h) (\<lambda>h.
             rbind (join_batch_check
                      \<lparr>jb_rows = (if emits then cell_rows k proposed (kj_sides j) else []),
                       jb_phase = JOpen, jb_pending = int (length cells), jb_drained = 0\<rparr>)
               (\<lambda>batch. Inr (after, batch, h)))))"

definition stage_close :: "keyed_join \<Rightarrow> join_state \<Rightarrow> pystr \<Rightarrow> (join_state \<times> join_batch) res" where
  "stage_close j before side =
     rbind (side_index (kj_sides j) side) (\<lambda>index.
     if js_closed before ! index
     then rbind (join_batch_check \<lparr>jb_rows = [], jb_phase = js_phase before,
                   jb_pending = int (length (js_cells before)), jb_drained = 0\<rparr>) (\<lambda>b. Inr (before, b))
     else let closed = (js_closed before)[index := True];
              (phase, cells, size, vals) =
                (if list_all id closed
                 then (if kj_emit j = JFinal \<and> js_cells before \<noteq> []
                       then (JDraining, js_cells before, js_bytes before, js_values before)
                       else (JClosed, [], 0, 0))
                 else (JOpen, js_cells before, js_bytes before, js_values before))
          in rbind (join_batch_check \<lparr>jb_rows = [], jb_phase = phase, jb_pending = int (length cells),
                       jb_drained = 0\<rparr>) (\<lambda>batch.
             Inr (\<lparr>js_cells = cells, js_closed = closed, js_counts = js_counts before,
                   js_emitted = js_emitted before, js_bytes = size, js_values = vals,
                   js_phase = phase\<rparr>, batch)))"

text \<open>The selection loop of \<open>_stage_drain\<close> over the sorted cells.\<close>

fun drain_select :: "join_limits \<Rightarrow> int \<Rightarrow> (pystr \<times> join_cell) list \<Rightarrow> int \<Rightarrow> int \<Rightarrow> int
    \<Rightarrow> (pystr \<times> join_cell) list" where
  "drain_select l max_keys [] n rows bytes = []"
| "drain_select l max_keys ((k, c) # cells) n rows bytes =
     (if n = max_keys \<or> jl_rows_per_batch l < rows + ce_rows c \<or> jl_batch_bytes l < bytes + ce_output c
      then []
      else (k, c) # drain_select l max_keys cells (n + 1) (rows + ce_rows c) (bytes + ce_output c))"

definition stage_drain :: "keyed_join \<Rightarrow> 'h admit \<Rightarrow> join_state \<Rightarrow> int \<Rightarrow> 'h
    \<Rightarrow> (join_state \<times> join_batch \<times> 'h) res" where
  "stage_drain j admit before max_keys h =
     rbind (count max_keys 1 (jl_keys hard_limits)) (\<lambda>_.
     if js_phase before = JOpen then Inl ValidationError
     else if js_phase before = JClosed
     then rbind (join_batch_check \<lparr>jb_rows = [], jb_phase = JClosed, jb_pending = 0, jb_drained = 0\<rparr>)
            (\<lambda>b. Inr (before, b, h))
     else let selected = drain_select (kj_limits j) max_keys (sort_key fst (js_cells before)) 0 0 0;
              row_count = (\<Sum>e\<leftarrow>selected. ce_rows (snd e));
              byte_count = (\<Sum>e\<leftarrow>selected. ce_output (snd e));
              emitted = js_emitted before + row_count;
              cells = fold ddel (map fst selected) (js_cells before);
              size = js_bytes before - (\<Sum>e\<leftarrow>selected. ce_bytes (snd e));
              vals = js_values before - (\<Sum>e\<leftarrow>selected. ce_count (snd e));
              phase = (if cells \<noteq> [] then JDraining else JClosed);
              after = \<lparr>js_cells = cells, js_closed = js_closed before, js_counts = js_counts before,
                       js_emitted = emitted, js_bytes = size, js_values = vals, js_phase = phase\<rparr>
          in rbind (count emitted 0 MAX_COUNT) (\<lambda>_.
             rbind (admit after row_count byte_count h) (\<lambda>h.
             rbind (join_batch_check
                      \<lparr>jb_rows = concat (map (\<lambda>e. cell_rows (fst e) (snd e) (kj_sides j)) selected),
                       jb_phase = phase, jb_pending = int (length cells),
                       jb_drained = int (length selected)\<rparr>) (\<lambda>batch.
               Inr (after, batch, h)))))"

section \<open>Checkpoints\<close>

record join_checkpoint =
  jc_identity :: pystr
  jc_sides :: "pystr list"
  jc_closed :: "bool list"
  jc_phase :: join_phase
  jc_counts :: "int list"
  jc_emitted :: int
  jc_cells :: "(pystr \<times> pystr list list) list"

text \<open>One turn over the cells: totals, retained values of each side, and the previous key.\<close>

definition check_join_cell :: "nat \<Rightarrow> pystr \<times> pystr list list \<Rightarrow> int \<times> int \<times> int list \<times> pystr option
    \<Rightarrow> (int \<times> int \<times> int list \<times> pystr option) res" where
  "check_join_cell n cell s =
     (let (total_count, total_bytes, side_counts, previous) = s; (k, values) = cell
      in rbind (shape k values n hard_limits) (\<lambda>(cnt, size).
         if (case previous of None \<Rightarrow> False | Some p \<Rightarrow> k \<le> p) then Inl ValidationError
         else if jl_values hard_limits < total_count + cnt \<or> jl_state_bytes hard_limits < total_bytes + size
         then Inl ValidationError
         else Inr (total_count + cnt, total_bytes + size,
                   map2 (\<lambda>c side. c + int (length side)) side_counts values, Some k)))"

definition join_hooks :: json_hooks where
  "join_hooks = \<lparr>reject_dup = True, reject_const = True, finite_float = False, bounded_int = False\<rparr>"

definition check_join_text :: "pystr \<Rightarrow> unit res" where
  "check_join_text encoded =
     (case loads join_hooks encoded of
        Inl _ \<Rightarrow> Inl ValidationError
      | Inr j \<Rightarrow>
          rbind (snapshot (py_of_json j) (jl_value_bytes hard_limits)) (\<lambda>t. check (t = encoded)))"

definition check_join_values :: "pystr \<times> pystr list list \<Rightarrow> unit res" where
  "check_join_values cell =
     rbind (fold_res (\<lambda>t _. check_join_text t) (concat (snd cell)) ()) (\<lambda>_.
     rbind (make_cell (fst cell) (snd cell) hard_limits) (\<lambda>_. Inr ()))"

definition join_checkpoint_check :: "join_checkpoint \<Rightarrow> join_checkpoint res" where
  "join_checkpoint_check c =
     (let n = length (jc_sides c)
      in if \<not> sides_ok (jc_sides c) then Inl ValidationError
         else if \<not> is_hex64 (jc_identity c) then Inl ValidationError
         else if length (jc_closed c) \<noteq> n \<or> length (jc_counts c) \<noteq> n then Inl ValidationError
         else rbind (map_res (\<lambda>i. count i 0 MAX_COUNT) (jc_counts c)) (\<lambda>_.
              rbind (count (sum_list (jc_counts c)) 0 MAX_COUNT) (\<lambda>_.
              rbind (count (jc_emitted c) 0 MAX_COUNT) (\<lambda>_.
              if sum_list (jc_counts c) * jl_rows_per_key hard_limits < jc_emitted c
              then Inl ValidationError
              else if jl_keys hard_limits < int (length (jc_cells c)) then Inl ValidationError
              else if (jc_phase c = JOpen) = list_all id (jc_closed c) then Inl ValidationError
              else if (jc_phase c = JClosed \<and> jc_cells c \<noteq> []) \<or> (jc_phase c = JDraining \<and> jc_cells c = [])
              then Inl ValidationError
              else rbind (fold_res (check_join_cell n) (jc_cells c) (0, 0, replicate n 0, None))
                     (\<lambda>(_, _, side_counts, _).
                   if list_ex (\<lambda>(cnt, admitted). admitted < cnt) (zip side_counts (jc_counts c))
                   then Inl ValidationError
                   else rbind (fold_res (\<lambda>cell _. check_join_values cell) (jc_cells c) ()) (\<lambda>_.
                        Inr c))))))"

definition join_cell_doc :: "pystr \<times> pystr list list \<Rightarrow> json" where
  "join_cell_doc cell = JObj
     [jfield ''key'' (JStr (fst cell)),
      jfield ''values'' (JArr (map (\<lambda>side. JArr (map JStr side)) (snd cell)))]"

definition join_checkpoint_to_dict :: "join_checkpoint \<Rightarrow> json" where
  "join_checkpoint_to_dict c = JObj
     [jfield ''kind'' (JStr (lit ''stream-quilt-join-checkpoint'')),
      jfield ''version'' (JStr (lit ''1.0'')), jfield ''identity'' (JStr (jc_identity c)),
      jfield ''sides'' (JArr (map JStr (jc_sides c))),
      jfield ''closed_sides'' (JArr (map JBool (jc_closed c))),
      jfield ''phase'' (JStr (lit (phase_name (jc_phase c)))),
      jfield ''processed_inputs'' (JArr (map JInt (jc_counts c))),
      jfield ''emitted_rows'' (JInt (jc_emitted c)),
      jfield ''cells'' (JArr (map join_cell_doc (jc_cells c)))]"

definition join_checkpoint_to_json :: "join_checkpoint \<Rightarrow> pystr" where
  "join_checkpoint_to_json c = dumps (join_checkpoint_to_dict c)"

definition read_side_list :: "(json \<Rightarrow> 'a res) \<Rightarrow> json \<Rightarrow> 'a list res" where
  "read_side_list f v =
     rbind (read_list f v) (\<lambda>xs.
       if 2 \<le> length xs \<and> length xs \<le> 16 then Inr xs else Inl ValidationError)"

definition read_phase :: "json \<Rightarrow> join_phase res" where
  "read_phase v =
     (if v = JStr (lit ''open'') then Inr JOpen
      else if v = JStr (lit ''draining'') then Inr JDraining
      else if v = JStr (lit ''closed'') then Inr JClosed
      else Inl ValidationError)"

definition read_join_cell :: "nat \<Rightarrow> json \<Rightarrow> (pystr \<times> pystr list list) list \<times> int \<times> int
    \<Rightarrow> ((pystr \<times> pystr list list) list \<times> int \<times> int) res" where
  "read_join_cell n doc s =
     (let (cells, cnt, size) = s
      in rbind (doc_fields [''key'', ''values''] doc) (\<lambda>kvs.
         rbind (rbind (doc_get kvs ''key'') read_str) (\<lambda>k.
         rbind (rbind (doc_get kvs ''values'') (read_list (read_list read_str))) (\<lambda>values.
         rbind (shape k values n hard_limits) (\<lambda>(c, sz).
           if jl_values hard_limits < cnt + c \<or> jl_state_bytes hard_limits < size + sz
           then Inl ValidationError
           else Inr (cells @ [(k, values)], cnt + c, size + sz))))))"

definition join_checkpoint_from_dict :: "json \<Rightarrow> join_checkpoint res" where
  "join_checkpoint_from_dict doc =
     rbind (doc_fields [''kind'', ''version'', ''identity'', ''sides'', ''closed_sides'', ''phase'',
                        ''processed_inputs'', ''emitted_rows'', ''cells''] doc) (\<lambda>kvs.
     rbind (doc_get kvs ''kind'') (\<lambda>kind. rbind (doc_get kvs ''version'') (\<lambda>version.
     if kind \<noteq> JStr (lit ''stream-quilt-join-checkpoint'') \<or> version \<noteq> JStr (lit ''1.0'')
     then Inl ValidationError
     else
       rbind (rbind (doc_get kvs ''sides'') (read_side_list read_str)) (\<lambda>sides.
       rbind (rbind (doc_get kvs ''closed_sides'') (read_side_list read_bool)) (\<lambda>closed.
       rbind (rbind (doc_get kvs ''processed_inputs'') (read_side_list read_int)) (\<lambda>counts.
       rbind (rbind (doc_get kvs ''cells'') (read_list Inr)) (\<lambda>cells.
       if jl_keys hard_limits < int (length cells) then Inl ValidationError
       else
         rbind (fold_res (read_join_cell (length sides)) cells ([], 0, 0)) (\<lambda>(cells, _, _).
         rbind (rbind (doc_get kvs ''identity'') read_str) (\<lambda>identity.
         rbind (rbind (doc_get kvs ''phase'') read_phase) (\<lambda>phase.
         rbind (rbind (doc_get kvs ''emitted_rows'') read_int) (\<lambda>emitted.
           join_checkpoint_check
             \<lparr>jc_identity = identity, jc_sides = sides, jc_closed = closed, jc_phase = phase,
              jc_counts = counts, jc_emitted = emitted, jc_cells = cells\<rparr>)))))))))))"

definition MAX_DOCUMENT_BYTES :: int where "MAX_DOCUMENT_BYTES = 66 * 1024 * 1024"

definition join_checkpoint_from_json :: "pystr \<Rightarrow> join_checkpoint res" where
  "join_checkpoint_from_json payload =
     (if MAX_DOCUMENT_BYTES < int (length payload) then Inl ValidationError
      else if \<not> utf8_ok payload then Inl ValidationError
      else if MAX_DOCUMENT_BYTES < byte_len payload then Inl ValidationError
      else (case loads join_hooks payload of
              Inl _ \<Rightarrow> Inl ValidationError
            | Inr doc \<Rightarrow> join_checkpoint_from_dict doc))"

section \<open>The runtime\<close>

record join_runtime =
  jt_join :: keyed_join
  jt_state :: join_state
  jt_busy :: bool

definition make_join_runtime :: "keyed_join \<Rightarrow> join_runtime res" where
  "make_join_runtime j =
     (if keyed_join_ok j
      then Inr \<lparr>jt_join = j,
             jt_state = \<lparr>js_cells = [], js_closed = replicate (length (kj_sides j)) False,
                         js_counts = replicate (length (kj_sides j)) 0, js_emitted = 0, js_bytes = 0,
                         js_values = 0, js_phase = JOpen\<rparr>,
             jt_busy = False\<rparr>
      else Inl ValidationError)"

datatype join_op = JProcess pystr flow_record | JClose pystr | JDrain int

definition join_stage :: "keyed_join \<Rightarrow> join_op \<Rightarrow> join_state \<Rightarrow> (join_state \<times> join_batch) res" where
  "join_stage j op s =
     (case op of
        JProcess side r \<Rightarrow> rbind (stage_process j no_admit s side r ()) (\<lambda>(s, b, _). Inr (s, b))
      | JClose side \<Rightarrow> stage_close j s side
      | JDrain n \<Rightarrow> rbind (stage_drain j no_admit s n ()) (\<lambda>(s, b, _). Inr (s, b)))"

text \<open>\<open>process\<close>, \<open>close\<close> and \<open>drain\<close> inside \<open>_operation\<close>.\<close>

definition join_apply :: "join_op \<Rightarrow> join_runtime \<Rightarrow> join_batch res \<times> join_runtime" where
  "join_apply op rt =
     (if jt_busy rt then (Inl ValidationError, rt)
      else let rt1 = rt\<lparr>jt_busy := True\<rparr>
           in (case join_stage (jt_join rt1) op (jt_state rt1) of
                 Inl e \<Rightarrow> (Inl e, rt1\<lparr>jt_busy := False\<rparr>)
               | Inr (after, batch) \<Rightarrow> (Inr batch, rt1\<lparr>jt_state := after, jt_busy := False\<rparr>)))"

fun join_pulls :: "nat \<Rightarrow> (pystr \<times> flow_record) list \<Rightarrow> join_runtime
    \<Rightarrow> (join_batch list \<times> unit res \<times> (pystr \<times> flow_record) list) \<times> join_runtime" where
  "join_pulls 0 items rt = (([], Inr (), items), rt)"
| "join_pulls (Suc n) [] rt = (([], Inr (), []), rt)"
| "join_pulls (Suc n) ((side, r) # items) rt =
     (case join_apply (JProcess side r) rt of
        (Inl e, rt1) \<Rightarrow> (([], Inl e, items), rt1)
      | (Inr b, rt1) \<Rightarrow>
          (let ((bs, e, rest), rt2) = join_pulls n items rt1 in ((b # bs, e, rest), rt2)))"

definition join_run :: "int \<Rightarrow> (pystr \<times> flow_record) list \<Rightarrow> join_runtime
    \<Rightarrow> (join_batch list \<times> unit res \<times> (pystr \<times> flow_record) list) \<times> join_runtime" where
  "join_run max_inputs items rt =
     (if count max_inputs 1 100000 \<noteq> Inr max_inputs then (([], Inl ValidationError, items), rt)
      else join_pulls (nat max_inputs) items rt)"

definition join_checkpoint_of :: "join_runtime \<Rightarrow> join_checkpoint res" where
  "join_checkpoint_of rt =
     (if jt_busy rt then Inl ValidationError
      else let s = jt_state rt
           in join_checkpoint_check
                \<lparr>jc_identity = join_identity (jt_join rt), jc_sides = kj_sides (jt_join rt),
                 jc_closed = js_closed s, jc_phase = js_phase s, jc_counts = js_counts s,
                 jc_emitted = js_emitted s,
                 jc_cells = map (\<lambda>(k, c). (k, ce_values c)) (sort_key fst (js_cells s))\<rparr>)"

definition restore_join_cell :: "keyed_join \<Rightarrow> pystr \<times> pystr list list
    \<Rightarrow> (pystr, join_cell) dict \<times> int \<times> int \<Rightarrow> ((pystr, join_cell) dict \<times> int \<times> int) res" where
  "restore_join_cell j cell s =
     (let (k, values) = cell; (cells, size, cnt) = s; l = kj_limits j
      in if kj_insert j \<noteq> JProduct \<and> list_ex (\<lambda>side. 1 < length side) values then Inl ValidationError
         else if kj_emit j = JComplete \<and> list_all (\<lambda>side. side \<noteq> []) values then Inl ValidationError
         else rbind (make_cell k values l) (\<lambda>c.
           if int (length cells) = jl_keys l \<or> jl_state_bytes l < size + ce_bytes c
              \<or> jl_values l < cnt + ce_count c
           then Inl ValidationError
           else Inr (dput k c cells, size + ce_bytes c, cnt + ce_count c)))"

definition retained_counts :: "nat \<Rightarrow> (pystr, join_cell) dict \<Rightarrow> int list" where
  "retained_counts n cells =
     map (\<lambda>i. \<Sum>e\<leftarrow>cells. int (length (ce_values (snd e) ! i))) [0..<n]"

text \<open>The consistency of the counters with the retained cells that \<open>from_checkpoint\<close> demands.\<close>

definition join_counters_ok :: "keyed_join \<Rightarrow> join_phase \<Rightarrow> int list \<Rightarrow> int \<Rightarrow> (pystr, join_cell) dict \<Rightarrow> bool" where
  "join_counters_ok j phase counts outputs cells \<longleftrightarrow>
     (let l = kj_limits j; inputs = sum_list counts; product = (kj_insert j = JProduct);
          retained = retained_counts (length (kj_sides j)) cells;
          consumed = map2 (-) counts retained;
          factor = (if product then jl_rows_per_key l else 1)
      in outputs \<le> inputs * jl_rows_per_key l
         \<and> \<not> (product \<and> kj_emit j \<noteq> JComplete \<and> jl_values l < inputs)
         \<and> (phase = JOpen \<and> kj_emit j \<noteq> JComplete \<longrightarrow>
              (if product then retained = counts
               else list_all (\<lambda>(admitted, saved). admitted = 0 \<or> saved \<noteq> 0) (zip counts retained)))
         \<and> \<not> (kj_emit j = JRunning \<and> (outputs < inputs \<or> \<not> product \<and> outputs \<noteq> inputs))
         \<and> \<not> (kj_emit j = JComplete \<and> Min (set consumed) * factor < outputs)
         \<and> \<not> (kj_emit j = JFinal \<and> \<not> product \<and> inputs - int (length cells) < outputs)
         \<and> (kj_emit j = JFinal \<longrightarrow>
              \<not> (phase = JClosed \<and> inputs \<noteq> 0 \<and> outputs = 0)
              \<and> outputs \<le> (jl_keys l - int (length cells)) * factor
              \<and> \<not> (product \<and> (outputs < Max (set consumed)
                              \<or> sum_list consumed * jl_rows_per_key l < outputs))))"

definition join_from_checkpoint :: "keyed_join \<Rightarrow> join_checkpoint \<Rightarrow> join_runtime res" where
  "join_from_checkpoint j c =
     rbind (make_join_runtime j) (\<lambda>rt.
     rbind (join_checkpoint_check c) (\<lambda>c.
     if jc_identity c \<noteq> join_identity j \<or> jc_sides c \<noteq> kj_sides j then Inl ValidationError
     else if jc_phase c = JDraining \<and> kj_emit j \<noteq> JFinal then Inl ValidationError
     else if jc_phase c = JOpen \<and> kj_emit j = JFinal \<and> jc_emitted c \<noteq> 0 then Inl ValidationError
     else rbind (fold_res (restore_join_cell j) (jc_cells c) ([], 0, 0)) (\<lambda>(cells, size, cnt).
       if \<not> join_counters_ok j (jc_phase c) (jc_counts c) (jc_emitted c) cells then Inl ValidationError
       else Inr (rt\<lparr>jt_state := \<lparr>js_cells = cells, js_closed = jc_closed c, js_counts = jc_counts c,
                    js_emitted = jc_emitted c, js_bytes = size, js_values = cnt,
                    js_phase = jc_phase c\<rparr>\<rparr>))))"

end
