(* ===== verification/Multi_Graph.thy ===== *)
theory Multi_Graph
  imports Branching Keyed_Join
begin

text \<open>
  \<open>multi_graph.py\<close>: graphs with several sources, shared operators and keyed joins as nodes. Each
  source has its own positions and is closed explicitly; the end of a source travels along the
  edges and closes the sides of the joins. One operation (an input, a close, a drain of one
  ready join) is one transaction over the keyed state, the join states and the aggregate budgets.
\<close>

section \<open>Declarations\<close>

type_synonym multi_node = "keyed_join graph_node"

text \<open>\<open>FlowJoin\<close> is \<open>GOther\<close>. \<open>FlowEdge\<close> has no side, \<open>JoinEdge\<close> has one.\<close>

record multi_edge = flow_edge +
  edge_side :: "pystr option"

record flow_entry =
  en_source :: pystr
  en_step :: pystr

definition MAX_MULTI_CELLS :: int where "MAX_MULTI_CELLS = 100000"
definition MAX_MULTI_VALUES :: int where "MAX_MULTI_VALUES = 1000000"
definition MAX_MULTI_STATE :: int where "MAX_MULTI_STATE = 64 * 1024 * 1024"

record multi_limits =
  ml_graph :: graph_limits
  ml_cells :: int
  ml_values :: int
  ml_bytes :: int

definition multi_limits_ok :: "multi_limits \<Rightarrow> bool" where
  "multi_limits_ok l \<longleftrightarrow>
     graph_limits_ok (ml_graph l)
     \<and> 1 \<le> ml_cells l \<and> ml_cells l \<le> MAX_MULTI_CELLS
     \<and> 1 \<le> ml_values l \<and> ml_values l \<le> MAX_MULTI_VALUES
     \<and> 1 \<le> ml_bytes l \<and> ml_bytes l \<le> MAX_MULTI_STATE"

definition multi_limits_doc :: "multi_limits \<Rightarrow> json" where
  "multi_limits_doc l = JObj
     [jfield ''graph'' (graph_limits_doc (ml_graph l)), jfield ''max_state_cells'' (JInt (ml_cells l)),
      jfield ''max_join_values'' (JInt (ml_values l)), jfield ''max_state_bytes'' (JInt (ml_bytes l))]"

record multi_graph =
  mg_flow_id :: pystr
  mg_revision :: pystr
  mg_nodes :: "multi_node list"
  mg_edges :: "multi_edge list"
  mg_entries :: "flow_entry list"
  mg_limits :: multi_limits

definition flow_join_ok :: "pystr \<Rightarrow> keyed_join \<Rightarrow> bool" where
  "flow_join_ok i j \<longleftrightarrow> is_label i \<and> keyed_join_ok j \<and> kj_id j = i"

fun multi_node_ok :: "multi_node \<Rightarrow> bool" where
  "multi_node_ok (GOther i j) = flow_join_ok i j"
| "multi_node_ok n = graph_node_ok n"

definition multi_joins :: "multi_node list \<Rightarrow> (pystr \<times> keyed_join) list" where
  "multi_joins nodes = concat (map (\<lambda>n. case n of GOther i j \<Rightarrow> [(i, j)] | _ \<Rightarrow> []) nodes)"

definition multi_edge_ok :: "multi_edge \<Rightarrow> bool" where
  "multi_edge_ok e \<longleftrightarrow> is_label (edge_source e) \<and> is_label (edge_target e)
     \<and> (case edge_side e of None \<Rightarrow> True | Some s \<Rightarrow> is_label s)"

text \<open>The loop over the entries: new source, new step, and the step an ordinary step or branch.\<close>

definition entry_step :: "multi_node list \<Rightarrow> flow_entry \<Rightarrow> pystr list \<times> pystr list
    \<Rightarrow> (pystr list \<times> pystr list) res" where
  "entry_step nodes en s =
     (let (sources, roots) = s
      in if \<not> (is_label (en_source en) \<and> is_label (en_step en)) then Inl ValidationError
         else if en_source en \<in> set sources \<or> en_step en \<in> set roots
              \<or> \<not> (case find (\<lambda>n. node_id n = en_step en) nodes of
                     Some (GStep f) \<Rightarrow> True | Some (GBranch i f) \<Rightarrow> True | _ \<Rightarrow> False)
         then Inl ValidationError
         else Inr (sources @ [en_source en], roots @ [en_step en]))"

definition is_join :: "multi_node \<Rightarrow> bool" where
  "is_join n = (case n of GOther i j \<Rightarrow> True | _ \<Rightarrow> False)"

text \<open>An edge between known nodes; exactly the edges into a join name a side.\<close>

definition port_ok :: "multi_node list \<Rightarrow> multi_edge \<Rightarrow> bool" where
  "port_ok nodes e \<longleftrightarrow>
     edge_source e \<in> set (map node_id nodes) \<and> edge_target e \<in> set (map node_id nodes)
     \<and> is_join (node_of nodes (edge_target e)) = (edge_side e \<noteq> None)"

definition multi_arity_ok :: "multi_edge list \<Rightarrow> pystr list \<Rightarrow> multi_node \<Rightarrow> bool" where
  "multi_arity_ok es roots node \<longleftrightarrow>
     (let ins = edges_into es (node_id node); outs = edges_from es (node_id node)
      in (case node of
            GOther i j \<Rightarrow>
              length ins = length (kj_sides j) \<and> set (map edge_side ins) = Some ` set (kj_sides j)
          | GMerge i \<Rightarrow> 2 \<le> length ins
          | _ \<Rightarrow> length ins = (if node_id node \<in> set roots then 0 else 1))
         \<and> (case node of
              GBranch i f \<Rightarrow> set (map edge_route outs) = {Some True, Some False}
            | _ \<Rightarrow> list_all (\<lambda>e. edge_route e = None) outs))"

definition multi_check :: "multi_graph \<Rightarrow> pystr list res" where
  "multi_check g =
     (let nodes = mg_nodes g; ids = map node_id nodes; es = mg_edges g
      in if \<not> (is_label (mg_flow_id g) \<and> is_label (mg_revision g)) then Inl ValidationError
         else if \<not> (1 \<le> length nodes \<and> length nodes \<le> 64) then Inl ValidationError
         else if \<not> list_all multi_node_ok nodes then Inl ValidationError
         else if \<not> distinct ids \<or> 16 < length (filter is_join nodes) then Inl ValidationError
         else if \<not> (1 \<le> length (mg_entries g) \<and> length (mg_entries g) \<le> 16) then Inl ValidationError
         else rbind (fold_res (entry_step nodes) (mg_entries g) ([], [])) (\<lambda>(_, roots).
              if 256 < length es then Inl ValidationError
              else if \<not> list_all (\<lambda>e. multi_edge_ok e \<and> port_ok nodes e) es then Inl ValidationError
              else if \<not> distinct es then Inl ValidationError
              else rbind (topological_order ids (edges_into es)) (\<lambda>order.
                if set (fold (mark_targets (edges_from es)) order roots) \<noteq> set ids
                then Inl ValidationError
                else if \<not> list_all (multi_arity_ok es roots) nodes then Inl ValidationError
                else if \<not> multi_limits_ok (mg_limits g) then Inl ValidationError
                else Inr order)))"

definition multi_node_doc :: "multi_node \<Rightarrow> json" where
  "multi_node_doc n =
     (case n of
        GOther i j \<Rightarrow> JObj [jfield ''step_id'' (JStr i), jfield ''operator'' (JStr (lit ''join'')),
                           jfield ''join_identity'' (JStr (join_identity j))]
      | _ \<Rightarrow> JObj [jfield ''step_id'' (JStr (node_id n)), jfield ''operator'' (JStr (lit (node_operator n)))])"

definition multi_edge_doc :: "multi_edge \<Rightarrow> json" where
  "multi_edge_doc e = JObj
     ([jfield ''source'' (JStr (edge_source e)), jfield ''target'' (JStr (edge_target e)),
       jfield ''route'' (case edge_route e of None \<Rightarrow> JNull | Some b \<Rightarrow> JBool b)]
      @ (case edge_side e of None \<Rightarrow> [] | Some s \<Rightarrow> [jfield ''side'' (JStr s)]))"

definition multi_to_dict :: "multi_graph \<Rightarrow> json" where
  "multi_to_dict g = JObj
     [jfield ''kind'' (JStr (lit ''stream-quilt-multisource-graph'')), jfield ''version'' (JStr (lit ''1.0'')),
      jfield ''flow_id'' (JStr (mg_flow_id g)), jfield ''revision'' (JStr (mg_revision g)),
      jfield ''entries'' (JArr (map (\<lambda>en. JObj [jfield ''source_id'' (JStr (en_source en)),
                                               jfield ''step_id'' (JStr (en_step en))]) (mg_entries g))),
      jfield ''nodes'' (JArr (map multi_node_doc (mg_nodes g))),
      jfield ''edges'' (JArr (map multi_edge_doc (mg_edges g))),
      jfield ''limits'' (multi_limits_doc (mg_limits g))]"

definition multi_identity :: "multi_graph \<Rightarrow> pystr" where
  "multi_identity g = sha256_hex (dumps (multi_to_dict g))"

section \<open>Inputs and batches\<close>

record multi_input =
  mi_source :: pystr
  mi_position :: int
  mi_record :: flow_record

definition multi_input_check :: "multi_input \<Rightarrow> unit res" where
  "multi_input_check x =
     rbind (key (PStr (mi_source x))) (\<lambda>_. rbind (count (mi_position x) 0 MAX_COUNT) (\<lambda>_. Inr ()))"

record multi_batch =
  mb_outputs :: "graph_output list"
  mb_operations :: int
  mb_phase :: join_phase
  mb_ready :: "pystr list"

definition output_bytes_step :: "graph_output \<Rightarrow> int \<Rightarrow> int res" where
  "output_bytes_step x n =
     (if \<not> is_label (out_step x) \<or> 256 * 1024 * 1024 < n + rec_size (out_record x) then Inl ValidationError
      else Inr (n + rec_size (out_record x)))"

definition multi_batch_check :: "multi_batch \<Rightarrow> multi_batch res" where
  "multi_batch_check b =
     rbind (count (mb_operations b) 0 MAX_COUNT) (\<lambda>_.
     if 1000000 < length (mb_outputs b) then Inl ValidationError
     else rbind (fold_res output_bytes_step (mb_outputs b) 0) (\<lambda>_.
       if 16 < length (mb_ready b) then Inl ValidationError
       else if \<not> list_all is_label (mb_ready b) \<or> \<not> distinct (mb_ready b) then Inl ValidationError
       else if (mb_phase b = JClosed \<and> mb_ready b \<noteq> []) \<or> (mb_phase b = JDraining \<and> mb_ready b = [])
       then Inl ValidationError
       else Inr b))"

section \<open>State\<close>

record multi_state =
  ms_ordinary :: "(state_key, pystr) dict"
  ms_ordinary_bytes :: int
  ms_joins :: "(pystr, join_state) dict"
  ms_positions :: "int list"
  ms_closed :: "bool list"
  ms_edges :: "int list"
  ms_operations :: int
  ms_emitted :: int
  ms_cells :: int
  ms_values :: int
  ms_bytes :: int

definition empty_join_state :: "keyed_join \<Rightarrow> join_state" where
  "empty_join_state j =
     \<lparr>js_cells = [], js_closed = replicate (length (kj_sides j)) False,
      js_counts = replicate (length (kj_sides j)) 0, js_emitted = 0, js_bytes = 0, js_values = 0, js_phase = JOpen\<rparr>"

definition empty_multi_state :: "multi_graph \<Rightarrow> multi_state" where
  "empty_multi_state g =
     \<lparr>ms_ordinary = [], ms_ordinary_bytes = 0,
      ms_joins = map (\<lambda>(k, j). (k, empty_join_state j)) (multi_joins (mg_nodes g)),
      ms_positions = replicate (length (mg_entries g)) 0, ms_closed = replicate (length (mg_entries g)) False,
      ms_edges = replicate (length (mg_edges g)) 0, ms_operations = 0, ms_emitted = 0,
      ms_cells = 0, ms_values = 0, ms_bytes = 0\<rparr>"

definition multi_ordinary_bytes :: "state_key \<Rightarrow> pystr option \<Rightarrow> int" where
  "multi_ordinary_bytes k v =
     (case v of
        None \<Rightarrow> 0
      | Some t \<Rightarrow> byte_len (dumps (JObj [jfield ''step'' (JStr (fst k)), jfield ''key'' (JStr (snd k)),
                                        jfield ''value'' (JStr t)])))"

definition join_overhead :: "pystr \<Rightarrow> int" where
  "join_overhead step =
     byte_len (dumps (JObj [jfield ''step'' (JStr step), jfield ''cell'' JNull])) - 4"

text \<open>The final joins that are ready to drain, in execution order, and the phase of the graph.\<close>

definition joins_ready :: "pystr list \<Rightarrow> (pystr, join_state) dict \<Rightarrow> pystr list" where
  "joins_ready order joins =
     filter (\<lambda>k. case dget joins k of None \<Rightarrow> False | Some s \<Rightarrow> js_phase s = JDraining) order"

definition graph_phase :: "bool list \<Rightarrow> pystr list \<Rightarrow> join_phase" where
  "graph_phase closed ready =
     (if \<not> list_all id closed then JOpen else if ready \<noteq> [] then JDraining else JClosed)"

section \<open>The budgets of one operation\<close>

text \<open>
  The working copies of \<open>_execute\<close> and its \<open>_Work\<close>: retained cells, values and wire bytes, the
  records and bytes handled, what is reserved for deliveries that are still owed on the edges out
  of joins (\<open>pending\<close>), the delivery counts, and the join states.
\<close>

record multi_hook =
  mh_cells :: int
  mh_values :: int
  mh_bytes :: int
  mh_records :: int
  mh_work :: int
  mh_reserved_records :: int
  mh_reserved_work :: int
  mh_pending :: "(multi_edge, int \<times> int) dict"
  mh_edges :: "int list"
  mh_joins :: "(pystr, join_state) dict"

definition retention :: "multi_limits \<Rightarrow> multi_hook \<Rightarrow> multi_hook res" where
  "retention l h =
     (if ml_cells l < mh_cells h \<or> ml_values l < mh_values h \<or> ml_bytes l < mh_bytes h
      then Inl ValidationError else Inr h)"

definition multi_propose :: "multi_limits \<Rightarrow> state_key \<Rightarrow> pystr option \<Rightarrow> pystr option \<Rightarrow> multi_hook \<Rightarrow> multi_hook res" where
  "multi_propose l k old new h =
     retention l (h\<lparr>mh_cells := mh_cells h + (if new \<noteq> None then 1 else 0) - (if old \<noteq> None then 1 else 0),
                    mh_bytes := mh_bytes h + multi_ordinary_bytes k new - multi_ordinary_bytes k old\<rparr>)"

definition multi_ensure :: "graph_limits \<Rightarrow> int \<Rightarrow> int \<Rightarrow> multi_hook \<Rightarrow> unit res" where
  "multi_ensure gl records bytes h =
     check (\<not> (max_work_records gl < mh_records h + mh_reserved_records h + records
               \<or> max_work_bytes gl < mh_work h + mh_reserved_work h + bytes))"

definition multi_charge :: "graph_limits \<Rightarrow> flow_record \<Rightarrow> multi_hook \<Rightarrow> multi_hook res" where
  "multi_charge gl r h =
     (if max_record_bytes (operator_limits gl) < rec_size r then Inl ValidationError
      else rbind (multi_ensure gl 1 (rec_size r) h) (\<lambda>_.
             Inr (h\<lparr>mh_records := mh_records h + 1, mh_work := mh_work h + rec_size r\<rparr>)))"

definition dict_at :: "(pystr, 'v) dict \<Rightarrow> pystr \<Rightarrow> 'v res" where
  "dict_at d k = (case dget d k of None \<Rightarrow> Inl KeyError | Some v \<Rightarrow> Inr v)"

definition owe :: "int \<Rightarrow> int \<Rightarrow> multi_edge \<Rightarrow> (multi_edge, int \<times> int) dict \<Rightarrow> (multi_edge, int \<times> int) dict" where
  "owe rows bytes e pending =
     (let (n, b) = (case dget pending e of None \<Rightarrow> (0, 0) | Some p \<Rightarrow> p)
      in dput e (n + rows, b + bytes) pending)"

definition join_admit :: "multi_graph \<Rightarrow> pystr \<Rightarrow> multi_hook admit" where
  "join_admit g k after rows bytes h =
     rbind (dict_at (mh_joins h) k) (\<lambda>old.
     let grown = int (length (js_cells after)) - int (length (js_cells old));
         edges = edges_from (mg_edges g) k; n = int (length edges); gl = ml_graph (mg_limits g)
     in rbind (retention (mg_limits g)
                 (h\<lparr>mh_cells := mh_cells h + grown,
                    mh_values := mh_values h + js_values after - js_values old,
                    mh_bytes := mh_bytes h + js_bytes after - js_bytes old + grown * join_overhead k\<rparr>)) (\<lambda>h.
        rbind (multi_ensure gl (rows * (1 + n)) (bytes * (1 + n)) h) (\<lambda>_.
          Inr (h\<lparr>mh_reserved_records := mh_reserved_records h + rows * n,
                 mh_reserved_work := mh_reserved_work h + bytes * n,
                 mh_pending := fold (owe rows bytes) edges (mh_pending h)\<rparr>))))"

definition edge_place :: "multi_edge \<Rightarrow> multi_edge list \<Rightarrow> nat" where
  "edge_place e es = length (takeWhile (\<lambda>x. x \<noteq> e) es)"

definition multi_delivered :: "multi_graph \<Rightarrow> multi_edge \<Rightarrow> nat \<Rightarrow> multi_hook \<Rightarrow> multi_hook res" where
  "multi_delivered g e n h =
     (let (reserved, size) = (case dget (mh_pending h) e of None \<Rightarrow> (0, 0) | Some p \<Rightarrow> p);
          i = edge_place e (mg_edges g)
      in rbind (count (mh_edges h ! i + int n) 0 MAX_COUNT) (\<lambda>m.
           Inr (h\<lparr>mh_pending := ddel e (mh_pending h),
                  mh_reserved_records := mh_reserved_records h - reserved,
                  mh_reserved_work := mh_reserved_work h - size,
                  mh_edges := (mh_edges h)[i := m]\<rparr>)))"

definition join_at :: "multi_graph \<Rightarrow> pystr \<Rightarrow> keyed_join res" where
  "join_at g k = dict_at (multi_joins (mg_nodes g)) k"

section \<open>Joins in the walk\<close>

definition emit_row :: "graph_limits \<Rightarrow> join_row \<Rightarrow> flow_record list \<times> multi_hook \<Rightarrow> (flow_record list \<times> multi_hook) res" where
  "emit_row gl row s =
     rbind (row_to_record row) (\<lambda>r. rbind (multi_charge gl r (snd s)) (\<lambda>h. Inr (fst s @ [r], h)))"

definition join_item :: "multi_graph \<Rightarrow> pystr \<Rightarrow> keyed_join \<Rightarrow> pystr \<Rightarrow> flow_record
    \<Rightarrow> flow_record list \<times> multi_hook \<Rightarrow> (flow_record list \<times> multi_hook) res" where
  "join_item g k j side r s =
     rbind (dict_at (mh_joins (snd s)) k) (\<lambda>before.
     rbind (stage_process j (join_admit g k) before side r (snd s)) (\<lambda>(after, batch, h).
     rbind (fold_res (emit_row (ml_graph (mg_limits g))) (jb_rows batch) (fst s, h)) (\<lambda>(out, h).
       Inr (out, h\<lparr>mh_joins := dput k after (mh_joins h)\<rparr>))))"

definition join_batch_items :: "multi_graph \<Rightarrow> pystr \<Rightarrow> multi_edge \<times> flow_record list
    \<Rightarrow> flow_record list \<times> multi_hook \<Rightarrow> (flow_record list \<times> multi_hook) res" where
  "join_batch_items g k eb s =
     (case edge_side (fst eb) of
        None \<Rightarrow> Inl ValidationError
      | Some side \<Rightarrow> fold_res (\<lambda>r s. rbind (join_at g k) (\<lambda>j. join_item g k j side r s)) (snd eb) s)"

definition joined :: "multi_graph \<Rightarrow> pystr \<Rightarrow> (multi_edge \<times> flow_record list) list
    \<Rightarrow> flow_tx \<times> multi_hook \<Rightarrow> (flow_record list \<times> flow_tx \<times> multi_hook) res" where
  "joined g k batches s =
     rbind (fold_res (join_batch_items g k) batches ([], snd s)) (\<lambda>(out, h). Inr (out, fst s, h))"

definition multi_walk :: "multi_graph \<Rightarrow> (state_key, pystr) dict \<Rightarrow> (pystr, flow_record list) dict
    \<Rightarrow> (pystr, flow_record list) dict
    \<Rightarrow> (keyed_join, \<lparr>edge_side :: pystr option\<rparr>, multi_hook) walk_params" where
  "multi_walk g base seeds outputs =
     \<lparr>wp_limits = operator_limits (ml_graph (mg_limits g)), wp_base = base, wp_nodes = node_of (mg_nodes g),
      wp_incoming = edges_into (mg_edges g), wp_outgoing = edges_from (mg_edges g), wp_seeds = seeds,
      wp_hooks = \<lparr>on_propose = multi_propose (mg_limits g), on_emit = multi_charge (ml_graph (mg_limits g))\<rparr>,
      wp_extension = Some (joined g), wp_seed_outputs = outputs, wp_delivered = multi_delivered g\<rparr>"

section \<open>The end of a source\<close>

text \<open>All sources of a node have ended; the first that has not decides.\<close>

fun all_ended :: "(pystr, bool) dict \<Rightarrow> multi_edge list \<Rightarrow> bool res" where
  "all_ended eof [] = Inr True"
| "all_ended eof (e # es) = rbind (dict_at eof (edge_source e)) (\<lambda>b. if b then all_ended eof es else Inr False)"

definition close_side :: "multi_graph \<Rightarrow> pystr \<Rightarrow> (pystr, bool) dict \<Rightarrow> multi_edge \<Rightarrow> multi_hook \<Rightarrow> multi_hook res" where
  "close_side g k eof e h =
     (case edge_side e of
        None \<Rightarrow> Inr h
      | Some side \<Rightarrow>
          rbind (dict_at eof (edge_source e)) (\<lambda>ended.
          if \<not> ended then Inr h
          else rbind (join_at g k) (\<lambda>j. rbind (dict_at (mh_joins h) k) (\<lambda>before.
               rbind (stage_close j before side) (\<lambda>(after, _).
               rbind (join_admit g k after 0 0 h) (\<lambda>h.
                 Inr (h\<lparr>mh_joins := dput k after (mh_joins h)\<rparr>)))))))"

definition root_index :: "multi_graph \<Rightarrow> pystr \<Rightarrow> nat option" where
  "root_index g k =
     (if k \<in> set (map en_step (mg_entries g))
      then Some (length (takeWhile (\<lambda>en. en_step en \<noteq> k) (mg_entries g))) else None)"

definition end_node :: "multi_graph \<Rightarrow> bool list \<Rightarrow> pystr \<Rightarrow> (pystr, bool) dict \<times> multi_hook
    \<Rightarrow> ((pystr, bool) dict \<times> multi_hook) res" where
  "end_node g closed k s =
     (let (eof, h) = s
      in case root_index g k of
           Some i \<Rightarrow> Inr (dput k (closed ! i) eof, h)
         | None \<Rightarrow>
             if dget (mh_joins h) k \<noteq> None
             then rbind (fold_res (close_side g k eof) (edges_into (mg_edges g) k) h) (\<lambda>h.
                  rbind (dict_at (mh_joins h) k) (\<lambda>js.
                    Inr (dput k (js_phase js = JClosed) eof, h)))
             else rbind (all_ended eof (edges_into (mg_edges g) k)) (\<lambda>b. Inr (dput k b eof, h)))"

section \<open>Operations\<close>

definition begin_multi :: "multi_state \<Rightarrow> multi_hook" where
  "begin_multi s =
     \<lparr>mh_cells = ms_cells s, mh_values = ms_values s, mh_bytes = ms_bytes s, mh_records = 0, mh_work = 0,
      mh_reserved_records = 0, mh_reserved_work = 0, mh_pending = [], mh_edges = ms_edges s,
      mh_joins = ms_joins s\<rparr>"

text \<open>The arguments of \<open>_execute\<close>: an input, the end of a source, or a drain.\<close>

datatype multi_task = TInput nat flow_record | TClose nat | TDrain pystr int

definition task_seed :: "multi_graph \<Rightarrow> multi_task \<Rightarrow> multi_state \<Rightarrow> multi_hook
    \<Rightarrow> (int list \<times> bool list \<times> (pystr, flow_record list) dict \<times> (pystr, flow_record list) dict \<times> multi_hook) res" where
  "task_seed g t s h =
     (case t of
        TClose i \<Rightarrow> Inr (ms_positions s, (ms_closed s)[i := True], [], [], h)
      | TInput i r \<Rightarrow>
          rbind (multi_charge (ml_graph (mg_limits g)) r h) (\<lambda>h.
            Inr ((ms_positions s)[i := ms_positions s ! i + 1], ms_closed s,
                 [(en_step (mg_entries g ! i), [r])], [], h))
      | TDrain k n \<Rightarrow>
          rbind (join_at g k) (\<lambda>j. rbind (dict_at (mh_joins h) k) (\<lambda>before.
          rbind (stage_drain j (join_admit g k) before n h) (\<lambda>(after, batch, h).
          rbind (map_res row_to_record (jb_rows batch)) (\<lambda>rows.
            Inr (ms_positions s, ms_closed s, [], [(k, rows)], h\<lparr>mh_joins := dput k after (mh_joins h)\<rparr>))))))"

text \<open>The end of \<open>_execute\<close>: phase, counters, commit and the batch.\<close>

definition commit_multi :: "pystr list \<Rightarrow> multi_state \<Rightarrow> int list \<Rightarrow> bool list \<Rightarrow> graph_output list \<times> flow_tx \<times> multi_hook
    \<Rightarrow> (multi_state \<times> multi_batch) res" where
  "commit_multi order before positions closed s =
     (let (published, tx, h) = s; operations = ms_operations before + 1;
          ready = joins_ready order (mh_joins h); phase = graph_phase closed ready
      in rbind (count (ms_emitted before + int (length published)) 0 MAX_COUNT) (\<lambda>emitted.
         let (ordinary, bytes) = commit_tx (ms_ordinary before) tx
         in rbind (multi_batch_check \<lparr>mb_outputs = published, mb_operations = operations, mb_phase = phase,
                      mb_ready = ready\<rparr>) (\<lambda>b.
              Inr (\<lparr>ms_ordinary = ordinary, ms_ordinary_bytes = bytes, ms_joins = mh_joins h,
                    ms_positions = positions, ms_closed = closed, ms_edges = mh_edges h,
                    ms_operations = operations, ms_emitted = emitted, ms_cells = mh_cells h,
                    ms_values = mh_values h, ms_bytes = mh_bytes h\<rparr>, b))))"

definition multi_execute :: "multi_graph \<Rightarrow> pystr list \<Rightarrow> multi_task \<Rightarrow> multi_state \<Rightarrow> (multi_state \<times> multi_batch) res" where
  "multi_execute g order t before =
     rbind (count (ms_operations before + 1) 0 MAX_COUNT) (\<lambda>_.
     rbind (task_seed g t before (begin_multi before)) (\<lambda>(positions, closed, seeds, outputs, h).
     rbind (walk_graph (multi_walk g (ms_ordinary before) seeds outputs) order
              (begin_tx (ms_ordinary before) (ms_ordinary_bytes before), h)) (\<lambda>(published, tx, h).
     rbind (fold_res (end_node g closed) order ([], h)) (\<lambda>(_, h).
       commit_multi order before positions closed (published, tx, h)))))"

definition empty_batch :: "pystr list \<Rightarrow> multi_state \<Rightarrow> multi_batch res" where
  "empty_batch order s =
     (let ready = joins_ready order (ms_joins s)
      in multi_batch_check \<lparr>mb_outputs = [], mb_operations = ms_operations s,
           mb_phase = graph_phase (ms_closed s) ready, mb_ready = ready\<rparr>)"

text \<open>\<open>_source\<close>: a known source at its exact next position.\<close>

definition source_at :: "multi_graph \<Rightarrow> multi_state \<Rightarrow> pystr \<Rightarrow> int \<Rightarrow> nat res" where
  "source_at g s source position =
     (if source \<notin> set (map en_source (mg_entries g)) then Inl ValidationError
      else rbind (count position 0 MAX_COUNT) (\<lambda>_.
        let i = length (takeWhile (\<lambda>en. en_source en \<noteq> source) (mg_entries g))
        in if ms_positions s ! i \<noteq> position then Inl ValidationError else Inr i))"

datatype multi_op = MInput multi_input | MClose pystr int | MDrain int

fun multi_stage :: "multi_graph \<Rightarrow> pystr list \<Rightarrow> multi_op \<Rightarrow> multi_state \<Rightarrow> (multi_state \<times> multi_batch) res" where
  "multi_stage g order (MInput x) s =
     rbind (multi_input_check x) (\<lambda>_.
     rbind (source_at g s (mi_source x) (mi_position x)) (\<lambda>i.
     if ms_closed s ! i then Inl ValidationError
     else rbind (count (sum_list (ms_positions s) + 1) 0 MAX_COUNT) (\<lambda>_.
            multi_execute g order (TInput i (mi_record x)) s)))"
| "multi_stage g order (MClose source position) s =
     rbind (source_at g s source position) (\<lambda>i.
     if ms_closed s ! i then rbind (empty_batch order s) (\<lambda>b. Inr (s, b))
     else multi_execute g order (TClose i) s)"
| "multi_stage g order (MDrain n) s =
     rbind (count n 1 MAX_MULTI_CELLS) (\<lambda>_.
     case joins_ready order (ms_joins s) of
       [] \<Rightarrow> rbind (empty_batch order s) (\<lambda>b. Inr (s, b))
     | k # _ \<Rightarrow> multi_execute g order (TDrain k n) s)"

section \<open>The runtime\<close>

record multi_runtime =
  mr_flow :: multi_graph
  mr_order :: "pystr list"
  mr_state :: multi_state
  mr_busy :: bool

definition make_multi_runtime :: "multi_graph \<Rightarrow> multi_runtime res" where
  "make_multi_runtime g =
     rbind (multi_check g) (\<lambda>order.
       Inr \<lparr>mr_flow = g, mr_order = order, mr_state = empty_multi_state g, mr_busy = False\<rparr>)"

definition multi_apply :: "multi_op \<Rightarrow> multi_runtime \<Rightarrow> multi_batch res \<times> multi_runtime" where
  "multi_apply op rt =
     (if mr_busy rt then (Inl ValidationError, rt)
      else let rt1 = rt\<lparr>mr_busy := True\<rparr>
           in (case multi_stage (mr_flow rt1) (mr_order rt1) op (mr_state rt1) of
                 Inl e \<Rightarrow> (Inl e, rt1\<lparr>mr_busy := False\<rparr>)
               | Inr (after, b) \<Rightarrow> (Inr b, rt1\<lparr>mr_state := after, mr_busy := False\<rparr>)))"

fun multi_pulls :: "nat \<Rightarrow> multi_input list \<Rightarrow> multi_runtime
    \<Rightarrow> (multi_batch list \<times> unit res \<times> multi_input list) \<times> multi_runtime" where
  "multi_pulls 0 items rt = (([], Inr (), items), rt)"
| "multi_pulls (Suc n) [] rt = (([], Inr (), []), rt)"
| "multi_pulls (Suc n) (x # items) rt =
     (case multi_apply (MInput x) rt of
        (Inl e, rt1) \<Rightarrow> (([], Inl e, items), rt1)
      | (Inr b, rt1) \<Rightarrow>
          (let ((bs, e, rest), rt2) = multi_pulls n items rt1 in ((b # bs, e, rest), rt2)))"

definition multi_run :: "int \<Rightarrow> multi_input list \<Rightarrow> multi_runtime
    \<Rightarrow> (multi_batch list \<times> unit res \<times> multi_input list) \<times> multi_runtime" where
  "multi_run max_inputs items rt =
     (if count max_inputs 1 100000 \<noteq> Inr max_inputs then (([], Inl ValidationError, items), rt)
      else if mr_busy rt then (([], Inl ValidationError, items), rt)
      else multi_pulls (nat max_inputs) items rt)"

end
