(* ===== verification/Keyed_Join_Laws.thy ===== *)
theory Keyed_Join_Laws
  imports Keyed_Join Flow_Runtime_Laws
begin

text \<open>
  What \<open>keyed_join.py\<close> guarantees: the row and byte projections of a cell are exact for the
  Cartesian product it would emit, the state accounting is exact, transitions are atomic,
  draining makes progress and ends, and a checkpoint of any reachable state restores.
\<close>

section \<open>Projections of a cell\<close>

lemma side_length_pos: "1 \<le> side_length s"
  by (simp add: side_length_def)

definition total_rows :: "pystr list list \<Rightarrow> int" where
  "total_rows vss = prod_list (map side_length vss)"

lemma total_rows_simps [simp]:
  "total_rows [] = 1" "total_rows (s # vss) = side_length s * total_rows vss"
  by (simp_all add: total_rows_def)

lemma mult_ge_one: "1 \<le> (a::int) \<Longrightarrow> 1 \<le> b \<Longrightarrow> 1 \<le> a * b"
  using mult_mono [of 1 a 1 b] by simp

lemma total_rows_pos: "1 \<le> total_rows vss"
  by (induction vss) (simp_all add: mult_ge_one side_length_pos)

lemma side_length_dvd: "s \<in> set vss \<Longrightarrow> side_length s dvd total_rows vss"
  by (induction vss) auto

lemma div_less_iff_mult:
  fixes m n r :: int
  assumes "0 < n"
  shows "m div n < r \<longleftrightarrow> m < r * n"
proof
  assume "m div n < r"
  then have "(m div n + 1) * n \<le> r * n" using assms by (intro mult_right_mono) auto
  moreover have "(m div n + 1) * n = n * (m div n) + n" by (simp add: algebra_simps)
  moreover have "m = n * (m div n) + m mod n" by simp
  then have "m < n * (m div n) + n" using pos_mod_bound [OF assms, of m] by linarith
  ultimately show "m < r * n" by linarith
next
  assume m: "m < r * n"
  show "m div n < r"
  proof (rule ccontr)
    assume "\<not> m div n < r"
    then have "r * n \<le> (m div n) * n" using assms by (intro mult_right_mono) auto
    also have "\<dots> \<le> m"
    proof -
      have "m = (m div n) * n + m mod n" by simp
      then show ?thesis using pos_mod_sign [OF assms, of m] by linarith
    qed
    finally show False using m by simp
  qed
qed

lemma fold_multiply_rows:
  assumes "1 \<le> r" "r \<le> jl_rows_per_key l"
  shows "fold_res (multiply_rows l) (map side_length vss) r = Inr n \<longleftrightarrow>
    n = r * total_rows vss \<and> n \<le> jl_rows_per_key l"
  using assms
proof (induction vss arbitrary: r)
  case (Cons s vss)
  define t where "t = r * side_length s"
  have t: "1 \<le> t" unfolding t_def using Cons.prems(1) side_length_pos by (rule mult_ge_one)
  have step: "multiply_rows l (side_length s) r
      = (if jl_rows_per_key l < t then Inl ValidationError else Inr t)"
    using side_length_pos [of s] by (simp add: multiply_rows_def div_less_iff_mult t_def)
  have grow: "t \<le> t * total_rows vss"
    using mult_left_mono [of 1 "total_rows vss" t] total_rows_pos [of vss] t by simp
  show ?case
  proof (cases "jl_rows_per_key l < t")
    case True
    with step grow show ?thesis by (auto simp: t_def mult.assoc)
  next
    case False
    with step Cons.IH [OF t] show ?thesis by (simp add: t_def mult.assoc)
  qed
qed auto

definition wire_side :: "pystr list \<Rightarrow> pystr list" where
  "wire_side side = (if side = [] then [null_text] else side)"

lemma wire_side_length: "int (length (wire_side s)) = side_length s"
  by (cases s) (simp_all add: wire_side_def side_length_def)

lemma wire_side_sizes: "map byte_len (wire_side s) = side_sizes s"
  by (simp add: wire_side_def side_sizes_def null_text_def lit_simps byte_len_def utf8_len_Cons utf8_char_def)

lemma length_products: "int (length (product_lists (map wire_side vss))) = total_rows vss"
proof (induction vss)
  case (Cons s vss)
  have "length (product_lists (map wire_side (s # vss)))
      = length (wire_side s) * length (product_lists (map wire_side vss))"
    by (simp add: length_concat comp_def sum_list_triv)
  with Cons show ?case by (simp add: wire_side_length)
qed simp

lemma sum_list_concat_map:
  fixes g :: "'b \<Rightarrow> int"
  shows "(\<Sum>y\<leftarrow>concat (map f xs). g y) = (\<Sum>x\<leftarrow>xs. \<Sum>y\<leftarrow>f x. g y)"
  by (induction xs) simp_all

text \<open>The bytes of all rows: each text of a side occurs once per choice of the other sides.\<close>

lemma sum_products:
  "(\<Sum>vs\<leftarrow>product_lists (map wire_side vss). \<Sum>v\<leftarrow>vs. byte_len v)
     = (\<Sum>s\<leftarrow>vss. (total_rows vss div side_length s) * sum_list (side_sizes s))"
proof (induction vss)
  case (Cons s vss)
  define P where "P = product_lists (map wire_side vss)"
  have inner: "(\<Sum>vs\<leftarrow>map ((#) x) P. \<Sum>v\<leftarrow>vs. byte_len v)
      = total_rows vss * byte_len x + (\<Sum>vs\<leftarrow>P. \<Sum>v\<leftarrow>vs. byte_len v)" for x
    using length_products [of vss]
    by (simp add: comp_def sum_list_addf sum_list_triv P_def)
  have "(\<Sum>vs\<leftarrow>product_lists (map wire_side (s # vss)). \<Sum>v\<leftarrow>vs. byte_len v)
      = (\<Sum>x\<leftarrow>wire_side s. total_rows vss * byte_len x + (\<Sum>vs\<leftarrow>P. \<Sum>v\<leftarrow>vs. byte_len v))"
    unfolding list.map product_lists.simps P_def [symmetric]
    by (simp only: sum_list_concat_map inner)
  also have "\<dots> = total_rows vss * (\<Sum>x\<leftarrow>wire_side s. byte_len x)
      + side_length s * (\<Sum>vs\<leftarrow>P. \<Sum>v\<leftarrow>vs. byte_len v)"
    by (simp add: sum_list_addf sum_list_const_mult sum_list_triv wire_side_length)
  also have "(\<Sum>x\<leftarrow>wire_side s. byte_len x) = sum_list (side_sizes s)"
    by (simp add: wire_side_sizes)
  also have "side_length s * (\<Sum>vs\<leftarrow>P. \<Sum>v\<leftarrow>vs. byte_len v)
      = (\<Sum>t\<leftarrow>vss. (total_rows (s # vss) div side_length t) * sum_list (side_sizes t))"
  proof -
    have "side_length s * ((total_rows vss div side_length t) * sum_list (side_sizes t))
        = (total_rows (s # vss) div side_length t) * sum_list (side_sizes t)" if "t \<in> set vss" for t
      using side_length_dvd [OF that] by (simp add: div_mult_swap mult.assoc)
    then show ?thesis
      unfolding P_def Cons.IH sum_list_const_mult [symmetric]
      by (intro arg_cong [where f = sum_list] map_cong) auto
  qed
  also have "total_rows vss = total_rows (s # vss) div side_length s"
    using side_length_pos [of s] by simp
  finally show ?case by simp
qed simp

section \<open>Exactly which cells are admitted\<close>

definition value_fits :: "join_limits \<Rightarrow> pystr \<Rightarrow> bool" where
  "value_fits l v \<longleftrightarrow> utf8_ok v \<and> byte_len v \<le> jl_value_bytes l"

definition text_bytes :: "pystr \<Rightarrow> int" where
  "text_bytes v = byte_len (dumps (JStr v))"

definition side_bytes :: "pystr list \<Rightarrow> int" where
  "side_bytes side = 2 + max 0 (int (length side) - 1) + (\<Sum>v\<leftarrow>side. text_bytes v)"

definition cell_base :: "pystr \<Rightarrow> nat \<Rightarrow> int" where
  "cell_base k n = byte_len (dumps (JObj [jfield ''key'' (JStr k), jfield ''values'' (JArr [])])) + int n - 1"

definition cell_bytes :: "pystr \<Rightarrow> pystr list list \<Rightarrow> int" where
  "cell_bytes k vss = cell_base k (length vss) + (\<Sum>s\<leftarrow>vss. side_bytes s)"

definition cell_count :: "pystr list list \<Rightarrow> int" where
  "cell_count vss = (\<Sum>s\<leftarrow>vss. int (length s))"

definition cell_overhead :: "pystr list list \<Rightarrow> int" where
  "cell_overhead vss = row_overhead (map (\<lambda>side. side \<noteq> []) vss)"

definition cell_output :: "pystr list list \<Rightarrow> int" where
  "cell_output vss = cell_overhead vss * total_rows vss
     + (\<Sum>s\<leftarrow>vss. (total_rows vss div side_length s) * sum_list (side_sizes s))"

definition cell_max_row :: "pystr list list \<Rightarrow> int" where
  "cell_max_row vss = cell_overhead vss + (\<Sum>s\<leftarrow>vss. Max (set (side_sizes s)))"

definition sides_fit :: "join_limits \<Rightarrow> pystr list list \<Rightarrow> bool" where
  "sides_fit l vss \<longleftrightarrow>
     list_all (\<lambda>s. int (length s) \<le> jl_values_per_side l \<and> list_all (value_fits l) s) vss"

definition shape_fits :: "join_limits \<Rightarrow> pystr \<Rightarrow> pystr list list \<Rightarrow> bool" where
  "shape_fits l k vss \<longleftrightarrow>
     is_label k \<and> sides_fit l vss \<and> cell_count vss \<noteq> 0 \<and> cell_bytes k vss \<le> jl_key_bytes l"

definition cell_fits :: "join_limits \<Rightarrow> pystr \<Rightarrow> pystr list list \<Rightarrow> bool" where
  "cell_fits l k vss \<longleftrightarrow>
     shape_fits l k vss \<and> total_rows vss \<le> jl_rows_per_key l
     \<and> cell_max_row vss \<le> jl_row_bytes l \<and> cell_output vss \<le> jl_batch_bytes l"

definition the_cell :: "pystr \<Rightarrow> pystr list list \<Rightarrow> join_cell" where
  "the_cell k vss = \<lparr>ce_values = vss, ce_bytes = cell_bytes k vss, ce_count = cell_count vss,
     ce_rows = total_rows vss, ce_output = cell_output vss\<rparr>"

lemma text_bytes_nonneg: "0 \<le> text_bytes v"
  by (simp add: text_bytes_def)

lemma sum_text_nonneg: "0 \<le> (\<Sum>v\<leftarrow>side. text_bytes v)"
  by (rule sum_list_nonneg) (auto simp: text_bytes_nonneg)

lemma side_bytes_pos: "2 \<le> side_bytes s"
  using sum_text_nonneg [of s] by (simp add: side_bytes_def)

lemma sum_side_nonneg: "0 \<le> (\<Sum>s\<leftarrow>vss. side_bytes s)"
  using side_bytes_pos by (intro sum_list_nonneg) (smt (verit) in_set_conv_nth length_map nth_map)

lemma shape_value_Inr:
  "shape_value l v z = Inr y \<longleftrightarrow> value_fits l v \<and> z + text_bytes v \<le> jl_key_bytes l \<and> y = z + text_bytes v"
  using length_le_byte_len [of v]
  by (auto simp: shape_value_def value_fits_def text_bytes_def Let_def)

lemma fold_shape_value:
  "z \<le> jl_key_bytes l \<Longrightarrow> fold_res (shape_value l) side z = Inr y \<longleftrightarrow>
     list_all (value_fits l) side \<and> y = z + (\<Sum>v\<leftarrow>side. text_bytes v) \<and> y \<le> jl_key_bytes l"
proof (induction side arbitrary: z)
  case (Cons v side)
  show ?case
  proof (cases "z + text_bytes v \<le> jl_key_bytes l")
    case True
    from Cons.IH [OF this] True show ?thesis
      by (auto simp: shape_value_Inr add.assoc)
  next
    case False
    with sum_text_nonneg [of side] show ?thesis by (auto simp: shape_value_Inr)
  qed
qed auto

text \<open>The running size is only compared when a value is added, and once at the end.\<close>

lemma fold_shape_value_end:
  "fold_res (shape_value l) side z = Inr y \<Longrightarrow>
     list_all (value_fits l) side \<and> y = z + (\<Sum>v\<leftarrow>side. text_bytes v)"
proof (induction side arbitrary: z)
  case (Cons v side)
  then have "value_fits l v" "fold_res (shape_value l) side (z + text_bytes v) = Inr y"
    by (auto simp: shape_value_Inr)
  with Cons.IH [OF this(2)] show ?case by simp
qed simp

lemma shape_side_Inr:
  "shape_side l s (c, z) = Inr y \<longleftrightarrow> int (length s) \<le> jl_values_per_side l
     \<and> (\<exists>w. fold_res (shape_value l) s (z + 2 + max 0 (int (length s) - 1)) = Inr w
           \<and> y = (c + int (length s), w))"
  by (auto simp: shape_side_def)

lemma fold_shape_side_end:
  "fold_res (shape_side l) vss (c, z) = Inr (c', y) \<Longrightarrow>
     sides_fit l vss \<and> c' = c + cell_count vss \<and> y = z + (\<Sum>s\<leftarrow>vss. side_bytes s)"
proof (induction vss arbitrary: c z)
  case (Cons s vss)
  obtain w where w: "fold_res (shape_value l) s (z + 2 + max 0 (int (length s) - 1)) = Inr w"
    and len: "int (length s) \<le> jl_values_per_side l"
    and rest: "fold_res (shape_side l) vss (c + int (length s), w) = Inr (c', y)"
    using Cons.prems unfolding fold_res.simps rbind_eq_Inr shape_side_Inr by blast
  from fold_shape_value_end [OF w] Cons.IH [OF rest] len show ?case
    by (simp add: sides_fit_def cell_count_def side_bytes_def)
qed (simp add: sides_fit_def cell_count_def)

lemma fold_shape_side_intro:
  assumes "sides_fit l vss" "z + (\<Sum>s\<leftarrow>vss. side_bytes s) \<le> jl_key_bytes l"
  shows "fold_res (shape_side l) vss (c, z) = Inr (c + cell_count vss, z + (\<Sum>s\<leftarrow>vss. side_bytes s))"
  using assms
proof (induction vss arbitrary: c z)
  case (Cons s vss)
  have le: "z + side_bytes s \<le> jl_key_bytes l" using Cons.prems(2) sum_side_nonneg [of vss] by simp
  then have "z + 2 + max 0 (int (length s) - 1) \<le> jl_key_bytes l"
    using sum_text_nonneg [of s] by (simp add: side_bytes_def)
  then have "fold_res (shape_value l) s (z + 2 + max 0 (int (length s) - 1)) = Inr (z + side_bytes s)"
    using Cons.prems(1) le by (simp add: fold_shape_value sides_fit_def side_bytes_def)
  then have "shape_side l s (c, z) = Inr (c + int (length s), z + side_bytes s)"
    using Cons.prems(1) by (simp add: shape_side_def sides_fit_def)
  with Cons show ?case by (simp add: sides_fit_def cell_count_def add.assoc)
qed (simp add: cell_count_def)

lemma shape_iff:
  "shape k vss n l = Inr (c, z) \<longleftrightarrow>
     length vss = n \<and> shape_fits l k vss \<and> c = cell_count vss \<and> z = cell_bytes k vss" (is "?L \<longleftrightarrow> ?R")
proof
  assume L: ?L
  then obtain y where f: "fold_res (shape_side l) vss (0, cell_base k n) = Inr y"
    and len: "length vss = n" and k: "is_label k"
    and y: "(case y of (cnt, sz) \<Rightarrow> if cnt = 0 then Inl ValidationError
              else if jl_key_bytes l < sz then Inl ValidationError else Inr (cnt, sz)) = Inr (c, z)"
    by (auto simp: shape_def cell_base_def split: if_splits)
  obtain c1 z1 where y1: "y = (c1, z1)" by (cases y)
  from fold_shape_side_end [OF f [unfolded y1]] y y1 len k show ?R
    by (auto simp: shape_fits_def cell_bytes_def split: if_splits)
next
  assume R: ?R
  then have n: "length vss = n" and "sides_fit l vss"
    "cell_base k n + (\<Sum>s\<leftarrow>vss. side_bytes s) \<le> jl_key_bytes l"
    by (auto simp: shape_fits_def cell_bytes_def)
  from fold_shape_side_intro [OF this(2,3), of 0] n
  have "fold_res (shape_side l) vss (0, cell_base k n) = Inr (cell_count vss, cell_bytes k vss)"
    by (simp add: cell_bytes_def)
  with R show ?L by (simp add: shape_def cell_base_def shape_fits_def)
qed

lemma make_cell_iff:
  assumes "1 \<le> jl_rows_per_key l"
  shows "make_cell k vss l = Inr c \<longleftrightarrow> cell_fits l k vss \<and> c = the_cell k vss"
proof -
  have rows: "fold_res (multiply_rows l) (map side_length vss) 1 = Inr n
      \<longleftrightarrow> n = total_rows vss \<and> n \<le> jl_rows_per_key l" for n
    using fold_multiply_rows [of 1 l vss n] assms by simp
  show ?thesis
    by (auto simp: make_cell_def shape_iff rows cell_fits_def the_cell_def Let_def cell_max_row_def
        cell_output_def cell_overhead_def)
qed

section \<open>The rows of a cell\<close>

lemma the_cell_simps [simp]:
  "ce_values (the_cell k vss) = vss" "ce_bytes (the_cell k vss) = cell_bytes k vss"
  "ce_count (the_cell k vss) = cell_count vss" "ce_rows (the_cell k vss) = total_rows vss"
  "ce_output (the_cell k vss) = cell_output vss"
  by (simp_all add: the_cell_def)

lemma cell_rows_wire:
  "cell_rows k (the_cell k vss) sides =
     map (\<lambda>vs. \<lparr>jr_key = k, jr_sides = sides, jr_present = map (\<lambda>side. side \<noteq> []) vss, jr_values = vs\<rparr>)
       (product_lists (map wire_side vss))"
  by (simp add: cell_rows_def wire_side_def [abs_def])

lemma cell_rows_length: "int (length (cell_rows k (the_cell k vss) sides)) = total_rows vss"
  by (simp add: cell_rows_wire length_products)

lemma cell_rows_bytes: "(\<Sum>r\<leftarrow>cell_rows k (the_cell k vss) sides. row_size r) = cell_output vss"
proof -
  have "(\<Sum>r\<leftarrow>cell_rows k (the_cell k vss) sides. row_size r)
      = (\<Sum>vs\<leftarrow>product_lists (map wire_side vss). cell_overhead vss + (\<Sum>v\<leftarrow>vs. byte_len v))"
    by (simp add: cell_rows_wire comp_def row_size_def row_bytes_def cell_overhead_def)
  also have "\<dots> = cell_overhead vss * total_rows vss
      + (\<Sum>vs\<leftarrow>product_lists (map wire_side vss). \<Sum>v\<leftarrow>vs. byte_len v)"
    by (simp add: sum_list_addf sum_list_triv length_products mult.commute)
  finally show ?thesis by (simp add: sum_products cell_output_def)
qed

lemma cell_rows_max:
  assumes "r \<in> set (cell_rows k (the_cell k vss) sides)"
  shows "row_size r \<le> cell_max_row vss \<and> jr_key r = k \<and> jr_sides r = sides"
proof -
  obtain vs where vs: "vs \<in> set (product_lists (map wire_side vss))"
    and r: "r = \<lparr>jr_key = k, jr_sides = sides, jr_present = map (\<lambda>side. side \<noteq> []) vss, jr_values = vs\<rparr>"
    using assms by (auto simp: cell_rows_wire)
  have "list_all2 (\<lambda>v side. v \<in> set (wire_side side)) vs vss"
    using vs by (simp add: product_lists_set list_all2_map2)
  then have "(\<Sum>v\<leftarrow>vs. byte_len v) \<le> (\<Sum>s\<leftarrow>vss. Max (set (side_sizes s)))"
  proof (induction rule: list_all2_induct)
    case (Cons v vs s vss)
    have "byte_len v \<in> set (side_sizes s)" using Cons.hyps by (auto simp flip: wire_side_sizes)
    then have "byte_len v \<le> Max (set (side_sizes s))" by (intro Max_ge) auto
    with Cons.IH show ?case by simp
  qed simp
  with r show ?thesis by (simp add: row_size_def row_bytes_def cell_max_row_def cell_overhead_def)
qed

lemma dumps_obj_pos: "1 \<le> byte_len (dumps (JObj kvs))"
  using length_le_byte_len [of "dumps (JObj kvs)"] by simp

lemma row_size_nonneg: "0 \<le> row_size r"
proof -
  have "0 \<le> (\<Sum>v\<leftarrow>jr_values r. byte_len v)" by (rule sum_list_nonneg) auto
  then show ?thesis
    using dumps_obj_pos [of "[jfield ''present'' (JArr (map JBool (jr_present r))), jfield ''values'' (JArr [])]"]
    by (simp add: row_size_def row_bytes_def row_overhead_def del: dumps.simps)
qed

lemma sum_rows_nonneg: "0 \<le> (\<Sum>r\<leftarrow>rows. row_size r)"
  by (rule sum_list_nonneg) (auto simp: row_size_nonneg)

lemma fold_batch_bytes:
  "n + (\<Sum>r\<leftarrow>rows. row_size r) \<le> jl_batch_bytes hard_limits \<Longrightarrow>
   fold_res batch_bytes_step rows n = Inr (n + (\<Sum>r\<leftarrow>rows. row_size r))"
proof (induction rows arbitrary: n)
  case (Cons r rows)
  have "n + row_size r \<le> jl_batch_bytes hard_limits" using Cons.prems sum_rows_nonneg [of rows] by simp
  with Cons show ?case by (simp add: batch_bytes_step_def add.assoc)
qed simp

text \<open>The conditions under which the batch validator accepts.\<close>

lemma join_batch_check_intro:
  assumes "int (length (jb_rows b)) \<le> jl_rows_per_batch hard_limits"
    and "0 \<le> jb_pending b" "jb_pending b \<le> jl_keys hard_limits"
    and "0 \<le> jb_drained b" "jb_drained b \<le> jl_keys hard_limits"
    and "jb_phase b = JClosed \<Longrightarrow> jb_pending b = 0" "jb_phase b = JDraining \<Longrightarrow> jb_pending b \<noteq> 0"
    and "\<And>r. r \<in> set (jb_rows b) \<Longrightarrow> jr_sides r = sides"
    and "(\<Sum>r\<leftarrow>jb_rows b. row_size r) \<le> jl_batch_bytes hard_limits"
  shows "join_batch_check b = Inr b"
proof -
  have "\<not> list_ex (\<lambda>r. jr_sides r \<noteq> jr_sides (hd (jb_rows b))) (jb_rows b)"
    using assms(8) by (cases "jb_rows b") (auto simp: list_ex_iff)
  then show ?thesis
    using assms fold_batch_bytes [of 0 "jb_rows b"] by (auto simp: join_batch_check_def count_def)
qed

lemma join_limits_hard:
  assumes "join_limits_ok l"
  shows "jl_keys l \<le> jl_keys hard_limits" "jl_rows_per_batch l \<le> jl_rows_per_batch hard_limits"
    "jl_batch_bytes l \<le> jl_batch_bytes hard_limits" "jl_rows_per_key l \<le> jl_rows_per_batch l"
    "1 \<le> jl_rows_per_key l" "jl_rows_per_key l \<le> jl_rows_per_key hard_limits"
  using assms by (simp_all add: join_limits_ok_def)

section \<open>The invariant of the state\<close>

definition cell_inv :: "keyed_join \<Rightarrow> pystr \<Rightarrow> join_cell \<Rightarrow> bool" where
  "cell_inv j k c \<longleftrightarrow>
     (let vss = ce_values c
      in c = the_cell k vss \<and> cell_fits (kj_limits j) k vss \<and> length vss = length (kj_sides j)
         \<and> list_all (list_all canonical) vss
         \<and> (kj_insert j \<noteq> JProduct \<longrightarrow> list_all (\<lambda>s. length s \<le> 1) vss)
         \<and> (kj_emit j = JComplete \<longrightarrow> \<not> list_all (\<lambda>s. s \<noteq> []) vss))"

definition retained :: "(pystr, join_cell) dict \<Rightarrow> nat \<Rightarrow> int" where
  "retained cells i = (\<Sum>e\<leftarrow>cells. int (length (ce_values (snd e) ! i)))"

definition join_state_ok :: "keyed_join \<Rightarrow> join_state \<Rightarrow> bool" where
  "join_state_ok j s \<longleftrightarrow>
     (let l = kj_limits j; n = length (kj_sides j)
      in dict_ok (js_cells s) \<and> (\<forall>(k, c) \<in> set (js_cells s). cell_inv j k c)
         \<and> js_bytes s = (\<Sum>e\<leftarrow>js_cells s. ce_bytes (snd e))
         \<and> js_values s = (\<Sum>e\<leftarrow>js_cells s. ce_count (snd e))
         \<and> int (length (js_cells s)) \<le> jl_keys l \<and> js_bytes s \<le> jl_state_bytes l \<and> js_values s \<le> jl_values l
         \<and> length (js_closed s) = n \<and> length (js_counts s) = n
         \<and> list_all (\<lambda>c. 0 \<le> c) (js_counts s) \<and> sum_list (js_counts s) \<le> MAX_COUNT
         \<and> 0 \<le> js_emitted s \<and> js_emitted s \<le> MAX_COUNT
         \<and> (js_phase s = JOpen \<longleftrightarrow> \<not> list_all id (js_closed s))
         \<and> (js_phase s = JClosed \<longrightarrow> js_cells s = [])
         \<and> (js_phase s = JDraining \<longrightarrow> js_cells s \<noteq> [] \<and> kj_emit j = JFinal))"

definition join_rt_inv :: "join_runtime \<Rightarrow> bool" where
  "join_rt_inv rt \<longleftrightarrow> keyed_join_ok (jt_join rt) \<and> join_state_ok (jt_join rt) (jt_state rt) \<and> \<not> jt_busy rt"

lemma make_join_runtime_inv: "make_join_runtime j = Inr rt \<Longrightarrow> join_rt_inv rt \<and> jt_join rt = j"
  by (auto simp: make_join_runtime_def join_rt_inv_def join_state_ok_def MAX_COUNT_def keyed_join_ok_def
      join_limits_ok_def sides_ok_def list_all_iff sum_list_replicate split: if_splits)

section \<open>Arrivals\<close>

lemma side_index_Inr:
  assumes "side_index sides side = Inr i"
  shows "i < length sides \<and> sides ! i = side"
proof -
  have m: "side \<in> set sides" and i: "i = length (takeWhile (\<lambda>s. s \<noteq> side) sides)"
    using assms by (auto simp: side_index_def split: if_splits)
  from m have "i < length sides"
    unfolding i by (induction sides) auto
  then show ?thesis
    using nth_length_takeWhile [of "\<lambda>s. s \<noteq> side" sides] by (simp add: i)
qed

lemma propose_cell_Inr:
  assumes "propose_cell j s side r = Inr (counts, k, c)"
  shows "\<exists>i encoded new_side. side_index (kj_sides j) side = Inr i
    \<and> js_phase s = JOpen \<and> \<not> js_closed s ! i \<and> rec_key r = Some k \<and> is_label k
    \<and> canonical encoded \<and> counts = (js_counts s)[i := js_counts s ! i + 1]
    \<and> 0 \<le> sum_list counts \<and> sum_list counts \<le> MAX_COUNT
    \<and> insert_value (kj_insert j) (kj_limits j) encoded (prior_sides j s k ! i) = Inr new_side
    \<and> make_cell k ((prior_sides j s k)[i := new_side]) (kj_limits j) = Inr c"
proof -
  obtain i where i: "side_index (kj_sides j) side = Inr i" and "js_phase s = JOpen" "\<not> js_closed s ! i"
    and r: "(case rec_key r of
       None \<Rightarrow> Inl ValidationError
     | Some k0 \<Rightarrow>
         rbind (key (PStr k0)) (\<lambda>k.
         rbind (rec_value r) (\<lambda>v.
         rbind (snapshot v (jl_value_bytes (kj_limits j))) (\<lambda>encoded.
         let counts = (js_counts s)[i := js_counts s ! i + 1];
             sides = prior_sides j s k
         in rbind (count (sum_list counts) 0 MAX_COUNT) (\<lambda>_.
            rbind (insert_value (kj_insert j) (kj_limits j) encoded (sides ! i)) (\<lambda>new_side.
            rbind (make_cell k (sides[i := new_side]) (kj_limits j)) (\<lambda>proposed.
              Inr (counts, k, proposed)))))))) = Inr (counts, k, c)"
    using assms unfolding propose_cell_def rbind_eq_Inr if_error_eq_Inr by blast
  obtain k0 where k0: "rec_key r = Some k0" using r by (cases "rec_key r") auto
  from r k0 obtain encoded v where "snapshot v (jl_value_bytes (kj_limits j)) = Inr encoded"
    and "is_label k" "k0 = k" and rest: "rbind (count (sum_list ((js_counts s)[i := js_counts s ! i + 1])) 0 MAX_COUNT) (\<lambda>_.
            rbind (insert_value (kj_insert j) (kj_limits j) encoded (prior_sides j s k ! i)) (\<lambda>new_side.
            rbind (make_cell k ((prior_sides j s k)[i := new_side]) (kj_limits j)) (\<lambda>proposed.
              Inr ((js_counts s)[i := js_counts s ! i + 1], k, proposed)))) = Inr (counts, k, c)"
    by (auto simp: Let_def)
  moreover have "canonical encoded" using calculation(1) snapshot_canonical by blast
  ultimately show ?thesis using i k0 \<open>js_phase s = JOpen\<close> \<open>\<not> js_closed s ! i\<close>
    by (intro exI [of _ i] exI [of _ encoded]) auto
qed

lemma insert_value_Inr:
  assumes "insert_value mode l encoded side = Inr new_side"
  shows "int (length new_side) = int (length side) + (if mode = JProduct \<or> side = [] then 1 else
      if mode = JLast then 1 - int (length side) else 0)"
    and "new_side \<noteq> []" and "set new_side \<subseteq> insert encoded (set side)"
    and "mode \<noteq> JProduct \<Longrightarrow> length side \<le> 1 \<Longrightarrow> length new_side \<le> 1"
  using assms by (auto simp: insert_value_def split: if_splits)

lemma prior_sides_ok:
  assumes "join_state_ok j s"
  shows "length (prior_sides j s k) = length (kj_sides j)
    \<and> list_all (list_all canonical) (prior_sides j s k)
    \<and> (kj_insert j \<noteq> JProduct \<longrightarrow> list_all (\<lambda>s. length s \<le> 1) (prior_sides j s k))"
proof (cases "dget (js_cells s) k")
  case None
  then show ?thesis by (simp add: prior_sides_def list_all_iff)
next
  case (Some c)
  with map_of_SomeD [OF this] assms have "cell_inv j k c"
    by (auto simp: join_state_ok_def Let_def)
  with Some show ?thesis by (simp add: prior_sides_def cell_inv_def Let_def)
qed

definition completes :: "keyed_join \<Rightarrow> join_cell \<Rightarrow> bool" where
  "completes j c \<longleftrightarrow> kj_emit j = JComplete \<and> list_all (\<lambda>s. s \<noteq> []) (ce_values c)"

definition cells_after :: "keyed_join \<Rightarrow> pystr \<Rightarrow> join_cell \<Rightarrow> (pystr, join_cell) dict \<Rightarrow> (pystr, join_cell) dict" where
  "cells_after j k c cells = (if completes j c then ddel k cells else dput k c cells)"

lemma sum_cells_after:
  fixes f :: "join_cell \<Rightarrow> int"
  assumes "dict_ok cells"
  shows "(\<Sum>e\<leftarrow>cells_after j k c cells. f (snd e))
    = (\<Sum>e\<leftarrow>cells. f (snd e)) - cell_weight f (dget cells k) + (if completes j c then 0 else f c)"
  using sum_list_dput [OF assms, of "\<lambda>e. f (snd e)" k c] sum_list_ddel [OF assms, of "\<lambda>e. f (snd e)" k]
  by (auto simp: cells_after_def cell_weight_def split: option.splits)

lemma length_cells_after:
  assumes "dict_ok cells"
  shows "int (length (cells_after j k c cells)) =
    int (length cells) + (if dget cells k = None then 1 else 0) - (if completes j c then 1 else 0)"
  using length_dput [of k c cells] length_ddel [OF assms, of k]
  by (auto simp: cells_after_def split: option.splits)

text \<open>How the retained values of a side change, in terms of the sides the key had before.\<close>

definition old_length :: "pystr list list option \<Rightarrow> nat \<Rightarrow> int" where
  "old_length v i = (case v of None \<Rightarrow> 0 | Some vss \<Rightarrow> int (length (vss ! i)))"

lemma retained_after:
  assumes "dict_ok cells"
  shows "retained (cells_after j k c cells) i
    = retained cells i - old_length (map_option ce_values (dget cells k)) i
        + (if completes j c then 0 else int (length (ce_values c ! i)))"
  using sum_cells_after [OF assms, of "\<lambda>c. int (length (ce_values c ! i))" j k c]
  by (simp add: retained_def cell_weight_def old_length_def split: option.splits)

lemma old_length_prior:
  "i < length (kj_sides j) \<Longrightarrow>
   old_length (map_option ce_values (dget (js_cells s) k)) i = int (length (prior_sides j s k ! i))"
  by (simp add: old_length_def prior_sides_def split: option.split)

definition emits :: "keyed_join \<Rightarrow> join_cell \<Rightarrow> bool" where
  "emits j c \<longleftrightarrow> completes j c \<or> kj_emit j = JRunning"

definition state_after :: "keyed_join \<Rightarrow> join_state \<Rightarrow> int list \<Rightarrow> pystr \<Rightarrow> join_cell \<Rightarrow> join_state" where
  "state_after j s counts k c =
     \<lparr>js_cells = cells_after j k c (js_cells s), js_closed = js_closed s, js_counts = counts,
      js_emitted = js_emitted s + (if emits j c then ce_rows c else 0),
      js_bytes = js_bytes s - cell_weight ce_bytes (dget (js_cells s) k) + (if completes j c then 0 else ce_bytes c),
      js_values = js_values s - cell_weight ce_count (dget (js_cells s) k) + (if completes j c then 0 else ce_count c),
      js_phase = JOpen\<rparr>"

lemma stage_process_Inr:
  assumes p: "stage_process j admit s side r h = Inr (s', b, h')" and d: "dict_ok (js_cells s)"
  shows "\<exists>counts k c. propose_cell j s side r = Inr (counts, k, c) \<and> s' = state_after j s counts k c
    \<and> 0 \<le> js_emitted s' \<and> js_emitted s' \<le> MAX_COUNT
    \<and> int (length (js_cells s')) \<le> jl_keys (kj_limits j)
    \<and> js_bytes s' \<le> jl_state_bytes (kj_limits j) \<and> js_values s' \<le> jl_values (kj_limits j)
    \<and> b = \<lparr>jb_rows = (if emits j c then cell_rows k c (kj_sides j) else []), jb_phase = JOpen,
           jb_pending = int (length (js_cells s')), jb_drained = 0\<rparr>
    \<and> admit s' (if emits j c then ce_rows c else 0) (if emits j c then ce_output c else 0) h = Inr h'"
proof -
  obtain y where y: "propose_cell j s side r = Inr y"
    using p unfolding stage_process_def rbind_eq_Inr by blast
  obtain counts k c where y1: "y = (counts, k, c)" by (metis prod_cases3)
  note len = length_cells_after [OF d, of j k c]
  have eqs: "(kj_emit j = JComplete \<and> list_all (\<lambda>s. s \<noteq> []) (ce_values c)) = completes j c"
    "(if completes j c then ddel k (js_cells s) else dput k c (js_cells s)) = cells_after j k c (js_cells s)"
    "(completes j c \<or> kj_emit j = JRunning) = emits j c"
    by (simp_all add: completes_def cells_after_def emits_def)
  have b: "b' = b" if "join_batch_check b = Inr b'" for b b'
    using that by (auto simp: join_batch_check_def split: if_splits)
  from p show ?thesis
    unfolding stage_process_def y y1 rbind.simps prod.case Let_def eqs
    by (intro exI [of _ counts] exI [of _ k] exI [of _ c])
      (auto simp: state_after_def y y1 len dest!: b split: if_splits)
qed

lemma sum_list_update_inc: "i < length xs \<Longrightarrow> sum_list (xs[i := xs ! i + (1::int)]) = sum_list xs + 1"
proof (induction xs arbitrary: i)
  case (Cons x xs)
  then show ?case by (cases i) simp_all
qed simp

lemma cell_inv_after:
  assumes inv: "join_state_ok j s" and j: "keyed_join_ok j"
    and p: "propose_cell j s side r = Inr (counts, k, c)"
  shows "c = the_cell k (ce_values c) \<and> cell_fits (kj_limits j) k (ce_values c)
    \<and> (\<not> completes j c \<longrightarrow> cell_inv j k c)"
proof -
  obtain i encoded new_side where i: "side_index (kj_sides j) side = Inr i"
    and enc: "canonical encoded"
    and ins: "insert_value (kj_insert j) (kj_limits j) encoded (prior_sides j s k ! i) = Inr new_side"
    and mk: "make_cell k ((prior_sides j s k)[i := new_side]) (kj_limits j) = Inr c"
    using propose_cell_Inr [OF p] by blast
  define vss where "vss = (prior_sides j s k)[i := new_side]"
  have old: "length (prior_sides j s k) = length (kj_sides j)"
    "list_all (list_all canonical) (prior_sides j s k)"
    "kj_insert j \<noteq> JProduct \<longrightarrow> list_all (\<lambda>s. length s \<le> 1) (prior_sides j s k)"
    using prior_sides_ok [OF inv] by auto
  have il: "i < length (prior_sides j s k)" using side_index_Inr [OF i] old(1) by simp
  have R: "1 \<le> jl_rows_per_key (kj_limits j)" using j join_limits_hard(5) by (simp add: keyed_join_ok_def)
  from mk have c: "cell_fits (kj_limits j) k vss" "c = the_cell k vss"
    by (simp_all add: make_cell_iff [OF R] vss_def)
  have upd: "x = new_side \<or> x \<in> set (prior_sides j s k)" if "x \<in> set vss" for x
    using that set_update_subset_insert [of "prior_sides j s k" i new_side] by (auto simp: vss_def)
  have "list_all canonical new_side"
    using insert_value_Inr(3) [OF ins] enc old(2) nth_mem [OF il] by (auto simp: list_all_iff)
  then have "list_all (list_all canonical) vss" using old(2) upd by (auto simp: list_all_iff)
  moreover have "length new_side \<le> 1" if "kj_insert j \<noteq> JProduct"
    using insert_value_Inr(4) [OF ins that] old(3) that nth_mem [OF il] by (simp add: list_all_iff)
  then have "kj_insert j \<noteq> JProduct \<longrightarrow> list_all (\<lambda>s. length s \<le> 1) vss"
    using old(3) upd by (auto simp: list_all_iff)
  ultimately show ?thesis
    using c old(1) by (auto simp: cell_inv_def completes_def Let_def vss_def)
qed

lemma stage_process_ok:
  assumes j: "keyed_join_ok j" and inv: "join_state_ok j s" and p: "stage_process j admit s side r h = Inr (s', b, h')"
  shows "join_state_ok j s'"
proof -
  have d: "dict_ok (js_cells s)" using inv by (simp add: join_state_ok_def Let_def)
  obtain counts k c where pc: "propose_cell j s side r = Inr (counts, k, c)" and s': "s' = state_after j s counts k c"
    and lims: "0 \<le> js_emitted s'" "js_emitted s' \<le> MAX_COUNT" "int (length (js_cells s')) \<le> jl_keys (kj_limits j)"
      "js_bytes s' \<le> jl_state_bytes (kj_limits j)" "js_values s' \<le> jl_values (kj_limits j)"
    using stage_process_Inr [OF p d] by blast
  obtain i where i: "side_index (kj_sides j) side = Inr i" and ph: "js_phase s = JOpen"
    and counts: "counts = (js_counts s)[i := js_counts s ! i + 1]" "sum_list counts \<le> MAX_COUNT"
    using propose_cell_Inr [OF pc] by blast
  note cell = cell_inv_after [OF inv j pc]
  have n: "length (js_counts s) = length (kj_sides j)" and pos: "list_all (\<lambda>c. 0 \<le> c) (js_counts s)"
    using inv by (simp_all add: join_state_ok_def Let_def)
  have "i < length (js_counts s)" using side_index_Inr [OF i] n by simp
  then have "list_all (\<lambda>c. 0 \<le> c) counts"
    using pos set_update_subset_insert [of "js_counts s" i "js_counts s ! i + 1"] nth_mem [of i "js_counts s"]
    by (force simp: counts list_all_iff)
  moreover have "\<forall>(k', c') \<in> set (cells_after j k c (js_cells s)). cell_inv j k' c'"
    using inv cell d by (auto simp: cells_after_def join_state_ok_def Let_def ddel_def set_dput)
  moreover have "dict_ok (cells_after j k c (js_cells s))"
    using d by (simp add: cells_after_def)
  ultimately show ?thesis
    using inv lims counts n sum_cells_after [OF d, of ce_bytes j k c] sum_cells_after [OF d, of ce_count j k c] ph
    unfolding join_state_ok_def Let_def s' by (simp add: state_after_def)
qed

section \<open>End of input and draining\<close>

lemma join_batch_check_same: "join_batch_check b = Inr b' \<Longrightarrow> b' = b"
  by (auto simp: join_batch_check_def split: if_splits)

lemma stage_close_ok:
  assumes inv: "join_state_ok j s" and p: "stage_close j s side = Inr (s', b)" and j: "keyed_join_ok j"
  shows "join_state_ok j s'"
proof -
  obtain i where i: "side_index (kj_sides j) side = Inr i" using p by (auto simp: stage_close_def)
  define closed where "closed = (js_closed s)[i := True]"
  show ?thesis
  proof (cases "js_closed s ! i")
    case True
    with p i inv show ?thesis by (auto simp: stage_close_def)
  next
    case False
    have n: "length (js_closed s) = length (kj_sides j)" using inv by (simp add: join_state_ok_def Let_def)
    then have il: "i < length (js_closed s)" using side_index_Inr [OF i] by simp
    then have "js_closed s ! i \<in> set (js_closed s)" by simp
    with False have op: "\<not> list_all id (js_closed s)" by (auto simp: list_all_iff)
    with inv have ph: "js_phase s = JOpen" by (simp add: join_state_ok_def Let_def)
    have l: "join_limits_ok (kj_limits j)" using j by (simp add: keyed_join_ok_def)
    have s': "s' = \<lparr>js_cells = (if list_all id closed \<and> \<not> (kj_emit j = JFinal \<and> js_cells s \<noteq> []) then [] else js_cells s),
        js_closed = closed, js_counts = js_counts s, js_emitted = js_emitted s,
        js_bytes = (if list_all id closed \<and> \<not> (kj_emit j = JFinal \<and> js_cells s \<noteq> []) then 0 else js_bytes s),
        js_values = (if list_all id closed \<and> \<not> (kj_emit j = JFinal \<and> js_cells s \<noteq> []) then 0 else js_values s),
        js_phase = (if \<not> list_all id closed then JOpen else if kj_emit j = JFinal \<and> js_cells s \<noteq> [] then JDraining
                    else JClosed)\<rparr>"
      using p i False by (auto simp: stage_close_def closed_def Let_def split: if_splits)
    show ?thesis
      using inv l n unfolding s' join_state_ok_def Let_def join_limits_ok_def
      by (cases "list_all id closed"; cases "kj_emit j = JFinal \<and> js_cells s \<noteq> []") (auto simp: closed_def)
  qed
qed

lemma drain_select_prefix: "\<exists>rest. cells = drain_select l m cells n rows bytes @ rest"
  by (induction l m cells n rows bytes rule: drain_select.induct) auto

lemma drain_select_bounds:
  assumes "rows \<le> jl_rows_per_batch l" "bytes \<le> jl_batch_bytes l" "n \<le> m"
  shows "rows + (\<Sum>e\<leftarrow>drain_select l m cells n rows bytes. ce_rows (snd e)) \<le> jl_rows_per_batch l
    \<and> bytes + (\<Sum>e\<leftarrow>drain_select l m cells n rows bytes. ce_output (snd e)) \<le> jl_batch_bytes l
    \<and> n + int (length (drain_select l m cells n rows bytes)) \<le> m"
  using assms
proof (induction l m cells n rows bytes rule: drain_select.induct)
  case (2 l m k c cells n rows bytes)
  then show ?case by (cases "n = m \<or> jl_rows_per_batch l < rows + ce_rows c \<or> jl_batch_bytes l < bytes + ce_output c") auto
qed auto

text \<open>Removing the selected keys leaves the rest of the cells.\<close>

definition drained :: "keyed_join \<Rightarrow> join_state \<Rightarrow> int \<Rightarrow> (pystr \<times> join_cell) list" where
  "drained j s m = drain_select (kj_limits j) m (sort_key fst (js_cells s)) 0 0 0"

definition state_drained :: "join_state \<Rightarrow> (pystr \<times> join_cell) list \<Rightarrow> join_state" where
  "state_drained s sel =
     (let cells = fold ddel (map fst sel) (js_cells s)
      in \<lparr>js_cells = cells, js_closed = js_closed s, js_counts = js_counts s,
          js_emitted = js_emitted s + (\<Sum>e\<leftarrow>sel. ce_rows (snd e)),
          js_bytes = js_bytes s - (\<Sum>e\<leftarrow>sel. ce_bytes (snd e)),
          js_values = js_values s - (\<Sum>e\<leftarrow>sel. ce_count (snd e)),
          js_phase = (if cells \<noteq> [] then JDraining else JClosed)\<rparr>)"

lemma stage_drain_Inr:
  assumes "stage_drain j admit s m h = Inr (s', b, h')"
  shows "1 \<le> m \<and> m \<le> jl_keys hard_limits \<and> js_phase s \<noteq> JOpen \<and>
    (if js_phase s = JClosed
     then s' = s \<and> b = \<lparr>jb_rows = [], jb_phase = JClosed, jb_pending = 0, jb_drained = 0\<rparr> \<and> h' = h
     else s' = state_drained s (drained j s m) \<and> 0 \<le> js_emitted s' \<and> js_emitted s' \<le> MAX_COUNT
       \<and> b = \<lparr>jb_rows = concat (map (\<lambda>e. cell_rows (fst e) (snd e) (kj_sides j)) (drained j s m)),
              jb_phase = js_phase s', jb_pending = int (length (js_cells s')),
              jb_drained = int (length (drained j s m))\<rparr>
       \<and> admit s' (\<Sum>e\<leftarrow>drained j s m. ce_rows (snd e)) (\<Sum>e\<leftarrow>drained j s m. ce_output (snd e)) h = Inr h')"
  using assms
  by (cases "js_phase s = JClosed")
    (auto simp: stage_drain_def Let_def state_drained_def drained_def
      dest!: join_batch_check_same split: if_splits)

lemma drained_split: "\<exists>rest. sort_key fst (js_cells s) = drained j s m @ rest"
  using drain_select_prefix by (simp add: drained_def)

lemma stage_drain_ok:
  assumes j: "keyed_join_ok j" and inv: "join_state_ok j s" and p: "stage_drain j admit s m h = Inr (s', b, h')"
  shows "join_state_ok j s'"
proof (cases "js_phase s = JClosed")
  case True
  with stage_drain_Inr [OF p] inv show ?thesis by simp
next
  case False
  define sel where "sel = drained j s m"
  obtain rest where rest: "sort_key fst (js_cells s) = sel @ rest" using drained_split sel_def by blast
  have d: "dict_ok (js_cells s)" using inv by (simp add: join_state_ok_def Let_def)
  have ph: "js_phase s = JDraining" and s': "s' = state_drained s sel"
    and em: "0 \<le> js_emitted s'" "js_emitted s' \<le> MAX_COUNT"
    using stage_drain_Inr [OF p] False by (cases "js_phase s"; auto simp: sel_def)+
  define cells where "cells = fold ddel (map fst sel) (js_cells s)"
  have cells: "cells = filter (\<lambda>e. fst e \<notin> set (map fst sel)) (js_cells s)"
    by (simp add: cells_def fold_ddel)
  have inv_cells: "\<forall>(k, c) \<in> set cells. cell_inv j k c" "dict_ok cells"
    using inv d by (auto simp: cells join_state_ok_def Let_def)
  have sums: "(\<Sum>e\<leftarrow>cells. ce_bytes (snd e)) = js_bytes s - (\<Sum>e\<leftarrow>sel. ce_bytes (snd e))"
    "(\<Sum>e\<leftarrow>cells. ce_count (snd e)) = js_values s - (\<Sum>e\<leftarrow>sel. ce_count (snd e))"
    "int (length cells) = int (length (js_cells s)) - int (length sel)"
    using sum_fold_ddel [OF d rest] inv by (simp_all add: cells_def join_state_ok_def Let_def)
  have sel_in: "e \<in> set sel \<Longrightarrow> e \<in> set (js_cells s)" for e
    using rest by (metis UnI1 set_append set_sort)
  have "0 \<le> ce_bytes (snd e) \<and> 0 \<le> ce_count (snd e)" if "e \<in> set sel" for e
  proof -
    have "cell_inv j (fst e) (snd e)" using sel_in [OF that] inv by (auto simp: join_state_ok_def Let_def)
    then have c: "snd e = the_cell (fst e) (ce_values (snd e))" by (simp add: cell_inv_def Let_def)
    have "1 \<le> cell_base (fst e) (length (ce_values (snd e))) + 1"
      using dumps_obj_pos [of "[jfield ''key'' (JStr (fst e)), jfield ''values'' (JArr [])]"]
      by (simp add: cell_base_def del: dumps.simps)
    then have "0 \<le> cell_bytes (fst e) (ce_values (snd e))"
      using sum_side_nonneg [of "ce_values (snd e)"] by (simp add: cell_bytes_def)
    moreover have "0 \<le> cell_count (ce_values (snd e))"
      unfolding cell_count_def by (rule sum_list_nonneg) auto
    ultimately show ?thesis by (subst (1 2) c) simp
  qed
  then have "0 \<le> (\<Sum>e\<leftarrow>sel. ce_bytes (snd e))" "0 \<le> (\<Sum>e\<leftarrow>sel. ce_count (snd e))"
    by (auto intro!: sum_list_nonneg)
  then show ?thesis
    using inv inv_cells sums em ph unfolding s' join_state_ok_def Let_def
    by (auto simp: state_drained_def Let_def cells_def [symmetric])
qed

section \<open>The runtime\<close>

definition join_op_ok :: "join_op \<Rightarrow> bool" where
  "join_op_ok op \<longleftrightarrow> (case op of JProcess side r \<Rightarrow> record_ok r | _ \<Rightarrow> True)"

lemma join_stage_ok:
  "keyed_join_ok j \<Longrightarrow> join_state_ok j s \<Longrightarrow> join_stage j op s = Inr (s', b) \<Longrightarrow> join_state_ok j s'"
  by (cases op) (auto simp: join_stage_def intro: stage_process_ok stage_close_ok stage_drain_ok)

lemma join_apply_Inl: "join_apply op rt = (Inl e, rt') \<Longrightarrow> rt' = rt"
  by (auto simp: join_apply_def Let_def split: if_splits sum.splits prod.splits)

lemma join_apply_Inr:
  assumes "join_apply op rt = (Inr b, rt')"
  shows "\<not> jt_busy rt \<and> (\<exists>s'. join_stage (jt_join rt) op (jt_state rt) = Inr (s', b) \<and> rt' = rt\<lparr>jt_state := s'\<rparr>)"
  using assms by (cases rt) (auto simp: join_apply_def Let_def split: if_splits sum.splits prod.splits)

lemma join_apply_ok:
  "join_rt_inv rt \<Longrightarrow> join_apply op rt = (Inr b, rt') \<Longrightarrow> join_rt_inv rt' \<and> jt_join rt' = jt_join rt"
  using join_apply_Inr [of op rt b rt'] join_stage_ok by (auto simp: join_rt_inv_def)

interpretation join: atomic_runtime join_apply join_rt_inv join_op_ok
proof unfold_locales
  show "s' = s" if "join_apply p s = (Inl e, s')" for s p e s'
    using that by (rule join_apply_Inl)
  show "join_rt_inv s'" if "join_rt_inv s" "join_apply p s = (Inr r, s')" for s p r s'
    using join_apply_ok [OF that] by simp
qed

section \<open>Batches\<close>

lemma cell_inv_limits:
  assumes "cell_inv j k c"
  shows "1 \<le> ce_rows c" "ce_rows c \<le> jl_rows_per_key (kj_limits j)" "ce_output c \<le> jl_batch_bytes (kj_limits j)"
    and "c = the_cell k (ce_values c)"
proof -
  have c: "c = the_cell k (ce_values c)" and f: "cell_fits (kj_limits j) k (ce_values c)"
    using assms by (simp_all add: cell_inv_def Let_def)
  show "c = the_cell k (ce_values c)" by (rule c)
  show "1 \<le> ce_rows c" by (subst c) (simp add: total_rows_pos)
  show "ce_rows c \<le> jl_rows_per_key (kj_limits j)" using f by (subst c) (simp add: cell_fits_def)
  show "ce_output c \<le> jl_batch_bytes (kj_limits j)" using f by (subst c) (simp add: cell_fits_def)
qed

text \<open>A draining runtime selects at least one key.\<close>

lemma drained_nonempty:
  assumes "keyed_join_ok j" "join_state_ok j s" "js_phase s = JDraining" "1 \<le> m"
  shows "drained j s m \<noteq> []"
proof -
  have "js_cells s \<noteq> []" using assms by (simp add: join_state_ok_def Let_def)
  then have "sort_key fst (js_cells s) \<noteq> []" by (metis length_0_conv length_sort)
  then obtain k c cells where s: "sort_key fst (js_cells s) = (k, c) # cells"
    by (cases "sort_key fst (js_cells s)") auto
  then have "(k, c) \<in> set (js_cells s)" by (metis list.set_intros(1) set_sort)
  then have "cell_inv j k c" using assms(2) by (auto simp: join_state_ok_def Let_def)
  from cell_inv_limits [OF this] join_limits_hard(4) [of "kj_limits j"] assms(1,4) show ?thesis
    by (auto simp: drained_def s keyed_join_ok_def)
qed

lemma cells_inv_in: "join_state_ok j s \<Longrightarrow> e \<in> set (sort_key fst (js_cells s)) \<Longrightarrow> cell_inv j (fst e) (snd e)"
  by (auto simp: join_state_ok_def Let_def)

lemma cell_rows_inv:
  assumes "cell_inv j k c"
  shows "int (length (cell_rows k c sides)) = ce_rows c" "(\<Sum>r\<leftarrow>cell_rows k c sides. row_size r) = ce_output c"
    and "r \<in> set (cell_rows k c sides) \<Longrightarrow> jr_sides r = sides"
  using cell_rows_length [of k "ce_values c" sides] cell_rows_bytes [of k "ce_values c" sides]
    cell_rows_max [of r k "ce_values c" sides] cell_inv_limits(4) [OF assms]
  by (metis the_cell_simps(4), metis the_cell_simps(5), metis)

lemma sel_rows:
  fixes sides :: "pystr list"
  assumes "\<And>e. e \<in> set sel \<Longrightarrow> cell_inv j (fst e) (snd e)"
  defines "rows \<equiv> concat (map (\<lambda>e. cell_rows (fst e) (snd e) sides) sel)"
  shows "int (length rows) = (\<Sum>e\<leftarrow>sel. ce_rows (snd e))"
    and "(\<Sum>r\<leftarrow>rows. row_size r) = (\<Sum>e\<leftarrow>sel. ce_output (snd e))"
    and "r \<in> set rows \<Longrightarrow> jr_sides r = sides"
proof -
  have "int (length (concat (map (\<lambda>e. cell_rows (fst e) (snd e) sides) sel))) = (\<Sum>e\<leftarrow>sel. ce_rows (snd e))
      \<and> (\<Sum>r\<leftarrow>concat (map (\<lambda>e. cell_rows (fst e) (snd e) sides) sel). row_size r)
          = (\<Sum>e\<leftarrow>sel. ce_output (snd e))"
    using assms(1)
  proof (induction sel)
    case (Cons a sel)
    have "cell_inv j (fst a) (snd a)" using Cons.prems by simp
    with Cons show ?case using cell_rows_inv(1,2) [of j "fst a" "snd a" sides] by simp
  qed simp
  then show "int (length rows) = (\<Sum>e\<leftarrow>sel. ce_rows (snd e))"
    and "(\<Sum>r\<leftarrow>rows. row_size r) = (\<Sum>e\<leftarrow>sel. ce_output (snd e))" by (simp_all add: rows_def)
  show "jr_sides r = sides" if "r \<in> set rows"
    using that assms(1) cell_rows_inv(3) by (fastforce simp: rows_def)
qed

text \<open>A drain that does not overflow the output counter succeeds.\<close>

lemma stage_drain_succeeds:
  assumes j: "keyed_join_ok j" and inv: "join_state_ok j s" and ph: "js_phase s = JDraining"
    and m: "1 \<le> m" "m \<le> jl_keys hard_limits"
    and em: "js_emitted s + (\<Sum>e\<leftarrow>drained j s m. ce_rows (snd e)) \<le> MAX_COUNT"
  shows "\<exists>b. stage_drain j no_admit s m () = Inr (state_drained s (drained j s m), b, ())
    \<and> jb_rows b = concat (map (\<lambda>e. cell_rows (fst e) (snd e) (kj_sides j)) (drained j s m))"
proof -
  define sel where "sel = drained j s m"
  obtain rest where rest: "sort_key fst (js_cells s) = sel @ rest" using drained_split sel_def by blast
  have l: "join_limits_ok (kj_limits j)" using j by (simp add: keyed_join_ok_def)
  have ci: "cell_inv j (fst e) (snd e)" if "e \<in> set sel" for e
    using cells_inv_in [OF inv] rest that by auto
  have d: "dict_ok (js_cells s)" and len: "int (length (js_cells s)) \<le> jl_keys (kj_limits j)"
    and e0: "0 \<le> js_emitted s"
    using inv by (simp_all add: join_state_ok_def Let_def)
  have bounds: "(\<Sum>e\<leftarrow>sel. ce_rows (snd e)) \<le> jl_rows_per_batch (kj_limits j)"
    "(\<Sum>e\<leftarrow>sel. ce_output (snd e)) \<le> jl_batch_bytes (kj_limits j)" "int (length sel) \<le> m"
    using drain_select_bounds [of 0 "kj_limits j" 0 0 m "sort_key fst (js_cells s)"] l m
    by (simp_all add: sel_def drained_def join_limits_ok_def)
  define cells where "cells = fold ddel (map fst sel) (js_cells s)"
  define phase where "phase = (if cells \<noteq> [] then JDraining else JClosed)"
  define b where "b = \<lparr>jb_rows = concat (map (\<lambda>e. cell_rows (fst e) (snd e) (kj_sides j)) sel),
     jb_phase = phase, jb_pending = int (length cells), jb_drained = int (length sel)\<rparr>"
  have len_cells: "int (length cells) = int (length (js_cells s)) - int (length sel)"
    using sum_fold_ddel(2) [OF d rest] by (simp add: cells_def)
  have "join_batch_check b = Inr b"
  proof (rule join_batch_check_intro [where sides = "kj_sides j"])
    show "int (length (jb_rows b)) \<le> jl_rows_per_batch hard_limits"
      using bounds(1) join_limits_hard(2) [OF l] sel_rows(1) [of sel j "kj_sides j"] ci by (simp add: b_def)
    show "(\<Sum>r\<leftarrow>jb_rows b. row_size r) \<le> jl_batch_bytes hard_limits"
      using bounds(2) join_limits_hard(3) [OF l] sel_rows(2) [of sel j "kj_sides j"] ci by (simp add: b_def)
    show "jr_sides r = kj_sides j" if "r \<in> set (jb_rows b)" for r
      using that sel_rows(3) [of sel j r "kj_sides j"] ci by (simp add: b_def)
  qed (use len len_cells join_limits_hard(1) [OF l] bounds(3) m in \<open>auto simp: b_def phase_def split: if_splits\<close>)
  moreover have "0 \<le> (\<Sum>e\<leftarrow>sel. ce_rows (snd e))"
    using ci cell_inv_limits(1) by (intro sum_list_nonneg) fastforce
  ultimately show ?thesis
    using em e0 m ph unfolding sel_def [symmetric]
    by (intro exI [of _ b])
      (simp add: stage_drain_def Let_def sel_def [unfolded drained_def, symmetric] cells_def [symmetric]
        phase_def [symmetric] b_def [symmetric] count_def no_admit_def,
       simp add: b_def state_drained_def Let_def cells_def phase_def)
qed

text \<open>Repeating \<open>drain\<close>.\<close>

fun drain_all :: "nat \<Rightarrow> keyed_join \<Rightarrow> int \<Rightarrow> join_state \<Rightarrow> (join_row list \<times> join_state) res" where
  "drain_all 0 j m s = Inr ([], s)"
| "drain_all (Suc n) j m s =
     rbind (stage_drain j no_admit s m ()) (\<lambda>(s, b, _).
     rbind (drain_all n j m s) (\<lambda>(rows, s). Inr (jb_rows b @ rows, s)))"

lemma state_drained_sorted:
  assumes "dict_ok (js_cells s)" "sort_key fst (js_cells s) = sel @ rest"
  shows "sort_key fst (js_cells (state_drained s sel)) = rest"
  using sum_fold_ddel(3) [OF assms] by (simp add: state_drained_def Let_def)

lemma drain_all_closed:
  assumes "js_phase s = JClosed" "js_cells s = []" "1 \<le> m" "m \<le> jl_keys hard_limits"
  shows "drain_all n j m s = Inr ([], s)"
proof -
  have "join_batch_check \<lparr>jb_rows = [], jb_phase = JClosed, jb_pending = 0, jb_drained = 0\<rparr>
      = Inr \<lparr>jb_rows = [], jb_phase = JClosed, jb_pending = 0, jb_drained = 0\<rparr>"
    by (simp add: join_batch_check_def count_def hard_limits_def)
  with assms show ?thesis by (induction n) (simp_all add: stage_drain_def count_def)
qed

lemma drain_all_ends:
  assumes "keyed_join_ok j" "join_state_ok j s" "js_phase s = JDraining"
    and "1 \<le> m" "m \<le> jl_keys hard_limits"
    and "js_emitted s + (\<Sum>e\<leftarrow>js_cells s. ce_rows (snd e)) \<le> MAX_COUNT"
    and "length (js_cells s) \<le> n"
  shows "\<exists>t. drain_all n j m s
      = Inr (concat (map (\<lambda>e. cell_rows (fst e) (snd e) (kj_sides j)) (sort_key fst (js_cells s))), t)
    \<and> js_phase t = JClosed \<and> js_cells t = [] \<and> js_bytes t = 0 \<and> js_values t = 0"
  using assms
proof (induction n arbitrary: s)
  case 0
  then show ?case by (simp add: join_state_ok_def Let_def)
next
  case (Suc n)
  define sel where "sel = drained j s m"
  obtain rest where rest: "sort_key fst (js_cells s) = sel @ rest" using drained_split sel_def by blast
  have d: "dict_ok (js_cells s)" using Suc.prems(2) by (simp add: join_state_ok_def Let_def)
  have rows: "0 \<le> ce_rows (snd e)" if "e \<in> set (sort_key fst (js_cells s))" for e
    using cell_inv_limits(1) [OF cells_inv_in [OF Suc.prems(2) that]] by simp
  have total: "(\<Sum>e\<leftarrow>js_cells s. ce_rows (snd e)) = (\<Sum>e\<leftarrow>sel. ce_rows (snd e)) + (\<Sum>e\<leftarrow>rest. ce_rows (snd e))"
    using sum_list_sort_int [of "\<lambda>e. ce_rows (snd e)" fst "js_cells s"] rest by simp
  have pos: "0 \<le> (\<Sum>e\<leftarrow>rest. ce_rows (snd e))" using rows rest by (intro sum_list_nonneg) auto
  obtain b where b: "stage_drain j no_admit s m () = Inr (state_drained s sel, b, ())"
    and br: "jb_rows b = concat (map (\<lambda>e. cell_rows (fst e) (snd e) (kj_sides j)) sel)"
    using stage_drain_succeeds [OF Suc.prems(1-5)] Suc.prems(6) total pos by (auto simp: sel_def)
  define s1 where "s1 = state_drained s sel"
  have s1: "join_state_ok j s1" using stage_drain_ok [OF Suc.prems(1,2) b] by (simp add: s1_def)
  have sorted1: "sort_key fst (js_cells s1) = rest" using state_drained_sorted [OF d rest] by (simp add: s1_def)
  have len1: "length (js_cells s1) = length rest" using sorted1 by (metis length_sort)
  have "sel \<noteq> []" using drained_nonempty [OF Suc.prems(1,2,3,4)] by (simp add: sel_def)
  then have "length rest < length (js_cells s)" using rest by (metis length_append length_sort less_add_same_cancel2 length_greater_0_conv)
  with Suc.prems(7) len1 have n: "length (js_cells s1) \<le> n" by simp
  show ?case
  proof (cases "js_cells s1 = []")
    case True
    then have "js_phase s1 = JClosed" by (simp add: s1_def state_drained_def Let_def split: if_splits)
    with True have "drain_all n j m s1 = Inr ([], s1)" using Suc.prems(4,5) by (intro drain_all_closed)
    moreover have "rest = []" using sorted1 True by simp
    moreover have "js_bytes s1 = 0" "js_values s1 = 0" using s1 True by (simp_all add: join_state_ok_def Let_def)
    ultimately show ?thesis
      using b br rest True \<open>js_phase s1 = JClosed\<close> by (auto simp: s1_def)
  next
    case False
    then have "js_phase s1 = JDraining" by (simp add: s1_def state_drained_def Let_def split: if_splits)
    moreover have "js_emitted s1 + (\<Sum>e\<leftarrow>js_cells s1. ce_rows (snd e)) \<le> MAX_COUNT"
      using Suc.prems(6) total sum_list_sort_int [of "\<lambda>e. ce_rows (snd e)" fst "js_cells s1"] sorted1
      by (simp add: s1_def state_drained_def Let_def)
    ultimately obtain t where t: "drain_all n j m s1
        = Inr (concat (map (\<lambda>e. cell_rows (fst e) (snd e) (kj_sides j)) (sort_key fst (js_cells s1))), t)"
      "js_phase t = JClosed" "js_cells t = []" "js_bytes t = 0" "js_values t = 0"
      using Suc.IH [OF Suc.prems(1) s1 _ Suc.prems(4,5) _ n] by blast
    with b br rest sorted1 show ?thesis by (auto simp: s1_def)
  qed
qed

end
