(* ===== verification/Join_Recovery.thy ===== *)
theory Join_Recovery
  imports Keyed_Join_Laws
begin

text \<open>
  The counters of a join: the relations between arrivals, emitted rows and retained values
  that \<open>from_checkpoint\<close> demands hold in every reachable state, so a checkpoint of a running
  join always restores.
\<close>

section \<open>Retained values\<close>

definition gap :: "join_state \<Rightarrow> nat \<Rightarrow> int" where
  "gap s i = js_counts s ! i - retained (js_cells s) i"

definition row_factor :: "keyed_join \<Rightarrow> int" where
  "row_factor j = (if kj_insert j = JProduct then jl_rows_per_key (kj_limits j) else 1)"

definition join_counts_inv :: "keyed_join \<Rightarrow> join_state \<Rightarrow> bool" where
  "join_counts_inv j s \<longleftrightarrow>
     (let n = length (kj_sides j); R = jl_rows_per_key (kj_limits j); inputs = sum_list (js_counts s);
          cells = js_cells s; len = int (length cells); out = js_emitted s; product = (kj_insert j = JProduct)
      in (\<forall>i<n. 0 \<le> gap s i) \<and> out \<le> inputs * R
         \<and> (kj_emit j = JComplete \<longrightarrow> (\<forall>i<n. out \<le> gap s i * row_factor j))
         \<and> (kj_emit j = JRunning \<longrightarrow> inputs \<le> out \<and> (\<not> product \<longrightarrow> out = inputs))
         \<and> (kj_emit j \<noteq> JComplete \<and> product \<longrightarrow>
              inputs \<le> jl_values (kj_limits j) \<and> (js_phase s = JOpen \<longrightarrow> (\<forall>i<n. gap s i = 0)))
         \<and> (kj_emit j \<noteq> JComplete \<and> \<not> product \<and> js_phase s = JOpen \<longrightarrow>
              (\<forall>i<n. js_counts s ! i = 0 \<or> retained cells i \<noteq> 0))
         \<and> (kj_emit j = JFinal \<longrightarrow>
              (js_phase s = JOpen \<longrightarrow> out = 0)
              \<and> (\<not> product \<longrightarrow> out \<le> inputs - len)
              \<and> out \<le> (jl_keys (kj_limits j) - len) * row_factor j
              \<and> (inputs \<noteq> 0 \<longrightarrow> cells \<noteq> [] \<or> out \<noteq> 0)
              \<and> (product \<longrightarrow> (\<forall>i<n. gap s i \<le> out) \<and> out \<le> (\<Sum>i<n. gap s i) * R)))"

lemma retained_nonneg: "0 \<le> retained cells i"
  unfolding retained_def by (rule sum_list_nonneg) auto

lemma retained_ge: "(k, c) \<in> set cells \<Longrightarrow> int (length (ce_values c ! i)) \<le> retained cells i"
proof (induction cells)
  case (Cons e cells)
  then show ?case using retained_nonneg [of cells i] by (auto simp: retained_def)
qed simp

lemma cell_count_sum:
  "length vss = n \<Longrightarrow> cell_count vss = (\<Sum>i<n. int (length (vss ! i)))"
  by (simp add: cell_count_def sum_list_sum_nth atLeast0LessThan)

lemma values_retained:
  assumes "\<And>e. e \<in> set cells \<Longrightarrow> length (ce_values (snd e)) = n \<and> ce_count (snd e) = cell_count (ce_values (snd e))"
  shows "(\<Sum>e\<leftarrow>cells. ce_count (snd e)) = (\<Sum>i<n. retained cells i)"
  using assms
  by (induction cells) (simp_all add: retained_def sum.distrib cell_count_sum)

lemma cell_inv_count: "cell_inv j k c \<Longrightarrow> length (ce_values c) = length (kj_sides j) \<and> ce_count c = cell_count (ce_values c)"
proof -
  assume c: "cell_inv j k c"
  from arg_cong [OF cell_inv_limits(4) [OF c], of ce_count]
  have "ce_count c = cell_count (ce_values c)" by simp
  with c show ?thesis by (simp add: cell_inv_def Let_def)
qed

lemma join_values_retained:
  assumes "join_state_ok j s"
  shows "js_values s = (\<Sum>i<length (kj_sides j). retained (js_cells s) i)"
proof -
  have "js_values s = (\<Sum>e\<leftarrow>js_cells s. ce_count (snd e))" using assms by (simp add: join_state_ok_def Let_def)
  also have "\<dots> = (\<Sum>i<length (kj_sides j). retained (js_cells s) i)"
  proof (rule values_retained)
    fix e assume "e \<in> set (js_cells s)"
    then have "cell_inv j (fst e) (snd e)" using assms by (auto simp: join_state_ok_def Let_def)
    then show "length (ce_values (snd e)) = length (kj_sides j) \<and> ce_count (snd e) = cell_count (ce_values (snd e))"
      by (rule cell_inv_count)
  qed
  finally show ?thesis .
qed

lemma total_rows_single: "list_all (\<lambda>s. length s \<le> 1) vss \<Longrightarrow> total_rows vss = 1"
  by (induction vss) (auto simp: side_length_def)

lemma side_le_rows:
  assumes "i < length vss"
  shows "int (length (vss ! i)) \<le> total_rows vss"
proof -
  have "side_length (vss ! i) dvd total_rows vss" using assms by (intro side_length_dvd) simp
  then have "side_length (vss ! i) \<le> total_rows vss"
    using total_rows_pos [of vss] by (intro zdvd_imp_le) auto
  then show ?thesis by (simp add: side_length_def)
qed

section \<open>Arrivals\<close>

text \<open>What an arrival does to the counters of each side.\<close>

lemma arrival:
  assumes j: "keyed_join_ok j" and inv: "join_state_ok j s"
    and p: "propose_cell j s side r = Inr (counts, k, c)"
  defines "s' \<equiv> state_after j s counts k c" and "n \<equiv> length (kj_sides j)"
  shows "\<exists>i0<n. js_phase s = JOpen
    \<and> sum_list counts = sum_list (js_counts s) + 1
    \<and> (\<forall>i<n. gap s i \<le> gap s' i \<and> counts ! i = js_counts s ! i + (if i = i0 then 1 else 0))
    \<and> (completes j c \<longrightarrow> (\<forall>i<n. gap s i + 1 \<le> gap s' i))
    \<and> (\<not> completes j c \<and> kj_insert j = JProduct \<longrightarrow> (\<forall>i<n. gap s' i = gap s i))
    \<and> (\<not> completes j c \<longrightarrow> retained (js_cells s') i0 \<noteq> 0
         \<and> (\<forall>i<n. i \<noteq> i0 \<longrightarrow> retained (js_cells s') i = retained (js_cells s) i))
    \<and> 1 \<le> ce_rows c \<and> ce_rows c \<le> row_factor j \<and> ce_rows c \<le> jl_rows_per_key (kj_limits j)"
proof -
  obtain i0 encoded new_side where i0: "side_index (kj_sides j) side = Inr i0" and ph: "js_phase s = JOpen"
    and counts: "counts = (js_counts s)[i0 := js_counts s ! i0 + 1]"
    and ins: "insert_value (kj_insert j) (kj_limits j) encoded (prior_sides j s k ! i0) = Inr new_side"
    and mk: "make_cell k ((prior_sides j s k)[i0 := new_side]) (kj_limits j) = Inr c"
    using propose_cell_Inr [OF p] by blast
  have R: "1 \<le> jl_rows_per_key (kj_limits j)" using j join_limits_hard(5) by (simp add: keyed_join_ok_def)
  define old where "old = prior_sides j s k"
  define vss where "vss = old[i0 := new_side]"
  have c: "cell_fits (kj_limits j) k vss" "c = the_cell k vss"
    using mk by (simp_all add: make_cell_iff [OF R] vss_def old_def)
  have old: "length old = n" "kj_insert j \<noteq> JProduct \<longrightarrow> list_all (\<lambda>s. length s \<le> 1) old"
    using prior_sides_ok [OF inv] by (simp_all add: old_def n_def)
  have il: "i0 < n" using side_index_Inr [OF i0] by (simp add: n_def)
  have cl: "length (js_counts s) = n" and d: "dict_ok (js_cells s)"
    using inv by (simp_all add: join_state_ok_def Let_def n_def)
  have ins_old: "insert_value (kj_insert j) (kj_limits j) encoded (old ! i0) = Inr new_side"
    using ins by (simp add: old_def)
  have short: "length (old ! i0) \<le> 1" if "kj_insert j \<noteq> JProduct"
    using old that il by (auto simp: list_all_iff)
  define dl where "dl = int (length new_side) - int (length (old ! i0))"
  have dl: "0 \<le> dl" "dl \<le> 1" "kj_insert j = JProduct \<Longrightarrow> dl = 1"
    using insert_value_Inr(1) [OF ins_old] short by (auto simp: dl_def split: if_splits)
  have ne: "new_side \<noteq> []" using insert_value_Inr(2) [OF ins_old] .
  have vl: "int (length (vss ! i)) = int (length (old ! i)) + (if i = i0 then dl else 0)" if "i < n" for i
    using that old(1) by (simp add: vss_def dl_def)
  have ret: "retained (js_cells s') i = retained (js_cells s) i - int (length (old ! i))
      + (if completes j c then 0 else int (length (vss ! i)))" if "i < n" for i
    using retained_after [OF d, of j k c i] old_length_prior [of i j s k] that c(2)
    by (simp add: s'_def state_after_def old_def n_def)
  have cnt: "counts ! i = js_counts s ! i + (if i = i0 then 1 else 0)" if "i < n" for i
    using that cl by (simp add: counts)
  have gap': "gap s' i = gap s i + (if i = i0 then 1 else 0) + int (length (old ! i))
      - (if completes j c then 0 else int (length (vss ! i)))" if "i < n" for i
    using ret [OF that] cnt [OF that] by (simp add: gap_def s'_def state_after_def)
  have full: "1 \<le> int (length (vss ! i))" if "completes j c" "i < n" for i
    using that c(2) old(1) by (auto simp: completes_def list_all_iff vss_def Suc_le_eq)
  have "gap s i + 1 \<le> gap s' i" if "completes j c" "i < n" for i
    using gap' [OF that(2)] full [OF that] vl [OF that(2)] that(1) dl by (auto split: if_splits)
  moreover have "gap s' i = gap s i + (if i = i0 then 1 - dl else 0)" if "\<not> completes j c" "i < n" for i
    using gap' [OF that(2)] vl [OF that(2)] that(1) by auto
  moreover have "retained (js_cells s') i0 \<noteq> 0" if "\<not> completes j c"
  proof -
    have "(k, c) \<in> set (js_cells s')"
      using that d by (simp add: s'_def state_after_def cells_after_def set_dput)
    from retained_ge [OF this, of i0] have "int (length new_side) \<le> retained (js_cells s') i0"
      using il old(1) c(2) by (simp add: vss_def)
    moreover have "1 \<le> int (length new_side)" using ne by (cases new_side) simp_all
    ultimately show ?thesis by linarith
  qed
  moreover have "retained (js_cells s') i = retained (js_cells s) i" if "\<not> completes j c" "i < n" "i \<noteq> i0" for i
    using ret [OF that(2)] vl [OF that(2)] that by simp
  moreover have "kj_insert j \<noteq> JProduct \<longrightarrow> list_all (\<lambda>s. length s \<le> 1) vss"
    using old(2) insert_value_Inr(4) [OF ins_old] short set_update_subset_insert [of old i0 new_side]
    by (auto simp: vss_def list_all_iff)
  then have "1 \<le> ce_rows c \<and> ce_rows c \<le> row_factor j \<and> ce_rows c \<le> jl_rows_per_key (kj_limits j)"
    using c total_rows_pos [of vss] total_rows_single [of vss] by (auto simp: row_factor_def cell_fits_def)
  moreover have "sum_list counts = sum_list (js_counts s) + 1"
    using sum_list_update_inc [of i0 "js_counts s"] il cl by (simp add: counts)
  ultimately show ?thesis
    using il ph cnt dl by (intro exI [of _ i0]) (force split: if_splits)
qed

section \<open>The counters are kept\<close>

lemma row_factor_pos: "keyed_join_ok j \<Longrightarrow> 1 \<le> row_factor j \<and> row_factor j \<le> jl_rows_per_key (kj_limits j)"
  by (auto simp: row_factor_def keyed_join_ok_def join_limits_ok_def)

lemma join_counts_process:
  assumes j: "keyed_join_ok j" and inv: "join_state_ok j s" and ci: "join_counts_inv j s"
    and p: "stage_process j admit s side r h = Inr (s', b, h')"
  shows "join_counts_inv j s'"
proof -
  have d: "dict_ok (js_cells s)" using inv by (simp add: join_state_ok_def Let_def)
  obtain counts k c where pc: "propose_cell j s side r = Inr (counts, k, c)" and s': "s' = state_after j s counts k c"
    and keys: "int (length (js_cells s')) \<le> jl_keys (kj_limits j)"
    and vals: "js_values s' \<le> jl_values (kj_limits j)"
    using stage_process_Inr [OF p d] by blast
  have inv': "join_state_ok j s'" by (rule stage_process_ok [OF j inv p])
  define n where "n = length (kj_sides j)"
  define R where "R = jl_rows_per_key (kj_limits j)"
  obtain i0 where i0: "i0 < n" and ph: "js_phase s = JOpen"
    and total: "sum_list counts = sum_list (js_counts s) + 1"
    and gap: "\<And>i. i < n \<Longrightarrow> gap s i \<le> gap s' i"
    and cnt: "\<And>i. i < n \<Longrightarrow> counts ! i = js_counts s ! i + (if i = i0 then 1 else 0)"
    and full: "\<And>i. completes j c \<Longrightarrow> i < n \<Longrightarrow> gap s i + 1 \<le> gap s' i"
    and prod: "\<And>i. \<not> completes j c \<Longrightarrow> kj_insert j = JProduct \<Longrightarrow> i < n \<Longrightarrow> gap s' i = gap s i"
    and kept0: "\<not> completes j c \<Longrightarrow> retained (js_cells s') i0 \<noteq> 0"
    and kept: "\<And>i. \<not> completes j c \<Longrightarrow> i < n \<Longrightarrow> i \<noteq> i0 \<Longrightarrow> retained (js_cells s') i = retained (js_cells s) i"
    and rows: "1 \<le> ce_rows c" "ce_rows c \<le> row_factor j" "ce_rows c \<le> R"
    using arrival [OF j inv pc] unfolding s' [symmetric] n_def [symmetric] R_def [symmetric] by blast
  have f: "1 \<le> row_factor j" "row_factor j \<le> R" using row_factor_pos [OF j] by (simp_all add: R_def)
  have js: "js_counts s' = counts" "js_phase s' = JOpen"
    "js_emitted s' = js_emitted s + (if emits j c then ce_rows c else 0)"
    by (simp_all add: s' state_after_def)
  have le1: "js_emitted s' \<le> js_emitted s + R" using rows js(3) f by simp
  have old: "\<forall>i<n. 0 \<le> gap s i" "js_emitted s \<le> sum_list (js_counts s) * R"
    using ci by (simp_all add: join_counts_inv_def Let_def n_def R_def)
  have 1: "\<forall>i<n. 0 \<le> gap s' i" using old(1) gap order_trans by blast
  have 2: "js_emitted s' \<le> sum_list counts * R"
    using le1 old(2) by (simp add: total algebra_simps)
  have 3: "\<forall>i<n. js_emitted s' \<le> gap s' i * row_factor j" if "kj_emit j = JComplete"
  proof (intro allI impI)
    fix i assume i: "i < n"
    have o1: "js_emitted s \<le> gap s i * row_factor j"
      using ci that i by (simp add: join_counts_inv_def Let_def n_def)
    show "js_emitted s' \<le> gap s' i * row_factor j"
    proof (cases "completes j c")
      case True
      have "(gap s i + 1) * row_factor j \<le> gap s' i * row_factor j"
        using full [OF True i] f by (intro mult_right_mono) auto
      with o1 js(3) rows(2) True show ?thesis by (simp add: emits_def algebra_simps)
    next
      case False
      have "gap s i * row_factor j \<le> gap s' i * row_factor j"
        using gap [OF i] f by (intro mult_right_mono) auto
      with o1 js(3) False that show ?thesis by (simp add: emits_def)
    qed
  qed
  have 4: "sum_list counts \<le> js_emitted s' \<and> (kj_insert j \<noteq> JProduct \<longrightarrow> js_emitted s' = sum_list counts)"
    if "kj_emit j = JRunning"
    using ci that rows js(3) by (auto simp: join_counts_inv_def Let_def emits_def total row_factor_def)
  have nc: "\<not> completes j c" if "kj_emit j \<noteq> JComplete" using that by (simp add: completes_def)
  have 5: "sum_list counts \<le> jl_values (kj_limits j) \<and> (\<forall>i<n. gap s' i = 0)"
    if "kj_emit j \<noteq> JComplete" "kj_insert j = JProduct"
  proof -
    have g: "gap s' i = 0" if "i < n" for i
      using ci \<open>kj_emit j \<noteq> JComplete\<close> \<open>kj_insert j = JProduct\<close> ph prod [OF nc _ that] that
      by (simp add: join_counts_inv_def Let_def n_def)
    have cl: "length counts = n" using inv' js(1) by (simp add: join_state_ok_def Let_def n_def)
    have "sum_list counts = (\<Sum>i<n. counts ! i)" by (simp add: sum_list_sum_nth cl atLeast0LessThan)
    also have "\<dots> = (\<Sum>i<n. retained (js_cells s') i)"
      using g by (intro sum.cong) (auto simp: gap_def js)
    also have "\<dots> = js_values s'" by (simp add: join_values_retained [OF inv'] n_def)
    finally show ?thesis using vals g by simp
  qed
  have 6: "\<forall>i<n. counts ! i = 0 \<or> retained (js_cells s') i \<noteq> 0"
    if "kj_emit j \<noteq> JComplete" "kj_insert j \<noteq> JProduct"
    using ci that ph kept0 [OF nc [OF that(1)]] kept [OF nc [OF that(1)]] cnt
    by (auto simp: join_counts_inv_def Let_def n_def)
  have 7: "js_emitted s' = 0 \<and> (kj_insert j \<noteq> JProduct \<longrightarrow> js_emitted s' \<le> sum_list counts - int (length (js_cells s')))
      \<and> js_emitted s' \<le> (jl_keys (kj_limits j) - int (length (js_cells s'))) * row_factor j
      \<and> js_cells s' \<noteq> [] \<and> (kj_insert j = JProduct \<longrightarrow> (\<forall>i<n. gap s' i \<le> js_emitted s')
          \<and> js_emitted s' \<le> (\<Sum>i<n. gap s' i) * R)"
    if e: "kj_emit j = JFinal"
  proof -
    have z: "js_emitted s' = 0" using ci e ph js(3) by (simp add: join_counts_inv_def Let_def emits_def completes_def)
    have cells: "js_cells s' = dput k c (js_cells s)"
      using e by (simp add: s' state_after_def cells_after_def completes_def)
    have "0 \<le> (jl_keys (kj_limits j) - int (length (js_cells s'))) * row_factor j"
      using keys f by (intro mult_nonneg_nonneg) auto
    moreover have "0 \<le> sum_list counts - int (length (js_cells s'))" if "kj_insert j \<noteq> JProduct"
      using ci e ph that by (auto simp: join_counts_inv_def Let_def cells length_dput total split: option.splits)
    moreover have "js_cells s' \<noteq> []" by (cases "js_cells s") (auto simp: cells split: if_splits)
    ultimately show ?thesis using z 5 e by auto
  qed
  show ?thesis
    unfolding join_counts_inv_def Let_def js(1,2) n_def [symmetric] R_def [symmetric]
    using 1 2 3 4 5 6 7 by (cases "kj_emit j"; cases "kj_insert j = JProduct"; simp)
qed

lemma join_counts_close:
  assumes j: "keyed_join_ok j" and inv: "join_state_ok j s" and ci: "join_counts_inv j s"
    and p: "stage_close j s side = Inr (s', b)"
  shows "join_counts_inv j s'"
proof -
  obtain i where i: "side_index (kj_sides j) side = Inr i" using p by (auto simp: stage_close_def)
  define closed where "closed = (js_closed s)[i := True]"
  define n where "n = length (kj_sides j)"
  show ?thesis
  proof (cases "js_closed s ! i")
    case True
    with p i ci show ?thesis by (auto simp: stage_close_def)
  next
    case False
    have "i < length (js_closed s)"
      using side_index_Inr [OF i] inv by (simp add: join_state_ok_def Let_def)
    then have "js_closed s ! i \<in> set (js_closed s)" by simp
    with False have "\<not> list_all id (js_closed s)" by (auto simp: list_all_iff)
    with inv have ph: "js_phase s = JOpen" by (simp add: join_state_ok_def Let_def)
    have cl: "length (js_counts s) = n" "list_all (\<lambda>c. 0 \<le> c) (js_counts s)"
      using inv by (simp_all add: join_state_ok_def Let_def n_def)
    have js: "js_counts s' = js_counts s" "js_emitted s' = js_emitted s"
      using p i False by (auto simp: stage_close_def Let_def split: if_splits)
    consider (all) "kj_emit j \<noteq> JFinal" "js_cells s' = []" "js_phase s' = JClosed"
      | (keep) "js_cells s' = js_cells s" "js_phase s' \<noteq> JOpen \<or> js_phase s' = js_phase s"
      using p i False ph by (auto simp: stage_close_def closed_def Let_def split: if_splits)
    then show ?thesis
    proof cases
      case keep
      then have "gap s' = gap s" by (simp add: gap_def js fun_eq_iff)
      with ci keep js ph show ?thesis by (auto simp: join_counts_inv_def Let_def)
    next
      case all
      have g: "gap s' i = js_counts s ! i" for i using all by (simp add: gap_def js retained_def)
      have ge: "gap s i \<le> gap s' i" for i
        using retained_nonneg [of "js_cells s" i] by (simp add: g) (simp add: gap_def)
      have "0 \<le> row_factor j" using row_factor_pos [OF j] by simp
      then have "gap s i * row_factor j \<le> gap s' i * row_factor j" for i
        using ge by (intro mult_right_mono)
      then have mono: "x \<le> gap s i * row_factor j \<Longrightarrow> x \<le> gap s' i * row_factor j" for x i
        by (rule order_trans [rotated])
      have "0 \<le> gap s i \<Longrightarrow> 0 \<le> gap s' i" for i using ge [of i] by simp
      with ci all(1,3) show ?thesis
        unfolding join_counts_inv_def Let_def js by (intro conjI impI; simp add: mono)
    qed
  qed
qed

text \<open>A drain of the selected cells.\<close>

lemma retained_drained:
  assumes "dict_ok (js_cells s)" "sort_key fst (js_cells s) = sel @ rest"
  shows "gap (state_drained s sel) i = gap s i + retained sel i"
  using sum_fold_ddel(1) [OF assms, of "\<lambda>e. int (length (ce_values (snd e) ! i))"]
  by (simp add: gap_def retained_def state_drained_def Let_def)

lemma sum_rows_le: "(\<And>e. e \<in> set sel \<Longrightarrow> f e \<le> (m::int)) \<Longrightarrow> (\<Sum>e\<leftarrow>sel. f e) \<le> int (length sel) * m"
  by (induction sel) (auto simp: algebra_simps add_mono)

lemma sum_rows_ge: "(\<And>e. e \<in> set sel \<Longrightarrow> (m::int) \<le> f e) \<Longrightarrow> int (length sel) * m \<le> (\<Sum>e\<leftarrow>sel. f e)"
  by (induction sel) (auto simp: algebra_simps add_mono)

lemma join_counts_drain:
  assumes j: "keyed_join_ok j" and inv: "join_state_ok j s" and ci: "join_counts_inv j s"
    and p: "stage_drain j admit s m h = Inr (s', b, h')"
  shows "join_counts_inv j s'"
proof (cases "js_phase s = JClosed")
  case True
  with stage_drain_Inr [OF p] ci show ?thesis by simp
next
  case False
  define sel where "sel = drained j s m"
  define n where "n = length (kj_sides j)"
  define R where "R = jl_rows_per_key (kj_limits j)"
  define total where "total = sum_list (js_counts s)"
  obtain rest where rest: "sort_key fst (js_cells s) = sel @ rest" using drained_split sel_def by blast
  have d: "dict_ok (js_cells s)" using inv by (simp add: join_state_ok_def Let_def)
  have ph: "js_phase s = JDraining" and s': "s' = state_drained s sel" and m: "1 \<le> m"
    using stage_drain_Inr [OF p] False by (cases "js_phase s"; auto simp: sel_def)+
  have fin: "kj_emit j = JFinal" using inv ph by (simp add: join_state_ok_def Let_def)
  have ne: "sel \<noteq> []" using drained_nonempty [OF j inv ph m] by (simp add: sel_def)
  have f: "1 \<le> row_factor j" "row_factor j \<le> R" using row_factor_pos [OF j] by (simp_all add: R_def)
  have cinv: "cell_inv j (fst e) (snd e)" if "e \<in> set sel" for e
    using cells_inv_in [OF inv] rest that by auto
  have rows: "1 \<le> ce_rows (snd e)" "ce_rows (snd e) \<le> row_factor j" "ce_rows (snd e) \<le> R" if "e \<in> set sel" for e
  proof -
    note c = cinv [OF that]
    show "1 \<le> ce_rows (snd e)" "ce_rows (snd e) \<le> R" using cell_inv_limits [OF c] by (simp_all add: R_def)
    have "ce_rows (snd e) = total_rows (ce_values (snd e))"
      using arg_cong [OF cell_inv_limits(4) [OF c], of ce_rows] by simp
    then show "ce_rows (snd e) \<le> row_factor j"
      using c cell_inv_limits(2) [OF c] by (auto simp: row_factor_def cell_inv_def Let_def total_rows_single)
  qed
  define rsum where "rsum = (\<Sum>e\<leftarrow>sel. ce_rows (snd e))"
  have js: "js_counts s' = js_counts s" "js_emitted s' = js_emitted s + rsum" "js_phase s' \<noteq> JOpen"
    by (simp_all add: s' state_drained_def Let_def rsum_def)
  have len: "int (length (js_cells s')) = int (length (js_cells s)) - int (length sel)"
    using sum_fold_ddel(2) [OF d rest] by (simp add: s' state_drained_def Let_def)
  have g: "gap s' i = gap s i + retained sel i" for i
    using retained_drained [OF d rest] by (simp add: s')
  have rs: "rsum \<le> int (length sel) * row_factor j" "int (length sel) * 1 \<le> rsum"
    unfolding rsum_def by (rule sum_rows_le [OF rows(2)], assumption) (rule sum_rows_ge [OF rows(1)], assumption)
  have "1 \<le> int (length sel)" using ne by (cases sel) simp_all
  with rs(2) have rpos: "1 \<le> rsum" by simp
  have old: "\<forall>i<n. 0 \<le> gap s i" "js_emitted s \<le> total * R"
    "kj_insert j \<noteq> JProduct \<Longrightarrow> js_emitted s \<le> total - int (length (js_cells s))"
    "js_emitted s \<le> (jl_keys (kj_limits j) - int (length (js_cells s))) * row_factor j"
    "kj_insert j = JProduct \<Longrightarrow> (\<forall>i<n. gap s i \<le> js_emitted s) \<and> js_emitted s \<le> (\<Sum>i<n. gap s i) * R
       \<and> total \<le> jl_values (kj_limits j)"
    using ci fin by (auto simp: join_counts_inv_def Let_def n_def R_def total_def)
  have e0: "0 \<le> js_emitted s" and cnt: "length (js_counts s) = n"
    using inv by (simp_all add: join_state_ok_def Let_def n_def)
  have 1: "\<forall>i<n. 0 \<le> gap s' i" using old(1) retained_nonneg [of sel] by (auto simp: g)
  have 2: "kj_insert j \<noteq> JProduct \<Longrightarrow> js_emitted s' \<le> total - int (length (js_cells s'))"
    using old(3) rs(1) by (simp add: js len row_factor_def)
  have 3: "js_emitted s' \<le> (jl_keys (kj_limits j) - int (length (js_cells s'))) * row_factor j"
    using old(4) rs(1) by (simp add: js len algebra_simps)
  have 4: "(\<forall>i<n. gap s' i \<le> js_emitted s') \<and> js_emitted s' \<le> (\<Sum>i<n. gap s' i) * R"
    if prod: "kj_insert j = JProduct"
  proof -
    have "retained sel i \<le> rsum" if "i < n" for i
      unfolding retained_def rsum_def
    proof (rule sum_list_mono)
      fix e assume e: "e \<in> set sel"
      note c = cinv [OF e]
      have "ce_rows (snd e) = total_rows (ce_values (snd e))"
        using arg_cong [OF cell_inv_limits(4) [OF c], of ce_rows] by simp
      with side_le_rows [of i "ce_values (snd e)"] cell_inv_count [OF c] that
      show "int (length (ce_values (snd e) ! i)) \<le> ce_rows (snd e)" by (simp add: n_def)
    qed
    then have a: "\<forall>i<n. gap s' i \<le> js_emitted s'" using old(5) [OF prod] by (fastforce simp: g js)
    have "(\<Sum>e\<leftarrow>sel. ce_count (snd e)) = (\<Sum>i<n. retained sel i)"
      using cell_inv_count [OF cinv] by (intro values_retained) (auto simp: n_def)
    moreover have "int (length sel) * 1 \<le> (\<Sum>e\<leftarrow>sel. ce_count (snd e))"
    proof -
      have "1 \<le> ce_count (snd e)" if "e \<in> set sel" for e
      proof -
        note c = cinv [OF that]
        have "cell_count (ce_values (snd e)) \<noteq> 0" "0 \<le> cell_count (ce_values (snd e))"
          using c by (auto simp: cell_inv_def Let_def cell_fits_def shape_fits_def cell_count_def intro!: sum_list_nonneg)
        with cell_inv_count [OF c] show ?thesis by simp
      qed
      then show ?thesis by (rule sum_rows_ge)
    qed
    ultimately have "int (length sel) \<le> (\<Sum>i<n. retained sel i)" by simp
    then have "int (length sel) * R \<le> (\<Sum>i<n. retained sel i) * R" using f by (intro mult_right_mono) auto
    moreover have "rsum \<le> int (length sel) * R"
      using rs(1) prod by (simp add: row_factor_def R_def)
    ultimately have "js_emitted s' \<le> (\<Sum>i<n. gap s' i) * R"
      using old(5) [OF prod] by (simp add: js g sum.distrib algebra_simps)
    with a show ?thesis by simp
  qed
  have 5: "js_emitted s' \<le> total * R"
  proof (cases "kj_insert j = JProduct")
    case True
    have "(\<Sum>i<n. gap s' i) \<le> (\<Sum>i<n. js_counts s' ! i)"
      using retained_nonneg by (intro sum_mono) (simp add: gap_def)
    also have "\<dots> = total" by (simp add: total_def js sum_list_sum_nth cnt atLeast0LessThan)
    finally have "(\<Sum>i<n. gap s' i) * R \<le> total * R" using f by (intro mult_right_mono) auto
    with 4 [OF True] show ?thesis by linarith
  next
    case False
    have "js_emitted s' \<le> total" using 2 [OF False] by simp
    moreover have "0 \<le> total" using old(3) [OF False] e0 by simp
    then have "total * 1 \<le> total * R" using f by (intro mult_left_mono) auto
    ultimately show ?thesis by simp
  qed
  show ?thesis
    unfolding join_counts_inv_def Let_def js(1) n_def [symmetric] R_def [symmetric] total_def [symmetric]
    using 1 2 3 4 5 fin js(3) rpos e0 old(5) js(2) by auto
qed

definition join_rt_ok :: "join_runtime \<Rightarrow> bool" where
  "join_rt_ok rt \<longleftrightarrow> join_rt_inv rt \<and> join_counts_inv (jt_join rt) (jt_state rt)"

lemma join_apply_counts:
  assumes "join_rt_ok rt" "join_apply op rt = (Inr b, rt')"
  shows "join_rt_ok rt'"
proof -
  obtain s' where s': "join_stage (jt_join rt) op (jt_state rt) = Inr (s', b)" "rt' = rt\<lparr>jt_state := s'\<rparr>"
    using join_apply_Inr [OF assms(2)] by blast
  then have "join_counts_inv (jt_join rt) s'"
    using assms(1) by (cases op)
      (auto simp: join_rt_ok_def join_rt_inv_def join_stage_def
        intro: join_counts_process join_counts_close join_counts_drain)
  with s' join_apply_ok [of rt op b rt'] assms show ?thesis by (simp add: join_rt_ok_def)
qed

interpretation join_counted: atomic_runtime join_apply join_rt_ok join_op_ok
proof unfold_locales
  show "s' = s" if "join_apply p s = (Inl e, s')" for s p e s'
    using that by (rule join_apply_Inl)
  show "join_rt_ok s'" if "join_rt_ok s" "join_apply p s = (Inr r, s')" for s p r s'
    using that by (rule join_apply_counts)
qed

section \<open>Checkpoint and restore\<close>

lemma cell_fits_mono:
  assumes "join_limits_ok l" "cell_fits l k vss"
  shows "cell_fits hard_limits k vss"
  using assms
  by (auto simp: cell_fits_def shape_fits_def sides_fit_def value_fits_def list_all_iff join_limits_ok_def
      dest: order_trans)

definition wire_cells :: "join_state \<Rightarrow> (pystr \<times> pystr list list) list" where
  "wire_cells s = map (\<lambda>(k, c). (k, ce_values c)) (sort_key fst (js_cells s))"

lemma sum_nonneg_map: "(\<And>x. x \<in> set xs \<Longrightarrow> 0 \<le> f x) \<Longrightarrow> (0::int) \<le> (\<Sum>x\<leftarrow>xs. f x)"
  by (rule sum_list_nonneg) auto

definition wire_count :: "pystr \<times> pystr list list \<Rightarrow> int" where "wire_count e = cell_count (snd e)"
definition wire_bytes :: "pystr \<times> pystr list list \<Rightarrow> int" where "wire_bytes e = cell_bytes (fst e) (snd e)"

lemma wire_nonneg: "0 \<le> wire_count e" "0 \<le> wire_bytes e"
proof -
  show "0 \<le> wire_count e" unfolding wire_count_def cell_count_def by (rule sum_nonneg_map) simp
  show "0 \<le> wire_bytes e"
    using sum_side_nonneg [of "snd e"] dumps_obj_pos [of "[jfield ''key'' (JStr (fst e)), jfield ''values'' (JArr [])]"]
    by (simp add: wire_bytes_def cell_bytes_def cell_base_def del: dumps.simps)
qed

lemma fold_check_join_cell:
  assumes "\<And>e. e \<in> set cells \<Longrightarrow> shape_fits hard_limits (fst e) (snd e) \<and> length (snd e) = n"
    and "sorted_wrt (<) (map fst cells)" "\<And>p e. prev = Some p \<Longrightarrow> e \<in> set cells \<Longrightarrow> p < fst e"
    and "tc + (\<Sum>e\<leftarrow>cells. wire_count e) \<le> jl_values hard_limits"
    and "tb + (\<Sum>e\<leftarrow>cells. wire_bytes e) \<le> jl_state_bytes hard_limits" and "length sc = n"
  shows "\<exists>p. fold_res (check_join_cell n) cells (tc, tb, sc, prev)
    = Inr (tc + (\<Sum>e\<leftarrow>cells. wire_count e), tb + (\<Sum>e\<leftarrow>cells. wire_bytes e),
           map (\<lambda>i. sc ! i + (\<Sum>e\<leftarrow>cells. int (length (snd e ! i)))) [0..<n], p)"
  using assms
proof (induction cells arbitrary: tc tb sc prev)
  case Nil
  have "map ((!) sc) [0..<n] = sc" using Nil.prems(6) map_nth [of sc] by simp
  then show ?case by simp
next
  case (Cons e cells)
  obtain k vss where e: "e = (k, vss)" by (cases e)
  define sc' where "sc' = map2 (\<lambda>c side. c + int (length side)) sc vss"
  have sh: "shape k vss n hard_limits = Inr (wire_count e, wire_bytes e)"
    using Cons.prems(1) [of e] by (simp add: shape_iff e wire_count_def wire_bytes_def)
  have nn: "0 \<le> (\<Sum>e\<leftarrow>cells. wire_count e)" "0 \<le> (\<Sum>e\<leftarrow>cells. wire_bytes e)"
    by (auto intro!: sum_nonneg_map wire_nonneg)
  have "\<not> (case prev of None \<Rightarrow> False | Some p \<Rightarrow> k \<le> p)"
    using Cons.prems(3) [of _ e] by (auto simp: e split: option.split)
  then have step: "check_join_cell n e (tc, tb, sc, prev) = Inr (tc + wire_count e, tb + wire_bytes e, sc', Some k)"
    using Cons.prems(4,5) nn sh by (simp add: check_join_cell_def e sc'_def)
  have "\<exists>p. fold_res (check_join_cell n) cells (tc + wire_count e, tb + wire_bytes e, sc', Some k)
    = Inr (tc + wire_count e + (\<Sum>e\<leftarrow>cells. wire_count e), tb + wire_bytes e + (\<Sum>e\<leftarrow>cells. wire_bytes e),
           map (\<lambda>i. sc' ! i + (\<Sum>e\<leftarrow>cells. int (length (snd e ! i)))) [0..<n], p)"
    by (rule Cons.IH) (use Cons.prems Cons.prems(1) [of e] in \<open>auto simp: e sc'_def\<close>)
  moreover have "sc' ! i = sc ! i + int (length (vss ! i))" if "i < n" for i
    using that Cons.prems(1) [of e] Cons.prems(6) by (simp add: sc'_def e)
  then have "map (\<lambda>i. sc' ! i + (\<Sum>e\<leftarrow>cells. int (length (snd e ! i)))) [0..<n]
      = map (\<lambda>i. sc ! i + (\<Sum>e\<leftarrow>e # cells. int (length (snd e ! i)))) [0..<n]"
    by (simp add: e add.assoc)
  ultimately show ?case using step by (simp add: add.assoc)
qed

lemma fold_unit: "(\<And>x. x \<in> set xs \<Longrightarrow> f x = Inr ()) \<Longrightarrow> fold_res (\<lambda>x _. f x) xs () = Inr ()"
  by (induction xs) auto

lemma check_join_text_canonical:
  assumes "canonical t" "byte_len t \<le> jl_value_bytes hard_limits"
  shows "check_join_text t = Inr ()"
  using assms canonical_reads [of t] by (auto simp: check_join_text_def)

lemma check_join_values_ok:
  assumes "cell_inv j k c" "join_limits_ok (kj_limits j)"
  shows "check_join_values (k, ce_values c) = Inr ()"
proof -
  have f: "cell_fits hard_limits k (ce_values c)"
    using assms by (auto simp: cell_inv_def Let_def intro: cell_fits_mono)
  have "check_join_text t = Inr ()" if "t \<in> set (concat (ce_values c))" for t
  proof (rule check_join_text_canonical)
    show "canonical t" using assms(1) that by (auto simp: cell_inv_def Let_def list_all_iff)
    show "byte_len t \<le> jl_value_bytes hard_limits"
      using f that by (auto simp: cell_fits_def shape_fits_def sides_fit_def value_fits_def list_all_iff)
  qed
  then have "fold_res (\<lambda>t _. check_join_text t) (concat (ce_values c)) () = Inr ()" by (rule fold_unit)
  moreover have "make_cell k (ce_values c) hard_limits = Inr (the_cell k (ce_values c))"
    using f by (subst make_cell_iff) (simp_all add: hard_limits_def)
  ultimately show ?thesis unfolding check_join_values_def by simp
qed

definition join_saved :: "join_runtime \<Rightarrow> join_checkpoint" where
  "join_saved rt =
     (let s = jt_state rt
      in \<lparr>jc_identity = join_identity (jt_join rt), jc_sides = kj_sides (jt_join rt),
          jc_closed = js_closed s, jc_phase = js_phase s, jc_counts = js_counts s,
          jc_emitted = js_emitted s, jc_cells = wire_cells s\<rparr>)"

definition join_restored :: "join_runtime \<Rightarrow> join_runtime" where
  "join_restored rt = rt\<lparr>jt_state := (jt_state rt)\<lparr>js_cells := sort_key fst (js_cells (jt_state rt))\<rparr>\<rparr>"

lemma dict_sorted: "dict_ok d \<Longrightarrow> sorted_wrt (<) (map fst (sort_key fst d))"
  using sort_key_fst_perm(3) [of d] by (simp add: dict_ok_def strict_sorted_iff)

lemma wire_cells_facts:
  assumes "join_state_ok j s"
  shows "map fst (wire_cells s) = map fst (sort_key fst (js_cells s))"
    and "(\<Sum>e\<leftarrow>wire_cells s. wire_count e) = js_values s" "(\<Sum>e\<leftarrow>wire_cells s. wire_bytes e) = js_bytes s"
    and "(\<Sum>e\<leftarrow>wire_cells s. int (length (snd e ! i))) = retained (js_cells s) i"
proof -
  have c: "ce_count (snd e) = cell_count (ce_values (snd e))"
    "ce_bytes (snd e) = cell_bytes (fst e) (ce_values (snd e))" if "e \<in> set (sort_key fst (js_cells s))" for e
    using cells_inv_in [OF assms that] cell_inv_count
      arg_cong [OF cell_inv_limits(4), of j "fst e" "snd e" ce_bytes] by auto
  show "map fst (wire_cells s) = map fst (sort_key fst (js_cells s))" by (simp add: wire_cells_def comp_def split_def)
  have "(\<Sum>e\<leftarrow>wire_cells s. wire_count e) = (\<Sum>e\<leftarrow>sort_key fst (js_cells s). ce_count (snd e))"
    unfolding wire_cells_def map_map
    by (intro arg_cong [where f = sum_list] map_cong) (auto simp: wire_count_def c)
  then show "(\<Sum>e\<leftarrow>wire_cells s. wire_count e) = js_values s"
    using assms by (simp add: sum_list_sort_int join_state_ok_def Let_def)
  have "(\<Sum>e\<leftarrow>wire_cells s. wire_bytes e) = (\<Sum>e\<leftarrow>sort_key fst (js_cells s). ce_bytes (snd e))"
    unfolding wire_cells_def map_map
    by (intro arg_cong [where f = sum_list] map_cong) (auto simp: wire_bytes_def c)
  then show "(\<Sum>e\<leftarrow>wire_cells s. wire_bytes e) = js_bytes s"
    using assms by (simp add: sum_list_sort_int join_state_ok_def Let_def)
  have "(\<Sum>e\<leftarrow>wire_cells s. int (length (snd e ! i)))
      = (\<Sum>e\<leftarrow>sort_key fst (js_cells s). int (length (ce_values (snd e) ! i)))"
    unfolding wire_cells_def map_map by (intro arg_cong [where f = sum_list] map_cong) auto
  then show "(\<Sum>e\<leftarrow>wire_cells s. int (length (snd e ! i))) = retained (js_cells s) i"
    by (simp add: sum_list_sort_int retained_def)
qed

lemma member_le_sum_list: "(\<And>x. x \<in> set xs \<Longrightarrow> (0::int) \<le> x) \<Longrightarrow> x \<in> set xs \<Longrightarrow> x \<le> sum_list xs"
  by (induction xs) (fastforce intro: sum_list_nonneg add_increasing2 add_increasing)+

lemma join_saved_ok:
  assumes "join_rt_ok rt"
  shows "join_checkpoint_check (join_saved rt) = Inr (join_saved rt)"
proof -
  define j where "j = jt_join rt"
  define s where "s = jt_state rt"
  define n where "n = length (kj_sides j)"
  have j: "keyed_join_ok j" and inv: "join_state_ok j s" and ci: "join_counts_inv j s"
    using assms by (simp_all add: join_rt_ok_def join_rt_inv_def j_def s_def)
  have l: "join_limits_ok (kj_limits j)" and sides: "sides_ok (kj_sides j)" using j by (simp_all add: keyed_join_ok_def)
  have st: "dict_ok (js_cells s)" "length (js_closed s) = n" "length (js_counts s) = n"
    "list_all (\<lambda>c. 0 \<le> c) (js_counts s)" "sum_list (js_counts s) \<le> MAX_COUNT"
    "0 \<le> js_emitted s" "js_emitted s \<le> MAX_COUNT"
    "int (length (js_cells s)) \<le> jl_keys (kj_limits j)" "js_bytes s \<le> jl_state_bytes (kj_limits j)"
    "js_values s \<le> jl_values (kj_limits j)"
    "js_phase s = JOpen \<longleftrightarrow> \<not> list_all id (js_closed s)" "js_phase s = JClosed \<longrightarrow> js_cells s = []"
    "js_phase s = JDraining \<longrightarrow> js_cells s \<noteq> []"
    using inv by (simp_all add: join_state_ok_def Let_def n_def)
  have cin: "cell_inv j k c" if "(k, c) \<in> set (js_cells s)" for k c
    using inv that by (auto simp: join_state_ok_def Let_def)
  have wlen: "length (wire_cells s) = length (js_cells s)" by (simp add: wire_cells_def)
  have wnil: "wire_cells s = [] \<longleftrightarrow> js_cells s = []" using wlen by (metis length_0_conv)
  obtain p where fold: "fold_res (check_join_cell n) (wire_cells s) (0, 0, replicate n 0, None)
      = Inr (js_values s, js_bytes s, map (\<lambda>i. replicate n 0 ! i + retained (js_cells s) i) [0..<n], p)"
  proof -
    have "shape_fits hard_limits (fst e) (snd e) \<and> length (snd e) = n" if e_in: "e \<in> set (wire_cells s)" for e
    proof -
      obtain k c where e: "e = (k, ce_values c)" and kc: "(k, c) \<in> set (js_cells s)"
        using e_in by (auto simp: wire_cells_def)
      have "cell_fits hard_limits k (ce_values c)" "length (ce_values c) = n"
        using cin [OF kc] cell_fits_mono [OF l] by (simp_all add: cell_inv_def Let_def n_def)
      then show ?thesis by (simp add: e cell_fits_def)
    qed
    moreover have "sorted_wrt (<) (map fst (wire_cells s))"
      using dict_sorted [OF st(1)] by (simp add: wire_cells_facts(1) [OF inv])
    moreover have "js_values s \<le> jl_values hard_limits" "js_bytes s \<le> jl_state_bytes hard_limits"
      using st(9,10) l by (simp_all add: join_limits_ok_def)
    ultimately show ?thesis
      using fold_check_join_cell [of "wire_cells s" n None 0 0 "replicate n 0"] wire_cells_facts(2-4) [OF inv] that
      by auto
  qed
  have counts: "map_res (\<lambda>i. count i 0 MAX_COUNT) (js_counts s) = Inr (js_counts s)"
  proof -
    have "0 \<le> x \<and> x \<le> MAX_COUNT" if "x \<in> set (js_counts s)" for x
      using member_le_sum_list [of "js_counts s" x] st(4,5) that by (fastforce simp: list_all_iff)
    then show ?thesis using map_res_all_Inr [of "js_counts s" "\<lambda>i. count i 0 MAX_COUNT" id] by simp
  qed
  have s0: "0 \<le> sum_list (js_counts s)" using st(4) by (intro sum_list_nonneg) (auto simp: list_all_iff)
  have out: "js_emitted s \<le> sum_list (js_counts s) * jl_rows_per_key hard_limits"
  proof -
    have "js_emitted s \<le> sum_list (js_counts s) * jl_rows_per_key (kj_limits j)"
      using ci by (simp add: join_counts_inv_def Let_def)
    also have "\<dots> \<le> sum_list (js_counts s) * jl_rows_per_key hard_limits"
      using s0 join_limits_hard(6) [OF l] by (intro mult_left_mono)
    finally show ?thesis .
  qed
  have excess: "\<not> list_ex (\<lambda>(cnt, admitted). admitted < cnt)
      (zip (map (\<lambda>i. replicate n 0 ! i + retained (js_cells s) i) [0..<n]) (js_counts s))"
  proof -
    have g: "retained (js_cells s) i \<le> js_counts s ! i" if "i < n" for i
    proof -
      have "\<forall>i<n. 0 \<le> gap s i" using ci unfolding join_counts_inv_def Let_def n_def by (rule conjunct1)
      then show ?thesis using that by (simp add: gap_def)
    qed
    have "\<not> js_counts s ! i < map (\<lambda>i. replicate n 0 ! i + retained (js_cells s) i) [0..<n] ! i" if "i < n" for i
      using g [OF that] that by simp
    then show ?thesis by (auto simp: list_ex_iff set_zip st(3) simp del: nth_map_upt)
  qed
  have vals: "fold_res (\<lambda>cell _. check_join_values cell) (wire_cells s) () = Inr ()"
    by (rule fold_unit) (use cin check_join_values_ok l in \<open>fastforce simp: wire_cells_def\<close>)
  have hex: "is_hex64 (join_identity j)" by (simp add: join_identity_def sha256_hex_is_hex64)
  have keys: "int (length (wire_cells s)) \<le> jl_keys hard_limits" using st(8) wlen join_limits_hard(1) [OF l] by simp
  have p1: "((js_phase s = JOpen) = list_all id (js_closed s)) = False" using st(11) by blast
  have p2: "(js_phase s = JClosed \<and> wire_cells s \<noteq> [] \<or> js_phase s = JDraining \<and> wire_cells s = []) = False"
    using st(12,13) wnil by blast
  have c1: "count (sum_list (js_counts s)) 0 MAX_COUNT = Inr (sum_list (js_counts s))"
    "count (js_emitted s) 0 MAX_COUNT = Inr (js_emitted s)"
    using s0 st(5,6,7) by (simp_all add: count_def)
  have v: "join_saved rt = \<lparr>jc_identity = join_identity j, jc_sides = kj_sides j, jc_closed = js_closed s,
      jc_phase = js_phase s, jc_counts = js_counts s, jc_emitted = js_emitted s, jc_cells = wire_cells s\<rparr>"
    by (simp add: join_saved_def Let_def j_def s_def)
  show ?thesis
    unfolding join_checkpoint_check_def v
    using out keys
    by (simp add: Let_def n_def [symmetric] sides hex st(2,3) counts c1 p1 p2 fold excess vals not_less)
qed


lemma fold_restore_join:
  assumes "\<And>k c. (k, c) \<in> set cells \<Longrightarrow> cell_inv j k c" "keyed_join_ok j"
    and "distinct (map fst d @ map fst cells)"
    and "int (length d) + int (length cells) \<le> jl_keys (kj_limits j)"
    and "sz + (\<Sum>e\<leftarrow>cells. ce_bytes (snd e)) \<le> jl_state_bytes (kj_limits j)"
    and "n + (\<Sum>e\<leftarrow>cells. ce_count (snd e)) \<le> jl_values (kj_limits j)"
  shows "fold_res (restore_join_cell j) (map (\<lambda>(k, c). (k, ce_values c)) cells) (d, sz, n)
    = Inr (d @ cells, sz + (\<Sum>e\<leftarrow>cells. ce_bytes (snd e)), n + (\<Sum>e\<leftarrow>cells. ce_count (snd e)))"
  using assms
proof (induction cells arbitrary: d sz n)
  case (Cons e cells)
  obtain k c where e: "e = (k, c)" by (cases e)
  have c: "cell_inv j k c" using Cons.prems(1) e by simp
  have R: "1 \<le> jl_rows_per_key (kj_limits j)" using Cons.prems(2) join_limits_hard(5) by (simp add: keyed_join_ok_def)
  have mk: "make_cell k (ce_values c) (kj_limits j) = Inr c"
    using c by (simp add: make_cell_iff [OF R] cell_inv_def Let_def)
  have short: "\<not> (kj_insert j \<noteq> JProduct \<and> list_ex (\<lambda>side. 1 < length side) (ce_values c))"
    "\<not> (kj_emit j = JComplete \<and> list_all (\<lambda>side. side \<noteq> []) (ce_values c))"
    using c by (auto simp: cell_inv_def Let_def list_all_iff list_ex_iff not_less)
  have nn: "0 \<le> (\<Sum>e\<leftarrow>cells. ce_bytes (snd e))" "0 \<le> (\<Sum>e\<leftarrow>cells. ce_count (snd e))"
  proof -
    have eq: "ce_count c = wire_count (k, ce_values c) \<and> ce_bytes c = wire_bytes (k, ce_values c)" if "(k, c) \<in> set cells" for k c
      using Cons.prems(1) [of k c] that cell_inv_count [of j k c]
        arg_cong [OF cell_inv_limits(4), of j k c ce_bytes] by (simp add: wire_count_def wire_bytes_def)
    have "0 \<le> ce_bytes (snd e) \<and> 0 \<le> ce_count (snd e)" if "e \<in> set cells" for e
      using eq [of "fst e" "snd e"] wire_nonneg that by simp
    then show "0 \<le> (\<Sum>e\<leftarrow>cells. ce_bytes (snd e))" "0 \<le> (\<Sum>e\<leftarrow>cells. ce_count (snd e))"
      by (auto intro!: sum_nonneg_map)
  qed
  have new: "k \<notin> set (dkeys d)" using Cons.prems(3) e by auto
  have step: "restore_join_cell j (k, ce_values c) (d, sz, n) = Inr (d @ [(k, c)], sz + ce_bytes c, n + ce_count c)"
    using Cons.prems(4,5,6) nn e short
    by (simp add: restore_join_cell_def Let_def mk dput_new [OF new])
  have "fold_res (restore_join_cell j) (map (\<lambda>(k, c). (k, ce_values c)) cells) (d @ [(k, c)], sz + ce_bytes c, n + ce_count c)
    = Inr ((d @ [(k, c)]) @ cells, sz + ce_bytes c + (\<Sum>e\<leftarrow>cells. ce_bytes (snd e)),
        n + ce_count c + (\<Sum>e\<leftarrow>cells. ce_count (snd e)))"
    by (rule Cons.IH) (use Cons.prems e in \<open>auto simp: add.assoc\<close>)
  with step e show ?case by simp
qed simp

lemma retained_counts_sorted:
  "retained_counts n (sort_key fst cells) = map (retained cells) [0..<n]"
  by (simp add: retained_counts_def retained_def sum_list_sort_int)

lemma counters_restore:
  assumes j: "keyed_join_ok j" and inv: "join_state_ok j s" and ci: "join_counts_inv j s"
  shows "join_counters_ok j (js_phase s) (js_counts s) (js_emitted s) (sort_key fst (js_cells s))"
proof -
  define n where "n = length (kj_sides j)"
  have cnt: "length (js_counts s) = n" and n0: "0 < n"
    using inv j by (auto simp: join_state_ok_def Let_def n_def keyed_join_ok_def sides_ok_def)
  have consumed: "map2 (-) (js_counts s) (map (retained (js_cells s)) [0..<n]) = map (gap s) [0..<n]"
    by (rule nth_equalityI) (simp_all add: cnt gap_def)
  have same: "map (retained (js_cells s)) [0..<n] = js_counts s" if "\<forall>i<n. gap s i = 0"
    using that by (intro nth_equalityI) (simp_all add: cnt gap_def)
  have kept: "list_all (\<lambda>(admitted, saved). admitted = 0 \<or> saved \<noteq> 0)
      (zip (js_counts s) (map (retained (js_cells s)) [0..<n]))"
    if "\<forall>i<n. js_counts s ! i = 0 \<or> retained (js_cells s) i \<noteq> 0"
    using that by (auto simp: list_all_length cnt)
  have total: "sum_list (map (gap s) [0..<n]) = (\<Sum>i<n. gap s i)"
    by (simp add: interv_sum_list_conv_sum_set_nat atLeast0LessThan)
  define out where "out = js_emitted s"
  define inputs where "inputs = sum_list (js_counts s)"
  define F where "F = row_factor j"
  note ci' = ci [unfolded join_counts_inv_def Let_def, folded n_def out_def inputs_def F_def]
  have least: "\<not> Min (set (map (gap s) [0..<n])) * F < out" if "kj_emit j = JComplete"
  proof -
    have "Min (gap s ` {0..<n}) \<in> gap s ` {0..<n}" using n0 by (intro Min_in) auto
    then obtain i where "i < n" "Min (gap s ` {0..<n}) = gap s i" by auto
    with ci' that show ?thesis by auto
  qed
  have most: "\<not> out < Max (set (map (gap s) [0..<n]))" if "kj_emit j = JFinal" "kj_insert j = JProduct"
  proof -
    have "Max (gap s ` {0..<n}) \<in> gap s ` {0..<n}" using n0 by (intro Max_in) auto
    then obtain i where "i < n" "Max (gap s ` {0..<n}) = gap s i" by auto
    with ci' that show ?thesis by auto
  qed
  have open_kept: "if kj_insert j = JProduct then map (retained (js_cells s)) [0..<n] = js_counts s
      else list_all (\<lambda>(admitted, saved). admitted = 0 \<or> saved \<noteq> 0)
        (zip (js_counts s) (map (retained (js_cells s)) [0..<n]))"
    if "js_phase s = JOpen" "kj_emit j \<noteq> JComplete"
    using same kept ci' that by auto
  have closed_out: "\<not> (js_phase s = JClosed \<and> inputs \<noteq> 0 \<and> out = 0)" if "kj_emit j = JFinal"
    using ci' that inv by (auto simp: join_state_ok_def Let_def)
  have F: "(if kj_insert j = JProduct then jl_rows_per_key (kj_limits j) else 1) = F"
    by (simp add: F_def row_factor_def)
  show ?thesis
    unfolding join_counters_ok_def Let_def retained_counts_sorted n_def [symmetric] consumed F
      out_def [symmetric] inputs_def [symmetric] total length_sort
    using ci' least most open_kept closed_out by (cases "kj_emit j"; cases "kj_insert j = JProduct"; simp)
qed


lemma join_from_saved:
  assumes "join_rt_ok rt"
  shows "join_from_checkpoint (jt_join rt) (join_saved rt) = Inr (join_restored rt)"
proof -
  define j where "j = jt_join rt"
  define s where "s = jt_state rt"
  have j: "keyed_join_ok j" and inv: "join_state_ok j s" and ci: "join_counts_inv j s" and nb: "\<not> jt_busy rt"
    using assms by (simp_all add: join_rt_ok_def join_rt_inv_def j_def s_def)
  define cells where "cells = sort_key fst (js_cells s)"
  have d: "dict_ok cells" "\<And>k c. (k, c) \<in> set cells \<Longrightarrow> cell_inv j k c"
    using inv cells_inv_in [OF inv] by (auto simp: cells_def join_state_ok_def Let_def sort_key_fst_perm)
  have "fold_res (restore_join_cell j) (wire_cells s) ([], 0, 0)
      = Inr ([] @ cells, 0 + (\<Sum>e\<leftarrow>cells. ce_bytes (snd e)), 0 + (\<Sum>e\<leftarrow>cells. ce_count (snd e)))"
    unfolding wire_cells_def cells_def [symmetric]
    by (rule fold_restore_join)
      (use d inv j in \<open>simp_all add: dict_ok_def, simp_all add: cells_def sum_list_sort_int join_state_ok_def Let_def\<close>)
  then have fold: "fold_res (restore_join_cell j) (wire_cells s) ([], 0, 0) = Inr (cells, js_bytes s, js_values s)"
    using inv by (simp add: cells_def sum_list_sort_int join_state_ok_def Let_def)
  have ph: "\<not> (js_phase s = JDraining \<and> kj_emit j \<noteq> JFinal)"
    "\<not> (js_phase s = JOpen \<and> kj_emit j = JFinal \<and> js_emitted s \<noteq> 0)"
    using inv ci by (auto simp: join_state_ok_def join_counts_inv_def Let_def)
  have v: "join_saved rt = \<lparr>jc_identity = join_identity j, jc_sides = kj_sides j, jc_closed = js_closed s,
      jc_phase = js_phase s, jc_counts = js_counts s, jc_emitted = js_emitted s, jc_cells = wire_cells s\<rparr>"
    by (simp add: join_saved_def Let_def j_def s_def)
  have ok: "join_checkpoint_check \<lparr>jc_identity = join_identity j, jc_sides = kj_sides j, jc_closed = js_closed s,
      jc_phase = js_phase s, jc_counts = js_counts s, jc_emitted = js_emitted s, jc_cells = wire_cells s\<rparr>
    = Inr \<lparr>jc_identity = join_identity j, jc_sides = kj_sides j, jc_closed = js_closed s,
      jc_phase = js_phase s, jc_counts = js_counts s, jc_emitted = js_emitted s, jc_cells = wire_cells s\<rparr>"
    using join_saved_ok [OF assms] unfolding v .
  have r: "join_restored rt = \<lparr>jt_join = j, jt_state = \<lparr>js_cells = cells, js_closed = js_closed s,
      js_counts = js_counts s, js_emitted = js_emitted s, js_bytes = js_bytes s, js_values = js_values s,
      js_phase = js_phase s\<rparr>, jt_busy = False\<rparr>"
    using nb by (cases rt; cases s) (simp add: join_restored_def cells_def j_def s_def)
  have "make_join_runtime j = Inr \<lparr>jt_join = j,
             jt_state = \<lparr>js_cells = [], js_closed = replicate (length (kj_sides j)) False,
                         js_counts = replicate (length (kj_sides j)) 0, js_emitted = 0, js_bytes = 0,
                         js_values = 0, js_phase = JOpen\<rparr>, jt_busy = False\<rparr>"
    using j by (simp add: make_join_runtime_def)
  then show ?thesis
    unfolding v j_def [symmetric] r join_from_checkpoint_def
    using ph by (simp add: ok fold counters_restore [OF j inv ci, folded cells_def])
qed

lemma join_checkpoint_of_eq:
  assumes "join_rt_ok rt"
  shows "join_checkpoint_of rt = Inr (join_saved rt)"
  using join_saved_ok [OF assms] assms
  by (simp add: join_checkpoint_of_def join_saved_def wire_cells_def Let_def join_rt_ok_def join_rt_inv_def)

section \<open>Documents\<close>

lemma read_phase_name: "read_phase (JStr (lit (phase_name p))) = Inr p"
  by (cases p) (simp_all add: read_phase_def lit_simps)

lemma fold_read_join_cell:
  assumes "\<And>e. e \<in> set cells \<Longrightarrow> shape_fits hard_limits (fst e) (snd e) \<and> length (snd e) = n"
    and "tc + (\<Sum>e\<leftarrow>cells. wire_count e) \<le> jl_values hard_limits"
    and "tb + (\<Sum>e\<leftarrow>cells. wire_bytes e) \<le> jl_state_bytes hard_limits"
  shows "fold_res (read_join_cell n) (map join_cell_doc cells) (done, tc, tb)
    = Inr (done @ cells, tc + (\<Sum>e\<leftarrow>cells. wire_count e), tb + (\<Sum>e\<leftarrow>cells. wire_bytes e))"
  using assms
proof (induction cells arbitrary: "done" tc tb)
  case (Cons e cells)
  obtain k vss where e: "e = (k, vss)" by (cases e)
  have sh: "shape k vss n hard_limits = Inr (wire_count e, wire_bytes e)"
    using Cons.prems(1) [of e] by (simp add: shape_iff e wire_count_def wire_bytes_def)
  have nn: "0 \<le> (\<Sum>e\<leftarrow>cells. wire_count e)" "0 \<le> (\<Sum>e\<leftarrow>cells. wire_bytes e)"
    by (auto intro!: sum_nonneg_map wire_nonneg)
  have step: "read_join_cell n (join_cell_doc e) (done, tc, tb) = Inr (done @ [e], tc + wire_count e, tb + wire_bytes e)"
    using Cons.prems(2,3) nn sh
    by (simp add: read_join_cell_def join_cell_doc_def doc_fields_def doc_get_def lit_simps e
        read_list_sides read_str_def)
  have "fold_res (read_join_cell n) (map join_cell_doc cells) (done @ [e], tc + wire_count e, tb + wire_bytes e)
    = Inr ((done @ [e]) @ cells, tc + wire_count e + (\<Sum>e\<leftarrow>cells. wire_count e), tb + wire_bytes e + (\<Sum>e\<leftarrow>cells. wire_bytes e))"
    by (rule Cons.IH) (use Cons.prems in \<open>auto simp: add.assoc\<close>)
  with step show ?case by (simp add: add.assoc)
qed simp

lemma join_saved_from_dict:
  assumes "join_rt_ok rt"
  shows "join_checkpoint_from_dict (join_checkpoint_to_dict (join_saved rt)) = Inr (join_saved rt)"
proof -
  define j where "j = jt_join rt"
  define s where "s = jt_state rt"
  define n where "n = length (kj_sides j)"
  have j: "keyed_join_ok j" and inv: "join_state_ok j s"
    using assms by (simp_all add: join_rt_ok_def join_rt_inv_def j_def s_def)
  have l: "join_limits_ok (kj_limits j)" and n: "2 \<le> n" "n \<le> 16"
    using j by (simp_all add: keyed_join_ok_def sides_ok_def n_def)
  have st: "length (js_closed s) = n" "length (js_counts s) = n"
    "int (length (js_cells s)) \<le> jl_keys hard_limits"
    using inv join_limits_hard(1) [OF l] by (simp_all add: join_state_ok_def Let_def n_def)
  have fits: "shape_fits hard_limits (fst e) (snd e) \<and> length (snd e) = n" if e_in: "e \<in> set (wire_cells s)" for e
  proof -
    obtain k c where e: "e = (k, ce_values c)" and kc: "(k, c) \<in> set (js_cells s)"
      using e_in by (auto simp: wire_cells_def)
    have "cell_inv j k c" using inv kc by (auto simp: join_state_ok_def Let_def)
    then have "cell_fits hard_limits k (ce_values c)" "length (ce_values c) = n"
      using cell_fits_mono [OF l] by (simp_all add: cell_inv_def Let_def n_def)
    then show ?thesis by (simp add: e cell_fits_def)
  qed
  have "fold_res (read_join_cell n) (map join_cell_doc (wire_cells s)) ([], 0, 0)
      = Inr ([] @ wire_cells s, 0 + (\<Sum>e\<leftarrow>wire_cells s. wire_count e), 0 + (\<Sum>e\<leftarrow>wire_cells s. wire_bytes e))"
    by (rule fold_read_join_cell [OF fits])
      (use inv l in \<open>auto simp: wire_cells_facts [OF inv] join_state_ok_def join_limits_ok_def Let_def\<close>)
  then have fold: "\<exists>a b. fold_res (read_join_cell (length (kj_sides j))) (map join_cell_doc (wire_cells s)) ([], 0, 0)
      = Inr (wire_cells s, a, b)"
    by (simp add: n_def)
  have v: "join_saved rt = \<lparr>jc_identity = join_identity j, jc_sides = kj_sides j, jc_closed = js_closed s,
      jc_phase = js_phase s, jc_counts = js_counts s, jc_emitted = js_emitted s, jc_cells = wire_cells s\<rparr>"
    by (simp add: join_saved_def Let_def j_def s_def)
  have len: "length (wire_cells s) = length (js_cells s)" by (simp add: wire_cells_def)
  have sides: "read_side_list read_str (JArr (map JStr (kj_sides j))) = Inr (kj_sides j)"
    "read_side_list read_bool (JArr (map JBool (js_closed s))) = Inr (js_closed s)"
    "read_side_list read_int (JArr (map JInt (js_counts s))) = Inr (js_counts s)"
    using n st by (simp_all add: read_side_list_def read_list_strings read_list_bools read_list_ints n_def)
  show ?thesis
    using fold join_saved_ok [OF assms] st(3) unfolding v
    by (clarsimp simp: join_checkpoint_from_dict_def join_checkpoint_to_dict_def doc_fields_def doc_get_def
        lit_simps sides read_list_id len read_str_def read_int_def read_phase_name [unfolded lit_simps])
qed

end
