(* ===== verification/Multi_Graph_Laws.thy ===== *)
theory Multi_Graph_Laws
  imports Multi_Graph Join_Recovery Walk_Rules Graph_Runtime_Laws
begin

text \<open>
  The accounting of multi-source graphs: the aggregate cells, values and wire bytes are exact
  through every proposal, join transition and walk, and no transition of a walk closes a side of
  a join or reopens a closed join.
\<close>

section \<open>Sizes\<close>

definition cell_wire :: "state_key \<Rightarrow> pystr \<Rightarrow> int" where
  "cell_wire k t = multi_ordinary_bytes k (Some t)"

definition join_wire :: "pystr \<Rightarrow> join_state \<Rightarrow> int" where
  "join_wire k s = js_bytes s + int (length (js_cells s)) * join_overhead k"

definition joins_cells :: "(pystr \<rightharpoonup> join_state) \<Rightarrow> int" where
  "joins_cells m = weight (\<lambda>_ s. int (length (js_cells s))) m"

definition joins_values :: "(pystr \<rightharpoonup> join_state) \<Rightarrow> int" where
  "joins_values m = weight (\<lambda>_ s. js_values s) m"

definition joins_wire :: "(pystr \<rightharpoonup> join_state) \<Rightarrow> int" where
  "joins_wire m = weight join_wire m"

lemma multi_ordinary_bytes_weight: "multi_ordinary_bytes k x = opt_weight cell_wire k x"
  by (cases x) (simp_all add: cell_wire_def multi_ordinary_bytes_def)

lemma joins_upd:
  assumes "finite (dom m)" "m k = Some old"
  shows "joins_cells (m(k \<mapsto> new)) = joins_cells m + int (length (js_cells new)) - int (length (js_cells old))"
    and "joins_values (m(k \<mapsto> new)) = joins_values m + js_values new - js_values old"
    and "joins_wire (m(k \<mapsto> new)) = joins_wire m + js_bytes new - js_bytes old
           + (int (length (js_cells new)) - int (length (js_cells old))) * join_overhead k"
  using assms
  by (simp_all add: joins_cells_def joins_values_def joins_wire_def join_wire_def weight_upd algebra_simps del: fun_upd_apply)

lemma joins_dget:
  assumes "dict_ok d"
  shows "joins_cells (dget d) = (\<Sum>e\<leftarrow>d. int (length (js_cells (snd e))))"
    and "joins_values (dget d) = (\<Sum>e\<leftarrow>d. js_values (snd e))"
    and "joins_wire (dget d) = (\<Sum>e\<leftarrow>d. join_wire (fst e) (snd e))"
  using assms by (simp_all add: joins_cells_def joins_values_def joins_wire_def weight_dget split_def)

section \<open>A checked graph\<close>

definition multi_lim :: "multi_graph \<Rightarrow> flow_limits" where
  "multi_lim g = operator_limits (ml_graph (mg_limits g))"

definition multi_stateful :: "multi_graph \<Rightarrow> pystr set" where
  "multi_stateful g = stateful_ids (graph_steps (mg_nodes g))"

abbreviation graph_joins :: "multi_graph \<Rightarrow> (pystr, keyed_join) dict" where
  "graph_joins g \<equiv> multi_joins (mg_nodes g)"

lemma entries_Inr:
  "fold_res (entry_step nodes) ens (ss, rs) = Inr (ss', rs') \<Longrightarrow> distinct ss \<Longrightarrow> distinct rs \<Longrightarrow>
     ss' = ss @ map en_source ens \<and> rs' = rs @ map en_step ens \<and> distinct ss' \<and> distinct rs'
     \<and> list_all (\<lambda>en. is_label (en_source en)
         \<and> (\<exists>n. find (\<lambda>n. node_id n = en_step en) nodes = Some n \<and> \<not> is_join n)) ens"
proof (induction ens arbitrary: ss rs)
  case (Cons en ens)
  obtain s1 r1 where one: "entry_step nodes en (ss, rs) = Inr (s1, r1)"
    and rest: "fold_res (entry_step nodes) ens (s1, r1) = Inr (ss', rs')"
    using Cons.prems(1) by auto
  have e: "s1 = ss @ [en_source en]" "r1 = rs @ [en_step en]" "en_source en \<notin> set ss" "en_step en \<notin> set rs"
      "is_label (en_source en)" "\<exists>n. find (\<lambda>n. node_id n = en_step en) nodes = Some n \<and> \<not> is_join n"
    using one by (auto simp: entry_step_def is_join_def split: if_splits option.splits graph_node.splits)
  have "ss' = s1 @ map en_source ens \<and> rs' = r1 @ map en_step ens \<and> distinct ss' \<and> distinct rs'
     \<and> list_all (\<lambda>en. is_label (en_source en)
         \<and> (\<exists>n. find (\<lambda>n. node_id n = en_step en) nodes = Some n \<and> \<not> is_join n)) ens"
    using Cons.prems(2,3) e(1-4) by (intro Cons.IH [OF rest]) simp_all
  moreover have "ss @ en_source en # map en_source ens = s1 @ map en_source ens" "rs @ en_step en # map en_step ens = r1 @ map en_step ens"
    using e(1,2) by simp_all
  ultimately show ?case using e(5,6) by (elim conjE) (simp only: list.map list.pred_inject simp_thms)
qed simp

lemma multi_check_Inr:
  assumes "multi_check g = Inr order"
  shows "multi_limits_ok (mg_limits g)" "list_all multi_node_ok (mg_nodes g)"
    and "distinct (map node_id (mg_nodes g))"
    and "topological_order (map node_id (mg_nodes g)) (edges_into (mg_edges g)) = Inr order"
    and "list_all (\<lambda>e. multi_edge_ok e \<and> port_ok (mg_nodes g) e) (mg_edges g)" "distinct (mg_edges g)"
    and "list_all (multi_arity_ok (mg_edges g) (map en_step (mg_entries g))) (mg_nodes g)"
    and "distinct (map en_source (mg_entries g))" "distinct (map en_step (mg_entries g))"
    and "list_all (\<lambda>en. is_label (en_source en)
           \<and> (\<exists>n. find (\<lambda>n. node_id n = en_step en) (mg_nodes g) = Some n \<and> \<not> is_join n)) (mg_entries g)"
    and "1 \<le> length (mg_entries g)" "length (mg_entries g) \<le> 16" "length (filter is_join (mg_nodes g)) \<le> 16"
    and "length (mg_edges g) \<le> 256"
proof -
  obtain ss rs where e: "fold_res (entry_step (mg_nodes g)) (mg_entries g) ([], []) = Inr (ss, rs)"
    using assms by (auto simp: multi_check_def Let_def split: if_splits)
  have r: "ss = map en_source (mg_entries g) \<and> rs = map en_step (mg_entries g) \<and> distinct ss \<and> distinct rs
      \<and> list_all (\<lambda>en. is_label (en_source en)
         \<and> (\<exists>n. find (\<lambda>n. node_id n = en_step en) (mg_nodes g) = Some n \<and> \<not> is_join n)) (mg_entries g)"
    by (rule entries_Inr [OF e, unfolded append_Nil distinct.simps, OF TrueI TrueI])
  show "distinct (map en_source (mg_entries g))" using r by (elim conjE) (simp only:)
  show "distinct (map en_step (mg_entries g))" using r by (elim conjE) (simp only:)
  show "list_all (\<lambda>en. is_label (en_source en)
           \<and> (\<exists>n. find (\<lambda>n. node_id n = en_step en) (mg_nodes g) = Some n \<and> \<not> is_join n)) (mg_entries g)"
    using r by simp
qed (use assms in \<open>auto simp: multi_check_def Let_def not_less split: if_splits dest!: entries_Inr\<close>)

lemma multi_joins_in: "(k, j) \<in> set (multi_joins nodes) \<longleftrightarrow> GOther k j \<in> set nodes"
  by (force simp: multi_joins_def split: graph_node.splits)

lemma multi_joins_ids: "map fst (multi_joins nodes) = map node_id (filter is_join nodes)"
  by (induction nodes) (auto simp: multi_joins_def is_join_def split: graph_node.splits)

lemma multi_joins_dict: "distinct (map node_id nodes) \<Longrightarrow> dict_ok (multi_joins nodes)"
  by (simp add: dict_ok_def multi_joins_ids distinct_map_filter)

lemma checked_join:
  assumes "multi_check g = Inr order" "dget (graph_joins g) k = Some j"
  shows "keyed_join_ok j \<and> kj_id j = k \<and> is_label k \<and> GOther k j \<in> set (mg_nodes g)"
proof -
  have i: "GOther k j \<in> set (mg_nodes g)" using map_of_SomeD [OF assms(2)] by (simp add: multi_joins_in)
  then have "multi_node_ok (GOther k j)" using multi_check_Inr(2) [OF assms(1)] unfolding list_all_iff by blast
  then show ?thesis using i by (simp add: flow_join_ok_def)
qed

lemma checked_multi_step:
  assumes "multi_check g = Inr order" "node_of (mg_nodes g) k = GStep s"
  shows "flow_step_ok s \<and> (is_stateful (step_op s) \<longrightarrow> step_id s \<in> multi_stateful g)"
proof -
  have i: "GStep s \<in> set (mg_nodes g)" using assms(2) by (rule node_of_in)
  then have "multi_node_ok (GStep s)" using multi_check_Inr(2) [OF assms(1)] unfolding list_all_iff by blast
  then show ?thesis using i by (force simp: multi_stateful_def stateful_ids_def graph_steps_def)
qed

lemma checked_lim: "multi_check g = Inr order \<Longrightarrow> flow_limits_ok (multi_lim g)"
  using multi_check_Inr(1) [of g order] by (simp add: multi_lim_def multi_limits_ok_def graph_limits_ok_def)

section \<open>The joins of a state\<close>

text \<open>A join inside a graph is in a state that a \<open>KeyedJoinRuntime\<close> of its own can reach.\<close>

inductive join_reach :: "keyed_join \<Rightarrow> join_state \<Rightarrow> bool" for j where
  reach_new: "join_reach j (empty_join_state j)"
| reach_step: "join_reach j s \<Longrightarrow> join_op_ok op \<Longrightarrow> join_stage j op s = Inr (t, b) \<Longrightarrow> join_reach j t"

definition join_good :: "keyed_join \<Rightarrow> join_state \<Rightarrow> bool" where
  "join_good j s \<longleftrightarrow> join_state_ok j s \<and> join_counts_inv j s \<and> join_reach j s"

lemma join_reach_process:
  assumes "join_reach j s" "stage_process j admit s side r h = Inr (t, b, h')" "record_ok r"
  shows "join_reach j t"
proof -
  have "stage_process j no_admit s side r () = Inr (t, b, ())"
  proof -
    obtain counts k c where "propose_cell j s side r = Inr (counts, k, c)"
      using assms(2) unfolding stage_process_def rbind_eq_Inr by (metis prod_cases3)
    with assms(2) show ?thesis by (simp add: stage_process_def Let_def no_admit_def split: if_splits)
  qed
  with assms show ?thesis by (intro reach_step [of j s "JProcess side r" t b]) (simp_all add: join_stage_def join_op_ok_def)
qed

lemma join_reach_drain:
  assumes "join_reach j s" "stage_drain j admit s n h = Inr (t, b, h')"
  shows "join_reach j t"
proof -
  have "stage_drain j no_admit s n () = Inr (t, b, ())"
    using assms(2) by (auto simp: stage_drain_def Let_def no_admit_def split: if_splits)
  with assms show ?thesis by (intro reach_step [of j s "JDrain n" t b]) (simp_all add: join_stage_def join_op_ok_def)
qed

lemma join_reach_close: "join_reach j s \<Longrightarrow> stage_close j s side = Inr (t, b) \<Longrightarrow> join_reach j t"
  by (rule reach_step [of j s "JClose side" t b]) (simp_all add: join_stage_def join_op_ok_def)

definition joins_ok :: "multi_graph \<Rightarrow> (pystr, join_state) dict \<Rightarrow> bool" where
  "joins_ok g joins \<longleftrightarrow> map fst joins = map fst (graph_joins g)
     \<and> (\<forall>k j s. dget (graph_joins g) k = Some j \<longrightarrow> dget joins k = Some s \<longrightarrow> join_good j s)"

text \<open>
  From one state of a join to a later one: an operation leaves the closed sides as they are and
  closed joins closed, until the ends are propagated; the walk touches open joins only.
\<close>

definition held :: "join_state \<Rightarrow> join_state \<Rightarrow> bool" where
  "held s t \<longleftrightarrow> js_closed t = js_closed s \<and> (js_phase s = JClosed \<longrightarrow> js_phase t = JClosed)"

definition walked :: "join_state \<Rightarrow> join_state \<Rightarrow> bool" where
  "walked s t \<longleftrightarrow> js_closed t = js_closed s \<and> js_phase t = js_phase s \<and> (js_phase s \<noteq> JOpen \<longrightarrow> t = s)"

definition joins_held :: "(pystr, join_state) dict \<Rightarrow> (pystr, join_state) dict \<Rightarrow> bool" where
  "joins_held a b \<longleftrightarrow> (\<forall>k s. dget a k = Some s \<longrightarrow> (\<exists>t. dget b k = Some t \<and> held s t))"

definition joins_walked :: "(pystr, join_state) dict \<Rightarrow> (pystr, join_state) dict \<Rightarrow> bool" where
  "joins_walked a b \<longleftrightarrow> (\<forall>k s. dget a k = Some s \<longrightarrow> (\<exists>t. dget b k = Some t \<and> walked s t))"

lemma joins_walked_refl [simp]: "joins_walked a a"
  by (simp add: joins_walked_def walked_def)

lemma joins_held_refl [simp]: "joins_held a a"
  by (simp add: joins_held_def held_def)

lemma walked_trans: "walked s t \<Longrightarrow> walked t u \<Longrightarrow> walked s u"
  by (auto simp: walked_def)

lemma joins_walked_put: "joins_walked a b \<Longrightarrow> dget b k = Some s \<Longrightarrow> walked s t \<Longrightarrow> joins_walked a (dput k t b)"
  unfolding joins_walked_def dget_dput fun_upd_apply by (metis walked_trans option.inject)

lemma joins_held_put: "joins_held a b \<Longrightarrow> dget b k = Some s \<Longrightarrow> held s t \<Longrightarrow> joins_held a (dput k t b)"
  unfolding joins_held_def dget_dput fun_upd_apply held_def by (metis option.inject)

lemma joins_held_walked: "joins_held a b \<Longrightarrow> joins_walked b c \<Longrightarrow> joins_held a c"
  unfolding joins_held_def joins_walked_def held_def walked_def by metis

lemma joins_ok_dict: "multi_check g = Inr order \<Longrightarrow> joins_ok g joins \<Longrightarrow> dict_ok joins"
  using multi_joins_dict [OF multi_check_Inr(3)] by (simp add: joins_ok_def dict_ok_def)

lemma joins_ok_None: "joins_ok g joins \<Longrightarrow> dget joins k = None \<longleftrightarrow> dget (graph_joins g) k = None"
  unfolding dget_None_iff joins_ok_def by simp

lemma joins_ok_at: "joins_ok g joins \<Longrightarrow> dget joins k = Some s \<Longrightarrow> \<exists>j. dget (graph_joins g) k = Some j \<and> join_good j s"
  using joins_ok_None [of g joins k] by (cases "dget (graph_joins g) k") (auto simp: joins_ok_def)

lemma joins_ok_some: "joins_ok g joins \<Longrightarrow> dget (graph_joins g) k = Some j \<Longrightarrow> \<exists>s. dget joins k = Some s \<and> join_good j s"
  using joins_ok_None [of g joins k] by (cases "dget joins k") (auto simp: joins_ok_def)

lemma joins_ok_put:
  assumes "joins_ok g joins" "dget joins k = Some old" "dget (graph_joins g) k = Some j" "join_good j new"
  shows "joins_ok g (dput k new joins)"
proof -
  have "k \<in> set (dkeys joins)" using assms(2) dget_None_iff [of joins k] by auto
  then have "dkeys (dput k new joins) = dkeys joins" by (simp only: dkeys_dput if_True)
  then show ?thesis using assms by (auto simp: joins_ok_def)
qed

section \<open>Metering\<close>

text \<open>What is reserved is what is owed on the edges out of joins; the work stays within the limit.\<close>

definition owed_ok :: "multi_graph \<Rightarrow> multi_hook \<Rightarrow> bool" where
  "owed_ok g h \<longleftrightarrow> dict_ok (mh_pending h) \<and> (\<forall>e\<in>set (mh_pending h). 0 \<le> fst (snd e))
     \<and> mh_reserved_records h = (\<Sum>e\<leftarrow>mh_pending h. fst (snd e))
     \<and> mh_records h \<le> max_work_records (ml_graph (mg_limits g))"

lemma owed_nonneg: "owed_ok g h \<Longrightarrow> 0 \<le> mh_reserved_records h"
  by (auto simp: owed_ok_def intro!: sum_list_nonneg)

lemma owed_charge:
  assumes "owed_ok g h" "multi_charge (ml_graph (mg_limits g)) r h = Inr h'"
  shows "owed_ok g h'"
  using assms owed_nonneg [OF assms(1)] by (auto simp: owed_ok_def multi_charge_def multi_ensure_def split: if_splits)

lemma owed_put:
  assumes "dict_ok d" "\<forall>e\<in>set d. 0 \<le> fst (snd e)" "0 \<le> rows"
  shows "dict_ok (owe rows bytes e d) \<and> (\<forall>e\<in>set (owe rows bytes e d). 0 \<le> fst (snd e))
    \<and> (\<Sum>x\<leftarrow>owe rows bytes e d. fst (snd x)) = (\<Sum>x\<leftarrow>d. fst (snd x)) + rows"
proof (cases "dget d e")
  case None
  then have "e \<notin> set (dkeys d)" by (simp add: dget_None_iff)
  with None assms show ?thesis by (auto simp: owe_def dput_new dict_ok_def)
next
  case (Some p)
  obtain n b where p: "p = (n, b)" by (cases p)
  have "(e, n, b) \<in> set d" using map_of_SomeD [OF Some] p by simp
  then have "0 \<le> n" using assms(2) by force
  moreover have "(\<Sum>x\<leftarrow>dput e (n + rows, b + bytes) d. fst (snd x)) = (\<Sum>x\<leftarrow>d. fst (snd x)) + rows"
    using Some unfolding p by (induction d) (auto split: if_splits)
  ultimately show ?thesis
    using Some p assms set_dput [OF assms(1), of e "(n + rows, b + bytes)"] by (auto simp: owe_def)
qed

lemma owed_puts:
  assumes "dict_ok d" "\<forall>e\<in>set d. 0 \<le> fst (snd e)" "0 \<le> rows"
  shows "dict_ok (fold (owe rows bytes) es d) \<and> (\<forall>e\<in>set (fold (owe rows bytes) es d). 0 \<le> fst (snd e))
    \<and> (\<Sum>x\<leftarrow>fold (owe rows bytes) es d. fst (snd x)) = (\<Sum>x\<leftarrow>d. fst (snd x)) + rows * int (length es)"
  using assms(1,2)
proof (induction es arbitrary: d)
  case (Cons e es)
  note one = owed_put [OF Cons.prems assms(3), of bytes e]
  show ?case using Cons.IH [of "owe rows bytes e d"] one by (simp add: algebra_simps)
qed simp

lemma owed_pop:
  fixes d :: "(multi_edge, int \<times> int) dict"
  assumes "dict_ok d" "\<forall>e\<in>set d. 0 \<le> fst (snd e)"
  shows "dict_ok (ddel e d) \<and> (\<forall>e\<in>set (ddel e d). 0 \<le> fst (snd e))
    \<and> (\<Sum>x\<leftarrow>ddel e d. fst (snd x)) = (\<Sum>x\<leftarrow>d. fst (snd x)) - (case dget d e of None \<Rightarrow> 0 | Some p \<Rightarrow> fst p)"
proof -
  have "(\<Sum>x\<leftarrow>ddel e d. fst (snd x)) = (\<Sum>x\<leftarrow>d. fst (snd x)) - (case dget d e of None \<Rightarrow> 0 | Some p \<Rightarrow> fst p)"
    using assms(1)
  proof (induction d)
    case (Cons x d)
    obtain k p where x: "x = (k, p)" by (cases x)
    have d: "dict_ok d" and k: "k \<notin> set (dkeys d)" using Cons.prems by (simp_all add: dict_ok_def x)
    show ?case
    proof (cases "k = e")
      case True
      then have "ddel e d = d" using k ddel_not_in by metis
      then have "ddel e (x # d) = d" using x True by (simp add: ddel_def)
      then show ?thesis using x True by simp
    next
      case False
      then have "ddel e (x # d) = x # ddel e d" using x by (simp add: ddel_def)
      then show ?thesis using Cons.IH [OF d] x False by simp
    qed
  qed (simp add: ddel_def)
  then show ?thesis using assms by (auto simp: ddel_def)
qed

fun multi_metered :: "multi_graph \<Rightarrow> pystr list \<Rightarrow> (state_key, pystr) dict \<Rightarrow> (pystr, join_state) dict
    \<Rightarrow> flow_tx \<times> multi_hook \<Rightarrow> bool" where
  "multi_metered g order base before (tx, h) \<longleftrightarrow>
     multi_check g = Inr order \<and> tx_ok (multi_lim g) (multi_stateful g) base tx
     \<and> joins_ok g (mh_joins h) \<and> joins_walked before (mh_joins h)
     \<and> mh_cells h = key_total (previous_state base tx) + joins_cells (dget (mh_joins h))
     \<and> mh_values h = joins_values (dget (mh_joins h))
     \<and> mh_bytes h = weight cell_wire (previous_state base tx) + joins_wire (dget (mh_joins h))
     \<and> mh_cells h \<le> ml_cells (mg_limits g) \<and> mh_values h \<le> ml_values (mg_limits g) \<and> mh_bytes h \<le> ml_bytes (mg_limits g)
     \<and> length (mh_edges h) = length (mg_edges g) \<and> (\<forall>n\<in>set (mh_edges h). 0 \<le> n \<and> n \<le> MAX_COUNT)
     \<and> owed_ok g h"

lemma retention_Inr: "retention l h = Inr h' \<longleftrightarrow> h' = h \<and> mh_cells h \<le> ml_cells l \<and> mh_values h \<le> ml_values l \<and> mh_bytes h \<le> ml_bytes l"
  by (auto simp: retention_def)

lemma multi_call: "multi_metered g order base j0 (tx, h) \<Longrightarrow> invoke lim f args tx = Inr (v, tx') \<Longrightarrow> multi_metered g order base j0 (tx', h)"
  using invoke_effect [of lim f args tx v tx'] view_cong [of tx' tx base]
  by (auto intro: tx_ok_cong)

lemma multi_charge_Inr: "multi_charge gl r h = Inr h' \<Longrightarrow> \<exists>n b. h' = h\<lparr>mh_records := n, mh_work := b\<rparr>"
  by (auto simp: multi_charge_def split: if_splits)

lemma multi_charged:
  assumes "multi_metered g order base j0 (tx, h)" "multi_charge (ml_graph (mg_limits g)) r h = Inr h'"
  shows "multi_metered g order base j0 (tx, h')"
proof -
  have "owed_ok g h'" using owed_charge [OF _ assms(2)] assms(1) by simp
  then show ?thesis using assms by (auto dest!: multi_charge_Inr)
qed

lemma multi_rebase: "multi_metered g order base j0 (tx, h) \<Longrightarrow> multi_metered g order base (mh_joins h) (tx, h)"
  by simp

lemma multi_proposed:
  assumes m: "multi_metered g order base j0 (tx, h)" and k: "fst k \<in> multi_stateful g" "is_label (fst k)" "is_label (snd k)"
    and pr: "propose (multi_lim g) hk k (previous_state base tx k) st retain (tx, h) = Inr (tx', h')"
    and hk: "on_propose hk = multi_propose (mg_limits g)"
  shows "multi_metered g order base j0 (tx', h')"
proof -
  obtain x where pend: "tx_pending tx' = dput k x (tx_pending tx)"
    and on: "multi_propose (mg_limits g) k (previous_state base tx k) x h = Inr h'"
    using propose_effect [OF pr] unfolding hk by blast
  have v: "previous_state base tx' = (previous_state base tx)(k := x)" by (rule view_put) (rule pend)
  have ok: "tx_ok (multi_lim g) (multi_stateful g) base tx'" using propose_ok [OF _ k pr] m by simp
  have ow: "owed_ok g h'" using on m by (auto simp: multi_propose_def retention_Inr owed_ok_def)
  have h': "h' = h\<lparr>mh_cells := mh_cells h + opt_one x - opt_one (previous_state base tx k),
      mh_bytes := mh_bytes h + opt_weight cell_wire k x - opt_weight cell_wire k (previous_state base tx k)\<rparr>"
    and l: "mh_cells h' \<le> ml_cells (mg_limits g)" "mh_values h' \<le> ml_values (mg_limits g)" "mh_bytes h' \<le> ml_bytes (mg_limits g)"
    using on by (auto simp: multi_propose_def retention_Inr multi_ordinary_bytes_weight opt_one_def)
  have "key_total (previous_state base tx') = key_total (previous_state base tx) + (opt_one x - opt_one (previous_state base tx k))"
    unfolding v by (rule key_total_upd) (rule finite_view)
  moreover have "weight cell_wire (previous_state base tx') = weight cell_wire (previous_state base tx)
      - opt_weight cell_wire k (previous_state base tx k) + opt_weight cell_wire k x"
    unfolding v by (rule weight_upd) (rule finite_view)
  ultimately show ?thesis using m ok h' l ow by simp
qed

lemma multi_delivered_Inr:
  "multi_delivered g e n h = Inr h' \<Longrightarrow> \<exists>m. 0 \<le> m \<and> m \<le> MAX_COUNT \<and> m = mh_edges h ! edge_place e (mg_edges g) + int n
     \<and> mh_edges h' = (mh_edges h)[edge_place e (mg_edges g) := m] \<and> mh_joins h' = mh_joins h
     \<and> mh_cells h' = mh_cells h \<and> mh_values h' = mh_values h \<and> mh_bytes h' = mh_bytes h"
  by (auto simp: multi_delivered_def Let_def split: prod.splits)

lemma multi_delivery:
  assumes "multi_metered g order base j0 (tx, h)" "multi_delivered g e n h = Inr h'"
  shows "multi_metered g order base j0 (tx, h')"
proof -
  obtain m where m: "0 \<le> m" "m \<le> MAX_COUNT" "mh_edges h' = (mh_edges h)[edge_place e (mg_edges g) := m]"
    and same: "mh_joins h' = mh_joins h" "mh_cells h' = mh_cells h" "mh_values h' = mh_values h" "mh_bytes h' = mh_bytes h"
    using multi_delivered_Inr [OF assms(2)] by blast
  have "owed_ok g h'"
    using assms owed_pop [of "mh_pending h" e]
    by (auto simp: multi_delivered_def Let_def owed_ok_def split: option.splits prod.splits)
  moreover have "\<forall>n\<in>set (mh_edges h'). 0 \<le> n \<and> n \<le> MAX_COUNT"
    using assms(1) m by (auto dest!: set_update_subset_insert [THEN subsetD])
  ultimately show ?thesis using assms(1) m same by simp
qed

section \<open>Join transitions\<close>

lemma join_admit_Inr:
  assumes "join_admit g k after rows bytes h = Inr h'" "dget (mh_joins h) k = Some old"
  shows "mh_joins h' = mh_joins h \<and> mh_edges h' = mh_edges h
    \<and> mh_cells h' = mh_cells h + (int (length (js_cells after)) - int (length (js_cells old)))
    \<and> mh_values h' = mh_values h + js_values after - js_values old
    \<and> mh_bytes h' = mh_bytes h + js_bytes after - js_bytes old
        + (int (length (js_cells after)) - int (length (js_cells old))) * join_overhead k
    \<and> mh_cells h' \<le> ml_cells (mg_limits g) \<and> mh_values h' \<le> ml_values (mg_limits g) \<and> mh_bytes h' \<le> ml_bytes (mg_limits g)"
  using assms by (auto simp: join_admit_def dict_at_def Let_def retention_Inr)

lemma join_admit_owed:
  assumes "join_admit g k after rows bytes h = Inr h'" "owed_ok g h" "0 \<le> rows"
  shows "owed_ok g h'"
  using assms owed_puts [of "mh_pending h" rows bytes "edges_from (mg_edges g) k"]
  by (auto simp: join_admit_def Let_def retention_Inr owed_ok_def)

text \<open>The rows of a transition are charged after its new state was admitted.\<close>

lemma multi_moved:
  assumes m: "multi_metered g order base j0 (tx, h)" and old: "dget (mh_joins h) k = Some old"
    and j: "dget (graph_joins g) k = Some j" and ok: "join_good j after" and held: "joins_walked j0 (dput k after (mh_joins h))"
    and a: "join_admit g k after rows bytes h = Inr h1" and e: "\<exists>n b. h2 = h1\<lparr>mh_records := n, mh_work := b\<rparr>"
    and rows: "0 \<le> rows" and ow: "owed_ok g h1 \<Longrightarrow> owed_ok g h2"
  shows "multi_metered g order base j0 (tx, h2\<lparr>mh_joins := dput k after (mh_joins h2)\<rparr>)"
proof -
  have fin: "finite (dom (dget (mh_joins h)))" by (simp add: finite_dom_map_of)
  have h1: "mh_joins h1 = mh_joins h" using join_admit_Inr [OF a old] by blast
  have put: "joins_ok g (dput k after (mh_joins h))" using joins_ok_put [OF _ old j ok] m by simp
  have "owed_ok g h2" using ow join_admit_owed [OF a _ rows] m by simp
  then have "owed_ok g (h2\<lparr>mh_joins := dput k after (mh_joins h2)\<rparr>)" by (simp add: owed_ok_def)
  then show ?thesis
    using m e put held h1 join_admit_Inr [OF a old] joins_upd [OF fin old, of after] by auto
qed

lemma stage_process_good:
  assumes p: "stage_process j admit s side r h = Inr (s', b, h')" and j: "keyed_join_ok j" and ok: "join_good j s" and r: "record_ok r"
  shows "join_good j s' \<and> walked s s' \<and> js_phase s = JOpen"
proof -
  have inv: "join_state_ok j s" and ci: "join_counts_inv j s" using ok by (simp_all add: join_good_def)
  have d: "dict_ok (js_cells s)" using inv by (simp add: join_state_ok_def Let_def)
  obtain counts k c where c: "propose_cell j s side r = Inr (counts, k, c)" "s' = state_after j s counts k c"
    using stage_process_Inr [OF p d] by blast
  then have "js_phase s = JOpen" using propose_cell_Inr by blast
  then show ?thesis
    using stage_process_ok [OF j inv p] join_counts_process [OF j inv ci p] join_reach_process [OF _ p r] ok
    by (simp add: join_good_def walked_def c(2) state_after_def)
qed

lemma emit_rows:
  "fold_res (emit_row (ml_graph (mg_limits g))) rows (out, h) = Inr (out', h') \<Longrightarrow> list_all record_ok out \<Longrightarrow>
     list_all record_ok out' \<and> (\<exists>n b. h' = h\<lparr>mh_records := n, mh_work := b\<rparr>)
     \<and> mh_records h' = mh_records h + int (length rows) \<and> length out' = length out + length rows
     \<and> (owed_ok g h \<longrightarrow> owed_ok g h')"
proof (induction rows arbitrary: out h)
  case Nil
  then have eq: "out' = out" "h' = h" by simp_all
  have "\<exists>n b. h = h\<lparr>mh_records := n, mh_work := b\<rparr>"
    by (intro exI [of _ "mh_records h"] exI [of _ "mh_work h"]) simp
  then show ?case using Nil.prems(2) by (simp add: eq)
next
  case (Cons row rows)
  define gl where "gl = ml_graph (mg_limits g)"
  obtain z where one: "emit_row gl row (out, h) = Inr z" and f: "fold_res (emit_row gl) rows z = Inr (out', h')"
    using Cons.prems(1) by (auto simp: gl_def)
  obtain r h1 where r: "row_to_record row = Inr r" "multi_charge gl r h = Inr h1" and z: "z = (out @ [r], h1)"
    using one by (auto simp: emit_row_def)
  have rest: "fold_res (emit_row gl) rows (out @ [r], h1) = Inr (out', h')" using f by (simp only: z)
  have "record_ok r" using r(1) make_record_ok by (auto simp: row_to_record_def)
  then have IH: "list_all record_ok out' \<and> (\<exists>n b. h' = h1\<lparr>mh_records := n, mh_work := b\<rparr>)
      \<and> mh_records h' = mh_records h1 + int (length rows) \<and> length out' = length (out @ [r]) + length rows
      \<and> (owed_ok g h1 \<longrightarrow> owed_ok g h')"
    using Cons.prems(2) by (intro Cons.IH [OF rest [unfolded gl_def]]) simp
  have "mh_records h1 = mh_records h + 1" using r(2) by (auto simp: multi_charge_def split: if_splits)
  moreover have "owed_ok g h \<longrightarrow> owed_ok g h1" using owed_charge r(2) unfolding gl_def by blast
  moreover have "\<exists>n b. h' = h\<lparr>mh_records := n, mh_work := b\<rparr>" using IH multi_charge_Inr [OF r(2)] by fastforce
  ultimately show ?case using IH by auto
qed

lemma join_item_ok:
  assumes m: "multi_metered g order base j0 (tx, h)" and j: "join_at g k = Inr j" and out: "list_all record_ok out" and rec: "record_ok r"
    and r: "join_item g k j side r (out, h) = Inr (out', h')"
  shows "multi_metered g order base j0 (tx, h') \<and> list_all record_ok out'"
proof -
  obtain before after batch h1 h2 where old: "dget (mh_joins h) k = Some before"
    and p: "stage_process j (join_admit g k) before side r h = Inr (after, batch, h1)"
    and e: "fold_res (emit_row (ml_graph (mg_limits g))) (jb_rows batch) (out, h1) = Inr (out', h2)"
    and h': "h' = h2\<lparr>mh_joins := dput k after (mh_joins h2)\<rparr>"
    using r by (auto simp: join_item_def dict_at_def split: option.splits)
  have c: "multi_check g = Inr order" using m by simp
  have jd: "dget (graph_joins g) k = Some j" using j by (auto simp: join_at_def dict_at_def split: option.splits)
  have jo: "keyed_join_ok j" using checked_join [OF c jd] by blast
  have ok: "join_good j before" using m old jd by (auto simp: joins_ok_def)
  have d: "dict_ok (js_cells before)" using ok by (simp add: join_good_def join_state_ok_def Let_def)
  obtain counts k' c where pc: "propose_cell j before side r = Inr (counts, k', c)"
    and a: "join_admit g k after (if emits j c then ce_rows c else 0) (if emits j c then ce_output c else 0) h = Inr h1"
    using stage_process_Inr [OF p d] by blast
  have bo: "join_state_ok j before" using ok by (simp add: join_good_def)
  have "1 \<le> ce_rows c" using arrival [OF jo bo pc] by blast
  then have rows: "0 \<le> (if emits j c then ce_rows c else 0)" by simp
  note er = emit_rows [OF e out]
  note good = stage_process_good [OF p jo ok rec]
  have "joins_walked j0 (dput k after (mh_joins h))"
    using joins_walked_put [OF _ old] good m by simp
  then have "multi_metered g order base j0 (tx, h')"
    unfolding h' using er good rows by (intro multi_moved [OF m old jd _ _ a]) blast+
  then show ?thesis using er by blast
qed

lemma joined_ok:
  assumes m: "multi_metered g order base j0 (tx, h)" and r: "joined g k batches (tx, h) = Inr (out, tx', h')" and mail: "mail_ok batches"
  shows "multi_metered g order base j0 (tx', h') \<and> list_all record_ok out"
proof -
  define P where "P = (\<lambda>s :: flow_record list \<times> multi_hook. multi_metered g order base j0 (tx, snd s) \<and> list_all record_ok (fst s))"
  have f: "fold_res (join_batch_items g k) batches ([], h) = Inr (out, h')" and tx: "tx' = tx"
    using r by (auto simp: joined_def)
  have "P (out, h')"
    using f
  proof (rule fold_res_invariant)
    show "P ([], h)" using m by (simp add: P_def)
    fix eb s s' assume eb: "eb \<in> set batches" and P: "P s" and b: "join_batch_items g k eb s = Inr s'"
    obtain side where side: "fold_res (\<lambda>r s. rbind (join_at g k) (\<lambda>j. join_item g k j side r s)) (snd eb) s = Inr s'"
      using b by (auto simp: join_batch_items_def split: option.splits)
    then show "P s'"
    proof (rule fold_res_invariant)
      show "P s" by (rule P)
      show "P t'" if "r \<in> set (snd eb)" "P t" "rbind (join_at g k) (\<lambda>j. join_item g k j side r t) = Inr t'" for r t t'
      proof -
        have "record_ok r" using that(1) eb mail by (force simp: mail_ok_def list_all_iff)
        then show ?thesis
          using that(2,3) join_item_ok [of g order base j0 tx "snd t" k _ "fst t" r side "fst t'" "snd t'"]
          by (auto simp: P_def simp del: multi_metered.simps)
      qed
    qed
  qed
  then show ?thesis using tx by (simp add: P_def)
qed

section \<open>The walk\<close>

definition seeds_ok :: "(pystr, flow_record list) dict \<Rightarrow> bool" where
  "seeds_ok d \<longleftrightarrow> list_all (\<lambda>(_, rs). list_all record_ok rs) d"

interpretation multi: walk_invariant "multi_walk g base seeds outputs" "multi_stateful g"
  "\<lambda>tx h. seeds_ok seeds \<and> seeds_ok outputs \<and> multi_metered g order base j0 (tx, h)" for g base seeds outputs order j0
proof
  fix tx h
  assume q: "seeds_ok seeds \<and> seeds_ok outputs \<and> multi_metered g order base j0 (tx, h)"
  then have c: "multi_check g = Inr order" by simp
  have "list_all record_ok rs" if "dget d k = Some rs" "seeds_ok d" for d k rs
    using map_of_SomeD [OF that(1)] that(2) by (force simp: seeds_ok_def list_all_iff)
  then show "walk_nodes_ok (multi_walk g base seeds outputs) (multi_stateful g)"
    using checked_multi_step [OF c] checked_lim [OF c] q by (auto simp: walk_nodes_ok_def multi_walk_def multi_lim_def)
qed (auto simp: multi_walk_def multi_lim_def [symmetric] simp del: multi_metered.simps
    intro: multi_call multi_charged multi_proposed multi_delivery dest: joined_ok)

end
