(* ===== verification/Multi_Ends.thy ===== *)
theory Multi_Ends
  imports Multi_Graph_Laws
begin

text \<open>
  The end of a source in a multi-source graph: which nodes can produce no more, as a relation
  over the declaration, and that the propagation pass closes exactly the sides of the joins whose
  producers have ended.
\<close>

section \<open>Nodes that have ended\<close>

inductive ended :: "multi_graph \<Rightarrow> bool list \<Rightarrow> (pystr, join_state) dict \<Rightarrow> pystr \<Rightarrow> bool"
  for g :: multi_graph and closed :: "bool list" and joins :: "(pystr, join_state) dict" where
  ended_root: "root_index g k = Some i \<Longrightarrow> closed ! i \<Longrightarrow> ended g closed joins k"
| ended_join: "root_index g k = None \<Longrightarrow> dget joins k = Some s \<Longrightarrow> js_phase s = JClosed \<Longrightarrow> ended g closed joins k"
| ended_through: "root_index g k = None \<Longrightarrow> dget joins k = None
    \<Longrightarrow> (\<And>e. e \<in> set (edges_into (mg_edges g) k) \<Longrightarrow> ended g closed joins (edge_source e)) \<Longrightarrow> ended g closed joins k"

inductive_simps ended_iff: "ended g closed joins k"

lemma ended_mono:
  assumes "ended g closed joins k"
    and "\<And>i k. root_index g k = Some i \<Longrightarrow> closed ! i \<Longrightarrow> closed' ! i"
    and "\<And>k s. dget joins k = Some s \<Longrightarrow> js_phase s = JClosed \<Longrightarrow> \<exists>t. dget joins' k = Some t \<and> js_phase t = JClosed"
    and "\<And>k. dget joins k = None \<Longrightarrow> dget joins' k = None"
  shows "ended g closed' joins' k"
  using assms(1)
proof (induction rule: ended.induct)
  case (ended_root k i)
  then show ?case using assms(2) by (blast intro: ended.ended_root)
next
  case (ended_join k s)
  then show ?case using assms(3) by (blast intro: ended.ended_join)
next
  case (ended_through k)
  then show ?case using assms(4) by (blast intro: ended.ended_through)
qed

lemma root_index_bound:
  assumes "root_index g k = Some i"
  shows "i < length (mg_entries g)"
proof -
  have "length (takeWhile (\<lambda>en. en_step en \<noteq> k) ens) < length ens" if "k \<in> set (map en_step ens)" for ens
    using that by (induction ens) auto
  with assms show ?thesis by (auto simp: root_index_def split: if_splits)
qed

text \<open>Only the joins of a part that is closed under sources matter to the nodes of the part.\<close>

lemma ended_part:
  assumes "ended g closed joins k" "k \<in> D"
    and "\<And>k e. k \<in> D \<Longrightarrow> e \<in> set (edges_into (mg_edges g) k) \<Longrightarrow> edge_source e \<in> D"
    and "\<And>k. k \<in> D \<Longrightarrow> dget joins' k = dget joins k"
  shows "ended g closed joins' k"
  using assms(1,2)
proof (induction rule: ended.induct)
  case (ended_root k i)
  then show ?case by (blast intro: ended.ended_root)
next
  case (ended_join k s)
  then show ?case using assms(4) by (metis ended.ended_join)
next
  case (ended_through k)
  have "\<And>e. e \<in> set (edges_into (mg_edges g) k) \<Longrightarrow> ended g closed joins' (edge_source e)"
    using ended_through.IH assms(3) [OF ended_through.prems] by blast
  then show ?case using assms(4) [OF ended_through.prems] ended_through.hyps by (metis ended.ended_through)
qed

text \<open>The sides of a join are closed exactly when their producers have ended.\<close>

definition sides_match :: "multi_graph \<Rightarrow> bool list \<Rightarrow> (pystr, join_state) dict \<Rightarrow> pystr \<Rightarrow> bool" where
  "sides_match g closed joins k \<longleftrightarrow>
     (\<forall>j s e side i. dget (graph_joins g) k = Some j \<longrightarrow> dget joins k = Some s \<longrightarrow>
        e \<in> set (edges_into (mg_edges g) k) \<longrightarrow> edge_side e = Some side \<longrightarrow> side_index (kj_sides j) side = Inr i \<longrightarrow>
        js_closed s ! i = ended g closed joins (edge_source e))"

definition ends_match :: "multi_graph \<Rightarrow> bool list \<Rightarrow> (pystr, join_state) dict \<Rightarrow> bool" where
  "ends_match g closed joins \<longleftrightarrow> (\<forall>k. sides_match g closed joins k)"

section \<open>Closing the sides of one join\<close>

lemma stage_close_effect:
  assumes "stage_close j s side = Inr (s', b)" "join_state_ok j s"
  shows "\<exists>i. side_index (kj_sides j) side = Inr i \<and> js_closed s' = (js_closed s)[i := True]
    \<and> (js_phase s = JClosed \<longrightarrow> js_phase s' = JClosed) \<and> js_counts s' = js_counts s \<and> js_emitted s' = js_emitted s \<and> set (js_cells s') \<subseteq> set (js_cells s)"
proof -
  obtain i where i: "side_index (kj_sides j) side = Inr i" using assms(1) by (auto simp: stage_close_def)
  have il: "i < length (js_closed s)" using side_index_Inr [OF i] assms(2) by (simp add: join_state_ok_def Let_def)
  show ?thesis
  proof (cases "js_closed s ! i")
    case True
    then have "(js_closed s)[i := True] = js_closed s" by (metis list_update_id)
    with True assms(1) i show ?thesis by (auto simp: stage_close_def)
  next
    case False
    then have "\<not> list_all id (js_closed s)" using il by (auto simp: list_all_length)
    then have "js_phase s \<noteq> JClosed" using assms(2) by (simp add: join_state_ok_def Let_def)
    with False assms(1) i show ?thesis by (auto simp: stage_close_def Let_def split: if_splits)
  qed
qed

lemma dict_at_Inr [simp]: "dict_at d k = Inr v \<longleftrightarrow> dget d k = Some v"
  by (auto simp: dict_at_def split: option.splits)

text \<open>The closed sides after the end of the producer of an edge was looked at.\<close>

definition closed_by :: "keyed_join \<Rightarrow> (pystr, bool) dict \<Rightarrow> multi_edge \<Rightarrow> bool list \<Rightarrow> bool list" where
  "closed_by j eof e closed =
     (case edge_side e of
        None \<Rightarrow> closed
      | Some side \<Rightarrow>
          if dget eof (edge_source e) = Some True
          then (case side_index (kj_sides j) side of Inr i \<Rightarrow> closed[i := True] | Inl _ \<Rightarrow> closed)
          else closed)"

text \<open>What closing sides leaves alone.\<close>

definition closes :: "join_state \<Rightarrow> join_state \<Rightarrow> bool list \<Rightarrow> bool" where
  "closes s t closed \<longleftrightarrow> js_closed t = closed \<and> (js_phase s = JClosed \<longrightarrow> js_phase t = JClosed)
     \<and> js_counts t = js_counts s \<and> js_emitted t = js_emitted s \<and> set (js_cells t) \<subseteq> set (js_cells s)"

lemma dput_current: "dget d k = Some v \<Longrightarrow> dput k v d = d"
  by (induction d) (auto split: if_splits)

lemma same_work: "\<exists>n b. h = h\<lparr>mh_records := n, mh_work := b\<rparr>"
  by (intro exI [of _ "mh_records h"] exI [of _ "mh_work h"]) simp

lemma close_side_ok:
  assumes m: "multi_metered g order base [] (tx, h)" and j: "dget (graph_joins g) k = Some j"
    and s: "dget (mh_joins h) k = Some s" and c: "close_side g k eof e h = Inr h'"
  shows "multi_metered g order base [] (tx, h') \<and> mh_edges h' = mh_edges h
    \<and> (\<exists>t. mh_joins h' = dput k t (mh_joins h) \<and> closes s t (closed_by j eof e (js_closed s)))"
proof (cases "edge_side e")
  case None
  then have "h' = h" using c by (simp add: close_side_def)
  with None m s show ?thesis by (intro conjI exI [of _ s]) (auto simp: closed_by_def closes_def dput_current)
next
  case (Some side)
  show ?thesis
  proof (cases "dget eof (edge_source e) = Some True")
    case False
    with c Some have "h' = h" by (auto simp: close_side_def split: if_splits)
    with Some False m s show ?thesis by (intro conjI exI [of _ s]) (auto simp: closed_by_def closes_def dput_current)
  next
    case True
    obtain after b h1 where p: "stage_close j s side = Inr (after, b)" and a: "join_admit g k after 0 0 h = Inr h1"
      and h': "h' = h1\<lparr>mh_joins := dput k after (mh_joins h1)\<rparr>"
      using c Some True s j by (auto simp: close_side_def join_at_def split: prod.splits)
    have c: "multi_check g = Inr order" using m by simp
    have jo: "keyed_join_ok j" using checked_join [OF c j] by blast
    have good: "join_good j s" using m j s by (auto simp: joins_ok_def)
    then have ok: "join_state_ok j s" by (simp add: join_good_def)
    obtain i where i: "side_index (kj_sides j) side = Inr i" and "closes s after ((js_closed s)[i := True])"
      using stage_close_effect [OF p ok] by (auto simp: closes_def)
    then have "closes s after (closed_by j eof e (js_closed s))" using Some True by (simp add: closed_by_def)
    moreover have "multi_metered g order base [] (tx, h')"
      unfolding h' by (rule multi_moved [OF m s j _ _ a])
        (use good stage_close_ok [OF ok p jo] join_counts_close [OF jo ok _ p] join_reach_close [OF _ p] in \<open>simp_all add: join_good_def joins_walked_def same_work\<close>)
    ultimately show ?thesis using join_admit_Inr [OF a s] h' by auto
  qed
qed

lemma dput_twice: "dput k w (dput k v d) = dput k w d"
  by (induction d) auto

lemma closes_refl [simp]: "closes s s (js_closed s)"
  by (simp add: closes_def)

lemma close_sides_ok:
  assumes f: "fold_res (close_side g k eof) es h = Inr h'"
    and m: "multi_metered g order base [] (tx, h)" and j: "dget (graph_joins g) k = Some j"
    and s: "dget (mh_joins h) k = Some s"
  shows "multi_metered g order base [] (tx, h') \<and> mh_edges h' = mh_edges h
    \<and> (\<exists>t. mh_joins h' = dput k t (mh_joins h) \<and> closes s t (fold (closed_by j eof) es (js_closed s)))"
  using f m s
proof (induction es arbitrary: h s)
  case Nil
  then show ?case by (intro conjI exI [of _ s]) (auto simp: dput_current)
next
  case (Cons e es)
  obtain h1 where c: "close_side g k eof e h = Inr h1" and rest: "fold_res (close_side g k eof) es h1 = Inr h'"
    using Cons.prems(1) by auto
  obtain t where t: "multi_metered g order base [] (tx, h1)" "mh_edges h1 = mh_edges h" "mh_joins h1 = dput k t (mh_joins h)"
      "closes s t (closed_by j eof e (js_closed s))"
    using close_side_ok [OF Cons.prems(2) j Cons.prems(3) c] by blast
  have "dget (mh_joins h1) k = Some t" using t(3) by simp
  from Cons.IH [OF rest t(1) this] obtain u where "multi_metered g order base [] (tx, h')" "mh_edges h' = mh_edges h1"
      "mh_joins h' = dput k u (mh_joins h1)" "closes t u (fold (closed_by j eof) es (js_closed t))" by blast
  then show ?case using t(2-4) by (intro conjI exI [of _ u]) (auto simp: closes_def dput_twice)
qed

lemma length_fold_closed [simp]: "length (fold (closed_by j eof) es closed) = length closed"
  by (induction es arbitrary: closed) (auto simp: closed_by_def split: option.splits sum.splits)

lemma closed_by_at:
  assumes "i < length closed"
  shows "closed_by j eof e closed ! i \<longleftrightarrow> closed ! i
    \<or> (\<exists>side. edge_side e = Some side \<and> side_index (kj_sides j) side = Inr i \<and> dget eof (edge_source e) = Some True)"
proof -
  have "closed[a := True] ! i = (closed ! i \<or> a = i)" for a using assms by (cases "a = i") simp_all
  then show ?thesis by (auto simp: closed_by_def split: option.splits sum.splits)
qed

lemma fold_closed_at:
  assumes "i < length closed"
  shows "fold (closed_by j eof) es closed ! i \<longleftrightarrow> closed ! i
    \<or> (\<exists>e\<in>set es. \<exists>side. edge_side e = Some side \<and> side_index (kj_sides j) side = Inr i \<and> dget eof (edge_source e) = Some True)"
  using assms
proof (induction es arbitrary: closed)
  case (Cons e es)
  have "length (closed_by j eof e closed) = length closed" using length_fold_closed [of j eof "[e]" closed] by simp
  then show ?case using Cons closed_by_at [OF Cons.prems] by auto
qed simp

text \<open>A side of a join has one producer.\<close>

lemma one_producer:
  assumes c: "multi_check g = Inr order" and j: "dget (graph_joins g) k = Some j"
    and e: "e \<in> set (edges_into (mg_edges g) k)" "e' \<in> set (edges_into (mg_edges g) k)"
    and s: "edge_side e = edge_side e'"
  shows "e = e'"
proof -
  have "GOther k j \<in> set (mg_nodes g)" using checked_join [OF c j] by blast
  then have "multi_arity_ok (mg_edges g) (map en_step (mg_entries g)) (GOther k j)"
    using multi_check_Inr(7) [OF c] by (simp add: list_all_iff)
  then have l: "length (edges_into (mg_edges g) k) = length (kj_sides j)"
      "set (map edge_side (edges_into (mg_edges g) k)) = Some ` set (kj_sides j)"
    by (auto simp: multi_arity_ok_def Let_def)
  have "distinct (kj_sides j)" using checked_join [OF c j] by (simp add: keyed_join_ok_def sides_ok_def)
  then have "card (set (map edge_side (edges_into (mg_edges g) k))) = length (map edge_side (edges_into (mg_edges g) k))"
    unfolding l(2) by (simp add: card_image distinct_card l(1))
  then have "distinct (map edge_side (edges_into (mg_edges g) k))" by (rule card_distinct)
  then have "inj_on edge_side (set (edges_into (mg_edges g) k))" by (simp add: distinct_map)
  then show ?thesis using e s by (auto dest: inj_onD)
qed

section \<open>The propagation pass\<close>

lemma join_not_root:
  assumes c: "multi_check g = Inr order" and j: "dget (graph_joins g) k = Some j"
  shows "root_index g k = None"
proof (rule ccontr)
  assume "root_index g k \<noteq> None"
  then obtain en where en: "en \<in> set (mg_entries g)" "en_step en = k" by (auto simp: root_index_def split: if_splits)
  then obtain n where n: "find (\<lambda>n. node_id n = k) (mg_nodes g) = Some n" "\<not> is_join n"
    using multi_check_Inr(10) [OF c] by (auto simp: list_all_iff)
  have o1: "GOther k j \<in> set (mg_nodes g)" using checked_join [OF c j] by blast
  have "n \<in> set (mg_nodes g)" "node_id n = k" using n(1) by (auto simp: find_Some_iff)
  moreover have "inj_on node_id (set (mg_nodes g))" using multi_check_Inr(3) [OF c] by (simp add: distinct_map)
  ultimately have "n = GOther k j" using o1 inj_onD [of node_id "set (mg_nodes g)" n "GOther k j"] by simp
  then show False using n(2) by (simp add: is_join_def)
qed

lemma all_ended_Inr:
  assumes "all_ended eof es = Inr b" "\<forall>e\<in>set es. dget eof (edge_source e) = Some (f (edge_source e))"
  shows "b \<longleftrightarrow> (\<forall>e\<in>set es. f (edge_source e))"
  using assms by (induction eof es arbitrary: b rule: all_ended.induct) (auto split: if_splits)

definition passed :: "multi_graph \<Rightarrow> bool list \<Rightarrow> (pystr, join_state) dict \<Rightarrow> (pystr, join_state) dict \<Rightarrow> pystr set \<Rightarrow> bool" where
  "passed g closed before joins D \<longleftrightarrow>
     (\<forall>k. k \<notin> D \<longrightarrow> dget joins k = dget before k)
     \<and> (\<forall>k j s. k \<in> D \<longrightarrow> dget (graph_joins g) k = Some j \<longrightarrow> dget before k = Some s \<longrightarrow>
          (\<exists>t. dget joins k = Some t \<and> closes s t (js_closed t) \<and> length (js_closed t) = length (js_closed s)
             \<and> (\<forall>i<length (js_closed s). js_closed t ! i \<longleftrightarrow> js_closed s ! i
                  \<or> (\<exists>e\<in>set (edges_into (mg_edges g) k). \<exists>side. edge_side e = Some side
                       \<and> side_index (kj_sides j) side = Inr i \<and> ended g closed joins (edge_source e)))))"

definition ending :: "multi_graph \<Rightarrow> pystr list \<Rightarrow> (state_key, pystr) dict \<Rightarrow> flow_tx \<Rightarrow> bool list \<Rightarrow> multi_hook \<Rightarrow> pystr list
    \<Rightarrow> (pystr, bool) dict \<times> multi_hook \<Rightarrow> bool" where
  "ending g order base tx closed h0 done s \<longleftrightarrow>
     multi_metered g order base [] (tx, snd s) \<and> mh_edges (snd s) = mh_edges h0
     \<and> (\<forall>k\<in>set done. dget (fst s) k = Some (ended g closed (mh_joins (snd s)) k))
     \<and> passed g closed (mh_joins h0) (mh_joins (snd s)) (set done)"

lemma ended_same:
  assumes "\<And>k e. k \<in> D \<Longrightarrow> e \<in> set (edges_into (mg_edges g) k) \<Longrightarrow> edge_source e \<in> D"
    and "\<And>k. k \<in> D \<Longrightarrow> dget joins' k = dget joins k" and "k \<in> D"
  shows "ended g closed joins' k = ended g closed joins k"
  using ended_part [of g closed joins k D joins'] ended_part [of g closed joins' k D joins] assms by auto

lemma ending_same:
  assumes e: "ending g order base tx closed h0 ys (eof, h)" and h': "multi_metered g order base [] (tx, h')" "mh_edges h' = mh_edges h"
    and src: "\<And>x e. x \<in> set ys \<Longrightarrow> e \<in> set (edges_into (mg_edges g) x) \<Longrightarrow> edge_source e \<in> set ys"
    and at: "\<And>x. x \<noteq> k \<Longrightarrow> dget (mh_joins h') x = dget (mh_joins h) x" and k: "k \<notin> set ys"
    and b: "b = ended g closed (mh_joins h') k"
    and p: "\<And>j s. dget (graph_joins g) k = Some j \<Longrightarrow> dget (mh_joins h) k = Some s \<Longrightarrow>
        \<exists>t. dget (mh_joins h') k = Some t \<and> closes s t (js_closed t) \<and> length (js_closed t) = length (js_closed s)
          \<and> (\<forall>i<length (js_closed s). js_closed t ! i \<longleftrightarrow> js_closed s ! i
               \<or> (\<exists>e\<in>set (edges_into (mg_edges g) k). \<exists>side. edge_side e = Some side
                    \<and> side_index (kj_sides j) side = Inr i \<and> ended g closed (mh_joins h') (edge_source e)))"
  shows "ending g order base tx closed h0 (ys @ [k]) (dput k b eof, h')"
proof -
  have same: "ended g closed (mh_joins h') x = ended g closed (mh_joins h) x" if "x \<in> set ys" for x
  proof (rule ended_same [of "set ys"])
    show "dget (mh_joins h') y = dget (mh_joins h) y" if "y \<in> set ys" for y using at k that by metis
  qed (use that src in auto)
  have "passed g closed (mh_joins h0) (mh_joins h') (insert k (set ys))"
    unfolding passed_def
  proof (intro conjI allI impI)
    show "dget (mh_joins h') x = dget (mh_joins h0) x" if "x \<notin> insert k (set ys)" for x
      using that e at by (auto simp: ending_def passed_def)
    fix x j s assume x: "x \<in> insert k (set ys)" and j: "dget (graph_joins g) x = Some j" and s: "dget (mh_joins h0) x = Some s"
    show "\<exists>t. dget (mh_joins h') x = Some t \<and> closes s t (js_closed t) \<and> length (js_closed t) = length (js_closed s)
        \<and> (\<forall>i<length (js_closed s). js_closed t ! i \<longleftrightarrow> js_closed s ! i
             \<or> (\<exists>e\<in>set (edges_into (mg_edges g) x). \<exists>side. edge_side e = Some side
                  \<and> side_index (kj_sides j) side = Inr i \<and> ended g closed (mh_joins h') (edge_source e)))"
    proof (cases "x = k")
      case True
      have "dget (mh_joins h) k = Some s" using e k s True by (auto simp: ending_def passed_def)
      with p j True show ?thesis by blast
    next
      case False
      then have D: "x \<in> set ys" using x by simp
      have "dget (mh_joins h') x = dget (mh_joins h) x" by (rule at) (rule False)
      moreover have "ended g closed (mh_joins h') (edge_source e) = ended g closed (mh_joins h) (edge_source e)"
        if "e \<in> set (edges_into (mg_edges g) x)" for e
        using same src [OF D that] by blast
      ultimately show ?thesis using e D j s unfolding ending_def passed_def by simp
    qed
  qed
  then show ?thesis using e h' same b k by (auto simp: ending_def)
qed

lemma end_node_ok:
  assumes c: "multi_check g = Inr order" and o1: "order = ys @ k # zs"
    and e: "ending g order base tx closed h0 ys s" and n: "end_node g closed k s = Inr s'"
  shows "ending g order base tx closed h0 (ys @ [k]) s'"
proof -
  obtain eof h where s: "s = (eof, h)" by (cases s)
  have t: "sources_first (edges_into (mg_edges g)) order" "distinct order"
    using topological_order_Inr [OF multi_check_Inr(4) [OF c]] by auto
  have k: "k \<notin> set ys" using t(2) o1 by simp
  have in_k: "edge_source e \<in> set ys" if "e \<in> set (edges_into (mg_edges g) k)" for e
    using t(1) o1 that unfolding sources_first_def by blast
  have src: "edge_source e \<in> set ys" if "x \<in> set ys" "e \<in> set (edges_into (mg_edges g) x)" for x e
  proof -
    have "\<exists>us vs. ys = us @ x # vs" using that(1) by (rule split_list)
    then obtain us vs where u: "ys = us @ x # vs" by blast
    then have "order = us @ x # (vs @ k # zs)" using o1 by simp
    then have "edge_source e \<in> set us" using t(1) that(2) unfolding sources_first_def by blast
    then show ?thesis using u by simp
  qed
  note e' = e [unfolded s]
  have m: "multi_metered g order base [] (tx, h)" using e' by (simp add: ending_def del: multi_metered.simps)
  have eof: "dget eof x = Some (ended g closed (mh_joins h) x)" if "x \<in> set ys" for x
    using e' that by (simp add: ending_def)
  have jo: "joins_ok g (mh_joins h)" using m by simp
  show ?thesis
  proof (cases "root_index g k")
    case (Some i)
    have s': "s' = (dput k (closed ! i) eof, h)" using n Some by (simp add: end_node_def s)
    show ?thesis
      unfolding s'
    proof (rule ending_same [OF e' m _ src _ k])
      show "closed ! i = ended g closed (mh_joins h) k" using Some by (subst ended_iff) simp
    qed (use Some join_not_root [OF c] in \<open>auto\<close>)
  next
    case None
    show ?thesis
    proof (cases "dget (mh_joins h) k")
      case None2: None
      obtain b where b: "all_ended eof (edges_into (mg_edges g) k) = Inr b" and s': "s' = (dput k b eof, h)"
        using n None None2 by (auto simp: end_node_def s)
      have "b = (\<forall>e\<in>set (edges_into (mg_edges g) k). ended g closed (mh_joins h) (edge_source e))"
        using eof in_k by (intro all_ended_Inr [OF b]) blast
      then have b': "b = ended g closed (mh_joins h) k" using None None2 by (subst ended_iff) auto
      show ?thesis
        unfolding s' by (rule ending_same [OF e' m _ src _ k b']) (use None2 in auto)
    next
      case (Some js)
      obtain j where j: "dget (graph_joins g) k = Some j" using joins_ok_at [OF jo Some] by blast
      obtain h1 js1 where f: "fold_res (close_side g k eof) (edges_into (mg_edges g) k) h = Inr h1"
        and js1: "dget (mh_joins h1) k = Some js1" and s': "s' = (dput k (js_phase js1 = JClosed) eof, h1)"
        using n None Some by (auto simp: end_node_def s)
      obtain t where t: "multi_metered g order base [] (tx, h1)" "mh_edges h1 = mh_edges h" "mh_joins h1 = dput k t (mh_joins h)"
          "closes js t (fold (closed_by j eof) (edges_into (mg_edges g) k) (js_closed js))"
        using close_sides_ok [OF f m j Some] by blast
      have other: "dget (mh_joins h1) x = dget (mh_joins h) x" if "x \<noteq> k" for x using that t(3) by simp
      have same: "ended g closed (mh_joins h1) x = ended g closed (mh_joins h) x" if "x \<in> set ys" for x
      proof (rule ended_same [of "set ys"])
        show "dget (mh_joins h1) y = dget (mh_joins h) y" if "y \<in> set ys" for y using other k that by metis
      qed (use that src in auto)
      show ?thesis
        unfolding s'
      proof (rule ending_same [OF e' t(1,2) src other k])
        show "(js_phase js1 = JClosed) = ended g closed (mh_joins h1) k" using None js1 by (subst ended_iff) simp
        fix j' s0 assume "dget (graph_joins g) k = Some j'" "dget (mh_joins h) k = Some s0"
        then have eq: "j' = j" "s0 = js" using j Some by simp_all
        have ct: "js_closed t = fold (closed_by j eof) (edges_into (mg_edges g) k) (js_closed js)"
          using t(4) by (simp add: closes_def)
        have "js_closed t ! i \<longleftrightarrow> js_closed js ! i \<or> (\<exists>e\<in>set (edges_into (mg_edges g) k). \<exists>side. edge_side e = Some side
              \<and> side_index (kj_sides j) side = Inr i \<and> ended g closed (mh_joins h1) (edge_source e))"
          if "i < length (js_closed js)" for i
          unfolding ct fold_closed_at [OF that] using eof in_k same by auto
        then show "\<exists>t. dget (mh_joins h1) k = Some t \<and> closes s0 t (js_closed t) \<and> length (js_closed t) = length (js_closed s0)
          \<and> (\<forall>i<length (js_closed s0). js_closed t ! i \<longleftrightarrow> js_closed s0 ! i
               \<or> (\<exists>e\<in>set (edges_into (mg_edges g) k). \<exists>side. edge_side e = Some side
                    \<and> side_index (kj_sides j') side = Inr i \<and> ended g closed (mh_joins h1) (edge_source e)))"
          using t(3,4) ct unfolding eq by (intro exI [of _ t]) auto
      qed
    qed
  qed
qed

text \<open>The whole pass: sides match the producers if they did before, for earlier ends.\<close>

lemma ends_pass:
  assumes f: "fold_res (end_node g closed) order ([], h) = Inr (eof, h')"
    and m: "multi_metered g order base j1 (tx, h)" and held: "joins_held j0 (mh_joins h)"
    and before: "ends_match g closed0 j0" and jo: "joins_ok g j0" and mono: "\<And>i. i < length (mg_entries g) \<Longrightarrow> closed0 ! i \<Longrightarrow> closed ! i"
  shows "multi_metered g order base [] (tx, h') \<and> mh_edges h' = mh_edges h \<and> ends_match g closed (mh_joins h')
    \<and> (\<forall>k s. dget (mh_joins h) k = Some s \<longrightarrow>
         (\<exists>t. dget (mh_joins h') k = Some t \<and> js_counts t = js_counts s \<and> js_emitted t = js_emitted s \<and> set (js_cells t) \<subseteq> set (js_cells s)))"
proof -
  have c: "multi_check g = Inr order" using m by simp
  have o1: "set order = set (map node_id (mg_nodes g))" using topological_order_Inr [OF multi_check_Inr(4) [OF c]] by blast
  have "ending g order base tx closed h order (eof, h')"
    using f
  proof (rule fold_res_prefix [where P = "ending g order base tx closed h"])
    show "ending g order base tx closed h [] ([], h)" using m by (auto simp: ending_def passed_def joins_walked_def)
  qed (rule end_node_ok [OF c])
  then have m': "multi_metered g order base [] (tx, h')" and eq: "mh_edges h' = mh_edges h"
    and p: "passed g closed (mh_joins h) (mh_joins h') (set order)"
    by (simp_all add: ending_def del: multi_metered.simps)
  have jh: "joins_ok g (mh_joins h)" and jh': "joins_ok g (mh_joins h')"
    using m m' by simp_all
  have in_order: "k \<in> set order" if "dget (graph_joins g) k = Some j" for k j
  proof -
    have "GOther k j \<in> set (mg_nodes g)" using checked_join [OF c that] by blast
    then show ?thesis unfolding o1 by force
  qed
  have one: "\<exists>t. dget (mh_joins h') k = Some t \<and> closes s t (js_closed t) \<and> length (js_closed t) = length (js_closed s)
      \<and> (\<forall>i<length (js_closed s). js_closed t ! i \<longleftrightarrow> js_closed s ! i
           \<or> (\<exists>e\<in>set (edges_into (mg_edges g) k). \<exists>side. edge_side e = Some side
                \<and> side_index (kj_sides j) side = Inr i \<and> ended g closed (mh_joins h') (edge_source e)))"
    if "dget (graph_joins g) k = Some j" "dget (mh_joins h) k = Some s" for k j s
    using p in_order [OF that(1)] that unfolding passed_def by blast
  have kept: "ended g closed (mh_joins h') x" if "ended g closed0 j0 x" for x
    using that
  proof (rule ended_mono)
    show "closed ! i" if "root_index g k = Some i" "closed0 ! i" for i k
    proof (rule mono)
      show "i < length (mg_entries g)" using that(1) by (rule root_index_bound)
    qed (rule that(2))
    show "\<exists>t. dget (mh_joins h') k = Some t \<and> js_phase t = JClosed" if s: "dget j0 k = Some s" "js_phase s = JClosed" for k s
    proof -
      obtain u where u: "dget (mh_joins h) k = Some u" "js_phase u = JClosed"
        using held s unfolding joins_held_def held_def by blast
      obtain j where "dget (graph_joins g) k = Some j" using joins_ok_at [OF jh u(1)] by blast
      from one [OF this u(1)] u(2) show ?thesis by (auto simp: closes_def)
    qed
    show "dget (mh_joins h') k = None" if "dget j0 k = None" for k
      using that joins_ok_None [OF jo] joins_ok_None [OF jh'] by simp
  qed
  have "sides_match g closed (mh_joins h') k" for k
    unfolding sides_match_def
  proof (intro allI impI)
    fix j t e side i
    assume j: "dget (graph_joins g) k = Some j" and t: "dget (mh_joins h') k = Some t"
      and e: "e \<in> set (edges_into (mg_edges g) k)" "edge_side e = Some side" "side_index (kj_sides j) side = Inr i"
    obtain s where s: "dget (mh_joins h) k = Some s" "join_state_ok j s" using joins_ok_some [OF jh j] by (auto simp: join_good_def)
    obtain s0 where s0: "dget j0 k = Some s0" using joins_ok_some [OF jo j] by blast
    have cl: "js_closed s = js_closed s0" using held s0 s(1) unfolding joins_held_def held_def by fastforce
    have il: "i < length (js_closed s)" using side_index_Inr [OF e(3)] s(2) by (simp add: join_state_ok_def Let_def)
    have same: "e' = e" if "e' \<in> set (edges_into (mg_edges g) k)" "edge_side e' = Some side'" "side_index (kj_sides j) side' = Inr i" for e' side'
    proof -
      have "side' = side" using side_index_Inr [OF that(3)] side_index_Inr [OF e(3)] by simp
      then show ?thesis using one_producer [OF c j that(1) e(1)] that(2) e(2) by simp
    qed
    have "js_closed t ! i \<longleftrightarrow> js_closed s ! i \<or> (\<exists>e\<in>set (edges_into (mg_edges g) k). \<exists>side. edge_side e = Some side
        \<and> side_index (kj_sides j) side = Inr i \<and> ended g closed (mh_joins h') (edge_source e))"
      using one [OF j s(1)] t il by auto
    also have "\<dots> \<longleftrightarrow> js_closed s ! i \<or> ended g closed (mh_joins h') (edge_source e)"
      using same e by blast
    also have "js_closed s ! i \<longleftrightarrow> ended g closed0 j0 (edge_source e)"
      unfolding cl using before j s0 e by (auto simp: ends_match_def sides_match_def)
    finally show "js_closed t ! i = ended g closed (mh_joins h') (edge_source e)" using kept by blast
  qed
  moreover have "\<exists>t. dget (mh_joins h') k = Some t \<and> js_counts t = js_counts s \<and> js_emitted t = js_emitted s \<and> set (js_cells t) \<subseteq> set (js_cells s)"
    if "dget (mh_joins h) k = Some s" for k s
    using joins_ok_at [OF jh that] one [OF _ that] by (fastforce simp: closes_def)
  ultimately show ?thesis using m' eq by (auto simp: ends_match_def simp del: multi_metered.simps)
qed

section \<open>The beginning and the end\<close>

lemma nothing_ended:
  assumes c: "multi_check g = Inr order" and o1: "\<forall>i<length (mg_entries g). \<not> closed ! i"
    and j: "\<And>k s. dget joins k = Some s \<Longrightarrow> js_phase s \<noteq> JClosed" and ids: "joins_ok g joins"
    and e: "ended g closed joins k"
  shows "k \<notin> set (map node_id (mg_nodes g))"
  using e
proof (induction rule: ended.induct)
  case (ended_root k i)
  then show ?case using o1 root_index_bound by blast
next
  case (ended_join k s)
  then show ?case using j by blast
next
  case (ended_through k)
  show ?case
  proof
    assume "k \<in> set (map node_id (mg_nodes g))"
    then obtain n where n: "n \<in> set (mg_nodes g)" "node_id n = k" by auto
    have root: "k \<notin> set (map en_step (mg_entries g))" using ended_through.hyps(1) by (auto simp: root_index_def split: if_splits)
    have "multi_arity_ok (mg_edges g) (map en_step (mg_entries g)) n"
      using multi_check_Inr(7) [OF c] n(1) by (simp add: list_all_iff)
    moreover have "\<not> is_join n"
    proof
      assume "is_join n"
      then obtain j where "n = GOther k j" using n(2) by (auto simp: is_join_def split: graph_node.splits)
      then have "k \<in> set (dkeys (graph_joins g))" using n(1) multi_joins_in [of k j] by force
      then have "dget (graph_joins g) k \<noteq> None" using dget_None_iff [of "graph_joins g" k] by blast
      then show False using joins_ok_None [OF ids, of k] ended_through.hyps(2) by simp
    qed
    ultimately have "edges_into (mg_edges g) k \<noteq> []"
      using n(2) root by (auto simp: multi_arity_ok_def is_join_def Let_def split: graph_node.splits if_splits)
    then obtain e where e: "e \<in> set (edges_into (mg_edges g) k)" by (cases "edges_into (mg_edges g) k") auto
    then have "e \<in> set (mg_edges g)" by (simp add: edges_into_def)
    then have "edge_source e \<in> set (map node_id (mg_nodes g))"
      using multi_check_Inr(5) [OF c] by (auto simp: list_all_iff port_ok_def)
    with ended_through.IH [OF e] show False by blast
  qed
qed

text \<open>When all sources have ended and no join waits to be drained, every node has ended.\<close>

lemma all_nodes_ended:
  assumes c: "multi_check g = Inr order" and jo: "joins_ok g joins" and em: "ends_match g closed joins"
    and cl: "length closed = length (mg_entries g)" "list_all id closed" and r: "joins_ready order joins = []" and k: "k \<in> set order"
  shows "ended g closed joins k"
proof -
  have t: "sources_first (edges_into (mg_edges g)) order" "set order = set (map node_id (mg_nodes g))"
    using topological_order_Inr [OF multi_check_Inr(4) [OF c]] by auto
  have "\<forall>x\<in>set done. ended g closed joins x" if "\<exists>rest. order = done @ rest" for "done"
    using that
  proof (induction "done" rule: rev_induct)
    case (snoc k ys)
    then obtain rest where o1: "order = ys @ k # rest" by auto
    have IH: "\<forall>x\<in>set ys. ended g closed joins x" using snoc.IH o1 by blast
    have src: "ended g closed joins (edge_source e)" if "e \<in> set (edges_into (mg_edges g) k)" for e
      using t(1) o1 that IH unfolding sources_first_def by blast
    have "ended g closed joins k"
    proof (cases "root_index g k")
      case (Some i)
      then have "i < length closed" unfolding cl(1) by (rule root_index_bound)
      then have "closed ! i" using cl(2) by (simp add: list_all_length)
      with Some show ?thesis by (rule ended_root)
    next
      case None
      show ?thesis
      proof (cases "dget joins k")
        case None2: None
        show ?thesis by (rule ended_through [OF None None2 src])
      next
        case (Some s)
        obtain j where j: "dget (graph_joins g) k = Some j" "join_state_ok j s" using joins_ok_at [OF jo Some] by (auto simp: join_good_def)
        have "js_closed s ! i" if "i < length (js_closed s)" for i
        proof -
          have il: "i < length (kj_sides j)" using that j(2) by (simp add: join_state_ok_def Let_def)
          have "GOther k j \<in> set (mg_nodes g)" using checked_join [OF c j(1)] by blast
          then have "multi_arity_ok (mg_edges g) (map en_step (mg_entries g)) (GOther k j)"
            using multi_check_Inr(7) [OF c] by (simp add: list_all_iff)
          then have "Some (kj_sides j ! i) \<in> set (map edge_side (edges_into (mg_edges g) k))"
            using il by (auto simp: multi_arity_ok_def Let_def)
          then obtain e where e: "e \<in> set (edges_into (mg_edges g) k)" "edge_side e = Some (kj_sides j ! i)" by auto
          have d: "distinct (kj_sides j)" using checked_join [OF c j(1)] by (simp add: keyed_join_ok_def sides_ok_def)
          obtain i' where i': "side_index (kj_sides j) (kj_sides j ! i) = Inr i'" using il by (simp add: side_index_def)
          then have "i' = i" using side_index_Inr [OF i'] d il by (metis nth_eq_iff_index_eq)
          then show ?thesis using em j(1) Some e i' src [OF e(1)] unfolding ends_match_def sides_match_def by blast
        qed
        then have "js_phase s \<noteq> JOpen" using j(2) by (simp add: join_state_ok_def Let_def list_all_length)
        moreover have "k \<in> set order" using o1 by simp
        then have "js_phase s \<noteq> JDraining" using r Some by (auto simp: joins_ready_def filter_empty_conv)
        ultimately have "js_phase s = JClosed" by (cases "js_phase s") auto
        with None Some show ?thesis by (rule ended_join)
      qed
    qed
    with IH show ?case by simp
  qed simp
  from this [of order] k show ?thesis by simp
qed

end
