(* ===== verification/Multi_Runtime.thy ===== *)
theory Multi_Runtime
  imports Multi_Ends
begin

text \<open>
  \<open>MultiGraphRuntime\<close>: its invariant, that every operation keeps it or changes nothing, and
  what a closed graph still holds.
\<close>

section \<open>The invariant\<close>

definition multi_cells_ok :: "multi_graph \<Rightarrow> multi_state \<Rightarrow> bool" where
  "multi_cells_ok g s \<longleftrightarrow>
     state_ok (multi_lim g) (multi_stateful g) (ms_ordinary s) (ms_ordinary_bytes s)
     \<and> joins_ok g (ms_joins s)
     \<and> ms_cells s = int (length (ms_ordinary s)) + (\<Sum>e\<leftarrow>ms_joins s. int (length (js_cells (snd e))))
     \<and> ms_values s = (\<Sum>e\<leftarrow>ms_joins s. js_values (snd e))
     \<and> ms_bytes s = (\<Sum>e\<leftarrow>ms_ordinary s. cell_wire (fst e) (snd e)) + (\<Sum>e\<leftarrow>ms_joins s. join_wire (fst e) (snd e))
     \<and> ms_cells s \<le> ml_cells (mg_limits g) \<and> ms_values s \<le> ml_values (mg_limits g) \<and> ms_bytes s \<le> ml_bytes (mg_limits g)"

definition multi_positions_ok :: "multi_graph \<Rightarrow> multi_state \<Rightarrow> bool" where
  "multi_positions_ok g s \<longleftrightarrow>
     length (ms_positions s) = length (mg_entries g) \<and> length (ms_closed s) = length (mg_entries g)
     \<and> length (ms_edges s) = length (mg_edges g) \<and> (\<forall>n\<in>set (ms_edges s). 0 \<le> n \<and> n \<le> MAX_COUNT)
     \<and> (\<forall>n\<in>set (ms_positions s). 0 \<le> n) \<and> sum_list (ms_positions s) \<le> MAX_COUNT
     \<and> 0 \<le> ms_operations s \<and> ms_operations s \<le> MAX_COUNT \<and> 0 \<le> ms_emitted s \<and> ms_emitted s \<le> MAX_COUNT"

definition multi_inv :: "multi_graph \<Rightarrow> pystr list \<Rightarrow> multi_state \<Rightarrow> bool" where
  "multi_inv g order s \<longleftrightarrow>
     multi_check g = Inr order \<and> multi_cells_ok g s \<and> multi_positions_ok g s \<and> ends_match g (ms_closed s) (ms_joins s)"

definition multi_rt_inv :: "multi_runtime \<Rightarrow> bool" where
  "multi_rt_inv rt \<longleftrightarrow> multi_inv (mr_flow rt) (mr_order rt) (mr_state rt) \<and> \<not> mr_busy rt"

definition multi_op_ok :: "multi_op \<Rightarrow> bool" where
  "multi_op_ok op \<longleftrightarrow> (case op of MInput x \<Rightarrow> record_ok (mi_record x) | _ \<Rightarrow> True)"

lemma empty_joins_at:
  "dget (map (\<lambda>(k, j). (k, empty_join_state j)) js) k = map_option empty_join_state (dget js k)"
  by (induction js) auto

lemma empty_join_good:
  assumes j: "keyed_join_ok j"
  shows "join_good j (empty_join_state j)"
proof -
  have "join_rt_inv \<lparr>jt_join = j, jt_state = empty_join_state j, jt_busy = False\<rparr>"
    using make_join_runtime_inv [of j "\<lparr>jt_join = j, jt_state = empty_join_state j, jt_busy = False\<rparr>"] j
    by (simp add: make_join_runtime_def empty_join_state_def)
  moreover have "join_counts_inv j (empty_join_state j)"
    using row_factor_pos [OF j] j
    by (auto simp: join_counts_inv_def Let_def empty_join_state_def gap_def retained_def sum_list_replicate
        keyed_join_ok_def join_limits_ok_def)
  ultimately show ?thesis by (simp add: join_rt_inv_def join_good_def reach_new)
qed

lemma empty_multi_inv:
  assumes c: "multi_check g = Inr order"
  shows "multi_inv g order (empty_multi_state g)"
proof -
  define joins where "joins = map (\<lambda>(k, j). (k, empty_join_state j)) (graph_joins g)"
  have at: "dget joins k = Some s \<longleftrightarrow> (\<exists>j. dget (graph_joins g) k = Some j \<and> s = empty_join_state j)" for k s
    unfolding joins_def empty_joins_at by auto
  have jo: "joins_ok g joins"
    using checked_join [OF c] at by (auto simp: joins_ok_def joins_def empty_join_good empty_joins_at split_def)
  have zero: "(\<Sum>e\<leftarrow>joins. f (fst e) (snd e)) = 0" if "\<And>k j. f k (empty_join_state j) = (0 :: int)" for f
  proof -
    have "(\<Sum>e\<leftarrow>map (\<lambda>(k, j). (k, empty_join_state j)) js. f (fst e) (snd e)) = 0" for js
      by (induction js) (auto simp: that)
    then show ?thesis by (simp only: joins_def)
  qed
  have z: "(\<Sum>e\<leftarrow>joins. int (length (js_cells (snd e)))) = 0" "(\<Sum>e\<leftarrow>joins. js_values (snd e)) = 0"
      "(\<Sum>e\<leftarrow>joins. join_wire (fst e) (snd e)) = 0"
    using zero [of "\<lambda>k s. int (length (js_cells s))"] zero [of "\<lambda>k s. js_values s"] zero [of join_wire]
    by (simp_all add: empty_join_state_def join_wire_def)
  have l: "multi_limits_ok (mg_limits g)" by (rule multi_check_Inr(1) [OF c])
  have "state_ok (multi_lim g) (multi_stateful g) [] 0" using checked_lim [OF c] by (rule state_ok_Nil)
  then have cells: "multi_cells_ok g (empty_multi_state g)"
    using l jo z by (simp add: multi_cells_ok_def empty_multi_state_def joins_def [symmetric] multi_limits_ok_def)
  have quiet: "\<forall>i<length (mg_entries g). \<not> replicate (length (mg_entries g)) False ! i" by simp
  have phases: "js_phase s \<noteq> JClosed" if "dget joins k = Some s" for k s
    using that at by (auto simp: empty_join_state_def)
  have "sides_match g (replicate (length (mg_entries g)) False) joins k" for k
    unfolding sides_match_def
  proof (intro allI impI)
    fix j s e side i
    assume j: "dget (graph_joins g) k = Some j" and s: "dget joins k = Some s"
      and e: "e \<in> set (edges_into (mg_edges g) k)" and i: "side_index (kj_sides j) side = Inr i"
    have "s = empty_join_state j" using s j at by auto
    then have "\<not> js_closed s ! i" using side_index_Inr [OF i] by (simp add: empty_join_state_def)
    moreover have node: "edge_source e \<in> set (map node_id (mg_nodes g))"
      using e multi_check_Inr(5) [OF c] by (auto simp: edges_into_def list_all_iff port_ok_def)
    have "\<not> ended g (replicate (length (mg_entries g)) False) joins (edge_source e)"
    proof
      assume "ended g (replicate (length (mg_entries g)) False) joins (edge_source e)"
      from nothing_ended [OF c quiet _ jo this] phases node show False by blast
    qed
    ultimately show "js_closed s ! i = ended g (replicate (length (mg_entries g)) False) joins (edge_source e)" by simp
  qed
  then have "ends_match g (ms_closed (empty_multi_state g)) (ms_joins (empty_multi_state g))"
    by (simp add: ends_match_def empty_multi_state_def joins_def)
  moreover have "multi_positions_ok g (empty_multi_state g)"
    by (auto simp: multi_positions_ok_def empty_multi_state_def MAX_COUNT_def sum_list_replicate)
  ultimately show ?thesis using c cells by (simp add: multi_inv_def)
qed

section \<open>Where an operation starts\<close>

lemma begin_multi_metered:
  assumes inv: "multi_inv g order s"
  shows "multi_metered g order (ms_ordinary s) (ms_joins s) (begin_tx (ms_ordinary s) (ms_ordinary_bytes s), begin_multi s)"
proof -
  have c: "multi_check g = Inr order" and cells: "multi_cells_ok g s" and pos: "multi_positions_ok g s"
    using inv by (simp_all add: multi_inv_def)
  have st: "state_ok (multi_lim g) (multi_stateful g) (ms_ordinary s) (ms_ordinary_bytes s)" and jo: "joins_ok g (ms_joins s)"
    using cells by (simp_all add: multi_cells_ok_def)
  have d: "dict_ok (ms_ordinary s)" using st by (simp add: state_ok_def)
  have dj: "dict_ok (ms_joins s)" by (rule joins_ok_dict [OF c jo])
  have "owed_ok g (begin_multi s)"
    using multi_check_Inr(1) [OF c] by (simp add: owed_ok_def begin_multi_def multi_limits_ok_def graph_limits_ok_def)
  then show ?thesis
    using c cells pos tx_ok_begin [OF st] key_total_dget [OF d] joins_dget [OF dj] weight_dget [OF d, of cell_wire]
    by (simp add: multi_cells_ok_def multi_positions_ok_def begin_multi_def view_begin split_def)
qed

lemma map_res_all: "map_res f xs = Inr ys \<Longrightarrow> (\<And>x y. f x = Inr y \<Longrightarrow> P y) \<Longrightarrow> list_all P ys"
  by (induction xs arbitrary: ys) auto

text \<open>Every drained key has rows.\<close>

lemma drained_rows:
  assumes "join_state_ok j s"
  shows "int (length (drained j s n)) \<le> (\<Sum>e\<leftarrow>drained j s n. ce_rows (snd e))"
proof -
  obtain rest where rest: "sort_key fst (js_cells s) = drained j s n @ rest" using drained_split by blast
  have "1 \<le> ce_rows (snd e)" if "e \<in> set (drained j s n)" for e
    using cell_inv_limits(1) [OF cells_inv_in [OF assms]] rest that by simp
  then have "int (length (drained j s n)) * 1 \<le> (\<Sum>e\<leftarrow>drained j s n. ce_rows (snd e))" by (rule sum_rows_ge)
  then show ?thesis by simp
qed

text \<open>The seed of a task: an input is charged, a drain takes rows out of its join.\<close>

definition task_ok :: "multi_graph \<Rightarrow> multi_state \<Rightarrow> multi_task \<Rightarrow> bool" where
  "task_ok g s t \<longleftrightarrow>
     (case t of
        TInput i r \<Rightarrow> i < length (mg_entries g) \<and> record_ok r \<and> sum_list (ms_positions s) + 1 \<le> MAX_COUNT
      | TClose i \<Rightarrow> i < length (mg_entries g) \<and> \<not> ms_closed s ! i
      | TDrain k n \<Rightarrow> \<exists>js. dget (ms_joins s) k = Some js \<and> js_phase js = JDraining)"

lemma task_seed_ok:
  assumes inv: "multi_inv g order s" and t: "task_ok g s t"
    and e: "task_seed g t s (begin_multi s) = Inr (positions, closed, seeds, outputs, h)"
  shows "multi_metered g order (ms_ordinary s) (mh_joins h) (begin_tx (ms_ordinary s) (ms_ordinary_bytes s), h)
    \<and> joins_held (ms_joins s) (mh_joins h) \<and> seeds_ok seeds \<and> seeds_ok outputs
    \<and> closed = (case t of TClose i \<Rightarrow> (ms_closed s)[i := True] | _ \<Rightarrow> ms_closed s)
    \<and> positions = (case t of TInput i r \<Rightarrow> (ms_positions s)[i := ms_positions s ! i + 1] | _ \<Rightarrow> ms_positions s)"
proof (cases t)
  case (TInput i r)
  obtain h1 where h1: "multi_charge (ml_graph (mg_limits g)) r (begin_multi s) = Inr h1" "h = h1"
    using e TInput by (auto simp: task_seed_def)
  have "multi_metered g order (ms_ordinary s) (ms_joins s) (begin_tx (ms_ordinary s) (ms_ordinary_bytes s), h)"
    unfolding h1(2) by (rule multi_charged [OF begin_multi_metered [OF inv] h1(1)])
  moreover have "mh_joins h = ms_joins s" using multi_charge_Inr [OF h1(1)] h1(2) by (auto simp: begin_multi_def)
  ultimately show ?thesis using e t TInput
    by (auto simp: task_seed_def task_ok_def seeds_ok_def simp del: multi_metered.simps)
next
  case (TClose i)
  have "mh_joins (begin_multi s) = ms_joins s" by (simp add: begin_multi_def)
  with TClose e begin_multi_metered [OF inv] show ?thesis
    by (auto simp: task_seed_def seeds_ok_def simp del: multi_metered.simps)
next
  case (TDrain k n)
  define tx where "tx = begin_tx (ms_ordinary s) (ms_ordinary_bytes s)"
  have m: "multi_metered g order (ms_ordinary s) (ms_joins s) (tx, begin_multi s)"
    unfolding tx_def by (rule begin_multi_metered [OF inv])
  obtain js where js: "dget (ms_joins s) k = Some js" "js_phase js = JDraining" using t TDrain by (auto simp: task_ok_def)
  obtain j after batch h1 rows where j: "dget (graph_joins g) k = Some j"
    and p: "stage_drain j (join_admit g k) js n (begin_multi s) = Inr (after, batch, h1)"
    and rows: "map_res row_to_record (jb_rows batch) = Inr rows"
    and o1: "positions = ms_positions s" "closed = ms_closed s" "seeds = []" "outputs = [(k, rows)]"
      "h = h1\<lparr>mh_joins := dput k after (mh_joins h1)\<rparr>"
    using e TDrain js(1) by (auto simp: task_seed_def join_at_def begin_multi_def)
  have c: "multi_check g = Inr order" using m by simp
  have jo: "keyed_join_ok j" using checked_join [OF c j] by blast
  have good: "join_good j js" using m j js(1) by (auto simp: joins_ok_def begin_multi_def)
  then have ok: "join_state_ok j js" and ci: "join_counts_inv j js" by (simp_all add: join_good_def)
  have after: "after = state_drained js (drained j js n)"
    and a: "join_admit g k after (\<Sum>e\<leftarrow>drained j js n. ce_rows (snd e)) (\<Sum>e\<leftarrow>drained j js n. ce_output (snd e)) (begin_multi s) = Inr h1"
    using stage_drain_Inr [OF p] js(2) by auto
  have rows': "0 \<le> (\<Sum>e\<leftarrow>drained j js n. ce_rows (snd e))" using drained_rows [OF ok, of n] by linarith
  have at: "dget (mh_joins (begin_multi s)) k = Some js" using js(1) by (simp add: begin_multi_def)
  have "held js after" using js(2) by (simp add: held_def after state_drained_def Let_def)
  then have "joins_held (ms_joins s) (dput k after (mh_joins (begin_multi s)))"
    using joins_held_put [OF _ at] by (simp add: begin_multi_def)
  moreover have hj: "mh_joins h = dput k after (mh_joins (begin_multi s))" using join_admit_Inr [OF a at] o1 by simp
  moreover have "join_good j after"
    using stage_drain_ok [OF jo ok p] join_counts_drain [OF jo ok ci p] join_reach_drain [OF _ p] good by (simp add: join_good_def)
  then have "multi_metered g order (ms_ordinary s) [] (tx, h)"
    unfolding o1 using m rows' by (intro multi_moved [OF _ at j _ _ a] same_work) (auto simp: joins_walked_def)
  then have "multi_metered g order (ms_ordinary s) (mh_joins h) (tx, h)" by (rule multi_rebase)
  moreover have "list_all record_ok rows"
    using make_record_ok by (intro map_res_all [OF rows]) (auto simp: row_to_record_def)
  ultimately show ?thesis using o1 TDrain by (auto simp: seeds_ok_def tx_def simp del: multi_metered.simps)
qed

section \<open>One operation\<close>

lemma multi_batch_check_Inr: "multi_batch_check b = Inr b' \<Longrightarrow> b' = b \<and> 0 \<le> mb_operations b \<and> mb_operations b \<le> MAX_COUNT"
  by (auto simp: multi_batch_check_def split: if_splits)

lemma sum_list_bump: "i < length xs \<Longrightarrow> sum_list (xs[i := xs ! i + (1::int)]) = sum_list xs + 1"
  by (rule sum_list_update_inc)

lemma multi_execute_ok:
  assumes inv: "multi_inv g order s" and t: "task_ok g s t" and e: "multi_execute g order t s = Inr (after, b)"
  shows "multi_inv g order after \<and> list_all (\<lambda>x. record_ok (out_record x)) (mb_outputs b)
    \<and> ms_operations after = ms_operations s + 1 \<and> ms_emitted after = ms_emitted s + int (length (mb_outputs b))
    \<and> mb_operations b = ms_operations after
    \<and> mb_ready b = joins_ready order (ms_joins after) \<and> mb_phase b = graph_phase (ms_closed after) (mb_ready b)
    \<and> ms_closed after = (case t of TClose i \<Rightarrow> (ms_closed s)[i := True] | _ \<Rightarrow> ms_closed s)
    \<and> ms_positions after = (case t of TInput i r \<Rightarrow> (ms_positions s)[i := ms_positions s ! i + 1] | _ \<Rightarrow> ms_positions s)"
proof -
  define base where "base = ms_ordinary s"
  obtain positions closed seeds outputs h published tx h2 eof h3 where
    ops: "ms_operations s + 1 \<le> MAX_COUNT" "0 \<le> ms_operations s + 1"
    and sd: "task_seed g t s (begin_multi s) = Inr (positions, closed, seeds, outputs, h)"
    and wk: "walk_graph (multi_walk g base seeds outputs) order (begin_tx base (ms_ordinary_bytes s), h) = Inr (published, tx, h2)"
    and en: "fold_res (end_node g closed) order ([], h2) = Inr (eof, h3)"
    and fin: "commit_multi order s positions closed (published, tx, h3) = Inr (after, b)"
    using e by (auto simp: multi_execute_def base_def)
  obtain ordinary bytes where em: "0 \<le> ms_emitted s + int (length published)" "ms_emitted s + int (length published) \<le> MAX_COUNT"
    and cm: "commit_tx base tx = (ordinary, bytes)"
    and b: "multi_batch_check \<lparr>mb_outputs = published, mb_operations = ms_operations s + 1,
        mb_phase = graph_phase closed (joins_ready order (mh_joins h3)), mb_ready = joins_ready order (mh_joins h3)\<rparr> = Inr b"
    and after: "after = \<lparr>ms_ordinary = ordinary, ms_ordinary_bytes = bytes, ms_joins = mh_joins h3,
        ms_positions = positions, ms_closed = closed, ms_edges = mh_edges h3, ms_operations = ms_operations s + 1,
        ms_emitted = ms_emitted s + int (length published), ms_cells = mh_cells h3, ms_values = mh_values h3, ms_bytes = mh_bytes h3\<rparr>"
    using fin by (cases "commit_tx base tx") (auto simp: commit_multi_def base_def Let_def)
  have c: "multi_check g = Inr order" and cells: "multi_cells_ok g s" and pos: "multi_positions_ok g s"
    and em0: "ends_match g (ms_closed s) (ms_joins s)"
    using inv by (simp_all add: multi_inv_def)
  note seed = task_seed_ok [OF inv t sd]
  have W: "multi_metered g order base (mh_joins h) (tx, h2)" and out: "list_all (\<lambda>x. record_ok (out_record x)) published"
    using multi.walk [OF wk] seed unfolding base_def by blast+
  have jo: "joins_ok g (ms_joins s)" and st: "state_ok (multi_lim g) (multi_stateful g) base (ms_ordinary_bytes s)"
    using cells by (simp_all add: multi_cells_ok_def base_def)
  have len: "length (ms_closed s) = length (mg_entries g)" "length (ms_positions s) = length (mg_entries g)"
    using pos by (simp_all add: multi_positions_ok_def)
  have mono: "closed ! i" if "i < length (mg_entries g)" "ms_closed s ! i" for i
    using that seed len t by (cases t) (auto simp: task_ok_def nth_list_update)
  have "joins_walked (mh_joins h) (mh_joins h2)" using W by simp
  then have held: "joins_held (ms_joins s) (mh_joins h2)" using joins_held_walked seed by blast
  have E: "multi_metered g order base [] (tx, h3)" "ends_match g closed (mh_joins h3)"
    using ends_pass [OF en W held em0 jo mono] by blast+
  have d: "dict_ok base" using st by (simp add: state_ok_def)
  have st': "state_ok (multi_lim g) (multi_stateful g) ordinary bytes \<and> dget ordinary = previous_state base tx"
    using E(1) d by (intro state_ok_commit [OF _ _ cm]) auto
  then have d': "dict_ok ordinary" by (simp add: state_ok_def)
  have jo3: "joins_ok g (mh_joins h3)" using E(1) by simp
  have dj: "dict_ok (mh_joins h3)" by (rule joins_ok_dict [OF c jo3])
  have "multi_cells_ok g after"
    using E(1) st' jo3 key_total_dget [OF d'] weight_dget [OF d', of cell_wire] joins_dget [OF dj]
    by (simp add: multi_cells_ok_def after split_def)
  moreover have "multi_positions_ok g after"
  proof -
    have "(\<forall>n\<in>set positions. 0 \<le> n) \<and> sum_list positions \<le> MAX_COUNT \<and> length positions = length (mg_entries g)"
    proof (cases t)
      case (TInput i r)
      then have i: "i < length (ms_positions s)" and p: "positions = (ms_positions s)[i := ms_positions s ! i + 1]"
        using t seed len by (auto simp: task_ok_def)
      have "0 \<le> ms_positions s ! i" using pos i by (simp add: multi_positions_ok_def)
      then have "\<forall>n\<in>set positions. 0 \<le> n"
        using pos unfolding p by (auto simp: multi_positions_ok_def dest!: set_update_subset_insert [THEN subsetD])
      then show ?thesis using sum_list_bump [OF i] t TInput p len by (simp add: task_ok_def)
    qed (use seed pos in \<open>auto simp: multi_positions_ok_def\<close>)
    moreover have "length closed = length (mg_entries g)" using seed len by (cases t) auto
    ultimately show ?thesis using E(1) ops em by (simp add: multi_positions_ok_def after)
  qed
  moreover have "ends_match g (ms_closed after) (ms_joins after)" using E(2) by (simp add: after)
  ultimately show ?thesis
    using c multi_batch_check_Inr [OF b] out seed by (auto simp: multi_inv_def after simp del: multi_metered.simps)
qed

lemma empty_batch_Inr:
  "empty_batch order s = Inr b \<Longrightarrow> mb_outputs b = [] \<and> mb_operations b = ms_operations s
     \<and> mb_ready b = joins_ready order (ms_joins s) \<and> mb_phase b = graph_phase (ms_closed s) (mb_ready b)"
  by (auto simp: empty_batch_def Let_def dest: multi_batch_check_Inr)

lemma source_at_Inr:
  "source_at g s source position = Inr i \<Longrightarrow> i < length (mg_entries g) \<and> en_source (mg_entries g ! i) = source
     \<and> ms_positions s ! i = position"
proof -
  have "length (takeWhile (\<lambda>en. en_source en \<noteq> source) ens) < length ens
      \<and> en_source (ens ! length (takeWhile (\<lambda>en. en_source en \<noteq> source) ens)) = source"
    if "source \<in> set (map en_source ens)" for ens
    using that by (induction ens) auto
  then show "source_at g s source position = Inr i \<Longrightarrow> ?thesis"
    by (auto simp: source_at_def Let_def split: if_splits)
qed

lemma joins_ready_in: "k \<in> set (joins_ready order joins) \<Longrightarrow> \<exists>js. dget joins k = Some js \<and> js_phase js = JDraining"
  by (auto simp: joins_ready_def split: option.splits)

text \<open>Every operation is one executed task or leaves the state alone.\<close>

lemma multi_stage_cases:
  assumes "multi_stage g order op s = Inr (after, b)" and op: "multi_op_ok op"
  shows "(after = s \<and> empty_batch order s = Inr b) \<or> (\<exists>t. task_ok g s t \<and> multi_execute g order t s = Inr (after, b))"
proof (cases op)
  case (MInput x)
  with assms obtain i where "source_at g s (mi_source x) (mi_position x) = Inr i" "sum_list (ms_positions s) + 1 \<le> MAX_COUNT"
      "multi_execute g order (TInput i (mi_record x)) s = Inr (after, b)"
    by (auto split: if_splits)
  with op MInput source_at_Inr show ?thesis by (intro disjI2 exI [of _ "TInput i (mi_record x)"]) (auto simp: task_ok_def multi_op_ok_def)
next
  case (MClose source position)
  with assms obtain i where i: "source_at g s source position = Inr i"
      "if ms_closed s ! i then after = s \<and> empty_batch order s = Inr b else multi_execute g order (TClose i) s = Inr (after, b)"
    by (auto split: if_splits)
  then show ?thesis using source_at_Inr [OF i(1)] by (auto simp: task_ok_def intro: exI [of _ "TClose i"] split: if_splits)
next
  case (MDrain n)
  show ?thesis
  proof (cases "joins_ready order (ms_joins s)")
    case Nil
    with MDrain assms show ?thesis by auto
  next
    case (Cons k ks)
    then have "k \<in> set (joins_ready order (ms_joins s))" by simp
    from joins_ready_in [OF this] MDrain assms Cons show ?thesis by (intro disjI2 exI [of _ "TDrain k n"]) (auto simp: task_ok_def)
  qed
qed

lemma multi_stage_ok:
  assumes inv: "multi_inv g order s" and op: "multi_op_ok op" and e: "multi_stage g order op s = Inr (after, b)"
  shows "multi_inv g order after \<and> mb_ready b = joins_ready order (ms_joins after)
    \<and> mb_phase b = graph_phase (ms_closed after) (mb_ready b) \<and> list_all (\<lambda>x. record_ok (out_record x)) (mb_outputs b)"
proof (cases "after = s \<and> empty_batch order s = Inr b")
  case True
  then show ?thesis using empty_batch_Inr [of order s b] inv by auto
next
  case False
  then obtain t where "task_ok g s t" "multi_execute g order t s = Inr (after, b)" using multi_stage_cases [OF e op] by blast
  from multi_execute_ok [OF inv this] show ?thesis by blast
qed

lemma multi_apply_Inl: "multi_apply op rt = (Inl e, rt') \<Longrightarrow> rt' = rt"
  by (cases rt) (auto simp: multi_apply_def Let_def split: sum.splits if_splits)

lemma multi_apply_Inr:
  "multi_apply op rt = (Inr b, rt') \<Longrightarrow>
     \<not> mr_busy rt \<and> multi_stage (mr_flow rt) (mr_order rt) op (mr_state rt) = Inr (mr_state rt', b)
     \<and> mr_flow rt' = mr_flow rt \<and> mr_order rt' = mr_order rt \<and> \<not> mr_busy rt'"
  by (cases rt) (auto simp: multi_apply_def Let_def split: sum.splits if_splits)

interpretation multi: atomic_runtime multi_apply multi_rt_inv multi_op_ok
proof unfold_locales
  show "s' = s" if "multi_apply p s = (Inl e, s')" for p s e s'
    using that by (rule multi_apply_Inl)
  show "multi_rt_inv s'" if "multi_rt_inv s" "multi_op_ok p" "multi_apply p s = (Inr b, s')" for p s b s'
  proof -
    note a = multi_apply_Inr [OF that(3)]
    have "multi_inv (mr_flow s) (mr_order s) (mr_state s)" using that(1) by (simp add: multi_rt_inv_def)
    from multi_stage_ok [OF this that(2), of "mr_state s'" b] a show ?thesis by (simp add: multi_rt_inv_def)
  qed
qed

lemma make_multi_inv: "make_multi_runtime g = Inr rt \<Longrightarrow> multi_rt_inv rt \<and> mr_flow rt = g"
  using empty_multi_inv by (auto simp: make_multi_runtime_def multi_rt_inv_def)

section \<open>A closed graph\<close>

lemma closed_graph_empty:
  assumes inv: "multi_inv g order s" and p: "graph_phase (ms_closed s) (joins_ready order (ms_joins s)) = JClosed"
    and j: "dget (ms_joins s) k = Some js"
  shows "js_phase js = JClosed \<and> js_cells js = []"
proof -
  have c: "multi_check g = Inr order" and jo: "joins_ok g (ms_joins s)" and em: "ends_match g (ms_closed s) (ms_joins s)"
    and len: "length (ms_closed s) = length (mg_entries g)"
    using inv by (simp_all add: multi_inv_def multi_cells_ok_def multi_positions_ok_def)
  have cl: "list_all id (ms_closed s)" "joins_ready order (ms_joins s) = []" using p by (auto simp: graph_phase_def split: if_splits)
  obtain jn where jn: "dget (graph_joins g) k = Some jn" "join_state_ok jn js"
    using joins_ok_at [OF jo j] by (auto simp: join_good_def)
  have "k \<in> set order"
  proof -
    have "GOther k jn \<in> set (mg_nodes g)" using checked_join [OF c jn(1)] by blast
    then show ?thesis using topological_order_Inr [OF multi_check_Inr(4) [OF c]] by force
  qed
  from all_nodes_ended [OF c jo em len cl this] have "js_phase js = JClosed"
    using join_not_root [OF c jn(1)] j by (subst (asm) ended_iff) simp
  then show ?thesis using jn(2) by (simp add: join_state_ok_def Let_def)
qed

end
