(* ===== verification/Multi_History.thy ===== *)
theory Multi_History
  imports Multi_Runtime
begin

text \<open>
  The counters of multi-source graphs: every record delivered to a side of a join is counted
  there, the deliveries and outputs of an operation stay within its work budget, an operation
  without records moves nothing, and a drain emits at least one final row.
\<close>

section \<open>Sides and their counters\<close>

definition side_at :: "keyed_join \<Rightarrow> multi_edge \<Rightarrow> nat option" where
  "side_at j e = (case edge_side e of None \<Rightarrow> None
     | Some s \<Rightarrow> (case side_index (kj_sides j) s of Inl _ \<Rightarrow> None | Inr i \<Rightarrow> Some i))"

definition bump :: "keyed_join \<Rightarrow> multi_edge \<times> flow_record list \<Rightarrow> int list \<Rightarrow> int list" where
  "bump j eb cs = (case side_at j (fst eb) of None \<Rightarrow> cs | Some i \<Rightarrow> cs[i := cs ! i + int (length (snd eb))])"

lemma length_bumps [simp]: "length (fold (bump j) bs cs) = length cs"
  by (induction bs arbitrary: cs) (auto simp: bump_def split: option.splits)

lemma bumps_other:
  "(\<And>eb. eb \<in> set bs \<Longrightarrow> side_at j (fst eb) \<noteq> Some i) \<Longrightarrow> fold (bump j) bs cs ! i = cs ! i"
proof (induction bs arbitrary: cs)
  case (Cons x bs)
  have "side_at j (fst x) \<noteq> Some i" using Cons.prems by simp
  then have "bump j x cs ! i = cs ! i" by (auto simp: bump_def split: option.splits)
  with Cons show ?case by simp
qed simp

lemma bumps_at:
  assumes "distinct (map (side_at j \<circ> fst) bs)" "(e, b) \<in> set bs" "side_at j e = Some i" "i < length cs"
  shows "fold (bump j) bs cs ! i = cs ! i + int (length b)"
  using assms
proof (induction bs arbitrary: cs)
  case (Cons x bs)
  show ?case
  proof (cases "x = (e, b)")
    case True
    have "side_at j (fst eb) \<noteq> Some i" if "eb \<in> set bs" for eb using Cons.prems(1,3) that True by (auto simp: image_iff)
    then show ?thesis using Cons.prems(3,4) True by (simp add: bumps_other) (simp add: bump_def)
  next
    case False
    then have m: "(e, b) \<in> set bs" using Cons.prems(2) by auto
    then have "side_at j (fst x) \<noteq> Some i" using Cons.prems(1,3) by (force simp: image_iff)
    then have "bump j x cs ! i = cs ! i" by (auto simp: bump_def nth_list_update split: option.splits)
    moreover have "fold (bump j) bs (bump j x cs) ! i = bump j x cs ! i + int (length b)"
      using Cons.prems(1,3,4) m by (intro Cons.IH) (auto simp: bump_def split: option.splits)
    ultimately show ?thesis by simp
  qed
qed simp

section \<open>A join in the walk\<close>

text \<open>What the items of a node change: the counters of its join, never a final row.\<close>

definition counted :: "keyed_join \<Rightarrow> join_state \<Rightarrow> join_state \<Rightarrow> int list \<Rightarrow> bool" where
  "counted j s t cs \<longleftrightarrow> js_counts t = cs \<and> (kj_emit j = JFinal \<longrightarrow> js_emitted t = js_emitted s)"

lemma join_item_counts:
  assumes m: "multi_metered g order base j0 (tx, h)" and j: "dget (graph_joins g) k = Some j"
    and s: "dget (mh_joins h) k = Some s" and r: "join_item g k j side r (out, h) = Inr (out', h')"
  shows "\<exists>t i. side_index (kj_sides j) side = Inr i \<and> mh_joins h' = dput k t (mh_joins h)
    \<and> counted j s t ((js_counts s)[i := js_counts s ! i + 1]) \<and> mh_edges h' = mh_edges h
    \<and> mh_records h' + int (length out) = mh_records h + int (length out')"
proof -
  obtain after batch h1 h2 where
    p: "stage_process j (join_admit g k) s side r h = Inr (after, batch, h1)"
    and e: "fold_res (emit_row (ml_graph (mg_limits g))) (jb_rows batch) (out, h1) = Inr (out', h2)"
    and h': "h' = h2\<lparr>mh_joins := dput k after (mh_joins h2)\<rparr>"
    using r s by (auto simp: join_item_def)
  have "join_good j s" using m j s by (auto simp: joins_ok_def)
  then have d: "dict_ok (js_cells s)" by (simp add: join_good_def join_state_ok_def Let_def)
  obtain counts k' c where pc: "propose_cell j s side r = Inr (counts, k', c)" and after: "after = state_after j s counts k' c"
    and a: "join_admit g k after (if emits j c then ce_rows c else 0) (if emits j c then ce_output c else 0) h = Inr h1"
    using stage_process_Inr [OF p d] by blast
  obtain i where i: "side_index (kj_sides j) side = Inr i" "counts = (js_counts s)[i := js_counts s ! i + 1]"
    using propose_cell_Inr [OF pc] by blast
  have ad: "mh_joins h1 = mh_joins h" "mh_edges h1 = mh_edges h" "mh_records h1 = mh_records h"
    using join_admit_Inr [OF a s] a by (auto simp: join_admit_def Let_def retention_Inr)
  have "kj_emit j = JFinal \<Longrightarrow> \<not> emits j c" by (simp add: emits_def completes_def)
  then have "counted j s after counts" by (auto simp: counted_def after state_after_def)
  moreover have "mh_joins h2 = mh_joins h1 \<and> mh_edges h2 = mh_edges h1 \<and> mh_records h2 + int (length out) = mh_records h1 + int (length out')"
  proof -
    have "fold_res (emit_row gl) rows (o1, a) = Inr (o2, b) \<Longrightarrow>
        mh_joins b = mh_joins a \<and> mh_edges b = mh_edges a \<and> mh_records b + int (length o1) = mh_records a + int (length o2)"
      for gl rows o1 o2 a b
    proof (induction rows arbitrary: o1 a)
      case (Cons row rows)
      obtain z where one: "emit_row gl row (o1, a) = Inr z" and rest: "fold_res (emit_row gl) rows z = Inr (o2, b)"
        using Cons.prems by auto
      obtain r a1 where "multi_charge gl r a = Inr a1" and f: "fold_res (emit_row gl) rows (o1 @ [r], a1) = Inr (o2, b)"
        using one rest by (auto simp: emit_row_def)
      then have "mh_joins a1 = mh_joins a \<and> mh_edges a1 = mh_edges a \<and> mh_records a1 = mh_records a + 1"
        by (auto simp: multi_charge_def split: if_splits)
      with Cons.IH [OF f] show ?case by auto
    qed simp
    from this [OF e] show ?thesis .
  qed
  ultimately show ?thesis using i ad h' by auto
qed

definition moved :: "multi_graph \<Rightarrow> pystr list \<Rightarrow> (state_key, pystr) dict \<Rightarrow> (pystr, join_state) dict \<Rightarrow> flow_tx
    \<Rightarrow> pystr \<Rightarrow> keyed_join \<Rightarrow> join_state \<Rightarrow> multi_hook \<Rightarrow> int list \<Rightarrow> flow_record list \<times> multi_hook \<Rightarrow> bool" where
  "moved g order base j0 tx k j s h cs st \<longleftrightarrow>
     multi_metered g order base j0 (tx, snd st) \<and> list_all record_ok (fst st)
     \<and> (\<exists>t. dget (mh_joins (snd st)) k = Some t \<and> counted j s t cs)
     \<and> (\<forall>x. x \<noteq> k \<longrightarrow> dget (mh_joins (snd st)) x = dget (mh_joins h) x)
     \<and> mh_edges (snd st) = mh_edges h \<and> mh_records (snd st) = mh_records h + int (length (fst st))"

lemma moved_item:
  assumes st: "moved g order base j0 tx k j s h cs st" and j: "dget (graph_joins g) k = Some j" and r: "record_ok r"
    and i: "side_index (kj_sides j) side = Inr i" and e: "join_item g k j side r st = Inr st'"
  shows "moved g order base j0 tx k j s h (cs[i := cs ! i + 1]) st'"
proof -
  obtain out h1 out' h2 where eq: "st = (out, h1)" "st' = (out', h2)" by (cases st, cases st')
  obtain t where t: "dget (mh_joins h1) k = Some t" "counted j s t cs" using st by (auto simp: moved_def eq)
  have m: "multi_metered g order base j0 (tx, h1)" and o: "list_all record_ok out" using st by (simp_all add: moved_def eq del: multi_metered.simps)
  note c = join_item_counts [OF m j t(1) e [unfolded eq]]
  have "join_at g k = Inr j" using j by (simp add: join_at_def)
  note ok = join_item_ok [OF m this o r e [unfolded eq]]
  show ?thesis using st c ok t(2) i by (auto simp: moved_def eq counted_def simp del: multi_metered.simps)
qed

lemma moved_items:
  assumes "fold_res (join_item g k j side) rs st = Inr st'" "list_all record_ok rs"
    and "moved g order base j0 tx k j s h cs st" "dget (graph_joins g) k = Some j"
    and "side_index (kj_sides j) side = Inr i" "i < length cs"
  shows "moved g order base j0 tx k j s h (cs[i := cs ! i + int (length rs)]) st'"
  using assms
proof (induction rs arbitrary: st cs)
  case (Cons r rs)
  then obtain st1 where one: "join_item g k j side r st = Inr st1" and rest: "fold_res (join_item g k j side) rs st1 = Inr st'" by auto
  have "moved g order base j0 tx k j s h (cs[i := cs ! i + 1]) st1"
    using Cons.prems by (intro moved_item [OF _ _ _ _ one]) simp_all
  from Cons.IH [OF rest _ this] Cons.prems show ?case by (simp add: algebra_simps)
qed simp

lemma joined_counts:
  assumes m: "multi_metered g order base j0 (tx, h)" and mail: "mail_ok batches"
    and j: "dget (graph_joins g) k = Some j" and s: "dget (mh_joins h) k = Some s"
    and r: "joined g k batches (tx, h) = Inr (out, tx', h')"
  shows "tx' = tx \<and> moved g order base j0 tx k j s h (fold (bump j) batches (js_counts s)) (out, h')"
proof -
  have f: "fold_res (join_batch_items g k) batches ([], h) = Inr (out, h')" and tx: "tx' = tx"
    using r by (auto simp: joined_def)
  have "join_state_ok j s" using m j s by (auto simp: joins_ok_def join_good_def)
  then have len: "length (js_counts s) = length (kj_sides j)" by (simp add: join_state_ok_def Let_def)
  have "moved g order base j0 tx k j s h (fold (bump j) batches (js_counts s)) (out, h')"
    using f
  proof (rule fold_res_prefix)
    show "moved g order base j0 tx k j s h (fold (bump j) [] (js_counts s)) ([], h)"
      using m s by (simp add: moved_def counted_def del: multi_metered.simps)
    fix ys eb zs st st' assume b: "batches = ys @ eb # zs" and e: "join_batch_items g k eb st = Inr st'"
      and st: "moved g order base j0 tx k j s h (fold (bump j) ys (js_counts s)) st"
    obtain side where side: "edge_side (fst eb) = Some side" using e by (auto simp: join_batch_items_def split: option.splits)
    have at: "join_at g k = Inr j" using j by (simp add: join_at_def)
    have items: "fold_res (join_item g k j side) (snd eb) st = Inr st'" using e side by (simp add: join_batch_items_def at)
    have recs: "list_all record_ok (snd eb)" using mail b by (auto simp: mail_ok_def)
    show "moved g order base j0 tx k j s h (fold (bump j) (ys @ [eb]) (js_counts s)) st'"
    proof (cases "side_index (kj_sides j) side")
      case (Inr i)
      then have "i < length (fold (bump j) ys (js_counts s))" using side_index_Inr len by simp
      from moved_items [OF items recs st j Inr this] show ?thesis by (simp add: bump_def side_at_def side Inr)
    next
      case (Inl err)
      have "snd eb = []"
      proof (cases "snd eb")
        case (Cons r rs)
        then obtain st1 where one: "join_item g k j side r st = Inr st1" using items by auto
        obtain o1 h1 o2 h2 where eq: "st = (o1, h1)" "st1 = (o2, h2)" by (cases st, cases st1)
        obtain t where t: "dget (mh_joins h1) k = Some t" using st by (auto simp: moved_def eq)
        have "multi_metered g order base j0 (tx, h1)" using st by (simp add: moved_def eq del: multi_metered.simps)
        from join_item_counts [OF this j t one [unfolded eq]] Inl show ?thesis by auto
      qed
      then show ?thesis using items st Inl by (simp add: bump_def side_at_def side)
    qed
  qed
  with tx show ?thesis by simp
qed

section \<open>A node of the walk\<close>

lemma node_of_other:
  assumes "distinct (map node_id nodes)" "GOther k j \<in> set nodes"
  shows "node_of nodes k = GOther k j"
proof -
  obtain n where n: "find (\<lambda>n. node_id n = k) nodes = Some n"
    using assms(2) by (cases "find (\<lambda>n. node_id n = k) nodes") (auto simp: find_None_iff)
  then have "n \<in> set nodes" "node_id n = node_id (GOther k j)" by (auto simp: find_Some_iff)
  with assms have "n = GOther k j" by (meson distinct_map inj_onD)
  with n show ?thesis by (simp add: node_of_def)
qed

lemma join_node:
  assumes c: "multi_check g = Inr order"
  shows "dget (graph_joins g) k = Some j \<longleftrightarrow> node_of (mg_nodes g) k = GOther k j"
proof
  assume "dget (graph_joins g) k = Some j"
  then show "node_of (mg_nodes g) k = GOther k j"
    using checked_join [OF c] node_of_other [OF multi_check_Inr(3) [OF c]] by blast
next
  assume n: "node_of (mg_nodes g) k = GOther k j"
  then have "GOther k j \<in> set (mg_nodes g)"
    by (auto simp: node_of_def find_Some_iff split: option.splits)
  then have "(k, j) \<in> set (graph_joins g)" by (simp add: multi_joins_in)
  then show "dget (graph_joins g) k = Some j"
    using multi_joins_dict [OF multi_check_Inr(3) [OF c]] by (simp add: dict_ok_def)
qed

lemma node_of_id:
  assumes "node_of nodes k = GOther i x"
  shows "i = k"
proof -
  have "find (\<lambda>n. node_id n = k) nodes = Some (GOther i x)" using assms by (auto simp: node_of_def split: option.splits)
  then have "node_id (GOther i x) = k" by (metis (mono_tags, lifting) find_Some_iff)
  then show ?thesis by simp
qed

definition charged :: "multi_hook \<Rightarrow> nat \<Rightarrow> multi_hook \<Rightarrow> bool" where
  "charged h n h' \<longleftrightarrow> mh_joins h' = mh_joins h \<and> mh_edges h' = mh_edges h \<and> mh_records h' = mh_records h + int n"

lemma charged_one: "multi_charge gl r h = Inr h' \<Longrightarrow> charged h 1 h'"
  by (auto simp: multi_charge_def charged_def split: if_splits)

lemma charged_trans: "charged a m b \<Longrightarrow> charged b n c \<Longrightarrow> charged a (m + n) c"
  by (simp add: charged_def)

lemma charged_fold: "fold_res (multi_charge gl) rs h = Inr h' \<Longrightarrow> charged h (length rs) h'"
proof (induction rs arbitrary: h)
  case (Cons r rs)
  then obtain h1 where h1: "multi_charge gl r h = Inr h1" "fold_res (multi_charge gl) rs h1 = Inr h'" by auto
  from charged_trans [OF charged_one [OF h1(1)] Cons.IH [OF h1(2)]] show ?case by simp
qed (simp add: charged_def)

lemma charged_step:
  assumes a: "apply_step lim \<lparr>on_propose = multi_propose l, on_emit = multi_charge gl\<rparr> base step cur (tx, h) = Inr (out, tx', h')"
  shows "charged h (length out) h'"
proof -
  define P :: "multi_hook apply_state \<Rightarrow> bool" where "P = (\<lambda>s. charged h (length (as_output s)) (as_hook s))"
  let ?hk = "\<lparr>on_propose = multi_propose l, on_emit = multi_charge gl\<rparr>"
  have "P (apply_start tx h)" by (simp add: P_def apply_start_def charged_def)
  moreover have "stable_call lim P" by (auto simp: stable_call_def P_def lift_invoke_def)
  moreover have "stable_emit lim ?hk P"
    unfolding stable_emit_def
  proof (intro allI impI)
    fix v k and s s' :: "multi_hook apply_state"
    assume s: "P s" and e: "emit lim ?hk v k s = Inr s'"
    obtain item where "as_output s' = as_output s @ [item]" and c: "multi_charge gl item (as_hook s) = Inr (as_hook s')"
      using emit_effect [OF e] by auto
    with charged_trans [OF _ charged_one [OF c], of h "length (as_output s)"] s show "P s'" by (simp add: P_def)
  qed
  moreover have "stable_propose lim ?hk base (step_keys step cur) P"
    by (auto simp: stable_propose_def P_def charged_def lift_propose_def multi_propose_def retention_Inr dest!: propose_effect)
  ultimately obtain s where "P s" "out = as_output s" "h' = as_hook s"
    using apply_step_invariant [OF a, of P] by blast
  then show ?thesis by (simp add: P_def)
qed

lemma charged_branch:
  assumes "fold_res (branch_item w f) items ((yes, no), tx, h) = Inr ((yes', no'), tx', h')" "on_emit (wp_hooks w) = multi_charge gl"
  shows "charged h (length items) h' \<and> length yes' + length no' = length yes + length no + length items"
  using assms(1)
proof (induction items arbitrary: yes no tx h)
  case (Cons item items)
  obtain z where z: "branch_item w f item ((yes, no), tx, h) = Inr z"
    and rest: "fold_res (branch_item w f) items z = Inr ((yes', no'), tx', h')" using Cons.prems by auto
  obtain v b tx1 h1 where c: "charge w item h = Inr h1"
    and z1: "z = (if b then (yes @ [item], no) else (yes, no @ [item]), tx1, h1)"
    using branch_item_effect [OF z] by blast
  have "charged h 1 h1" using c assms(2) by (intro charged_one) simp
  then show ?case
    using Cons.IH [of "if b then yes @ [item] else yes" "if b then no else no @ [item]" tx1 h1] rest z1
    by (cases b) (auto dest: charged_trans)
qed (simp add: charged_def)

lemma run_node_counts:
  assumes m: "multi_metered g order base j0 (tx, h)" and mail: "mail_ok batches"
    and r: "run_node (multi_walk g base0 seeds outputs) k batches (tx, h) = Inr (routed, tx', h')"
  shows "mh_edges h' = mh_edges h \<and> mh_records h + int (length (concat (map snd routed))) \<le> mh_records h'
    \<and> (\<forall>x. x \<noteq> k \<longrightarrow> dget (mh_joins h') x = dget (mh_joins h) x)
    \<and> (\<forall>j s. dget (graph_joins g) k = Some j \<longrightarrow> dget (mh_joins h) k = Some s \<longrightarrow>
         (\<exists>t. dget (mh_joins h') k = Some t
            \<and> (if dget outputs k = None then counted j s t (fold (bump j) batches (js_counts s)) else t = s)))"
proof -
  define w where "w = multi_walk g base0 seeds outputs"
  define gl where "gl = ml_graph (mg_limits g)"
  have w: "wp_seed_outputs w = outputs" "wp_nodes w = node_of (mg_nodes g)" "wp_extension w = Some (joined g)"
    "wp_hooks w = \<lparr>on_propose = multi_propose (mg_limits g), on_emit = multi_charge gl\<rparr>"
    by (simp_all add: w_def multi_walk_def gl_def)
  have c: "multi_check g = Inr order" using m by simp
  have same: ?thesis if "charged h n h'" "length (concat (map snd routed)) = n" "dget (graph_joins g) k = None \<or> dget outputs k \<noteq> None" for n
    using that by (auto simp: charged_def)
  note r' = r [folded w_def, unfolded run_node_def]
  show ?thesis
  proof (cases "dget outputs k")
    case (Some batch)
    then show ?thesis using r' by (intro same [where n = "length batch"]) (auto simp: w dest: charged_fold)
  next
    case None
    show ?thesis
    proof (cases "node_of (mg_nodes g) k")
      case (GStep step)
      then have "dget (graph_joins g) k = None" using join_node [OF c, of k] by (cases "dget (graph_joins g) k") auto
      obtain out where a: "apply_step (wp_limits w) (wp_hooks w) (wp_base w) step (node_input w k batches) (tx, h) = Inr (out, tx', h')"
          and "routed = [(None, out)]" using r' None GStep by (auto simp: w)
      with charged_step [OF a [unfolded w(4)]] show ?thesis
        using \<open>dget (graph_joins g) k = None\<close> by (intro same [where n = "length out"]) simp_all
    next
      case (GBranch i f)
      then have "dget (graph_joins g) k = None" using join_node [OF c, of k] by (cases "dget (graph_joins g) k") auto
      obtain yes no where b: "fold_res (branch_item w f) (node_input w k batches) (([], []), tx, h) = Inr ((yes, no), tx', h')"
        and "routed = [(Some True, yes), (Some False, no)]" using r' None GBranch by (auto simp: w)
      with charged_branch [OF b, of gl] show ?thesis
        using \<open>dget (graph_joins g) k = None\<close> by (intro same [where n = "length (node_input w k batches)"]) (simp_all add: w)
    next
      case (GMerge i)
      then have "dget (graph_joins g) k = None" using join_node [OF c, of k] by (cases "dget (graph_joins g) k") auto
      then show ?thesis using r' None GMerge
        by (intro same [where n = "length (node_input w k batches)"]) (auto simp: w dest: charged_fold)
    next
      case (GOther i j)
      then have "i = k" by (rule node_of_id)
      then have j: "dget (graph_joins g) k = Some j" using join_node [OF c, of k j] GOther by simp
      obtain s where s: "dget (mh_joins h) k = Some s" using joins_ok_some [OF _ j, of "mh_joins h"] m by auto
      obtain out where e: "joined g k batches (tx, h) = Inr (out, tx', h')" and ro: "routed = [(None, out)]"
        using r' None GOther by (auto simp: w)
      have "moved g order base j0 tx k j s h (fold (bump j) batches (js_counts s)) (out, h')"
        using joined_counts [OF m mail j s e] by blast
      then show ?thesis using ro None j s by (auto simp: moved_def simp del: multi_metered.simps)
    qed
  qed
qed

section \<open>Deliveries\<close>

definition box :: "(multi_edge, flow_record list) dict \<Rightarrow> multi_edge \<Rightarrow> flow_record list" where
  "box mail e = (case dget mail e of None \<Rightarrow> [] | Some rs \<Rightarrow> rs)"

lemma edge_place_at: "e \<in> set es \<Longrightarrow> edge_place e es < length es \<and> es ! edge_place e es = e"
  by (induction es) (auto simp: edge_place_def)

lemma sum_list_update_add: "i < length xs \<Longrightarrow> sum_list (xs[i := xs ! i + n]) = sum_list xs + (n::int)"
  by (induction xs arbitrary: i) (auto split: nat.splits)

lemma deliveries_counts:
  assumes "fold_res (deliver (multi_walk g base seeds outputs) routed) es (mail, h) = Inr (mail', h')"
    and "distinct es" "set es \<subseteq> set (mg_edges g)" "length (mh_edges h) = length (mg_edges g)"
    and "\<forall>e\<in>set es. dget mail e = None"
  shows "mh_joins h' = mh_joins h \<and> length (mh_edges h') = length (mg_edges g)
    \<and> (\<forall>e\<in>set (mg_edges g). mh_edges h' ! edge_place e (mg_edges g) - int (length (box mail' e))
          = mh_edges h ! edge_place e (mg_edges g) - int (length (box mail e)))
    \<and> sum_list (mh_edges h') - mh_records h' = sum_list (mh_edges h) - mh_records h
    \<and> mh_records h \<le> mh_records h'
    \<and> (\<forall>e. e \<notin> set es \<longrightarrow> dget mail' e = dget mail e)
    \<and> (\<forall>e\<in>set es. \<exists>rs. dget routed (edge_route e) = Some rs \<and> dget mail' e = Some rs)"
  using assms
proof (induction es arbitrary: mail h)
  case (Cons e es)
  define w where "w = multi_walk g base seeds outputs"
  define p where "p = edge_place e (mg_edges g)"
  obtain z where "deliver w routed e (mail, h) = Inr z" "fold_res (deliver w routed) es z = Inr (mail', h')"
    using Cons.prems(1) by (auto simp: w_def)
  then obtain m1 h1 where d: "deliver w routed e (mail, h) = Inr (m1, h1)"
    and rest: "fold_res (deliver w routed) es (m1, h1) = Inr (mail', h')" by (cases z) auto
  obtain batch h0 where b: "dget routed (edge_route e) = Some batch" and m1: "m1 = dput e batch mail"
    and dv: "multi_delivered g e (length batch) h = Inr h0" and ch: "fold_res (multi_charge (ml_graph (mg_limits g))) batch h0 = Inr h1"
    using deliver_effect [OF d] by (auto simp: w_def multi_walk_def)
  have p: "p < length (mg_edges g)" "mg_edges g ! p = e" using edge_place_at [of e "mg_edges g"] Cons.prems(3) by (simp_all add: p_def)
  have h0: "mh_edges h0 = (mh_edges h)[p := mh_edges h ! p + int (length batch)]" "mh_joins h0 = mh_joins h" "mh_records h0 = mh_records h"
    using multi_delivered_Inr [OF dv] dv by (auto simp: p_def multi_delivered_def Let_def split: prod.splits option.splits)
  have h1: "mh_edges h1 = mh_edges h0" "mh_joins h1 = mh_joins h0" "mh_records h1 = mh_records h0 + int (length batch)"
    using charged_fold [OF ch] by (simp_all add: charged_def)
  have e0: "dget mail e = None" using Cons.prems(5) by simp
  have one: "mh_edges h1 ! edge_place x (mg_edges g) - int (length (box m1 x)) = mh_edges h ! edge_place x (mg_edges g) - int (length (box mail x))"
    if x: "x \<in> set (mg_edges g)" for x
  proof (cases "x = e")
    case True
    then show ?thesis using e0 p Cons.prems(4) by (simp add: h1 h0 m1 box_def p_def)
  next
    case False
    have "edge_place x (mg_edges g) \<noteq> p" using edge_place_at [OF x] p(2) False by metis
    then show ?thesis using False by (simp add: h1 h0 m1 box_def)
  qed
  have sums: "sum_list (mh_edges h1) - mh_records h1 = sum_list (mh_edges h) - mh_records h"
    using sum_list_update_add [of p "mh_edges h"] p Cons.prems(4) by (simp add: h1 h0)
  have le: "mh_records h \<le> mh_records h1" by (simp add: h1 h0)
  have IH: "mh_joins h' = mh_joins h1 \<and> length (mh_edges h') = length (mg_edges g)
    \<and> (\<forall>e\<in>set (mg_edges g). mh_edges h' ! edge_place e (mg_edges g) - int (length (box mail' e))
          = mh_edges h1 ! edge_place e (mg_edges g) - int (length (box m1 e)))
    \<and> sum_list (mh_edges h') - mh_records h' = sum_list (mh_edges h1) - mh_records h1
    \<and> mh_records h1 \<le> mh_records h'
    \<and> (\<forall>e. e \<notin> set es \<longrightarrow> dget mail' e = dget m1 e)
    \<and> (\<forall>e\<in>set es. \<exists>rs. dget routed (edge_route e) = Some rs \<and> dget mail' e = Some rs)"
    using Cons.prems rest by (intro Cons.IH [OF rest [unfolded w_def]]) (auto simp: h1 h0 m1)
  have new: "dget mail' e = Some batch" using IH Cons.prems(2) by (simp add: m1)
  have "\<forall>x\<in>set (mg_edges g). mh_edges h' ! edge_place x (mg_edges g) - int (length (box mail' x))
      = mh_edges h ! edge_place x (mg_edges g) - int (length (box mail x))" using IH one by simp
  moreover have "dget mail' x = dget mail x" if "x \<notin> set (e # es)" for x using IH that by (simp add: m1)
  ultimately show ?case using IH sums le b new h1 h0 by auto
qed simp

section \<open>Nodes without input\<close>

lemma joined_empty:
  assumes r: "joined g k batches (tx, h) = Inr (out, tx', h')" and e: "\<forall>b\<in>set batches. snd b = []"
  shows "out = [] \<and> tx' = tx \<and> h' = h"
proof -
  have f: "fold_res (join_batch_items g k) batches ([], h) = Inr (out, h')" and tx: "tx' = tx"
    using r by (auto simp: joined_def)
  have "(out, h') = ([], h)"
    using f by (rule fold_res_invariant [where P = "\<lambda>s. s = ([], h)"]) (use e in \<open>auto simp: join_batch_items_def split: option.splits\<close>)
  with tx show ?thesis by simp
qed

lemma run_node_empty:
  assumes r: "run_node (multi_walk g base seeds outputs) k batches (tx, h) = Inr (routed, tx', h')"
    and n: "dget seeds k = None" "dget outputs k = None" and e: "\<forall>b\<in>set batches. snd b = []"
  shows "tx' = tx \<and> h' = h \<and> (\<forall>x rs. dget routed x = Some rs \<longrightarrow> rs = [])"
proof -
  define w where "w = multi_walk g base seeds outputs"
  have w: "wp_seed_outputs w = outputs" "wp_extension w = Some (joined g)" "wp_seeds w = seeds"
    by (simp_all add: w_def multi_walk_def)
  have i: "node_input w k batches = []" using e n(1) by (simp add: node_input_def w)
  note r' = r [folded w_def, unfolded run_node_def]
  show ?thesis
  proof (cases "wp_nodes w k")
    case (GOther i x)
    then obtain out where "joined g k batches (tx, h) = Inr (out, tx', h')" "routed = [(None, out)]"
      using r' n by (auto simp: w)
    with joined_empty [OF this(1) e] show ?thesis by (auto split: if_splits)
  qed (use r' n i in \<open>auto simp: w apply_step_def split: if_splits\<close>)
qed

lemma edge_place_nth:
  assumes "distinct es" "i < length es"
  shows "edge_place (es ! i) es = i"
proof -
  have "es ! i \<in> set es" using assms(2) by simp
  from edge_place_at [OF this] assms show ?thesis using nth_eq_iff_index_eq by blast
qed

section \<open>The walk of an operation\<close>

definition tallied :: "multi_graph \<Rightarrow> multi_hook \<Rightarrow> (multi_edge, flow_record list) dict \<Rightarrow> bool" where
  "tallied g h mail \<longleftrightarrow>
     (\<forall>k j s e i. dget (graph_joins g) k = Some j \<longrightarrow> dget (mh_joins h) k = Some s \<longrightarrow>
        e \<in> set (edges_into (mg_edges g) k) \<longrightarrow> side_at j e = Some i \<longrightarrow>
        js_counts s ! i + int (length (box mail e)) = mh_edges h ! edge_place e (mg_edges g))"

definition finals_kept :: "multi_graph \<Rightarrow> (pystr, join_state) dict \<Rightarrow> (pystr, join_state) dict \<Rightarrow> bool" where
  "finals_kept g a b \<longleftrightarrow>
     (\<forall>k j s t. dget (graph_joins g) k = Some j \<longrightarrow> kj_emit j = JFinal \<longrightarrow> dget a k = Some s \<longrightarrow> dget b k = Some t \<longrightarrow>
        js_emitted t = js_emitted s)"

lemma box_none [simp]: "dget mail e = None \<Longrightarrow> box mail e = []"
  by (simp add: box_def)

lemma take_mail_box: "take_mail es mail = map (\<lambda>e. (e, box mail e)) es"
  by (simp add: take_mail_def box_def)

lemma join_side_at:
  assumes c: "multi_check g = Inr order" and j: "dget (graph_joins g) k = Some j" and e: "e \<in> set (edges_into (mg_edges g) k)"
  shows "\<exists>side i. edge_side e = Some side \<and> side_index (kj_sides j) side = Inr i \<and> side_at j e = Some i \<and> i < length (kj_sides j)"
proof -
  have "GOther k j \<in> set (mg_nodes g)" using checked_join [OF c j] by blast
  then have "multi_arity_ok (mg_edges g) (map en_step (mg_entries g)) (GOther k j)"
    using multi_check_Inr(7) [OF c] unfolding list_all_iff by blast
  then have "set (map edge_side (edges_into (mg_edges g) k)) = Some ` set (kj_sides j)"
    by (simp add: multi_arity_ok_def Let_def)
  then obtain side where side: "edge_side e = Some side" "side \<in> set (kj_sides j)" using e by (metis (no_types, lifting) image_eqI imageE set_map)
  then obtain i where i: "side_index (kj_sides j) side = Inr i" by (simp add: side_index_def)
  with side side_index_Inr [OF i] show ?thesis by (simp add: side_at_def)
qed

lemma distinct_sides:
  assumes c: "multi_check g = Inr order" and j: "dget (graph_joins g) k = Some j"
  shows "distinct (map (side_at j \<circ> fst) (take_mail (edges_into (mg_edges g) k) mail))"
proof -
  have "e = e'" if e: "e \<in> set (edges_into (mg_edges g) k)" "e' \<in> set (edges_into (mg_edges g) k)" and s: "side_at j e = side_at j e'" for e e'
  proof -
    obtain a i where a: "edge_side e = Some a" "side_index (kj_sides j) a = Inr i" "side_at j e = Some i"
      using join_side_at [OF c j e(1)] by blast
    obtain b where b: "edge_side e' = Some b" "side_index (kj_sides j) b = Inr i"
      using join_side_at [OF c j e(2)] s a(3) by auto
    have "a = b" using side_index_Inr [OF a(2)] side_index_Inr [OF b(2)] by simp
    then show ?thesis using one_producer [OF c j e] a(1) b(1) by simp
  qed
  then have "inj_on (side_at j) (set (edges_into (mg_edges g) k))" by (intro inj_onI)
  moreover have "distinct (edges_into (mg_edges g) k)"
    using multi_check_Inr(6) [OF c] by (simp add: edges_into_def)
  ultimately show ?thesis by (simp add: take_mail_box comp_def distinct_map)
qed

text \<open>
  After the nodes \<open>done\<close>: mailboxes account for what joins have not taken yet, deliveries and
  outputs are covered by charged records, and before the first seed nothing has happened.
\<close>

definition untouched_walk :: "flow_tx \<Rightarrow> multi_hook \<Rightarrow> (\<lparr>edge_side :: pystr option\<rparr>, multi_hook) walk_state \<Rightarrow> bool" where
  "untouched_walk tx h s \<longleftrightarrow> ws_published s = [] \<and> ws_tx s = tx \<and> mh_joins (ws_hook s) = mh_joins h
     \<and> mh_edges (ws_hook s) = mh_edges h \<and> (\<forall>e. box (ws_mail s) e = [])"

definition walk_tally :: "multi_graph \<Rightarrow> pystr list \<Rightarrow> (state_key, pystr) dict \<Rightarrow> (pystr, join_state) dict
    \<Rightarrow> (pystr, flow_record list) dict \<Rightarrow> (pystr, flow_record list) dict \<Rightarrow> flow_tx \<Rightarrow> multi_hook
    \<Rightarrow> pystr list \<Rightarrow> (\<lparr>edge_side :: pystr option\<rparr>, multi_hook) walk_state \<Rightarrow> bool" where
  "walk_tally g order base j0 seeds outputs tx0 h0 done s \<longleftrightarrow>
     multi_metered g order base j0 (ws_tx s, ws_hook s)
     \<and> (\<forall>e rs. dget (ws_mail s) e = Some rs \<longrightarrow> list_all record_ok rs)
     \<and> list_all (\<lambda>x. record_ok (out_record x)) (ws_published s)
     \<and> dom (dget (ws_mail s)) = open_edges (mg_edges g) done
     \<and> tallied g (ws_hook s) (ws_mail s)
     \<and> sum_list (mh_edges (ws_hook s)) + int (length (ws_published s)) + mh_records h0
         \<le> sum_list (mh_edges h0) + mh_records (ws_hook s)
     \<and> finals_kept g (mh_joins h0) (mh_joins (ws_hook s))
     \<and> (seeds = [] \<and> (\<forall>k\<in>set done. dget outputs k = None) \<longrightarrow> untouched_walk tx0 h0 s)"

lemma tallied_node:
  assumes c: "multi_check g = Inr order" and t: "tallied g h mail" and k: "k \<in> set order"
    and r: "mh_edges h1 = mh_edges h" "\<forall>x. x \<noteq> k \<longrightarrow> dget (mh_joins h1) x = dget (mh_joins h) x"
    and at: "\<forall>j s. dget (graph_joins g) k = Some j \<longrightarrow> dget (mh_joins h) k = Some s \<longrightarrow>
         (\<exists>t. dget (mh_joins h1) k = Some t
            \<and> (if quiet then t = s else counted j s t (fold (bump j) (take_mail (edges_into (mg_edges g) k) mail) (js_counts s))))"
    and q: "quiet \<Longrightarrow> \<forall>e. box mail e = []" and jo: "joins_ok g (mh_joins h)"
    and d: "mh_joins h2 = mh_joins h1" "\<forall>e\<in>set (mg_edges g). mh_edges h2 ! edge_place e (mg_edges g) - int (length (box mail2 e))
          = mh_edges h1 ! edge_place e (mg_edges g) - int (length (box (fold ddel (edges_into (mg_edges g) k) mail) e))"
  shows "tallied g h2 mail2"
  unfolding tallied_def
proof (intro allI impI)
  fix x j t e i
  assume j: "dget (graph_joins g) x = Some j" and tx: "dget (mh_joins h2) x = Some t"
    and e: "e \<in> set (edges_into (mg_edges g) x)" and i: "side_at j e = Some i"
  have eg: "e \<in> set (mg_edges g)" "edge_target e = x" using e by (simp_all add: edges_into_def)
  note de = bspec [OF d(2) eg(1)]
  obtain s where s: "dget (mh_joins h) x = Some s" "join_good j s" using joins_ok_some [OF jo j] by blast
  have old: "js_counts s ! i + int (length (box mail e)) = mh_edges h ! edge_place e (mg_edges g)"
    using t j s e i unfolding tallied_def by blast
  show "js_counts t ! i + int (length (box mail2 e)) = mh_edges h2 ! edge_place e (mg_edges g)"
  proof (cases "x = k")
    case False
    then have "e \<notin> set (edges_into (mg_edges g) k)" using eg(2) by (auto simp: edges_into_def)
    then have "box (fold ddel (edges_into (mg_edges g) k) mail) e = box mail e" by (simp add: box_def dget_fold_ddel)
    moreover have "t = s" using False r(2) s tx d(1) by simp
    ultimately show ?thesis using de old r(1) by simp
  next
    case True
    then have "box (fold ddel (edges_into (mg_edges g) k) mail) e = []" using e by (simp add: dget_fold_ddel)
    then have e2: "mh_edges h2 ! edge_place e (mg_edges g) = mh_edges h ! edge_place e (mg_edges g) + int (length (box mail2 e))"
      using de r(1) by simp
    have cs: "if quiet then t = s else counted j s t (fold (bump j) (take_mail (edges_into (mg_edges g) k) mail) (js_counts s))"
      using at j s tx d(1) True by auto
    show ?thesis
    proof (cases quiet)
      case True
      then show ?thesis using cs q old e2 by simp
    next
      case False
      have "i < length (js_counts s)"
        using join_side_at [OF c j e] i s(2) by (auto simp: join_good_def join_state_ok_def Let_def)
      moreover have "(e, box mail e) \<in> set (take_mail (edges_into (mg_edges g) k) mail)"
        using e \<open>x = k\<close> by (simp add: take_mail_box)
      ultimately have "fold (bump j) (take_mail (edges_into (mg_edges g) k) mail) (js_counts s) ! i
          = js_counts s ! i + int (length (box mail e))"
        using distinct_sides [OF c j, of mail] i \<open>x = k\<close> by (intro bumps_at) simp_all
      then show ?thesis using cs False old e2 by (simp add: counted_def)
    qed
  qed
qed

text \<open>At most one node is seeded with outputs, and then no other node is seeded.\<close>

definition seeded :: "(pystr, flow_record list) dict \<Rightarrow> (pystr, flow_record list) dict \<Rightarrow> bool" where
  "seeded seeds outputs \<longleftrightarrow> seeds_ok seeds \<and> seeds_ok outputs
     \<and> (\<forall>x y. dget outputs x \<noteq> None \<longrightarrow> dget outputs y \<noteq> None \<longrightarrow> x = y) \<and> (seeds = [] \<or> outputs = [])"

lemma walk_tally_node:
  assumes ord: "order = xs @ k # ys" and sd: "seeded seeds outputs"
    and s: "walk_tally g order base j0 seeds outputs tx0 h0 xs s"
    and n: "walk_node (multi_walk g base seeds outputs) k s = Inr s'"
  shows "walk_tally g order base j0 seeds outputs tx0 h0 (xs @ [k]) s'"
proof -
  define w where "w = multi_walk g base seeds outputs"
  define ins where "ins = edges_into (mg_edges g) k"
  have w: "wp_incoming w = edges_into (mg_edges g)" "wp_outgoing w = edges_from (mg_edges g)"
    by (simp_all add: w_def multi_walk_def)
  obtain routed tx h1 mail h2 where
    r: "run_node w k (take_mail ins (ws_mail s)) (ws_tx s, ws_hook s) = Inr (routed, tx, h1)"
    and d: "fold_res (deliver w routed) (edges_from (mg_edges g) k) (fold ddel ins (ws_mail s), h1) = Inr (mail, h2)"
    and s': "ws_mail s' = mail" "ws_tx s' = tx" "ws_hook s' = h2"
    and p: "if edges_from (mg_edges g) k = []
        then \<exists>out. dget routed None = Some out
           \<and> ws_published s' = ws_published s @ map (\<lambda>r. \<lparr>out_step = k, out_record = r\<rparr>) out
        else ws_published s' = ws_published s"
    using walk_node_effect [OF n] unfolding w_def [symmetric] w ins_def by blast
  have m: "multi_metered g order base j0 (ws_tx s, ws_hook s)" and rec: "\<forall>e rs. dget (ws_mail s) e = Some rs \<longrightarrow> list_all record_ok rs"
    and dm: "dom (dget (ws_mail s)) = open_edges (mg_edges g) xs" and ta: "tallied g (ws_hook s) (ws_mail s)"
    and fin: "finals_kept g (mh_joins h0) (mh_joins (ws_hook s))"
    and un: "seeds = [] \<Longrightarrow> \<forall>k\<in>set xs. dget outputs k = None \<Longrightarrow> untouched_walk tx0 h0 s"
    and sum: "sum_list (mh_edges (ws_hook s)) + int (length (ws_published s)) + mh_records h0
         \<le> sum_list (mh_edges h0) + mh_records (ws_hook s)"
    using s by (simp_all add: walk_tally_def del: multi_metered.simps)
  have c: "multi_check g = Inr order" using m by simp
  have order: "sources_first (edges_into (mg_edges g)) order" "distinct order"
    using topological_order_Inr [OF multi_check_Inr(4) [OF c]] by auto
  have kept: "multi_metered g order base j0 (ws_tx s', ws_hook s') \<and> (\<forall>e rs. dget (ws_mail s') e = Some rs \<longrightarrow> list_all record_ok rs)
      \<and> list_all (\<lambda>x. record_ok (out_record x)) (ws_published s')"
    using multi.turn [OF _ n, of order j0] m rec sd s unfolding multi.kept_def seeded_def walk_tally_def by blast
  have mo: "mail_ok (take_mail ins (ws_mail s))"
    unfolding mail_ok_def using rec by (intro take_mail_ok) auto
  note rn = run_node_counts [OF m mo r [unfolded w_def]]
  have dist: "distinct (edges_from (mg_edges g) k)" using multi_check_Inr(6) [OF c] by (simp add: edges_from_def)
  have none: "\<forall>e\<in>set (edges_from (mg_edges g) k). dget (fold ddel ins (ws_mail s)) e = None"
  proof
    fix e assume e: "e \<in> set (edges_from (mg_edges g) k)"
    have "k \<notin> set xs" using order(2) ord by simp
    then have "e \<notin> dom (dget (ws_mail s))" using e unfolding dm by (auto simp: open_edges_def edges_from_def)
    then show "dget (fold ddel ins (ws_mail s)) e = None" by (auto simp: dget_fold_ddel)
  qed
  have len: "length (mh_edges h1) = length (mg_edges g)" using rn m by simp
  have sub: "set (edges_from (mg_edges g) k) \<subseteq> set (mg_edges g)" by (auto simp: edges_from_def)
  note dl = deliveries_counts [OF d [unfolded w_def] dist sub len none]
  have kin: "k \<in> set order" using ord by simp
  have calm: "untouched_walk tx0 h0 s" if "dget outputs k \<noteq> None"
  proof (rule un)
    show "seeds = []" using sd that by (auto simp: seeded_def)
    show "\<forall>x\<in>set xs. dget outputs x = None"
    proof (intro ballI, rule ccontr)
      fix x assume "x \<in> set xs" "dget outputs x \<noteq> None"
      moreover then have "x = k" using sd that unfolding seeded_def by blast
      ultimately show False using order(2) ord by simp
    qed
  qed
  have jo: "joins_ok g (mh_joins (ws_hook s))" using m by simp
  have tally: "tallied g h2 mail"
  proof (rule tallied_node [OF c ta kin])
    show "mh_edges h1 = mh_edges (ws_hook s)" "\<forall>x. x \<noteq> k \<longrightarrow> dget (mh_joins h1) x = dget (mh_joins (ws_hook s)) x"
      using rn by blast+
    show "\<forall>j t. dget (graph_joins g) k = Some j \<longrightarrow> dget (mh_joins (ws_hook s)) k = Some t \<longrightarrow>
         (\<exists>u. dget (mh_joins h1) k = Some u \<and> (if dget outputs k \<noteq> None then u = t
            else counted j t u (fold (bump j) (take_mail (edges_into (mg_edges g) k) (ws_mail s)) (js_counts t))))"
      using rn unfolding ins_def by (cases "dget outputs k") auto
    show "\<forall>e. box (ws_mail s) e = []" if "dget outputs k \<noteq> None" using calm [OF that] by (simp add: untouched_walk_def)
    show "joins_ok g (mh_joins (ws_hook s))" by (rule jo)
  qed (use dl in \<open>auto simp: ins_def\<close>)
  have pub: "int (length (ws_published s')) \<le> int (length (ws_published s)) + int (length (concat (map snd routed)))"
  proof (cases "edges_from (mg_edges g) k = []")
    case True
    then obtain out where "dget routed None = Some out" "ws_published s' = ws_published s @ map (\<lambda>r. \<lparr>out_step = k, out_record = r\<rparr>) out"
      using p by auto
    with dget_concat [OF this(1)] show ?thesis by simp
  qed (use p in simp)
  have "finals_kept g (mh_joins h0) (mh_joins h2)"
    unfolding finals_kept_def
  proof (intro allI impI)
    fix x j a b
    assume j: "dget (graph_joins g) x = Some j" "kj_emit j = JFinal" and a: "dget (mh_joins h0) x = Some a"
      and b: "dget (mh_joins h2) x = Some b"
    obtain t where t: "dget (mh_joins (ws_hook s)) x = Some t" using joins_ok_some [OF jo j(1)] by blast
    have "js_emitted t = js_emitted a" using fin j a t unfolding finals_kept_def by blast
    moreover have "js_emitted b = js_emitted t"
    proof (cases "x = k")
      case True
      then show ?thesis using rn j t b dl by (auto simp: counted_def split: if_splits)
    next
      case False
      then show ?thesis using rn t b dl by simp
    qed
    ultimately show "js_emitted b = js_emitted a" by simp
  qed
  moreover have "untouched_walk tx0 h0 s'" if z: "seeds = []" "\<forall>x\<in>set (xs @ [k]). dget outputs x = None"
  proof -
    have u: "untouched_walk tx0 h0 s" using un z by simp
    have e: "\<forall>b\<in>set (take_mail ins (ws_mail s)). snd b = []" using u by (auto simp: take_mail_box untouched_walk_def)
    have q: "tx = ws_tx s" "h1 = ws_hook s" and em: "\<And>x rs. dget routed x = Some rs \<Longrightarrow> rs = []"
      using run_node_empty [OF r [unfolded w_def] _ _ e] z by auto
    have b: "box mail e = []" for e
    proof (cases "e \<in> set (edges_from (mg_edges g) k)")
      case True
      then obtain rs where "dget routed (edge_route e) = Some rs" "dget mail e = Some rs" using dl by blast
      with em show ?thesis by (simp add: box_def)
    next
      case False
      then have "dget mail e = dget (fold ddel ins (ws_mail s)) e" using dl by blast
      then show ?thesis using u by (auto simp: box_def dget_fold_ddel untouched_walk_def)
    qed
    have "mh_edges h2 = mh_edges h1"
    proof (rule nth_equalityI)
      show "length (mh_edges h2) = length (mh_edges h1)" using dl len by simp
      fix i assume "i < length (mh_edges h2)"
      then have i: "i < length (mg_edges g)" using dl by simp
      have "mg_edges g ! i \<in> set (mg_edges g)" "edge_place (mg_edges g ! i) (mg_edges g) = i"
        using i edge_place_nth [OF multi_check_Inr(6) [OF c]] by auto
      moreover have "box (fold ddel ins (ws_mail s)) (mg_edges g ! i) = []"
        using u by (auto simp: box_def dget_fold_ddel untouched_walk_def)
      ultimately show "mh_edges h2 ! i = mh_edges h1 ! i" using dl b by fastforce
    qed
    moreover have "ws_published s' = []" using p em u by (auto simp: untouched_walk_def split: if_splits)
    ultimately show ?thesis using u q b s' dl by (simp add: untouched_walk_def)
  qed
  moreover have "dom (dget (ws_mail s')) = open_edges (mg_edges g) (xs @ [k])"
    by (rule walk_node_mail [OF w order ord dm n [folded w_def]])
  ultimately show ?thesis
    using kept tally s' dl rn sum pub by (simp add: walk_tally_def del: multi_metered.simps)
qed

lemma walk_counts:
  assumes wk: "walk_graph (multi_walk g base seeds outputs) order (tx, h) = Inr (published, tx', h')"
    and m: "multi_metered g order base j0 (tx, h)" and sd: "seeded seeds outputs" and t: "tallied g h []"
  shows "tallied g h' [] \<and> finals_kept g (mh_joins h) (mh_joins h')
    \<and> sum_list (mh_edges h') + int (length published) + mh_records h \<le> sum_list (mh_edges h) + mh_records h'
    \<and> (seeds = [] \<longrightarrow> outputs = [] \<longrightarrow> published = [] \<and> tx' = tx \<and> mh_joins h' = mh_joins h \<and> mh_edges h' = mh_edges h)"
proof -
  define w where "w = multi_walk g base seeds outputs"
  define s0 :: "(\<lparr>edge_side :: pystr option\<rparr>, multi_hook) walk_state" where
    "s0 = \<lparr>ws_mail = [], ws_published = [], ws_tx = tx, ws_hook = h\<rparr>"
  obtain s where f: "fold_res (walk_node w) order s0 = Inr s"
    and s: "published = ws_published s" "tx' = ws_tx s" "h' = ws_hook s"
    using wk by (auto simp: walk_graph_def w_def s0_def)
  have c: "multi_check g = Inr order" using m by simp
  have order: "sources_first (edges_into (mg_edges g)) order" "distinct order" "set order = set (map node_id (mg_nodes g))"
    using topological_order_Inr [OF multi_check_Inr(4) [OF c]] by auto
  have "walk_tally g order base j0 seeds outputs tx h order s"
    using f
  proof (rule fold_res_prefix [where P = "walk_tally g order base j0 seeds outputs tx h"])
    show "walk_tally g order base j0 seeds outputs tx h [] s0"
      using m t by (simp add: walk_tally_def s0_def open_edges_def finals_kept_def untouched_walk_def del: multi_metered.simps)
    show "walk_tally g order base j0 seeds outputs tx h (ys @ [x]) t"
      if "order = ys @ x # zs" "walk_tally g order base j0 seeds outputs tx h ys s" "walk_node w x s = Inr t" for ys x zs s t
      by (rule walk_tally_node [OF that(1) sd that(2) that(3) [unfolded w_def]])
  qed
  moreover have "ws_mail s = []"
  proof (rule walk_mail_empty [OF _ _ order(1,2) _ f])
    show "\<forall>e\<in>set (mg_edges g). edge_target e \<in> set order"
      using multi_check_Inr(5) [OF c] order(3) by (auto simp: list_all_iff port_ok_def)
  qed (simp_all add: w_def multi_walk_def s0_def)
  ultimately show ?thesis using s by (auto simp: walk_tally_def untouched_walk_def)
qed

section \<open>The history of a state\<close>

definition inputs_of :: "multi_state \<Rightarrow> int" where
  "inputs_of s = sum_list (ms_positions s)"

definition drains_of :: "multi_state \<Rightarrow> int" where
  "drains_of s = ms_operations s - inputs_of s - int (length (filter id (ms_closed s)))"

definition final_total :: "multi_graph \<Rightarrow> (pystr, join_state) dict \<Rightarrow> int" where
  "final_total g joins = (\<Sum>e\<leftarrow>graph_joins g. if kj_emit (snd e) = JFinal then js_emitted (the (dget joins (fst e))) else 0)"

definition pristine :: "join_state \<Rightarrow> bool" where
  "pristine s \<longleftrightarrow> js_cells s = [] \<and> js_emitted s = 0 \<and> list_all (\<lambda>n. n = 0) (js_counts s)"

definition multi_history :: "multi_graph \<Rightarrow> multi_state \<Rightarrow> bool" where
  "multi_history g s \<longleftrightarrow>
     (\<forall>k j js e i. dget (graph_joins g) k = Some j \<longrightarrow> dget (ms_joins s) k = Some js \<longrightarrow>
        e \<in> set (edges_into (mg_edges g) k) \<longrightarrow> side_at j e = Some i \<longrightarrow>
        js_counts js ! i = ms_edges s ! edge_place e (mg_edges g))
     \<and> 0 \<le> drains_of s \<and> drains_of s \<le> final_total g (ms_joins s) \<and> (drains_of s = 0 \<longrightarrow> final_total g (ms_joins s) = 0)
     \<and> sum_list (ms_edges s) + ms_emitted s \<le> (inputs_of s + drains_of s) * max_work_records (ml_graph (mg_limits g))
     \<and> (inputs_of s = 0 \<longrightarrow> ms_ordinary s = [] \<and> drains_of s = 0 \<and> (\<forall>(k, js)\<in>set (ms_joins s). pristine js))"

lemma final_total_eq:
  assumes "\<And>k j. dget (graph_joins g) k = Some j \<Longrightarrow> kj_emit j = JFinal \<Longrightarrow> js_emitted (the (dget a k)) = js_emitted (the (dget b k))"
    and "dict_ok (graph_joins g)"
  shows "final_total g a = final_total g b"
proof -
  have "(if kj_emit (snd e) = JFinal then js_emitted (the (dget a (fst e))) else 0)
      = (if kj_emit (snd e) = JFinal then js_emitted (the (dget b (fst e))) else 0)" if "e \<in> set (graph_joins g)" for e
  proof -
    have "dget (graph_joins g) (fst e) = Some (snd e)" using that assms(2) by (simp add: dict_ok_def)
    from assms(1) [OF this] show ?thesis by simp
  qed
  then show ?thesis unfolding final_total_def by (intro arg_cong [where f = sum_list] map_cong) auto
qed

lemma sum_list_split: "(\<Sum>e\<leftarrow>xs. f e) = (\<Sum>e\<leftarrow>filter P xs. f e) + (\<Sum>e\<leftarrow>filter (\<lambda>e. \<not> P e) xs. (f e :: int))"
  by (induction xs) auto

lemma final_total_put:
  assumes "dget (graph_joins g) k = Some j" "kj_emit j = JFinal" "dict_ok (graph_joins g)" "dget a k = Some s"
  shows "final_total g (dput k t a) = final_total g a + js_emitted t - js_emitted s"
proof -
  have split: "final_total g c = (\<Sum>e\<leftarrow>filter (\<lambda>e. fst e = k) (graph_joins g). if kj_emit (snd e) = JFinal then js_emitted (the (dget c (fst e))) else 0)
      + (\<Sum>e\<leftarrow>filter (\<lambda>e. fst e \<noteq> k) (graph_joins g). if kj_emit (snd e) = JFinal then js_emitted (the (dget c (fst e))) else 0)" for c
    unfolding final_total_def by (rule sum_list_split)
  have one: "filter (\<lambda>e. fst e = k) d = [(k, v)]" if "dict_ok d" "dget d k = Some v" for d :: "(pystr, keyed_join) dict" and v
    using that by (induction d) (force simp: dict_ok_def filter_empty_conv split: if_splits)+
  have "(\<Sum>e\<leftarrow>filter (\<lambda>e. fst e \<noteq> k) (graph_joins g). if kj_emit (snd e) = JFinal then js_emitted (the (dget (dput k t a) (fst e))) else 0)
      = (\<Sum>e\<leftarrow>filter (\<lambda>e. fst e \<noteq> k) (graph_joins g). if kj_emit (snd e) = JFinal then js_emitted (the (dget a (fst e))) else 0)"
    by (intro arg_cong [where f = sum_list] map_cong) auto
  then show ?thesis using assms unfolding split one [OF assms(3,1)] by simp
qed

text \<open>The seed of an operation.\<close>

lemma seeded_simps: "seeded [] []" "record_ok r \<Longrightarrow> seeded [(k, [r])] []" "list_all record_ok rs \<Longrightarrow> seeded [] [(k, rs)]"
  by (auto simp: seeded_def seeds_ok_def split: if_splits)

lemma task_seed_history:
  assumes inv: "multi_inv g order s" and t: "task_ok g s t"
    and e: "task_seed g t s (begin_multi s) = Inr (positions, closed, seeds, outputs, h)"
  shows "seeded seeds outputs \<and> mh_edges h = ms_edges s \<and> 0 \<le> mh_records h
    \<and> (case t of
         TDrain k n \<Rightarrow> \<exists>j js after. dget (graph_joins g) k = Some j \<and> dget (ms_joins s) k = Some js \<and> kj_emit j = JFinal
           \<and> mh_joins h = dput k after (ms_joins s) \<and> js_counts after = js_counts js \<and> js_emitted js + 1 \<le> js_emitted after
           \<and> js_cells js \<noteq> []
       | TClose i \<Rightarrow> mh_joins h = ms_joins s \<and> seeds = [] \<and> outputs = []
       | _ \<Rightarrow> mh_joins h = ms_joins s)"
proof (cases t)
  case (TInput i r)
  obtain h1 where h1: "multi_charge (ml_graph (mg_limits g)) r (begin_multi s) = Inr h1" "h = h1" "seeds = [(en_step (mg_entries g ! i), [r])]" "outputs = []"
    using e TInput by (auto simp: task_seed_def)
  have "record_ok r" using t TInput by (simp add: task_ok_def)
  then show ?thesis using charged_one [OF h1(1)] h1 TInput by (simp add: charged_def begin_multi_def seeded_simps)
next
  case (TClose i)
  with e show ?thesis by (auto simp: task_seed_def begin_multi_def seeded_simps)
next
  case (TDrain k n)
  obtain js where js: "dget (ms_joins s) k = Some js" "js_phase js = JDraining" using t TDrain by (auto simp: task_ok_def)
  obtain j after batch h1 rows where j: "dget (graph_joins g) k = Some j"
    and p: "stage_drain j (join_admit g k) js n (begin_multi s) = Inr (after, batch, h1)"
    and o1: "seeds = []" "outputs = [(k, rows)]" "h = h1\<lparr>mh_joins := dput k after (mh_joins h1)\<rparr>"
    using e TDrain js(1) by (auto simp: task_seed_def join_at_def begin_multi_def)
  have c: "multi_check g = Inr order" and jo: "joins_ok g (ms_joins s)" using inv by (simp_all add: multi_inv_def multi_cells_ok_def)
  have "join_good j js" using jo j js(1) by (auto simp: joins_ok_def)
  then have ok: "join_state_ok j js" by (simp add: join_good_def)
  have kj: "keyed_join_ok j" using checked_join [OF c j] by blast
  have d: "1 \<le> n" "after = state_drained js (drained j js n)"
    and a: "join_admit g k after (\<Sum>e\<leftarrow>drained j js n. ce_rows (snd e)) (\<Sum>e\<leftarrow>drained j js n. ce_output (snd e)) (begin_multi s) = Inr h1"
    using stage_drain_Inr [OF p] js(2) by auto
  have "drained j js n \<noteq> []" by (rule drained_nonempty [OF kj ok js(2) d(1)])
  then have "1 \<le> int (length (drained j js n))" by (cases "drained j js n") auto
  then have rows: "1 \<le> (\<Sum>e\<leftarrow>drained j js n. ce_rows (snd e))" using drained_rows [OF ok, of n] by linarith
  have at: "dget (mh_joins (begin_multi s)) k = Some js" using js(1) by (simp add: begin_multi_def)
  have h1: "mh_joins h1 = ms_joins s" "mh_edges h1 = ms_edges s" "mh_records h1 = 0"
    using join_admit_Inr [OF a at] a by (auto simp: begin_multi_def join_admit_def Let_def retention_Inr)
  have f: "kj_emit j = JFinal" "js_cells js \<noteq> []" using ok js(2) by (simp_all add: join_state_ok_def Let_def)
  have "list_all record_ok rows" using task_seed_ok [OF inv t e] o1 by (auto simp: seeds_ok_def simp del: multi_metered.simps)
  then have "seeded seeds outputs" by (simp add: o1 seeded_simps)
  with j js f rows h1 d(2) o1 TDrain show ?thesis by (auto simp: state_drained_def Let_def)
qed

section \<open>One operation\<close>

lemma filter_closed: "i < length xs \<Longrightarrow> \<not> xs ! i \<Longrightarrow> length (filter id (xs[i := True])) = length (filter id xs) + 1"
  by (induction xs arbitrary: i) (auto split: nat.splits)

lemma commit_nothing: "commit_tx base (begin_tx base bytes) = (base, bytes)"
  by (simp add: commit_tx_def begin_tx_def)

text \<open>What an operation does to its joins, apart from closing their sides.\<close>

lemma multi_execute_parts:
  assumes inv: "multi_inv g order s" and his: "multi_history g s" and t: "task_ok g s t"
    and e: "multi_execute g order t s = Inr (after, b)"
  shows "\<exists>seeds outputs h h2. seeded seeds outputs
    \<and> task_seed g t s (begin_multi s) = Inr (ms_positions after, ms_closed after, seeds, outputs, h)
    \<and> tallied g h2 [] \<and> finals_kept g (mh_joins h) (mh_joins h2)
    \<and> ms_edges after = mh_edges h2 \<and> joins_ok g (mh_joins h) \<and> joins_ok g (mh_joins h2)
    \<and> (\<forall>k u. dget (mh_joins h2) k = Some u \<longrightarrow> (\<exists>v. dget (ms_joins after) k = Some v \<and> js_counts v = js_counts u
          \<and> js_emitted v = js_emitted u \<and> set (js_cells v) \<subseteq> set (js_cells u)))
    \<and> sum_list (ms_edges after) + ms_emitted after \<le> sum_list (ms_edges s) + ms_emitted s
        + (if seeds = [] \<and> outputs = [] then 0 else max_work_records (ml_graph (mg_limits g)))
    \<and> (seeds = [] \<longrightarrow> outputs = [] \<longrightarrow> ms_ordinary after = ms_ordinary s \<and> mh_joins h2 = mh_joins h \<and> ms_emitted after = ms_emitted s)"
proof -
  define base where "base = ms_ordinary s"
  obtain positions closed seeds outputs h published tx h2 eof h3 where
    sd: "task_seed g t s (begin_multi s) = Inr (positions, closed, seeds, outputs, h)"
    and wk: "walk_graph (multi_walk g base seeds outputs) order (begin_tx base (ms_ordinary_bytes s), h) = Inr (published, tx, h2)"
    and en: "fold_res (end_node g closed) order ([], h2) = Inr (eof, h3)"
    and fin: "commit_multi order s positions closed (published, tx, h3) = Inr (after, b)"
    using e by (auto simp: multi_execute_def base_def)
  obtain ordinary bytes where cm: "commit_tx base tx = (ordinary, bytes)"
    and after: "ms_ordinary after = ordinary" "ms_joins after = mh_joins h3" "ms_positions after = positions" "ms_closed after = closed"
      "ms_edges after = mh_edges h3" "ms_emitted after = ms_emitted s + int (length published)"
    using fin by (cases "commit_tx base tx") (auto simp: commit_multi_def base_def Let_def)
  have c: "multi_check g = Inr order" and cells: "multi_cells_ok g s" and pos: "multi_positions_ok g s"
    and em0: "ends_match g (ms_closed s) (ms_joins s)"
    using inv by (simp_all add: multi_inv_def)
  note seed = task_seed_ok [OF inv t sd]
  have m0: "multi_metered g order base (mh_joins h) (begin_tx base (ms_ordinary_bytes s), h)" using seed by (simp add: base_def)
  have W: "multi_metered g order base (mh_joins h) (tx, h2)"
    using multi.walk [OF wk] seed unfolding base_def by blast
  note sh = task_seed_history [OF inv t sd]
  have jo: "joins_ok g (ms_joins s)" using cells by (simp add: multi_cells_ok_def)
  have jh: "joins_ok g (mh_joins h)" using m0 by simp
  have tally: "tallied g h []"
    unfolding tallied_def
  proof (intro allI impI)
    fix k j u e i
    assume j: "dget (graph_joins g) k = Some j" and u: "dget (mh_joins h) k = Some u"
      and e: "e \<in> set (edges_into (mg_edges g) k)" "side_at j e = Some i"
    obtain js where js: "dget (ms_joins s) k = Some js" using joins_ok_some [OF jo j] by blast
    have "js_counts u = js_counts js"
    proof (cases t)
      case (TDrain k' n)
      then obtain j' js' after' where "dget (ms_joins s) k' = Some js'" "mh_joins h = dput k' after' (ms_joins s)" "js_counts after' = js_counts js'"
        using sh by auto
      then show ?thesis using u js by (auto split: if_splits)
    qed (use sh u js in auto)
    moreover have "js_counts js ! i = ms_edges s ! edge_place e (mg_edges g)"
      using his j js e unfolding multi_history_def by blast
    ultimately show "js_counts u ! i + int (length (box [] e)) = mh_edges h ! edge_place e (mg_edges g)" using sh by simp
  qed
  have sdd: "seeded seeds outputs" using sh by blast
  note wc = walk_counts [OF wk m0 sdd tally]
  have mono: "closed ! i" if "i < length (mg_entries g)" "ms_closed s ! i" for i
    using that seed pos t by (cases t) (auto simp: task_ok_def nth_list_update multi_positions_ok_def)
  have "joins_walked (mh_joins h) (mh_joins h2)" using W by simp
  then have held: "joins_held (ms_joins s) (mh_joins h2)" using joins_held_walked seed by blast
  note ends = ends_pass [OF en W held em0 jo mono]
  have work: "mh_records h2 \<le> max_work_records (ml_graph (mg_limits g))" using W by (simp add: owed_ok_def)
  have edges: "ms_edges after = mh_edges h2" using ends after by simp
  have jh2: "joins_ok g (mh_joins h2)" using W by simp
  have same: "\<forall>k u. dget (mh_joins h2) k = Some u \<longrightarrow> (\<exists>v. dget (ms_joins after) k = Some v \<and> js_counts v = js_counts u
          \<and> js_emitted v = js_emitted u \<and> set (js_cells v) \<subseteq> set (js_cells u))"
    using ends after by simp
  have sum: "sum_list (ms_edges after) + ms_emitted after \<le> sum_list (ms_edges s) + ms_emitted s
        + (if seeds = [] \<and> outputs = [] then 0 else max_work_records (ml_graph (mg_limits g)))"
  proof (cases "seeds = [] \<and> outputs = []")
    case True
    then show ?thesis using wc sh edges after by simp
  next
    case False
    have "sum_list (mh_edges h2) + int (length published) \<le> sum_list (ms_edges s) + max_work_records (ml_graph (mg_limits g))"
    proof -
      have "sum_list (mh_edges h2) + int (length published) + mh_records h \<le> sum_list (mh_edges h) + mh_records h2" using wc by blast
      moreover have "mh_edges h = ms_edges s" "0 \<le> mh_records h" using sh by blast+
      ultimately show ?thesis using work by simp
    qed
    then show ?thesis using False edges after by auto
  qed
  have quiet: "ms_ordinary after = ms_ordinary s \<and> mh_joins h2 = mh_joins h \<and> ms_emitted after = ms_emitted s"
    if "seeds = []" "outputs = []"
  proof -
    have "published = []" "tx = begin_tx base (ms_ordinary_bytes s)" "mh_joins h2 = mh_joins h" using wc that by blast+
    then show ?thesis using cm after by (simp add: commit_nothing) (simp add: base_def)
  qed
  have "task_seed g t s (begin_multi s) = Inr (ms_positions after, ms_closed after, seeds, outputs, h)" using sd after by simp
  then show ?thesis using sdd wc edges jh jh2 same sum quiet by blast
qed

lemma history_of_task:
  assumes "multi_execute g order t s = Inr (after, b)" "multi_inv g order s" "task_ok g s t"
  shows "ms_operations after = ms_operations s + 1
    \<and> (case t of
         TInput i r \<Rightarrow> inputs_of after = inputs_of s + 1 \<and> drains_of after = drains_of s
       | TClose i \<Rightarrow> inputs_of after = inputs_of s \<and> drains_of after = drains_of s
       | TDrain k n \<Rightarrow> inputs_of after = inputs_of s \<and> drains_of after = drains_of s + 1)"
proof -
  have len: "length (ms_closed s) = length (mg_entries g)" "length (ms_positions s) = length (mg_entries g)"
    using assms(2) by (simp_all add: multi_inv_def multi_positions_ok_def)
  have "ms_operations after = ms_operations s + 1"
    "ms_closed after = (case t of TClose i \<Rightarrow> (ms_closed s)[i := True] | _ \<Rightarrow> ms_closed s)"
    "ms_positions after = (case t of TInput i r \<Rightarrow> (ms_positions s)[i := ms_positions s ! i + 1] | _ \<Rightarrow> ms_positions s)"
    using multi_execute_ok [OF assms(2,3,1)] by blast+
  with assms(3) len show ?thesis
    by (cases t) (simp_all add: inputs_of_def drains_of_def task_ok_def sum_list_bump filter_closed)
qed

lemma pristine_joins:
  assumes c: "multi_check g = Inr order" and jo: "joins_ok g a" "joins_ok g b" and p: "\<forall>(k, js)\<in>set a. pristine js"
    and same: "\<forall>k u. dget a k = Some u \<longrightarrow> (\<exists>v. dget b k = Some v \<and> js_counts v = js_counts u
          \<and> js_emitted v = js_emitted u \<and> set (js_cells v) \<subseteq> set (js_cells u))"
  shows "\<forall>(k, js)\<in>set b. pristine js"
proof safe
  fix k v assume "(k, v) \<in> set b"
  then have v: "dget b k = Some v" using joins_ok_dict [OF c jo(2)] by (simp add: dict_ok_def)
  obtain j where "dget (graph_joins g) k = Some j" using joins_ok_at [OF jo(2) v] by blast
  then obtain u where u: "dget a k = Some u" using joins_ok_some [OF jo(1)] by blast
  then have "(k, u) \<in> set a" by (rule map_of_SomeD)
  then have "pristine u" using p by blast
  moreover obtain v' where "dget b k = Some v'" "js_counts v' = js_counts u" "js_emitted v' = js_emitted u" "set (js_cells v') \<subseteq> set (js_cells u)"
    using same u by blast
  ultimately show "pristine v" using v by (simp add: pristine_def)
qed

lemma multi_execute_history:
  assumes inv: "multi_inv g order s" and his: "multi_history g s" and t: "task_ok g s t"
    and e: "multi_execute g order t s = Inr (after, b)"
  shows "multi_history g after"
proof -
  obtain seeds outputs h h2 where sd: "task_seed g t s (begin_multi s) = Inr (ms_positions after, ms_closed after, seeds, outputs, h)"
    and ta: "tallied g h2 []" and fk: "finals_kept g (mh_joins h) (mh_joins h2)" and ed: "ms_edges after = mh_edges h2"
    and jh: "joins_ok g (mh_joins h)" "joins_ok g (mh_joins h2)"
    and same: "\<forall>k u. dget (mh_joins h2) k = Some u \<longrightarrow> (\<exists>v. dget (ms_joins after) k = Some v \<and> js_counts v = js_counts u
          \<and> js_emitted v = js_emitted u \<and> set (js_cells v) \<subseteq> set (js_cells u))"
    and sum: "sum_list (ms_edges after) + ms_emitted after \<le> sum_list (ms_edges s) + ms_emitted s
        + (if seeds = [] \<and> outputs = [] then 0 else max_work_records (ml_graph (mg_limits g)))"
    and quiet: "seeds = [] \<Longrightarrow> outputs = [] \<Longrightarrow> ms_ordinary after = ms_ordinary s \<and> mh_joins h2 = mh_joins h \<and> ms_emitted after = ms_emitted s"
    using multi_execute_parts [OF inv his t e] by blast
  note sh = task_seed_history [OF inv t sd]
  note op = history_of_task [OF e inv t]
  have inv': "multi_inv g order after" using multi_execute_ok [OF inv t e] by blast
  have c: "multi_check g = Inr order" and jo: "joins_ok g (ms_joins s)" using inv by (simp_all add: multi_inv_def multi_cells_ok_def)
  have jo': "joins_ok g (ms_joins after)" using inv' by (simp add: multi_inv_def multi_cells_ok_def)
  have d: "dict_ok (graph_joins g)" by (rule multi_joins_dict [OF multi_check_Inr(3) [OF c]])
  have fin2: "final_total g (ms_joins after) = final_total g (mh_joins h)"
  proof (rule final_total_eq [OF _ d])
    fix k j assume j: "dget (graph_joins g) k = Some j" "kj_emit j = JFinal"
    obtain a where a: "dget (mh_joins h) k = Some a" using joins_ok_some [OF jh(1) j(1)] by blast
    obtain u where u: "dget (mh_joins h2) k = Some u" using joins_ok_some [OF jh(2) j(1)] by blast
    have "js_emitted u = js_emitted a" using fk j a u unfolding finals_kept_def by blast
    with same u a show "js_emitted (the (dget (ms_joins after) k)) = js_emitted (the (dget (mh_joins h) k))" by fastforce
  qed
  have fin: "case t of TDrain k n \<Rightarrow> final_total g (ms_joins s) + 1 \<le> final_total g (ms_joins after)
      | _ \<Rightarrow> final_total g (ms_joins after) = final_total g (ms_joins s)"
  proof (cases t)
    case (TDrain k n)
    then obtain j js a where "dget (graph_joins g) k = Some j" "dget (ms_joins s) k = Some js" "kj_emit j = JFinal"
        "mh_joins h = dput k a (ms_joins s)" "js_emitted js + 1 \<le> js_emitted a"
      using sh by auto
    with final_total_put [OF this(1,3) d this(2), of a] fin2 TDrain show ?thesis by simp
  qed (use sh fin2 in auto)
  have counts: "js_counts js ! i = ms_edges after ! edge_place e (mg_edges g)"
    if "dget (graph_joins g) k = Some j" "dget (ms_joins after) k = Some js" "e \<in> set (edges_into (mg_edges g) k)" "side_at j e = Some i"
    for k j js e i
  proof -
    note at = that
    obtain u where u: "dget (mh_joins h2) k = Some u" using joins_ok_some [OF jh(2) at(1)] by blast
    then have "js_counts js = js_counts u" using same at(2) by fastforce
    moreover have "js_counts u ! i = mh_edges h2 ! edge_place e (mg_edges g)"
      using ta at(1,3,4) u unfolding tallied_def by fastforce
    ultimately show ?thesis using ed by simp
  qed
  have zero: "ms_ordinary after = [] \<and> drains_of after = 0 \<and> (\<forall>(k, js)\<in>set (ms_joins after). pristine js)" if z: "inputs_of after = 0"
  proof (cases t)
    case (TInput i r)
    have "0 \<le> inputs_of s" using inv by (auto simp: inputs_of_def multi_inv_def multi_positions_ok_def intro: sum_list_nonneg)
    with z op TInput show ?thesis by simp
  next
    case (TClose i)
    then have p: "ms_ordinary s = []" "drains_of s = 0" "\<forall>(k, js)\<in>set (ms_joins s). pristine js"
      using his z op by (simp_all add: multi_history_def)
    have "mh_joins h2 = ms_joins s" "ms_ordinary after = ms_ordinary s" using quiet sh TClose by auto
    with pristine_joins [OF c jo jo' p(3)] same p op TClose show ?thesis by simp
  next
    case (TDrain k n)
    then obtain js where js: "dget (ms_joins s) k = Some js" "js_cells js \<noteq> []" using sh by auto
    have "\<forall>(k, js)\<in>set (ms_joins s). pristine js" using his z op TDrain by (simp add: multi_history_def)
    with map_of_SomeD [OF js(1)] js(2) show ?thesis by (auto simp: pristine_def)
  qed
  define W where "W = max_work_records (ml_graph (mg_limits g))"
  have old: "sum_list (ms_edges s) + ms_emitted s \<le> (inputs_of s + drains_of s) * W" "0 \<le> drains_of s"
      "drains_of s \<le> final_total g (ms_joins s)" "drains_of s = 0 \<longrightarrow> final_total g (ms_joins s) = 0"
    using his by (simp_all add: multi_history_def W_def)
  have bound: "sum_list (ms_edges after) + ms_emitted after \<le> (inputs_of after + drains_of after) * W"
  proof (cases t)
    case (TClose i)
    then show ?thesis using sum sh old(1) op by simp
  next
    case (TInput i r)
    have "0 \<le> W" using multi_check_Inr(1) [OF c] by (simp add: W_def multi_limits_ok_def graph_limits_ok_def)
    then have "sum_list (ms_edges after) + ms_emitted after \<le> sum_list (ms_edges s) + ms_emitted s + W"
      using sum by (auto simp: W_def split: if_splits)
    with old(1) op TInput show ?thesis by (simp add: algebra_simps)
  next
    case (TDrain k n)
    have "0 \<le> W" using multi_check_Inr(1) [OF c] by (simp add: W_def multi_limits_ok_def graph_limits_ok_def)
    then have "sum_list (ms_edges after) + ms_emitted after \<le> sum_list (ms_edges s) + ms_emitted s + W"
      using sum by (auto simp: W_def split: if_splits)
    with old(1) op TDrain show ?thesis by (simp add: algebra_simps)
  qed
  have drains: "0 \<le> drains_of after \<and> drains_of after \<le> final_total g (ms_joins after)
      \<and> (drains_of after = 0 \<longrightarrow> final_total g (ms_joins after) = 0)"
    using old(2-4) op fin by (cases t) auto
  show ?thesis
    unfolding multi_history_def using counts drains bound zero by (auto simp: W_def)
qed

lemma empty_multi_history:
  assumes c: "multi_check g = Inr order"
  shows "multi_history g (empty_multi_state g)"
proof -
  have at: "dget (ms_joins (empty_multi_state g)) k = map_option empty_join_state (dget (graph_joins g) k)" for k
    by (simp add: empty_multi_state_def empty_joins_at)
  have final: "final_total g (ms_joins (empty_multi_state g)) = (\<Sum>e\<leftarrow>graph_joins g. 0)"
  proof -
    have "js_emitted (the (dget (ms_joins (empty_multi_state g)) k)) = 0" if "(k, j) \<in> set (graph_joins g)" for k j
      using that multi_joins_dict [OF multi_check_Inr(3) [OF c]] by (simp add: at dict_ok_def empty_join_state_def)
    then show ?thesis unfolding final_total_def by (intro arg_cong [where f = sum_list] map_cong) auto
  qed
  have counts: "js_counts js ! i = ms_edges (empty_multi_state g) ! edge_place e (mg_edges g)"
    if "dget (graph_joins g) k = Some j" "dget (ms_joins (empty_multi_state g)) k = Some js"
      "e \<in> set (edges_into (mg_edges g) k)" "side_at j e = Some i" for k j js e i
  proof -
    have "i < length (kj_sides j)" using join_side_at [OF c that(1,3)] that(4) by auto
    moreover have "edge_place e (mg_edges g) < length (mg_edges g)" using edge_place_at [of e "mg_edges g"] that(3) by (simp add: edges_into_def)
    moreover have "js = empty_join_state j" using that(1,2) unfolding at by simp
    ultimately show ?thesis by (simp add: empty_join_state_def empty_multi_state_def)
  qed
  have "pristine (empty_join_state j)" for j by (simp add: pristine_def empty_join_state_def list_all_iff)
  then have pris: "\<forall>(k, js)\<in>set (ms_joins (empty_multi_state g)). pristine js" by (auto simp: empty_multi_state_def)
  have none: "filter id (replicate n False) = []" for n by (induction n) auto
  have zero: "inputs_of (empty_multi_state g) = 0" "drains_of (empty_multi_state g) = 0"
    "sum_list (ms_edges (empty_multi_state g)) + ms_emitted (empty_multi_state g) = 0" "ms_ordinary (empty_multi_state g) = []"
    by (simp_all add: inputs_of_def drains_of_def empty_multi_state_def sum_list_replicate none)
  show ?thesis
    unfolding multi_history_def zero final using counts pris by (intro conjI) simp_all
qed

lemma multi_stage_history:
  assumes "multi_inv g order s" "multi_history g s" "multi_op_ok op" "multi_stage g order op s = Inr (after, b)"
  shows "multi_history g after"
  using multi_stage_cases [OF assms(4,3)]
proof
  assume "\<exists>t. task_ok g s t \<and> multi_execute g order t s = Inr (after, b)"
  then show ?thesis using multi_execute_history [OF assms(1,2)] by blast
qed (use assms(2) in simp)

definition multi_recorded :: "multi_runtime \<Rightarrow> bool" where
  "multi_recorded rt \<longleftrightarrow> multi_rt_inv rt \<and> multi_history (mr_flow rt) (mr_state rt)"

interpretation multi_recorded: atomic_runtime multi_apply multi_recorded multi_op_ok
proof unfold_locales
  show "s' = s" if "multi_apply p s = (Inl e, s')" for p s e s'
    using that by (rule multi_apply_Inl)
  show "multi_recorded s'" if "multi_recorded s" "multi_op_ok p" "multi_apply p s = (Inr b, s')" for p s b s'
  proof -
    note a = multi_apply_Inr [OF that(3)]
    have i: "multi_inv (mr_flow s) (mr_order s) (mr_state s)" "multi_history (mr_flow s) (mr_state s)"
      using that(1) by (simp_all add: multi_recorded_def multi_rt_inv_def)
    have st: "multi_stage (mr_flow s) (mr_order s) p (mr_state s) = Inr (mr_state s', b)" and fl: "mr_flow s' = mr_flow s"
      using a by blast+
    have "multi_rt_inv s" using that(1) by (simp add: multi_recorded_def)
    then have "multi_rt_inv s'" using that(2,3) by (rule multi.kept)
    then show ?thesis using multi_stage_history [OF i that(2) st] by (simp add: multi_recorded_def fl)
  qed
qed

lemma make_multi_recorded:
  assumes "make_multi_runtime g = Inr rt"
  shows "multi_recorded rt \<and> mr_flow rt = g"
proof -
  obtain order where c: "multi_check g = Inr order" and s: "mr_state rt = empty_multi_state g"
    using assms by (auto simp: make_multi_runtime_def)
  have "multi_history g (mr_state rt)" unfolding s by (rule empty_multi_history [OF c])
  then show ?thesis using make_multi_inv [OF assms] by (simp add: multi_recorded_def)
qed

end
