(* ===== verification/Multi_Checkpoint.thy ===== *)
theory Multi_Checkpoint
  imports Multi_Graph
begin

text \<open>
  \<open>multi_checkpoint.py\<close> and the checkpoints of \<open>multi_graph.py\<close>: the validated snapshot of a
  multi-source graph, its document with the admission pass that bounds the state before any value
  is parsed, and the restoration with its cross-checks of positions, counters and ended sources.
\<close>

section \<open>Admission\<close>

record admission =
  ad_cells :: int
  ad_values :: int
  ad_bytes :: int

definition no_admission :: admission where
  "no_admission = \<lparr>ad_cells = 0, ad_values = 0, ad_bytes = 0\<rparr>"

definition admit_more :: "int \<Rightarrow> int \<Rightarrow> int \<Rightarrow> admission \<Rightarrow> admission res" where
  "admit_more cells values bytes a =
     (let a = \<lparr>ad_cells = ad_cells a + cells, ad_values = ad_values a + values, ad_bytes = ad_bytes a + bytes\<rparr>
      in if MAX_MULTI_CELLS < ad_cells a \<or> MAX_MULTI_VALUES < ad_values a \<or> MAX_MULTI_STATE < ad_bytes a
         then Inl ValidationError else Inr a)"

definition admit_ordinary :: "pystr \<times> pystr \<times> pystr \<Rightarrow> admission \<Rightarrow> admission res" where
  "admit_ordinary cell a =
     (let (step, k, v) = cell
      in rbind (key (PStr step)) (\<lambda>_. rbind (key (PStr k)) (\<lambda>_.
         if jl_value_bytes hard_limits < int (length v) then Inl ValidationError
         else if \<not> utf8_ok v then Inl ValidationError
         else if jl_value_bytes hard_limits < byte_len v then Inl ValidationError
         else admit_more 1 0 (multi_ordinary_bytes (step, k) (Some v)) a)))"

definition admit_join_cell :: "pystr \<Rightarrow> nat \<Rightarrow> pystr \<times> pystr list list \<Rightarrow> admission \<Rightarrow> admission res" where
  "admit_join_cell step n cell a =
     rbind (shape (fst cell) (snd cell) n hard_limits) (\<lambda>(cnt, size).
       admit_more 1 cnt (size + join_overhead step) a)"

definition admit_join_cells :: "pystr \<Rightarrow> nat \<Rightarrow> (pystr \<times> pystr list list) list \<Rightarrow> admission \<Rightarrow> admission res" where
  "admit_join_cells step n cells a =
     (if MAX_MULTI_CELLS < int (length cells) then Inl ValidationError
      else fold_res (admit_join_cell step n) cells a)"

section \<open>Checkpoints\<close>

record multi_checkpoint =
  mc_identity :: pystr
  mc_sources :: "(pystr \<times> int \<times> bool) list"
  mc_cells :: "(pystr \<times> pystr \<times> pystr) list"
  mc_joins :: "(pystr \<times> join_checkpoint) list"
  mc_edges :: "int list"
  mc_operations :: int
  mc_emitted :: int

text \<open>One source: the names so far, the total of the positions and the number of ended sources.\<close>

definition check_source :: "pystr \<times> int \<times> bool \<Rightarrow> pystr list \<times> int \<times> int \<Rightarrow> (pystr list \<times> int \<times> int) res" where
  "check_source source s =
     (let (name, position, eof) = source; (seen, inputs, closed) = s
      in rbind (key (PStr name)) (\<lambda>_. rbind (count position 0 MAX_COUNT) (\<lambda>_.
         if name \<in> set seen then Inl ValidationError
         else Inr (seen @ [name], inputs + position, closed + (if eof then 1 else 0)))))"

definition check_ordinary :: "pystr \<times> pystr \<times> pystr \<Rightarrow> admission \<times> state_key option \<Rightarrow> (admission \<times> state_key option) res" where
  "check_ordinary cell s =
     rbind (admit_ordinary cell (fst s)) (\<lambda>a.
       let pair = (fst cell, fst (snd cell))
       in if (case snd s of None \<Rightarrow> False | Some p \<Rightarrow> pair \<le> p) then Inl ValidationError
          else Inr (a, Some pair))"

definition check_join_entry :: "pystr \<times> join_checkpoint \<Rightarrow> admission \<times> pystr list \<Rightarrow> (admission \<times> pystr list) res" where
  "check_join_entry entry s =
     (let (step, c) = entry; (a, seen) = s
      in rbind (key (PStr step)) (\<lambda>_.
         if step \<in> set seen then Inl ValidationError
         else if \<not> (2 \<le> length (jc_sides c) \<and> length (jc_sides c) \<le> 16) then Inl ValidationError
         else rbind (admit_join_cells step (length (jc_sides c)) (jc_cells c) a) (\<lambda>a.
                Inr (a, seen @ [step]))))"

definition untouched :: "multi_checkpoint \<Rightarrow> bool" where
  "untouched c \<longleftrightarrow> mc_cells c = [] \<and> mc_emitted c = 0 \<and> list_all (\<lambda>n. n = 0) (mc_edges c)
     \<and> list_all (\<lambda>(_, j). jc_cells j = [] \<and> jc_emitted j = 0 \<and> list_all (\<lambda>n. n = 0) (jc_counts j)) (mc_joins c)"

definition multi_checkpoint_check :: "multi_checkpoint \<Rightarrow> multi_checkpoint res" where
  "multi_checkpoint_check c =
     (if \<not> is_hex64 (mc_identity c) then Inl ValidationError
      else if \<not> (1 \<le> length (mc_sources c) \<and> length (mc_sources c) \<le> 16) then Inl ValidationError
      else rbind (fold_res check_source (mc_sources c) ([], 0, 0)) (\<lambda>(_, inputs, closed).
           rbind (count inputs 0 MAX_COUNT) (\<lambda>_.
           rbind (count (mc_operations c) (inputs + closed) MAX_COUNT) (\<lambda>_.
           rbind (count (mc_emitted c) 0 MAX_COUNT) (\<lambda>_.
           if 256 < length (mc_edges c) then Inl ValidationError
           else rbind (map_res (\<lambda>n. count n 0 MAX_COUNT) (mc_edges c)) (\<lambda>_.
           if MAX_MULTI_CELLS < int (length (mc_cells c)) then Inl ValidationError
           else if 16 < length (mc_joins c) then Inl ValidationError
           else rbind (fold_res check_ordinary (mc_cells c) (no_admission, None)) (\<lambda>(a, _).
           rbind (fold_res check_join_entry (mc_joins c) (a, [])) (\<lambda>_.
           rbind (fold_res (\<lambda>(_, _, encoded) _. check_join_text encoded) (mc_cells c) ()) (\<lambda>_.
           rbind (fold_res (\<lambda>(_, j) _. rbind (join_checkpoint_check j) (\<lambda>_. Inr ())) (mc_joins c) ()) (\<lambda>_.
             if inputs = 0 \<and> \<not> untouched c then Inl ValidationError else Inr c))))))))))"

definition source_doc :: "pystr \<times> int \<times> bool \<Rightarrow> json" where
  "source_doc s = JObj
     [jfield ''source_id'' (JStr (fst s)), jfield ''next_position'' (JInt (fst (snd s))),
      jfield ''closed'' (JBool (snd (snd s)))]"

definition multi_cell_doc :: "pystr \<times> pystr \<times> pystr \<Rightarrow> json" where
  "multi_cell_doc c = JObj
     [jfield ''step'' (JStr (fst c)), jfield ''key'' (JStr (fst (snd c))), jfield ''value'' (JStr (snd (snd c)))]"

definition join_entry_doc :: "pystr \<times> join_checkpoint \<Rightarrow> json" where
  "join_entry_doc j = JObj
     [jfield ''step'' (JStr (fst j)), jfield ''checkpoint'' (join_checkpoint_to_dict (snd j))]"

definition multi_checkpoint_to_dict :: "multi_checkpoint \<Rightarrow> json" where
  "multi_checkpoint_to_dict c = JObj
     [jfield ''kind'' (JStr (lit ''stream-quilt-multisource-graph-checkpoint'')),
      jfield ''version'' (JStr (lit ''1.0'')), jfield ''identity'' (JStr (mc_identity c)),
      jfield ''sources'' (JArr (map source_doc (mc_sources c))),
      jfield ''cells'' (JArr (map multi_cell_doc (mc_cells c))),
      jfield ''joins'' (JArr (map join_entry_doc (mc_joins c))),
      jfield ''edge_counts'' (JArr (map JInt (mc_edges c))),
      jfield ''operation_sequence'' (JInt (mc_operations c)),
      jfield ''emitted_records'' (JInt (mc_emitted c))]"

definition multi_checkpoint_to_json :: "multi_checkpoint \<Rightarrow> pystr res" where
  "multi_checkpoint_to_json c =
     rbind (multi_checkpoint_check c) (\<lambda>c.
       let payload = dumps (multi_checkpoint_to_dict c)
       in if MAX_DOCUMENT_BYTES < byte_len payload then Inl ValidationError else Inr payload)"

section \<open>Reading a document\<close>

definition read_source :: "json \<Rightarrow> (pystr \<times> int \<times> bool) res" where
  "read_source doc =
     rbind (doc_fields [''source_id'', ''next_position'', ''closed''] doc) (\<lambda>kvs.
     rbind (read_field kvs ''source_id'' read_str) (\<lambda>name.
     rbind (read_field kvs ''next_position'' read_int) (\<lambda>position.
     rbind (read_field kvs ''closed'' read_bool) (\<lambda>eof. Inr (name, position, eof)))))"

definition read_multi_cell :: "json \<Rightarrow> (pystr \<times> pystr \<times> pystr) res" where
  "read_multi_cell doc =
     rbind (doc_fields [''step'', ''key'', ''value''] doc) (\<lambda>kvs.
     rbind (read_field kvs ''step'' read_str) (\<lambda>step.
     rbind (read_field kvs ''key'' read_str) (\<lambda>k.
     rbind (read_field kvs ''value'' read_str) (\<lambda>v. Inr (step, k, v)))))"

definition read_saved_cell :: "json \<Rightarrow> (pystr \<times> pystr list list) res" where
  "read_saved_cell doc =
     rbind (doc_fields [''key'', ''values''] doc) (\<lambda>kvs.
     rbind (read_field kvs ''key'' read_str) (\<lambda>k.
     rbind (read_field kvs ''values'' (read_list (read_list read_str))) (\<lambda>values. Inr (k, values))))"

text \<open>The admission of a nested join document, before \<open>JoinCheckpoint.from_dict\<close> reads it.\<close>

definition admit_join_doc :: "pystr \<Rightarrow> json \<Rightarrow> admission \<Rightarrow> admission res" where
  "admit_join_doc step doc a =
     rbind (doc_fields [''kind'', ''version'', ''identity'', ''sides'', ''closed_sides'', ''phase'',
                        ''processed_inputs'', ''emitted_rows'', ''cells''] doc) (\<lambda>kvs.
     rbind (doc_get kvs ''kind'') (\<lambda>kind. rbind (doc_get kvs ''version'') (\<lambda>version.
     if kind \<noteq> JStr (lit ''stream-quilt-join-checkpoint'') \<or> version \<noteq> JStr (lit ''1.0'')
     then Inl ValidationError
     else
       rbind (read_field kvs ''sides'' (read_side_list read_str)) (\<lambda>sides.
       rbind (read_field kvs ''identity'' read_str) (\<lambda>identity.
       if \<not> is_hex64 identity \<or> \<not> list_all is_label sides \<or> \<not> distinct sides then Inl ValidationError
       else
         rbind (read_field kvs ''closed_sides'' (read_list read_bool)) (\<lambda>closed.
         rbind (read_field kvs ''processed_inputs'' (read_list read_int)) (\<lambda>counts.
         if length closed \<noteq> length sides \<or> length counts \<noteq> length sides then Inl ValidationError
         else
           rbind (map_res (\<lambda>n. count n 0 MAX_COUNT) counts) (\<lambda>_.
           rbind (count (sum_list counts) 0 MAX_COUNT) (\<lambda>_.
           rbind (rbind (read_field kvs ''emitted_rows'' read_int) (\<lambda>n. count n 0 MAX_COUNT)) (\<lambda>_.
           rbind (read_field kvs ''phase'' read_phase) (\<lambda>_.
           rbind (read_field kvs ''cells'' (read_list read_saved_cell)) (\<lambda>cells.
             admit_join_cells step (length sides) cells a))))))))))))"

definition read_join_entry :: "json \<Rightarrow> (pystr \<times> json) list \<times> admission \<Rightarrow> ((pystr \<times> json) list \<times> admission) res" where
  "read_join_entry doc s =
     rbind (doc_fields [''step'', ''checkpoint''] doc) (\<lambda>kvs.
     rbind (read_field kvs ''step'' read_str) (\<lambda>step. rbind (key (PStr step)) (\<lambda>_.
     rbind (doc_get kvs ''checkpoint'') (\<lambda>c.
     rbind (admit_join_doc step c (snd s)) (\<lambda>a. Inr (fst s @ [(step, c)], a))))))"

definition read_array :: "nat \<Rightarrow> nat \<Rightarrow> json \<Rightarrow> json list res" where
  "read_array low high v =
     (case v of
        JArr xs \<Rightarrow> if low \<le> length xs \<and> length xs \<le> high then Inr xs else Inl ValidationError
      | _ \<Rightarrow> Inl ValidationError)"

definition multi_checkpoint_from_dict :: "json \<Rightarrow> multi_checkpoint res" where
  "multi_checkpoint_from_dict doc =
     rbind (doc_fields [''kind'', ''version'', ''identity'', ''sources'', ''cells'', ''joins'', ''edge_counts'',
                        ''operation_sequence'', ''emitted_records''] doc) (\<lambda>kvs.
     rbind (doc_get kvs ''kind'') (\<lambda>kind. rbind (doc_get kvs ''version'') (\<lambda>version.
     if kind \<noteq> JStr (lit ''stream-quilt-multisource-graph-checkpoint'') \<or> version \<noteq> JStr (lit ''1.0'')
     then Inl ValidationError
     else
       rbind (read_field kvs ''sources'' (read_array 1 16)) (\<lambda>sources.
       rbind (read_field kvs ''cells'' (read_array 0 100000)) (\<lambda>cells.
       rbind (read_field kvs ''joins'' (read_array 0 16)) (\<lambda>joins.
       rbind (read_field kvs ''edge_counts'' (read_array 0 256)) (\<lambda>edges.
       rbind (read_field kvs ''identity'' read_str) (\<lambda>identity.
       if \<not> is_hex64 identity then Inl ValidationError
       else
         rbind (rbind (read_field kvs ''operation_sequence'' read_int) (\<lambda>n. count n 0 MAX_COUNT)) (\<lambda>operations.
         rbind (rbind (read_field kvs ''emitted_records'' read_int) (\<lambda>n. count n 0 MAX_COUNT)) (\<lambda>emitted.
         rbind (map_res read_source sources) (\<lambda>sources.
         rbind (fold_res check_source sources ([], 0, 0)) (\<lambda>(_, inputs, closed).
         rbind (count inputs 0 MAX_COUNT) (\<lambda>_.
         rbind (count operations (inputs + closed) MAX_COUNT) (\<lambda>_.
         rbind (map_res (\<lambda>v. rbind (read_int v) (\<lambda>n. count n 0 MAX_COUNT)) edges) (\<lambda>edges.
         rbind (map_res read_multi_cell cells) (\<lambda>cells.
         rbind (fold_res admit_ordinary cells no_admission) (\<lambda>a.
         rbind (fold_res read_join_entry joins ([], a)) (\<lambda>(joins, _).
         rbind (map_res (\<lambda>(step, c). rbind (join_checkpoint_from_dict c) (\<lambda>c. Inr (step, c))) joins) (\<lambda>joins.
           multi_checkpoint_check
             \<lparr>mc_identity = identity, mc_sources = sources, mc_cells = cells, mc_joins = joins, mc_edges = edges,
              mc_operations = operations, mc_emitted = emitted\<rparr>)))))))))))))))))))"

definition multi_checkpoint_from_json :: "pystr \<Rightarrow> multi_checkpoint res" where
  "multi_checkpoint_from_json payload =
     (if MAX_DOCUMENT_BYTES < int (length payload) then Inl ValidationError
      else if \<not> utf8_ok payload then Inl ValidationError
      else if MAX_DOCUMENT_BYTES < byte_len payload then Inl ValidationError
      else (case loads join_hooks payload of
              Inl _ \<Rightarrow> Inl ValidationError
            | Inr doc \<Rightarrow> multi_checkpoint_from_dict doc))"

section \<open>The checkpoint of a runtime\<close>

definition join_snapshot :: "keyed_join \<Rightarrow> join_state \<Rightarrow> join_checkpoint res" where
  "join_snapshot j s =
     join_checkpoint_check
       \<lparr>jc_identity = join_identity j, jc_sides = kj_sides j, jc_closed = js_closed s, jc_phase = js_phase s,
        jc_counts = js_counts s, jc_emitted = js_emitted s,
        jc_cells = map (\<lambda>(k, c). (k, ce_values c)) (sort_key fst (js_cells s))\<rparr>"

definition multi_checkpoint_of :: "multi_runtime \<Rightarrow> multi_checkpoint res" where
  "multi_checkpoint_of rt =
     (if mr_busy rt then Inl ValidationError
      else let g = mr_flow rt; s = mr_state rt
           in rbind (map_res (\<lambda>(k, js). rbind (join_at g k) (\<lambda>j. rbind (join_snapshot j js) (\<lambda>c. Inr (k, c))))
                       (ms_joins s)) (\<lambda>joins.
              multi_checkpoint_check
                \<lparr>mc_identity = multi_identity g,
                 mc_sources = map2 (\<lambda>en (n, eof). (en_source en, n, eof)) (mg_entries g)
                                (zip (ms_positions s) (ms_closed s)),
                 mc_cells = map (\<lambda>((step, k), v). (step, k, v)) (sort_key fst (ms_ordinary s)),
                 mc_joins = joins, mc_edges = ms_edges s, mc_operations = ms_operations s,
                 mc_emitted = ms_emitted s\<rparr>))"

section \<open>Restoration\<close>

definition restore_ordinary :: "pystr list \<Rightarrow> int \<Rightarrow> pystr \<times> pystr \<times> pystr
    \<Rightarrow> (state_key, pystr) dict \<times> int \<times> int \<Rightarrow> ((state_key, pystr) dict \<times> int \<times> int) res" where
  "restore_ordinary stateful max_value cell s =
     (let (step, k, v) = cell; (ordinary, size, wire) = s
      in if step \<notin> set stateful \<or> max_value < byte_len v then Inl ValidationError
         else Inr (dput (step, k) v ordinary, size + byte_len v, wire + multi_ordinary_bytes (step, k) (Some v)))"

definition restore_join :: "multi_graph \<Rightarrow> pystr \<times> join_checkpoint \<Rightarrow> (pystr, join_state) dict \<times> int \<times> int \<times> int
    \<Rightarrow> ((pystr, join_state) dict \<times> int \<times> int \<times> int) res" where
  "restore_join g entry s =
     (let (k, c) = entry; (joins, cells, values, wire) = s
      in rbind (join_at g k) (\<lambda>j. rbind (join_from_checkpoint j c) (\<lambda>rt.
         let js = jt_state rt
         in Inr (dput k js joins, cells + int (length (js_cells js)), values + js_values js,
                 wire + js_bytes js + int (length (js_cells js)) * join_overhead k))))"

text \<open>The final rows that the joins have emitted.\<close>

definition final_rows :: "multi_graph \<Rightarrow> (pystr, join_state) dict \<Rightarrow> int res" where
  "final_rows g joins =
     fold_res (\<lambda>(k, j) n. if kj_emit j = JFinal
                          then rbind (dict_at joins k) (\<lambda>js. Inr (n + js_emitted js)) else Inr n)
       (multi_joins (mg_nodes g)) 0"

definition match_side :: "multi_graph \<Rightarrow> multi_checkpoint \<Rightarrow> (pystr, join_state) dict \<Rightarrow> pystr \<Rightarrow> (pystr, bool) dict
    \<Rightarrow> multi_edge \<Rightarrow> unit res" where
  "match_side g c joins k eof e =
     (case edge_side e of
        None \<Rightarrow> Inr ()
      | Some name \<Rightarrow>
          rbind (join_at g k) (\<lambda>j. rbind (side_index (kj_sides j) name) (\<lambda>side.
          rbind (dict_at joins k) (\<lambda>js. rbind (dict_at eof (edge_source e)) (\<lambda>ended.
            check (\<not> (js_closed js ! side \<noteq> ended
                      \<or> js_counts js ! side \<noteq> mc_edges c ! edge_place e (mg_edges g))))))))"

definition match_node :: "multi_graph \<Rightarrow> multi_checkpoint \<Rightarrow> (pystr, join_state) dict \<Rightarrow> bool list \<Rightarrow> pystr
    \<Rightarrow> (pystr, bool) dict \<Rightarrow> (pystr, bool) dict res" where
  "match_node g c joins closed k eof =
     (case root_index g k of
        Some i \<Rightarrow> Inr (dput k (closed ! i) eof)
      | None \<Rightarrow>
          (case dget joins k of
             Some js \<Rightarrow>
               rbind (fold_res (\<lambda>e _. match_side g c joins k eof e) (edges_into (mg_edges g) k) ()) (\<lambda>_.
                 Inr (dput k (js_phase js = JClosed) eof))
           | None \<Rightarrow> rbind (all_ended eof (edges_into (mg_edges g) k)) (\<lambda>b. Inr (dput k b eof))))"

definition multi_from_checkpoint :: "multi_graph \<Rightarrow> multi_checkpoint \<Rightarrow> multi_runtime res" where
  "multi_from_checkpoint g c =
     rbind (make_multi_runtime g) (\<lambda>rt.
     rbind (multi_checkpoint_check c) (\<lambda>c.
     if mc_identity c \<noteq> multi_identity g \<or> map fst (mc_sources c) \<noteq> map en_source (mg_entries g)
        \<or> map fst (mc_joins c) \<noteq> map fst (multi_joins (mg_nodes g)) \<or> length (mc_edges c) \<noteq> length (mg_edges g)
     then Inl ValidationError
     else
       let l = mg_limits g; op = operator_limits (ml_graph l);
           stateful = map step_id (filter (\<lambda>s. is_stateful (step_op s)) (graph_steps (mg_nodes g)))
       in rbind (fold_res (restore_ordinary stateful (max_state_value_bytes op)) (mc_cells c) ([], 0, 0))
            (\<lambda>(ordinary, size, wire).
          if max_state_keys op < int (length ordinary) \<or> max_state_bytes op < size then Inl ValidationError
          else
            rbind (fold_res (restore_join g) (mc_joins c) ([], int (length ordinary), 0, wire))
              (\<lambda>(joins, cells, values, wire).
            if ml_cells l < cells \<or> ml_values l < values \<or> ml_bytes l < wire then Inl ValidationError
            else
              let closed = map (snd \<circ> snd) (mc_sources c);
                  inputs = sum_list (map (fst \<circ> snd) (mc_sources c));
                  drains = mc_operations c - inputs - int (length (filter id closed))
              in rbind (final_rows g joins) (\<lambda>final.
                 if final < drains \<or> (drains = 0 \<and> final \<noteq> 0) then Inl ValidationError
                 else if (inputs + drains) * max_work_records (ml_graph l) < sum_list (mc_edges c) + mc_emitted c
                 then Inl ValidationError
                 else
                   rbind (fold_res (match_node g c joins closed) (mr_order rt) []) (\<lambda>_.
                     Inr (rt\<lparr>mr_state :=
                       \<lparr>ms_ordinary = ordinary, ms_ordinary_bytes = size, ms_joins = joins,
                        ms_positions = map (fst \<circ> snd) (mc_sources c), ms_closed = closed, ms_edges = mc_edges c,
                        ms_operations = mc_operations c, ms_emitted = mc_emitted c, ms_cells = cells,
                        ms_values = values, ms_bytes = wire\<rparr>\<rparr>)))))))"

end
