(* ===== verification/Multi_Recovery.thy ===== *)
theory Multi_Recovery
  imports Multi_History Multi_Checkpoint
begin

text \<open>
  Checkpoints of multi-source graphs: the snapshot of a reachable runtime passes every check of
  the validator, and restoring it gives the runtime back with its cells in sorted order.
\<close>

section \<open>The snapshot\<close>

definition join_rt_of :: "keyed_join \<Rightarrow> join_state \<Rightarrow> join_runtime" where
  "join_rt_of j s = \<lparr>jt_join = j, jt_state = s, jt_busy = False\<rparr>"

definition sorted_join :: "join_state \<Rightarrow> join_state" where
  "sorted_join s = s\<lparr>js_cells := sort_key fst (js_cells s)\<rparr>"

definition saved_join :: "multi_graph \<Rightarrow> pystr \<times> join_state \<Rightarrow> pystr \<times> join_checkpoint" where
  "saved_join g e = (fst e, join_saved (join_rt_of (the (dget (graph_joins g) (fst e))) (snd e)))"

definition saved_source :: "flow_entry \<times> int \<times> bool \<Rightarrow> pystr \<times> int \<times> bool" where
  "saved_source e = (en_source (fst e), snd e)"

definition multi_saved :: "multi_runtime \<Rightarrow> multi_checkpoint" where
  "multi_saved rt =
     (let g = mr_flow rt; s = mr_state rt
      in \<lparr>mc_identity = multi_identity g,
          mc_sources = map saved_source (zip (mg_entries g) (zip (ms_positions s) (ms_closed s))),
          mc_cells = map to_cell (sort_key fst (ms_ordinary s)), mc_joins = map (saved_join g) (ms_joins s),
          mc_edges = ms_edges s, mc_operations = ms_operations s, mc_emitted = ms_emitted s\<rparr>)"

lemma join_good_rt:
  assumes "keyed_join_ok j" "join_good j s"
  shows "join_rt_ok (join_rt_of j s)"
  using assms by (simp add: join_rt_ok_def join_rt_inv_def join_rt_of_def join_good_def)

lemma saved_snapshot:
  assumes "keyed_join_ok j" "join_good j s"
  shows "join_snapshot j s = Inr (join_saved (join_rt_of j s))"
  using join_saved_ok [OF join_good_rt [OF assms]]
  by (simp add: join_snapshot_def join_saved_def join_rt_of_def Let_def wire_cells_def split_def)

lemma multi_checkpoint_of_saved:
  assumes inv: "multi_rt_inv rt"
  shows "multi_checkpoint_of rt = multi_checkpoint_check (multi_saved rt)"
proof -
  define g where "g = mr_flow rt"
  define s where "s = mr_state rt"
  have c: "multi_check g = Inr (mr_order rt)" and jo: "joins_ok g (ms_joins s)" and nb: "\<not> mr_busy rt"
    using inv by (simp_all add: multi_rt_inv_def multi_inv_def multi_cells_ok_def g_def s_def)
  have d: "dict_ok (ms_joins s)" by (rule joins_ok_dict [OF c jo])
  have "(\<lambda>(k, js). rbind (join_at g k) (\<lambda>j. rbind (join_snapshot j js) (\<lambda>c. Inr (k, c)))) e = Inr (saved_join g e)"
    if e: "e \<in> set (ms_joins s)" for e
  proof -
    have "dget (ms_joins s) (fst e) = Some (snd e)" using e d by (simp add: dict_ok_def)
    then obtain j where j: "dget (graph_joins g) (fst e) = Some j" "join_good j (snd e)" using joins_ok_at [OF jo] by blast
    then have "keyed_join_ok j" using checked_join [OF c] by blast
    from saved_snapshot [OF this j(2)] j(1) show ?thesis by (cases e) (simp add: saved_join_def join_at_def)
  qed
  then have "map_res (\<lambda>(k, js). rbind (join_at g k) (\<lambda>j. rbind (join_snapshot j js) (\<lambda>c. Inr (k, c)))) (ms_joins s)
      = Inr (map (saved_join g) (ms_joins s))" by (rule map_res_all_Inr)
  moreover have "(\<lambda>(en, n, eof). (en_source en, n, eof)) = saved_source"
    by (auto simp: saved_source_def fun_eq_iff)
  ultimately show ?thesis
    using nb by (simp only: multi_checkpoint_of_def multi_saved_def Let_def g_def [symmetric] s_def [symmetric] to_cell_eq
        if_False rbind.simps)
qed

section \<open>The validator\<close>

lemma fold_check_source:
  assumes "list_all (\<lambda>(name, n, eof). is_label name \<and> 0 \<le> n \<and> n \<le> MAX_COUNT) srcs"
    and "distinct (map fst srcs)" "set (map fst srcs) \<inter> set seen = {}"
  shows "fold_res check_source srcs (seen, n, c) = Inr (seen @ map fst srcs, n + sum_list (map (fst \<circ> snd) srcs),
      c + int (length (filter (snd \<circ> snd) srcs)))"
  using assms
proof (induction srcs arbitrary: seen n c)
  case (Cons x srcs)
  obtain name p eof where x: "x = (name, p, eof)" by (metis prod_cases3)
  have "check_source x (seen, n, c) = Inr (seen @ [name], n + p, c + (if eof then 1 else 0))"
    using Cons.prems by (simp add: x check_source_def key_def label_is_label count_def)
  moreover have "set (map fst srcs) \<inter> set (seen @ [name]) = {}" using Cons.prems by (auto simp: x)
  ultimately show ?case using Cons.IH [of "seen @ [name]" "n + p" "c + (if eof then 1 else 0)"] Cons.prems by (simp add: x)
qed simp

definition admitted :: "admission \<Rightarrow> int \<Rightarrow> int \<Rightarrow> int \<Rightarrow> admission" where
  "admitted a c v b = \<lparr>ad_cells = ad_cells a + c, ad_values = ad_values a + v, ad_bytes = ad_bytes a + b\<rparr>"

definition admission_ok :: "admission \<Rightarrow> bool" where
  "admission_ok a \<longleftrightarrow> ad_cells a \<le> MAX_MULTI_CELLS \<and> ad_values a \<le> MAX_MULTI_VALUES \<and> ad_bytes a \<le> MAX_MULTI_STATE"

lemma admit_more_eq: "admission_ok (admitted a c v b) \<Longrightarrow> admit_more c v b a = Inr (admitted a c v b)"
  by (simp add: admit_more_def Let_def admission_ok_def admitted_def)

lemma admission_ok_mono: "admission_ok (admitted a c v b) \<Longrightarrow> c' \<le> c \<Longrightarrow> v' \<le> v \<Longrightarrow> b' \<le> b \<Longrightarrow> admission_ok (admitted a c' v' b')"
  by (simp add: admission_ok_def admitted_def)

lemma admitted_admitted [simp]: "admitted (admitted a c v b) c' v' b' = admitted a (c + c') (v + v') (b + b')"
  by (simp add: admitted_def)

lemma admitted_zero [simp]: "admitted a 0 0 0 = a"
  by (simp add: admitted_def)

lemma multi_ordinary_nonneg: "0 \<le> multi_ordinary_bytes k x"
  by (simp add: multi_ordinary_bytes_def byte_len_def split: option.splits)

definition wire_of :: "pystr \<times> pystr \<times> pystr \<Rightarrow> int" where
  "wire_of c = multi_ordinary_bytes (cell_key c) (Some (cell_text c))"

lemma admit_ordinary_eq:
  assumes "cell_valid c" "admission_ok (admitted a 1 0 (wire_of c))"
  shows "admit_ordinary c a = Inr (admitted a 1 0 (wire_of c))"
proof -
  obtain step k t where c: "c = (step, k, t)" by (metis prod_cases3)
  have "int (length t) \<le> byte_len t" by (rule length_le_byte_len)
  with assms show ?thesis
    by (auto simp: c admit_ordinary_def key_def label_is_label hard_limits_def MAX_RECORD_def wire_of_def admit_more_eq canonical_utf8_ok)
qed

lemma fold_check_ordinary:
  assumes "list_all cell_valid cells" "sorted_wrt (<) (map cell_key cells)"
    and "\<forall>c\<in>set cells. case p of None \<Rightarrow> True | Some q \<Rightarrow> q < cell_key c"
    and "admission_ok (admitted a (int (length cells)) 0 (\<Sum>c\<leftarrow>cells. wire_of c))"
  shows "\<exists>q. fold_res check_ordinary cells (a, p) = Inr (admitted a (int (length cells)) 0 (\<Sum>c\<leftarrow>cells. wire_of c), q)"
  using assms
proof (induction cells arbitrary: a p)
  case (Cons c cells)
  obtain step k t where c: "c = (step, k, t)" by (metis prod_cases3)
  define a1 where "a1 = admitted a 1 0 (wire_of c)"
  have n: "0 \<le> (\<Sum>c\<leftarrow>cells. wire_of c)" by (auto intro!: sum_list_nonneg simp: wire_of_def multi_ordinary_nonneg)
  have "admission_ok a1" unfolding a1_def by (rule admission_ok_mono [OF Cons.prems(4)]) (use n in simp_all)
  then have "admit_ordinary c a = Inr a1" using Cons.prems(1) unfolding a1_def by (intro admit_ordinary_eq) simp_all
  then have one: "check_ordinary c (a, p) = Inr (a1, Some (cell_key c))"
    using Cons.prems(3) by (cases p) (auto simp: check_ordinary_def c)
  have "\<exists>q. fold_res check_ordinary cells (a1, Some (cell_key c)) = Inr (admitted a1 (int (length cells)) 0 (\<Sum>c\<leftarrow>cells. wire_of c), q)"
    using Cons.prems by (intro Cons.IH) (simp_all add: a1_def add.commute)
  then show ?case using one by (simp add: a1_def add.commute)
qed simp

lemma join_overhead_nonneg: "0 \<le> join_overhead k"
  by (simp add: join_overhead_def byte_len_def utf8_len_append utf8_len_Cons utf8_char_def lit_simps)

definition cells_wire :: "pystr \<Rightarrow> (pystr \<times> pystr list list) list \<Rightarrow> int" where
  "cells_wire k cells = (\<Sum>e\<leftarrow>cells. wire_bytes e + join_overhead k)"

lemma fold_admit_cells:
  assumes "\<forall>e\<in>set cells. length (snd e) = n \<and> shape_fits hard_limits (fst e) (snd e)"
    and "admission_ok (admitted a (int (length cells)) (\<Sum>e\<leftarrow>cells. wire_count e) (cells_wire k cells))"
  shows "fold_res (admit_join_cell k n) cells a = Inr (admitted a (int (length cells)) (\<Sum>e\<leftarrow>cells. wire_count e) (cells_wire k cells))"
  using assms
proof (induction cells arbitrary: a)
  case (Cons e cells)
  define a1 where "a1 = admitted a 1 (wire_count e) (wire_bytes e + join_overhead k)"
  have n: "0 \<le> (\<Sum>e\<leftarrow>cells. wire_count e)" "0 \<le> cells_wire k cells"
    by (auto simp: cells_wire_def intro!: sum_list_nonneg wire_nonneg add_nonneg_nonneg join_overhead_nonneg)
  have "admission_ok a1" unfolding a1_def by (rule admission_ok_mono [OF Cons.prems(2)]) (use n in \<open>simp_all add: cells_wire_def\<close>)
  then have "admit_join_cell k n e a = Inr a1"
    using Cons.prems(1) unfolding a1_def
    by (simp add: admit_join_cell_def shape_iff [THEN iffD2] wire_count_def wire_bytes_def admit_more_eq)
  moreover have "fold_res (admit_join_cell k n) cells a1 = Inr (admitted a1 (int (length cells)) (\<Sum>e\<leftarrow>cells. wire_count e) (cells_wire k cells))"
    using Cons.prems by (intro Cons.IH) (simp_all add: a1_def cells_wire_def algebra_simps)
  ultimately show ?case by (simp add: a1_def cells_wire_def algebra_simps)
qed (simp add: cells_wire_def)

definition entry_sound :: "pystr \<times> join_checkpoint \<Rightarrow> bool" where
  "entry_sound e \<longleftrightarrow> is_label (fst e) \<and> 2 \<le> length (jc_sides (snd e)) \<and> length (jc_sides (snd e)) \<le> 16
     \<and> int (length (jc_cells (snd e))) \<le> MAX_MULTI_CELLS
     \<and> (\<forall>c\<in>set (jc_cells (snd e)). length (snd c) = length (jc_sides (snd e)) \<and> shape_fits hard_limits (fst c) (snd c))"

lemma fold_check_entries:
  assumes "list_all entry_sound js" "distinct (map fst js)" "set (map fst js) \<inter> set seen = {}"
    and "admission_ok (admitted a (\<Sum>e\<leftarrow>js. int (length (jc_cells (snd e)))) (\<Sum>e\<leftarrow>js. \<Sum>c\<leftarrow>jc_cells (snd e). wire_count c)
           (\<Sum>e\<leftarrow>js. cells_wire (fst e) (jc_cells (snd e))))"
  shows "\<exists>b. fold_res check_join_entry js (a, seen) = Inr b"
  using assms
proof (induction js arbitrary: a seen)
  case (Cons e js)
  obtain k c where e: "e = (k, c)" by (cases e)
  define a1 where "a1 = admitted a (int (length (jc_cells c))) (\<Sum>e\<leftarrow>jc_cells c. wire_count e) (cells_wire k (jc_cells c))"
  have n: "0 \<le> (\<Sum>e\<leftarrow>js. int (length (jc_cells (snd e))))" "0 \<le> (\<Sum>e\<leftarrow>js. \<Sum>c\<leftarrow>jc_cells (snd e). wire_count c)"
    "0 \<le> (\<Sum>e\<leftarrow>js. cells_wire (fst e) (jc_cells (snd e)))"
    by (auto simp: cells_wire_def intro!: sum_list_nonneg wire_nonneg add_nonneg_nonneg join_overhead_nonneg)
  have "admission_ok a1" unfolding a1_def by (rule admission_ok_mono [OF Cons.prems(4)]) (use n in \<open>simp_all add: e\<close>)
  then have "fold_res (admit_join_cell k (length (jc_sides c))) (jc_cells c) a = Inr a1"
    using Cons.prems(1) unfolding a1_def by (intro fold_admit_cells) (auto simp: e entry_sound_def)
  then have one: "check_join_entry e (a, seen) = Inr (a1, seen @ [k])"
    using Cons.prems by (simp add: e check_join_entry_def entry_sound_def key_def label_is_label admit_join_cells_def)
  have "\<exists>b. fold_res check_join_entry js (a1, seen @ [k]) = Inr b"
    using Cons.prems by (intro Cons.IH) (auto simp: a1_def e algebra_simps)
  then show ?case using one by simp
qed simp

section \<open>A reachable runtime passes the validator\<close>

lemma to_cell_parts: "cell_key (to_cell e) = fst e" "cell_text (to_cell e) = snd e" "wire_of (to_cell e) = cell_wire (fst e) (snd e)"
  by (auto simp: to_cell_def wire_of_def cell_wire_def split: prod.splits)

lemma saved_join_parts:
  "fst (saved_join g e) = fst e" "jc_cells (snd (saved_join g e)) = wire_cells (snd e)"
  "jc_sides (snd (saved_join g e)) = kj_sides (the (dget (graph_joins g) (fst e)))"
  "jc_emitted (snd (saved_join g e)) = js_emitted (snd e)" "jc_counts (snd (saved_join g e)) = js_counts (snd e)"
  by (simp_all add: saved_join_def join_saved_def join_rt_of_def Let_def)

lemma length_wire_cells [simp]: "length (wire_cells s) = length (js_cells s)"
  by (simp add: wire_cells_def)

lemma cells_wire_saved: "join_state_ok j s \<Longrightarrow> cells_wire k (wire_cells s) = join_wire k s"
  unfolding cells_wire_def sum_list_addf using wire_cells_facts(3) [of j s]
  by (simp add: join_wire_def sum_list_triv)

lemma sound_entry:
  assumes c: "multi_check g = Inr order" and jo: "joins_ok g joins" and e: "e \<in> set joins"
  shows "\<exists>j. dget (graph_joins g) (fst e) = Some j \<and> keyed_join_ok j \<and> join_good j (snd e) \<and> entry_sound (saved_join g e)
    \<and> join_checkpoint_check (snd (saved_join g e)) = Inr (snd (saved_join g e))"
proof -
  have "dget joins (fst e) = Some (snd e)" using e joins_ok_dict [OF c jo] by (simp add: dict_ok_def)
  then obtain j where j: "dget (graph_joins g) (fst e) = Some j" "join_good j (snd e)" using joins_ok_at [OF jo] by blast
  have k: "keyed_join_ok j" "is_label (fst e)" using checked_join [OF c j(1)] by simp_all
  have ok: "join_state_ok j (snd e)" using j(2) by (simp add: join_good_def)
  have l: "join_limits_ok (kj_limits j)" "sides_ok (kj_sides j)" using k(1) by (simp_all add: keyed_join_ok_def)
  have "int (length (js_cells (snd e))) \<le> MAX_MULTI_CELLS"
    using ok join_limits_hard(1) [OF l(1)] by (simp add: join_state_ok_def Let_def MAX_MULTI_CELLS_def hard_limits_def)
  moreover have "length (snd x) = length (kj_sides j) \<and> shape_fits hard_limits (fst x) (snd x)" if x_in: "x \<in> set (wire_cells (snd e))" for x
  proof -
    obtain k' c' where x: "x = (k', ce_values c')" and m: "(k', c') \<in> set (js_cells (snd e))" using x_in by (auto simp: wire_cells_def)
    have "cell_inv j k' c'" using m ok by (auto simp: join_state_ok_def Let_def)
    then show ?thesis using cell_fits_mono [OF l(1)] by (simp add: x cell_inv_def Let_def cell_fits_def)
  qed
  ultimately have "entry_sound (saved_join g e)"
    using k(2) l(2) j(1) by (simp add: entry_sound_def saved_join_parts sides_ok_def wire_cells_def)
  moreover have "join_checkpoint_check (snd (saved_join g e)) = Inr (snd (saved_join g e))"
    using join_saved_ok [OF join_good_rt [OF k(1) j(2)]] j(1) by (simp add: saved_join_def)
  ultimately show ?thesis using j k(1) by blast
qed

lemma multi_saved_ok:
  assumes rec: "multi_recorded rt"
  shows "multi_checkpoint_check (multi_saved rt) = Inr (multi_saved rt)"
proof -
  define g where "g = mr_flow rt"
  define s where "s = mr_state rt"
  define srcs where "srcs = map saved_source (zip (mg_entries g) (zip (ms_positions s) (ms_closed s)))"
  define cells where "cells = map to_cell (sort_key fst (ms_ordinary s))"
  define js where "js = map (saved_join g) (ms_joins s)"
  have inv: "multi_inv g (mr_order rt) s" and his: "multi_history g s"
    using rec by (simp_all add: multi_recorded_def multi_rt_inv_def g_def s_def)
  have c: "multi_check g = Inr (mr_order rt)" and mc: "multi_cells_ok g s" and pos: "multi_positions_ok g s"
    using inv by (simp_all add: multi_inv_def)
  have jo: "joins_ok g (ms_joins s)" and st: "state_ok (multi_lim g) (multi_stateful g) (ms_ordinary s) (ms_ordinary_bytes s)"
    using mc by (simp_all add: multi_cells_ok_def)
  have d: "dict_ok (ms_joins s)" by (rule joins_ok_dict [OF c jo])
  have len: "length (ms_positions s) = length (mg_entries g)" "length (ms_closed s) = length (mg_entries g)"
    using pos by (simp_all add: multi_positions_ok_def)
  have ml: "ml_cells (mg_limits g) \<le> MAX_MULTI_CELLS" "ml_values (mg_limits g) \<le> MAX_MULTI_VALUES" "ml_bytes (mg_limits g) \<le> MAX_MULTI_STATE"
    using multi_check_Inr(1) [OF c] by (simp_all add: multi_limits_ok_def)
  have ents: "1 \<le> length (mg_entries g)" "length (mg_entries g) \<le> 16" using multi_check_Inr [OF c] by simp_all
  have proj: "map fst srcs = map en_source (mg_entries g)" "map (fst \<circ> snd) srcs = ms_positions s" "map (snd \<circ> snd) srcs = ms_closed s"
    unfolding srcs_def using len
    by (auto simp: saved_source_def comp_def map_zip_map2 intro!: nth_equalityI)
  have closed: "length (filter (snd \<circ> snd) srcs) = length (filter id (ms_closed s))"
    unfolding proj(3) [symmetric] by (simp add: filter_map comp_def)
  have src: "fold_res check_source srcs ([], 0, 0) = Inr (map fst srcs, inputs_of s, int (length (filter id (ms_closed s))))"
  proof -
    have "list_all (\<lambda>(name, n, eof). is_label name \<and> 0 \<le> n \<and> n \<le> MAX_COUNT) srcs"
    proof -
      have "is_label (fst x) \<and> 0 \<le> fst (snd x) \<and> fst (snd x) \<le> MAX_COUNT" if x: "x \<in> set srcs" for x
      proof -
        have "fst x \<in> set (map en_source (mg_entries g))" unfolding proj(1) [symmetric] using x by simp
        then have "is_label (fst x)" using multi_check_Inr(10) [OF c] by (auto simp: list_all_iff)
        moreover have p: "fst (snd x) \<in> set (ms_positions s)" unfolding proj(2) [symmetric] using x by (simp add: comp_def)
        moreover have "fst (snd x) \<le> sum_list (ms_positions s)"
          by (rule member_le_sum_list [OF _ p]) (use pos in \<open>auto simp: multi_positions_ok_def\<close>)
        ultimately show ?thesis using pos by (auto simp: multi_positions_ok_def)
      qed
      then show ?thesis by (auto simp: list_all_iff)
    qed
    moreover have "distinct (map fst srcs)" using multi_check_Inr(8) [OF c] by (simp add: proj(1))
    ultimately show ?thesis using fold_check_source [of srcs "[]" 0 0] by (simp add: proj(2) closed inputs_of_def)
  qed
  have cv: "list_all cell_valid cells"
    using state_cells_ok [OF st checked_lim [OF c]] by (simp add: cells_def)
  have so: "sorted_wrt (<) (map cell_key cells)"
    using dict_sorted [of "ms_ordinary s"] st by (simp add: cells_def to_cell_parts comp_def state_ok_def)
  have sums: "int (length cells) = int (length (ms_ordinary s))" "(\<Sum>c\<leftarrow>cells. wire_of c) = (\<Sum>e\<leftarrow>ms_ordinary s. cell_wire (fst e) (snd e))"
    by (simp_all add: cells_def sort_key_fst_perm comp_def to_cell_parts sum_list_sort_int)
  have jp: "(\<Sum>e\<leftarrow>js. int (length (jc_cells (snd e)))) = (\<Sum>e\<leftarrow>ms_joins s. int (length (js_cells (snd e))))"
    "(\<Sum>e\<leftarrow>js. \<Sum>c\<leftarrow>jc_cells (snd e). wire_count c) = (\<Sum>e\<leftarrow>ms_joins s. js_values (snd e))"
    "(\<Sum>e\<leftarrow>js. cells_wire (fst e) (jc_cells (snd e))) = (\<Sum>e\<leftarrow>ms_joins s. join_wire (fst e) (snd e))"
  proof -
    have e: "join_state_ok (the (dget (graph_joins g) (fst e))) (snd e)" if "e \<in> set (ms_joins s)" for e
      using sound_entry [OF c jo that] by (auto simp: join_good_def)
    show "(\<Sum>e\<leftarrow>js. int (length (jc_cells (snd e)))) = (\<Sum>e\<leftarrow>ms_joins s. int (length (js_cells (snd e))))"
      by (simp add: js_def comp_def saved_join_parts wire_cells_def)
    show "(\<Sum>e\<leftarrow>js. \<Sum>c\<leftarrow>jc_cells (snd e). wire_count c) = (\<Sum>e\<leftarrow>ms_joins s. js_values (snd e))"
      unfolding js_def map_map comp_def saved_join_parts
      by (intro arg_cong [where f = sum_list] map_cong refl wire_cells_facts(2)) (rule e)
    show "(\<Sum>e\<leftarrow>js. cells_wire (fst e) (jc_cells (snd e))) = (\<Sum>e\<leftarrow>ms_joins s. join_wire (fst e) (snd e))"
      unfolding js_def map_map comp_def saved_join_parts
      by (intro arg_cong [where f = sum_list] map_cong refl cells_wire_saved) (rule e)
  qed
  define a where "a = admitted no_admission (int (length cells)) 0 (\<Sum>c\<leftarrow>cells. wire_of c)"
  have nn: "0 \<le> (\<Sum>e\<leftarrow>ms_joins s. int (length (js_cells (snd e))))" "0 \<le> (\<Sum>e\<leftarrow>ms_joins s. js_values (snd e))"
      "0 \<le> (\<Sum>e\<leftarrow>ms_joins s. join_wire (fst e) (snd e))"
    unfolding jp [symmetric]
    by (auto simp: cells_wire_def intro!: sum_list_nonneg wire_nonneg add_nonneg_nonneg join_overhead_nonneg)
  have total: "admission_ok (admitted a (\<Sum>e\<leftarrow>js. int (length (jc_cells (snd e)))) (\<Sum>e\<leftarrow>js. \<Sum>c\<leftarrow>jc_cells (snd e). wire_count c)
           (\<Sum>e\<leftarrow>js. cells_wire (fst e) (jc_cells (snd e))))"
    using mc ml unfolding jp a_def sums
    by (auto simp: admission_ok_def admitted_def no_admission_def multi_cells_ok_def)
  have "admission_ok a" using admission_ok_mono [OF total, of 0 0 0] nn unfolding jp by simp
  then obtain q where ord: "fold_res check_ordinary cells (no_admission, None) = Inr (a, q)"
    using fold_check_ordinary [OF cv so, of None no_admission] unfolding a_def by auto
  have "list_all entry_sound js" using sound_entry [OF c jo] by (auto simp: js_def list_all_iff)
  moreover have dj: "map fst js = map fst (ms_joins s)" by (simp add: js_def saved_join_parts comp_def)
  ultimately obtain b where ent: "fold_res check_join_entry js (a, []) = Inr b"
    using fold_check_entries [of js "[]" a] total d by (auto simp: dict_ok_def)
  have texts: "fold_res (\<lambda>(_, _, encoded) _. check_join_text encoded) cells () = Inr ()"
  proof -
    have "check_join_text (snd (snd x)) = Inr ()" if x: "x \<in> set cells" for x
    proof -
      have "cell_valid x" using x cv unfolding list_all_iff by blast
      then show ?thesis by (cases x) (simp add: hard_limits_def MAX_RECORD_def check_join_text_canonical)
    qed
    then have "fold_res (\<lambda>x _. check_join_text (snd (snd x))) cells () = Inr ()" by (rule fold_unit)
    then show ?thesis by (simp add: split_def)
  qed
  have nested: "fold_res (\<lambda>(_, j) _. rbind (join_checkpoint_check j) (\<lambda>_. Inr ())) js () = Inr ()"
  proof -
    have "rbind (join_checkpoint_check (snd x)) (\<lambda>_. Inr ()) = Inr ()" if "x \<in> set js" for x
      using that sound_entry [OF c jo] by (fastforce simp: js_def)
    then have "fold_res (\<lambda>x _. rbind (join_checkpoint_check (snd x)) (\<lambda>_. Inr ())) js () = Inr ()" by (rule fold_unit)
    then show ?thesis by (simp add: split_def)
  qed
  have small: "int (length cells) \<le> MAX_MULTI_CELLS" "length js \<le> 16"
  proof -
    show "int (length cells) \<le> MAX_MULTI_CELLS" using \<open>admission_ok a\<close> by (simp add: admission_ok_def a_def admitted_def no_admission_def)
    have "length js = length (graph_joins g)" using jo by (simp add: js_def joins_ok_def) (metis length_map)
    also have "\<dots> = length (filter is_join (mg_nodes g))" using multi_joins_ids [of "mg_nodes g"] by (metis length_map)
    finally show "length js \<le> 16" using multi_check_Inr(13) [OF c] by simp
  qed
  have W: "sum_list (ms_edges s) + ms_emitted s \<le> (inputs_of s + drains_of s) * max_work_records (ml_graph (mg_limits g))"
    using his by (simp add: multi_history_def)
  have en: "\<forall>n\<in>set (ms_edges s). 0 \<le> n" "0 \<le> ms_emitted s" using pos by (auto simp: multi_positions_ok_def)
  have v: "multi_saved rt = \<lparr>mc_identity = multi_identity g, mc_sources = srcs, mc_cells = cells, mc_joins = js,
      mc_edges = ms_edges s, mc_operations = ms_operations s, mc_emitted = ms_emitted s\<rparr>"
    by (simp add: multi_saved_def Let_def g_def s_def srcs_def cells_def js_def)
  have un: "untouched (multi_saved rt)" if z: "inputs_of s = 0"
  proof -
    have h: "ms_ordinary s = []" "drains_of s = 0" "\<forall>(k, js)\<in>set (ms_joins s). pristine js"
      using his z by (simp_all add: multi_history_def)
    have "0 \<le> sum_list (ms_edges s)" using en(1) by (auto intro: sum_list_nonneg)
    then have e0: "sum_list (ms_edges s) = 0" "ms_emitted s = 0" using W en(2) z h(2) by simp_all
    have "n = 0" if "n \<in> set (ms_edges s)" for n
      using member_le_sum_list [of "ms_edges s" n] en(1) that e0(1) by fastforce
    moreover have "jc_cells j = [] \<and> jc_emitted j = 0 \<and> list_all (\<lambda>n. n = 0) (jc_counts j)" if kj: "(k, j) \<in> set js" for k j
    proof -
      obtain e where "e \<in> set (ms_joins s)" "(k, j) = saved_join g e" using kj unfolding js_def by force
      moreover then have "pristine (snd e)" using h(3) by auto
      ultimately show ?thesis
        using saved_join_parts [of g e] by (metis length_0_conv length_wire_cells pristine_def snd_conv)
    qed
    ultimately show ?thesis using h(1) e0(2) by (auto simp: untouched_def v list_all_iff cells_def)
  qed
  have "map_res (\<lambda>n. count n 0 MAX_COUNT) (ms_edges s) = Inr (map id (ms_edges s))"
    by (rule map_res_all_Inr) (use pos in \<open>auto simp: multi_positions_ok_def count_def\<close>)
  moreover have "0 \<le> inputs_of s" "inputs_of s \<le> MAX_COUNT" "inputs_of s + int (length (filter id (ms_closed s))) \<le> ms_operations s"
      "ms_operations s \<le> MAX_COUNT" "ms_emitted s \<le> MAX_COUNT" "length (ms_edges s) \<le> 256"
    using pos his multi_check_Inr(14) [OF c]
    by (auto simp: multi_positions_ok_def multi_history_def inputs_of_def drains_of_def intro: sum_list_nonneg)
  moreover have "1 \<le> length srcs" "length srcs \<le> 16" using ents len by (simp_all add: srcs_def)
  moreover have "is_hex64 (multi_identity g)" by (simp add: multi_identity_def sha256_hex_is_hex64)
  ultimately show ?thesis
    using en(2) small un
    by (simp add: multi_checkpoint_check_def v src ord ent texts nested count_def)
qed

section \<open>Restoration\<close>

lemma fold_restore_ordinary:
  assumes "\<And>e. e \<in> set d \<Longrightarrow> fst (fst e) \<in> set ids \<and> byte_len (snd e) \<le> m"
    and "distinct (dkeys (st @ d))"
  shows "fold_res (restore_ordinary ids m) (map to_cell d) (st, b, w)
       = Inr (st @ d, b + (\<Sum>e\<leftarrow>d. byte_len (snd e)), w + (\<Sum>e\<leftarrow>d. cell_wire (fst e) (snd e)))"
  using assms
proof (induction d arbitrary: st b w)
  case (Cons e d)
  obtain step k t where e: "e = ((step, k), t)" by (metis prod.collapse)
  have "restore_ordinary ids m (to_cell e) (st, b, w) = Inr (dput (step, k) t st, b + byte_len t, w + cell_wire (step, k) t)"
    using Cons.prems(1) [of e] by (simp add: e to_cell_def restore_ordinary_def cell_wire_def)
  moreover have "dput (step, k) t st = st @ [e]"
    using Cons.prems(2) by (simp add: e dput_new)
  ultimately show ?case
    using Cons.IH [of "st @ [e]" "b + byte_len t" "w + cell_wire (step, k) t"] Cons.prems by (simp add: e add.assoc)
qed simp

abbreviation sorted_joins :: "(pystr, join_state) dict \<Rightarrow> (pystr, join_state) dict" where
  "sorted_joins joins \<equiv> map (\<lambda>e. (fst e, sorted_join (snd e))) joins"

lemma sorted_join_parts [simp]:
  "length (js_cells (sorted_join s)) = length (js_cells s)" "js_values (sorted_join s) = js_values s" "js_bytes (sorted_join s) = js_bytes s"
  "js_emitted (sorted_join s) = js_emitted s" "js_counts (sorted_join s) = js_counts s" "js_closed (sorted_join s) = js_closed s"
  "js_phase (sorted_join s) = js_phase s"
  by (simp_all add: sorted_join_def sort_key_fst_perm)

lemma dget_sorted_joins: "dget (sorted_joins joins) k = map_option sorted_join (dget joins k)"
  by (induction joins) auto

lemma restore_saved:
  assumes "dget (graph_joins g) (fst e) = Some j" "keyed_join_ok j" "join_good j (snd e)"
  shows "restore_join g (saved_join g e) (joins, c, v, w)
    = Inr (dput (fst e) (sorted_join (snd e)) joins, c + int (length (js_cells (snd e))), v + js_values (snd e), w + join_wire (fst e) (snd e))"
proof -
  have "join_from_checkpoint j (snd (saved_join g e)) = Inr (join_restored (join_rt_of j (snd e)))"
    using join_from_saved [OF join_good_rt [OF assms(2,3)]] assms(1) by (simp add: saved_join_def join_rt_of_def)
  moreover have "jt_state (join_restored (join_rt_of j (snd e))) = sorted_join (snd e)"
    by (simp add: join_restored_def join_rt_of_def sorted_join_def)
  ultimately show ?thesis
    using assms(1) by (cases "saved_join g e") (simp add: restore_join_def saved_join_def join_at_def join_wire_def Let_def)
qed

lemma fold_restore_joins:
  assumes "\<And>e. e \<in> set js \<Longrightarrow> \<exists>j. dget (graph_joins g) (fst e) = Some j \<and> keyed_join_ok j \<and> join_good j (snd e)"
    and "distinct (dkeys (joins @ js))"
  shows "fold_res (restore_join g) (map (saved_join g) js) (joins, c, v, w)
    = Inr (joins @ sorted_joins js, c + (\<Sum>e\<leftarrow>js. int (length (js_cells (snd e)))), v + (\<Sum>e\<leftarrow>js. js_values (snd e)),
        w + (\<Sum>e\<leftarrow>js. join_wire (fst e) (snd e)))"
  using assms
proof (induction js arbitrary: joins c v w)
  case (Cons e js)
  obtain j where "dget (graph_joins g) (fst e) = Some j" "keyed_join_ok j" "join_good j (snd e)" using Cons.prems(1) [of e] by auto
  from restore_saved [OF this] have one: "restore_join g (saved_join g e) (joins, c, v, w)
    = Inr (dput (fst e) (sorted_join (snd e)) joins, c + int (length (js_cells (snd e))), v + js_values (snd e), w + join_wire (fst e) (snd e))" .
  have "dput (fst e) (sorted_join (snd e)) joins = joins @ [(fst e, sorted_join (snd e))]"
    using Cons.prems(2) by (simp add: dput_new)
  moreover have "distinct (dkeys ((joins @ [(fst e, sorted_join (snd e))]) @ js))" using Cons.prems(2) by simp
  ultimately show ?case using one Cons.prems(1)
    by (simp add: Cons.IH [of "joins @ [(fst e, sorted_join (snd e))]"] add.assoc)
qed simp

lemma final_rows_eq:
  assumes "\<And>k j. (k, j) \<in> set js \<Longrightarrow> \<exists>s. dget joins k = Some s"
  shows "fold_res (\<lambda>(k, j) n. if kj_emit j = JFinal then rbind (dict_at joins k) (\<lambda>js. Inr (n + js_emitted js)) else Inr n) js n
    = Inr (n + (\<Sum>e\<leftarrow>js. if kj_emit (snd e) = JFinal then js_emitted (the (dget joins (fst e))) else 0))"
  using assms
proof (induction js arbitrary: n)
  case (Cons e js)
  obtain k j where e: "e = (k, j)" by (cases e)
  obtain s where s: "dget joins k = Some s" using Cons.prems [of k j] by (auto simp: e)
  have IH: "fold_res (\<lambda>(k, j) n. if kj_emit j = JFinal then rbind (dict_at joins k) (\<lambda>js. Inr (n + js_emitted js)) else Inr n) js m
    = Inr (m + (\<Sum>e\<leftarrow>js. if kj_emit (snd e) = JFinal then js_emitted (the (dget joins (fst e))) else 0))" for m
    using Cons.prems by (intro Cons.IH) auto
  show ?case using IH s by (simp add: e dict_at_def)
qed simp

section \<open>Ends and counters agree\<close>

lemma all_ended_eq:
  "\<forall>e\<in>set es. dget eof (edge_source e) = Some (f (edge_source e)) \<Longrightarrow> all_ended eof es = Inr (\<forall>e\<in>set es. f (edge_source e))"
  by (induction eof es rule: all_ended.induct) auto

lemma ended_join_iff:
  "root_index g k = None \<Longrightarrow> dget joins k = Some s \<Longrightarrow> ended g closed joins k \<longleftrightarrow> js_phase s = JClosed"
  by (subst ended_iff) simp

lemma ended_root_iff: "root_index g k = Some i \<Longrightarrow> ended g closed joins k \<longleftrightarrow> closed ! i"
  by (subst ended_iff) simp

lemma ended_through_iff:
  "root_index g k = None \<Longrightarrow> dget joins k = None \<Longrightarrow>
     ended g closed joins k \<longleftrightarrow> (\<forall>e\<in>set (edges_into (mg_edges g) k). ended g closed joins (edge_source e))"
  by (subst ended_iff) auto

lemma match_side_ok:
  assumes c: "multi_check g = Inr order" and jo: "joins_ok g joins" and j: "dget (graph_joins g) k = Some j" and s: "dget joins k = Some s"
    and e: "e \<in> set (edges_into (mg_edges g) k)" and em: "ends_match g closed joins"
    and counts: "\<And>i. side_at j e = Some i \<Longrightarrow> js_counts s ! i = mc_edges cp ! edge_place e (mg_edges g)"
    and eof: "dget eof (edge_source e) = Some (ended g closed joins (edge_source e))"
  shows "match_side g cp (sorted_joins joins) k eof e = Inr ()"
proof -
  obtain side i where i: "edge_side e = Some side" "side_index (kj_sides j) side = Inr i" "side_at j e = Some i"
    using join_side_at [OF c j e] by blast
  have "js_closed s ! i = ended g closed joins (edge_source e)"
    using em j s e i unfolding ends_match_def sides_match_def by blast
  then show ?thesis
    using i j s eof counts [OF i(3)] by (simp add: match_side_def join_at_def dget_sorted_joins dict_at_def)
qed

lemma match_nodes:
  assumes c: "multi_check g = Inr order" and jo: "joins_ok g joins" and em: "ends_match g closed joins"
    and counts: "\<And>k j s e i. dget (graph_joins g) k = Some j \<Longrightarrow> dget joins k = Some s \<Longrightarrow> e \<in> set (edges_into (mg_edges g) k) \<Longrightarrow>
        side_at j e = Some i \<Longrightarrow> js_counts s ! i = mc_edges cp ! edge_place e (mg_edges g)"
    and o1: "order = ys @ zs"
  shows "\<exists>eof. fold_res (match_node g cp (sorted_joins joins) closed) ys [] = Inr eof
    \<and> (\<forall>k\<in>set ys. dget eof k = Some (ended g closed joins k))"
  using o1
proof (induction ys arbitrary: zs rule: rev_induct)
  case (snoc k ys)
  obtain eof where f: "fold_res (match_node g cp (sorted_joins joins) closed) ys [] = Inr eof"
    and e: "\<forall>k\<in>set ys. dget eof k = Some (ended g closed joins k)"
    using snoc.IH [of "k # zs"] snoc.prems by auto
  have t: "sources_first (edges_into (mg_edges g)) order" "distinct order"
    using topological_order_Inr [OF multi_check_Inr(4) [OF c]] by auto
  have src: "edge_source x \<in> set ys" if "x \<in> set (edges_into (mg_edges g) k)" for x
    using t(1) snoc.prems that unfolding sources_first_def by (metis append.assoc append_Cons append_Nil)
  then have eof: "\<forall>x\<in>set (edges_into (mg_edges g) k). dget eof (edge_source x) = Some (ended g closed joins (edge_source x))"
    using e by blast
  have "match_node g cp (sorted_joins joins) closed k eof = Inr (dput k (ended g closed joins k) eof)"
  proof (cases "root_index g k")
    case (Some i)
    then show ?thesis by (simp add: match_node_def ended_root_iff)
  next
    case None
    show ?thesis
    proof (cases "dget joins k")
      case (Some s)
      obtain j where j: "dget (graph_joins g) k = Some j" using joins_ok_at [OF jo Some] by blast
      have "fold_res (\<lambda>x _. match_side g cp (sorted_joins joins) k eof x) (edges_into (mg_edges g) k) () = Inr ()"
      proof (rule fold_unit)
        fix x assume x: "x \<in> set (edges_into (mg_edges g) k)"
        show "match_side g cp (sorted_joins joins) k eof x = Inr ()"
        proof (rule match_side_ok [OF c jo j Some x em])
          show "js_counts s ! i = mc_edges cp ! edge_place x (mg_edges g)" if "side_at j x = Some i" for i
            using counts [OF j Some x that] .
          show "dget eof (edge_source x) = Some (ended g closed joins (edge_source x))" using eof x by blast
        qed
      qed
      with None Some show ?thesis by (simp add: match_node_def dget_sorted_joins ended_join_iff)
    next
      case nj: None
      have "all_ended eof (edges_into (mg_edges g) k) = Inr (ended g closed joins k)"
        using all_ended_eq [OF eof] ended_through_iff [OF None nj] by simp
      with None nj show ?thesis by (simp add: match_node_def dget_sorted_joins)
    qed
  qed
  with f e show ?case by (auto simp: fold_res_append)
qed simp

section \<open>Recovery\<close>

definition multi_restored :: "multi_runtime \<Rightarrow> multi_runtime" where
  "multi_restored rt = rt\<lparr>mr_state := (mr_state rt)\<lparr>ms_ordinary := sort_key fst (ms_ordinary (mr_state rt)),
      ms_joins := sorted_joins (ms_joins (mr_state rt))\<rparr>\<rparr>"

lemma multi_from_saved:
  assumes rec: "multi_recorded rt"
  shows "multi_from_checkpoint (mr_flow rt) (multi_saved rt) = Inr (multi_restored rt)"
proof -
  define g where "g = mr_flow rt"
  define s where "s = mr_state rt"
  define srcs where "srcs = map saved_source (zip (mg_entries g) (zip (ms_positions s) (ms_closed s)))"
  define cells where "cells = sort_key fst (ms_ordinary s)"
  have inv: "multi_inv g (mr_order rt) s" and his: "multi_history g s" and nb: "\<not> mr_busy rt"
    using rec by (simp_all add: multi_recorded_def multi_rt_inv_def g_def s_def)
  have c: "multi_check g = Inr (mr_order rt)" and mc: "multi_cells_ok g s" and pos: "multi_positions_ok g s"
    and em: "ends_match g (ms_closed s) (ms_joins s)"
    using inv by (simp_all add: multi_inv_def)
  have jo: "joins_ok g (ms_joins s)" and st: "state_ok (multi_lim g) (multi_stateful g) (ms_ordinary s) (ms_ordinary_bytes s)"
    using mc by (simp_all add: multi_cells_ok_def)
  have d: "dict_ok (ms_joins s)" "dict_ok (ms_ordinary s)" using joins_ok_dict [OF c jo] st by (simp_all add: state_ok_def)
  have dg: "dict_ok (graph_joins g)" by (rule multi_joins_dict [OF multi_check_Inr(3) [OF c]])
  have len: "length (ms_positions s) = length (mg_entries g)" "length (ms_closed s) = length (mg_entries g)"
    using pos by (simp_all add: multi_positions_ok_def)
  have proj: "map fst srcs = map en_source (mg_entries g)" "map (fst \<circ> snd) srcs = ms_positions s" "map (snd \<circ> snd) srcs = ms_closed s"
    unfolding srcs_def using len
    by (auto simp: saved_source_def comp_def map_zip_map2 intro!: nth_equalityI)
  define cp where "cp = multi_saved rt"
  have v: "mc_identity cp = multi_identity g" "mc_sources cp = srcs" "mc_cells cp = map to_cell cells"
    "mc_joins cp = map (saved_join g) (ms_joins s)" "mc_edges cp = ms_edges s" "mc_operations cp = ms_operations s" "mc_emitted cp = ms_emitted s"
    by (simp_all add: cp_def multi_saved_def Let_def g_def s_def srcs_def cells_def)
  have names: "map (fst \<circ> saved_join g) (ms_joins s) = map fst (graph_joins g)"
    using jo by (simp add: saved_join_parts comp_def joins_ok_def)
  define ids where "ids = map step_id (filter (\<lambda>s. is_stateful (step_op s)) (graph_steps (mg_nodes g)))"
  have ord: "fold_res (restore_ordinary ids (max_state_value_bytes (multi_lim g))) (map to_cell cells) ([], 0, 0)
      = Inr (cells, ms_ordinary_bytes s, (\<Sum>e\<leftarrow>ms_ordinary s. cell_wire (fst e) (snd e)))"
  proof -
    have "fst (fst e) \<in> set ids \<and> byte_len (snd e) \<le> max_state_value_bytes (multi_lim g)" if "e \<in> set cells" for e
    proof -
      have "dget (ms_ordinary s) (fst e) = Some (snd e)" using that d(2) by (simp add: cells_def sort_key_fst_perm dict_ok_map_of_iff)
      then have "cell_ok (multi_lim g) (multi_stateful g) (fst e) (snd e)" using st unfolding state_ok_def view_ok_def by blast
      then show ?thesis by (auto simp: cell_ok_def stateful_ids_def multi_stateful_def ids_def)
    qed
    moreover have "distinct (dkeys ([] @ cells))" using sort_key_fst_perm(3) [OF d(2)] by (simp add: cells_def dict_ok_def)
    ultimately show ?thesis
      using fold_restore_ordinary [of cells ids _ "[]" 0 0] st by (simp add: cells_def sum_list_sort_int state_ok_def)
  qed
  have lens: "length cells = length (ms_ordinary s)" by (simp add: cells_def sort_key_fst_perm)
  have sizes: "int (length (ms_ordinary s)) \<le> max_state_keys (multi_lim g)" "ms_ordinary_bytes s \<le> max_state_bytes (multi_lim g)"
    using st by (simp_all add: state_ok_def)
  have jns: "fold_res (restore_join g) (map (saved_join g) (ms_joins s)) ([], int (length cells), 0, (\<Sum>e\<leftarrow>ms_ordinary s. cell_wire (fst e) (snd e)))
      = Inr (sorted_joins (ms_joins s), ms_cells s, ms_values s, ms_bytes s)"
  proof -
    have "\<exists>j. dget (graph_joins g) (fst e) = Some j \<and> keyed_join_ok j \<and> join_good j (snd e)" if "e \<in> set (ms_joins s)" for e
      using sound_entry [OF c jo that] by blast
    then show ?thesis
      using fold_restore_joins [of "ms_joins s" g "[]"] d(1) mc by (simp add: lens multi_cells_ok_def dict_ok_def)
  qed
  have lim: "ms_cells s \<le> ml_cells (mg_limits g)" "ms_values s \<le> ml_values (mg_limits g)" "ms_bytes s \<le> ml_bytes (mg_limits g)"
    using mc by (simp_all add: multi_cells_ok_def)
  have final: "final_rows g (sorted_joins (ms_joins s)) = Inr (final_total g (ms_joins s))"
  proof -
    have some: "\<exists>t. dget (sorted_joins (ms_joins s)) k = Some t" if "(k, j) \<in> set (graph_joins g)" for k j
    proof -
      have "dget (graph_joins g) k = Some j" using that dg by (simp add: dict_ok_map_of_iff)
      from joins_ok_some [OF jo this] show ?thesis by (auto simp: dget_sorted_joins)
    qed
    have "final_total g (sorted_joins (ms_joins s)) = final_total g (ms_joins s)"
    proof (rule final_total_eq [OF _ dg])
      fix k j assume "dget (graph_joins g) k = Some j"
      from joins_ok_some [OF jo this] show "js_emitted (the (dget (sorted_joins (ms_joins s)) k)) = js_emitted (the (dget (ms_joins s) k))"
        by (auto simp: dget_sorted_joins)
    qed
    then show ?thesis using final_rows_eq [of "graph_joins g" "sorted_joins (ms_joins s)" 0] some
      by (simp add: final_rows_def final_total_def)
  qed
  have counts: "js_counts t ! i = mc_edges cp ! edge_place e (mg_edges g)"
    if "dget (graph_joins g) k = Some j" "dget (ms_joins s) k = Some t" "e \<in> set (edges_into (mg_edges g) k)" "side_at j e = Some i" for k j t e i
    using his that unfolding multi_history_def v by blast
  have "\<exists>eof. fold_res (match_node g cp (sorted_joins (ms_joins s)) (ms_closed s)) (mr_order rt) [] = Inr eof
      \<and> (\<forall>k\<in>set (mr_order rt). dget eof k = Some (ended g (ms_closed s) (ms_joins s) k))"
    by (rule match_nodes [OF c jo em _ append_Nil2 [symmetric]]) (rule counts)
  then obtain eof where mat: "fold_res (match_node g cp (sorted_joins (ms_joins s)) (ms_closed s)) (mr_order rt) [] = Inr eof" by blast
  have dr: "ms_operations s - inputs_of s - int (length (filter id (ms_closed s))) = drains_of s" by (simp add: drains_of_def)
  have dn: "drains_of s \<le> final_total g (ms_joins s)" "drains_of s = 0 \<longrightarrow> final_total g (ms_joins s) = 0"
    "sum_list (ms_edges s) + ms_emitted s \<le> (inputs_of s + drains_of s) * max_work_records (ml_graph (mg_limits g))"
    using his by (simp_all add: multi_history_def)
  have mk: "make_multi_runtime g = Inr (rt\<lparr>mr_state := empty_multi_state g\<rparr>)"
    using c nb by (cases rt) (simp add: make_multi_runtime_def g_def)
  have edges: "length (ms_edges s) = length (mg_edges g)" using pos by (simp add: multi_positions_ok_def)
  have ok: "multi_checkpoint_check cp = Inr cp" using multi_saved_ok [OF rec] by (simp add: cp_def)
  have res: "(rt\<lparr>mr_state := empty_multi_state g\<rparr>)\<lparr>mr_state :=
      \<lparr>ms_ordinary = cells, ms_ordinary_bytes = ms_ordinary_bytes s, ms_joins = sorted_joins (ms_joins s), ms_positions = ms_positions s,
       ms_closed = ms_closed s, ms_edges = ms_edges s, ms_operations = ms_operations s, ms_emitted = ms_emitted s, ms_cells = ms_cells s,
       ms_values = ms_values s, ms_bytes = ms_bytes s\<rparr>\<rparr> = multi_restored rt"
    by (cases rt; cases "mr_state rt") (simp add: multi_restored_def cells_def s_def)
  note facts = v(1,2,5-7) names proj edges ord [unfolded multi_lim_def ids_def] jns [unfolded lens] final mat inputs_of_def [symmetric] dr
  have "multi_from_checkpoint g cp = Inr (multi_restored rt)"
    unfolding multi_from_checkpoint_def mk ok rbind.simps Let_def v(3,4) facts res [symmetric]
    using sizes lim dn by (simp add: facts lens multi_lim_def)
  then show ?thesis by (simp add: g_def cp_def)
qed

end
