(* ===== verification/Multi_Calls.thy ===== *)
theory Multi_Calls
  imports Multi_History Walk_Arrivals
begin

text \<open>
  The calls a multi-source graph makes on one of its joins, operation by operation: the drain of
  a ready join, the records that the walk hands to the join with their sides, and the sides whose
  producers have ended.
\<close>

section \<open>The calls\<close>

text \<open>The task of an operation, and none when it changes nothing.\<close>

fun task_of :: "multi_graph \<Rightarrow> pystr list \<Rightarrow> multi_op \<Rightarrow> multi_state \<Rightarrow> multi_task option" where
  "task_of g order (MInput x) s =
     Some (TInput (length (takeWhile (\<lambda>en. en_source en \<noteq> mi_source x) (mg_entries g))) (mi_record x))"
| "task_of g order (MClose source _) s =
     (let i = length (takeWhile (\<lambda>en. en_source en \<noteq> source) (mg_entries g))
      in if ms_closed s ! i then None else Some (TClose i))"
| "task_of g order (MDrain n) s =
     (case joins_ready order (ms_joins s) of [] \<Rightarrow> None | k # _ \<Rightarrow> Some (TDrain k n))"

definition task_arrivals :: "multi_graph \<Rightarrow> pystr list \<Rightarrow> multi_task \<Rightarrow> multi_state \<Rightarrow> pystr
    \<Rightarrow> (multi_edge \<times> flow_record list) list" where
  "task_arrivals g order t s k =
     (case task_seed g t s (begin_multi s) of
        Inl _ \<Rightarrow> []
      | Inr (_, _, seeds, outputs, h) \<Rightarrow>
          arrivals (multi_walk g (ms_ordinary s) seeds outputs) order k
            (begin_tx (ms_ordinary s) (ms_ordinary_bytes s), h))"

definition record_calls :: "(multi_edge \<times> flow_record list) list \<Rightarrow> join_op list" where
  "record_calls batches = concat (map (\<lambda>(e, rs). map (JProcess (the (edge_side e))) rs) batches)"

section \<open>Operations of one join\<close>

definition join_steps :: "keyed_join \<Rightarrow> join_op list \<Rightarrow> join_state \<Rightarrow> join_state res" where
  "join_steps j ops s = fold_res (\<lambda>op s. rbind (join_stage j op s) (\<lambda>(s, _). Inr s)) ops s"

lemma join_steps_simps [simp]:
  "join_steps j [] s = Inr s"
  "join_steps j (op # ops) s = rbind (join_stage j op s) (\<lambda>(s, _). join_steps j ops s)"
  by (cases "join_stage j op s"; auto simp: join_steps_def split: prod.splits)+

lemma join_steps_append: "join_steps j (ops @ ops') s = rbind (join_steps j ops s) (join_steps j ops')"
proof (induction ops arbitrary: s)
  case (Cons op ops)
  then show ?case by (cases "join_stage j op s") (auto split: prod.splits)
qed simp

lemma join_steps_trans: "join_steps j a s = Inr t \<Longrightarrow> join_steps j b t = Inr u \<Longrightarrow> join_steps j (a @ b) s = Inr u"
  by (simp add: join_steps_append)

lemma join_steps_run:
  "join_steps j ops s = Inr s' \<Longrightarrow>
   \<exists>replies. run_ops join_apply ops \<lparr>jt_join = j, jt_state = s, jt_busy = False\<rparr>
     = (replies, \<lparr>jt_join = j, jt_state = s', jt_busy = False\<rparr>) \<and> list_all succeeded replies"
proof (induction ops arbitrary: s)
  case (Cons op ops)
  then obtain s1 r where a: "join_stage j op s = Inr (s1, r)" and rest: "join_steps j ops s1 = Inr s'"
    by (cases "join_stage j op s") auto
  have "join_apply op \<lparr>jt_join = j, jt_state = s, jt_busy = False\<rparr> = (Inr r, \<lparr>jt_join = j, jt_state = s1, jt_busy = False\<rparr>)"
    using a by (simp add: join_apply_def)
  with Cons.IH [OF rest] show ?case by (auto simp: run_ops_Cons)
qed simp

text \<open>The staged operations under the budgets of a graph are those of the join alone.\<close>

lemma process_step:
  assumes "stage_process j (join_admit g k) s side r h = Inr (t, b, h')"
  shows "join_stage j (JProcess side r) s = Inr (t, b) \<and> mh_joins h' = mh_joins h \<and> mh_edges h' = mh_edges h"
proof -
  obtain counts x c where p: "propose_cell j s side r = Inr (counts, x, c)"
    using assms unfolding stage_process_def rbind_eq_Inr by (metis prod_cases3)
  then have "stage_process j no_admit s side r () = Inr (t, b, ())"
    using assms by (simp add: stage_process_def Let_def no_admit_def split: if_splits)
  moreover obtain rows bytes where "join_admit g k t rows bytes h = Inr h'"
    using assms p by (auto simp: stage_process_def Let_def split: if_splits)
  ultimately show ?thesis by (auto simp: join_stage_def join_admit_def Let_def retention_Inr)
qed

lemma drain_step:
  assumes "stage_drain j (join_admit g k) s n h = Inr (t, b, h')"
  shows "join_stage j (JDrain n) s = Inr (t, b) \<and> mh_joins h' = mh_joins h \<and> mh_edges h' = mh_edges h
    \<and> js_counts t = js_counts s"
proof -
  have "stage_drain j no_admit s n () = Inr (t, b, ())"
    using assms by (auto simp: stage_drain_def Let_def no_admit_def split: if_splits)
  then show ?thesis
    using assms by (auto simp: join_stage_def stage_drain_def join_admit_def Let_def retention_Inr split: if_splits)
qed

lemma close_step:
  assumes "stage_close j s side = Inr (t, b)"
  shows "join_stage j (JClose side) s = Inr (t, b) \<and> js_counts t = js_counts s"
  using assms by (auto simp: join_stage_def stage_close_def Let_def split: if_splits)

lemma emitted_rows_frame:
  "fold_res (emit_row gl) rows (o1, a) = Inr (o2, b) \<Longrightarrow> mh_joins b = mh_joins a \<and> mh_edges b = mh_edges a"
proof (induction rows arbitrary: o1 a)
  case (Cons row rows)
  obtain z where one: "emit_row gl row (o1, a) = Inr z" and rest: "fold_res (emit_row gl) rows z = Inr (o2, b)"
    using Cons.prems by auto
  obtain r a1 where "multi_charge gl r a = Inr a1" and f: "fold_res (emit_row gl) rows (o1 @ [r], a1) = Inr (o2, b)"
    using one rest by (auto simp: emit_row_def)
  then have "mh_joins a1 = mh_joins a \<and> mh_edges a1 = mh_edges a"
    by (auto simp: multi_charge_def split: if_splits)
  with Cons.IH [OF f] show ?case by auto
qed simp

lemma item_step:
  assumes "join_item g k j side r (out, h) = Inr (out', h')"
  shows "\<exists>s t b. dget (mh_joins h) k = Some s \<and> join_stage j (JProcess side r) s = Inr (t, b)
    \<and> mh_joins h' = dput k t (mh_joins h) \<and> mh_edges h' = mh_edges h"
proof -
  obtain s after batch h1 h2 where s: "dget (mh_joins h) k = Some s"
    and p: "stage_process j (join_admit g k) s side r h = Inr (after, batch, h1)"
    and e: "fold_res (emit_row (ml_graph (mg_limits g))) (jb_rows batch) (out, h1) = Inr (out', h2)"
    and h': "h' = h2\<lparr>mh_joins := dput k after (mh_joins h2)\<rparr>"
    using assms by (auto simp: join_item_def)
  with process_step [OF p] emitted_rows_frame [OF e] show ?thesis by auto
qed

lemma items_step:
  "fold_res (join_item g k j side) rs (out, h) = Inr (out', h') \<Longrightarrow>
   mh_edges h' = mh_edges h \<and> (\<forall>x. x \<noteq> k \<longrightarrow> dget (mh_joins h') x = dget (mh_joins h) x)
   \<and> (\<forall>s. dget (mh_joins h) k = Some s \<longrightarrow>
        (\<exists>t. dget (mh_joins h') k = Some t \<and> join_steps j (map (JProcess side) rs) s = Inr t))"
proof (induction rs arbitrary: out h)
  case (Cons r rs)
  then obtain o1 h1 where one: "join_item g k j side r (out, h) = Inr (o1, h1)"
    and rest: "fold_res (join_item g k j side) rs (o1, h1) = Inr (out', h')"
    by (cases "join_item g k j side r (out, h)") auto
  from item_step [OF one] Cons.IH [OF rest] show ?case by auto
qed simp

lemma batches_step:
  assumes "fold_res (join_batch_items g k) batches (out, h) = Inr (out', h')" "join_at g k = Inr j"
  shows "mh_edges h' = mh_edges h \<and> (\<forall>x. x \<noteq> k \<longrightarrow> dget (mh_joins h') x = dget (mh_joins h) x)
   \<and> (\<forall>s. dget (mh_joins h) k = Some s \<longrightarrow>
        (\<exists>t. dget (mh_joins h') k = Some t \<and> join_steps j (record_calls batches) s = Inr t))"
  using assms(1)
proof (induction batches arbitrary: out h)
  case (Cons eb batches)
  obtain e rs where eb: "eb = (e, rs)" by (cases eb)
  obtain o1 h1 where one: "join_batch_items g k eb (out, h) = Inr (o1, h1)"
    and rest: "fold_res (join_batch_items g k) batches (o1, h1) = Inr (out', h')"
    using Cons.prems by (cases "join_batch_items g k eb (out, h)") auto
  obtain side where side: "edge_side e = Some side" "fold_res (join_item g k j side) rs (out, h) = Inr (o1, h1)"
    using one assms(2) by (auto simp: join_batch_items_def eb split: option.splits)
  from items_step [OF side(2)] Cons.IH [OF rest] show ?case
    by (fastforce simp: eb record_calls_def side(1) join_steps_append)
qed (simp add: record_calls_def)

lemma joined_step:
  assumes "joined g k batches (tx, h) = Inr (out, tx', h')" "join_at g k = Inr j"
  shows "mh_edges h' = mh_edges h \<and> (\<forall>x. x \<noteq> k \<longrightarrow> dget (mh_joins h') x = dget (mh_joins h) x)
   \<and> (\<forall>s. dget (mh_joins h) k = Some s \<longrightarrow>
        (\<exists>t. dget (mh_joins h') k = Some t \<and> join_steps j (record_calls batches) s = Inr t))"
  using assms batches_step by (auto simp: joined_def)

lemma joined_frame:
  assumes "joined g k batches (tx, h) = Inr (out, tx', h')"
  shows "mh_edges h' = mh_edges h \<and> (\<forall>x. x \<noteq> k \<longrightarrow> dget (mh_joins h') x = dget (mh_joins h) x)"
proof (cases "join_at g k")
  case (Inr j)
  with joined_step [OF assms] show ?thesis by blast
next
  case (Inl err)
  have "fold_res (join_batch_items g k) batches ([], h) = Inr (out, h')" using assms by (auto simp: joined_def)
  then have "snd (out, h') = h"
  proof (rule fold_res_invariant [where P = "\<lambda>s. snd s = h"])
    fix eb s t assume s: "snd s = h" and b: "join_batch_items g k eb s = Inr t"
    show "snd t = h" using b s by (cases "snd eb") (auto simp: join_batch_items_def Inl split: option.splits)
  qed simp
  then show ?thesis by simp
qed

section \<open>The node of a join in the walk\<close>

definition join_fine :: "multi_graph \<Rightarrow> multi_hook \<Rightarrow> bool" where
  "join_fine g h \<longleftrightarrow> distinct (mg_edges g) \<and> length (mh_edges h) = length (mg_edges g)"

definition side_tally :: "multi_graph \<Rightarrow> multi_hook \<Rightarrow> multi_edge \<Rightarrow> int" where
  "side_tally g h e = mh_edges h ! edge_place e (mg_edges g)"

lemma edge_place_other: "e \<in> set es \<Longrightarrow> x \<noteq> e \<Longrightarrow> edge_place x es \<noteq> edge_place e es"
proof (induction es)
  case (Cons d es)
  then show ?case by (cases "d = e"; cases "d = x") (auto simp: edge_place_def)
qed simp

interpretation watched_join: watched_walk "multi_walk g base seeds outputs" "mg_edges g" k "join_fine g"
  "\<lambda>h. dget (mh_joins h) k" "side_tally g" for g base seeds outputs k
proof
  fix h h' assume f: "join_fine g h"
  show "distinct (mg_edges g)" using f by (simp add: join_fine_def)
  show "join_fine g h' \<and> dget (mh_joins h') k = dget (mh_joins h) k \<and> side_tally g h' = side_tally g h"
    if "charge (multi_walk g base seeds outputs) r h = Inr h'" for r
    using that f by (auto simp: multi_walk_def multi_charge_def join_fine_def side_tally_def fun_eq_iff split: if_splits)
  show "join_fine g h' \<and> dget (mh_joins h') k = dget (mh_joins h) k \<and> side_tally g h' = side_tally g h"
    if "on_propose (wp_hooks (multi_walk g base seeds outputs)) c previous v h = Inr h'" for c previous v
    using that f by (auto simp: multi_walk_def multi_propose_def retention_Inr join_fine_def side_tally_def fun_eq_iff)
  show "join_fine g h' \<and> dget (mh_joins h') k = dget (mh_joins h) k
      \<and> side_tally g h' = (side_tally g h)(e := side_tally g h e + int n)"
    if "e \<in> set (mg_edges g)" "wp_delivered (multi_walk g base seeds outputs) e n h = Inr h'" for e n
    using that f edge_place_at [OF that(1)] edge_place_other [OF that(1), symmetric]
    by (auto simp: multi_walk_def multi_delivered_def Let_def join_fine_def side_tally_def fun_eq_iff split: prod.splits option.splits)
  show "join_fine g h' \<and> side_tally g h' = side_tally g h \<and> (i \<noteq> k \<longrightarrow> dget (mh_joins h') k = dget (mh_joins h) k)"
    if "wp_extension (multi_walk g base seeds outputs) = Some ext" "ext i batches (tx, h) = Inr (out, tx', h')" for ext i batches tx out tx'
  proof -
    have "ext = joined g" using that(1) by (simp add: multi_walk_def)
    with that(2) f joined_frame [of g i batches tx h out tx' h'] show ?thesis by (auto simp: join_fine_def side_tally_def fun_eq_iff)
  qed
qed (simp_all add: multi_walk_def)

section \<open>The sides that close\<close>

definition closing_edges :: "(multi_edge \<Rightarrow> bool) \<Rightarrow> multi_edge list \<Rightarrow> join_op list" where
  "closing_edges over es = map (\<lambda>e. JClose (the (edge_side e))) (filter over es)"

lemma sides_step:
  assumes "fold_res (close_side g k eof) es h = Inr h'" "join_at g k = Inr j" "dget (mh_joins h) k = Some s"
    and "\<forall>e\<in>set es. edge_side e \<noteq> None"
  shows "\<exists>t. dget (mh_joins h') k = Some t \<and> (\<forall>x. x \<noteq> k \<longrightarrow> dget (mh_joins h') x = dget (mh_joins h) x)
    \<and> join_steps j (closing_edges (\<lambda>e. dget eof (edge_source e) = Some True) es) s = Inr t \<and> js_counts t = js_counts s"
  using assms
proof (induction es arbitrary: h s)
  case (Cons e es)
  obtain h1 where one: "close_side g k eof e h = Inr h1" and rest: "fold_res (close_side g k eof) es h1 = Inr h'"
    using Cons.prems(1) by auto
  obtain side where side: "edge_side e = Some side" using Cons.prems(4) by auto
  show ?case
  proof (cases "dget eof (edge_source e) = Some True")
    case False
    then have "h1 = h" using one side by (auto simp: close_side_def split: if_splits)
    with Cons.IH [OF rest Cons.prems(2)] Cons.prems(3,4) False show ?thesis by (simp add: closing_edges_def)
  next
    case True
    obtain t b h2 where p: "stage_close j s side = Inr (t, b)" and a: "join_admit g k t 0 0 h = Inr h2"
      and h1: "h1 = h2\<lparr>mh_joins := dput k t (mh_joins h2)\<rparr>"
      using one side True Cons.prems(2,3) by (auto simp: close_side_def split: prod.splits)
    have "mh_joins h2 = mh_joins h" using a by (auto simp: join_admit_def Let_def retention_Inr)
    then have j1: "mh_joins h1 = dput k t (mh_joins h)" by (simp add: h1)
    have "dget (mh_joins h1) k = Some t" using j1 by simp
    from Cons.IH [OF rest Cons.prems(2) this] Cons.prems(4) close_step [OF p] True side j1 show ?thesis
      by (auto simp: closing_edges_def)
  qed
qed (simp add: closing_edges_def)

lemma end_node_frame:
  assumes "end_node g closed x (eof, h) = Inr (eof', h')"
  shows "(\<forall>y. y \<noteq> x \<longrightarrow> dget eof' y = dget eof y \<and> dget (mh_joins h') y = dget (mh_joins h) y)"
proof -
  have other: "fold_res (close_side g x eof) es h = Inr h1 \<Longrightarrow> (\<forall>y. y \<noteq> x \<longrightarrow> dget (mh_joins h1) y = dget (mh_joins h) y)" for es h h1
  proof (induction es arbitrary: h)
    case (Cons e es)
    obtain h2 where one: "close_side g x eof e h = Inr h2" and rest: "fold_res (close_side g x eof) es h2 = Inr h1"
      using Cons.prems by auto
    have "dget (mh_joins h2) y = dget (mh_joins h) y" if "y \<noteq> x" for y
      using one that by (auto simp: close_side_def join_admit_def Let_def retention_Inr split: option.splits if_splits prod.splits)
    with Cons.IH [OF rest] show ?case by auto
  qed simp
  show ?thesis
    using assms other by (auto simp: end_node_def split: option.splits if_splits)
qed

lemma end_nodes_frame:
  "fold_res (end_node g closed) xs (eof, h) = Inr (eof', h') \<Longrightarrow> y \<notin> set xs \<Longrightarrow>
   dget eof' y = dget eof y \<and> dget (mh_joins h') y = dget (mh_joins h) y"
proof (induction xs arbitrary: eof h)
  case (Cons x xs)
  obtain e1 h1 where one: "end_node g closed x (eof, h) = Inr (e1, h1)"
    and rest: "fold_res (end_node g closed) xs (e1, h1) = Inr (eof', h')"
    using Cons.prems(1) by (cases "end_node g closed x (eof, h)") auto
  from end_node_frame [OF one] Cons.IH [OF rest] Cons.prems(2) show ?case by auto
qed simp

lemma pass_step:
  assumes en: "fold_res (end_node g closed) order ([], h) = Inr (eof, h3)"
    and m: "multi_metered g order base j1 (tx, h)" and j: "dget (graph_joins g) k = Some j" and s: "dget (mh_joins h) k = Some s"
  shows "\<exists>t. dget (mh_joins h3) k = Some t \<and> js_counts t = js_counts s
    \<and> join_steps j (closing_edges (\<lambda>e. ended g closed (mh_joins h3) (edge_source e)) (edges_into (mg_edges g) k)) s = Inr t"
proof -
  have c: "multi_check g = Inr order" using m by simp
  have o1: "sources_first (edges_into (mg_edges g)) order" "distinct order" "set order = set (map node_id (mg_nodes g))"
    using topological_order_Inr [OF multi_check_Inr(4) [OF c]] by auto
  have "GOther k j \<in> set (mg_nodes g)" using checked_join [OF c j] by blast
  then have "k \<in> set order" unfolding o1(3) by force
  then obtain pre post where cut: "order = pre @ k # post" by (meson split_list)
  have k: "k \<notin> set pre" "k \<notin> set post" using o1(2) cut by auto
  have "ending g order base tx closed h order (eof, h3)"
    using en
  proof (rule fold_res_prefix [where P = "ending g order base tx closed h"])
    show "ending g order base tx closed h [] ([], h)" using m by (auto simp: ending_def passed_def joins_walked_def)
  qed (rule end_node_ok [OF c])
  then have final: "dget eof x = Some (ended g closed (mh_joins h3) x)" if "x \<in> set order" for x
    using that by (simp add: ending_def)
  obtain z1 z2 where "fold_res (end_node g closed) pre ([], h) = Inr z1" "end_node g closed k z1 = Inr z2"
      "fold_res (end_node g closed) post z2 = Inr (eof, h3)"
    using en unfolding cut by (auto simp: fold_res_append)
  then obtain eof1 h1 eof2 h2 where f1: "fold_res (end_node g closed) pre ([], h) = Inr (eof1, h1)"
    and n: "end_node g closed k (eof1, h1) = Inr (eof2, h2)" and f2: "fold_res (end_node g closed) post (eof2, h2) = Inr (eof, h3)"
    by (cases z1; cases z2) auto
  have s1: "dget (mh_joins h1) k = Some s" using end_nodes_frame [OF f1 k(1)] s by simp
  have r: "root_index g k = None" by (rule join_not_root [OF c j])
  obtain h4 where cs: "fold_res (close_side g k eof1) (edges_into (mg_edges g) k) h1 = Inr h4" and h2: "h2 = h4"
    using n r s1 by (auto simp: end_node_def)
  have at: "join_at g k = Inr j" using j by (simp add: join_at_def)
  have sides: "\<forall>e\<in>set (edges_into (mg_edges g) k). edge_side e \<noteq> None" using join_side_at [OF c j] by fastforce
  obtain t where t: "dget (mh_joins h4) k = Some t" "js_counts t = js_counts s"
      "join_steps j (closing_edges (\<lambda>e. dget eof1 (edge_source e) = Some True) (edges_into (mg_edges g) k)) s = Inr t"
    using sides_step [OF cs at s1 sides] by blast
  have "dget eof1 (edge_source e) = Some (ended g closed (mh_joins h3) (edge_source e))" if "e \<in> set (edges_into (mg_edges g) k)" for e
  proof -
    have src: "edge_source e \<in> set pre" using o1(1) cut that unfolding sources_first_def by blast
    then have "edge_source e \<noteq> k" "edge_source e \<notin> set post" "edge_source e \<in> set order" using o1(2) cut by auto
    then show ?thesis using final [of "edge_source e"] end_nodes_frame [OF f2, of "edge_source e"] end_node_frame [OF n] by auto
  qed
  then have "closing_edges (\<lambda>e. dget eof1 (edge_source e) = Some True) (edges_into (mg_edges g) k)
      = closing_edges (\<lambda>e. ended g closed (mh_joins h3) (edge_source e)) (edges_into (mg_edges g) k)"
    unfolding closing_edges_def by (intro arg_cong [where f = "map _"] filter_cong) auto
  moreover have "dget (mh_joins h3) k = Some t" using end_nodes_frame [OF f2 k(2)] t(1) h2 by simp
  ultimately show ?thesis using t(2,3) by auto
qed

lemma ends_edges:
  assumes en: "fold_res (end_node g closed) order ([], h) = Inr (eof, h3)" and m: "multi_metered g order base j1 (tx, h)"
  shows "mh_edges h3 = mh_edges h"
proof -
  have c: "multi_check g = Inr order" using m by simp
  have "ending g order base tx closed h order (eof, h3)"
    using en
  proof (rule fold_res_prefix [where P = "ending g order base tx closed h"])
    show "ending g order base tx closed h [] ([], h)" using m by (auto simp: ending_def passed_def joins_walked_def)
  qed (rule end_node_ok [OF c])
  then show ?thesis by (simp add: ending_def)
qed

section \<open>Every operation\<close>

definition join_calls :: "multi_graph \<Rightarrow> pystr list \<Rightarrow> multi_task \<Rightarrow> multi_state \<Rightarrow> multi_state \<Rightarrow> pystr \<Rightarrow> join_op list" where
  "join_calls g order t s s' k =
     (case t of TDrain x n \<Rightarrow> if x = k then [JDrain n] else [] | _ \<Rightarrow> [])
     @ record_calls (task_arrivals g order t s k)
     @ closing_edges (\<lambda>e. ended g (ms_closed s') (ms_joins s') (edge_source e)) (edges_into (mg_edges g) k)"

lemma seed_step:
  assumes sd: "task_seed g t s (begin_multi s) = Inr (positions, closed, seeds, outputs, h)"
    and j: "dget (graph_joins g) k = Some j" and s: "dget (ms_joins s) k = Some js"
  shows "\<exists>u. dget (mh_joins h) k = Some u \<and> js_counts u = js_counts js \<and> mh_edges h = ms_edges s
    \<and> join_steps j (case t of TDrain x n \<Rightarrow> if x = k then [JDrain n] else [] | _ \<Rightarrow> []) js = Inr u
    \<and> (dget outputs k \<noteq> None \<longleftrightarrow> (\<exists>n. t = TDrain k n))"
proof (cases t)
  case (TDrain x n)
  obtain jx before after batch h1 rows where jx: "dget (graph_joins g) x = Some jx" "dget (ms_joins s) x = Some before"
    and p: "stage_drain jx (join_admit g x) before n (begin_multi s) = Inr (after, batch, h1)"
    and o1: "outputs = [(x, rows)]" "h = h1\<lparr>mh_joins := dput x after (mh_joins h1)\<rparr>"
    using sd TDrain by (auto simp: task_seed_def join_at_def begin_multi_def)
  from drain_step [OF p] o1 jx j s TDrain show ?thesis by (auto simp: begin_multi_def)
next
  case (TInput i r)
  with sd s show ?thesis by (auto simp: task_seed_def begin_multi_def multi_charge_def split: if_splits)
next
  case (TClose i)
  with sd s show ?thesis by (auto simp: task_seed_def begin_multi_def)
qed

lemma task_calls:
  assumes inv: "multi_inv g order s" and his: "multi_history g s" and t: "task_ok g s t"
    and e: "multi_execute g order t s = Inr (after, b)"
    and j: "dget (graph_joins g) k = Some j" and js: "dget (ms_joins s) k = Some js"
  shows "(\<exists>js'. dget (ms_joins after) k = Some js' \<and> join_steps j (join_calls g order t s after k) js = Inr js')
    \<and> map fst (task_arrivals g order t s k) = edges_into (mg_edges g) k
    \<and> (\<forall>(e, rs)\<in>set (task_arrivals g order t s k).
         ms_edges after ! edge_place e (mg_edges g) = ms_edges s ! edge_place e (mg_edges g) + int (length rs))"
proof -
  define base where "base = ms_ordinary s"
  define tx0 where "tx0 = begin_tx base (ms_ordinary_bytes s)"
  obtain positions closed seeds outputs h published tx h2 eof h3 where
    sd: "task_seed g t s (begin_multi s) = Inr (positions, closed, seeds, outputs, h)"
    and wk: "walk_graph (multi_walk g base seeds outputs) order (tx0, h) = Inr (published, tx, h2)"
    and en: "fold_res (end_node g closed) order ([], h2) = Inr (eof, h3)"
    and fin: "commit_multi order s positions closed (published, tx, h3) = Inr (after, b)"
    using e by (auto simp: multi_execute_def base_def tx0_def)
  have after: "ms_joins after = mh_joins h3" "ms_closed after = closed" "ms_edges after = mh_edges h3"
    using fin by (auto simp: commit_multi_def Let_def split: prod.splits)
  have c: "multi_check g = Inr order" using inv by (simp add: multi_inv_def)
  note seed = task_seed_ok [OF inv t sd]
  have m0: "multi_metered g order base (mh_joins h) (tx0, h)" using seed by (simp add: base_def tx0_def)
  have W: "multi_metered g order base (mh_joins h) (tx, h2)"
    using multi.walk [OF wk] seed unfolding base_def tx0_def by blast
  have o1: "sources_first (edges_into (mg_edges g)) order" "distinct order" "set order = set (map node_id (mg_nodes g))"
    using topological_order_Inr [OF multi_check_Inr(4) [OF c]] by auto
  have "GOther k j \<in> set (mg_nodes g)" using checked_join [OF c j] by blast
  then have ko: "k \<in> set order" unfolding o1(3) by force
  obtain u where u: "dget (mh_joins h) k = Some u" "js_counts u = js_counts js" "mh_edges h = ms_edges s"
      "join_steps j (case t of TDrain x n \<Rightarrow> if x = k then [JDrain n] else [] | _ \<Rightarrow> []) js = Inr u"
      "dget outputs k \<noteq> None \<longleftrightarrow> (\<exists>n. t = TDrain k n)"
    using seed_step [OF sd j js] by (elim exE conjE) (rule that)
  have len: "length (mh_edges h) = length (mg_edges g)" using m0 unfolding multi_metered.simps by blast
  then have f: "join_fine g h" using multi_check_Inr(6) [OF c] unfolding join_fine_def by blast
  define A where "A = task_arrivals g order t s k"
  have A: "A = arrivals (multi_walk g base seeds outputs) order k (tx0, h)"
    by (simp add: A_def task_arrivals_def sd base_def tx0_def)
  obtain tx1 h1 routed tx3 h4 where
    r: "run_node (multi_walk g base seeds outputs) k A (tx1, h1) = Inr (routed, tx3, h4)"
    and seen: "dget (mh_joins h1) k = dget (mh_joins h) k" "dget (mh_joins h2) k = dget (mh_joins h4) k"
    and ar: "map fst A = edges_into (mg_edges g) k"
      "\<forall>(e, rs)\<in>set A. side_tally g h2 e = side_tally g h e + int (length rs)"
    using watched_join.walk_seen [OF wk f o1(1,2) ko] unfolding A by blast
  have edges: "mh_edges h3 = mh_edges h2" using ends_edges [OF en W] .
  have tie: "\<forall>(e, rs)\<in>set A. ms_edges after ! edge_place e (mg_edges g) = ms_edges s ! edge_place e (mg_edges g) + int (length rs)"
    using ar(2) after edges u(3) by (simp add: side_tally_def)
  have node: "wp_nodes (multi_walk g base seeds outputs) k = GOther k j" "wp_seed_outputs (multi_walk g base seeds outputs) = outputs"
      "wp_extension (multi_walk g base seeds outputs) = Some (joined g)"
    using join_node [OF c, of k j] j by (simp_all add: multi_walk_def)
  have at: "join_at g k = Inr j" using j by (simp add: join_at_def)
  have "\<exists>v. dget (mh_joins h2) k = Some v \<and> join_steps j (record_calls A) u = Inr v"
  proof (cases "dget outputs k")
    case None
    then have "\<exists>out. joined g k A (tx1, h1) = Inr (out, tx3, h4)" using r by (auto simp: run_node_def node)
    with joined_step [OF _ at] seen u(1) show ?thesis by metis
  next
    case (Some rows)
    then have "dget (mh_joins h4) k = dget (mh_joins h1) k"
      using r charged_fold by (auto simp: run_node_def node multi_walk_def charged_def)
    then have v: "dget (mh_joins h2) k = Some u" using seen u(1) by simp
    obtain w where w: "dget (mh_joins h3) k = Some w" "js_counts w = js_counts u" using pass_step [OF en W j v] by blast
    have "rs = []" if "(e, rs) \<in> set A" for e rs
    proof -
      have "e \<in> set (edges_into (mg_edges g) k)" using ar(1) that by (metis fst_conv image_eqI set_map)
      then obtain i where i: "e \<in> set (edges_into (mg_edges g) k)" "side_at j e = Some i" using join_side_at [OF c j] by blast
      have "multi_history g after" by (rule multi_execute_history [OF inv his t e])
      then have "js_counts w ! i = ms_edges after ! edge_place e (mg_edges g)"
        using j w(1) i unfolding multi_history_def after by blast
      moreover have "js_counts js ! i = ms_edges s ! edge_place e (mg_edges g)" using his j js i unfolding multi_history_def by blast
      ultimately show ?thesis using tie that w(2) u(2) by fastforce
    qed
    then have "record_calls A = []" by (force simp: record_calls_def)
    with v show ?thesis by simp
  qed
  then obtain v where v: "dget (mh_joins h2) k = Some v" "join_steps j (record_calls A) u = Inr v" by blast
  obtain w where w: "dget (mh_joins h3) k = Some w"
      "join_steps j (closing_edges (\<lambda>e. ended g closed (mh_joins h3) (edge_source e)) (edges_into (mg_edges g) k)) v = Inr w"
    using pass_step [OF en W j v(1)] by blast
  have "join_steps j (join_calls g order t s after k) js = Inr w"
    unfolding join_calls_def A_def [symmetric] after by (rule join_steps_trans [OF u(4) join_steps_trans [OF v(2) w(2)]])
  then show ?thesis using w(1) after ar(1) tie by (simp add: A_def)
qed

lemma stage_task:
  assumes "multi_stage g order op s = Inr (after, b)" "multi_op_ok op"
  shows "case task_of g order op s of None \<Rightarrow> after = s | Some t \<Rightarrow> task_ok g s t \<and> multi_execute g order t s = Inr (after, b)"
proof (cases op)
  case (MInput x)
  define i where "i = length (takeWhile (\<lambda>en. en_source en \<noteq> mi_source x) (mg_entries g))"
  have "source_at g s (mi_source x) (mi_position x) = Inr i" "sum_list (ms_positions s) + 1 \<le> MAX_COUNT"
      "multi_execute g order (TInput i (mi_record x)) s = Inr (after, b)"
    using assms(1) by (auto simp: MInput source_at_def i_def Let_def split: if_splits)
  with assms(2) source_at_Inr show ?thesis by (auto simp: MInput i_def [symmetric] task_ok_def multi_op_ok_def)
next
  case (MClose source position)
  define i where "i = length (takeWhile (\<lambda>en. en_source en \<noteq> source) (mg_entries g))"
  have "source_at g s source position = Inr i"
      "if ms_closed s ! i then after = s else multi_execute g order (TClose i) s = Inr (after, b)"
    using assms(1) by (auto simp: MClose source_at_def i_def Let_def split: if_splits)
  with source_at_Inr [of g s source position i] show ?thesis by (auto simp: MClose i_def [symmetric] task_ok_def Let_def)
next
  case (MDrain n)
  show ?thesis
  proof (cases "joins_ready order (ms_joins s)")
    case Nil
    with assms(1) MDrain show ?thesis by auto
  next
    case (Cons k ks)
    then have "k \<in> set (joins_ready order (ms_joins s))" by simp
    from joins_ready_in [OF this] MDrain assms Cons show ?thesis by (auto simp: task_ok_def)
  qed
qed

end
