(* ===== verification/Join_Properties.thy ===== *)
theory Join_Properties
  imports Join_Recovery
begin

text \<open>
  The properties of the keyed join, with a sample join of two one-letter sides on which
  every hypothesis is met.
\<close>

section \<open>A sample join\<close>

definition sample_join :: keyed_join where
  "sample_join = \<lparr>kj_id = [106], kj_revision = [49], kj_sides = [[97], [98]], kj_insert = JLast,
     kj_emit = JFinal, kj_limits = default_join_limits\<rparr>"

definition sample_join_rt :: join_runtime where
  "sample_join_rt = \<lparr>jt_join = sample_join,
     jt_state = \<lparr>js_cells = [], js_closed = [False, False], js_counts = [0, 0], js_emitted = 0,
       js_bytes = 0, js_values = 0, js_phase = JOpen\<rparr>, jt_busy = False\<rparr>"

lemma sample_join_ok: "keyed_join_ok sample_join"
  by (simp add: keyed_join_ok_def sample_join_def is_label_char sides_ok_def join_limits_ok_def
      default_join_limits_def hard_limits_def)

lemma make_sample_join: "make_join_runtime sample_join = Inr sample_join_rt"
  using sample_join_ok by (simp add: make_join_runtime_def sample_join_rt_def)
    (simp add: sample_join_def)

lemma join_counts_initial:
  assumes "keyed_join_ok j" "make_join_runtime j = Inr rt"
  shows "join_rt_ok rt"
proof -
  have s: "jt_join rt = j" "js_cells (jt_state rt) = []" "js_emitted (jt_state rt) = 0"
    "js_counts (jt_state rt) = replicate (length (kj_sides j)) 0" "js_phase (jt_state rt) = JOpen"
    using assms by (auto simp: make_join_runtime_def split: if_splits)
  have "gap (jt_state rt) i = 0" if "i < length (kj_sides j)" for i
    using that by (simp add: gap_def s retained_def)
  moreover have "0 \<le> jl_keys (kj_limits j) * row_factor j"
    using assms(1) row_factor_pos [OF assms(1)] by (simp add: keyed_join_ok_def join_limits_ok_def)
  moreover have "1 \<le> jl_values (kj_limits j)" using assms(1) by (simp add: keyed_join_ok_def join_limits_ok_def)
  ultimately have "join_counts_inv j (jt_state rt)"
    by (simp add: join_counts_inv_def Let_def s sum_list_replicate)
  then show ?thesis using make_join_runtime_inv [OF assms(2)] by (simp add: join_rt_ok_def s(1))
qed

lemma sample_join_rt_ok: "join_rt_ok sample_join_rt"
  using join_counts_initial [OF sample_join_ok make_sample_join] .

definition sample_cell :: join_cell where
  "sample_cell = the_cell [107] [[[49]], []]"

definition sample_joined :: join_state where
  "sample_joined = \<lparr>js_cells = [([107], sample_cell)], js_closed = [False, False], js_counts = [1, 0],
     js_emitted = 0, js_bytes = ce_bytes sample_cell, js_values = 1, js_phase = JOpen\<rparr>"

lemmas eval_cell =
  sample_cell_def cell_bytes_def cell_base_def side_bytes_def text_bytes_def cell_max_row_def
  cell_output_def cell_overhead_def cell_count_def row_overhead_def side_length_def side_sizes_def
  lit_simps dump_str_def esc_char_def byte_len_def utf8_len_Cons utf8_char_def

lemma sample_cell_size: "ce_bytes sample_cell = 31" "ce_count sample_cell = 1"
  by (simp_all add: eval_cell)

lemma make_sample_cell: "make_cell [107] [[[49]], []] default_join_limits = Inr sample_cell"
proof -
  have "cell_fits default_join_limits [107] [[[49]], []]"
    by (simp add: default_join_limits_def cell_fits_def shape_fits_def sides_fit_def
       value_fits_def is_label_char utf8_ok_def is_scalar_def eval_cell)
  then show ?thesis
    by (subst make_cell_iff) (simp_all add: default_join_limits_def sample_cell_def)
qed

lemma sample_process_under:
  assumes "admit sample_joined 0 0 h = Inr h'"
  shows "stage_process sample_join admit (jt_state sample_join_rt) [97] (sample_record 107) h
    = Inr (sample_joined, \<lparr>jb_rows = [], jb_phase = JOpen, jb_pending = 1, jb_drained = 0\<rparr>, h')"
proof -
  have l: "kj_limits sample_join = default_join_limits" by (simp add: sample_join_def)
  have v: "jl_value_bytes default_join_limits = 1048576" "jl_keys default_join_limits = 10000"
    "jl_state_bytes default_join_limits = 16777216" "jl_values default_join_limits = 100000"
    by (simp_all add: default_join_limits_def)
  have ins: "insert_value JLast default_join_limits [49] [] = Inr [[49]]" by (simp add: insert_value_def)
  have p: "propose_cell sample_join (jt_state sample_join_rt) [97] (sample_record 107) = Inr ([1, 0], [107], sample_cell)"
    unfolding propose_cell_def l
    by (simp add: sample_join_def sample_join_rt_def side_index_def sample_record_def key_def label_is_label
        is_label_char rec_value_def loads_digits snapshot_digits v prior_sides_def Let_def ins make_sample_cell
        count_def MAX_COUNT_def)
  have a: "\<lparr>js_cells = [([107], sample_cell)], js_closed = [False, False], js_counts = [1, 0], js_emitted = 0,
      js_bytes = 31, js_values = 1, js_phase = JOpen\<rparr> = sample_joined"
    by (simp add: sample_joined_def sample_cell_size)
  show ?thesis
    unfolding stage_process_def p l
    by (simp add: sample_join_def sample_join_rt_def cell_weight_def v sample_cell_size Let_def count_def
        MAX_COUNT_def a assms join_batch_check_def hard_limits_def)
qed

lemma sample_process:
  "stage_process sample_join no_admit (jt_state sample_join_rt) [97] (sample_record 107) ()
   = Inr (sample_joined, \<lparr>jb_rows = [], jb_phase = JOpen, jb_pending = 1, jb_drained = 0\<rparr>, ())"
  by (rule sample_process_under) (simp add: no_admit_def)

lemma sample_join_apply:
  "join_apply (JProcess [97] (sample_record 107)) sample_join_rt
   = (Inr \<lparr>jb_rows = [], jb_phase = JOpen, jb_pending = 1, jb_drained = 0\<rparr>,
      sample_join_rt\<lparr>jt_state := sample_joined\<rparr>)"
  using sample_process by (simp add: join_apply_def join_stage_def sample_join_rt_def)


lemma json_wf_join_saved:
  assumes "join_rt_ok rt"
  shows "json_wf (join_checkpoint_to_dict (join_saved rt))"
proof -
  define s where "s = jt_state rt"
  have inv: "join_state_ok (jt_join rt) s" using assms by (simp add: join_rt_ok_def join_rt_inv_def s_def)
  have st: "list_all (\<lambda>c. 0 \<le> c) (js_counts s)" "sum_list (js_counts s) \<le> MAX_COUNT"
    "0 \<le> js_emitted s" "js_emitted s \<le> MAX_COUNT"
    using inv by (simp_all add: join_state_ok_def Let_def)
  have "\<bar>x\<bar> \<le> safe_int" if "x \<in> set (js_counts s)" for x
    using member_le_sum_list [of "js_counts s" x] st(1,2) that
    by (fastforce simp: list_all_iff MAX_COUNT_def safe_int_def)
  moreover have "\<bar>js_emitted s\<bar> \<le> safe_int" using st(3,4) by (simp add: MAX_COUNT_def safe_int_def)
  moreover have "json_wf (join_cell_doc e)" for e
    by (simp add: join_cell_doc_def lit_simps list_all_iff)
  ultimately show ?thesis
    by (simp add: join_checkpoint_to_dict_def join_saved_def Let_def s_def [symmetric] lit_simps list_all_iff)
qed

lemma product_of_cell:
  "make_cell k vss l = Inr c \<Longrightarrow> 1 \<le> jl_rows_per_key l \<Longrightarrow> cell_fits l k vss \<and> c = the_cell k vss"
  by (simp add: make_cell_iff)

text \<open>The text that a record contributes to a cell is its own JSON.\<close>

lemma propose_cell_record:
  assumes "propose_cell j s side r = Inr (counts, k, c)" "record_ok r"
  shows "\<exists>i new. side_index (kj_sides j) side = Inr i \<and> rec_key r = Some k \<and> js_phase s = JOpen \<and> \<not> js_closed s ! i
    \<and> counts = (js_counts s)[i := js_counts s ! i + 1]
    \<and> insert_value (kj_insert j) (kj_limits j) (rec_json r) (prior_sides j s k ! i) = Inr new
    \<and> make_cell k ((prior_sides j s k)[i := new]) (kj_limits j) = Inr c"
proof -
  obtain d where d: "\<And>h. loads h (rec_json r) = Inr d" "\<And>m. byte_len (rec_json r) \<le> m \<Longrightarrow> snapshot (py_of_json d) m = Inr (rec_json r)"
    using canonical_reads [of "rec_json r"] assms(2) by (auto simp: record_ok_def)
  have snap: "t = rec_json r" if sn: "snapshot (py_of_json d) m = Inr t" for m t
  proof -
    obtain x where x: "freeze_event_data (PDict [(PStr value_name, py_of_json d)]) = Inr x" using sn by (auto simp: snapshot_def)
    show ?thesis
      using sn d(2) [OF order_refl] unfolding snapshot_def x rbind.simps
      by (cases x) (auto simp: Let_def split: if_splits option.splits)
  qed
  show ?thesis
    using assms(1) unfolding propose_cell_def rbind_eq_Inr if_error_eq_Inr
    by (auto simp: rec_value_def d(1) Let_def split: option.splits dest!: snap)
qed

section \<open>Properties\<close>

text \<open>A failed \<open>process\<close>, \<open>close\<close> or \<open>drain\<close> leaves no trace: replaying only the
  operations that returned gives the same batches and the same final runtime.\<close>

lemma join_failures_erased:
  assumes "join_rt_ok rt" "list_all join_op_ok ops"
  shows "run_ops join_apply (committed join_apply ops rt) rt
       = (filter succeeded (fst (run_ops join_apply ops rt)), snd (run_ops join_apply ops rt))"
  using assms by (rule join_counted.run_committed)

text \<open>C8: whatever operations are called, the state stays exact: the byte and value totals
  are the sums over the retained cells, every cell carries its true row count and output
  size, all limits are respected, the phase agrees with the closed sides, and the counters
  satisfy the relations that a restore demands.\<close>
theorem join_state_exact:
  assumes "join_rt_ok rt" "list_all join_op_ok ops"
  shows "join_rt_ok (snd (run_ops join_apply ops rt))"
  using assms by (rule join_counted.run_inv)

theorem join_state_exact_witness:
  "join_rt_ok (snd (run_ops join_apply [JProcess [97] (sample_record 107), JClose [97]] sample_join_rt))"
  by (rule join_state_exact) (simp_all add: sample_join_rt_ok join_op_ok_def sample_record_ok)

text \<open>C9: the sizes that \<open>_cell\<close> computes without building a row are those of the rows that
  \<open>_rows\<close> then builds: their number, their total encoded size, and every row within the
  row limit. The rows are the product of the sides, \<open>null\<close> standing for an absent one.\<close>
theorem join_cell_projection:
  assumes "make_cell k vss l = Inr c" "1 \<le> jl_rows_per_key l"
  shows "int (length (cell_rows k c sides)) = ce_rows c
    \<and> (\<Sum>r\<leftarrow>cell_rows k c sides. row_size r) = ce_output c
    \<and> list_all (\<lambda>r. row_size r \<le> jl_row_bytes l) (cell_rows k c sides)
    \<and> set (map jr_values (cell_rows k c sides))
        = {vs. list_all2 (\<lambda>v side. v \<in> set (if side = [] then [null_text] else side)) vs vss}"
proof -
  have c: "cell_fits l k vss" "c = the_cell k vss" using product_of_cell [OF assms] by auto
  have "row_size r \<le> jl_row_bytes l" if "r \<in> set (cell_rows k c sides)" for r
    using cell_rows_max [of r k vss sides] that c by (auto simp: cell_fits_def)
  moreover have "set (map jr_values (cell_rows k c sides))
      = {vs. list_all2 (\<lambda>v side. v \<in> set (if side = [] then [null_text] else side)) vs vss}"
    unfolding c(2) cell_rows_wire wire_side_def [abs_def]
    by (simp add: image_image product_lists_set list_all2_map2)
  ultimately show ?thesis
    unfolding list_all_iff using cell_rows_length [of k vss sides] cell_rows_bytes [of k vss sides] by (simp add: c(2))
qed

theorem join_cell_projection_witness:
  "int (length (cell_rows [107] sample_cell [[97], [98]])) = ce_rows sample_cell
    \<and> (\<Sum>r\<leftarrow>cell_rows [107] sample_cell [[97], [98]]. row_size r) = ce_output sample_cell
    \<and> list_all (\<lambda>r. row_size r \<le> jl_row_bytes default_join_limits) (cell_rows [107] sample_cell [[97], [98]])
    \<and> set (map jr_values (cell_rows [107] sample_cell [[97], [98]]))
        = {vs. list_all2 (\<lambda>v side. v \<in> set (if side = [] then [null_text] else side)) vs [[[49]], []]}"
  by (rule join_cell_projection [OF make_sample_cell]) (simp add: default_join_limits_def)

text \<open>C10: what an accepted arrival does, from the state and the record alone. Its side is one of the
  join, open, in an open join, and the record has a key \<open>k\<close>. Of the values kept for \<open>k\<close> only those
  of its side change: the record's JSON text is appended, replaces them, or is ignored when there
  is one already, by the insertion mode. If the join emits complete keys and now no side of \<open>k\<close> is
  empty, \<open>k\<close> is forgotten; otherwise its new values are kept. In both other keys stay as they
  were. The rows are the product of the new values, \<open>null\<close> for an empty side, when \<open>k\<close> was
  completed or the join emits running rows, and none otherwise; the counters count the arrival on
  its side and the rows.\<close>
theorem join_process_rows:
  assumes "join_rt_ok rt" "record_ok r" "join_apply (JProcess side r) rt = (Inr b, rt')"
    and "s = jt_state rt" "s' = jt_state rt'" "j = jt_join rt"
  shows "\<exists>i k. i < length (kj_sides j) \<and> kj_sides j ! i = side \<and> rec_key r = Some k
    \<and> js_phase s = JOpen \<and> \<not> js_closed s ! i
    \<and> (let old = (case dget (js_cells s) k of None \<Rightarrow> replicate (length (kj_sides j)) [] | Some c \<Rightarrow> ce_values c);
           new = old[i := (case kj_insert j of JProduct \<Rightarrow> old ! i @ [rec_json r] | JLast \<Rightarrow> [rec_json r]
                           | JFirst \<Rightarrow> if old ! i = [] then [rec_json r] else old ! i)];
           complete = (kj_emit j = JComplete \<and> [] \<notin> set new)
       in jb_rows b = (if complete \<or> kj_emit j = JRunning
              then map (\<lambda>vs. \<lparr>jr_key = k, jr_sides = kj_sides j, jr_present = map (\<lambda>x. x \<noteq> []) new, jr_values = vs\<rparr>)
                     (product_lists (map (\<lambda>x. if x = [] then [lit ''null''] else x) new))
              else [])
        \<and> (\<lambda>k'. map_option ce_values (dget (js_cells s') k'))
            = (\<lambda>k'. map_option ce_values (dget (js_cells s) k'))(k := if complete then None else Some new)
        \<and> length (new ! i) \<le> nat (jl_values_per_side (kj_limits j)))
    \<and> js_counts s' = (js_counts s)[i := js_counts s ! i + 1] \<and> js_emitted s' = js_emitted s + int (length (jb_rows b))
    \<and> js_closed s' = js_closed s \<and> js_phase s' = JOpen"
proof -
  have ok: "keyed_join_ok j" "join_state_ok j s" using assms(1,4,6) by (simp_all add: join_rt_ok_def join_rt_inv_def)
  then have d: "dict_ok (js_cells s)" by (simp add: join_state_ok_def Let_def)
  have st: "stage_process j no_admit s side r () = Inr (s', b, ())"
    using assms(3-6) by (auto simp: join_apply_def Let_def join_stage_def split: if_splits sum.splits)
  obtain counts k c where p: "propose_cell j s side r = Inr (counts, k, c)" and s': "s' = state_after j s counts k c"
    and b: "jb_rows b = (if emits j c then cell_rows k c (kj_sides j) else [])"
    using stage_process_Inr [OF st d] by auto
  obtain i new where i: "side_index (kj_sides j) side = Inr i" "rec_key r = Some k" "js_phase s = JOpen" "\<not> js_closed s ! i"
    and cn: "counts = (js_counts s)[i := js_counts s ! i + 1]"
    and ins: "insert_value (kj_insert j) (kj_limits j) (rec_json r) (prior_sides j s k ! i) = Inr new"
    and mk: "make_cell k ((prior_sides j s k)[i := new]) (kj_limits j) = Inr c"
    using propose_cell_record [OF p assms(2)] by blast
  define old where "old = prior_sides j s k"
  define vs where "vs = old[i := new]"
  have rows: "1 \<le> jl_rows_per_key (kj_limits j)" using ok(1) by (simp add: keyed_join_ok_def join_limits_ok_def)
  have c: "c = the_cell k vs" "cell_fits (kj_limits j) k vs" using product_of_cell [OF mk rows] by (simp_all add: vs_def old_def)
  have at: "i < length (kj_sides j)" "kj_sides j ! i = side" using side_index_Inr [OF i(1)] by simp_all
  have len: "i < length old" using prior_sides_ok [OF ok(2), of k] at(1) by (simp add: old_def)
  have new: "new = (case kj_insert j of JProduct \<Rightarrow> old ! i @ [rec_json r] | JLast \<Rightarrow> [rec_json r]
                           | JFirst \<Rightarrow> if old ! i = [] then [rec_json r] else old ! i)"
    using ins by (cases "kj_insert j") (auto simp: insert_value_def old_def split: if_splits)
  have lim: "length (vs ! i) \<le> nat (jl_values_per_side (kj_limits j))"
  proof -
    have "vs ! i \<in> set vs" using len by (simp add: vs_def set_update_memI)
    with c(2) have "int (length (vs ! i)) \<le> jl_values_per_side (kj_limits j)"
      by (auto simp: cell_fits_def shape_fits_def sides_fit_def list_all_iff)
    then show ?thesis by linarith
  qed
  have em: "completes j c \<longleftrightarrow> kj_emit j = JComplete \<and> [] \<notin> set vs" "emits j c \<longleftrightarrow> completes j c \<or> kj_emit j = JRunning"
    by (auto simp: completes_def emits_def c list_all_iff)
  have emitted: "js_emitted s' = js_emitted s + int (length (jb_rows b))"
    using cell_rows_length [of k vs "kj_sides j"] by (simp add: s' state_after_def b c(1))
  have cells: "(\<lambda>k'. map_option ce_values (dget (js_cells s') k'))
      = (\<lambda>k'. map_option ce_values (dget (js_cells s) k'))(k := if completes j c then None else Some vs)"
    by (auto simp: s' state_after_def cells_after_def c(1) fun_eq_iff)
  have old: "(case dget (js_cells s) k of None \<Rightarrow> replicate (length (kj_sides j)) [] | Some c \<Rightarrow> ce_values c) = old"
    by (simp add: old_def prior_sides_def split: option.split)
  have product: "jb_rows b = (if kj_emit j = JComplete \<and> [] \<notin> set vs \<or> kj_emit j = JRunning
      then map (\<lambda>vs. \<lparr>jr_key = k, jr_sides = kj_sides j, jr_present = map (\<lambda>x. x \<noteq> []) vs', jr_values = vs\<rparr>)
             (product_lists (map (\<lambda>x. if x = [] then [lit ''null''] else x) vs'))
      else [])" if "vs' = vs" for vs'
    unfolding that b em cell_rows_def null_text_def by (simp add: c(1))
  have rest: "js_counts s' = (js_counts s)[i := js_counts s ! i + 1]" "js_closed s' = js_closed s" "js_phase s' = JOpen"
    by (simp_all add: s' state_after_def cn)
  show ?thesis
    unfolding Let_def
    by (rule exI [of _ i], rule exI [of _ k], unfold old, unfold new [symmetric], unfold vs_def [symmetric], unfold em [symmetric])
      (use i(2-4) at rest emitted cells lim product [OF refl] em in simp)
qed

theorem join_process_rows_witness:
  "\<not> js_closed (jt_state sample_join_rt) ! 0
    \<and> (\<lambda>k. map_option ce_values (dget (js_cells sample_joined) k)) = [[107] \<mapsto> [[rec_json (sample_record 107)], []]]
    \<and> js_counts sample_joined = [1, 0]"
proof -
  obtain i k where i: "i < 2" "[[97], [98]] ! i = [97 :: nat]" and k: "rec_key (sample_record 107) = Some k"
    and rest: "\<not> [False, False] ! i" "js_counts sample_joined = [0, 0][i := [0, 0] ! i + 1]"
      "(\<lambda>k'. map_option ce_values (dget (js_cells sample_joined) k')) = [k \<mapsto> [[], []][i := [rec_json (sample_record 107)]]]"
    using join_process_rows [OF sample_join_rt_ok sample_record_ok(1) sample_join_apply refl refl refl]
    by (auto simp: sample_join_rt_def sample_join_def Let_def numeral_2_eq_2)
  have "i = 0" using i by (cases i) auto
  then show ?thesis using k rest by (simp add: sample_join_rt_def sample_record_def)
qed

text \<open>C11: draining ends. From a draining state whose emitted rows still fit the counter, as many
  calls as there are keys always suffice, whatever the batch size: the batches concatenate
  to the rows of all keys in key order, and the join is closed and empty.\<close>
theorem join_drain_terminates:
  assumes "keyed_join_ok j" "join_state_ok j s" "js_phase s = JDraining"
    and "1 \<le> m" "m \<le> jl_keys hard_limits"
    and "js_emitted s + (\<Sum>e\<leftarrow>js_cells s. ce_rows (snd e)) \<le> MAX_COUNT"
    and "length (js_cells s) \<le> n"
  shows "\<exists>t. drain_all n j m s
      = Inr (concat (map (\<lambda>e. cell_rows (fst e) (snd e) (kj_sides j)) (sort_key fst (js_cells s))), t)
    \<and> js_phase t = JClosed \<and> js_cells t = [] \<and> js_bytes t = 0 \<and> js_values t = 0"
  using assms by (rule drain_all_ends)

definition sample_draining :: join_state where
  "sample_draining = sample_joined\<lparr>js_closed := [True, True], js_phase := JDraining\<rparr>"

lemma sample_draining_ok: "join_state_ok sample_join sample_draining"
proof -
  have "join_state_ok sample_join sample_joined"
    using join_counted.kept [OF sample_join_rt_ok _ sample_join_apply]
    by (simp add: join_op_ok_def sample_record_ok join_rt_ok_def join_rt_inv_def) (simp add: sample_join_rt_def)
  then show ?thesis
    by (simp add: join_state_ok_def Let_def sample_draining_def sample_joined_def) (simp add: sample_join_def)
qed

theorem join_drain_terminates_witness:
  "\<exists>t. drain_all 1 sample_join 1 sample_draining
      = Inr (concat (map (\<lambda>e. cell_rows (fst e) (snd e) (kj_sides sample_join)) (sort_key fst (js_cells sample_draining))), t)
    \<and> js_phase t = JClosed \<and> js_cells t = [] \<and> js_bytes t = 0 \<and> js_values t = 0"
  by (rule join_drain_terminates [OF sample_join_ok sample_draining_ok])
    (simp_all add: sample_draining_def sample_joined_def hard_limits_def MAX_COUNT_def sample_cell_def total_rows_def side_length_def)

text \<open>C12: a checkpoint of a reachable runtime always succeeds; its document, written as JSON
  text and read back, restores the same runtime with its cells in key order, derived
  byte and value totals included.\<close>
theorem join_checkpoint_roundtrip:
  assumes "join_rt_ok rt"
  shows "\<exists>c. join_checkpoint_of rt = Inr c
    \<and> rbind (loads h (join_checkpoint_to_json c)) (\<lambda>d. rbind (join_checkpoint_from_dict d)
        (join_from_checkpoint (jt_join rt)))
      = Inr (rt\<lparr>jt_state := (jt_state rt)\<lparr>js_cells := sort_key fst (js_cells (jt_state rt))\<rparr>\<rparr>)"
  using join_checkpoint_of_eq [OF assms] join_saved_from_dict [OF assms] join_from_saved [OF assms]
  by (intro exI [of _ "join_saved rt"])
    (simp add: join_checkpoint_to_json_def loads_dumps [OF json_wf_join_saved [OF assms]] join_restored_def)

theorem join_checkpoint_roundtrip_witness:
  "\<exists>c. join_checkpoint_of sample_join_rt = Inr c
    \<and> rbind (loads join_hooks (join_checkpoint_to_json c)) (\<lambda>d. rbind (join_checkpoint_from_dict d)
        (join_from_checkpoint (jt_join sample_join_rt)))
      = Inr (sample_join_rt\<lparr>jt_state := (jt_state sample_join_rt)\<lparr>js_cells := sort_key fst (js_cells (jt_state sample_join_rt))\<rparr>\<rparr>)"
  by (rule join_checkpoint_roundtrip) (rule sample_join_rt_ok)

end
