(* ===== verification/Multi_Sample.thy ===== *)
theory Multi_Sample
  imports Multi_Recovery Multi_Calls Join_Properties
begin

text \<open>
  A sample multi-source graph, evaluated: two counted sources that meet in a join. Both sources
  are closed without an input, and an input of the first is counted and joined.
\<close>

section \<open>A sample graph\<close>

definition count_at :: "nat \<Rightarrow> flow_step" where
  "count_at c = count_step\<lparr>step_id := [c]\<rparr>"

definition sample_multi :: multi_graph where
  "sample_multi = \<lparr>mg_flow_id = [109], mg_revision = [49],
      mg_nodes = [GStep (count_at 97), GStep (count_at 98), GOther [106] sample_join],
      mg_edges = [\<lparr>edge_source = [97], edge_target = [106], edge_route = None, edge_side = Some [97]\<rparr>,
                  \<lparr>edge_source = [98], edge_target = [106], edge_route = None, edge_side = Some [98]\<rparr>],
      mg_entries = [\<lparr>en_source = [115], en_step = [97]\<rparr>, \<lparr>en_source = [116], en_step = [98]\<rparr>],
      mg_limits = \<lparr>ml_graph = \<lparr>operator_limits = default_flow_limits, max_work_records = 10000,
                      max_work_bytes = 64 * 1024 * 1024\<rparr>,
                   ml_cells = 1000, ml_values = 1000, ml_bytes = 1048576\<rparr>\<rparr>"

lemma count_at_ok: "32 < c \<Longrightarrow> c < 127 \<Longrightarrow> flow_step_ok (count_at c)"
  by (simp add: count_at_def count_step_def flow_step_ok_def is_stateful_def is_label_char)

lemma sample_multi_check: "multi_check sample_multi = Inr [[97], [98], [106]]"
proof -
  have ids: "map node_id (mg_nodes sample_multi) = [[97], [98], [106]]"
    by (simp add: sample_multi_def count_at_def)
  have n: "list_all multi_node_ok (mg_nodes sample_multi)"
    using sample_join_ok by (simp add: sample_multi_def count_at_ok flow_join_ok_def is_label_char) (simp add: sample_join_def)
  have e: "fold_res (entry_step (mg_nodes sample_multi)) (mg_entries sample_multi) ([], []) = Inr ([[115], [116]], [[97], [98]])"
    by (simp add: sample_multi_def entry_step_def count_at_def is_label_char)
  have p: "list_all (\<lambda>e. multi_edge_ok e \<and> port_ok (mg_nodes sample_multi) e) (mg_edges sample_multi)"
    by (simp add: sample_multi_def multi_edge_ok_def port_ok_def is_label_char node_of_def count_at_def is_join_def)
  have t: "topological_order [[97], [98], [106]] (edges_into (mg_edges sample_multi)) = Inr [[97], [98], [106]]"
    by (simp add: topological_order_def topological_loop.simps dict_fromkeys_def sample_multi_def edges_into_def node_ready_def)
  have r: "set (fold (mark_targets (edges_from (mg_edges sample_multi))) [[97], [98], [106]] [[97], [98]]) = set [[97], [98], [106]]"
    by (auto simp: sample_multi_def mark_targets_def edges_from_def)
  have a: "list_all (multi_arity_ok (mg_edges sample_multi) [[97], [98]]) (mg_nodes sample_multi)"
    by (simp add: sample_multi_def multi_arity_ok_def edges_from_def edges_into_def count_at_def sample_join_def)
  have l: "multi_limits_ok (mg_limits sample_multi)"
    by (simp add: sample_multi_def multi_limits_ok_def graph_limits_ok_def default_limits_ok MAX_MULTI_CELLS_def
        MAX_MULTI_VALUES_def MAX_MULTI_STATE_def)
  have "is_label (mg_flow_id sample_multi)" "is_label (mg_revision sample_multi)" "length (mg_nodes sample_multi) = 3"
    "length (filter is_join (mg_nodes sample_multi)) = 1" "length (mg_entries sample_multi) = 2"
    "length (mg_edges sample_multi) = 2" "distinct (mg_edges sample_multi)"
    by (simp_all add: sample_multi_def is_label_char is_join_def)
  then show ?thesis
    unfolding multi_check_def ids Let_def e rbind.simps prod.case t r using n p a l by (simp only:) simp
qed

definition sample_multi_rt :: multi_runtime where
  "sample_multi_rt = \<lparr>mr_flow = sample_multi, mr_order = [[97], [98], [106]],
      mr_state = empty_multi_state sample_multi, mr_busy = False\<rparr>"

lemma make_sample_multi: "make_multi_runtime sample_multi = Inr sample_multi_rt"
  by (simp add: make_multi_runtime_def sample_multi_check sample_multi_rt_def)

definition sample_multi_ops :: "multi_op list" where
  "sample_multi_ops = [MInput \<lparr>mi_source = [115], mi_position = 0, mi_record = sample_record 107\<rparr>,
     MInput \<lparr>mi_source = [115], mi_position = 0, mi_record = sample_record 107\<rparr>,
     MInput \<lparr>mi_source = [116], mi_position = 0, mi_record = sample_record 107\<rparr>,
     MClose [115] 1, MClose [116] 1, MDrain 10]"

lemma sample_multi_ops_ok: "list_all multi_op_ok sample_multi_ops"
  by (simp add: sample_multi_ops_def multi_op_ok_def sample_record_ok)


section \<open>The sample graph closed\<close>

text \<open>The sample graph closed: no input, both sources ended one after the other.\<close>

definition closing :: "bool list \<Rightarrow> join_state \<Rightarrow> int \<Rightarrow> multi_state" where
  "closing cl js n = (empty_multi_state sample_multi)\<lparr>ms_closed := cl, ms_operations := n, ms_joins := [([106], js)]\<rparr>"

lemma sample_multi_sel:
  "mg_nodes sample_multi = [GStep (count_at 97), GStep (count_at 98), GOther [106] sample_join]"
  "mg_edges sample_multi = [\<lparr>edge_source = [97], edge_target = [106], edge_route = None, edge_side = Some [97]\<rparr>,
                  \<lparr>edge_source = [98], edge_target = [106], edge_route = None, edge_side = Some [98]\<rparr>]"
  "mg_entries sample_multi = [\<lparr>en_source = [115], en_step = [97]\<rparr>, \<lparr>en_source = [116], en_step = [98]\<rparr>]"
  "ml_cells (mg_limits sample_multi) = 1000" "ml_values (mg_limits sample_multi) = 1000" "ml_bytes (mg_limits sample_multi) = 1048576"
  "max_work_records (ml_graph (mg_limits sample_multi)) = 10000" "max_work_bytes (ml_graph (mg_limits sample_multi)) = 67108864"
  "operator_limits (ml_graph (mg_limits sample_multi)) = default_flow_limits"
  by (simp_all add: sample_multi_def)

lemma quiet_sample:
  "walk_graph (multi_walk sample_multi [] [] []) [[97], [98], [106]] (begin_tx [] 0, begin_multi (closing cl js n))
   = Inr ([], begin_tx [] 0, begin_multi (closing cl js n))"
  apply (simp add: walk_graph_def walk_node_def walk_node_body_def multi_walk_def sample_multi_sel edges_into_def edges_from_def run_node_def node_input_def take_mail_def
    node_of_def count_at_def apply_step_def deliver_def joined_def join_batch_items_def multi_delivered_def edge_place_def begin_multi_def ddel_def
    closing_def empty_multi_state_def count_def MAX_COUNT_def Let_def)
  done

definition side_closed :: "bool list \<Rightarrow> join_phase \<Rightarrow> join_state" where
  "side_closed cl p = (empty_join_state sample_join)\<lparr>js_closed := cl, js_phase := p\<rparr>"

lemma sample_ends1:
  "fold_res (end_node sample_multi [True, False]) [[97], [98], [106]] ([], begin_multi (closing [False, False] (empty_join_state sample_join) 0))
   = Inr ([([97], True), ([98], False), ([106], False)], begin_multi (closing [False, False] (side_closed [True, False] JOpen) 0))"
  by (simp add: end_node_def sample_multi_sel root_index_def begin_multi_def closing_def edges_into_def close_side_def dict_at_def join_at_def multi_joins_def
      stage_close_def side_index_def sample_join_def empty_join_state_def join_batch_check_def join_admit_def Let_def retention_def multi_ensure_def
      edges_from_def side_closed_def empty_multi_state_def hard_limits_def count_def)

lemma sample_ends2:
  "fold_res (end_node sample_multi [True, True]) [[97], [98], [106]] ([], begin_multi (closing [True, False] (side_closed [True, False] JOpen) 1))
   = Inr ([([97], True), ([98], True), ([106], True)], begin_multi (closing [True, False] (side_closed [True, True] JClosed) 1))"
  by (simp add: end_node_def sample_multi_sel root_index_def begin_multi_def closing_def edges_into_def close_side_def dict_at_def join_at_def multi_joins_def
      stage_close_def side_index_def sample_join_def empty_join_state_def join_batch_check_def join_admit_def Let_def retention_def multi_ensure_def
      edges_from_def side_closed_def empty_multi_state_def hard_limits_def count_def)

lemma closing_sel:
  "ms_ordinary (closing cl js n) = []" "ms_ordinary_bytes (closing cl js n) = 0" "ms_operations (closing cl js n) = n"
  "ms_closed (closing cl js n) = cl" "ms_emitted (closing cl js n) = 0" "ms_positions (closing cl js n) = [0, 0]"
  "ms_joins (closing cl js n) = [([106], js)]"
  by (simp_all add: closing_def empty_multi_state_def sample_multi_sel)

lemma closing_execute:
  assumes "fold_res (end_node sample_multi (cl[i := True])) [[97], [98], [106]] ([], begin_multi (closing cl js n)) = Inr (eof, begin_multi (closing cl js' n))"
    and "0 \<le> n" "n < 10" "js_phase js' \<noteq> JDraining"
  shows "multi_execute sample_multi [[97], [98], [106]] (TClose i) (closing cl js n)
    = Inr (closing (cl[i := True]) js' (n + 1), \<lparr>mb_outputs = [], mb_operations = n + 1,
        mb_phase = graph_phase (cl[i := True]) [], mb_ready = []\<rparr>)"
proof -
  have h: "mh_joins (begin_multi (closing cl js' n)) = [([106], js')]" "mh_edges (begin_multi (closing cl js' n)) = [0, 0]"
    "mh_cells (begin_multi (closing cl js' n)) = 0" "mh_values (begin_multi (closing cl js' n)) = 0" "mh_bytes (begin_multi (closing cl js' n)) = 0"
    by (simp_all add: begin_multi_def closing_def empty_multi_state_def sample_multi_sel)
  have r: "joins_ready [[97], [98], [106]] [([106], js')] = []" using assms(4) by (simp add: joins_ready_def)
  have "graph_phase x [] \<noteq> JDraining" for x by (simp add: graph_phase_def)
  then have b: "multi_batch_check \<lparr>mb_outputs = [], mb_operations = n + 1, mb_phase = graph_phase (cl[i := True]) [], mb_ready = []\<rparr>
      = Inr \<lparr>mb_outputs = [], mb_operations = n + 1, mb_phase = graph_phase (cl[i := True]) [], mb_ready = []\<rparr>"
    using assms(2,3) by (simp add: multi_batch_check_def count_def MAX_COUNT_def)
  have "count (n + 1) 0 MAX_COUNT = Inr (n + 1)" "count 0 0 MAX_COUNT = Inr 0" using assms(2,3) by (simp_all add: count_def MAX_COUNT_def)
  then show ?thesis
    using assms(1) quiet_sample [of cl js n] b
    by (simp add: multi_execute_def task_seed_def closing_sel commit_multi_def h r commit_nothing Let_def del: fold_res.simps)
      (simp add: closing_def empty_multi_state_def sample_multi_sel)
qed

lemma sample_closed:
  "run_ops multi_apply [MClose [115] 0, MClose [116] 0] sample_multi_rt
   = ([Inr \<lparr>mb_outputs = [], mb_operations = 1, mb_phase = JOpen, mb_ready = []\<rparr>,
       Inr \<lparr>mb_outputs = [], mb_operations = 2, mb_phase = JClosed, mb_ready = []\<rparr>],
      sample_multi_rt\<lparr>mr_state := closing [True, True] (side_closed [True, True] JClosed) 2\<rparr>)"
proof -
  have z: "empty_multi_state sample_multi = closing [False, False] (empty_join_state sample_join) 0"
    by (simp add: closing_def empty_multi_state_def sample_multi_sel multi_joins_def)
  have e1: "multi_execute sample_multi [[97], [98], [106]] (TClose 0) (closing [False, False] (empty_join_state sample_join) 0)
    = Inr (closing [True, False] (side_closed [True, False] JOpen) 1, \<lparr>mb_outputs = [], mb_operations = 1, mb_phase = JOpen, mb_ready = []\<rparr>)"
    using closing_execute [of "[False, False]" 0] sample_ends1 by (simp add: graph_phase_def side_closed_def del: fold_res.simps)
  have e2: "multi_execute sample_multi [[97], [98], [106]] (TClose (Suc 0)) (closing [True, False] (side_closed [True, False] JOpen) 1)
    = Inr (closing [True, True] (side_closed [True, True] JClosed) 2, \<lparr>mb_outputs = [], mb_operations = 2, mb_phase = JClosed, mb_ready = []\<rparr>)"
    using closing_execute [of "[True, False]" "Suc 0"] sample_ends2 by (simp add: graph_phase_def side_closed_def del: fold_res.simps)
  have "multi_apply (MClose [115] 0) sample_multi_rt = (Inr \<lparr>mb_outputs = [], mb_operations = 1, mb_phase = JOpen, mb_ready = []\<rparr>,
     sample_multi_rt\<lparr>mr_state := closing [True, False] (side_closed [True, False] JOpen) 1\<rparr>)"
    using e1 by (simp add: multi_apply_def sample_multi_rt_def Let_def source_at_def sample_multi_sel z closing_sel count_def MAX_COUNT_def)
  moreover have "multi_apply (MClose [116] 0) (sample_multi_rt\<lparr>mr_state := closing [True, False] (side_closed [True, False] JOpen) 1\<rparr>)
    = (Inr \<lparr>mb_outputs = [], mb_operations = 2, mb_phase = JClosed, mb_ready = []\<rparr>,
     sample_multi_rt\<lparr>mr_state := closing [True, True] (side_closed [True, True] JClosed) 2\<rparr>)"
    using e2 by (simp add: multi_apply_def sample_multi_rt_def Let_def source_at_def sample_multi_sel closing_sel count_def MAX_COUNT_def)
  ultimately show ?thesis by (simp add: run_ops_Cons)
qed

section \<open>An input of the sample graph\<close>

definition sample_multi_input :: multi_input where
  "sample_multi_input = \<lparr>mi_source = [115], mi_position = 0, mi_record = sample_record 107\<rparr>"

lemma sample_multi_charge:
  "mh_reserved_records h = 0 \<Longrightarrow> mh_reserved_work h = 0 \<Longrightarrow> mh_records h \<le> 10 \<Longrightarrow> mh_work h \<le> 10 \<Longrightarrow>
   multi_charge (ml_graph (mg_limits sample_multi)) \<lparr>rec_key = Some [107], rec_json = [49]\<rparr> h
     = Inr (h\<lparr>mh_records := mh_records h + 1, mh_work := mh_work h + 1\<rparr>)"
  by (simp add: multi_charge_def multi_ensure_def sample_multi_sel rec_size_def default_flow_limits_def byte_len_Cons utf8_char_def check_def)

lemma sample_multi_admit:
  assumes "mh_joins h = [([106], empty_join_state sample_join)]" "mh_cells h \<le> 10" "mh_values h \<le> 10" "mh_bytes h \<le> 1000"
    "mh_reserved_records h = 0" "mh_reserved_work h = 0" "mh_records h \<le> 10" "mh_work h \<le> 10"
  shows "join_admit sample_multi [106] sample_joined 0 0 h
    = Inr (h\<lparr>mh_cells := mh_cells h + 1, mh_values := mh_values h + 1, mh_bytes := mh_bytes h + 31 + join_overhead [106]\<rparr>)"
  using assms
  by (simp add: join_admit_def Let_def retention_def sample_multi_sel edges_from_def multi_ensure_def dict_at_def sample_joined_def
     empty_join_state_def sample_cell_size join_overhead_def eval_cell check_def)

lemma sample_record_eq: "sample_record 107 = \<lparr>rec_key = Some [107], rec_json = [49]\<rparr>" by (simp add: sample_record_def)

lemma sample_begin_multi: "begin_multi (empty_multi_state sample_multi) = \<lparr>mh_cells = 0, mh_values = 0, mh_bytes = 0, mh_records = 0, mh_work = 0,
      mh_reserved_records = 0, mh_reserved_work = 0, mh_pending = [], mh_edges = [0, 0], mh_joins = [([106], empty_join_state sample_join)]\<rparr>"
  by (simp add: begin_multi_def empty_multi_state_def sample_multi_sel multi_joins_def)

lemma sample_empty_join: "jt_state sample_join_rt = empty_join_state sample_join"
  by (simp add: sample_join_rt_def empty_join_state_def sample_join_def numeral_2_eq_2)

definition hook_start :: multi_hook where "hook_start = \<lparr>mh_cells = 0, mh_values = 0, mh_bytes = 0, mh_records = 1, mh_work = 1,
      mh_reserved_records = 0, mh_reserved_work = 0, mh_pending = [], mh_edges = [0, 0], mh_joins = [([106], empty_join_state sample_join)]\<rparr>"

lemma sample_seed: "task_seed sample_multi (TInput 0 (sample_record 107)) (empty_multi_state sample_multi) (begin_multi (empty_multi_state sample_multi))
  = Inr ([1, 0], [False, False], [([97], [sample_record 107])], [], hook_start)"
  by (simp add: task_seed_def sample_begin_multi sample_record_eq sample_multi_charge hook_start_def) (simp add: empty_multi_state_def sample_multi_sel)

lemma sample_overhead: "join_overhead [106] = 20"
  apply (simp add: join_overhead_def eval_cell)
  done

lemma sample_ordinary_bytes: "multi_ordinary_bytes ([97], [107]) (Some [49]) = 34"
  apply (simp add: multi_ordinary_bytes_def eval_cell)
  done

definition sample_mwalk :: "(keyed_join, \<lparr>edge_side :: pystr option\<rparr>, multi_hook) walk_params" where "sample_mwalk = multi_walk sample_multi [] [([97], [\<lparr>rec_key = Some [107], rec_json = [49]\<rparr>])] []"
definition left_edge :: multi_edge where "left_edge = \<lparr>edge_source = [97], edge_target = [106], edge_route = None, edge_side = Some [97]\<rparr>"
definition right_edge :: multi_edge where "right_edge = \<lparr>edge_source = [98], edge_target = [106], edge_route = None, edge_side = Some [98]\<rparr>"
definition sample_hooks :: "multi_hook hooks" where "sample_hooks = \<lparr>on_propose = multi_propose (mg_limits sample_multi), on_emit = multi_charge (ml_graph (mg_limits sample_multi))\<rparr>"

lemma edge_sel: "edge_source left_edge = [97]" "edge_target left_edge = [106]" "edge_route left_edge = None" "edge_side left_edge = Some [97]"
  "edge_source right_edge = [98]" "edge_target right_edge = [106]" "edge_route right_edge = None" "edge_side right_edge = Some [98]" "left_edge \<noteq> right_edge" "right_edge \<noteq> left_edge"
  by (simp_all add: left_edge_def right_edge_def)
lemma sample_edges: "mg_edges sample_multi = [left_edge, right_edge]" by (simp add: sample_multi_sel left_edge_def right_edge_def)
lemma sample_mwalk_sel:
  "wp_limits sample_mwalk = default_flow_limits" "wp_base sample_mwalk = []" "wp_seeds sample_mwalk = [([97], [\<lparr>rec_key = Some [107], rec_json = [49]\<rparr>])]"
  "wp_seed_outputs sample_mwalk = []" "wp_nodes sample_mwalk [97] = GStep (count_at 97)" "wp_nodes sample_mwalk [98] = GStep (count_at 98)" "wp_nodes sample_mwalk [106] = GOther [106] sample_join"
  "wp_incoming sample_mwalk [97] = []" "wp_incoming sample_mwalk [98] = []" "wp_incoming sample_mwalk [106] = [left_edge, right_edge]"
  "wp_outgoing sample_mwalk [97] = [left_edge]" "wp_outgoing sample_mwalk [98] = [right_edge]" "wp_outgoing sample_mwalk [106] = []"
  "wp_extension sample_mwalk = Some (joined sample_multi)" "wp_delivered sample_mwalk = multi_delivered sample_multi" "wp_hooks sample_mwalk = sample_hooks"
  by (simp_all add: sample_mwalk_def multi_walk_def sample_edges edges_into_def edges_from_def edge_sel node_of_def count_at_def sample_hooks_def) (simp_all add: sample_multi_sel count_at_def)

lemma sample_step: "apply_step default_flow_limits sample_hooks [] (count_at 97) [\<lparr>rec_key = Some [107], rec_json = [49]\<rparr>] (begin_tx [] 0, hook_start)
   = Inr ([\<lparr>rec_key = Some [107], rec_json = [49]\<rparr>], \<lparr>tx_pending = [(([97], [107]), Some [49])], tx_keys = 1, tx_bytes = 1, tx_calls = 2\<rparr>,
     hook_start\<lparr>mh_cells := 1, mh_bytes := 34, mh_records := 2, mh_work := 2\<rparr>)"
  by (simp add: eval_step count_at_def count_step_def sample_hooks_def multi_propose_def sample_ordinary_bytes multi_ordinary_bytes_def [of _ None] retention_def sample_multi_sel sample_multi_charge hook_start_def)

lemma turn_left: "walk_node sample_mwalk [97] \<lparr>ws_mail = [], ws_published = [], ws_tx = begin_tx [] 0, ws_hook = hook_start\<rparr> =
   Inr \<lparr>ws_mail = [(left_edge, [\<lparr>rec_key = Some [107], rec_json = [49]\<rparr>])], ws_published = [],
     ws_tx = \<lparr>tx_pending = [(([97], [107]), Some [49])], tx_keys = 1, tx_bytes = 1, tx_calls = 2\<rparr>,
     ws_hook = hook_start\<lparr>mh_cells := 1, mh_bytes := 34, mh_records := 3, mh_work := 3, mh_edges := [1, 0]\<rparr>\<rparr>"
    by (simp add: walk_node_def walk_node_body_def run_node_def node_input_def deliver_def take_mail_def sample_mwalk_sel sample_step edge_sel Let_def
      multi_delivered_def edge_place_def sample_edges count_def MAX_COUNT_def)
   (simp add: sample_hooks_def sample_multi_charge hook_start_def ddel_def)

definition sample_tx :: flow_tx where "sample_tx = \<lparr>tx_pending = [(([97], [107]), Some [49])], tx_keys = 1, tx_bytes = 1, tx_calls = 2\<rparr>"
definition hook_sent :: multi_hook where "hook_sent = hook_start\<lparr>mh_cells := 1, mh_bytes := 34, mh_records := 3, mh_work := 3, mh_edges := [1, 0]\<rparr>"
lemma idle_step: "apply_step lim hk base (count_at 98) [] (tx, h) = Inr ([], tx, h)" by (simp add: apply_step_def)
lemma hook_sent_sel: "mh_edges hook_sent = [1, 0]" "mh_pending hook_sent = []" "mh_reserved_records hook_sent = 0" "mh_reserved_work hook_sent = 0"
  "mh_joins hook_sent = [([106], empty_join_state sample_join)]" "mh_cells hook_sent = 1" "mh_bytes hook_sent = 34" "mh_records hook_sent = 3" "mh_work hook_sent = 3" "mh_values hook_sent = 0"
  by (simp_all add: hook_sent_def hook_start_def)
lemma hook_sent_same: "hook_sent\<lparr>mh_pending := [], mh_reserved_records := 0, mh_reserved_work := 0, mh_edges := [1, 0]\<rparr> = hook_sent"
  by (simp add: hook_sent_def hook_start_def)

lemma turn_right: "walk_node sample_mwalk [98] \<lparr>ws_mail = [(left_edge, [\<lparr>rec_key = Some [107], rec_json = [49]\<rparr>])], ws_published = [], ws_tx = sample_tx, ws_hook = hook_sent\<rparr> =
   Inr \<lparr>ws_mail = [(left_edge, [\<lparr>rec_key = Some [107], rec_json = [49]\<rparr>]), (right_edge, [])], ws_published = [], ws_tx = sample_tx, ws_hook = hook_sent\<rparr>"
    by (simp add: walk_node_def walk_node_body_def run_node_def node_input_def deliver_def take_mail_def sample_mwalk_sel idle_step edge_sel Let_def
      multi_delivered_def edge_place_def sample_edges count_def MAX_COUNT_def hook_sent_sel ddel_def hook_sent_same)

definition hook_joined :: multi_hook where "hook_joined = hook_sent\<lparr>mh_cells := 2, mh_values := 1, mh_bytes := 85, mh_joins := [([106], sample_joined)]\<rparr>"
lemma sample_join_in: "dget (multi_joins (mg_nodes sample_multi)) [106] = Some sample_join" by (simp add: sample_multi_sel multi_joins_def)
lemma sample_join_admitted: "join_admit sample_multi [106] sample_joined 0 0 hook_sent = Inr (hook_sent\<lparr>mh_cells := 2, mh_values := 1, mh_bytes := 85\<rparr>)"
  using sample_multi_admit [of hook_sent] by (simp add: hook_sent_sel sample_overhead)

lemma sample_item: "join_item sample_multi [106] sample_join [97] \<lparr>rec_key = Some [107], rec_json = [49]\<rparr> ([], hook_sent) = Inr ([], hook_joined)"
  using sample_process_under [where admit = "join_admit sample_multi [106]", OF sample_join_admitted] by (simp add: join_item_def dict_at_def hook_sent_sel sample_empty_join sample_record_eq hook_joined_def)

lemma turn_join: "walk_node sample_mwalk [106] \<lparr>ws_mail = [(left_edge, [\<lparr>rec_key = Some [107], rec_json = [49]\<rparr>]), (right_edge, [])], ws_published = [], ws_tx = sample_tx, ws_hook = hook_sent\<rparr> =
   Inr \<lparr>ws_mail = [], ws_published = [], ws_tx = sample_tx, ws_hook = hook_joined\<rparr>"
    by (simp add: walk_node_def walk_node_body_def run_node_def node_input_def deliver_def take_mail_def sample_mwalk_sel edge_sel Let_def ddel_def
      joined_def join_batch_items_def join_at_def dict_at_def sample_join_in sample_item)

lemma sample_walked: "walk_graph sample_mwalk [[97], [98], [106]] (begin_tx [] 0, hook_start) = Inr ([], sample_tx, hook_joined)"
  by (simp add: walk_graph_def turn_left [folded hook_sent_def sample_tx_def] turn_right turn_join)

lemma sample_ends: "\<exists>eof. fold_res (end_node sample_multi [False, False]) [[97], [98], [106]] ([], hook_joined) = Inr (eof, hook_joined)"
  by (simp add: end_node_def sample_multi_sel root_index_def hook_joined_def edges_into_def close_side_def dict_at_def)

lemma sample_multi_execute: "\<exists>b s'. multi_execute sample_multi [[97], [98], [106]] (TInput 0 (sample_record 107)) (empty_multi_state sample_multi) = Inr (s', b)
    \<and> dget (ms_joins s') [106] = Some sample_joined \<and> ms_edges s' = [1, 0] \<and> ms_closed s' = [False, False]"
proof -
  obtain eof where eof: "fold_res (end_node sample_multi [False, False]) [[97], [98], [106]] ([], hook_joined) = Inr (eof, hook_joined)" using sample_ends by blast
  have sel: "ms_ordinary (empty_multi_state sample_multi) = []" "ms_ordinary_bytes (empty_multi_state sample_multi) = 0"
    "ms_operations (empty_multi_state sample_multi) = 0" "ms_emitted (empty_multi_state sample_multi) = 0" by (simp_all add: empty_multi_state_def)
  have w: "walk_graph (multi_walk sample_multi [] [([97], [sample_record 107])] []) [[97], [98], [106]] (begin_tx [] 0, hook_start) = Inr ([], sample_tx, hook_joined)"
    using sample_walked by (simp add: sample_mwalk_def sample_record_eq)
  have rd: "joins_ready [[97], [98], [106]] (mh_joins hook_joined) = []" by (simp add: joins_ready_def hook_joined_def sample_joined_def)
  have cm: "\<exists>b s'. commit_multi [[97], [98], [106]] (empty_multi_state sample_multi) [1, 0] [False, False] ([], sample_tx, hook_joined) = Inr (s', b)
    \<and> dget (ms_joins s') [106] = Some sample_joined \<and> ms_edges s' = [1, 0] \<and> ms_closed s' = [False, False]"
    by (simp add: commit_multi_def sel rd Let_def commit_tx_def sample_tx_def graph_phase_def multi_batch_check_def count_def MAX_COUNT_def)
      (simp add: hook_joined_def hook_sent_sel)
  have "multi_execute sample_multi [[97], [98], [106]] (TInput 0 (sample_record 107)) (empty_multi_state sample_multi)
     = commit_multi [[97], [98], [106]] (empty_multi_state sample_multi) [1, 0] [False, False] ([], sample_tx, hook_joined)"
    by (simp add: multi_execute_def sel sample_seed w eof count_def MAX_COUNT_def del: fold_res.simps)
  with cm show ?thesis by simp
qed

lemma sample_multi_apply: "\<exists>b s'. multi_apply (MInput sample_multi_input) sample_multi_rt = (Inr b, sample_multi_rt\<lparr>mr_state := s'\<rparr>)
    \<and> dget (ms_joins s') [106] = Some sample_joined \<and> ms_edges s' = [1, 0] \<and> ms_closed s' = [False, False]"
proof -
  have ic: "multi_input_check sample_multi_input = Inr ()"
    by (simp add: multi_input_check_def sample_multi_input_def count_def MAX_COUNT_def is_label_char sample_record_def check_def checked_value_iff canonical_digits byte_len_Cons utf8_char_def)
  have sa: "source_at sample_multi (empty_multi_state sample_multi) [115] 0 = Inr 0"
    by (simp add: source_at_def sample_multi_sel empty_multi_state_def count_def MAX_COUNT_def)
  have sel: "ms_closed (empty_multi_state sample_multi) ! 0 = False" "sum_list (ms_positions (empty_multi_state sample_multi)) = 0"
    by (simp_all add: empty_multi_state_def sample_multi_sel)
  show ?thesis
    using sample_multi_execute ic by (auto simp: multi_apply_def sample_multi_rt_def Let_def sample_multi_input_def sa sel count_def MAX_COUNT_def)
qed

lemma sample_multi_arrivals: "task_arrivals sample_multi [[97], [98], [106]] (TInput 0 (sample_record 107)) (empty_multi_state sample_multi) [106]
   = [(left_edge, [sample_record 107]), (right_edge, [])]"
proof -
  have sel: "ms_ordinary (empty_multi_state sample_multi) = []" "ms_ordinary_bytes (empty_multi_state sample_multi) = 0" by (simp_all add: empty_multi_state_def)
  have "task_arrivals sample_multi [[97], [98], [106]] (TInput 0 (sample_record 107)) (empty_multi_state sample_multi) [106]
     = arrivals sample_mwalk [[97], [98], [106]] [106] (begin_tx [] 0, hook_start)"
    by (simp only: task_arrivals_def sample_seed sel sample_mwalk_def sum.case prod.case sample_record_eq [symmetric])
  then show ?thesis
    by (simp add: arrivals_def walk_start_def turn_left [folded hook_sent_def sample_tx_def] turn_right sample_mwalk_sel take_mail_def sample_record_eq edge_sel)
qed

end
