(* ===== verification/Multi_Properties.thy ===== *)
theory Multi_Properties
  imports Multi_Sample
begin

text \<open>
  The properties of multi-source graphs, with the sample graph as their witness.
\<close>

section \<open>Runs\<close>

lemma multi_run_flow: "mr_flow (snd (run_ops multi_apply ops rt)) = mr_flow rt"
proof (induction ops arbitrary: rt)
  case (Cons op ops)
  have "mr_flow (snd (multi_apply op rt)) = mr_flow rt"
    by (cases rt) (auto simp: multi_apply_def Let_def split: sum.splits)
  then show ?case by (simp add: run_ops_Cons Cons.IH)
qed simp

lemma multi_run_rt:
  assumes "make_multi_runtime g = Inr rt" "list_all multi_op_ok ops"
  shows "\<exists>order. multi_inv g order (mr_state (snd (run_ops multi_apply ops rt)))"
proof -
  show ?thesis
    using multi.run_inv [OF _ assms(2), of rt] make_multi_inv [OF assms(1)] multi_run_flow [of ops rt]
    by (auto simp: multi_rt_inv_def)
qed

section \<open>Properties\<close>

text \<open>C21: whatever inputs, closes and drains a multi-source graph is given, and whether they succeed
  or fail, its aggregate budgets are exact: the cells, join values and wire bytes it counts are
  those of the keyed state and of the joins together, all within the limits, and every join is in
  a consistent state of its own.\<close>
theorem multi_state_exact:
  assumes "make_multi_runtime g = Inr rt" "list_all multi_op_ok ops" "s = mr_state (snd (run_ops multi_apply ops rt))"
  shows "ms_cells s = int (length (ms_ordinary s)) + (\<Sum>e\<leftarrow>ms_joins s. int (length (js_cells (snd e))))
    \<and> ms_values s = (\<Sum>e\<leftarrow>ms_joins s. js_values (snd e))
    \<and> ms_bytes s = (\<Sum>e\<leftarrow>ms_ordinary s. multi_ordinary_bytes (fst e) (Some (snd e)))
        + (\<Sum>e\<leftarrow>ms_joins s. js_bytes (snd e) + int (length (js_cells (snd e))) * join_overhead (fst e))
    \<and> ms_cells s \<le> ml_cells (mg_limits g) \<and> ms_values s \<le> ml_values (mg_limits g) \<and> ms_bytes s \<le> ml_bytes (mg_limits g)
    \<and> ms_ordinary_bytes s = (\<Sum>e\<leftarrow>ms_ordinary s. byte_len (snd e))
    \<and> list_all (\<lambda>(k, js). \<exists>j. dget (multi_joins (mg_nodes g)) k = Some j \<and> join_state_ok j js \<and> join_counts_inv j js) (ms_joins s)"
proof -
  obtain order where inv: "multi_inv g order s" using multi_run_rt [OF assms(1,2)] assms(3) by auto
  have c: "multi_check g = Inr order" and cells: "multi_cells_ok g s" using inv by (simp_all add: multi_inv_def)
  have jo: "joins_ok g (ms_joins s)" using cells by (simp add: multi_cells_ok_def)
  have d: "dict_ok (ms_joins s)" by (rule joins_ok_dict [OF c jo])
  have "\<exists>j. dget (multi_joins (mg_nodes g)) k = Some j \<and> join_state_ok j js \<and> join_counts_inv j js" if "(k, js) \<in> set (ms_joins s)" for k js
    using joins_ok_at [OF jo, of k js] that d by (auto simp: join_good_def dict_ok_def)
  then have "list_all (\<lambda>(k, js). \<exists>j. dget (multi_joins (mg_nodes g)) k = Some j \<and> join_state_ok j js \<and> join_counts_inv j js) (ms_joins s)"
    by (auto simp: list_all_iff)
  moreover have "ms_ordinary_bytes s = (\<Sum>e\<leftarrow>ms_ordinary s. byte_len (snd e))"
    using cells by (simp add: multi_cells_ok_def state_ok_def)
  ultimately show ?thesis
    using cells unfolding multi_cells_ok_def cell_wire_def join_wire_def by blast
qed

theorem multi_state_exact_witness:
  "let s = mr_state (snd (run_ops multi_apply sample_multi_ops sample_multi_rt))
   in ms_cells s = int (length (ms_ordinary s)) + (\<Sum>e\<leftarrow>ms_joins s. int (length (js_cells (snd e))))
    \<and> ms_values s = (\<Sum>e\<leftarrow>ms_joins s. js_values (snd e)) \<and> ms_cells s \<le> 1000"
  using multi_state_exact [OF make_sample_multi sample_multi_ops_ok refl]
  by (simp add: Let_def sample_multi_def [THEN arg_cong [where f = mg_limits]])

text \<open>C22: a join inside a multi-source graph is a \<open>KeyedJoinRuntime\<close> of the same declaration,
  operation by operation. The task of an operation that returns moves the state of every join
  exactly as the public calls listed here move a runtime of its own, all of which return: a drain
  of this join, if it is the one the task drains; then, edge by edge in order, every record that
  the walk hands to the join, on the side of its edge (as many as the delivery counter of the edge
  grows by); then the end of each side whose producer has ended. An operation without a task (a
  close of a closed source, a drain when no join is ready) and one that raises change nothing.\<close>
theorem multi_join_refines:
  assumes "make_multi_runtime g = Inr rt0" "list_all multi_op_ok ops" "rt = snd (run_ops multi_apply ops rt0)"
    and "multi_op_ok op" "multi_apply op rt = (res, rt')" "order = mr_order rt" "s = mr_state rt" "s' = mr_state rt'"
    and "dget (multi_joins (mg_nodes g)) k = Some j"
  shows "case res of
      Inl _ \<Rightarrow> rt' = rt
    | Inr b \<Rightarrow> (case task_of g order op s of
          None \<Rightarrow> s' = s
        | Some t \<Rightarrow>
            (let batches = task_arrivals g order t s k;
                 calls = (case t of TDrain x n \<Rightarrow> if x = k then [JDrain n] else [] | _ \<Rightarrow> [])
                   @ concat (map (\<lambda>(e, rs). map (JProcess (the (edge_side e))) rs) batches)
                   @ map (\<lambda>e. JClose (the (edge_side e)))
                       (filter (\<lambda>e. ended g (ms_closed s') (ms_joins s') (edge_source e)) (edges_into (mg_edges g) k))
             in (\<exists>js js' replies. dget (ms_joins s) k = Some js \<and> dget (ms_joins s') k = Some js'
                   \<and> run_ops join_apply calls \<lparr>jt_join = j, jt_state = js, jt_busy = False\<rparr>
                     = (replies, \<lparr>jt_join = j, jt_state = js', jt_busy = False\<rparr>) \<and> list_all succeeded replies)
                \<and> map fst batches = edges_into (mg_edges g) k
                \<and> (\<forall>(e, rs)\<in>set batches.
                     ms_edges s' ! edge_place e (mg_edges g) = ms_edges s ! edge_place e (mg_edges g) + int (length rs))))"
proof (cases res)
  case (Inl e)
  with assms(5) show ?thesis using multi_apply_Inl by simp
next
  case (Inr b)
  have r: "multi_recorded rt" using multi_recorded.run_inv [OF _ assms(2)] make_multi_recorded [OF assms(1)] assms(3) by blast
  have g: "mr_flow rt = g" using make_multi_recorded [OF assms(1)] assms(3) by (simp add: multi_run_flow)
  have inv: "multi_inv g order s" and his: "multi_history g s"
    using r by (simp_all add: multi_recorded_def multi_rt_inv_def g assms(6,7))
  have st: "multi_stage g order op s = Inr (s', b)"
    using multi_apply_Inr [of op rt b rt'] assms(5-8) Inr g by simp
  note task = stage_task [OF st assms(4)]
  show ?thesis
  proof (cases "task_of g order op s")
    case None
    with task Inr show ?thesis by simp
  next
    case (Some t)
    then have t: "task_ok g s t" "multi_execute g order t s = Inr (s', b)" using task by simp_all
    have jo: "joins_ok g (ms_joins s)" using inv by (simp add: multi_inv_def multi_cells_ok_def)
    obtain js where js: "dget (ms_joins s) k = Some js" using joins_ok_some [OF jo assms(9)] by blast
    note c = task_calls [OF inv his t assms(9) js]
    obtain js' where js': "dget (ms_joins s') k = Some js'" "join_steps j (join_calls g order t s s' k) js = Inr js'"
      using c by blast
    from join_steps_run [OF js'(2)] js js'(1) c Some Inr show ?thesis
      by (auto simp: Let_def join_calls_def record_calls_def closing_edges_def)
  qed
qed

theorem multi_join_refines_witness:
  "\<exists>b rt' js' replies. multi_apply (MInput sample_multi_input) sample_multi_rt = (Inr b, rt')
     \<and> dget (ms_joins (mr_state rt')) [106] = Some js'
     \<and> run_ops join_apply [JProcess [97] (sample_record 107)]
         \<lparr>jt_join = sample_join, jt_state = empty_join_state sample_join, jt_busy = False\<rparr>
       = (replies, \<lparr>jt_join = sample_join, jt_state = js', jt_busy = False\<rparr>)
     \<and> list_all succeeded replies \<and> ms_edges (mr_state rt') ! 0 = 1"
proof -
  obtain b s' where a: "multi_apply (MInput sample_multi_input) sample_multi_rt = (Inr b, sample_multi_rt\<lparr>mr_state := s'\<rparr>)"
    and s': "dget (ms_joins s') [106] = Some sample_joined" "ms_edges s' = [1, 0]" "ms_closed s' = [False, False]"
    using sample_multi_apply by blast
  have op: "multi_op_ok (MInput sample_multi_input)" by (simp add: multi_op_ok_def sample_multi_input_def sample_record_ok)
  have task: "length (takeWhile (\<lambda>en. en_source en \<noteq> mi_source sample_multi_input) (mg_entries sample_multi)) = 0"
      "mi_record sample_multi_input = sample_record 107"
    by (simp_all add: sample_multi_input_def sample_multi_sel)
  have running: "\<not> ended sample_multi (ms_closed s') (ms_joins s') (edge_source e)"
    if "e \<in> set (edges_into (mg_edges sample_multi) [106])" for e
    using that s'(3) by (subst ended_iff) (auto simp: edges_into_def sample_edges edge_sel root_index_def sample_multi_sel)
  then have quiet: "filter (\<lambda>e. ended sample_multi (ms_closed s') (ms_joins s') (edge_source e)) (edges_into (mg_edges sample_multi) [106]) = []"
    by (simp add: filter_empty_conv)
  have rt: "mr_order sample_multi_rt = [[97], [98], [106]]" "mr_state sample_multi_rt = empty_multi_state sample_multi"
    by (simp_all add: sample_multi_rt_def)
  have js: "dget (ms_joins (empty_multi_state sample_multi)) [106] = Some (empty_join_state sample_join)"
    by (simp add: empty_multi_state_def sample_multi_sel multi_joins_def)
  note t = multi_join_refines [OF make_sample_multi _ _ op a refl refl refl sample_join_in, of "[]"]
  show ?thesis
    using t a s'(2) js by (auto simp: task rt quiet sample_multi_arrivals edge_sel Let_def)
qed

text \<open>C23: the end of the sources travels exactly along the edges. After any operations a side of a
  join is closed if and only if the node that feeds it has ended: the step of an ended source, a
  closed join, or a node all of whose sources have ended. A graph in its closed phase has closed
  all its joins and retains nothing in them.\<close>
theorem multi_ends_exact:
  assumes "make_multi_runtime g = Inr rt" "list_all multi_op_ok ops" "s = mr_state (snd (run_ops multi_apply ops rt))"
  shows "(\<forall>k j js e side i. dget (multi_joins (mg_nodes g)) k = Some j \<longrightarrow> dget (ms_joins s) k = Some js \<longrightarrow>
        e \<in> set (edges_into (mg_edges g) k) \<longrightarrow> edge_side e = Some side \<longrightarrow> side_index (kj_sides j) side = Inr i \<longrightarrow>
        (js_closed js ! i \<longleftrightarrow> ended g (ms_closed s) (ms_joins s) (edge_source e)))
    \<and> (graph_phase (ms_closed s) (joins_ready (mr_order rt) (ms_joins s)) = JClosed \<longrightarrow>
        (\<forall>(k, js)\<in>set (ms_joins s). js_phase js = JClosed \<and> js_cells js = []))"
proof -
  obtain order where inv: "multi_inv g order s" using multi_run_rt [OF assms(1,2)] assms(3) by auto
  have c: "multi_check g = Inr order" and jo: "joins_ok g (ms_joins s)" and em: "ends_match g (ms_closed s) (ms_joins s)"
    using inv by (simp_all add: multi_inv_def multi_cells_ok_def)
  have o1: "mr_order rt = order" using assms(1) c by (auto simp: make_multi_runtime_def)
  have "js_phase js = JClosed \<and> js_cells js = []"
    if "graph_phase (ms_closed s) (joins_ready order (ms_joins s)) = JClosed" "(k, js) \<in> set (ms_joins s)" for k js
    using closed_graph_empty [OF inv that(1), of k js] that(2) joins_ok_dict [OF c jo] by (simp add: dict_ok_def)
  then show ?thesis using em unfolding ends_match_def sides_match_def o1 by blast
qed

theorem multi_ends_exact_witness:
  "let s = mr_state (snd (run_ops multi_apply [MClose [115] 0, MClose [116] 0] sample_multi_rt))
   in ended sample_multi (ms_closed s) (ms_joins s) [97] \<and> ended sample_multi (ms_closed s) (ms_joins s) [98]
    \<and> (\<forall>(k, js)\<in>set (ms_joins s). js_phase js = JClosed \<and> js_cells js = [])"
proof -
  define s where "s = mr_state (snd (run_ops multi_apply [MClose [115] 0, MClose [116] 0] sample_multi_rt))"
  have s: "s = closing [True, True] (side_closed [True, True] JClosed) 2" by (simp add: s_def sample_closed)
  have ops: "list_all multi_op_ok [MClose [115] 0, MClose [116] 0]" by (simp add: multi_op_ok_def)
  note t = multi_ends_exact [OF make_sample_multi ops s_def]
  have j: "dget (multi_joins (mg_nodes sample_multi)) [106] = Some sample_join" by (simp add: sample_multi_sel multi_joins_def)
  have js: "dget (ms_joins s) [106] = Some (side_closed [True, True] JClosed)" by (simp add: s closing_sel)
  have i: "side_index (kj_sides sample_join) [97] = Inr 0" "side_index (kj_sides sample_join) [98] = Inr 1"
    by (simp_all add: side_index_def sample_join_def)
  define e1 where "e1 = mg_edges sample_multi ! 0"
  define e2 where "e2 = mg_edges sample_multi ! 1"
  have e: "e1 \<in> set (edges_into (mg_edges sample_multi) [106])" "edge_side e1 = Some [97]" "edge_source e1 = [97]"
    "e2 \<in> set (edges_into (mg_edges sample_multi) [106])" "edge_side e2 = Some [98]" "edge_source e2 = [98]"
    by (simp_all add: e1_def e2_def sample_multi_sel edges_into_def)
  have "js_closed (side_closed [True, True] JClosed) ! 0" "js_closed (side_closed [True, True] JClosed) ! 1"
    by (simp_all add: side_closed_def)
  moreover have "graph_phase (ms_closed s) (joins_ready (mr_order sample_multi_rt) (ms_joins s)) = JClosed"
    by (simp add: s closing_sel joins_ready_def sample_multi_rt_def graph_phase_def side_closed_def)
  ultimately show ?thesis
    unfolding Let_def s_def [symmetric]
    using t j js e i by (metis (no_types, lifting))
qed

text \<open>C24: checkpoints of a multi-source graph are faithful: after any operations, failed ones
  included, a checkpoint can be taken, passes every check of the validator, and a runtime restored
  from it, through all cross-checks of positions, counters and ends, is the original with its
  state listed in sorted order.\<close>
theorem multi_checkpoint_restores:
  assumes "make_multi_runtime g = Inr rt0" "list_all multi_op_ok ops" "rt = snd (run_ops multi_apply ops rt0)"
  shows "\<exists>c. multi_checkpoint_of rt = Inr c
    \<and> multi_from_checkpoint g c = Inr (rt\<lparr>mr_state := (mr_state rt)
        \<lparr>ms_ordinary := sort_key fst (ms_ordinary (mr_state rt)),
         ms_joins := map (\<lambda>e. (fst e, (snd e)\<lparr>js_cells := sort_key fst (js_cells (snd e))\<rparr>)) (ms_joins (mr_state rt))\<rparr>\<rparr>)"
proof -
  have r: "multi_recorded rt" using multi_recorded.run_inv [OF _ assms(2)] make_multi_recorded [OF assms(1)] assms(3) by blast
  have g: "mr_flow rt = g" using make_multi_recorded [OF assms(1)] assms(3) by (simp add: multi_run_flow)
  have "multi_rt_inv rt" using r by (simp add: multi_recorded_def)
  then show ?thesis
    using multi_checkpoint_of_saved multi_saved_ok [OF r] multi_from_saved [OF r]
    unfolding g multi_restored_def sorted_join_def by simp
qed

theorem multi_checkpoint_restores_witness:
  "\<exists>c. multi_checkpoint_of (snd (run_ops multi_apply sample_multi_ops sample_multi_rt)) = Inr c
    \<and> (\<exists>rt. multi_from_checkpoint sample_multi c = Inr rt)"
  using multi_checkpoint_restores [OF make_sample_multi sample_multi_ops_ok refl] by blast

end
