(* ===== verification/Ordered_Window.thy ===== *)
theory Ordered_Window
  imports Window_Recovery
begin

text \<open>
  \<open>ordered_window.py\<close>: a bounded buffer that releases inputs in timestamp order into the
  window fold when the watermark passes them, with explicit source positions. The release
  boundary is strict: an input at the watermark stays in the buffer.
\<close>

section \<open>Limits, status and results\<close>

definition MAX_BUFFER_RECORDS :: int where "MAX_BUFFER_RECORDS = 1000"
definition MAX_BUFFER_BYTES :: int where "MAX_BUFFER_BYTES = 16 * 1024 * 1024"
definition MAX_ORDERED_BYTES :: int where "MAX_ORDERED_BYTES = 96 * 1024 * 1024"
definition ordered_kind :: pystr where "ordered_kind = lit ''stream-quilt-ordered-window-checkpoint''"

record ordered_limits =
  ol_records :: int
  ol_bytes :: int

definition default_ordered_limits :: ordered_limits where
  "default_ordered_limits = \<lparr>ol_records = MAX_BUFFER_RECORDS, ol_bytes = MAX_BUFFER_BYTES\<rparr>"

definition ordered_limits_ok :: "ordered_limits \<Rightarrow> bool" where
  "ordered_limits_ok l \<longleftrightarrow>
     1 \<le> ol_records l \<and> ol_records l \<le> MAX_BUFFER_RECORDS \<and> 1 \<le> ol_bytes l \<and> ol_bytes l \<le> MAX_BUFFER_BYTES"

definition ordered_limits_doc :: "ordered_limits \<Rightarrow> json" where
  "ordered_limits_doc l = JObj
     [jfield ''max_buffer_bytes'' (JInt (ol_bytes l)), jfield ''max_buffer_records'' (JInt (ol_records l))]"

record ordered_status =
  os_next :: int
  os_records :: int
  os_bytes :: int
  os_window :: window_status

definition ordered_status_check :: "ordered_status \<Rightarrow> ordered_status res" where
  "ordered_status_check s =
     rbind (count (os_next s) 0 MAX_COUNT) (\<lambda>_. rbind (count (os_records s) 0 MAX_BUFFER_RECORDS) (\<lambda>_.
     rbind (count (os_bytes s) 0 MAX_BUFFER_BYTES) (\<lambda>_.
     rbind (window_status_check (os_window s)) (\<lambda>_. Inr s))))"

record ordered_admission =
  oa_position :: int
  oa_status :: ordered_status

definition ordered_admission_check :: "ordered_admission \<Rightarrow> ordered_admission res" where
  "ordered_admission_check a =
     rbind (count (oa_position a) 0 MAX_COUNT) (\<lambda>_. rbind (ordered_status_check (oa_status a)) (\<lambda>_. Inr a))"

record ordered_effect =
  oe_position :: int
  oe_timestamp :: int
  oe_outcome :: window_outcome
  oe_memberships :: int

definition ordered_effect_check :: "ordered_effect \<Rightarrow> ordered_effect res" where
  "ordered_effect_check e =
     rbind (count (oe_position e) 0 MAX_COUNT) (\<lambda>_. rbind (tick (oe_timestamp e)) (\<lambda>_.
     if oe_outcome e = WLateDropped then Inl ValidationError
     else rbind (count (oe_memberships e) 0 1024) (\<lambda>_.
       if (oe_outcome e = WFolded) \<noteq> (oe_memberships e \<noteq> 0) then Inl ValidationError else Inr e)))"

record ordered_release =
  ore_effects :: "ordered_effect list"
  ore_status :: ordered_status

definition ordered_release_check :: "ordered_release \<Rightarrow> ordered_release res" where
  "ordered_release_check r =
     (if MAX_BUFFER_RECORDS < int (length (ore_effects r)) then Inl ValidationError
      else rbind (fold_res (\<lambda>e _. rbind (ordered_effect_check e) (\<lambda>_. Inr ())) (ore_effects r) ()) (\<lambda>_.
           rbind (ordered_status_check (ore_status r)) (\<lambda>_. Inr r)))"

section \<open>The buffer\<close>

record pending_input =
  pi_position :: int
  pi_timestamp :: int
  pi_record :: flow_record
  pi_bytes :: int

definition entry_doc :: "int \<Rightarrow> int \<Rightarrow> pystr \<Rightarrow> json \<Rightarrow> json" where
  "entry_doc position timestamp k v = JObj
     [jfield ''key'' (JStr k), jfield ''position'' (JInt position), jfield ''timestamp'' (JInt timestamp),
      jfield ''value'' v]"

definition pending_doc :: "pending_input \<Rightarrow> json res" where
  "pending_doc p =
     rbind (loads no_hooks (rec_json (pi_record p))) (\<lambda>v.
       (case rec_key (pi_record p) of
          None \<Rightarrow> Inr (JObj [jfield ''key'' JNull, jfield ''position'' (JInt (pi_position p)),
                    jfield ''timestamp'' (JInt (pi_timestamp p)), jfield ''value'' v])
        | Some k \<Rightarrow> Inr (entry_doc (pi_position p) (pi_timestamp p) k v)))"

definition entry_size :: "json \<Rightarrow> int \<Rightarrow> int res" where
  "entry_size raw maximum = rbind (encode_json raw maximum) (\<lambda>t. Inr (byte_len t))"

definition status_for :: "wstate \<Rightarrow> int \<Rightarrow> pending_input list \<Rightarrow> int \<Rightarrow> ordered_status res" where
  "status_for s position buffer sz =
     rbind (status_of s) (\<lambda>st.
       ordered_status_check \<lparr>os_next = position, os_records = int (length buffer), os_bytes = sz, os_window = st\<rparr>)"

section \<open>The runtime\<close>

record ordered_runtime =
  or_spec :: window_fold
  or_limits :: ordered_limits
  or_state :: wstate
  or_buffer :: "pending_input list"
  or_bytes :: int
  or_next :: int
  or_busy :: bool

definition make_ordered_runtime :: "window_fold \<Rightarrow> ordered_limits option \<Rightarrow> ordered_runtime res" where
  "make_ordered_runtime w limits =
     (if wf_drop_late w \<or> \<not> window_fold_ok w then Inl ValidationError
      else let l = (case limits of None \<Rightarrow> default_ordered_limits | Some l \<Rightarrow> l)
           in if \<not> ordered_limits_ok l then Inl ValidationError
              else Inr \<lparr>or_spec = w, or_limits = l, or_state = empty_wstate, or_buffer = [], or_bytes = 0,
                        or_next = 0, or_busy = False\<rparr>)"

definition check_prefix :: "ordered_runtime \<Rightarrow> int \<Rightarrow> unit res" where
  "check_prefix rt position =
     rbind (count position 0 MAX_COUNT) (\<lambda>_.
       if position \<noteq> or_next rt then Inl ValidationError else Inr ())"

definition ordered_process :: "ordered_runtime \<Rightarrow> int \<Rightarrow> int \<Rightarrow> flow_record
    \<Rightarrow> (ordered_runtime \<times> ordered_admission) res" where
  "ordered_process rt position timestamp r =
     rbind (check_prefix rt position) (\<lambda>_.
     rbind (tick timestamp) (\<lambda>_.
     rbind (status_of (or_state rt)) (\<lambda>st.
     if ws_phase st \<noteq> WOpen then Inl ValidationError
     else if before_watermark (or_state rt) timestamp then Inl ValidationError
     else (case rec_key r of
             None \<Rightarrow> Inl ValidationError
           | Some k \<Rightarrow>
               rbind (checked_value (rec_json r) (wl_input_bytes (wf_limits (or_spec rt)))) (\<lambda>encoded.
               rbind (loads no_hooks encoded) (\<lambda>v.
               rbind (make_record (py_of_json v) (Some k)) (\<lambda>owned.
               rbind (count (position + 1) 0 MAX_COUNT) (\<lambda>next_position.
               if wl_inputs (wf_limits (or_spec rt)) < next_position then Inl ValidationError
               else if ol_records (or_limits rt) \<le> int (length (or_buffer rt)) then Inl ValidationError
               else rbind (pending_doc \<lparr>pi_position = position, pi_timestamp = timestamp, pi_record = owned, pi_bytes = 0\<rparr>)
                 (\<lambda>raw.
               rbind (entry_size raw (ol_bytes (or_limits rt) - or_bytes rt)) (\<lambda>sz.
               let next_bytes = or_bytes rt + sz;
                   candidate = or_buffer rt @ [\<lparr>pi_position = position, pi_timestamp = timestamp,
                                                pi_record = owned, pi_bytes = sz\<rparr>]
               in rbind (status_for (or_state rt) next_position candidate next_bytes) (\<lambda>st.
                  rbind (ordered_admission_check \<lparr>oa_position = position, oa_status = st\<rparr>) (\<lambda>a.
                    Inr (rt\<lparr>or_buffer := candidate, or_bytes := next_bytes, or_next := next_position\<rparr>, a)))))))))))))"

text \<open>\<open>_release\<close>: the selected inputs in (timestamp, position) order through the fold.\<close>

definition release_order :: "pending_input list \<Rightarrow> pending_input list" where
  "release_order ps = sort_key (\<lambda>p. (pi_timestamp p, pi_position p)) ps"

definition release_one :: "window_fold \<Rightarrow> pending_input \<Rightarrow> wstate \<times> ordered_effect list
    \<Rightarrow> (wstate \<times> ordered_effect list) res" where
  "release_one w p s =
     rbind (stage_process w no_window_hooks (fst s) (pi_timestamp p) (pi_record p) ()) (\<lambda>(state, r, _).
     rbind (ordered_effect_check \<lparr>oe_position = pi_position p, oe_timestamp = pi_timestamp p,
              oe_outcome = wr_outcome r, oe_memberships = wr_memberships r\<rparr>) (\<lambda>e.
       Inr (state, snd s @ [e])))"

definition release_inputs :: "ordered_runtime \<Rightarrow> pending_input list \<Rightarrow> pending_input list \<Rightarrow> int option
    \<Rightarrow> (ordered_runtime \<times> ordered_release) res" where
  "release_inputs rt selected remaining watermark =
     rbind (fold_res (release_one (or_spec rt)) (release_order selected) (or_state rt, [])) (\<lambda>(state, effects).
     rbind (case watermark of None \<Rightarrow> stage_finish state | Some m \<Rightarrow> stage_advance state m) (\<lambda>(state, _).
     let remaining_size = (\<Sum>p\<leftarrow>remaining. pi_bytes p)
     in rbind (status_for state (or_next rt) remaining remaining_size) (\<lambda>st.
        rbind (ordered_release_check \<lparr>ore_effects = effects, ore_status = st\<rparr>) (\<lambda>r.
          Inr (rt\<lparr>or_state := state, or_buffer := remaining, or_bytes := remaining_size\<rparr>, r)))))"

definition ordered_advance :: "ordered_runtime \<Rightarrow> int \<Rightarrow> int \<Rightarrow> (ordered_runtime \<times> ordered_release) res" where
  "ordered_advance rt watermark next_position =
     rbind (check_prefix rt next_position) (\<lambda>_.
     rbind (tick watermark) (\<lambda>_.
     rbind (status_of (or_state rt)) (\<lambda>st.
     if ws_phase st \<noteq> WOpen then Inl ValidationError
     else if before_watermark (or_state rt) watermark then Inl ValidationError
     else release_inputs rt (filter (\<lambda>p. pi_timestamp p < watermark) (or_buffer rt))
            (filter (\<lambda>p. watermark \<le> pi_timestamp p) (or_buffer rt)) (Some watermark))))"

definition ordered_finish :: "ordered_runtime \<Rightarrow> int \<Rightarrow> (ordered_runtime \<times> ordered_release) res" where
  "ordered_finish rt next_position =
     rbind (check_prefix rt next_position) (\<lambda>_.
     if w_finished (or_state rt)
     then rbind (status_for (or_state rt) (or_next rt) (or_buffer rt) (or_bytes rt)) (\<lambda>st.
          rbind (ordered_release_check \<lparr>ore_effects = [], ore_status = st\<rparr>) (\<lambda>r. Inr (rt, r)))
     else rbind (status_of (or_state rt)) (\<lambda>st.
       if or_buffer rt \<noteq> [] \<and> ws_phase st \<noteq> WOpen then Inl ValidationError
       else release_inputs rt (or_buffer rt) [] None))"

definition ordered_drain :: "ordered_runtime \<Rightarrow> int \<Rightarrow> (ordered_runtime \<times> window_batch) res" where
  "ordered_drain rt max_windows =
     rbind (stage_drain (or_spec rt) no_window_hooks (or_state rt) max_windows ()) (\<lambda>(state, b, _).
       Inr (rt\<lparr>or_state := state\<rparr>, b))"

datatype ordered_op = OProcess int int flow_record | OAdvance int int | OFinish int | ODrain int

datatype ordered_reply = OAdmitted ordered_admission | OReleased ordered_release | OBatch window_batch

definition ordered_stage :: "ordered_op \<Rightarrow> ordered_runtime \<Rightarrow> (ordered_runtime \<times> ordered_reply) res" where
  "ordered_stage op rt =
     (case op of
        OProcess position t r \<Rightarrow> rbind (ordered_process rt position t r) (\<lambda>(rt, a). Inr (rt, OAdmitted a))
      | OAdvance t position \<Rightarrow> rbind (ordered_advance rt t position) (\<lambda>(rt, r). Inr (rt, OReleased r))
      | OFinish position \<Rightarrow> rbind (ordered_finish rt position) (\<lambda>(rt, r). Inr (rt, OReleased r))
      | ODrain n \<Rightarrow> rbind (ordered_drain rt n) (\<lambda>(rt, b). Inr (rt, OBatch b)))"

text \<open>The public operations, inside \<open>_operation\<close>.\<close>

definition ordered_apply :: "ordered_op \<Rightarrow> ordered_runtime \<Rightarrow> ordered_reply res \<times> ordered_runtime" where
  "ordered_apply op rt =
     (if or_busy rt then (Inl ValidationError, rt)
      else (case ordered_stage op (rt\<lparr>or_busy := True\<rparr>) of
              Inl e \<Rightarrow> (Inl e, rt\<lparr>or_busy := False\<rparr>)
            | Inr (after, reply) \<Rightarrow> (Inr reply, after\<lparr>or_busy := False\<rparr>)))"

section \<open>Checkpoints\<close>

definition read_ordered_limits :: "json \<Rightarrow> ordered_limits res" where
  "read_ordered_limits doc =
     rbind (doc_fields [''max_buffer_records'', ''max_buffer_bytes''] doc) (\<lambda>kvs.
     rbind (read_field kvs ''max_buffer_records'' (\<lambda>v. count_json v 1 MAX_BUFFER_RECORDS)) (\<lambda>n.
     rbind (read_field kvs ''max_buffer_bytes'' (\<lambda>v. count_json v 1 MAX_BUFFER_BYTES)) (\<lambda>b.
       Inr \<lparr>ol_records = n, ol_bytes = b\<rparr>)))"

text \<open>One turn of the loop over the raw buffer: the previous position, the byte total, the
  inputs so far.\<close>

definition read_pending :: "window_fold \<Rightarrow> ordered_limits \<Rightarrow> wstate \<Rightarrow> int \<Rightarrow> json
    \<Rightarrow> int \<times> int \<times> pending_input list \<Rightarrow> (int \<times> int \<times> pending_input list) res" where
  "read_pending w l state position raw s =
     (let (previous, sz, buffer) = s
      in rbind (doc_fields [''position'', ''timestamp'', ''key'', ''value''] raw) (\<lambda>kvs.
         rbind (read_field kvs ''position'' (\<lambda>v. count_json v 0 MAX_COUNT)) (\<lambda>item_position.
         if item_position \<le> previous \<or> position \<le> item_position then Inl ValidationError
         else
           rbind (read_field kvs ''timestamp'' read_tick) (\<lambda>timestamp.
           if before_watermark state timestamp then Inl ValidationError
           else
             rbind (read_field kvs ''key'' read_str) (\<lambda>k.
             rbind (doc_get kvs ''value'') (\<lambda>v.
             rbind (make_record (py_of_json v) (Some k)) (\<lambda>r.
             rbind (checked_value (rec_json r) (wl_input_bytes (wf_limits w))) (\<lambda>_.
             rbind (entry_size raw (ol_bytes l - sz)) (\<lambda>item_size.
               Inr (item_position, sz + item_size,
                    buffer @ [\<lparr>pi_position = item_position, pi_timestamp = timestamp, pi_record = r,
                               pi_bytes = item_size\<rparr>]))))))))))"

definition read_ordered :: "json \<Rightarrow> window_fold option \<Rightarrow> ordered_limits option
    \<Rightarrow> (ordered_limits \<times> wstate \<times> int \<times> pending_input list \<times> int \<times> pystr) res" where
  "read_ordered doc spec limits =
     rbind (doc_fields [''body'', ''sha256''] doc) (\<lambda>kvs.
     rbind (read_field kvs ''sha256'' read_hex) (\<lambda>digest.
     rbind (doc_get kvs ''body'') (\<lambda>body_doc.
     rbind (doc_fields [''kind'', ''version'', ''fold_identity'', ''limits'', ''next_position'', ''window'',
        ''buffer''] body_doc) (\<lambda>body.
     rbind (read_field body ''kind'' (read_const ordered_kind)) (\<lambda>_.
     rbind (read_field body ''version'' (read_const (lit ''1.0''))) (\<lambda>_.
     rbind (read_field body ''fold_identity'' read_hex) (\<lambda>identity.
     rbind (read_field body ''limits'' read_ordered_limits) (\<lambda>l.
     if (case limits of None \<Rightarrow> False | Some m \<Rightarrow> m \<noteq> l) then Inl ValidationError
     else
       rbind (read_field body ''next_position'' (\<lambda>v. count_json v 0 MAX_COUNT)) (\<lambda>position.
       rbind (read_field body ''window'' (\<lambda>v. validate_window v spec)) (\<lambda>(w, state, _).
       rbind (window_identity w) (\<lambda>stored_identity.
       if wf_drop_late w \<or> identity \<noteq> stored_identity then Inl ValidationError
       else
         rbind (read_field body ''buffer'' (read_list Inr)) (\<lambda>raws.
         if ol_records l < int (length raws) then Inl ValidationError
         else
           rbind (fold_res (read_pending w l state position) raws (-1, 0, [])) (\<lambda>(_, sz, buffer).
           if w_finished state \<and> buffer \<noteq> [] then Inl ValidationError
           else if w_processed state + int (length buffer) \<noteq> position then Inl ValidationError
           else if wl_inputs (wf_limits w) < position then Inl ValidationError
           else
             rbind (encode_json body_doc MAX_ORDERED_BYTES) (\<lambda>encoded_body.
             if digest \<noteq> sha256_hex encoded_body then Inl ValidationError
             else rbind (encode_json doc MAX_ORDERED_BYTES) (\<lambda>t.
                    Inr (l, state, position, buffer, sz, t))))))))))))))))"

definition make_ordered_checkpoint :: "json \<Rightarrow> pystr res" where
  "make_ordered_checkpoint doc = rbind (read_ordered doc None None) (\<lambda>(_, _, _, _, _, t). Inr t)"

definition ordered_checkpoint_to_dict :: "pystr \<Rightarrow> json res" where
  "ordered_checkpoint_to_dict t =
     rbind (bounded_text t MAX_ORDERED_BYTES) (\<lambda>_. rbind (load_json t) (\<lambda>doc.
     rbind (make_ordered_checkpoint doc) (\<lambda>u. if u \<noteq> t then Inl ValidationError else Inr doc)))"

definition ordered_checkpoint_from_json :: "pystr \<Rightarrow> pystr res" where
  "ordered_checkpoint_from_json payload =
     rbind (bounded_text payload MAX_ORDERED_BYTES) (\<lambda>t. rbind (load_json t) (\<lambda>doc.
     rbind (make_ordered_checkpoint doc) (\<lambda>u. if u \<noteq> t then Inl ValidationError else Inr u)))"

definition ordered_checkpoint_of :: "ordered_runtime \<Rightarrow> pystr res" where
  "ordered_checkpoint_of rt =
     (if or_busy rt then Inl ValidationError
      else
        rbind (window_body (or_spec rt) (or_state rt)) (\<lambda>wbody.
        rbind (encode_json wbody MAX_WIRE) (\<lambda>u.
        rbind (make_window_checkpoint (JObj [jfield ''body'' wbody, jfield ''sha256'' (JStr (sha256_hex u))])) (\<lambda>wt.
        rbind (window_identity (or_spec rt)) (\<lambda>identity.
        rbind (window_checkpoint_to_dict wt) (\<lambda>wdoc.
        rbind (map_res pending_doc (or_buffer rt)) (\<lambda>entries.
        let body = JObj
          [jfield ''buffer'' (JArr entries), jfield ''fold_identity'' (JStr identity),
           jfield ''kind'' (JStr ordered_kind), jfield ''limits'' (ordered_limits_doc (or_limits rt)),
           jfield ''next_position'' (JInt (or_next rt)), jfield ''version'' (JStr (lit ''1.0'')),
           jfield ''window'' wdoc]
        in rbind (encode_json body MAX_ORDERED_BYTES) (\<lambda>t.
             make_ordered_checkpoint (JObj [jfield ''body'' body, jfield ''sha256'' (JStr (sha256_hex t))])))))))))"

definition ordered_from_checkpoint :: "window_fold \<Rightarrow> pystr \<Rightarrow> ordered_limits option \<Rightarrow> ordered_runtime res" where
  "ordered_from_checkpoint w t limits =
     rbind (make_ordered_runtime w limits) (\<lambda>rt.
     rbind (ordered_checkpoint_to_dict t) (\<lambda>doc.
     rbind (read_ordered doc (Some w) (Some (or_limits rt))) (\<lambda>(_, state, position, buffer, sz, _).
       Inr (rt\<lparr>or_state := state, or_next := position, or_buffer := buffer, or_bytes := sz\<rparr>))))"

end
