(* ===== verification/Ordered_Window_Laws.thy ===== *)
theory Ordered_Window_Laws
  imports Ordered_Window
begin

text \<open>
  The ordered window runtime: its invariant, the inversion of its operations, and its
  simulation by the arrival-ordered runtime on the inputs in release order.
\<close>

section \<open>The invariant\<close>

definition pending_ok :: "window_fold \<Rightarrow> pending_input \<Rightarrow> bool" where
  "pending_ok w p \<longleftrightarrow> (\<exists>k j. rec_key (pi_record p) = Some k \<and> is_label k
     \<and> rec_json (pi_record p) = dumps j \<and> snapshot_json j
     \<and> byte_len (dumps j) \<le> wl_input_bytes (wf_limits w) \<and> \<bar>pi_timestamp p\<bar> \<le> MAX_COUNT
     \<and> pi_bytes p = byte_len (dumps (entry_doc (pi_position p) (pi_timestamp p) k j)))"

definition ordered_core :: "ordered_runtime \<Rightarrow> bool" where
  "ordered_core rt \<longleftrightarrow>
     window_fold_ok (or_spec rt) \<and> \<not> wf_drop_late (or_spec rt) \<and> ordered_limits_ok (or_limits rt)
     \<and> wstate_inv (or_spec rt) (or_state rt)
     \<and> (\<forall>p\<in>set (or_buffer rt). pending_ok (or_spec rt) p \<and> 0 \<le> pi_position p \<and> pi_position p < or_next rt
          \<and> \<not> before_watermark (or_state rt) (pi_timestamp p))
     \<and> sorted_wrt (<) (map pi_position (or_buffer rt))
     \<and> or_bytes rt = (\<Sum>p\<leftarrow>or_buffer rt. pi_bytes p) \<and> or_bytes rt \<le> ol_bytes (or_limits rt)
     \<and> int (length (or_buffer rt)) \<le> ol_records (or_limits rt)
     \<and> (w_finished (or_state rt) \<longrightarrow> or_buffer rt = [])
     \<and> w_processed (or_state rt) + int (length (or_buffer rt)) = or_next rt
     \<and> or_next rt \<le> wl_inputs (wf_limits (or_spec rt))"

definition ordered_inv :: "ordered_runtime \<Rightarrow> bool" where
  "ordered_inv rt \<longleftrightarrow> ordered_core rt \<and> \<not> or_busy rt"

lemma ordered_core_busy [simp]: "ordered_core (rt\<lparr>or_busy := b\<rparr>) = ordered_core rt"
  by (simp add: ordered_core_def)

lemma make_ordered_runtime_inv: "make_ordered_runtime w l = Inr rt \<Longrightarrow> ordered_inv rt"
  using empty_wstate_inv [of w]
  by (auto simp: make_ordered_runtime_def ordered_inv_def ordered_core_def Let_def default_ordered_limits_def empty_wstate_def
      window_fold_ok_def window_limits_ok_def ordered_limits_ok_def MAX_BUFFER_BYTES_def split: if_splits option.splits)

lemma status_for_Inr: "status_for s n b sz = Inr st \<Longrightarrow>
    st = \<lparr>os_next = n, os_records = int (length b), os_bytes = sz, os_window = the_status s\<rparr>"
  by (auto simp: status_for_def ordered_status_check_def dest: status_of_Inr)

lemma check_prefix_Inr: "check_prefix rt n = Inr () \<longleftrightarrow> n = or_next rt \<and> 0 \<le> n \<and> n \<le> MAX_COUNT"
  by (auto simp: check_prefix_def)

lemma entry_size_sorted: "jsort d = d \<Longrightarrow> entry_size d m = Inr n \<Longrightarrow> n = byte_len (dumps d) \<and> n \<le> m"
  by (auto simp: entry_size_def encode_json_def Let_def split: if_splits)

lemma entry_doc_sorted: "snapshot_json j \<Longrightarrow> jsort (entry_doc i t k j) = entry_doc i t k j"
  unfolding entry_doc_def by (rule jsort_object) (simp_all add: lit_simps snapshot_json_def)

lemma ordered_process_Inr:
  assumes p: "ordered_process rt n t r = Inr (rt', a)"
    and inv: "window_fold_ok (or_spec rt)"
  shows "\<exists>p. rt' = rt\<lparr>or_buffer := or_buffer rt @ [p], or_bytes := or_bytes rt + pi_bytes p, or_next := or_next rt + 1\<rparr>
    \<and> pi_position p = n \<and> n = or_next rt \<and> pi_timestamp p = t \<and> pi_record p = r \<and> pending_ok (or_spec rt) p
    \<and> 0 \<le> n \<and> n + 1 \<le> wl_inputs (wf_limits (or_spec rt)) \<and> or_bytes rt + pi_bytes p \<le> ol_bytes (or_limits rt)
    \<and> int (length (or_buffer rt)) < ol_records (or_limits rt) \<and> \<not> before_watermark (or_state rt) t
    \<and> pending_cells (or_state rt) = [] \<and> \<not> w_finished (or_state rt)
    \<and> oa_position a = n \<and> os_next (oa_status a) = n + 1"
proof -
  obtain k where k: "rec_key r = Some k" using p by (cases "rec_key r") (auto simp: ordered_process_def split: if_splits)
  obtain st encoded v owned n1 raw sz st2 where
      pre: "check_prefix rt n = Inr ()" and t: "\<bar>t\<bar> \<le> MAX_COUNT"
    and st: "status_of (or_state rt) = Inr st" "ws_phase st = WOpen" "\<not> before_watermark (or_state rt) t"
    and e: "checked_value (rec_json r) (wl_input_bytes (wf_limits (or_spec rt))) = Inr encoded"
    and v: "loads no_hooks encoded = Inr v" and owned: "make_record (py_of_json v) (Some k) = Inr owned"
    and nx: "n1 = n + 1" "n1 \<le> wl_inputs (wf_limits (or_spec rt))"
    and len: "int (length (or_buffer rt)) < ol_records (or_limits rt)"
    and raw: "pending_doc \<lparr>pi_position = n, pi_timestamp = t, pi_record = owned, pi_bytes = 0\<rparr> = Inr raw"
    and sz: "entry_size raw (ol_bytes (or_limits rt) - or_bytes rt) = Inr sz"
    and st2: "status_for (or_state rt) n1 (or_buffer rt @ [\<lparr>pi_position = n, pi_timestamp = t, pi_record = owned, pi_bytes = sz\<rparr>])
         (or_bytes rt + sz) = Inr st2"
    and a: "ordered_admission_check \<lparr>oa_position = n, oa_status = st2\<rparr> = Inr a"
    and rt': "rt' = rt\<lparr>or_buffer := or_buffer rt @ [\<lparr>pi_position = n, pi_timestamp = t, pi_record = owned, pi_bytes = sz\<rparr>],
                or_bytes := or_bytes rt + sz, or_next := n1\<rparr>"
    using p unfolding ordered_process_def k option.case Let_def
    by (auto simp: abs_le_iff split: if_splits)
  have c: "encoded = rec_json r" "canonical (rec_json r)" "byte_len (rec_json r) \<le> wl_input_bytes (wf_limits (or_spec rt))"
    using e by (simp_all add: checked_value_iff)
  then obtain j where j: "rec_json r = dumps j" "snapshot_json j" by (auto simp: canonical_iff)
  have vj: "v = j" using v c(1) j loads_snapshot_json [of j no_hooks] by simp
  have own: "owned = r" "is_label k"
    using owned k j by (auto simp: make_record_def vj snapshot_complete split: if_splits)
  have raw': "raw = entry_doc n t k j"
    using raw k j loads_snapshot_json [OF j(2)] by (simp add: pending_doc_def own)
  have s: "sz = byte_len (dumps (entry_doc n t k j))" "or_bytes rt + sz \<le> ol_bytes (or_limits rt)"
    using entry_size_sorted [OF entry_doc_sorted [OF j(2)] sz [unfolded raw']] by simp_all
  define q where "q = \<lparr>pi_position = n, pi_timestamp = t, pi_record = r, pi_bytes = sz\<rparr>"
  have q: "pending_ok (or_spec rt) q"
    using k own(2) j c t s by (auto simp: pending_ok_def q_def)
  have ad: "oa_position a = n" "os_next (oa_status a) = n + 1"
    using a status_for_Inr [OF st2] nx by (auto simp: ordered_admission_check_def)
  show ?thesis
    using pre st len nx rt' s(2) q ad phase_open [of "or_state rt"] status_of_Inr [OF st(1)]
    by (intro exI [of _ q]) (auto simp: q_def own check_prefix_Inr)
qed

section \<open>Releases are runs of the arrival-ordered fold\<close>

definition window_of :: "window_fold \<Rightarrow> wstate \<Rightarrow> window_runtime" where
  "window_of w s = \<lparr>wt_spec = w, wt_state = s, wt_busy = False\<rparr>"

definition input_op :: "pending_input \<Rightarrow> window_op" where
  "input_op p = WProcess (pi_timestamp p) (pi_record p)"

lemma window_of_apply:
  "window_stage w op s = Inr (s', r) \<Longrightarrow> window_apply op (window_of w s) = (Inr r, window_of w s')"
  by (simp add: window_apply_def window_of_def Let_def)

definition effect_of :: "pending_input \<Rightarrow> ordered_effect \<Rightarrow> bool" where
  "effect_of p e \<longleftrightarrow> oe_position e = pi_position p \<and> oe_timestamp e = pi_timestamp p"

lemma release_one_Inr:
  assumes "release_one w p (s, es) = Inr (s', es')"
  shows "\<exists>r e. stage_process w no_window_hooks s (pi_timestamp p) (pi_record p) () = Inr (s', r, ())
    \<and> es' = es @ [e] \<and> effect_of p e \<and> oe_outcome e = wr_outcome r \<and> oe_memberships e = wr_memberships r"
  using assms by (auto simp: release_one_def ordered_effect_check_def effect_of_def split: if_splits)

lemma release_fold:
  assumes "window_fold_ok w" "wstate_inv w s" "fold_res (release_one w) ps (s, es) = Inr (s', es')"
  shows "wstate_inv w s' \<and> w_watermark s' = w_watermark s \<and> w_finished s' = w_finished s
    \<and> w_processed s' = w_processed s + int (length ps)
    \<and> (\<exists>rs. run_ops window_apply (map input_op ps) (window_of w s) = (rs, window_of w s') \<and> list_all succeeded rs)
    \<and> (\<exists>new. es' = es @ new \<and> list_all2 effect_of ps new)"
  using assms(2,3)
proof (induction ps arbitrary: s es)
  case (Cons p ps)
  obtain s1 es1 where s1: "release_one w p (s, es) = Inr (s1, es1)" "fold_res (release_one w) ps (s1, es1) = Inr (s', es')"
    using Cons.prems(2) by auto
  obtain r e where p: "stage_process w no_window_hooks s (pi_timestamp p) (pi_record p) () = Inr (s1, r, ())"
    and e: "es1 = es @ [e]" "effect_of p e" using release_one_Inr [OF s1(1)] by blast
  have d: "dict_ok (w_cells s)" using Cons.prems(1) by (simp add: wstate_inv_def)
  have inv1: "wstate_inv w s1" by (rule stage_process_inv [OF assms(1) Cons.prems(1) p])
  have ap: "window_apply (input_op p) (window_of w s) = (Inr (RProcessed r), window_of w s1)"
    by (rule window_of_apply) (simp add: input_op_def window_stage_def p)
  obtain rs new where rest: "run_ops window_apply (map input_op ps) (window_of w s1) = (rs, window_of w s')"
      "list_all succeeded rs" "es' = es1 @ new" "list_all2 effect_of ps new"
      "wstate_inv w s' \<and> w_watermark s' = w_watermark s1 \<and> w_finished s' = w_finished s1
        \<and> w_processed s' = w_processed s1 + int (length ps)"
    using Cons.IH [OF inv1 s1(2)] by blast
  have "run_ops window_apply (map input_op (p # ps)) (window_of w s) = (Inr (RProcessed r) # rs, window_of w s')"
    by (simp add: run_ops_Cons ap rest(1))
  moreover have "es' = es @ (e # new)" "list_all2 effect_of (p # ps) (e # new)" using e rest(3,4) by simp_all
  ultimately show ?case using rest(2,5) window_process_frame [OF p d] by auto
qed (auto simp: window_of_def)

lemma release_order_facts:
  "set (release_order ps) = set ps" "length (release_order ps) = length ps" "mset (release_order ps) = mset ps"
  "sorted (map pi_timestamp (release_order ps))"
proof -
  have "sorted (map (\<lambda>p. (pi_timestamp p, pi_position p)) (release_order ps))"
    unfolding release_order_def by (rule sorted_sort_key)
  then show "sorted (map pi_timestamp (release_order ps))"
    by (simp add: sorted_map) (erule sorted_wrt_mono_rel [rotated], auto)
qed (simp_all add: release_order_def)

lemma release_inputs_Inr:
  assumes p: "release_inputs rt selected remaining m = Inr (rt', rel)"
    and w: "window_fold_ok (or_spec rt)" and inv: "wstate_inv (or_spec rt) (or_state rt)"
  obtains s s' where
    "wstate_inv (or_spec rt) s'" "w_processed s' = w_processed (or_state rt) + int (length selected)"
    "rt' = rt\<lparr>or_state := s', or_buffer := remaining, or_bytes := (\<Sum>p\<leftarrow>remaining. pi_bytes p)\<rparr>"
    "fold_res (release_one (or_spec rt)) (release_order selected) (or_state rt, []) = Inr (s, ore_effects rel)"
    "case m of None \<Rightarrow> s' = s\<lparr>w_finished := True\<rparr> | Some t \<Rightarrow> s' = s\<lparr>w_watermark := Some t\<rparr>"
    "w_finished s = w_finished (or_state rt)" "w_watermark s = w_watermark (or_state rt)"
    "list_all2 effect_of (release_order selected) (ore_effects rel)"
    "\<exists>rs. run_ops window_apply (map input_op (release_order selected) @ [case m of None \<Rightarrow> WFinish | Some t \<Rightarrow> WAdvance t])
       (window_of (or_spec rt) (or_state rt)) = (rs, window_of (or_spec rt) s') \<and> list_all succeeded rs"
proof -
  obtain s es s' st sf where
      f: "fold_res (release_one (or_spec rt)) (release_order selected) (or_state rt, []) = Inr (s, es)"
    and a: "(case m of None \<Rightarrow> stage_finish s | Some m \<Rightarrow> stage_advance s m) = Inr (s', st)"
    and c: "ordered_release_check \<lparr>ore_effects = es, ore_status = sf\<rparr> = Inr rel"
    and rt': "rt' = rt\<lparr>or_state := s', or_buffer := remaining, or_bytes := (\<Sum>p\<leftarrow>remaining. pi_bytes p)\<rparr>"
    using p unfolding release_inputs_def Let_def by auto
  have es: "ore_effects rel = es" using c by (auto simp: ordered_release_check_def split: if_splits)
  obtain rs new where fold: "wstate_inv (or_spec rt) s" "w_watermark s = w_watermark (or_state rt)"
      "w_finished s = w_finished (or_state rt)" "w_processed s = w_processed (or_state rt) + int (length (release_order selected))"
      "run_ops window_apply (map input_op (release_order selected)) (window_of (or_spec rt) (or_state rt)) = (rs, window_of (or_spec rt) s)"
      "list_all succeeded rs" "list_all2 effect_of (release_order selected) es"
    using release_fold [OF w inv f] by auto
  define op where "op = (case m of None \<Rightarrow> WFinish | Some t \<Rightarrow> WAdvance t)"
  have op: "window_stage (or_spec rt) op s = Inr (s', RStatus st)" using a by (cases m) (auto simp: op_def window_stage_def)
  have s': "case m of None \<Rightarrow> s' = s\<lparr>w_finished := True\<rparr> | Some t \<Rightarrow> s' = s\<lparr>w_watermark := Some t\<rparr>"
    using a by (cases m) (auto dest: stage_finish_Inr stage_advance_Inr)
  have inv': "wstate_inv (or_spec rt) s'" by (rule window_stage_inv [OF w fold(1) op])
  have run: "run_ops window_apply (map input_op (release_order selected) @ [op]) (window_of (or_spec rt) (or_state rt))
      = (rs @ [Inr (RStatus st)], window_of (or_spec rt) s')"
    by (simp add: run_ops_append fold(5) run_ops_Cons window_of_apply [OF op])
  show thesis
  proof (rule that [OF inv' _ rt' _ s' fold(3,2)])
    show "w_processed s' = w_processed (or_state rt) + int (length selected)"
      using s' fold(4) by (cases m) (simp_all add: release_order_facts)
    show "fold_res (release_one (or_spec rt)) (release_order selected) (or_state rt, []) = Inr (s, ore_effects rel)"
      using f es by simp
    show "list_all2 effect_of (release_order selected) (ore_effects rel)" using fold(7) es by simp
    show "\<exists>rs. run_ops window_apply (map input_op (release_order selected) @ [case m of None \<Rightarrow> WFinish | Some t \<Rightarrow> WAdvance t])
       (window_of (or_spec rt) (or_state rt)) = (rs, window_of (or_spec rt) s') \<and> list_all succeeded rs"
      using run fold(6) unfolding op_def by simp
  qed
qed

section \<open>Every operation keeps the invariant\<close>

lemma before_watermark_update [simp]:
  "before_watermark (s\<lparr>w_finished := b\<rparr>) t = before_watermark s t"
  "before_watermark (s\<lparr>w_watermark := Some m\<rparr>) t \<longleftrightarrow> t < m"
  by (simp_all add: before_watermark_def)

lemma ordered_process_inv:
  assumes "ordered_process rt n t r = Inr (rt', a)" "ordered_core rt"
  shows "ordered_core rt'"
proof -
  have "window_fold_ok (or_spec rt)" using assms(2) by (simp add: ordered_core_def)
  from ordered_process_Inr [OF assms(1) this] assms(2) show ?thesis
    by (fastforce simp: ordered_core_def sorted_wrt_append)
qed

lemma sum_filter_le:
  "(\<And>x. x \<in> set xs \<Longrightarrow> 0 \<le> f x) \<Longrightarrow> (\<Sum>x\<leftarrow>filter P xs. f x) \<le> (\<Sum>x\<leftarrow>xs. f x :: int)"
  by (induction xs) (auto intro: add_mono order_trans [OF _ add_increasing [OF _ order_refl]])

lemma pending_bytes_nonneg: "pending_ok w p \<Longrightarrow> 0 \<le> pi_bytes p"
  by (auto simp: pending_ok_def)

lemma ordered_advance_Inr:
  assumes "ordered_advance rt m n = Inr (rt', rel)"
  shows "release_inputs rt (filter (\<lambda>p. pi_timestamp p < m) (or_buffer rt)) (filter (\<lambda>p. m \<le> pi_timestamp p) (or_buffer rt)) (Some m)
      = Inr (rt', rel) \<and> \<not> before_watermark (or_state rt) m \<and> \<bar>m\<bar> \<le> MAX_COUNT \<and> n = or_next rt \<and> \<not> w_finished (or_state rt)"
proof -
  obtain st where "status_of (or_state rt) = Inr st" "ws_phase st = WOpen"
    using assms by (auto simp: ordered_advance_def split: if_splits)
  then have "\<not> w_finished (or_state rt)" using phase_open [of "or_state rt"] status_of_Inr by blast
  with assms show ?thesis by (auto simp: ordered_advance_def check_prefix_Inr split: if_splits)
qed

lemma ordered_advance_inv:
  assumes p: "ordered_advance rt m n = Inr (rt', rel)" and inv: "ordered_core rt"
  shows "ordered_core rt'"
proof -
  have w: "window_fold_ok (or_spec rt)" and i: "wstate_inv (or_spec rt) (or_state rt)" using inv by (simp_all add: ordered_core_def)
  note q = ordered_advance_Inr [OF p]
  define keep where "keep = filter (\<lambda>p. m \<le> pi_timestamp p) (or_buffer rt)"
  have len: "length (filter (\<lambda>p. pi_timestamp p < m) (or_buffer rt)) + length keep = length (or_buffer rt)"
    unfolding keep_def using sum_length_filter_compl [of "\<lambda>p. pi_timestamp p < m" "or_buffer rt"] by (simp add: not_less)
  have small: "(\<Sum>p\<leftarrow>keep. pi_bytes p) \<le> or_bytes rt"
    using inv sum_filter_le [of "or_buffer rt" pi_bytes] pending_bytes_nonneg unfolding keep_def ordered_core_def by metis
  have sub: "set keep \<subseteq> set (or_buffer rt)" "\<forall>p\<in>set keep. m \<le> pi_timestamp p" by (auto simp: keep_def)
  have srt: "sorted_wrt (<) (map pi_position keep)"
    using inv unfolding keep_def ordered_core_def by (simp add: sorted_wrt_map sorted_wrt_filter)
  show ?thesis
  proof (rule release_inputs_Inr [OF q [THEN conjunct1] w i], goal_cases)
    case (1 s s')
    then have "w_finished s' = w_finished (or_state rt)" "w_watermark s' = Some m" by simp_all
    then show ?case
      using 1(1,2) 1(3) [folded keep_def] inv q small sub srt len
      by (auto simp: ordered_core_def before_watermark_def)
  qed
qed

lemma ordered_finish_cases:
  assumes "ordered_finish rt n = Inr (rt', rel)"
  obtains (again) "w_finished (or_state rt)" "rt' = rt" "ore_effects rel = []"
  | (release) "\<not> w_finished (or_state rt)" "release_inputs rt (or_buffer rt) [] None = Inr (rt', rel)"
  using assms by (auto simp: ordered_finish_def ordered_release_check_def split: if_splits)

lemma ordered_finish_inv:
  assumes p: "ordered_finish rt n = Inr (rt', rel)" and inv: "ordered_core rt"
  shows "ordered_core rt'"
  using p
proof (cases rule: ordered_finish_cases)
  case again
  then show ?thesis using inv by simp
next
  case release
  have w: "window_fold_ok (or_spec rt)" and i: "wstate_inv (or_spec rt) (or_state rt)" using inv by (simp_all add: ordered_core_def)
  show ?thesis
  proof (rule release_inputs_Inr [OF release(2) w i], goal_cases)
    case (1 s s')
    then show ?case using inv by (auto simp: ordered_core_def ordered_limits_ok_def)
  qed
qed

lemma ordered_drain_Inr:
  assumes "ordered_drain rt n = Inr (rt', b)"
  shows "\<exists>s'. stage_drain (or_spec rt) no_window_hooks (or_state rt) n () = Inr (s', b, ())
    \<and> rt' = rt\<lparr>or_state := s'\<rparr> \<and> w_watermark s' = w_watermark (or_state rt)
    \<and> w_finished s' = w_finished (or_state rt) \<and> w_processed s' = w_processed (or_state rt)"
proof -
  obtain s' where s': "stage_drain (or_spec rt) no_window_hooks (or_state rt) n () = Inr (s', b, ())" "rt' = rt\<lparr>or_state := s'\<rparr>"
    using assms by (auto simp: ordered_drain_def)
  then show ?thesis using window_drain_Inr [OF s'(1)] by (simp add: drained_state_def)
qed

lemma ordered_drain_inv:
  assumes "ordered_drain rt n = Inr (rt', b)" "ordered_core rt"
  shows "ordered_core rt'"
  using ordered_drain_Inr [OF assms(1)] assms(2) stage_drain_inv [of "or_spec rt" "or_state rt" no_window_hooks n "()"]
  by (auto simp: ordered_core_def before_watermark_def)

lemma ordered_stage_core:
  "ordered_stage op rt = Inr (rt', reply) \<Longrightarrow> ordered_core rt \<Longrightarrow> ordered_core rt'"
  by (cases op) (auto simp: ordered_stage_def intro: ordered_process_inv ordered_advance_inv ordered_finish_inv ordered_drain_inv)

lemma ordered_apply_Inl: "ordered_inv rt \<Longrightarrow> ordered_apply op rt = (Inl e, rt') \<Longrightarrow> rt' = rt"
  by (cases rt) (auto simp: ordered_apply_def ordered_inv_def split: sum.splits if_splits)

lemma ordered_apply_Inr:
  assumes "ordered_apply op rt = (Inr reply, rt')"
  shows "\<exists>rt1. ordered_stage op (rt\<lparr>or_busy := True\<rparr>) = Inr (rt1, reply) \<and> rt' = rt1\<lparr>or_busy := False\<rparr>"
  using assms by (auto simp: ordered_apply_def split: sum.splits if_splits)

interpretation ordered: atomic_runtime ordered_apply ordered_inv "\<lambda>_. True"
proof
  show "s' = s" if "ordered_inv s" "ordered_apply p s = (Inl e, s')" for s p e s'
    using that by (rule ordered_apply_Inl)
  show "ordered_inv s'" if i: "ordered_inv s" and p: "ordered_apply p s = (Inr r, s')" for s p r s'
  proof -
    obtain s1 where "ordered_stage p (s\<lparr>or_busy := True\<rparr>) = Inr (s1, r)" "s' = s1\<lparr>or_busy := False\<rparr>"
      using ordered_apply_Inr [OF p] by blast
    then show ?thesis using ordered_stage_core [of p "s\<lparr>or_busy := True\<rparr>" s1 r] i by (simp add: ordered_inv_def)
  qed
qed

section \<open>Whole runs\<close>

text \<open>The operations of the arrival-ordered runtime that an ordered operation stands for.\<close>

definition window_trace :: "ordered_op \<Rightarrow> ordered_runtime \<Rightarrow> window_op list" where
  "window_trace op rt =
     (case op of
        OProcess n t r \<Rightarrow> []
      | OAdvance m n \<Rightarrow>
          map input_op (release_order (filter (\<lambda>p. pi_timestamp p < m) (or_buffer rt))) @ [WAdvance m]
      | OFinish n \<Rightarrow>
          if w_finished (or_state rt) then [] else map input_op (release_order (or_buffer rt)) @ [WFinish]
      | ODrain n \<Rightarrow> [WDrain n])"

fun ordered_trace :: "ordered_op list \<Rightarrow> ordered_runtime \<Rightarrow> window_op list" where
  "ordered_trace [] rt = []"
| "ordered_trace (op # ops) rt =
     (if succeeded (fst (ordered_apply op rt)) then window_trace op rt else [])
     @ ordered_trace ops (snd (ordered_apply op rt))"

definition input_times :: "window_op list \<Rightarrow> int list" where
  "input_times ops = List.map_filter (\<lambda>op. case op of WProcess t r \<Rightarrow> Some t | _ \<Rightarrow> None) ops"

lemma input_times_simps [simp]:
  "input_times [] = []" "input_times (xs @ ys) = input_times xs @ input_times ys"
  "input_times (map input_op ps) = map pi_timestamp ps" "input_times [WAdvance m] = []" "input_times [WFinish] = []"
  "input_times [WDrain n] = []"
  by (induction ps) (simp_all add: input_times_def map_filter_def input_op_def)

text \<open>What a successful operation does: the fold state follows the trace, the released
  timestamps are sorted between the old and the new watermark.\<close>

lemma ordered_stage_trace:
  assumes p: "ordered_stage op rt = Inr (rt', reply)" and inv: "ordered_core rt"
  shows "(\<exists>rs. run_ops window_apply (window_trace op rt) (window_of (or_spec rt) (or_state rt)) = (rs, window_of (or_spec rt) (or_state rt'))
      \<and> list_all succeeded rs)
    \<and> or_spec rt' = or_spec rt \<and> sorted (input_times (window_trace op rt))
    \<and> (\<forall>t\<in>set (input_times (window_trace op rt)). \<not> before_watermark (or_state rt) t
         \<and> (w_finished (or_state rt') \<or> before_watermark (or_state rt') t))
    \<and> (\<forall>t. before_watermark (or_state rt) t \<longrightarrow> before_watermark (or_state rt') t)
    \<and> (w_finished (or_state rt) \<longrightarrow> w_finished (or_state rt') \<and> input_times (window_trace op rt) = [])"
proof (cases op)
  case (OProcess n t r)
  have w: "window_fold_ok (or_spec rt)" using inv by (simp add: ordered_core_def)
  obtain a where "ordered_process rt n t r = Inr (rt', a)" using p OProcess by (auto simp: ordered_stage_def)
  from ordered_process_Inr [OF this w] show ?thesis by (auto simp: OProcess window_trace_def)
next
  case (OAdvance m n)
  have w: "window_fold_ok (or_spec rt)" and i: "wstate_inv (or_spec rt) (or_state rt)" using inv by (simp_all add: ordered_core_def)
  obtain rel where "ordered_advance rt m n = Inr (rt', rel)" using p OAdvance by (auto simp: ordered_stage_def)
  note q = ordered_advance_Inr [OF this]
  show ?thesis
  proof (rule release_inputs_Inr [OF q [THEN conjunct1] w i], goal_cases)
    case (1 s s')
    show ?case
      using 1 q inv
      by (auto simp: OAdvance window_trace_def release_order_facts ordered_core_def before_watermark_def split: option.splits)
  qed
next
  case (OFinish n)
  have w: "window_fold_ok (or_spec rt)" and i: "wstate_inv (or_spec rt) (or_state rt)" using inv by (simp_all add: ordered_core_def)
  obtain rel where "ordered_finish rt n = Inr (rt', rel)" using p OFinish by (auto simp: ordered_stage_def)
  then show ?thesis
  proof (cases rule: ordered_finish_cases)
    case again
    then show ?thesis by (simp add: OFinish window_trace_def)
  next
    case release
    show ?thesis
    proof (rule release_inputs_Inr [OF release(2) w i], goal_cases)
      case (1 s s')
      then show ?case
        using release(1) inv
        by (auto simp: OFinish window_trace_def release_order_facts ordered_core_def before_watermark_def)
    qed
  qed
next
  case (ODrain n)
  obtain b where "ordered_drain rt n = Inr (rt', b)" using p ODrain by (auto simp: ordered_stage_def)
  then obtain s' where s': "stage_drain (or_spec rt) no_window_hooks (or_state rt) n () = Inr (s', b, ())"
      "rt' = rt\<lparr>or_state := s'\<rparr>" "w_watermark s' = w_watermark (or_state rt)" "w_finished s' = w_finished (or_state rt)"
    using ordered_drain_Inr by blast
  have "window_apply (WDrain n) (window_of (or_spec rt) (or_state rt)) = (Inr (RBatch b), window_of (or_spec rt) s')"
    by (rule window_of_apply) (simp add: window_stage_def s'(1))
  then show ?thesis using s' by (simp add: ODrain window_trace_def run_ops_Cons before_watermark_def)
qed

lemma window_trace_busy [simp]: "window_trace op (rt\<lparr>or_busy := b\<rparr>) = window_trace op rt"
  by (cases op) (simp_all add: window_trace_def)

lemma ordered_run_trace:
  assumes "ordered_inv rt"
  shows "(\<exists>rs. run_ops window_apply (ordered_trace ops rt) (window_of (or_spec rt) (or_state rt))
        = (rs, window_of (or_spec rt) (or_state (snd (run_ops ordered_apply ops rt)))) \<and> list_all succeeded rs)
    \<and> sorted (input_times (ordered_trace ops rt))
    \<and> (\<forall>t\<in>set (input_times (ordered_trace ops rt)). \<not> before_watermark (or_state rt) t \<and> \<not> w_finished (or_state rt))"
  using assms
proof (induction ops arbitrary: rt)
  case Nil
  then show ?case by simp
next
  case (Cons op ops)
  show ?case
  proof (cases "ordered_apply op rt")
    case (Pair r rt1)
    show ?thesis
    proof (cases r)
      case (Inl e)
      then have "rt1 = rt" using ordered_apply_Inl [OF Cons.prems] Pair by simp
      then show ?thesis using Cons.IH [OF Cons.prems] Pair Inl by (simp add: run_ops_Cons)
    next
      case (Inr reply)
      have inv1: "ordered_inv rt1" using ordered.step_inv [OF Cons.prems, of op] Pair by simp
      obtain rt2 where st: "ordered_stage op (rt\<lparr>or_busy := True\<rparr>) = Inr (rt2, reply)" "rt1 = rt2\<lparr>or_busy := False\<rparr>"
        using ordered_apply_Inr Pair Inr by blast
      have core: "ordered_core (rt\<lparr>or_busy := True\<rparr>)" using Cons.prems by (simp add: ordered_inv_def)
      note f = ordered_stage_trace [OF st(1) core, simplified]
      obtain rs where rs: "run_ops window_apply (window_trace op rt) (window_of (or_spec rt) (or_state rt))
          = (rs, window_of (or_spec rt) (or_state rt1))" "list_all succeeded rs"
        using f st(2) by auto
      have sp: "or_spec rt1 = or_spec rt" using f st(2) by simp
      note IH = Cons.IH [OF inv1, unfolded sp]
      have times: "\<And>t. t \<in> set (input_times (window_trace op rt)) \<Longrightarrow> \<not> before_watermark (or_state rt) t
           \<and> \<not> w_finished (or_state rt) \<and> (w_finished (or_state rt1) \<or> before_watermark (or_state rt1) t)"
        "\<And>t. before_watermark (or_state rt) t \<Longrightarrow> before_watermark (or_state rt1) t"
        "w_finished (or_state rt) \<Longrightarrow> w_finished (or_state rt1)" "sorted (input_times (window_trace op rt))"
        using f st(2) by auto
      have below: "x \<le> y" if "x \<in> set (input_times (window_trace op rt))" "y \<in> set (input_times (ordered_trace ops rt1))" for x y
        using times(1) [OF that(1)] IH that(2) by (fastforce simp: before_watermark_def split: option.splits)
      have run: "run_ops ordered_apply (op # ops) rt = (Inr reply # fst (run_ops ordered_apply ops rt1), snd (run_ops ordered_apply ops rt1))"
        by (simp add: run_ops_Cons Pair Inr)
      show ?thesis
        using rs IH times below by (auto simp: Pair Inr run run_ops_append sorted_append)
    qed
  qed
qed

section \<open>The order of arrival\<close>

definition arrival :: "pending_input \<Rightarrow> int \<times> flow_record" where
  "arrival p = (pi_timestamp p, pi_record p)"

definition effect_shape :: "ordered_effect \<Rightarrow> int \<times> window_outcome \<times> int" where
  "effect_shape e = (oe_timestamp e, oe_outcome e, oe_memberships e)"

lemma release_fold_arrival:
  assumes "map arrival ps = map arrival qs" "fold_res (release_one w) ps (s, es) = Inr (s1, es1)"
    and "fold_res (release_one w) qs (s, fs) = Inr (s2, fs2)" "map effect_shape es = map effect_shape fs"
  shows "s1 = s2 \<and> map effect_shape es1 = map effect_shape fs2"
  using assms
proof (induction ps arbitrary: qs s es fs)
  case (Cons p ps)
  then obtain q qs' where q: "qs = q # qs'" "arrival p = arrival q" "map arrival ps = map arrival qs'" by auto
  obtain sa ea where a: "release_one w p (s, es) = Inr (sa, ea)" "fold_res (release_one w) ps (sa, ea) = Inr (s1, es1)"
    using Cons.prems(2) by auto
  obtain sb eb where b: "release_one w q (s, fs) = Inr (sb, eb)" "fold_res (release_one w) qs' (sb, eb) = Inr (s2, fs2)"
    using Cons.prems(3) q by auto
  have pq: "pi_timestamp q = pi_timestamp p" "pi_record q = pi_record p" using q(2) by (simp_all add: arrival_def)
  obtain r e f where "stage_process w no_window_hooks s (pi_timestamp p) (pi_record p) () = Inr (sa, r, ())" "ea = es @ [e]"
      "oe_timestamp e = pi_timestamp p" "oe_outcome e = wr_outcome r" "oe_memberships e = wr_memberships r"
    and "sb = sa" "eb = fs @ [f]"
      "oe_timestamp f = pi_timestamp p" "oe_outcome f = wr_outcome r" "oe_memberships f = wr_memberships r"
    using release_one_Inr [OF a(1)] release_one_Inr [OF b(1)] pq by (auto simp: effect_of_def)
  then have "sb = sa" "map effect_shape ea = map effect_shape eb"
    using Cons.prems(4) by (simp_all add: effect_shape_def [of e] effect_shape_def [of f])
  then show ?case using Cons.IH [OF q(3) a(2), of eb] b(2) by simp
qed simp

lemma release_order_arrival:
  assumes "mset (map arrival ps) = mset (map arrival qs)" "distinct (map pi_timestamp ps)"
  shows "map arrival (release_order ps) = map arrival (release_order qs)"
proof -
  define xs ys where "xs = map arrival (release_order ps)" and "ys = map arrival (release_order qs)"
  have m: "mset xs = mset ys"
    using assms(1) by (simp add: xs_def ys_def release_order_def)
  have f: "map fst (map arrival zs) = map pi_timestamp zs" for zs by (simp add: arrival_def)
  have s: "sorted (map fst xs)" "sorted (map fst ys)" unfolding xs_def ys_def f by (rule release_order_facts)+
  have "mset (map fst xs) = mset (map pi_timestamp ps)" unfolding xs_def f by (simp add: release_order_def)
  then have "distinct (map fst xs)" using assms(2) mset_eq_imp_distinct_iff by blast
  then have "inj_on fst (set xs)" by (simp add: distinct_map)
  then have "sort_key fst xs = ys" "sort_key fst xs = xs"
    using sort_key_inj_key_eq [OF m _ s(2)] sort_key_inj_key_eq [OF refl _ s(1)] by blast+
  then show ?thesis by (simp add: xs_def ys_def)
qed

lemma filter_arrival:
  "map arrival (filter (\<lambda>p. P (pi_timestamp p)) ps) = filter (\<lambda>a. P (fst a)) (map arrival ps)"
  by (induction ps) (simp_all add: arrival_def)

lemma filter_arrival_mset:
  assumes "mset (map arrival ps) = mset (map arrival qs)"
  shows "mset (map arrival (filter (\<lambda>p. P (pi_timestamp p)) ps)) = mset (map arrival (filter (\<lambda>p. P (pi_timestamp p)) qs))"
  unfolding filter_arrival by (simp only: mset_filter assms)

lemma ordered_advance_arrival:
  assumes "or_spec rt1 = or_spec rt2" "or_state rt1 = or_state rt2" "ordered_core rt1" "ordered_core rt2"
    and "mset (map arrival (or_buffer rt1)) = mset (map arrival (or_buffer rt2))" "distinct (map pi_timestamp (or_buffer rt1))"
    and "ordered_advance rt1 m n1 = Inr (rt1', r1)" "ordered_advance rt2 m n2 = Inr (rt2', r2)"
  shows "or_state rt1' = or_state rt2' \<and> map effect_shape (ore_effects r1) = map effect_shape (ore_effects r2)
    \<and> mset (map arrival (or_buffer rt1')) = mset (map arrival (or_buffer rt2'))"
proof -
  have w: "window_fold_ok (or_spec rt1)" "wstate_inv (or_spec rt1) (or_state rt1)"
    "window_fold_ok (or_spec rt2)" "wstate_inv (or_spec rt2) (or_state rt2)"
    using assms(3,4) by (simp_all add: ordered_core_def)
  note q1 = ordered_advance_Inr [OF assms(7)] and q2 = ordered_advance_Inr [OF assms(8)]
  have d: "distinct (map pi_timestamp (filter (\<lambda>p. pi_timestamp p < m) (or_buffer rt1)))"
    using assms(6) by (simp add: distinct_map_filter)
  note sel = release_order_arrival [OF filter_arrival_mset [OF assms(5)] d]
  show ?thesis
  proof (rule release_inputs_Inr [OF q1 [THEN conjunct1] w(1,2)], goal_cases)
    case (1 s s')
    note one = this
    show ?case
    proof (rule release_inputs_Inr [OF q2 [THEN conjunct1] w(3,4)], goal_cases)
      case (1 u u')
      have "s = u \<and> map effect_shape (ore_effects r1) = map effect_shape (ore_effects r2)"
        by (rule release_fold_arrival [OF sel one(4)]) (use 1(4) assms(1,2) in simp_all)
      then show ?case using one(3,5) 1(3,5) filter_arrival_mset [OF assms(5), of "\<lambda>t. m \<le> t"] by simp
    qed
  qed
qed

text \<open>Admitting a list of timestamped inputs at the next positions.\<close>

definition admit_input :: "int \<times> flow_record \<Rightarrow> ordered_runtime \<Rightarrow> ordered_runtime res" where
  "admit_input a rt = rbind (ordered_process rt (or_next rt) (fst a) (snd a)) (\<lambda>(rt, _). Inr rt)"

lemma admit_inputs_Inr:
  assumes "fold_res admit_input xs rt = Inr rt'" "ordered_core rt"
  shows "ordered_core rt' \<and> or_spec rt' = or_spec rt \<and> or_state rt' = or_state rt
    \<and> map arrival (or_buffer rt') = map arrival (or_buffer rt) @ xs"
  using assms
proof (induction xs arbitrary: rt)
  case (Cons x xs)
  obtain t r where x: "x = (t, r)" by (cases x)
  obtain rt1 a where rt1: "ordered_process rt (or_next rt) t r = Inr (rt1, a)" "fold_res admit_input xs rt1 = Inr rt'"
    using Cons.prems(1) by (auto simp: admit_input_def [of "(t, r)"] x)
  have w: "window_fold_ok (or_spec rt)" using Cons.prems(2) by (simp add: ordered_core_def)
  have "ordered_core rt1" by (rule ordered_process_inv [OF rt1(1) Cons.prems(2)])
  with Cons.IH [OF rt1(2)] ordered_process_Inr [OF rt1(1) w] show ?case by (auto simp: x arrival_def)
qed simp

end
