(* ===== verification/Ordered_Recovery.thy ===== *)
theory Ordered_Recovery
  imports Ordered_Window_Laws
begin

text \<open>
  Checkpoints of the ordered window runtime: the document of a reachable runtime fits its
  96 MiB wire limit, is accepted by the reader, and restores the runtime.
\<close>

lemma read_ordered_limits_doc:
  "ordered_limits_ok l \<Longrightarrow> read_ordered_limits (ordered_limits_doc l) = Inr l"
  by (cases l) (simp add: ordered_limits_ok_def read_ordered_limits_def ordered_limits_doc_def doc_fields_def read_field_def
      doc_get_def lit_simps count_json_def count_def insert_commute)

definition pending_json :: "pending_input \<Rightarrow> json" where
  "pending_json p = entry_doc (pi_position p) (pi_timestamp p) (the (rec_key (pi_record p)))
     (projr (loads no_hooks (rec_json (pi_record p))))"

lemma pending_okD:
  assumes "pending_ok w p" "0 \<le> pi_position p" "pi_position p \<le> MAX_COUNT"
  shows "pending_doc p = Inr (pending_json p)" "jsort (pending_json p) = pending_json p" "jclean (pending_json p)"
    "byte_len (dumps (pending_json p)) = pi_bytes p"
proof -
  obtain k j where k: "rec_key (pi_record p) = Some k" "is_label k" and j: "rec_json (pi_record p) = dumps j" "snapshot_json j"
    and t: "\<bar>pi_timestamp p\<bar> \<le> MAX_COUNT" and b: "pi_bytes p = byte_len (dumps (entry_doc (pi_position p) (pi_timestamp p) k j))"
    using assms(1) by (auto simp: pending_ok_def)
  have l: "loads no_hooks (rec_json (pi_record p)) = Inr j" using loads_snapshot_json [OF j(2)] j(1) by simp
  have e: "pending_json p = entry_doc (pi_position p) (pi_timestamp p) k j" by (simp add: pending_json_def k l)
  show "pending_doc p = Inr (pending_json p)" by (simp only: pending_doc_def l rbind.simps k(1) option.case e)
  show "jsort (pending_json p) = pending_json p" unfolding e by (rule entry_doc_sorted [OF j(2)])
  show "byte_len (dumps (pending_json p)) = pi_bytes p" by (simp only: e b)
  have "jclean j" using j(2) jfits_jclean by (auto simp: snapshot_json_def)
  then show "jclean (pending_json p)"
    using t k(2) assms(2,3)
    by (simp add: e entry_doc_def lit_simps MAX_COUNT_def safe_int_def utf8_ok_def [of "_ # _"] is_scalar_def is_label_def)
qed

lemma read_pending_ok:
  assumes p: "pending_ok w p" and n: "0 \<le> pi_position p" "pi_position p < n" "n \<le> MAX_COUNT" "prev < pi_position p"
    and wm: "\<not> before_watermark s (pi_timestamp p)" and sz: "sz + pi_bytes p \<le> ol_bytes l"
    and w: "window_fold_ok w"
  shows "read_pending w l s n (pending_json p) (prev, sz, buf) = Inr (pi_position p, sz + pi_bytes p, buf @ [p])"
proof -
  obtain k j where k: "rec_key (pi_record p) = Some k" "is_label k" and j: "rec_json (pi_record p) = dumps j" "snapshot_json j"
    and len: "byte_len (dumps j) \<le> wl_input_bytes (wf_limits w)" and t: "\<bar>pi_timestamp p\<bar> \<le> MAX_COUNT"
    using p by (auto simp: pending_ok_def)
  have l: "loads no_hooks (rec_json (pi_record p)) = Inr j" using loads_snapshot_json [OF j(2)] j(1) by simp
  have e: "pending_json p = entry_doc (pi_position p) (pi_timestamp p) k j" by (simp add: pending_json_def k l)
  note d = pending_okD [OF p n(1)]
  have n': "pi_position p \<le> MAX_COUNT" using n by simp
  obtain kvs where f: "doc_fields [''position'', ''timestamp'', ''key'', ''value''] (entry_doc (pi_position p) (pi_timestamp p) k j) = Inr kvs"
    "doc_get kvs ''position'' = Inr (JInt (pi_position p))" "doc_get kvs ''timestamp'' = Inr (JInt (pi_timestamp p))"
    "doc_get kvs ''key'' = Inr (JStr k)" "doc_get kvs ''value'' = Inr j"
    by (simp add: entry_doc_def doc_fields_def doc_get_def lit_simps insert_commute)
  have c: "count_json (JInt (pi_position p)) 0 MAX_COUNT = Inr (pi_position p)" using n n' by simp
  have tk: "read_tick (JInt (pi_timestamp p)) = Inr (pi_timestamp p)" using t by (simp add: read_tick_def read_int_def abs_le_iff)
  have len8: "byte_len (dumps j) \<le> MAX_RECORD"
    using len w by (simp add: window_fold_ok_def window_limits_ok_def window_ceilings_def MAX_RECORD_def)
  have r: "make_record (py_of_json j) (Some k) = Inr (pi_record p)"
    using k j len8 by (cases "pi_record p") (simp add: make_record_def snapshot_complete key_def label_is_label)
  have cv: "checked_value (rec_json (pi_record p)) (wl_input_bytes (wf_limits w)) = Inr (rec_json (pi_record p))"
    using j len by (auto simp: checked_value_iff canonical_iff)
  have es: "entry_size (entry_doc (pi_position p) (pi_timestamp p) k j) (ol_bytes l - sz) = Inr (pi_bytes p)"
    using encode_json_clean [OF d(3) d(2), of "ol_bytes l - sz"] d(4) n' sz by (simp add: entry_size_def e)
  show ?thesis
    unfolding read_pending_def Let_def prod.case e f rbind.simps read_field_def c tk r cv es
    using n wm by (simp add: read_str_def r cv es)
qed

lemma fold_read_pending:
  assumes "\<And>p. p \<in> set ps \<Longrightarrow> pending_ok w p \<and> 0 \<le> pi_position p \<and> pi_position p < n \<and> \<not> before_watermark s (pi_timestamp p)"
    and "sorted_wrt (<) (map pi_position ps)" "\<And>p. p \<in> set ps \<Longrightarrow> prev < pi_position p"
    and "sz + (\<Sum>p\<leftarrow>ps. pi_bytes p) \<le> ol_bytes l" "n \<le> MAX_COUNT" "window_fold_ok w"
  shows "\<exists>q. fold_res (read_pending w l s n) (map pending_json ps) (prev, sz, buf)
    = Inr (q, sz + (\<Sum>p\<leftarrow>ps. pi_bytes p), buf @ ps)"
  using assms(1-4)
proof (induction ps arbitrary: prev sz buf)
  case (Cons p ps)
  have nn: "0 \<le> (\<Sum>p\<leftarrow>ps. pi_bytes p)" using Cons.prems(1) pending_bytes_nonneg by (intro sum_list_nonneg) auto
  have "read_pending w l s n (pending_json p) (prev, sz, buf) = Inr (pi_position p, sz + pi_bytes p, buf @ [p])"
    by (rule read_pending_ok) (use Cons.prems nn assms(5,6) in auto)
  moreover have "\<exists>q. fold_res (read_pending w l s n) (map pending_json ps) (pi_position p, sz + pi_bytes p, buf @ [p])
      = Inr (q, (sz + pi_bytes p) + (\<Sum>p\<leftarrow>ps. pi_bytes p), (buf @ [p]) @ ps)"
    by (rule Cons.IH) (use Cons.prems in \<open>auto simp: add.assoc\<close>)
  ultimately show ?case by (simp add: add.assoc)
qed simp

section \<open>The document\<close>

definition ordered_body :: "ordered_runtime \<Rightarrow> json" where
  "ordered_body rt = JObj
     [jfield ''buffer'' (JArr (map pending_json (or_buffer rt))),
      jfield ''fold_identity'' (JStr (sha256_hex (dumps (window_configuration (or_spec rt))))),
      jfield ''kind'' (JStr ordered_kind), jfield ''limits'' (ordered_limits_doc (or_limits rt)),
      jfield ''next_position'' (JInt (or_next rt)), jfield ''version'' (JStr (lit ''1.0'')),
      jfield ''window'' (window_document (or_spec rt) (or_state rt))]"

definition ordered_document :: "ordered_runtime \<Rightarrow> json" where
  "ordered_document rt = JObj [jfield ''body'' (ordered_body rt), jfield ''sha256'' (JStr (sha256_hex (dumps (ordered_body rt))))]"

lemma ordered_core_next: "ordered_core rt \<Longrightarrow> 0 \<le> or_next rt \<and> or_next rt \<le> MAX_COUNT"
  by (auto simp: ordered_core_def wstate_inv_def wcounters_ok_def window_fold_ok_def window_limits_ok_def window_ceilings_def)

lemma ordered_body_facts:
  assumes core: "ordered_core rt"
  shows "jclean (ordered_body rt)" "jsort (ordered_body rt) = ordered_body rt"
    "byte_len (dumps (ordered_body rt)) \<le> 90 * 1024 * 1024"
proof -
  have w: "window_fold_ok (or_spec rt)" and inv: "wstate_inv (or_spec rt) (or_state rt)" and l: "ordered_limits_ok (or_limits rt)"
    using core by (simp_all add: ordered_core_def)
  note nx = ordered_core_next [OF core]
  have p: "pending_ok (or_spec rt) p" "0 \<le> pi_position p" "pi_position p \<le> MAX_COUNT" if "p \<in> set (or_buffer rt)" for p
    using core nx that by (auto simp: ordered_core_def)
  note pd = pending_okD [OF p] and wd = window_document_facts [OF w inv]
  note hx = is_hex64_text [OF sha256_hex_is_hex64]
  define es where "es = JArr (map pending_json (or_buffer rt))"
  have es: "jclean es" "jsort es = es" unfolding es_def
    by (simp add: list_all_iff pd) (rule jsort_array, simp add: list_all_iff pd)
  have "byte_len (dumps es) \<le> 2 + (\<Sum>p\<leftarrow>or_buffer rt. byte_len (dumps (pending_json p)) + 1)"
    using byte_len_array [of "map pending_json (or_buffer rt)"] by (simp add: comp_def es_def)
  also have "(\<Sum>p\<leftarrow>or_buffer rt. byte_len (dumps (pending_json p)) + 1) = (\<Sum>p\<leftarrow>or_buffer rt. pi_bytes p + 1)"
    by (intro arg_cong [where f = sum_list] map_cong) (simp_all add: pd)
  also have "\<dots> = or_bytes rt + int (length (or_buffer rt))"
    using core by (simp add: sum_list_addf sum_list_triv ordered_core_def)
  finally have esb: "byte_len (dumps es) \<le> 16 * 1024 * 1024 + 1002"
    using core l by (simp add: ordered_core_def ordered_limits_ok_def MAX_BUFFER_BYTES_def MAX_BUFFER_RECORDS_def)
  have b: "\<bar>ol_bytes (or_limits rt)\<bar> \<le> MAX_COUNT" "\<bar>ol_records (or_limits rt)\<bar> \<le> MAX_COUNT" "\<bar>or_next rt\<bar> \<le> MAX_COUNT"
    using l nx by (simp_all add: ordered_limits_ok_def MAX_BUFFER_BYTES_def MAX_BUFFER_RECORDS_def MAX_COUNT_def)
  define ld where "ld = ordered_limits_doc (or_limits rt)"
  have ld: "jclean ld" "jsort ld = ld" "byte_len (dumps ld) \<le> 200"
  proof -
    show "jclean ld" using b by (simp add: ld_def ordered_limits_doc_def lit_simps MAX_COUNT_def safe_int_def utf8_ok_def is_scalar_def)
    show "jsort ld = ld" unfolding ld_def ordered_limits_doc_def by (rule jsort_object) (simp_all add: lit_simps)
    show "byte_len (dumps ld) \<le> 200" unfolding ld_def ordered_limits_doc_def
      by (rule order_trans [OF byte_len_object])
        (use byte_len_int_str [OF b(1)] byte_len_int_str [OF b(2)] in \<open>simp add: text_simps\<close>)
  qed
  have kind: "byte_len (dump_str ordered_kind) = 40" "utf8_ok ordered_kind"
    by (simp_all add: ordered_kind_def text_simps utf8_ok_def is_scalar_def)
  define wj where "wj = window_document (or_spec rt) (or_state rt)"
  have wj: "jclean wj" "jsort wj = wj" "byte_len (dumps wj) \<le> 66 * 1024 * 1024"
    using jfits_jclean [OF wd(3)] wd(4,5) by (simp_all add: wj_def MAX_WIRE_def)
  define i where "i = sha256_hex (dumps (window_configuration (or_spec rt)))"
  have body: "ordered_body rt = JObj [jfield ''buffer'' es, jfield ''fold_identity'' (JStr i),
      jfield ''kind'' (JStr ordered_kind), jfield ''limits'' ld, jfield ''next_position'' (JInt (or_next rt)),
      jfield ''version'' (JStr (lit ''1.0'')), jfield ''window'' wj]"
    by (simp only: ordered_body_def es_def i_def ld_def wj_def)
  have i: "utf8_ok i" "byte_len (dump_str i) \<le> 386" using hx by (simp_all add: i_def)
  show "jclean (ordered_body rt)"
    unfolding body using es ld kind wj i b by (simp add: lit_simps MAX_COUNT_def safe_int_def utf8_ok_def [of "_ # _"] is_scalar_def)
  show "jsort (ordered_body rt) = ordered_body rt"
    unfolding body by (rule jsort_object) (simp_all add: lit_simps es(2) ld(2) wj(2))
  show "byte_len (dumps (ordered_body rt)) \<le> 90 * 1024 * 1024"
    unfolding body
    by (rule order_trans [OF byte_len_object])
      (use esb i(2) kind(1) ld(3) wj(3) byte_len_int_str [OF b(3)] in
        \<open>simp add: text_simps(1,2) del: dumps.simps(6,7), simp add: text_simps\<close>)
qed

lemma ordered_document_facts:
  assumes core: "ordered_core rt"
  shows "encode_json (ordered_body rt) MAX_ORDERED_BYTES = Inr (dumps (ordered_body rt))"
    "jclean (ordered_document rt)" "jsort (ordered_document rt) = ordered_document rt"
    "byte_len (dumps (ordered_document rt)) \<le> MAX_ORDERED_BYTES"
    "encode_json (ordered_document rt) MAX_ORDERED_BYTES = Inr (dumps (ordered_document rt))"
proof -
  note b = ordered_body_facts [OF core] and hx = is_hex64_text [OF sha256_hex_is_hex64]
  show "encode_json (ordered_body rt) MAX_ORDERED_BYTES = Inr (dumps (ordered_body rt))"
    by (rule encode_json_clean [OF b(1,2)]) (use b(3) in \<open>simp add: MAX_ORDERED_BYTES_def\<close>)
  show c: "jclean (ordered_document rt)"
    unfolding ordered_document_def using b(1) hx by (simp add: lit_simps utf8_ok_def [of "_ # _"] is_scalar_def)
  show s: "jsort (ordered_document rt) = ordered_document rt"
    unfolding ordered_document_def by (rule jsort_object) (simp_all add: lit_simps b(2))
  have "byte_len (dumps (ordered_document rt)) \<le> byte_len (dumps (ordered_body rt)) + 500"
    unfolding ordered_document_def
    by (rule order_trans [OF byte_len_object]) (use hx [of "dumps (ordered_body rt)"] in \<open>simp add: text_simps\<close>)
  then show l: "byte_len (dumps (ordered_document rt)) \<le> MAX_ORDERED_BYTES"
    using b(3) by (simp add: MAX_ORDERED_BYTES_def)
  show "encode_json (ordered_document rt) MAX_ORDERED_BYTES = Inr (dumps (ordered_document rt))"
    by (rule encode_json_clean [OF c s l])
qed

lemma read_ordered_document:
  assumes core: "ordered_core rt"
    and sup: "spec = None \<and> lim = None \<or> spec = Some (or_spec rt) \<and> lim = Some (or_limits rt)"
  shows "read_ordered (ordered_document rt) spec lim
    = Inr (or_limits rt, sorted_state (or_state rt), or_next rt, or_buffer rt, or_bytes rt, dumps (ordered_document rt))"
proof -
  have w: "window_fold_ok (or_spec rt)" and inv: "wstate_inv (or_spec rt) (or_state rt)" and l: "ordered_limits_ok (or_limits rt)"
    and late: "\<not> wf_drop_late (or_spec rt)"
    using core by (simp_all add: ordered_core_def)
  note nx = ordered_core_next [OF core] and d = ordered_document_facts [OF core]
  define i where "i = sha256_hex (dumps (window_configuration (or_spec rt)))"
  obtain v where v: "v = or_spec rt \<and> spec = Some (or_spec rt) \<or> v = inert (or_spec rt) \<and> spec = None"
    and vl: "wf_limits v = wf_limits (or_spec rt)" "\<not> wf_drop_late v" "window_identity v = Inr i"
      "read_pending v = read_pending (or_spec rt)"
  proof (cases spec)
    case None
    have "read_pending (inert (or_spec rt)) = read_pending (or_spec rt)"
      by (intro ext) (simp only: read_pending_def inert_simps)
    then show ?thesis using that [of "inert (or_spec rt)"] late identity_ok [OF w] None by (simp add: i_def)
  next
    case (Some x)
    then show ?thesis using that [of "or_spec rt"] sup late identity_ok [OF w] by (simp add: i_def)
  qed
  note vd = validate_document [OF w inv v]
  obtain kvs where k: "doc_fields [''body'', ''sha256''] (ordered_document rt) = Inr kvs"
    "doc_get kvs ''body'' = Inr (ordered_body rt)" "doc_get kvs ''sha256'' = Inr (JStr (sha256_hex (dumps (ordered_body rt))))"
    by (simp add: ordered_document_def doc_fields_def doc_get_def lit_simps insert_commute)
  obtain body where b: "doc_fields [''kind'', ''version'', ''fold_identity'', ''limits'', ''next_position'', ''window'', ''buffer'']
       (ordered_body rt) = Inr body"
    "doc_get body ''kind'' = Inr (JStr ordered_kind)" "doc_get body ''version'' = Inr (JStr (lit ''1.0''))"
    "doc_get body ''fold_identity'' = Inr (JStr i)" "doc_get body ''limits'' = Inr (ordered_limits_doc (or_limits rt))"
    "doc_get body ''next_position'' = Inr (JInt (or_next rt))"
    "doc_get body ''window'' = Inr (window_document (or_spec rt) (or_state rt))"
    "doc_get body ''buffer'' = Inr (JArr (map pending_json (or_buffer rt)))"
    by (simp add: ordered_body_def i_def doc_fields_def doc_get_def lit_simps insert_commute)
  have wm: "before_watermark (sorted_state s) t = before_watermark s t" for s t
    by (simp add: before_watermark_def sorted_state_def)
  have "\<exists>q. fold_res (read_pending (or_spec rt) (or_limits rt) (sorted_state (or_state rt)) (or_next rt))
      (map pending_json (or_buffer rt)) (-1, 0, []) = Inr (q, 0 + (\<Sum>p\<leftarrow>or_buffer rt. pi_bytes p), [] @ or_buffer rt)"
    by (rule fold_read_pending) (use core nx w in \<open>auto simp: ordered_core_def wm\<close>)
  then obtain q where fold: "fold_res (read_pending (or_spec rt) (or_limits rt) (sorted_state (or_state rt)) (or_next rt))
      (map pending_json (or_buffer rt)) (-1, 0, []) = Inr (q, or_bytes rt, or_buffer rt)"
    using core by (auto simp: ordered_core_def)
  have hex: "read_hex (JStr (sha256_hex t)) = Inr (sha256_hex t)" for t
    by (simp add: read_hex_def read_str_def sha256_hex_is_hex64)
  have cn: "count_json (JInt (or_next rt)) 0 MAX_COUNT = Inr (or_next rt)" using nx by simp
  have same: "(case lim of None \<Rightarrow> False | Some m \<Rightarrow> m \<noteq> or_limits rt) = False" using sup by auto
  have st: "w_finished (sorted_state (or_state rt)) = w_finished (or_state rt)"
    "w_processed (sorted_state (or_state rt)) = w_processed (or_state rt)" by (simp_all add: sorted_state_def)
  have sizes: "\<not> ol_records (or_limits rt) < int (length (or_buffer rt))"
    "\<not> (w_finished (or_state rt) \<and> or_buffer rt \<noteq> [])"
    "w_processed (or_state rt) + int (length (or_buffer rt)) = or_next rt"
    "\<not> wl_inputs (wf_limits (or_spec rt)) < or_next rt"
    using core by (auto simp: ordered_core_def)
  show ?thesis
    unfolding read_ordered_def read_field_def k rbind.simps hex b hex [of "dumps (window_configuration (or_spec rt))", folded i_def]
      read_const_def read_ordered_limits_doc [OF l] same cn vd prod.case vl read_list_id d
    using sizes by (simp add: fold st vl d read_list_id read_ordered_limits_doc [OF l] same cn vd)
qed

lemma ordered_checkpoint_eq:
  assumes "ordered_inv rt"
  shows "ordered_checkpoint_of rt = Inr (dumps (ordered_document rt))"
proof -
  have core: "ordered_core rt" and nb: "\<not> or_busy rt" using assms by (simp_all add: ordered_inv_def)
  have w: "window_fold_ok (or_spec rt)" and inv: "wstate_inv (or_spec rt) (or_state rt)"
    using core by (simp_all add: ordered_core_def)
  have entries: "map_res pending_doc (or_buffer rt) = Inr (map pending_json (or_buffer rt))"
  proof (rule map_res_all_Inr)
    fix p assume "p \<in> set (or_buffer rt)"
    then show "pending_doc p = Inr (pending_json p)"
      using core ordered_core_next [OF core] by (intro pending_okD(1) [of "or_spec rt"]) (auto simp: ordered_core_def)
  qed
  have make: "make_ordered_checkpoint (ordered_document rt) = Inr (dumps (ordered_document rt))"
    using read_ordered_document [OF core, of None None] by (simp add: make_ordered_checkpoint_def)
  define wd where "wd = window_document (or_spec rt) (or_state rt)"
  have wd: "JObj [jfield ''body'' (body_doc (or_spec rt) (or_state rt) (sha256_hex (dumps (window_configuration (or_spec rt))))),
      jfield ''sha256'' (JStr (sha256_hex (dumps (body_doc (or_spec rt) (or_state rt) (sha256_hex (dumps (window_configuration (or_spec rt))))))))] = wd"
    by (simp only: wd_def window_document_def Let_def)
  show ?thesis
    unfolding ordered_checkpoint_of_def window_body_eq [OF w inv] rbind.simps window_document_facts(1) [OF w inv] wd
      make_window_document [OF w inv, folded wd_def] identity_ok [OF w] window_checkpoint_dict [OF w inv, folded wd_def] entries Let_def
      ordered_document_facts(1) [OF core, unfolded ordered_body_def, folded wd_def]
    using nb make [unfolded ordered_document_def ordered_body_def, folded wd_def]
    by (simp only: if_False rbind.simps ordered_document_def ordered_body_def wd_def)
qed

lemma ordered_restore_eq:
  assumes "ordered_inv rt"
  shows "ordered_from_checkpoint (or_spec rt) (dumps (ordered_document rt)) (Some (or_limits rt))
    = Inr (rt\<lparr>or_state := sorted_state (or_state rt)\<rparr>)"
proof -
  have core: "ordered_core rt" and nb: "\<not> or_busy rt" using assms by (simp_all add: ordered_inv_def)
  note d = ordered_document_facts [OF core]
  have make: "make_ordered_runtime (or_spec rt) (Some (or_limits rt)) = Inr \<lparr>or_spec = or_spec rt, or_limits = or_limits rt,
      or_state = empty_wstate, or_buffer = [], or_bytes = 0, or_next = 0, or_busy = False\<rparr>"
    using core by (simp add: make_ordered_runtime_def ordered_core_def)
  have dict: "ordered_checkpoint_to_dict (dumps (ordered_document rt)) = Inr (ordered_document rt)"
    using d(4) jclean_utf8 [OF d(2)] load_json_clean [OF d(2)] read_ordered_document [OF core, of None None]
    by (simp add: ordered_checkpoint_to_dict_def bounded_text_iff make_ordered_checkpoint_def)
  show ?thesis
    unfolding ordered_from_checkpoint_def make rbind.simps dict
    using read_ordered_document [OF core, of "Some (or_spec rt)" "Some (or_limits rt)"] nb
    by (cases rt) simp
qed

end
