(* ===== verification/Ordered_Properties.thy ===== *)
theory Ordered_Properties
  imports Ordered_Recovery Window_Properties
begin

text \<open>
  The properties of the ordered window runtime, with a sample on which every hypothesis is met:
  two inputs of one key at 7 and 12, admitted in both orders, and a watermark at 10.
\<close>

section \<open>A sample runtime\<close>

definition sample_ordered_rt :: ordered_runtime where
  "sample_ordered_rt = \<lparr>or_spec = sample_fold, or_limits = default_ordered_limits, or_state = empty_wstate, or_buffer = [],
     or_bytes = 0, or_next = 0, or_busy = False\<rparr>"

lemma sample_ordered_inv: "ordered_inv sample_ordered_rt"
  by (rule make_ordered_runtime_inv [of sample_fold None])
    (simp add: make_ordered_runtime_def sample_fold_ok sample_ordered_rt_def Let_def ordered_limits_ok_def
      default_ordered_limits_def MAX_BUFFER_BYTES_def MAX_BUFFER_RECORDS_def, simp add: sample_fold_def)

definition sample_pending :: "int \<Rightarrow> int \<Rightarrow> pending_input" where
  "sample_pending n t = \<lparr>pi_position = n, pi_timestamp = t, pi_record = sample_record 107,
     pi_bytes = (if t = 7 then 48 else 49)\<rparr>"

definition sample_buffered :: "pending_input list \<Rightarrow> ordered_runtime" where
  "sample_buffered ps = sample_ordered_rt\<lparr>or_buffer := ps, or_bytes := (\<Sum>p\<leftarrow>ps. pi_bytes p), or_next := int (length ps)\<rparr>"

lemma sample_digits: "int_str 0 = [48]" "int_str 1 = [49]" "int_str 7 = [55]" "int_str 12 = [49, 50]"
  by (simp_all add: int_str_def nat_str.simps)

lemma sample_entry_size:
  assumes "n = 0 \<or> n = 1" "t = 7 \<or> t = 12" "49 \<le> m"
  shows "entry_size (entry_doc n t [107] (JInt 1)) m = Inr (if t = 7 then 48 else 49)"
  using assms by (auto simp: entry_size_def entry_doc_def encode_json_def Let_def text_simps sample_digits
      utf8_ok_def is_scalar_def)

lemma sample_entry:
  "pending_doc \<lparr>pi_position = n, pi_timestamp = t, pi_record = sample_record 107, pi_bytes = b\<rparr> = Inr (entry_doc n t [107] (JInt 1))"
  by (simp add: pending_doc_def sample_record_def loads_digits)

lemma sample_admit:
  assumes "ps = [] \<or> ps = [sample_pending 0 u]" "t = 7 \<or> t = 12" "u = 7 \<or> u = 12"
  shows "admit_input (t, sample_record 107) (sample_buffered ps)
      = Inr (sample_buffered (ps @ [sample_pending (int (length ps)) t]))"
proof -
  have st: "status_of empty_wstate = Inr (the_status empty_wstate)"
    by (rule wstate_inv_status [OF sample_fold_ok sample_state_inv])
  have ws: "window_status_check (the_status empty_wstate) = Inr (the_status empty_wstate)"
    using st by (simp add: status_of_def the_status_def Let_def)
  have ph: "ws_phase (the_status empty_wstate) = WOpen" by (simp add: phase_open) (simp add: pending_cells_def empty_wstate_def)
  have cv: "checked_value [49] 1048576 = Inr [49]"
    by (simp add: checked_value_iff canonical_digits byte_len_Cons utf8_char_def)
  have l: "wf_limits sample_fold = default_window_limits" by (simp add: sample_fold_def)
  have r: "make_record (PInt 1) (Some [107]) = Inr (sample_record 107)"
    by (simp add: make_record_def key_def label_is_label is_label_char snapshot_digits sample_record_def MAX_RECORD_def)
  have sr: "rec_key (sample_record 107) = Some [107]" "rec_json (sample_record 107) = [49]"
    by (simp_all add: sample_record_def)
  have bw: "before_watermark empty_wstate x = False" for x by (simp add: before_watermark_def empty_wstate_def)
  show ?thesis
    using assms
    by (auto simp: admit_input_def ordered_process_def check_prefix_def sample_buffered_def sample_ordered_rt_def st ph
        count_def tick_def MAX_COUNT_def bw sr l default_window_limits_def
        cv loads_digits r sample_entry sample_entry_size default_ordered_limits_def MAX_BUFFER_RECORDS_def MAX_BUFFER_BYTES_def
        Let_def status_for_def ordered_status_check_def ordered_admission_check_def ws sample_pending_def)
qed

definition sample_advanced :: wstate where
  "sample_advanced = sample_folded\<lparr>w_watermark := Some 10\<rparr>"

lemma sample_advance:
  assumes "filter (\<lambda>p. pi_timestamp p < 10) ps = [sample_pending n 7]" "0 \<le> n" "n \<le> 1"
    and "filter (\<lambda>p. 10 \<le> pi_timestamp p) ps = [sample_pending n' 12]" "length ps = 2"
  shows "\<exists>r. ordered_advance (sample_buffered ps) 10 2
    = Inr ((sample_buffered ps)\<lparr>or_state := sample_advanced, or_buffer := [sample_pending n' 12], or_bytes := 49\<rparr>, r)"
proof -
  have st: "status_of empty_wstate = Inr (the_status empty_wstate)"
    by (rule wstate_inv_status [OF sample_fold_ok sample_state_inv])
  have ph: "ws_phase (the_status empty_wstate) = WOpen" by (simp add: phase_open) (simp add: pending_cells_def empty_wstate_def)
  have st1: "status_of sample_folded = Inr (the_status sample_folded)"
    by (rule wstate_inv_status [OF sample_fold_ok sample_folded_inv])
  have ph1: "ws_phase (the_status sample_folded) = WOpen"
    by (simp add: phase_open) (simp add: pending_cells_def eligible_def sample_folded_def)
  have inv2: "wstate_inv sample_fold sample_advanced"
    using sample_folded_inv by (simp add: sample_advanced_def wstate_inv_def wcounters_ok_def MAX_COUNT_def)
  have st2: "status_of sample_advanced = Inr (the_status sample_advanced)"
    by (rule wstate_inv_status [OF sample_fold_ok inv2])
  have ws2: "window_status_check (the_status sample_advanced) = Inr (the_status sample_advanced)"
    using st2 by (simp add: status_of_def the_status_def Let_def)
  have bw: "before_watermark empty_wstate x = False" "before_watermark sample_folded x = False" for x
    by (simp_all add: before_watermark_def empty_wstate_def sample_folded_def)
  have sp: "pi_timestamp (sample_pending n 7) = 7" "pi_record (sample_pending n 7) = sample_record 107"
    "pi_position (sample_pending n 7) = n" "pi_bytes (sample_pending n' 12) = 49" by (simp_all add: sample_pending_def)
  have one: "release_one sample_fold (sample_pending n 7) (empty_wstate, [])
      = Inr (sample_folded, [\<lparr>oe_position = n, oe_timestamp = 7, oe_outcome = WFolded, oe_memberships = 2\<rparr>])"
    using assms(2,3) unfolding release_one_def fst_conv snd_conv sp sample_fold_stage
    by (simp add: sample_result_def ordered_effect_check_def count_def tick_def MAX_COUNT_def)
  have adv: "stage_advance sample_folded 10 = Inr (sample_advanced, the_status sample_advanced)"
    using st2 by (simp add: stage_advance_def st1 ph1 bw Let_def tick_def count_def MAX_COUNT_def sample_advanced_def)
  show ?thesis
    using assms
    by (auto simp: ordered_advance_def check_prefix_def sample_buffered_def sample_ordered_rt_def count_def tick_def MAX_COUNT_def st ph bw
        release_inputs_def release_order_def one adv Let_def status_for_def st2 ordered_status_check_def ws2 sp
        ordered_release_check_def ordered_effect_check_def MAX_BUFFER_RECORDS_def MAX_BUFFER_BYTES_def)
qed

section \<open>Properties\<close>

text \<open>C25: whatever operations are called, the runtime stays consistent: the buffer holds keyed,
  admissible inputs at or after the watermark, in position order, within its record and byte
  limits; its byte total is exact; and the inputs processed by the fold together with the
  buffered ones are exactly the admitted source prefix.\<close>
theorem ordered_state_exact:
  assumes "ordered_inv rt"
  shows "ordered_inv (snd (run_ops ordered_apply ops rt))
    \<and> w_processed (or_state (snd (run_ops ordered_apply ops rt))) + int (length (or_buffer (snd (run_ops ordered_apply ops rt))))
        = or_next (snd (run_ops ordered_apply ops rt))"
  using ordered.run_inv [OF assms, of ops] by (simp add: list_all_iff ordered_inv_def ordered_core_def)

theorem ordered_state_exact_witness:
  "ordered_inv (snd (run_ops ordered_apply [OProcess 0 7 (sample_record 107), OAdvance 10 1] sample_ordered_rt))
    \<and> w_processed (or_state (snd (run_ops ordered_apply [OProcess 0 7 (sample_record 107), OAdvance 10 1] sample_ordered_rt)))
        + int (length (or_buffer (snd (run_ops ordered_apply [OProcess 0 7 (sample_record 107), OAdvance 10 1] sample_ordered_rt))))
      = or_next (snd (run_ops ordered_apply [OProcess 0 7 (sample_record 107), OAdvance 10 1] sample_ordered_rt))"
  by (rule ordered_state_exact) (rule sample_ordered_inv)

text \<open>C26: the ordered runtime refines the arrival-ordered one: the fold state after any run,
  failures included, is that of \<open>WindowFoldRuntime\<close> on the released inputs, the watermarks and
  the drains, in which no call fails and the inputs come in timestamp order over the whole run.\<close>
theorem ordered_run_refines:
  assumes "ordered_inv rt"
  shows "(\<exists>rs. run_ops window_apply (ordered_trace ops rt) (window_of (or_spec rt) (or_state rt))
        = (rs, window_of (or_spec rt) (or_state (snd (run_ops ordered_apply ops rt)))) \<and> list_all succeeded rs)
    \<and> sorted (input_times (ordered_trace ops rt))"
  using ordered_run_trace [OF assms] by blast

theorem ordered_run_refines_witness:
  "(\<exists>rs. run_ops window_apply (ordered_trace [OProcess 0 7 (sample_record 107), OAdvance 10 1, ODrain 1] sample_ordered_rt)
          (window_of sample_fold empty_wstate)
        = (rs, window_of sample_fold (or_state (snd (run_ops ordered_apply
             [OProcess 0 7 (sample_record 107), OAdvance 10 1, ODrain 1] sample_ordered_rt)))) \<and> list_all succeeded rs)
    \<and> sorted (input_times (ordered_trace [OProcess 0 7 (sample_record 107), OAdvance 10 1, ODrain 1] sample_ordered_rt))"
  using ordered_run_refines [OF sample_ordered_inv, of "[OProcess 0 7 (sample_record 107), OAdvance 10 1, ODrain 1]"]
  by (simp add: sample_ordered_rt_def)

text \<open>C27: the order of arrival does not matter: when the same timestamped inputs are admitted in
  another order and all timestamps differ, the next watermark releases the same inputs with the
  same effects, reaches the same fold state and keeps the same inputs.\<close>
theorem ordered_arrival_insensitive:
  assumes "ordered_inv rt" "mset xs = mset ys" "distinct (map pi_timestamp (or_buffer rt) @ map fst xs)"
    and "fold_res admit_input xs rt = Inr rt1" "fold_res admit_input ys rt = Inr rt2"
    and "ordered_advance rt1 m (or_next rt1) = Inr (rt1', r1)" "ordered_advance rt2 m (or_next rt2) = Inr (rt2', r2)"
  shows "or_state rt1' = or_state rt2' \<and> map effect_shape (ore_effects r1) = map effect_shape (ore_effects r2)
    \<and> mset (map arrival (or_buffer rt1')) = mset (map arrival (or_buffer rt2'))"
proof -
  have core: "ordered_core rt" using assms(1) by (simp add: ordered_inv_def)
  note a = admit_inputs_Inr [OF assms(4) core] and b = admit_inputs_Inr [OF assms(5) core]
  have "map pi_timestamp (or_buffer rt1) = map fst (map arrival (or_buffer rt1))" by (simp add: arrival_def)
  then have d: "map pi_timestamp (or_buffer rt1) = map pi_timestamp (or_buffer rt) @ map fst xs"
    using a by (simp add: arrival_def)
  show ?thesis
    by (rule ordered_advance_arrival [OF _ _ _ _ _ _ assms(6,7)]) (use a b d assms(2,3) in simp_all)
qed

theorem ordered_arrival_insensitive_witness:
  "\<exists>rt1 rt2 rt1' rt2' r1 r2.
     fold_res admit_input [(7, sample_record 107), (12, sample_record 107)] sample_ordered_rt = Inr rt1
     \<and> fold_res admit_input [(12, sample_record 107), (7, sample_record 107)] sample_ordered_rt = Inr rt2
     \<and> ordered_advance rt1 10 (or_next rt1) = Inr (rt1', r1) \<and> ordered_advance rt2 10 (or_next rt2) = Inr (rt2', r2)
     \<and> or_state rt1' = or_state rt2' \<and> map effect_shape (ore_effects r1) = map effect_shape (ore_effects r2)
     \<and> mset (map arrival (or_buffer rt1')) = mset (map arrival (or_buffer rt2'))"
proof -
  have s0: "sample_ordered_rt = sample_buffered []" by (simp add: sample_buffered_def sample_ordered_rt_def)
  have nx: "or_next (sample_buffered ps) = int (length ps)" for ps by (simp add: sample_buffered_def)
  have a: "fold_res admit_input [(7, sample_record 107), (12, sample_record 107)] sample_ordered_rt
      = Inr (sample_buffered [sample_pending 0 7, sample_pending 1 12])"
    using sample_admit [of "[]" 7 7] sample_admit [of "[sample_pending 0 7]" 7 12] by (simp add: s0)
  have b: "fold_res admit_input [(12, sample_record 107), (7, sample_record 107)] sample_ordered_rt
      = Inr (sample_buffered [sample_pending 0 12, sample_pending 1 7])"
    using sample_admit [of "[]" 7 12] sample_admit [of "[sample_pending 0 12]" 12 7] by (simp add: s0)
  obtain r1 rt1' where r1: "ordered_advance (sample_buffered [sample_pending 0 7, sample_pending 1 12]) 10 2 = Inr (rt1', r1)"
    using sample_advance [of "[sample_pending 0 7, sample_pending 1 12]" 0 1] by (auto simp: sample_pending_def)
  obtain r2 rt2' where r2: "ordered_advance (sample_buffered [sample_pending 0 12, sample_pending 1 7]) 10 2 = Inr (rt2', r2)"
    using sample_advance [of "[sample_pending 0 12, sample_pending 1 7]" 1 0] by (auto simp: sample_pending_def)
  have n: "or_next (sample_buffered [sample_pending 0 7, sample_pending 1 12]) = 2"
    "or_next (sample_buffered [sample_pending 0 12, sample_pending 1 7]) = 2" by (simp_all add: nx)
  have d: "distinct (map pi_timestamp (or_buffer sample_ordered_rt) @ map fst [(7, sample_record 107), (12, sample_record 107)])"
    by (simp add: sample_ordered_rt_def)
  have m: "mset [(7, sample_record 107), (12, sample_record 107)] = mset [(12, sample_record 107), (7, sample_record 107)]" by simp
  show ?thesis
    using a b r1 [folded n(1)] r2 [folded n(2)]
      ordered_arrival_insensitive [OF sample_ordered_inv m d a b r1 [folded n(1)] r2 [folded n(2)]]
    by blast
qed

text \<open>C28: a checkpoint of a reachable runtime always succeeds: its text, with the nested window
  checkpoint and the buffered inputs, is within 96 MiB, and restoring it gives the same runtime
  with its cells in order.\<close>
theorem ordered_checkpoint_roundtrip:
  assumes "ordered_inv rt"
  shows "\<exists>t. ordered_checkpoint_of rt = Inr t \<and> byte_len t \<le> MAX_ORDERED_BYTES
    \<and> ordered_from_checkpoint (or_spec rt) t (Some (or_limits rt))
        = Inr (rt\<lparr>or_state := (or_state rt)\<lparr>w_cells := sort_key fst (w_cells (or_state rt))\<rparr>\<rparr>)"
  using ordered_checkpoint_eq [OF assms] ordered_restore_eq [OF assms] ordered_document_facts(4) [of rt] assms
  by (simp add: sorted_state_def ordered_inv_def)

theorem ordered_checkpoint_roundtrip_witness:
  "\<exists>t. ordered_checkpoint_of sample_ordered_rt = Inr t \<and> byte_len t \<le> MAX_ORDERED_BYTES
    \<and> ordered_from_checkpoint (or_spec sample_ordered_rt) t (Some (or_limits sample_ordered_rt))
        = Inr (sample_ordered_rt\<lparr>or_state := (or_state sample_ordered_rt)
            \<lparr>w_cells := sort_key fst (w_cells (or_state sample_ordered_rt))\<rparr>\<rparr>)"
  by (rule ordered_checkpoint_roundtrip) (rule sample_ordered_inv)

end
