(* ===== verification/Events.thy ===== *)
theory Events
  imports Flow_Values
begin

text \<open>
  The event-time model of \<open>models.py\<close>: events, clock corrections, the alignment
  configuration, the retention policy and aligned windows, each with the validation of its
  constructor. Times are IEEE doubles. A constructor normalises its arguments; what it
  returns passes it again unchanged.
\<close>

section \<open>Collections of labels and numbers\<close>

definition label_tuple :: "pystr list \<Rightarrow> nat \<Rightarrow> pystr list res" where
  "label_tuple xs maximum =
     (if maximum < length xs then Inl ValidationError
      else rbind (map_res (\<lambda>s. label (PStr s)) xs) (\<lambda>labels.
             if \<not> distinct labels then Inl ValidationError else Inr labels))"

definition number_mapping :: "bool \<Rightarrow> (pystr \<times> pyfloat) list \<Rightarrow> (pystr, pyfloat) dict res" where
  "number_mapping positive kvs =
     (if MAX_MAPPING_ENTRIES < length kvs then Inl ValidationError
      else fold_res (\<lambda>(raw, v) r.
             rbind (label (PStr raw)) (\<lambda>k.
             if dget r k \<noteq> None then Inl ValidationError
             else rbind (if positive then finite_number True (PFloat v) else any_finite (PFloat v)) (\<lambda>n.
                  Inr (dput k n r)))) kvs [])"

section \<open>Events\<close>

record event =
  ev_id :: pystr
  ev_stream :: pystr
  ev_modality :: pystr
  ev_time :: pyfloat
  ev_duration :: pyfloat
  ev_data :: json

definition make_event :: "pyval \<Rightarrow> pyval \<Rightarrow> pyval \<Rightarrow> pyval \<Rightarrow> pyval \<Rightarrow> pyval \<Rightarrow> event res" where
  "make_event i s m t d v =
     rbind (label i) (\<lambda>i. rbind (label s) (\<lambda>s. rbind (label m) (\<lambda>m.
     rbind (any_finite t) (\<lambda>t. rbind (finite_number False d) (\<lambda>d.
     if \<not> is_finite (fadd t d) then Inl ValidationError
     else rbind (freeze_event_data v) (\<lambda>frozen.
       Inr \<lparr>ev_id = i, ev_stream = s, ev_modality = m, ev_time = t, ev_duration = d, ev_data = frozen\<rparr>))))))"

text \<open>\<open>_snapshot_event\<close>, \<open>_validated_event\<close> and \<open>Event.shifted\<close>: construct the event again.\<close>

definition snapshot_event :: "event \<Rightarrow> event res" where
  "snapshot_event e = make_event (PStr (ev_id e)) (PStr (ev_stream e)) (PStr (ev_modality e))
     (PFloat (ev_time e)) (PFloat (ev_duration e)) (py_of_json (ev_data e))"

definition shift_event :: "event \<Rightarrow> pyfloat \<Rightarrow> event res" where
  "shift_event e offset = make_event (PStr (ev_id e)) (PStr (ev_stream e)) (PStr (ev_modality e))
     (PFloat (fadd (ev_time e) offset)) (PFloat (ev_duration e)) (py_of_json (ev_data e))"

definition event_end :: "event \<Rightarrow> pyfloat" where
  "event_end e = fadd (ev_time e) (ev_duration e)"

definition data_ok :: "json \<Rightarrow> bool" where
  "data_ok v \<longleftrightarrow> (\<exists>kvs. v = JObj kvs) \<and> jfits 0 v \<and> jnodes v \<le> MAX_JSON_NODES
     \<and> utf8_len (dumps v) \<le> MAX_EVENT_DATA_BYTES"

definition event_ok :: "event \<Rightarrow> bool" where
  "event_ok e \<longleftrightarrow> is_label (ev_id e) \<and> is_label (ev_stream e) \<and> is_label (ev_modality e)
     \<and> is_finite (ev_time e) \<and> fvalid (ev_time e)
     \<and> is_finite (ev_duration e) \<and> fvalid (ev_duration e) \<and> 0 \<le> fint (ev_duration e)
     \<and> is_finite (event_end e) \<and> data_ok (ev_data e)"

lemma freeze_data_ok: "freeze_event_data v = Inr frozen \<Longrightarrow> data_ok frozen"
proof -
  assume f: "freeze_event_data v = Inr frozen"
  then obtain kvs where v: "v = PDict kvs" by (cases v) (auto simp: freeze_event_data_def)
  from f obtain b where fj: "freeze_json 0 v 0 = Inr (frozen, b)" and len: "utf8_len (dumps frozen) \<le> MAX_EVENT_DATA_BYTES"
    by (auto simp: freeze_event_data_def v split: if_splits)
  have "\<exists>kvs. frozen = JObj kvs" using fj by (auto simp: v)
  moreover have "jfits 0 frozen \<and> 0 + jnodes frozen \<le> b \<and> b \<le> max 0 MAX_JSON_NODES" by (rule freeze_json_sound(1) [OF fj])
  ultimately show ?thesis using len by (simp add: data_ok_def)
qed

lemma freeze_data_again: "data_ok v \<Longrightarrow> freeze_event_data (py_of_json v) = Inr v"
proof -
  assume v: "data_ok v"
  then obtain kvs where k: "v = JObj kvs" by (auto simp: data_ok_def)
  have "freeze_json 0 (py_of_json v) 0 = Inr (v, 0 + jnodes v)"
    by (rule freeze_json_complete) (use v in \<open>simp_all add: data_ok_def\<close>)
  moreover have "length kvs \<le> MAX_MAPPING_ENTRIES" using v by (simp add: data_ok_def k)
  ultimately show ?thesis using v by (simp add: freeze_event_data_def k data_ok_def del: dumps.simps freeze_json.simps)
qed

lemma make_event_ok: "make_event i s m t d v = Inr e \<Longrightarrow> event_ok e"
  using freeze_data_ok
  by (auto simp: make_event_def event_ok_def event_end_def split: if_splits
      dest: label_Inr any_finite_Inr finite_number_Inr)

lemma finite_number_PFloat:
  "is_finite f \<Longrightarrow> fvalid f \<Longrightarrow> 0 \<le> fint f \<Longrightarrow> finite_number False (PFloat f) = Inr f"
  by (simp add: finite_number_def any_finite_PFloat flt_finite)

lemma snapshot_event_ok: "event_ok e \<Longrightarrow> snapshot_event e = Inr e"
  by (cases e) (simp add: snapshot_event_def make_event_def event_ok_def label_is_label any_finite_PFloat
      finite_number_PFloat event_end_def freeze_data_again)

lemma shift_event_ok:
  assumes "event_ok e" "is_finite offset"
  shows "shift_event e offset =
    (if is_finite (fadd (ev_time e) offset) \<and> is_finite (fadd (fadd (ev_time e) offset) (ev_duration e))
     then Inr (e\<lparr>ev_time := fadd (ev_time e) offset\<rparr>) else Inl ValidationError)"
proof (cases "is_finite (fadd (ev_time e) offset)")
  case True
  have v: "fvalid (fadd (ev_time e) offset)" using assms by (intro fvalid_fadd) (simp_all add: event_ok_def)
  then show ?thesis using assms True
    by (cases e) (simp add: shift_event_def make_event_def event_ok_def label_is_label any_finite_PFloat
        finite_number_PFloat event_end_def freeze_data_again)
next
  case False
  have "fvalid (fadd (ev_time e) offset)" using assms by (intro fvalid_fadd) (simp_all add: event_ok_def)
  then have "fnorm (fadd (ev_time e) offset) = fadd (ev_time e) offset" by (rule fnorm_valid)
  then show ?thesis using False assms
    by (simp add: shift_event_def make_event_def event_ok_def label_is_label any_finite_def)
qed

section \<open>Clock corrections\<close>

record clock_drift =
  cd_rate :: pyfloat
  cd_offset :: pyfloat
  cd_epoch :: pyfloat

definition drift_rate :: "pyfloat \<Rightarrow> pyfloat res" where
  "drift_rate v =
     rbind (any_finite (PFloat v)) (\<lambda>n.
       if flt (float_of_int MAX_DRIFT_RATE_PPM) (fabs n) then Inl ValidationError else Inr n)"

definition make_drift :: "pyfloat \<Rightarrow> pyfloat \<Rightarrow> pyfloat \<Rightarrow> clock_drift res" where
  "make_drift r o' e =
     rbind (drift_rate r) (\<lambda>r. rbind (any_finite (PFloat o')) (\<lambda>o'. rbind (any_finite (PFloat e)) (\<lambda>e.
       Inr \<lparr>cd_rate = r, cd_offset = o', cd_epoch = e\<rparr>)))"

definition snapshot_drift :: "clock_drift \<Rightarrow> clock_drift res" where
  "snapshot_drift c = make_drift (cd_rate c) (cd_offset c) (cd_epoch c)"

text \<open>The constant \<open>1e-6\<close>.\<close>

definition one_millionth :: pyfloat where
  "one_millionth = Fin (int (dec_round 1 (- 6)))"

definition offset_at :: "clock_drift \<Rightarrow> pyfloat \<Rightarrow> pyfloat res" where
  "offset_at c observed =
     rbind (snapshot_drift c) (\<lambda>c. rbind (any_finite (PFloat observed)) (\<lambda>observed.
       let offset = fadd (cd_offset c) (fmul (fmul (cd_rate c) one_millionth) (fsub observed (cd_epoch c)))
       in if is_finite offset then Inr offset else Inl ValidationError))"

definition drift_mapping :: "(pystr \<times> clock_drift) list \<Rightarrow> (pystr, clock_drift) dict res" where
  "drift_mapping kvs =
     (if MAX_MAPPING_ENTRIES < length kvs then Inl ValidationError
      else fold_res (\<lambda>(raw, c) r.
             rbind (label (PStr raw)) (\<lambda>k.
             if dget r k \<noteq> None then Inl ValidationError
             else rbind (snapshot_drift c) (\<lambda>c. Inr (dput k c r)))) kvs [])"

section \<open>The configuration\<close>

datatype late_policy = LReject | LDrop | LAccept

record alignment_config =
  ac_window :: pyfloat
  ac_hop :: pyfloat
  ac_lateness :: pyfloat
  ac_origin :: pyfloat
  ac_required :: "pystr list"
  ac_offsets :: "(pystr, pyfloat) dict"
  ac_drifts :: "(pystr, clock_drift) dict"
  ac_cadence :: "(pystr, pyfloat) dict"
  ac_gap_factor :: pyfloat
  ac_late :: late_policy
  ac_max_events :: nat
  ac_max_windows :: nat

text \<open>\<open>origin + i * hop\<close> and the same plus the window.\<close>

definition grid_start :: "pyfloat \<Rightarrow> pyfloat \<Rightarrow> nat \<Rightarrow> pyfloat" where
  "grid_start origin hop i = fadd origin (fmul (float_of_int (int i)) hop)"

definition grid_range_ok :: "pyfloat \<Rightarrow> pyfloat \<Rightarrow> pyfloat \<Rightarrow> nat \<Rightarrow> bool" where
  "grid_range_ok origin window hop n \<longleftrightarrow>
     (let first_start = fadd origin hop; first_end = fadd origin window;
          last_start = grid_start origin hop (n - 1); final_start = grid_start origin hop n;
          last_end = fadd last_start window; final_end = fadd final_start window
      in is_finite first_start \<and> is_finite first_end \<and> is_finite last_start \<and> is_finite final_start
         \<and> is_finite last_end \<and> is_finite final_end
         \<and> \<not> (fle first_start origin \<or> fle first_end origin \<or> fle final_start last_start
               \<or> fle last_end last_start \<or> fle final_end final_start))"

definition alignment_config_check :: "alignment_config \<Rightarrow> alignment_config res" where
  "alignment_config_check c =
     rbind (finite_number True (PFloat (ac_window c))) (\<lambda>window.
     rbind (finite_number True (PFloat (ac_hop c))) (\<lambda>hop.
     rbind (finite_number False (PFloat (ac_lateness c))) (\<lambda>lateness.
     rbind (any_finite (PFloat (ac_origin c))) (\<lambda>origin.
     rbind (label_tuple (ac_required c) MAX_STREAMS) (\<lambda>required.
     rbind (number_mapping False (ac_offsets c)) (\<lambda>offsets.
     rbind (drift_mapping (ac_drifts c)) (\<lambda>drifts.
     if set (dkeys offsets) \<inter> set (dkeys drifts) \<noteq> {} then Inl ValidationError
     else
       rbind (number_mapping True (ac_cadence c)) (\<lambda>cadence.
       rbind (finite_number True (PFloat (ac_gap_factor c))) (\<lambda>factor.
       if fle factor (float_of_int 1) then Inl ValidationError
       else
         rbind (positive_int (PInt (int (ac_max_events c))) MAX_EVENTS_PER_WINDOW) (\<lambda>max_events.
         rbind (positive_int (PInt (int (ac_max_windows c))) MAX_OUTPUT_WINDOWS) (\<lambda>max_windows.
           if \<not> grid_range_ok origin window hop max_windows then Inl ValidationError
           else Inr \<lparr>ac_window = window, ac_hop = hop, ac_lateness = lateness, ac_origin = origin,
                     ac_required = required, ac_offsets = offsets, ac_drifts = drifts, ac_cadence = cadence,
                     ac_gap_factor = factor, ac_late = ac_late c, ac_max_events = max_events,
                     ac_max_windows = max_windows\<rparr>)))))))))))"

section \<open>Retention\<close>

record retention_policy =
  rp_horizon :: pyfloat
  rp_max_tracked :: nat

definition retention_horizon :: "pyfloat \<Rightarrow> pyfloat res" where
  "retention_horizon v =
     (let n = fnorm v in if n = NaN \<or> flt n (Fin 0) then Inl ValidationError else Inr n)"

definition retention_check :: "retention_policy \<Rightarrow> retention_policy res" where
  "retention_check p =
     rbind (retention_horizon (rp_horizon p)) (\<lambda>h.
     rbind (positive_int (PInt (int (rp_max_tracked p))) MAX_EVENTS) (\<lambda>n.
       Inr \<lparr>rp_horizon = h, rp_max_tracked = n\<rparr>))"

definition default_retention :: retention_policy where
  "default_retention = \<lparr>rp_horizon = PosInf, rp_max_tracked = MAX_EVENTS\<rparr>"

section \<open>Windows\<close>

text \<open>\<open>_overlaps_bounds\<close>: intersection with a half-open interval; an instant is its own point.\<close>

definition overlaps_bounds :: "event \<Rightarrow> pyfloat \<Rightarrow> pyfloat \<Rightarrow> bool" where
  "overlaps_bounds e start stop \<longleftrightarrow>
     (if feq (ev_duration e) (Fin 0) then fle start (ev_time e) \<and> flt (ev_time e) stop
      else flt (ev_time e) stop \<and> flt start (event_end e))"

record aligned_window =
  aw_index :: nat
  aw_start :: pyfloat
  aw_end :: pyfloat
  aw_events :: "event list"
  aw_missing :: "pystr list"

definition make_window :: "nat \<Rightarrow> pyfloat \<Rightarrow> pyfloat \<Rightarrow> event list \<Rightarrow> pystr list \<Rightarrow> aligned_window res" where
  "make_window index start stop es missing =
     rbind (any_finite (PFloat start)) (\<lambda>start. rbind (any_finite (PFloat stop)) (\<lambda>stop.
     if fle stop start then Inl ValidationError
     else if MAX_EVENTS_PER_WINDOW < length es then Inl ValidationError
     else
       rbind (map_res snapshot_event es) (\<lambda>es.
       if \<not> distinct (map ev_id es) then Inl ValidationError
       else
         rbind (label_tuple missing MAX_STREAMS) (\<lambda>missing.
         if \<not> list_all (\<lambda>e. overlaps_bounds e start stop) es then Inl ValidationError
         else if list_ex (\<lambda>e. ev_stream e \<in> set missing) es then Inl ValidationError
         else Inr \<lparr>aw_index = index, aw_start = start, aw_end = stop, aw_events = es, aw_missing = missing\<rparr>))))"

definition window_complete :: "aligned_window \<Rightarrow> bool" where
  "window_complete w \<longleftrightarrow> aw_missing w = []"

definition window_modalities :: "aligned_window \<Rightarrow> pystr list" where
  "window_modalities w = sort (remdups (map ev_modality (aw_events w)))"

end
