(* ===== verification/Interval_Index.thy ===== *)
theory Interval_Index
  imports Events
begin

text \<open>
  \<open>interval_index.py\<close>: which live events overlap a window of the regular grid, answered from
  the canonical dyadic decomposition of the range of windows that each event covers. The
  boundaries of the range are found by binary search over the exact float predicates.
\<close>

section \<open>Horizons and overlaps\<close>

definition event_horizon :: "event \<Rightarrow> pyfloat" where
  "event_horizon e = (if feq (ev_duration e) (Fin 0) then nextafter_inf (ev_time e) else event_end e)"

definition overlaps :: "event \<Rightarrow> pyfloat \<Rightarrow> pyfloat \<Rightarrow> bool" where
  "overlaps e start stop \<longleftrightarrow>
     (if feq (ev_duration e) (Fin 0) then fle start (ev_time e) \<and> flt (ev_time e) stop
      else flt (ev_time e) stop \<and> flt start (event_end e))"

section \<open>The dyadic decomposition\<close>

function dyadic :: "nat \<Rightarrow> nat \<Rightarrow> nat \<Rightarrow> (nat \<times> nat) list" where
  "dyadic level low high =
     (if low < high
      then (if odd low then [(level, low)] else []) @ (if odd high then [(level, high - 1)] else [])
           @ dyadic (level + 1) ((if odd low then low + 1 else low) div 2) ((if odd high then high - 1 else high) div 2)
      else [])"
  by pat_completeness auto
termination
  by (relation "measure (\<lambda>(level, low, high). high)") auto

declare dyadic.simps [simp del]

text \<open>\<open>_decompose(first, last)\<close>\<close>

definition decompose :: "nat \<Rightarrow> int \<Rightarrow> (nat \<times> nat) list" where
  "decompose first final = dyadic 0 first (nat (final + 1))"

section \<open>The index\<close>

record entry =
  en_event :: event
  en_first :: nat
  en_last :: int

type_synonym bucket = "(pystr, event) dict"

record interval_index =
  ix_origin :: pyfloat
  ix_window :: pyfloat
  ix_hop :: pyfloat
  ix_ceiling :: nat
  ix_live :: "(pystr, entry) dict"
  ix_nodes :: "(nat \<times> nat, bucket) dict"
  ix_expiry :: "(int \<times> pystr) list"
  ix_top :: nat
  ix_examined :: nat

text \<open>The configuration that the constructor validates: the defaults but for the grid.\<close>

definition grid_config :: "pyfloat \<Rightarrow> pyfloat \<Rightarrow> pyfloat \<Rightarrow> nat \<Rightarrow> alignment_config" where
  "grid_config origin window hop n =
     \<lparr>ac_window = window, ac_hop = hop, ac_lateness = Fin 0, ac_origin = origin, ac_required = [], ac_offsets = [],
      ac_drifts = [], ac_cadence = [], ac_gap_factor = Fin (3 * 2 ^ 1073), ac_late = LReject,
      ac_max_events = 10000, ac_max_windows = n\<rparr>"

definition make_index :: "pyfloat \<Rightarrow> pyfloat \<Rightarrow> pyfloat \<Rightarrow> nat \<Rightarrow> interval_index res" where
  "make_index origin window hop n =
     rbind (alignment_config_check (grid_config origin window hop n)) (\<lambda>c.
       Inr \<lparr>ix_origin = ac_origin c, ix_window = ac_window c, ix_hop = ac_hop c, ix_ceiling = ac_max_windows c,
            ix_live = [], ix_nodes = [], ix_expiry = [], ix_top = 0, ix_examined = 0\<rparr>)"

definition ix_start :: "interval_index \<Rightarrow> nat \<Rightarrow> pyfloat" where
  "ix_start ix i = grid_start (ix_origin ix) (ix_hop ix) i"

definition first_overlapping :: "interval_index \<Rightarrow> event \<Rightarrow> nat" where
  "first_overlapping ix e =
     bisect (\<lambda>i. flt (ev_time e) (fadd (ix_start ix i) (ix_window ix))) 0 (ix_ceiling ix + 1)"

definition last_overlapping :: "interval_index \<Rightarrow> event \<Rightarrow> int" where
  "last_overlapping ix e =
     int (bisect (\<lambda>i. \<not> flt (ix_start ix i) (event_horizon e)) 0 (ix_ceiling ix + 1)) - 1"

definition entry_nodes :: "interval_index \<Rightarrow> entry \<Rightarrow> (nat \<times> nat) list" where
  "entry_nodes ix en = decompose (en_first en) (min (en_last en) (int (ix_ceiling ix) - 1))"

definition bucket_at :: "(nat \<times> nat, bucket) dict \<Rightarrow> nat \<times> nat \<Rightarrow> bucket" where
  "bucket_at nodes k = (case dget nodes k of None \<Rightarrow> [] | Some b \<Rightarrow> b)"

definition add_node :: "event \<Rightarrow> nat \<times> nat \<Rightarrow> (nat \<times> nat, bucket) dict \<Rightarrow> (nat \<times> nat, bucket) dict" where
  "add_node e k nodes = dput k (dput (ev_id e) e (bucket_at nodes k)) nodes"

definition insert_validated :: "interval_index \<Rightarrow> event \<Rightarrow> interval_index res" where
  "insert_validated ix e =
     (if length (ix_live ix) = MAX_EVENTS then Inl ValidationError
      else if dget (ix_live ix) (ev_id e) \<noteq> None then Inl ValidationError
      else let en = \<lparr>en_event = e, en_first = first_overlapping ix e, en_last = last_overlapping ix e\<rparr>;
               ks = entry_nodes ix en
           in Inr (ix\<lparr>ix_live := dput (ev_id e) en (ix_live ix),
                     ix_expiry := insort (en_last en, ev_id e) (ix_expiry ix),
                     ix_nodes := fold (add_node e) ks (ix_nodes ix),
                     ix_top := fold (\<lambda>k. max (fst k)) ks (ix_top ix)\<rparr>))"

definition index_insert :: "interval_index \<Rightarrow> event \<Rightarrow> interval_index res" where
  "index_insert ix e =
     (if length (ix_live ix) = MAX_EVENTS then Inl ValidationError
      else rbind (snapshot_event e) (insert_validated ix))"

text \<open>One node per level on the path from the window to the root. The query counter is the
  only thing a query changes.\<close>

definition matching_events :: "interval_index \<Rightarrow> nat \<Rightarrow> event list" where
  "matching_events ix i =
     concat (map (\<lambda>level. map snd (bucket_at (ix_nodes ix) (level, i div 2 ^ level))) [0..<ix_top ix + 1])"

definition matching :: "interval_index \<Rightarrow> nat \<Rightarrow> (event list \<times> interval_index) res" where
  "matching ix i =
     (if ix_ceiling ix \<le> i then Inl ValidationError
      else let es = matching_events ix i in Inr (es, ix\<lparr>ix_examined := ix_examined ix + length es\<rparr>))"

definition overlapping :: "interval_index \<Rightarrow> nat \<Rightarrow> (event list \<times> interval_index) res" where
  "overlapping ix i = rbind (matching ix i) (\<lambda>(es, ix). rbind (map_res snapshot_event es) (\<lambda>es. Inr (es, ix)))"

definition remove_node :: "pystr \<Rightarrow> nat \<times> nat \<Rightarrow> (nat \<times> nat, bucket) dict \<Rightarrow> (nat \<times> nat, bucket) dict res" where
  "remove_node i k nodes =
     (case dget nodes k of
        None \<Rightarrow> Inl KeyError
      | Some b \<Rightarrow>
          if dget b i = None then Inl KeyError
          else let b = ddel i b in Inr (if b = [] then ddel k nodes else dput k b nodes))"

fun prune_loop :: "nat \<Rightarrow> (int \<times> pystr) list \<Rightarrow> interval_index \<Rightarrow> interval_index res" where
  "prune_loop k [] ix = Inr (ix\<lparr>ix_expiry := []\<rparr>)"
| "prune_loop k ((z, i) # rest) ix =
     (if z < int k
      then (case dget (ix_live ix) i of
              None \<Rightarrow> Inl KeyError
            | Some en \<Rightarrow>
                rbind (fold_res (remove_node i) (entry_nodes ix en) (ix_nodes ix)) (\<lambda>nodes.
                  prune_loop k rest (ix\<lparr>ix_live := ddel i (ix_live ix), ix_nodes := nodes\<rparr>)))
      else Inr (ix\<lparr>ix_expiry := (z, i) # rest\<rparr>))"

definition prune :: "interval_index \<Rightarrow> nat \<Rightarrow> interval_index res" where
  "prune ix k = (if ix_ceiling ix < k then Inl ValidationError else prune_loop k (ix_expiry ix) ix)"

definition live_events :: "interval_index \<Rightarrow> event list" where
  "live_events ix = map (\<lambda>e. en_event (snd e)) (ix_live ix)"

definition index_horizon :: "interval_index \<Rightarrow> pyfloat res" where
  "index_horizon ix =
     (case map event_horizon (live_events ix) of
        [] \<Rightarrow> Inl ValidationError
      | h # hs \<Rightarrow> Inr (fold (\<lambda>x m. fmax m x) hs h))"

definition clear_index :: "interval_index \<Rightarrow> interval_index" where
  "clear_index ix = ix\<lparr>ix_live := [], ix_nodes := [], ix_expiry := []\<rparr>"

section \<open>The decomposition covers its range exactly once\<close>

lemma dyadic_level: "(l, b) \<in> set (dyadic level low high) \<Longrightarrow> level \<le> l"
proof (induction level low high rule: dyadic.induct)
  case (1 level low high)
  from "1.prems" "1.IH" show ?case
    by (subst (asm) dyadic.simps [of level low high]) (fastforce split: if_splits)
qed

definition stabs :: "nat \<Rightarrow> nat \<Rightarrow> nat \<times> nat \<Rightarrow> bool" where
  "stabs level x k \<longleftrightarrow> x div 2 ^ (fst k - level) = snd k"

lemma stabs_next: "level < fst k \<Longrightarrow> stabs level x k \<longleftrightarrow> stabs (level + 1) (x div 2) k"
proof -
  assume "level < fst k"
  then have "fst k - level = Suc (fst k - (level + 1))" by simp
  then have "2 ^ (fst k - level) = 2 * (2::nat) ^ (fst k - (level + 1))" by (simp only: power_Suc)
  then show ?thesis unfolding stabs_def by (simp only: div_mult2_eq)
qed

lemma half_low: "(if odd low then low + 1 else low) div 2 \<le> x div 2 \<longleftrightarrow> low \<le> x \<and> \<not> (odd low \<and> x = low)" for low x :: nat
proof (cases "odd low")
  case True
  then obtain c where "low = 2 * c + 1" by (elim oddE)
  then show ?thesis by simp linarith
next
  case False
  then obtain c where "low = 2 * c" by (auto elim: evenE)
  then show ?thesis by simp linarith
qed

lemma half_high: "x div 2 < (if odd high then high - 1 else high) div 2 \<longleftrightarrow> x < high \<and> \<not> (odd high \<and> x = high - 1)" for high x :: nat
proof (cases "odd high")
  case True
  then obtain c where "high = 2 * c + 1" by (elim oddE)
  then show ?thesis by simp linarith
next
  case False
  then obtain c where "high = 2 * c" by (auto elim: evenE)
  then show ?thesis by simp linarith
qed

lemma dyadic_stab: "length (filter (stabs level x) (dyadic level low high)) = (if low \<le> x \<and> x < high then 1 else 0)"
proof (induction level low high arbitrary: x rule: dyadic.induct)
  case (1 level low high)
  show ?case
  proof (cases "low < high")
    case True
    define lo hi where "lo = (if odd low then low + 1 else low) div 2" and "hi = (if odd high then high - 1 else high) div 2"
    have nx: "filter (stabs level x) (dyadic (level + 1) lo hi) = filter (stabs (level + 1) (x div 2)) (dyadic (level + 1) lo hi)"
    proof (rule filter_cong [OF refl])
      fix k assume "k \<in> set (dyadic (level + 1) lo hi)"
      then have "level < fst k" using dyadic_level [of "fst k" "snd k" "level + 1" lo hi] by simp
      then show "stabs level x k = stabs (level + 1) (x div 2) k" by (rule stabs_next)
    qed
    have rest: "length (filter (stabs level x) (dyadic (level + 1) lo hi)) = (if lo \<le> x div 2 \<and> x div 2 < hi then 1 else 0)"
      unfolding nx by (rule "1.IH" [OF True, folded lo_def hi_def])
    have d: "dyadic level low high = (if odd low then [(level, low)] else []) @ (if odd high then [(level, high - 1)] else [])
        @ dyadic (level + 1) lo hi"
      using True by (subst dyadic.simps) (simp add: lo_def hi_def)
    have here: "stabs level x (level, b) \<longleftrightarrow> x = b" for b by (simp add: stabs_def)
    have low: "lo \<le> x div 2 \<longleftrightarrow> low \<le> x \<and> \<not> (odd low \<and> x = low)" unfolding lo_def by (rule half_low)
    have high: "x div 2 < hi \<longleftrightarrow> x < high \<and> \<not> (odd high \<and> x = high - 1)" unfolding hi_def by (rule half_high)
    have two: "low \<noteq> high - 1" if "odd low" "odd high"
    proof
      assume "low = high - 1"
      then have "high = Suc low" using True by simp
      then show False using that by simp
    qed
    show ?thesis unfolding d filter_append length_append rest low high using two True by (auto simp: here)
  qed (simp add: dyadic.simps)
qed

end
