(* ===== verification/Interval_Index_Laws.thy ===== *)
theory Interval_Index_Laws
  imports Interval_Index
begin

text \<open>
  The interval index answers as a scan over its live events does. The float grid is monotone,
  so the binary searches find exact boundaries, and a window lies in the range of an event
  exactly when the event overlaps it.
\<close>

section \<open>The grid\<close>

definition grid_ok :: "pyfloat \<Rightarrow> pyfloat \<Rightarrow> pyfloat \<Rightarrow> nat \<Rightarrow> bool" where
  "grid_ok origin window hop n \<longleftrightarrow>
     is_finite origin \<and> fvalid origin \<and> is_finite window \<and> fvalid window \<and> 0 < fint window
     \<and> is_finite hop \<and> fvalid hop \<and> 0 < fint hop \<and> 1 \<le> n \<and> n \<le> MAX_OUTPUT_WINDOWS
     \<and> grid_range_ok origin window hop n"

lemma config_check_grid:
  "alignment_config_check c = Inr c' \<Longrightarrow> grid_ok (ac_origin c') (ac_window c') (ac_hop c') (ac_max_windows c')"
proof -
  assume "alignment_config_check c = Inr c'"
  then obtain w h o' n where "finite_number True (PFloat (ac_window c)) = Inr w" "finite_number True (PFloat (ac_hop c)) = Inr h"
      "any_finite (PFloat (ac_origin c)) = Inr o'" "positive_int (PInt (int (ac_max_windows c))) MAX_OUTPUT_WINDOWS = Inr n"
      "grid_range_ok o' w h n" "ac_origin c' = o'" "ac_window c' = w" "ac_hop c' = h" "ac_max_windows c' = n"
    unfolding alignment_config_check_def rbind_eq_Inr if_error_eq_Inr by auto
  then show ?thesis
    using finite_number_Inr [of True] any_finite_Inr
    by (auto simp: grid_ok_def positive_int_def split: if_splits)
qed

lemma window_index_small: "n \<le> MAX_OUTPUT_WINDOWS \<Longrightarrow> int n \<le> 2 ^ 53"
  by (simp add: MAX_OUTPUT_WINDOWS_def)

lemma fmul_grid:
  assumes "grid_ok origin window hop n" "i \<le> n"
  shows "fmul (float_of_int (int i)) hop = of_units (int i * fint hop)"
  using assms by (intro fmul_int) (auto simp: grid_ok_def MAX_OUTPUT_WINDOWS_def)

lemma grid_start_facts:
  assumes g: "grid_ok origin window hop n" and i: "i \<le> n"
  shows "is_finite (fmul (float_of_int (int i)) hop)" "is_finite (grid_start origin hop i)" "fvalid (grid_start origin hop i)"
    "is_finite (fadd (grid_start origin hop i) window)" "fvalid (fadd (grid_start origin hop i) window)"
    and "j \<le> i \<Longrightarrow> fint (grid_start origin hop j) \<le> fint (grid_start origin hop i)"
proof -
  have o': "is_finite origin" "fvalid origin" and w: "is_finite window" "fvalid window" "0 < fint window"
    and h: "is_finite hop" "0 < fint hop" and fin: "is_finite (grid_start origin hop n)" "is_finite (fadd (grid_start origin hop n) window)"
    using g by (simp_all add: grid_ok_def grid_range_ok_def Let_def)
  have mul: "is_finite (fmul (float_of_int (int k)) hop) \<and> fint (fmul (float_of_int (int k)) hop) = rnd (int k * fint hop)" if "k \<le> n" for k
  proof -
    have "is_finite (fmul (float_of_int (int n)) hop)" using fin(1) fadd_finite_args unfolding grid_start_def by blast
    then have n: "\<bar>rnd (int n * fint hop)\<bar> < fbound" using fmul_grid [OF g order_refl] by (simp add: is_finite_of_units)
    have "int k * fint hop \<le> int n * fint hop" using that h by (simp add: mult_right_mono)
    then have "rnd (int k * fint hop) \<le> rnd (int n * fint hop)" by (rule rnd_mono)
    moreover have "0 \<le> rnd (int k * fint hop)" using h by (intro rnd_nonneg) simp
    ultimately have "is_finite (of_units (int k * fint hop))" using n by (simp add: is_finite_of_units)
    then show ?thesis using fmul_grid [OF g that] fint_of_units by simp
  qed
  have start: "is_finite (grid_start origin hop k) \<and> fint (grid_start origin hop k) = rnd (fint origin + rnd (int k * fint hop))" if "k \<le> n" for k
  proof -
    have le: "fint origin + rnd (int k * fint hop) \<le> fint origin + rnd (int n * fint hop)"
      using that h by (intro add_left_mono rnd_mono mult_right_mono) simp_all
    have lo: "fint origin \<le> rnd (fint origin + rnd (int k * fint hop))"
    proof -
      have "rnd (fint origin) \<le> rnd (fint origin + rnd (int k * fint hop))"
        using h by (intro rnd_mono) (simp add: rnd_nonneg)
      then show ?thesis using rnd_exact [OF is_double_fint [OF o'(2)]] by simp
    qed
    have "\<bar>rnd (fint origin + rnd (int n * fint hop))\<bar> < fbound"
      using fin(1) is_finite_fadd [OF o'(1)] mul [OF order_refl] by (simp add: grid_start_def)
    with rnd_mono [OF le] lo fint_bound [OF o'(2)] have "\<bar>rnd (fint origin + rnd (int k * fint hop))\<bar> < fbound" by linarith
    then have "is_finite (grid_start origin hop k)"
      using is_finite_fadd [OF o'(1)] mul [OF that] by (simp add: grid_start_def)
    then show ?thesis using fint_fadd [OF o'(1)] mul [OF that] by (simp add: grid_start_def)
  qed
  show "is_finite (fmul (float_of_int (int i)) hop)" using mul [OF i] by simp
  show f: "is_finite (grid_start origin hop i)" using start [OF i] by simp
  show v: "fvalid (grid_start origin hop i)"
    unfolding grid_start_def using o' mul [OF i] by (intro fvalid_fadd) simp_all
  show mono: "fint (grid_start origin hop j) \<le> fint (grid_start origin hop i)" if "j \<le> i" for j
    using start [OF i] start [of j] that i h by (auto intro!: rnd_mono mult_right_mono)
  have "fint (grid_start origin hop i) \<le> fint (grid_start origin hop n)"
    using start [OF i] start [of n] i h by (auto intro!: rnd_mono mult_right_mono)
  then have "rnd (fint (grid_start origin hop i) + fint window) \<le> rnd (fint (grid_start origin hop n) + fint window)"
    by (intro rnd_mono) simp
  moreover have "\<bar>rnd (fint (grid_start origin hop n) + fint window)\<bar> < fbound"
    using fin is_finite_fadd w(1) by blast
  moreover have "fint (grid_start origin hop i) \<le> rnd (fint (grid_start origin hop i) + fint window)"
    using rnd_mono [of "fint (grid_start origin hop i)" "fint (grid_start origin hop i) + fint window"]
      rnd_exact [OF is_double_fint [OF v]] w(3) by simp
  ultimately have "\<bar>rnd (fint (grid_start origin hop i) + fint window)\<bar> < fbound"
    using fint_bound [OF v] by linarith
  then show "is_finite (fadd (grid_start origin hop i) window)" using is_finite_fadd f w(1) by blast
  show "fvalid (fadd (grid_start origin hop i) window)" using f w(1) by (rule fvalid_fadd)
qed

lemma fadd_commute_mono:
  assumes "is_finite a" "is_finite b" "is_finite c" "fint a \<le> fint b"
  shows "fle (fadd a c) (fadd b c)"
proof -
  have "fadd x y = fadd y x" for x y by (auto simp: fadd_def add.commute)
  then show ?thesis using fadd_mono [of c a b] assms by simp
qed

lemma grid_end_mono:
  assumes g: "grid_ok origin window hop n" and i: "i \<le> n" "j \<le> i"
  shows "fle (fadd (grid_start origin hop j) window) (fadd (grid_start origin hop i) window)"
  using grid_start_facts [OF g i(1)] grid_start_facts(2) [OF g order_trans [OF i(2,1)]] i(2) g
  by (intro fadd_commute_mono) (auto simp: grid_ok_def)

lemma grid_start_mono:
  assumes g: "grid_ok origin window hop n" and i: "i \<le> n" "j \<le> i"
  shows "fle (grid_start origin hop j) (grid_start origin hop i)"
  using grid_start_facts(2,6) [OF g i(1)] grid_start_facts(2) [OF g order_trans [OF i(2,1)]] i(2)
  by (simp add: fle_finite)

section \<open>The range of an event\<close>

definition ix_grid_ok :: "interval_index \<Rightarrow> bool" where
  "ix_grid_ok ix \<longleftrightarrow> grid_ok (ix_origin ix) (ix_window ix) (ix_hop ix) (ix_ceiling ix)"

definition ix_end :: "interval_index \<Rightarrow> nat \<Rightarrow> pyfloat" where
  "ix_end ix i = fadd (ix_start ix i) (ix_window ix)"

lemma horizon_iff:
  assumes "event_ok e" "is_finite s" "fvalid s"
  shows "flt s (event_horizon e) \<longleftrightarrow> (if feq (ev_duration e) (Fin 0) then fle s (ev_time e) else flt s (event_end e))"
  using assms by (simp add: event_horizon_def event_ok_def flt_nextafter_iff)

lemma overlaps_iff:
  assumes "event_ok e" "is_finite s" "fvalid s"
  shows "overlaps e s t \<longleftrightarrow> flt (ev_time e) t \<and> flt s (event_horizon e)"
  using assms by (auto simp: overlaps_def horizon_iff)

lemma first_overlapping_iff:
  assumes "ix_grid_ok ix" "i \<le> ix_ceiling ix"
  shows "flt (ev_time e) (ix_end ix i) \<longleftrightarrow> first_overlapping ix e \<le> i"
proof -
  have "0 \<le> first_overlapping ix e \<and> first_overlapping ix e \<le> ix_ceiling ix + 1
      \<and> (\<forall>i. 0 \<le> i \<and> i < ix_ceiling ix + 1 \<longrightarrow> (flt (ev_time e) (fadd (ix_start ix i) (ix_window ix)) \<longleftrightarrow> first_overlapping ix e \<le> i))"
    unfolding first_overlapping_def
  proof (rule bisect_correct)
    show "flt (ev_time e) (fadd (ix_start ix j) (ix_window ix))"
      if "0 \<le> i" "i \<le> j" "j < ix_ceiling ix + 1" "flt (ev_time e) (fadd (ix_start ix i) (ix_window ix))" for i j
      using that grid_end_mono [of "ix_origin ix" "ix_window ix" "ix_hop ix" "ix_ceiling ix" j i] assms(1)
      by (auto simp: ix_grid_ok_def ix_start_def intro: flt_fle_trans)
  qed simp
  then show ?thesis using assms(2) by (simp add: ix_end_def)
qed

lemma last_overlapping_iff:
  assumes "ix_grid_ok ix" "i \<le> ix_ceiling ix"
  shows "flt (ix_start ix i) (event_horizon e) \<longleftrightarrow> int i \<le> last_overlapping ix e"
proof -
  define b where "b = bisect (\<lambda>i. \<not> flt (ix_start ix i) (event_horizon e)) 0 (ix_ceiling ix + 1)"
  have "0 \<le> b \<and> b \<le> ix_ceiling ix + 1
      \<and> (\<forall>i. 0 \<le> i \<and> i < ix_ceiling ix + 1 \<longrightarrow> (\<not> flt (ix_start ix i) (event_horizon e) \<longleftrightarrow> b \<le> i))"
    unfolding b_def
  proof (rule bisect_correct)
    show "\<not> flt (ix_start ix j) (event_horizon e)"
      if "0 \<le> i" "i \<le> j" "j < ix_ceiling ix + 1" "\<not> flt (ix_start ix i) (event_horizon e)" for i j
      using that grid_start_mono [of "ix_origin ix" "ix_window ix" "ix_hop ix" "ix_ceiling ix" j i] assms(1)
      by (auto simp: ix_grid_ok_def ix_start_def intro: fle_flt_trans)
  qed simp
  then have "(\<not> flt (ix_start ix i) (event_horizon e)) = (b \<le> i)" using assms(2) by simp
  then show ?thesis unfolding last_overlapping_def b_def [symmetric] by auto
qed

definition in_range :: "interval_index \<Rightarrow> event \<Rightarrow> nat \<Rightarrow> bool" where
  "in_range ix e i \<longleftrightarrow> first_overlapping ix e \<le> i \<and> int i \<le> last_overlapping ix e"

lemma in_range_iff:
  assumes "ix_grid_ok ix" "i \<le> ix_ceiling ix" "event_ok e"
  shows "in_range ix e i \<longleftrightarrow> overlaps e (ix_start ix i) (ix_end ix i)"
proof -
  have "is_finite (ix_start ix i)" "fvalid (ix_start ix i)"
    using grid_start_facts(2,3) assms(1,2) by (auto simp: ix_grid_ok_def ix_start_def)
  then show ?thesis
    using overlaps_iff [OF assms(3)] first_overlapping_iff [OF assms(1,2)] last_overlapping_iff [OF assms(1,2)]
    by (simp add: in_range_def)
qed

text \<open>The node of a level stands for a window exactly when it is on the path to the root; of
  the nodes of an entry, exactly one is on the path of a window in its range.\<close>

lemma decompose_path:
  "length (filter (\<lambda>k. i div 2 ^ fst k = snd k) (decompose first final)) = (if first \<le> i \<and> int i \<le> final then 1 else 0)"
proof -
  have "(\<lambda>k. i div 2 ^ fst k = snd k) = stabs 0 i" by (auto simp: stabs_def fun_eq_iff)
  then show ?thesis using dyadic_stab [of 0 i first "nat (final + 1)"] by (auto simp: decompose_def)
qed

lemma decompose_distinct_path:
  assumes "(l, i div 2 ^ l) \<in> set (decompose first final)" "(m, i div 2 ^ m) \<in> set (decompose first final)"
  shows "l = m"
proof (rule ccontr)
  assume "l \<noteq> m"
  define xs where "xs = filter (\<lambda>k. i div 2 ^ fst k = snd k) (decompose first final)"
  have "length xs \<le> 1" using decompose_path [of i first final] by (simp add: xs_def)
  moreover have "(l, i div 2 ^ l) \<in> set xs" "(m, i div 2 ^ m) \<in> set xs" using assms by (simp_all add: xs_def)
  ultimately show False using \<open>l \<noteq> m\<close> by (cases xs) auto
qed

lemma distinct_by_filter:
  "(\<And>k. k \<in> set xs \<Longrightarrow> \<exists>P. P k \<and> length (filter P xs) \<le> 1) \<Longrightarrow> distinct xs"
proof (induction xs)
  case (Cons x xs)
  have "x \<notin> set xs"
  proof
    assume x: "x \<in> set xs"
    obtain P where P: "P x" "length (filter P (x # xs)) \<le> 1" using Cons.prems [of x] by auto
    then have "filter P xs = []" by simp
    with x P(1) show False by (auto simp: filter_empty_conv)
  qed
  moreover have "distinct xs"
  proof (rule Cons.IH)
    fix k assume "k \<in> set xs"
    then obtain P where "P k" "length (filter P (x # xs)) \<le> 1" using Cons.prems [of k] by auto
    then show "\<exists>P. P k \<and> length (filter P xs) \<le> 1" by (auto split: if_splits)
  qed
  ultimately show ?case by simp
qed simp

lemma distinct_decompose: "distinct (decompose first final)"
proof (rule distinct_by_filter)
  fix k assume "k \<in> set (decompose first final)"
  have "snd k * 2 ^ fst k div 2 ^ fst k = snd k" by simp
  moreover have "length (filter (\<lambda>j. snd k * 2 ^ fst k div 2 ^ fst j = snd j) (decompose first final)) \<le> 1"
    unfolding decompose_path by simp
  ultimately show "\<exists>P. P k \<and> length (filter P (decompose first final)) \<le> 1"
    by (intro exI [of _ "\<lambda>j. snd k * 2 ^ fst k div 2 ^ fst j = snd j"] conjI)
qed

section \<open>The invariant\<close>

definition entry_ok :: "interval_index \<Rightarrow> pystr \<times> entry \<Rightarrow> bool" where
  "entry_ok ix e \<longleftrightarrow> fst e = ev_id (en_event (snd e)) \<and> event_ok (en_event (snd e))
     \<and> en_first (snd e) = first_overlapping ix (en_event (snd e))
     \<and> en_last (snd e) = last_overlapping ix (en_event (snd e))"

definition node_at :: "interval_index \<Rightarrow> nat \<times> nat \<Rightarrow> pystr \<Rightarrow> event option" where
  "node_at ix k i = (case dget (ix_live ix) i of
      None \<Rightarrow> None | Some en \<Rightarrow> if k \<in> set (entry_nodes ix en) then Some (en_event en) else None)"

definition index_core :: "interval_index \<Rightarrow> bool" where
  "index_core ix \<longleftrightarrow> ix_grid_ok ix \<and> dict_ok (ix_live ix) \<and> (\<forall>e\<in>set (ix_live ix). entry_ok ix e)
     \<and> length (ix_live ix) \<le> MAX_EVENTS
     \<and> dict_ok (ix_nodes ix) \<and> (\<forall>e\<in>set (ix_nodes ix). snd e \<noteq> [] \<and> dict_ok (snd e) \<and> fst (fst e) \<le> ix_top ix)
     \<and> (\<forall>k i. dget (bucket_at (ix_nodes ix) k) i = node_at ix k i)"

definition expiry_of :: "(pystr, entry) dict \<Rightarrow> (int \<times> pystr) list" where
  "expiry_of live = map (\<lambda>e. (en_last (snd e), fst e)) live"

definition index_inv :: "interval_index \<Rightarrow> bool" where
  "index_inv ix \<longleftrightarrow> index_core ix \<and> sorted (ix_expiry ix) \<and> mset (ix_expiry ix) = mset (expiry_of (ix_live ix))"

definition ix_grid :: "interval_index \<Rightarrow> pyfloat \<times> pyfloat \<times> pyfloat \<times> nat" where
  "ix_grid ix = (ix_origin ix, ix_window ix, ix_hop ix, ix_ceiling ix)"

lemma same_grid:
  assumes "ix_grid ix = ix_grid ix'"
  shows "ix_start ix = ix_start ix'" "ix_end ix = ix_end ix'" "ix_ceiling ix = ix_ceiling ix'" "ix_grid_ok ix = ix_grid_ok ix'"
    "first_overlapping ix = first_overlapping ix'" "last_overlapping ix = last_overlapping ix'"
    "entry_nodes ix = entry_nodes ix'" "entry_ok ix = entry_ok ix'" "in_range ix = in_range ix'"
proof -
  show s: "ix_start ix = ix_start ix'" "ix_ceiling ix = ix_ceiling ix'" "ix_end ix = ix_end ix'" "ix_grid_ok ix = ix_grid_ok ix'"
    using assms by (auto simp: ix_grid_def ix_start_def ix_end_def ix_grid_ok_def fun_eq_iff)
  have w: "ix_window ix = ix_window ix'" using assms by (simp add: ix_grid_def)
  show f: "first_overlapping ix = first_overlapping ix'" "last_overlapping ix = last_overlapping ix'"
    "entry_nodes ix = entry_nodes ix'"
    by (auto simp: first_overlapping_def last_overlapping_def entry_nodes_def s w fun_eq_iff)
  show "entry_ok ix = entry_ok ix'" "in_range ix = in_range ix'"
    by (auto simp: entry_ok_def in_range_def f fun_eq_iff)
qed

lemma make_index_inv:
  assumes "make_index origin window hop n = Inr ix"
  shows "index_inv ix" "live_events ix = []"
proof -
  obtain c where c: "alignment_config_check (grid_config origin window hop n) = Inr c"
    "ix = \<lparr>ix_origin = ac_origin c, ix_window = ac_window c, ix_hop = ac_hop c, ix_ceiling = ac_max_windows c,
            ix_live = [], ix_nodes = [], ix_expiry = [], ix_top = 0, ix_examined = 0\<rparr>"
    using assms by (auto simp: make_index_def)
  show "index_inv ix" "live_events ix = []"
    using config_check_grid [OF c(1)]
    by (simp_all add: c(2) index_inv_def index_core_def ix_grid_ok_def bucket_at_def node_at_def expiry_of_def live_events_def)
qed

section \<open>Insertion\<close>

lemma bucket_at_dput: "bucket_at (dput k b nodes) j = (if j = k then b else bucket_at nodes j)"
  by (simp add: bucket_at_def)

lemma fold_add_node:
  "dget (bucket_at (fold (add_node e) ks nodes) k) i =
     (if k \<in> set ks \<and> i = ev_id e then Some e else dget (bucket_at nodes k) i)"
  by (induction ks arbitrary: nodes) (auto simp: add_node_def bucket_at_dput)

lemma fold_add_node_ok:
  assumes "dict_ok nodes" "\<forall>x\<in>set nodes. snd x \<noteq> [] \<and> dict_ok (snd x) \<and> fst (fst x) \<le> tp"
  shows "dict_ok (fold (add_node e) ks nodes) \<and> (\<forall>x\<in>set (fold (add_node e) ks nodes). snd x \<noteq> [] \<and> dict_ok (snd x)
      \<and> fst (fst x) \<le> fold (\<lambda>k. max (fst k)) ks tp)"
  using assms
proof (induction ks arbitrary: nodes tp)
  case (Cons k ks)
  have b: "dict_ok (bucket_at nodes k)"
    using Cons.prems by (auto simp: bucket_at_def dict_ok_map_of_iff split: option.splits)
  have ne: "dput i v d \<noteq> []" for i v and d :: bucket by (induction d) (auto split: if_splits)
  have "dict_ok (add_node e k nodes)" using Cons.prems by (simp add: add_node_def)
  moreover have "\<forall>x\<in>set (add_node e k nodes). snd x \<noteq> [] \<and> dict_ok (snd x) \<and> fst (fst x) \<le> max (fst k) tp"
    using Cons.prems b ne by (auto simp: add_node_def set_dput)
  ultimately show ?case using Cons.IH [of "add_node e k nodes" "max (fst k) tp"] by simp
qed simp

lemma insert_validated_Inr:
  assumes p: "insert_validated ix e = Inr ix'" and inv: "index_inv ix" and e: "event_ok e"
  shows "index_inv ix' \<and> ix_grid ix' = ix_grid ix \<and> live_events ix' = live_events ix @ [e]
    \<and> ev_id e \<notin> ev_id ` set (live_events ix) \<and> ix_examined ix' = ix_examined ix"
proof -
  define en where "en = \<lparr>en_event = e, en_first = first_overlapping ix e, en_last = last_overlapping ix e\<rparr>"
  have len: "length (ix_live ix) \<noteq> MAX_EVENTS" and new: "dget (ix_live ix) (ev_id e) = None"
    and ix': "ix' = ix\<lparr>ix_live := dput (ev_id e) en (ix_live ix), ix_expiry := insort (en_last en, ev_id e) (ix_expiry ix),
        ix_nodes := fold (add_node e) (entry_nodes ix en) (ix_nodes ix),
        ix_top := fold (\<lambda>k. max (fst k)) (entry_nodes ix en) (ix_top ix)\<rparr>"
    using p by (auto simp: insert_validated_def Let_def en_def split: if_splits)
  have core: "index_core ix" using inv by (simp add: index_inv_def)
  have g: "ix_grid ix' = ix_grid ix" by (simp add: ix' ix_grid_def)
  note sg = same_grid [OF g]
  have live: "ix_live ix' = ix_live ix @ [(ev_id e, en)]" using new by (simp add: ix' dput_new dget_None_iff)
  have nodes: "dict_ok (ix_nodes ix') \<and> (\<forall>x\<in>set (ix_nodes ix'). snd x \<noteq> [] \<and> dict_ok (snd x) \<and> fst (fst x) \<le> ix_top ix')"
    using fold_add_node_ok [of "ix_nodes ix" "ix_top ix" e "entry_nodes ix en"] core by (simp add: ix' index_core_def)
  have ns: "ix_nodes ix' = fold (add_node e) (entry_nodes ix' en) (ix_nodes ix)" unfolding sg(7) by (simp add: ix')
  have old: "dget (bucket_at (ix_nodes ix) k) i = node_at ix k i" for k i using core unfolding index_core_def by blast
  have at: "dget (bucket_at (ix_nodes ix') k) i = node_at ix' k i" for k i
    unfolding ns fold_add_node node_at_def live old sg(7)
    using new by (auto simp: en_def split: option.splits)
  have "index_core ix'"
    using core e nodes at len new unfolding index_core_def sg live
    by (auto simp: dict_ok_def entry_ok_def en_def dget_None_iff sg)
  moreover have "sorted (ix_expiry ix') \<and> mset (ix_expiry ix') = mset (expiry_of (ix_live ix'))"
    using inv by (simp add: index_inv_def live expiry_of_def) (simp add: ix' sorted_insort)
  moreover have "ev_id e \<notin> ev_id ` set (live_events ix)"
    using new core by (force simp: live_events_def index_core_def entry_ok_def dget_None_iff)
  ultimately show ?thesis using g by (simp add: index_inv_def live_events_def live en_def) (simp add: ix')
qed

section \<open>Queries answer as a scan\<close>

lemma index_core_at: "index_core ix \<Longrightarrow> dget (bucket_at (ix_nodes ix) k) i = node_at ix k i"
  unfolding index_core_def by blast

lemma index_core_bucket: "index_core ix \<Longrightarrow> dict_ok (bucket_at (ix_nodes ix) k)"
  by (auto simp: index_core_def bucket_at_def dict_ok_map_of_iff split: option.splits)

lemma in_bucket_iff:
  assumes "index_core ix"
  shows "e \<in> snd ` set (bucket_at (ix_nodes ix) k)
    \<longleftrightarrow> (\<exists>i en. (i, en) \<in> set (ix_live ix) \<and> e = en_event en \<and> k \<in> set (entry_nodes ix en))"
proof -
  have d: "dict_ok (ix_live ix)" using assms by (simp add: index_core_def)
  have "e \<in> snd ` set (bucket_at (ix_nodes ix) k) \<longleftrightarrow> (\<exists>i. dget (bucket_at (ix_nodes ix) k) i = Some e)"
    using index_core_bucket [OF assms, of k] by (force simp: dict_ok_map_of_iff)
  also have "\<dots> \<longleftrightarrow> (\<exists>i en. dget (ix_live ix) i = Some en \<and> e = en_event en \<and> k \<in> set (entry_nodes ix en))"
    unfolding index_core_at [OF assms] node_at_def by (auto split: option.splits)
  finally show ?thesis using d by (simp add: dict_ok_map_of_iff)
qed

lemma node_level_le_top:
  assumes "index_core ix" "(i, en) \<in> set (ix_live ix)" "k \<in> set (entry_nodes ix en)"
  shows "fst k \<le> ix_top ix"
proof -
  have "en_event en \<in> snd ` set (bucket_at (ix_nodes ix) k)" using in_bucket_iff [OF assms(1)] assms(2,3) by blast
  then obtain b where "dget (ix_nodes ix) k = Some b" by (cases "dget (ix_nodes ix) k") (auto simp: bucket_at_def)
  then show ?thesis using assms(1) by (auto simp: index_core_def dict_ok_map_of_iff)
qed

lemma distinct_concat_map:
  "distinct ls \<Longrightarrow> (\<And>l. l \<in> set ls \<Longrightarrow> distinct (f l))
    \<Longrightarrow> (\<And>l m. l \<in> set ls \<Longrightarrow> m \<in> set ls \<Longrightarrow> l \<noteq> m \<Longrightarrow> set (f l) \<inter> set (f m) = {}) \<Longrightarrow> distinct (concat (map f ls))"
  by (induction ls) auto

lemma live_ids:
  assumes "index_core ix"
  shows "map ev_id (live_events ix) = dkeys (ix_live ix)" "distinct (map ev_id (live_events ix))"
    "\<forall>e\<in>set (live_events ix). event_ok e"
proof -
  have "map ev_id (live_events ix) = map fst (ix_live ix)"
    using assms by (auto simp: live_events_def index_core_def entry_ok_def)
  then show "map ev_id (live_events ix) = dkeys (ix_live ix)" "distinct (map ev_id (live_events ix))"
    using assms by (simp_all add: index_core_def dict_ok_def)
  show "\<forall>e\<in>set (live_events ix). event_ok e"
    using assms by (auto simp: live_events_def index_core_def entry_ok_def)
qed

lemma entry_on_path:
  assumes "index_core ix" "(j, en) \<in> set (ix_live ix)" "i < ix_ceiling ix"
  shows "(\<exists>l. (l, i div 2 ^ l) \<in> set (entry_nodes ix en)) \<longleftrightarrow> overlaps (en_event en) (ix_start ix i) (ix_end ix i)"
proof -
  have e: "entry_ok ix (j, en)" and g: "ix_grid_ok ix" using assms(1,2) by (auto simp: index_core_def)
  have "(\<exists>l. (l, i div 2 ^ l) \<in> set (entry_nodes ix en)) \<longleftrightarrow> filter (\<lambda>k. i div 2 ^ fst k = snd k) (entry_nodes ix en) \<noteq> []"
    by (auto simp: filter_empty_conv) force
  also have "\<dots> \<longleftrightarrow> length (filter (\<lambda>k. i div 2 ^ fst k = snd k) (entry_nodes ix en)) \<noteq> 0" by simp
  also have "\<dots> \<longleftrightarrow> in_range ix (en_event en) i"
    unfolding entry_nodes_def decompose_path using e assms(3) by (auto simp: in_range_def entry_ok_def)
  also have "\<dots> \<longleftrightarrow> overlaps (en_event en) (ix_start ix i) (ix_end ix i)"
    using e assms(3) by (intro in_range_iff [OF g]) (simp_all add: entry_ok_def)
  finally show ?thesis .
qed

lemma matching_scan:
  assumes inv: "index_core ix" and i: "i < ix_ceiling ix"
  shows "mset (matching_events ix i) = mset (filter (\<lambda>e. overlaps e (ix_start ix i) (ix_end ix i)) (live_events ix))"
proof -
  define f where "f = (\<lambda>l. map snd (bucket_at (ix_nodes ix) (l, i div 2 ^ l)))"
  have m: "matching_events ix i = concat (map f [0..<ix_top ix + 1])" by (simp only: matching_events_def f_def)
  have mem: "e \<in> set (f l) \<longleftrightarrow> (\<exists>j en. (j, en) \<in> set (ix_live ix) \<and> e = en_event en \<and> (l, i div 2 ^ l) \<in> set (entry_nodes ix en))" for e l
    using in_bucket_iff [OF inv, of e "(l, i div 2 ^ l)"] by (simp add: f_def)
  have ent: "entry_ok ix (j, en)" if "(j, en) \<in> set (ix_live ix)" for j en
    using inv that by (auto simp: index_core_def)
  have d: "dict_ok (ix_live ix)" using inv by (simp add: index_core_def)
  have one: "en = en'" if "(j, en) \<in> set (ix_live ix)" "(j', en') \<in> set (ix_live ix)" "en_event en = en_event en'" for j j' en en'
    using ent [OF that(1)] ent [OF that(2)] that d by (auto simp: entry_ok_def dict_ok_def dest: eq_key_imp_eq_value)
  have "distinct (matching_events ix i)"
    unfolding m
  proof (rule distinct_concat_map)
    fix l :: nat
    show "distinct (f l)"
    proof -
      have b: "dict_ok (bucket_at (ix_nodes ix) (l, i div 2 ^ l))" by (rule index_core_bucket [OF inv])
      have id: "fst x = ev_id (snd x)" if "x \<in> set (bucket_at (ix_nodes ix) (l, i div 2 ^ l))" for x
      proof -
        have "dget (bucket_at (ix_nodes ix) (l, i div 2 ^ l)) (fst x) = Some (snd x)"
          using that b by (simp add: dict_ok_map_of_iff)
        then obtain en where "dget (ix_live ix) (fst x) = Some en" "snd x = en_event en"
          unfolding index_core_at [OF inv] node_at_def by (auto split: option.splits if_splits)
        then show ?thesis using ent d by (simp add: dict_ok_map_of_iff) (fastforce simp: entry_ok_def)
      qed
      have "map ev_id (f l) = dkeys (bucket_at (ix_nodes ix) (l, i div 2 ^ l))" using id by (simp add: f_def)
      then show ?thesis using b distinct_map [of ev_id "f l"] by (simp add: dict_ok_def)
    qed
  next
    fix l m :: nat assume "l \<noteq> m"
    show "set (f l) \<inter> set (f m) = {}"
    proof (rule ccontr)
      assume "set (f l) \<inter> set (f m) \<noteq> {}"
      then obtain e where e: "e \<in> set (f l)" "e \<in> set (f m)" by auto
      obtain j en where a: "(j, en) \<in> set (ix_live ix)" "e = en_event en" "(l, i div 2 ^ l) \<in> set (entry_nodes ix en)"
        using e(1) unfolding mem by auto
      obtain j' en' where b: "(j', en') \<in> set (ix_live ix)" "e = en_event en'" "(m, i div 2 ^ m) \<in> set (entry_nodes ix en')"
        using e(2) unfolding mem by auto
      have "en = en'" using one [OF a(1) b(1)] a(2) b(2) by simp
      with a(3) b(3) have "(l, i div 2 ^ l) \<in> set (entry_nodes ix en)" "(m, i div 2 ^ m) \<in> set (entry_nodes ix en)" by simp_all
      then show False using \<open>l \<noteq> m\<close> decompose_distinct_path unfolding entry_nodes_def by blast
    qed
  qed simp
  moreover have "distinct (filter (\<lambda>e. overlaps e (ix_start ix i) (ix_end ix i)) (live_events ix))"
    using live_ids(2) [OF inv] by (simp add: distinct_map)
  moreover have "set (matching_events ix i) = set (filter (\<lambda>e. overlaps e (ix_start ix i) (ix_end ix i)) (live_events ix))"
  proof (rule set_eqI)
    fix e
    have "e \<in> set (matching_events ix i) \<longleftrightarrow> (\<exists>l\<le>ix_top ix. e \<in> set (f l))"
      unfolding m set_concat set_map set_upt by (force simp: less_Suc_eq_le)
    also have "\<dots> \<longleftrightarrow> (\<exists>j en. (j, en) \<in> set (ix_live ix) \<and> e = en_event en \<and> (\<exists>l. (l, i div 2 ^ l) \<in> set (entry_nodes ix en)))"
      unfolding mem using node_level_le_top [OF inv] by fastforce
    also have "\<dots> \<longleftrightarrow> (\<exists>j en. (j, en) \<in> set (ix_live ix) \<and> e = en_event en \<and> overlaps e (ix_start ix i) (ix_end ix i))"
      using entry_on_path [OF inv _ i] by blast
    also have "\<dots> \<longleftrightarrow> e \<in> set (filter (\<lambda>e. overlaps e (ix_start ix i) (ix_end ix i)) (live_events ix))"
      by (force simp: live_events_def)
    finally show "e \<in> set (matching_events ix i) \<longleftrightarrow> e \<in> set (filter (\<lambda>e. overlaps e (ix_start ix i) (ix_end ix i)) (live_events ix))" .
  qed
  ultimately show ?thesis using set_eq_iff_mset_eq_distinct by blast
qed

section \<open>Expiry\<close>

lemma mset_ddel: "dict_ok d \<Longrightarrow> dget d i = Some v \<Longrightarrow> mset d = add_mset (i, v) (mset (ddel i d))"
proof (induction d)
  case (Cons e d)
  show ?case
  proof (cases "fst e = i")
    case True
    then have "i \<notin> set (dkeys d)" using Cons.prems(1) by (auto simp: dict_ok_def)
    then have "ddel i (e # d) = d" using True ddel_not_in [of i d] by (simp add: ddel_def)
    then show ?thesis using True Cons.prems(2) by (cases e) auto
  next
    case False
    then have "dget d i = Some v" "dict_ok d" using Cons.prems by (cases e; auto simp: dict_ok_def)+
    then show ?thesis using Cons.IH False by (simp add: ddel_def)
  qed
qed simp

definition nodes_ok :: "nat \<Rightarrow> (nat \<times> nat, bucket) dict \<Rightarrow> bool" where
  "nodes_ok tp nodes \<longleftrightarrow> dict_ok nodes \<and> (\<forall>e\<in>set nodes. snd e \<noteq> [] \<and> dict_ok (snd e) \<and> fst (fst e) \<le> tp)"

lemma remove_node_ok:
  assumes "nodes_ok tp nodes" "dget (bucket_at nodes k) i \<noteq> None"
  shows "\<exists>nodes'. remove_node i k nodes = Inr nodes' \<and> nodes_ok tp nodes'
    \<and> (\<forall>j m. dget (bucket_at nodes' m) j = (if m = k \<and> j = i then None else dget (bucket_at nodes m) j))"
proof -
  obtain b where b: "dget nodes k = Some b" "dget b i \<noteq> None" using assms(2) by (auto simp: bucket_at_def split: option.splits)
  have bo: "dict_ok b" "fst k \<le> tp" using assms(1) b(1) by (auto simp: nodes_ok_def dict_ok_map_of_iff)
  define nodes' where "nodes' = (if ddel i b = [] then ddel k nodes else dput k (ddel i b) nodes)"
  have "remove_node i k nodes = Inr nodes'" using b by (simp add: remove_node_def Let_def nodes'_def)
  moreover have "nodes_ok tp nodes'"
    using assms(1) bo by (auto simp: nodes_ok_def nodes'_def set_dput) (auto simp: ddel_def)
  moreover have "bucket_at nodes' m = (if m = k then ddel i b else bucket_at nodes m)" for m
    by (simp add: nodes'_def bucket_at_def)
  then have "dget (bucket_at nodes' m) j = (if m = k \<and> j = i then None else dget (bucket_at nodes m) j)" for m j
    using b(1) by (simp add: bucket_at_def)
  ultimately show ?thesis by blast
qed

lemma fold_remove_node:
  assumes "nodes_ok tp nodes" "distinct ks" "\<And>k. k \<in> set ks \<Longrightarrow> dget (bucket_at nodes k) i \<noteq> None"
  shows "\<exists>nodes'. fold_res (remove_node i) ks nodes = Inr nodes' \<and> nodes_ok tp nodes'
    \<and> (\<forall>j m. dget (bucket_at nodes' m) j = (if m \<in> set ks \<and> j = i then None else dget (bucket_at nodes m) j))"
  using assms
proof (induction ks arbitrary: nodes)
  case (Cons k ks)
  obtain n1 where n1: "remove_node i k nodes = Inr n1" "nodes_ok tp n1"
      "\<And>j m. dget (bucket_at n1 m) j = (if m = k \<and> j = i then None else dget (bucket_at nodes m) j)"
    using remove_node_ok [OF Cons.prems(1) Cons.prems(3) [of k]] by auto
  have "\<exists>nodes'. fold_res (remove_node i) ks n1 = Inr nodes' \<and> nodes_ok tp nodes'
    \<and> (\<forall>j m. dget (bucket_at nodes' m) j = (if m \<in> set ks \<and> j = i then None else dget (bucket_at n1 m) j))"
    by (rule Cons.IH) (use n1 Cons.prems in auto)
  then show ?case using n1(1,3) by auto
qed simp

lemma index_core_intro:
  assumes "ix_grid_ok ix" "dict_ok (ix_live ix)" "\<forall>e\<in>set (ix_live ix). entry_ok ix e" "length (ix_live ix) \<le> MAX_EVENTS"
    "nodes_ok (ix_top ix) (ix_nodes ix)" "\<And>k i. dget (bucket_at (ix_nodes ix) k) i = node_at ix k i"
  shows "index_core ix"
  using assms unfolding index_core_def nodes_ok_def by blast

lemma prune_loop_ok:
  assumes "index_core ix" "sorted xs" "mset xs = mset (expiry_of (ix_live ix))"
  shows "\<exists>ix'. prune_loop k xs ix = Inr ix' \<and> index_inv ix' \<and> ix_grid ix' = ix_grid ix
    \<and> ix_live ix' = filter (\<lambda>e. int k \<le> en_last (snd e)) (ix_live ix) \<and> ix_examined ix' = ix_examined ix"
  using assms
proof (induction xs arbitrary: ix)
  case Nil
  then have "ix_live ix = []" by (simp add: expiry_of_def)
  moreover have g: "ix_grid (ix\<lparr>ix_expiry := []\<rparr>) = ix_grid ix" by (simp add: ix_grid_def)
  have "index_core (ix\<lparr>ix_expiry := []\<rparr>)"
    using Nil.prems(1) unfolding index_core_def node_at_def same_grid [OF g] by simp
  ultimately show ?case using g by (simp add: index_inv_def expiry_of_def)
next
  case (Cons x xs)
  obtain z i where x: "x = (z, i)" by (cases x)
  have d: "dict_ok (ix_live ix)" and go: "ix_grid_ok ix" and ent: "\<forall>e\<in>set (ix_live ix). entry_ok ix e"
    and len: "length (ix_live ix) \<le> MAX_EVENTS" and no: "nodes_ok (ix_top ix) (ix_nodes ix)"
    using Cons.prems(1) by (simp_all add: index_core_def nodes_ok_def)
  have "x \<in> set (expiry_of (ix_live ix))" using Cons.prems(3) by (metis list.set_intros(1) set_mset_mset)
  then obtain en where en: "(i, en) \<in> set (ix_live ix)" "en_last en = z" by (auto simp: expiry_of_def x)
  then have get: "dget (ix_live ix) i = Some en" using d by (simp add: dict_ok_map_of_iff)
  show ?case
  proof (cases "z < int k")
    case True
    have "dget (bucket_at (ix_nodes ix) m) i \<noteq> None" if "m \<in> set (entry_nodes ix en)" for m
      unfolding index_core_at [OF Cons.prems(1)] node_at_def using get that by simp
    then obtain nodes' where n: "fold_res (remove_node i) (entry_nodes ix en) (ix_nodes ix) = Inr nodes'" "nodes_ok (ix_top ix) nodes'"
        "\<And>j m. dget (bucket_at nodes' m) j = (if m \<in> set (entry_nodes ix en) \<and> j = i then None else node_at ix m j)"
      using fold_remove_node [OF no, of "entry_nodes ix en" i] distinct_decompose index_core_at [OF Cons.prems(1)]
      unfolding entry_nodes_def by auto
    define ix1 where "ix1 = ix\<lparr>ix_live := ddel i (ix_live ix), ix_nodes := nodes'\<rparr>"
    have g: "ix_grid ix1 = ix_grid ix" by (simp add: ix1_def ix_grid_def)
    note sg = same_grid [OF g]
    have live1: "ix_live ix1 = ddel i (ix_live ix)" "ix_nodes ix1 = nodes'" "ix_top ix1 = ix_top ix" "ix_examined ix1 = ix_examined ix"
      by (simp_all add: ix1_def)
    have at: "dget (bucket_at (ix_nodes ix1) m) j = node_at ix1 m j" for m j
      unfolding live1 n node_at_def sg using get by (auto split: option.splits)
    have "length (ix_live ix1) \<le> MAX_EVENTS" unfolding live1 ddel_def
      using len length_filter_le [of "\<lambda>kv. fst kv \<noteq> i" "ix_live ix"] by linarith
    moreover have "ix_grid_ok ix1" "dict_ok (ix_live ix1)" "nodes_ok (ix_top ix1) (ix_nodes ix1)"
      using go d n(2) by (simp_all add: sg live1)
    moreover have "\<forall>e\<in>set (ix_live ix1). entry_ok ix1 e" using ent by (simp add: sg live1 ddel_def)
    ultimately have "index_core ix1" using at by (intro index_core_intro)
    moreover have "mset xs = mset (expiry_of (ix_live ix1))"
    proof -
      have "mset (expiry_of (ix_live ix)) = add_mset (z, i) (mset (expiry_of (ddel i (ix_live ix))))"
        using mset_ddel [OF d get] en(2) by (simp add: expiry_of_def)
      then show ?thesis using Cons.prems(3) by (simp add: x live1)
    qed
    moreover have "sorted xs" using Cons.prems(2) by simp
    ultimately obtain ix' where ix': "prune_loop k xs ix1 = Inr ix'" "index_inv ix'" "ix_grid ix' = ix_grid ix1"
        "ix_live ix' = filter (\<lambda>e. int k \<le> en_last (snd e)) (ix_live ix1)" "ix_examined ix' = ix_examined ix1"
      using Cons.IH [of ix1] by blast
    have "prune_loop k (x # xs) ix = Inr ix'" using True get n(1) ix'(1) by (simp add: x ix1_def)
    moreover have "filter (\<lambda>e. int k \<le> en_last (snd e)) (ddel i (ix_live ix)) = filter (\<lambda>e. int k \<le> en_last (snd e)) (ix_live ix)"
      unfolding ddel_def filter_filter
    proof (rule filter_cong [OF refl])
      fix e assume e: "e \<in> set (ix_live ix)"
      show "(fst e \<noteq> i \<and> int k \<le> en_last (snd e)) = (int k \<le> en_last (snd e))"
      proof (cases "fst e = i")
        case eq: True
        then have "dget (ix_live ix) i = Some (snd e)" using e d by (cases e) (simp add: dict_ok_map_of_iff)
        then have "snd e = en" using get by simp
        then show ?thesis using en(2) \<open>z < int k\<close> by simp
      qed simp
    qed
    ultimately show ?thesis using ix'(2-5) g by (simp add: live1)
  next
    case False
    have "int k \<le> en_last (snd e)" if "e \<in> set (ix_live ix)" for e
    proof -
      have "(en_last (snd e), fst e) \<in> set (expiry_of (ix_live ix))" using that by (auto simp: expiry_of_def)
      then have "(en_last (snd e), fst e) \<in> set (x # xs)" using Cons.prems(3) by (metis set_mset_mset)
      then have "x \<le> (en_last (snd e), fst e)" using Cons.prems(2) by auto
      then show ?thesis using False by (auto simp: x less_eq_prod_def)
    qed
    then have "filter (\<lambda>e. int k \<le> en_last (snd e)) (ix_live ix) = ix_live ix" by simp
    moreover have g: "ix_grid (ix\<lparr>ix_expiry := x # xs\<rparr>) = ix_grid ix" by (simp add: ix_grid_def)
    moreover have "index_core (ix\<lparr>ix_expiry := x # xs\<rparr>)"
      using Cons.prems(1) unfolding index_core_def node_at_def same_grid [OF g] by simp
    ultimately show ?thesis using False Cons.prems by (simp add: x index_inv_def)
  qed
qed

lemma prune_ok:
  assumes "index_inv ix" "k \<le> ix_ceiling ix"
  shows "\<exists>ix'. prune ix k = Inr ix' \<and> index_inv ix' \<and> ix_grid ix' = ix_grid ix \<and> ix_examined ix' = ix_examined ix
    \<and> live_events ix' = filter (\<lambda>e. int k \<le> last_overlapping ix e) (live_events ix)"
proof -
  obtain ix' where ix': "prune_loop k (ix_expiry ix) ix = Inr ix'" "index_inv ix'" "ix_grid ix' = ix_grid ix"
      "ix_live ix' = filter (\<lambda>e. int k \<le> en_last (snd e)) (ix_live ix)" "ix_examined ix' = ix_examined ix"
    using prune_loop_ok [of ix "ix_expiry ix" k] assms(1) by (auto simp: index_inv_def)
  have "filter (\<lambda>e. int k \<le> en_last (snd e)) (ix_live ix)
      = filter (\<lambda>e. int k \<le> last_overlapping ix (en_event (snd e))) (ix_live ix)"
    using assms(1) by (intro filter_cong) (auto simp: index_inv_def index_core_def entry_ok_def)
  then have "live_events ix' = filter (\<lambda>e. int k \<le> last_overlapping ix e) (live_events ix)"
    by (simp add: live_events_def ix'(4) filter_map comp_def)
  then show ?thesis using ix' assms(2) by (simp add: prune_def)
qed

lemma clear_index_inv:
  assumes "index_inv ix"
  shows "index_inv (clear_index ix)" "live_events (clear_index ix) = []" "ix_grid (clear_index ix) = ix_grid ix"
proof -
  show g: "ix_grid (clear_index ix) = ix_grid ix" by (simp add: clear_index_def ix_grid_def)
  show "index_inv (clear_index ix)"
    using assms unfolding index_inv_def index_core_def same_grid [OF g]
    by (simp add: clear_index_def expiry_of_def bucket_at_def node_at_def)
  show "live_events (clear_index ix) = []" by (simp add: clear_index_def live_events_def)
qed

end
