(* ===== verification/Aligner.thy ===== *)
theory Aligner
  imports Interval_Index_Laws
begin

text \<open>
  \<open>aligner.py\<close>: the streaming aligner. An event is normalised by the correction of its
  stream, tested against the closed output, previewed together with the committed events of the
  index and then committed; the watermark is the least maximum over the required streams.
\<close>

section \<open>State\<close>

datatype track_status = TTracked | TDropped | TAcceptedLate

record tracked =
  tk_id :: pystr
  tk_horizon :: pyfloat
  tk_status :: track_status

record aligner =
  al_config :: alignment_config
  al_index :: interval_index
  al_retention :: retention_policy
  al_seen :: "pystr set"
  al_order :: "tracked list"
  al_assigned :: "pystr set"
  al_max :: "(pystr, pyfloat) dict"
  al_start :: pyfloat
  al_next :: nat
  al_dropped :: "pystr list"
  al_late :: "pystr list"
  al_unassigned :: "pystr list"
  al_released :: nat
  al_reported :: nat
  al_closed :: bool

definition validated_retention :: "alignment_config \<Rightarrow> retention_policy option \<Rightarrow> retention_policy res" where
  "validated_retention c r =
     (case r of
        None \<Rightarrow> Inr default_retention
      | Some p \<Rightarrow> rbind (retention_check p) (\<lambda>p.
          if flt (rp_horizon p) (ac_window c) then Inl ValidationError else Inr p))"

definition make_aligner :: "alignment_config \<Rightarrow> retention_policy option \<Rightarrow> aligner res" where
  "make_aligner raw r =
     rbind (alignment_config_check raw) (\<lambda>c.
     rbind (make_index (ac_origin c) (ac_window c) (ac_hop c) (ac_max_windows c)) (\<lambda>ix.
     rbind (validated_retention c r) (\<lambda>p.
       Inr \<lparr>al_config = c, al_index = ix, al_retention = p, al_seen = {}, al_order = [], al_assigned = {}, al_max = [],
            al_start = ac_origin c, al_next = 0, al_dropped = [], al_late = [], al_unassigned = [],
            al_released = 0, al_reported = 0, al_closed = False\<rparr>)))"

section \<open>Watermarks and corrections\<close>

definition watermark_for :: "alignment_config \<Rightarrow> (pystr, pyfloat) dict \<Rightarrow> pyfloat option" where
  "watermark_for c seen =
     (if ac_required c = [] \<or> list_ex (\<lambda>s. dget seen s = None) (ac_required c) then None
      else case map (\<lambda>s. the (dget seen s)) (ac_required c) of
             [] \<Rightarrow> None
           | m # ms \<Rightarrow> Some (fsub (fold (\<lambda>x m. fmin m x) ms m) (ac_lateness c)))"

definition watermark :: "aligner \<Rightarrow> pyfloat option" where
  "watermark a = watermark_for (al_config a) (al_max a)"

definition stream_offset :: "alignment_config \<Rightarrow> event \<Rightarrow> pyfloat res" where
  "stream_offset c e =
     (case dget (ac_drifts c) (ev_stream e) of
        None \<Rightarrow> Inr (case dget (ac_offsets c) (ev_stream e) of None \<Rightarrow> Fin 0 | Some x \<Rightarrow> x)
      | Some d \<Rightarrow> offset_at d (ev_time e))"

definition retained_count :: "aligner \<Rightarrow> nat" where
  "retained_count a = card (al_seen a) + al_reported a"

definition unassigned_ids :: "aligner \<Rightarrow> pystr list" where
  "unassigned_ids a = al_unassigned a
     @ map tk_id (filter (\<lambda>t. tk_status t \<noteq> TDropped \<and> tk_id t \<notin> al_assigned a) (al_order a))"

definition closed_horizon :: "aligner \<Rightarrow> pyfloat" where
  "closed_horizon a =
     (if al_next a = 0 then NegInf
      else fadd (grid_start (ac_origin (al_config a)) (ac_hop (al_config a)) (al_next a - 1)) (ac_window (al_config a)))"

section \<open>Building windows\<close>

definition event_key :: "event \<Rightarrow> int \<times> pystr \<times> pystr" where
  "event_key e = (fint (ev_time e), ev_stream e, ev_id e)"

definition missing_streams :: "alignment_config \<Rightarrow> event list \<Rightarrow> pystr list" where
  "missing_streams c es = filter (\<lambda>s. s \<notin> ev_stream ` set es) (ac_required c)"

definition build_window ::
  "alignment_config \<Rightarrow> event list \<Rightarrow> nat \<Rightarrow> pyfloat \<Rightarrow> interval_index \<Rightarrow> aligned_window res \<times> interval_index" where
  "build_window c pending i start ix =
     (let stop = fadd start (ac_window c)
      in case matching ix i of
           Inl x \<Rightarrow> (Inl x, ix)
         | Inr (es, ix') \<Rightarrow>
             let events = sort_key event_key (es @ filter (\<lambda>e. overlaps e start stop) pending)
             in (if ac_max_events c < length events then Inl ValidationError
                 else make_window i start stop events (missing_streams c events), ix'))"

lemma build_window_grid: "ix_grid (snd (build_window c pending i start ix)) = ix_grid ix"
  by (simp add: build_window_def matching_def Let_def ix_grid_def)

lemma build_window_index: "fst (build_window c pending i start ix) = Inr w \<Longrightarrow> i < ix_ceiling ix"
  by (auto simp: build_window_def matching_def Let_def split: if_splits)

text \<open>The loop of both previews: a query beyond the last window raises, so it ends.\<close>

function preview_loop ::
  "(pyfloat \<Rightarrow> bool) \<Rightarrow> alignment_config \<Rightarrow> event list \<Rightarrow> nat \<Rightarrow> pyfloat \<Rightarrow> interval_index
     \<Rightarrow> aligned_window list res \<times> interval_index" where
  "preview_loop again c pending i start ix =
     (if again start
      then (case build_window c pending i start ix of
              (Inl x, ix') \<Rightarrow> (Inl x, ix')
            | (Inr w, ix') \<Rightarrow>
                (case preview_loop again c pending (i + 1) (grid_start (ac_origin c) (ac_hop c) (i + 1)) ix' of
                   (Inl x, ix2) \<Rightarrow> (Inl x, ix2)
                 | (Inr ws, ix2) \<Rightarrow> (Inr (w # ws), ix2)))
      else (Inr [], ix))"
  by pat_completeness auto
termination
proof (relation "measure (\<lambda>(again, c, pending, i, start, ix). ix_ceiling ix - i)", goal_cases)
  case (2 again c pending i start ix r ix' w)
  then have eq: "build_window c pending i start ix = (Inr w, ix')" by simp
  then have "i < ix_ceiling ix" "ix_grid ix' = ix_grid ix"
    using build_window_index [of c pending i start ix w] build_window_grid [of c pending i start ix] by simp_all
  then show ?case by (simp add: ix_grid_def)
qed simp

declare preview_loop.simps [simp del]

definition preview_flush :: "aligner \<Rightarrow> pyfloat \<Rightarrow> aligned_window list res \<times> interval_index" where
  "preview_flush a horizon =
     (let c = al_config a
      in if flt (grid_start (ac_origin c) (ac_hop c) (ac_max_windows c)) horizon then (Inl ValidationError, al_index a)
         else preview_loop (\<lambda>start. flt start horizon) c [] (al_next a) (al_start a) (al_index a))"

definition preview_ready :: "aligner \<Rightarrow> pyfloat \<Rightarrow> event \<Rightarrow> aligned_window list res \<times> interval_index" where
  "preview_ready a wm pending =
     (let c = al_config a
      in if fle (fadd (grid_start (ac_origin c) (ac_hop c) (ac_max_windows c)) (ac_window c)) wm
         then (Inl ValidationError, al_index a)
         else preview_loop (\<lambda>start. fle (fadd start (ac_window c)) wm) c [pending] (al_next a) (al_start a) (al_index a))"

section \<open>Commitment\<close>

definition track :: "event \<Rightarrow> track_status \<Rightarrow> aligner \<Rightarrow> aligner" where
  "track e status a = a\<lparr>al_seen := insert (ev_id e) (al_seen a),
     al_order := al_order a @ [\<lparr>tk_id = ev_id e, tk_horizon = event_horizon e, tk_status = status\<rparr>]\<rparr>"

definition release_record :: "tracked \<Rightarrow> aligner \<Rightarrow> aligner" where
  "release_record t a =
     (let kept = tk_status t = TTracked \<and> tk_id t \<notin> al_assigned a;
          a = a\<lparr>al_seen := al_seen a - {tk_id t}, al_assigned := al_assigned a - {tk_id t}, al_released := al_released a + 1\<rparr>
      in if tk_status t \<noteq> TTracked then a\<lparr>al_reported := al_reported a + 1\<rparr>
         else if kept then a\<lparr>al_unassigned := al_unassigned a @ [tk_id t], al_reported := al_reported a + 1\<rparr>
         else a)"

fun release_records :: "pyfloat \<Rightarrow> tracked list \<Rightarrow> aligner \<Rightarrow> aligner" where
  "release_records frontier [] a = a\<lparr>al_order := []\<rparr>"
| "release_records frontier (t # ts) a =
     (if fle (tk_horizon t) frontier then release_records frontier ts (release_record t a) else a\<lparr>al_order := t # ts\<rparr>)"

definition release :: "aligner \<Rightarrow> aligner" where
  "release a =
     (case watermark a of
        None \<Rightarrow> a
      | Some wm \<Rightarrow> release_records (fsub wm (rp_horizon (al_retention a))) (al_order a) a)"

definition commit_windows :: "aligned_window list \<Rightarrow> aligner \<Rightarrow> unit res \<times> aligner" where
  "commit_windows ws a =
     (let n = al_next a + length ws;
          a = a\<lparr>al_assigned := al_assigned a \<union> (\<Union>w\<in>set ws. ev_id ` set (aw_events w)), al_next := n,
                al_start := grid_start (ac_origin (al_config a)) (ac_hop (al_config a)) n\<rparr>
      in case prune (al_index a) n of
           Inl x \<Rightarrow> (Inl x, a)
         | Inr ix \<Rightarrow> (Inr (), release (a\<lparr>al_index := ix\<rparr>)))"

section \<open>Ingest and flush\<close>

definition normalized_event :: "alignment_config \<Rightarrow> event \<Rightarrow> event res" where
  "normalized_event c e = rbind (stream_offset c e) (shift_event e)"

definition is_obsolete :: "aligner \<Rightarrow> event \<Rightarrow> bool" where
  "is_obsolete a n \<longleftrightarrow> fle (event_horizon n) (al_start a)"

definition is_late :: "aligner \<Rightarrow> event \<Rightarrow> bool" where
  "is_late a n \<longleftrightarrow> is_obsolete a n \<or> flt (ev_time n) (closed_horizon a)"

definition candidate_max :: "aligner \<Rightarrow> event \<Rightarrow> (pystr, pyfloat) dict" where
  "candidate_max a n = dput (ev_stream n)
     (fmax (ev_time n) (case dget (al_max a) (ev_stream n) of None \<Rightarrow> NegInf | Some x \<Rightarrow> x)) (al_max a)"

text \<open>The part of \<open>ingest\<close> after the guards: the preview, then the commitment.\<close>

definition accept_event :: "aligner \<Rightarrow> event \<Rightarrow> aligned_window list res \<times> aligner" where
  "accept_event a n =
     (let seen = candidate_max a n
      in case (case watermark_for (al_config a) seen of
                 None \<Rightarrow> (Inr [], al_index a)
               | Some wm \<Rightarrow> preview_ready a wm n) of
           (Inl x, ix) \<Rightarrow> (Inl x, a\<lparr>al_index := ix\<rparr>)
         | (Inr ws, ix) \<Rightarrow>
             let late = is_late a n;
                 a1 = track n (if late then TAcceptedLate else TTracked) (a\<lparr>al_index := ix\<rparr>);
                 a2 = (if late then a1\<lparr>al_late := al_late a1 @ [ev_id n]\<rparr> else a1)
             in case insert_validated ix n of
                  Inl x \<Rightarrow> (Inl x, a2)
                | Inr ix' \<Rightarrow>
                    (case commit_windows ws (a2\<lparr>al_index := ix', al_max := seen\<rparr>) of
                       (Inl x, a3) \<Rightarrow> (Inl x, a3)
                     | (Inr _, a3) \<Rightarrow> (Inr ws, a3)))"

definition ingest :: "aligner \<Rightarrow> event \<Rightarrow> aligned_window list res \<times> aligner" where
  "ingest a raw =
     (if al_closed a then (Inl ValidationError, a)
      else case snapshot_event raw of
             Inl x \<Rightarrow> (Inl x, a)
           | Inr e \<Rightarrow>
               if ev_id e \<in> al_seen a then (Inl ValidationError, a)
               else if MAX_EVENTS \<le> card (al_seen a) then (Inl ValidationError, a)
               else if rp_max_tracked (al_retention a) \<le> retained_count a then (Inl ValidationError, a)
               else (case normalized_event (al_config a) e of
                       Inl x \<Rightarrow> (Inl x, a)
                     | Inr n \<Rightarrow>
                         if is_late a n \<and> ac_late (al_config a) = LReject then (Inl LateEventError, a)
                         else if is_late a n \<and> (ac_late (al_config a) = LDrop \<or> is_obsolete a n)
                         then (Inr [], (track n TDropped a)\<lparr>al_dropped := al_dropped a @ [ev_id e]\<rparr>)
                         else accept_event a n))"

definition flush :: "aligner \<Rightarrow> aligned_window list res \<times> aligner" where
  "flush a =
     (if al_closed a then (Inr [], a)
      else if ix_live (al_index a) = [] then (Inr [], a\<lparr>al_closed := True\<rparr>)
      else case index_horizon (al_index a) of
             Inl x \<Rightarrow> (Inl x, a)
           | Inr horizon \<Rightarrow>
               (case preview_flush a horizon of
                  (Inl x, ix) \<Rightarrow> (Inl x, a\<lparr>al_index := ix\<rparr>)
                | (Inr ws, ix) \<Rightarrow>
                    (case commit_windows ws (a\<lparr>al_index := ix\<rparr>) of
                       (Inl x, a') \<Rightarrow> (Inl x, a')
                     | (Inr _, a') \<Rightarrow> (Inr ws, a'\<lparr>al_index := clear_index (al_index a'), al_closed := True\<rparr>))))"

datatype aligner_op = AIngest event | AFlush

definition aligner_apply :: "aligner_op \<Rightarrow> aligner \<Rightarrow> aligned_window list res \<times> aligner" where
  "aligner_apply c a = (case c of AIngest e \<Rightarrow> ingest a e | AFlush \<Rightarrow> flush a)"

end
