(* ===== verification/Interval_Index_History.thy ===== *)
theory Interval_Index_History
  imports Interval_Index_Laws Runtime
begin

text \<open>
  The contract between the interval index and the aligner: a store of events that answers, for
  a window, which stored events overlap it, and forgets those that no later window can
  contain. In any store of this kind a query that was not pruned away answers for the whole
  history of insertions.
\<close>

section \<open>The interface\<close>

datatype store_op = SInsert event | SQuery nat | SPrune nat

definition store_apply ::
  "('s \<Rightarrow> event \<Rightarrow> 's res) \<Rightarrow> ('s \<Rightarrow> nat \<Rightarrow> (event list \<times> 's) res) \<Rightarrow> ('s \<Rightarrow> nat \<Rightarrow> 's res)
     \<Rightarrow> store_op \<Rightarrow> 's \<Rightarrow> event list res \<times> 's" where
  "store_apply insertion query pruning c s =
     (case c of
        SInsert e \<Rightarrow> (case insertion s e of Inl x \<Rightarrow> (Inl x, s) | Inr s' \<Rightarrow> (Inr [], s'))
      | SQuery i \<Rightarrow> (case query s i of Inl x \<Rightarrow> (Inl x, s) | Inr (es, s') \<Rightarrow> (Inr es, s'))
      | SPrune k \<Rightarrow> (case pruning s k of Inl x \<Rightarrow> (Inl x, s) | Inr s' \<Rightarrow> (Inr [], s')))"

text \<open>The events whose insertion succeeded, given the answers of the run.\<close>

fun stored :: "store_op list \<Rightarrow> event list res list \<Rightarrow> event list" where
  "stored (SInsert e # cs) (r # rs) = (if succeeded r then e # stored cs rs else stored cs rs)"
| "stored (c # cs) (r # rs) = stored cs rs"
| "stored cs rs = []"

definition store_op_ok :: "nat \<Rightarrow> store_op \<Rightarrow> bool" where
  "store_op_ok i c \<longleftrightarrow> (case c of SInsert e \<Rightarrow> event_ok e | SQuery _ \<Rightarrow> True | SPrune k \<Rightarrow> k \<le> i)"

locale event_store =
  fixes inv :: "'s \<Rightarrow> bool"
    and live :: "'s \<Rightarrow> event list"
    and grid :: "'s \<Rightarrow> 'g"
    and insertion :: "'s \<Rightarrow> event \<Rightarrow> 's res"
    and query :: "'s \<Rightarrow> nat \<Rightarrow> (event list \<times> 's) res"
    and pruning :: "'s \<Rightarrow> nat \<Rightarrow> 's res"
    and hits :: "'g \<Rightarrow> event \<Rightarrow> nat \<Rightarrow> bool"
    and reaches :: "'g \<Rightarrow> event \<Rightarrow> nat \<Rightarrow> bool"
  assumes insertion_ok: "inv s \<Longrightarrow> event_ok e \<Longrightarrow> insertion s e = Inr s' \<Longrightarrow>
      inv s' \<and> grid s' = grid s \<and> live s' = live s @ [e]"
    and query_ok: "inv s \<Longrightarrow> query s i = Inr (es, s') \<Longrightarrow>
      inv s' \<and> grid s' = grid s \<and> live s' = live s \<and> mset es = mset (filter (\<lambda>e. hits (grid s) e i) (live s))"
    and pruning_ok: "inv s \<Longrightarrow> pruning s k = Inr s' \<Longrightarrow>
      inv s' \<and> grid s' = grid s \<and> live s' = filter (\<lambda>e. reaches (grid s) e k) (live s)"
    and hits_reaches: "inv s \<Longrightarrow> event_ok e \<Longrightarrow> query s i = Inr r \<Longrightarrow> hits (grid s) e i \<Longrightarrow> k \<le> i \<Longrightarrow> reaches (grid s) e k"
    and live_ok: "inv s \<Longrightarrow> e \<in> set (live s) \<Longrightarrow> event_ok e"
    and query_total: "inv s \<Longrightarrow> inv s' \<Longrightarrow> grid s = grid s' \<Longrightarrow> succeeded (query s i) = succeeded (query s' i)"
begin

lemma run_history:
  assumes "inv s" "list_all (store_op_ok i) cs" "succeeded (query s i)"
    and "run_ops (store_apply insertion query pruning) cs s = (rs, s')"
  shows "inv s' \<and> grid s' = grid s
    \<and> filter (\<lambda>e. hits (grid s) e i) (live s') = filter (\<lambda>e. hits (grid s) e i) (live s @ stored cs rs)"
  using assms
proof (induction cs arbitrary: s rs)
  case (Cons c cs)
  obtain r s1 where step: "store_apply insertion query pruning c s = (r, s1)" by (cases "store_apply insertion query pruning c s")
  obtain rs1 where rs: "rs = r # rs1" "run_ops (store_apply insertion query pruning) cs s1 = (rs1, s')"
    using Cons.prems(4) step by (auto simp: run_ops_Cons prod_eq_iff)
  obtain q where q: "query s i = Inr q" using Cons.prems(3) by (cases "query s i") auto
  have one: "inv s1 \<and> grid s1 = grid s
      \<and> filter (\<lambda>e. hits (grid s) e i) (live s1) = filter (\<lambda>e. hits (grid s) e i) (live s @ stored [c] [r])"
  proof (cases c)
    case (SInsert e)
    then have "event_ok e" using Cons.prems(2) by (simp add: store_op_ok_def)
    then show ?thesis using step SInsert insertion_ok [OF Cons.prems(1), of e s1] Cons.prems(1)
      by (cases "insertion s e") (simp_all add: store_apply_def, (simp add: succeeded_def split: sum.splits; blast?)+)
  next
    case (SQuery j)
    show ?thesis
    proof (cases "query s j")
      case (Inr q)
      then show ?thesis using step SQuery query_ok [OF Cons.prems(1), of j "fst q" s1]
        by (cases q) (simp add: store_apply_def)
    qed (use step SQuery Cons.prems(1) in \<open>simp add: store_apply_def\<close>)
  next
    case (SPrune k)
    have k: "k \<le> i" using Cons.prems(2) SPrune by (simp add: store_op_ok_def)
    have "filter (\<lambda>e. hits (grid s) e i) (filter (\<lambda>e. reaches (grid s) e k) (live s)) = filter (\<lambda>e. hits (grid s) e i) (live s)"
      unfolding filter_filter
      by (rule filter_cong [OF refl]) (use hits_reaches [OF Cons.prems(1) _ q _ k] live_ok [OF Cons.prems(1)] in blast)
    then show ?thesis using step SPrune Cons.prems(1) pruning_ok [OF Cons.prems(1), of k s1]
      by (cases "pruning s k") (simp_all add: store_apply_def)
  qed
  then have "succeeded (query s1 i)" using query_total [of s1 s i] Cons.prems(1,3) by simp
  with Cons.IH [of s1 rs1] one Cons.prems(2) rs
  have "inv s' \<and> grid s' = grid s
    \<and> filter (\<lambda>e. hits (grid s) e i) (live s') = filter (\<lambda>e. hits (grid s) e i) (live s1 @ stored cs rs1)" by simp
  moreover have "stored (c # cs) (r # rs1) = stored [c] [r] @ stored cs rs1" by (cases c) simp_all
  ultimately show ?case using one rs(1) by simp
qed simp

lemma query_history:
  assumes "inv s" "live s = []" "list_all (store_op_ok i) cs" "succeeded (query s i)"
    and "run_ops (store_apply insertion query pruning) cs s = (rs, s')"
  shows "\<exists>es s2. query s' i = Inr (es, s2) \<and> mset es = mset (filter (\<lambda>e. hits (grid s) e i) (stored cs rs))"
proof -
  have h: "inv s' \<and> grid s' = grid s
      \<and> filter (\<lambda>e. hits (grid s) e i) (live s') = filter (\<lambda>e. hits (grid s) e i) (stored cs rs)"
    using run_history [OF assms(1,3-5)] assms(2) by simp
  then have "succeeded (query s' i)" using query_total [of s' s i] assms(1,4) by simp
  then obtain es s2 where q: "query s' i = Inr (es, s2)" by (cases "query s' i") auto
  then show ?thesis using query_ok [of s' i es s2] h by auto
qed

end

section \<open>The index is such a store\<close>

definition grid_hits :: "pyfloat \<times> pyfloat \<times> pyfloat \<times> nat \<Rightarrow> event \<Rightarrow> nat \<Rightarrow> bool" where
  "grid_hits g e i = (case g of (o', w, h, n) \<Rightarrow> overlaps e (grid_start o' h i) (fadd (grid_start o' h i) w))"

definition grid_last :: "pyfloat \<times> pyfloat \<times> pyfloat \<times> nat \<Rightarrow> event \<Rightarrow> int" where
  "grid_last g e = (case g of (o', w, h, n) \<Rightarrow>
     int (bisect (\<lambda>i. \<not> flt (grid_start o' h i) (event_horizon e)) 0 (n + 1)) - 1)"

lemma grid_hits_ix: "grid_hits (ix_grid ix) e i = overlaps e (ix_start ix i) (ix_end ix i)"
  by (simp add: grid_hits_def ix_grid_def ix_start_def ix_end_def)

lemma grid_last_ix: "grid_last (ix_grid ix) e = last_overlapping ix e"
  by (simp add: grid_last_def ix_grid_def ix_start_def last_overlapping_def)

lemma matching_Inr:
  assumes "matching ix i = Inr (es, ix')"
  shows "i < ix_ceiling ix" "es = matching_events ix i" "ix' = ix\<lparr>ix_examined := ix_examined ix + length es\<rparr>"
  using assms by (auto simp: matching_def Let_def split: if_splits)

lemma examined_inv:
  assumes "index_inv ix"
  shows "index_inv (ix\<lparr>ix_examined := n\<rparr>)" "ix_grid (ix\<lparr>ix_examined := n\<rparr>) = ix_grid ix"
    "live_events (ix\<lparr>ix_examined := n\<rparr>) = live_events ix"
proof -
  show g: "ix_grid (ix\<lparr>ix_examined := n\<rparr>) = ix_grid ix" by (simp add: ix_grid_def)
  show "live_events (ix\<lparr>ix_examined := n\<rparr>) = live_events ix" by (simp add: live_events_def)
  show "index_inv (ix\<lparr>ix_examined := n\<rparr>)"
    using assms unfolding index_inv_def index_core_def node_at_def same_grid [OF g] by simp
qed

interpretation ix: event_store index_inv live_events ix_grid index_insert matching prune grid_hits
  "\<lambda>g e k. int k \<le> grid_last g e"
proof
  show "index_inv s' \<and> ix_grid s' = ix_grid s \<and> live_events s' = live_events s @ [e]"
    if "index_inv s" "event_ok e" "index_insert s e = Inr s'" for s e s'
    using that insert_validated_Inr [of s e s'] by (simp add: index_insert_def snapshot_event_ok split: if_splits)
  show "index_inv s' \<and> ix_grid s' = ix_grid s \<and> live_events s' = live_events s
      \<and> mset es = mset (filter (\<lambda>e. grid_hits (ix_grid s) e i) (live_events s))"
    if "index_inv s" "matching s i = Inr (es, s')" for s i es s'
    using matching_Inr [OF that(2)] matching_scan [of s i] examined_inv [OF that(1)] that(1)
    by (simp add: grid_hits_ix index_inv_def [of s])
  show "index_inv s' \<and> ix_grid s' = ix_grid s
      \<and> live_events s' = filter (\<lambda>e. int k \<le> grid_last (ix_grid s) e) (live_events s)"
    if "index_inv s" "prune s k = Inr s'" for s k s'
    using prune_ok [of s k] that by (auto simp: grid_last_ix prune_def split: if_splits)
  show "int k \<le> grid_last (ix_grid s) e"
    if "index_inv s" "event_ok e" "matching s i = Inr r" "grid_hits (ix_grid s) e i" "k \<le> i" for s e i r k
  proof -
    have "i < ix_ceiling s" using that(3) matching_Inr(1) by (cases r) blast
    then have "int i \<le> last_overlapping s e"
      using in_range_iff [of s i e] that by (simp add: index_inv_def index_core_def grid_hits_ix in_range_def)
    then show ?thesis using that(5) by (simp add: grid_last_ix)
  qed
  show "event_ok e" if "index_inv s" "e \<in> set (live_events s)" for s e
    using live_ids(3) that by (auto simp: index_inv_def)
  show "succeeded (matching s i) = succeeded (matching s' i)" if "ix_grid s = ix_grid s'" for s s' i
    using that by (simp add: matching_def Let_def ix_grid_def)
qed

end
