(* ===== verification/Aligner_Laws.thy ===== *)
theory Aligner_Laws
  imports Aligner Interval_Index_History
begin

text \<open>
  The laws of the streaming aligner: what a validated configuration provides, which windows a
  preview builds, and that commitment, expiry and the retention policy keep the invariant.
\<close>

section \<open>Validated configurations\<close>

definition config_ok :: "alignment_config \<Rightarrow> bool" where
  "config_ok c \<longleftrightarrow> grid_ok (ac_origin c) (ac_window c) (ac_hop c) (ac_max_windows c)
     \<and> is_finite (ac_lateness c) \<and> fvalid (ac_lateness c)
     \<and> list_all is_label (ac_required c) \<and> distinct (ac_required c) \<and> length (ac_required c) \<le> MAX_STREAMS
     \<and> (\<forall>e\<in>set (ac_offsets c). is_finite (snd e) \<and> fvalid (snd e))
     \<and> ac_max_events c \<le> MAX_EVENTS_PER_WINDOW"

lemma map_res_labels: "map_res (\<lambda>s. label (PStr s)) xs = Inr ys \<Longrightarrow> list_all is_label ys \<and> length ys = length xs"
  by (induction xs arbitrary: ys) (auto dest: label_Inr)

lemma map_res_is_label: "list_all is_label xs \<Longrightarrow> map_res (\<lambda>s. label (PStr s)) xs = Inr xs"
  by (induction xs) (auto simp: label_is_label)

lemma label_tuple_Inr:
  "label_tuple xs m = Inr ys \<Longrightarrow> list_all is_label ys \<and> distinct ys \<and> length ys \<le> m"
  using map_res_labels by (fastforce simp: label_tuple_def split: if_splits)

lemma label_tuple_ok: "list_all is_label xs \<Longrightarrow> distinct xs \<Longrightarrow> length xs \<le> m \<Longrightarrow> label_tuple xs m = Inr xs"
  by (simp add: label_tuple_def map_res_is_label)

lemma number_mapping_values:
  "number_mapping p kvs = Inr d \<Longrightarrow> \<forall>e\<in>set d. is_finite (snd e) \<and> fvalid (snd e)"
proof -
  define step where "step = (\<lambda>(raw, v) r. rbind (label (PStr raw)) (\<lambda>k. if dget r k \<noteq> None then Inl ValidationError
     else rbind (if p then finite_number True (PFloat v) else any_finite (PFloat v)) (\<lambda>n. Inr (dput k n r))))"
  have one: "\<forall>e\<in>set r'. is_finite (snd e) \<and> fvalid (snd e)"
    if step: "step kv r = Inr r'" and r: "\<forall>e\<in>set r. is_finite (snd e) \<and> fvalid (snd e)" for kv r r'
  proof -
    obtain k n where n: "(if p then finite_number True (PFloat (snd kv)) else any_finite (PFloat (snd kv))) = Inr n"
        "dget r k = None" "r' = dput k n r"
      using step by (cases kv) (auto simp: step_def simp del: not_None_eq split: if_splits)
    then have "is_finite n \<and> fvalid n" using any_finite_Inr finite_number_Inr by (metis (no_types))
    then show ?thesis using r n(2,3) by (simp add: dput_new dget_None_iff)
  qed
  have "fold_res step kvs r = Inr d \<Longrightarrow> \<forall>e\<in>set r. is_finite (snd e) \<and> fvalid (snd e)
      \<Longrightarrow> \<forall>e\<in>set d. is_finite (snd e) \<and> fvalid (snd e)" for r
  proof (induction kvs arbitrary: r)
    case (Cons kv kvs)
    obtain r' where r': "step kv r = Inr r'" "fold_res step kvs r' = Inr d" using Cons.prems(1) by auto
    show ?case by (rule Cons.IH [OF r'(2) one [OF r'(1) Cons.prems(2)]])
  qed simp
  moreover assume "number_mapping p kvs = Inr d"
  then have "fold_res step kvs [] = Inr d" by (simp add: number_mapping_def step_def split: if_splits)
  ultimately show ?thesis by simp
qed

lemma config_check_ok: "alignment_config_check raw = Inr c \<Longrightarrow> config_ok c"
proof -
  assume a: "alignment_config_check raw = Inr c"
  then obtain l r f m where "finite_number False (PFloat (ac_lateness raw)) = Inr l" "label_tuple (ac_required raw) MAX_STREAMS = Inr r"
      "number_mapping False (ac_offsets raw) = Inr f" "positive_int (PInt (int (ac_max_events raw))) MAX_EVENTS_PER_WINDOW = Inr m"
      "ac_lateness c = l" "ac_required c = r" "ac_offsets c = f" "ac_max_events c = m"
    unfolding alignment_config_check_def rbind_eq_Inr if_error_eq_Inr by auto
  then show ?thesis
    using config_check_grid [OF a] finite_number_Inr [of False] label_tuple_Inr number_mapping_values
    by (auto simp: config_ok_def positive_int_def split: if_splits)
qed

definition config_grid :: "alignment_config \<Rightarrow> pyfloat \<times> pyfloat \<times> pyfloat \<times> nat" where
  "config_grid c = (ac_origin c, ac_window c, ac_hop c, ac_max_windows c)"

lemma make_index_grid:
  assumes "make_index origin window hop n = Inr ix" "config_ok c" "config_grid c = (origin, window, hop, n)"
  shows "ix_grid ix = config_grid c"
proof -
  obtain c' where c': "alignment_config_check (grid_config origin window hop n) = Inr c'"
      "ix_grid ix = (ac_origin c', ac_window c', ac_hop c', ac_max_windows c')"
    using assms(1) by (auto simp: make_index_def ix_grid_def)
  have g: "grid_ok origin window hop n" using assms(2,3) by (simp add: config_ok_def config_grid_def)
  then have "finite_number True (PFloat window) = Inr window" "finite_number True (PFloat hop) = Inr hop"
      "any_finite (PFloat origin) = Inr origin"
    by (simp_all add: grid_ok_def finite_number_def any_finite_PFloat fle_finite)
  moreover have "positive_int (PInt (int n)) MAX_OUTPUT_WINDOWS = Inr n" using g by (auto simp: positive_int_def grid_ok_def)
  ultimately show ?thesis using c' unfolding alignment_config_check_def rbind_eq_Inr if_error_eq_Inr
    by (auto simp: grid_config_def assms(3))
qed

section \<open>Reference windows\<close>

text \<open>Window \<open>i\<close> of the grid over a list of events: those that overlap it, in event order.\<close>

definition window_events :: "alignment_config \<Rightarrow> nat \<Rightarrow> event list \<Rightarrow> event list" where
  "window_events c i es = sort_key event_key (filter (\<lambda>e. grid_hits (config_grid c) e i) es)"

definition window_exact :: "alignment_config \<Rightarrow> nat \<Rightarrow> event list \<Rightarrow> aligned_window \<Rightarrow> bool" where
  "window_exact c i es w \<longleftrightarrow> aw_index w = i
     \<and> feq (aw_start w) (grid_start (ac_origin c) (ac_hop c) i)
     \<and> aw_end w = fadd (grid_start (ac_origin c) (ac_hop c) i) (ac_window c)
     \<and> aw_events w = window_events c i es \<and> aw_missing w = missing_streams c (aw_events w)"

lemma event_key_inj: "distinct (map ev_id es) \<Longrightarrow> inj_on event_key (set es)"
  by (auto simp: inj_on_def event_key_def distinct_map)

lemma sort_events_eq:
  assumes "mset es = mset fs" "distinct (map ev_id es)"
  shows "sort_key event_key es = sort_key event_key fs"
  by (rule sort_key_inj_key_eq) (use assms event_key_inj in \<open>auto dest: mset_eq_setD\<close>)

section \<open>Building a window\<close>

text \<open>A start that equals the one of the grid: for the first window it is the origin as given,
  which may be a negative zero.\<close>

definition start_at :: "alignment_config \<Rightarrow> nat \<Rightarrow> pyfloat \<Rightarrow> bool" where
  "start_at c i s \<longleftrightarrow> is_finite s \<and> fvalid s \<and> fint s = fint (grid_start (ac_origin c) (ac_hop c) i)"

lemma config_start:
  assumes "config_ok c" "i \<le> ac_max_windows c"
  shows "start_at c i (grid_start (ac_origin c) (ac_hop c) i)"
  using assms grid_start_facts(2,3) unfolding start_at_def config_ok_def by blast

lemma config_origin:
  assumes "config_ok c"
  shows "start_at c 0 (ac_origin c)"
proof -
  have g: "is_finite (ac_origin c)" "fvalid (ac_origin c)" "is_finite (ac_hop c)" "0 < fint (ac_hop c)" "grid_ok (ac_origin c) (ac_window c) (ac_hop c) (ac_max_windows c)"
    using assms by (simp_all add: config_ok_def grid_ok_def)
  have "fmul (float_of_int 0) (ac_hop c) = of_units (0 * fint (ac_hop c))" using g by (intro fmul_int) simp_all
  then have m: "fmul (float_of_int (int 0)) (ac_hop c) = Fin 0" by (simp add: of_units_def of_rounded_def)
  have "is_finite (grid_start (ac_origin c) (ac_hop c) 0)" using grid_start_facts(2) [OF g(5)] by simp
  then have "fint (grid_start (ac_origin c) (ac_hop c) 0) = rnd (fint (ac_origin c))"
    using fint_fadd [OF g(1), of "Fin 0"] unfolding grid_start_def m by simp
  then show ?thesis using g rnd_exact [OF is_double_fint] by (simp add: start_at_def)
qed

lemma start_at_stop:
  assumes "config_ok c" "i \<le> ac_max_windows c" "start_at c i s"
  shows "fadd s (ac_window c) = fadd (grid_start (ac_origin c) (ac_hop c) i) (ac_window c)"
proof -
  have "is_finite (ac_window c)" "ac_window c \<noteq> NegZero" using assms(1) by (auto simp: config_ok_def grid_ok_def)
  then show ?thesis using assms config_start [OF assms(1,2)] by (simp add: start_at_def fadd_finite)
qed

lemma start_at_overlaps:
  assumes "config_ok c" "i \<le> ac_max_windows c" "start_at c i s"
  shows "overlaps e s (fadd s (ac_window c)) = grid_hits (config_grid c) e i"
proof -
  have f: "is_finite s" "is_finite (grid_start (ac_origin c) (ac_hop c) i)" "fint s = fint (grid_start (ac_origin c) (ac_hop c) i)"
    using config_start [OF assms(1,2)] assms(3) by (simp_all add: start_at_def)
  then have "fle s x = fle (grid_start (ac_origin c) (ac_hop c) i) x" "flt s x = flt (grid_start (ac_origin c) (ac_hop c) i) x" for x
    using finite_cases [of s] finite_cases [of "grid_start (ac_origin c) (ac_hop c) i"] by (auto simp: fle_def flt_def feq_def)
  then show ?thesis
    unfolding start_at_stop [OF assms] by (simp add: overlaps_def grid_hits_def config_grid_def)
qed

lemma missing_labels:
  assumes "config_ok c"
  shows "label_tuple (missing_streams c es) MAX_STREAMS = Inr (missing_streams c es)"
proof (rule label_tuple_ok)
  show "list_all is_label (missing_streams c es)" using assms by (auto simp: config_ok_def missing_streams_def list_all_iff)
  show "distinct (missing_streams c es)" using assms by (simp add: config_ok_def missing_streams_def)
  show "length (missing_streams c es) \<le> MAX_STREAMS"
    using assms unfolding config_ok_def missing_streams_def by (blast intro: order_trans [OF length_filter_le])
qed

lemma make_window_Inr:
  assumes "make_window i s t es missing = Inr w" "\<forall>e\<in>set es. event_ok e" "is_finite s" "fvalid s" "is_finite t" "fvalid t"
    and "label_tuple missing MAX_STREAMS = Inr missing"
  shows "w = \<lparr>aw_index = i, aw_start = s, aw_end = t, aw_events = es, aw_missing = missing\<rparr>"
proof -
  have "map_res snapshot_event es = Inr es" using assms(2) by (induction es) (simp_all add: snapshot_event_ok)
  then show ?thesis using assms by (auto simp: make_window_def any_finite_PFloat split: if_splits)
qed

lemma build_window_state:
  assumes "ix_grid ix = config_grid c"
  shows "\<exists>m. snd (build_window c pending i start ix) = ix\<lparr>ix_examined := m\<rparr>"
  by (simp add: build_window_def matching_def Let_def) (metis (no_types) interval_index.surjective interval_index.update_convs(9))

lemma build_window_exact:
  assumes c: "config_ok c" and inv: "index_inv ix" and g: "ix_grid ix = config_grid c" and s: "start_at c i start"
    and pend: "\<forall>e\<in>set pending. event_ok e" and ids: "distinct (map ev_id (live_events ix @ pending))"
    and w: "fst (build_window c pending i start ix) = Inr w"
  shows "i < ac_max_windows c \<and> window_exact c i (live_events ix @ pending) w"
proof -
  have "ix_ceiling ix = ac_max_windows c" using g by (simp add: ix_grid_def config_grid_def)
  then have i: "i < ac_max_windows c" using build_window_index [OF w] by simp
  obtain es ix' where m: "matching ix i = Inr (es, ix')" using w by (auto simp: build_window_def Let_def split: sum.splits)
  define stop where "stop = fadd start (ac_window c)"
  define events where "events = sort_key event_key (es @ filter (\<lambda>e. overlaps e start stop) pending)"
  have q: "mset es = mset (filter (\<lambda>e. grid_hits (config_grid c) e i) (live_events ix))" using ix.query_ok [OF inv m] g by simp
  have f: "filter (\<lambda>e. overlaps e start stop) pending = filter (\<lambda>e. grid_hits (config_grid c) e i) pending"
    unfolding stop_def start_at_overlaps [OF c less_imp_le [OF i] s] ..
  have ms: "mset (es @ filter (\<lambda>e. overlaps e start stop) pending) = mset (filter (\<lambda>e. grid_hits (config_grid c) e i) (live_events ix @ pending))"
    unfolding f by (simp add: q)
  have ev: "events = window_events c i (live_events ix @ pending)"
    unfolding events_def window_events_def
    by (rule sort_events_eq [symmetric, OF ms [symmetric]]) (rule distinct_map_filter [OF ids])
  have ok: "\<forall>e\<in>set events. event_ok e"
    using pend ix.live_ok [OF inv] unfolding ev window_events_def by auto
  have mk: "make_window i start stop events (missing_streams c events) = Inr w"
    using w m by (simp add: build_window_def Let_def events_def stop_def split: if_splits)
  have stop: "is_finite stop" "fvalid stop"
    using grid_start_facts(4,5) [of "ac_origin c" "ac_window c" "ac_hop c" "ac_max_windows c" i] c i
    unfolding stop_def start_at_stop [OF c less_imp_le [OF i] s] by (simp_all add: config_ok_def)
  have "w = \<lparr>aw_index = i, aw_start = start, aw_end = stop, aw_events = events, aw_missing = missing_streams c events\<rparr>"
    using make_window_Inr [OF mk ok] s stop missing_labels [OF c] by (simp add: start_at_def)
  then show ?thesis
    using i ev s config_start [OF c less_imp_le [OF i]] start_at_stop [OF c less_imp_le [OF i] s]
    by (simp add: window_exact_def feq_finite start_at_def stop_def)
qed

section \<open>Previews\<close>

text \<open>A preview builds consecutive windows of the committed events and the pending ones, changes
  only the query counter, and stops at the first window that is not due.\<close>

definition preview_exact :: "alignment_config \<Rightarrow> nat \<Rightarrow> event list \<Rightarrow> aligned_window list \<Rightarrow> bool" where
  "preview_exact c i es ws \<longleftrightarrow> i + length ws \<le> ac_max_windows c \<and> (\<forall>k<length ws. window_exact c (i + k) es (ws ! k))"

lemma preview_exact_Nil: "i \<le> ac_max_windows c \<Longrightarrow> preview_exact c i es []"
  by (simp add: preview_exact_def)

lemma preview_exact_Cons:
  "window_exact c i es w \<Longrightarrow> preview_exact c (i + 1) es ws \<Longrightarrow> preview_exact c i es (w # ws)"
  by (auto simp: preview_exact_def nth_Cons less_Suc_eq_0_disj)

lemma preview_loop_spec:
  assumes "preview_loop again c pending i start ix = (r, ix')" "config_ok c" "index_inv ix" "ix_grid ix = config_grid c"
    and "start_at c i start" "i \<le> ac_max_windows c" "\<forall>e\<in>set pending. event_ok e" "distinct (map ev_id (live_events ix @ pending))"
  shows "(\<exists>m. ix' = ix\<lparr>ix_examined := m\<rparr>)
    \<and> (case r of Inl _ \<Rightarrow> True
       | Inr ws \<Rightarrow> preview_exact c i (live_events ix @ pending) ws \<and> (\<exists>s. start_at c (i + length ws) s \<and> \<not> again s))"
  using assms
proof (induction again c pending i start ix arbitrary: r ix' rule: preview_loop.induct)
  case (1 again c pending i start ix)
  show ?case
  proof (cases "again start")
    case False
    then have "r = Inr []" "ix' = ix" using "1.prems"(1) by (simp_all add: preview_loop.simps [of again c pending i start ix])
    then show ?thesis using "1.prems"(5,6) False
      by (auto simp: preview_exact_def intro!: exI [of _ "ix_examined ix"])
  next
    case True
    obtain q ix1 where b: "build_window c pending i start ix = (q, ix1)" by (cases "build_window c pending i start ix")
    obtain m where m: "ix1 = ix\<lparr>ix_examined := m\<rparr>" using build_window_state [OF "1.prems"(4), of pending i start] b by auto
    show ?thesis
    proof (cases q)
      case (Inl x)
      then show ?thesis using "1.prems"(1) True b m by (auto simp: preview_loop.simps [of again c pending i start ix])
    next
      case (Inr w)
      have w: "i < ac_max_windows c" "window_exact c i (live_events ix @ pending) w"
        using build_window_exact [OF "1.prems"(2-5,7,8)] b Inr by simp_all
      obtain r2 ix2 where l: "preview_loop again c pending (i + 1) (grid_start (ac_origin c) (ac_hop c) (i + 1)) ix1 = (r2, ix2)"
        by (cases "preview_loop again c pending (i + 1) (grid_start (ac_origin c) (ac_hop c) (i + 1)) ix1")
      have i1: "index_inv ix1" "ix_grid ix1 = config_grid c" "live_events ix1 = live_events ix"
        using examined_inv [OF "1.prems"(3), of m] "1.prems"(4) by (simp_all add: m)
      have IH: "(\<exists>m. ix2 = ix1\<lparr>ix_examined := m\<rparr>)
        \<and> (case r2 of Inl _ \<Rightarrow> True
           | Inr ws \<Rightarrow> preview_exact c (i + 1) (live_events ix1 @ pending) ws \<and> (\<exists>s. start_at c (i + 1 + length ws) s \<and> \<not> again s))"
        by (rule "1.IH" [OF True b [symmetric] Inr l]) (use w(1) i1 "1.prems" config_start [OF "1.prems"(2)] in auto)
      show ?thesis
      proof (cases r2)
        case (Inl x)
        then show ?thesis using "1.prems"(1) True b \<open>q = Inr w\<close> l IH m by (auto simp: preview_loop.simps [of again c pending i start ix])
      next
        case (Inr ws)
        then have "r = Inr (w # ws)" "ix' = ix2"
          using "1.prems"(1) True b \<open>q = Inr w\<close> l by (simp_all add: preview_loop.simps [of again c pending i start ix])
        moreover have "preview_exact c i (live_events ix @ pending) (w # ws)" using w(2) IH Inr i1(3) by (intro preview_exact_Cons) simp_all
        ultimately show ?thesis using IH Inr m by auto
      qed
    qed
  qed
qed

section \<open>Watermarks and the release frontier\<close>

definition max_ok :: "(pystr, pyfloat) dict \<Rightarrow> bool" where
  "max_ok seen \<longleftrightarrow> dict_ok seen \<and> (\<forall>e\<in>set seen. is_finite (snd e) \<and> fvalid (snd e))"

lemma fold_fmin_finite:
  "is_finite m \<and> fvalid m \<Longrightarrow> \<forall>x\<in>set ms. is_finite x \<and> fvalid x
    \<Longrightarrow> is_finite (fold (\<lambda>x m. fmin m x) ms m) \<and> fvalid (fold (\<lambda>x m. fmin m x) ms m)"
  by (induction ms arbitrary: m) (auto simp: fmin_def)

lemma fvalid_fneg: "fvalid x \<Longrightarrow> fvalid (fneg x)"
  by (cases x) auto

lemma watermark_valid:
  assumes "watermark_for c seen = Some wm" "max_ok seen" "config_ok c"
  shows "fvalid wm" "wm \<noteq> NaN"
proof -
  obtain m ms where m: "map (\<lambda>s. the (dget seen s)) (ac_required c) = m # ms" "wm = fsub (fold (\<lambda>x m. fmin m x) ms m) (ac_lateness c)"
      "\<not> list_ex (\<lambda>s. dget seen s = None) (ac_required c)"
    using assms(1) by (auto simp: watermark_for_def split: if_splits list.splits)
  have "is_finite x \<and> fvalid x" if x: "x \<in> set (m # ms)" for x
  proof -
    obtain s where s: "s \<in> set (ac_required c)" "x = the (dget seen s)" using x m(1) by (metis (no_types, lifting) imageE list.set_map)
    then obtain v where "dget seen s = Some v" using m(3) by (auto simp: list_ex_iff)
    then show ?thesis using s(2) assms(2) map_of_SomeD [of seen s v] by (fastforce simp: max_ok_def)
  qed
  then have f: "is_finite (fold (\<lambda>x m. fmin m x) ms m)" "fvalid (fold (\<lambda>x m. fmin m x) ms m)"
    using fold_fmin_finite [of m ms] by simp_all
  have l: "is_finite (fneg (ac_lateness c))" "fvalid (fneg (ac_lateness c))" using assms(3) fvalid_fneg by (simp_all add: config_ok_def)
  show "fvalid wm" unfolding m(2) fsub_def by (rule fvalid_fadd [OF f(1) l(1)])
  show "wm \<noteq> NaN" unfolding m(2) fsub_def fadd_finite [OF f(1) l(1)] by (auto simp: of_units_def)
qed

definition retention_ok :: "alignment_config \<Rightarrow> retention_policy \<Rightarrow> bool" where
  "retention_ok c p \<longleftrightarrow> rp_horizon p \<noteq> NaN \<and> fle (ac_window c) (rp_horizon p)"

text \<open>A policy at least as long as a window never releases past the start of the open window,
  rounding included.\<close>

lemma frontier_le:
  assumes wm: "fvalid wm" "wm \<noteq> NaN" "\<not> fle (fadd s w) wm"
    and s: "is_finite s" "fvalid s" and w: "is_finite w" "fvalid w" "is_finite (fadd s w)" and h: "h \<noteq> NaN" "fle w h"
  shows "fle (fsub wm h) s"
proof -
  have h': "h = PosInf \<or> is_finite h \<and> fint w \<le> fint h"
    using h w(1) by (cases h) (auto simp: fle_def flt_def feq_def finite_cases)
  consider "wm = PosInf" | "wm = NegInf" | "is_finite wm" using wm(2) by (cases wm) auto
  then show ?thesis
  proof cases
    case 1
    then show ?thesis using wm(3) w(3) flt_PosInf by (simp add: fle_def)
  next
    case 2
    then have "fsub wm h = NegInf" using h' by (cases h) (auto simp: fsub_def fadd_def)
    then show ?thesis using s(1) by (cases s) (auto simp: fle_def flt_def)
  next
    case 3
    show ?thesis
    proof (cases "h = PosInf")
      case True
      then have "fsub wm h = NegInf" using 3 by (cases wm) (auto simp: fsub_def fadd_def)
      then show ?thesis using s(1) by (cases s) (auto simp: fle_def flt_def)
    next
      case False
      with h' have hf: "is_finite h" "fint w \<le> fint h" by simp_all
      have "fint wm < fint s + fint w"
      proof (rule ccontr)
        assume "\<not> fint wm < fint s + fint w"
        then have "rnd (fint s + fint w) \<le> rnd (fint wm)" by (intro rnd_mono) simp
        then have "fint (fadd s w) \<le> fint wm"
          using fint_fadd [OF s(1) w(1,3)] rnd_exact [OF is_double_fint [OF wm(1)]] by simp
        then show False using wm(3) 3 w(3) by (simp add: fle_finite)
      qed
      then have "fint wm + fint (fneg h) \<le> fint s" using hf(2) by simp
      then have le: "rnd (fint wm + fint (fneg h)) \<le> fint s"
        using rnd_mono rnd_exact [OF is_double_fint [OF s(2)]] by metis
      have "fle (of_units (fint wm + fint (fneg h))) s"
      proof -
        have "rnd (fint wm + fint (fneg h)) < fbound" using le fint_bound [OF s(2)] by linarith
        then show ?thesis using le s(1) by (cases s) (auto simp: of_units_def of_rounded_def fle_def flt_def feq_def)
      qed
      moreover have "fle NegZero s" if "wm = NegZero" "fneg h = NegZero"
        using that le s(1) by (simp add: fle_finite)
      ultimately show ?thesis using 3 hf(1) by (simp add: fsub_def fadd_finite)
    qed
  qed
qed

section \<open>Identity records\<close>

definition records_ok :: "aligner \<Rightarrow> tracked list \<Rightarrow> bool" where
  "records_ok a ts \<longleftrightarrow> al_seen a = tk_id ` set ts \<and> distinct (map tk_id ts) \<and> al_assigned a \<subseteq> al_seen a
     \<and> al_reported a \<le> al_released a \<and> length ts + al_reported a \<le> rp_max_tracked (al_retention a)"

text \<open>Every live event has its record.\<close>

definition recorded :: "tracked list \<Rightarrow> event \<Rightarrow> bool" where
  "recorded ts e \<longleftrightarrow> (\<exists>t\<in>set ts. tk_id t = ev_id e \<and> tk_horizon t = event_horizon e \<and> tk_status t \<noteq> TDropped)"

definition unreleased :: "aligner \<Rightarrow> alignment_config \<times> interval_index \<times> retention_policy \<times> (pystr, pyfloat) dict
    \<times> pyfloat \<times> nat \<times> pystr list \<times> pystr list \<times> bool" where
  "unreleased a = (al_config a, al_index a, al_retention a, al_max a, al_start a, al_next a, al_dropped a, al_late a, al_closed a)"

lemma release_record_ok:
  assumes "records_ok a (t # ts)"
  shows "records_ok (release_record t a) ts \<and> unreleased (release_record t a) = unreleased a"
  using assms by (auto simp: records_ok_def release_record_def unreleased_def Let_def)

lemma release_records_ok:
  assumes "records_ok a ts"
  shows "records_ok (release_records frontier ts a) (al_order (release_records frontier ts a))
    \<and> unreleased (release_records frontier ts a) = unreleased a
    \<and> al_order (release_records frontier ts a) = dropWhile (\<lambda>t. fle (tk_horizon t) frontier) ts"
  using assms
proof (induction ts arbitrary: a)
  case (Cons t ts)
  show ?case
  proof (cases "fle (tk_horizon t) frontier")
    case True
    then show ?thesis using Cons.IH [of "release_record t a"] release_record_ok [OF Cons.prems] by auto
  next
    case False
    then show ?thesis using Cons.prems by (auto simp: records_ok_def unreleased_def)
  qed
qed (auto simp: records_ok_def unreleased_def)

lemma in_dropWhile: "x \<in> set xs \<Longrightarrow> \<not> P x \<Longrightarrow> x \<in> set (dropWhile P xs)"
  by (induction xs) auto

lemma recorded_release:
  assumes "recorded ts e" "\<not> fle (event_horizon e) frontier"
  shows "recorded (dropWhile (\<lambda>t. fle (tk_horizon t) frontier) ts) e"
proof -
  obtain t where t: "t \<in> set ts" "tk_id t = ev_id e" "tk_horizon t = event_horizon e" "tk_status t \<noteq> TDropped"
    using assms(1) by (auto simp: recorded_def)
  then have "t \<in> set (dropWhile (\<lambda>t. fle (tk_horizon t) frontier) ts)" using assms(2) by (intro in_dropWhile) simp_all
  then show ?thesis using t by (auto simp: recorded_def)
qed

section \<open>The invariant\<close>

definition aligner_base :: "aligner \<Rightarrow> bool" where
  "aligner_base a \<longleftrightarrow> config_ok (al_config a) \<and> index_inv (al_index a) \<and> ix_grid (al_index a) = config_grid (al_config a)
     \<and> retention_ok (al_config a) (al_retention a) \<and> max_ok (al_max a) \<and> records_ok a (al_order a)
     \<and> (\<forall>e\<in>set (live_events (al_index a)). recorded (al_order a) e)"

text \<open>What is due is out: the open window does not end at or before the watermark.\<close>

definition not_due :: "aligner \<Rightarrow> nat \<Rightarrow> bool" where
  "not_due a n \<longleftrightarrow> (\<forall>wm. watermark a = Some wm \<longrightarrow>
     \<not> fle (fadd (grid_start (ac_origin (al_config a)) (ac_hop (al_config a)) n) (ac_window (al_config a))) wm)"

definition aligner_inv :: "aligner \<Rightarrow> bool" where
  "aligner_inv a \<longleftrightarrow> aligner_base a \<and> al_next a \<le> ac_max_windows (al_config a) \<and> start_at (al_config a) (al_next a) (al_start a)
     \<and> not_due a (al_next a)
     \<and> (\<forall>e\<in>set (live_events (al_index a)). int (al_next a) \<le> grid_last (config_grid (al_config a)) e)
     \<and> (al_closed a \<longrightarrow> live_events (al_index a) = [])"

lemma make_aligner_inv:
  assumes "make_aligner raw r = Inr a"
  shows "aligner_inv a" "live_events (al_index a) = []" "al_next a = 0" "al_dropped a = []" "\<not> al_closed a"
proof -
  obtain c ix p where c: "alignment_config_check raw = Inr c"
      and ix: "make_index (ac_origin c) (ac_window c) (ac_hop c) (ac_max_windows c) = Inr ix" and p: "validated_retention c r = Inr p"
      and a: "a = \<lparr>al_config = c, al_index = ix, al_retention = p, al_seen = {}, al_order = [], al_assigned = {}, al_max = [],
            al_start = ac_origin c, al_next = 0, al_dropped = [], al_late = [], al_unassigned = [],
            al_released = 0, al_reported = 0, al_closed = False\<rparr>"
    using assms by (auto simp: make_aligner_def)
  note ok = config_check_ok [OF c]
  have g: "ix_grid ix = config_grid c" by (rule make_index_grid [OF ix ok]) (simp add: config_grid_def)
  have w: "is_finite (ac_window c)" using ok by (simp add: config_ok_def grid_ok_def)
  have "retention_ok c p"
  proof (cases r)
    case None
    then show ?thesis using p w by (auto simp: validated_retention_def retention_ok_def default_retention_def fle_def flt_PosInf)
  next
    case (Some q)
    then have n: "rp_horizon p \<noteq> NaN" "\<not> flt (rp_horizon p) (ac_window c)"
      using p by (auto simp: validated_retention_def retention_check_def retention_horizon_def Let_def split: if_splits)
    then show ?thesis using not_flt_iff [OF n(1), of "ac_window c"] finite_cases [OF w] by (simp add: retention_ok_def)
  qed
  moreover have "not_due a 0" by (simp add: not_due_def watermark_def watermark_for_def a list_ex_iff split: list.splits)
  ultimately show "aligner_inv a" "live_events (al_index a) = []" "al_next a = 0" "al_dropped a = []" "\<not> al_closed a"
    using make_index_inv [OF ix] ok g config_origin [OF ok]
    by (simp_all add: a aligner_inv_def aligner_base_def max_ok_def records_ok_def)
qed

section \<open>Commitment\<close>

lemma grid_last_iff:
  assumes "config_ok c" "i \<le> ac_max_windows c"
  shows "flt (grid_start (ac_origin c) (ac_hop c) i) (event_horizon e) \<longleftrightarrow> int i \<le> grid_last (config_grid c) e"
proof -
  define ix where "ix = \<lparr>ix_origin = ac_origin c, ix_window = ac_window c, ix_hop = ac_hop c, ix_ceiling = ac_max_windows c,
     ix_live = [], ix_nodes = [], ix_expiry = [], ix_top = 0, ix_examined = 0\<rparr>"
  have "ix_grid_ok ix" "i \<le> ix_ceiling ix" "ix_grid ix = config_grid c"
    using assms by (simp_all add: ix_def ix_grid_ok_def config_ok_def ix_grid_def config_grid_def)
  then show ?thesis
    using last_overlapping_iff [of ix i e] grid_last_ix [of ix e] by (simp add: ix_def ix_start_def)
qed

lemma release_ok:
  assumes base: "aligner_base a" and n: "al_next a \<le> ac_max_windows (al_config a)"
    and start: "start_at (al_config a) (al_next a) (al_start a)" and due: "not_due a (al_next a)"
    and live: "\<forall>e\<in>set (live_events (al_index a)). int (al_next a) \<le> grid_last (config_grid (al_config a)) e"
    and closed: "al_closed a \<longrightarrow> live_events (al_index a) = []"
  shows "aligner_inv (release a) \<and> unreleased (release a) = unreleased a"
proof (cases "watermark a")
  case None
  then show ?thesis using assms by (simp add: release_def aligner_inv_def)
next
  case (Some wm)
  define c where "c = al_config a"
  define frontier where "frontier = fsub wm (rp_horizon (al_retention a))"
  define a' where "a' = release_records frontier (al_order a) a"
  have rel: "release a = a'" by (simp add: release_def Some a'_def frontier_def)
  have r: "records_ok a' (al_order a')" "unreleased a' = unreleased a" "al_order a' = dropWhile (\<lambda>t. fle (tk_horizon t) frontier) (al_order a)"
    using release_records_ok [of a "al_order a" frontier] base unfolding a'_def aligner_base_def by blast+
  have same: "al_config a' = c" "al_index a' = al_index a" "al_retention a' = al_retention a" "al_max a' = al_max a"
      "al_start a' = al_start a" "al_next a' = al_next a" "al_closed a' = al_closed a"
    using r(2) by (simp_all add: unreleased_def c_def)
  have c: "config_ok c" and ret: "retention_ok c (al_retention a)" and mx: "max_ok (al_max a)" using base by (simp_all add: aligner_base_def c_def)
  define s where "s = grid_start (ac_origin c) (ac_hop c) (al_next a)"
  have s: "is_finite s" "fvalid s" using config_start [OF c, of "al_next a"] n by (simp_all add: start_at_def s_def c_def)
  have w: "is_finite (ac_window c)" "fvalid (ac_window c)" "is_finite (fadd s (ac_window c))"
    using c grid_start_facts(4) [of "ac_origin c" "ac_window c" "ac_hop c" "ac_max_windows c" "al_next a"] n
    by (simp_all add: config_ok_def grid_ok_def s_def c_def)
  have wm: "fvalid wm" "wm \<noteq> NaN" using watermark_valid [of c "al_max a" wm] Some mx c by (simp_all add: watermark_def c_def)
  have "\<not> fle (fadd s (ac_window c)) wm" using due Some by (simp add: not_due_def s_def c_def)
  then have fr: "fle frontier s"
    using frontier_le [OF wm _ s w] ret by (simp add: frontier_def retention_ok_def)
  have "recorded (al_order a') e" if e: "e \<in> set (live_events (al_index a))" for e
    unfolding r(3)
  proof (rule recorded_release)
    show "recorded (al_order a) e" using base e by (simp add: aligner_base_def)
    have "flt s (event_horizon e)" using live e grid_last_iff [OF c, of "al_next a" e] n by (simp add: s_def c_def)
    then show "\<not> fle (event_horizon e) frontier" using fr fle_trans flt_fle_trans flt_irrefl by blast
  qed
  then have "aligner_base a'" using base r(1) same by (simp add: aligner_base_def c_def)
  then show ?thesis using assms r(2) same by (simp add: rel aligner_inv_def not_due_def watermark_def c_def)
qed

lemma commit_windows_ok:
  assumes base: "aligner_base a" and n: "al_next a + length ws \<le> ac_max_windows (al_config a)"
    and ids: "\<forall>w\<in>set ws. ev_id ` set (aw_events w) \<subseteq> al_seen a" and due: "not_due a (al_next a + length ws)"
    and closed: "al_closed a \<longrightarrow> live_events (al_index a) = []"
  shows "\<exists>a'. commit_windows ws a = (Inr (), a') \<and> aligner_inv a' \<and> al_config a' = al_config a \<and> al_next a' = al_next a + length ws
    \<and> al_dropped a' = al_dropped a \<and> al_closed a' = al_closed a \<and> al_retention a' = al_retention a \<and> al_late a' = al_late a
    \<and> ix_examined (al_index a') = ix_examined (al_index a)
    \<and> live_events (al_index a') = filter (\<lambda>e. int (al_next a + length ws) \<le> grid_last (config_grid (al_config a)) e) (live_events (al_index a))"
proof -
  define m where "m = al_next a + length ws"
  have g: "ix_grid (al_index a) = config_grid (al_config a)" and inv: "index_inv (al_index a)" and c: "config_ok (al_config a)"
    using base by (simp_all add: aligner_base_def)
  have "m \<le> ix_ceiling (al_index a)" using n g by (simp add: ix_grid_def config_grid_def m_def)
  then obtain ix where ix: "prune (al_index a) m = Inr ix" "ix_examined ix = ix_examined (al_index a)"
    using prune_ok [OF inv] by auto
  have p: "index_inv ix" "ix_grid ix = config_grid (al_config a)"
      "live_events ix = filter (\<lambda>e. int m \<le> grid_last (config_grid (al_config a)) e) (live_events (al_index a))"
    using ix.pruning_ok [OF inv ix(1)] g by simp_all
  define b where "b = a\<lparr>al_assigned := al_assigned a \<union> (\<Union>w\<in>set ws. ev_id ` set (aw_events w)), al_next := m,
    al_start := grid_start (ac_origin (al_config a)) (ac_hop (al_config a)) m, al_index := ix\<rparr>"
  have "aligner_base b"
    using base ids p by (auto simp: aligner_base_def b_def records_ok_def)
  moreover have "not_due b (al_next b)" using due by (simp add: not_due_def b_def watermark_def m_def)
  moreover have "start_at (al_config b) (al_next b) (al_start b)" using config_start [OF c, of m] n by (simp add: b_def m_def)
  ultimately have r: "aligner_inv (release b)" "unreleased (release b) = unreleased b"
    using release_ok [of b] n closed p by (auto simp: b_def m_def)
  moreover have "commit_windows ws a = (Inr (), release b)"
    by (simp add: commit_windows_def Let_def ix(1) [unfolded m_def] b_def m_def)
  ultimately show ?thesis using p(3) ix(2) by (simp add: unreleased_def b_def m_def)
qed

section \<open>Accepting an event\<close>

definition touch :: "nat \<Rightarrow> aligner \<Rightarrow> aligner" where
  "touch m a = a\<lparr>al_index := (al_index a)\<lparr>ix_examined := m\<rparr>\<rparr>"

lemma records_touch: "records_ok (touch m a) ts = records_ok a ts"
  by (simp add: touch_def records_ok_def)

lemma touch_inv: "aligner_inv a \<Longrightarrow> aligner_inv (touch m a)"
  using examined_inv [of "al_index a" m] records_touch [of m a]
  by (simp add: aligner_inv_def aligner_base_def not_due_def watermark_def touch_def)

lemma touch_self: "touch (ix_examined (al_index a)) a = a"
  by (simp add: touch_def)

lemma candidate_max_ok:
  assumes "max_ok (al_max a)" "event_ok n"
  shows "max_ok (candidate_max a n)"
proof -
  define v where "v = fmax (ev_time n) (case dget (al_max a) (ev_stream n) of None \<Rightarrow> NegInf | Some x \<Rightarrow> x)"
  have "is_finite v \<and> fvalid v"
    using assms map_of_SomeD [of "al_max a" "ev_stream n"]
    by (cases "ev_time n") (fastforce simp: v_def fmax_def max_ok_def event_ok_def flt_def split: option.splits)+
  then show ?thesis using assms(1) by (auto simp: candidate_max_def v_def [symmetric] max_ok_def set_dput)
qed

lemma recorded_live_ids:
  assumes "records_ok a ts" "\<forall>e\<in>set es. recorded ts e"
  shows "ev_id ` set es \<subseteq> al_seen a"
proof
  fix i assume "i \<in> ev_id ` set es"
  then obtain t where "t \<in> set ts" "tk_id t = i" using assms(2) by (auto simp: recorded_def)
  then show "i \<in> al_seen a" using assms(1) by (auto simp: records_ok_def)
qed

lemma window_events_subset: "set (window_events c i es) \<subseteq> set es"
  by (auto simp: window_events_def)

lemma preview_exact_ids: "preview_exact c i es ws \<Longrightarrow> w \<in> set ws \<Longrightarrow> set (aw_events w) \<subseteq> set es"
  using window_events_subset by (fastforce simp: preview_exact_def window_exact_def in_set_conv_nth)

lemma preview_ready_spec:
  assumes a: "aligner_inv a" and n: "event_ok n" "ev_id n \<notin> al_seen a"
    and p: "preview_ready a wm n = (r, ix')"
  shows "(\<exists>m. ix' = (al_index a)\<lparr>ix_examined := m\<rparr>)
    \<and> (case r of Inl _ \<Rightarrow> True
       | Inr ws \<Rightarrow> preview_exact (al_config a) (al_next a) (live_events (al_index a) @ [n]) ws
          \<and> \<not> fle (fadd (grid_start (ac_origin (al_config a)) (ac_hop (al_config a)) (al_next a + length ws)) (ac_window (al_config a))) wm)"
proof -
  have base: "aligner_base a" using a by (simp add: aligner_inv_def)
  then have c: "config_ok (al_config a)" and inv: "index_inv (al_index a)" and g: "ix_grid (al_index a) = config_grid (al_config a)"
    by (simp_all add: aligner_base_def)
  have ids: "distinct (map ev_id (live_events (al_index a) @ [n]))"
    using live_ids(2) [of "al_index a"] inv recorded_live_ids [of a "al_order a" "live_events (al_index a)"] base n(2)
    by (auto simp: index_inv_def aligner_base_def)
  show ?thesis
  proof (cases "fle (fadd (grid_start (ac_origin (al_config a)) (ac_hop (al_config a)) (ac_max_windows (al_config a))) (ac_window (al_config a))) wm")
    case True
    then show ?thesis using p by (auto simp: preview_ready_def Let_def intro!: exI [of _ "ix_examined (al_index a)"])
  next
    case False
    then have l: "preview_loop (\<lambda>start. fle (fadd start (ac_window (al_config a))) wm) (al_config a) [n] (al_next a) (al_start a) (al_index a) = (r, ix')"
      using p by (simp add: preview_ready_def Let_def)
    have s: "start_at (al_config a) (al_next a) (al_start a)" "al_next a \<le> ac_max_windows (al_config a)" using a by (simp_all add: aligner_inv_def)
    show ?thesis
      using preview_loop_spec [OF l c inv g s _ ids] n(1) start_at_stop [OF c]
      by (auto simp: preview_exact_def split: sum.splits)
  qed
qed

text \<open>What accepting an event does to the state: the windows that fell due are out, the events no
  later window needs are gone, and the rest are live.\<close>

definition accepted_step :: "aligner \<Rightarrow> event \<Rightarrow> aligned_window list \<Rightarrow> aligner \<Rightarrow> bool" where
  "accepted_step a n ws a' \<longleftrightarrow> aligner_inv a' \<and> al_config a' = al_config a \<and> al_retention a' = al_retention a
     \<and> al_next a' = al_next a + length ws \<and> al_dropped a' = al_dropped a \<and> \<not> al_closed a'
     \<and> preview_exact (al_config a) (al_next a) (live_events (al_index a) @ [n]) ws
     \<and> live_events (al_index a') = filter (\<lambda>e. int (al_next a') \<le> grid_last (config_grid (al_config a)) e) (live_events (al_index a) @ [n])"

lemma length_live: "length (live_events ix) = length (ix_live ix)"
  by (simp add: live_events_def)

lemma insert_validated_total:
  assumes inv: "index_inv ix" and e: "event_ok e" and len: "length (ix_live ix) < MAX_EVENTS"
    and new: "ev_id e \<notin> ev_id ` set (live_events ix)"
  shows "\<exists>ix'. insert_validated ix e = Inr ix'"
proof -
  have "map ev_id (live_events ix) = dkeys (ix_live ix)" using live_ids(1) inv by (simp add: index_inv_def)
  then have "ev_id e \<notin> set (dkeys (ix_live ix))" using new by (metis list.set_map)
  then show ?thesis using len by (simp add: insert_validated_def Let_def dget_None_iff)
qed

lemma accept_event_total:
  assumes a: "aligner_inv a" "\<not> al_closed a" and n: "event_ok n" "ev_id n \<notin> al_seen a"
    and len: "card (al_seen a) < MAX_EVENTS" "retained_count a < rp_max_tracked (al_retention a)"
    and p: "accept_event a n = (r, a')"
  shows "(case r of Inl _ \<Rightarrow> (\<exists>m. a' = touch m a) | Inr ws \<Rightarrow> accepted_step a n ws a')
    \<and> (\<forall>ws ix. (case watermark_for (al_config a) (candidate_max a n) of
          None \<Rightarrow> (Inr [], al_index a) | Some wm \<Rightarrow> preview_ready a wm n) = (Inr ws, ix) \<longrightarrow> r = Inr ws)"
proof -
  define c where "c = al_config a"
  define seen where "seen = candidate_max a n"
  have base: "aligner_base a" using a by (simp add: aligner_inv_def)
  then have c: "config_ok c" and inv: "index_inv (al_index a)" and g: "ix_grid (al_index a) = config_grid c" and rec: "records_ok a (al_order a)"
      and mx: "max_ok seen" and lrec: "\<forall>e\<in>set (live_events (al_index a)). recorded (al_order a) e"
    using candidate_max_ok [of a n] n by (simp_all add: aligner_base_def c_def seen_def)
  have nx: "al_next a \<le> ac_max_windows c" using a by (simp add: aligner_inv_def c_def)
  obtain q ix where pv: "(case watermark_for c seen of None \<Rightarrow> (Inr [], al_index a) | Some wm \<Rightarrow> preview_ready a wm n) = (q, ix)"
    by (cases "case watermark_for c seen of None \<Rightarrow> (Inr [], al_index a) | Some wm \<Rightarrow> preview_ready a wm n")
  have pre: "(\<exists>m. ix = (al_index a)\<lparr>ix_examined := m\<rparr>)
    \<and> (case q of Inl _ \<Rightarrow> True
       | Inr ws \<Rightarrow> preview_exact c (al_next a) (live_events (al_index a) @ [n]) ws
          \<and> (\<forall>wm. watermark_for c seen = Some wm \<longrightarrow> \<not> fle (fadd (grid_start (ac_origin c) (ac_hop c) (al_next a + length ws)) (ac_window c)) wm))"
  proof (cases "watermark_for c seen")
    case None
    then show ?thesis using pv nx by (auto simp: preview_exact_Nil intro!: exI [of _ "ix_examined (al_index a)"])
  next
    case (Some wm)
    then have "preview_ready a wm n = (q, ix)" using pv by simp
    from preview_ready_spec [OF a(1) n this] show ?thesis using Some by (auto simp: c_def split: sum.splits)
  qed
  then obtain m where m: "ix = (al_index a)\<lparr>ix_examined := m\<rparr>" by blast
  show ?thesis
  proof (cases q)
    case (Inl x)
    then have "r = Inl x" "a' = touch m a" using p pv m by (simp_all add: accept_event_def Let_def c_def [symmetric] seen_def [symmetric] touch_def)
    then show ?thesis using pv Inl by (auto simp: c_def seen_def)
  next
    case (Inr ws)
    have live: "index_inv ix" "live_events ix = live_events (al_index a)" "ix_grid ix = config_grid c"
      using examined_inv [OF inv, of m] g by (simp_all add: m)
    have sub: "ev_id ` set (live_events ix) \<subseteq> al_seen a" using recorded_live_ids [OF rec lrec] live(2) by simp
    have "length (ix_live ix) = card (ev_id ` set (live_events ix))"
      using live_ids(2) [of ix] live(1) length_live [of ix] distinct_card [of "map ev_id (live_events ix)"] by (simp add: index_inv_def)
    also have "\<dots> \<le> card (al_seen a)" using sub rec by (intro card_mono) (simp_all add: records_ok_def)
    finally obtain ix' where ix': "insert_validated ix n = Inr ix'"
      using insert_validated_total [OF live(1) n(1)] len(1) sub n(2) by fastforce
    have i: "index_inv ix'" "ix_grid ix' = config_grid c" "live_events ix' = live_events (al_index a) @ [n]"
      using insert_validated_Inr [OF ix' live(1) n(1)] live(2,3) by simp_all
    define status where "status = (if is_late a n then TAcceptedLate else TTracked)"
    define a1 where "a1 = track n status (a\<lparr>al_index := ix\<rparr>)"
    define b where "b = (if is_late a n then a1\<lparr>al_late := al_late a1 @ [ev_id n]\<rparr> else a1)\<lparr>al_index := ix', al_max := seen\<rparr>"
    have b: "al_config b = c" "al_index b = ix'" "al_max b = seen" "al_next b = al_next a" "al_dropped b = al_dropped a"
        "al_closed b = False" "al_retention b = al_retention a" "al_seen b = insert (ev_id n) (al_seen a)"
        "al_order b = al_order a @ [\<lparr>tk_id = ev_id n, tk_horizon = event_horizon n, tk_status = status\<rparr>]"
        "al_assigned b = al_assigned a" "al_reported b = al_reported a" "al_released b = al_released a"
      using a(2) by (simp_all add: b_def a1_def track_def c_def)
    have "card (al_seen a) = length (al_order a)" using rec distinct_card [of "map tk_id (al_order a)"] by (simp add: records_ok_def)
    then have "records_ok b (al_order b)" using rec n(2) len(2) by (auto simp: records_ok_def b retained_count_def)
    moreover have "\<forall>e\<in>set (live_events (al_index b)). recorded (al_order b) e"
      using lrec by (auto simp: b i(3) recorded_def status_def)
    ultimately have "aligner_base b" using base i c mx by (simp add: aligner_base_def b c_def)
    moreover have ex: "preview_exact c (al_next a) (live_events (al_index a) @ [n]) ws" using pre Inr by simp
    then have "\<forall>w\<in>set ws. ev_id ` set (aw_events w) \<subseteq> al_seen b"
      using preview_exact_ids [OF ex] sub live(2) by (fastforce simp: b)
    moreover have "not_due b (al_next b + length ws)" using pre Inr by (simp add: not_due_def watermark_def b)
    moreover have "al_next b + length ws \<le> ac_max_windows (al_config b)" using ex by (simp add: preview_exact_def b)
    ultimately obtain a2 where a2: "commit_windows ws b = (Inr (), a2)" "aligner_inv a2" "al_config a2 = c" "al_next a2 = al_next a + length ws"
        "al_dropped a2 = al_dropped a" "al_closed a2 = False" "al_retention a2 = al_retention a"
        "live_events (al_index a2) = filter (\<lambda>e. int (al_next a + length ws) \<le> grid_last (config_grid c) e) (live_events (al_index a) @ [n])"
      using commit_windows_ok [of b ws] by (auto simp: b i)
    have "accept_event a n = (Inr ws, a2)"
      using pv Inr ix' a2(1) unfolding accept_event_def Let_def c_def [symmetric] seen_def [symmetric] b_def a1_def status_def by simp
    then have "r = Inr ws" "a' = a2" using p by simp_all
    then show ?thesis using a2 ex pv Inr by (simp add: accepted_step_def c_def seen_def)
  qed
qed

lemmas accept_event_ok = accept_event_total [THEN conjunct1]

end
