(* ===== verification/Aligner_History.thy ===== *)
theory Aligner_History
  imports Aligner_Laws
begin

text \<open>
  Runs of the streaming aligner: every operation keeps the invariant and a failed one changes
  only the query counter; the emitted windows are those of the reference definition over the
  accepted events.
\<close>

section \<open>Ingest\<close>

definition normalize_raw :: "aligner \<Rightarrow> event \<Rightarrow> event res" where
  "normalize_raw a raw = rbind (snapshot_event raw) (normalized_event (al_config a))"

lemma normalized_event_Inr: "normalized_event c e = Inr n \<Longrightarrow> event_ok n"
  by (auto simp: normalized_event_def shift_event_def dest: make_event_ok)

lemma normalized_event_id:
  assumes "normalized_event c e = Inr n" "event_ok e"
  shows "ev_id n = ev_id e"
  using assms by (auto simp: normalized_event_def shift_event_def make_event_def event_ok_def label_is_label split: if_splits)

definition dropped_step :: "aligner \<Rightarrow> event \<Rightarrow> aligner \<Rightarrow> bool" where
  "dropped_step a n a' \<longleftrightarrow> a' = (track n TDropped a)\<lparr>al_dropped := al_dropped a @ [ev_id n]\<rparr>"

lemma dropped_step_inv:
  assumes a: "aligner_inv a" and "dropped_step a n a'" "ev_id n \<notin> al_seen a" "retained_count a < rp_max_tracked (al_retention a)"
  shows "aligner_inv a'"
proof -
  have rec: "records_ok a (al_order a)" using a by (simp add: aligner_inv_def aligner_base_def)
  have "card (al_seen a) = length (al_order a)" using rec distinct_card [of "map tk_id (al_order a)"] by (simp add: records_ok_def)
  then have "records_ok a' (al_order a')"
    using rec assms(2-4) by (auto simp: records_ok_def dropped_step_def track_def retained_count_def)
  moreover have "recorded (al_order a') e" if "recorded (al_order a) e" for e
    using that assms(2) by (auto simp: recorded_def dropped_step_def track_def)
  ultimately show ?thesis
    using a assms(2) by (simp add: aligner_inv_def aligner_base_def dropped_step_def track_def not_due_def watermark_def)
qed

lemma ingest_ok:
  assumes a: "aligner_inv a" and p: "ingest a raw = (r, a')"
  shows "case r of Inl _ \<Rightarrow> (\<exists>m. a' = touch m a)
    | Inr ws \<Rightarrow> \<not> al_closed a \<and> (\<exists>n. normalize_raw a raw = Inr n \<and> event_ok n \<and> ev_id n \<notin> al_seen a
        \<and> (ws = [] \<and> dropped_step a n a' \<and> aligner_inv a' \<or> accepted_step a n ws a' \<and> (is_late a n \<longrightarrow> ac_late (al_config a) = LAccept)))"
proof (cases "\<exists>e n. \<not> al_closed a \<and> snapshot_event raw = Inr e \<and> ev_id e \<notin> al_seen a \<and> card (al_seen a) < MAX_EVENTS
    \<and> retained_count a < rp_max_tracked (al_retention a) \<and> normalized_event (al_config a) e = Inr n
    \<and> \<not> (is_late a n \<and> ac_late (al_config a) = LReject)")
  case False
  have "\<exists>x. ingest a raw = (Inl x, a)"
    using False unfolding ingest_def by (auto split: sum.splits simp: not_le)
  then show ?thesis using p touch_self [of a] by (auto split: sum.splits) metis
next
  case True
  then obtain e n where g: "\<not> al_closed a" "snapshot_event raw = Inr e" "ev_id e \<notin> al_seen a" "card (al_seen a) < MAX_EVENTS"
      "retained_count a < rp_max_tracked (al_retention a)" "normalized_event (al_config a) e = Inr n"
      "\<not> (is_late a n \<and> ac_late (al_config a) = LReject)"
    by blast
  have e: "event_ok e" using make_event_ok g(2) by (simp add: snapshot_event_def)
  have n: "event_ok n" "ev_id n = ev_id e" "normalize_raw a raw = Inr n"
    using normalized_event_Inr [OF g(6)] normalized_event_id [OF g(6) e] g(2,6) by (simp_all add: normalize_raw_def)
  show ?thesis
  proof (cases "is_late a n \<and> (ac_late (al_config a) = LDrop \<or> is_obsolete a n)")
    case True
    then have "r = Inr []" "a' = (track n TDropped a)\<lparr>al_dropped := al_dropped a @ [ev_id e]\<rparr>"
      using p g by (simp_all add: ingest_def not_le [symmetric])
    moreover from this have d: "dropped_step a n a'" by (simp add: dropped_step_def n(2))
    moreover have "aligner_inv a'" using dropped_step_inv [OF a d] g(3,5) n(2) by simp
    ultimately show ?thesis using g(1,3) n by simp
  next
    case False
    then have "accept_event a n = (r, a')" using p g by (auto simp: ingest_def not_le [symmetric])
    moreover have "ev_id n \<notin> al_seen a" using g(3) n(2) by simp
    ultimately have "case r of Inl _ \<Rightarrow> (\<exists>m. a' = touch m a) | Inr ws \<Rightarrow> accepted_step a n ws a'"
      using accept_event_ok [OF a g(1) n(1) _ g(4,5)] by blast
    moreover have "is_late a n \<longrightarrow> ac_late (al_config a) = LAccept" using False g(7) by (cases "ac_late (al_config a)") auto
    ultimately show ?thesis using g(1,3) n by (auto split: sum.splits)
  qed
qed

section \<open>Flush\<close>

lemma flt_total: "a \<noteq> NaN \<Longrightarrow> b \<noteq> NaN \<Longrightarrow> \<not> flt a b \<Longrightarrow> fle b a"
  using not_flt_iff by blast

lemma event_horizon_not_NaN: "event_ok e \<Longrightarrow> event_horizon e \<noteq> NaN"
  by (cases "ev_time e"; cases "event_end e") (auto simp: event_horizon_def event_ok_def)

lemma fold_fmax_bound:
  "m \<noteq> NaN \<Longrightarrow> \<forall>x\<in>set hs. x \<noteq> NaN \<Longrightarrow>
     fold (\<lambda>x m. fmax m x) hs m \<noteq> NaN \<and> (\<forall>x\<in>insert m (set hs). fle x (fold (\<lambda>x m. fmax m x) hs m))"
proof (induction hs arbitrary: m)
  case (Cons h hs)
  have IH: "fold (\<lambda>x m. fmax m x) hs (fmax m h) \<noteq> NaN
      \<and> (\<forall>x\<in>insert (fmax m h) (set hs). fle x (fold (\<lambda>x m. fmax m x) hs (fmax m h)))"
    by (rule Cons.IH) (use Cons.prems in \<open>auto simp: fmax_def\<close>)
  have "fle m (fmax m h)" "fle h (fmax m h)"
    using Cons.prems flt_total [of m h] fle_refl [of m] fle_refl [of h] by (simp_all add: fmax_def) (simp add: fle_def)
  then show ?case using IH by (auto intro: fle_trans)
qed (simp add: fle_refl)

lemma index_horizon_spec:
  assumes "index_inv ix" "live_events ix \<noteq> []"
  shows "\<exists>h. index_horizon ix = Inr h \<and> (\<forall>e\<in>set (live_events ix). fle (event_horizon e) h)"
proof -
  obtain e es where l: "live_events ix = e # es" using assms(2) by (cases "live_events ix") auto
  have "\<forall>x\<in>set (map event_horizon (live_events ix)). x \<noteq> NaN"
    using event_horizon_not_NaN ix.live_ok [OF assms(1)] by auto
  then have "\<forall>x\<in>insert (event_horizon e) (set (map event_horizon es)). fle x (fold (\<lambda>x m. fmax m x) (map event_horizon es) (event_horizon e))"
    using fold_fmax_bound [of "event_horizon e" "map event_horizon es"] l by simp
  then show ?thesis by (simp add: index_horizon_def l)
qed

definition flushed_step :: "aligner \<Rightarrow> aligned_window list \<Rightarrow> aligner \<Rightarrow> bool" where
  "flushed_step a ws a' \<longleftrightarrow> aligner_inv a' \<and> al_config a' = al_config a \<and> al_next a' = al_next a + length ws \<and> al_closed a'
     \<and> al_dropped a' = al_dropped a \<and> preview_exact (al_config a) (al_next a) (live_events (al_index a)) ws
     \<and> (\<forall>e\<in>set (live_events (al_index a)). grid_last (config_grid (al_config a)) e < int (al_next a'))"

lemma close_inv:
  assumes "aligner_inv a" "live_events ix = []" "index_inv ix" "ix_grid ix = ix_grid (al_index a)"
  shows "aligner_inv (a\<lparr>al_index := ix, al_closed := True\<rparr>)"
proof -
  have "records_ok (a\<lparr>al_index := ix, al_closed := True\<rparr>) (al_order a) = records_ok a (al_order a)" by (simp add: records_ok_def)
  then show ?thesis using assms by (simp add: aligner_inv_def aligner_base_def not_due_def watermark_def)
qed

lemma touch_base: "aligner_base a \<Longrightarrow> aligner_base (touch m a)"
  using examined_inv [of "al_index a" m] records_touch [of m a] by (simp add: aligner_base_def touch_def)

lemma not_due_mono:
  assumes "config_ok (al_config a)" "not_due a i" "i \<le> j" "j \<le> ac_max_windows (al_config a)"
  shows "not_due a j"
  using assms grid_end_mono [of "ac_origin (al_config a)" "ac_window (al_config a)" "ac_hop (al_config a)" "ac_max_windows (al_config a)" j i]
  by (auto simp: not_due_def config_ok_def intro: fle_trans)

lemma flush_full:
  assumes a: "aligner_inv a" and p: "flush a = (r, a')"
  shows "(case r of Inl _ \<Rightarrow> (\<exists>m. a' = touch m a) | Inr ws \<Rightarrow> flushed_step a ws a' \<and> (al_closed a \<longrightarrow> ws = [] \<and> a' = a))
    \<and> (\<forall>h ws ix. \<not> al_closed a \<and> ix_live (al_index a) \<noteq> [] \<and> index_horizon (al_index a) = Inr h
         \<and> preview_flush a h = (Inr ws, ix) \<longrightarrow> r = Inr ws)"
proof -
  define c where "c = al_config a"
  have base: "aligner_base a" and nx: "al_next a \<le> ac_max_windows c" and s: "start_at c (al_next a) (al_start a)"
    using a by (simp_all add: aligner_inv_def c_def)
  then have c: "config_ok c" and inv: "index_inv (al_index a)" and g: "ix_grid (al_index a) = config_grid c"
    by (simp_all add: aligner_base_def c_def)
  consider "al_closed a" | "\<not> al_closed a" "live_events (al_index a) = []" | "\<not> al_closed a" "live_events (al_index a) \<noteq> []" by blast
  then show ?thesis
  proof cases
    case 1
    then show ?thesis using p a nx by (auto simp: flush_def flushed_step_def preview_exact_Nil c_def aligner_inv_def)
  next
    case 2
    then have "ix_live (al_index a) = []" by (simp add: live_events_def)
    moreover have "aligner_inv (a\<lparr>al_closed := True\<rparr>)" using close_inv [OF a 2(2) inv refl] by simp
    ultimately show ?thesis using 2 p nx by (auto simp: flush_def flushed_step_def preview_exact_Nil c_def)
  next
    case 3
    then have "ix_live (al_index a) \<noteq> []" by (auto simp: live_events_def)
    obtain h where h: "index_horizon (al_index a) = Inr h" "\<forall>e\<in>set (live_events (al_index a)). fle (event_horizon e) h"
      using index_horizon_spec [OF inv 3(2)] by blast
    obtain q ix where pv: "preview_flush a h = (q, ix)" by (cases "preview_flush a h")
    have ids: "distinct (map ev_id (live_events (al_index a) @ []))" using live_ids(2) inv by (simp add: index_inv_def)
    have pre: "(\<exists>m. ix = (al_index a)\<lparr>ix_examined := m\<rparr>) \<and> (case q of Inl _ \<Rightarrow> True
       | Inr ws \<Rightarrow> preview_exact c (al_next a) (live_events (al_index a) @ []) ws \<and> (\<exists>s. start_at c (al_next a + length ws) s \<and> \<not> flt s h))"
    proof (cases "flt (grid_start (ac_origin c) (ac_hop c) (ac_max_windows c)) h")
      case True
      then show ?thesis using pv by (auto simp: preview_flush_def c_def Let_def intro!: exI [of _ "ix_examined (al_index a)"])
    next
      case False
      then have "preview_loop (\<lambda>start. flt start h) c [] (al_next a) (al_start a) (al_index a) = (q, ix)"
        using pv by (simp add: preview_flush_def c_def Let_def)
      from preview_loop_spec [OF this c inv g s nx _ ids] show ?thesis by simp
    qed
    then obtain m where m: "ix = (al_index a)\<lparr>ix_examined := m\<rparr>" by blast
    show ?thesis
    proof (cases q)
      case (Inl x)
      then have "r = Inl x" "a' = touch m a"
        using p 3 \<open>ix_live (al_index a) \<noteq> []\<close> h(1) pv m by (simp_all add: flush_def touch_def)
      then show ?thesis using h(1) pv Inl by auto
    next
      case (Inr ws)
      have t: "a\<lparr>al_index := ix\<rparr> = touch m a" by (simp add: touch_def m)
      have ex: "preview_exact c (al_next a) (live_events (al_index a)) ws" using pre Inr by simp
      obtain st where st: "start_at c (al_next a + length ws) st" "\<not> flt st h" using pre Inr by auto
      have len: "al_next a + length ws \<le> ac_max_windows c" using ex by (simp add: preview_exact_def)
      have le: "live_events (al_index (touch m a)) = live_events (al_index a)" using examined_inv(3) [OF inv] by (simp add: touch_def)
      have "\<forall>w\<in>set ws. ev_id ` set (aw_events w) \<subseteq> al_seen (touch m a)"
        using preview_exact_ids [OF ex] recorded_live_ids [of a "al_order a" "live_events (al_index a)"] base
        by (fastforce simp: touch_def aligner_base_def)
      moreover have "not_due (touch m a) (al_next a + length ws)"
        using not_due_mono [of a "al_next a" "al_next a + length ws"] a c len by (simp add: aligner_inv_def not_due_def watermark_def touch_def c_def)
      ultimately obtain a2 where a2: "commit_windows ws (touch m a) = (Inr (), a2)" "aligner_inv a2" "al_config a2 = c"
          "al_next a2 = al_next a + length ws" "al_dropped a2 = al_dropped a"
        using commit_windows_ok [OF touch_base [OF base], of m ws] len 3(1) by (auto simp: touch_def c_def)
      have "r = Inr ws" and a': "a' = a2\<lparr>al_index := clear_index (al_index a2), al_closed := True\<rparr>"
        using p 3 \<open>ix_live (al_index a) \<noteq> []\<close> h(1) pv Inr a2(1) t by (simp_all add: flush_def)
      have i2: "index_inv (al_index a2)" using a2(2) by (simp add: aligner_inv_def aligner_base_def)
      have "aligner_inv a'" unfolding a' by (rule close_inv [OF a2(2)]) (use clear_index_inv [OF i2] in simp_all)
      moreover have "grid_last (config_grid c) e < int (al_next a + length ws)" if "e \<in> set (live_events (al_index a))" for e
      proof -
        have f: "is_finite st" "is_finite (grid_start (ac_origin c) (ac_hop c) (al_next a + length ws))"
            "fint st = fint (grid_start (ac_origin c) (ac_hop c) (al_next a + length ws))"
          using st(1) config_start [OF c len] by (simp_all add: start_at_def)
        have "\<not> flt (grid_start (ac_origin c) (ac_hop c) (al_next a + length ws)) h"
          using st(2) f finite_cases by (auto simp: flt_def)
        then have "\<not> flt (grid_start (ac_origin c) (ac_hop c) (al_next a + length ws)) (event_horizon e)"
          using h(2) that flt_fle_trans by blast
        then show ?thesis using grid_last_iff [OF c len] by simp
      qed
      ultimately show ?thesis using \<open>r = Inr ws\<close> a' a2 ex 3(1) h(1) pv Inr by (simp add: flushed_step_def c_def)
    qed
  qed
qed

lemmas flush_ok = flush_full [THEN conjunct1]

section \<open>Histories\<close>

text \<open>The accepted events of a run, each with the number of windows already out when it came.\<close>

definition accepted_by :: "aligner_op \<Rightarrow> aligner \<Rightarrow> (nat \<times> event) list" where
  "accepted_by c a =
     (case c of
        AFlush \<Rightarrow> []
      | AIngest raw \<Rightarrow>
          (case (ingest a raw, normalize_raw a raw) of
             ((Inr ws, a'), Inr n) \<Rightarrow> if al_dropped a' = al_dropped a then [(al_next a, n)] else []
           | _ \<Rightarrow> []))"

fun aligner_history :: "aligner_op list \<Rightarrow> aligner \<Rightarrow> (nat \<times> event) list" where
  "aligner_history [] a = []"
| "aligner_history (c # cs) a = accepted_by c a @ aligner_history cs (snd (aligner_apply c a))"

definition emitted :: "aligned_window list res list \<Rightarrow> aligned_window list" where
  "emitted rs = concat (map (\<lambda>r. case r of Inl _ \<Rightarrow> [] | Inr ws \<Rightarrow> ws) rs)"

definition entered :: "nat \<Rightarrow> (nat \<times> event) list \<Rightarrow> event list" where
  "entered i H = map snd (filter (\<lambda>h. fst h \<le> i) H)"

lemma grid_hits_last:
  assumes "config_ok c" "i \<le> ac_max_windows c" "event_ok e" "grid_hits (config_grid c) e i"
  shows "int i \<le> grid_last (config_grid c) e"
proof -
  have g: "start_at c i (grid_start (ac_origin c) (ac_hop c) i)" using config_start assms(1,2) by blast
  then have "flt (grid_start (ac_origin c) (ac_hop c) i) (event_horizon e)"
    using overlaps_iff [OF assms(3)] assms(4) by (simp add: start_at_def grid_hits_def config_grid_def)
  then show ?thesis using grid_last_iff [OF assms(1,2)] by simp
qed

lemma window_events_filter:
  assumes "config_ok c" "i \<le> ac_max_windows c" "k \<le> i" "\<forall>e\<in>set es. event_ok e"
  shows "window_events c i (filter (\<lambda>e. int k \<le> grid_last (config_grid c) e) es @ fs) = window_events c i (es @ fs)"
proof -
  have "filter (\<lambda>e. grid_hits (config_grid c) e i) (filter (\<lambda>e. int k \<le> grid_last (config_grid c) e) es)
      = filter (\<lambda>e. grid_hits (config_grid c) e i) es"
    unfolding filter_filter by (rule filter_cong [OF refl]) (use grid_hits_last [OF assms(1,2)] assms(3,4) in fastforce)
  then show ?thesis by (simp add: window_events_def)
qed

lemma window_exact_cong: "window_events c i es = window_events c i fs \<Longrightarrow> window_exact c i es w = window_exact c i fs w"
  by (simp add: window_exact_def)

definition history_ok :: "alignment_config \<Rightarrow> (nat \<times> event) list \<Rightarrow> aligned_window list \<Rightarrow> aligner \<Rightarrow> bool" where
  "history_ok c H W a \<longleftrightarrow> aligner_inv a \<and> al_config a = c \<and> length W = al_next a
     \<and> (\<forall>i<length W. window_exact c i (entered i H) (W ! i))
     \<and> (\<forall>h\<in>set H. event_ok (snd h) \<and> fst h \<le> al_next a)
     \<and> (if al_closed a then \<forall>h\<in>set H. grid_last (config_grid c) (snd h) < int (al_next a)
        else live_events (al_index a) = filter (\<lambda>e. int (al_next a) \<le> grid_last (config_grid c) e) (map snd H))"

lemma history_windows:
  assumes h: "history_ok c H W a" "\<not> al_closed a" and ex: "preview_exact c (al_next a) (live_events (al_index a) @ fs) ws"
    and tags: "\<forall>x\<in>set fs. fst (F x) = al_next a \<and> snd (F x) = x"
  shows "\<forall>i<length (W @ ws). window_exact c i (entered i (H @ map F fs)) ((W @ ws) ! i)"
proof (intro allI impI)
  fix i assume i: "i < length (W @ ws)"
  have "aligner_inv a" "al_config a = c" and len: "length W = al_next a" using h(1) by (simp_all add: history_ok_def)
  then have c: "config_ok c" by (auto simp: aligner_inv_def aligner_base_def)
  show "window_exact c i (entered i (H @ map F fs)) ((W @ ws) ! i)"
  proof (cases "i < length W")
    case True
    then have "filter (\<lambda>h. fst h \<le> i) (map F fs) = []" using tags len by (auto simp: filter_empty_conv)
    then have "entered i (H @ map F fs) = entered i H" by (simp add: entered_def)
    then show ?thesis using h True by (simp add: history_ok_def nth_append)
  next
    case False
    have bound: "al_next a + length ws \<le> ac_max_windows c" using ex by (simp add: preview_exact_def)
    have "window_exact c (al_next a + (i - length W)) (live_events (al_index a) @ fs) (ws ! (i - length W))"
      using ex i False unfolding preview_exact_def length_append by (metis (no_types, lifting) add.commute less_diff_conv2 linorder_not_less)
    then have w: "window_exact c i (live_events (al_index a) @ fs) ((W @ ws) ! i)" using False len by (simp add: nth_append)
    have "\<forall>x\<in>set H. fst x \<le> i" using h(1) False len by (fastforce simp: history_ok_def)
    then have "filter (\<lambda>h. fst h \<le> i) H = H" by (simp add: filter_id_conv)
    moreover have "filter (\<lambda>h. fst h \<le> i) (map F fs) = map F fs" using tags False len by (simp add: filter_id_conv)
    ultimately have "entered i (H @ map F fs) = map snd H @ map snd (map F fs)" by (simp add: entered_def)
    moreover have "map snd (map F fs) = fs" using tags by (induction fs) auto
    ultimately have e: "entered i (H @ map F fs) = map snd H @ fs" by simp
    have "window_events c i (live_events (al_index a) @ fs) = window_events c i (map snd H @ fs)"
      using window_events_filter [OF c, of i "al_next a" "map snd H" fs] h False i len bound by (auto simp: history_ok_def)
    then show ?thesis using w window_exact_cong e by metis
  qed
qed

lemma history_touch:
  assumes "history_ok c H W a"
  shows "history_ok c H W (touch m a)"
proof -
  have "aligner_inv (touch m a)" using assms touch_inv by (simp add: history_ok_def)
  moreover have "live_events (al_index (touch m a)) = live_events (al_index a)" by (simp add: touch_def live_events_def)
  ultimately show ?thesis using assms by (simp add: history_ok_def) (simp add: touch_def)
qed

lemma history_drop: "history_ok c H W a \<Longrightarrow> dropped_step a n a' \<Longrightarrow> aligner_inv a' \<Longrightarrow> history_ok c H W a'"
  by (simp add: history_ok_def dropped_step_def track_def)

lemma history_accept:
  assumes h: "history_ok c H W a" "\<not> al_closed a" and st: "accepted_step a n ws a'" and n: "event_ok n"
  shows "history_ok c (H @ [(al_next a, n)]) (W @ ws) a'"
proof -
  have cfg: "al_config a = c" using h by (simp add: history_ok_def)
  have ex: "preview_exact c (al_next a) (live_events (al_index a) @ [n]) ws" using st cfg by (simp add: accepted_step_def)
  have w: "\<forall>i<length (W @ ws). window_exact c i (entered i (H @ [(al_next a, n)])) ((W @ ws) ! i)"
    using history_windows [OF h ex, of "\<lambda>x. (al_next a, x)"] by simp
  have nx: "al_next a' = al_next a + length ws" using st by (simp add: accepted_step_def)
  have "live_events (al_index a') = filter (\<lambda>e. int (al_next a') \<le> grid_last (config_grid c) e)
      (filter (\<lambda>e. int (al_next a) \<le> grid_last (config_grid c) e) (map snd H) @ [n])"
    using st h by (simp add: accepted_step_def history_ok_def)
  also have "\<dots> = filter (\<lambda>e. int (al_next a') \<le> grid_last (config_grid c) e) (map snd H @ [n])"
    unfolding filter_append filter_filter by (intro arg_cong2 [of _ _ _ _ append] filter_cong) (auto simp: nx)
  finally have live: "live_events (al_index a') = filter (\<lambda>e. int (al_next a') \<le> grid_last (config_grid c) e) (map snd H @ [n])" .
  have "\<forall>h\<in>set (H @ [(al_next a, n)]). event_ok (snd h) \<and> fst h \<le> al_next a'"
    using h(1) n by (auto simp: history_ok_def nx)
  then show ?thesis using h w live st by (simp add: history_ok_def accepted_step_def)
qed

lemma history_flush:
  assumes h: "history_ok c H W a" "\<not> al_closed a" and st: "flushed_step a ws a'"
  shows "history_ok c H (W @ ws) a'"
proof -
  have cfg: "al_config a = c" using h by (simp add: history_ok_def)
  have nx: "al_next a' = al_next a + length ws" using st by (simp add: flushed_step_def)
  have w: "\<forall>i<length (W @ ws). window_exact c i (entered i H) ((W @ ws) ! i)"
    using history_windows [OF h, of "[]" ws "\<lambda>x. (0, x)"] st by (simp add: flushed_step_def cfg)
  have "grid_last (config_grid c) (snd x) < int (al_next a')" if x: "x \<in> set H" for x
  proof (cases "int (al_next a) \<le> grid_last (config_grid c) (snd x)")
    case True
    then have "snd x \<in> set (live_events (al_index a))" using h x by (auto simp: history_ok_def)
    then show ?thesis using st unfolding flushed_step_def cfg by blast
  qed (simp add: nx)
  then show ?thesis using h w st nx by (auto simp: history_ok_def flushed_step_def)
qed

lemma history_step:
  assumes h: "history_ok c H W a" and p: "aligner_apply x a = (r, a')"
  shows "history_ok c (H @ accepted_by x a) (W @ emitted [r]) a'"
proof -
  have a: "aligner_inv a" using h by (simp add: history_ok_def)
  show ?thesis
  proof (cases x)
    case (AIngest raw)
    then have i: "ingest a raw = (r, a')" using p by (simp add: aligner_apply_def)
    note ok = ingest_ok [OF a i]
    show ?thesis
    proof (cases r)
      case (Inl e)
      then have "accepted_by x a = []" using i AIngest by (simp add: accepted_by_def split: sum.splits)
      moreover obtain m where "a' = touch m a" using ok Inl by auto
      ultimately show ?thesis using history_touch [OF h] Inl by (simp add: emitted_def)
    next
      case (Inr ws)
      then obtain n where n: "\<not> al_closed a" "normalize_raw a raw = Inr n" "event_ok n"
          "ws = [] \<and> dropped_step a n a' \<and> aligner_inv a' \<or> accepted_step a n ws a'"
        using ok by auto
      from n(4) show ?thesis
      proof
        assume d: "ws = [] \<and> dropped_step a n a' \<and> aligner_inv a'"
        then have "accepted_by x a = []" using i AIngest Inr n(2) by (simp add: accepted_by_def dropped_step_def)
        then show ?thesis using history_drop [OF h, of n a'] d Inr by (simp add: emitted_def)
      next
        assume s: "accepted_step a n ws a'"
        then have "accepted_by x a = [(al_next a, n)]" using i AIngest Inr n(2) by (simp add: accepted_by_def accepted_step_def)
        then show ?thesis using history_accept [OF h n(1) s n(3)] Inr by (simp add: emitted_def)
      qed
    qed
  next
    case AFlush
    then have f: "flush a = (r, a')" "accepted_by x a = []" using p by (simp_all add: aligner_apply_def accepted_by_def)
    note ok = flush_ok [OF a f(1)]
    show ?thesis
    proof (cases r)
      case (Inl e)
      then obtain m where "a' = touch m a" using ok by auto
      then show ?thesis using history_touch [OF h] Inl f(2) by (simp add: emitted_def)
    next
      case (Inr ws)
      then show ?thesis using ok history_flush [OF h, of ws a'] h f(2) by (cases "al_closed a") (simp_all add: emitted_def)
    qed
  qed
qed

lemma history_run:
  assumes "history_ok c H W a" "run_ops aligner_apply cs a = (rs, a')"
  shows "history_ok c (H @ aligner_history cs a) (W @ emitted rs) a'"
  using assms
proof (induction cs arbitrary: a H W rs)
  case (Cons x cs)
  obtain r a1 where s: "aligner_apply x a = (r, a1)" by (cases "aligner_apply x a")
  obtain rs1 where rs: "rs = r # rs1" "run_ops aligner_apply cs a1 = (rs1, a')"
    using Cons.prems(2) s by (auto simp: run_ops_Cons prod_eq_iff)
  have "history_ok c ((H @ accepted_by x a) @ aligner_history cs a1) ((W @ emitted [r]) @ emitted rs1) a'"
    by (rule Cons.IH [OF history_step [OF Cons.prems(1) s] rs(2)])
  then show ?case using s rs(1) by (simp add: emitted_def)
qed (simp add: emitted_def)

lemma history_start:
  assumes "make_aligner raw r = Inr a"
  shows "history_ok (al_config a) [] [] a"
  using make_aligner_inv [OF assms] by (simp add: history_ok_def)

text \<open>Under \<open>reject\<close> and \<open>drop\<close> an accepted event overlaps no window that is already out.\<close>

definition timely :: "alignment_config \<Rightarrow> nat \<times> event \<Rightarrow> bool" where
  "timely c h \<longleftrightarrow> (\<forall>i<fst h. \<not> grid_hits (config_grid c) (snd h) i)"

lemma not_late_timely:
  assumes a: "aligner_inv a" and n: "event_ok n" "\<not> is_late a n"
  shows "timely (al_config a) (al_next a, n)"
  unfolding timely_def
proof (intro allI impI)
  fix i assume i: "i < fst (al_next a, n)"
  define c where "c = al_config a"
  have c: "config_ok c" and nx: "al_next a - 1 \<le> ac_max_windows c" "i \<le> al_next a - 1"
    using a i by (auto simp: aligner_inv_def aligner_base_def c_def)
  have t: "is_finite (ev_time n)" using n(1) by (simp add: event_ok_def)
  have g: "grid_ok (ac_origin c) (ac_window c) (ac_hop c) (ac_max_windows c)" using c by (simp add: config_ok_def)
  have "\<not> flt (ev_time n) (fadd (grid_start (ac_origin c) (ac_hop c) (al_next a - 1)) (ac_window c))"
    using n(2) i by (simp add: is_late_def closed_horizon_def c_def)
  then have "\<not> flt (ev_time n) (fadd (grid_start (ac_origin c) (ac_hop c) i) (ac_window c))"
    using grid_end_mono [OF g nx] flt_fle_trans by blast
  then show "\<not> grid_hits (config_grid (al_config a)) (snd (al_next a, n)) i"
    by (simp add: grid_hits_def config_grid_def overlaps_def c_def)
qed

lemma history_timely:
  assumes "aligner_inv a" "ac_late (al_config a) \<noteq> LAccept"
  shows "\<forall>h\<in>set (aligner_history cs a). timely (al_config a) h"
  using assms
proof (induction cs arbitrary: a)
  case (Cons x cs)
  obtain r a1 where s: "aligner_apply x a = (r, a1)" by (cases "aligner_apply x a")
  have one: "aligner_inv a1 \<and> al_config a1 = al_config a \<and> (\<forall>h\<in>set (accepted_by x a). timely (al_config a) h)"
  proof (cases x)
    case (AIngest raw)
    then have i: "ingest a raw = (r, a1)" using s by (simp add: aligner_apply_def)
    note ok = ingest_ok [OF Cons.prems(1) i]
    show ?thesis
    proof (cases r)
      case (Inl e)
      then show ?thesis using ok i AIngest touch_inv [OF Cons.prems(1)] by (auto simp: accepted_by_def touch_def split: sum.splits)
    next
      case (Inr ws)
      then obtain n where n: "normalize_raw a raw = Inr n" "event_ok n"
          "ws = [] \<and> dropped_step a n a1 \<and> aligner_inv a1 \<or> accepted_step a n ws a1 \<and> \<not> is_late a n"
        using ok Cons.prems(2) by auto
      then show ?thesis using i AIngest Inr not_late_timely [OF Cons.prems(1) n(2)]
        by (auto simp: accepted_by_def dropped_step_def accepted_step_def track_def)
    qed
  next
    case AFlush
    then have f: "flush a = (r, a1)" "accepted_by x a = []" using s by (simp_all add: aligner_apply_def accepted_by_def)
    then show ?thesis using flush_ok [OF Cons.prems(1) f(1)] touch_inv [OF Cons.prems(1)]
      by (auto simp: flushed_step_def touch_def split: sum.splits)
  qed
  then show ?case using Cons.IH [of a1] Cons.prems(2) s by auto
qed simp

lemma timely_entered:
  assumes "\<forall>h\<in>set H. timely c h"
  shows "window_events c i (entered i H) = window_events c i (map snd H)"
proof -
  have "filter (\<lambda>e. grid_hits (config_grid c) e i) (map snd (filter (\<lambda>h. fst h \<le> i) H)) = filter (\<lambda>e. grid_hits (config_grid c) e i) (map snd H)"
    unfolding filter_map filter_filter
    by (rule arg_cong [of _ _ "map snd"], rule filter_cong [OF refl]) (use assms in \<open>auto simp: timely_def not_le [symmetric] dest!: bspec\<close>)
  then show ?thesis by (simp add: window_events_def entered_def)
qed

end
