(* ===== verification/Aligner_Progress.thy ===== *)
theory Aligner_Progress
  imports Aligner_History
begin

text \<open>
  When the aligner cannot fail: a window within the event limit whose end is after its start is
  built, so a flush within the grid succeeds. And where it can although the configuration was
  accepted: the range check looks at the ends of the grid only.
\<close>

section \<open>Windows that can be built\<close>

text \<open>Rounding does not collapse the window.\<close>

definition window_proper :: "alignment_config \<Rightarrow> nat \<Rightarrow> bool" where
  "window_proper c i \<longleftrightarrow> flt (grid_start (ac_origin c) (ac_hop c) i) (fadd (grid_start (ac_origin c) (ac_hop c) i) (ac_window c))"

definition within_limits :: "alignment_config \<Rightarrow> event list \<Rightarrow> nat \<Rightarrow> bool" where
  "within_limits c es i \<longleftrightarrow> (\<forall>j. i \<le> j \<and> j < ac_max_windows c \<longrightarrow>
     window_proper c j \<and> length (window_events c j es) \<le> ac_max_events c)"

lemma overlaps_bounds_eq: "overlaps_bounds = overlaps"
  by (simp add: fun_eq_iff overlaps_bounds_def overlaps_def)

lemma make_window_total:
  assumes "\<forall>e\<in>set es. event_ok e \<and> overlaps e s t \<and> ev_stream e \<notin> set missing" "distinct (map ev_id es)"
    and "length es \<le> MAX_EVENTS_PER_WINDOW" "is_finite s" "fvalid s" "is_finite t" "fvalid t" "flt s t"
    and "label_tuple missing MAX_STREAMS = Inr missing"
  shows "\<exists>w. make_window i s t es missing = Inr w"
proof -
  have "map_res snapshot_event es = Inr es" using assms(1) by (induction es) (simp_all add: snapshot_event_ok)
  moreover have "\<not> fle t s" using assms(8) fle_flt_trans flt_irrefl by blast
  moreover have "list_all (\<lambda>e. overlaps_bounds e s t) es" "\<not> list_ex (\<lambda>e. ev_stream e \<in> set missing) es"
    using assms(1) by (auto simp: list_all_iff list_ex_iff overlaps_bounds_eq)
  ultimately show ?thesis using assms by (simp add: make_window_def any_finite_PFloat)
qed

lemma build_window_total:
  assumes c: "config_ok c" and inv: "index_inv ix" and g: "ix_grid ix = config_grid c" and s: "start_at c i start"
    and pend: "\<forall>e\<in>set pending. event_ok e" and ids: "distinct (map ev_id (live_events ix @ pending))"
    and i: "i < ac_max_windows c" and lim: "within_limits c (live_events ix @ pending) i"
  shows "\<exists>w. fst (build_window c pending i start ix) = Inr w"
proof -
  have "i < ix_ceiling ix" using i g by (simp add: ix_grid_def config_grid_def)
  then obtain es ix' where m: "matching ix i = Inr (es, ix')" by (simp add: matching_def Let_def)
  define stop where "stop = fadd start (ac_window c)"
  define events where "events = sort_key event_key (es @ filter (\<lambda>e. overlaps e start stop) pending)"
  have hit: "overlaps e start stop = grid_hits (config_grid c) e i" for e
    unfolding stop_def by (rule start_at_overlaps [OF c less_imp_le [OF i] s])
  have q: "mset es = mset (filter (\<lambda>e. grid_hits (config_grid c) e i) (live_events ix))" using ix.query_ok [OF inv m] g by simp
  have ms: "mset (es @ filter (\<lambda>e. overlaps e start stop) pending) = mset (filter (\<lambda>e. grid_hits (config_grid c) e i) (live_events ix @ pending))"
    by (simp add: q hit)
  have dist: "distinct (map ev_id (filter (\<lambda>e. grid_hits (config_grid c) e i) (live_events ix @ pending)))"
    by (rule distinct_map_filter [OF ids])
  have ev: "events = window_events c i (live_events ix @ pending)"
    unfolding events_def window_events_def by (rule sort_events_eq [symmetric, OF ms [symmetric] dist])
  have len: "length events \<le> ac_max_events c" and proper: "window_proper c i"
    using lim i by (simp_all add: within_limits_def ev)
  have "length events \<le> MAX_EVENTS_PER_WINDOW" using len c by (simp add: config_ok_def)
  moreover have "\<forall>e\<in>set events. event_ok e \<and> overlaps e start stop \<and> ev_stream e \<notin> set (missing_streams c events)"
    using pend ix.live_ok [OF inv] by (auto simp: ev window_events_def hit missing_streams_def)
  moreover have "mset (map ev_id events) = mset (map ev_id (filter (\<lambda>e. grid_hits (config_grid c) e i) (live_events ix @ pending)))"
    by (simp add: ev window_events_def)
  then have "distinct (map ev_id events)" using dist mset_eq_imp_distinct_iff by blast
  moreover have "is_finite stop" "fvalid stop"
    using grid_start_facts(4,5) [of "ac_origin c" "ac_window c" "ac_hop c" "ac_max_windows c" i] c i
    unfolding stop_def start_at_stop [OF c less_imp_le [OF i] s] by (simp_all add: config_ok_def)
  moreover have "flt start stop"
  proof -
    have "is_finite start" "is_finite (grid_start (ac_origin c) (ac_hop c) i)" "fint start = fint (grid_start (ac_origin c) (ac_hop c) i)"
      using s config_start [OF c less_imp_le [OF i]] by (simp_all add: start_at_def)
    then show ?thesis
      using proper unfolding window_proper_def stop_def start_at_stop [OF c less_imp_le [OF i] s] flt_def
      using finite_cases by metis
  qed
  ultimately obtain w where "make_window i start stop events (missing_streams c events) = Inr w"
    using make_window_total [of events start stop "missing_streams c events" i] s missing_labels [OF c] by (auto simp: start_at_def)
  then show ?thesis using m len by (simp add: build_window_def Let_def events_def stop_def)
qed

lemma within_limits_mono: "within_limits c es i \<Longrightarrow> i \<le> j \<Longrightarrow> within_limits c es j"
  by (simp add: within_limits_def)

lemma preview_loop_total:
  assumes "config_ok c" "index_inv ix" "ix_grid ix = config_grid c" "start_at c i start" "i \<le> ac_max_windows c"
    and "\<forall>e\<in>set pending. event_ok e" "distinct (map ev_id (live_events ix @ pending))" "within_limits c (live_events ix @ pending) i"
    and "\<And>s. start_at c (ac_max_windows c) s \<Longrightarrow> \<not> again s"
  shows "\<exists>ws. fst (preview_loop again c pending i start ix) = Inr ws"
  using assms
proof (induction again c pending i start ix rule: preview_loop.induct)
  case (1 again c pending i start ix)
  show ?case
  proof (cases "again start")
    case False
    then show ?thesis by (simp add: preview_loop.simps [of again c pending i start ix])
  next
    case True
    then have "i \<noteq> ac_max_windows c" using "1.prems"(4,9) by blast
    then have i: "i < ac_max_windows c" using "1.prems"(5) by simp
    obtain w ix1 where b: "build_window c pending i start ix = (Inr w, ix1)"
      using build_window_total [OF "1.prems"(1-4,6,7) i "1.prems"(8)] by (metis prod.collapse)
    obtain m where m: "ix1 = ix\<lparr>ix_examined := m\<rparr>" using build_window_state [OF "1.prems"(3), of pending i start] b by auto
    have i1: "index_inv ix1" "ix_grid ix1 = config_grid c" "live_events ix1 = live_events ix"
      using examined_inv [OF "1.prems"(2), of m] "1.prems"(3) by (simp_all add: m)
    have "\<exists>ws. fst (preview_loop again c pending (i + 1) (grid_start (ac_origin c) (ac_hop c) (i + 1)) ix1) = Inr ws"
      by (rule "1.IH" [OF True b [symmetric] refl])
        (use i i1 "1.prems" config_start [OF "1.prems"(1)] within_limits_mono in auto)
    then show ?thesis using True b by (auto simp: preview_loop.simps [of again c pending i start ix] split: prod.splits sum.splits)
  qed
qed

section \<open>Flushes that succeed\<close>

lemma fold_fmax_in: "fold (\<lambda>x m. fmax m x) hs m \<in> insert m (set hs)"
  by (induction hs arbitrary: m) (auto simp: fmax_def)

lemma index_horizon_in:
  assumes "live_events ix \<noteq> []"
  shows "\<exists>h. index_horizon ix = Inr h \<and> h \<in> event_horizon ` set (live_events ix)"
  using assms fold_fmax_in by (cases "live_events ix") (fastforce simp: index_horizon_def)+

lemma flush_total:
  assumes a: "aligner_inv a" and lim: "within_limits (al_config a) (live_events (al_index a)) (al_next a)"
    and fit: "\<forall>e\<in>set (live_events (al_index a)). grid_last (config_grid (al_config a)) e < int (ac_max_windows (al_config a))"
  shows "\<exists>ws a'. flush a = (Inr ws, a')"
proof -
  define c where "c = al_config a"
  have base: "aligner_base a" and nx: "al_next a \<le> ac_max_windows c" and s: "start_at c (al_next a) (al_start a)"
    using a by (simp_all add: aligner_inv_def c_def)
  then have c: "config_ok c" and inv: "index_inv (al_index a)" and g: "ix_grid (al_index a) = config_grid c"
    by (simp_all add: aligner_base_def c_def)
  show ?thesis
  proof (cases "al_closed a \<or> ix_live (al_index a) = []")
    case True
    then show ?thesis by (auto simp: flush_def)
  next
    case False
    then have ne: "live_events (al_index a) \<noteq> []" by (simp add: live_events_def)
    obtain h where h: "index_horizon (al_index a) = Inr h" "h \<in> event_horizon ` set (live_events (al_index a))"
      using index_horizon_in [OF ne] by blast
    define q where "q = preview_loop (\<lambda>start. flt start h) c [] (al_next a) (al_start a) (al_index a)"
    have top: "\<not> flt (grid_start (ac_origin c) (ac_hop c) (ac_max_windows c)) h"
      using grid_last_iff [OF c order_refl] h(2) fit by (auto simp: c_def)
    have "\<not> flt s h" if "start_at c (ac_max_windows c) s" for s
      using that top config_start [OF c order_refl] finite_cases by (auto simp: start_at_def flt_def)
    moreover have "distinct (map ev_id (live_events (al_index a) @ []))" using live_ids(2) inv by (simp add: index_inv_def)
    ultimately obtain ws where "fst q = Inr ws"
      using preview_loop_total [OF c inv g s nx, of "[]" "\<lambda>start. flt start h"] lim by (auto simp: q_def c_def)
    then obtain ix where q: "preview_flush a h = (Inr ws, ix)"
      using top by (cases q) (simp add: preview_flush_def Let_def c_def [symmetric] q_def [symmetric])
    have "\<not> al_closed a" "ix_live (al_index a) \<noteq> []" using False by simp_all
    then obtain ws a' where "flush a = (Inr ws, a')"
      using flush_full [OF a prod.collapse [symmetric]] h(1) q by (metis prod.collapse)
    then show ?thesis by blast
  qed
qed

end
