(* ===== verification/Event_Properties.thy ===== *)
theory Event_Properties
  imports Aligner_Progress Window_Properties
begin

text \<open>
  The properties of the event-time components, with a sample configuration: windows of ten
  milliseconds side by side from zero, four at most, one required stream.
\<close>

section \<open>Whole numbers of milliseconds\<close>

definition ms :: "int \<Rightarrow> pyfloat" where
  "ms n = Fin (n * fscale)"

lemma ms_eq: "\<bar>n\<bar> \<le> 2 ^ 53 \<Longrightarrow> float_of_int n = ms n"
  by (simp add: float_of_int_exact ms_def)

lemma ms_units: "\<bar>n\<bar> \<le> 2 ^ 53 \<Longrightarrow> of_units (n * fscale) = ms n"
  using ms_eq [of n] by (simp add: float_of_int_def)

lemma ms_simps [simp]: "frank (ms n) = 0" "is_finite (ms n)" "fint (ms n) = n * fscale" "ms n \<noteq> NegZero" "ms n \<noteq> NaN"
  by (simp_all add: ms_def)

lemma ms_valid: "\<bar>n\<bar> \<le> 2 ^ 53 \<Longrightarrow> fvalid (ms n)"
  using fvalid_of_units [of "n * fscale"] by (simp only: ms_units)

lemma ms_add: "\<bar>a + b\<bar> \<le> 2 ^ 53 \<Longrightarrow> fadd (ms a) (ms b) = ms (a + b)"
  using ms_units [of "a + b"] by (simp add: fadd_finite distrib_right)

lemma ms_mul: "0 \<le> a \<Longrightarrow> a \<le> 2 ^ 53 \<Longrightarrow> 0 < b \<Longrightarrow> \<bar>a * b\<bar> \<le> 2 ^ 53 \<Longrightarrow> fmul (float_of_int a) (ms b) = ms (a * b)"
  using ms_units [of "a * b"] fmul_int [of a "ms b"] by (simp add: mult.assoc)

lemma ms_less: "flt (ms a) (ms b) \<longleftrightarrow> a < b" "fle (ms a) (ms b) \<longleftrightarrow> a \<le> b"
  by (simp_all add: flt_finite fle_finite)

section \<open>A sample configuration\<close>

definition sample_config :: alignment_config where
  "sample_config = (grid_config (ms 0) (ms 10) (ms 10) 4)\<lparr>ac_required := [[97]], ac_max_events := 100\<rparr>"

lemma sample_start: "i \<le> 4 \<Longrightarrow> grid_start (ms 0) (ms 10) i = ms (10 * int i)"
  unfolding grid_start_def by (subst ms_mul) (simp_all add: ms_add mult.commute)

lemma sample_range: "grid_range_ok (ms 0) (ms 10) (ms 10) 4"
  by (simp add: grid_range_ok_def Let_def sample_start ms_add ms_less)

lemma grid_config_check:
  assumes o': "is_finite x" "fvalid x" and w: "is_finite w" "fvalid w" "0 < fint w" and h: "is_finite h" "fvalid h" "0 < fint h"
    and n: "1 \<le> n" "n \<le> MAX_OUTPUT_WINDOWS" and g: "grid_range_ok x w h n"
    and r: "label_tuple r MAX_STREAMS = Inr r" and m: "1 \<le> m" "m \<le> MAX_EVENTS_PER_WINDOW"
  shows "alignment_config_check ((grid_config x w h n)\<lparr>ac_required := r, ac_max_events := m\<rparr>)
    = Inr ((grid_config x w h n)\<lparr>ac_required := r, ac_max_events := m\<rparr>)"
proof -
  have v: "finite_number True (PFloat w) = Inr w" "finite_number True (PFloat h) = Inr h" "finite_number False (PFloat (Fin 0)) = Inr (Fin 0)"
      "any_finite (PFloat x) = Inr x"
    using o' w h by (simp_all add: finite_number_def any_finite_PFloat fle_finite flt_finite not_le)
  have f: "is_double (3 * 2 ^ 1073)" "(2::int) ^ 1074 = 2 * 2 ^ 1073" using is_double_scaled [of 3 1073] by simp_all
  have b: "3 * 2 ^ 1073 < fbound" unfolding fbound_def
  proof -
    have "3 * 2 ^ 1073 < 2 ^ 2 * (2::int) ^ 1073" by simp
    also have "\<dots> = 2 ^ 1075" by (simp add: power_add [symmetric])
    also have "\<dots> \<le> 2 ^ 2098" by (intro power_increasing) simp_all
    finally show "3 * 2 ^ 1073 < (2::int) ^ 2098" .
  qed
  have "fvalid (Fin (3 * 2 ^ 1073))" using f(1) b by simp
  then have c: "finite_number True (PFloat (Fin (3 * 2 ^ 1073))) = Inr (Fin (3 * 2 ^ 1073))"
    by (simp add: finite_number_def any_finite_PFloat fle_finite)
  have d: "\<not> fle (Fin (3 * 2 ^ 1073)) (float_of_int 1)"
    by (simp add: ms_eq ms_def fle_finite fscale_def f(2))
  show ?thesis
    using v c d n g r m
    by (simp add: alignment_config_check_def grid_config_def number_mapping_def drift_mapping_def positive_int_def)
qed

lemma sample_config_check: "alignment_config_check sample_config = Inr sample_config"
  unfolding sample_config_def
  by (rule grid_config_check)
    (simp_all add: label_tuple_ok is_label_char MAX_STREAMS_def MAX_OUTPUT_WINDOWS_def MAX_EVENTS_PER_WINDOW_def ms_valid sample_range)

definition sample_index :: interval_index where
  "sample_index = \<lparr>ix_origin = ms 0, ix_window = ms 10, ix_hop = ms 10, ix_ceiling = 4,
     ix_live = [], ix_nodes = [], ix_expiry = [], ix_top = 0, ix_examined = 0\<rparr>"

definition sample_aligner :: aligner where
  "sample_aligner = \<lparr>al_config = sample_config, al_index = sample_index, al_retention = default_retention, al_seen = {}, al_order = [],
     al_assigned = {}, al_max = [], al_start = ms 0, al_next = 0, al_dropped = [], al_late = [], al_unassigned = [],
     al_released = 0, al_reported = 0, al_closed = False\<rparr>"

lemma sample_make_aligner:
  shows sample_make_index: "make_index (ms 0) (ms 10) (ms 10) 4 = Inr sample_index"
    and "make_aligner sample_config None = Inr sample_aligner"
proof -
  have g: "ac_origin sample_config = ms 0" "ac_window sample_config = ms 10" "ac_hop sample_config = ms 10" "ac_max_windows sample_config = 4"
    by (simp_all add: sample_config_def grid_config_def)
  have "alignment_config_check (grid_config (ms 0) (ms 10) (ms 10) 4) = Inr (grid_config (ms 0) (ms 10) (ms 10) 4)"
    using grid_config_check [of "ms 0" "ms 10" "ms 10" 4 "[]" 10000]
    by (simp add: label_tuple_ok grid_config_def MAX_OUTPUT_WINDOWS_def MAX_EVENTS_PER_WINDOW_def ms_valid sample_range)
  then show i: "make_index (ms 0) (ms 10) (ms 10) 4 = Inr sample_index"
    unfolding make_index_def by (simp add: grid_config_def sample_index_def)
  show "make_aligner sample_config None = Inr sample_aligner"
    unfolding make_aligner_def sample_config_check rbind.simps g i
    by (simp add: validated_retention_def sample_aligner_def)
qed

definition sample_event :: "nat \<Rightarrow> int \<Rightarrow> event" where
  "sample_event i t = \<lparr>ev_id = [i], ev_stream = [97], ev_modality = [109], ev_time = ms t, ev_duration = Fin 0, ev_data = JObj []\<rparr>"

lemma sample_event_ok:
  assumes "97 \<le> i" "i \<le> 122" "\<bar>t\<bar> \<le> 2 ^ 53"
  shows "event_ok (sample_event i t)"
proof -
  have "fadd (ms t) (ms 0) = ms t" using ms_add [of t 0] assms(3) by simp
  then have "is_finite (event_end (sample_event i t))" by (simp add: event_end_def sample_event_def ms_def)
  moreover have "data_ok (JObj [])"
    by (simp add: data_ok_def MAX_JSON_NODES_def MAX_EVENT_DATA_BYTES_def utf8_len_Cons utf8_char_def)
  ultimately show ?thesis using assms ms_valid
    by (simp add: event_ok_def is_label_char) (simp add: sample_event_def is_label_char ms_valid)
qed

section \<open>Properties\<close>

text \<open>C35: the interval index answers as a scan of the whole history would: after any insertions,
  queries and prunes, failed ones included, a query at a window that no prune has passed succeeds
  and returns exactly the successfully inserted events that overlap the window, each once.\<close>
theorem index_answers_history:
  assumes "make_index origin window hop n = Inr ix" "i < ix_ceiling ix" "list_all (store_op_ok i) cs"
    and "run_ops (store_apply index_insert matching prune) cs ix = (rs, ix')"
  shows "\<exists>es ix2. matching ix' i = Inr (es, ix2)
    \<and> mset es = mset (filter (\<lambda>e. overlaps e (ix_start ix i) (fadd (ix_start ix i) (ix_window ix))) (stored cs rs))"
proof -
  have "succeeded (matching ix i)" using assms(2) by (simp add: matching_def Let_def)
  then show ?thesis
    using ix.query_history [OF make_index_inv [OF assms(1)] assms(3) _ assms(4)]
    by (simp only: grid_hits_ix ix_end_def)
qed

theorem index_answers_history_witness:
  "\<exists>es ix2. matching (snd (run_ops (store_apply index_insert matching prune) [SInsert (sample_event 120 3), SPrune 1, SInsert (sample_event 121 25)] sample_index)) 2
      = Inr (es, ix2)
    \<and> mset es = mset (filter (\<lambda>e. overlaps e (ix_start sample_index 2) (fadd (ix_start sample_index 2) (ix_window sample_index)))
        (stored [SInsert (sample_event 120 3), SPrune 1, SInsert (sample_event 121 25)]
          (fst (run_ops (store_apply index_insert matching prune) [SInsert (sample_event 120 3), SPrune 1, SInsert (sample_event 121 25)] sample_index))))"
  by (rule index_answers_history [OF sample_make_index _ _ prod.collapse [symmetric]])
    (simp_all add: sample_index_def store_op_ok_def sample_event_ok)

text \<open>C29: whatever is ingested and flushed, failures included, the emitted windows are numbered
  consecutively from zero along the grid, and each holds exactly the accepted events that overlap it
  and came before it was out, in time order, with exactly the required streams it lacks.\<close>
theorem aligner_output_exact:
  assumes "make_aligner raw r = Inr a0" "run_ops aligner_apply cs a0 = (rs, a)"
  shows "length (emitted rs) = al_next a
    \<and> (\<forall>i<al_next a. window_exact (al_config a0) i (entered i (aligner_history cs a0)) (emitted rs ! i))"
  using history_run [OF history_start [OF assms(1)] assms(2)] by (simp add: history_ok_def)

theorem aligner_output_exact_witness:
  "length (emitted (fst (run_ops aligner_apply [AIngest (sample_event 120 3), AIngest (sample_event 121 25), AFlush] sample_aligner)))
      = al_next (snd (run_ops aligner_apply [AIngest (sample_event 120 3), AIngest (sample_event 121 25), AFlush] sample_aligner))"
  using aligner_output_exact [OF sample_make_aligner(2) prod.collapse [symmetric],
      of "[AIngest (sample_event 120 3), AIngest (sample_event 121 25), AFlush]"] by blast

text \<open>C30: windows are final: when late events are rejected or dropped, no accepted event overlaps a
  window that was already out, so every emitted window holds all events accepted in the whole run
  that overlap it.\<close>
theorem aligner_windows_final:
  assumes "make_aligner raw r = Inr a0" "ac_late (al_config a0) \<noteq> LAccept" "run_ops aligner_apply cs a0 = (rs, a)"
  shows "\<forall>i<al_next a. aw_events (emitted rs ! i) = window_events (al_config a0) i (map snd (aligner_history cs a0))"
proof -
  have t: "\<forall>h\<in>set (aligner_history cs a0). timely (al_config a0) h"
    by (rule history_timely [OF make_aligner_inv(1) [OF assms(1)] assms(2)])
  show ?thesis
    using history_run [OF history_start [OF assms(1)] assms(3)] timely_entered [OF t]
    by (simp add: history_ok_def window_exact_def)
qed

theorem aligner_windows_final_witness:
  "map aw_events (take (al_next (snd (run_ops aligner_apply [AIngest (sample_event 120 3), AFlush] sample_aligner)))
      (emitted (fst (run_ops aligner_apply [AIngest (sample_event 120 3), AFlush] sample_aligner))))
    = map (\<lambda>i. window_events sample_config i (map snd (aligner_history [AIngest (sample_event 120 3), AFlush] sample_aligner)))
        [0..<al_next (snd (run_ops aligner_apply [AIngest (sample_event 120 3), AFlush] sample_aligner))]"
proof -
  have "ac_late (al_config sample_aligner) \<noteq> LAccept" by (simp add: sample_aligner_def sample_config_def grid_config_def)
  moreover have "al_config sample_aligner = sample_config" by (simp add: sample_aligner_def)
  ultimately show ?thesis
    using aligner_windows_final [OF sample_make_aligner(2) _ prod.collapse [symmetric], of "[AIngest (sample_event 120 3), AFlush]"]
      history_run [OF history_start [OF sample_make_aligner(2)] prod.collapse [symmetric], of "[AIngest (sample_event 120 3), AFlush]"]
    by (intro nth_equalityI) (simp_all add: history_ok_def)
qed

text \<open>C31: a flush succeeds and is complete: when no accepted event reaches beyond the grid and the
  windows still to come are proper and within the event limit, it closes the aligner, and no window
  of the grid beyond the emitted ones overlaps an accepted event.\<close>
theorem aligner_flush_complete:
  assumes "make_aligner raw r = Inr a0" "run_ops aligner_apply cs a0 = (rs, a)"
    and "\<forall>h\<in>set (aligner_history cs a0). grid_last (config_grid (al_config a0)) (snd h) < int (ac_max_windows (al_config a0))"
    and "within_limits (al_config a0) (map snd (aligner_history cs a0)) (al_next a)"
  shows "\<exists>ws a'. flush a = (Inr ws, a') \<and> al_closed a' \<and> (\<forall>h\<in>set (aligner_history cs a0).
    \<forall>i\<in>{al_next a'..ac_max_windows (al_config a0)}. \<not> grid_hits (config_grid (al_config a0)) (snd h) i)"
proof -
  define c where "c = al_config a0"
  define H where "H = aligner_history cs a0"
  have h: "history_ok c H (emitted rs) a"
    using history_run [OF history_start [OF assms(1)] assms(2)] by (simp add: c_def H_def)
  then have a: "aligner_inv a" "al_config a = c" and c: "config_ok c" and ok: "\<forall>h\<in>set H. event_ok (snd h)"
    by (auto simp: history_ok_def aligner_inv_def aligner_base_def)
  have live: "live_events (al_index a) = [] \<or>
      live_events (al_index a) = filter (\<lambda>e. int (al_next a) \<le> grid_last (config_grid c) e) (map snd H)"
    using h a(1) by (auto simp: history_ok_def aligner_inv_def split: if_splits)
  have len: "length (window_events c j (live_events (al_index a))) \<le> length (window_events c j (map snd H))"
    if "al_next a \<le> j" "j < ac_max_windows c" for j
  proof -
    have "window_events c j (live_events (al_index a)) = [] \<or> window_events c j (live_events (al_index a)) = window_events c j (map snd H)"
      using live window_events_filter [OF c, of j "al_next a" "map snd H" "[]"] that ok by (auto simp: window_events_def [of c j "[]"])
    then show ?thesis by auto
  qed
  have "within_limits c (live_events (al_index a)) (al_next a)"
    unfolding within_limits_def
  proof (intro allI impI)
    fix j assume j: "al_next a \<le> j \<and> j < ac_max_windows c"
    then have "window_proper c j" "length (window_events c j (map snd H)) \<le> ac_max_events c"
      using assms(4) unfolding within_limits_def c_def H_def by blast+
    then show "window_proper c j \<and> length (window_events c j (live_events (al_index a))) \<le> ac_max_events c"
      using len [of j] j by simp
  qed
  moreover have "\<forall>e\<in>set (live_events (al_index a)). grid_last (config_grid c) e < int (ac_max_windows c)"
    using assms(3) live unfolding c_def H_def by auto
  ultimately obtain ws a' where f: "flush a = (Inr ws, a')" using flush_total [OF a(1)] a(2) by blast
  have fo: "flushed_step a ws a'" using flush_ok [OF a(1) f] by simp
  have h': "history_ok c H (emitted rs @ ws) a'"
    using history_flush [OF h _ fo] h flush_ok [OF a(1) f] by (cases "al_closed a") auto
  have "\<not> grid_hits (config_grid c) (snd x) i" if "x \<in> set H" "i \<in> {al_next a'..ac_max_windows c}" for x i
    using grid_hits_last [OF c, of i "snd x"] that h' fo ok by (auto simp: history_ok_def flushed_step_def)
  then show ?thesis using f fo by (auto simp: flushed_step_def c_def H_def)
qed

lemma sample_event_fields [simp]:
  "ev_id (sample_event i t) = [i]" "ev_stream (sample_event i t) = [97]" "ev_time (sample_event i t) = ms t"
  "ev_duration (sample_event i t) = Fin 0"
  by (simp_all add: sample_event_def)

lemma sample_horizon:
  "\<bar>s\<bar> \<le> 2 ^ 53 \<Longrightarrow> \<bar>t\<bar> \<le> 2 ^ 53 \<Longrightarrow> flt (ms s) (event_horizon (sample_event i t)) \<longleftrightarrow> s \<le> t"
  by (simp add: event_horizon_def feq_finite flt_nextafter_iff ms_valid ms_less)

lemma ms_plus_zero: "\<bar>t\<bar> \<le> 2 ^ 53 \<Longrightarrow> fadd (ms t) (Fin 0) = ms t" "\<bar>t\<bar> \<le> 2 ^ 53 \<Longrightarrow> fsub (ms t) (Fin 0) = ms t"
  by (simp_all add: fadd_finite fsub_def ms_units)

lemma sample_normalized: "normalized_event sample_config (sample_event 120 3) = Inr (sample_event 120 3)"
proof -
  have "event_ok (sample_event 120 3)" by (simp add: sample_event_ok)
  moreover have "ac_drifts sample_config = []" "ac_offsets sample_config = []" by (simp_all add: sample_config_def grid_config_def)
  ultimately show ?thesis
    using shift_event_ok [of "sample_event 120 3" "Fin 0"]
    by (simp add: normalized_event_def stream_offset_def ms_plus_zero event_ok_def event_end_def)
qed

lemma sample_ingest:
  "\<exists>a. ingest sample_aligner (sample_event 120 3) = (Inr [], a) \<and> accepted_step sample_aligner (sample_event 120 3) [] a"
proof -
  define e where "e = sample_event 120 3"
  have e: "event_ok e" by (simp add: e_def sample_event_ok)
  have c: "al_config sample_aligner = sample_config" "al_next sample_aligner = 0" "al_start sample_aligner = ms 0" "al_seen sample_aligner = {}"
      "al_max sample_aligner = []" "al_closed sample_aligner = False" "al_index sample_aligner = sample_index" "al_reported sample_aligner = 0"
      "al_retention sample_aligner = default_retention"
    by (simp_all add: sample_aligner_def)
  have g: "ac_origin sample_config = ms 0" "ac_window sample_config = ms 10" "ac_hop sample_config = ms 10" "ac_max_windows sample_config = 4"
      "ac_drifts sample_config = []" "ac_offsets sample_config = []" "ac_required sample_config = [[97]]" "ac_lateness sample_config = Fin 0"
    by (simp_all add: sample_config_def grid_config_def)
  have n: "normalized_event sample_config e = Inr e" unfolding e_def by (rule sample_normalized)
  have late: "\<not> is_late sample_aligner e"
  proof -
    have "flt (ms 0) (event_horizon e)" by (simp add: e_def sample_horizon)
    then have "\<not> fle (event_horizon e) (ms 0)" using flt_fle_trans flt_irrefl by blast
    moreover have "\<not> flt (ms 3) NegInf" by (simp add: flt_def ms_def)
    ultimately show ?thesis by (simp add: is_late_def is_obsolete_def closed_horizon_def c e_def)
  qed
  have "candidate_max sample_aligner e = [([97], ms 3)]"
    by (simp add: candidate_max_def c e_def fmax_def flt_def)
  then have w: "watermark_for sample_config (candidate_max sample_aligner e) = Some (ms 3)"
    by (simp add: watermark_for_def g ms_plus_zero)
  have p: "preview_ready sample_aligner (ms 3) e = (Inr [], sample_index)"
    by (simp add: preview_ready_def c g Let_def sample_start ms_add ms_less preview_loop.simps)
  obtain r a where acc: "accept_event sample_aligner e = (r, a)" by (cases "accept_event sample_aligner e")
  note acc' = accept_event_total [OF make_aligner_inv(1) [OF sample_make_aligner(2)] _ e _ _ _ acc]
  have "r = Inr []" using acc' w p by (simp add: c retained_count_def default_retention_def MAX_EVENTS_def)
  moreover from this have "accepted_step sample_aligner e [] a"
    using acc' by (simp add: c retained_count_def default_retention_def MAX_EVENTS_def)
  moreover have "ingest sample_aligner e = accept_event sample_aligner e"
    using late n by (simp add: ingest_def c snapshot_event_ok [OF e] retained_count_def default_retention_def MAX_EVENTS_def)
  ultimately show ?thesis using acc by (simp add: e_def)
qed

lemma sample_history: "aligner_history [AIngest (sample_event 120 3)] sample_aligner = [(0, sample_event 120 3)]"
proof -
  obtain a where a: "ingest sample_aligner (sample_event 120 3) = (Inr [], a)" "accepted_step sample_aligner (sample_event 120 3) [] a"
    using sample_ingest by blast
  have "normalize_raw sample_aligner (sample_event 120 3) = Inr (sample_event 120 3)"
    using sample_normalized by (simp add: normalize_raw_def snapshot_event_ok sample_event_ok) (simp add: sample_aligner_def)
  then show ?thesis using a by (simp add: accepted_by_def accepted_step_def sample_aligner_def)
qed

theorem aligner_flush_complete_witness:
  "\<exists>ws a'. flush (snd (run_ops aligner_apply [AIngest (sample_event 120 3)] sample_aligner)) = (Inr ws, a') \<and> al_closed a'"
proof -
  have g: "config_grid (al_config sample_aligner) = config_grid sample_config" "ac_max_windows (al_config sample_aligner) = 4"
      "al_config sample_aligner = sample_config" "ac_max_windows sample_config = 4"
    by (simp_all add: sample_aligner_def sample_config_def grid_config_def)
  have c: "config_ok sample_config" by (rule config_check_ok [OF sample_config_check])
  have last: "grid_last (config_grid sample_config) (sample_event 120 3) < 4"
    using grid_last_iff [OF c, of 4 "sample_event 120 3"] sample_horizon [of 40 3 120]
    by (simp add: g sample_config_def grid_config_def sample_start)
  have "window_proper sample_config j" if "j < 4" for j
    using that by (simp add: window_proper_def sample_config_def grid_config_def sample_start ms_add ms_less)
  moreover have "length (window_events sample_config j [sample_event 120 3]) \<le> ac_max_events sample_config" for j
    by (simp add: window_events_def) (simp add: sample_config_def)
  ultimately have "within_limits sample_config [sample_event 120 3] k" for k by (simp add: within_limits_def g)
  then show ?thesis
    using aligner_flush_complete [OF sample_make_aligner(2) prod.collapse [symmetric], of "[AIngest (sample_event 120 3)]"] last
    unfolding sample_history g by auto
qed

text \<open>C32: an operation that fails leaves the aligner as it was, but for the query counter of its
  index, and keeps the invariant: the watermark has passed no open window, every buffered event can
  still enter one, and every buffered event still has its identity record, so that the retention
  policy has released none of them.\<close>
theorem aligner_failure_atomic:
  assumes "aligner_inv a" "aligner_apply x a = (Inl e, a')"
  shows "(\<exists>m. a' = a\<lparr>al_index := (al_index a)\<lparr>ix_examined := m\<rparr>\<rparr>) \<and> aligner_inv a'"
proof -
  have "\<exists>m. a' = touch m a"
    using ingest_ok [OF assms(1)] flush_ok [OF assms(1)] assms(2) by (cases x) (fastforce simp: aligner_apply_def)+
  then show ?thesis using touch_inv [OF assms(1)] by (auto simp: touch_def)
qed

theorem aligner_failure_atomic_witness:
  "\<exists>m. snd (aligner_apply (AIngest ((sample_event 120 3)\<lparr>ev_id := []\<rparr>)) sample_aligner)
      = sample_aligner\<lparr>al_index := (al_index sample_aligner)\<lparr>ix_examined := m\<rparr>\<rparr>"
proof -
  have "label (PStr []) = Inl ValidationError" by (simp add: label_def strip_def)
  then have "aligner_apply (AIngest ((sample_event 120 3)\<lparr>ev_id := []\<rparr>)) sample_aligner = (Inl ValidationError, sample_aligner)"
    by (simp add: aligner_apply_def ingest_def snapshot_event_def make_event_def sample_aligner_def)
  then show ?thesis using aligner_failure_atomic [OF make_aligner_inv(1) [OF sample_make_aligner(2)]] by simp
qed

end
