(* ===== verification/Grid_Gap.thy ===== *)
theory Grid_Gap
  imports Event_Properties
begin

text \<open>
  The range check of the configuration looks at the first and the last two windows only. Beyond
  \<open>2^53\<close> a window of one millisecond is a tie between two doubles; it collapses where the start has
  an even significand, and the check does not see it when that happens between the ends.
\<close>

lemma blen_shift: "0 < m \<Longrightarrow> blen (m * 2 ^ k) = blen m + k"
proof (induction k)
  case (Suc k)
  have "m * 2 ^ Suc k div 2 = m * 2 ^ k" "m * 2 ^ Suc k \<noteq> 0" using Suc.prems by simp_all
  then have "blen (m * 2 ^ Suc k) = Suc (blen (m * 2 ^ k))" by (subst blen.simps) presburger
  then show ?case using Suc by simp
qed simp

lemma rnd_shift: "2 ^ 53 \<le> m \<Longrightarrow> rnd (int m * 2 ^ k) = rnd (int m) * 2 ^ k"
proof -
  assume m: "2 ^ 53 \<le> m"
  then have "0 < m" by (rule less_le_trans [rotated]) simp
  have "\<not> blen m \<le> 52" using m by (simp add: blen_le_iff)
  then have e: "excess (m * 2 ^ k) = excess m + k" using \<open>0 < m\<close> by (simp add: excess_def blen_shift)
  have "rhe (m * 2 ^ k) (2 ^ (excess m + k)) = rhe m (2 ^ excess m)"
    using rhe_scale [of "2 ^ k" m "2 ^ excess m"] by (simp add: power_add)
  then have "round_ratio (m * 2 ^ k) 1 = round_ratio m 1 * 2 ^ k" by (simp add: round_ratio_def Let_def e power_add)
  moreover have "rnd (int m * 2 ^ k) = int (round_ratio (m * 2 ^ k) 1)" "rnd (int m) = int (round_ratio m 1)"
    by (simp_all add: rnd_eq nat_mult_distrib nat_power_eq)
  ultimately show ?thesis by simp
qed

text \<open>Eighths of a millisecond above \<open>2^53\<close>.\<close>

definition eighth :: int where "eighth = 2 ^ 1071"

lemma eighth_pos [simp]: "0 < eighth" by (simp add: eighth_def)

definition eighths :: "int \<Rightarrow> pyfloat" where
  "eighths n = Fin (n * eighth)"

lemma rnd_values:
  "rnd 72057594037927971 = 72057594037927968" "rnd 72057594037927990 = 72057594037927984"
  "rnd 72057594037928009 = 72057594037928016" "rnd 72057594037927952 = 72057594037927952"
  "rnd 72057594037927960 = 72057594037927968" "rnd 72057594037927976 = 72057594037927968"
  "rnd 72057594037927992 = 72057594037928000" "rnd 72057594037928024 = 72057594037928032"
  by (simp_all add: rnd_eq round_ratio_def excess_def blen.simps rhe_def Let_def)

lemma eighths_bound: "\<bar>n\<bar> \<le> 2 ^ 60 \<Longrightarrow> \<bar>n * eighth\<bar> < fbound"
proof -
  assume "\<bar>n\<bar> \<le> 2 ^ 60"
  then have "\<bar>n * eighth\<bar> \<le> 2 ^ 60 * eighth" using less_imp_le [OF eighth_pos] by (simp only: abs_mult abs_of_pos [OF eighth_pos] mult_right_mono)
  also have "\<dots> = (2::int) ^ 1131" unfolding eighth_def by (simp only: power_add [symmetric]) simp
  also have "\<dots> < fbound" unfolding fbound_def by (rule power_strict_increasing) simp_all
  finally show ?thesis .
qed

lemma of_units_eighths:
  assumes "rnd (n * eighth) = m * eighth" "\<bar>m\<bar> \<le> 2 ^ 60"
  shows "of_units (n * eighth) = eighths m"
  using assms eighths_bound [of m] by (simp add: of_units_def of_rounded_def eighths_def abs_less_iff not_le)

lemma of_units_small: "\<bar>n\<bar> \<le> 2 ^ 53 \<Longrightarrow> of_units (n * eighth) = eighths n"
  by (intro of_units_eighths rnd_exact) (simp_all only: eighth_def is_double_scaled, simp)

lemma of_units_large: "2 ^ 53 \<le> n \<Longrightarrow> rnd (int n) = m \<Longrightarrow> \<bar>m\<bar> \<le> 2 ^ 60 \<Longrightarrow> of_units (int n * eighth) = eighths m"
  by (intro of_units_eighths) (simp_all only: eighth_def rnd_shift)

lemma eighths_simps [simp]: "is_finite (eighths n)" "fint (eighths n) = n * eighth" "eighths n \<noteq> NegZero"
  by (simp_all add: eighths_def)

lemma eighths_add: "of_units ((a + b) * eighth) = eighths m \<Longrightarrow> fadd (eighths a) (eighths b) = eighths m"
  by (simp add: fadd_finite distrib_right)

lemma fvalid_eighths: "of_units n = eighths m \<Longrightarrow> fvalid (eighths m)"
  using fvalid_of_units [of n] by simp

lemma eighths_less: "flt (eighths a) (eighths b) \<longleftrightarrow> a < b" "fle (eighths a) (eighths b) \<longleftrightarrow> a \<le> b"
  by (simp_all add: flt_finite fle_finite)

definition gap_config :: alignment_config where
  "gap_config = grid_config (eighths 72057594037927952) (eighths 8) (eighths 19) 3"

lemma gap_starts:
  "fadd (eighths 72057594037927952) (eighths 19) = eighths 72057594037927968"
  "fadd (eighths 72057594037927952) (eighths 38) = eighths 72057594037927984"
  "fadd (eighths 72057594037927952) (eighths 57) = eighths 72057594037928016"
  "fadd (eighths 72057594037927952) (eighths 8) = eighths 72057594037927968"
  "fadd (eighths 72057594037927968) (eighths 8) = eighths 72057594037927968"
  "fadd (eighths 72057594037927984) (eighths 8) = eighths 72057594037928000"
  "fadd (eighths 72057594037928016) (eighths 8) = eighths 72057594037928032"
  by (rule eighths_add, use of_units_large [of 72057594037927971] of_units_large [of 72057594037927990] of_units_large [of 72057594037928009]
      of_units_large [of 72057594037927960] of_units_large [of 72057594037927976] of_units_large [of 72057594037927992]
      of_units_large [of 72057594037928024] rnd_values in simp)+

lemma gap_multiple: "0 \<le> i \<Longrightarrow> i \<le> 3 \<Longrightarrow> fmul (float_of_int i) (eighths 19) = eighths (i * 19)"
  using fmul_int [of i "eighths 19"] of_units_small [of "i * 19"] by (simp add: mult.assoc)

lemma gap_grid:
  "grid_start (eighths 72057594037927952) (eighths 19) 1 = eighths 72057594037927968"
  "grid_start (eighths 72057594037927952) (eighths 19) 2 = eighths 72057594037927984"
  "grid_start (eighths 72057594037927952) (eighths 19) 3 = eighths 72057594037928016"
  using gap_multiple [of 1] gap_multiple [of 2] gap_multiple [of 3] by (simp_all add: grid_start_def gap_starts)

text \<open>The configuration is accepted, yet its second window can never be built: its end is its start.\<close>

lemma accepted_grid_with_collapsed_window:
  "alignment_config_check gap_config = Inr gap_config"
  "make_window 1 (grid_start (ac_origin gap_config) (ac_hop gap_config) 1)
     (fadd (grid_start (ac_origin gap_config) (ac_hop gap_config) 1) (ac_window gap_config)) es missing = Inl ValidationError"
proof -
  have v: "fvalid (eighths 72057594037927952)" "fvalid (eighths 8)" "fvalid (eighths 19)" "fvalid (eighths 72057594037927968)"
    using fvalid_eighths [of "8 * eighth"] fvalid_eighths [of "19 * eighth"]
      fvalid_eighths [OF of_units_large [of 72057594037927952]] fvalid_eighths [OF of_units_large [of 72057594037927971]]
      of_units_small [of 8] of_units_small [of 19] rnd_values by simp_all
  have "grid_range_ok (eighths 72057594037927952) (eighths 8) (eighths 19) 3"
    by (simp add: grid_range_ok_def Let_def gap_starts gap_grid eighths_less)
  then show "alignment_config_check gap_config = Inr gap_config"
    using grid_config_check [of "eighths 72057594037927952" "eighths 8" "eighths 19" 3 "[]" 10000] v
    by (simp add: gap_config_def label_tuple_ok grid_config_def MAX_OUTPUT_WINDOWS_def MAX_EVENTS_PER_WINDOW_def)
  show "make_window 1 (grid_start (ac_origin gap_config) (ac_hop gap_config) 1)
     (fadd (grid_start (ac_origin gap_config) (ac_hop gap_config) 1) (ac_window gap_config)) es missing = Inl ValidationError"
    using v(4) by (simp add: gap_config_def grid_config_def gap_grid(1) [unfolded One_nat_def] gap_starts make_window_def any_finite_PFloat eighths_less)
qed

end
