(* ===== verification/Event_Documents.thy ===== *)
theory Event_Documents
  imports Events Dataflow
begin

text \<open>
  \<open>io.py\<close>: configurations and events read from JSON documents, and newline-delimited event
  files, given the text of the file.
\<close>

section \<open>Fields\<close>

definition io_object :: "json \<Rightarrow> (pystr, json) dict res" where
  "io_object v =
     (case v of
        JObj kvs \<Rightarrow> if MAX_MAPPING_ENTRIES < length kvs then Inl ValidationError else Inr kvs
      | _ \<Rightarrow> Inl ValidationError)"

definition no_unknown :: "string list \<Rightarrow> (pystr, json) dict \<Rightarrow> unit res" where
  "no_unknown names kvs = check (set (dkeys kvs) \<subseteq> set (map lit names))"

text \<open>\<open>item.get(name, default)\<close>.\<close>

definition io_get :: "(pystr, json) dict \<Rightarrow> string \<Rightarrow> json \<Rightarrow> json" where
  "io_get kvs name d = (case dget kvs (lit name) of None \<Rightarrow> d | Some v \<Rightarrow> v)"

definition io_text :: "json \<Rightarrow> pystr res" where
  "io_text v = label (py_of_json v)"

definition io_finite :: "json \<Rightarrow> pyfloat res" where
  "io_finite v = any_finite (py_of_json v)"

definition io_positive :: "json \<Rightarrow> pyfloat res" where
  "io_positive v = finite_number True (py_of_json v)"

definition io_nonnegative :: "json \<Rightarrow> pyfloat res" where
  "io_nonnegative v = finite_number False (py_of_json v)"

definition io_strings :: "json \<Rightarrow> pystr list res" where
  "io_strings v =
     (case v of
        JArr xs \<Rightarrow> if MAX_STREAMS < length xs then Inl ValidationError else map_res io_text xs
      | _ \<Rightarrow> Inl ValidationError)"

definition io_numbers :: "bool \<Rightarrow> json \<Rightarrow> (pystr, pyfloat) dict res" where
  "io_numbers positive v =
     rbind (io_object v) (\<lambda>kvs.
       fold_res (\<lambda>(k, x) r.
         rbind (io_text (JStr k)) (\<lambda>k.
         if dget r k \<noteq> None then Inl ValidationError
         else rbind (if positive then io_positive x else io_finite x) (\<lambda>n. Inr (dput k n r)))) kvs [])"

definition io_drifts :: "json \<Rightarrow> (pystr, clock_drift) dict res" where
  "io_drifts v =
     rbind (io_object v) (\<lambda>kvs.
       fold_res (\<lambda>(k, x) r.
         rbind (io_text (JStr k)) (\<lambda>k.
         if dget r k \<noteq> None then Inl ValidationError
         else rbind (io_object x) (\<lambda>entry.
              rbind (no_unknown [''rate_ppm'', ''offset_ms'', ''epoch_ms''] entry) (\<lambda>_.
              rbind (io_finite (io_get entry ''rate_ppm'' JNull)) (\<lambda>rate.
              rbind (io_finite (io_get entry ''offset_ms'' (JFloat (Fin 0)))) (\<lambda>offset.
              rbind (io_finite (io_get entry ''epoch_ms'' (JFloat (Fin 0)))) (\<lambda>epoch.
              rbind (make_drift rate offset epoch) (\<lambda>d. Inr (dput k d r))))))))) kvs [])"

definition io_count :: "json \<Rightarrow> nat res" where
  "io_count v = (case v of JInt i \<Rightarrow> if 1 \<le> i then Inr (nat i) else Inl ValidationError | _ \<Rightarrow> Inl ValidationError)"

fun late_policy_name :: "late_policy \<Rightarrow> string" where
  "late_policy_name LReject = ''reject''"
| "late_policy_name LDrop = ''drop''"
| "late_policy_name LAccept = ''accept''"

definition io_late :: "json \<Rightarrow> late_policy res" where
  "io_late v =
     (if v = JStr (lit ''reject'') then Inr LReject
      else if v = JStr (lit ''drop'') then Inr LDrop
      else if v = JStr (lit ''accept'') then Inr LAccept
      else Inl ValidationError)"

section \<open>Events and configurations\<close>

definition event_doc :: "event \<Rightarrow> json" where
  "event_doc e = JObj
     [jfield ''id'' (JStr (ev_id e)), jfield ''stream'' (JStr (ev_stream e)), jfield ''modality'' (JStr (ev_modality e)),
      jfield ''timestamp_ms'' (JFloat (ev_time e)), jfield ''duration_ms'' (JFloat (ev_duration e)),
      jfield ''data'' (ev_data e)]"

definition event_to_dict :: "event \<Rightarrow> json res" where
  "event_to_dict e = rbind (snapshot_event e) (\<lambda>e. Inr (event_doc e))"

definition event_from_dict :: "json \<Rightarrow> event res" where
  "event_from_dict v =
     rbind (io_object v) (\<lambda>kvs.
     rbind (no_unknown [''id'', ''stream'', ''modality'', ''timestamp_ms'', ''duration_ms'', ''data''] kvs) (\<lambda>_.
     let payload = io_get kvs ''data'' (JObj [])
     in (case payload of
           JObj _ \<Rightarrow>
             rbind (io_text (io_get kvs ''id'' JNull)) (\<lambda>i.
             rbind (io_text (io_get kvs ''stream'' JNull)) (\<lambda>s.
             rbind (io_text (io_get kvs ''modality'' JNull)) (\<lambda>m.
             rbind (io_finite (io_get kvs ''timestamp_ms'' JNull)) (\<lambda>t.
             rbind (io_nonnegative (io_get kvs ''duration_ms'' (JFloat (Fin 0)))) (\<lambda>d.
               make_event (PStr i) (PStr s) (PStr m) (PFloat t) (PFloat d) (py_of_json payload))))))
         | _ \<Rightarrow> Inl ValidationError)))"

definition config_fields :: "string list" where
  "config_fields = [''window_ms'', ''hop_ms'', ''allowed_lateness_ms'', ''origin_ms'', ''required_streams'', ''offsets_ms'',
     ''clock_drifts'', ''expected_cadence_ms'', ''gap_factor'', ''late_policy'', ''max_events_per_window'', ''max_output_windows'']"

definition one_and_a_half :: pyfloat where
  "one_and_a_half = Fin (3 * 2 ^ 1073)"

definition config_from_dict :: "json \<Rightarrow> alignment_config res" where
  "config_from_dict v =
     rbind (io_object v) (\<lambda>kvs.
     rbind (no_unknown config_fields kvs) (\<lambda>_.
     rbind (io_strings (io_get kvs ''required_streams'' (JArr []))) (\<lambda>required.
     if \<not> distinct required then Inl ValidationError
     else
       rbind (io_numbers False (io_get kvs ''offsets_ms'' (JObj []))) (\<lambda>offsets.
       rbind (io_drifts (io_get kvs ''clock_drifts'' (JObj []))) (\<lambda>drifts.
       rbind (io_numbers True (io_get kvs ''expected_cadence_ms'' (JObj []))) (\<lambda>cadence.
       rbind (io_late (io_get kvs ''late_policy'' (JStr (lit ''reject'')))) (\<lambda>late.
       rbind (io_count (io_get kvs ''max_events_per_window'' (JInt 10000))) (\<lambda>max_events.
       rbind (io_count (io_get kvs ''max_output_windows'' (JInt 10000))) (\<lambda>max_windows.
       rbind (io_positive (io_get kvs ''window_ms'' JNull)) (\<lambda>window.
       rbind (io_positive (io_get kvs ''hop_ms'' JNull)) (\<lambda>hop.
       rbind (io_nonnegative (io_get kvs ''allowed_lateness_ms'' (JFloat (Fin 0)))) (\<lambda>lateness.
       rbind (io_finite (io_get kvs ''origin_ms'' (JFloat (Fin 0)))) (\<lambda>origin.
       rbind (io_positive (io_get kvs ''gap_factor'' (JFloat one_and_a_half))) (\<lambda>factor.
         rbind (alignment_config_check
           \<lparr>ac_window = window, ac_hop = hop, ac_lateness = lateness, ac_origin = origin, ac_required = required,
            ac_offsets = offsets, ac_drifts = drifts, ac_cadence = cadence, ac_gap_factor = factor, ac_late = late,
            ac_max_events = max_events, ac_max_windows = max_windows\<rparr>) (\<lambda>c.
         rbind (alignment_config_check c) (\<lambda>_. Inr c))))))))))))))))"

section \<open>Files\<close>

text \<open>\<open>str.splitlines\<close>: every Unicode line boundary ends a line, \<open>\r\n\<close> as one.\<close>

definition line_end :: "nat \<Rightarrow> bool" where
  "line_end c \<longleftrightarrow> 10 \<le> c \<and> c \<le> 13 \<or> 28 \<le> c \<and> c \<le> 30 \<or> c = 0x85 \<or> c = 0x2028 \<or> c = 0x2029"

fun lines_from :: "pystr \<Rightarrow> pystr \<Rightarrow> pystr list" where
  "lines_from acc [] = (if acc = [] then [] else [rev acc])"
| "lines_from acc (c # cs) =
     (if c = 13 \<and> cs \<noteq> [] \<and> hd cs = 10 then rev acc # lines_from [] (tl cs)
      else if line_end c then rev acc # lines_from [] cs
      else lines_from (c # acc) cs)"

definition split_lines :: "pystr \<Rightarrow> pystr list" where
  "split_lines t = lines_from [] t"

definition io_hooks :: json_hooks where
  "io_hooks = \<lparr>reject_dup = True, reject_const = True, finite_float = False, bounded_int = False\<rparr>"

text \<open>The decoder with \<open>int\<close> as it is without a limit of digits: with the default limit of the
  interpreter an integer of more than 4300 digits raises the ValueError of \<open>int()\<close>, which the two
  loaders do not catch.\<close>

definition io_json :: "pystr \<Rightarrow> json res" where
  "io_json t = (case loads io_hooks t of Inl _ \<Rightarrow> Inl ValidationError | Inr v \<Rightarrow> Inr v)"

definition load_line :: "pystr \<Rightarrow> event list \<Rightarrow> event list res" where
  "load_line line es =
     (if strip line = [] then Inr es
      else if length es = MAX_EVENTS then Inl ValidationError
      else rbind (io_json line) (\<lambda>v.
           rbind (event_from_dict v) (\<lambda>e.
             if ev_id e \<in> ev_id ` set es then Inl ValidationError else Inr (es @ [e]))))"

definition MAX_CONFIG_BYTES :: int where "MAX_CONFIG_BYTES = 1024 * 1024"

text \<open>The files, by the text of their bytes: \<open>None\<close> when they are not UTF-8.\<close>

definition file_text :: "int \<Rightarrow> pystr option \<Rightarrow> pystr res" where
  "file_text maximum t =
     (case t of
        None \<Rightarrow> Inl ValidationError
      | Some t \<Rightarrow> if maximum < byte_len t then Inl ValidationError else Inr t)"

definition load_events :: "pystr option \<Rightarrow> event list res" where
  "load_events file = rbind (file_text MAX_EVENT_FILE_BYTES file) (\<lambda>t. fold_res load_line (split_lines t) [])"

definition load_config :: "pystr option \<Rightarrow> alignment_config res" where
  "load_config file = rbind (file_text MAX_CONFIG_BYTES file) (\<lambda>t. rbind (io_json t) config_from_dict)"

section \<open>What is read\<close>

lemma event_from_dict_ok:
  assumes "event_from_dict v = Inr e"
  shows "event_ok e"
proof -
  obtain kvs where "(case io_get kvs ''data'' (JObj []) of
           JObj _ \<Rightarrow>
             rbind (io_text (io_get kvs ''id'' JNull)) (\<lambda>i.
             rbind (io_text (io_get kvs ''stream'' JNull)) (\<lambda>s.
             rbind (io_text (io_get kvs ''modality'' JNull)) (\<lambda>m.
             rbind (io_finite (io_get kvs ''timestamp_ms'' JNull)) (\<lambda>t.
             rbind (io_nonnegative (io_get kvs ''duration_ms'' (JFloat (Fin 0)))) (\<lambda>d.
               make_event (PStr i) (PStr s) (PStr m) (PFloat t) (PFloat d) (py_of_json (io_get kvs ''data'' (JObj []))))))))
         | _ \<Rightarrow> Inl ValidationError) = Inr e"
    using assms unfolding event_from_dict_def Let_def by (auto simp del: label_Inr)
  then show ?thesis by (cases "io_get kvs ''data'' (JObj [])") (auto dest: make_event_ok)
qed

text \<open>An event document is read back as the event.\<close>

lemma event_doc_read:
  assumes "event_ok e"
  shows "event_from_dict (event_doc e) = Inr e"
proof -
  obtain kvs where d: "ev_data e = JObj kvs" using assms by (auto simp: event_ok_def data_ok_def)
  have l: "is_label (ev_id e)" "is_label (ev_stream e)" "is_label (ev_modality e)"
    and t: "is_finite (ev_time e)" "fvalid (ev_time e)"
    and du: "is_finite (ev_duration e)" "fvalid (ev_duration e)" "0 \<le> fint (ev_duration e)"
    using assms by (simp_all add: event_ok_def)
  have "make_event (PStr (ev_id e)) (PStr (ev_stream e)) (PStr (ev_modality e)) (PFloat (ev_time e)) (PFloat (ev_duration e))
      (py_of_json (JObj kvs)) = Inr e"
    using snapshot_event_ok [OF assms] by (simp only: snapshot_event_def d)
  then show ?thesis
    by (simp add: event_from_dict_def event_doc_def io_object_def MAX_MAPPING_ENTRIES_def no_unknown_def io_get_def lit_def d
        io_text_def io_finite_def io_nonnegative_def label_is_label l any_finite_PFloat t finite_number_PFloat du check_def)
qed

lemma event_to_dict_ok: "event_ok e \<Longrightarrow> event_to_dict e = Inr (event_doc e)"
  by (simp add: event_to_dict_def snapshot_event_ok)

lemma load_line_ok:
  "load_line line es = Inr es' \<Longrightarrow> list_all event_ok es \<and> distinct (map ev_id es) \<and> length es \<le> MAX_EVENTS \<Longrightarrow>
   list_all event_ok es' \<and> distinct (map ev_id es') \<and> length es' \<le> MAX_EVENTS"
  by (auto simp: load_line_def dest: event_from_dict_ok split: if_splits)

lemma load_events_ok:
  assumes "load_events file = Inr es"
  shows "list_all event_ok es \<and> distinct (map ev_id es) \<and> length es \<le> MAX_EVENTS"
proof -
  obtain t where "fold_res load_line (split_lines t) [] = Inr es" using assms by (auto simp: load_events_def)
  then show ?thesis by (rule fold_res_invariant) (simp, rule load_line_ok)
qed

text \<open>A line of JSON that holds U+2028 inside a string is split there, so a valid record is refused.\<close>

definition separator_doc :: json where
  "separator_doc = JObj [jfield ''data'' (JObj [jfield ''t'' (JStr [0x2028])]), jfield ''id'' (JStr [97]),
     jfield ''modality'' (JStr [97]), jfield ''stream'' (JStr [97]), jfield ''timestamp_ms'' (JInt 0)]"

lemma separator_fields: "label (PStr [97]) = Inr [97]"
  by (rule label_is_label) (simp add: is_label_def strip_def is_space_def utf8_ok_def is_scalar_def is_control_def MAX_TEXT_LENGTH_def)

lemma separator_numbers:
  "any_finite (PInt 0) = Inr (Fin 0)" "any_finite (PFloat (Fin 0)) = Inr (Fin 0)"
  "finite_number False (PFloat (Fin 0)) = Inr (Fin 0)" "is_finite (fadd (Fin 0) (Fin 0))"
  by (simp_all add: finite_number_def any_finite_def float_of_int_def of_units_def of_rounded_def fadd_finite)

lemma separator_lines:
  "hd (split_lines (dumps separator_doc)) = lit ''{\"data\":{\"t\":\"''"
  by (simp add: separator_doc_def split_lines_def dump_str_def esc_char_def lit_def line_end_def)

lemma valid_line_refused:
  "rbind (io_json (dumps separator_doc)) event_from_dict
     = Inr \<lparr>ev_id = [97], ev_stream = [97], ev_modality = [97], ev_time = Fin 0, ev_duration = Fin 0,
            ev_data = JObj [jfield ''t'' (JStr [0x2028])]\<rparr>
   \<and> load_events (Some (dumps separator_doc)) = Inl ValidationError"
proof
  have "json_wf separator_doc" by (simp add: separator_doc_def lit_def utf8_ok_def is_scalar_def safe_int_def)
  then have "io_json (dumps separator_doc) = Inr separator_doc" by (simp add: io_json_def loads_dumps)
  moreover have "data_ok (JObj [jfield ''t'' (JStr [0x2028])])"
    by (simp add: data_ok_def lit_def ceilings utf8_ok_def is_scalar_def dump_str_def esc_char_def utf8_len_Cons utf8_char_def)
  then have "freeze_event_data (py_of_json (JObj [jfield ''t'' (JStr [0x2028])])) = Inr (JObj [jfield ''t'' (JStr [0x2028])])"
    by (rule freeze_data_again)
  then have "event_from_dict separator_doc
     = Inr \<lparr>ev_id = [97], ev_stream = [97], ev_modality = [97], ev_time = Fin 0, ev_duration = Fin 0,
            ev_data = JObj [jfield ''t'' (JStr [0x2028])]\<rparr>"
    by (simp add: separator_doc_def event_from_dict_def io_object_def MAX_MAPPING_ENTRIES_def no_unknown_def io_get_def lit_def
        check_def io_text_def io_finite_def io_nonnegative_def separator_fields separator_numbers make_event_def)
  ultimately show "rbind (io_json (dumps separator_doc)) event_from_dict
     = Inr \<lparr>ev_id = [97], ev_stream = [97], ev_modality = [97], ev_time = Fin 0, ev_duration = Fin 0,
            ev_data = JObj [jfield ''t'' (JStr [0x2028])]\<rparr>"
    by (simp only: rbind.simps)
next
  have "io_json (lit ''{\"data\":{\"t\":\"'') = Inl ValidationError"
    by code_simp
  moreover obtain rest where "split_lines (dumps separator_doc) = lit ''{\"data\":{\"t\":\"'' # rest"
    using separator_lines by (cases "split_lines (dumps separator_doc)") (simp_all add: split_lines_def separator_doc_def dump_str_def esc_char_def lit_def line_end_def)
  moreover have "byte_len (dumps separator_doc) \<le> MAX_EVENT_FILE_BYTES"
    by (simp add: separator_doc_def MAX_EVENT_FILE_BYTES_def byte_len_def lit_def dump_str_def esc_char_def utf8_len_Cons utf8_char_def int_str_def nat_str.simps)
  moreover have "strip (lit ''{\"data\":{\"t\":\"'') \<noteq> []" by (simp add: strip_def lit_def is_space_def)
  ultimately show "load_events (Some (dumps separator_doc)) = Inl ValidationError"
    by (simp add: load_events_def file_text_def load_line_def MAX_EVENTS_def)
qed

end
