(* ===== verification/Aligner_Checkpoint.thy ===== *)
theory Aligner_Checkpoint
  imports Aligner_History Event_Documents Documents
begin

text \<open>
  \<open>checkpoint.py\<close> and the checkpoints of \<open>aligner.py\<close>: the digest of the alignment
  configuration, the validated snapshot of an aligner, its document, and the restoration of an
  aligner from it. A snapshot is read again from its document before it is restored.
\<close>

section \<open>The identity of a configuration\<close>

definition drift_doc :: "clock_drift \<Rightarrow> json" where
  "drift_doc d = JObj [jfield ''rate_ppm'' (JFloat (cd_rate d)), jfield ''offset_ms'' (JFloat (cd_offset d)),
     jfield ''epoch_ms'' (JFloat (cd_epoch d))]"

definition numbers_doc :: "(pystr, pyfloat) dict \<Rightarrow> json" where
  "numbers_doc kvs = JObj (map (\<lambda>e. (fst e, JFloat (snd e))) (sort_key fst kvs))"

definition config_doc :: "alignment_config \<Rightarrow> json" where
  "config_doc c = JObj
     [jfield ''window_ms'' (JFloat (ac_window c)), jfield ''hop_ms'' (JFloat (ac_hop c)),
      jfield ''allowed_lateness_ms'' (JFloat (ac_lateness c)), jfield ''origin_ms'' (JFloat (ac_origin c)),
      jfield ''required_streams'' (JArr (map JStr (ac_required c))),
      jfield ''offsets_ms'' (numbers_doc (ac_offsets c)),
      jfield ''clock_drifts'' (JObj (map (\<lambda>e. (fst e, drift_doc (snd e))) (sort_key fst (ac_drifts c)))),
      jfield ''expected_cadence_ms'' (numbers_doc (ac_cadence c)),
      jfield ''gap_factor'' (JFloat (ac_gap_factor c)), jfield ''late_policy'' (JStr (lit (late_policy_name (ac_late c)))),
      jfield ''max_events_per_window'' (JInt (int (ac_max_events c))),
      jfield ''max_output_windows'' (JInt (int (ac_max_windows c)))]"

definition config_digest :: "alignment_config \<Rightarrow> pystr" where
  "config_digest c = ascii_digest (config_doc c)"

section \<open>Identity records\<close>

fun status_code :: "track_status \<Rightarrow> int" where
  "status_code TTracked = 0"
| "status_code TDropped = 1"
| "status_code TAcceptedLate = 2"

definition read_status :: "json \<Rightarrow> track_status res" where
  "read_status v =
     (if v = JInt 0 then Inr TTracked else if v = JInt 1 then Inr TDropped
      else if v = JInt 2 then Inr TAcceptedLate else Inl ValidationError)"

definition tracked_horizon :: "pyfloat \<Rightarrow> pyfloat res" where
  "tracked_horizon h = (if h = PosInf then Inr PosInf else any_finite (PFloat h))"

definition make_tracked :: "pyval \<Rightarrow> pyfloat \<Rightarrow> track_status \<Rightarrow> tracked res" where
  "make_tracked i h s =
     rbind (label i) (\<lambda>i. rbind (tracked_horizon h) (\<lambda>h. Inr \<lparr>tk_id = i, tk_horizon = h, tk_status = s\<rparr>))"

definition snapshot_tracked :: "tracked \<Rightarrow> tracked res" where
  "snapshot_tracked t = make_tracked (PStr (tk_id t)) (tk_horizon t) (tk_status t)"

definition horizon_doc :: "pyfloat \<Rightarrow> json" where
  "horizon_doc h = (if h = PosInf then JNull else JFloat h)"

definition read_horizon :: "json \<Rightarrow> pyfloat res" where
  "read_horizon v = (if v = JNull then Inr PosInf else any_finite (py_of_json v))"

definition tracked_doc :: "tracked \<Rightarrow> json" where
  "tracked_doc t = JObj [jfield ''event_id'' (JStr (tk_id t)), jfield ''horizon_ms'' (horizon_doc (tk_horizon t)),
     jfield ''status'' (JInt (status_code (tk_status t)))]"

definition read_tracked :: "json \<Rightarrow> tracked res" where
  "read_tracked v =
     rbind (doc_fields [''event_id'', ''horizon_ms'', ''status''] v) (\<lambda>kvs.
     rbind (read_field kvs ''horizon_ms'' read_horizon) (\<lambda>h.
     rbind (read_field kvs ''status'' read_status) (\<lambda>s.
     rbind (doc_get kvs ''event_id'') (\<lambda>i. make_tracked (py_of_json i) h s))))"

section \<open>Checkpoints\<close>

record aligner_snapshot =
  ck_digest :: pystr
  ck_next :: nat
  ck_start :: pyfloat
  ck_max :: "(pystr, pyfloat) dict"
  ck_live :: "event list"
  ck_order :: "tracked list"
  ck_assigned :: "pystr list"
  ck_dropped :: "pystr list"
  ck_late :: "pystr list"
  ck_unassigned :: "pystr list"
  ck_released :: nat
  ck_reported :: nat
  ck_closed :: bool
  ck_retention :: retention_policy

definition live_recorded :: "tracked list \<Rightarrow> (pystr, pyfloat) dict \<Rightarrow> event \<Rightarrow> bool" where
  "live_recorded ts seen e \<longleftrightarrow> list_ex (\<lambda>t. tk_id t = ev_id e \<and> tk_status t \<noteq> TDropped) ts
     \<and> (case dget seen (ev_stream e) of None \<Rightarrow> False | Some m \<Rightarrow> \<not> flt m (ev_time e))"

text \<open>The bounds between the parts, the last checks of the constructor.\<close>

definition checkpoint_consistent :: "aligner_snapshot \<Rightarrow> bool" where
  "checkpoint_consistent k \<longleftrightarrow>
     distinct (map ev_id (ck_live k)) \<and> distinct (map tk_id (ck_order k))
     \<and> int (ck_released k) \<le> safe_int \<and> int (ck_reported k) \<le> safe_int \<and> ck_reported k \<le> ck_released k
     \<and> length (ck_order k) + ck_reported k \<le> rp_max_tracked (ck_retention k)
     \<and> set (ck_assigned k) \<subseteq> tk_id ` set (ck_order k)
     \<and> list_all (live_recorded (ck_order k) (ck_max k)) (ck_live k)
     \<and> (ck_closed k \<longrightarrow> ck_live k = [])"

definition make_checkpoint :: "aligner_snapshot \<Rightarrow> aligner_snapshot res" where
  "make_checkpoint k =
     (if \<not> is_hex64 (ck_digest k) then Inl ValidationError
      else if MAX_OUTPUT_WINDOWS < ck_next k then Inl ValidationError
      else
        rbind (any_finite (PFloat (ck_start k))) (\<lambda>start.
        rbind (number_mapping False (ck_max k)) (\<lambda>seen.
        if MAX_EVENTS < length (ck_live k) then Inl ValidationError
        else
          rbind (map_res snapshot_event (ck_live k)) (\<lambda>live.
          if MAX_EVENTS < length (ck_order k) then Inl ValidationError
          else
            rbind (map_res snapshot_tracked (ck_order k)) (\<lambda>order.
            rbind (label_tuple (ck_assigned k) MAX_EVENTS) (\<lambda>assigned.
            rbind (label_tuple (ck_dropped k) MAX_EVENTS) (\<lambda>dropped.
            rbind (label_tuple (ck_late k) MAX_EVENTS) (\<lambda>late.
            rbind (label_tuple (ck_unassigned k) MAX_EVENTS) (\<lambda>unassigned.
            rbind (retention_check (ck_retention k)) (\<lambda>ret.
              let k' = \<lparr>ck_digest = ck_digest k, ck_next = ck_next k, ck_start = start, ck_max = seen, ck_live = live,
                 ck_order = order, ck_assigned = assigned, ck_dropped = dropped, ck_late = late,
                 ck_unassigned = unassigned, ck_released = ck_released k, ck_reported = ck_reported k,
                 ck_closed = ck_closed k, ck_retention = ret\<rparr>
              in if checkpoint_consistent k' then Inr k' else Inl ValidationError))))))))))"

definition checkpoint_doc :: "aligner_snapshot \<Rightarrow> json" where
  "checkpoint_doc k = JObj
     [jfield ''schema_version'' (JStr (lit ''1.1'')), jfield ''kind'' (JStr (lit ''stream-quilt-aligner-checkpoint'')),
      jfield ''config_digest'' (JStr (ck_digest k)), jfield ''next_index'' (JInt (int (ck_next k))),
      jfield ''next_start'' (JFloat (ck_start k)), jfield ''max_seen'' (numbers_doc (ck_max k)),
      jfield ''live_events'' (JArr (map event_doc (ck_live k))), jfield ''seen_order'' (JArr (map tracked_doc (ck_order k))),
      jfield ''assigned_event_ids'' (JArr (map JStr (ck_assigned k))),
      jfield ''dropped_event_ids'' (JArr (map JStr (ck_dropped k))),
      jfield ''accepted_late_event_ids'' (JArr (map JStr (ck_late k))),
      jfield ''unassigned_event_ids'' (JArr (map JStr (ck_unassigned k))),
      jfield ''released_count'' (JInt (int (ck_released k))), jfield ''released_reported_count'' (JInt (int (ck_reported k))),
      jfield ''closed'' (JBool (ck_closed k)),
      jfield ''retention'' (JObj [jfield ''horizon_ms'' (horizon_doc (rp_horizon (ck_retention k))),
        jfield ''max_tracked_events'' (JInt (int (rp_max_tracked (ck_retention k))))])]"

definition checkpoint_fields :: "string list" where
  "checkpoint_fields = [''schema_version'', ''kind'', ''config_digest'', ''next_index'', ''next_start'', ''max_seen'',
     ''live_events'', ''seen_order'', ''assigned_event_ids'', ''dropped_event_ids'', ''accepted_late_event_ids'',
     ''unassigned_event_ids'', ''released_count'', ''released_reported_count'', ''closed'', ''retention'']"

definition read_natural :: "json \<Rightarrow> nat res" where
  "read_natural v = (case v of JInt i \<Rightarrow> if 0 \<le> i then Inr (nat i) else Inl ValidationError | _ \<Rightarrow> Inl ValidationError)"

text \<open>Any iterable of strings; of an object these are the keys.\<close>

definition read_labels :: "json \<Rightarrow> pystr list res" where
  "read_labels v = (case v of JArr xs \<Rightarrow> map_res read_str xs | JObj kvs \<Rightarrow> Inr (dkeys kvs) | _ \<Rightarrow> Inl ValidationError)"

definition read_numbers :: "json \<Rightarrow> (pystr, pyfloat) dict res" where
  "read_numbers v =
     (case v of
        JObj kvs \<Rightarrow> map_res (\<lambda>(k, x). rbind (any_finite (py_of_json x)) (\<lambda>n. Inr (k, n))) kvs
      | _ \<Rightarrow> Inl ValidationError)"

definition read_bounded :: "(json \<Rightarrow> 'a res) \<Rightarrow> json \<Rightarrow> 'a list res" where
  "read_bounded f v =
     (case v of JArr xs \<Rightarrow> if MAX_EVENTS < length xs then Inl ValidationError else map_res f xs | _ \<Rightarrow> Inl ValidationError)"

definition read_retention :: "json \<Rightarrow> retention_policy res" where
  "read_retention v =
     rbind (doc_fields [''horizon_ms'', ''max_tracked_events''] v) (\<lambda>kvs.
     rbind (read_field kvs ''horizon_ms'' read_horizon) (\<lambda>h.
     rbind (read_field kvs ''max_tracked_events'' (\<lambda>x. positive_int (py_of_json x) MAX_EVENTS)) (\<lambda>n.
       retention_check \<lparr>rp_horizon = h, rp_max_tracked = n\<rparr>)))"

definition checkpoint_from_doc :: "json \<Rightarrow> aligner_snapshot res" where
  "checkpoint_from_doc doc =
     rbind (doc_fields checkpoint_fields doc) (\<lambda>kvs.
     rbind (doc_get kvs ''schema_version'') (\<lambda>version.
     rbind (doc_get kvs ''kind'') (\<lambda>kind.
     if version \<noteq> JStr (lit ''1.1'') \<or> kind \<noteq> JStr (lit ''stream-quilt-aligner-checkpoint'') then Inl ValidationError
     else
       rbind (read_field kvs ''live_events'' (read_bounded event_from_dict)) (\<lambda>live.
       rbind (read_field kvs ''seen_order'' (read_bounded read_tracked)) (\<lambda>order.
       rbind (read_field kvs ''retention'' read_retention) (\<lambda>ret.
       rbind (read_field kvs ''config_digest'' read_str) (\<lambda>digest.
       rbind (read_field kvs ''next_index'' read_natural) (\<lambda>n.
       rbind (read_field kvs ''next_start'' (\<lambda>x. any_finite (py_of_json x))) (\<lambda>start.
       rbind (read_field kvs ''max_seen'' read_numbers) (\<lambda>seen.
       rbind (read_field kvs ''assigned_event_ids'' read_labels) (\<lambda>assigned.
       rbind (read_field kvs ''dropped_event_ids'' read_labels) (\<lambda>dropped.
       rbind (read_field kvs ''accepted_late_event_ids'' read_labels) (\<lambda>late.
       rbind (read_field kvs ''unassigned_event_ids'' read_labels) (\<lambda>unassigned.
       rbind (read_field kvs ''released_count'' read_natural) (\<lambda>released.
       rbind (read_field kvs ''released_reported_count'' read_natural) (\<lambda>reported.
       rbind (read_field kvs ''closed'' read_bool) (\<lambda>closed.
         make_checkpoint \<lparr>ck_digest = digest, ck_next = n, ck_start = start, ck_max = seen, ck_live = live,
           ck_order = order, ck_assigned = assigned, ck_dropped = dropped, ck_late = late,
           ck_unassigned = unassigned, ck_released = released, ck_reported = reported,
           ck_closed = closed, ck_retention = ret\<rparr>)))))))))))))))))"

section \<open>Checkpoint and restoration of an aligner\<close>

definition aligner_checkpoint :: "aligner \<Rightarrow> aligner_snapshot res" where
  "aligner_checkpoint a =
     make_checkpoint \<lparr>ck_digest = config_digest (al_config a), ck_next = al_next a, ck_start = al_start a, ck_max = al_max a,
       ck_live = live_events (al_index a), ck_order = al_order a, ck_assigned = sorted_list_of_set (al_assigned a),
       ck_dropped = al_dropped a, ck_late = al_late a, ck_unassigned = al_unassigned a,
       ck_released = al_released a, ck_reported = al_reported a, ck_closed = al_closed a,
       ck_retention = al_retention a\<rparr>"

definition same_retention :: "retention_policy \<Rightarrow> retention_policy \<Rightarrow> bool" where
  "same_retention p q \<longleftrightarrow> feq (rp_horizon p) (rp_horizon q) \<and> rp_max_tracked p = rp_max_tracked q"

definition restore_live :: "tracked list \<Rightarrow> event \<Rightarrow> interval_index \<Rightarrow> interval_index res" where
  "restore_live ts e ix =
     (case find (\<lambda>t. tk_id t = ev_id e) ts of
        None \<Rightarrow> Inl KeyError
      | Some t \<Rightarrow> if \<not> feq (event_horizon e) (tk_horizon t) then Inl ValidationError else insert_validated ix e)"

definition aligner_from_checkpoint :: "alignment_config \<Rightarrow> aligner_snapshot \<Rightarrow> retention_policy option \<Rightarrow> aligner res" where
  "aligner_from_checkpoint config k retention =
     rbind (checkpoint_from_doc (checkpoint_doc k)) (\<lambda>k.
     rbind (make_aligner config (Some (case retention of None \<Rightarrow> ck_retention k | Some p \<Rightarrow> p))) (\<lambda>a.
     let c = al_config a in
     if ck_digest k \<noteq> config_digest c then Inl ValidationError
     else if \<not> same_retention (al_retention a) (ck_retention k) then Inl ValidationError
     else if ac_max_windows c < ck_next k then Inl ValidationError
     else if \<not> feq (ck_start k) (grid_start (ac_origin c) (ac_hop c) (ck_next k)) then Inl ValidationError
     else
       rbind (fold_res (restore_live (ck_order k)) (ck_live k) (al_index a)) (\<lambda>ix.
       rbind (prune ix (ck_next k)) (\<lambda>ix.
         Inr (a\<lparr>al_index := ix, al_next := ck_next k, al_start := ck_start k, al_max := ck_max k,
           al_order := ck_order k, al_seen := tk_id ` set (ck_order k), al_assigned := set (ck_assigned k),
           al_dropped := ck_dropped k, al_late := ck_late k, al_unassigned := ck_unassigned k,
           al_released := ck_released k, al_reported := ck_reported k, al_closed := ck_closed k\<rparr>)))))"

end
