(* ===== verification/Aligner_Resume.thy ===== *)
theory Aligner_Resume
  imports Aligner_Checkpoint
begin

text \<open>
  Recovery of the streaming aligner: a validated checkpoint is read back from its document,
  and the aligner restored from the checkpoint of a running one gives the same windows, errors
  and reports as the original for every later sequence of operations.
\<close>

section \<open>Validated checkpoints\<close>

definition numbers_ok :: "(pystr, pyfloat) dict \<Rightarrow> bool" where
  "numbers_ok d \<longleftrightarrow> dict_ok d \<and> length d \<le> MAX_MAPPING_ENTRIES
     \<and> (\<forall>e\<in>set d. is_label (fst e) \<and> is_finite (snd e) \<and> fvalid (snd e))"

lemma number_mapping_again:
  assumes "numbers_ok d"
  shows "number_mapping False d = Inr d"
proof -
  define step where "step = (\<lambda>(raw, v) r. rbind (label (PStr raw)) (\<lambda>k. if dget r k \<noteq> None then Inl ValidationError
     else rbind (if False then finite_number True (PFloat v) else any_finite (PFloat v)) (\<lambda>n. Inr (dput k n r))))"
  have "fold_res step ys xs = Inr (xs @ ys)" if "dict_ok (xs @ ys)" "\<forall>e\<in>set ys. is_label (fst e) \<and> is_finite (snd e) \<and> fvalid (snd e)" for xs ys
    using that
  proof (induction ys arbitrary: xs)
    case (Cons y ys)
    have "fst y \<notin> set (dkeys xs)" using Cons.prems(1) by (auto simp: dict_ok_def)
    then have "step y xs = Inr (xs @ [y])"
      using Cons.prems(2) by (cases y) (simp add: step_def label_is_label any_finite_PFloat dput_new dget_None_iff)
    moreover have "fold_res step ys (xs @ [y]) = Inr ((xs @ [y]) @ ys)" by (rule Cons.IH) (use Cons.prems in simp_all)
    ultimately show ?case by simp
  qed simp
  from this [of "[]" d] show ?thesis using assms by (simp add: number_mapping_def numbers_ok_def step_def)
qed

lemma number_mapping_ok:
  assumes "number_mapping False kvs = Inr d"
  shows "numbers_ok d"
proof -
  define step where "step = (\<lambda>(raw, v) r. rbind (label (PStr raw)) (\<lambda>k. if dget r k \<noteq> None then Inl ValidationError
     else rbind (if False then finite_number True (PFloat v) else any_finite (PFloat v)) (\<lambda>n. Inr (dput k n r))))"
  have len: "length kvs \<le> MAX_MAPPING_ENTRIES" and f: "fold_res step kvs [] = Inr d"
    using assms by (simp_all add: number_mapping_def step_def split: if_splits)
  have "length d = length kvs \<and> dict_ok d \<and> (\<forall>e\<in>set d. is_label (fst e))"
    using f
  proof (rule fold_res_prefix)
    show "length t = length (ys @ [x]) \<and> dict_ok t \<and> (\<forall>e\<in>set t. is_label (fst e))"
      if "length s = length ys \<and> dict_ok s \<and> (\<forall>e\<in>set s. is_label (fst e))" "step x s = Inr t" for ys x s t
      using that label_Inr by (cases x) (fastforce simp: step_def dput_new dget_None_iff dict_ok_def split: if_splits)
  qed simp
  then show ?thesis using len number_mapping_values [OF assms] by (auto simp: numbers_ok_def)
qed

definition horizon_ok :: "pyfloat \<Rightarrow> bool" where
  "horizon_ok h \<longleftrightarrow> h = PosInf \<or> is_finite h \<and> fvalid h"

definition tracked_ok :: "tracked \<Rightarrow> bool" where
  "tracked_ok t \<longleftrightarrow> is_label (tk_id t) \<and> horizon_ok (tk_horizon t)"

lemma make_tracked_ok: "make_tracked i h s = Inr t \<Longrightarrow> tracked_ok t"
  by (auto simp: make_tracked_def tracked_ok_def tracked_horizon_def horizon_ok_def dest: label_Inr any_finite_Inr split: if_splits)

lemma snapshot_tracked_ok: "tracked_ok t \<Longrightarrow> snapshot_tracked t = Inr t"
  by (auto simp: snapshot_tracked_def make_tracked_def tracked_ok_def tracked_horizon_def horizon_ok_def label_is_label any_finite_PFloat)

definition labels_ok :: "pystr list \<Rightarrow> bool" where
  "labels_ok xs \<longleftrightarrow> list_all is_label xs \<and> distinct xs \<and> length xs \<le> MAX_EVENTS"

definition snapshot_ok :: "aligner_snapshot \<Rightarrow> bool" where
  "snapshot_ok k \<longleftrightarrow> is_hex64 (ck_digest k) \<and> ck_next k \<le> MAX_OUTPUT_WINDOWS
     \<and> is_finite (ck_start k) \<and> fvalid (ck_start k) \<and> numbers_ok (ck_max k)
     \<and> length (ck_live k) \<le> MAX_EVENTS \<and> list_all event_ok (ck_live k)
     \<and> length (ck_order k) \<le> MAX_EVENTS \<and> list_all tracked_ok (ck_order k)
     \<and> labels_ok (ck_assigned k) \<and> labels_ok (ck_dropped k) \<and> labels_ok (ck_late k) \<and> labels_ok (ck_unassigned k)
     \<and> retention_check (ck_retention k) = Inr (ck_retention k) \<and> checkpoint_consistent k"

lemma retention_check_again: "retention_check p = Inr q \<Longrightarrow> retention_check q = Inr q"
  by (auto simp: retention_check_def retention_horizon_def positive_int_def Let_def fnorm_valid split: if_splits)

lemma map_res_list_all: "map_res f xs = Inr ys \<Longrightarrow> (\<And>x y. f x = Inr y \<Longrightarrow> P y) \<Longrightarrow> list_all P ys \<and> length ys = length xs"
  by (induction xs arbitrary: ys) auto

lemma labels_again: "labels_ok xs \<Longrightarrow> label_tuple xs MAX_EVENTS = Inr xs"
  by (simp add: labels_ok_def label_tuple_ok)

lemma make_checkpoint_again: "snapshot_ok k \<Longrightarrow> make_checkpoint k = Inr k"
proof -
  assume k: "snapshot_ok k"
  have "map_res snapshot_event (ck_live k) = Inr (ck_live k)" "map_res snapshot_tracked (ck_order k) = Inr (ck_order k)"
    using k map_res_all_Inr [of "ck_live k" snapshot_event id] map_res_all_Inr [of "ck_order k" snapshot_tracked id]
    by (simp_all add: snapshot_ok_def list_all_iff snapshot_event_ok snapshot_tracked_ok)
  then show "make_checkpoint k = Inr k"
    using k by (cases k) (simp add: make_checkpoint_def snapshot_ok_def any_finite_PFloat number_mapping_again labels_again Let_def not_less)
qed

lemma make_checkpoint_ok:
  assumes "make_checkpoint raw = Inr k"
  shows "snapshot_ok k"
proof -
  obtain start seen live order assigned dropped late unassigned ret where
    p: "is_hex64 (ck_digest raw)" "ck_next raw \<le> MAX_OUTPUT_WINDOWS" "any_finite (PFloat (ck_start raw)) = Inr start"
      "number_mapping False (ck_max raw) = Inr seen" "length (ck_live raw) \<le> MAX_EVENTS"
      "map_res snapshot_event (ck_live raw) = Inr live" "length (ck_order raw) \<le> MAX_EVENTS"
      "map_res snapshot_tracked (ck_order raw) = Inr order" "label_tuple (ck_assigned raw) MAX_EVENTS = Inr assigned"
      "label_tuple (ck_dropped raw) MAX_EVENTS = Inr dropped" "label_tuple (ck_late raw) MAX_EVENTS = Inr late"
      "label_tuple (ck_unassigned raw) MAX_EVENTS = Inr unassigned" "retention_check (ck_retention raw) = Inr ret"
    and k: "k = \<lparr>ck_digest = ck_digest raw, ck_next = ck_next raw, ck_start = start, ck_max = seen, ck_live = live,
                 ck_order = order, ck_assigned = assigned, ck_dropped = dropped, ck_late = late,
                 ck_unassigned = unassigned, ck_released = ck_released raw, ck_reported = ck_reported raw,
                 ck_closed = ck_closed raw, ck_retention = ret\<rparr>" "checkpoint_consistent k"
    using assms unfolding make_checkpoint_def Let_def rbind_eq_Inr if_error_eq_Inr not_less not_not
    by (auto split: if_splits)
  have "list_all event_ok live \<and> length live = length (ck_live raw)"
    by (rule map_res_list_all [OF p(6)]) (auto simp: snapshot_event_def dest: make_event_ok)
  moreover have "list_all tracked_ok order \<and> length order = length (ck_order raw)"
    by (rule map_res_list_all [OF p(8)]) (auto simp: snapshot_tracked_def dest: make_tracked_ok)
  moreover have "labels_ok assigned" "labels_ok dropped" "labels_ok late" "labels_ok unassigned"
    using p(9-12) label_tuple_Inr unfolding labels_ok_def by blast+
  ultimately show ?thesis using p any_finite_Inr [OF p(3)] number_mapping_ok [OF p(4)] retention_check_again [OF p(13)] k
    by (simp add: snapshot_ok_def)
qed

section \<open>Documents\<close>

text \<open>The document lists the maxima in the order of their streams.\<close>

definition snapshot_sorted :: "aligner_snapshot \<Rightarrow> aligner_snapshot" where
  "snapshot_sorted k = k\<lparr>ck_max := sort_key fst (ck_max k)\<rparr>"

lemma snapshot_sorted_ok:
  assumes "snapshot_ok k"
  shows "snapshot_ok (snapshot_sorted k)"
proof -
  have d: "numbers_ok (ck_max k)" using assms by (simp add: snapshot_ok_def)
  then have "numbers_ok (sort_key fst (ck_max k))" using sort_key_fst_perm [of "ck_max k"] by (simp add: numbers_ok_def)
  moreover have "live_recorded ts (sort_key fst (ck_max k)) = live_recorded ts (ck_max k)" for ts
    using d by (simp add: live_recorded_def numbers_ok_def dget_sort_key fun_eq_iff)
  ultimately show ?thesis using assms by (simp add: snapshot_ok_def snapshot_sorted_def checkpoint_consistent_def)
qed

lemma read_horizon_doc: "horizon_ok h \<Longrightarrow> read_horizon (horizon_doc h) = Inr h"
  by (auto simp: horizon_ok_def read_horizon_def horizon_doc_def any_finite_PFloat)

lemma read_tracked_doc: "tracked_ok t \<Longrightarrow> read_tracked (tracked_doc t) = Inr t"
proof -
  assume t: "tracked_ok t"
  have "make_tracked (PStr (tk_id t)) (tk_horizon t) (tk_status t) = Inr t"
    using snapshot_tracked_ok [OF t] by (simp add: snapshot_tracked_def)
  moreover have "read_status (JInt (status_code (tk_status t))) = Inr (tk_status t)"
    by (cases "tk_status t") (simp_all add: read_status_def)
  ultimately show ?thesis
    using read_horizon_doc t by (simp add: read_tracked_def tracked_doc_def doc_fields_def doc_get_def read_field_def lit_def tracked_ok_def)
qed

lemma read_numbers_doc:
  assumes "numbers_ok d"
  shows "read_numbers (numbers_doc d) = Inr (sort_key fst d)"
proof -
  have "map_res (\<lambda>(k, x). rbind (any_finite (py_of_json x)) (\<lambda>n. Inr (k, n))) (map (\<lambda>e. (fst e, JFloat (snd e))) xs) = Inr xs"
    if "\<forall>e\<in>set xs. is_finite (snd e) \<and> fvalid (snd e)" for xs :: "(pystr, pyfloat) dict"
    using that by (induction xs) (simp_all add: any_finite_PFloat)
  then show ?thesis using assms by (simp add: read_numbers_def numbers_doc_def numbers_ok_def)
qed

lemma read_labels_doc: "read_labels (JArr (map JStr xs)) = Inr xs"
  using read_list_strings [of xs] by (simp add: read_labels_def read_list_def)

lemma read_bounded_doc:
  assumes "length xs \<le> MAX_EVENTS" "\<And>x. x \<in> set xs \<Longrightarrow> f (d x) = Inr x"
  shows "read_bounded f (JArr (map d xs)) = Inr xs"
proof -
  have "map_res f (map d xs) = Inr xs" using assms(2) by (induction xs) auto
  then show ?thesis using assms(1) by (simp add: read_bounded_def)
qed

definition retention_doc :: "retention_policy \<Rightarrow> json" where
  "retention_doc p = JObj [jfield ''horizon_ms'' (horizon_doc (rp_horizon p)),
     jfield ''max_tracked_events'' (JInt (int (rp_max_tracked p)))]"

lemma retention_check_fixed:
  assumes "retention_check p = Inr p"
  shows "horizon_ok (rp_horizon p) \<and> 1 \<le> rp_max_tracked p \<and> rp_max_tracked p \<le> MAX_EVENTS"
proof -
  have h: "fnorm (rp_horizon p) = rp_horizon p" "rp_horizon p \<noteq> NaN" "\<not> flt (rp_horizon p) (Fin 0)"
    and n: "1 \<le> rp_max_tracked p" "rp_max_tracked p \<le> MAX_EVENTS"
    using assms by (cases p; auto simp: retention_check_def retention_horizon_def positive_int_def Let_def split: if_splits)+
  have "fvalid (rp_horizon p)" using h(1) fvalid_fnorm by metis
  then show ?thesis using h(2,3) n by (cases "rp_horizon p") (auto simp: horizon_ok_def flt_def)
qed

lemma read_retention_doc: "retention_check p = Inr p \<Longrightarrow> read_retention (retention_doc p) = Inr p"
  using retention_check_fixed [of p] read_horizon_doc
  by (cases p) (simp add: read_retention_def retention_doc_def doc_fields_def doc_get_def read_field_def lit_def positive_int_def)

lemma checkpoint_roundtrip:
  assumes k: "snapshot_ok k"
  shows "checkpoint_from_doc (checkpoint_doc k) = Inr (snapshot_sorted k)"
proof -
  have live: "read_bounded event_from_dict (JArr (map event_doc (ck_live k))) = Inr (ck_live k)"
    using k by (intro read_bounded_doc) (auto simp: snapshot_ok_def list_all_iff event_doc_read)
  have order: "read_bounded read_tracked (JArr (map tracked_doc (ck_order k))) = Inr (ck_order k)"
    using k by (intro read_bounded_doc) (auto simp: snapshot_ok_def list_all_iff read_tracked_doc)
  have ret: "read_retention (retention_doc (ck_retention k)) = Inr (ck_retention k)"
    using k by (simp add: snapshot_ok_def read_retention_doc)
  have seen: "read_numbers (numbers_doc (ck_max k)) = Inr (sort_key fst (ck_max k))"
    using k by (simp add: snapshot_ok_def read_numbers_doc)
  have start: "any_finite (PFloat (ck_start k)) = Inr (ck_start k)" using k by (simp add: snapshot_ok_def any_finite_PFloat)
  have nat: "read_natural (JInt (int n)) = Inr n" for n by (simp add: read_natural_def)
  have "make_checkpoint (snapshot_sorted k) = Inr (snapshot_sorted k)" by (rule make_checkpoint_again [OF snapshot_sorted_ok [OF k]])
  then show ?thesis
    unfolding checkpoint_from_doc_def checkpoint_doc_def retention_doc_def [symmetric]
    by (cases k) (use live order ret seen start in \<open>simp add: doc_fields_def checkpoint_fields_def doc_get_def read_field_def lit_def nat read_labels_doc
        snapshot_sorted_def\<close>)
qed

section \<open>Aligners that no operation tells apart\<close>

text \<open>The indexes hold the same events in the same order of insertion; the nodes may be listed in
  another order and the query counters differ.\<close>

definition same_store :: "interval_index \<Rightarrow> interval_index \<Rightarrow> bool" where
  "same_store ix jx \<longleftrightarrow> index_inv ix \<and> index_inv jx \<and> ix_grid ix = ix_grid jx \<and> live_events ix = live_events jx"

lemma same_ceiling: "same_store ix jx \<Longrightarrow> ix_ceiling ix = ix_ceiling jx"
  by (simp add: same_store_def ix_grid_def)

lemma live_by_events:
  assumes "index_inv ix"
  shows "ix_live ix = map (\<lambda>e. (ev_id e, \<lparr>en_event = e, en_first = first_overlapping ix e, en_last = last_overlapping ix e\<rparr>)) (live_events ix)"
proof -
  define mk where "mk = (\<lambda>e. (ev_id e, \<lparr>en_event = e, en_first = first_overlapping ix e, en_last = last_overlapping ix e\<rparr>))"
  have "mk (en_event (snd x)) = x" if "x \<in> set (ix_live ix)" for x
  proof -
    have "entry_ok ix x" using assms that by (simp add: index_inv_def index_core_def)
    then show ?thesis by (cases x; cases "snd x") (simp add: entry_ok_def mk_def)
  qed
  then have "map (\<lambda>x. mk (en_event (snd x))) (ix_live ix) = ix_live ix" by (rule map_idI)
  then show ?thesis by (simp add: live_events_def mk_def comp_def)
qed

lemma same_live: "same_store ix jx \<Longrightarrow> ix_live ix = ix_live jx"
  using live_by_events [of ix] live_by_events [of jx] same_grid [of ix jx] by (simp add: same_store_def)

lemma insert_same:
  assumes "same_store ix jx" "event_ok e"
  shows "case insert_validated ix e of
      Inl x \<Rightarrow> insert_validated jx e = Inl x
    | Inr ix' \<Rightarrow> \<exists>jx'. insert_validated jx e = Inr jx' \<and> same_store ix' jx'"
proof (cases "insert_validated ix e")
  case (Inl x)
  then show ?thesis using same_live [OF assms(1)] by (auto simp: insert_validated_def Let_def split: if_splits)
next
  case (Inr ix')
  then obtain jx' where jx': "insert_validated jx e = Inr jx'"
    using same_live [OF assms(1)] by (auto simp: insert_validated_def Let_def split: if_splits)
  then show ?thesis
    using Inr insert_validated_Inr [OF Inr] insert_validated_Inr [OF jx'] assms by (simp add: same_store_def)
qed

lemma prune_same:
  assumes "same_store ix jx"
  shows "case prune ix k of
      Inl x \<Rightarrow> prune jx k = Inl x
    | Inr ix' \<Rightarrow> \<exists>jx'. prune jx k = Inr jx' \<and> same_store ix' jx'"
proof (cases "k \<le> ix_ceiling ix")
  case True
  have c: "ix_ceiling ix = ix_ceiling jx" by (rule same_ceiling [OF assms])
  have s: "index_inv ix" "index_inv jx" "ix_grid ix = ix_grid jx" "live_events ix = live_events jx"
    using assms by (simp_all add: same_store_def)
  obtain ix' where i: "prune ix k = Inr ix'" "index_inv ix'" "ix_grid ix' = ix_grid ix"
      "live_events ix' = filter (\<lambda>e. int k \<le> last_overlapping ix e) (live_events ix)"
    using prune_ok [OF s(1) True] by blast
  obtain jx' where j: "prune jx k = Inr jx'" "index_inv jx'" "ix_grid jx' = ix_grid jx"
      "live_events jx' = filter (\<lambda>e. int k \<le> last_overlapping jx e) (live_events jx)"
    using prune_ok [OF s(2), of k] True c by auto
  have "same_store ix' jx'" using i(2-4) j(2-4) s(3,4) same_grid(6) [OF s(3)] by (simp add: same_store_def)
  then show ?thesis using i(1) j(1) by simp
next
  case False
  moreover have "ix_ceiling ix = ix_ceiling jx" by (rule same_ceiling [OF assms])
  ultimately show ?thesis by (simp add: prune_def)
qed

lemma same_examined: "same_store ix jx \<Longrightarrow> same_store (ix\<lparr>ix_examined := m\<rparr>) (jx\<lparr>ix_examined := n\<rparr>)"
  using examined_inv [of ix m] examined_inv [of jx n] by (simp add: same_store_def ix_grid_def)

lemma same_clear: "same_store ix jx \<Longrightarrow> same_store (clear_index ix) (clear_index jx)"
  using clear_index_inv [of ix] clear_index_inv [of jx] by (simp add: same_store_def)

lemma build_window_same:
  assumes s: "same_store ix jx" and ids: "distinct (map ev_id (live_events ix @ pending))"
  shows "fst (build_window c pending i start ix) = fst (build_window c pending i start jx)"
proof (cases "ix_ceiling ix \<le> i")
  case True
  moreover have "ix_ceiling ix = ix_ceiling jx" by (rule same_ceiling [OF s])
  ultimately show ?thesis by (simp add: build_window_def matching_def)
next
  case False
  moreover have c: "ix_ceiling ix = ix_ceiling jx" by (rule same_ceiling [OF s])
  ultimately obtain es ix' fs jx' where m: "matching ix i = Inr (es, ix')" "matching jx i = Inr (fs, jx')"
    by (simp add: matching_def Let_def)
  define over where "over = filter (\<lambda>e. overlaps e start (fadd start (ac_window c))) pending"
  have es: "mset es = mset (filter (\<lambda>e. grid_hits (ix_grid ix) e i) (live_events ix))" "mset fs = mset es"
    using ix.query_ok [OF _ m(1)] ix.query_ok [OF _ m(2)] s by (simp_all add: same_store_def)
  have "distinct (map ev_id (filter (\<lambda>e. grid_hits (ix_grid ix) e i) (live_events ix) @ over))"
    using ids unfolding over_def map_append distinct_append by (auto intro: distinct_map_filter)
  moreover have "mset (map ev_id (es @ over)) = mset (map ev_id (filter (\<lambda>e. grid_hits (ix_grid ix) e i) (live_events ix) @ over))"
    by (simp only: mset_map mset_append es(1))
  ultimately have "distinct (map ev_id (es @ over))" using mset_eq_imp_distinct_iff by blast
  then have "sort_key event_key (es @ over) = sort_key event_key (fs @ over)"
    using es(2) by (intro sort_events_eq) simp_all
  moreover have "length fs = length es" using es(2) by (rule mset_eq_length)
  ultimately show ?thesis using m by (simp add: build_window_def Let_def over_def)
qed

lemma preview_loop_same:
  assumes "same_store ix jx" "ix_grid ix = config_grid c" "distinct (map ev_id (live_events ix @ pending))"
  shows "fst (preview_loop again c pending i start ix) = fst (preview_loop again c pending i start jx)"
  using assms
proof (induction again c pending i start ix arbitrary: jx rule: preview_loop.induct)
  case (1 again c pending i start ix)
  have gj: "ix_grid jx = config_grid c" using "1.prems"(1,2) by (simp add: same_store_def)
  obtain q ix1 where b: "build_window c pending i start ix = (q, ix1)" by (cases "build_window c pending i start ix")
  obtain q' jx1 where b': "build_window c pending i start jx = (q', jx1)" by (cases "build_window c pending i start jx")
  have q: "q' = q" using build_window_same [OF "1.prems"(1,3), of c i start] b b' by simp
  obtain m n where m: "ix1 = ix\<lparr>ix_examined := m\<rparr>" and n: "jx1 = jx\<lparr>ix_examined := n\<rparr>"
    using build_window_state [OF "1.prems"(2), of pending i start] build_window_state [OF gj, of pending i start] b b' by auto
  show ?case
  proof (cases "again start \<and> (\<exists>w. q = Inr w)")
    case True
    then obtain w where w: "q = Inr w" by blast
    have "same_store ix1 jx1" using same_examined [OF "1.prems"(1)] by (simp add: m n)
    moreover have "ix_grid ix1 = config_grid c" "live_events ix1 = live_events ix"
      using "1.prems"(2) by (simp_all add: m ix_grid_def live_events_def)
    ultimately have "fst (preview_loop again c pending (i + 1) (grid_start (ac_origin c) (ac_hop c) (i + 1)) ix1)
        = fst (preview_loop again c pending (i + 1) (grid_start (ac_origin c) (ac_hop c) (i + 1)) jx1)"
      using True w "1.prems"(3) by (intro "1.IH" [OF _ b [symmetric] w]) simp_all
    then obtain r ix2 jx2 where
      "preview_loop again c pending (i + 1) (grid_start (ac_origin c) (ac_hop c) (i + 1)) ix1 = (r, ix2)"
      "preview_loop again c pending (i + 1) (grid_start (ac_origin c) (ac_hop c) (i + 1)) jx1 = (r, jx2)"
      by (metis prod.collapse)
    then show ?thesis using True w b b' q
      by (cases r) (simp_all add: preview_loop.simps [of again c pending i start ix] preview_loop.simps [of again c pending i start jx])
  next
    case False
    then show ?thesis using b b' q
      by (cases q) (auto simp: preview_loop.simps [of again c pending i start ix] preview_loop.simps [of again c pending i start jx])
  qed
qed

lemma examined_self: "\<exists>m. ix = ix\<lparr>ix_examined := m\<rparr>"
  by (rule exI [of _ "ix_examined ix"]) simp

lemma preview_loop_state:
  assumes "ix_grid ix = config_grid c"
  shows "\<exists>r m. preview_loop again c pending i start ix = (r, ix\<lparr>ix_examined := m\<rparr>)"
  using assms
proof (induction again c pending i start ix rule: preview_loop.induct)
  case (1 again c pending i start ix)
  obtain q ix1 where b: "build_window c pending i start ix = (q, ix1)" by (cases "build_window c pending i start ix")
  obtain m where m: "ix1 = ix\<lparr>ix_examined := m\<rparr>" using build_window_state [OF "1.prems", of pending i start] b by auto
  have rest: "\<exists>r m'. preview_loop again c pending (i + 1) (grid_start (ac_origin c) (ac_hop c) (i + 1)) ix1 = (r, ix\<lparr>ix_examined := m'\<rparr>)"
    if "again start" "q = Inr w" for w
    using "1.IH" [OF that(1) b [symmetric] that(2)] "1.prems" by (simp add: m ix_grid_def)
  show ?case
  proof (cases "again start \<and> (\<exists>w. q = Inr w)")
    case True
    then obtain w r m' where "q = Inr w" "again start"
        "preview_loop again c pending (i + 1) (grid_start (ac_origin c) (ac_hop c) (i + 1)) ix1 = (r, ix\<lparr>ix_examined := m'\<rparr>)"
      using rest by blast
    then show ?thesis using b by (cases r) (auto simp: preview_loop.simps [of again c pending i start ix])
  next
    case False
    then show ?thesis using b m examined_self [of ix]
      by (cases q) (auto simp: preview_loop.simps [of again c pending i start ix])
  qed
qed

text \<open>The original with another index and another listing of the maxima.\<close>

definition al_with :: "interval_index \<Rightarrow> (pystr, pyfloat) dict \<Rightarrow> aligner \<Rightarrow> aligner" where
  "al_with ix seen a = a\<lparr>al_index := ix, al_max := seen\<rparr>"

definition alike :: "aligner \<Rightarrow> aligner \<Rightarrow> bool" where
  "alike a b \<longleftrightarrow> aligner_inv a \<and> aligner_inv b
     \<and> (\<exists>ix seen. b = al_with ix seen a \<and> same_store (al_index a) ix \<and> dget seen = dget (al_max a))"

lemma watermark_with: "dget seen = dget (al_max a) \<Longrightarrow> watermark (al_with ix seen a) = watermark a"
  by (simp add: watermark_def watermark_for_def al_with_def)

lemma order_with: "(al_with ix seen a)\<lparr>al_order := ts\<rparr> = al_with ix seen (a\<lparr>al_order := ts\<rparr>)"
  by (simp add: al_with_def)

lemma release_record_with: "release_record t (al_with ix seen a) = al_with ix seen (release_record t a)"
  by (simp add: al_with_def release_record_def Let_def)

lemma release_records_with: "release_records f ts (al_with ix seen a) = al_with ix seen (release_records f ts a)"
  by (induction ts arbitrary: a) (simp_all add: order_with release_record_with)

lemma release_with: "dget seen = dget (al_max a) \<Longrightarrow> release (al_with ix seen a) = al_with ix seen (release a)"
  by (simp add: release_def watermark_with release_records_with split: option.splits) (simp add: al_with_def)

lemma release_records_kept: "al_index (release_records f ts a) = al_index a \<and> al_max (release_records f ts a) = al_max a"
  by (induction ts arbitrary: a) (simp_all add: release_record_def Let_def)

lemma release_kept: "al_index (release a) = al_index a" "al_max (release a) = al_max a"
  by (simp_all add: release_def release_records_kept split: option.splits)

text \<open>The same result, and states that differ in the same way.\<close>

definition same_step :: "'r \<times> aligner \<Rightarrow> 'r \<times> aligner \<Rightarrow> bool" where
  "same_step p q \<longleftrightarrow> fst p = fst q
     \<and> (\<exists>ix seen. snd q = al_with ix seen (snd p) \<and> same_store (al_index (snd p)) ix \<and> dget seen = dget (al_max (snd p)))"

lemma same_stepI:
  "r = r' \<Longrightarrow> b = al_with ix seen a \<Longrightarrow> same_store (al_index a) ix \<Longrightarrow> dget seen = dget (al_max a) \<Longrightarrow> same_step (r, a) (r', b)"
  by (auto simp: same_step_def)

lemma commit_windows_same:
  assumes s: "same_store (al_index a) ix" and m: "dget seen = dget (al_max a)"
  shows "same_step (commit_windows ws a) (commit_windows ws (al_with ix seen a))"
proof -
  define n where "n = al_next a + length ws"
  define b where "b = a\<lparr>al_assigned := al_assigned a \<union> (\<Union>w\<in>set ws. ev_id ` set (aw_events w)), al_next := n,
    al_start := grid_start (ac_origin (al_config a)) (ac_hop (al_config a)) n\<rparr>"
  have ca: "commit_windows ws a = (case prune (al_index a) n of Inl x \<Rightarrow> (Inl x, b) | Inr ix \<Rightarrow> (Inr (), release (b\<lparr>al_index := ix\<rparr>)))"
    unfolding commit_windows_def Let_def n_def b_def by simp
  have cb: "commit_windows ws (al_with ix seen a)
      = (case prune ix n of Inl x \<Rightarrow> (Inl x, al_with ix seen b) | Inr jx \<Rightarrow> (Inr (), release (al_with jx seen b)))"
    by (cases "prune ix n") (auto simp: commit_windows_def Let_def n_def b_def al_with_def intro!: arg_cong [of _ _ release] aligner.equality)
  have keep: "al_index b = al_index a" "al_max b = al_max a" by (simp_all add: b_def)
  show ?thesis
  proof (cases "prune (al_index a) n")
    case (Inl x)
    then show ?thesis using prune_same [OF s, of n] ca cb s m keep by (auto intro: same_stepI)
  next
    case (Inr ix1)
    then obtain jx1 where j: "prune ix n = Inr jx1" "same_store ix1 jx1" using prune_same [OF s, of n] by auto
    have "al_with jx1 seen b = al_with jx1 seen (b\<lparr>al_index := ix1\<rparr>)" by (simp add: al_with_def)
    then have "release (al_with jx1 seen b) = al_with jx1 seen (release (b\<lparr>al_index := ix1\<rparr>))"
      using m keep by (simp add: release_with)
    then show ?thesis using Inr j ca cb m keep by (auto simp: release_kept intro!: same_stepI)
  qed
qed

section \<open>Every operation keeps them alike\<close>

lemma candidate_max_with:
  "dget seen = dget (al_max a) \<Longrightarrow> dget (candidate_max (al_with ix seen a) n) = dget (candidate_max a n)"
  by (simp add: candidate_max_def al_with_def)

lemma late_with: "is_late (al_with ix seen a) n = is_late a n" "is_obsolete (al_with ix seen a) n = is_obsolete a n"
  by (simp_all add: is_late_def is_obsolete_def closed_horizon_def al_with_def)

lemma preview_ready_same:
  assumes a: "aligner_inv a" and s: "same_store (al_index a) ix" and n: "ev_id n \<notin> al_seen a"
  shows "\<exists>r i j. preview_ready a wm n = (r, (al_index a)\<lparr>ix_examined := i\<rparr>)
    \<and> preview_ready (al_with ix seen a) wm n = (r, ix\<lparr>ix_examined := j\<rparr>)"
proof -
  define c where "c = al_config a"
  have base: "aligner_base a" using a by (simp add: aligner_inv_def)
  have g: "ix_grid (al_index a) = config_grid c" "ix_grid ix = config_grid c" and inv: "index_inv (al_index a)" "index_inv ix"
    using base s by (simp_all add: aligner_base_def same_store_def c_def)
  have "ev_id n \<notin> ev_id ` set (live_events (al_index a))"
    using recorded_live_ids [of a "al_order a" "live_events (al_index a)"] base n by (auto simp: aligner_base_def)
  then have ids: "distinct (map ev_id (live_events (al_index a) @ [n]))" using live_ids(2) inv by (simp add: index_inv_def)
  define again where "again = (\<lambda>start. fle (fadd start (ac_window c)) wm)"
  have eq: "fst (preview_loop again c [n] (al_next a) (al_start a) (al_index a)) = fst (preview_loop again c [n] (al_next a) (al_start a) ix)"
    by (rule preview_loop_same [OF s g(1) ids])
  obtain r i where l: "preview_loop again c [n] (al_next a) (al_start a) (al_index a) = (r, (al_index a)\<lparr>ix_examined := i\<rparr>)"
    using preview_loop_state [OF g(1)] by blast
  moreover obtain j where "preview_loop again c [n] (al_next a) (al_start a) ix = (r, ix\<lparr>ix_examined := j\<rparr>)"
    using preview_loop_state [OF g(2), of again "[n]" "al_next a" "al_start a"] eq l by auto
  ultimately show ?thesis
    using examined_self [of ix] examined_self [of "al_index a"] by (auto simp: preview_ready_def Let_def al_with_def c_def [symmetric] again_def [symmetric])
qed

definition ready_after :: "aligner \<Rightarrow> event \<Rightarrow> aligned_window list res \<times> interval_index" where
  "ready_after a n = (case watermark_for (al_config a) (candidate_max a n) of
     None \<Rightarrow> (Inr [], al_index a) | Some wm \<Rightarrow> preview_ready a wm n)"

definition mark_accepted :: "bool \<Rightarrow> event \<Rightarrow> aligner \<Rightarrow> aligner" where
  "mark_accepted late n a =
     (let a1 = track n (if late then TAcceptedLate else TTracked) a
      in if late then a1\<lparr>al_late := al_late a1 @ [ev_id n]\<rparr> else a1)"

definition commit_accepted :: "aligned_window list \<Rightarrow> aligner \<Rightarrow> aligned_window list res \<times> aligner" where
  "commit_accepted ws a = (case commit_windows ws a of (Inl x, a) \<Rightarrow> (Inl x, a) | (Inr _, a) \<Rightarrow> (Inr ws, a))"

lemma accept_event_parts:
  "accept_event a n = (case ready_after a n of
     (Inl x, ix) \<Rightarrow> (Inl x, a\<lparr>al_index := ix\<rparr>)
   | (Inr ws, ix) \<Rightarrow>
       (case insert_validated ix n of
          Inl x \<Rightarrow> (Inl x, mark_accepted (is_late a n) n (a\<lparr>al_index := ix\<rparr>))
        | Inr ix' \<Rightarrow> commit_accepted ws ((mark_accepted (is_late a n) n (a\<lparr>al_index := ix\<rparr>))\<lparr>al_index := ix', al_max := candidate_max a n\<rparr>)))"
  unfolding accept_event_def ready_after_def mark_accepted_def commit_accepted_def Let_def ..

lemma ready_after_same:
  assumes "aligner_inv a" "same_store (al_index a) ix" "dget seen = dget (al_max a)" "ev_id n \<notin> al_seen a"
  shows "\<exists>r i j. ready_after a n = (r, (al_index a)\<lparr>ix_examined := i\<rparr>) \<and> ready_after (al_with ix seen a) n = (r, ix\<lparr>ix_examined := j\<rparr>)"
proof -
  have "watermark_for (al_config (al_with ix seen a)) (candidate_max (al_with ix seen a) n) = watermark_for (al_config a) (candidate_max a n)"
    using candidate_max_with [OF assms(3), of ix n] by (simp add: watermark_for_def al_with_def)
  moreover have "al_index (al_with ix seen a) = ix" by (simp add: al_with_def)
  ultimately show ?thesis
    using preview_ready_same [OF assms(1,2,4)] examined_self [of ix] examined_self [of "al_index a"]
    by (auto simp: ready_after_def split: option.splits)
qed

lemma mark_accepted_with: "mark_accepted late n (al_with ix seen a) = al_with ix seen (mark_accepted late n a)"
  by (simp add: mark_accepted_def track_def al_with_def Let_def)

lemma mark_accepted_kept: "al_index (mark_accepted late n a) = al_index a" "al_max (mark_accepted late n a) = al_max a"
  by (simp_all add: mark_accepted_def track_def Let_def)

lemma commit_accepted_same:
  assumes "same_store (al_index a) ix" "dget seen = dget (al_max a)"
  shows "same_step (commit_accepted ws a) (commit_accepted ws (al_with ix seen a))"
  using commit_windows_same [OF assms, of ws]
  by (cases "commit_windows ws a"; cases "commit_windows ws (al_with ix seen a)"; cases "fst (commit_windows ws a)")
     (auto simp: commit_accepted_def same_step_def)

lemma accept_event_same:
  assumes a: "aligner_inv a" and s: "same_store (al_index a) ix" and m: "dget seen = dget (al_max a)"
    and n: "event_ok n" "ev_id n \<notin> al_seen a"
  shows "same_step (accept_event a n) (accept_event (al_with ix seen a) n)"
proof -
  obtain r i j where r: "ready_after a n = (r, (al_index a)\<lparr>ix_examined := i\<rparr>)"
      "ready_after (al_with ix seen a) n = (r, ix\<lparr>ix_examined := j\<rparr>)"
    using ready_after_same [OF a s m n(2)] by blast
  define ai aj where "ai = a\<lparr>al_index := (al_index a)\<lparr>ix_examined := i\<rparr>\<rparr>" and "aj = (al_with ix seen a)\<lparr>al_index := ix\<lparr>ix_examined := j\<rparr>\<rparr>"
  have st: "aj = al_with (ix\<lparr>ix_examined := j\<rparr>) seen ai" by (simp add: ai_def aj_def al_with_def)
  have k: "al_index ai = (al_index a)\<lparr>ix_examined := i\<rparr>" "al_max ai = al_max a" by (simp_all add: ai_def)
  have s1: "same_store ((al_index a)\<lparr>ix_examined := i\<rparr>) (ix\<lparr>ix_examined := j\<rparr>)" by (rule same_examined [OF s])
  show ?thesis
  proof (cases r)
    case (Inl x)
    have "same_step (Inl x :: aligned_window list res, ai) (Inl x, aj)"
      by (rule same_stepI [OF refl st]) (simp_all only: k s1 m)
    then show ?thesis using Inl by (simp add: accept_event_parts r ai_def aj_def)
  next
    case (Inr ws)
    define late where "late = is_late a n"
    have late: "is_late (al_with ix seen a) n = late" by (simp add: late_with late_def)
    define ma where "ma = mark_accepted late n ai"
    have mb: "mark_accepted late n aj = al_with (ix\<lparr>ix_examined := j\<rparr>) seen ma" by (simp add: st mark_accepted_with ma_def)
    have km: "al_index ma = al_index ai" "al_max ma = al_max ai" by (simp_all add: ma_def mark_accepted_kept)
    have ins: "case insert_validated ((al_index a)\<lparr>ix_examined := i\<rparr>) n of
        Inl x \<Rightarrow> insert_validated (ix\<lparr>ix_examined := j\<rparr>) n = Inl x
      | Inr ix' \<Rightarrow> \<exists>jx'. insert_validated (ix\<lparr>ix_examined := j\<rparr>) n = Inr jx' \<and> same_store ix' jx'"
      by (rule insert_same [OF s1 n(1)])
    show ?thesis
    proof (cases "insert_validated ((al_index a)\<lparr>ix_examined := i\<rparr>) n")
      case (Inl x)
      then have "insert_validated (ix\<lparr>ix_examined := j\<rparr>) n = Inl x" using ins by simp
      moreover have "same_step (Inl x :: aligned_window list res, ma) (Inl x, mark_accepted late n aj)"
        by (rule same_stepI [OF refl mb]) (simp_all only: km k s1 m)
      ultimately show ?thesis
        unfolding accept_event_parts r late late_def [symmetric] using Inl \<open>r = Inr ws\<close> by (simp add: ma_def ai_def aj_def)
    next
      case (Inr ix')
      then obtain jx' where j: "insert_validated (ix\<lparr>ix_examined := j\<rparr>) n = Inr jx'" "same_store ix' jx'" using ins by auto
      have "(mark_accepted late n aj)\<lparr>al_index := jx', al_max := candidate_max (al_with ix seen a) n\<rparr>
          = al_with jx' (candidate_max (al_with ix seen a) n) (ma\<lparr>al_index := ix', al_max := candidate_max a n\<rparr>)"
        unfolding mb by (simp add: al_with_def)
      moreover have "same_step (commit_accepted ws (ma\<lparr>al_index := ix', al_max := candidate_max a n\<rparr>))
          (commit_accepted ws (al_with jx' (candidate_max (al_with ix seen a) n) (ma\<lparr>al_index := ix', al_max := candidate_max a n\<rparr>)))"
        using j(2) candidate_max_with [OF m, of ix n] by (intro commit_accepted_same) simp_all
      ultimately show ?thesis
        unfolding accept_event_parts r late late_def [symmetric]
        using Inr j(1) \<open>r = Inr ws\<close> by (simp add: ma_def ai_def aj_def)
    qed
  qed
qed

lemma same_step_refl:
  "same_store (al_index a) ix \<Longrightarrow> dget seen = dget (al_max a) \<Longrightarrow> same_step (r, a) (r, al_with ix seen a)"
  by (rule same_stepI [OF refl refl])

lemma with_sel:
  "al_closed (al_with ix seen a) = al_closed a" "al_seen (al_with ix seen a) = al_seen a" "al_config (al_with ix seen a) = al_config a"
  "al_retention (al_with ix seen a) = al_retention a" "retained_count (al_with ix seen a) = retained_count a"
  by (simp_all add: al_with_def retained_count_def)

text \<open>The guards of \<open>ingest\<close>: the event that is admitted, as it came and normalised.\<close>

definition admitted :: "aligner \<Rightarrow> event \<Rightarrow> (event \<times> event) res" where
  "admitted a raw =
     (if al_closed a then Inl ValidationError
      else rbind (snapshot_event raw) (\<lambda>e.
        if ev_id e \<in> al_seen a then Inl ValidationError
        else if MAX_EVENTS \<le> card (al_seen a) then Inl ValidationError
        else if rp_max_tracked (al_retention a) \<le> retained_count a then Inl ValidationError
        else rbind (normalized_event (al_config a) e) (\<lambda>n.
          if is_late a n \<and> ac_late (al_config a) = LReject then Inl LateEventError else Inr (e, n))))"

definition drop_late :: "event \<Rightarrow> event \<Rightarrow> aligner \<Rightarrow> aligner" where
  "drop_late e n a = (track n TDropped a)\<lparr>al_dropped := al_dropped a @ [ev_id e]\<rparr>"

lemma ingest_parts:
  "ingest a raw = (case admitted a raw of
     Inl x \<Rightarrow> (Inl x, a)
   | Inr (e, n) \<Rightarrow> if is_late a n \<and> (ac_late (al_config a) = LDrop \<or> is_obsolete a n) then (Inr [], drop_late e n a)
                  else accept_event a n)"
  by (cases "snapshot_event raw"; cases "normalized_event (al_config a) (projr (snapshot_event raw))")
     (auto simp: ingest_def admitted_def drop_late_def)

lemma admitted_with: "admitted (al_with ix seen a) raw = admitted a raw"
  unfolding admitted_def late_with with_sel ..

lemma admitted_ok:
  assumes "admitted a raw = Inr (e, n)"
  shows "event_ok n" "ev_id n \<notin> al_seen a"
proof -
  have g: "snapshot_event raw = Inr e" "normalized_event (al_config a) e = Inr n" "ev_id e \<notin> al_seen a"
    using assms by (auto simp: admitted_def split: if_splits)
  have e: "event_ok e" using make_event_ok g(1) by (simp add: snapshot_event_def)
  show "event_ok n" "ev_id n \<notin> al_seen a" using normalized_event_Inr [OF g(2)] normalized_event_id [OF g(2) e] g(3) by simp_all
qed

lemma ingest_same:
  assumes a: "aligner_inv a" and s: "same_store (al_index a) ix" and m: "dget seen = dget (al_max a)"
  shows "same_step (ingest a raw) (ingest (al_with ix seen a) raw)"
proof (cases "admitted a raw")
  case (Inl x)
  then show ?thesis using same_step_refl [OF s m] by (simp add: ingest_parts admitted_with)
next
  case (Inr p)
  obtain e n where p: "p = (e, n)" by (cases p)
  have d: "drop_late e n (al_with ix seen a) = al_with ix seen (drop_late e n a)" by (simp add: drop_late_def track_def al_with_def)
  have k: "al_index (drop_late e n a) = al_index a" "al_max (drop_late e n a) = al_max a" by (simp_all add: drop_late_def track_def)
  have "same_step (Inr [] :: aligned_window list res, drop_late e n a) (Inr [], drop_late e n (al_with ix seen a))"
    unfolding d by (rule same_step_refl) (simp_all add: k s m)
  moreover have "same_step (accept_event a n) (accept_event (al_with ix seen a) n)"
    using accept_event_same [OF a s m] admitted_ok [of a raw e n] Inr by (simp add: p)
  ultimately show ?thesis using Inr unfolding ingest_parts admitted_with late_with with_sel p by auto
qed

lemma preview_flush_same:
  assumes a: "aligner_inv a" and s: "same_store (al_index a) ix"
  shows "\<exists>r i j. preview_flush a h = (r, (al_index a)\<lparr>ix_examined := i\<rparr>) \<and> preview_flush (al_with ix seen a) h = (r, ix\<lparr>ix_examined := j\<rparr>)"
proof -
  define c where "c = al_config a"
  have g: "ix_grid (al_index a) = config_grid c" "ix_grid ix = config_grid c" and inv: "index_inv (al_index a)"
    using a s by (simp_all add: aligner_inv_def aligner_base_def same_store_def c_def)
  have ids: "distinct (map ev_id (live_events (al_index a) @ []))" using live_ids(2) inv by (simp add: index_inv_def)
  define again where "again = (\<lambda>start. flt start h)"
  have eq: "fst (preview_loop again c [] (al_next a) (al_start a) (al_index a)) = fst (preview_loop again c [] (al_next a) (al_start a) ix)"
    by (rule preview_loop_same [OF s g(1) ids])
  obtain r i where l: "preview_loop again c [] (al_next a) (al_start a) (al_index a) = (r, (al_index a)\<lparr>ix_examined := i\<rparr>)"
    using preview_loop_state [OF g(1)] by blast
  moreover obtain j where "preview_loop again c [] (al_next a) (al_start a) ix = (r, ix\<lparr>ix_examined := j\<rparr>)"
    using preview_loop_state [OF g(2), of again "[]" "al_next a" "al_start a"] eq l by auto
  ultimately show ?thesis
    using examined_self [of ix] examined_self [of "al_index a"]
    by (auto simp: preview_flush_def Let_def al_with_def c_def [symmetric] again_def [symmetric])
qed

lemma flush_same:
  assumes a: "aligner_inv a" and s: "same_store (al_index a) ix" and m: "dget seen = dget (al_max a)"
  shows "same_step (flush a) (flush (al_with ix seen a))"
proof -
  define b where "b = al_with ix seen a"
  have b: "al_closed b = al_closed a" "al_index b = ix" by (simp_all add: b_def al_with_def)
  have live: "ix_live ix = ix_live (al_index a)" "index_horizon ix = index_horizon (al_index a)"
    using same_live [OF s] s by (simp_all add: index_horizon_def same_store_def)
  note keep = same_step_refl [OF s m, folded b_def]
  consider "al_closed a" | "\<not> al_closed a" "ix_live (al_index a) = []" | x where "\<not> al_closed a" "ix_live (al_index a) \<noteq> []" "index_horizon (al_index a) = Inl x"
    | h where "\<not> al_closed a" "ix_live (al_index a) \<noteq> []" "index_horizon (al_index a) = Inr h"
    by (cases "index_horizon (al_index a)") blast+
  then have "same_step (flush a) (flush b)"
  proof cases
    case 1
    then show ?thesis using keep by (simp add: flush_def b)
  next
    case 2
    have "b\<lparr>al_closed := True\<rparr> = al_with ix seen (a\<lparr>al_closed := True\<rparr>)" by (simp add: b_def al_with_def)
    then show ?thesis using 2 s m same_step_refl [of "a\<lparr>al_closed := True\<rparr>" ix seen] by (simp add: flush_def b live)
  next
    case 3
    then show ?thesis using keep by (simp add: flush_def b live)
  next
    case 4
    obtain r i j where r: "preview_flush a h = (r, (al_index a)\<lparr>ix_examined := i\<rparr>)" "preview_flush b h = (r, ix\<lparr>ix_examined := j\<rparr>)"
      using preview_flush_same [OF a s] unfolding b_def by blast
    define ai where "ai = a\<lparr>al_index := (al_index a)\<lparr>ix_examined := i\<rparr>\<rparr>"
    have bj: "b\<lparr>al_index := ix\<lparr>ix_examined := j\<rparr>\<rparr> = al_with (ix\<lparr>ix_examined := j\<rparr>) seen ai" by (simp add: b_def ai_def al_with_def)
    have s1: "same_store (al_index ai) (ix\<lparr>ix_examined := j\<rparr>)" "dget seen = dget (al_max ai)"
      using same_examined [OF s] m by (simp_all add: ai_def)
    show ?thesis
    proof (cases r)
      case (Inl x)
      then show ?thesis using 4 r same_step_refl [OF s1, of "Inl x"] by (simp add: flush_def b live bj ai_def)
    next
      case (Inr ws)
      obtain q a2 where c1: "commit_windows ws ai = (q, a2)" by (cases "commit_windows ws ai")
      obtain b2 where c2: "commit_windows ws (al_with (ix\<lparr>ix_examined := j\<rparr>) seen ai) = (q, b2)"
        and st: "\<exists>ix seen. b2 = al_with ix seen a2 \<and> same_store (al_index a2) ix \<and> dget seen = dget (al_max a2)"
        using commit_windows_same [OF s1, of ws] c1 by (cases "commit_windows ws (al_with (ix\<lparr>ix_examined := j\<rparr>) seen ai)") (auto simp: same_step_def)
      then obtain ix2 seen2 where b2: "b2 = al_with ix2 seen2 a2" "same_store (al_index a2) ix2" "dget seen2 = dget (al_max a2)" by blast
      define fin where "fin = (\<lambda>a :: aligner. a\<lparr>al_index := clear_index (al_index a), al_closed := True\<rparr>)"
      have f: "flush a = (case q of Inl x \<Rightarrow> (Inl x, a2) | Inr _ \<Rightarrow> (Inr ws, fin a2))"
          "flush b = (case q of Inl x \<Rightarrow> (Inl x, b2) | Inr _ \<Rightarrow> (Inr ws, fin b2))"
        using 4 r Inr c1 c2 by (cases q; simp add: flush_def b live bj ai_def fin_def)+
      have e: "fin b2 = al_with (clear_index ix2) seen2 (fin a2)" by (simp add: b2(1) fin_def al_with_def)
      have "same_step (Inr ws :: aligned_window list res, fin a2) (Inr ws, fin b2)"
        by (rule same_stepI [OF refl e]) (simp_all add: fin_def same_clear b2(2,3))
      moreover have "same_step (Inl x :: aligned_window list res, a2) (Inl x, b2)" for x by (rule same_stepI [OF refl b2])
      ultimately show ?thesis unfolding f by (cases q) simp_all
    qed
  qed
  then show ?thesis by (simp add: b_def)
qed

lemma apply_inv: "aligner_inv a \<Longrightarrow> aligner_apply x a = (r, a') \<Longrightarrow> aligner_inv a'"
proof (cases x)
  case (AIngest raw)
  assume "aligner_inv a" "aligner_apply x a = (r, a')"
  then show ?thesis using ingest_ok [of a raw r a'] touch_inv AIngest
    by (cases r) (auto simp: aligner_apply_def accepted_step_def)
next
  case AFlush
  assume "aligner_inv a" "aligner_apply x a = (r, a')"
  then show ?thesis using flush_ok [of a r a'] touch_inv AFlush
    by (cases r) (auto simp: aligner_apply_def flushed_step_def)
qed

lemma apply_config: "aligner_inv a \<Longrightarrow> aligner_apply x a = (r, a') \<Longrightarrow> al_config a' = al_config a"
proof (cases x)
  case (AIngest raw)
  assume "aligner_inv a" "aligner_apply x a = (r, a')"
  then show ?thesis using ingest_ok [of a raw r a'] AIngest
    by (cases r) (auto simp: aligner_apply_def accepted_step_def dropped_step_def track_def touch_def)
next
  case AFlush
  assume "aligner_inv a" "aligner_apply x a = (r, a')"
  then show ?thesis using flush_ok [of a r a'] AFlush
    by (cases r) (auto simp: aligner_apply_def flushed_step_def touch_def)
qed

lemma alike_step:
  assumes "alike a b" "aligner_apply x a = (r, a')"
  shows "\<exists>b'. aligner_apply x b = (r, b') \<and> alike a' b'"
proof -
  obtain ix seen where b: "b = al_with ix seen a" "same_store (al_index a) ix" "dget seen = dget (al_max a)"
    and inv: "aligner_inv a" "aligner_inv b"
    using assms(1) by (auto simp: alike_def)
  have "same_step (aligner_apply x a) (aligner_apply x b)"
    using ingest_same [OF inv(1) b(2,3)] flush_same [OF inv(1) b(2,3)] by (cases x) (simp_all add: aligner_apply_def b(1))
  then obtain b' where b': "aligner_apply x b = (r, b')"
      "\<exists>ix seen. b' = al_with ix seen a' \<and> same_store (al_index a') ix \<and> dget seen = dget (al_max a')"
    using assms(2) by (cases "aligner_apply x b") (auto simp: same_step_def)
  then show ?thesis using apply_inv [OF inv(1) assms(2)] apply_inv [OF inv(2) b'(1)] by (auto simp: alike_def)
qed

lemma alike_run:
  assumes "alike a b" "run_ops aligner_apply xs a = (rs, a')"
  shows "\<exists>b'. run_ops aligner_apply xs b = (rs, b') \<and> alike a' b'"
  using assms
proof (induction xs arbitrary: a b rs)
  case (Cons x xs)
  obtain r a1 where s: "aligner_apply x a = (r, a1)" by (cases "aligner_apply x a")
  obtain rs1 where rs: "rs = r # rs1" "run_ops aligner_apply xs a1 = (rs1, a')"
    using Cons.prems(2) s by (auto simp: run_ops_Cons prod_eq_iff)
  obtain b1 where b1: "aligner_apply x b = (r, b1)" "alike a1 b1" using alike_step [OF Cons.prems(1) s] by blast
  obtain b' where "run_ops aligner_apply xs b1 = (rs1, b')" "alike a' b'" using Cons.IH [OF b1(2) rs(2)] by blast
  then show ?case using b1(1) rs(1) by (auto simp: run_ops_Cons)
qed simp

text \<open>What an aligner reports of itself.\<close>

definition reports :: "aligner \<Rightarrow> pyfloat option \<times> pystr list \<times> pystr list \<times> pystr list \<times> nat \<times> nat \<times> bool" where
  "reports a = (watermark a, al_dropped a, al_late a, unassigned_ids a, retained_count a, al_released a, al_closed a)"

lemma alike_reports: "alike a b \<Longrightarrow> reports b = reports a"
  by (auto simp: alike_def reports_def watermark_with) (auto simp: al_with_def unassigned_ids_def retained_count_def)

section \<open>Every identity is a label\<close>

definition wire_ok :: "tracked list \<Rightarrow> aligner \<Rightarrow> bool" where
  "wire_ok ts a \<longleftrightarrow> (\<forall>t\<in>set ts. tracked_ok t) \<and> list_all is_label (al_dropped a) \<and> list_all is_label (al_late a)
     \<and> list_all is_label (al_unassigned a) \<and> (\<forall>e\<in>set (al_max a). is_label (fst e))
     \<and> retention_check (al_retention a) = Inr (al_retention a)"

lemma is_double_next_up:
  assumes "is_double n"
  shows "is_double (next_up n)"
proof -
  define k where "k = excess (nat (if 0 \<le> n then n else - n - 1))"
  have up: "next_up n = n + 2 ^ k" by (simp add: next_up_def k_def)
  have "2 ^ k dvd n" using assms by (intro double_dvd_mono) (auto simp: k_def intro!: excess_mono)
  then obtain q where q: "n = q * 2 ^ k" by (metis dvdE mult.commute)
  have "nat (if 0 \<le> n then n else - n - 1) < 2 ^ (53 + k)" unfolding k_def by (rule excess_upper)
  then have "int (nat (if 0 \<le> n then n else - n - 1)) < int (2 ^ (53 + k))" by (simp only: of_nat_less_iff)
  then have b: "(if 0 \<le> n then n else - n - 1) < 2 ^ 53 * 2 ^ k" by (simp add: power_add split: if_splits)
  have p: "(0::int) < 2 ^ k" by simp
  have "\<bar>q + 1\<bar> \<le> 2 ^ 53"
  proof (cases "0 \<le> n")
    case True
    then have "q * 2 ^ k < 2 ^ 53 * 2 ^ k" using b q by simp
    then have "q < 2 ^ 53" using p by (simp add: mult_less_cancel_right)
    moreover have "0 \<le> q" using True q by (simp add: zero_le_mult_iff)
    ultimately show ?thesis by simp
  next
    case False
    then have "(- q) * 2 ^ k \<le> 2 ^ 53 * 2 ^ k" using b q by simp
    then have "- q \<le> 2 ^ 53" using p by (rule mult_right_le_imp_le)
    moreover have "q < 0" using False q by (simp add: zero_le_mult_iff not_le mult_less_0_iff)
    ultimately show ?thesis by simp
  qed
  then have "is_double ((q + 1) * 2 ^ k)" by (rule is_double_scaled)
  moreover have "next_up n = (q + 1) * 2 ^ k" unfolding up by (simp add: q algebra_simps)
  ultimately show ?thesis by simp
qed

lemma fvalid_nextafter_inf: "fvalid x \<Longrightarrow> is_finite x \<Longrightarrow> fvalid (nextafter_inf x)"
  using is_double_scaled [of 1 0] by (cases x) (auto intro: fvalid_of_rounded is_double_next_up simp: fbound_def)

lemma event_horizon_ok: "event_ok e \<Longrightarrow> horizon_ok (event_horizon e)"
proof -
  assume e: "event_ok e"
  have "fvalid (event_end e)" unfolding event_end_def using e by (intro fvalid_fadd) (simp_all add: event_ok_def)
  then show ?thesis using e fvalid_nextafter_inf [of "ev_time e"] nextafter_cases [of "ev_time e"]
    by (auto simp: event_horizon_def horizon_ok_def event_ok_def)
qed

lemma wire_release_records: "wire_ok ts a \<Longrightarrow> wire_ok (al_order (release_records f ts a)) (release_records f ts a)"
proof (induction ts arbitrary: a)
  case (Cons t ts)
  have "wire_ok ts (release_record t a)"
    using Cons.prems by (auto simp: wire_ok_def release_record_def tracked_ok_def Let_def)
  from Cons.IH [OF this] show ?case
    using Cons.prems by (cases "fle (tk_horizon t) f") (simp, simp add: wire_ok_def)
qed (simp add: wire_ok_def)

lemma wire_release: "wire_ok (al_order a) a \<Longrightarrow> wire_ok (al_order (release a)) (release a)"
  by (simp add: release_def wire_release_records split: option.splits)

lemma wire_other:
  "wire_ok ts (a\<lparr>al_index := ix\<rparr>) = wire_ok ts a"
  "wire_ok ts (a\<lparr>al_assigned := as, al_next := n, al_start := s\<rparr>) = wire_ok ts a"
  "wire_ok ts (a\<lparr>al_closed := b\<rparr>) = wire_ok ts a"
  by (simp_all add: wire_ok_def)

lemma wire_commit: "wire_ok (al_order a) a \<Longrightarrow> wire_ok (al_order (snd (commit_windows ws a))) (snd (commit_windows ws a))"
  by (auto simp: commit_windows_def Let_def wire_other intro!: wire_release split: sum.splits)

lemma wire_mark:
  "wire_ok (al_order a) a \<Longrightarrow> event_ok n \<Longrightarrow> wire_ok (al_order (mark_accepted late n a)) (mark_accepted late n a)"
  using event_horizon_ok [of n] by (auto simp: wire_ok_def mark_accepted_def track_def Let_def tracked_ok_def event_ok_def)

lemma wire_accept:
  assumes "wire_ok (al_order a) a" "event_ok n"
  shows "wire_ok (al_order (snd (accept_event a n))) (snd (accept_event a n))"
proof -
  define A where "A = (\<lambda>ix. mark_accepted (is_late a n) n (a\<lparr>al_index := ix\<rparr>))"
  have m: "wire_ok (al_order (A ix)) (A ix)" for ix
    unfolding A_def by (rule wire_mark [OF _ assms(2)]) (simp add: wire_other assms(1))
  have seen: "\<forall>e\<in>set (candidate_max a n). is_label (fst e)"
  proof -
    have "fst ` set (candidate_max a n) \<subseteq> insert (ev_stream n) (fst ` set (al_max a))"
      using dkeys_dput unfolding candidate_max_def by (metis (no_types, lifting) Un_insert_right append_Nil2 list.set(1) list.set(2) set_append set_map subset_insertI subset_refl)
    then show ?thesis using assms by (fastforce simp: wire_ok_def event_ok_def)
  qed
  have "wire_ok (al_order ((A ix)\<lparr>al_index := ix', al_max := candidate_max a n\<rparr>)) ((A ix)\<lparr>al_index := ix', al_max := candidate_max a n\<rparr>)" for ix ix'
    using m [of ix] seen by (simp add: wire_ok_def)
  from wire_commit [OF this] have "wire_ok (al_order (snd (commit_accepted ws ((A ix)\<lparr>al_index := ix', al_max := candidate_max a n\<rparr>))))
      (snd (commit_accepted ws ((A ix)\<lparr>al_index := ix', al_max := candidate_max a n\<rparr>)))" for ws ix ix'
    by (auto simp: commit_accepted_def split: prod.splits sum.splits) (metis snd_conv)+
  then show ?thesis using m assms(1) unfolding accept_event_parts A_def
    by (auto simp: wire_other split: prod.splits sum.splits)
qed

lemma wire_ingest:
  assumes "wire_ok (al_order a) a"
  shows "wire_ok (al_order (snd (ingest a raw))) (snd (ingest a raw))"
proof (cases "admitted a raw")
  case (Inr p)
  obtain e n where p: "p = (e, n)" by (cases p)
  have n: "event_ok n" using admitted_ok(1) [of a raw e n] Inr by (simp add: p)
  have "is_label (ev_id e)" using Inr make_event_ok by (auto simp: p admitted_def snapshot_event_def event_ok_def split: if_splits)
  then have "wire_ok (al_order (drop_late e n a)) (drop_late e n a)"
    using assms n event_horizon_ok [OF n] by (auto simp: wire_ok_def drop_late_def track_def tracked_ok_def event_ok_def)
  then show ?thesis using wire_accept [OF assms n] by (simp add: ingest_parts Inr p)
qed (simp add: ingest_parts assms)

lemma wire_flush:
  assumes "wire_ok (al_order a) a"
  shows "wire_ok (al_order (snd (flush a))) (snd (flush a))"
proof -
  have "wire_ok (al_order (snd (commit_windows ws (a\<lparr>al_index := ix\<rparr>)))) (snd (commit_windows ws (a\<lparr>al_index := ix\<rparr>)))" for ws ix
    by (rule wire_commit) (simp add: wire_other assms)
  then have c: "wire_ok (al_order a') a'" if "commit_windows ws (a\<lparr>al_index := ix\<rparr>) = (r, a')" for ws ix r a'
    using that by (metis snd_conv)
  have "wire_ok ts (a'\<lparr>al_index := jx, al_closed := True\<rparr>) = wire_ok ts a'" for ts a' jx by (simp add: wire_ok_def)
  then show ?thesis using assms c by (auto simp: flush_def wire_other split: sum.splits prod.splits)
qed

lemma wire_run: "wire_ok (al_order a) a \<Longrightarrow> run_ops aligner_apply xs a = (rs, a') \<Longrightarrow> aligner_inv a
    \<Longrightarrow> wire_ok (al_order a') a' \<and> aligner_inv a' \<and> al_config a' = al_config a"
proof (induction xs arbitrary: a rs)
  case (Cons x xs)
  obtain r a1 where s: "aligner_apply x a = (r, a1)" by (cases "aligner_apply x a")
  obtain rs1 where rs: "run_ops aligner_apply xs a1 = (rs1, a')" using Cons.prems(2) s by (auto simp: run_ops_Cons prod_eq_iff)
  have "wire_ok (al_order a1) a1"
    using wire_ingest [OF Cons.prems(1)] wire_flush [OF Cons.prems(1)] s by (cases x) (simp_all add: aligner_apply_def, metis snd_conv)
  then show ?case using Cons.IH [of a1 rs1] rs apply_inv [OF Cons.prems(3) s] apply_config [OF Cons.prems(3) s] by simp
qed simp

section \<open>Restoration\<close>

lemma find_distinct: "distinct (map f ts) \<Longrightarrow> t \<in> set ts \<Longrightarrow> find (\<lambda>u. f u = f t) ts = Some t"
  by (induction ts) auto

lemma restore_live_all:
  assumes "index_inv ix" "\<forall>e\<in>set es. event_ok e \<and> recorded ts e" "distinct (map tk_id ts)"
    and "distinct (map ev_id (live_events ix @ es))" "length (live_events ix @ es) \<le> MAX_EVENTS"
  shows "\<exists>ix'. fold_res (restore_live ts) es ix = Inr ix' \<and> index_inv ix' \<and> ix_grid ix' = ix_grid ix
    \<and> live_events ix' = live_events ix @ es"
  using assms
proof (induction es arbitrary: ix)
  case (Cons e es)
  obtain t where t: "t \<in> set ts" "tk_id t = ev_id e" "tk_horizon t = event_horizon e" using Cons.prems(2) by (auto simp: recorded_def)
  have e: "event_ok e" using Cons.prems(2) by simp
  have "feq (event_horizon e) (tk_horizon t)" using t(3) event_horizon_not_NaN [OF e] by (simp add: feq_def)
  moreover have "find (\<lambda>t. tk_id t = ev_id e) ts = Some t" using find_distinct [OF Cons.prems(3) t(1)] t(2) by simp
  ultimately have r: "restore_live ts e ix = insert_validated ix e" by (simp add: restore_live_def)
  have core: "index_core ix" using Cons.prems(1) by (simp add: index_inv_def)
  have "length (ix_live ix) \<noteq> MAX_EVENTS" using Cons.prems(5) length_live [of ix] by simp
  moreover have "ev_id e \<notin> set (dkeys (ix_live ix))" using Cons.prems(4) live_ids(1) [OF core] by (metis Un_iff disjoint_iff distinct_append image_eqI list.set_intros(1) list.set_map map_append)
  ultimately obtain ix1 where i: "insert_validated ix e = Inr ix1" by (auto simp: insert_validated_def Let_def dget_None_iff)
  note k = insert_validated_Inr [OF i Cons.prems(1) e]
  have "\<exists>ix'. fold_res (restore_live ts) es ix1 = Inr ix' \<and> index_inv ix' \<and> ix_grid ix' = ix_grid ix1 \<and> live_events ix' = live_events ix1 @ es"
    by (rule Cons.IH) (use k Cons.prems in auto)
  then show ?case using r i k by auto
qed simp

lemma label_tuple_same: "list_all is_label xs \<Longrightarrow> label_tuple xs m = Inr ys \<Longrightarrow> ys = xs"
  by (auto simp: label_tuple_def map_res_is_label split: if_splits)

lemma map_res_same: "\<forall>x\<in>set xs. f x = Inr x \<Longrightarrow> map_res f xs = Inr ys \<Longrightarrow> ys = xs"
  by (induction xs arbitrary: ys) auto

text \<open>A checkpoint of valid parts is those parts.\<close>

lemma make_checkpoint_same:
  assumes "make_checkpoint raw = Inr k" "is_finite (ck_start raw)" "fvalid (ck_start raw)"
    and "dict_ok (ck_max raw)" "\<forall>e\<in>set (ck_max raw). is_label (fst e) \<and> is_finite (snd e) \<and> fvalid (snd e)"
    and "list_all event_ok (ck_live raw)" "list_all tracked_ok (ck_order raw)"
    and "list_all is_label (ck_assigned raw)" "list_all is_label (ck_dropped raw)" "list_all is_label (ck_late raw)"
      "list_all is_label (ck_unassigned raw)" "retention_check (ck_retention raw) = Inr (ck_retention raw)"
  shows "k = raw"
proof -
  obtain start seen live order assigned dropped late unassigned ret where
    p: "any_finite (PFloat (ck_start raw)) = Inr start" "number_mapping False (ck_max raw) = Inr seen"
      "map_res snapshot_event (ck_live raw) = Inr live" "map_res snapshot_tracked (ck_order raw) = Inr order"
      "label_tuple (ck_assigned raw) MAX_EVENTS = Inr assigned"
      "label_tuple (ck_dropped raw) MAX_EVENTS = Inr dropped" "label_tuple (ck_late raw) MAX_EVENTS = Inr late"
      "label_tuple (ck_unassigned raw) MAX_EVENTS = Inr unassigned" "retention_check (ck_retention raw) = Inr ret"
    and k: "k = \<lparr>ck_digest = ck_digest raw, ck_next = ck_next raw, ck_start = start, ck_max = seen, ck_live = live,
                 ck_order = order, ck_assigned = assigned, ck_dropped = dropped, ck_late = late,
                 ck_unassigned = unassigned, ck_released = ck_released raw, ck_reported = ck_reported raw,
                 ck_closed = ck_closed raw, ck_retention = ret\<rparr>"
    using assms(1) unfolding make_checkpoint_def Let_def rbind_eq_Inr if_error_eq_Inr not_less not_not
    by (auto split: if_splits)
  have "length (ck_max raw) \<le> MAX_MAPPING_ENTRIES" using p(2) by (simp add: number_mapping_def split: if_splits)
  then have "seen = ck_max raw" using p(2) number_mapping_again [of "ck_max raw"] assms(4,5) by (simp add: numbers_ok_def)
  moreover have "live = ck_live raw" using map_res_same [OF _ p(3)] assms(6) by (simp add: list_all_iff snapshot_event_ok)
  moreover have "order = ck_order raw" using map_res_same [OF _ p(4)] assms(7) by (simp add: list_all_iff snapshot_tracked_ok)
  moreover have "assigned = ck_assigned raw" "dropped = ck_dropped raw" "late = ck_late raw" "unassigned = ck_unassigned raw"
    using label_tuple_same p(5-8) assms(8-11) by blast+
  ultimately show ?thesis using k p(1,9) assms(2,3,12) any_finite_PFloat [of "ck_start raw"] by simp
qed

lemma with_inv:
  assumes a: "aligner_inv a" and s: "same_store (al_index a) ix" and m: "dget seen = dget (al_max a)" "max_ok seen"
  shows "aligner_inv (al_with ix seen a)"
proof -
  have w: "watermark (al_with ix seen a) = watermark a" by (rule watermark_with [OF m(1)])
  have "records_ok (al_with ix seen a) (al_order a) = records_ok a (al_order a)" by (simp add: records_ok_def al_with_def)
  then have "aligner_base (al_with ix seen a)"
    using a s m(2) by (simp add: aligner_inv_def aligner_base_def same_store_def al_with_def)
  moreover have "not_due (al_with ix seen a) (al_next a)" using a w by (simp add: aligner_inv_def not_due_def with_sel)
  ultimately show ?thesis using a s by (simp add: aligner_inv_def same_store_def) (simp add: al_with_def)
qed

definition snapshot_of :: "aligner \<Rightarrow> aligner_snapshot" where
  "snapshot_of a = \<lparr>ck_digest = config_digest (al_config a), ck_next = al_next a, ck_start = al_start a, ck_max = al_max a,
     ck_live = live_events (al_index a), ck_order = al_order a, ck_assigned = sorted_list_of_set (al_assigned a),
     ck_dropped = al_dropped a, ck_late = al_late a, ck_unassigned = al_unassigned a,
     ck_released = al_released a, ck_reported = al_reported a, ck_closed = al_closed a,
     ck_retention = al_retention a\<rparr>"

lemma assigned_finite:
  assumes "records_ok a (al_order a)"
  shows "set (sorted_list_of_set (al_assigned a)) = al_assigned a"
proof -
  have f: "finite (al_seen a)" using assms by (simp add: records_ok_def)
  have "al_assigned a \<subseteq> al_seen a" using assms unfolding records_ok_def by blast
  with f have "finite (al_assigned a)" using finite_subset by blast
  then show ?thesis by simp
qed

lemma aligner_checkpoint_eq:
  assumes a: "aligner_inv a" and w: "wire_ok (al_order a) a" and k: "aligner_checkpoint a = Inr k"
  shows "k = snapshot_of a" "snapshot_ok k"
proof -
  have base: "aligner_base a" using a by (simp add: aligner_inv_def)
  then have rec: "records_ok a (al_order a)" and mx: "max_ok (al_max a)" and inv: "index_inv (al_index a)" by (simp_all add: aligner_base_def)
  have mk: "make_checkpoint (snapshot_of a) = Inr k" using k by (simp add: aligner_checkpoint_def snapshot_of_def)
  then show "snapshot_ok k" by (rule make_checkpoint_ok)
  have "al_assigned a \<subseteq> tk_id ` set (al_order a)" using rec unfolding records_ok_def by metis
  then have "\<forall>i\<in>al_assigned a. is_label i" using w by (fastforce simp: wire_ok_def tracked_ok_def)
  then have "list_all is_label (sorted_list_of_set (al_assigned a))" using assigned_finite [OF rec] by (simp add: list_all_iff)
  moreover have "list_all event_ok (live_events (al_index a))" using live_ids(3) [of "al_index a"] inv by (auto simp: list_all_iff index_inv_def)
  ultimately show "k = snapshot_of a"
    using w mx a by (intro make_checkpoint_same [OF mk]) (auto simp: snapshot_of_def wire_ok_def max_ok_def list_all_iff aligner_inv_def start_at_def)
qed

lemma restored_alike:
  assumes a: "aligner_inv a" and w: "wire_ok (al_order a) a" and k: "aligner_checkpoint a = Inr k"
    and start: "make_aligner raw r = Inr s0" "al_config s0 = al_config a"
  shows "\<exists>b. aligner_from_checkpoint raw k None = Inr b \<and> alike a b"
proof -
  define c where "c = al_config a"
  define seen where "seen = sort_key fst (al_max a)"
  note ks = aligner_checkpoint_eq [OF a w k]
  have base: "aligner_base a" and nx: "al_next a \<le> ac_max_windows c" and st: "start_at c (al_next a) (al_start a)"
    using a by (simp_all add: aligner_inv_def c_def)
  then have rec: "records_ok a (al_order a)" and mx: "max_ok (al_max a)" and inv: "index_inv (al_index a)" and cok: "config_ok c"
    and g: "ix_grid (al_index a) = config_grid c" and ret: "retention_ok c (al_retention a)"
    and live: "\<forall>e\<in>set (live_events (al_index a)). recorded (al_order a) e"
    by (simp_all add: aligner_base_def c_def)
  have doc: "checkpoint_from_doc (checkpoint_doc k) = Inr (snapshot_sorted (snapshot_of a))"
    using checkpoint_roundtrip [OF ks(2)] by (simp add: ks(1))
  obtain ix0 where raw: "alignment_config_check raw = Inr (al_config a)"
    and ix0: "make_index (ac_origin c) (ac_window c) (ac_hop c) (ac_max_windows c) = Inr ix0"
    using start by (auto simp: make_aligner_def c_def)
  have i0: "index_inv ix0" "live_events ix0 = []" "ix_grid ix0 = config_grid c"
    using make_index_inv [OF ix0] make_index_grid [OF ix0 cok] by (simp_all add: config_grid_def)
  have rc: "retention_check (al_retention a) = Inr (al_retention a)" using w by (simp add: wire_ok_def)
  have "\<not> flt (rp_horizon (al_retention a)) (ac_window c)" using ret unfolding retention_ok_def by (metis fle_flt_trans flt_irrefl)
  then have "validated_retention c (Some (al_retention a)) = Inr (al_retention a)" by (simp add: validated_retention_def rc)
  then obtain a0 where a0: "make_aligner raw (Some (al_retention a)) = Inr a0" "al_config a0 = c" "al_retention a0 = al_retention a" "al_index a0 = ix0"
    using raw ix0 by (simp add: make_aligner_def c_def)
  have "same_retention (al_retention a) (al_retention a)" using ret by (simp add: same_retention_def feq_def retention_ok_def)
  moreover have "feq (al_start a) (grid_start (ac_origin c) (ac_hop c) (al_next a))"
    using st config_start [OF cok nx] by (simp add: start_at_def feq_finite)
  moreover have len: "length (live_events (al_index a)) \<le> MAX_EVENTS" using inv length_live by (simp add: index_inv_def index_core_def)
  then obtain ix1 where ix1: "fold_res (restore_live (al_order a)) (live_events (al_index a)) ix0 = Inr ix1" "index_inv ix1"
      "ix_grid ix1 = ix_grid ix0" "live_events ix1 = live_events (al_index a)"
    using restore_live_all [OF i0(1), of "live_events (al_index a)" "al_order a"] live rec live_ids [of "al_index a"] inv
    by (auto simp: i0(2) records_ok_def index_inv_def)
  moreover have "al_next a \<le> ix_ceiling ix1" using nx ix1(3) i0(3) by (simp add: ix_grid_def config_grid_def)
  then obtain ix where ix: "prune ix1 (al_next a) = Inr ix" "index_inv ix" "ix_grid ix = config_grid c"
      "live_events ix = filter (\<lambda>e. int (al_next a) \<le> grid_last (config_grid c) e) (live_events (al_index a))"
    using prune_ok [OF ix1(2)] grid_last_ix [of ix1] ix1(3,4) i0(3) by auto
  ultimately have b: "aligner_from_checkpoint raw k None = Inr (a0\<lparr>al_index := ix, al_next := al_next a, al_start := al_start a,
      al_max := seen, al_order := al_order a, al_seen := tk_id ` set (al_order a), al_assigned := al_assigned a,
      al_dropped := al_dropped a, al_late := al_late a, al_unassigned := al_unassigned a,
      al_released := al_released a, al_reported := al_reported a, al_closed := al_closed a\<rparr>)"
    using doc a0 nx assigned_finite [OF rec]
    by (simp add: aligner_from_checkpoint_def snapshot_sorted_def snapshot_of_def Let_def c_def seen_def)
  have "live_events ix = live_events (al_index a)"
    unfolding ix(4) using a by (auto simp: aligner_inv_def c_def intro!: filter_True)
  then have s: "same_store (al_index a) ix" using ix(2,3) inv g by (simp add: same_store_def)
  have m: "dget seen = dget (al_max a)" "max_ok seen"
    using mx sort_key_fst_perm [of "al_max a"] by (simp_all add: seen_def dget_sort_key max_ok_def)
  have "a0\<lparr>al_index := ix, al_next := al_next a, al_start := al_start a,
      al_max := seen, al_order := al_order a, al_seen := tk_id ` set (al_order a), al_assigned := al_assigned a,
      al_dropped := al_dropped a, al_late := al_late a, al_unassigned := al_unassigned a,
      al_released := al_released a, al_reported := al_reported a, al_closed := al_closed a\<rparr> = al_with ix seen a"
    using rec a0(2,3) by (intro aligner.equality) (simp_all add: al_with_def records_ok_def c_def)
  then show ?thesis using b with_inv [OF a s m] a s m(1) by (auto simp: alike_def)
qed

end
