(* ===== verification/Aligner_Reports.thy ===== *)
theory Aligner_Reports
  imports Aligner_Resume Event_Properties
begin

text \<open>
  When a running aligner can be checkpointed, and the properties of its recovery. The
  checkpoint refuses a repeated identity in a report: an identity that the retention policy has
  released may come again and be reported again.
\<close>

section \<open>Live events are behind the maximum of their stream\<close>

definition ahead :: "aligner \<Rightarrow> bool" where
  "ahead a \<longleftrightarrow> (\<forall>e\<in>set (live_events (al_index a)).
     case dget (al_max a) (ev_stream e) of None \<Rightarrow> False | Some m \<Rightarrow> \<not> flt m (ev_time e))"

lemma commit_max: "al_max (snd (commit_windows ws a)) = al_max a"
  by (simp add: commit_windows_def Let_def release_kept split: sum.splits)

lemma accept_max:
  assumes "accept_event a n = (Inr ws, a')"
  shows "al_max a' = candidate_max a n"
proof -
  obtain q ix where q: "ready_after a n = (q, ix)" by (cases "ready_after a n")
  define b where "b = (\<lambda>ix'. (mark_accepted (is_late a n) n (a\<lparr>al_index := ix\<rparr>))\<lparr>al_index := ix', al_max := candidate_max a n\<rparr>)"
  obtain ws' ix' where "q = Inr ws'" "insert_validated ix n = Inr ix'" "commit_accepted ws' (b ix') = (Inr ws, a')"
    using assms q unfolding accept_event_parts b_def by (auto split: sum.splits)
  then have "a' = snd (commit_windows ws' (b ix'))" by (auto simp: commit_accepted_def split: prod.splits sum.splits)
  then show ?thesis using commit_max [of ws' "b ix'"] by (simp add: b_def)
qed

lemma candidate_ahead:
  assumes a: "aligner_inv a" "ahead a" and n: "event_ok n" and e: "e \<in> set (live_events (al_index a) @ [n])"
  shows "case dget (candidate_max a n) (ev_stream e) of None \<Rightarrow> False | Some m \<Rightarrow> \<not> flt m (ev_time e)"
proof -
  have mx: "max_ok (al_max a)" and live: "\<forall>e\<in>set (live_events (al_index a)). is_finite (ev_time e)"
    using a(1) live_ids(3) [of "al_index a"] by (auto simp: aligner_inv_def aligner_base_def index_inv_def event_ok_def)
  have t: "is_finite (ev_time n)" using n by (simp add: event_ok_def)
  have fin: "is_finite m" if "dget (al_max a) s = Some m" for s m using mx map_of_SomeD [OF that] by (fastforce simp: max_ok_def)
  show ?thesis
  proof (cases "e \<in> set (live_events (al_index a))")
    case True
    then obtain m where m: "dget (al_max a) (ev_stream e) = Some m" "\<not> flt m (ev_time e)"
      using a(2) by (fastforce simp: ahead_def split: option.splits)
    then show ?thesis using fin [OF m(1)] t live True
      by (auto simp: candidate_max_def fmax_def flt_finite)
  next
    case False
    then have "e = n" using e by simp
    moreover have "\<not> flt (ev_time n) NegInf" using t by (cases "ev_time n") (simp_all add: flt_def)
    ultimately show ?thesis using t fin flt_irrefl by (auto simp: candidate_max_def fmax_def flt_finite split: option.splits)
  qed
qed

lemma ingest_ahead:
  assumes a: "aligner_inv a" "ahead a" and p: "ingest a raw = (r, a')"
  shows "ahead a'"
proof (cases "admitted a raw")
  case (Inl x)
  then show ?thesis using p a(2) by (simp add: ingest_parts)
next
  case (Inr q)
  obtain e n where q: "q = (e, n)" by (cases q)
  have n: "event_ok n" "ev_id n \<notin> al_seen a" using admitted_ok Inr q by blast+
  have g: "\<not> al_closed a" "card (al_seen a) < MAX_EVENTS" "retained_count a < rp_max_tracked (al_retention a)"
    using Inr by (auto simp: q admitted_def split: if_splits)
  show ?thesis
  proof (cases "is_late a n \<and> (ac_late (al_config a) = LDrop \<or> is_obsolete a n)")
    case True
    then have "a' = drop_late e n a" using p Inr by (simp add: q ingest_parts)
    then show ?thesis using a(2) by (simp add: ahead_def drop_late_def track_def)
  next
    case False
    then have acc: "accept_event a n = (r, a')" using p Inr unfolding ingest_parts q by (simp split: if_splits)
    note st = accept_event_ok [OF a(1) g(1) n g(2,3) acc]
    show ?thesis
    proof (cases r)
      case (Inl x)
      then obtain m where "a' = touch m a" using st by auto
      then show ?thesis using a(2) by (simp add: ahead_def touch_def live_events_def)
    next
      case (Inr ws)
      then have "set (live_events (al_index a')) \<subseteq> set (live_events (al_index a) @ [n])" using st by (auto simp: accepted_step_def)
      moreover have "al_max a' = candidate_max a n" using accept_max acc Inr by simp
      ultimately show ?thesis using candidate_ahead [OF a n(1)] unfolding ahead_def by auto
    qed
  qed
qed

lemma flush_ahead:
  assumes a: "aligner_inv a" "ahead a" and p: "flush a = (r, a')"
  shows "ahead a'"
proof (cases r)
  case (Inl x)
  then obtain m where "a' = touch m a" using flush_ok [OF a(1) p] by auto
  then show ?thesis using a(2) by (simp add: ahead_def touch_def live_events_def)
next
  case (Inr ws)
  then have "aligner_inv a'" "al_closed a'" using flush_ok [OF a(1) p] by (simp_all add: flushed_step_def)
  then show ?thesis by (simp add: ahead_def aligner_inv_def)
qed

lemma ahead_run: "aligner_inv a \<Longrightarrow> ahead a \<Longrightarrow> run_ops aligner_apply xs a = (rs, a') \<Longrightarrow> ahead a'"
proof (induction xs arbitrary: a rs)
  case (Cons x xs)
  obtain r a1 where s: "aligner_apply x a = (r, a1)" by (cases "aligner_apply x a")
  obtain rs1 where rs: "run_ops aligner_apply xs a1 = (rs1, a')" using Cons.prems(3) s by (auto simp: run_ops_Cons prod_eq_iff)
  have "ahead a1" using ingest_ahead [OF Cons.prems(1,2)] flush_ahead [OF Cons.prems(1,2)] s by (cases x) (simp_all add: aligner_apply_def)
  then show ?case using Cons.IH [of a1 rs1] rs apply_inv [OF Cons.prems(1) s] by simp
qed simp

section \<open>What can be checkpointed\<close>

definition reportable :: "aligner \<Rightarrow> bool" where
  "reportable a \<longleftrightarrow> (\<forall>xs\<in>{al_dropped a, al_late a, al_unassigned a}. distinct xs \<and> length xs \<le> MAX_EVENTS)
     \<and> length (al_max a) \<le> MAX_MAPPING_ENTRIES \<and> int (al_released a) \<le> safe_int"

lemma snapshot_of_ok:
  assumes a: "aligner_inv a" and w: "wire_ok (al_order a) a" and h: "ahead a" and r: "reportable a"
  shows "snapshot_ok (snapshot_of a)"
proof -
  have base: "aligner_base a" using a by (simp add: aligner_inv_def)
  then have rec: "records_ok a (al_order a)" and mx: "max_ok (al_max a)" and inv: "index_core (al_index a)" and c: "config_ok (al_config a)"
    and live: "\<forall>e\<in>set (live_events (al_index a)). recorded (al_order a) e"
    by (simp_all add: aligner_base_def index_inv_def)
  have ret: "rp_max_tracked (al_retention a) \<le> MAX_EVENTS" using retention_check_fixed w by (simp add: wire_ok_def)
  have order: "length (al_order a) \<le> MAX_EVENTS" using rec ret by (simp add: records_ok_def)
  have lab: "\<forall>t\<in>set (al_order a). is_label (tk_id t)" using w by (simp add: wire_ok_def tracked_ok_def)
  have sub: "al_assigned a \<subseteq> tk_id ` set (al_order a)" using rec unfolding records_ok_def by metis
  have "card (al_assigned a) \<le> card (tk_id ` set (al_order a))" by (rule card_mono [OF _ sub]) simp
  also have "\<dots> \<le> card (set (al_order a))" by (rule card_image_le) simp
  also have "\<dots> \<le> length (al_order a)" by (rule card_length)
  finally have "labels_ok (sorted_list_of_set (al_assigned a))"
    using order sub lab assigned_finite [OF rec] by (auto simp: labels_ok_def list_all_iff)
  moreover have "labels_ok (al_dropped a)" "labels_ok (al_late a)" "labels_ok (al_unassigned a)"
    using w r by (simp_all add: labels_ok_def wire_ok_def reportable_def)
  moreover have "is_hex64 (config_digest (al_config a))" by (simp add: config_digest_def ascii_digest_def sha256_hex_is_hex64)
  moreover have "al_next a \<le> MAX_OUTPUT_WINDOWS" using a c by (simp add: aligner_inv_def config_ok_def grid_ok_def)
  moreover have "numbers_ok (al_max a)" using mx w r by (auto simp: numbers_ok_def max_ok_def wire_ok_def reportable_def)
  moreover have "length (live_events (al_index a)) \<le> MAX_EVENTS" using inv length_live [of "al_index a"] by (simp add: index_core_def)
  moreover have "list_all event_ok (live_events (al_index a))" using live_ids(3) [OF inv] by (simp add: list_all_iff)
  moreover have "list_all (live_recorded (al_order a) (al_max a)) (live_events (al_index a))"
    using live h unfolding list_all_iff live_recorded_def ahead_def recorded_def list_ex_iff by blast
  moreover have "is_finite (al_start a)" "fvalid (al_start a)" using a by (simp_all add: aligner_inv_def start_at_def)
  ultimately show ?thesis
    using w r rec order a live_ids(2) [OF inv] assigned_finite [OF rec] sub
    by (simp add: snapshot_ok_def snapshot_of_def checkpoint_consistent_def wire_ok_def records_ok_def reportable_def list_all_iff aligner_inv_def)
qed

lemma started:
  assumes "make_aligner raw r = Inr a0"
  shows "wire_ok (al_order a0) a0" "ahead a0"
proof -
  obtain c ix p where "validated_retention c r = Inr p"
      and a: "a0 = \<lparr>al_config = c, al_index = ix, al_retention = p, al_seen = {}, al_order = [], al_assigned = {}, al_max = [],
            al_start = ac_origin c, al_next = 0, al_dropped = [], al_late = [], al_unassigned = [],
            al_released = 0, al_reported = 0, al_closed = False\<rparr>"
    using assms by (auto simp: make_aligner_def)
  then have p: "validated_retention c r = Inr p" by simp
  have "retention_check p = Inr p"
  proof (cases r)
    case None
    then have "p = default_retention" using p by (simp add: validated_retention_def)
    then show ?thesis
      by (simp add: default_retention_def retention_check_def retention_horizon_def positive_int_def MAX_EVENTS_def flt_def Let_def)
  next
    case (Some q)
    then have "retention_check q = Inr p" using p by (auto simp: validated_retention_def simp del: if_error_eq_Inr split: if_splits)
    then show ?thesis by (rule retention_check_again)
  qed
  then show "wire_ok (al_order a0) a0" by (simp add: a wire_ok_def)
  show "ahead a0" using make_aligner_inv(2) [OF assms] by (simp add: ahead_def)
qed

lemma reached:
  assumes "make_aligner raw r = Inr a0" "run_ops aligner_apply cs a0 = (rs, a)"
  shows "aligner_inv a" "wire_ok (al_order a) a" "ahead a" "al_config a = al_config a0"
  using wire_run [OF started(1) [OF assms(1)] assms(2)] ahead_run [OF _ started(2) [OF assms(1)] assms(2)]
    make_aligner_inv(1) [OF assms(1)] by simp_all

section \<open>A sample run\<close>

definition sample_run :: aligner where
  "sample_run = snd (run_ops aligner_apply [AIngest (sample_event 120 3)] sample_aligner)"

lemma sample_ready: "ready_after sample_aligner (sample_event 120 3) = (Inr [], sample_index)"
proof -
  have m: "candidate_max sample_aligner (sample_event 120 3) = [([97], ms 3)]"
    by (simp add: candidate_max_def sample_aligner_def sample_event_def fmax_def flt_def)
  have "fsub (ms 3) (Fin 0) = ms 3" using ms_units [of 3] by (simp add: fsub_def fadd_finite)
  then have w: "watermark_for (al_config sample_aligner) [([97], ms 3)] = Some (ms 3)"
    by (simp add: watermark_for_def sample_aligner_def sample_config_def grid_config_def)
  have "preview_ready sample_aligner (ms 3) (sample_event 120 3) = (Inr [], sample_index)"
    by (subst preview_ready_def) (simp add: Let_def sample_aligner_def sample_config_def grid_config_def sample_start ms_add ms_less preview_loop.simps)
  then show ?thesis by (simp add: ready_after_def m w)
qed

lemma ahead_horizon: "is_late sample_aligner (sample_event 120 3) = False" "\<not> fle (event_horizon (sample_event 120 3)) NegInf"
proof -
  have h: "event_horizon (sample_event 120 3) = nextafter_inf (ms 3)" by (simp add: event_horizon_def sample_event_def feq_finite)
  have lt: "flt (ms 0) (nextafter_inf (ms 3))" using flt_nextafter_iff [of "ms 3" "ms 0"] ms_valid [of 3] ms_valid [of 0] by (simp add: ms_less)
  then have "\<not> fle (nextafter_inf (ms 3)) (ms 0)" using flt_fle_trans flt_irrefl by blast
  then show "is_late sample_aligner (sample_event 120 3) = False"
    by (simp add: is_late_def is_obsolete_def h closed_horizon_def) (simp add: sample_aligner_def sample_event_def flt_def)
  have "\<not> flt (ms 0) NegInf" by (simp add: flt_def)
  then show "\<not> fle (event_horizon (sample_event 120 3)) NegInf" unfolding h
    using lt flt_fle_trans by blast
qed

lemma sample_admitted: "admitted sample_aligner (sample_event 120 3) = Inr (sample_event 120 3, sample_event 120 3)"
proof -
  have e: "event_ok (sample_event 120 3)" by (rule sample_event_ok) simp_all
  have z: "fadd (ms 3) (Fin 0) = ms 3" using ms_add [of 3 0] by (simp add: ms_def)
  have t: "ev_time (sample_event 120 3) = ms 3" by (simp add: sample_event_def)
  have fin: "is_finite (fadd (ms 3) (ev_duration (sample_event 120 3)))" using e by (simp add: event_ok_def event_end_def t)
  have "normalized_event sample_config (sample_event 120 3) = Inr (sample_event 120 3)"
    using shift_event_ok [OF e, of "Fin 0"] fin
    by (simp add: normalized_event_def stream_offset_def sample_config_def grid_config_def z t sample_event_def)
  then show ?thesis
    by (simp add: admitted_def snapshot_event_ok [OF e] ahead_horizon(1)) (simp add: sample_aligner_def retained_count_def default_retention_def MAX_EVENTS_def)
qed

lemma sample_run_lists: "al_dropped sample_run = [] \<and> al_late sample_run = [] \<and> al_unassigned sample_run = []
    \<and> length (al_max sample_run) = 1 \<and> al_released sample_run = 0"
proof -
  define e where "e = sample_event 120 3"
  have ok: "event_ok e" unfolding e_def by (rule sample_event_ok) simp_all
  have late: "is_late sample_aligner e = False" unfolding e_def by (rule ahead_horizon(1))
  have inv: "index_inv sample_index" by (rule make_index_inv(1) [OF sample_make_index])
  obtain ix where ix: "insert_validated sample_index e = Inr ix"
    by (simp add: insert_validated_def sample_index_def MAX_EVENTS_def Let_def)
  have i: "index_inv ix" using insert_validated_Inr [OF ix inv ok] by blast
  define b where "b = (mark_accepted False e (sample_aligner\<lparr>al_index := sample_index\<rparr>))\<lparr>al_index := ix, al_max := candidate_max sample_aligner e\<rparr>"
  have acc: "ingest sample_aligner e = commit_accepted [] b"
    using sample_admitted sample_ready late ix unfolding e_def [symmetric] by (simp add: ingest_parts accept_event_parts b_def)
  obtain jx where jx: "prune ix 0 = Inr jx" using prune_ok [OF i, of 0] by auto
  define d where "d = b\<lparr>al_assigned := al_assigned b, al_next := 0, al_start := grid_start (ac_origin (al_config b)) (ac_hop (al_config b)) 0, al_index := jx\<rparr>"
  have nx: "al_next b = 0" by (simp add: b_def mark_accepted_def track_def sample_aligner_def)
  have run: "sample_run = release d"
    using acc jx by (simp add: sample_run_def run_ops_Cons aligner_apply_def e_def [symmetric] commit_accepted_def commit_windows_def Let_def nx d_def)
      (simp add: b_def)
  have d: "al_dropped d = []" "al_late d = []" "al_unassigned d = []" "al_released d = 0" "al_retention d = default_retention"
      "al_order d = [\<lparr>tk_id = ev_id e, tk_horizon = event_horizon e, tk_status = TTracked\<rparr>]" "al_max d = [([97], ms 3)]"
    by (simp_all add: d_def b_def mark_accepted_def track_def sample_aligner_def candidate_max_def e_def sample_event_def fmax_def flt_def)
  have kept: "release_records NegInf (al_order d) d = d\<lparr>al_order := al_order d\<rparr>" using ahead_horizon(2) by (simp add: d(6) e_def)
  have "fsub wm PosInf = NegInf" if "watermark d = Some wm" for wm
  proof -
    have "wm = ms 3"
      using that ms_units [of 3] by (simp add: watermark_def watermark_for_def d(7) fsub_def fadd_finite)
        (simp add: d_def b_def mark_accepted_def track_def sample_aligner_def sample_config_def grid_config_def fsub_def fadd_finite)
    then show ?thesis by (simp add: fsub_def ms_def fadd_def)
  qed
  then have "release d = d" using kept by (simp add: release_def d(5) default_retention_def split: option.splits)
  then show ?thesis by (simp add: run d)
qed

lemma sample_reportable: "reportable sample_run"
  using sample_run_lists by (simp add: reportable_def MAX_EVENTS_def MAX_MAPPING_ENTRIES_def safe_int_def)

section \<open>Properties\<close>

text \<open>C34: a running aligner can be checkpointed exactly when no report lists an identity twice and the
  numbers of streams, reported identities and releases are within the limits; the checkpoint is
  then its state.\<close>
theorem aligner_checkpoint_exact:
  assumes "make_aligner raw r = Inr a0" "run_ops aligner_apply cs a0 = (rs, a)"
  shows "(if reportable a then aligner_checkpoint a = Inr (snapshot_of a) else \<not> succeeded (aligner_checkpoint a))"
proof (cases "reportable a")
  case True
  then show ?thesis
    using make_checkpoint_again [OF snapshot_of_ok [OF reached(1,2,3) [OF assms]]]
    by (simp add: aligner_checkpoint_def snapshot_of_def)
next
  case False
  have "reportable a" if "aligner_checkpoint a = Inr k" for k
    using aligner_checkpoint_eq [OF reached(1,2) [OF assms] that]
    by (auto simp: snapshot_ok_def reportable_def snapshot_of_def labels_ok_def numbers_ok_def checkpoint_consistent_def)
  then show ?thesis using False by (cases "aligner_checkpoint a") auto
qed

theorem aligner_checkpoint_exact_witness:
  "succeeded (aligner_checkpoint sample_run)"
  using aligner_checkpoint_exact [OF sample_make_aligner(2) prod.collapse [symmetric], of "[AIngest (sample_event 120 3)]"] sample_reportable
  by (simp add: sample_run_def [symmetric])

text \<open>C33: recovery is transparent: the aligner restored from the checkpoint of a running one, with the
  configuration it was made with, answers every later sequence of events and flushes with the same
  windows and errors, and reports the same watermark, late, dropped and unassigned identities.\<close>
theorem aligner_resumes:
  assumes "make_aligner raw r = Inr a0" "run_ops aligner_apply cs a0 = (rs, a)" "aligner_checkpoint a = Inr k"
  shows "\<exists>b. aligner_from_checkpoint raw k None = Inr b
    \<and> (\<forall>xs. fst (run_ops aligner_apply xs b) = fst (run_ops aligner_apply xs a)
          \<and> reports (snd (run_ops aligner_apply xs b)) = reports (snd (run_ops aligner_apply xs a)))"
proof -
  obtain b where b: "aligner_from_checkpoint raw k None = Inr b" "alike a b"
    using restored_alike [OF reached(1,2) [OF assms(1,2)] assms(3,1)] reached(4) [OF assms(1,2)] by auto
  have "fst (run_ops aligner_apply xs b) = fst (run_ops aligner_apply xs a)
      \<and> reports (snd (run_ops aligner_apply xs b)) = reports (snd (run_ops aligner_apply xs a))" for xs
    using alike_run [OF b(2), of xs] alike_reports by (metis prod.collapse fst_conv snd_conv)
  then show ?thesis using b(1) by blast
qed

theorem aligner_resumes_witness:
  "\<exists>b. aligner_from_checkpoint sample_config (snapshot_of sample_run) None = Inr b
    \<and> fst (run_ops aligner_apply [AIngest (sample_event 121 25), AFlush] b)
      = fst (run_ops aligner_apply [AIngest (sample_event 121 25), AFlush] sample_run)"
proof -
  have r: "run_ops aligner_apply [AIngest (sample_event 120 3)] sample_aligner
      = (fst (run_ops aligner_apply [AIngest (sample_event 120 3)] sample_aligner), sample_run)"
    by (simp add: sample_run_def)
  have "aligner_checkpoint sample_run = Inr (snapshot_of sample_run)"
    using make_checkpoint_again [OF snapshot_of_ok [OF reached(1,2,3) [OF sample_make_aligner(2) r] sample_reportable]]
    by (simp add: aligner_checkpoint_def snapshot_of_def)
  from aligner_resumes [OF sample_make_aligner(2) r this] show ?thesis by blast
qed

end
