(* ===== verification/Alignment.thy ===== *)
theory Alignment
  imports Aligner_History
begin

text \<open>
  Offline alignment: \<open>align_events\<close> sorts a finite collection by normalised time and replays it
  through the streaming aligner; \<open>detect_gaps\<close> reports the cadence gaps of each stream; \<open>Gap\<close> and
  \<open>AlignmentResult\<close> of \<open>models.py\<close> check what is published.
\<close>

section \<open>Bounded collections\<close>

definition bounded_events :: "event list \<Rightarrow> event list res" where
  "bounded_events es = (if MAX_EVENTS < length es then Inl ValidationError else Inr es)"

section \<open>Gaps\<close>

record gap =
  gp_stream :: pystr
  gp_start :: pyfloat
  gp_end :: pyfloat
  gp_observed :: pyfloat
  gp_expected :: pyfloat

text \<open>\<open>sum\<close> of floats, from the left (as Python 3.11 adds them).\<close>

definition float_sum :: "pyfloat list \<Rightarrow> pyfloat" where
  "float_sum xs = foldl fadd (Fin 0) xs"

definition one_billionth :: pyfloat where
  "one_billionth = Fin (int (dec_round 1 (- 9)))"

text \<open>\<open>math.isclose\<close> with no relative tolerance.\<close>

definition is_close :: "pyfloat \<Rightarrow> pyfloat \<Rightarrow> pyfloat \<Rightarrow> bool" where
  "is_close a b tolerance \<longleftrightarrow>
     feq a b \<or> (is_finite a \<and> is_finite b \<and> fle (fabs (fsub b a)) tolerance)"

definition gap_tolerance :: "pyfloat \<Rightarrow> pyfloat \<Rightarrow> pyfloat \<Rightarrow> pyfloat \<Rightarrow> pyfloat" where
  "gap_tolerance start stop expected implied =
     fmax one_billionth (float_sum (map f_ulp [start, stop, expected, implied]))"

definition make_gap :: "pystr \<Rightarrow> pyfloat \<Rightarrow> pyfloat \<Rightarrow> pyfloat \<Rightarrow> pyfloat \<Rightarrow> gap res" where
  "make_gap stream start stop observed expected =
     rbind (label (PStr stream)) (\<lambda>stream. rbind (any_finite (PFloat start)) (\<lambda>start. rbind (any_finite (PFloat stop)) (\<lambda>stop.
     rbind (finite_number True (PFloat observed)) (\<lambda>observed. rbind (finite_number True (PFloat expected)) (\<lambda>expected.
     if fle stop start then Inl ValidationError
     else if fle observed expected then Inl ValidationError
     else
       let implied = fadd (fsub stop start) expected
       in if \<not> is_finite implied then Inl ValidationError
          else if \<not> is_close observed implied (gap_tolerance start stop expected implied) then Inl ValidationError
          else Inr \<lparr>gp_stream = stream, gp_start = start, gp_end = stop, gp_observed = observed, gp_expected = expected\<rparr>)))))"

definition snapshot_gap :: "gap \<Rightarrow> gap res" where
  "snapshot_gap g = make_gap (gp_stream g) (gp_start g) (gp_end g) (gp_observed g) (gp_expected g)"

text \<open>The gaps between consecutive events of one stream, in time order.\<close>

fun stream_gaps :: "pystr \<Rightarrow> pyfloat \<Rightarrow> pyfloat \<Rightarrow> event list \<Rightarrow> gap list res" where
  "stream_gaps stream expected factor (previous # current # rest) =
     (let observed = fsub (ev_time current) (ev_time previous)
      in rbind (if flt (fmul expected factor) observed
                then rbind (make_gap stream (fadd (ev_time previous) expected) (ev_time current) observed expected) (\<lambda>g. Inr [g])
                else Inr []) (\<lambda>found.
         rbind (stream_gaps stream expected factor (current # rest)) (\<lambda>gs. Inr (found @ gs))))"
| "stream_gaps stream expected factor es = Inr []"

definition time_order :: "event list \<Rightarrow> event list" where
  "time_order es = sort_key (\<lambda>e. (fint (ev_time e), ev_id e)) es"

definition detect_gaps :: "event list \<Rightarrow> alignment_config \<Rightarrow> gap list res" where
  "detect_gaps events raw =
     rbind (alignment_config_check raw) (\<lambda>c.
     rbind (bounded_events events) (\<lambda>events.
     rbind (map_res snapshot_event events) (\<lambda>events.
       let grouped = filter (\<lambda>e. dget (ac_cadence c) (ev_stream e) \<noteq> None) events
       in rbind (map_res (\<lambda>s. stream_gaps s (the (dget (ac_cadence c) s)) (ac_gap_factor c)
                    (time_order (filter (\<lambda>e. ev_stream e = s) grouped)))
                  (sort (remdups (map ev_stream grouped)))) (\<lambda>gss. Inr (concat gss)))))"

section \<open>Results\<close>

record alignment_result =
  ar_windows :: "aligned_window list"
  ar_gaps :: "gap list"
  ar_dropped :: "pystr list"
  ar_late :: "pystr list"
  ar_unassigned :: "pystr list"

text \<open>Equality of frozen JSON data is Python's: numbers by value, objects whatever their order.\<close>

fun json_canon :: "json \<Rightarrow> json" where
  "json_canon (JBool b) = JInt (if b then fscale else 0)"
| "json_canon (JInt i) = JInt (i * fscale)"
| "json_canon (JFloat f) = (if is_finite f then JInt (fint f) else JFloat f)"
| "json_canon (JArr js) = JArr (map json_canon js)"
| "json_canon (JObj kvs) = JObj (sort_key fst (map (\<lambda>kv. (fst kv, json_canon (snd kv))) kvs))"
| "json_canon j = j"

definition same_event :: "event \<Rightarrow> event \<Rightarrow> bool" where
  "same_event e f \<longleftrightarrow> ev_id e = ev_id f \<and> ev_stream e = ev_stream f \<and> ev_modality e = ev_modality f
     \<and> feq (ev_time e) (ev_time f) \<and> feq (ev_duration e) (ev_duration f) \<and> json_canon (ev_data e) = json_canon (ev_data f)"

definition snapshot_window :: "aligned_window \<Rightarrow> aligned_window res" where
  "snapshot_window w = make_window (aw_index w) (aw_start w) (aw_end w) (aw_events w) (aw_missing w)"

definition see_event :: "event \<Rightarrow> (pystr, event) dict \<Rightarrow> (pystr, event) dict res" where
  "see_event e seen =
     (case dget seen (ev_id e) of
        None \<Rightarrow> if length seen = MAX_EVENTS then Inl ValidationError else Inr (dput (ev_id e) e seen)
      | Some e' \<Rightarrow> if \<not> same_event e' e then Inl ValidationError else Inr seen)"

definition admit_window :: "aligned_window \<Rightarrow> aligned_window list \<times> (pystr, event) dict \<Rightarrow> (aligned_window list \<times> (pystr, event) dict) res" where
  "admit_window raw acc =
     (case acc of (ws, seen) \<Rightarrow>
        rbind (snapshot_window raw) (\<lambda>w.
          if ws \<noteq> [] \<and> (aw_index w \<le> aw_index (last ws) \<or> fle (aw_start w) (aw_start (last ws))) then Inl ValidationError
          else rbind (fold_res see_event (aw_events w) seen) (\<lambda>seen. Inr (ws @ [w], seen))))"

fun increasing_windows :: "aligned_window list \<Rightarrow> bool" where
  "increasing_windows (w # v # ws) \<longleftrightarrow>
     \<not> (aw_index v \<le> aw_index w \<or> fle (aw_start v) (aw_start w)) \<and> increasing_windows (v # ws)"
| "increasing_windows ws \<longleftrightarrow> True"

definition make_result ::
  "aligned_window list \<Rightarrow> gap list \<Rightarrow> pystr list \<Rightarrow> pystr list \<Rightarrow> pystr list \<Rightarrow> alignment_result res" where
  "make_result raw_windows raw_gaps dropped late unassigned =
     (if MAX_OUTPUT_WINDOWS < length raw_windows then Inl ValidationError
      else if MAX_RESULT_GAPS < length raw_gaps then Inl ValidationError
      else
        rbind (fold_res admit_window raw_windows ([], [])) (\<lambda>(ws, seen).
        rbind (map_res snapshot_gap raw_gaps) (\<lambda>gs.
        if \<not> distinct (map aw_index ws) then Inl ValidationError
        else if \<not> increasing_windows ws then Inl ValidationError
        else
          rbind (label_tuple dropped MAX_EVENTS) (\<lambda>dropped.
          rbind (label_tuple late MAX_EVENTS) (\<lambda>late.
          rbind (label_tuple unassigned MAX_EVENTS) (\<lambda>unassigned.
          if set dropped \<inter> (set late \<union> set unassigned) \<noteq> {} \<or> set late \<inter> set unassigned \<noteq> {} then Inl ValidationError
          else if set (dkeys seen) \<inter> (set dropped \<union> set unassigned) \<noteq> {} then Inl ValidationError
          else if \<not> set late \<subseteq> set (dkeys seen) then Inl ValidationError
          else Inr \<lparr>ar_windows = ws, ar_gaps = gs, ar_dropped = dropped, ar_late = late, ar_unassigned = unassigned\<rparr>))))))"

section \<open>Offline alignment\<close>

text \<open>A float as a sort key: infinities at the ends, the zeros equal.\<close>

definition float_key :: "pyfloat \<Rightarrow> int \<times> int" where
  "float_key f = (frank f, fint f)"

definition replay_key :: "alignment_config \<Rightarrow> event \<Rightarrow> (((int \<times> int) \<times> pystr \<times> pystr) \<times> event) res" where
  "replay_key c e = rbind (stream_offset c e) (\<lambda>o'. Inr ((float_key (fadd (ev_time e) o'), ev_stream e, ev_id e), e))"

definition replay_order :: "alignment_config \<Rightarrow> event list \<Rightarrow> event list res" where
  "replay_order c es = rbind (map_res (replay_key c) es) (\<lambda>keyed. Inr (map snd (sort_key fst keyed)))"

text \<open>Operations run until one raises; the windows they emitted are collected.\<close>

fun replay :: "aligner_op list \<Rightarrow> aligner \<Rightarrow> (aligned_window list \<times> aligner) res" where
  "replay [] a = Inr ([], a)"
| "replay (x # xs) a =
     (case aligner_apply x a of
        (Inl e, a') \<Rightarrow> Inl e
      | (Inr ws, a') \<Rightarrow> rbind (replay xs a') (\<lambda>(vs, b). Inr (ws @ vs, b)))"

definition align_events :: "event list \<Rightarrow> alignment_config \<Rightarrow> alignment_result res" where
  "align_events events raw =
     rbind (bounded_events events) (\<lambda>events.
     rbind (map_res snapshot_event events) (\<lambda>es.
     rbind (make_aligner raw None) (\<lambda>a.
     rbind (replay_order (al_config a) es) (\<lambda>ordered.
     rbind (replay (map AIngest ordered @ [AFlush]) a) (\<lambda>(ws, b).
     rbind (map_res (normalized_event (al_config a)) es) (\<lambda>normalized.
     rbind (detect_gaps normalized (al_config a)) (\<lambda>gs.
       make_result ws gs (al_dropped b) (al_late b) (unassigned_ids b))))))))"

section \<open>The order of the input does not matter\<close>

text \<open>Two mapped lists that differ in order fail alike or agree as multisets, when all failures are alike.\<close>

definition map_alike :: "'b list res \<Rightarrow> 'b list res \<Rightarrow> bool" where
  "map_alike p q \<longleftrightarrow> p = Inl ValidationError \<and> q = Inl ValidationError
     \<or> (\<exists>us vs. p = Inr us \<and> q = Inr vs \<and> mset us = mset vs)"

lemma map_res_Inl:
  "(\<And>x e. x \<in> set xs \<Longrightarrow> f x = Inl e \<Longrightarrow> e = ValidationError) \<Longrightarrow>
     map_res f xs = (if \<exists>x\<in>set xs. \<exists>e. f x = Inl e then Inl ValidationError else Inr (map (\<lambda>x. case f x of Inr y \<Rightarrow> y) xs))"
proof (induction xs)
  case (Cons x xs)
  have IH: "map_res f xs = (if \<exists>x\<in>set xs. \<exists>e. f x = Inl e then Inl ValidationError else Inr (map (\<lambda>x. case f x of Inr y \<Rightarrow> y) xs))"
    by (rule Cons.IH) (use Cons.prems in auto)
  show ?case
  proof (cases "f x")
    case (Inl e)
    then show ?thesis using Cons.prems [of x e] by auto
  next
    case (Inr y)
    then show ?thesis using IH by auto
  qed
qed simp

lemma map_res_perm:
  assumes "mset xs = mset ys" "\<And>x e. x \<in> set xs \<Longrightarrow> f x = Inl e \<Longrightarrow> e = ValidationError"
  shows "map_alike (map_res f xs) (map_res f ys)"
proof -
  have s: "set xs = set ys" using assms(1) by (rule mset_eq_setD)
  have "map_res f xs = (if \<exists>x\<in>set xs. \<exists>e. f x = Inl e then Inl ValidationError else Inr (map (\<lambda>x. case f x of Inr y \<Rightarrow> y) xs))"
    by (rule map_res_Inl) (rule assms(2))
  moreover have "map_res f ys = (if \<exists>x\<in>set ys. \<exists>e. f x = Inl e then Inl ValidationError else Inr (map (\<lambda>x. case f x of Inr y \<Rightarrow> y) ys))"
    by (rule map_res_Inl) (use assms(2) s in auto)
  ultimately show ?thesis using assms(1) unfolding map_alike_def by (simp add: s)
qed

lemma any_finite_Inl: "any_finite v = Inl e \<Longrightarrow> e = ValidationError"
  by (auto simp: any_finite_def split: pyval.splits if_splits)

lemma rbind_Inl: "rbind m f = Inl e \<longleftrightarrow> m = Inl e \<or> (\<exists>x. m = Inr x \<and> f x = Inl e)"
  by (cases m) auto

lemma stream_offset_Inl: "stream_offset c e = Inl x \<Longrightarrow> x = ValidationError"
  by (auto simp: stream_offset_def offset_at_def snapshot_drift_def make_drift_def drift_rate_def rbind_Inl Let_def
      dest: any_finite_Inl split: option.splits if_splits)

lemma stream_offset_finite: "config_ok c \<Longrightarrow> stream_offset c e = Inr x \<Longrightarrow> is_finite x"
  by (auto simp: stream_offset_def offset_at_def config_ok_def Let_def dest!: map_of_SomeD bspec split: option.splits if_splits)

lemma normalized_event_Inl:
  assumes "config_ok c" "event_ok e" "normalized_event c e = Inl x"
  shows "x = ValidationError"
proof (cases "stream_offset c e")
  case (Inr y)
  then show ?thesis using assms(3) shift_event_ok [OF assms(2) stream_offset_finite [OF assms(1) Inr]]
    by (simp add: normalized_event_def split: if_splits)
qed (use assms(3) stream_offset_Inl in \<open>auto simp: normalized_event_def\<close>)

lemma replay_key_Inr: "replay_key c e = Inr ke \<Longrightarrow> snd ke = e \<and> snd (snd (fst ke)) = ev_id e"
  by (auto simp: replay_key_def)

lemma map_res_source: "map_res f xs = Inr us \<Longrightarrow> u \<in> set us \<Longrightarrow> \<exists>x\<in>set xs. f x = Inr u"
  by (induction xs arbitrary: us) auto

lemma replay_order_perm:
  assumes "mset xs = mset ys" "distinct (map ev_id xs)"
  shows "replay_order c xs = replay_order c ys"
proof -
  have "map_alike (map_res (replay_key c) xs) (map_res (replay_key c) ys)"
    by (rule map_res_perm [OF assms(1)]) (auto simp: replay_key_def rbind_Inl dest: stream_offset_Inl)
  then consider "map_res (replay_key c) xs = Inl ValidationError" "map_res (replay_key c) ys = Inl ValidationError"
    | us vs where "map_res (replay_key c) xs = Inr us" "map_res (replay_key c) ys = Inr vs" "mset us = mset vs"
    unfolding map_alike_def by blast
  then show ?thesis
  proof cases
    case 2
    have r: "\<exists>e\<in>set xs. replay_key c e = Inr u" if "u \<in> set us" for u
      using 2(1) that by (rule map_res_source)
    have "inj_on fst (set us)"
    proof (rule inj_onI)
      fix u v assume u: "u \<in> set us" "v \<in> set us" "fst u = fst v"
      obtain e f where "e \<in> set xs" "f \<in> set xs" "replay_key c e = Inr u" "replay_key c f = Inr v" using r u(1,2) by metis
      moreover from this have "e = f"
        using replay_key_Inr [of c e u] replay_key_Inr [of c f v] u(3) assms(2) by (simp add: distinct_map inj_on_def)
      ultimately show "u = v" by simp
    qed
    then have "sort_key fst us = sort_key fst vs"
      using 2(3) by (intro sort_key_inj_key_eq) (auto dest: mset_eq_setD)
    then show ?thesis using 2 by (simp add: replay_order_def)
  qed (simp add: replay_order_def)
qed

lemma time_order_perm:
  assumes "mset xs = mset ys" "distinct (map ev_id xs)"
  shows "time_order xs = time_order ys"
  unfolding time_order_def
proof (rule sort_key_inj_key_eq)
  show "mset xs = mset (sort_key (\<lambda>e. (fint (ev_time e), ev_id e)) ys)" using assms(1) by simp
  show "inj_on (\<lambda>e. (fint (ev_time e), ev_id e)) (set xs)" using assms(2) by (auto simp: inj_on_def distinct_map)
qed simp

lemma sort_remdups_perm: "set xs = set ys \<Longrightarrow> sort (remdups xs) = sort (remdups (ys :: 'a::linorder list))"
  using sorted_list_of_set_sort_remdups [of xs] sorted_list_of_set_sort_remdups [of ys] by simp

lemma snapshot_all: "\<forall>e\<in>set es. event_ok e \<Longrightarrow> map_res snapshot_event es = Inr es"
  by (induction es) (simp_all add: snapshot_event_ok)

lemma detect_gaps_perm:
  assumes "mset xs = mset ys" "distinct (map ev_id xs)" "\<forall>e\<in>set xs. event_ok e"
  shows "detect_gaps xs c = detect_gaps ys c"
proof -
  have len: "length xs = length ys" using assms(1) by (rule mset_eq_length)
  have s: "set xs = set ys" using assms(1) by (rule mset_eq_setD)
  have snap: "map_res snapshot_event xs = Inr xs" "map_res snapshot_event ys = Inr ys"
    using assms(3) s by (simp_all add: snapshot_all)
  have g: "time_order (filter P (filter Q xs)) = time_order (filter P (filter Q ys))" for P Q
    by (rule time_order_perm) (use assms in \<open>simp_all add: distinct_map_filter\<close>)
  have k: "sort (remdups (map ev_stream (filter Q xs))) = sort (remdups (map ev_stream (filter Q ys)))" for Q
    by (rule sort_remdups_perm) (simp add: s)
  show ?thesis unfolding detect_gaps_def bounded_events_def len
    by (cases "alignment_config_check c"; simp add: snap Let_def del: filter_filter) (simp only: g k simp_thms)
qed

lemma normalized_ids:
  assumes "map_res (normalized_event c) es = Inr ns" "\<forall>e\<in>set es. event_ok e"
  shows "map ev_id ns = map ev_id es" "\<forall>e\<in>set ns. event_ok e"
proof -
  have "list_all2 (\<lambda>e n. normalized_event c e = Inr n) es ns" using assms(1) by (simp add: map_res_eq_Inr)
  then have "map ev_id ns = map ev_id es \<and> (\<forall>e\<in>set ns. event_ok e)" using assms(2)
    by (induction rule: list_all2_induct) (auto simp: normalized_event_id dest: normalized_event_Inr)
  then show "map ev_id ns = map ev_id es" "\<forall>e\<in>set ns. event_ok e" by simp_all
qed

lemma align_events_perm:
  assumes "mset xs = mset ys" "distinct (map ev_id xs)" "\<forall>e\<in>set xs. event_ok e"
  shows "align_events xs c = align_events ys c"
proof -
  have len: "length xs = length ys" using assms(1) by (rule mset_eq_length)
  have s: "set xs = set ys" using assms(1) by (rule mset_eq_setD)
  have snap: "map_res snapshot_event xs = Inr xs" "map_res snapshot_event ys = Inr ys"
    using assms(3) s by (simp_all add: snapshot_all)
  show ?thesis
  proof (cases "make_aligner c None")
    case (Inr a)
    have cfg: "config_ok (al_config a)" using make_aligner_inv(1) [OF Inr] by (simp add: aligner_inv_def aligner_base_def)
    have ro: "replay_order (al_config a) xs = replay_order (al_config a) ys" by (rule replay_order_perm [OF assms(1,2)])
    have "map_alike (map_res (normalized_event (al_config a)) xs) (map_res (normalized_event (al_config a)) ys)"
      by (rule map_res_perm [OF assms(1)]) (use normalized_event_Inl [OF cfg] assms(3) in blast)
    then have tail: "rbind (map_res (normalized_event (al_config a)) xs) (\<lambda>ns. rbind (detect_gaps ns (al_config a)) F)
        = rbind (map_res (normalized_event (al_config a)) ys) (\<lambda>ns. rbind (detect_gaps ns (al_config a)) F)" for F :: "gap list \<Rightarrow> alignment_result res"
    proof (unfold map_alike_def, elim disjE exE conjE)
      fix us vs assume u: "map_res (normalized_event (al_config a)) xs = Inr us" "map_res (normalized_event (al_config a)) ys = Inr vs" "mset us = mset vs"
      then have "detect_gaps us (al_config a) = detect_gaps vs (al_config a)"
        using normalized_ids [OF u(1) assms(3)] assms(2) by (intro detect_gaps_perm) simp_all
      then show ?thesis using u(1,2) by simp
    qed simp
    show ?thesis
      unfolding align_events_def bounded_events_def len using Inr by (simp add: snap ro tail del: rbind_eq_Inr)
  qed (simp add: align_events_def bounded_events_def len snap)
qed

end
