(* ===== verification/Published_Records.thy ===== *)
theory Published_Records
  imports Alignment
begin

text \<open>
  Published records are fixed points of their validation: every \<open>to_dict\<close> of \<open>models.py\<close> first
  rebuilds its record through the constructor (\<open>_snapshot_gap\<close>, \<open>_snapshot_window\<close>, \<open>_snapshot_result\<close>),
  and on a record that a constructor made this gives the record itself.
\<close>

lemma snapshot_event_made: "snapshot_event e = Inr f \<Longrightarrow> event_ok f"
  unfolding snapshot_event_def by (rule make_event_ok)

lemma map_res_length: "map_res f xs = Inr ys \<Longrightarrow> length ys = length xs"
  by (auto simp: map_res_eq_Inr dest: list_all2_lengthD)

lemma snapshot_events_ok: "map_res snapshot_event es = Inr fs \<Longrightarrow> \<forall>f\<in>set fs. event_ok f"
  by (induction es arbitrary: fs) (auto dest: snapshot_event_made)

lemma snapshot_events_again: "\<forall>f\<in>set fs. event_ok f \<Longrightarrow> map_res snapshot_event fs = Inr fs"
  by (induction fs) (simp_all add: snapshot_event_ok)

lemma label_tuple_again: "label_tuple xs m = Inr ys \<Longrightarrow> label_tuple ys m = Inr ys"
  using label_tuple_Inr label_tuple_ok by metis

lemma make_window_again: "make_window i s t es missing = Inr w \<Longrightarrow> snapshot_window w = Inr w"
proof -
  assume w: "make_window i s t es missing = Inr w"
  then obtain s' t' es' m' where p: "any_finite (PFloat s) = Inr s'" "any_finite (PFloat t) = Inr t'"
      "map_res snapshot_event es = Inr es'" "label_tuple missing MAX_STREAMS = Inr m'"
      and w': "w = \<lparr>aw_index = i, aw_start = s', aw_end = t', aw_events = es', aw_missing = m'\<rparr>"
      and ok: "\<not> fle t' s'" "length es \<le> MAX_EVENTS_PER_WINDOW" "distinct (map ev_id es')"
        "list_all (\<lambda>e. overlaps_bounds e s' t') es'" "\<not> list_ex (\<lambda>e. ev_stream e \<in> set m') es'"
    by (auto simp: make_window_def split: if_splits)
  have "any_finite (PFloat s') = Inr s'" "any_finite (PFloat t') = Inr t'"
    using any_finite_Inr [OF p(1)] any_finite_Inr [OF p(2)] by (simp_all add: any_finite_PFloat)
  moreover have "length es' \<le> MAX_EVENTS_PER_WINDOW" using map_res_length [OF p(3)] ok(2) by simp
  ultimately show ?thesis
    using snapshot_events_again [OF snapshot_events_ok [OF p(3)]] label_tuple_again [OF p(4)] ok
    by (simp add: snapshot_window_def make_window_def w')
qed

lemma finite_number_again: "finite_number True v = Inr x \<Longrightarrow> finite_number True (PFloat x) = Inr x"
  using finite_number_Inr [of True v x] by (simp add: finite_number_def any_finite_PFloat fle_finite)

lemma any_finite_again: "any_finite v = Inr x \<Longrightarrow> any_finite (PFloat x) = Inr x"
  using any_finite_Inr [of v x] by (simp add: any_finite_PFloat)

lemma label_again: "label v = Inr s \<Longrightarrow> label (PStr s) = Inr s"
  by (rule label_is_label) (rule label_Inr)

lemma make_gap_again: "make_gap stream start stop observed expected = Inr g \<Longrightarrow> snapshot_gap g = Inr g"
  by (auto simp: make_gap_def snapshot_gap_def Let_def label_again any_finite_again finite_number_again split: if_splits)

lemma snapshot_gap_again: "snapshot_gap g = Inr h \<Longrightarrow> snapshot_gap h = Inr h"
  unfolding snapshot_gap_def [of g] by (rule make_gap_again)

lemma snapshot_gaps_again: "map_res snapshot_gap gs = Inr hs \<Longrightarrow> map_res snapshot_gap hs = Inr hs"
  by (induction gs arbitrary: hs) (auto dest: snapshot_gap_again)

lemma snapshot_gaps_fixed: "map_res snapshot_gap gs = Inr hs \<Longrightarrow> \<forall>h\<in>set hs. snapshot_gap h = Inr h"
  by (induction gs arbitrary: hs) (auto dest: snapshot_gap_again)

lemma admit_windows_again:
  "fold_res admit_window raws (ws, seen) = Inr (vs, seen') \<Longrightarrow>
     \<exists>us. vs = ws @ us \<and> length us = length raws \<and> fold_res admit_window us (ws, seen) = Inr (vs, seen')"
proof (induction raws arbitrary: ws seen)
  case (Cons raw raws)
  then obtain acc where acc: "admit_window raw (ws, seen) = Inr acc" "fold_res admit_window raws acc = Inr (vs, seen')" by auto
  obtain w seen1 where w: "admit_window raw (ws, seen) = Inr (ws @ [w], seen1)" "snapshot_window raw = Inr w"
      and rest: "fold_res admit_window raws (ws @ [w], seen1) = Inr (vs, seen')"
  proof -
    obtain w seen1 where w: "snapshot_window raw = Inr w" "acc = (ws @ [w], seen1)"
      using acc(1) by (auto simp: admit_window_def split: if_splits)
    show ?thesis using that [OF _ w(1)] acc unfolding w(2) by blast
  qed
  have "snapshot_window w = Inr w" using w(2) make_window_again unfolding snapshot_window_def [of raw] by blast
  then have "admit_window w (ws, seen) = Inr (ws @ [w], seen1)" using w by (simp add: admit_window_def)
  moreover obtain us where "vs = (ws @ [w]) @ us" "length us = length raws" "fold_res admit_window us (ws @ [w], seen1) = Inr (vs, seen')"
    using Cons.IH [OF rest] by blast
  ultimately show ?case by (intro exI [of _ "w # us"]) simp
qed simp

definition snapshot_result :: "alignment_result \<Rightarrow> alignment_result res" where
  "snapshot_result r = make_result (ar_windows r) (ar_gaps r) (ar_dropped r) (ar_late r) (ar_unassigned r)"

lemma make_result_again:
  assumes "make_result raw_windows raw_gaps dropped late unassigned = Inr r"
  shows "snapshot_result r = Inr r"
proof -
  obtain ws seen gs d l u where p: "fold_res admit_window raw_windows ([], []) = Inr (ws, seen)" "map_res snapshot_gap raw_gaps = Inr gs"
      "label_tuple dropped MAX_EVENTS = Inr d" "label_tuple late MAX_EVENTS = Inr l" "label_tuple unassigned MAX_EVENTS = Inr u"
      and r: "r = \<lparr>ar_windows = ws, ar_gaps = gs, ar_dropped = d, ar_late = l, ar_unassigned = u\<rparr>"
      and ok: "length raw_windows \<le> MAX_OUTPUT_WINDOWS" "length raw_gaps \<le> MAX_RESULT_GAPS"
        "distinct (map aw_index ws)" "increasing_windows ws"
        "set d \<inter> (set l \<union> set u) = {} \<and> set l \<inter> set u = {}" "set (dkeys seen) \<inter> (set d \<union> set u) = {}" "set l \<subseteq> set (dkeys seen)"
    using assms by (auto simp: make_result_def split: if_splits)
  obtain us where us: "ws = [] @ us" "length us = length raw_windows" "fold_res admit_window us ([], []) = Inr (ws, seen)"
    using admit_windows_again [OF p(1)] by blast
  have "length gs = length raw_gaps" using map_res_length [OF p(2)] .
  then show ?thesis
    unfolding snapshot_result_def make_result_def
    using us snapshot_gaps_again [OF p(2)] label_tuple_again [OF p(3)] label_tuple_again [OF p(4)] label_tuple_again [OF p(5)] ok
    by (simp add: r)
qed

lemma make_result_parts:
  assumes "make_result raw_windows raw_gaps dropped late unassigned = Inr r"
  shows "(\<forall>w\<in>set (ar_windows r). snapshot_window w = Inr w) \<and> (\<forall>g\<in>set (ar_gaps r). snapshot_gap g = Inr g)"
proof -
  obtain seen where p: "fold_res admit_window raw_windows ([], []) = Inr (ar_windows r, seen)" "map_res snapshot_gap raw_gaps = Inr (ar_gaps r)"
    using assms by (auto simp: make_result_def split: if_splits)
  have "\<forall>w\<in>set vs - set ws. snapshot_window w = Inr w" if "fold_res admit_window raws (ws, seen) = Inr (vs, seen')" for raws ws vs seen seen'
    using that
  proof (induction raws arbitrary: ws seen)
    case (Cons raw raws)
    then obtain acc where acc: "admit_window raw (ws, seen) = Inr acc" "fold_res admit_window raws acc = Inr (vs, seen')" by auto
    then obtain w seen1 where w: "snapshot_window raw = Inr w" "acc = (ws @ [w], seen1)"
      by (auto simp: admit_window_def split: if_splits)
    have "snapshot_window w = Inr w" using w(1) make_window_again unfolding snapshot_window_def [of raw] by blast
    then show ?case using Cons.IH [of "ws @ [w]" seen1] acc(2) w(2) by auto
  qed simp
  from this [OF p(1)] show ?thesis using snapshot_gaps_fixed [OF p(2)] by simp
qed

end
