(* ===== verification/Sessions.thy ===== *)
theory Sessions
  imports Alignment
begin

text \<open>
  \<open>sessions.py\<close>: event-time sessions per stream. The laws: the sessions of a stream cut its time
  order into consecutive runs, a run goes on as long as the next event starts within the gap of
  the running end, and a new one starts exactly when it does not.
\<close>

section \<open>The operation\<close>

record session_window =
  sw_index :: nat
  sw_stream :: pystr
  sw_start :: pyfloat
  sw_end :: pyfloat
  sw_ids :: "pystr list"

record session_result =
  sr_gap :: pyfloat
  sr_count :: nat
  sr_streams :: "pystr list"
  sr_windows :: "session_window list"

text \<open>The loop of one stream, from the open session on.\<close>

fun session_loop :: "pyfloat \<Rightarrow> pystr \<Rightarrow> pyfloat \<Rightarrow> pyfloat \<Rightarrow> pystr list \<Rightarrow> event list \<Rightarrow> nat \<Rightarrow> session_window list" where
  "session_loop gap stream start stop ids [] i =
     [\<lparr>sw_index = i, sw_stream = stream, sw_start = start, sw_end = stop, sw_ids = ids\<rparr>]"
| "session_loop gap stream start stop ids (e # es) i =
     (if flt gap (fsub (ev_time e) stop)
      then \<lparr>sw_index = i, sw_stream = stream, sw_start = start, sw_end = stop, sw_ids = ids\<rparr>
           # session_loop gap stream (ev_time e) (event_horizon e) [ev_id e] es (i + 1)
      else session_loop gap stream start (fmax stop (event_horizon e)) (ids @ [ev_id e]) es i)"

definition stream_sessions :: "pyfloat \<Rightarrow> pystr \<Rightarrow> event list \<Rightarrow> nat \<Rightarrow> session_window list" where
  "stream_sessions gap stream ordered i =
     (case ordered of [] \<Rightarrow> [] | e # es \<Rightarrow> session_loop gap stream (ev_time e) (event_horizon e) [ev_id e] es i)"

fun all_sessions :: "pyfloat \<Rightarrow> event list \<Rightarrow> pystr list \<Rightarrow> nat \<Rightarrow> session_window list" where
  "all_sessions gap events [] i = []"
| "all_sessions gap events (s # ss) i =
     (let ws = stream_sessions gap s (time_order (filter (\<lambda>e. ev_stream e = s) events)) i
      in ws @ all_sessions gap events ss (i + length ws))"

definition sessionize :: "event list \<Rightarrow> pyfloat \<Rightarrow> session_result res" where
  "sessionize events gap =
     (if \<not> is_finite gap \<or> flt gap (Fin 0) then Inl ValidationError
      else if \<not> distinct (map ev_id events) then Inl ValidationError
      else let streams = sort (remdups (map ev_stream events))
           in Inr \<lparr>sr_gap = gap, sr_count = length events, sr_streams = streams, sr_windows = all_sessions gap events streams 0\<rparr>)"

section \<open>What a session is\<close>

text \<open>The exclusive end of a run of events.\<close>

definition run_end :: "event list \<Rightarrow> pyfloat" where
  "run_end es = (case map event_horizon es of [] \<Rightarrow> NaN | h # hs \<Rightarrow> foldl fmax h hs)"

text \<open>Every event but the first starts within the gap of what precedes it.\<close>

definition linked :: "pyfloat \<Rightarrow> event list \<Rightarrow> bool" where
  "linked gap es \<longleftrightarrow> (\<forall>k. 0 < k \<and> k < length es \<longrightarrow> \<not> flt gap (fsub (ev_time (es ! k)) (run_end (take k es))))"

fun separated :: "pyfloat \<Rightarrow> event list list \<Rightarrow> bool" where
  "separated gap (r # q # rs) \<longleftrightarrow> flt gap (fsub (ev_time (hd q)) (run_end r)) \<and> separated gap (q # rs)"
| "separated gap rs \<longleftrightarrow> True"

definition session_of :: "pystr \<Rightarrow> nat \<Rightarrow> event list \<Rightarrow> session_window" where
  "session_of stream i r = \<lparr>sw_index = i, sw_stream = stream, sw_start = ev_time (hd r), sw_end = run_end r, sw_ids = map ev_id r\<rparr>"

definition is_sessions :: "pyfloat \<Rightarrow> event list \<Rightarrow> event list list \<Rightarrow> bool" where
  "is_sessions gap ordered runs \<longleftrightarrow>
     concat runs = ordered \<and> (\<forall>r\<in>set runs. r \<noteq> [] \<and> linked gap r) \<and> separated gap runs"

lemma run_end_snoc: "r \<noteq> [] \<Longrightarrow> run_end (r @ [e]) = fmax (run_end r) (event_horizon e)"
  by (cases r) (simp_all add: run_end_def)

lemma linked_snoc:
  "r \<noteq> [] \<Longrightarrow> linked gap r \<Longrightarrow> \<not> flt gap (fsub (ev_time e) (run_end r)) \<Longrightarrow> linked gap (r @ [e])"
  by (auto simp: linked_def nth_append less_Suc_eq)

lemma linked_single: "linked gap [e]"
  by (simp add: linked_def)

lemma separated_Cons: "separated gap (r # rs) \<longleftrightarrow> (rs = [] \<or> flt gap (fsub (ev_time (hd (hd rs))) (run_end r)) \<and> separated gap rs)"
  by (cases rs) simp_all

lemma session_loop_runs:
  assumes "r \<noteq> []" "linked gap r"
  shows "\<exists>runs. is_sessions gap (r @ es) runs \<and> hd (hd runs) = hd r \<and> runs \<noteq> []
    \<and> session_loop gap stream (ev_time (hd r)) (run_end r) (map ev_id r) es i = map (\<lambda>(k, q). session_of stream (i + k) q) (enumerate 0 runs)"
  using assms
proof (induction es arbitrary: r i)
  case Nil
  then have "is_sessions gap (r @ []) [r]" by (simp add: is_sessions_def)
  then show ?case by (intro exI [of _ "[r]"]) (simp add: session_of_def)
next
  case (Cons e es)
  show ?case
  proof (cases "flt gap (fsub (ev_time e) (run_end r))")
    case True
    have "run_end [e] = event_horizon e" by (simp add: run_end_def)
    then obtain runs where runs: "is_sessions gap ([e] @ es) runs" "hd (hd runs) = e" "runs \<noteq> []"
        "session_loop gap stream (ev_time e) (event_horizon e) [ev_id e] es (i + 1) = map (\<lambda>(k, q). session_of stream (i + 1 + k) q) (enumerate 0 runs)"
      using Cons.IH [of "[e]" "i + 1"] linked_single by auto
    have "is_sessions gap (r @ e # es) (r # runs)"
      using runs(1-3) Cons.prems True by (auto simp: is_sessions_def separated_Cons)
    moreover have "map (\<lambda>(k, q). session_of stream (i + 1 + k) q) (enumerate 0 runs) = map (\<lambda>(k, q). session_of stream (i + k) q) (enumerate (Suc 0) runs)"
      by (rule nth_equalityI) (simp_all add: nth_enumerate_eq)
    ultimately show ?thesis using runs(4) True
      by (intro exI [of _ "r # runs"]) (simp add: session_of_def)
  next
    case False
    then obtain runs where runs: "is_sessions gap ((r @ [e]) @ es) runs" "hd (hd runs) = hd (r @ [e])" "runs \<noteq> []"
        "session_loop gap stream (ev_time (hd (r @ [e]))) (run_end (r @ [e])) (map ev_id (r @ [e])) es i = map (\<lambda>(k, q). session_of stream (i + k) q) (enumerate 0 runs)"
      using Cons.IH [of "r @ [e]" i] linked_snoc [OF Cons.prems False] by auto
    then show ?thesis using False Cons.prems(1) by (intro exI [of _ runs]) (simp add: run_end_snoc)
  qed
qed

lemma stream_sessions_runs:
  "\<exists>runs. is_sessions gap ordered runs
    \<and> stream_sessions gap stream ordered i = map (\<lambda>(k, q). session_of stream (i + k) q) (enumerate 0 runs)"
proof (cases ordered)
  case Nil
  then show ?thesis by (intro exI [of _ "[]"]) (simp add: stream_sessions_def is_sessions_def)
next
  case (Cons e es)
  have "run_end [e] = event_horizon e" by (simp add: run_end_def)
  then show ?thesis using session_loop_runs [of "[e]" gap es stream i] linked_single Cons by (auto simp: stream_sessions_def)
qed

text \<open>The runs are determined: there is one way to cut a list into sessions.\<close>

lemma linked_append_cut:
  assumes "linked gap (r @ e # q)" "r \<noteq> []"
  shows "\<not> flt gap (fsub (ev_time e) (run_end r))"
  using assms unfolding linked_def by (elim allE [of _ "length r"]) simp

lemma is_sessions_unique:
  "is_sessions gap ordered runs \<Longrightarrow> is_sessions gap ordered runs' \<Longrightarrow> runs = runs'"
proof (induction runs arbitrary: ordered runs')
  case Nil
  then show ?case by (cases runs') (auto simp: is_sessions_def)
next
  case (Cons r rs)
  have r: "r \<noteq> []" "linked gap r" "ordered = r @ concat rs" using Cons.prems(1) by (simp_all add: is_sessions_def)
  then obtain q qs where q: "runs' = q # qs" using Cons.prems(2) by (cases runs') (auto simp: is_sessions_def)
  then have q': "q \<noteq> []" "linked gap q" "r @ concat rs = q @ concat qs" using Cons.prems(2) r(3) by (simp_all add: is_sessions_def)
  have cut: "\<exists>e t. concat ss = e # t \<and> flt gap (fsub (ev_time e) (run_end p))"
    if cs: "is_sessions gap xs (p # ss)" "concat ss \<noteq> []" for xs p ss
  proof -
    obtain s ss' where ss: "ss = s # ss'" using cs(2) by (cases ss) auto
    then have s: "ss = s # ss'" "s \<noteq> []" using cs(1) by (auto simp: is_sessions_def)
    show ?thesis using cs(1) s by (cases s) (auto simp: is_sessions_def)
  qed
  obtain us where us: "r = q @ us \<and> us @ concat rs = concat qs \<or> r @ us = q \<and> concat rs = us @ concat qs"
    using q'(3) unfolding append_eq_append_conv2 by blast
  have "us = []"
  proof (rule ccontr)
    assume ne: "us \<noteq> []"
    from us show False
    proof
      assume a: "r = q @ us \<and> us @ concat rs = concat qs"
      then have "concat qs \<noteq> []" using ne by (metis append_is_Nil_conv)
      then obtain e t where "concat qs = e # t" "flt gap (fsub (ev_time e) (run_end q))"
        using cut [of ordered q qs] Cons.prems(2) q by blast
      then show False using a r(2) q'(1) ne linked_append_cut [of gap q e "tl us"] by (cases us) auto
    next
      assume a: "r @ us = q \<and> concat rs = us @ concat qs"
      then have "concat rs \<noteq> []" using ne by simp
      then obtain e t where "concat rs = e # t" "flt gap (fsub (ev_time e) (run_end r))"
        using cut [of ordered r rs] Cons.prems(1) by blast
      then show False using a q'(2) r(1) ne linked_append_cut [of gap r e "tl us"] by (cases us) auto
    qed
  qed
  then have "r = q" "concat rs = concat qs" using us by auto
  moreover have "is_sessions gap (concat rs) rs" "is_sessions gap (concat qs) qs"
    using Cons.prems q by (auto simp: is_sessions_def separated_Cons)
  ultimately show ?case using Cons.IH [of "concat rs" qs] q by simp
qed

text \<open>All streams.\<close>

lemma stream_sessions_fields:
  assumes "w \<in> set (stream_sessions gap s ordered i)"
  shows "sw_stream w = s"
proof -
  obtain runs where "stream_sessions gap s ordered i = map (\<lambda>(k, q). session_of s (i + k) q) (enumerate 0 runs)"
    using stream_sessions_runs by blast
  then show ?thesis using assms by (auto simp: session_of_def)
qed

lemma all_sessions_stream:
  assumes "distinct ss"
  shows "\<exists>i. filter (\<lambda>w. sw_stream w = s) (all_sessions gap events ss n)
    = (if s \<in> set ss then stream_sessions gap s (time_order (filter (\<lambda>e. ev_stream e = s) events)) i else [])"
  using assms
proof (induction ss arbitrary: n)
  case (Cons t ss)
  define ws where "ws = stream_sessions gap t (time_order (filter (\<lambda>e. ev_stream e = t) events)) n"
  have t: "sw_stream w = t" if "w \<in> set ws" for w using stream_sessions_fields that by (simp add: ws_def)
  have f: "filter (\<lambda>w. sw_stream w = s) ws = (if s = t then ws else [])"
    using t by (auto simp: filter_id_conv filter_empty_conv)
  obtain i where i: "filter (\<lambda>w. sw_stream w = s) (all_sessions gap events ss (n + length ws))
      = (if s \<in> set ss then stream_sessions gap s (time_order (filter (\<lambda>e. ev_stream e = s) events)) i else [])"
    using Cons by auto
  have e: "all_sessions gap events (t # ss) n = ws @ all_sessions gap events ss (n + length ws)" by (simp add: ws_def Let_def)
  show ?case
  proof (cases "s = t")
    case True
    then show ?thesis using f i Cons.prems unfolding e by (intro exI [of _ n]) (simp add: ws_def)
  next
    case False
    then show ?thesis using f i unfolding e by (intro exI [of _ i]) simp
  qed
qed simp

lemma all_sessions_index: "map sw_index (all_sessions gap events ss n) = [n..<n + length (all_sessions gap events ss n)]"
proof (induction ss arbitrary: n)
  case (Cons s ss)
  define ws where "ws = stream_sessions gap s (time_order (filter (\<lambda>e. ev_stream e = s) events)) n"
  obtain runs where "ws = map (\<lambda>(k, q). session_of s (n + k) q) (enumerate 0 runs)"
    unfolding ws_def using stream_sessions_runs by blast
  then have "map sw_index ws = [n..<n + length ws]"
    by (intro nth_equalityI) (simp_all add: nth_enumerate_eq session_of_def)
  then show ?case
    using Cons [of "n + length ws"] upt_add_eq_append [of n "n + length ws" "length (all_sessions gap events ss (n + length ws))"]
    by (simp add: Let_def ws_def [symmetric] add.assoc)
qed simp

lemma sessionize_perm:
  assumes "mset xs = mset ys"
  shows "sessionize xs gap = sessionize ys gap"
proof (cases "distinct (map ev_id xs)")
  case True
  have s: "set xs = set ys" using assms by (rule mset_eq_setD)
  have "mset (map ev_id xs) = mset (map ev_id ys)" using assms by simp
  then have d: "distinct (map ev_id ys)" using True mset_eq_imp_distinct_iff by blast
  have "all_sessions gap xs ss n = all_sessions gap ys ss n" for ss n
  proof (induction ss arbitrary: n)
    case (Cons t ss)
    have "time_order (filter (\<lambda>e. ev_stream e = t) xs) = time_order (filter (\<lambda>e. ev_stream e = t) ys)"
      by (rule time_order_perm) (use assms True in \<open>simp_all add: distinct_map_filter\<close>)
    then show ?case using Cons by (simp add: Let_def)
  qed simp
  moreover have "sort (remdups (map ev_stream xs)) = sort (remdups (map ev_stream ys))" by (rule sort_remdups_perm) (simp add: s)
  ultimately show ?thesis using True d mset_eq_length [OF assms] by (simp add: sessionize_def Let_def)
next
  case False
  have "mset (map ev_id xs) = mset (map ev_id ys)" using assms by simp
  then have "\<not> distinct (map ev_id ys)" using False mset_eq_imp_distinct_iff by blast
  then show ?thesis using False by (simp add: sessionize_def)
qed

end
