(* ===== verification/Partition.thy ===== *)
theory Partition
  imports Alignment Py_Hash
begin

text \<open>
  \<open>partition.py\<close>: events by the SHA-256 of their identity. The laws: every event is in exactly the
  partition of its identity, in time order, whatever the order of the input.
\<close>

definition partition_index :: "nat \<Rightarrow> pystr \<Rightarrow> nat" where
  "partition_index n i = be_value (take 8 (sha256 (utf8 i))) mod n"

record partitioned_events =
  pe_count :: nat
  pe_partitions :: "event list list"

definition partition_for :: "partitioned_events \<Rightarrow> pystr \<Rightarrow> nat res" where
  "partition_for p i = (if i = [] then Inl ValidationError else Inr (partition_index (pe_count p) i))"

definition partition_order :: "event list \<Rightarrow> event list" where
  "partition_order es = sort_key event_key es"

definition partition_events :: "event list \<Rightarrow> int \<Rightarrow> partitioned_events res" where
  "partition_events events n =
     (if \<not> (1 \<le> n \<and> n \<le> 1024) then Inl ValidationError
      else if \<not> distinct (map ev_id events) then Inl ValidationError
      else Inr \<lparr>pe_count = nat n,
                pe_partitions = map (\<lambda>k. partition_order (filter (\<lambda>e. partition_index (nat n) (ev_id e) = k) events)) [0..<nat n]\<rparr>)"

lemma partition_events_Inr:
  assumes "partition_events events n = Inr p"
  shows "length (pe_partitions p) = pe_count p"
    "\<forall>k<pe_count p. set (pe_partitions p ! k) = {e \<in> set events. partition_index (pe_count p) (ev_id e) = k}"
    "mset (concat (pe_partitions p)) = mset events"
proof -
  have n: "1 \<le> n" and p: "p = \<lparr>pe_count = nat n,
      pe_partitions = map (\<lambda>k. partition_order (filter (\<lambda>e. partition_index (nat n) (ev_id e) = k) events)) [0..<nat n]\<rparr>"
    using assms by (auto simp: partition_events_def split: if_splits)
  show "length (pe_partitions p) = pe_count p" by (simp add: p)
  show "\<forall>k<pe_count p. set (pe_partitions p ! k) = {e \<in> set events. partition_index (pe_count p) (ev_id e) = k}"
    by (auto simp: p partition_order_def)
  have bound: "partition_index (nat n) i < nat n" for i using n by (simp add: partition_index_def)
  have "mset (concat (map (\<lambda>k. partition_order (filter (\<lambda>e. f e = k) es)) [0..<m])) = mset (filter (\<lambda>e. f e < m) es)" for f m and es :: "event list"
  proof (induction m)
    case (Suc m)
    have "mset (filter (\<lambda>e. f e < Suc m) es) = mset (filter (\<lambda>e. f e < m) es) + mset (filter (\<lambda>e. f e = m) es)"
      by (induction es) (auto simp: less_Suc_eq)
    then show ?case using Suc by (simp add: partition_order_def)
  qed simp
  then show "mset (concat (pe_partitions p)) = mset events" using bound by (simp add: p)
qed

lemma partition_events_perm:
  assumes "mset xs = mset ys"
  shows "partition_events xs n = partition_events ys n"
proof -
  have "mset (map ev_id xs) = mset (map ev_id ys)" using assms by simp
  then have d: "distinct (map ev_id xs) = distinct (map ev_id ys)" using mset_eq_imp_distinct_iff by blast
  have "partition_order (filter P xs) = partition_order (filter P ys)" if "distinct (map ev_id xs)" for P
    unfolding partition_order_def by (rule sort_events_eq) (use assms that in \<open>simp_all add: distinct_map_filter\<close>)
  then show ?thesis using d by (simp add: partition_events_def)
qed

end
