(* ===== verification/Stream_Joins.thy ===== *)
theory Stream_Joins
  imports Published_Records
begin

text \<open>
  \<open>joins.py\<close>: pairs of events of two streams of an alignment result whose starts are within a
  tolerance. The law: exactly the pairs within the tolerance, each once, nearest first.
\<close>

definition join_name :: "pystr \<Rightarrow> pystr res" where
  "join_name s = (if strip s = [] then Inl ValidationError else Inr (strip s))"

definition join_tolerance :: "pyfloat \<Rightarrow> pyfloat res" where
  "join_tolerance v = (if \<not> is_finite v \<or> flt v (Fin 0) then Inl ValidationError else Inr v)"

record joined_pair =
  jp_left :: pystr
  jp_right :: pystr
  jp_delta :: pyfloat
  jp_windows :: "nat list"

definition make_pair :: "pystr \<Rightarrow> pystr \<Rightarrow> pyfloat \<Rightarrow> nat list \<Rightarrow> joined_pair res" where
  "make_pair l r delta ws =
     rbind (join_name l) (\<lambda>l. rbind (join_name r) (\<lambda>r.
     if l = r then Inl ValidationError
     else rbind (join_tolerance delta) (\<lambda>delta.
       if \<not> distinct ws then Inl ValidationError
       else Inr \<lparr>jp_left = l, jp_right = r, jp_delta = delta, jp_windows = sort ws\<rparr>)))"

record stream_join =
  sj_left :: pystr
  sj_right :: pystr
  sj_max_delta :: "pyfloat option"
  sj_left_count :: nat
  sj_right_count :: nat
  sj_comparisons :: nat
  sj_pairs :: "joined_pair list"

definition pair_key :: "joined_pair \<Rightarrow> int \<times> pystr \<times> pystr" where
  "pair_key p = (fint (jp_delta p), jp_left p, jp_right p)"

definition make_join ::
  "pystr \<Rightarrow> pystr \<Rightarrow> pyfloat option \<Rightarrow> nat \<Rightarrow> nat \<Rightarrow> nat \<Rightarrow> joined_pair list \<Rightarrow> stream_join res" where
  "make_join l r tolerance m n comparisons ps =
     rbind (join_name l) (\<lambda>l. rbind (join_name r) (\<lambda>r.
     if l = r then Inl ValidationError
     else rbind (case tolerance of None \<Rightarrow> Inr None | Some v \<Rightarrow> rbind (join_tolerance v) (\<lambda>v. Inr (Some v))) (\<lambda>tolerance.
       if MAX_JOIN_COMPARISONS < comparisons then Inl ValidationError
       else if MAX_RESULT_GAPS < length ps then Inl ValidationError
       else if \<not> distinct (map (\<lambda>p. (jp_left p, jp_right p)) ps) then Inl ValidationError
       else Inr \<lparr>sj_left = l, sj_right = r, sj_max_delta = tolerance, sj_left_count = m, sj_right_count = n,
                 sj_comparisons = comparisons, sj_pairs = sort_key pair_key ps\<rparr>)))"

text \<open>The events of a stream, by identity, the last snapshot kept; the windows that hold an event.\<close>

definition stream_events :: "alignment_result \<Rightarrow> pystr \<Rightarrow> event list" where
  "stream_events res s =
     time_order (map snd (fold (\<lambda>w d. fold (\<lambda>e d. if ev_stream e = s then dput (ev_id e) e d else d) (aw_events w) d)
       (ar_windows res) []))"

definition event_windows :: "alignment_result \<Rightarrow> pystr \<Rightarrow> pystr \<Rightarrow> pystr \<Rightarrow> nat list" where
  "event_windows res l r i =
     map aw_index (filter (\<lambda>w. list_ex (\<lambda>e. ev_id e = i \<and> (ev_stream e = l \<or> ev_stream e = r)) (aw_events w)) (ar_windows res))"

definition shared_windows :: "alignment_result \<Rightarrow> pystr \<Rightarrow> pystr \<Rightarrow> pystr \<Rightarrow> pystr \<Rightarrow> nat list" where
  "shared_windows res l r i j =
     sort (remdups (filter (\<lambda>k. k \<in> set (event_windows res l r j)) (event_windows res l r i)))"

definition pair_delta :: "event \<Rightarrow> event \<Rightarrow> pyfloat" where
  "pair_delta e f = fabs (fsub (ev_time e) (ev_time f))"

definition within_tolerance :: "pyfloat option \<Rightarrow> event \<times> event \<Rightarrow> bool" where
  "within_tolerance tolerance p =
     (case tolerance of None \<Rightarrow> True | Some t \<Rightarrow> \<not> flt t (pair_delta (fst p) (snd p)))"

definition join_streams :: "alignment_result \<Rightarrow> pystr \<Rightarrow> pystr \<Rightarrow> pyfloat option \<Rightarrow> stream_join res" where
  "join_streams res left right max_delta =
     rbind (join_name left) (\<lambda>l. rbind (join_name right) (\<lambda>r.
     if l = r then Inl ValidationError
     else rbind (case max_delta of None \<Rightarrow> Inr None | Some v \<Rightarrow> rbind (join_tolerance v) (\<lambda>v. Inr (Some v))) (\<lambda>tolerance.
       let les = stream_events res l; res' = stream_events res r; comparisons = length les * length res'
       in if MAX_JOIN_COMPARISONS < comparisons then Inl ValidationError
          else rbind (map_res (\<lambda>(e, f). make_pair (ev_id e) (ev_id f) (pair_delta e f) (shared_windows res l r (ev_id e) (ev_id f)))
                 (filter (within_tolerance tolerance) (List.product les res'))) (\<lambda>ps.
               make_join l r tolerance (length les) (length res') comparisons ps))))"

lemma join_name_Inr: "join_name s = Inr t \<Longrightarrow> join_name t = Inr t"
  by (auto simp: join_name_def split: if_splits)

lemma join_tolerance_Inr: "join_tolerance v = Inr w \<Longrightarrow> w = v"
  by (simp add: join_tolerance_def split: if_splits)

lemma join_name_label: "is_label s \<Longrightarrow> join_name s = Inr s"
  by (auto simp: is_label_def join_name_def)

lemma make_pair_labels:
  assumes "make_pair l r d ws = Inr p" "is_label l" "is_label r"
  shows "jp_left p = l \<and> jp_right p = r \<and> jp_delta p = d \<and> jp_windows p = sort ws"
  using assms by (auto simp: make_pair_def join_name_label dest: join_tolerance_Inr split: if_splits)

section \<open>What a validated result holds\<close>

text \<open>Two snapshots of one event in a validated result agree on their stream and their start.\<close>

definition coherent :: "event set \<Rightarrow> bool" where
  "coherent es \<longleftrightarrow> (\<forall>e\<in>es. event_ok e)
     \<and> (\<forall>e\<in>es. \<forall>f\<in>es. ev_id e = ev_id f \<longrightarrow> ev_stream e = ev_stream f \<and> fint (ev_time e) = fint (ev_time f))"

definition all_events :: "aligned_window list \<Rightarrow> event set" where
  "all_events ws = (\<Union>w\<in>set ws. set (aw_events w))"

text \<open>What the constructor has seen: for every event the first snapshot with its identity.\<close>

definition seen_ok :: "event set \<Rightarrow> (pystr, event) dict \<Rightarrow> bool" where
  "seen_ok es seen \<longleftrightarrow> (\<forall>e\<in>es. event_ok e \<and> (\<exists>e'. dget seen (ev_id e) = Some e' \<and> ev_stream e' = ev_stream e \<and> fint (ev_time e') = fint (ev_time e)))"

lemma seen_coherent: "seen_ok es seen \<Longrightarrow> coherent es"
  unfolding seen_ok_def coherent_def by (metis option.inject)

lemma see_event_ok:
  assumes "see_event e seen = Inr seen'" "seen_ok es seen" "event_ok e"
    and fin: "\<forall>k e'. dget seen k = Some e' \<longrightarrow> event_ok e'"
  shows "seen_ok (insert e es) seen' \<and> (\<forall>k e'. dget seen' k = Some e' \<longrightarrow> event_ok e')"
proof (cases "dget seen (ev_id e)")
  case None
  then have s: "seen' = dput (ev_id e) e seen" using assms(1) by (simp add: see_event_def split: if_splits)
  have "ev_id x \<noteq> ev_id e" if "x \<in> es" for x using assms(2) that None by (auto simp: seen_ok_def)
  with assms(2-4) show ?thesis by (auto simp: s seen_ok_def)
next
  case (Some e')
  then have s: "seen' = seen" "same_event e' e" using assms(1) by (simp_all add: see_event_def split: if_splits)
  moreover have "event_ok e'" using fin Some by blast
  ultimately show ?thesis
    using assms(2-4) Some by (auto simp: seen_ok_def same_event_def event_ok_def feq_finite)
qed

lemma see_events_ok:
  assumes "fold_res see_event xs seen = Inr seen'" "seen_ok es seen" "\<forall>e\<in>set xs. event_ok e" "\<forall>k e'. dget seen k = Some e' \<longrightarrow> event_ok e'"
  shows "seen_ok (es \<union> set xs) seen' \<and> (\<forall>k e'. dget seen' k = Some e' \<longrightarrow> event_ok e')"
  using assms
proof (induction xs arbitrary: seen es)
  case (Cons x xs)
  then obtain s1 where s1: "see_event x seen = Inr s1" "fold_res see_event xs s1 = Inr seen'" by auto
  from see_event_ok [OF s1(1) Cons.prems(2) _ Cons.prems(4)] Cons.prems(3) Cons.IH [OF s1(2), of "insert x es"] show ?case by simp
qed simp

lemma admit_windows_ok:
  assumes "fold_res admit_window raws (ws, seen) = Inr (vs, seen')" "seen_ok (all_events ws) seen" "\<forall>k e'. dget seen k = Some e' \<longrightarrow> event_ok e'"
  shows "coherent (all_events vs)"
  using assms
proof (induction raws arbitrary: ws seen)
  case (Cons raw raws)
  then obtain acc where acc: "admit_window raw (ws, seen) = Inr acc" "fold_res admit_window raws acc = Inr (vs, seen')" by auto
  then obtain w s1 where w: "snapshot_window raw = Inr w" "acc = (ws @ [w], s1)" "fold_res see_event (aw_events w) seen = Inr s1"
    by (auto simp: admit_window_def split: if_splits)
  have "\<forall>e\<in>set (aw_events w). event_ok e"
    using w(1) snapshot_events_ok by (auto simp: snapshot_window_def make_window_def split: if_splits)
  moreover have "all_events (ws @ [w]) = all_events ws \<union> set (aw_events w)" by (auto simp: all_events_def)
  ultimately show ?case
    using see_events_ok [OF w(3) Cons.prems(2) _ Cons.prems(3)] Cons.IH [of "ws @ [w]" s1] acc(2) w(2) by simp
qed (auto dest: seen_coherent)

lemma make_result_coherent:
  assumes "make_result windows gaps dropped late unassigned = Inr r"
  shows "coherent (all_events (ar_windows r))"
proof -
  obtain seen where "fold_res admit_window windows ([], []) = Inr (ar_windows r, seen)"
    using assms by (auto simp: make_result_def split: if_splits)
  then show ?thesis by (rule admit_windows_ok) (simp_all add: seen_ok_def all_events_def)
qed

section \<open>The events and windows of a join\<close>

lemma keys_of_dput: "fst ` set (dput k v d) = insert k (fst ` set d)"
  using arg_cong [OF dkeys_dput, of set k v d] by auto

text \<open>The last snapshot of every event of a stream is kept, under its identity.\<close>

lemma stream_events_exact:
  "(\<forall>e\<in>set (stream_events res s). e \<in> all_events (ar_windows res) \<and> ev_stream e = s)
   \<and> ev_id ` set (stream_events res s) = ev_id ` {e \<in> all_events (ar_windows res). ev_stream e = s}
   \<and> distinct (map ev_id (stream_events res s))"
proof -
  define step where "step = (\<lambda>(e :: event) d. if ev_stream e = s then dput (ev_id e) e d else d)"
  define good where "good = (\<lambda>es (d :: (pystr, event) dict). dict_ok d \<and> (\<forall>(k, e)\<in>set d. k = ev_id e \<and> e \<in> es \<and> ev_stream e = s)
      \<and> (\<forall>e\<in>es. ev_stream e = s \<longrightarrow> ev_id e \<in> set (dkeys d)))"
  have inner: "good (es \<union> set xs) (fold step xs d)" if "good es d" for es xs d
    using that
  proof (induction xs arbitrary: es d)
    case (Cons x xs)
    have d: "dict_ok d" and keys: "\<forall>e\<in>es. ev_stream e = s \<longrightarrow> ev_id e \<in> set (dkeys d)" using Cons.prems by (simp_all add: good_def)
    have "\<forall>e\<in>insert x es. ev_stream e = s \<longrightarrow> ev_id e \<in> set (dkeys (step x d))"
      using keys by (auto simp: step_def keys_of_dput)
    then have "good (insert x es) (step x d)"
      using Cons.prems d by (auto simp: good_def step_def set_dput)
    then have "good (insert x es \<union> set xs) (fold step xs (step x d))" by (rule Cons.IH)
    then show ?case by simp
  qed simp
  have outer: "good (es \<union> all_events ws) (fold (\<lambda>w d. fold step (aw_events w) d) ws d)" if "good es d" for es ws d
    using that
  proof (induction ws arbitrary: es d)
    case (Cons w ws)
    have "good ((es \<union> set (aw_events w)) \<union> all_events ws) (fold (\<lambda>w d. fold step (aw_events w) d) ws (fold step (aw_events w) d))"
      by (rule Cons.IH) (rule inner [OF Cons.prems])
    moreover have "(es \<union> set (aw_events w)) \<union> all_events ws = es \<union> all_events (w # ws)" by (auto simp: all_events_def)
    ultimately show ?case by simp
  qed (simp add: all_events_def)
  define d where "d = fold (\<lambda>w d. fold step (aw_events w) d) (ar_windows res) []"
  have g: "good (all_events (ar_windows res)) d"
    using outer [of "{}" "[]" "ar_windows res"] by (simp add: d_def good_def)
  have se: "stream_events res s = time_order (map snd d)" by (simp add: stream_events_def d_def step_def)
  have ids: "map ev_id (map snd d) = dkeys d" using g by (auto simp: good_def)
  have "mset (map ev_id (stream_events res s)) = mset (map ev_id (map snd d))" by (simp add: se time_order_def multiset.map_comp)
  then have "distinct (map ev_id (stream_events res s))"
    using g unfolding ids by (metis good_def dict_ok_def mset_eq_imp_distinct_iff)
  moreover have "\<forall>e\<in>set (stream_events res s). e \<in> all_events (ar_windows res) \<and> ev_stream e = s"
    using g by (auto simp: se time_order_def good_def)
  moreover have "ev_id e \<in> ev_id ` set (stream_events res s)" if "e \<in> all_events (ar_windows res)" "ev_stream e = s" for e
  proof -
    have "ev_id e \<in> set (map ev_id (map snd d))" using g that unfolding ids by (auto simp: good_def)
    then show ?thesis by (auto simp: se time_order_def)
  qed
  ultimately show ?thesis by blast
qed

lemma map_res_pairs:
  assumes "map_res f xs = Inr ys" "\<And>x y. x \<in> set xs \<Longrightarrow> f x = Inr y \<Longrightarrow> h y = g x"
  shows "map h ys = map g xs"
  using assms by (induction xs arbitrary: ys) auto

text \<open>The distance of two starts depends on their values only, and is a number.\<close>

lemma fsub_fabs_value:
  assumes "is_finite a" "is_finite b" "is_finite a'" "is_finite b'" "fint a = fint a'" "fint b = fint b'"
  shows "fabs (fsub a b) = fabs (fsub a' b')"
proof -
  have z: "fabs (fsub x y) = fabs (of_units (fint x - fint y))" if "is_finite x" "is_finite y" for x y
  proof -
    have n: "is_finite (fneg y)" "fint (fneg y) = - fint y" using that(2) by (cases y; simp)+
    have "fabs NegZero = fabs (of_units 0)" by (simp add: of_units_def of_rounded_def fbound_pos)
    moreover have "fint x = 0 \<and> fint y = 0" if "x = NegZero" "fneg y = NegZero" using that n(2) by simp
    ultimately show ?thesis using that(1) n by (auto simp: fsub_def fadd_finite)
  qed
  show ?thesis using assms by (simp add: z)
qed

lemma fsub_fabs_number:
  assumes "is_finite a" "is_finite b"
  shows "fabs (fsub a b) \<noteq> NaN"
proof -
  have "is_finite (fneg b)" using assms(2) by (cases b) simp_all
  then have "fsub a b \<noteq> NaN" using assms(1) by (simp add: fsub_def fadd_finite of_units_def)
  then show ?thesis by (cases "fsub a b") simp_all
qed

lemma shared_windows_exact:
  assumes c: "coherent (all_events (ar_windows res))" and d: "distinct (map aw_index (ar_windows res))"
    and e: "e \<in> all_events (ar_windows res)" "ev_stream e = l" and f: "f \<in> all_events (ar_windows res)" "ev_stream f = r"
  shows "set (shared_windows res l r (ev_id e) (ev_id f))
    = {aw_index w | w. w \<in> set (ar_windows res) \<and> ev_id e \<in> ev_id ` set (aw_events w) \<and> ev_id f \<in> ev_id ` set (aw_events w)}"
    (is "_ = ?W")
proof -
  have at: "list_ex (\<lambda>x. ev_id x = ev_id y \<and> (ev_stream x = l \<or> ev_stream x = r)) (aw_events w) \<longleftrightarrow> ev_id y \<in> ev_id ` set (aw_events w)"
    if "w \<in> set (ar_windows res)" "y \<in> {e, f}" for w y
  proof -
    have "ev_stream x = ev_stream y" if "x \<in> set (aw_events w)" "ev_id x = ev_id y" for x
    proof -
      have "x \<in> all_events (ar_windows res)" using that(1) \<open>w \<in> set (ar_windows res)\<close> by (auto simp: all_events_def)
      then show ?thesis using c e(1) f(1) \<open>y \<in> {e, f}\<close> that(2) unfolding coherent_def by blast
    qed
    then show ?thesis using that(2) e(2) f(2) by (auto simp: list_ex_iff image_iff) metis+
  qed
  have windows: "set (event_windows res l r (ev_id y)) = aw_index ` {w \<in> set (ar_windows res). ev_id y \<in> ev_id ` set (aw_events w)}"
    if "y \<in> {e, f}" for y
    using at that by (auto simp: event_windows_def)
  have inj: "inj_on aw_index (set (ar_windows res))" using d by (simp add: distinct_map)
  have "set (shared_windows res l r (ev_id e) (ev_id f)) = set (event_windows res l r (ev_id e)) \<inter> set (event_windows res l r (ev_id f))"
    by (auto simp: shared_windows_def)
  also have "\<dots> = ?W"
    using inj unfolding windows [of e, simplified] windows [of f, simplified] by (auto dest: inj_onD)
  finally show ?thesis .
qed

lemma join_parts:
  assumes "join_streams res left right max_delta = Inr j"
  obtains t ps where "join_name left = Inr (strip left)" "join_name right = Inr (strip right)"
    "\<forall>v. max_delta = Some v \<longrightarrow> is_finite v"
    "map_res (\<lambda>(e, f). make_pair (ev_id e) (ev_id f) (pair_delta e f) (shared_windows res (strip left) (strip right) (ev_id e) (ev_id f)))
       (filter (within_tolerance max_delta) (List.product (stream_events res (strip left)) (stream_events res (strip right)))) = Inr ps"
    "sj_pairs j = sort_key pair_key ps" "distinct (map (\<lambda>p. (jp_left p, jp_right p)) ps)"
    "sj_left_count j = length (stream_events res (strip left))" "sj_right_count j = length (stream_events res (strip right))"
proof -
  obtain l r t ps where l: "join_name left = Inr l" "join_name right = Inr r"
      and t: "(case max_delta of None \<Rightarrow> Inr None | Some v \<Rightarrow> rbind (join_tolerance v) (\<lambda>v. Inr (Some v))) = Inr t"
      and ps: "map_res (\<lambda>(e, f). make_pair (ev_id e) (ev_id f) (pair_delta e f) (shared_windows res l r (ev_id e) (ev_id f)))
                 (filter (within_tolerance t) (List.product (stream_events res l) (stream_events res r))) = Inr ps"
      and mk: "make_join l r t (length (stream_events res l)) (length (stream_events res r))
                 (length (stream_events res l) * length (stream_events res r)) ps = Inr j"
    using assms by (auto simp: join_streams_def Let_def split: if_splits)
  have lr: "l = strip left" "r = strip right" using l by (auto simp: join_name_def split: if_splits)
  have td: "t = max_delta" "\<forall>v. max_delta = Some v \<longrightarrow> is_finite v" using t by (auto simp: join_tolerance_def split: option.splits if_splits)
  have "sj_pairs j = sort_key pair_key ps" "distinct (map (\<lambda>p. (jp_left p, jp_right p)) ps)"
      "sj_left_count j = length (stream_events res l)" "sj_right_count j = length (stream_events res r)"
    using mk by (auto simp: make_join_def split: if_splits)
  with l ps td show ?thesis by (intro that) (simp_all add: lr)
qed

lemma make_pair_windows: "make_pair l r d ws = Inr p \<Longrightarrow> sorted (jp_windows p) \<and> distinct (jp_windows p) \<and> set (jp_windows p) = set ws"
  by (auto simp: make_pair_def split: if_splits)

lemma joined_pairs_exact:
  assumes j: "join_streams res left right max_delta = Inr j"
    and c: "coherent (all_events (ar_windows res))" and d: "distinct (map aw_index (ar_windows res))"
  shows "(\<lambda>p. (jp_left p, jp_right p, jp_delta p, set (jp_windows p))) ` set (sj_pairs j)
    = {(ev_id e, ev_id f, fabs (fsub (ev_time e) (ev_time f)),
        {aw_index w | w. w \<in> set (ar_windows res) \<and> ev_id e \<in> ev_id ` set (aw_events w) \<and> ev_id f \<in> ev_id ` set (aw_events w)}) | e f.
       e \<in> all_events (ar_windows res) \<and> f \<in> all_events (ar_windows res) \<and> ev_stream e = strip left \<and> ev_stream f = strip right
       \<and> (case max_delta of None \<Rightarrow> True | Some t \<Rightarrow> fle (fabs (fsub (ev_time e) (ev_time f))) t)}"
proof -
  define E where "E = all_events (ar_windows res)"
  define inside where "inside = (\<lambda>(e :: event) (f :: event). case max_delta of None \<Rightarrow> True | Some t \<Rightarrow> fle (fabs (fsub (ev_time e) (ev_time f))) t)"
  define tuple where "tuple = (\<lambda>(e :: event) (f :: event). (ev_id e, ev_id f, fabs (fsub (ev_time e) (ev_time f)),
        {aw_index w | w. w \<in> set (ar_windows res) \<and> ev_id e \<in> ev_id ` set (aw_events w) \<and> ev_id f \<in> ev_id ` set (aw_events w)}))"
  define L where "L = stream_events res (strip left)"
  define R where "R = stream_events res (strip right)"
  obtain ps where ps: "map_res (\<lambda>(e, f). make_pair (ev_id e) (ev_id f) (pair_delta e f) (shared_windows res (strip left) (strip right) (ev_id e) (ev_id f)))
       (filter (within_tolerance max_delta) (List.product L R)) = Inr ps" and sj: "sj_pairs j = sort_key pair_key ps"
    and tol: "\<forall>v. max_delta = Some v \<longrightarrow> is_finite v"
    using join_parts [OF j] unfolding L_def R_def by metis
  have last: "\<forall>e\<in>set L. e \<in> E \<and> ev_stream e = strip left" "\<forall>f\<in>set R. f \<in> E \<and> ev_stream f = strip right"
    using stream_events_exact unfolding L_def R_def E_def by blast+
  have ok: "event_ok e" if "e \<in> E" for e using c that by (simp add: coherent_def E_def)
  have inside: "within_tolerance max_delta (e, f) \<longleftrightarrow> inside e f" if "e \<in> E" "f \<in> E" for e f
    using fsub_fabs_number ok [OF that(1)] ok [OF that(2)] tol finite_cases not_flt_iff
    by (auto simp: within_tolerance_def inside_def pair_delta_def event_ok_def split: option.split)
  have "map (\<lambda>p. (jp_left p, jp_right p, jp_delta p, set (jp_windows p))) ps
      = map (\<lambda>(e, f). tuple e f) (filter (within_tolerance max_delta) (List.product L R))"
  proof (rule map_res_pairs [OF ps], clarify)
    fix e f p
    assume ef: "(e, f) \<in> set (filter (within_tolerance max_delta) (List.product L R))"
      and p: "make_pair (ev_id e) (ev_id f) (pair_delta e f) (shared_windows res (strip left) (strip right) (ev_id e) (ev_id f)) = Inr p"
    have in_E: "e \<in> E" "ev_stream e = strip left" "f \<in> E" "ev_stream f = strip right" using ef last by auto
    have "is_label (ev_id e)" "is_label (ev_id f)" using ok in_E by (simp_all add: event_ok_def)
    with make_pair_labels [OF p] make_pair_windows [OF p]
      shared_windows_exact [OF c d in_E(1) [unfolded E_def] in_E(2) in_E(3) [unfolded E_def] in_E(4)]
    show "(jp_left p, jp_right p, jp_delta p, set (jp_windows p)) = tuple e f" by (simp add: tuple_def pair_delta_def)
  qed
  then have "(\<lambda>p. (jp_left p, jp_right p, jp_delta p, set (jp_windows p))) ` set (sj_pairs j)
      = (\<lambda>(e, f). tuple e f) ` set (filter (within_tolerance max_delta) (List.product L R))"
    unfolding sj set_sort set_map [symmetric] by simp
  also have "\<dots> = {tuple e f | e f. e \<in> set L \<and> f \<in> set R \<and> inside e f}"
    using inside last by (auto simp: image_iff) blast+
  also have "\<dots> = {tuple e f | e f. e \<in> E \<and> f \<in> E \<and> ev_stream e = strip left \<and> ev_stream f = strip right \<and> inside e f}"
  proof (intro subset_antisym subsetI)
    fix x assume "x \<in> {tuple e f | e f. e \<in> E \<and> f \<in> E \<and> ev_stream e = strip left \<and> ev_stream f = strip right \<and> inside e f}"
    then obtain e f where x: "x = tuple e f" "inside e f" and ef: "e \<in> E" "f \<in> E" "ev_stream e = strip left" "ev_stream f = strip right" by blast
    have "ev_id e \<in> ev_id ` set L" "ev_id f \<in> ev_id ` set R"
      using stream_events_exact [of res] ef unfolding L_def R_def E_def by blast+
    then obtain e' f' where e': "e' \<in> set L" "ev_id e' = ev_id e" and f': "f' \<in> set R" "ev_id f' = ev_id f" by force
    have E': "e' \<in> E" "f' \<in> E" using last e' f' by auto
    have t: "fint (ev_time e') = fint (ev_time e)" "fint (ev_time f') = fint (ev_time f)"
      using c E' ef e' f' unfolding coherent_def E_def [symmetric] by blast+
    have "is_finite (ev_time y)" if "y \<in> E" for y using ok [OF that] by (simp add: event_ok_def)
    then have "fabs (fsub (ev_time e') (ev_time f')) = fabs (fsub (ev_time e) (ev_time f))"
      using E' ef t by (intro fsub_fabs_value) auto
    then have "tuple e' f' = x" "inside e' f' = inside e f" using e' f' x(1) by (simp_all add: tuple_def inside_def cong del: option.case_cong)
    then show "x \<in> {tuple e f | e f. e \<in> set L \<and> f \<in> set R \<and> inside e f}" using e'(1) f'(1) x(2) by blast
  next
    fix x assume "x \<in> {tuple e f | e f. e \<in> set L \<and> f \<in> set R \<and> inside e f}"
    then show "x \<in> {tuple e f | e f. e \<in> E \<and> f \<in> E \<and> ev_stream e = strip left \<and> ev_stream f = strip right \<and> inside e f}"
      using last by blast
  qed
  finally show ?thesis unfolding tuple_def inside_def E_def .
qed

lemma join_listed:
  assumes "join_streams res left right max_delta = Inr j"
  shows "sorted (map (\<lambda>p. (fint (jp_delta p), jp_left p, jp_right p)) (sj_pairs j))
    \<and> distinct (map (\<lambda>p. (jp_left p, jp_right p)) (sj_pairs j))
    \<and> (\<forall>p\<in>set (sj_pairs j). sorted (jp_windows p) \<and> distinct (jp_windows p))
    \<and> sj_left_count j = length (stream_events res (strip left)) \<and> sj_right_count j = length (stream_events res (strip right))"
proof -
  obtain ps where ps: "map_res (\<lambda>(e, f). make_pair (ev_id e) (ev_id f) (pair_delta e f) (shared_windows res (strip left) (strip right) (ev_id e) (ev_id f)))
       (filter (within_tolerance max_delta) (List.product (stream_events res (strip left)) (stream_events res (strip right)))) = Inr ps"
    and sj: "sj_pairs j = sort_key pair_key ps" and d: "distinct (map (\<lambda>p. (jp_left p, jp_right p)) ps)"
    and n: "sj_left_count j = length (stream_events res (strip left))" "sj_right_count j = length (stream_events res (strip right))"
    using join_parts [OF assms] by metis
  have "list_all (\<lambda>p. sorted (jp_windows p) \<and> distinct (jp_windows p)) ps"
    using ps unfolding map_res_eq_Inr by (auto simp: list_all2_conv_all_nth list_all_length dest!: make_pair_windows) (metis (no_types, lifting) case_prod_beta make_pair_windows)+
  then have "\<forall>p\<in>set (sj_pairs j). sorted (jp_windows p) \<and> distinct (jp_windows p)" by (simp add: sj list_all_iff)
  moreover have "sorted (map (\<lambda>p. (fint (jp_delta p), jp_left p, jp_right p)) (sj_pairs j))"
    using sorted_sort_key [of pair_key ps] unfolding sj pair_key_def [abs_def] .
  moreover have "mset (map (\<lambda>p. (jp_left p, jp_right p)) (sj_pairs j)) = mset (map (\<lambda>p. (jp_left p, jp_right p)) ps)" by (simp add: sj)
  then have "distinct (map (\<lambda>p. (jp_left p, jp_right p)) (sj_pairs j))" using d mset_eq_imp_distinct_iff by blast
  ultimately show ?thesis using n by blast
qed

end
