(* ===== verification/Clock.thy ===== *)
theory Clock
  imports Events
begin

text \<open>
  \<open>clock.py\<close>: the constant clock offset estimated as the median of matched anchors. The law is
  its robustness: while more than half of the anchors have an offset in an interval, the estimate
  lies in it, rounding included, whatever the others are.
\<close>

section \<open>The operation\<close>

text \<open>Division by two.\<close>

definition half :: "int \<Rightarrow> int" where
  "half n = sgn n * int (round_ratio (nat \<bar>n\<bar>) 2)"

fun fhalf :: "pyfloat \<Rightarrow> pyfloat" where
  "fhalf (Fin n) = (if n < 0 \<and> half n = 0 then NegZero else Fin (half n))"
| "fhalf x = x"

text \<open>\<open>statistics.median\<close> of finite floats.\<close>

definition fmedian :: "pyfloat list \<Rightarrow> pyfloat" where
  "fmedian xs =
     (let d = sort_key fint xs; n = length d
      in if odd n then d ! (n div 2) else fhalf (fadd (d ! (n div 2 - 1)) (d ! (n div 2))))"

record offset_estimate =
  oe_offset :: pyfloat
  oe_anchors :: nat
  oe_median :: pyfloat
  oe_max :: pyfloat

definition make_offset_estimate :: "pyfloat \<Rightarrow> nat \<Rightarrow> pyfloat \<Rightarrow> pyfloat \<Rightarrow> offset_estimate res" where
  "make_offset_estimate offset n median_residual max_residual =
     (if \<not> is_finite offset then Inl ValidationError
      else if \<not> (1 \<le> n \<and> n \<le> MAX_EVENTS) then Inl ValidationError
      else if \<not> is_finite median_residual \<or> \<not> is_finite max_residual then Inl ValidationError
      else if flt median_residual (Fin 0) \<or> flt max_residual median_residual then Inl ValidationError
      else Inr \<lparr>oe_offset = offset, oe_anchors = n, oe_median = median_residual, oe_max = max_residual\<rparr>)"

text \<open>An anchor is a pair of the reference and the observed time.\<close>

definition anchor_sample :: "pyfloat \<times> pyfloat \<Rightarrow> (pyfloat \<times> pyfloat) res" where
  "anchor_sample p =
     (if \<not> is_finite (fst p) \<or> \<not> is_finite (snd p) then Inl ValidationError
      else let offset = fsub (fst p) (snd p)
           in if \<not> is_finite offset then Inl ValidationError else Inr (snd p, offset))"

definition anchor_samples :: "(pyfloat \<times> pyfloat) list \<Rightarrow> (pyfloat \<times> pyfloat) list res" where
  "anchor_samples ps = map_res anchor_sample ps"

definition bounded_anchors :: "(pyfloat \<times> pyfloat) list \<Rightarrow> nat \<Rightarrow> (pyfloat \<times> pyfloat) list res" where
  "bounded_anchors ps n = (if n < length ps then Inl ValidationError else Inr ps)"

definition estimate_offset :: "(pyfloat \<times> pyfloat) list \<Rightarrow> offset_estimate res" where
  "estimate_offset anchors =
     rbind (bounded_anchors anchors MAX_EVENTS) (\<lambda>ps.
     if ps = [] then Inl ValidationError
     else rbind (anchor_samples ps) (\<lambda>samples.
       let offsets = map snd samples; estimate = fmedian offsets; residuals = map (\<lambda>v. fabs (fsub v estimate)) offsets
       in if \<not> is_finite estimate \<or> list_ex (\<lambda>v. \<not> is_finite v) residuals then Inl ValidationError
          else make_offset_estimate estimate (length offsets) (fmedian residuals)
                 (foldl fmax (hd residuals) (tl residuals))))"

section \<open>Robustness\<close>

lemma half_mono: "m \<le> n \<Longrightarrow> half m \<le> half n"
proof -
  have pos: "half m \<le> half n" if "0 \<le> m" "m \<le> n" for m n
  proof (cases "m = 0")
    case False
    have "round_ratio (nat \<bar>m\<bar>) 2 \<le> round_ratio (nat \<bar>n\<bar>) 2" using that by (intro round_ratio_mono) simp_all
    then show ?thesis using that False by (simp add: half_def)
  qed (use that in \<open>simp add: half_def sgn_if\<close>)
  have minus: "half (- n) = - half n" for n by (simp add: half_def)
  have nonneg: "0 \<le> half n" if "0 \<le> n" for n using that by (simp add: half_def sgn_if)
  assume le: "m \<le> n"
  consider "0 \<le> m" | "m < 0" "0 \<le> n" | "n < 0" by linarith
  then show ?thesis
  proof cases
    case 2
    then show ?thesis using nonneg [of n] nonneg [of "- m"] by (simp add: minus)
  next
    case 3
    then show ?thesis using pos [of "- n" "- m"] le by (simp add: minus)
  qed (use pos le in simp)
qed

lemma half_double: "is_double n \<Longrightarrow> half (2 * n) = n"
proof -
  assume d: "is_double n"
  have "nat \<bar>2 * n\<bar> = nat \<bar>n\<bar> * 2" by (simp add: abs_mult nat_mult_distrib)
  then have "round_ratio (nat \<bar>2 * n\<bar>) 2 = round_ratio (nat \<bar>n\<bar>) 1" using round_ratio_scale [of 2 "nat \<bar>n\<bar>" 1] by simp
  then have "half (2 * n) = rnd n" by (simp add: half_def rnd_def sgn_mult)
  then show ?thesis using rnd_exact [OF d] by simp
qed

lemma excess_double: "excess (2 * n) \<le> Suc (excess n)"
proof -
  have "blen (2 * n) \<le> Suc (blen n)" unfolding blen_le_iff using blen_upper [of n] by simp
  then show ?thesis by (simp add: excess_def)
qed

lemma is_double_twice: "is_double n \<Longrightarrow> is_double (2 * n)"
proof -
  assume d: "is_double n"
  have e: "nat \<bar>2 * n\<bar> = 2 * nat \<bar>n\<bar>" by (simp add: abs_mult nat_mult_distrib)
  have "(2::int) ^ excess (nat \<bar>2 * n\<bar>) dvd 2 ^ Suc (excess (nat \<bar>n\<bar>))"
    unfolding e by (rule le_imp_power_dvd [OF excess_double])
  also have "2 ^ Suc (excess (nat \<bar>n\<bar>)) dvd 2 * n" using d by (simp add: is_double_def)
  finally show ?thesis by (simp add: is_double_def)
qed

lemma half_zero: "half 0 = 0"
  by (simp add: half_def)

lemma fhalf_finite: "is_finite (fhalf x) \<longleftrightarrow> is_finite x" "is_finite x \<Longrightarrow> fint (fhalf x) = half (fint x)"
  using half_zero by (cases x; simp split: if_splits)+

text \<open>The halved sum of two floats of an interval lies in it.\<close>

lemma midpoint_bounds:
  assumes "is_finite a" "is_finite b" "is_finite (fhalf (fadd a b))" "is_double lo" "is_double hi"
    and "lo \<le> fint a" "lo \<le> fint b" "fint a \<le> hi" "fint b \<le> hi"
  shows "lo \<le> fint (fhalf (fadd a b))" "fint (fhalf (fadd a b)) \<le> hi"
proof -
  have f: "is_finite (fadd a b)" using assms(3) by (simp add: fhalf_finite)
  have e: "fint (fhalf (fadd a b)) = half (rnd (fint a + fint b))"
    using fint_fadd [OF assms(1,2) f] fhalf_finite(2) [OF f] by simp
  have "2 * lo \<le> rnd (fint a + fint b)"
    using rnd_mono [of "2 * lo" "fint a + fint b"] rnd_exact [OF is_double_twice [OF assms(4)]] assms(6,7) by simp
  from half_mono [OF this] show "lo \<le> fint (fhalf (fadd a b))" unfolding e by (simp add: half_double [OF assms(4)])
  have "rnd (fint a + fint b) \<le> 2 * hi"
    using rnd_mono [of "fint a + fint b" "2 * hi"] rnd_exact [OF is_double_twice [OF assms(5)]] assms(8,9) by simp
  from half_mono [OF this] show "fint (fhalf (fadd a b)) \<le> hi" unfolding e by (simp add: half_double [OF assms(5)])
qed

text \<open>The middle of a sorted list is inside when the outside is a minority.\<close>

lemma length_filter_prefix: "k \<le> length d \<Longrightarrow> \<forall>i<k. P (d ! i) \<Longrightarrow> k \<le> length (filter P d)"
proof -
  assume k: "k \<le> length d" and P: "\<forall>i<k. P (d ! i)"
  have "filter P (take k d) = take k d" using k P by (auto simp: filter_id_conv in_set_conv_nth)
  moreover have "filter P d = filter P (take k d) @ filter P (drop k d)" by (metis append_take_drop_id filter_append)
  ultimately show ?thesis using k by simp
qed

lemma length_filter_suffix: "k \<le> length d \<Longrightarrow> \<forall>i. k \<le> i \<and> i < length d \<longrightarrow> P (d ! i) \<Longrightarrow> length d - k \<le> length (filter P d)"
proof -
  assume k: "k \<le> length d" and P: "\<forall>i. k \<le> i \<and> i < length d \<longrightarrow> P (d ! i)"
  have "filter P (drop k d) = drop k d" using P k by (auto simp: filter_id_conv in_set_conv_nth)
  moreover have "filter P d = filter P (take k d) @ filter P (drop k d)" by (metis append_take_drop_id filter_append)
  ultimately show ?thesis by simp
qed

lemma middle_inside:
  fixes d :: "int list"
  assumes "sorted d" "2 * length (filter (\<lambda>x. \<not> (lo \<le> x \<and> x \<le> hi)) d) < length d" "k < length d"
    and "length d \<le> 2 * (k + 1)" "length d \<le> 2 * (length d - k)"
  shows "lo \<le> d ! k" "d ! k \<le> hi"
proof -
  define out where "out = length (filter (\<lambda>x. \<not> (lo \<le> x \<and> x \<le> hi)) d)"
  have out: "2 * out < length d" using assms(2) by (simp only: out_def)
  show "lo \<le> d ! k"
  proof (rule ccontr)
    assume "\<not> lo \<le> d ! k"
    then have "\<forall>i<k + 1. \<not> (lo \<le> d ! i \<and> d ! i \<le> hi)"
      using sorted_nth_mono [OF assms(1), of _ k] assms(3) by (auto simp: less_Suc_eq_le) fastforce
    then have "k + 1 \<le> out" unfolding out_def using assms(3) by (intro length_filter_prefix) simp_all
    then show False using out assms(4) by simp
  qed
  show "d ! k \<le> hi"
  proof (rule ccontr)
    assume "\<not> d ! k \<le> hi"
    then have "\<forall>i. k \<le> i \<and> i < length d \<longrightarrow> \<not> (lo \<le> d ! i \<and> d ! i \<le> hi)"
      using sorted_nth_mono [OF assms(1), of k] by fastforce
    then have "length d - k \<le> out" unfolding out_def using assms(3) by (intro length_filter_suffix) simp_all
    then show False using out assms(5) by simp
  qed
qed

lemma fmedian_inside:
  assumes fin: "\<forall>x\<in>set xs. is_finite x" and est: "is_finite (fmedian xs)" and d: "is_double lo" "is_double hi"
    and most: "2 * length (filter (\<lambda>x. \<not> (lo \<le> fint x \<and> fint x \<le> hi)) xs) < length xs"
  shows "lo \<le> fint (fmedian xs)" "fint (fmedian xs) \<le> hi"
proof -
  define s where "s = sort_key fint xs"
  define n where "n = length xs"
  have n: "length s = n" "0 < n" using most by (auto simp: s_def n_def)
  have "length (filter (\<lambda>x. \<not> (lo \<le> fint x \<and> fint x \<le> hi)) s) = length (filter (\<lambda>x. \<not> (lo \<le> fint x \<and> fint x \<le> hi)) xs)"
    unfolding s_def filter_sort by simp
  then have m: "2 * length (filter (\<lambda>x. \<not> (lo \<le> x \<and> x \<le> hi)) (map fint s)) < length (map fint s)"
    using most by (simp add: filter_map comp_def n n_def)
  have at: "lo \<le> fint (s ! k) \<and> fint (s ! k) \<le> hi" if "k < n" "n \<le> 2 * (k + 1)" "n \<le> 2 * (n - k)" for k
  proof -
    have "sorted (map fint s)" by (simp add: s_def)
    from middle_inside [OF this m, of k] that n(1) show ?thesis by simp
  qed
  have fs: "is_finite (s ! k)" if "k < n" for k
    using fin that n(1) nth_mem [of k s] by (simp add: s_def)
  have "lo \<le> fint (fmedian xs) \<and> fint (fmedian xs) \<le> hi"
  proof (cases "odd n")
    case True
    then have "fmedian xs = s ! (n div 2)" by (simp add: fmedian_def Let_def s_def [symmetric] n)
    moreover have "n div 2 < n" "n \<le> 2 * (n div 2 + 1)" "n \<le> 2 * (n - n div 2)" using n(2) by presburger+
    ultimately show ?thesis using at by simp
  next
    case False
    then have e: "fmedian xs = fhalf (fadd (s ! (n div 2 - 1)) (s ! (n div 2)))" by (simp add: fmedian_def Let_def s_def [symmetric] n)
    obtain h where h: "n = 2 * h" "0 < h" using False n(2) by (auto elim: evenE)
    have a: "lo \<le> fint (s ! (h - 1)) \<and> fint (s ! (h - 1)) \<le> hi" by (rule at) (use h in simp_all)
    have b: "lo \<le> fint (s ! h) \<and> fint (s ! h) \<le> hi" by (rule at) (use h in simp_all)
    have f: "is_finite (s ! (h - 1))" "is_finite (s ! h)" using fs [of "h - 1"] fs [of h] h by simp_all
    show ?thesis
      using midpoint_bounds [OF f _ d] a b est unfolding e by (simp add: h)
  qed
  then show "lo \<le> fint (fmedian xs)" "fint (fmedian xs) \<le> hi" by simp_all
qed

lemma anchor_samples_offsets:
  "anchor_samples ps = Inr samples \<Longrightarrow> map snd samples = map (\<lambda>p. fsub (fst p) (snd p)) ps \<and> (\<forall>x\<in>snd ` set samples. is_finite x)"
  unfolding anchor_samples_def
proof (induction ps arbitrary: samples)
  case (Cons p ps)
  obtain x xs where x: "anchor_sample p = Inr x" "map_res anchor_sample ps = Inr xs" "samples = x # xs" using Cons.prems by auto
  then show ?case using Cons.IH [OF x(2)] by (simp add: anchor_sample_def Let_def split: if_splits) (metis snd_conv)
qed simp

lemma estimate_offset_inside:
  assumes "estimate_offset anchors = Inr r" "is_double lo" "is_double hi"
    and "2 * length (filter (\<lambda>p. \<not> (lo \<le> fint (fsub (fst p) (snd p)) \<and> fint (fsub (fst p) (snd p)) \<le> hi)) anchors) < length anchors"
  shows "lo \<le> fint (oe_offset r)" "fint (oe_offset r) \<le> hi"
proof -
  obtain samples where s: "anchor_samples anchors = Inr samples" "is_finite (fmedian (map snd samples))" "oe_offset r = fmedian (map snd samples)"
    using assms(1) by (auto simp: estimate_offset_def bounded_anchors_def make_offset_estimate_def Let_def split: if_splits)
  note m = anchor_samples_offsets [OF s(1)]
  have f: "\<forall>x\<in>set (map snd samples). is_finite x" using m unfolding set_map by blast
  have "2 * length (filter (\<lambda>x. \<not> (lo \<le> fint x \<and> fint x \<le> hi)) (map snd samples)) < length (map snd samples)"
    using assms(4) m by (simp add: filter_map comp_def)
  then show "lo \<le> fint (oe_offset r)" "fint (oe_offset r) \<le> hi"
    using fmedian_inside [OF f s(2) assms(2,3)] by (simp_all add: s(3))
qed

end
