(* ===== verification/Offline_Properties.thy ===== *)
theory Offline_Properties
  imports Published_Records Sessions Partition Stream_Joins Clock Event_Properties
begin

text \<open>The properties of the offline operations: alignment, sessions, stream joins, clock offsets.\<close>

section \<open>Samples\<close>

definition second_event :: event where
  "second_event = (sample_event 122 5)\<lparr>ev_stream := [98]\<rparr>"

definition sample_result :: alignment_result where
  "sample_result = \<lparr>ar_windows = [\<lparr>aw_index = 0, aw_start = ms 0, aw_end = ms 10, aw_events = [sample_event 120 3, second_event], aw_missing = []\<rparr>],
     ar_gaps = [], ar_dropped = [], ar_late = [], ar_unassigned = []\<rparr>"

lemma second_event_ok: "event_ok second_event"
  using sample_event_ok [of 122 5] by (simp add: second_event_def event_ok_def event_end_def is_label_char)

lemma second_fields:
  "ev_id second_event = [122]" "ev_stream second_event = [98]" "ev_time second_event = ms 5" "ev_duration second_event = Fin 0"
  by (simp_all add: second_event_def)

lemma ms_sub: "\<bar>a - b\<bar> \<le> 2 ^ 53 \<Longrightarrow> fsub (ms a) (ms b) = ms (a - b)"
  using ms_units [of "a - b"] by (simp add: fsub_def fadd_finite left_diff_distrib)

lemma ms_abs: "fabs (ms a) = ms \<bar>a\<bar>"
  by (simp add: ms_def abs_mult fscale_def)

lemma sample_result_made:
  "make_result [\<lparr>aw_index = 0, aw_start = ms 0, aw_end = ms 10, aw_events = [sample_event 120 3, second_event], aw_missing = []\<rparr>] [] [] [] []
      = Inr sample_result"
  by (simp add: make_result_def admit_window_def snapshot_window_def make_window_def any_finite_PFloat ms_valid ms_less snapshot_event_ok
      sample_event_ok second_event_ok second_fields overlaps_bounds_eq overlaps_def feq_finite see_event_def MAX_EVENTS_def sample_result_def
      label_tuple_ok MAX_OUTPUT_WINDOWS_def MAX_RESULT_GAPS_def MAX_EVENTS_PER_WINDOW_def)

section \<open>Properties\<close>

text \<open>C36: offline alignment does not depend on the order of its input: two collections of valid
  events with distinct identities that differ in order only give the same result or the same error.\<close>
theorem align_events_order_irrelevant:
  assumes "mset xs = mset ys" "distinct (map ev_id xs)" "\<forall>e\<in>set xs. event_ok e"
  shows "align_events xs raw = align_events ys raw"
  by (rule align_events_perm [OF assms])

theorem align_events_order_irrelevant_witness:
  "align_events [sample_event 121 25, second_event, sample_event 120 3] sample_config
    = align_events [sample_event 120 3, sample_event 121 25, second_event] sample_config"
  by (rule align_events_order_irrelevant)
    (simp_all add: sample_event_ok second_event_ok, simp_all add: second_event_def)

text \<open>C37: a published alignment result is well-formed for good: taken apart and passed through the
  constructor again, as every \<open>to_dict\<close> does before it publishes, it passes all the checks and comes
  back unchanged, and the same holds of each of its windows and gaps.\<close>
theorem result_revalidates:
  assumes "make_result windows gaps dropped late unassigned = Inr r"
  shows "snapshot_result r = Inr r \<and> (\<forall>w\<in>set (ar_windows r). snapshot_window w = Inr w) \<and> (\<forall>g\<in>set (ar_gaps r). snapshot_gap g = Inr g)"
  using make_result_again [OF assms] make_result_parts [OF assms] by blast

theorem result_revalidates_witness: "snapshot_result sample_result = Inr sample_result"
  using result_revalidates [OF sample_result_made] by simp

text \<open>The gap is measured from the running end of a session, not from the end of the previous event:
  \<open>a\<close> lasts from 0 to 100, \<open>b\<close> from 10 to 11, and \<open>c\<close> at 105, with a gap of 10, is still in their
  session, though it starts 94 after the end of \<open>b\<close>, the event before it.\<close>

definition lasting :: "nat \<Rightarrow> int \<Rightarrow> int \<Rightarrow> event" where
  "lasting i t d = (sample_event i t)\<lparr>ev_duration := ms d\<rparr>"

lemma session_outlives_previous_event:
  "\<exists>r. sessionize [lasting 97 0 100, lasting 98 10 1, sample_event 99 105] (ms 10) = Inr r
    \<and> map sw_ids (sr_windows r) = [[[97], [98], [99]]]
    \<and> flt (ms 10) (fsub (ev_time (sample_event 99 105)) (event_end (lasting 98 10 1)))"
  by (simp add: sessionize_def lasting_def stream_sessions_def time_order_def event_horizon_def event_end_def Let_def ms_add ms_sub ms_less
      fmax_def flt_finite feq_finite fscale_def)

text \<open>C38: the sessions of a stream are the only ones: its events in time order are cut into runs; each
  event of a run but the first starts within the gap of the running end, the greatest exclusive end
  among the events of the run before it (which need not be the end of the previous event), and each
  later run starts beyond the gap after the end of the run before. There is one way to do that, the
  windows of the stream are exactly these runs, all windows are numbered through, and the order of
  the input does not matter.\<close>
theorem sessionize_exact:
  assumes "sessionize events gap = Inr r"
  shows "map sw_index (sr_windows r) = [0..<length (sr_windows r)]
    \<and> (\<forall>s. \<exists>!runs. is_sessions gap (time_order (filter (\<lambda>e. ev_stream e = s) events)) runs)
    \<and> (\<forall>s. \<exists>i runs. is_sessions gap (time_order (filter (\<lambda>e. ev_stream e = s) events)) runs
          \<and> filter (\<lambda>w. sw_stream w = s) (sr_windows r) = map (\<lambda>(k, q). session_of s (i + k) q) (enumerate 0 runs))
    \<and> (\<forall>events'. mset events' = mset events \<longrightarrow> sessionize events' gap = Inr r)"
proof (intro conjI allI impI)
  define streams where "streams = sort (remdups (map ev_stream events))"
  have w: "sr_windows r = all_sessions gap events streams 0"
    using assms by (auto simp: sessionize_def streams_def Let_def split: if_splits)
  show "map sw_index (sr_windows r) = [0..<length (sr_windows r)]" unfolding w using all_sessions_index by simp
  fix s
  define ordered where "ordered = time_order (filter (\<lambda>e. ev_stream e = s) events)"
  obtain runs where "is_sessions gap ordered runs" using stream_sessions_runs by blast
  then show "\<exists>!runs. is_sessions gap (time_order (filter (\<lambda>e. ev_stream e = s) events)) runs"
    using is_sessions_unique unfolding ordered_def by blast
  have d: "distinct streams" by (simp add: streams_def)
  obtain i where "filter (\<lambda>w. sw_stream w = s) (sr_windows r) = (if s \<in> set streams then stream_sessions gap s ordered i else [])"
    unfolding w ordered_def using all_sessions_stream [OF d, of s gap events 0] by blast
  moreover have "ordered = []" if "s \<notin> set streams"
  proof -
    have "filter (\<lambda>e. ev_stream e = s) events = []" using that by (auto simp: streams_def filter_empty_conv)
    then show ?thesis by (simp add: ordered_def time_order_def)
  qed
  ultimately have "filter (\<lambda>w. sw_stream w = s) (sr_windows r) = stream_sessions gap s ordered i"
    by (auto simp: stream_sessions_def)
  then show "\<exists>i runs. is_sessions gap (time_order (filter (\<lambda>e. ev_stream e = s) events)) runs
      \<and> filter (\<lambda>w. sw_stream w = s) (sr_windows r) = map (\<lambda>(k, q). session_of s (i + k) q) (enumerate 0 runs)"
    using stream_sessions_runs [of gap ordered s i] unfolding ordered_def by metis
next
  fix events' assume "mset events' = mset events"
  then show "sessionize events' gap = Inr r" using sessionize_perm assms by metis
qed

theorem sessionize_exact_witness:
  "\<exists>r. sessionize [sample_event 120 3, sample_event 121 25, second_event] (ms 4) = Inr r
    \<and> map sw_index (sr_windows r) = [0..<length (sr_windows r)]
    \<and> sessionize [second_event, sample_event 120 3, sample_event 121 25] (ms 4) = Inr r"
proof -
  obtain r where r: "sessionize [sample_event 120 3, sample_event 121 25, second_event] (ms 4) = Inr r"
    by (simp add: sessionize_def second_fields flt_finite Let_def fscale_def)
  then show ?thesis using sessionize_exact [OF r] by (auto simp: add_mset_commute)
qed

text \<open>C39: the offset estimate is robust: while fewer than half of the anchors have an offset outside an
  interval of floats, the estimate lies in the interval, rounding included, whatever the other
  anchors say.\<close>
theorem estimate_offset_robust:
  assumes "estimate_offset anchors = Inr r" "is_double lo" "is_double hi"
    and "2 * length (filter (\<lambda>p. \<not> (lo \<le> fint (fsub (fst p) (snd p)) \<and> fint (fsub (fst p) (snd p)) \<le> hi)) anchors) < length anchors"
  shows "lo \<le> fint (oe_offset r) \<and> fint (oe_offset r) \<le> hi"
  using estimate_offset_inside [OF assms] by blast

theorem estimate_offset_robust_witness:
  "\<exists>r. estimate_offset [(ms 15, ms 10), (ms 26, ms 20), (ms 99, ms 20)] = Inr r
    \<and> 5 * fscale \<le> fint (oe_offset r) \<and> fint (oe_offset r) \<le> 6 * fscale"
proof -
  have sorts: "sort_key fint [ms 5, ms 6, ms 79] = [ms 5, ms 6, ms 79]" "sort_key fint [ms 1, ms 0, ms 73] = [ms 0, ms 1, ms 73]"
    by (simp_all add: fscale_def)
  obtain r where r: "estimate_offset [(ms 15, ms 10), (ms 26, ms 20), (ms 99, ms 20)] = Inr r"
    by (simp add: estimate_offset_def bounded_anchors_def anchor_samples_def anchor_sample_def ms_sub ms_abs fmedian_def sorts
        make_offset_estimate_def fmax_def ms_less MAX_EVENTS_def flt_finite fscale_def)
  have "is_double (5 * fscale)" "is_double (6 * fscale)" using ms_valid [of 5] ms_valid [of 6] by (simp_all add: ms_def)
  then show ?thesis using estimate_offset_robust [OF r, of "5 * fscale" "6 * fscale"] r by (simp add: ms_sub fscale_def)
qed

text \<open>C40: a join of two streams is exact. Of a validated result its pairs are precisely the pairs of
  an event of the left and an event of the right stream, from any of the windows, whose starts
  differ by no more than the tolerance, the tolerance included, each with that difference and with
  the windows that hold both events. No pair of identities appears twice, the nearest come first,
  the windows of a pair are in order, and the counts are those of the distinct events.\<close>
theorem join_streams_exact:
  assumes "join_streams res left right max_delta = Inr j" "make_result windows gaps dropped late unassigned = Inr res"
    and "E = (\<Union>w\<in>set (ar_windows res). set (aw_events w))"
  shows "(\<lambda>p. (jp_left p, jp_right p, jp_delta p, set (jp_windows p))) ` set (sj_pairs j)
      = {(ev_id e, ev_id f, fabs (fsub (ev_time e) (ev_time f)),
          {aw_index w | w. w \<in> set (ar_windows res) \<and> ev_id e \<in> ev_id ` set (aw_events w) \<and> ev_id f \<in> ev_id ` set (aw_events w)}) | e f.
         e \<in> E \<and> f \<in> E \<and> ev_stream e = strip left \<and> ev_stream f = strip right
         \<and> (case max_delta of None \<Rightarrow> True | Some t \<Rightarrow> fle (fabs (fsub (ev_time e) (ev_time f))) t)}
    \<and> distinct (map (\<lambda>p. (jp_left p, jp_right p)) (sj_pairs j))
    \<and> sorted (map (\<lambda>p. (fint (jp_delta p), jp_left p, jp_right p)) (sj_pairs j))
    \<and> (\<forall>p\<in>set (sj_pairs j). sorted (jp_windows p) \<and> distinct (jp_windows p))
    \<and> sj_left_count j = card (ev_id ` {e \<in> E. ev_stream e = strip left})
    \<and> sj_right_count j = card (ev_id ` {e \<in> E. ev_stream e = strip right})"
proof -
  have E: "E = all_events (ar_windows res)" using assms(3) by (simp add: all_events_def)
  have c: "coherent (all_events (ar_windows res))" by (rule make_result_coherent [OF assms(2)])
  have d: "distinct (map aw_index (ar_windows res))" using assms(2) by (auto simp: make_result_def split: if_splits)
  have "sorted (map (\<lambda>p. (fint (jp_delta p), jp_left p, jp_right p)) (sj_pairs j))"
      "distinct (map (\<lambda>p. (jp_left p, jp_right p)) (sj_pairs j))" "\<forall>p\<in>set (sj_pairs j). sorted (jp_windows p) \<and> distinct (jp_windows p)"
      "sj_left_count j = length (stream_events res (strip left))" "sj_right_count j = length (stream_events res (strip right))"
    using join_listed [OF assms(1)] by blast+
  moreover have "length (stream_events res s) = card (ev_id ` {e \<in> E. ev_stream e = s})" for s
    using stream_events_exact [of res s] distinct_card [of "map ev_id (stream_events res s)"] unfolding E by (simp add: image_image)
  ultimately show ?thesis using joined_pairs_exact [OF assms(1) c d] unfolding E by simp
qed

theorem join_streams_exact_witness:
  "\<exists>j. join_streams sample_result [97] [98] (Some (ms 2)) = Inr j
    \<and> sj_left_count j = 1 \<and> sj_right_count j = 1
    \<and> ([120], [122], ms 2, {0}) \<in> (\<lambda>p. (jp_left p, jp_right p, jp_delta p, set (jp_windows p))) ` set (sj_pairs j)"
proof -
  have "\<exists>j. join_streams sample_result [97] [98] (Some (ms 2)) = Inr j"
    by (simp add: join_streams_def sample_result_def join_name_label is_label_char join_tolerance_def ms_less stream_events_def second_fields
        time_order_def within_tolerance_def pair_delta_def ms_sub ms_abs MAX_JOIN_COMPARISONS_def MAX_RESULT_GAPS_def make_pair_def make_join_def
        flt_finite shared_windows_def event_windows_def Let_def fscale_def)
  then obtain j where j: "join_streams sample_result [97] [98] (Some (ms 2)) = Inr j" by blast
  have E: "(\<Union>w\<in>set (ar_windows sample_result). set (aw_events w)) = {sample_event 120 3, second_event}"
    by (simp add: sample_result_def)
  have "is_label [97]" "is_label [98]" by (simp_all add: is_label_char)
  then have s: "strip [97] = [97]" "strip [98] = [98]" by (simp_all add: is_label_def)
  have side: "{e \<in> {sample_event 120 3, second_event}. ev_stream e = [97]} = {sample_event 120 3}"
    "{e \<in> {sample_event 120 3, second_event}. ev_stream e = [98]} = {second_event}"
    by (auto simp: second_fields)
  have w: "{aw_index w | w. w \<in> set (ar_windows sample_result) \<and> ev_id (sample_event 120 3) \<in> ev_id ` set (aw_events w)
      \<and> ev_id second_event \<in> ev_id ` set (aw_events w)} = {0}"
    by (simp add: sample_result_def)
  have d: "fabs (fsub (ev_time (sample_event 120 3)) (ev_time second_event)) = ms 2" by (simp add: second_fields ms_sub ms_abs)
  note t = join_streams_exact [OF j sample_result_made E [symmetric]]
  have "([120], [122], ms 2, {0}) \<in> (\<lambda>p. (jp_left p, jp_right p, jp_delta p, set (jp_windows p))) ` set (sj_pairs j)"
    unfolding t [THEN conjunct1] s
    by (rule CollectI, rule exI [of _ "sample_event 120 3"], rule exI [of _ second_event]) (unfold w d, simp add: second_fields fle_refl)
  then show ?thesis using j t side by (simp add: s)
qed

end
