(* ===== verification/Spec2Isabelle.thy ===== *)
theory Spec2Isabelle
  imports Window_Graph_Properties Multi_Properties Ordered_Properties Grid_Gap Aligner_Reports Offline_Properties
begin

text \<open>
  Stream Quilt: bounded, recoverable stream processing. This library models the computing core of
  the package \<open>src/src/stream_quilt\<close> and proves what makes it correct.

  \<^bold>\<open>The parts and how they interact.\<close> The package has two families of components. The \<^emph>\<open>dataflow\<close>
  family moves keyed records through operators: a linear flow (\<open>dataflow.py\<close>), graphs with branches
  and merges (\<open>branching.py\<close>), keyed joins (\<open>keyed_join.py\<close>), folds over windows of timestamps
  (\<open>window_fold.py\<close>), a buffer that brings inputs into timestamp order before such a fold
  (\<open>ordered_window.py\<close>), graphs around one window (\<open>window_graph.py\<close>), and graphs with several
  sources and with joins as nodes (\<open>multi_graph.py\<close>). All of them stage an operation on copies and
  install the new state only when everything succeeded; all of them charge budgets (records, bytes,
  keys, callback calls) before they grow; all of them have checkpoints that a new runtime can be
  restored from. The graphs share one walk, \<open>_walk_graph\<close>, and give it their own hooks. The
  \<^emph>\<open>event-time\<close> family aligns events of several streams on a regular grid of windows: the model of
  events and corrections (\<open>models.py\<close>), an index of intervals (\<open>interval_index.py\<close>), the streaming
  aligner with its watermarks and retention (\<open>aligner.py\<close>) and its checkpoints (\<open>checkpoint.py\<close>),
  event files (\<open>io.py\<close>), and offline operations on finite collections (\<open>align_events\<close> and
  \<open>detect_gaps\<close> of \<open>aligner.py\<close>, \<open>sessions.py\<close>, \<open>partition.py\<close>, \<open>joins.py\<close>, \<open>clock.py\<close>).

  \<^bold>\<open>Conventions.\<close> Python strings are lists of code points (\<open>pystr\<close>), integers are \<open>int\<close>, dicts are
  association lists in insertion order (\<open>dget\<close>, \<open>dput\<close>, \<open>ddel\<close>), floats are binary64 values with
  explicit rounding. An exception is a value of \<open>pyexc\<close>: a staged transition returns \<open>'a res\<close>
  (\<open>Inl\<close> the exception, \<open>Inr\<close> the result), a method that changes its object returns
  \<open>'a res \<times> state\<close>. Only the class of an exception is modelled, never its message. Caller-supplied
  callbacks are functions from Python values to a value or an exception; they are parameters of the
  model. A \<open>_busy\<close> flag makes a runtime refuse a reentrant call. \<open>sorted\<close> is \<open>sort_key\<close>, stable as
  Python's. Where the source has a generator (\<open>run\<close>), the model consumes a list and returns what was
  left of it.

  \<^bold>\<open>Values.\<close> \<open>Prelude\<close> has the results, dicts and string lemmas; \<open>Py_Float\<close> Python's floats, with
  monotonicity of the rounded operations; \<open>Py_Json\<close> and \<open>Py_Json_Laws\<close> the \<open>json\<close> encoder and decoder
  and that the decoder inverts the encoder; \<open>Py_Hash\<close> SHA-256; \<open>Flow_Values\<close> and \<open>Model_Values\<close> the
  two value boundaries (counts, keys, labels, deep snapshots) of \<open>dataflow.py\<close> and \<open>models.py\<close>;
  \<open>Documents\<close> typed readers of wire documents and the canonical codec of \<open>flow_journal._encode\<close>;
  \<open>Wire_Cost\<close> a bound of the encoded size that ignores field order.

  \<^bold>\<open>Dataflow.\<close> \<open>Runtime\<close> is the interface of every runtime, the locale \<open>atomic_runtime\<close>: an operation
  either returns and keeps the invariant, or raises and changes nothing. It gives, for sequences of
  operations, that the invariant holds throughout and that failed operations can be erased; it is
  interpreted for the flow, the graph, the join, the window fold, the ordered window fold, the window
  graph and the multi-source graph. \<open>Dataflow\<close> models \<open>FlowRuntime\<close> and the transaction
  (\<open>apply_step\<close>, \<open>commit_tx\<close>), \<open>Dataflow_Laws\<close> its accounting, \<open>Flow_Checkpoint_Laws\<close> and
  \<open>Flow_Runtime_Laws\<close> the checkpoints, recovery and isolation of steps, \<open>Sample_Flow\<close> concrete values.
  \<open>Branching\<close> models the declaration checks, \<open>topological_order\<close> and \<open>walk_graph\<close>; \<open>Branching_Laws\<close>
  the order, the budgets and the totality of the walk; \<open>Graph_Runtime_Laws\<close> the runtime. \<open>Walk_Rules\<close>
  is the induction principle of the walk under arbitrary hooks (locale \<open>walk_invariant\<close>), used by the
  window graph and the multi-source graph; \<open>Walk_Arrivals\<close> reads off a walk what it delivers to one
  node (\<open>arrivals\<close>) and shows, in the locale \<open>watched_walk\<close>, that the component of that node moves by
  exactly these deliveries and that the counters of its edges grow by them. \<open>Keyed_Join\<close>, \<open>Keyed_Join_Laws\<close>, \<open>Join_Recovery\<close> and
  \<open>Join_Properties\<close> hold the join: cells and their exact projection, the three insertion and three
  emission modes, closing and draining, counters and recovery. \<open>Window_Fold\<close>, \<open>Window_Fold_Laws\<close>,
  \<open>Window_Finality\<close>, \<open>Window_Recovery\<close> and \<open>Window_Properties\<close> hold the window fold: membership
  arithmetic, watermarks, lateness, one emission per window, draining, checkpoints. \<open>Ordered_Window\<close>,
  \<open>Ordered_Window_Laws\<close>, \<open>Ordered_Recovery\<close> and \<open>Ordered_Properties\<close> hold the ordered buffer and its
  simulation by the arrival-ordered fold. \<open>Window_Graph\<close>, \<open>Window_Hooks\<close> (the fold under metering
  hooks, locale \<open>window_meter\<close>), \<open>Window_Graph_Laws\<close>, \<open>Window_Quiet\<close>, \<open>Window_Graph_Runtime\<close>,
  \<open>Window_Calls\<close> (the public calls on the window that one operation amounts to, interpreting
  \<open>watched_walk\<close>), \<open>Window_Graph_Sample\<close> (an evaluated graph) and \<open>Window_Graph_Properties\<close> hold the
  window graph: its accounting, its refinement of a \<open>WindowFoldRuntime\<close> operation by operation, and
  what a drain publishes. \<open>Multi_Graph\<close> and \<open>Multi_Checkpoint\<close> model the
  multi-source graph and its checkpoints; \<open>Multi_Graph_Laws\<close> shows that every staged operation keeps
  the aggregate budgets equal to what the keyed state and the joins hold, and that the joins move
  only by operations a \<open>KeyedJoinRuntime\<close> has; \<open>Multi_Ends\<close> how the end of a source travels along
  the edges (inductive predicate \<open>ended\<close>); \<open>Multi_Runtime\<close> the invariant of the runtime and its
  atomicity; \<open>Multi_History\<close> the counters: what an edge into a join delivered is what that side
  counted, the work of all operations bounds the deliveries, no more drains than final rows;
  \<open>Multi_Recovery\<close> that the checkpoint of any such runtime passes the validator and every
  cross-check of the restoration; \<open>Multi_Calls\<close> lists the public calls on one join that an
  operation amounts to and shows that the join moves by exactly these (interpreting
  \<open>watched_walk\<close>); \<open>Multi_Sample\<close> evaluates a graph; \<open>Multi_Properties\<close> holds the properties.

  \<^bold>\<open>Event time.\<close> \<open>Events\<close> models configurations, corrections, the float grid and retention;
  \<open>Interval_Index\<close> the dyadic index, \<open>Interval_Index_Laws\<close> that a query answers like a scan, and
  \<open>Interval_Index_History\<close> the interface \<open>event_store\<close> between index and aligner with its
  interpretation; \<open>Aligner\<close>, \<open>Aligner_Laws\<close>, \<open>Aligner_History\<close>, \<open>Aligner_Progress\<close> and
  \<open>Event_Properties\<close> the aligner against a reference definition of its windows;
  \<open>Aligner_Checkpoint\<close>, \<open>Aligner_Resume\<close> and \<open>Aligner_Reports\<close> its checkpoints and what a restored
  aligner does; \<open>Event_Documents\<close> configurations, events and event files; \<open>Grid_Gap\<close> a configuration
  whose grid is not monotone between its ends; \<open>Alignment\<close>, \<open>Published_Records\<close>, \<open>Sessions\<close>,
  \<open>Partition\<close>, \<open>Stream_Joins\<close>, \<open>Clock\<close> and \<open>Offline_Properties\<close> the offline operations.

  \<^bold>\<open>Bounds and fuel.\<close> The JSON decoder recurses on a fuel of the length of its text plus one, which
  \<open>loads_dumps\<close> shows to be enough for every encoded value. Iterating a generator (\<open>flow_run\<close>,
  \<open>graph_run\<close>, \<open>join_run\<close>, \<open>multi_run\<close>) checks \<open>max_inputs\<close> and then pulls at most that many inputs
  (\<open>flow_pulls\<close>, \<open>graph_pulls\<close>, \<open>join_pulls\<close>, \<open>multi_pulls\<close>, by recursion on this number). Repeated draining
  takes a number of calls; \<open>join_drain_terminates\<close> and \<open>window_drain_ends\<close> show which number suffices.
  All other loops are total functions: \<open>topological_loop\<close> consumes its remaining nodes, the preview
  loop of the aligner approaches the configured number of windows.

  \<^bold>\<open>Not modelled.\<close> The journals (\<open>flow_journal.py\<close> but its codec, \<open>graph_journal.py\<close>,
  \<open>window_journal*.py\<close>, \<open>multi_journal*.py\<close>, \<open>partitioned_journal*.py\<close>) and \<open>recovery.py\<close> but its
  decoder: their behaviour is that of SQL statements run by SQLite. Worker processes and the
  partitioned flow (\<open>_local_worker.py\<close>, \<open>partitioned_flow.py\<close>, \<open>partitioned_checkpoint.py\<close>), the file
  connector, reports, command line, demo and benchmark: operating system, files, clocks and printing.
  \<open>cloudevents.py\<close>: it rests on the URI, date and base64 parsers of the standard library.
  \<open>clock.estimate_drift\<close>: a slope of two anchors can be NaN, and the median of a list with NaN is
  that of Python's sorting algorithm. The reader of window-graph checkpoints. \<open>from_json\<close> of the join and multi-source checkpoints is
  modelled for a \<open>str\<close> payload, not for \<open>bytes\<close>. Threads: a runtime is
  used by one owner, as its documentation demands.
\<close>

end
